(* ===== verification/Prelude.thy ===== *)
theory Prelude
  imports Complex_Main "HOL-Library.AList" "HOL-Library.Word"
begin

text \<open>
  The shared vocabulary of the development: bytes and big-endian integers, JavaScript's
  insertion-ordered \<open>Map\<close> and \<open>Set\<close> as association lists and distinct lists, and the generic
  lemmas on them that every component uses.

  A JavaScript \<open>Map\<close> iterates in insertion order, \<open>set\<close> on a present key keeps its place and
  \<open>set\<close> on a new key appends: that is \<open>AList.update\<close>. The code relies on the order (the first
  key is the oldest one, and is the one evicted), so maps are kept as association lists.
\<close>

unbundle bit_operations_syntax

named_theorems wf_intro \<open>well-formedness of states is kept by an operation\<close>
named_theorems len_simps \<open>lengths of encodings\<close>

subsection \<open>Bytes and big-endian integers\<close>

type_synonym byte = "8 word"
type_synonym bytes = "byte list"
type_synonym peer_id = string

text \<open>The \<open>k\<close> low-order bytes of an integer, most significant first (\<open>DataView.setUintN\<close>).\<close>

fun be_bytes :: "nat \<Rightarrow> int \<Rightarrow> bytes" where
  "be_bytes 0 n = []"
| "be_bytes (Suc k) n = be_bytes k (n div 256) @ [word_of_int n]"

definition be_val :: "bytes \<Rightarrow> int" where
  "be_val bs = foldl (\<lambda>a b. a * 256 + uint b) 0 bs"

lemma length_be_bytes [simp, len_simps]: "length (be_bytes k n) = k"
  by (induction k n rule: be_bytes.induct) auto

lemma be_val_Nil [simp]: "be_val [] = 0"
  by (simp add: be_val_def)

lemma be_val_snoc [simp]: "be_val (bs @ [b]) = be_val bs * 256 + uint b"
  by (simp add: be_val_def)

lemma be_val_nonneg [simp]: "0 \<le> be_val bs"
  by (induction bs rule: rev_induct) auto

lemma be_val_bound: "be_val bs < 256 ^ length bs"
proof (induction bs rule: rev_induct)
  case (snoc b bs)
  have "uint b < 256" using uint_bounded [of b] by simp
  moreover have "be_val bs + 1 \<le> 256 ^ length bs" using snoc by simp
  ultimately have "be_val bs * 256 + uint b < 256 ^ length bs * 256" by linarith
  then show ?case by (simp add: mult.commute)
qed simp

lemma be_val_be_bytes: "be_val (be_bytes k n) = n mod 256 ^ k"
proof (induction k n rule: be_bytes.induct)
  case (2 k n)
  have "uint (word_of_int n :: byte) = n mod 256" by (simp add: uint_word_of_int)
  then show ?case using 2
    using zmod_zmult2_eq [of "256 ^ k" n 256] by (simp add: mult.commute)
qed simp

lemma be_bytes_be_val: "be_bytes (length bs) (be_val bs) = bs"
proof (induction bs rule: rev_induct)
  case (snoc b bs)
  have b: "0 \<le> uint b" "uint b < 256" using uint_bounded [of b] by simp_all
  have "(be_val bs * 256 + uint b) div 256 = be_val bs"
    using b by (simp add: div_add1_eq)
  moreover have "(word_of_int (be_val bs * 256 + uint b) :: byte) = b"
    using b by (intro word_uint_eqI) (simp add: uint_word_of_int del: of_int_add of_int_mult)
  ultimately show ?case using snoc by simp
qed simp

lemma be_val_inject: "length xs = length ys \<Longrightarrow> be_val xs = be_val ys \<longleftrightarrow> xs = ys"
  by (metis be_bytes_be_val)

lemma be_bytes_inject:
  "0 \<le> m \<Longrightarrow> m < 256 ^ k \<Longrightarrow> 0 \<le> n \<Longrightarrow> n < 256 ^ k \<Longrightarrow>
    be_bytes k m = be_bytes k n \<longleftrightarrow> m = n"
  by (metis be_val_be_bytes mod_pos_pos_trivial)

text \<open>\<open>Uint8Array.subarray\<close>/\<open>slice\<close> with clamped bounds.\<close>

definition slice :: "nat \<Rightarrow> nat \<Rightarrow> 'a list \<Rightarrow> 'a list" where
  "slice i j xs = take (j - i) (drop i xs)"

lemma slice_simps [simp]:
  "slice 0 n xs = take n xs"
  "slice n (n + m) xs = take m (drop n xs)"
  by (simp_all add: slice_def)

lemma append_eq_len_conv:
  "length xs = length us \<Longrightarrow> xs @ ys = us @ vs \<longleftrightarrow> xs = us \<and> ys = vs"
  by auto

subsection \<open>JavaScript maps and sets\<close>

type_synonym ('k, 'v) jsmap = "('k \<times> 'v) list"

abbreviation jm_get :: "('k, 'v) jsmap \<Rightarrow> 'k \<Rightarrow> 'v option" where
  "jm_get m k \<equiv> map_of m k"

abbreviation jm_set :: "'k \<Rightarrow> 'v \<Rightarrow> ('k, 'v) jsmap \<Rightarrow> ('k, 'v) jsmap" where
  "jm_set k v m \<equiv> AList.update k v m"

abbreviation jm_del :: "'k \<Rightarrow> ('k, 'v) jsmap \<Rightarrow> ('k, 'v) jsmap" where
  "jm_del k m \<equiv> AList.delete k m"

abbreviation jm_keys :: "('k, 'v) jsmap \<Rightarrow> 'k list" where
  "jm_keys m \<equiv> map fst m"

definition jm_has :: "('k, 'v) jsmap \<Rightarrow> 'k \<Rightarrow> bool" where
  "jm_has m k \<longleftrightarrow> map_of m k \<noteq> None"

definition jm_wf :: "('k, 'v) jsmap \<Rightarrow> bool" where
  "jm_wf m \<longleftrightarrow> distinct (map fst m)"

text \<open>\<open>m.keys().next().value\<close> followed by \<open>m.delete\<close>: drop the oldest entry, if any.\<close>

definition jm_drop_oldest :: "('k, 'v) jsmap \<Rightarrow> ('k, 'v) jsmap" where
  "jm_drop_oldest m = (case m of [] \<Rightarrow> [] | (k, v) # _ \<Rightarrow> jm_del k m)"

definition js_add :: "'a \<Rightarrow> 'a list \<Rightarrow> 'a list" where
  "js_add x s = (if x \<in> set s then s else s @ [x])"

lemma jm_has_iff: "jm_has m k \<longleftrightarrow> k \<in> fst ` set m"
  by (auto simp: jm_has_def map_of_eq_None_iff)

lemma jm_wf_Nil [simp, wf_intro]: "jm_wf []"
  by (simp add: jm_wf_def)

lemma jm_wf_set [simp, wf_intro]: "jm_wf m \<Longrightarrow> jm_wf (jm_set k v m)"
  by (simp add: jm_wf_def distinct_update)

lemma jm_wf_del [simp, wf_intro]: "jm_wf m \<Longrightarrow> jm_wf (jm_del k m)"
  by (simp add: jm_wf_def distinct_delete)

lemma jm_get_set [simp]: "jm_get (jm_set k v m) j = (if j = k then Some v else jm_get m j)"
  by (simp add: update_conv')

lemma jm_get_del [simp]: "jm_get (jm_del k m) j = (if j = k then None else jm_get m j)"
  by (simp add: delete_conv')

lemma jm_has_set [simp]: "jm_has (jm_set k v m) j \<longleftrightarrow> j = k \<or> jm_has m j"
  by (simp add: jm_has_def)

lemma jm_has_del [simp]: "jm_has (jm_del k m) j \<longleftrightarrow> j \<noteq> k \<and> jm_has m j"
  by (simp add: jm_has_def)

lemma jm_has_Nil [simp]: "\<not> jm_has [] k"
  by (simp add: jm_has_def)

lemma jm_set_new: "\<not> jm_has m k \<Longrightarrow> jm_set k v m = m @ [(k, v)]"
  by (induction m) (auto simp: jm_has_def split: if_splits)

lemma jm_set_keys: "jm_keys (jm_set k v m) = (if jm_has m k then jm_keys m else jm_keys m @ [k])"
  by (auto simp: update_keys jm_has_iff)

lemma length_jm_set [len_simps]:
  "length (jm_set k v m) = (if jm_has m k then length m else Suc (length m))"
  by (metis jm_set_keys length_append_singleton length_map)

lemma jm_del_notin: "\<not> jm_has m k \<Longrightarrow> jm_del k m = m"
  by (simp add: jm_has_iff)

lemma length_jm_del: "jm_wf m \<Longrightarrow> length (jm_del k m) = (if jm_has m k then length m - 1 else length m)"
proof (induction m)
  case (Cons kv m)
  obtain k' v where kv: "kv = (k', v)" by force
  have wf: "jm_wf m" "k' \<notin> fst ` set m" using Cons.prems kv by (auto simp: jm_wf_def)
  show ?case
  proof (cases "k = k'")
    case True
    then show ?thesis using kv wf by (simp add: jm_has_iff)
  next
    case False
    moreover have "jm_has m k \<Longrightarrow> 0 < length m" by (cases m) auto
    ultimately show ?thesis using kv Cons.IH [OF wf(1)] by (auto simp: jm_has_iff)
  qed
qed simp

lemma jm_drop_oldest_tl: "jm_wf m \<Longrightarrow> jm_drop_oldest m = tl m"
  by (cases m) (auto simp: jm_drop_oldest_def jm_wf_def)

lemma jm_wf_tl [simp, wf_intro]: "jm_wf m \<Longrightarrow> jm_wf (tl m)"
  by (cases m) (auto simp: jm_wf_def)

lemma jm_wf_drop_oldest [simp, wf_intro]: "jm_wf m \<Longrightarrow> jm_wf (jm_drop_oldest m)"
  by (simp add: jm_drop_oldest_tl)

lemma jm_wf_filter [simp, wf_intro]: "jm_wf m \<Longrightarrow> jm_wf (filter P m)"
  by (simp add: jm_wf_def distinct_map_filter)

lemma jm_get_in_set: "jm_get m k = Some v \<Longrightarrow> (k, v) \<in> set m"
  by (rule map_of_SomeD)

lemma jm_in_set_get: "jm_wf m \<Longrightarrow> (k, v) \<in> set m \<Longrightarrow> jm_get m k = Some v"
  by (simp add: jm_wf_def)

lemma jm_set_in: "(j, w) \<in> set (jm_set k v m) \<Longrightarrow> (j = k \<and> w = v) \<or> (j, w) \<in> set m"
  by (induction m) (auto split: if_splits)

lemma set_jm_del: "set (jm_del k m) = {x \<in> set m. fst x \<noteq> k}"
  by (auto simp: AList.delete_eq)

lemma js_add_set [simp]: "set (js_add x s) = insert x (set s)"
  by (auto simp: js_add_def)

lemma js_add_distinct [simp, wf_intro]: "distinct s \<Longrightarrow> distinct (js_add x s)"
  by (simp add: js_add_def)

subsection \<open>Lists\<close>

lemma take_le_length: "n \<le> length xs \<Longrightarrow> length (take n xs) = n"
  by simp

lemma list_all_take: "list_all P xs \<Longrightarrow> list_all P (take n xs)"
  by (auto simp: list_all_iff dest: in_set_takeD)

lemma sum_list_filter_le: "(\<And>x. 0 \<le> f x) \<Longrightarrow> sum_list (map f (filter P xs)) \<le> (sum_list (map f xs) :: int)"
  by (induction xs) (auto simp: add_increasing)

end
