(* ===== verification/Chunked.thy ===== *)
theory Chunked
  imports Prelude "HOL-Library.Multiset"
begin

text \<open>
  \<open>packages/core/src/network/stream/ChunkedSender.ts\<close> and \<open>ChunkedReceiver.ts\<close>: long messages are cut into
  numbered chunks of 4096 bytes and put together again by the receiver. Waiting for the channel's buffer to
  drain has no effect on what is sent. The lemmas show that the receiver rebuilds a message from its
  chunks in any order and with repetitions, and how much it will hold.
\<close>

definition CHUNK_SIZE :: nat where [simp]: "CHUNK_SIZE = 4096"
definition HEADER_SIZE :: nat where [simp]: "HEADER_SIZE = 12"
definition REASSEMBLY_TIMEOUT :: int where [simp]: "REASSEMBLY_TIMEOUT = 10000"
definition MAX_MESSAGE_BYTES :: nat where [simp]: "MAX_MESSAGE_BYTES = 1024 * 1024"
definition MAX_PENDING_MESSAGES :: nat where [simp]: "MAX_PENDING_MESSAGES = 64"
definition MAX_CHUNKS :: nat where [simp]: "MAX_CHUNKS = (MAX_MESSAGE_BYTES + 4095) div 4096"

subsection \<open>Sending\<close>

definition total_chunks :: "bytes \<Rightarrow> nat" where
  "total_chunks data = (length data + CHUNK_SIZE - 1) div CHUNK_SIZE"

definition chunk_payload :: "bytes \<Rightarrow> nat \<Rightarrow> bytes" where
  "chunk_payload data seq =
     (let offset = seq * CHUNK_SIZE in slice offset (min (offset + CHUNK_SIZE) (length data)) data)"

definition chunk_frame :: "int \<Rightarrow> bytes \<Rightarrow> nat \<Rightarrow> bytes" where
  "chunk_frame msgId data seq =
     (let payload = chunk_payload data seq in
      [0] @ be_bytes 4 msgId @ be_bytes 2 (int seq) @ be_bytes 2 (int (total_chunks data)) @
      be_bytes 2 (int (length payload)) @ [if seq = total_chunks data - 1 then 1 else 0] @ payload)"

definition chunked_send :: "int \<Rightarrow> bytes \<Rightarrow> bytes list \<times> int" where
  "chunked_send msgCounter data =
     (if length data \<le> CHUNK_SIZE then ([data], msgCounter)
      else (map (chunk_frame msgCounter data) [0..<total_chunks data], msgCounter + 1))"

subsection \<open>Receiving\<close>

record pending_message =
  cr_chunks :: "(nat, bytes) jsmap"
  cr_totalChunks :: nat
  cr_totalSize :: nat
  cr_createdAt :: int

type_synonym receiver = "(int, pending_message) jsmap"

definition assemble :: "pending_message \<Rightarrow> bytes" where
  "assemble pm = concat (map (\<lambda>i. case jm_get (cr_chunks pm) i of None \<Rightarrow> [] | Some c \<Rightarrow> c) [0..<cr_totalChunks pm])"

text \<open>The part of \<open>receive\<close> once the message a chunk belongs to is at hand.\<close>

definition add_chunk :: "int \<Rightarrow> nat \<Rightarrow> nat \<Rightarrow> bytes \<Rightarrow> pending_message \<Rightarrow> receiver \<Rightarrow> bytes option \<times> receiver" where
  "add_chunk msgId seqNo totalChunks payload pm r =
     (if cr_totalChunks pm \<noteq> totalChunks then (None, jm_del msgId r)
      else if jm_has (cr_chunks pm) seqNo then (None, r)
      else if cr_totalSize pm + length payload > MAX_MESSAGE_BYTES then (None, jm_del msgId r)
      else
        (let pm' = pm\<lparr>cr_chunks := jm_set seqNo payload (cr_chunks pm), cr_totalSize := cr_totalSize pm + length payload\<rparr> in
         if length (cr_chunks pm') = cr_totalChunks pm' then (Some (assemble pm'), jm_del msgId r)
         else (None, jm_set msgId pm' r)))"

text \<open>What is handed to the listener, if anything, and the new state.\<close>

definition receive :: "int \<Rightarrow> bytes \<Rightarrow> receiver \<Rightarrow> bytes option \<times> receiver" where
  "receive now raw r =
     (if length raw < HEADER_SIZE then (Some raw, r)
      else if raw ! 0 \<noteq> 0 then (Some raw, r)
      else
        (let msgId = be_val (slice 1 5 raw); seqNo = nat (be_val (slice 5 7 raw));
             totalChunks = nat (be_val (slice 7 9 raw)); chunkSize = nat (be_val (slice 9 11 raw)) in
         if totalChunks = 0 \<or> seqNo \<ge> totalChunks then (Some raw, r)
         else if totalChunks > MAX_CHUNKS then (None, r)
         else if chunkSize > length raw - HEADER_SIZE then (None, r)
         else
           (let payload = slice HEADER_SIZE (HEADER_SIZE + chunkSize) raw in
            case jm_get r msgId of
              Some pm \<Rightarrow> add_chunk msgId seqNo totalChunks payload pm r
            | None \<Rightarrow>
                (let r1 = (if length r \<ge> MAX_PENDING_MESSAGES then jm_drop_oldest r else r);
                     pm = \<lparr>cr_chunks = [], cr_totalChunks = totalChunks, cr_totalSize = 0, cr_createdAt = now\<rparr> in
                 add_chunk msgId seqNo totalChunks payload pm (jm_set msgId pm r1)))))"

definition receiver_cleanup :: "int \<Rightarrow> receiver \<Rightarrow> receiver" where
  "receiver_cleanup now r = filter (\<lambda>(_, pm). \<not> now - cr_createdAt pm > REASSEMBLY_TIMEOUT) r"

definition receiver_destroy :: "receiver \<Rightarrow> receiver" where
  "receiver_destroy r = []"

fun receive_all :: "(int \<times> bytes) list \<Rightarrow> receiver \<Rightarrow> bytes list \<times> receiver" where
  "receive_all [] r = ([], r)"
| "receive_all ((now, raw) # raws) r =
     (let (out, r1) = receive now raw r; (outs, r2) = receive_all raws r1 in
      ((case out of None \<Rightarrow> [] | Some b \<Rightarrow> [b]) @ outs, r2))"

subsection \<open>Cutting and joining\<close>

lemma chunk_payloads_concat:
  "n * 4096 \<le> length data + 4095 \<Longrightarrow> concat (map (chunk_payload data) [0..<n]) = take (n * 4096) data"
proof (induction n)
  case (Suc n)
  have p: "chunk_payload data n = take 4096 (drop (n * 4096) data)"
  proof (cases "n * 4096 + 4096 \<le> length data")
    case True
    then show ?thesis by (simp add: chunk_payload_def slice_def)
  next
    case False
    then show ?thesis by (simp add: chunk_payload_def slice_def)
  qed
  have "concat (map (chunk_payload data) [0..<n]) = take (n * 4096) data" using Suc by simp
  then show ?case using take_add [of "n * 4096" 4096 data] by (simp add: p add.commute)
qed simp

lemma total_chunks_bounds: "length data \<le> total_chunks data * 4096" "total_chunks data * 4096 \<le> length data + 4095"
  by (simp_all add: total_chunks_def)

lemma join_chunks: "concat (map (chunk_payload data) [0..<total_chunks data]) = data"
  using chunk_payloads_concat [of "total_chunks data" data] total_chunks_bounds [of data] by simp

lemma length_chunk_payload: "length (chunk_payload data i) \<le> 4096"
  by (simp add: chunk_payload_def slice_def Let_def)

lemma length_concat_upt: "length (concat (map f [0..<n])) = (\<Sum>i<n. length (f i))"
  by (induction n) (simp_all add: add.commute)

lemma sum_chunk_payloads: "(\<Sum>i<total_chunks data. length (chunk_payload data i)) = length data"
  by (metis join_chunks length_concat_upt)

subsection \<open>Reassembly\<close>

definition sendable :: "bytes \<Rightarrow> bool" where
  "sendable data \<longleftrightarrow> CHUNK_SIZE < length data \<and> length data \<le> MAX_MESSAGE_BYTES"

lemma sendable_chunks: "sendable data \<Longrightarrow> 1 < total_chunks data \<and> total_chunks data \<le> 256"
  by (auto simp: sendable_def total_chunks_def)

lemma receive_chunk_frame:
  assumes "sendable data" "0 \<le> msgId" "msgId < 256 ^ 4" "i < total_chunks data"
  shows "receive now (chunk_frame msgId data i) r =
    (case jm_get r msgId of
       Some pm \<Rightarrow> add_chunk msgId i (total_chunks data) (chunk_payload data i) pm r
     | None \<Rightarrow>
         (let pm = \<lparr>cr_chunks = [], cr_totalChunks = total_chunks data, cr_totalSize = 0, cr_createdAt = now\<rparr> in
          add_chunk msgId i (total_chunks data) (chunk_payload data i) pm
            (jm_set msgId pm (if length r \<ge> MAX_PENDING_MESSAGES then jm_drop_oldest r else r))))"
proof -
  let ?p = "chunk_payload data i" and ?n = "total_chunks data"
  define tail where "tail = (if i = ?n - 1 then 1 else 0) # ?p"
  have f: "chunk_frame msgId data i = 0 # be_bytes 4 msgId @ be_bytes 2 (int i) @ be_bytes 2 (int ?n) @ be_bytes 2 (int (length ?p)) @ tail"
    by (simp add: chunk_frame_def tail_def Let_def)
  have n: "1 < ?n" "?n \<le> 256" using sendable_chunks [OF assms(1)] by simp_all
  have p: "length ?p \<le> 4096" by (rule length_chunk_payload)
  have v: "be_val (be_bytes 4 msgId) = msgId" "be_val (be_bytes 2 (int i)) = int i"
    "be_val (be_bytes 2 (int ?n)) = int ?n" "be_val (be_bytes 2 (int (length ?p))) = int (length ?p)"
    using assms n p by (simp_all add: be_val_be_bytes)
  have s: "slice 1 5 (chunk_frame msgId data i) = be_bytes 4 msgId" "slice 5 7 (chunk_frame msgId data i) = be_bytes 2 (int i)"
    "slice 7 9 (chunk_frame msgId data i) = be_bytes 2 (int ?n)" "slice 9 11 (chunk_frame msgId data i) = be_bytes 2 (int (length ?p))"
    "slice 12 (12 + length ?p) (chunk_frame msgId data i) = ?p" "length (chunk_frame msgId data i) = 12 + length ?p"
    "chunk_frame msgId data i ! 0 = 0"
    by (simp_all add: slice_def f tail_def del: slice_simps)
  have g: "\<not> (?n = 0 \<or> i \<ge> ?n)" "\<not> ?n > MAX_CHUNKS" using n assms(4) by simp_all
  show ?thesis unfolding receive_def Let_def HEADER_SIZE_def s v nat_int using g by (simp split: option.split)
qed

definition partial :: "bytes \<Rightarrow> nat set \<Rightarrow> pending_message \<Rightarrow> bool" where
  "partial data D pm \<longleftrightarrow>
     cr_totalChunks pm = total_chunks data \<and> jm_wf (cr_chunks pm) \<and> set (jm_keys (cr_chunks pm)) = D \<and>
     (\<forall>i \<in> D. jm_get (cr_chunks pm) i = Some (chunk_payload data i)) \<and>
     cr_totalSize pm = (\<Sum>i\<in>D. length (chunk_payload data i)) \<and> D \<subseteq> {..<total_chunks data}"

lemma partial_has: "partial data D pm \<Longrightarrow> jm_has (cr_chunks pm) i \<longleftrightarrow> i \<in> D"
  by (auto simp: partial_def jm_has_iff)

lemma partial_length:
  assumes "partial data D pm"
  shows "length (cr_chunks pm) = card D"
proof -
  have "distinct (jm_keys (cr_chunks pm))" "set (jm_keys (cr_chunks pm)) = D"
    using assms by (simp_all add: partial_def jm_wf_def)
  then show ?thesis using distinct_card [of "jm_keys (cr_chunks pm)"] by simp
qed

lemma assemble_complete:
  assumes "partial data {..<total_chunks data} pm"
  shows "assemble pm = data"
proof -
  have t: "cr_totalChunks pm = total_chunks data"
    and g: "\<And>i. i < total_chunks data \<Longrightarrow> jm_get (cr_chunks pm) i = Some (chunk_payload data i)"
    using assms by (simp_all add: partial_def)
  have "map (\<lambda>i. case jm_get (cr_chunks pm) i of None \<Rightarrow> [] | Some c \<Rightarrow> c) [0..<total_chunks data] =
      map (chunk_payload data) [0..<total_chunks data]"
    by (rule map_cong) (simp_all add: g)
  then show ?thesis unfolding assemble_def t by (simp only: join_chunks)
qed

lemma add_chunk_partial:
  assumes "partial data D pm" "i < total_chunks data" "sendable data"
  shows "i \<in> D \<Longrightarrow> add_chunk msgId i (total_chunks data) (chunk_payload data i) pm r = (None, r)"
    "i \<notin> D \<Longrightarrow> insert i D = {..<total_chunks data} \<Longrightarrow>
       add_chunk msgId i (total_chunks data) (chunk_payload data i) pm r = (Some data, jm_del msgId r)"
    "i \<notin> D \<Longrightarrow> insert i D \<noteq> {..<total_chunks data} \<Longrightarrow>
       \<exists>pm'. partial data (insert i D) pm' \<and>
         add_chunk msgId i (total_chunks data) (chunk_payload data i) pm r = (None, jm_set msgId pm' r)"
proof -
  let ?p = "chunk_payload data i"
  let ?pm = "pm\<lparr>cr_chunks := jm_set i ?p (cr_chunks pm), cr_totalSize := cr_totalSize pm + length ?p\<rparr>"
  have t: "cr_totalChunks pm = total_chunks data" and fin: "finite D" and sub: "D \<subseteq> {..<total_chunks data}"
    using assms(1) by (auto simp: partial_def intro: finite_subset)
  show "i \<in> D \<Longrightarrow> add_chunk msgId i (total_chunks data) ?p pm r = (None, r)"
    using t by (simp add: add_chunk_def partial_has [OF assms(1)])
  assume new: "i \<notin> D"
  have pm': "partial data (insert i D) ?pm"
  proof -
    have "jm_keys (cr_chunks ?pm) = jm_keys (cr_chunks pm) @ [i]"
      using new partial_has [OF assms(1)] by (simp add: jm_set_keys)
    moreover have "(\<Sum>j\<in>insert i D. length (chunk_payload data j)) = length ?p + (\<Sum>j\<in>D. length (chunk_payload data j))"
      using new fin by simp
    ultimately show ?thesis using assms(1,2) by (simp add: partial_def)
  qed
  have "cr_totalSize ?pm \<le> (\<Sum>i<total_chunks data. length (chunk_payload data i))"
  proof -
    have "cr_totalSize ?pm = (\<Sum>j\<in>insert i D. length (chunk_payload data j))" "insert i D \<subseteq> {..<total_chunks data}"
      using pm' unfolding partial_def by blast+
    then show ?thesis by (metis finite_lessThan sum_mono2 zero_le)
  qed
  then have small: "cr_totalSize pm + length ?p \<le> MAX_MESSAGE_BYTES"
    using assms(3) by (simp add: sum_chunk_payloads sendable_def)
  have a: "add_chunk msgId i (total_chunks data) ?p pm r =
      (if card (insert i D) = total_chunks data then (Some (assemble ?pm), jm_del msgId r) else (None, jm_set msgId ?pm r))"
    using t small new partial_length [OF pm'] by (simp add: add_chunk_def partial_has [OF assms(1)] Let_def)
  show "insert i D = {..<total_chunks data} \<Longrightarrow> add_chunk msgId i (total_chunks data) ?p pm r = (Some data, jm_del msgId r)"
    using a pm' assemble_complete [of data ?pm] by simp
  assume "insert i D \<noteq> {..<total_chunks data}"
  then have "insert i D \<subset> {..<total_chunks data}" using sub assms(2) by auto
  then have "card (insert i D) < total_chunks data"
    using psubset_card_mono [of "{..<total_chunks data}" "insert i D"] by simp
  then show "\<exists>pm'. partial data (insert i D) pm' \<and> add_chunk msgId i (total_chunks data) ?p pm r = (None, jm_set msgId pm' r)"
    using pm' by (intro exI [of _ ?pm]) (simp add: a)
qed

lemma partial_empty: "partial data {} \<lparr>cr_chunks = [], cr_totalChunks = total_chunks data, cr_totalSize = 0, cr_createdAt = now\<rparr>"
  by (simp add: partial_def)

text \<open>The state of the receiver as far as one message goes: nothing of it, or the chunks in \<open>D\<close>.\<close>

definition holds :: "int \<Rightarrow> bytes \<Rightarrow> nat set \<Rightarrow> receiver \<Rightarrow> bool" where
  "holds msgId data D r \<longleftrightarrow>
     (case jm_get r msgId of None \<Rightarrow> D = {} | Some pm \<Rightarrow> partial data D pm)"

lemma receive_holds:
  assumes "sendable data" "0 \<le> msgId" "msgId < 256 ^ 4" "i < total_chunks data" "holds msgId data D r"
  shows "if insert i D = {..<total_chunks data} \<and> i \<notin> D
    then fst (receive now (chunk_frame msgId data i) r) = Some data \<and> \<not> jm_has (snd (receive now (chunk_frame msgId data i) r)) msgId
    else fst (receive now (chunk_frame msgId data i) r) = None \<and>
      holds msgId data (insert i D) (snd (receive now (chunk_frame msgId data i) r))"
proof (cases "jm_get r msgId")
  case (Some pm)
  then have p: "partial data D pm" using assms(5) by (simp add: holds_def)
  have e: "receive now (chunk_frame msgId data i) r = add_chunk msgId i (total_chunks data) (chunk_payload data i) pm r"
    using receive_chunk_frame [OF assms(1-4), of now r] Some by simp
  show ?thesis
  proof (cases "i \<in> D")
    case True
    then show ?thesis using add_chunk_partial(1) [OF p assms(4,1) True] Some p
      by (simp add: e holds_def insert_absorb)
  next
    case False
    note a = add_chunk_partial(2,3) [OF p assms(4,1) False]
    show ?thesis
    proof (cases "insert i D = {..<total_chunks data}")
      case True
      then show ?thesis using a(1) [of msgId r] False by (simp add: e jm_has_def)
    next
      case incomplete: False
      then obtain pm' where "partial data (insert i D) pm'"
        "add_chunk msgId i (total_chunks data) (chunk_payload data i) pm r = (None, jm_set msgId pm' r)"
        using a(2) [of msgId r] by blast
      then show ?thesis using incomplete by (simp add: e holds_def)
    qed
  qed
next
  case None
  let ?pm = "\<lparr>cr_chunks = [], cr_totalChunks = total_chunks data, cr_totalSize = 0, cr_createdAt = now\<rparr>"
  let ?r = "jm_set msgId ?pm (if length r \<ge> MAX_PENDING_MESSAGES then jm_drop_oldest r else r)"
  have D: "D = {}" using None assms(5) by (simp add: holds_def)
  have e: "receive now (chunk_frame msgId data i) r = add_chunk msgId i (total_chunks data) (chunk_payload data i) ?pm ?r"
    using receive_chunk_frame [OF assms(1-4), of now r] None by (simp add: Let_def)
  note a = add_chunk_partial(2,3) [OF partial_empty [of data now] assms(4,1)]
  show ?thesis
  proof (cases "insert i {} = {..<total_chunks data}")
    case True
    then show ?thesis using a(1) [of msgId ?r] by (simp add: e D jm_has_def)
  next
    case incomplete: False
    then obtain pm' where "partial data (insert i {}) pm'"
      "add_chunk msgId i (total_chunks data) (chunk_payload data i) ?pm ?r = (None, jm_set msgId pm' ?r)"
      using a(2) [of msgId ?r] by blast
    then show ?thesis using incomplete D by (simp add: e holds_def)
  qed
qed

lemma receive_all_holds:
  assumes "sendable data" "0 \<le> msgId" "msgId < 256 ^ 4" "\<forall>(t, i) \<in> set is. i < total_chunks data"
    "holds msgId data D r" "\<not> {..<total_chunks data} \<subseteq> D \<union> snd ` set is"
  shows "fst (receive_all (map (\<lambda>(t, i). (t, chunk_frame msgId data i)) is) r) = [] \<and>
    holds msgId data (D \<union> snd ` set is) (snd (receive_all (map (\<lambda>(t, i). (t, chunk_frame msgId data i)) is) r))"
  using assms(4-6)
proof (induction "is" arbitrary: D r)
  case (Cons ti "is")
  obtain t i where ti: "ti = (t, i)" by force
  let ?r = "snd (receive t (chunk_frame msgId data i) r)"
  have i: "i < total_chunks data" using Cons.prems(1) ti by simp
  have "insert i D \<noteq> {..<total_chunks data}" using Cons.prems(3) ti by auto
  then have "fst (receive t (chunk_frame msgId data i) r) = None" "holds msgId data (insert i D) ?r"
    using receive_holds [OF assms(1-3) i Cons.prems(2), of t] by simp_all
  moreover have "insert i D \<union> snd ` set is = D \<union> snd ` set (ti # is)" using ti by auto
  ultimately show ?case using Cons.IH [of "insert i D" ?r] Cons.prems(1,3) ti by (simp add: split_def)
qed simp

lemma receive_all_append:
  "receive_all (xs @ ys) r =
     (let (o1, r1) = receive_all xs r; (o2, r2) = receive_all ys r1 in (o1 @ o2, r2))"
proof (induction xs arbitrary: r)
  case (Cons x xs)
  then show ?case by (cases x) (simp add: split_def Let_def)
qed (simp add: split_def Let_def)

text \<open>A long message arrives exactly once and intact: whatever the order in which its chunks come and
  however often chunks other than the last missing one are repeated, the receiver hands over nothing
  before the last one, then exactly the bytes that were sent, and forgets them.\<close>

theorem chunked_roundtrip:
  assumes "sendable data" "0 \<le> msgId" "msgId < 256 ^ 4" "jm_get r msgId = None"
    "\<forall>(t, i) \<in> set is. i < total_chunks data" "j < total_chunks data" "j \<notin> snd ` set is"
    "insert j (snd ` set is) = {..<total_chunks data}"
  shows "fst (receive_all (map (\<lambda>(t, i). (t, chunk_frame msgId data i)) (is @ [(now, j)])) r) = [data] \<and>
    \<not> jm_has (snd (receive_all (map (\<lambda>(t, i). (t, chunk_frame msgId data i)) (is @ [(now, j)])) r)) msgId \<and>
    set (fst (chunked_send msgId data)) = (chunk_frame msgId data) ` insert j (snd ` set is)"
proof -
  let ?f = "map (\<lambda>(t, i). (t, chunk_frame msgId data i))"
  have "holds msgId data {} r" using assms(4) by (simp add: holds_def)
  moreover have "\<not> {..<total_chunks data} \<subseteq> {} \<union> snd ` set is" using assms(6,7) by auto
  ultimately have h: "fst (receive_all (?f is) r) = []" "holds msgId data (snd ` set is) (snd (receive_all (?f is) r))"
    using receive_all_holds [OF assms(1-3,5), of "{}" r] by simp_all
  have l: "fst (receive now (chunk_frame msgId data j) (snd (receive_all (?f is) r))) = Some data"
    "\<not> jm_has (snd (receive now (chunk_frame msgId data j) (snd (receive_all (?f is) r)))) msgId"
    using receive_holds [OF assms(1-3,6) h(2), of now] assms(7,8) by simp_all
  have "set (fst (chunked_send msgId data)) = (chunk_frame msgId data) ` insert j (snd ` set is)"
    using assms(1,8) by (auto simp: chunked_send_def sendable_def lessThan_atLeast0)
  then show ?thesis using h(1) l by (simp add: receive_all_append split_def Let_def)
qed

theorem chunked_roundtrip_witness:
  "fst (receive_all [(1, chunk_frame 0 (replicate 5000 7) 1), (2, chunk_frame 0 (replicate 5000 7) 0)] []) = [replicate 5000 7]"
  using chunked_roundtrip [of "replicate 5000 7" 0 "[]" "[(1, 1)]" 0 2]
  by (auto simp: sendable_def total_chunks_def lessThan_Suc numeral_2_eq_2)

subsection \<open>What the receiver holds\<close>

definition receiver_ok :: "receiver \<Rightarrow> bool" where
  "receiver_ok r \<longleftrightarrow> jm_wf r \<and> length r \<le> MAX_PENDING_MESSAGES \<and> (\<forall>(_, pm) \<in> set r. cr_totalSize pm \<le> MAX_MESSAGE_BYTES)"

lemma add_chunk_ok:
  assumes "receiver_ok r" "jm_has r m"
  shows "receiver_ok (snd (add_chunk m seqn n payload pm r))"
  using assms by (auto simp: add_chunk_def receiver_ok_def length_jm_set length_jm_del set_jm_del Let_def dest!: jm_set_in)

text \<open>A neighbour cannot make the receiver hold more than 64 unfinished messages of at most 1 MiB each,
  whatever it sends.\<close>

theorem receiver_bounded:
  assumes "receiver_ok r"
  shows "receiver_ok (snd (receive now raw r)) \<and> receiver_ok (receiver_cleanup now r)"
proof
  define R where "R = (if length r \<ge> MAX_PENDING_MESSAGES then jm_drop_oldest r else r)"
  have tl: "receiver_ok (tl r)" using assms by (cases r) (auto simp: receiver_ok_def jm_wf_def)
  have d: "receiver_ok R" "length R < MAX_PENDING_MESSAGES"
    using assms tl by (auto simp: R_def receiver_ok_def jm_drop_oldest_tl)
  have new: "receiver_ok (jm_set m \<lparr>cr_chunks = [], cr_totalChunks = n, cr_totalSize = 0, cr_createdAt = now\<rparr> R)" for m n
    using d unfolding receiver_ok_def by (auto simp: length_jm_set dest!: jm_set_in)
  have "receiver_ok (snd (case jm_get r m of
        Some pm \<Rightarrow> add_chunk m i n p pm r
      | None \<Rightarrow> add_chunk m i n p \<lparr>cr_chunks = [], cr_totalChunks = n, cr_totalSize = 0, cr_createdAt = now\<rparr>
          (jm_set m \<lparr>cr_chunks = [], cr_totalChunks = n, cr_totalSize = 0, cr_createdAt = now\<rparr> R)))" for m i n p
    using add_chunk_ok [OF assms] add_chunk_ok [OF new] by (simp add: jm_has_def split: option.split)
  then show "receiver_ok (snd (receive now raw r))"
    unfolding receive_def Let_def R_def [symmetric] using assms by (simp del: One_nat_def HEADER_SIZE_def)
  show "receiver_ok (receiver_cleanup now r)"
    using assms le_trans [OF length_filter_le] by (auto simp: receiver_ok_def receiver_cleanup_def)
qed

theorem receiver_bounded_witness: "receiver_ok (snd (receive 0 (replicate 12 0) []))"
  using receiver_bounded [of "[]" 0 "replicate 12 0"] by (simp add: receiver_ok_def)

end
