(* ===== verification/JsValue.thy ===== *)
theory JsValue
  imports Prelude
begin

text \<open>
  JavaScript values as the code meets them on the wire. Messages arrive as the result of a
  MsgPack or JSON decoder, so they are trees of numbers, strings, byte views, arrays and plain
  objects; the modelled handlers take such a tree (\<open>any\<close> in the source) and inspect it.

  Numbers are exact: a finite number is a rational, beside \<open>NaN\<close> and the two infinities
  (every double is one of these; the rounding of double arithmetic is not modelled). Strings are
  lists of 8-bit code units, which covers every string the modelled code looks into (hex
  identifiers, fixed tags, ASCII text). A property read of an absent key is \<open>Undef\<close>.
\<close>

subsection \<open>Values\<close>

datatype jsnum = NaN | PosInf | NegInf | Fin rat

datatype jsval =
    Undef
  | Null
  | JBool bool
  | JNum jsnum
  | JBig int
  | JStr string
  | JBytes bytes
  | JBuffer bytes
  | JView bytes
  | JArr "jsval list"
  | JObj "(string \<times> jsval) list"

datatype jserr = TypeError | RangeError | OtherError string

type_synonym 'a res = "jserr + 'a"

abbreviation jint :: "int \<Rightarrow> jsval" where
  "jint n \<equiv> JNum (Fin (of_int n))"

fun rbind :: "'a res \<Rightarrow> ('a \<Rightarrow> 'b res) \<Rightarrow> 'b res" where
  "rbind (Inl e) f = Inl e"
| "rbind (Inr x) f = f x"

lemma rbind_Inr_iff: "rbind r f = Inr y \<longleftrightarrow> (\<exists>x. r = Inr x \<and> f x = Inr y)"
  by (cases r) auto

text \<open>\<open>v?.k\<close> on a decoded message.\<close>

fun jget :: "jsval \<Rightarrow> string \<Rightarrow> jsval" where
  "jget (JObj kvs) k = (case map_of kvs k of None \<Rightarrow> Undef | Some v \<Rightarrow> v)"
| "jget _ k = Undef"

text \<open>\<open>typeof v === 'object'\<close> (and \<open>v !== null\<close>).\<close>

fun is_object :: "jsval \<Rightarrow> bool" where
  "is_object (JObj _) = True"
| "is_object (JArr _) = True"
| "is_object (JBytes _) = True"
| "is_object (JBuffer _) = True"
| "is_object (JView _) = True"
| "is_object _ = False"

fun is_number :: "jsval \<Rightarrow> bool" where
  "is_number (JNum _) = True"
| "is_number _ = False"

fun is_string :: "jsval \<Rightarrow> bool" where
  "is_string (JStr _) = True"
| "is_string _ = False"

fun is_uint8array :: "jsval \<Rightarrow> bool" where
  "is_uint8array (JBytes _) = True"
| "is_uint8array _ = False"

text \<open>\<open>if (v)\<close>: the falsy values.\<close>

fun truthy :: "jsval \<Rightarrow> bool" where
  "truthy Undef = False"
| "truthy Null = False"
| "truthy (JBool b) = b"
| "truthy (JNum n) = (n \<noteq> NaN \<and> n \<noteq> Fin 0)"
| "truthy (JBig n) = (n \<noteq> 0)"
| "truthy (JStr s) = (s \<noteq> [])"
| "truthy _ = True"

subsection \<open>Integers among the numbers\<close>

definition max_safe :: int where
  "max_safe = 9007199254740991"

text \<open>\<open>Number.isInteger\<close> and \<open>Number.isSafeInteger\<close>: false on anything but a number.\<close>

fun is_integer :: "jsval \<Rightarrow> bool" where
  "is_integer (JNum (Fin r)) = (of_int (floor r) = r)"
| "is_integer _ = False"

fun int_of :: "jsval \<Rightarrow> int" where
  "int_of (JNum (Fin r)) = floor r"
| "int_of _ = 0"

definition is_safe_integer :: "jsval \<Rightarrow> bool" where
  "is_safe_integer v \<longleftrightarrow> is_integer v \<and> \<bar>int_of v\<bar> \<le> max_safe"

lemma is_integer_jint [simp]: "is_integer (jint n)"
  by simp

lemma is_integer_iff: "is_integer v \<longleftrightarrow> (\<exists>n. v = jint n)"
proof (cases v rule: is_integer.cases)
  case (1 r)
  have "of_int (floor r) = r \<longleftrightarrow> (\<exists>n. r = of_int n)" by (metis floor_of_int)
  then show ?thesis using 1 by simp
qed auto

lemma is_integer_int_of: "is_integer v \<Longrightarrow> v = jint (int_of v)"
  by (auto simp: is_integer_iff)

lemma is_safe_integer_jint [simp]: "is_safe_integer (jint n) \<longleftrightarrow> \<bar>n\<bar> \<le> max_safe"
  by (simp add: is_safe_integer_def)

lemma is_safe_integer_numeral [simp]:
  "is_safe_integer (JNum (Fin (numeral k))) \<longleftrightarrow> numeral k \<le> max_safe"
  "is_safe_integer (JNum (Fin 0))" "is_safe_integer (JNum (Fin 1))"
  by (simp_all add: is_safe_integer_def max_safe_def)

lemma is_safe_integer_int_of: "is_safe_integer v \<Longrightarrow> v = jint (int_of v) \<and> \<bar>int_of v\<bar> \<le> max_safe"
  by (auto simp: is_safe_integer_def dest: is_integer_int_of)

subsection \<open>Coercion to a number\<close>

definition is_ws :: "char \<Rightarrow> bool" where
  "is_ws c \<longleftrightarrow> of_char c \<in> {9, 10, 11, 12, 13, 32, 160 :: nat}"

definition trim :: "string \<Rightarrow> string" where
  "trim s = rev (dropWhile is_ws (rev (dropWhile is_ws s)))"

text \<open>The value of a digit in a base up to 16, if it is one.\<close>

definition digit_val :: "char \<Rightarrow> nat option" where
  "digit_val c =
     (let n = (of_char c :: nat) in
      if 48 \<le> n \<and> n \<le> 57 then Some (n - 48)
      else if 97 \<le> n \<and> n \<le> 102 then Some (n - 87)
      else if 65 \<le> n \<and> n \<le> 70 then Some (n - 55)
      else None)"

definition is_digit :: "nat \<Rightarrow> char \<Rightarrow> bool" where
  "is_digit base c = (case digit_val c of None \<Rightarrow> False | Some d \<Rightarrow> d < base)"

definition digits_val :: "nat \<Rightarrow> string \<Rightarrow> int" where
  "digits_val base s =
     foldl (\<lambda>a c. a * int base + int (case digit_val c of None \<Rightarrow> 0 | Some d \<Rightarrow> d)) 0 s"

definition radix_literal :: "nat \<Rightarrow> string \<Rightarrow> jsnum" where
  "radix_literal base s =
     (if s \<noteq> [] \<and> list_all (is_digit base) s then Fin (of_int (digits_val base s)) else NaN)"

text \<open>The exponent part of a decimal literal: nothing, or \<open>e\<close> with an optionally signed integer.\<close>

definition exponent_part :: "string \<Rightarrow> rat option" where
  "exponent_part s =
     (case s of [] \<Rightarrow> Some 1
      | c # t \<Rightarrow>
          if c = CHR ''e'' \<or> c = CHR ''E'' then
            (let (neg, ds) = (case t of [] \<Rightarrow> (False, [])
                              | d # ds \<Rightarrow> if d = CHR ''-'' then (True, ds)
                                        else if d = CHR ''+'' then (False, ds) else (False, t))
             in if ds \<noteq> [] \<and> list_all (is_digit 10) ds
                then Some (if neg then 1 / 10 ^ nat (digits_val 10 ds) else 10 ^ nat (digits_val 10 ds))
                else None)
          else None)"

definition unsigned_literal :: "string \<Rightarrow> jsnum" where
  "unsigned_literal s =
     (if s = ''Infinity'' then PosInf
      else
        (let ip = takeWhile (is_digit 10) s; r1 = dropWhile (is_digit 10) s;
             (fp, r2) = (case r1 of c # t \<Rightarrow> if c = CHR ''.'' then (takeWhile (is_digit 10) t, dropWhile (is_digit 10) t)
                                            else ([], r1)
                         | [] \<Rightarrow> ([], []))
         in if ip = [] \<and> fp = [] then NaN
            else (case exponent_part r2 of None \<Rightarrow> NaN
                  | Some e \<Rightarrow> Fin ((of_int (digits_val 10 ip) + of_int (digits_val 10 fp) / 10 ^ length fp) * e))))"

fun neg_num :: "jsnum \<Rightarrow> jsnum" where
  "neg_num NaN = NaN"
| "neg_num PosInf = NegInf"
| "neg_num NegInf = PosInf"
| "neg_num (Fin r) = Fin (- r)"

definition string_to_number :: "string \<Rightarrow> jsnum" where
  "string_to_number str =
     (let s = trim str in
      case s of
        [] \<Rightarrow> Fin 0
      | c # t \<Rightarrow>
          if c = CHR ''0'' \<and> t \<noteq> [] \<and> hd t \<in> set ''xX'' then radix_literal 16 (tl t)
          else if c = CHR ''0'' \<and> t \<noteq> [] \<and> hd t \<in> set ''oO'' then radix_literal 8 (tl t)
          else if c = CHR ''0'' \<and> t \<noteq> [] \<and> hd t \<in> set ''bB'' then radix_literal 2 (tl t)
          else if c = CHR ''-'' then neg_num (unsigned_literal t)
          else if c = CHR ''+'' then unsigned_literal t
          else unsigned_literal s)"

text \<open>
  \<open>ToNumber\<close>: a BigInt cannot be coerced (it throws). An array goes through its string form: an
  empty one is \<open>0\<close>, a one-element one its element's string, a longer one contains a comma.
  Objects print as \<open>[object Object]\<close>, which is no number.
\<close>

fun js_to_number :: "jsval \<Rightarrow> jsnum res" where
  "js_to_number Undef = Inr NaN"
| "js_to_number Null = Inr (Fin 0)"
| "js_to_number (JBool b) = Inr (Fin (if b then 1 else 0))"
| "js_to_number (JNum n) = Inr n"
| "js_to_number (JBig n) = Inl TypeError"
| "js_to_number (JStr s) = Inr (string_to_number s)"
| "js_to_number (JBytes []) = Inr (Fin 0)"
| "js_to_number (JBytes [b]) = Inr (Fin (of_int (uint b)))"
| "js_to_number (JArr []) = Inr (Fin 0)"
| "js_to_number (JArr [v]) =
     (case v of Undef \<Rightarrow> Inr (Fin 0)
      | JBool _ \<Rightarrow> Inr NaN
      | JBig n \<Rightarrow> Inr (Fin (of_int n))
      | _ \<Rightarrow> js_to_number v)"
| "js_to_number _ = Inr NaN"

text \<open>\<open>ToUint8\<close>: truncate towards zero, then modulo 256; not finite gives 0.\<close>

fun to_uint8 :: "jsnum \<Rightarrow> byte" where
  "to_uint8 (Fin r) = word_of_int (if 0 \<le> r then floor r else ceiling r)"
| "to_uint8 _ = 0"

text \<open>\<open>v < n\<close> and \<open>v > n\<close> with a numeric right-hand side; a BigInt compares by value.\<close>

definition js_lt :: "jsval \<Rightarrow> int \<Rightarrow> bool" where
  "js_lt v n = (case v of JBig k \<Rightarrow> k < n
                | _ \<Rightarrow> (case js_to_number v of Inr (Fin r) \<Rightarrow> r < of_int n | Inr NegInf \<Rightarrow> True | _ \<Rightarrow> False))"

definition js_gt :: "jsval \<Rightarrow> int \<Rightarrow> bool" where
  "js_gt v n = (case v of JBig k \<Rightarrow> n < k
                | _ \<Rightarrow> (case js_to_number v of Inr (Fin r) \<Rightarrow> of_int n < r | Inr PosInf \<Rightarrow> True | _ \<Rightarrow> False))"

lemma js_cmp_Fin [simp]:
  "js_lt (JNum (Fin r)) n \<longleftrightarrow> r < of_int n"
  "js_gt (JNum (Fin r)) n \<longleftrightarrow> of_int n < r"
  by (simp_all add: js_lt_def js_gt_def)

lemma js_cmp_integer:
  assumes "is_integer v"
  shows "js_lt v n \<longleftrightarrow> int_of v < n" "js_gt v n \<longleftrightarrow> n < int_of v"
  using assms by (auto simp: is_integer_iff)

subsection \<open>Hexadecimal identifiers\<close>

definition is_lower_hex :: "char \<Rightarrow> bool" where
  "is_lower_hex c \<longleftrightarrow> (let n = (of_char c :: nat) in (48 \<le> n \<and> n \<le> 57) \<or> (97 \<le> n \<and> n \<le> 102))"

text \<open>The pattern \<open>/^[0-9a-f]{n}$/\<close>.\<close>

definition hex_re :: "nat \<Rightarrow> string \<Rightarrow> bool" where
  "hex_re n s \<longleftrightarrow> length s = n \<and> list_all is_lower_hex s"

text \<open>\<open>s.substring(0, n)\<close>.\<close>

abbreviation substring0 :: "nat \<Rightarrow> string \<Rightarrow> string" where
  "substring0 n s \<equiv> take n s"

end
