(* ===== verification/Sodium.thy ===== *)
theory Sodium
  imports JsValue
begin

text \<open>
  The two third-party packages the modelled code calls, as parameters: libsodium
  (\<open>libsodium-wrappers-sumo\<close>, through \<open>crypto/sodium.ts\<close>) and \<open>@msgpack/msgpack\<close>. Every
  definition that uses one of them takes the record as an argument; nothing is assumed about its
  functions unless a theorem names one of the predicates below, each a documented law of the
  package (fixed output lengths, opening what was sealed, verifying what was signed). Random
  bytes are arguments of the operations that draw them. \<open>None\<close> stands for a thrown exception.

  \<open>toy_sodium\<close> is one concrete instance that satisfies all the laws; witnesses are computed on it.
\<close>

record sodium =
  sha256 :: "bytes \<Rightarrow> bytes"
  sha512 :: "bytes \<Rightarrow> bytes"
  blake2b :: "nat \<Rightarrow> bytes \<Rightarrow> bytes option \<Rightarrow> bytes"
  hmac :: "bytes \<Rightarrow> bytes \<Rightarrow> bytes option"
  sign_pk :: "bytes \<Rightarrow> bytes"
  sign_detached :: "bytes \<Rightarrow> bytes \<Rightarrow> bytes"
  verify_detached :: "bytes \<Rightarrow> bytes \<Rightarrow> bytes \<Rightarrow> bool option"
  argon2id :: "nat \<Rightarrow> bytes \<Rightarrow> bytes \<Rightarrow> int \<Rightarrow> int \<Rightarrow> bytes"
  aead_seal :: "bytes \<Rightarrow> bytes \<Rightarrow> bytes \<Rightarrow> bytes"
  aead_open :: "bytes \<Rightarrow> bytes \<Rightarrow> bytes \<Rightarrow> bytes option"
  chacha20_xor_ic :: "bytes \<Rightarrow> bytes \<Rightarrow> int \<Rightarrow> bytes \<Rightarrow> bytes option"
  box_seal :: "bytes \<Rightarrow> bytes \<Rightarrow> bytes \<Rightarrow> bytes"
  box_seal_open :: "bytes \<Rightarrow> bytes \<Rightarrow> bytes \<Rightarrow> bytes option"
  pk_to_curve :: "bytes \<Rightarrow> bytes option"
  sk_to_curve :: "bytes \<Rightarrow> bytes"

record msgpack =
  mp_encode :: "jsval \<Rightarrow> bytes"
  mp_decode :: "bytes \<Rightarrow> jsval option"

subsection \<open>Sizes libsodium documents\<close>

definition SIGN_BYTES :: nat where [simp]: "SIGN_BYTES = 64"
definition SIGN_PUBLICKEYBYTES :: nat where [simp]: "SIGN_PUBLICKEYBYTES = 32"

subsection \<open>Documented laws\<close>

definition sha256_law :: "sodium \<Rightarrow> bool" where
  "sha256_law S \<longleftrightarrow> (\<forall>m. length (sha256 S m) = 32)"

definition sign_law :: "sodium \<Rightarrow> bool" where
  "sign_law S \<longleftrightarrow>
     (\<forall>m sk. length (sign_detached S m sk) = SIGN_BYTES \<and>
        length (sign_pk S sk) = SIGN_PUBLICKEYBYTES \<and>
        verify_detached S (sign_detached S m sk) m (sign_pk S sk) = Some True)"

definition hmac_law :: "sodium \<Rightarrow> bool" where
  "hmac_law S \<longleftrightarrow> (\<forall>m k. length k = 32 \<longrightarrow> (\<exists>t. hmac S m k = Some t \<and> length t = 32))"

definition aead_law :: "sodium \<Rightarrow> bool" where
  "aead_law S \<longleftrightarrow>
     (\<forall>m n k. aead_open S (aead_seal S m n k) n k = Some m \<and>
        length (aead_seal S m n k) = length m + 16)"

definition box_seal_law :: "sodium \<Rightarrow> bool" where
  "box_seal_law S \<longleftrightarrow>
     (\<forall>sk. \<exists>xpk. pk_to_curve S (sign_pk S sk) = Some xpk \<and>
        (\<forall>m r. box_seal_open S (box_seal S m xpk r) xpk (sk_to_curve S sk) = Some m \<and>
           length (box_seal S m xpk r) = length m + 48))"

text \<open>Two different messages with one SHA-256 digest: what the identifiers rely on not meeting.\<close>

definition sha256_collision :: "sodium \<Rightarrow> bool" where
  "sha256_collision S \<longleftrightarrow> (\<exists>x y. x \<noteq> y \<and> sha256 S x = sha256 S y)"

lemma sha256_lawD [len_simps]: "sha256_law S \<Longrightarrow> length (sha256 S m) = 32"
  by (simp add: sha256_law_def)

lemma sign_lawD:
  assumes "sign_law S"
  shows "length (sign_detached S m sk) = 64" "length (sign_pk S sk) = 32"
    "verify_detached S (sign_detached S m sk) m (sign_pk S sk) = Some True"
  using assms by (simp_all add: sign_law_def)

lemma hmac_lawD:
  assumes "hmac_law S" "length k = 32"
  obtains t where "hmac S m k = Some t" "length t = 32"
  using assms by (auto simp: hmac_law_def)

lemma aead_lawD:
  assumes "aead_law S"
  shows "aead_open S (aead_seal S m n k) n k = Some m"
    "length (aead_seal S m n k) = length m + 16"
  using assms by (simp_all add: aead_law_def)

lemma box_seal_lawD:
  assumes "box_seal_law S"
  obtains xpk where "pk_to_curve S (sign_pk S sk) = Some xpk"
    "\<And>m r. box_seal_open S (box_seal S m xpk r) xpk (sk_to_curve S sk) = Some m"
    "\<And>m r. length (box_seal S m xpk r) = length m + 48"
  using assms unfolding box_seal_law_def by blast

text \<open>A round trip of MsgPack on one value; whether it holds depends on the value (\<open>undefined\<close> and
  functions do not survive), so theorems ask for it at the values they encode.\<close>

definition mp_roundtrip :: "msgpack \<Rightarrow> jsval \<Rightarrow> bool" where
  "mp_roundtrip M v \<longleftrightarrow> mp_decode M (mp_encode M v) = Some v"

subsection \<open>A concrete instance\<close>

definition pad_to :: "nat \<Rightarrow> bytes \<Rightarrow> bytes" where
  "pad_to n m = take n (m @ replicate n 0)"

lemma length_pad_to [simp, len_simps]: "length (pad_to n m) = n"
  by (simp add: pad_to_def)

definition toy_sodium :: sodium where
  "toy_sodium =
     \<lparr>sha256 = (\<lambda>m. replicate 32 0),
      sha512 = (\<lambda>m. pad_to 64 m),
      blake2b = (\<lambda>n m k. pad_to n m),
      hmac = (\<lambda>m k. if length k = 32 then Some (pad_to 32 m) else None),
      sign_pk = (\<lambda>sk. pad_to 32 sk),
      sign_detached = (\<lambda>m sk. pad_to 64 (pad_to 32 sk @ pad_to 32 m)),
      verify_detached = (\<lambda>s m pk. Some (s = pad_to 64 (pk @ pad_to 32 m))),
      argon2id = (\<lambda>n m salt ops mem. replicate n 0),
      aead_seal = (\<lambda>m n k. replicate 16 0 @ m),
      aead_open = (\<lambda>c n k. if 16 \<le> length c then Some (drop 16 c) else None),
      chacha20_xor_ic = (\<lambda>m n ic k. Some m),
      box_seal = (\<lambda>m pk r. pad_to 48 pk @ m),
      box_seal_open = (\<lambda>c pk sk. if take 48 c = pad_to 48 pk then Some (drop 48 c) else None),
      pk_to_curve = (\<lambda>pk. Some pk),
      sk_to_curve = (\<lambda>sk. sk)\<rparr>"

lemma toy_laws [simp]:
  "sha256_law toy_sodium" "sign_law toy_sodium" "hmac_law toy_sodium" "aead_law toy_sodium"
  "box_seal_law toy_sodium"
  by (simp_all add: toy_sodium_def sha256_law_def sign_law_def hmac_law_def aead_law_def
      box_seal_law_def)

definition toy_msgpack :: msgpack where
  "toy_msgpack = \<lparr>mp_encode = (\<lambda>v. []), mp_decode = (\<lambda>b. Some Null)\<rparr>"

end
