(* ===== verification/Encoding.thy ===== *)
theory Encoding
  imports JsValue
begin

text \<open>
  \<open>packages/core/src/common/Encoding.ts\<close>: hexadecimal and base64url text of byte strings, with
  the standard functions they use (\<open>toString(16)\<close>, \<open>parseInt(_, 16)\<close>, \<open>btoa\<close>, \<open>atob\<close>). The
  lemmas show that both decoders invert their encoders, and that \<open>toHex\<close> is injective with a
  fixed length, so identifiers compared as hex text are compared as bytes.
\<close>

subsection \<open>Hexadecimal\<close>

definition hex_digit :: "nat \<Rightarrow> char" where
  "hex_digit n = (if n < 10 then char_of (48 + n) else char_of (87 + n))"

definition hex_byte :: "byte \<Rightarrow> string" where
  "hex_byte b = [hex_digit (unat b div 16), hex_digit (unat b mod 16)]"

definition toHex :: "bytes \<Rightarrow> string" where
  "toHex bs = concat (map hex_byte bs)"

text \<open>\<open>parseInt(s, 16)\<close>: leading blanks, a sign, an optional \<open>0x\<close>, the longest run of digits.\<close>

definition parse_int16 :: "string \<Rightarrow> int option" where
  "parse_int16 str =
     (let s = dropWhile is_ws str;
          (neg, t) = (case s of c # r \<Rightarrow> if c = CHR ''-'' then (True, r)
                                       else if c = CHR ''+'' then (False, r) else (False, s)
                      | [] \<Rightarrow> (False, []));
          u = (case t of c # d # r \<Rightarrow> if c = CHR ''0'' \<and> d \<in> set ''xX'' then r else t | _ \<Rightarrow> t);
          ds = takeWhile (is_digit 16) u
      in if ds = [] then None
         else Some (if neg then - digits_val 16 ds else digits_val 16 ds))"

text \<open>Storing \<open>NaN\<close> into a \<open>Uint8Array\<close> stores 0.\<close>

definition hex_pair_byte :: "string \<Rightarrow> byte" where
  "hex_pair_byte s = (case parse_int16 s of None \<Rightarrow> 0 | Some n \<Rightarrow> word_of_int n)"

fun fromHex :: "string \<Rightarrow> bytes" where
  "fromHex [] = []"
| "fromHex [c] = [hex_pair_byte [c]]"
| "fromHex (c # d # s) = hex_pair_byte [c, d] # fromHex s"

lemma of_char_hex_digit [simp]:
  "n < 16 \<Longrightarrow> of_char (hex_digit n) = (if n < 10 then 48 + n else 87 + n :: nat)"
  by (simp add: hex_digit_def)

lemma hex_digit_val [simp]: "n < 16 \<Longrightarrow> digit_val (hex_digit n) = Some n"
  by (simp add: digit_val_def Let_def)

lemma hex_digit_is_digit [simp]: "n < 16 \<Longrightarrow> is_digit 16 (hex_digit n)"
  by (simp add: is_digit_def)

lemma hex_digit_lower [simp]: "n < 16 \<Longrightarrow> is_lower_hex (hex_digit n)"
  by (simp add: is_lower_hex_def Let_def)

lemma hex_digit_not_special:
  assumes "n < 16"
  shows "\<not> is_ws (hex_digit n)" "hex_digit n \<noteq> CHR ''-''" "hex_digit n \<noteq> CHR ''+''"
    "hex_digit n \<noteq> CHR ''x''" "hex_digit n \<noteq> CHR ''X''"
proof -
  have o: "of_char (hex_digit n) = (if n < 10 then 48 + n else 87 + n :: nat)" using assms by simp
  show "\<not> is_ws (hex_digit n)" using o assms by (auto simp: is_ws_def)
  have *: "hex_digit n \<noteq> c" if "of_char c < (48 :: nat) \<or> (of_char c :: nat) = 88 \<or> 103 \<le> (of_char c :: nat)" for c
    using that o assms by (auto split: if_splits)
  show "hex_digit n \<noteq> CHR ''-''" "hex_digit n \<noteq> CHR ''+''"
    "hex_digit n \<noteq> CHR ''x''" "hex_digit n \<noteq> CHR ''X''"
    by (rule *, simp)+
qed

lemma unat_byte_less [simp]: "unat (b :: byte) < 256"
  using unsigned_less [of b, where 'a = nat] by simp

lemma byte_nibbles: "unat (b :: byte) div 16 < 16" "unat (b :: byte) mod 16 < 16"
  using unat_byte_less [of b] by (simp_all add: less_mult_imp_div_less)

lemma parse_int16_pair:
  assumes "h < 16" "l < 16"
  shows "parse_int16 [hex_digit h, hex_digit l] = Some (int h * 16 + int l)"
  using hex_digit_not_special [OF assms(1)] hex_digit_not_special [OF assms(2)] assms
  by (simp add: parse_int16_def digits_val_def)

lemma hex_pair_hex_byte [simp]: "hex_pair_byte (hex_byte b) = b"
proof -
  let ?h = "unat b div 16" and ?l = "unat b mod 16"
  have "?h * 16 + ?l = unat b" by (rule div_mult_mod_eq)
  then have "int ?h * 16 + int ?l = uint b" by (metis of_nat_add of_nat_mult of_nat_numeral of_nat_unat of_int_uint uint_nat)
  then have "hex_pair_byte (hex_byte b) = word_of_int (uint b)"
    by (simp only: hex_pair_byte_def hex_byte_def parse_int16_pair [OF byte_nibbles] option.case)
  then show ?thesis by simp
qed

lemma fromHex_hex_byte [simp]: "fromHex (hex_byte b @ s) = b # fromHex s"
  using hex_pair_hex_byte [of b] by (simp add: hex_byte_def)

lemma fromHex_toHex [simp]: "fromHex (toHex bs) = bs"
  by (induction bs) (auto simp: toHex_def)

lemma toHex_inject [simp]: "toHex xs = toHex ys \<longleftrightarrow> xs = ys"
  by (metis fromHex_toHex)

lemma length_toHex [simp, len_simps]: "length (toHex bs) = 2 * length bs"
  by (induction bs) (auto simp: toHex_def hex_byte_def)

lemma toHex_lower: "list_all is_lower_hex (toHex bs)"
  by (induction bs) (auto simp: toHex_def hex_byte_def byte_nibbles)

lemma hex_re_toHex: "hex_re (2 * length bs) (toHex bs)"
  by (simp add: hex_re_def toHex_lower)

subsection \<open>Base64url\<close>

definition b64_char :: "nat \<Rightarrow> char" where
  "b64_char n =
     (if n < 26 then char_of (65 + n) else if n < 52 then char_of (71 + n)
      else if n < 62 then char_of (n - 4) else if n = 62 then CHR ''+'' else CHR ''/'')"

definition b64_val :: "char \<Rightarrow> nat option" where
  "b64_val c =
     (let n = (of_char c :: nat) in
      if 65 \<le> n \<and> n \<le> 90 then Some (n - 65) else if 97 \<le> n \<and> n \<le> 122 then Some (n - 71)
      else if 48 \<le> n \<and> n \<le> 57 then Some (n + 4)
      else if c = CHR ''+'' then Some 62 else if c = CHR ''/'' then Some 63 else None)"

fun btoa :: "bytes \<Rightarrow> string" where
  "btoa (a # b # c # r) =
     (let n = unat a * 65536 + unat b * 256 + unat c in
      [b64_char (n div 262144), b64_char (n div 4096 mod 64), b64_char (n div 64 mod 64),
       b64_char (n mod 64)] @ btoa r)"
| "btoa [a, b] =
     (let n = unat a * 65536 + unat b * 256 in
      [b64_char (n div 262144), b64_char (n div 4096 mod 64), b64_char (n div 64 mod 64), CHR ''=''])"
| "btoa [a] =
     (let n = unat a * 65536 in
      [b64_char (n div 262144), b64_char (n div 4096 mod 64), CHR ''='', CHR ''=''])"
| "btoa [] = []"

definition toBase64 :: "bytes \<Rightarrow> string" where
  "toBase64 bs =
     filter (\<lambda>c. c \<noteq> CHR ''='')
       (map (\<lambda>c. if c = CHR ''+'' then CHR ''-'' else if c = CHR ''/'' then CHR ''_'' else c) (btoa bs))"

text \<open>
  \<open>atob\<close>: ASCII blanks are removed, then up to two \<open>=\<close> when the length is a multiple of four; a
  remaining length of \<open>4k + 1\<close> or a foreign character throws. Left-over low bits are dropped.
\<close>

fun b64_bytes :: "nat list \<Rightarrow> bytes" where
  "b64_bytes (p # q # s # t # r) =
     (let n = p * 262144 + q * 4096 + s * 64 + t in
      [of_nat (n div 65536), of_nat (n div 256), of_nat n] @ b64_bytes r)"
| "b64_bytes [p, q, s] =
     (let n = p * 262144 + q * 4096 + s * 64 in [of_nat (n div 65536), of_nat (n div 256)])"
| "b64_bytes [p, q] = [of_nat ((p * 262144 + q * 4096) div 65536)]"
| "b64_bytes _ = []"

definition strip_pad :: "string \<Rightarrow> string" where
  "strip_pad s =
     (if length s mod 4 = 0 \<and> s \<noteq> [] \<and> last s = CHR ''=''
      then (let t = butlast s in if t \<noteq> [] \<and> last t = CHR ''='' then butlast t else t) else s)"

definition atob :: "string \<Rightarrow> bytes res" where
  "atob str =
     (let s = strip_pad (filter (\<lambda>c. of_char c \<notin> {9, 10, 12, 13, 32 :: nat}) str) in
      if length s mod 4 = 1 \<or> \<not> list_all (\<lambda>c. b64_val c \<noteq> None) s
      then Inl (OtherError ''InvalidCharacterError'')
      else Inr (b64_bytes (map (\<lambda>c. the (b64_val c)) s)))"

definition fromBase64 :: "string \<Rightarrow> bytes res" where
  "fromBase64 s =
     atob (map (\<lambda>c. if c = CHR ''-'' then CHR ''+'' else if c = CHR ''_'' then CHR ''/'' else c) s)"

text \<open>The round trip goes through the list of six-bit groups.\<close>

fun sextets :: "bytes \<Rightarrow> nat list" where
  "sextets (a # b # c # r) =
     (let n = unat a * 65536 + unat b * 256 + unat c in
      [n div 262144, n div 4096 mod 64, n div 64 mod 64, n mod 64] @ sextets r)"
| "sextets [a, b] =
     (let n = unat a * 65536 + unat b * 256 in [n div 262144, n div 4096 mod 64, n div 64 mod 64])"
| "sextets [a] = (let n = unat a * 65536 in [n div 262144, n div 4096 mod 64])"
| "sextets [] = []"

lemma sextets_bound: "x \<in> set (sextets bs) \<Longrightarrow> x < 64"
proof (induction bs rule: sextets.induct)
  case (1 a b c r)
  have "(unat a * 65536 + unat b * 256 + unat c) div 262144 < 64"
    using unat_byte_less [of a] unat_byte_less [of b] unat_byte_less [of c] by linarith
  then show ?case using 1 by (auto simp: Let_def)
next
  case (2 a b)
  have "(unat a * 65536 + unat b * 256) div 262144 < 64"
    using unat_byte_less [of a] unat_byte_less [of b] by linarith
  then show ?case using 2 by (auto simp: Let_def)
next
  case (3 a)
  have "(unat a * 65536) div 262144 < 64" using unat_byte_less [of a] by linarith
  then show ?case using 3 by (auto simp: Let_def)
qed simp

lemma of_nat_byte_eq: "n mod 256 = unat b \<Longrightarrow> (of_nat n :: byte) = b"
  by (simp add: word_unat_eq_iff unat_of_nat)

lemma split_24_bits:
  fixes a b c :: nat
  assumes "b < 256" "c < 256"
  shows "(a * 65536 + b * 256 + c) div 65536 = a"
    and "(a * 65536 + b * 256 + c) div 256 mod 256 = b"
    and "(a * 65536 + b * 256 + c) mod 256 = c"
proof -
  show "(a * 65536 + b * 256 + c) div 65536 = a"
    by (rule div_nat_eqI) (use assms in simp_all)
  have "(a * 65536 + b * 256 + c) div 256 = a * 256 + b"
    by (rule div_nat_eqI) (use assms in simp_all)
  then show "(a * 65536 + b * 256 + c) div 256 mod 256 = b" using assms by simp
  have "a * 65536 + b * 256 + c = c + (a * 256 + b) * 256" by simp
  then show "(a * 65536 + b * 256 + c) mod 256 = c" using assms by (simp only: mod_mult_self1) simp
qed

lemma split_sextets:
  fixes n :: nat
  shows "n div 262144 * 262144 + n div 4096 mod 64 * 4096 + n div 64 mod 64 * 64 + n mod 64 = n"
proof -
  have e: "n div 4096 = n div 64 div 64" "n div 262144 = n div 64 div 64 div 64"
    by (simp_all add: div_mult2_eq [symmetric])
  have sum: "q3 * 262144 + r2 * 4096 + r1 * 64 + r0 = m"
    if "q1 * 64 + r0 = m" "q2 * 64 + r1 = q1" "q3 * 64 + r2 = q2" for q1 q2 q3 r0 r1 r2 m :: nat
    using that by auto
  show ?thesis unfolding e by (rule sum; rule div_mult_mod_eq)
qed

lemma b64_bytes_sextets: "b64_bytes (sextets bs) = bs"
proof (induction bs rule: sextets.induct)
  case (1 a b c r)
  define n where "n = unat a * 65536 + unat b * 256 + unat c"
  have d: "n div 65536 mod 256 = unat a" "n div 256 mod 256 = unat b" "n mod 256 = unat c"
    unfolding n_def by (simp_all only: split_24_bits unat_byte_less mod_less)
  have "b64_bytes (sextets (a # b # c # r)) =
      [of_nat (n div 65536), of_nat (n div 256), of_nat n] @ b64_bytes (sextets r)"
    by (simp only: sextets.simps Let_def append.simps b64_bytes.simps split_sextets flip: n_def)
  then show ?case using 1 d by (simp only: of_nat_byte_eq append.simps)
next
  case (2 a b)
  define n where "n = unat a * 65536 + unat b * 256"
  have "n mod 64 = 0" by (simp add: n_def mod_add_eq [symmetric] mod_mult_right_eq [symmetric])
  then have "n div 262144 * 262144 + n div 4096 mod 64 * 4096 + n div 64 mod 64 * 64 = n"
    using split_sextets [of n] by simp
  then show ?case
    using split_24_bits [of "unat b" 0 "unat a"]
    by (simp add: Let_def of_nat_byte_eq flip: n_def del: of_nat_add of_nat_mult)
next
  case (3 a)
  define n where "n = unat a * 65536"
  have "n mod 64 = 0" "n div 64 mod 64 = 0" by (simp_all add: n_def)
  then have "n div 262144 * 262144 + n div 4096 mod 64 * 4096 = n"
    using split_sextets [of n] by simp
  then show ?case
    using split_24_bits [of 0 0 "unat a"]
    by (simp add: Let_def of_nat_byte_eq flip: n_def del: of_nat_add of_nat_mult)
qed simp

lemma btoa_sextets: "\<exists>k. btoa bs = map b64_char (sextets bs) @ replicate k (CHR ''='')"
proof (induction bs rule: sextets.induct)
  case (2 a b)
  show ?case by (intro exI [of _ 1]) (simp add: Let_def)
next
  case (3 a)
  show ?case by (intro exI [of _ 2]) (simp add: Let_def numeral_2_eq_2)
qed (auto simp: Let_def)

lemma of_char_b64_char:
  "n < 64 \<Longrightarrow> of_char (b64_char n) =
     (if n < 26 then 65 + n else if n < 52 then 71 + n
      else if n < 62 then n - 4 else if n = 62 then 43 else (47 :: nat))"
  by (auto simp: b64_char_def)

lemma b64_val_char [simp]: "n < 64 \<Longrightarrow> b64_val (b64_char n) = Some n"
  by (cases "n < 62"; cases "n = 62")
    (auto simp: b64_val_def Let_def of_char_b64_char, simp_all add: b64_char_def)

lemma b64_char_plain:
  assumes "n < 64"
  shows "b64_char n \<noteq> CHR ''=''" "b64_char n \<noteq> CHR ''-''" "b64_char n \<noteq> CHR ''_''"
    "of_char (b64_char n) \<notin> {9, 10, 12, 13, 32 :: nat}"
proof -
  have o: "of_char (b64_char n) \<notin> {61, 45, 95, 9, 10, 12, 13, 32 :: nat}"
    using assms by (auto simp: of_char_b64_char split: if_splits)
  then show "of_char (b64_char n) \<notin> {9, 10, 12, 13, 32 :: nat}" by simp
  have "b64_char n \<noteq> c" if "of_char c \<in> {61, 45, 95 :: nat}" for c
    using that o by auto
  then show "b64_char n \<noteq> CHR ''=''" "b64_char n \<noteq> CHR ''-''" "b64_char n \<noteq> CHR ''_''" by simp_all
qed

definition url_char :: "char \<Rightarrow> char" where
  "url_char c = (if c = CHR ''+'' then CHR ''-'' else if c = CHR ''/'' then CHR ''_'' else c)"

definition std_char :: "char \<Rightarrow> char" where
  "std_char c = (if c = CHR ''-'' then CHR ''+'' else if c = CHR ''_'' then CHR ''/'' else c)"

lemma std_url_char: "c \<noteq> CHR ''-'' \<Longrightarrow> c \<noteq> CHR ''_'' \<Longrightarrow> std_char (url_char c) = c"
  by (simp add: std_char_def url_char_def)

lemma url_char_eq_pad [simp]: "url_char c = CHR ''='' \<longleftrightarrow> c = CHR ''=''"
  by (simp add: url_char_def)

lemma toBase64_sextets: "toBase64 bs = map (url_char \<circ> b64_char) (sextets bs)"
proof -
  obtain k where k: "btoa bs = map b64_char (sextets bs) @ replicate k (CHR ''='')"
    using btoa_sextets by blast
  have "toBase64 bs = filter (\<lambda>c. c \<noteq> CHR ''='') (map url_char (btoa bs))"
    by (simp add: toBase64_def url_char_def [abs_def])
  also have "\<dots> = filter (\<lambda>c. c \<noteq> CHR ''='') (map (url_char \<circ> b64_char) (sextets bs))"
    by (simp add: k url_char_def)
  also have "\<dots> = map (url_char \<circ> b64_char) (sextets bs)"
    by (rule filter_True) (auto dest!: sextets_bound simp: b64_char_plain)
  finally show ?thesis .
qed

lemma length_sextets: "length (sextets bs) mod 4 \<noteq> 1"
  by (induction bs rule: sextets.induct) (simp_all add: Let_def)

lemma fromBase64_toBase64: "fromBase64 (toBase64 bs) = Inr bs"
proof -
  let ?t = "map b64_char (sextets bs)"
  have plain: "c \<noteq> CHR ''=''" "c \<noteq> CHR ''-''" "c \<noteq> CHR ''_''" "of_char c \<notin> {9, 10, 12, 13, 32 :: nat}"
    if "c \<in> set ?t" for c
    using that b64_char_plain by (auto dest!: sextets_bound)
  have "map std_char (toBase64 bs) = map (std_char \<circ> url_char) ?t"
    by (simp add: toBase64_sextets comp_assoc)
  also have "\<dots> = ?t"
    using plain by (intro map_idI) (simp add: std_url_char)
  finally have m: "map std_char (toBase64 bs) = ?t" .
  have f: "filter (\<lambda>c. of_char c \<notin> {9, 10, 12, 13, 32 :: nat}) ?t = ?t"
    using plain by (intro filter_True) blast
  have p: "strip_pad ?t = ?t"
    using plain(1) last_in_set [of ?t] unfolding strip_pad_def by metis
  have v: "map (\<lambda>c. the (b64_val c)) ?t = sextets bs"
    by (auto simp: comp_def intro!: map_idI dest!: sextets_bound)
  have a: "list_all (\<lambda>c. b64_val c \<noteq> None) ?t"
    by (auto simp: list_all_iff dest!: sextets_bound)
  have "fromBase64 (toBase64 bs) = atob ?t"
    unfolding fromBase64_def using m by (simp add: std_char_def [abs_def])
  also have "\<dots> = Inr (b64_bytes (sextets bs))"
    using a length_sextets [of bs] unfolding atob_def f p v Let_def by simp
  finally show ?thesis by (simp add: b64_bytes_sextets)
qed

end
