(* ===== verification/PowPolicy.thy ===== *)
theory PowPolicy
  imports Sodium Encoding
begin

text \<open>
  \<open>packages/core/src/crypto/PowPolicy.ts\<close>: the canonical preimage of a gossip packet's header,
  the packet identifier and the proof of work over it, and the normalisation \<open>toBytes\<close> of byte
  values that arrive from the network. The lemmas show that the preimage determines the header
  (so an identifier commits to every field of it), that the difficulty test is a bound on the
  hash read as a big-endian integer, and that the search returns the least solution.
\<close>

subsection \<open>Byte values from the wire\<close>

text \<open>\<open>Uint8Array.from\<close>: every element coerced to a number, then to a byte.\<close>

fun u8_from :: "jsval list \<Rightarrow> bytes res" where
  "u8_from [] = Inr []"
| "u8_from (v # vs) =
     rbind (js_to_number v) (\<lambda>n. rbind (u8_from vs) (\<lambda>bs. Inr (to_uint8 n # bs)))"

fun toBytes :: "jsval \<Rightarrow> bytes res" where
  "toBytes (JBytes b) = Inr b"
| "toBytes (JBuffer b) = Inr b"
| "toBytes (JView b) = Inr b"
| "toBytes (JArr vs) = u8_from vs"
| "toBytes (JObj kvs) = (case jget (JObj kvs) ''data'' of JArr vs \<Rightarrow> u8_from vs | _ \<Rightarrow> Inr [])"
| "toBytes _ = Inr []"

lemma toBytes_JBytes_id: "toBytes v = Inr b \<Longrightarrow> toBytes (JBytes b) = toBytes v"
  by simp

subsection \<open>Policy\<close>

definition MIN_DIFFICULTY :: int where [simp]: "MIN_DIFFICULTY = 8"
definition MAX_DIFFICULTY :: int where [simp]: "MAX_DIFFICULTY = 32"
definition NETWORK_DIFFICULTY :: int where [simp]: "NETWORK_DIFFICULTY = 12"
definition MAX_PAYLOAD_SIZE :: nat where [simp]: "MAX_PAYLOAD_SIZE = 2 * 1024"
definition NONCE_SIZE :: nat where [simp]: "NONCE_SIZE = 12"
definition MAX_TIME_DRIFT :: int where [simp]: "MAX_TIME_DRIFT = 15 * 60 * 1000"
definition MAX_HOP_COUNT :: int where [simp]: "MAX_HOP_COUNT = 30"

text \<open>\<open>AETHER/v3/gossip\<close>.\<close>

definition GOSSIP_DOMAIN :: bytes where
  "GOSSIP_DOMAIN =
     [0x41, 0x45, 0x54, 0x48, 0x45, 0x52, 0x2f, 0x76,
      0x33, 0x2f, 0x67, 0x6f, 0x73, 0x73, 0x69, 0x70]"

record pow_header =
  ph_timestamp :: jsval
  ph_zone_id :: jsval
  ph_difficulty :: jsval
  ph_nonce :: bytes
  ph_payload :: bytes

definition u64be :: "int \<Rightarrow> bytes" where
  "u64be v = be_bytes 8 v"

definition u32be :: "int \<Rightarrow> bytes" where
  "u32be v = be_bytes 4 v"

definition u16be :: "int \<Rightarrow> bytes" where
  "u16be v = be_bytes 2 v"

definition powPreimage :: "pow_header \<Rightarrow> bytes res" where
  "powPreimage h =
     (if \<not> is_safe_integer (ph_timestamp h) \<or> int_of (ph_timestamp h) < 0 then Inl RangeError
      else if \<not> is_integer (ph_zone_id h) \<or> int_of (ph_zone_id h) < 0 \<or> int_of (ph_zone_id h) > 0xffffffff then Inl RangeError
      else if \<not> is_integer (ph_difficulty h) \<or> int_of (ph_difficulty h) < 0 \<or> int_of (ph_difficulty h) > 255
        then Inl RangeError
      else if length (ph_nonce h) > 0xffff then Inl RangeError
      else if length (ph_payload h) > 0xffffffff then Inl RangeError
      else Inr (concat
        [GOSSIP_DOMAIN,
         u64be (int_of (ph_timestamp h)),
         u32be (int_of (ph_zone_id h)),
         [word_of_int (int_of (ph_difficulty h))],
         u16be (int (length (ph_nonce h))),
         ph_nonce h,
         u32be (int (length (ph_payload h))),
         ph_payload h]))"

definition powHash :: "sodium \<Rightarrow> bytes \<Rightarrow> int \<Rightarrow> bytes" where
  "powHash S preimage powNonce = sha256 S (concat [preimage, u64be powNonce])"

definition meetsDifficulty :: "bytes \<Rightarrow> int \<Rightarrow> bool" where
  "meetsDifficulty h d =
     (if d \<le> 0 then True
      else if d > int (length h) * 8 then False
      else
        (let fullBytes = nat (d div 8); remainBits = nat (d mod 8) in
         list_all (\<lambda>i. h ! i = 0) [0..<fullBytes] \<and>
         (remainBits > 0 \<longrightarrow> (h ! fullBytes) AND push_bit (8 - remainBits) 0xff = 0)))"

definition derivePacketId :: "sodium \<Rightarrow> pow_header \<Rightarrow> string res" where
  "derivePacketId S h = rbind (powPreimage h) (\<lambda>p. Inr (toHex (sha256 S p)))"

definition verifyPow :: "sodium \<Rightarrow> pow_header \<Rightarrow> int \<Rightarrow> bool" where
  "verifyPow S h powNonce =
     (if js_lt (ph_difficulty h) MIN_DIFFICULTY then False
      else if js_gt (ph_difficulty h) MAX_DIFFICULTY then False
      else (case powPreimage h of
              Inl _ \<Rightarrow> False
            | Inr p \<Rightarrow> meetsDifficulty (powHash S p powNonce) (int_of (ph_difficulty h))))"

text \<open>\<open>solve_from\<close> is the loop: \<open>k\<close> iterations are left, \<open>i\<close> is the next candidate.\<close>

fun solve_from :: "(int \<Rightarrow> bool) \<Rightarrow> nat \<Rightarrow> int \<Rightarrow> int option" where
  "solve_from ok 0 i = None"
| "solve_from ok (Suc k) i = (if ok i then Some i else solve_from ok k (i + 1))"

definition solvePow :: "sodium \<Rightarrow> pow_header \<Rightarrow> nat \<Rightarrow> int option res" where
  "solvePow S h maxIterations =
     rbind (powPreimage h)
       (\<lambda>p. Inr (solve_from (\<lambda>n. meetsDifficulty (powHash S p n) (int_of (ph_difficulty h))) maxIterations 0))"

subsection \<open>The preimage determines the header\<close>

lemma length_uints [simp, len_simps]:
  "length (u64be v) = 8" "length (u32be v) = 4" "length (u16be v) = 2"
  by (simp_all add: u64be_def u32be_def u16be_def)

lemma length_GOSSIP_DOMAIN [simp, len_simps]: "length GOSSIP_DOMAIN = 16"
  by (simp add: GOSSIP_DOMAIN_def)

lemma u64be_inject: "\<lbrakk>0 \<le> m; m \<le> max_safe; 0 \<le> n; n \<le> max_safe\<rbrakk> \<Longrightarrow> u64be m = u64be n \<longleftrightarrow> m = n"
  by (simp add: u64be_def be_bytes_inject max_safe_def)

lemma u32be_inject:
  "\<lbrakk>0 \<le> m; m \<le> 0xffffffff; 0 \<le> n; n \<le> 0xffffffff\<rbrakk> \<Longrightarrow> u32be m = u32be n \<longleftrightarrow> m = n"
  by (simp add: u32be_def be_bytes_inject)

lemma u16be_inject: "\<lbrakk>0 \<le> m; m \<le> 0xffff; 0 \<le> n; n \<le> 0xffff\<rbrakk> \<Longrightarrow> u16be m = u16be n \<longleftrightarrow> m = n"
  by (simp add: u16be_def be_bytes_inject)

lemma byte_of_int_inject:
  assumes "0 \<le> m" "m \<le> 255" "0 \<le> n" "n \<le> 255"
  shows "(word_of_int m :: byte) = word_of_int n \<longleftrightarrow> m = n"
proof
  assume "(word_of_int m :: byte) = word_of_int n"
  then have "uint (word_of_int m :: byte) = uint (word_of_int n :: byte)" by simp
  then show "m = n" using assms by (simp add: uint_word_of_int)
qed simp

definition header_ok :: "pow_header \<Rightarrow> bool" where
  "header_ok h \<longleftrightarrow>
     is_safe_integer (ph_timestamp h) \<and> 0 \<le> int_of (ph_timestamp h) \<and>
     is_integer (ph_zone_id h) \<and> 0 \<le> int_of (ph_zone_id h) \<and> int_of (ph_zone_id h) \<le> 0xffffffff \<and>
     is_integer (ph_difficulty h) \<and> 0 \<le> int_of (ph_difficulty h) \<and> int_of (ph_difficulty h) \<le> 255 \<and>
     length (ph_nonce h) \<le> 0xffff \<and> length (ph_payload h) \<le> 0xffffffff"

lemma powPreimage_ok_iff: "(\<exists>p. powPreimage h = Inr p) \<longleftrightarrow> header_ok h"
  by (auto simp: powPreimage_def header_ok_def not_less)

lemma powPreimage_Inr:
  "powPreimage h = Inr p \<Longrightarrow>
     p = GOSSIP_DOMAIN @ u64be (int_of (ph_timestamp h)) @ u32be (int_of (ph_zone_id h)) @
       word_of_int (int_of (ph_difficulty h)) # u16be (int (length (ph_nonce h))) @ ph_nonce h @
       u32be (int (length (ph_payload h))) @ ph_payload h"
  by (auto simp: powPreimage_def split: if_splits)

lemma powPreimage_inject:
  assumes "powPreimage h = Inr p" "powPreimage h' = Inr p"
  shows "h = (h' :: pow_header)"
proof -
  have ok: "header_ok h" "header_ok h'" using assms powPreimage_ok_iff by blast+
  note eq = powPreimage_Inr [OF assms(1)] powPreimage_Inr [OF assms(2)]
  have fields: "u64be (int_of (ph_timestamp h)) = u64be (int_of (ph_timestamp h'))"
    "u32be (int_of (ph_zone_id h)) = u32be (int_of (ph_zone_id h'))"
    "(word_of_int (int_of (ph_difficulty h)) :: byte) = word_of_int (int_of (ph_difficulty h'))"
    "u16be (int (length (ph_nonce h))) = u16be (int (length (ph_nonce h')))"
    and rest: "ph_nonce h @ u32be (int (length (ph_payload h))) @ ph_payload h =
       ph_nonce h' @ u32be (int (length (ph_payload h'))) @ ph_payload h'"
    using eq by (simp_all add: append_eq_len_conv)
  have "length (ph_nonce h) = length (ph_nonce h')"
    using fields(4) ok by (simp add: u16be_inject header_ok_def)
  with rest have bytes: "ph_nonce h = ph_nonce h'" "ph_payload h = ph_payload h'"
    by (simp_all add: append_eq_len_conv)
  have "int_of (ph_timestamp h) \<le> max_safe" "int_of (ph_timestamp h') \<le> max_safe"
    using ok by (simp_all add: header_ok_def is_safe_integer_def abs_le_iff)
  then have "int_of (ph_timestamp h) = int_of (ph_timestamp h')"
    using fields(1) ok by (simp add: header_ok_def u64be_inject)
  moreover have "int_of (ph_zone_id h) = int_of (ph_zone_id h')"
    "int_of (ph_difficulty h) = int_of (ph_difficulty h')"
    using fields ok by (simp_all add: header_ok_def u32be_inject byte_of_int_inject)
  ultimately have "ph_timestamp h = ph_timestamp h'" "ph_zone_id h = ph_zone_id h'" "ph_difficulty h = ph_difficulty h'"
    using ok unfolding header_ok_def is_safe_integer_def by (metis is_integer_int_of)+
  with bytes show ?thesis by simp
qed

subsection \<open>Difficulty is a bound on the hash\<close>

lemma be_val_append: "be_val (xs @ ys) = be_val xs * 256 ^ length ys + be_val ys"
proof (induction ys rule: rev_induct)
  case (snoc y ys)
  then show ?case using be_val_snoc [of "xs @ ys" y] by (simp add: algebra_simps)
qed simp

lemma be_val_eq_0_iff: "be_val xs = 0 \<longleftrightarrow> list_all (\<lambda>b. b = 0) xs"
proof (induction xs rule: rev_induct)
  case (snoc b bs)
  have "be_val bs * 256 + uint b = 0 \<longleftrightarrow> be_val bs = 0 \<and> uint b = 0"
    using be_val_nonneg [of bs] uint_nonnegative [of b] by linarith
  then show ?case using snoc by (simp add: uint_0_iff)
qed simp

lemma be_val_zeros_bound:
  assumes "m \<le> length xs"
  shows "be_val xs < 256 ^ (length xs - m) \<longleftrightarrow> list_all (\<lambda>i. xs ! i = 0) [0..<m]"
proof -
  let ?a = "take m xs" and ?b = "drop m xs"
  have v: "be_val xs = be_val ?a * 256 ^ (length xs - m) + be_val ?b"
    using be_val_append [of ?a ?b] by simp
  have b: "0 \<le> be_val ?b" "be_val ?b < 256 ^ (length xs - m)"
    using be_val_bound [of ?b] by simp_all
  have "be_val xs < 256 ^ (length xs - m) \<longleftrightarrow> be_val ?a = 0"
  proof
    assume lt: "be_val xs < 256 ^ (length xs - m)"
    show "be_val ?a = 0"
    proof (rule ccontr)
      assume "be_val ?a \<noteq> 0"
      then have "1 \<le> be_val ?a" using be_val_nonneg [of ?a] by linarith
      then have "1 * 256 ^ (length xs - m) \<le> be_val ?a * 256 ^ (length xs - m)"
        by (intro mult_right_mono) simp_all
      with lt v b show False by simp
    qed
  qed (use v b in simp)
  also have "\<dots> \<longleftrightarrow> list_all (\<lambda>i. xs ! i = 0) [0..<m]"
    using assms by (auto simp: be_val_eq_0_iff list_all_length list_all_iff)
  finally show ?thesis .
qed

lemma byte_high_mask_iff:
  assumes "k < 8"
  shows "(b :: byte) AND push_bit k 0xff = 0 \<longleftrightarrow> uint b < 2 ^ k"
proof -
  have ff: "(0xff :: byte) = mask 8" by (simp add: mask_numeral)
  have "b AND push_bit k 0xff = 0 \<longleftrightarrow> take_bit k b = b"
    unfolding ff by (auto simp: bit_eq_iff bit_simps not_le)
  also have "\<dots> \<longleftrightarrow> take_bit k (uint b) = uint b"
    by (metis unsigned_take_bit_eq word_uint_eqI)
  also have "\<dots> \<longleftrightarrow> uint b < 2 ^ k" by (simp add: take_bit_int_eq_self_iff)
  finally show ?thesis .
qed

lemma high_digit_zero:
  "\<lbrakk>0 \<le> a; 0 \<le> u; p \<le> (256 :: int)\<rbrakk> \<Longrightarrow> a * 256 + u < p \<longleftrightarrow> a = 0 \<and> u < p"
  by linarith

lemma meetsDifficulty_iff:
  assumes "0 < d" "d \<le> 8 * int (length h)"
  shows "meetsDifficulty h d \<longleftrightarrow> be_val h < 2 ^ nat (8 * int (length h) - d)"
proof -
  define m where "m = nat (d div 8)"
  define r where "r = nat (d mod 8)"
  have d: "d = 8 * int m + int r" and r: "r < 8" using assms by (simp_all add: m_def r_def)
  show ?thesis
  proof (cases "r = 0")
    case True
    have m: "m \<le> length h" using d assms True by linarith
    have e: "nat (8 * int (length h) - d) = 8 * (length h - m)" using d True m by (simp add: nat_eq_iff of_nat_diff)
    have "(256 :: int) ^ (length h - m) = 2 ^ (8 * (length h - m))" by (simp add: power_mult)
    then show ?thesis using assms True be_val_zeros_bound [OF m]
      by (simp add: meetsDifficulty_def e flip: m_def r_def)
  next
    case False
    have m: "m < length h" using d assms False by linarith
    let ?n = "length h - Suc m"
    have e: "nat (8 * int (length h) - d) = 8 * ?n + (8 - r)" using d r m by (simp add: nat_eq_iff of_nat_diff)
    have p: "(2 :: int) ^ (8 * ?n + (8 - r)) = 2 ^ (8 - r) * 256 ^ ?n" by (simp add: power_add power_mult)
    have sp: "h = take m h @ h ! m # drop (Suc m) h" using m by (simp add: id_take_nth_drop [symmetric])
    let ?a = "be_val (take m h)" and ?t = "be_val (drop (Suc m) h)"
    have v: "be_val h = (?a * 256 + uint (h ! m)) * 256 ^ ?n + ?t"
      using be_val_append [of "take m h @ [h ! m]" "drop (Suc m) h"] sp by simp
    have t: "0 \<le> ?t" "?t < 256 ^ ?n" using be_val_bound [of "drop (Suc m) h"] by simp_all
    have a0: "?a = 0 \<longleftrightarrow> list_all (\<lambda>i. h ! i = 0) [0..<m]"
      using m by (auto simp: be_val_eq_0_iff list_all_length list_all_iff)
    have u: "0 \<le> uint (h ! m)" by simp
    have q: "be_val h < 2 ^ (8 - r) * 256 ^ ?n \<longleftrightarrow> ?a * 256 + uint (h ! m) < 2 ^ (8 - r)"
    proof
      assume "be_val h < 2 ^ (8 - r) * 256 ^ ?n"
      then have "(?a * 256 + uint (h ! m)) * 256 ^ ?n < 2 ^ (8 - r) * 256 ^ ?n" using v t by linarith
      then show "?a * 256 + uint (h ! m) < 2 ^ (8 - r)" by simp
    next
      assume "?a * 256 + uint (h ! m) < 2 ^ (8 - r)"
      then have "(?a * 256 + uint (h ! m) + 1) * 256 ^ ?n \<le> 2 ^ (8 - r) * 256 ^ ?n"
        by (intro mult_right_mono) simp_all
      then show "be_val h < 2 ^ (8 - r) * 256 ^ ?n" using v t by (simp add: algebra_simps)
    qed
    have "(2::int) ^ (8 - r) \<le> 2 ^ 8" by (intro power_increasing) simp_all
    then have "?a * 256 + uint (h ! m) < 2 ^ (8 - r) \<longleftrightarrow> ?a = 0 \<and> uint (h ! m) < 2 ^ (8 - r)"
      by (intro high_digit_zero) simp_all
    then have "meetsDifficulty h d \<longleftrightarrow> ?a * 256 + uint (h ! m) < 2 ^ (8 - r)"
      using assms False r m
      by (simp add: meetsDifficulty_def a0 byte_high_mask_iff flip: m_def r_def)
    then show ?thesis unfolding e p q .
  qed
qed

text \<open>The bitwise difficulty test is the arithmetic one: a hash meets difficulty \<open>d\<close> exactly when,
  read as a big-endian integer, it is below \<open>2 ^ (8 * length - d)\<close>, i.e. has \<open>d\<close> leading zero bits.\<close>

theorem meetsDifficulty_bound:
  assumes "0 < d" "d \<le> 8 * int (length h)"
  shows "meetsDifficulty h d \<longleftrightarrow> be_val h < 2 ^ nat (8 * int (length h) - d)"
  using assms by (rule meetsDifficulty_iff)

theorem meetsDifficulty_bound_witness: "meetsDifficulty [0, 0x0f] 12 \<and> \<not> meetsDifficulty [0, 0x1f] 12"
  using meetsDifficulty_bound [of 12 "[0, 0x0f]"] meetsDifficulty_bound [of 12 "[0, 0x1f]"]
  by (simp add: be_val_def)

subsection \<open>The identifier commits to the header\<close>

lemma derivePacketId_preimage:
  "derivePacketId S h = Inr i \<Longrightarrow> \<exists>p. powPreimage h = Inr p \<and> i = toHex (sha256 S p)"
  by (auto simp: derivePacketId_def rbind_Inr_iff)

lemma derivePacketId_hex: "sha256_law S \<Longrightarrow> derivePacketId S h = Inr i \<Longrightarrow> hex_re 64 i"
  using hex_re_toHex [of "sha256 S p" for p] by (auto dest!: derivePacketId_preimage simp: len_simps)

definition header_a :: pow_header where
  "header_a = \<lparr>ph_timestamp = jint 1700000000000, ph_zone_id = jint 7, ph_difficulty = jint 12,
     ph_nonce = replicate 12 1, ph_payload = [1, 2, 3]\<rparr>"

lemma header_a_ok [simp]: "header_ok header_a"
  by (simp add: header_ok_def header_a_def max_safe_def)

text \<open>A packet identifier commits to the whole immutable header (timestamp, zone, difficulty,
  nonce and payload): two headers with the same identifier are the same header, unless SHA-256
  itself collides. So no relay can alter or re-date a packet and keep its identifier.\<close>

theorem derivePacketId_commits:
  assumes "derivePacketId S h = Inr i" "derivePacketId S h' = Inr i"
  shows "h = (h' :: pow_header) \<or> sha256_collision S"
proof -
  obtain p p' where p: "powPreimage h = Inr p" "powPreimage h' = Inr p'"
    and eq: "sha256 S p = sha256 S p'"
    using assms by (auto dest!: derivePacketId_preimage)
  show ?thesis
  proof (cases "p = p'")
    case True
    then show ?thesis using p powPreimage_inject by blast
  next
    case False
    then show ?thesis using eq by (auto simp: sha256_collision_def)
  qed
qed

theorem derivePacketId_commits_witness:
  "\<exists>i. derivePacketId toy_sodium header_a = Inr i \<and> (header_a = header_a \<or> sha256_collision toy_sodium)"
proof -
  obtain p where "powPreimage header_a = Inr p" using powPreimage_ok_iff [of header_a] by auto
  then have "derivePacketId toy_sodium header_a = Inr (toHex (sha256 toy_sodium p))"
    by (simp add: derivePacketId_def)
  from this derivePacketId_commits [OF this this] show ?thesis by blast
qed

subsection \<open>Verification and search\<close>

text \<open>A packet whose proof of work is accepted has a well-formed header, a difficulty inside
  the network policy whatever its sender declared, and a hash over that header and the nonce that is
  below \<open>2 ^ (256 - difficulty)\<close>. In particular declaring difficulty 0 is never accepted.\<close>

theorem verifyPow_sound:
  assumes "sha256_law S" "verifyPow S h n"
  shows "header_ok h \<and> MIN_DIFFICULTY \<le> int_of (ph_difficulty h) \<and> int_of (ph_difficulty h) \<le> MAX_DIFFICULTY \<and>
    (\<exists>p. powPreimage h = Inr p \<and> be_val (powHash S p n) < 2 ^ nat (256 - int_of (ph_difficulty h)))"
proof -
  obtain p where p: "powPreimage h = Inr p"
    and m: "meetsDifficulty (powHash S p n) (int_of (ph_difficulty h))"
    and b: "\<not> js_lt (ph_difficulty h) 8" "\<not> js_gt (ph_difficulty h) 32"
    using assms(2) by (auto simp: verifyPow_def split: if_splits sum.splits)
  have ok: "header_ok h" using p powPreimage_ok_iff by blast
  then have d: "8 \<le> int_of (ph_difficulty h)" "int_of (ph_difficulty h) \<le> 32"
    using b by (auto simp: header_ok_def js_cmp_integer)
  have "length (powHash S p n) = 32" using assms(1) by (simp add: powHash_def len_simps)
  then have "be_val (powHash S p n) < 2 ^ nat (256 - int_of (ph_difficulty h))"
    using m meetsDifficulty_iff [of "int_of (ph_difficulty h)" "powHash S p n"] d by simp
  with ok d p show ?thesis by simp
qed

lemma toy_meets [simp]: "d \<le> 256 \<Longrightarrow> meetsDifficulty (powHash toy_sodium p n) d"
  using meetsDifficulty_iff [of d "powHash toy_sodium p n"] be_val_eq_0_iff [of "replicate 32 0"]
  by (cases "d \<le> 0") (simp_all add: meetsDifficulty_def powHash_def toy_sodium_def list_all_length)

lemma toy_verifyPow:
  assumes "header_ok h" "8 \<le> int_of (ph_difficulty h)" "int_of (ph_difficulty h) \<le> 32"
  shows "verifyPow toy_sodium h n"
proof -
  obtain p where "powPreimage h = Inr p" using assms powPreimage_ok_iff by blast
  then show ?thesis using assms by (simp add: verifyPow_def header_ok_def js_cmp_integer)
qed

theorem verifyPow_sound_witness: "MIN_DIFFICULTY \<le> int_of (ph_difficulty header_a)"
  using verifyPow_sound [of toy_sodium header_a 0] toy_verifyPow [of header_a 0]
  by (simp add: header_a_def)

lemma solve_from_Some:
  "solve_from ok k i = Some n \<Longrightarrow> ok n \<and> i \<le> n \<and> n < i + int k \<and> (\<forall>m. i \<le> m \<and> m < n \<longrightarrow> \<not> ok m)"
proof (induction ok k i rule: solve_from.induct)
  case (2 ok k i)
  show ?case
  proof (cases "ok i")
    case True
    with 2 show ?thesis by auto
  next
    case False
    then have "solve_from ok k (i + 1) = Some n" using "2.prems" by simp
    from "2.IH" [OF False this] have ih: "ok n" "i + 1 \<le> n" "n < i + 1 + int k" "\<And>m. i + 1 \<le> m \<Longrightarrow> m < n \<Longrightarrow> \<not> ok m" by auto
    have "\<not> ok m" if "i \<le> m" "m < n" for m using that False ih(4) [of m] by (cases "m = i") auto
    with ih show ?thesis by auto
  qed
qed simp

lemma int_first_step: "(\<forall>m::int. i \<le> m \<and> m < i + int (Suc k) \<longrightarrow> P m) \<longleftrightarrow>
     P i \<and> (\<forall>m. i + 1 \<le> m \<and> m < i + 1 + int k \<longrightarrow> P m)" (is "?l \<longleftrightarrow> ?r")
proof
  assume r: ?r
  show ?l
  proof (intro allI impI)
    fix m assume "i \<le> m \<and> m < i + int (Suc k)"
    then show "P m" using r by (cases "m = i") auto
  qed
qed auto

lemma solve_from_None: "solve_from ok k i = None \<longleftrightarrow> (\<forall>m. i \<le> m \<and> m < i + int k \<longrightarrow> \<not> ok m)"
proof (induction ok k i rule: solve_from.induct)
  case (2 ok k i)
  then show ?case unfolding int_first_step by auto
qed auto

text \<open>The search is correct, least and complete: on a header with a difficulty of the policy, a
  nonce it returns verifies and no smaller nonce does, and when it gives up no nonce below the
  iteration bound verifies.\<close>

theorem solvePow_correct:
  assumes "solvePow S h k = Inr r" "8 \<le> int_of (ph_difficulty h)" "int_of (ph_difficulty h) \<le> 32"
  shows "case r of
      Some n \<Rightarrow> verifyPow S h n \<and> 0 \<le> n \<and> n < int k \<and> (\<forall>m. 0 \<le> m \<and> m < n \<longrightarrow> \<not> verifyPow S h m)
    | None \<Rightarrow> (\<forall>m. 0 \<le> m \<and> m < int k \<longrightarrow> \<not> verifyPow S h m)"
proof -
  let ?ok = "\<lambda>p n. meetsDifficulty (powHash S p n) (int_of (ph_difficulty h))"
  obtain p where p: "powPreimage h = Inr p" and r: "r = solve_from (?ok p) k 0"
    using assms(1) by (auto simp: solvePow_def rbind_Inr_iff)
  have "header_ok h" using p powPreimage_ok_iff by blast
  then have "\<not> js_lt (ph_difficulty h) 8" "\<not> js_gt (ph_difficulty h) 32"
    using assms(2,3) by (auto simp: header_ok_def js_cmp_integer)
  then have v: "verifyPow S h m = ?ok p m" for m using p by (simp add: verifyPow_def)
  show ?thesis
  proof (cases r)
    case None
    then have "solve_from (?ok p) k 0 = None" using r by simp
    then have "\<forall>m. 0 \<le> m \<and> m < 0 + int k \<longrightarrow> \<not> ?ok p m" by (rule solve_from_None [THEN iffD1])
    then show ?thesis using None by (simp only: v option.case add_0)
  next
    case (Some n)
    then have "solve_from (?ok p) k 0 = Some n" using r by simp
    from solve_from_Some [OF this, unfolded add_0] show ?thesis unfolding Some option.case v .
  qed
qed

lemma toy_solvePow: "header_ok h \<Longrightarrow> int_of (ph_difficulty h) \<le> 256 \<Longrightarrow> solvePow toy_sodium h 1 = Inr (Some 0)"
  using powPreimage_ok_iff [of h] by (auto simp: solvePow_def)

lemma header_a_difficulty [simp]: "int_of (ph_difficulty header_a) = 12"
  by (simp add: header_a_def)

theorem solvePow_correct_witness: "verifyPow toy_sodium header_a 0"
  using solvePow_correct [OF toy_solvePow [of header_a]] by simp

end
