(* ===== verification/Validator.thy ===== *)
theory Validator
  imports PowPolicy
begin

text \<open>
  \<open>packages/core/src/network/gossip/PacketValidator.ts\<close> and the projection
  \<open>committedHeaderOf\<close> of \<open>packages/core/src/crypto/PacketBuilder.ts\<close>: the keyless check every relay
  runs on a packet. The lemmas characterise acceptance completely, show that it does not depend on the
  mutable hop count, and name the one kind of input on which the check throws.
\<close>

datatype reject_reason =
    Malformed
  | BadPacketIdType
  | BadTimestamp
  | BadPayloadSize
  | BadNonceSize
  | BadHopCount
  | BadPowNonce
  | TimeDrift
  | PacketIdMismatch
  | InsufficientPow

definition committedHeaderOf :: "jsval \<Rightarrow> pow_header res" where
  "committedHeaderOf packet =
     rbind (toBytes (jget packet ''nonce'')) (\<lambda>n.
     rbind (toBytes (jget packet ''payload'')) (\<lambda>p.
       Inr \<lparr>ph_timestamp = jget packet ''timestamp'', ph_zone_id = jget packet ''zone_id'',
            ph_difficulty = jget packet ''pow_difficulty'', ph_nonce = n, ph_payload = p\<rparr>))"

text \<open>\<open>Inl\<close>: the check throws; \<open>Inr None\<close>: accepted; \<open>Inr (Some r)\<close>: rejected for \<open>r\<close>.\<close>

definition validator_check :: "sodium \<Rightarrow> int \<Rightarrow> bool \<Rightarrow> jsval \<Rightarrow> reject_reason option res" where
  "validator_check S now allowStale packet =
     (if \<not> is_object packet then Inr (Some Malformed)
      else
        (case jget packet ''packet_id'' of
           JStr packet_id \<Rightarrow>
             if length packet_id \<noteq> 64 then Inr (Some BadPacketIdType)
             else if \<not> is_number (jget packet ''timestamp'') \<or> \<not> is_safe_integer (jget packet ''timestamp'') \<or>
                int_of (jget packet ''timestamp'') < 0 then Inr (Some BadTimestamp)
             else
               rbind (committedHeaderOf packet) (\<lambda>header.
                 let ts = int_of (jget packet ''timestamp''); hop = jget packet ''hop_count'';
                     pow_nonce = jget packet ''pow_nonce'' in
                 if length (ph_payload header) = 0 \<or> length (ph_payload header) > MAX_PAYLOAD_SIZE
                   then Inr (Some BadPayloadSize)
                 else if length (ph_nonce header) \<noteq> NONCE_SIZE then Inr (Some BadNonceSize)
                 else if \<not> is_number hop \<or> \<not> is_integer hop \<or> int_of hop < 0 \<or> int_of hop > MAX_HOP_COUNT
                   then Inr (Some BadHopCount)
                 else if \<not> is_number pow_nonce \<or> \<not> is_safe_integer pow_nonce \<or> int_of pow_nonce < 0
                   then Inr (Some BadPowNonce)
                 else if ts - now > MAX_TIME_DRIFT then Inr (Some TimeDrift)
                 else if \<not> allowStale \<and> now - ts > MAX_TIME_DRIFT then Inr (Some TimeDrift)
                 else
                   (case derivePacketId S header of
                      Inl _ \<Rightarrow> Inr (Some Malformed)
                    | Inr expectedId \<Rightarrow>
                        if expectedId \<noteq> packet_id then Inr (Some PacketIdMismatch)
                        else if \<not> verifyPow S header (int_of pow_nonce) then Inr (Some InsufficientPow)
                        else Inr None))
         | _ \<Rightarrow> Inr (Some BadPacketIdType)))"

definition validate :: "sodium \<Rightarrow> int \<Rightarrow> bool \<Rightarrow> jsval \<Rightarrow> bool res" where
  "validate S now allowStale packet =
     rbind (validator_check S now allowStale packet) (\<lambda>r. Inr (r = None))"

text \<open>What is used of a packet after the check: its identifier, a string.\<close>

definition packet_id_of :: "jsval \<Rightarrow> string" where
  "packet_id_of packet = (case jget packet ''packet_id'' of JStr i \<Rightarrow> i | _ \<Rightarrow> [])"

subsection \<open>What acceptance means\<close>

definition packet_accepted :: "sodium \<Rightarrow> int \<Rightarrow> bool \<Rightarrow> jsval \<Rightarrow> bool" where
  "packet_accepted S now allowStale packet \<longleftrightarrow>
     (\<exists>i h. jget packet ''packet_id'' = JStr i \<and> length i = 64 \<and> is_object packet \<and>
        committedHeaderOf packet = Inr h \<and> derivePacketId S h = Inr i \<and>
        verifyPow S h (int_of (jget packet ''pow_nonce'')) \<and>
        is_safe_integer (jget packet ''pow_nonce'') \<and> 0 \<le> int_of (jget packet ''pow_nonce'') \<and>
        is_safe_integer (jget packet ''timestamp'') \<and> 0 \<le> int_of (jget packet ''timestamp'') \<and>
        0 < length (ph_payload h) \<and> length (ph_payload h) \<le> MAX_PAYLOAD_SIZE \<and> length (ph_nonce h) = NONCE_SIZE \<and>
        is_integer (jget packet ''hop_count'') \<and> 0 \<le> int_of (jget packet ''hop_count'') \<and>
        int_of (jget packet ''hop_count'') \<le> MAX_HOP_COUNT \<and>
        int_of (jget packet ''timestamp'') \<le> now + MAX_TIME_DRIFT \<and>
        (allowStale \<or> now - MAX_TIME_DRIFT \<le> int_of (jget packet ''timestamp'')))"

lemma is_integer_number: "is_integer v \<Longrightarrow> is_number v"
  by (auto simp: is_integer_iff)

lemma is_safe_integer_number: "is_safe_integer v \<Longrightarrow> is_number v"
  by (simp add: is_safe_integer_def is_integer_number)

lemma validator_check_None:
  assumes "validator_check S now st packet = Inr None"
  shows "packet_accepted S now st packet"
proof -
  obtain i where i: "jget packet ''packet_id'' = JStr i"
    using assms by (cases "jget packet ''packet_id''") (auto simp: validator_check_def split: if_splits)
  obtain h where h: "committedHeaderOf packet = Inr h"
    using assms i by (auto simp: validator_check_def rbind_Inr_iff split: if_splits)
  show ?thesis
    using assms i h unfolding packet_accepted_def
    by (intro exI [of _ i] exI [of _ h])
      (auto simp: validator_check_def Let_def not_less split: if_splits sum.splits)
qed

lemma packet_accepted_check:
  assumes "packet_accepted S now st packet"
  shows "validator_check S now st packet = Inr None"
proof -
  obtain i h where *: "jget packet ''packet_id'' = JStr i" "length i = 64" "is_object packet"
    "committedHeaderOf packet = Inr h" "derivePacketId S h = Inr i"
    "verifyPow S h (int_of (jget packet ''pow_nonce''))"
    "is_safe_integer (jget packet ''pow_nonce'')" "0 \<le> int_of (jget packet ''pow_nonce'')"
    "is_safe_integer (jget packet ''timestamp'')" "0 \<le> int_of (jget packet ''timestamp'')"
    "0 < length (ph_payload h)" "length (ph_payload h) \<le> 2048" "length (ph_nonce h) = 12"
    "is_integer (jget packet ''hop_count'')" "0 \<le> int_of (jget packet ''hop_count'')"
    "int_of (jget packet ''hop_count'') \<le> 30"
    "int_of (jget packet ''timestamp'') \<le> now + 900000"
    "st \<or> now - 900000 \<le> int_of (jget packet ''timestamp'')"
    using assms by (auto simp: packet_accepted_def)
  have n: "is_number (jget packet ''pow_nonce'')" "is_number (jget packet ''timestamp'')"
    "is_number (jget packet ''hop_count'')"
    using * is_safe_integer_number is_integer_number by blast+
  show ?thesis using * n by (auto simp: validator_check_def Let_def)
qed

lemma validator_check_accepts: "validator_check S now st packet = Inr None \<longleftrightarrow> packet_accepted S now st packet"
  using validator_check_None packet_accepted_check by blast

definition packet_of :: "string \<Rightarrow> jsval \<Rightarrow> jsval" where
  "packet_of i hop =
     JObj [(''packet_id'', JStr i), (''hop_count'', hop), (''pow_nonce'', jint 0),
           (''pow_difficulty'', jint 12), (''timestamp'', jint 1700000000000), (''zone_id'', jint 7),
           (''nonce'', JBytes (replicate 12 1)), (''payload'', JBytes [1, 2, 3])]"

lemma header_of_packet: "committedHeaderOf (packet_of i hop) = Inr header_a"
  by (simp add: committedHeaderOf_def packet_of_def header_a_def)

lemma toy_packet_accepted:
  "\<exists>i. packet_accepted toy_sodium 1700000000000 False (packet_of i (jint 0))"
proof -
  obtain p where "powPreimage header_a = Inr p" using powPreimage_ok_iff [of header_a] by auto
  then have i: "derivePacketId toy_sodium header_a = Inr (toHex (sha256 toy_sodium p))"
    by (simp add: derivePacketId_def)
  have len: "length (toHex (sha256 toy_sodium p)) = 64" by (simp add: len_simps)
  have v: "verifyPow toy_sodium header_a 0" by (rule toy_verifyPow) simp_all
  show ?thesis unfolding packet_accepted_def
    by (intro exI [of _ "toHex (sha256 toy_sodium p)"] exI [of _ header_a])
      (use i len v header_of_packet in \<open>simp add: packet_of_def header_a_def max_safe_def\<close>)
qed

text \<open>The check accepts exactly the packets that are well formed, inside the size, hop and time
  limits, whose identifier is the hash of their header and whose proof of work verifies; with
  \<open>allowStale\<close> only the limit on the past is dropped.\<close>

theorem validator_accepts_iff: "validator_check S now st packet = Inr None \<longleftrightarrow> packet_accepted S now st packet"
  by (rule validator_check_accepts)

subsection \<open>Relaying keeps a packet valid\<close>

definition set_hop_count :: "jsval \<Rightarrow> int \<Rightarrow> jsval" where
  "set_hop_count packet n =
     (case packet of JObj kvs \<Rightarrow> JObj (jm_set ''hop_count'' (jint n) kvs) | v \<Rightarrow> v)"

lemma jget_set_hop:
  "packet = JObj kvs \<Longrightarrow> jget (set_hop_count packet n) k = (if k = ''hop_count'' then jint n else jget packet k)"
  by (simp add: set_hop_count_def)

lemma packet_accepted_obj: "packet_accepted S now st packet \<Longrightarrow> \<exists>kvs. packet = JObj kvs"
  by (cases packet) (auto simp: packet_accepted_def)

lemma set_hop_accepted:
  assumes "packet_accepted S now st packet" "0 \<le> n" "n \<le> 30"
  shows "packet_accepted S now st (set_hop_count packet n)"
proof -
  obtain kvs where k: "packet = JObj kvs" using packet_accepted_obj [OF assms(1)] by blast
  have "committedHeaderOf (set_hop_count packet n) = committedHeaderOf packet"
    by (simp add: committedHeaderOf_def jget_set_hop [OF k])
  moreover have "is_object (set_hop_count packet n)" by (simp add: k set_hop_count_def)
  ultimately show ?thesis using assms unfolding packet_accepted_def
    by (simp add: jget_set_hop [OF k]) blast
qed

text \<open>The hop count is not part of what a packet commits to: resetting it to any legal value, as
  relays do, turns an accepted packet into an accepted packet with the same committed header, so
  an honest packet is never lost to relaying.\<close>

theorem relay_keeps_valid:
  assumes "validator_check S now st packet = Inr None" "0 \<le> n" "n \<le> MAX_HOP_COUNT"
  shows "validator_check S now st (set_hop_count packet n) = Inr None \<and>
    committedHeaderOf (set_hop_count packet n) = committedHeaderOf packet"
proof -
  have acc: "packet_accepted S now st packet" using assms(1) by (simp add: validator_check_accepts)
  obtain kvs where k: "packet = JObj kvs" using packet_accepted_obj [OF acc] by blast
  show ?thesis using set_hop_accepted [OF acc assms(2)] assms(3)
    by (simp add: validator_check_accepts committedHeaderOf_def jget_set_hop [OF k])
qed

theorem relay_keeps_valid_witness:
  "\<exists>i. validator_check toy_sodium 1700000000000 False (set_hop_count (packet_of i (jint 0)) 5) = Inr None"
proof -
  obtain i where "validator_check toy_sodium 1700000000000 False (packet_of i (jint 0)) = Inr None"
    using toy_packet_accepted validator_check_accepts by blast
  from relay_keeps_valid [OF this, of 5] show ?thesis by auto
qed

subsection \<open>Inputs on which the check throws\<close>

lemma u8_from_throws: "u8_from vs = Inl e \<Longrightarrow> \<exists>v \<in> set vs. js_to_number v = Inl e"
proof (induction vs)
  case (Cons v vs)
  then show ?case by (cases "js_to_number v"; cases "u8_from vs") auto
qed simp

lemma js_to_number_throws: "js_to_number v = Inl e \<Longrightarrow> (\<exists>n. v = JBig n) \<or> (\<exists>w. v = JArr [w])"
  by (cases v rule: js_to_number.cases) auto

lemma big_payload_throws:
  assumes "is_object packet" "jget packet ''packet_id'' = JStr i" "length i = 64"
    "is_safe_integer (jget packet ''timestamp'')" "0 \<le> int_of (jget packet ''timestamp'')"
    "toBytes (jget packet ''nonce'') = Inr n" "jget packet ''payload'' = JArr (JBig k # vs)"
  shows "validator_check S now st packet = Inl TypeError"
  using assms is_safe_integer_number [OF assms(4)]
  by (auto simp: validator_check_def committedHeaderOf_def not_less)

text \<open>The check is not total: a packet whose payload is an array holding a BigInt (which the JSON
  reviver of stored mailbox entries produces from untrusted input) makes it throw a type error
  instead of rejecting the packet as malformed.\<close>

theorem validator_throws_on_bigint:
  "\<exists>packet. is_object packet \<and> (\<forall>S now st. validator_check S now st packet = Inl TypeError)"
proof (intro exI conjI allI)
  let ?p = "JObj [(''packet_id'', JStr (replicate 64 (CHR ''0''))), (''timestamp'', jint 0),
                  (''payload'', JArr [JBig 1])]"
  show "is_object ?p" by simp
  show "validator_check S now st ?p = Inl TypeError" for S now st
    by (intro big_payload_throws [where i = "replicate 64 (CHR ''0'')" and n = "[]" and k = 1 and vs = "[]"])
      simp_all
qed

end
