(* ===== verification/JsText.thy ===== *)
theory JsText
  imports JsValue
begin

text \<open>
  The string functions of the language that several components use: splitting and joining, case
  mapping, printing of numbers, and the UTF-8 encoding of text (\<open>TextEncoder\<close>), with the lemmas
  that they lose nothing where the code relies on it. Code units are 8 bits wide here, so a
  character takes one or two bytes in UTF-8.
\<close>

subsection \<open>Case, splitting, joining\<close>

definition lower_char :: "char \<Rightarrow> char" where
  "lower_char c =
     (let n = (of_char c :: nat) in
      if (65 \<le> n \<and> n \<le> 90) \<or> (192 \<le> n \<and> n \<le> 222 \<and> n \<noteq> 215) then char_of (n + 32) else c)"

definition toLowerCase :: "string \<Rightarrow> string" where
  "toLowerCase = map lower_char"

fun split_on :: "char \<Rightarrow> string \<Rightarrow> string list" where
  "split_on c [] = [[]]"
| "split_on c (x # xs) =
     (if x = c then [] # split_on c xs
      else (case split_on c xs of [] \<Rightarrow> [[x]] | p # ps \<Rightarrow> (x # p) # ps))"

fun join_with :: "string \<Rightarrow> string list \<Rightarrow> string" where
  "join_with sep [] = []"
| "join_with sep [x] = x"
| "join_with sep (x # xs) = x @ sep @ join_with sep xs"

subsection \<open>Printing numbers\<close>

text \<open>\<open>n.toString(base)\<close>.\<close>

function nat_digits :: "nat \<Rightarrow> nat \<Rightarrow> string" where
  "nat_digits base n =
     (let d = n mod base; c = char_of (if d < 10 then 48 + d else 87 + d) in
      if n < base \<or> base < 2 then [c] else nat_digits base (n div base) @ [c])"
  by pat_completeness auto
termination by (relation "measure snd") (auto simp: div_less_dividend)

declare nat_digits.simps [simp del]

lemma split_on_plain: "c \<notin> set s \<Longrightarrow> split_on c s = [s]"
  by (induction s) auto

lemma split_on_append: "c \<notin> set s \<Longrightarrow> split_on c (s @ c # t) = s # split_on c t"
  by (induction s) auto

lemma digit_val_char:
  assumes "d < 16"
  shows "digit_val (char_of (if d < 10 then 48 + d else 87 + d)) = Some d"
proof -
  have "(of_char (char_of (if d < 10 then 48 + d else 87 + d) :: char) :: nat) = (if d < 10 then 48 + d else 87 + d)"
    using assms by auto
  then show ?thesis using assms unfolding digit_val_def Let_def by auto
qed

lemma nat_digits_props:
  assumes "2 \<le> base" "base \<le> 16"
  shows "nat_digits base n \<noteq> [] \<and> list_all (is_digit base) (nat_digits base n) \<and>
    digits_val base (nat_digits base n) = int n"
proof (induction n rule: less_induct)
  case (less n)
  define c :: char where "c = char_of (if n mod base < 10 then 48 + n mod base else 87 + n mod base)"
  have dv: "digit_val c = Some (n mod base)"
    unfolding c_def using assms by (intro digit_val_char) (metis less_le_trans mod_less_divisor pos2)
  have unf: "nat_digits base n = (if n < base then [c] else nat_digits base (n div base) @ [c])"
    using assms by (subst nat_digits.simps) (simp add: c_def Let_def)
  have d: "n mod base < base" using assms by simp
  show ?case
  proof (cases "n < base")
    case True
    then show ?thesis using dv d unf by (simp add: is_digit_def digits_val_def)
  next
    case False
    then have "n div base < n" using assms by (simp add: div_less_dividend)
    from less [OF this] show ?thesis using dv d False unf
      by (simp add: is_digit_def digits_val_def flip: zdiv_int of_nat_mult of_nat_add)
  qed
qed

lemma length_nat_digits: "2 \<le> base \<Longrightarrow> n < base ^ Suc k \<Longrightarrow> length (nat_digits base n) \<le> Suc k"
proof (induction k arbitrary: n)
  case 0
  then show ?case by (simp add: nat_digits.simps [of base n] Let_def)
next
  case (Suc k)
  have "n div base < base ^ Suc k"
    using Suc.prems by (intro less_mult_imp_div_less) (simp only: power_Suc mult.commute)
  from Suc.IH [OF Suc.prems(1) this] show ?case by (subst nat_digits.simps) (simp add: Let_def)
qed

lemma nat_digits_val: "digits_val 10 (nat_digits 10 n) = int n"
  using nat_digits_props [of 10 n] by simp

lemma nat_digits_inject: "nat_digits 10 m = nat_digits 10 n \<longleftrightarrow> m = n"
proof
  assume "nat_digits 10 m = nat_digits 10 n"
  then have "digits_val 10 (nat_digits 10 m) = digits_val 10 (nat_digits 10 n)" by (rule arg_cong)
  then show "m = n" by (simp only: nat_digits_val of_nat_eq_iff)
qed (rule arg_cong)

subsection \<open>UTF-8\<close>

definition utf8_char :: "char \<Rightarrow> bytes" where
  "utf8_char c =
     (let n = (of_char c :: nat) in
      if n < 128 then [of_nat n] else [of_nat (192 + n div 64), of_nat (128 + n mod 64)])"

definition utf8 :: "string \<Rightarrow> bytes" where
  "utf8 s = concat (map utf8_char s)"

lemma utf8_Nil [simp]: "utf8 [] = []"
  by (simp add: utf8_def)

lemma utf8_Cons [simp]: "utf8 (c # s) = utf8_char c @ utf8 s"
  by (simp add: utf8_def)

lemma of_char_less: "(of_char c :: nat) < 256"
  using nat_of_char_less_256 by simp

lemma unat_byte_of_nat: "m < 256 \<Longrightarrow> unat (of_nat m :: byte) = m"
  by (simp add: unat_of_nat)

lemma utf8_char_decode:
  "utf8_char c @ xs = utf8_char d @ ys \<Longrightarrow> c = d \<and> xs = ys"
proof -
  assume eq: "utf8_char c @ xs = utf8_char d @ ys"
  have dec: "unat (hd (utf8_char c @ xs)) < 128 \<longleftrightarrow> (of_char c :: nat) < 128"
    "(of_char c :: nat) < 128 \<Longrightarrow> of_char c = unat (hd (utf8_char c @ xs)) \<and> tl (utf8_char c @ xs) = xs"
    "\<not> (of_char c :: nat) < 128 \<Longrightarrow>
       of_char c = (unat (hd (utf8_char c @ xs)) - 192) * 64 + (unat (hd (tl (utf8_char c @ xs))) - 128) \<and>
       tl (tl (utf8_char c @ xs)) = xs" for c xs
  proof -
    let ?n = "of_char c :: nat"
    have n: "?n < 256" by (rule of_char_less)
    then have "?n div 64 < 4" by (intro less_mult_imp_div_less) simp
    then have hi: "unat (of_nat (192 + ?n div 64) :: byte) = 192 + ?n div 64"
      by (intro unat_byte_of_nat) linarith
    have "?n mod 64 < 64" by simp
    then have lo: "unat (of_nat (128 + ?n mod 64) :: byte) = 128 + ?n mod 64"
      by (intro unat_byte_of_nat) linarith
    have one: "unat (of_nat ?n :: byte) = ?n" using n by (rule unat_byte_of_nat)
    show "unat (hd (utf8_char c @ xs)) < 128 \<longleftrightarrow> ?n < 128"
      unfolding utf8_char_def Let_def using hi one by (simp del: of_nat_add)
    show "?n < 128 \<Longrightarrow> ?n = unat (hd (utf8_char c @ xs)) \<and> tl (utf8_char c @ xs) = xs"
      unfolding utf8_char_def Let_def using one by simp
    show "\<not> ?n < 128 \<Longrightarrow> ?n = (unat (hd (utf8_char c @ xs)) - 192) * 64 +
        (unat (hd (tl (utf8_char c @ xs))) - 128) \<and> tl (tl (utf8_char c @ xs)) = xs"
      unfolding utf8_char_def Let_def using hi lo by (simp del: of_nat_add)
  qed
  show ?thesis
  proof (cases "(of_char c :: nat) < 128")
    case True
    then have "(of_char d :: nat) < 128" using dec(1) eq by metis
    with True show ?thesis using dec(2) eq by (metis of_char_eq_iff)
  next
    case False
    then have "\<not> (of_char d :: nat) < 128" using dec(1) eq by metis
    with False show ?thesis using dec(3) eq by (metis of_char_eq_iff)
  qed
qed

lemma utf8_char_ne [simp]: "utf8_char c \<noteq> []"
  by (simp add: utf8_char_def Let_def)

lemma utf8_inject [simp]: "utf8 s = utf8 t \<longleftrightarrow> s = t"
proof
  show "utf8 s = utf8 t \<Longrightarrow> s = t"
  proof (induction s arbitrary: t)
    case (Cons c s)
    then obtain d u where t: "t = d # u" by (cases t) auto
    then show ?case using Cons utf8_char_decode [of c "utf8 s" d "utf8 u"] by simp
  qed (case_tac t, auto)
qed simp

lemma length_utf8: "length (utf8 s) \<le> 2 * length s"
  by (induction s) (auto simp: utf8_char_def Let_def)

end
