(* ===== verification/Codec.thy ===== *)
theory Codec
  imports Prelude
begin

text \<open>
  The contracts of the wire formats. \<open>byte_codec\<close> promises that decoding inverts encoding,
  \<open>canonical_codec\<close> moreover that nothing else decodes to the value (so stored bytes can be
  passed on unchanged), \<open>fixed_codec\<close> that all encodings have one length, which is what lets a value be
  framed in front of an opaque rest.
\<close>

locale byte_codec =
  fixes encode :: "'a \<Rightarrow> bytes"
    and decode :: "bytes \<Rightarrow> 'a option"
    and valid :: "'a \<Rightarrow> bool"
  assumes decode_encode: "valid x \<Longrightarrow> decode (encode x) = Some x"
begin

lemma encode_inject: "valid x \<Longrightarrow> valid y \<Longrightarrow> encode x = encode y \<longleftrightarrow> x = y"
  using decode_encode by (metis option.inject)

end

locale canonical_codec = byte_codec +
  assumes decode_valid: "decode bs = Some x \<Longrightarrow> valid x"
    and encode_decode: "decode bs = Some x \<Longrightarrow> encode x = bs"
begin

lemma decode_iff: "decode bs = Some x \<longleftrightarrow> valid x \<and> bs = encode x"
  using decode_encode decode_valid encode_decode by blast

end

locale fixed_codec = canonical_codec +
  fixes len :: nat
  assumes length_encode: "valid x \<Longrightarrow> length (encode x) = len"
    and len_bound: "len < 2 ^ 32"
begin

text \<open>A length-prefixed value in front of a body.\<close>

definition frame :: "'a \<times> bytes \<Rightarrow> bytes" where
  "frame xb = be_bytes 4 (int (length (encode (fst xb)))) @ encode (fst xb) @ snd xb"

definition unframe :: "bytes \<Rightarrow> ('a \<times> bytes) option" where
  "unframe bs =
     (if length bs < 4 then None
      else if be_val (take 4 bs) \<noteq> int len then None
      else if length bs < 4 + len then None
      else (case decode (take len (drop 4 bs)) of None \<Rightarrow> None | Some x \<Rightarrow> Some (x, drop (4 + len) bs)))"

lemma int_len: "int len mod 256 ^ 4 = int len"
  using len_bound by simp

lemma unframe_frame: "valid x \<Longrightarrow> unframe (frame (x, b)) = Some (x, b)"
  using length_encode [of x] int_len
  by (simp add: unframe_def frame_def be_val_be_bytes decode_encode)

lemma frame_unframe:
  assumes "unframe bs = Some (x, b)"
  shows "valid x \<and> frame (x, b) = bs"
proof -
  have bs: "4 + len \<le> length bs" "be_val (take 4 bs) = int len" "decode (take len (drop 4 bs)) = Some x"
    "b = drop (4 + len) bs"
    using assms by (auto simp: unframe_def split: if_splits option.splits)
  then have x: "valid x" "encode x = take len (drop 4 bs)" using decode_valid encode_decode by blast+
  have "be_bytes 4 (int len) = take 4 bs"
    using be_bytes_be_val [of "take 4 bs"] bs(1,2) by simp
  then have "frame (x, b) = take 4 bs @ take len (drop 4 bs) @ drop len (drop 4 bs)"
    using x(2) bs(1,4) by (simp add: frame_def add.commute)
  also have "\<dots> = bs" by (simp only: append_take_drop_id)
  finally show ?thesis using x(1) by simp
qed

lemma frame_canonical: "canonical_codec frame unframe (\<lambda>xb. valid (fst xb))"
proof
  show "\<And>xb. valid (fst xb) \<Longrightarrow> unframe (frame xb) = Some xb" by (metis unframe_frame surj_pair fst_conv)
  show "\<And>bs xb. unframe bs = Some xb \<Longrightarrow> valid (fst xb)" by (metis frame_unframe surj_pair fst_conv)
  show "\<And>bs xb. unframe bs = Some xb \<Longrightarrow> frame xb = bs" by (metis frame_unframe surj_pair)
qed

end

sublocale fixed_codec \<subseteq> framed: canonical_codec frame unframe "\<lambda>xb. valid (fst xb)"
  by (rule frame_canonical)

end
