(* ===== verification/Hint.thy ===== *)
theory Hint
  imports PowPolicy JsText Codec
begin

text \<open>
  The index packets of the Schroedinger mailbox: \<open>packages/core/src/network/hint/HintPacket.ts\<close> (form,
  identity, proof of work, byte format), \<open>HintCrypto.ts\<close> (sealing and trial opening) and
  \<open>SlotBlob.ts\<close> (hint and body stored together). The lemmas show that the stored format is a
  canonical codec, that a hint's identity ignores exactly the time to live and the proof of work,
  and that whoever holds the key opens what was built.
\<close>

subsection \<open>Hints\<close>

record hint =
  hn_version :: int
  hn_ttl :: int
  hn_blind_tag :: bytes
  hn_nonce :: bytes
  hn_pow_nonce :: int
  hn_ciphertext :: bytes

definition HINT_VERSION :: int where [simp]: "HINT_VERSION = 1"
definition BLIND_TAG_SIZE :: nat where [simp]: "BLIND_TAG_SIZE = 4"
definition HINT_NONCE_SIZE :: nat where [simp]: "HINT_NONCE_SIZE = 12"
definition HINT_PLAINTEXT_SIZE :: nat where [simp]: "HINT_PLAINTEXT_SIZE = 48"
definition HINT_CIPHERTEXT_SIZE :: nat where [simp]: "HINT_CIPHERTEXT_SIZE = HINT_PLAINTEXT_SIZE + 16"
definition HINT_INITIAL_TTL :: int where [simp]: "HINT_INITIAL_TTL = 8"
definition HINT_POW_DIFFICULTY :: int where [simp]: "HINT_POW_DIFFICULTY = 12"

text \<open>\<open>AETHER/v3/hint__\<close>.\<close>

definition HINT_DOMAIN :: bytes where
  "HINT_DOMAIN =
     [0x41, 0x45, 0x54, 0x48, 0x45, 0x52, 0x2f, 0x76,
      0x33, 0x2f, 0x68, 0x69, 0x6e, 0x74, 0x5f, 0x5f]"

definition hintPreimage :: "hint \<Rightarrow> bytes res" where
  "hintPreimage h =
     (if hn_version h < 0 \<or> hn_version h > 255 then Inl RangeError
      else if length (hn_blind_tag h) \<noteq> BLIND_TAG_SIZE then Inl RangeError
      else if length (hn_nonce h) \<noteq> HINT_NONCE_SIZE then Inl RangeError
      else if length (hn_ciphertext h) > 0xffffffff then Inl RangeError
      else Inr (concat
        [HINT_DOMAIN, [word_of_int (hn_version h)], hn_blind_tag h, hn_nonce h,
         u32be (int (length (hn_ciphertext h))), hn_ciphertext h]))"

definition hintId :: "sodium \<Rightarrow> hint \<Rightarrow> string res" where
  "hintId S h = rbind (hintPreimage h) (\<lambda>p. Inr (toHex (sha256 S p)))"

definition hintPowHash :: "sodium \<Rightarrow> bytes \<Rightarrow> int \<Rightarrow> bytes" where
  "hintPowHash S preimage powNonce = sha256 S (concat [preimage, u64be powNonce])"

definition verifyHintPow :: "sodium \<Rightarrow> hint \<Rightarrow> int \<Rightarrow> bool" where
  "verifyHintPow S h d =
     (if d \<le> 0 then True
      else if \<not> \<bar>hn_pow_nonce h\<bar> \<le> max_safe \<or> hn_pow_nonce h < 0 then False
      else (case hintPreimage h of
              Inl _ \<Rightarrow> False
            | Inr p \<Rightarrow> meetsDifficulty (hintPowHash S p (hn_pow_nonce h)) d))"

text \<open>The iteration bound of \<open>sealHintPow\<close>.\<close>

definition SEAL_MAX_ITER :: nat where "SEAL_MAX_ITER = 2 ^ 24"

definition sealHintPow :: "sodium \<Rightarrow> hint \<Rightarrow> int \<Rightarrow> hint res" where
  "sealHintPow S h d =
     (if d \<le> 0 then Inr (h\<lparr>hn_pow_nonce := 0\<rparr>)
      else rbind (hintPreimage h) (\<lambda>preimage.
        case solve_from (\<lambda>n. meetsDifficulty (hintPowHash S preimage n) d) SEAL_MAX_ITER 0 of
          Some n \<Rightarrow> Inr (h\<lparr>hn_pow_nonce := n\<rparr>)
        | None \<Rightarrow> Inl (OtherError ''sealHintPow'')))"

definition decrementHintTtl :: "hint \<Rightarrow> hint option" where
  "decrementHintTtl h = (if hn_ttl h \<le> 0 then None else Some (h\<lparr>hn_ttl := hn_ttl h - 1\<rparr>))"

definition parseHintPacket :: "jsval \<Rightarrow> hint option" where
  "parseHintPacket raw =
     (if \<not> is_object raw then None
      else if jget raw ''version'' \<noteq> jint HINT_VERSION then None
      else if \<not> is_integer (jget raw ''ttl'') \<or> int_of (jget raw ''ttl'') < 0 \<or> int_of (jget raw ''ttl'') > 255 then None
      else if \<not> is_safe_integer (jget raw ''pow_nonce'') \<or> int_of (jget raw ''pow_nonce'') < 0 then None
      else
        (case (toBytes (jget raw ''blind_tag''), toBytes (jget raw ''nonce''), toBytes (jget raw ''ciphertext'')) of
           (Inr blindTag, Inr nonce, Inr ciphertext) \<Rightarrow>
             if length blindTag \<noteq> BLIND_TAG_SIZE then None
             else if length nonce \<noteq> HINT_NONCE_SIZE then None
             else if length ciphertext \<noteq> HINT_CIPHERTEXT_SIZE then None
             else Some \<lparr>hn_version = HINT_VERSION, hn_ttl = int_of (jget raw ''ttl''), hn_blind_tag = blindTag,
                    hn_nonce = nonce, hn_pow_nonce = int_of (jget raw ''pow_nonce''), hn_ciphertext = ciphertext\<rparr>
         | _ \<Rightarrow> None))"

definition encodeHint :: "hint \<Rightarrow> bytes" where
  "encodeHint h =
     [word_of_int (hn_version h), word_of_int (hn_ttl h)] @ hn_blind_tag h @ hn_nonce h @
     be_bytes 8 (hn_pow_nonce h) @ hn_ciphertext h"

definition ENCODED_HINT_SIZE :: nat where
  "ENCODED_HINT_SIZE = 1 + 1 + BLIND_TAG_SIZE + HINT_NONCE_SIZE + 8 + HINT_CIPHERTEXT_SIZE"

definition decodeHint :: "bytes \<Rightarrow> hint option" where
  "decodeHint bs =
     (if length bs \<noteq> ENCODED_HINT_SIZE then None
      else
        (let version = uint (bs ! 0); ttl = uint (bs ! 1);
             blindTag = slice 2 6 bs; nonce = slice 6 18 bs;
             powNonce = be_val (slice 18 26 bs); ciphertext = drop 26 bs in
         if \<not> powNonce \<le> max_safe then None
         else parseHintPacket (JObj
           [(''version'', jint version), (''ttl'', jint ttl), (''blind_tag'', JBytes blindTag),
            (''nonce'', JBytes nonce), (''pow_nonce'', jint powNonce), (''ciphertext'', JBytes ciphertext)])))"

subsection \<open>The stored format\<close>

definition hint_ok :: "hint \<Rightarrow> bool" where
  "hint_ok h \<longleftrightarrow>
     hn_version h = 1 \<and> 0 \<le> hn_ttl h \<and> hn_ttl h \<le> 255 \<and> length (hn_blind_tag h) = 4 \<and> length (hn_nonce h) = 12 \<and>
     0 \<le> hn_pow_nonce h \<and> hn_pow_nonce h \<le> max_safe \<and> length (hn_ciphertext h) = 64"

lemma parseHintPacket_ok: "parseHintPacket raw = Some h \<Longrightarrow> hint_ok h"
  by (auto simp: parseHintPacket_def hint_ok_def is_safe_integer_def not_less split: if_splits sum.splits)

lemma length_encodeHint: "hint_ok h \<Longrightarrow> length (encodeHint h) = ENCODED_HINT_SIZE"
  by (simp add: encodeHint_def hint_ok_def ENCODED_HINT_SIZE_def)

lemma decodeHint_encodeHint:
  assumes "hint_ok h"
  shows "decodeHint (encodeHint h) = Some h"
proof -
  have b: "uint (word_of_int (hn_ttl h) :: byte) = hn_ttl h"
    using assms by (simp add: hint_ok_def uint_word_of_int)
  have v: "be_val (be_bytes 8 (hn_pow_nonce h)) = hn_pow_nonce h"
    using assms by (simp add: hint_ok_def be_val_be_bytes max_safe_def)
  have len: "length (hn_blind_tag h) = 4" "length (hn_nonce h) = 12" "length (hn_ciphertext h) = 64"
    using assms by (simp_all add: hint_ok_def)
  have fields: "encodeHint h ! 0 = word_of_int (hn_version h)" "encodeHint h ! 1 = word_of_int (hn_ttl h)"
    "slice 2 6 (encodeHint h) = hn_blind_tag h" "slice 6 18 (encodeHint h) = hn_nonce h"
    "slice 18 26 (encodeHint h) = be_bytes 8 (hn_pow_nonce h)" "drop 26 (encodeHint h) = hn_ciphertext h"
    using len by (simp_all add: encodeHint_def slice_def)
  show ?thesis
    unfolding decodeHint_def length_encodeHint [OF assms] Let_def fields b v
    using assms len by (simp add: hint_ok_def parseHintPacket_def)
qed

lemma split_encoded:
  assumes "length bs = 90"
  shows "bs = [bs ! 0, bs ! 1] @ slice 2 6 bs @ slice 6 18 bs @ slice 18 26 bs @ drop 26 bs"
proof -
  have "take 2 bs = [bs ! 0, bs ! 1]" using assms by (cases bs; cases "tl bs") auto
  moreover have "bs = take 2 bs @ take 4 (drop 2 bs) @ take 12 (drop 4 (drop 2 bs)) @
      take 8 (drop 12 (drop 4 (drop 2 bs))) @ drop 8 (drop 12 (drop 4 (drop 2 bs)))"
    by (simp only: append_take_drop_id)
  ultimately show ?thesis by (simp add: slice_def)
qed

lemma encodeHint_decodeHint:
  assumes "decodeHint bs = Some h"
  shows "hint_ok h \<and> encodeHint h = bs"
proof -
  have len: "length bs = 90" using assms by (simp add: decodeHint_def ENCODED_HINT_SIZE_def split: if_splits)
  let ?raw = "JObj [(''version'', jint (uint (bs ! 0))), (''ttl'', jint (uint (bs ! 1))),
      (''blind_tag'', JBytes (slice 2 6 bs)), (''nonce'', JBytes (slice 6 18 bs)),
      (''pow_nonce'', jint (be_val (slice 18 26 bs))), (''ciphertext'', JBytes (drop 26 bs))]"
  have p: "parseHintPacket ?raw = Some h"
    using assms by (simp add: decodeHint_def Let_def split: if_splits)
  have "jget ?raw ''version'' = jint 1"
    using p by (auto simp: parseHintPacket_def split: if_splits)
  then have "jint (uint (bs ! 0)) = jint 1" by simp
  then have ver: "uint (bs ! 0) = 1" by (simp only: jsval.inject jsnum.inject of_int_eq_iff)
  have h: "h = \<lparr>hn_version = 1, hn_ttl = uint (bs ! 1), hn_blind_tag = slice 2 6 bs, hn_nonce = slice 6 18 bs,
      hn_pow_nonce = be_val (slice 18 26 bs), hn_ciphertext = drop 26 bs\<rparr>"
    using p by (auto simp: parseHintPacket_def simp del: of_int_uint split: if_splits)
  have "length (slice 18 26 bs) = 8" using len by (simp add: slice_def)
  then have "be_bytes 8 (be_val (slice 18 26 bs)) = slice 18 26 bs" using be_bytes_be_val by metis
  moreover have "(word_of_int 1 :: byte) = bs ! 0" using ver by (metis word_of_int_uint)
  ultimately have "encodeHint h = [bs ! 0, bs ! 1] @ slice 2 6 bs @ slice 6 18 bs @ slice 18 26 bs @ drop 26 bs"
    by (simp add: h encodeHint_def)
  then show ?thesis using split_encoded [OF len] parseHintPacket_ok [OF p] by simp
qed

interpretation hints: fixed_codec encodeHint decodeHint hint_ok ENCODED_HINT_SIZE
  by unfold_locales
    (auto simp: decodeHint_encodeHint length_encodeHint ENCODED_HINT_SIZE_def dest: encodeHint_decodeHint)

subsection \<open>Slots\<close>

definition encodeSlotBlob :: "hint \<Rightarrow> bytes \<Rightarrow> bytes" where
  "encodeSlotBlob h body = (let hintBytes = encodeHint h in u32be (int (length hintBytes)) @ hintBytes @ body)"

definition decodeSlotBlob :: "bytes \<Rightarrow> (hint \<times> bytes) option" where
  "decodeSlotBlob bs =
     (if length bs < 4 then None
      else
        (let hintLen = be_val (take 4 bs) in
         if hintLen \<noteq> int ENCODED_HINT_SIZE then None
         else if int (length bs) < 4 + hintLen then None
         else (case decodeHint (slice 4 (4 + nat hintLen) bs) of
                 None \<Rightarrow> None
               | Some h \<Rightarrow> Some (h, drop (4 + nat hintLen) bs))))"

definition extractHint :: "bytes \<Rightarrow> hint option" where
  "extractHint bs = map_option fst (decodeSlotBlob bs)"

lemma encodeSlotBlob_frame: "encodeSlotBlob h body = hints.frame (h, body)"
  by (simp add: encodeSlotBlob_def hints.frame_def u32be_def Let_def)

lemma decodeSlotBlob_unframe: "decodeSlotBlob bs = hints.unframe bs"
  by (auto simp: decodeSlotBlob_def hints.unframe_def Let_def split: option.splits)

text \<open>A slot's bytes and its contents determine each other: what was stored is recovered, and bytes that
  decode at all are exactly the encoding of what they decode to, so a holder that re-injects the stored
  hint passes on the very hint that was put there.\<close>

theorem slot_blob_canonical:
  "decodeSlotBlob bs = Some (h, body) \<longleftrightarrow> hint_ok h \<and> bs = encodeSlotBlob h body"
  using hints.framed.decode_iff [of bs "(h, body)"]
  by (simp add: decodeSlotBlob_unframe encodeSlotBlob_frame)

subsection \<open>Identity and proof of work\<close>

lemma hintPreimage_Inr:
  "hintPreimage h = Inr p \<Longrightarrow>
     0 \<le> hn_version h \<and> hn_version h \<le> 255 \<and> length (hn_blind_tag h) = 4 \<and> length (hn_nonce h) = 12 \<and>
     p = HINT_DOMAIN @ word_of_int (hn_version h) # hn_blind_tag h @ hn_nonce h @
       u32be (int (length (hn_ciphertext h))) @ hn_ciphertext h"
  by (auto simp: hintPreimage_def split: if_splits)

lemma hintPreimage_inject:
  assumes "hintPreimage h = Inr p" "hintPreimage h' = Inr p"
  shows "hn_version h = hn_version h' \<and> hn_blind_tag h = hn_blind_tag h' \<and> hn_nonce h = hn_nonce h' \<and>
    hn_ciphertext h = hn_ciphertext h'"
proof -
  note e = hintPreimage_Inr [OF assms(1)] and e' = hintPreimage_Inr [OF assms(2)]
  have "(word_of_int (hn_version h) :: byte) = word_of_int (hn_version h')"
    and "hn_blind_tag h = hn_blind_tag h' \<and> hn_nonce h = hn_nonce h' \<and> hn_ciphertext h = hn_ciphertext h'"
    using e e' by (auto simp: append_eq_len_conv)
  then show ?thesis using byte_of_int_inject e e' by blast
qed

lemma hintPreimage_ttl [simp]:
  "hintPreimage (h\<lparr>hn_ttl := t\<rparr>) = hintPreimage h" "hintPreimage (h\<lparr>hn_pow_nonce := n\<rparr>) = hintPreimage h"
  by (simp_all add: hintPreimage_def)

text \<open>A hint's identifier commits to its version, tag, nonce and ciphertext and to nothing else: relaying
  (a smaller time to live) and another proof of work leave it unchanged, and two hints with one identifier
  agree on all four, unless SHA-256 collides. So neither can make a hint circulate as new.\<close>

theorem hintId_commits:
  assumes "hintId S h = Inr i"
  shows "hintId S (h\<lparr>hn_ttl := t, hn_pow_nonce := n\<rparr>) = Inr i \<and>
    (hintId S h' = Inr i \<longrightarrow>
       (hn_version h = hn_version h' \<and> hn_blind_tag h = hn_blind_tag h' \<and> hn_nonce h = hn_nonce h' \<and>
        hn_ciphertext h = hn_ciphertext h') \<or> sha256_collision S)"
proof -
  obtain p where p: "hintPreimage h = Inr p" "i = toHex (sha256 S p)"
    using assms by (auto simp: hintId_def rbind_Inr_iff)
  have "(hn_version h = hn_version h' \<and> hn_blind_tag h = hn_blind_tag h' \<and> hn_nonce h = hn_nonce h' \<and>
      hn_ciphertext h = hn_ciphertext h') \<or> sha256_collision S" if id': "hintId S h' = Inr i"
  proof -
    obtain p' where p': "hintPreimage h' = Inr p'" "toHex (sha256 S p') = toHex (sha256 S p)"
      using id' p(2) by (auto simp: hintId_def rbind_Inr_iff simp del: toHex_inject)
    show ?thesis using hintPreimage_inject [OF p(1), of h'] p' by (cases "p = p'") (simp, metis sha256_collision_def toHex_inject)
  qed
  then show ?thesis using p by (simp add: hintId_def)
qed

lemma sealHintPow_Inr:
  assumes "sealHintPow S h d = Inr h'" "0 < d"
  shows "\<exists>n. h' = h\<lparr>hn_pow_nonce := n\<rparr> \<and> 0 \<le> n \<and> n < 2 ^ 24 \<and> verifyHintPow S h' d"
proof -
  obtain p n where p: "hintPreimage h = Inr p" and n: "h' = h\<lparr>hn_pow_nonce := n\<rparr>"
    "solve_from (\<lambda>n. meetsDifficulty (hintPowHash S p n) d) SEAL_MAX_ITER 0 = Some n"
    using assms by (auto simp: sealHintPow_def rbind_Inr_iff split: option.splits)
  from solve_from_Some [OF n(2)] have "meetsDifficulty (hintPowHash S p n) d" "0 \<le> n" "n < 2 ^ 24"
    by (simp_all add: SEAL_MAX_ITER_def)
  then show ?thesis using n(1) p assms(2) by (auto simp: verifyHintPow_def max_safe_def)
qed

subsection \<open>Sealing and opening\<close>

record hint_payload =
  hp_nonce :: bytes
  hp_message_id :: int
  hp_timestamp :: int

definition MAILBOX_NONCE_SIZE :: nat where [simp]: "MAILBOX_NONCE_SIZE = 32"

definition deriveHintKey :: "sodium \<Rightarrow> bytes \<Rightarrow> bytes res" where
  "deriveHintKey S k = (case hmac S (utf8 ''aether_hint_v1'') k of None \<Rightarrow> Inl TypeError | Some t \<Rightarrow> Inr t)"

definition computeBlindTag :: "sodium \<Rightarrow> bytes \<Rightarrow> bytes \<Rightarrow> bytes res" where
  "computeBlindTag S k nonce = (case hmac S nonce k of None \<Rightarrow> Inl TypeError | Some t \<Rightarrow> Inr (take BLIND_TAG_SIZE t))"

definition encodeHintPayload :: "hint_payload \<Rightarrow> bytes res" where
  "encodeHintPayload p =
     (if length (hp_nonce p) \<noteq> MAILBOX_NONCE_SIZE then Inl RangeError
      else if \<not> \<bar>hp_message_id p\<bar> \<le> max_safe \<or> hp_message_id p < 0 then Inl RangeError
      else if \<not> \<bar>hp_timestamp p\<bar> \<le> max_safe \<or> hp_timestamp p < 0 then Inl RangeError
      else Inr (concat [hp_nonce p, u64be (hp_message_id p), u64be (hp_timestamp p)]))"

definition decodeHintPayload :: "bytes \<Rightarrow> hint_payload option" where
  "decodeHintPayload bs =
     (if length bs \<noteq> HINT_PLAINTEXT_SIZE then None
      else
        (let messageId = be_val (slice 32 40 bs); ts = be_val (slice 40 48 bs) in
         if \<not> messageId \<le> max_safe \<or> \<not> ts \<le> max_safe then None
         else Some \<lparr>hp_nonce = take MAILBOX_NONCE_SIZE bs, hp_message_id = messageId, hp_timestamp = ts\<rparr>))"

text \<open>\<open>buildHint\<close> with the hint nonce drawn from \<open>hintNonce\<close>.\<close>

definition buildHint :: "sodium \<Rightarrow> bytes \<Rightarrow> hint_payload \<Rightarrow> bytes \<Rightarrow> hint res" where
  "buildHint S k p hintNonce =
     (if length hintNonce \<noteq> HINT_NONCE_SIZE then Inl RangeError
      else
        rbind (deriveHintKey S k) (\<lambda>hintKey.
        rbind (encodeHintPayload p) (\<lambda>plaintext.
          let ciphertext = aead_seal S plaintext hintNonce hintKey in
          if length ciphertext \<noteq> HINT_CIPHERTEXT_SIZE then Inl (OtherError ''buildHint'')
          else
            rbind (computeBlindTag S k hintNonce) (\<lambda>tag.
              sealHintPow S
                \<lparr>hn_version = HINT_VERSION, hn_ttl = HINT_INITIAL_TTL, hn_blind_tag = tag, hn_nonce = hintNonce,
                 hn_pow_nonce = 0, hn_ciphertext = ciphertext\<rparr> HINT_POW_DIFFICULTY))))"

definition openHint :: "sodium \<Rightarrow> bytes \<Rightarrow> hint \<Rightarrow> hint_payload option res" where
  "openHint S k h =
     rbind (computeBlindTag S k (hn_nonce h)) (\<lambda>expected.
       if expected \<noteq> hn_blind_tag h then Inr None
       else
         (case deriveHintKey S k of
            Inl _ \<Rightarrow> Inr None
          | Inr hintKey \<Rightarrow>
              (case aead_open S (hn_ciphertext h) (hn_nonce h) hintKey of
                 None \<Rightarrow> Inr None
               | Some plaintext \<Rightarrow> Inr (decodeHintPayload plaintext))))"

definition mailboxKeyFromNonce :: "sodium \<Rightarrow> bytes \<Rightarrow> bytes res" where
  "mailboxKeyFromNonce S nonce =
     (if length nonce \<noteq> MAILBOX_NONCE_SIZE then Inl RangeError else Inr (sha256 S nonce))"

definition newMailboxSlot :: "sodium \<Rightarrow> bytes \<Rightarrow> (bytes \<times> bytes) res" where
  "newMailboxSlot S nonce = rbind (mailboxKeyFromNonce S nonce) (\<lambda>k. Inr (nonce, k))"

lemma encodeHintPayload_Inr:
  "encodeHintPayload p = Inr bs \<Longrightarrow>
     length (hp_nonce p) = 32 \<and> 0 \<le> hp_message_id p \<and> hp_message_id p \<le> max_safe \<and>
     0 \<le> hp_timestamp p \<and> hp_timestamp p \<le> max_safe \<and>
     bs = hp_nonce p @ be_bytes 8 (hp_message_id p) @ be_bytes 8 (hp_timestamp p)"
  by (auto simp: encodeHintPayload_def u64be_def split: if_splits)

lemma decodeHintPayload_encode:
  assumes "encodeHintPayload p = Inr bs"
  shows "length bs = 48 \<and> decodeHintPayload bs = Some p"
proof -
  note e = encodeHintPayload_Inr [OF assms]
  have "be_val (be_bytes 8 (hp_message_id p)) = hp_message_id p" "be_val (be_bytes 8 (hp_timestamp p)) = hp_timestamp p"
    using e by (simp_all add: be_val_be_bytes max_safe_def)
  then show ?thesis using e by (simp add: decodeHintPayload_def slice_def)
qed

lemma buildHint_opens:
  assumes "aead_law S" "buildHint S k p n = Inr h"
  shows "openHint S k h = Inr (Some p) \<and> verifyHintPow S h HINT_POW_DIFFICULTY"
proof -
  obtain key bs tag where key: "deriveHintKey S k = Inr key" and bs: "encodeHintPayload p = Inr bs"
    and tag: "computeBlindTag S k n = Inr tag"
    and s: "sealHintPow S \<lparr>hn_version = 1, hn_ttl = 8, hn_blind_tag = tag, hn_nonce = n,
        hn_pow_nonce = 0, hn_ciphertext = aead_seal S bs n key\<rparr> 12 = Inr h"
    using assms(2) by (auto simp: buildHint_def rbind_Inr_iff Let_def split: if_splits)
  from sealHintPow_Inr [OF s] obtain m where h: "h = \<lparr>hn_version = 1, hn_ttl = 8, hn_blind_tag = tag, hn_nonce = n,
        hn_pow_nonce = m, hn_ciphertext = aead_seal S bs n key\<rparr>" and pow: "verifyHintPow S h 12"
    by auto
  have "openHint S k h = Inr (Some p)"
    using key tag decodeHintPayload_encode [OF bs] aead_lawD [OF assms(1)] by (simp add: openHint_def h)
  then show ?thesis using pow by simp
qed

lemma openHint_ttl [simp]: "openHint S k (h\<lparr>hn_ttl := t\<rparr>) = openHint S k h"
  by (simp add: openHint_def cong: if_cong sum.case_cong option.case_cong)

lemma buildHint_ok:
  assumes "hmac_law S" "length k = 32" "buildHint S k p n = Inr h"
  shows "hint_ok h"
proof -
  obtain key bs tag where key: "length n = 12" "length (aead_seal S bs n key) = 64"
    and tag: "computeBlindTag S k n = Inr tag"
    and s: "sealHintPow S \<lparr>hn_version = 1, hn_ttl = 8, hn_blind_tag = tag, hn_nonce = n,
        hn_pow_nonce = 0, hn_ciphertext = aead_seal S bs n key\<rparr> 12 = Inr h"
    using assms(3) by (auto simp: buildHint_def rbind_Inr_iff Let_def split: if_splits)
  obtain t where "hmac S n k = Some t" "length t = 32" using assms(1,2) by (rule hmac_lawD)
  then have "length tag = 4" using tag by (auto simp: computeBlindTag_def)
  then show ?thesis using sealHintPow_Inr [OF s] key by (auto simp: hint_ok_def max_safe_def)
qed

text \<open>Whoever holds the key finds the mailbox: a hint built for a payload carries a sufficient proof of
  work, opens under the same key to exactly that payload, and still does, with the same identifier, after
  any number of relays and after being stored in a slot and re-injected from there.\<close>

theorem hint_roundtrip:
  assumes "aead_law S" "hmac_law S" "length k = 32" "buildHint S k p n = Inr h" "0 \<le> t" "t \<le> 255"
  shows "verifyHintPow S h HINT_POW_DIFFICULTY \<and>
    (\<exists>h'. extractHint (encodeSlotBlob (h\<lparr>hn_ttl := t\<rparr>) body) = Some h' \<and> openHint S k h' = Inr (Some p) \<and>
       hintId S h' = hintId S h)"
proof -
  have o: "openHint S k h = Inr (Some p)" "verifyHintPow S h HINT_POW_DIFFICULTY"
    using buildHint_opens [OF assms(1,4)] by simp_all
  have "hint_ok (h\<lparr>hn_ttl := t\<rparr>)" using buildHint_ok [OF assms(2-4)] assms(5,6) by (simp add: hint_ok_def)
  then have "decodeSlotBlob (encodeSlotBlob (h\<lparr>hn_ttl := t\<rparr>) body) = Some (h\<lparr>hn_ttl := t\<rparr>, body)"
    by (simp add: decodeSlotBlob_unframe encodeSlotBlob_frame hints.unframe_frame)
  then show ?thesis using o by (simp add: extractHint_def hintId_def)
qed

definition toy_payload :: hint_payload where
  "toy_payload = \<lparr>hp_nonce = replicate 32 5, hp_message_id = 77, hp_timestamp = 1700000000000\<rparr>"

lemma toy_hint_pow [simp]: "meetsDifficulty (hintPowHash toy_sodium p n) 12"
  using toy_meets [of 12 p n] by (simp add: hintPowHash_def powHash_def)

lemma solve_from_first: "ok i \<Longrightarrow> 0 < k \<Longrightarrow> solve_from ok k i = Some i"
  by (cases k) simp_all

lemma toy_buildHint_of:
  assumes "encodeHintPayload p = Inr bs"
  shows "\<exists>h. buildHint toy_sodium (replicate 32 1) p (replicate 12 2) = Inr h"
proof -
  have tag: "computeBlindTag toy_sodium (replicate 32 1) (replicate 12 2) = Inr (replicate 4 2)"
    by (simp add: computeBlindTag_def toy_sodium_def pad_to_def)
  have key: "\<exists>key. deriveHintKey toy_sodium (replicate 32 1) = Inr key"
    by (simp add: deriveHintKey_def toy_sodium_def)
  have len: "length (aead_seal toy_sodium bs n k) = length bs + 16" for bs n k
    by (rule aead_lawD) simp
  have seal: "\<exists>h'. sealHintPow toy_sodium h 12 = Inr h'" if "hint_ok h" for h
  proof -
    have "\<exists>p. hintPreimage h = Inr p" using that by (simp add: hintPreimage_def hint_ok_def)
    moreover have "0 < SEAL_MAX_ITER" by (simp add: SEAL_MAX_ITER_def)
    ultimately show ?thesis by (auto simp: sealHintPow_def solve_from_first)
  qed
  obtain key where k: "deriveHintKey toy_sodium (replicate 32 1) = Inr key" using key by blast
  have "length bs = 48" using decodeHintPayload_encode [OF assms] by simp
  then show ?thesis using tag k assms seal by (simp add: buildHint_def len Let_def hint_ok_def max_safe_def)
qed

lemma toy_buildHint: "\<exists>h. buildHint toy_sodium (replicate 32 1) toy_payload (replicate 12 2) = Inr h"
proof -
  have "\<exists>bs. encodeHintPayload toy_payload = Inr bs" by (simp add: encodeHintPayload_def toy_payload_def max_safe_def)
  then show ?thesis using toy_buildHint_of by blast
qed

theorem hint_roundtrip_witness:
  "\<exists>h h'. extractHint (encodeSlotBlob (h\<lparr>hn_ttl := 3\<rparr>) [9, 9]) = Some h' \<and>
     openHint toy_sodium (replicate 32 1) h' = Inr (Some toy_payload)"
proof -
  obtain h where "buildHint toy_sodium (replicate 32 1) toy_payload (replicate 12 2) = Inr h"
    using toy_buildHint by blast
  from hint_roundtrip [OF _ _ _ this, of 3 "[9, 9]"] show ?thesis by auto
qed

lemma toy_hintId: "\<exists>i. hintId toy_sodium \<lparr>hn_version = 1, hn_ttl = 8, hn_blind_tag = replicate 4 0,
    hn_nonce = replicate 12 0, hn_pow_nonce = 0, hn_ciphertext = replicate 64 0\<rparr> = Inr i"
  by (simp add: hintId_def hintPreimage_def)

theorem hintId_commits_witness:
  "\<exists>h i. hintId toy_sodium h = Inr i \<and> hintId toy_sodium (h\<lparr>hn_ttl := 1, hn_pow_nonce := 4\<rparr>) = Inr i"
proof -
  obtain h :: hint and i where h: "hintId toy_sodium h = Inr i" using toy_hintId by blast
  from hintId_commits [OF h, where t = 1 and n = 4 and h' = h]
  have "hintId toy_sodium (h\<lparr>hn_ttl := 1, hn_pow_nonce := 4\<rparr>) = Inr i" by (rule conjunct1)
  with h show ?thesis by blast
qed

end
