(* ===== verification/Json.thy ===== *)
theory Json
  imports JsText
begin

text \<open>
  JSON text as the language defines it, and \<open>packages/core/src/common/JsonBinary.ts\<close> on top of it:
  \<open>TextDecoder\<close>, \<open>JSON.parse\<close>, \<open>JSON.stringify\<close>, and the replacer and reviver that carry byte arrays
  and BigInts through it. Text is a list of 8-bit code units: a decoded character outside that range
  becomes a question mark. Numbers are exact; how a number that is not an integer is printed is the
  argument \<open>fmt\<close>. The parser runs on fuel, twice the length of the text; on the text of a value the length
  itself is enough (\<open>json_value_text\<close> in \<open>JsonText\<close>).
\<close>

subsection \<open>\<open>TextDecoder\<close>\<close>

definition replacement :: nat where "replacement = 65533"

text \<open>The decoder of the Encoding standard: \<open>need\<close> continuation bytes are missing, the next one must lie
  between \<open>lo\<close> and \<open>hi\<close>.\<close>

function utf8_scan :: "nat \<Rightarrow> nat \<Rightarrow> nat \<Rightarrow> nat \<Rightarrow> bytes \<Rightarrow> nat list" where
  "utf8_scan need cp lo hi [] = (if need = 0 then [] else [replacement])"
| "utf8_scan need cp lo hi (b # bs) =
     (let n = unat b in
      if need = 0 then
        if n < 128 then n # utf8_scan 0 0 128 191 bs
        else if 194 \<le> n \<and> n \<le> 223 then utf8_scan 1 (n - 192) 128 191 bs
        else if 224 \<le> n \<and> n \<le> 239 then
          utf8_scan 2 (n - 224) (if n = 224 then 160 else 128) (if n = 237 then 159 else 191) bs
        else if 240 \<le> n \<and> n \<le> 244 then
          utf8_scan 3 (n - 240) (if n = 240 then 144 else 128) (if n = 244 then 143 else 191) bs
        else replacement # utf8_scan 0 0 128 191 bs
      else if n < lo \<or> hi < n then replacement # utf8_scan 0 0 128 191 (b # bs)
      else if need = 1 then (cp * 64 + (n - 128)) # utf8_scan 0 0 128 191 bs
      else utf8_scan (need - 1) (cp * 64 + (n - 128)) 128 191 bs)"
  by pat_completeness auto
termination by (relation "measure (\<lambda>(need, cp, lo, hi, bs). 2 * length bs + (if need = 0 then 0 else 1))") auto

definition unit_char :: "nat \<Rightarrow> char" where
  "unit_char n = (if n < 256 then char_of n else CHR ''?'')"

definition text_decode :: "bytes \<Rightarrow> string" where
  "text_decode bs = map unit_char (utf8_scan 0 0 128 191 (if take 3 bs = [0xef, 0xbb, 0xbf] then drop 3 bs else bs))"

subsection \<open>\<open>JSON.parse\<close>\<close>

definition json_ws :: "char \<Rightarrow> bool" where
  "json_ws c \<longleftrightarrow> (of_char c :: nat) \<in> {9, 10, 13, 32}"

abbreviation skip_ws :: "string \<Rightarrow> string" where
  "skip_ws \<equiv> dropWhile json_ws"

text \<open>What follows a backslash: the character it stands for and the rest.\<close>

fun json_escape :: "string \<Rightarrow> (char \<times> string) option" where
  "json_escape [] = None"
| "json_escape (c # s) =
     (if c \<in> {CHR 0x22, CHR 0x5C, CHR ''/''} then Some (c, s)
      else if c = CHR ''b'' then Some (CHR 0x08, s)
      else if c = CHR ''f'' then Some (CHR 0x0C, s)
      else if c = CHR ''n'' then Some (CHR 0x0A, s)
      else if c = CHR ''r'' then Some (CHR 0x0D, s)
      else if c = CHR ''t'' then Some (CHR 0x09, s)
      else if c = CHR ''u'' \<and> 4 \<le> length s \<and> list_all (is_digit 16) (take 4 s)
        then Some (unit_char (nat (digits_val 16 (take 4 s))), drop 4 s)
      else None)"

lemma json_escape_shorter: "json_escape s = Some (c, r) \<Longrightarrow> length r < length s"
  by (cases s) (auto split: if_splits)

text \<open>The rest of a string after its opening quote.\<close>

function json_string :: "string \<Rightarrow> (string \<times> string) option" where
  "json_string [] = None"
| "json_string (c # s) =
     (if c = CHR 0x22 then Some ([], s)
      else if c = CHR 0x5C then
        (case json_escape s of
           None \<Rightarrow> None
         | Some (d, r) \<Rightarrow> map_option (\<lambda>(t, r'). (d # t, r')) (json_string r))
      else if (of_char c :: nat) < 32 then None
      else map_option (\<lambda>(t, r'). (c # t, r')) (json_string s))"
  by pat_completeness auto
termination by (relation "measure length") (auto dest: json_escape_shorter)

definition json_exponent :: "string \<Rightarrow> (rat \<times> string) option" where
  "json_exponent s =
     (case s of [] \<Rightarrow> Some (1, [])
      | c # t \<Rightarrow>
          if c = CHR ''e'' \<or> c = CHR ''E'' then
            (let neg = (case t of d # _ \<Rightarrow> d = CHR ''-'' | [] \<Rightarrow> False);
                 u = (case t of d # ds \<Rightarrow> if d = CHR ''-'' \<or> d = CHR ''+'' then ds else t | [] \<Rightarrow> []);
                 ds = takeWhile (is_digit 10) u; e = nat (digits_val 10 ds) in
             if ds = [] then None else Some (if neg then 1 / 10 ^ e else 10 ^ e, dropWhile (is_digit 10) u))
          else Some (1, s))"

definition json_fraction :: "string \<Rightarrow> (rat \<times> string) option" where
  "json_fraction s =
     (case s of [] \<Rightarrow> Some (0, [])
      | c # t \<Rightarrow>
          if c = CHR ''.'' then
            (let ds = takeWhile (is_digit 10) t in
             if ds = [] then None
             else Some (of_int (digits_val 10 ds) / 10 ^ length ds, dropWhile (is_digit 10) t))
          else Some (0, s))"

definition json_number :: "string \<Rightarrow> (rat \<times> string) option" where
  "json_number s =
     (let neg = (case s of c # _ \<Rightarrow> c = CHR ''-'' | [] \<Rightarrow> False); u = (if neg then tl s else s);
          ds = takeWhile (is_digit 10) u in
      if ds = [] \<or> (hd ds = CHR ''0'' \<and> 1 < length ds) then None
      else
        (case json_fraction (dropWhile (is_digit 10) u) of
           None \<Rightarrow> None
         | Some (f, r) \<Rightarrow>
             (case json_exponent r of
                None \<Rightarrow> None
              | Some (e, r') \<Rightarrow>
                  (let v = (of_int (digits_val 10 ds) + f) * e in Some (if neg then - v else v, r')))))"

definition json_literal :: "string \<Rightarrow> (jsval \<times> string) option" where
  "json_literal s =
     (if take 4 s = ''null'' then Some (Null, drop 4 s)
      else if take 4 s = ''true'' then Some (JBool True, drop 4 s)
      else if take 5 s = ''false'' then Some (JBool False, drop 5 s)
      else map_option (\<lambda>(r, t). (JNum (Fin r), t)) (json_number s))"

text \<open>A value, the elements of an array after its bracket, the members of an object after its brace.
  Of two members with one key the later gives the value.\<close>

fun json_value :: "nat \<Rightarrow> string \<Rightarrow> (jsval \<times> string) option"
  and json_elems :: "nat \<Rightarrow> string \<Rightarrow> (jsval list \<times> string) option"
  and json_members :: "nat \<Rightarrow> (string \<times> jsval) list \<Rightarrow> string \<Rightarrow> ((string \<times> jsval) list \<times> string) option"
where
  "json_value 0 s = None"
| "json_value (Suc n) s =
     (case skip_ws s of
        [] \<Rightarrow> None
      | c # t \<Rightarrow>
          if c = CHR 0x22 then map_option (\<lambda>(u, r). (JStr u, r)) (json_string t)
          else if c = CHR ''['' then
            (case skip_ws t of
               [] \<Rightarrow> None
             | d # r \<Rightarrow> if d = CHR '']'' then Some (JArr [], r)
                       else map_option (\<lambda>(vs, r). (JArr vs, r)) (json_elems n t))
          else if c = CHR ''{'' then
            (case skip_ws t of
               [] \<Rightarrow> None
             | d # r \<Rightarrow> if d = CHR ''}'' then Some (JObj [], r)
                       else map_option (\<lambda>(kvs, r). (JObj kvs, r)) (json_members n [] t))
          else json_literal (c # t))"
| "json_elems 0 s = None"
| "json_elems (Suc n) s =
     (case json_value n s of
        None \<Rightarrow> None
      | Some (v, r) \<Rightarrow>
          (case skip_ws r of
             [] \<Rightarrow> None
           | d # t \<Rightarrow> if d = CHR '']'' then Some ([v], t)
                     else if d = CHR '','' then map_option (\<lambda>(vs, r'). (v # vs, r')) (json_elems n t)
                     else None))"
| "json_members 0 kvs s = None"
| "json_members (Suc n) kvs s =
     (case skip_ws s of
        [] \<Rightarrow> None
      | q # s1 \<Rightarrow>
          if q \<noteq> CHR 0x22 then None
          else
            (case json_string s1 of
               None \<Rightarrow> None
             | Some (k, s2) \<Rightarrow>
                 (case skip_ws s2 of
                    [] \<Rightarrow> None
                  | c # s3 \<Rightarrow>
                      if c \<noteq> CHR '':'' then None
                      else
                        (case json_value n s3 of
                           None \<Rightarrow> None
                         | Some (v, r) \<Rightarrow>
                             (case skip_ws r of
                                [] \<Rightarrow> None
                              | d # t \<Rightarrow>
                                  if d = CHR ''}'' then Some (jm_set k v kvs, t)
                                  else if d = CHR '','' then json_members n (jm_set k v kvs) t
                                  else None)))))"

definition json_parse :: "string \<Rightarrow> jsval option" where
  "json_parse s =
     (case json_value (2 * length s + 2) s of
        None \<Rightarrow> None
      | Some (v, r) \<Rightarrow> if skip_ws r = [] then Some v else None)"

subsection \<open>\<open>JSON.stringify\<close> with the replacer\<close>

definition json_char :: "char \<Rightarrow> string" where
  "json_char c =
     (if c = CHR 0x22 \<or> c = CHR 0x5C then [CHR 0x5C, c]
      else if c = CHR 0x08 then [CHR 0x5C, CHR ''b'']
      else if c = CHR 0x0C then [CHR 0x5C, CHR ''f'']
      else if c = CHR 0x0A then [CHR 0x5C, CHR ''n'']
      else if c = CHR 0x0D then [CHR 0x5C, CHR ''r'']
      else if c = CHR 0x09 then [CHR 0x5C, CHR ''t'']
      else if (of_char c :: nat) < 32 then [CHR 0x5C, CHR ''u''] @ ''00'' @ (if (of_char c :: nat) < 16 then ''0'' else []) @ nat_digits 16 (of_char c)
      else [c])"

definition json_quote :: "string \<Rightarrow> string" where
  "json_quote s = CHR 0x22 # concat (map json_char s) @ [CHR 0x22]"

definition int_text :: "int \<Rightarrow> string" where
  "int_text n = (if n < 0 then CHR ''-'' # nat_digits 10 (nat (- n)) else nat_digits 10 (nat n))"

fun num_text :: "(rat \<Rightarrow> string) \<Rightarrow> jsnum \<Rightarrow> string" where
  "num_text fmt (Fin r) = (if of_int (floor r) = r \<and> \<bar>r\<bar> < 10 ^ 21 then int_text (floor r) else fmt r)"
| "num_text fmt _ = ''null''"

definition bytes_val :: "bytes \<Rightarrow> jsval" where
  "bytes_val bs = JArr (map (\<lambda>b. jint (uint b)) bs)"

text \<open>The replacer at one value, before its parts are visited.\<close>

definition replacer :: "jsval \<Rightarrow> jsval" where
  "replacer v =
     (case v of
        JBig n \<Rightarrow> JObj [(''_type'', JStr ''BigInt''), (''value'', JStr (int_text n))]
      | JBytes bs \<Rightarrow> JObj [(''_type'', JStr ''Uint8Array''), (''data'', bytes_val bs)]
      | _ \<Rightarrow> v)"

text \<open>The replacer applied throughout: the tree that is printed.\<close>

fun replaced :: "jsval \<Rightarrow> jsval" where
  "replaced (JArr vs) = JArr (map replaced vs)"
| "replaced (JObj kvs) = JObj (map (\<lambda>(k, v). (k, replaced v)) kvs)"
| "replaced v = replacer v"

text \<open>The text of a tree without BigInts and byte arrays. An absent value is left out of an object and is
  \<open>null\<close> in an array.\<close>

fun plain_text :: "(rat \<Rightarrow> string) \<Rightarrow> jsval \<Rightarrow> string option" where
  "plain_text fmt Undef = None"
| "plain_text fmt Null = Some ''null''"
| "plain_text fmt (JBool b) = Some (if b then ''true'' else ''false'')"
| "plain_text fmt (JNum n) = Some (num_text fmt n)"
| "plain_text fmt (JStr s) = Some (json_quote s)"
| "plain_text fmt (JArr vs) =
     Some (CHR ''['' # join_with '','' (map (\<lambda>v. case plain_text fmt v of None \<Rightarrow> ''null'' | Some t \<Rightarrow> t) vs) @ '']'')"
| "plain_text fmt (JObj kvs) =
     Some (CHR ''{'' # join_with '','' (concat (map (\<lambda>(k, v).
        case plain_text fmt v of None \<Rightarrow> [] | Some t \<Rightarrow> [json_quote k @ '':'' @ t]) kvs)) @ ''}'')"
| "plain_text fmt _ = Some ''{}''"

definition stringify :: "(rat \<Rightarrow> string) \<Rightarrow> jsval \<Rightarrow> string option" where
  "stringify fmt v = plain_text fmt (replaced v)"

subsection \<open>The reviver\<close>

definition JSON_MAX_BYTES :: nat where [simp]: "JSON_MAX_BYTES = 1048576"

text \<open>\<open>/^-?\d{1,80}$/\<close>\<close>

definition bigint_re :: "string \<Rightarrow> bool" where
  "bigint_re s =
     (let ds = (case s of c # t \<Rightarrow> if c = CHR ''-'' then t else s | [] \<Rightarrow> []) in
      1 \<le> length ds \<and> length ds \<le> 80 \<and> list_all (is_digit 10) ds)"

definition bigint_val :: "string \<Rightarrow> int" where
  "bigint_val s =
     (case s of [] \<Rightarrow> 0 | c # t \<Rightarrow> if c = CHR ''-'' then - digits_val 10 t else digits_val 10 s)"

definition is_byte_num :: "jsval \<Rightarrow> bool" where
  "is_byte_num v \<longleftrightarrow> is_integer v \<and> 0 \<le> int_of v \<and> int_of v \<le> 255"

definition reviver :: "jsval \<Rightarrow> jsval res" where
  "reviver v =
     (if jget v ''_type'' = JStr ''BigInt'' then
        (case jget v ''value'' of
           JStr s \<Rightarrow> if bigint_re s then Inr (JBig (bigint_val s)) else Inl TypeError
         | _ \<Rightarrow> Inl TypeError)
      else if jget v ''_type'' = JStr ''Uint8Array'' then
        (case jget v ''data'' of
           JArr ds \<Rightarrow>
             if length ds > JSON_MAX_BYTES then Inl TypeError
             else if list_all is_byte_num ds then Inr (JBytes (map (\<lambda>d. word_of_int (int_of d)) ds))
             else Inl TypeError
         | _ \<Rightarrow> Inl TypeError)
      else Inr v)"

text \<open>\<open>JSON.parse\<close> calls the reviver bottom-up.\<close>

fun revive :: "jsval \<Rightarrow> jsval res"
  and revive_elems :: "jsval list \<Rightarrow> jsval list res"
  and revive_members :: "(string \<times> jsval) list \<Rightarrow> (string \<times> jsval) list res" where
  "revive (JArr vs) = rbind (revive_elems vs) (\<lambda>vs. reviver (JArr vs))"
| "revive (JObj kvs) = rbind (revive_members kvs) (\<lambda>kvs. reviver (JObj kvs))"
| "revive v = reviver v"
| "revive_elems [] = Inr []"
| "revive_elems (v # vs) = rbind (revive v) (\<lambda>v. rbind (revive_elems vs) (\<lambda>vs. Inr (v # vs)))"
| "revive_members [] = Inr []"
| "revive_members ((k, v) # kvs) = rbind (revive v) (\<lambda>v. rbind (revive_members kvs) (\<lambda>kvs. Inr ((k, v) # kvs)))"

definition json_binary_parse :: "string \<Rightarrow> jsval res" where
  "json_binary_parse s = (case json_parse s of None \<Rightarrow> Inl (OtherError ''SyntaxError'') | Some v \<Rightarrow> revive v)"

end
