(* ===== verification/MailboxEntry.thy ===== *)
theory MailboxEntry
  imports Validator Hint Json
begin

text \<open>
  \<open>packages/core/src/network/mailbox/MailboxEntry.ts\<close>: what a node checks of an entry before it stores
  or returns it, without any key. An entry is a packet as JSON, alone or behind the hint of a slot. The
  outer \<open>Inl\<close> is an exception that leaves the check. The lemmas characterise an accepted entry and show
  that the filter keeps exactly the accepted ones, one for each packet, in order, at most 64.
\<close>

subsection \<open>Limits\<close>

definition MAX_ENTRY_BYTES :: nat where [simp]: "MAX_ENTRY_BYTES = 16 * 1024"
definition MAX_ENTRIES_PER_MESSAGE :: nat where [simp]: "MAX_ENTRIES_PER_MESSAGE = 64"
definition MAX_ENTRIES_PER_TOPIC :: nat where [simp]: "MAX_ENTRIES_PER_TOPIC = 4"
definition MAX_TOPICS :: nat where [simp]: "MAX_TOPICS = 4096"
definition MAX_TOTAL_BYTES :: nat where [simp]: "MAX_TOTAL_BYTES = 64 * 1024 * 1024"
definition MAX_BYTES_PER_PEER_PER_HOUR :: nat where [simp]: "MAX_BYTES_PER_PEER_PER_HOUR = 8 * 1024 * 1024"
definition RETENTION_MS :: int where [simp]: "RETENTION_MS = 30 * 24 * 60 * 60 * 1000"

datatype entry_reason =
    RejectEntry reject_reason
  | TooLarge
  | NotJson
  | NotAPacket
  | BadHintPow

subsection \<open>The checks\<close>

definition is_topic_hash :: "string \<Rightarrow> bool" where
  "is_topic_hash s \<longleftrightarrow> hex_re 64 s \<or> hex_re 128 s"

definition isValidTopicHash :: "jsval \<Rightarrow> bool" where
  "isValidTopicHash v = (case v of JStr s \<Rightarrow> is_topic_hash s | _ \<Rightarrow> False)"

type_synonym entry_check = "(entry_reason + jsval) res"

definition checkPacketBytes :: "sodium \<Rightarrow> int \<Rightarrow> bytes \<Rightarrow> entry_check" where
  "checkPacketBytes S now bs =
     (case json_binary_parse (text_decode bs) of
        Inl _ \<Rightarrow> Inr (Inl NotJson)
      | Inr packet \<Rightarrow>
          if \<not> is_object packet then Inr (Inl NotAPacket)
          else
            rbind (validator_check S now True packet) (\<lambda>r.
              case r of Some reason \<Rightarrow> Inr (Inl (RejectEntry reason)) | None \<Rightarrow> Inr (Inr packet)))"

definition checkEntry :: "sodium \<Rightarrow> int \<Rightarrow> bytes \<Rightarrow> entry_check" where
  "checkEntry S now entry =
     (if length entry = 0 \<or> length entry > MAX_ENTRY_BYTES then Inr (Inl TooLarge)
      else
        (case decodeSlotBlob entry of
           Some (h, body) \<Rightarrow>
             if \<not> verifyHintPow S h HINT_POW_DIFFICULTY then Inr (Inl BadHintPow)
             else checkPacketBytes S now body
         | None \<Rightarrow> checkPacketBytes S now entry))"

text \<open>An element of the message as bytes: a \<open>Uint8Array\<close> (or a Node buffer) or another view.\<close>

definition entry_bytes :: "jsval \<Rightarrow> bytes option" where
  "entry_bytes v = (case v of JBytes b \<Rightarrow> Some b | JView b \<Rightarrow> Some b | _ \<Rightarrow> None)"

definition count_reason :: "entry_reason \<Rightarrow> (entry_reason, nat) jsmap \<Rightarrow> (entry_reason, nat) jsmap" where
  "count_reason r m = jm_set r ((case jm_get m r of Some n \<Rightarrow> n | None \<Rightarrow> 0) + 1) m"

text \<open>The loop, with the identifiers seen and the results so far. A key of the set of identifiers is the
  value of \<open>packet_id\<close>, a string in every accepted packet.\<close>

fun filter_entries ::
  "sodium \<Rightarrow> int \<Rightarrow> jsval list \<Rightarrow> jsval list \<Rightarrow> bytes list \<Rightarrow> (entry_reason, nat) jsmap \<Rightarrow>
     (bytes list \<times> (entry_reason, nat) jsmap) res" where
  "filter_entries S now [] seen accepted rejected = Inr (accepted, rejected)"
| "filter_entries S now (raw # raws) seen accepted rejected =
     (case entry_bytes raw of
        None \<Rightarrow> filter_entries S now raws seen accepted (count_reason NotAPacket rejected)
      | Some entry \<Rightarrow>
          (case checkEntry S now entry of
             Inl e \<Rightarrow> Inl e
           | Inr (Inl reason) \<Rightarrow> filter_entries S now raws seen accepted (count_reason reason rejected)
           | Inr (Inr packet) \<Rightarrow>
               (let i = jget packet ''packet_id'' in
                if i \<in> set seen then filter_entries S now raws seen accepted rejected
                else filter_entries S now raws (js_add i seen) (accepted @ [entry]) rejected)))"

definition filterValidEntries :: "sodium \<Rightarrow> int \<Rightarrow> jsval \<Rightarrow> (bytes list \<times> (entry_reason, nat) jsmap) res" where
  "filterValidEntries S now entries =
     (case entries of
        JArr raws \<Rightarrow> filter_entries S now (take MAX_ENTRIES_PER_MESSAGE raws) [] [] []
      | _ \<Rightarrow> Inr ([], []))"

subsection \<open>What is accepted\<close>

definition entry_valid :: "sodium \<Rightarrow> int \<Rightarrow> bytes \<Rightarrow> bool" where
  "entry_valid S now entry \<longleftrightarrow> (\<exists>packet. checkEntry S now entry = Inr (Inr packet))"

text \<open>The packet an entry carries.\<close>

definition entry_packet :: "bytes \<Rightarrow> jsval res" where
  "entry_packet entry =
     json_binary_parse (text_decode (case decodeSlotBlob entry of Some (h, body) \<Rightarrow> body | None \<Rightarrow> entry))"

lemma checkPacketBytes_accepts:
  "checkPacketBytes S now bs = Inr (Inr packet) \<longleftrightarrow>
     json_binary_parse (text_decode bs) = Inr packet \<and> packet_accepted S now True packet"
proof (cases "json_binary_parse (text_decode bs)")
  case (Inr p)
  have obj: "packet_accepted S now True p \<Longrightarrow> is_object p" by (auto simp: packet_accepted_def)
  then show ?thesis using Inr
    by (auto simp: checkPacketBytes_def rbind_Inr_iff validator_check_accepts split: option.splits)
qed (simp add: checkPacketBytes_def)

lemma checkEntry_accepts:
  "checkEntry S now entry = Inr (Inr packet) \<longleftrightarrow>
     0 < length entry \<and> length entry \<le> MAX_ENTRY_BYTES \<and>
     (\<forall>h body. decodeSlotBlob entry = Some (h, body) \<longrightarrow> verifyHintPow S h HINT_POW_DIFFICULTY) \<and>
     entry_packet entry = Inr packet \<and> packet_accepted S now True packet"
  by (cases "decodeSlotBlob entry")
    (auto simp: checkEntry_def checkPacketBytes_accepts entry_packet_def simp del: HINT_POW_DIFFICULTY_def
      split: if_splits)

text \<open>An old entry stays valid: only a timestamp in the future counts against it.\<close>

lemma entry_valid_mono: "entry_valid S now entry \<Longrightarrow> now \<le> now' \<Longrightarrow> entry_valid S now' entry"
  unfolding entry_valid_def checkEntry_accepts packet_accepted_def by force

definition entry_id :: "bytes \<Rightarrow> jsval" where
  "entry_id entry = (case entry_packet entry of Inr packet \<Rightarrow> jget packet ''packet_id'' | Inl _ \<Rightarrow> Undef)"

lemma checkEntry_id: "checkEntry S now entry = Inr (Inr packet) \<Longrightarrow> entry_id entry = jget packet ''packet_id''"
  by (simp add: checkEntry_accepts entry_id_def)

lemma filter_entries_result:
  assumes "filter_entries S now raws seen acc rej = Inr (out, rej')"
    "set seen = entry_id ` set acc" "distinct (map entry_id acc)" "\<forall>e \<in> set acc. entry_valid S now e"
  shows "(\<forall>e \<in> set out. entry_valid S now e) \<and> distinct (map entry_id out) \<and>
    length out \<le> length acc + length raws \<and> set acc \<subseteq> set out \<and>
    (\<forall>e \<in> set out. e \<in> set acc \<or> (\<exists>raw \<in> set raws. entry_bytes raw = Some e)) \<and>
    (\<forall>raw \<in> set raws. \<forall>e. entry_bytes raw = Some e \<longrightarrow> entry_valid S now e \<longrightarrow> entry_id e \<in> entry_id ` set out)"
  using assms
proof (induction S now raws seen acc rej rule: filter_entries.induct)
  case (2 S now raw raws seen acc rej)
  show ?case
  proof (cases "entry_bytes raw")
    case None
    then show ?thesis using "2.IH"(1) [OF None] "2.prems" by auto
  next
    case (Some entry)
    note entry = Some
    show ?thesis
    proof (cases "checkEntry S now entry")
      case (Inl e)
      then show ?thesis using "2.prems"(1) entry by simp
    next
      case (Inr r)
      note check = Inr
      show ?thesis
      proof (cases r)
        case (Inl reason)
        have "\<not> entry_valid S now entry" using check Inl by (simp add: entry_valid_def)
        then show ?thesis using "2.IH"(2) [OF entry check Inl] "2.prems" entry check Inl by auto
      next
        case (Inr packet)
        have v: "entry_valid S now entry" using check Inr by (auto simp: entry_valid_def)
        have i: "entry_id entry = jget packet ''packet_id''" using checkEntry_id check Inr by blast
        show ?thesis
        proof (cases "jget packet ''packet_id'' \<in> set seen")
          case True
          then have "entry_id entry \<in> entry_id ` set acc" using "2.prems"(2) i by simp
          then show ?thesis using "2.IH"(3) [OF entry check Inr refl True] "2.prems" entry check Inr True by auto
        next
          case False
          then have "filter_entries S now raws (js_add (entry_id entry) seen) (acc @ [entry]) rej = Inr (out, rej')"
            using "2.prems"(1) entry check Inr i by simp
          moreover have "entry_id entry \<notin> entry_id ` set acc" using False "2.prems"(2) i by simp
          ultimately show ?thesis
            using "2.IH"(4) [OF entry check Inr refl False] "2.prems" entry check Inr False i v
            by (auto simp: image_iff intro!: bexI [of _ entry])
        qed
      qed
    qed
  qed
qed auto

lemma filterValidEntries_result:
  assumes "filterValidEntries S now entries = Inr (out, rej)"
  shows "\<forall>e \<in> set out. entry_valid S now e" "distinct (map entry_id out)" "length out \<le> MAX_ENTRIES_PER_MESSAGE"
  using assms filter_entries_result [of S now _ "[]" "[]" "[]" out rej]
  by (fastforce simp: filterValidEntries_def split: jsval.splits)+

text \<open>C13: What a node keeps of a message of entries is exactly what is worth keeping: every entry kept carries a
  packet that is well formed, committed to by its identifier and paid for (and whose hint, if it has one,
  is paid for too), no packet twice, at most 64; and every such entry among the first 64 is kept, itself or
  as another copy of its packet. A kept entry stays acceptable at any later time, so holders can pass it on.\<close>

theorem filter_keeps_exactly_valid:
  assumes "filterValidEntries S now (JArr raws) = Inr (out, rej)"
  shows "(\<forall>e \<in> set out. length e \<le> MAX_ENTRY_BYTES \<and>
      (\<forall>h body. decodeSlotBlob e = Some (h, body) \<longrightarrow> verifyHintPow S h HINT_POW_DIFFICULTY) \<and>
      (\<exists>packet. entry_packet e = Inr packet \<and> packet_accepted S now True packet) \<and>
      (\<forall>now' \<ge> now. entry_valid S now' e)) \<and>
    distinct (map entry_id out) \<and> length out \<le> MAX_ENTRIES_PER_MESSAGE \<and>
    (\<forall>raw \<in> set (take MAX_ENTRIES_PER_MESSAGE raws). \<forall>e.
       entry_bytes raw = Some e \<longrightarrow> entry_valid S now e \<longrightarrow> entry_id e \<in> entry_id ` set out)"
proof -
  have f: "filter_entries S now (take MAX_ENTRIES_PER_MESSAGE raws) [] [] [] = Inr (out, rej)"
    using assms by (simp add: filterValidEntries_def)
  note r = filter_entries_result [OF f]
  have "length e \<le> MAX_ENTRY_BYTES \<and>
      (\<forall>h body. decodeSlotBlob e = Some (h, body) \<longrightarrow> verifyHintPow S h HINT_POW_DIFFICULTY) \<and>
      (\<exists>packet. entry_packet e = Inr packet \<and> packet_accepted S now True packet)" if "e \<in> set out" for e
  proof -
    have "entry_valid S now e" using r that by simp
    then obtain packet where "checkEntry S now e = Inr (Inr packet)" unfolding entry_valid_def ..
    then show ?thesis unfolding checkEntry_accepts by blast
  qed
  moreover have "\<forall>now' \<ge> now. entry_valid S now' e" if "e \<in> set out" for e
    using r that entry_valid_mono [of S now e] by simp
  ultimately show ?thesis using r filterValidEntries_result [OF assms] by simp
qed

theorem filter_keeps_exactly_valid_witness:
  "length (fst (case filterValidEntries toy_sodium 0 (JArr [JBytes [], Null]) of Inr r \<Rightarrow> r)) \<le> MAX_ENTRIES_PER_MESSAGE"
proof -
  have "filterValidEntries toy_sodium 0 (JArr [JBytes [], Null]) =
      Inr ([], count_reason NotAPacket (count_reason TooLarge []))"
    by (simp add: filterValidEntries_def entry_bytes_def checkEntry_def)
  from filter_keeps_exactly_valid [OF this] show ?thesis
    by (simp add: filterValidEntries_def entry_bytes_def checkEntry_def)
qed

subsection \<open>Two concrete entries\<close>

text \<open>JSON texts, written with \<open>#\<close> for the double quote.\<close>

definition quoted :: "string \<Rightarrow> string" where
  "quoted = map (\<lambda>c. if c = CHR ''#'' then CHR 0x22 else c)"

definition zero_id :: string where
  "zero_id = ''0000000000000000000000000000000000000000000000000000000000000000''"

definition poison_entry :: bytes where
  "poison_entry = utf8 (quoted (''{#packet_id#:#'' @ zero_id @
     ''#,#timestamp#:0,#payload#:[{#_type#:#BigInt#,#value#:#1#}]}''))"

definition toy_entry :: bytes where
  "toy_entry = utf8 (quoted (''{#packet_id#:#'' @ zero_id @
     ''#,#timestamp#:0,#zone_id#:7,#pow_difficulty#:12,#nonce#:[1,1,1,1,1,1,1,1,1,1,1,1],#payload#:[3],#hop_count#:0,#pow_nonce#:0}''))"

definition toy_packet :: jsval where
  "toy_packet = JObj [(''packet_id'', JStr zero_id), (''timestamp'', jint 0), (''zone_id'', jint 7),
     (''pow_difficulty'', jint 12), (''nonce'', JArr (replicate 12 (jint 1))), (''payload'', JArr [jint 3]),
     (''hop_count'', jint 0), (''pow_nonce'', jint 0)]"

lemma poison_parse:
  "json_binary_parse (text_decode poison_entry) =
    Inr (JObj [(''packet_id'', JStr zero_id), (''timestamp'', jint 0), (''payload'', JArr [JBig 1])])"
  by code_simp

lemma toy_entry_parse: "json_binary_parse (text_decode toy_entry) = Inr toy_packet"
  by code_simp

lemma entry_no_slot: "decodeSlotBlob poison_entry = None" "decodeSlotBlob toy_entry = None"
  by code_simp+

lemma entry_lengths: "0 < length poison_entry" "length poison_entry \<le> MAX_ENTRY_BYTES"
  "0 < length toy_entry" "length toy_entry \<le> MAX_ENTRY_BYTES"
  by code_simp+

lemma zero_id: "length zero_id = 64" "zero_id = toHex (replicate 32 0)"
  by code_simp+

lemma poison_throws: "checkEntry S now poison_entry = Inl TypeError"
proof -
  let ?p = "JObj [(''packet_id'', JStr zero_id), (''timestamp'', jint 0), (''payload'', JArr [JBig 1])]"
  have "validator_check S now True ?p = Inl TypeError"
    using zero_id(1) by (intro big_payload_throws [where i = zero_id and n = "[]" and k = 1 and vs = "[]"]) simp_all
  then show ?thesis using entry_lengths entry_no_slot poison_parse by (simp add: checkEntry_def checkPacketBytes_def)
qed

lemma toy_entry_checked: "0 \<le> now \<Longrightarrow> checkEntry toy_sodium now toy_entry = Inr (Inr toy_packet)"
proof -
  assume now: "0 \<le> now"
  let ?h = "\<lparr>ph_timestamp = jint 0, ph_zone_id = jint 7, ph_difficulty = jint 12, ph_nonce = replicate 12 1, ph_payload = [3]\<rparr>"
  have "u8_from (replicate n (jint 1)) = Inr (replicate n 1)" for n by (induction n) simp_all
  then have h: "committedHeaderOf toy_packet = Inr ?h" by (simp add: committedHeaderOf_def toy_packet_def)
  have ok: "header_ok ?h" by (simp add: header_ok_def)
  then obtain pre where "powPreimage ?h = Inr pre" using powPreimage_ok_iff by blast
  then have "derivePacketId toy_sodium ?h = Inr zero_id" by (simp add: derivePacketId_def zero_id(2) toy_sodium_def)
  moreover have "verifyPow toy_sodium ?h 0" using ok by (intro toy_verifyPow) simp_all
  ultimately have "packet_accepted toy_sodium now True toy_packet"
    using h zero_id(1) now unfolding packet_accepted_def
    by (intro exI [of _ zero_id] exI [of _ ?h]) (simp add: toy_packet_def)
  then show ?thesis
    using entry_lengths entry_no_slot toy_entry_parse by (simp add: checkEntry_accepts entry_packet_def)
qed

end
