(* ===== verification/MailStore.thy ===== *)
theory MailStore
  imports Prelude
begin

text \<open>
  The interface between the DHT mailbox and the store on disk
  (\<open>get\<close>, \<open>put\<close>, \<open>getAllTopicHashes\<close> and \<open>pruneMailbox\<close> of \<open>packages/core/src/storage/IndexedDBStore.ts\<close>),
  as a locale with the laws the mailbox relies on, and the store at the level of its contents: a topic's
  entries and the time they were last updated. \<open>EncryptedMailbox\<close> shows that the encrypted store is a
  model of the same interface.
\<close>

text \<open>What \<open>put\<close> makes of the entries present and the new ones.\<close>

definition merge_entries :: "bytes list option \<Rightarrow> bytes list \<Rightarrow> bytes list" where
  "merge_entries old new =
     (case old of None \<Rightarrow> new | Some es \<Rightarrow> es @ filter (\<lambda>e. e \<notin> set es) new)"

lemma merge_entries_fresh: "set new \<inter> set es = {} \<Longrightarrow> merge_entries (Some es) new = es @ new"
  by (auto simp: merge_entries_def filter_id_conv)

lemma set_merge_entries: "set (merge_entries old new) = (case old of None \<Rightarrow> {} | Some es \<Rightarrow> set es) \<union> set new"
  by (auto simp: merge_entries_def split: option.split)

subsection \<open>The interface\<close>

text \<open>\<open>known\<close>: the topics the laws are promised for (a store may confuse topics outside it).\<close>

locale slot_store =
  fixes get :: "'s \<Rightarrow> string \<Rightarrow> bytes list option"
    and put :: "int \<Rightarrow> string \<Rightarrow> bytes list \<Rightarrow> 's \<Rightarrow> 's"
    and topics :: "'s \<Rightarrow> string list"
    and prune :: "int \<Rightarrow> 's \<Rightarrow> 's"
    and ok :: "'s \<Rightarrow> bool"
    and known :: "string set"
  assumes ok_put: "ok s \<Longrightarrow> t \<in> known \<Longrightarrow> ok (put now t es s)"
    and ok_prune: "ok s \<Longrightarrow> ok (prune cutoff s)"
    and get_put: "ok s \<Longrightarrow> t \<in> known \<Longrightarrow> u \<in> known \<Longrightarrow>
      get (put now t es s) u = (if u = t then Some (merge_entries (get s t) es) else get s u)"
    and topics_get: "ok s \<Longrightarrow> t \<in> known \<Longrightarrow> t \<in> set (topics s) \<longleftrightarrow> get s t \<noteq> None"
    and topics_known: "ok s \<Longrightarrow> set (topics s) \<subseteq> known"
    and topics_distinct: "ok s \<Longrightarrow> distinct (topics s)"
    and prune_get: "ok s \<Longrightarrow> t \<in> known \<Longrightarrow> get (prune cutoff s) t = Some es \<Longrightarrow> get s t = Some es"
begin

text \<open>Every stored entry satisfies \<open>P\<close>; no topic holds more than \<open>n\<close> entries or holds one twice; there are at
  most \<open>m\<close> topics.\<close>

definition all_entries :: "(bytes \<Rightarrow> bool) \<Rightarrow> 's \<Rightarrow> bool" where
  "all_entries P s \<longleftrightarrow> (\<forall>t \<in> known. \<forall>es. get s t = Some es \<longrightarrow> (\<forall>e \<in> set es. P e))"

definition bounded :: "nat \<Rightarrow> nat \<Rightarrow> 's \<Rightarrow> bool" where
  "bounded n m s \<longleftrightarrow> length (topics s) \<le> m \<and>
     (\<forall>t \<in> known. \<forall>es. get s t = Some es \<longrightarrow> length es \<le> n \<and> distinct es)"

lemma all_entries_put:
  assumes "ok s" "t \<in> known" "all_entries P s" "\<forall>e \<in> set es. P e"
  shows "all_entries P (put now t es s)"
proof -
  have "\<forall>e \<in> set es'. P e" if u: "u \<in> known" "get (put now t es s) u = Some es'" for u es'
  proof (cases "u = t")
    case True
    then have "es' = merge_entries (get s t) es" using u get_put [OF assms(1,2), of u] by simp
    then show ?thesis using assms(2,3,4) by (auto simp: all_entries_def set_merge_entries split: option.splits)
  next
    case False
    then show ?thesis using u get_put [OF assms(1,2), of u] assms(3) by (simp add: all_entries_def)
  qed
  then show ?thesis unfolding all_entries_def by blast
qed

lemma all_entries_prune: "ok s \<Longrightarrow> all_entries P s \<Longrightarrow> all_entries P (prune c s)"
  unfolding all_entries_def using prune_get [of s _ c] by blast

lemma topics_prune: "ok s \<Longrightarrow> set (topics (prune c s)) \<subseteq> set (topics s)"
proof
  fix t assume s: "ok s" and t: "t \<in> set (topics (prune c s))"
  have k: "t \<in> known" using topics_known [OF ok_prune [OF s]] t by blast
  then obtain es where "get (prune c s) t = Some es" using t topics_get [OF ok_prune [OF s] k] by auto
  then have "get s t = Some es" using prune_get s k by blast
  then show "t \<in> set (topics s)" using topics_get [OF s k] by simp
qed

lemma length_topics_mono:
  "ok s \<Longrightarrow> ok s' \<Longrightarrow> set (topics s') \<subseteq> set (topics s) \<Longrightarrow> length (topics s') \<le> length (topics s)"
  using card_mono [of "set (topics s)" "set (topics s')"] distinct_card [OF topics_distinct, of s]
    distinct_card [OF topics_distinct, of s'] by simp

lemma bounded_prune: "ok s \<Longrightarrow> bounded n m s \<Longrightarrow> bounded n m (prune c s)"
proof -
  assume s: "ok s" "bounded n m s"
  have "length (topics (prune c s)) \<le> length (topics s)"
    using length_topics_mono [OF s(1) ok_prune topics_prune] s(1) by blast
  then show ?thesis using s prune_get [OF s(1), of _ c] unfolding bounded_def by (meson le_trans)
qed

lemma length_topics_put:
  assumes "ok s" "t \<in> known"
  shows "length (topics (put now t es s)) = (if get s t = None then Suc (length (topics s)) else length (topics s))"
proof -
  have ok: "ok (put now t es s)" using assms by (rule ok_put)
  have "u \<in> set (topics (put now t es s)) \<longleftrightarrow> u = t \<or> u \<in> set (topics s)" for u
  proof (cases "u \<in> known")
    case True
    then show ?thesis using topics_get [OF ok True] topics_get [OF assms(1) True] get_put [OF assms True] by auto
  qed (use topics_known ok assms in blast)
  then have "set (topics (put now t es s)) = insert t (set (topics s))" by blast
  then have "length (topics (put now t es s)) = card (insert t (set (topics s)))"
    using topics_distinct [OF ok] by (metis distinct_card)
  moreover have "length (topics s) = card (set (topics s))" using topics_distinct [OF assms(1)] by (simp add: distinct_card)
  ultimately show ?thesis using topics_get [OF assms] by (simp add: card_insert_if)
qed

lemma bounded_put:
  assumes "ok s" "t \<in> known" "bounded n m s" "distinct es"
    and "get s t = None \<Longrightarrow> length (topics s) < m \<and> length es \<le> n"
    and "\<And>old. get s t = Some old \<Longrightarrow> length old + length es \<le> n"
  shows "bounded n m (put now t es s)"
proof -
  have "length es' \<le> n \<and> distinct es'" if "u \<in> known" "get (put now t es s) u = Some es'" for u es'
  proof (cases "u = t")
    case True
    then have m: "es' = merge_entries (get s t) es" using that get_put [OF assms(1,2), of u] by simp
    show ?thesis
    proof (cases "get s t")
      case None
      then show ?thesis using m assms(4) assms(5) [OF None] by (simp add: merge_entries_def)
    next
      case (Some old)
      have "length (filter (\<lambda>e. e \<notin> set old) es) \<le> length es" by simp
      then have "length old + length (filter (\<lambda>e. e \<notin> set old) es) \<le> n" using assms(6) [OF Some] by linarith
      moreover have "distinct old" using assms(2,3) Some by (simp add: bounded_def)
      ultimately show ?thesis using m Some assms(4) by (auto simp: merge_entries_def)
    qed
  next
    case False
    then show ?thesis using that get_put [OF assms(1,2), of u] assms(3) by (simp add: bounded_def)
  qed
  moreover have "length (topics (put now t es s)) \<le> m"
    using assms(3,5) length_topics_put [OF assms(1,2)] by (auto simp: bounded_def)
  ultimately show ?thesis by (simp add: bounded_def)
qed

end

subsection \<open>The store at the level of its contents\<close>

definition DAY_MS :: int where "DAY_MS = 24 * 60 * 60 * 1000"

type_synonym mail_store = "(string, bytes list \<times> int) jsmap"

definition ms_get :: "mail_store \<Rightarrow> string \<Rightarrow> bytes list option" where
  "ms_get s t = map_option fst (jm_get s t)"

text \<open>The time of an update stays as it was when no entry is new.\<close>

definition ms_put :: "int \<Rightarrow> string \<Rightarrow> bytes list \<Rightarrow> mail_store \<Rightarrow> mail_store" where
  "ms_put now t new s =
     (case jm_get s t of
        None \<Rightarrow> jm_set t (new, now) s
      | Some (es, updated) \<Rightarrow>
          (let added = filter (\<lambda>e. e \<notin> set es) new in
           if added = [] then s else jm_set t (es @ added, now) s))"

definition ms_topics :: "mail_store \<Rightarrow> string list" where
  "ms_topics s = jm_keys s"

definition ms_prune :: "int \<Rightarrow> mail_store \<Rightarrow> mail_store" where
  "ms_prune cutoff s = filter (\<lambda>(_, _, updated). \<not> updated div DAY_MS < cutoff div DAY_MS) s"

lemma ms_get_put: "ms_get (ms_put now t es s) u = (if u = t then Some (merge_entries (ms_get s t) es) else ms_get s u)"
  by (auto simp: ms_get_def ms_put_def merge_entries_def Let_def split: option.split)

lemma ms_prune_get: "jm_wf s \<Longrightarrow> ms_get (ms_prune c s) t = Some es \<Longrightarrow> ms_get s t = Some es"
proof -
  assume wf: "jm_wf s" and "ms_get (ms_prune c s) t = Some es"
  then obtain u where "jm_get (ms_prune c s) t = Some (es, u)" by (auto simp: ms_get_def)
  then have "(t, es, u) \<in> set s" by (auto simp: ms_prune_def dest: jm_get_in_set)
  then show "ms_get s t = Some es" using jm_in_set_get [OF wf] by (simp add: ms_get_def)
qed

interpretation ms: slot_store ms_get ms_put ms_topics ms_prune jm_wf UNIV
proof
  show "\<And>s t now es. jm_wf s \<Longrightarrow> jm_wf (ms_put now t es s)"
    by (simp add: ms_put_def Let_def split: option.split)
  show "\<And>s cutoff. jm_wf s \<Longrightarrow> jm_wf (ms_prune cutoff s)" by (simp add: ms_prune_def)
  show "\<And>s t. t \<in> set (ms_topics s) \<longleftrightarrow> ms_get s t \<noteq> None"
    by (simp add: ms_topics_def ms_get_def map_of_eq_None_iff)
  show "\<And>s. jm_wf s \<Longrightarrow> distinct (ms_topics s)" by (simp add: jm_wf_def ms_topics_def)
qed (simp_all add: ms_get_put ms_prune_get)

end
