(* ===== verification/NodeIdentity.thy ===== *)
theory NodeIdentity
  imports PowPolicy JsText
begin

text \<open>
  \<open>packages/core/src/crypto/NodeIdentity.ts\<close>: the bound identity of a node. A peer identifier is a
  hash of a public key that also carries a proof of work, a ring position is a hash of the
  identifier, and a join is a signature over the challenge, both identifiers and both DTLS
  fingerprints. The lemmas show that the signed message determines all of these, that what an
  honest node signs is accepted, and what an accepted claim entails.
\<close>

subsection \<open>Parameters and domains\<close>

record node_id_pow_params =
  np_difficulty :: int
  np_opsLimit :: int
  np_memLimit :: int

definition NODE_ID_POW :: node_id_pow_params where
  "NODE_ID_POW = \<lparr>np_difficulty = 10, np_opsLimit = 1, np_memLimit = 1048576\<rparr>"

definition NODE_ID_POW_FAST :: node_id_pow_params where
  "NODE_ID_POW_FAST = \<lparr>np_difficulty = 4, np_opsLimit = 1, np_memLimit = 8192\<rparr>"

definition NODE_ID_SALT :: bytes where
  "NODE_ID_SALT =
     [0x41, 0x45, 0x54, 0x48, 0x45, 0x52, 0x2f, 0x76,
      0x33, 0x2f, 0x6e, 0x6f, 0x64, 0x65, 0x69, 0x64]"

definition PEER_ID_DOMAIN :: bytes where "PEER_ID_DOMAIN = utf8 ''AETHER/v3/peerid''"
definition POSITION_DOMAIN :: bytes where "POSITION_DOMAIN = utf8 ''AETHER/v3/position''"
definition JOIN_DOMAIN :: bytes where "JOIN_DOMAIN = utf8 ''AETHER/v4/join''"
definition TRACKER_JOIN_DOMAIN :: bytes where "TRACKER_JOIN_DOMAIN = utf8 ''AETHER/v1/tracker-join''"
definition PEER_ID_BYTES :: nat where [simp]: "PEER_ID_BYTES = 16"
definition CHALLENGE_BYTES :: nat where [simp]: "CHALLENGE_BYTES = 32"

subsection \<open>The signed messages\<close>

record join_binding =
  verifierId :: string
  signerFingerprint :: string
  verifierFingerprint :: string

definition lengthPrefixed :: "string \<Rightarrow> bytes res" where
  "lengthPrefixed text =
     (let bs = utf8 text in
      if length bs > 0xffff then Inl RangeError else Inr (be_bytes 2 (int (length bs)) @ bs))"

definition joinMessage :: "bytes \<Rightarrow> string \<Rightarrow> join_binding \<Rightarrow> bytes res" where
  "joinMessage challenge signerId binding =
     rbind (lengthPrefixed (verifierId binding)) (\<lambda>a.
     rbind (lengthPrefixed signerId) (\<lambda>b.
     rbind (lengthPrefixed (signerFingerprint binding)) (\<lambda>c.
     rbind (lengthPrefixed (verifierFingerprint binding)) (\<lambda>d.
       Inr (concat [JOIN_DOMAIN, challenge, a, b, c, d])))))"

definition trackerJoinMessage :: "bytes \<Rightarrow> string \<Rightarrow> string \<Rightarrow> bytes res" where
  "trackerJoinMessage nonce peerId trackerHost =
     (if length nonce \<noteq> CHALLENGE_BYTES then Inl RangeError
      else rbind (lengthPrefixed peerId) (\<lambda>a. rbind (lengthPrefixed (toLowerCase trackerHost)) (\<lambda>b.
        Inr (concat [TRACKER_JOIN_DOMAIN, nonce, a, b]))))"

subsection \<open>Derivations\<close>

definition derivePeerId :: "sodium \<Rightarrow> bytes \<Rightarrow> peer_id" where
  "derivePeerId S pubkey = toHex (take PEER_ID_BYTES (sha256 S (concat [PEER_ID_DOMAIN, pubkey])))"

definition derivePosition :: "sodium \<Rightarrow> peer_id \<Rightarrow> rat" where
  "derivePosition S peerId =
     (let idBytes = fromHex peerId; h = sha256 S (concat [POSITION_DOMAIN, idBytes]) in
      of_int (be_val (take 8 h)) / 18446744073709551616)"

definition nodeIdPowHash :: "sodium \<Rightarrow> bytes \<Rightarrow> int \<Rightarrow> node_id_pow_params \<Rightarrow> bytes" where
  "nodeIdPowHash S pubkey counter params =
     argon2id S 32 (concat [pubkey, be_bytes 8 counter]) NODE_ID_SALT (np_opsLimit params) (np_memLimit params)"

subsection \<open>Verification\<close>

text \<open>Claims arrive from the network: \<open>claim\<close> is the decoded message.\<close>

definition verifyClaim :: "sodium \<Rightarrow> jsval \<Rightarrow> node_id_pow_params \<Rightarrow> bool" where
  "verifyClaim S claim params =
     (case jget claim ''peerId'' of
        JStr pid \<Rightarrow>
          if length pid \<noteq> PEER_ID_BYTES * 2 then False
          else if \<not> list_all is_lower_hex pid then False
          else
            (case jget claim ''pubkey'' of
               JBytes pubkey \<Rightarrow>
                 if length pubkey \<noteq> SIGN_PUBLICKEYBYTES then False
                 else if \<not> is_safe_integer (jget claim ''powCounter'') \<or> int_of (jget claim ''powCounter'') < 0 then False
                 else if derivePeerId S pubkey \<noteq> pid then False
                 else if np_difficulty params > 0 \<and>
                   \<not> meetsDifficulty (nodeIdPowHash S pubkey (int_of (jget claim ''powCounter'')) params) (np_difficulty params)
                 then False
                 else True
             | _ \<Rightarrow> False)
      | _ \<Rightarrow> False)"

definition verifySignedClaim :: "sodium \<Rightarrow> jsval \<Rightarrow> bytes \<Rightarrow> join_binding \<Rightarrow> node_id_pow_params \<Rightarrow> bool" where
  "verifySignedClaim S claim expectedChallenge binding params =
     (case (jget claim ''challenge'', jget claim ''signature'') of
        (JBytes challenge, JBytes signature) \<Rightarrow>
          if length expectedChallenge \<noteq> CHALLENGE_BYTES then False
          else if length challenge \<noteq> length expectedChallenge then False
          else if length signature \<noteq> SIGN_BYTES then False
          else if challenge \<noteq> expectedChallenge then False
          else
            (case (jget claim ''peerId'', jget claim ''pubkey'') of
               (JStr pid, JBytes pubkey) \<Rightarrow>
                 if length pubkey \<noteq> SIGN_PUBLICKEYBYTES then False
                 else
                   (case joinMessage challenge pid binding of
                      Inl _ \<Rightarrow> False
                    | Inr msg \<Rightarrow>
                        (case verify_detached S signature msg pubkey of
                           Some True \<Rightarrow> verifyClaim S claim params
                         | _ \<Rightarrow> False))
             | _ \<Rightarrow> False)
      | _ \<Rightarrow> False)"

definition verifyTrackerJoin :: "sodium \<Rightarrow> jsval \<Rightarrow> jsval \<Rightarrow> jsval \<Rightarrow> jsval \<Rightarrow> node_id_pow_params \<Rightarrow> bool" where
  "verifyTrackerJoin S claim nonce trackerHost signature params =
     (case (nonce, signature, trackerHost) of
        (JBytes n, JBytes sig, JStr host) \<Rightarrow>
          if length n \<noteq> CHALLENGE_BYTES then False
          else if length sig \<noteq> SIGN_BYTES then False
          else if length host = 0 \<or> length host > 255 then False
          else if \<not> verifyClaim S claim params then False
          else
            (case (jget claim ''peerId'', jget claim ''pubkey'') of
               (JStr pid, JBytes pubkey) \<Rightarrow>
                 (case trackerJoinMessage n pid host of
                    Inl _ \<Rightarrow> False
                  | Inr msg \<Rightarrow> verify_detached S sig msg pubkey = Some True)
             | _ \<Rightarrow> False)
      | _ \<Rightarrow> False)"

subsection \<open>Own identities\<close>

record node_identity =
  nid_peerId :: peer_id
  nid_position :: rat
  nid_pubkey :: bytes
  nid_privkey :: bytes
  nid_powCounter :: int

definition fromKeyPair :: "sodium \<Rightarrow> bytes \<Rightarrow> bytes \<Rightarrow> int \<Rightarrow> node_identity" where
  "fromKeyPair S pubkey privkey powCounter =
     (let pid = derivePeerId S pubkey in
      \<lparr>nid_peerId = pid, nid_position = derivePosition S pid, nid_pubkey = pubkey,
       nid_privkey = privkey, nid_powCounter = powCounter\<rparr>)"

text \<open>The search over counters; \<open>None\<close> is the exception of an exhausted search.\<close>

function counter_from :: "(int \<Rightarrow> bool) \<Rightarrow> int \<Rightarrow> int option" where
  "counter_from good counter =
     (if counter < max_safe then if good counter then Some counter else counter_from good (counter + 1)
      else None)"
  by pat_completeness auto
termination by (relation "measure (\<lambda>(_, c). nat (max_safe - c))") auto

declare counter_from.simps [simp del]

definition solveNodeIdPow :: "sodium \<Rightarrow> bytes \<Rightarrow> node_id_pow_params \<Rightarrow> int option" where
  "solveNodeIdPow S pubkey params =
     (if np_difficulty params \<le> 0 then Some 0
      else counter_from (\<lambda>c. meetsDifficulty (nodeIdPowHash S pubkey c params) (np_difficulty params)) 0)"

text \<open>\<open>mine\<close>: the key pair is drawn by libsodium from \<open>seed\<close>.\<close>

definition mine :: "sodium \<Rightarrow> bytes \<Rightarrow> node_id_pow_params \<Rightarrow> node_identity option" where
  "mine S seed params =
     (case solveNodeIdPow S (sign_pk S seed) params of
        None \<Rightarrow> None
      | Some counter \<Rightarrow> Some (fromKeyPair S (sign_pk S seed) seed counter))"

definition claim_of :: "node_identity \<Rightarrow> (string \<times> jsval) list" where
  "claim_of n =
     [(''peerId'', JStr (nid_peerId n)), (''pubkey'', JBytes (nid_pubkey n)),
      (''powCounter'', jint (nid_powCounter n))]"

definition signClaim :: "sodium \<Rightarrow> node_identity \<Rightarrow> bytes \<Rightarrow> join_binding \<Rightarrow> jsval res" where
  "signClaim S n challenge binding =
     (if length challenge \<noteq> CHALLENGE_BYTES then Inl RangeError
      else rbind (joinMessage challenge (nid_peerId n) binding) (\<lambda>msg.
        Inr (JObj (claim_of n @
          [(''challenge'', JBytes challenge),
           (''signature'', JBytes (sign_detached S msg (nid_privkey n)))]))))"

definition signTrackerJoin :: "sodium \<Rightarrow> node_identity \<Rightarrow> bytes \<Rightarrow> string \<Rightarrow> bytes res" where
  "signTrackerJoin S n nonce trackerHost =
     rbind (trackerJoinMessage nonce (nid_peerId n) trackerHost) (\<lambda>msg. Inr (sign_detached S msg (nid_privkey n)))"

definition exportSecret :: "node_identity \<Rightarrow> bytes \<times> bytes \<times> int" where
  "exportSecret n = (nid_pubkey n, nid_privkey n, nid_powCounter n)"

subsection \<open>The signed message determines its fields\<close>

lemma lengthPrefixed_Inr:
  "lengthPrefixed t = Inr a \<Longrightarrow> length (utf8 t) \<le> 0xffff \<and> a = be_bytes 2 (int (length (utf8 t))) @ utf8 t"
  by (auto simp: lengthPrefixed_def Let_def split: if_splits)

lemma lengthPrefixed_short: "length (utf8 t) \<le> 0xffff \<Longrightarrow> \<exists>a. lengthPrefixed t = Inr a"
  by (simp add: lengthPrefixed_def Let_def)

text \<open>A length-prefixed field can be cut off the front of a message in one way only.\<close>

lemma lengthPrefixed_cancel:
  assumes "lengthPrefixed s = Inr a" "lengthPrefixed t = Inr b" "a @ xs = b @ ys"
  shows "s = t \<and> xs = ys"
proof -
  note s = lengthPrefixed_Inr [OF assms(1)] and t = lengthPrefixed_Inr [OF assms(2)]
  have eq: "be_bytes 2 (int (length (utf8 s))) @ utf8 s @ xs = be_bytes 2 (int (length (utf8 t))) @ utf8 t @ ys"
    using assms(3) s t by simp
  then have "be_bytes 2 (int (length (utf8 s))) = be_bytes 2 (int (length (utf8 t)))"
    and rest: "utf8 s @ xs = utf8 t @ ys"
    by (simp_all add: append_eq_len_conv)
  then have "int (length (utf8 s)) = int (length (utf8 t))"
    using s t by (subst (asm) be_bytes_inject) auto
  then show ?thesis using rest by (simp add: append_eq_len_conv)
qed

lemma joinMessage_Inr:
  assumes "joinMessage ch sid b = Inr m"
  obtains v s sf vf where "lengthPrefixed (verifierId b) = Inr v" "lengthPrefixed sid = Inr s"
    "lengthPrefixed (signerFingerprint b) = Inr sf" "lengthPrefixed (verifierFingerprint b) = Inr vf"
    "m = JOIN_DOMAIN @ ch @ v @ s @ sf @ vf"
  using assms by (auto simp: joinMessage_def rbind_Inr_iff)

text \<open>A join signature covers the connection it was made for: two messages to be signed are equal
  only if the challenge, the signer, the verifier and both DTLS fingerprints are equal, so a
  signature obtained on one connection says nothing on another.\<close>

theorem joinMessage_binds:
  assumes "joinMessage ch sid b = Inr m" "joinMessage ch' sid' b' = Inr m"
    "length ch = CHALLENGE_BYTES" "length ch' = CHALLENGE_BYTES"
  shows "ch = ch' \<and> sid = sid' \<and> b = (b' :: join_binding)"
proof -
  obtain v s sf vf where m: "lengthPrefixed (verifierId b) = Inr v" "lengthPrefixed sid = Inr s"
    "lengthPrefixed (signerFingerprint b) = Inr sf" "lengthPrefixed (verifierFingerprint b) = Inr vf"
    "m = JOIN_DOMAIN @ ch @ v @ s @ sf @ vf" using assms(1) by (rule joinMessage_Inr)
  obtain v' s' sf' vf' where m': "lengthPrefixed (verifierId b') = Inr v'" "lengthPrefixed sid' = Inr s'"
    "lengthPrefixed (signerFingerprint b') = Inr sf'" "lengthPrefixed (verifierFingerprint b') = Inr vf'"
    "m = JOIN_DOMAIN @ ch' @ v' @ s' @ sf' @ vf'" using assms(2) by (rule joinMessage_Inr)
  have ch: "ch = ch'" and r1: "v @ s @ sf @ vf = v' @ s' @ sf' @ vf'"
    using m(5) m'(5) assms(3,4) by (simp_all add: append_eq_len_conv)
  note c1 = lengthPrefixed_cancel [OF m(1) m'(1) r1]
  note c2 = lengthPrefixed_cancel [OF m(2) m'(2) c1 [THEN conjunct2]]
  note c3 = lengthPrefixed_cancel [OF m(3) m'(3) c2 [THEN conjunct2]]
  have c4: "verifierFingerprint b = verifierFingerprint b'"
    using lengthPrefixed_cancel [OF m(4) m'(4), of "[]" "[]"] c3 by simp
  show ?thesis using ch c1 c2 c3 c4 by simp
qed

definition toy_binding :: join_binding where
  "toy_binding = \<lparr>verifierId = ''v'', signerFingerprint = ''AA'', verifierFingerprint = ''BB''\<rparr>"

lemma toy_message: "\<exists>m. joinMessage (replicate 32 0) ''s'' toy_binding = Inr m"
  by (simp add: joinMessage_def lengthPrefixed_def toy_binding_def utf8_char_def)

theorem joinMessage_binds_witness: "\<exists>m. joinMessage (replicate 32 0) ''s'' toy_binding = Inr m \<and> ''s'' = ''s''"
proof -
  obtain m where "joinMessage (replicate 32 0) ''s'' toy_binding = Inr m" using toy_message by blast
  from this joinMessage_binds [OF this this] show ?thesis by simp
qed

subsection \<open>What verification accepts\<close>

lemma verifyClaim_D:
  assumes "verifyClaim S claim params"
  obtains pk where "jget claim ''pubkey'' = JBytes pk" "length pk = 32"
    "jget claim ''peerId'' = JStr (derivePeerId S pk)" "hex_re 32 (derivePeerId S pk)"
    "is_safe_integer (jget claim ''powCounter'')" "0 \<le> int_of (jget claim ''powCounter'')"
    "0 < np_difficulty params \<longrightarrow>
       meetsDifficulty (nodeIdPowHash S pk (int_of (jget claim ''powCounter'')) params) (np_difficulty params)"
proof -
  obtain pid where pid: "jget claim ''peerId'' = JStr pid"
    using assms by (cases "jget claim ''peerId''") (simp_all add: verifyClaim_def)
  obtain pk where pk: "jget claim ''pubkey'' = JBytes pk"
    using assms pid by (cases "jget claim ''pubkey''") (simp_all add: verifyClaim_def split: if_splits)
  show thesis
    using assms pid pk that [of pk] by (auto simp: verifyClaim_def hex_re_def split: if_splits)
qed

lemma signed_claim_proof:
  assumes "verifySignedClaim S claim challenge binding params"
  shows "\<exists>pk sig msg. jget claim ''pubkey'' = JBytes pk \<and> jget claim ''challenge'' = JBytes challenge \<and>
    jget claim ''peerId'' = JStr (derivePeerId S pk) \<and>
    joinMessage challenge (derivePeerId S pk) binding = Inr msg \<and>
    verify_detached S sig msg pk = Some True \<and>
    (0 < np_difficulty params \<longrightarrow>
       meetsDifficulty (nodeIdPowHash S pk (int_of (jget claim ''powCounter'')) params) (np_difficulty params))"
proof -
  obtain ch where ch: "jget claim ''challenge'' = JBytes ch"
    using assms by (cases "jget claim ''challenge''") (simp_all add: verifySignedClaim_def)
  obtain sig where sig: "jget claim ''signature'' = JBytes sig"
    using assms ch by (cases "jget claim ''signature''") (simp_all add: verifySignedClaim_def)
  have vc: "verifyClaim S claim params" and eq: "ch = challenge"
    using assms ch sig
    by (auto simp: verifySignedClaim_def split: if_splits jsval.splits sum.splits option.splits bool.splits)
  from verifyClaim_D [OF vc] obtain pk where pk: "jget claim ''pubkey'' = JBytes pk"
    "jget claim ''peerId'' = JStr (derivePeerId S pk)"
    "0 < np_difficulty params \<longrightarrow>
       meetsDifficulty (nodeIdPowHash S pk (int_of (jget claim ''powCounter'')) params) (np_difficulty params)"
    by metis
  have "\<exists>msg. joinMessage challenge (derivePeerId S pk) binding = Inr msg \<and> verify_detached S sig msg pk = Some True"
    using assms ch sig eq pk
    by (auto simp: verifySignedClaim_def split: if_splits sum.splits option.splits bool.splits)
  then show ?thesis using ch eq pk by blast
qed

text \<open>An accepted join claim proves possession: it echoes the challenge this node issued, its
  identifier is the hash of the public key it carries, that key verifies the signature over the
  message binding the challenge, both peers and both fingerprints, and the node's proof of work
  is met.\<close>

theorem verifySignedClaim_sound:
  assumes "verifySignedClaim S claim challenge binding params"
  shows "\<exists>pk sig msg. jget claim ''pubkey'' = JBytes pk \<and> jget claim ''challenge'' = JBytes challenge \<and>
    jget claim ''peerId'' = JStr (derivePeerId S pk) \<and>
    joinMessage challenge (derivePeerId S pk) binding = Inr msg \<and>
    verify_detached S sig msg pk = Some True \<and>
    (0 < np_difficulty params \<longrightarrow>
       meetsDifficulty (nodeIdPowHash S pk (int_of (jget claim ''powCounter'')) params) (np_difficulty params))"
  using assms by (rule signed_claim_proof)

lemma counter_from_Some:
  "counter_from good c = Some n \<Longrightarrow> good n \<and> c \<le> n \<and> n < max_safe"
proof (induction good c rule: counter_from.induct)
  case (1 good c)
  then show ?case
    by (cases "c < max_safe \<and> good c") (auto simp: counter_from.simps [of good c] split: if_splits)
qed

lemma solveNodeIdPow_Some:
  assumes "solveNodeIdPow S pk params = Some n"
  shows "0 \<le> n \<and> n \<le> max_safe \<and>
    (0 < np_difficulty params \<longrightarrow> meetsDifficulty (nodeIdPowHash S pk n params) (np_difficulty params))"
  using assms counter_from_Some by (fastforce simp: solveNodeIdPow_def max_safe_def split: if_splits)

lemma derivePeerId_hex: "sha256_law S \<Longrightarrow> hex_re 32 (derivePeerId S pk)"
  using hex_re_toHex [of "take 16 (sha256 S (concat [PEER_ID_DOMAIN, pk]))"]
  by (simp add: derivePeerId_def len_simps)

lemma verifyClaim_complete:
  assumes "sha256_law S" "sign_law S" "mine S seed params = Some n"
    "jget claim ''peerId'' = JStr (nid_peerId n)" "jget claim ''pubkey'' = JBytes (nid_pubkey n)"
    "jget claim ''powCounter'' = jint (nid_powCounter n)"
  shows "verifyClaim S claim params"
proof -
  obtain c where c: "solveNodeIdPow S (sign_pk S seed) params = Some c"
    and n: "n = fromKeyPair S (sign_pk S seed) seed c"
    using assms(3) by (auto simp: mine_def split: option.splits)
  note solved = solveNodeIdPow_Some [OF c]
  have "hex_re 32 (derivePeerId S (sign_pk S seed))" using assms(1) by (rule derivePeerId_hex)
  moreover have "length (sign_pk S seed) = 32" using assms(2) by (simp add: sign_lawD)
  ultimately show ?thesis using assms(4-6) solved n
    by (simp add: verifyClaim_def hex_re_def fromKeyPair_def Let_def)
qed

lemma signClaim_verifies:
  assumes "sha256_law S" "sign_law S" "mine S seed params = Some n"
    "signClaim S n challenge binding = Inr claim"
  shows "verifySignedClaim S claim challenge binding params"
proof -
  have len: "length challenge = 32" using assms(4) by (auto simp: signClaim_def split: if_splits)
  obtain msg where msg: "joinMessage challenge (nid_peerId n) binding = Inr msg"
    and cl: "claim = JObj (claim_of n @
      [(''challenge'', JBytes challenge), (''signature'', JBytes (sign_detached S msg (nid_privkey n)))])"
    using assms(4) by (auto simp: signClaim_def rbind_Inr_iff split: if_splits)
  have fields: "jget claim ''peerId'' = JStr (nid_peerId n)" "jget claim ''pubkey'' = JBytes (nid_pubkey n)"
    "jget claim ''powCounter'' = jint (nid_powCounter n)" "jget claim ''challenge'' = JBytes challenge"
    "jget claim ''signature'' = JBytes (sign_detached S msg (nid_privkey n))"
    by (simp_all add: cl claim_of_def)
  have keys: "nid_pubkey n = sign_pk S (nid_privkey n)"
    using assms(3) by (auto simp: mine_def fromKeyPair_def Let_def split: option.splits)
  have "verifyClaim S claim params" using assms(1-3) fields(1-3) by (rule verifyClaim_complete)
  then show ?thesis using fields len msg sign_lawD [OF assms(2)]
    by (simp add: verifySignedClaim_def keys)
qed

lemma toy_argon [simp]: "d \<le> 256 \<Longrightarrow> meetsDifficulty (nodeIdPowHash toy_sodium pk c params) d"
  using meetsDifficulty_iff [of d "replicate 32 0"] be_val_eq_0_iff [of "replicate 32 0"]
  by (cases "d \<le> 0") (simp_all add: meetsDifficulty_def nodeIdPowHash_def toy_sodium_def list_all_length)

lemma toy_mine: "mine toy_sodium seed NODE_ID_POW = Some (fromKeyPair toy_sodium (sign_pk toy_sodium seed) seed 0)"
  by (simp add: mine_def solveNodeIdPow_def NODE_ID_POW_def counter_from.simps [of _ 0] max_safe_def)

lemma toy_sign:
  "length (nid_peerId n) \<le> 100 \<Longrightarrow> \<exists>c. signClaim toy_sodium n (replicate 32 7) toy_binding = Inr c"
  using length_utf8 [of "nid_peerId n"]
  by (simp add: signClaim_def joinMessage_def lengthPrefixed_def toy_binding_def utf8_char_def Let_def)

lemma toy_node_id_length: "length (nid_peerId (fromKeyPair toy_sodium pk sk c)) = 32"
  using derivePeerId_hex [of toy_sodium pk] by (simp add: fromKeyPair_def Let_def hex_re_def)

text \<open>A mined identity is accepted: the claim a node signs for a verifier's challenge and this
  connection passes the verifier's check of exactly that challenge and connection.\<close>

theorem signClaim_accepted:
  assumes "sha256_law S" "sign_law S" "mine S seed params = Some n"
    "signClaim S n challenge binding = Inr claim"
  shows "verifySignedClaim S claim challenge binding params"
  using assms by (rule signClaim_verifies)

theorem signClaim_accepted_witness:
  "\<exists>c. verifySignedClaim toy_sodium c (replicate 32 7) toy_binding NODE_ID_POW"
proof -
  let ?n = "fromKeyPair toy_sodium (sign_pk toy_sodium [1]) [1] 0"
  obtain c where "signClaim toy_sodium ?n (replicate 32 7) toy_binding = Inr c"
    using toy_sign [of ?n] toy_node_id_length by auto
  from signClaim_accepted [OF _ _ toy_mine this] show ?thesis by auto
qed

lemma toy_signed_claim: "\<exists>c. verifySignedClaim toy_sodium c (replicate 32 7) toy_binding NODE_ID_POW"
proof -
  let ?n = "fromKeyPair toy_sodium (sign_pk toy_sodium [1]) [1] 0"
  obtain c where "signClaim toy_sodium ?n (replicate 32 7) toy_binding = Inr c"
    using toy_sign [of ?n] toy_node_id_length by auto
  from signClaim_verifies [OF _ _ toy_mine this] show ?thesis by auto
qed

theorem verifySignedClaim_sound_witness:
  "\<exists>claim pk. jget claim ''peerId'' = JStr (derivePeerId toy_sodium pk)"
proof -
  obtain c where "verifySignedClaim toy_sodium c (replicate 32 7) toy_binding NODE_ID_POW"
    using toy_signed_claim by blast
  from verifySignedClaim_sound [OF this] show ?thesis by blast
qed

end
