(* ===== verification/NetGroup.thy ===== *)
theory NetGroup
  imports JsText
begin

text \<open>
  \<open>packages/core/src/network/NetGroup.ts\<close>: the coarse network origin of a neighbour's address and
  the number of slots one origin may hold. The lemmas show which part of an address decides its
  group, and that the caps always leave room for all slots to be filled.
\<close>

subsection \<open>Text helpers\<close>

text \<open>\<open>replace(/^\[|\]$/g, '')\<close>.\<close>

definition strip_brackets :: "string \<Rightarrow> string" where
  "strip_brackets s =
     (let s1 = (case s of c # t \<Rightarrow> if c = CHR ''['' then t else s | [] \<Rightarrow> s)
      in if s1 \<noteq> [] \<and> last s1 = CHR '']'' then butlast s1 else s1)"

text \<open>\<open>split('::')\<close>.\<close>

fun split_dcolon :: "string \<Rightarrow> string list" where
  "split_dcolon [] = [[]]"
| "split_dcolon [x] = [[x]]"
| "split_dcolon (x # y # xs) =
     (if x = CHR '':'' \<and> y = CHR '':'' then [] # split_dcolon xs
      else (case split_dcolon (y # xs) of [] \<Rightarrow> [[x]] | p # ps \<Rightarrow> (x # p) # ps))"

subsection \<open>Addresses\<close>

definition isPrivateV4 :: "nat \<Rightarrow> nat \<Rightarrow> bool" where
  "isPrivateV4 a b \<longleftrightarrow>
     a = 10 \<or> a = 127 \<or> (a = 172 \<and> b \<ge> 16 \<and> b \<le> 31) \<or> (a = 192 \<and> b = 168) \<or>
     (a = 169 \<and> b = 254) \<or> (a = 100 \<and> b \<ge> 64 \<and> b \<le> 127)"

text \<open>The pattern \<open>/^(\d{1,3})\.(\d{1,3})\.(\d{1,3})\.(\d{1,3})$/\<close>: its first two groups.\<close>

definition v4_octets :: "string \<Rightarrow> (nat \<times> nat) option" where
  "v4_octets s =
     (case split_on (CHR ''.'') s of
        [a, b, c, d] \<Rightarrow>
          if list_all (\<lambda>x. x \<noteq> [] \<and> length x \<le> 3 \<and> list_all (is_digit 10) x) [a, b, c, d]
          then Some (nat (digits_val 10 a), nat (digits_val 10 b)) else None
      | _ \<Rightarrow> None)"

definition hextet_ok :: "string \<Rightarrow> bool" where
  "hextet_ok h \<longleftrightarrow> 1 \<le> length h \<and> length h \<le> 4 \<and> list_all is_lower_hex h"

definition expandV6 :: "string \<Rightarrow> string list option" where
  "expandV6 addr =
     (let zoneless = hd (split_on (CHR ''%'') addr);
          parts = split_dcolon zoneless in
      if length parts > 2 then None
      else
        (let head = (if parts ! 0 \<noteq> [] then split_on (CHR '':'') (parts ! 0) else []);
             tail = (if length parts = 2 \<and> parts ! 1 \<noteq> [] then split_on (CHR '':'') (parts ! 1) else []) in
         if \<not> list_all hextet_ok (head @ tail) then None
         else
           (let missing = 8 - int (length head) - int (length tail) in
            if length parts = 1 \<and> missing \<noteq> 0 then None
            else if missing < 0 then None
            else Some (map (\<lambda>h. nat_digits 16 (nat (digits_val 16 h)))
                   (head @ replicate (nat missing) ''0'' @ tail)))))"

definition netGroupOf :: "string option \<Rightarrow> string option \<Rightarrow> string" where
  "netGroupOf address candidateType =
     (case address of
        None \<Rightarrow> ''unknown''
      | Some a0 \<Rightarrow>
          if a0 = [] then ''unknown''
          else
            (let addr = strip_brackets (toLowerCase (trim a0)) in
             if length addr \<ge> 6 \<and> drop (length addr - 6) addr = ''.local'' then ''lan''
             else (case v4_octets addr of
               Some (a, b) \<Rightarrow>
                 if a > 255 \<or> b > 255 then ''unknown''
                 else
                   (let group = nat_digits 10 a @ ''.'' @ nat_digits 10 b in
                    if candidateType = Some ''relay'' then ''relay:'' @ group
                    else if isPrivateV4 a b then ''lan''
                    else ''v4:'' @ group)
             | None \<Rightarrow>
                 if CHR '':'' \<in> set addr then
                   (case expandV6 addr of
                      None \<Rightarrow> ''unknown''
                    | Some hextets \<Rightarrow>
                        if candidateType = Some ''relay'' then ''relay:'' @ join_with '':'' (take 3 hextets)
                        else
                          (let first = digits_val 16 (hextets ! 0) in
                           if (first AND 0xfe00) = 0xfc00 \<or> (first AND 0xffc0) = 0xfe80 \<or>
                              join_with '':'' hextets = ''0:0:0:0:0:0:0:1''
                           then ''lan'' else ''v6:'' @ join_with '':'' (take 3 hextets)))
                 else ''unknown'')))"

subsection \<open>Caps\<close>

definition groupCap :: "int \<Rightarrow> int \<Rightarrow> int" where
  "groupCap maxDegree distinctGroupsSeen =
     max 1 \<lceil>(of_int maxDegree :: rat) / of_int (max 1 distinctGroupsSeen)\<rceil>"

text \<open>The per-origin cap is the least number of slots, at least one, with which the origins seen so
  far could still fill every slot: the caps of all origins add up to the degree or more, and one slot
  fewer per origin would not do.\<close>

theorem groupCap_least:
  "m \<le> groupCap m g * max 1 g \<and> 1 \<le> groupCap m g \<and> (1 < groupCap m g \<longrightarrow> (groupCap m g - 1) * max 1 g < m)"
proof -
  let ?g = "max 1 g" and ?q = "(of_int m :: rat) / of_int (max 1 g)"
  have g: "(0 :: rat) < of_int ?g" by (simp only: of_int_0_less_iff)
  have "?q \<le> of_int \<lceil>?q\<rceil>" by (rule le_of_int_ceiling)
  then have "(of_int m :: rat) \<le> of_int (\<lceil>?q\<rceil> * ?g)" using g
    by (simp only: pos_divide_le_eq of_int_mult)
  then have up: "m \<le> \<lceil>?q\<rceil> * ?g" by (simp only: of_int_le_iff)
  have "of_int \<lceil>?q\<rceil> - 1 < ?q" by linarith
  then have "(of_int ((\<lceil>?q\<rceil> - 1) * ?g) :: rat) < of_int m" using g
    by (simp only: pos_less_divide_eq of_int_mult of_int_diff of_int_1)
  then have low: "(\<lceil>?q\<rceil> - 1) * ?g < m" by (simp only: of_int_less_iff)
  have "\<lceil>?q\<rceil> * ?g \<le> max 1 \<lceil>?q\<rceil> * ?g" by (intro mult_right_mono) auto
  with up low show ?thesis unfolding groupCap_def by (auto simp: max_def split: if_splits)
qed

theorem groupCap_least_witness: "1 < groupCap 16 5 \<and> (groupCap 16 5 - 1) * 5 < 16"
  using groupCap_least [of 16 5] by (simp add: groupCap_def)

subsection \<open>IPv4 groups\<close>

definition dotted :: "nat \<Rightarrow> nat \<Rightarrow> nat \<Rightarrow> nat \<Rightarrow> string" where
  "dotted a b c d = nat_digits 10 a @ ''.'' @ nat_digits 10 b @ ''.'' @ nat_digits 10 c @ ''.'' @ nat_digits 10 d"

lemma is_digit_10: "is_digit 10 c \<longleftrightarrow> 48 \<le> (of_char c :: nat) \<and> (of_char c :: nat) \<le> 57"
  by (auto simp: is_digit_def digit_val_def Let_def split: if_splits)

lemma digit_not_dot: "is_digit 10 c \<Longrightarrow> c \<noteq> CHR ''.''"
  by (auto simp: is_digit_10)

lemma nat_digits_no_dot: "CHR ''.'' \<notin> set (nat_digits 10 n)"
  using nat_digits_props [of 10 n] digit_not_dot by (fastforce simp: list_all_iff)

lemma v4_octets_dotted:
  assumes "a < 1000" "b < 1000" "c < 1000" "d < 1000"
  shows "v4_octets (dotted a b c d) = Some (a, b)"
proof -
  have len: "length (nat_digits 10 n) \<le> 3" if "n < 1000" for n
    using length_nat_digits [of 10 n 2] that by simp
  have "split_on (CHR ''.'') (dotted a b c d) = [nat_digits 10 a, nat_digits 10 b, nat_digits 10 c, nat_digits 10 d]"
    by (simp add: dotted_def split_on_append split_on_plain nat_digits_no_dot)
  then show ?thesis using assms len nat_digits_props [of 10] by (simp add: v4_octets_def)
qed

lemma plain_char: "is_digit 10 c \<or> c = CHR ''.'' \<Longrightarrow> lower_char c = c \<and> \<not> is_ws c \<and> c \<noteq> CHR ''['' \<and> c \<noteq> CHR '']''"
  by (auto simp: is_digit_10 lower_char_def is_ws_def Let_def)

lemma plain_normal:
  assumes "list_all (\<lambda>c. is_digit 10 c \<or> c = CHR ''.'') s"
  shows "strip_brackets (toLowerCase (trim s)) = s"
proof -
  have dw: "dropWhile is_ws t = t" if "\<forall>c \<in> set t. \<not> is_ws c" for t
    using that by (cases t) auto
  have ws: "\<forall>c \<in> set s. \<not> is_ws c" "\<forall>c \<in> set s. lower_char c = c"
    "\<forall>c \<in> set s. c \<noteq> CHR ''['' \<and> c \<noteq> CHR '']''"
    using assms plain_char by (auto simp: list_all_iff)
  have "trim s = s" using ws(1) by (simp add: trim_def dw)
  moreover have "toLowerCase s = s" using ws(2) by (simp add: toLowerCase_def map_idI)
  moreover have "strip_brackets s = s" using ws(3)
    by (cases s) (auto simp: strip_brackets_def Let_def)
  ultimately show ?thesis by simp
qed

lemma dotted_plain: "list_all (\<lambda>c. is_digit 10 c \<or> c = CHR ''.'') (dotted a b c d)"
  using nat_digits_props [of 10] by (auto simp: dotted_def list_all_iff)

lemma dotted_last: "is_digit 10 (last (dotted a b c d))"
  using nat_digits_props [of 10 d] by (simp add: dotted_def list_all_iff)

lemma not_local_suffix:
  assumes "is_digit 10 (last s)"
  shows "\<not> (6 \<le> length s \<and> drop (length s - 6) s = ''.local'')"
proof
  assume a: "6 \<le> length s \<and> drop (length s - 6) s = ''.local''"
  then have "last s = last (drop (length s - 6) s)" by (intro last_drop [symmetric]) linarith
  also have "\<dots> = CHR ''l''" using a by simp
  finally have "last s = CHR ''l''" .
  then show False using assms by (simp add: is_digit_10)
qed

text \<open>The group of an IPv4 neighbour is decided by the upper 16 bits of its address: two public
  addresses share a group exactly when they share both upper octets, whatever the lower ones.\<close>

theorem netGroup_v4:
  assumes "a \<le> 255" "b \<le> 255" "c \<le> 255" "d \<le> 255" "a' \<le> 255" "b' \<le> 255" "c' \<le> 255" "d' \<le> 255"
    "\<not> isPrivateV4 a b" "\<not> isPrivateV4 a' b'"
  shows "netGroupOf (Some (dotted a b c d)) None = netGroupOf (Some (dotted a' b' c' d')) None \<longleftrightarrow> a = a' \<and> b = b'"
proof -
  have g: "netGroupOf (Some (dotted a b c d)) None = ''v4:'' @ nat_digits 10 a @ ''.'' @ nat_digits 10 b"
    if "a \<le> 255" "b \<le> 255" "c \<le> 255" "d \<le> 255" "\<not> isPrivateV4 a b" for a b c d
  proof -
    have oct: "v4_octets (dotted a b c d) = Some (a, b)" using that by (intro v4_octets_dotted) auto
    have "dotted a b c d \<noteq> []" by (simp add: dotted_def)
    then show ?thesis
      using that oct not_local_suffix [OF dotted_last, of a b c d]
      by (simp add: netGroupOf_def plain_normal [OF dotted_plain] Let_def)
  qed
  have sp: "split_on (CHR ''.'') (nat_digits 10 a @ ''.'' @ nat_digits 10 b) = [nat_digits 10 a, nat_digits 10 b]" for a b
    by (simp add: split_on_append split_on_plain nat_digits_no_dot)
  have inj: "a = a' \<and> b = b'" if "nat_digits 10 a @ ''.'' @ nat_digits 10 b = nat_digits 10 a' @ ''.'' @ nat_digits 10 b'"
    using arg_cong [OF that, of "split_on (CHR ''.'')"] unfolding sp by (simp only: list.inject nat_digits_inject simp_thms)
  show ?thesis
    unfolding g [OF assms(1-4) assms(9)] g [OF assms(5-8) assms(10)] using inj by (auto simp only: append_same_eq same_append_eq)
qed

theorem netGroup_v4_witness:
  "netGroupOf (Some (dotted 8 8 8 8)) None = netGroupOf (Some (dotted 8 8 4 4)) None"
  using netGroup_v4 [of 8 8 8 8 8 8 4 4] by (simp add: isPrivateV4_def)

end
