(* ===== verification/Wire.thy ===== *)
theory Wire
  imports Sodium Json
begin

text \<open>
  \<open>packages/core/src/network/wire/WireTypes.ts\<close> and \<open>WireCodec.ts\<close>: the frame format, one type byte
  and a MsgPack body, with JSON text as a fallback. MsgPack is a parameter. The lemmas show that a
  frame decodes to the type and the tagged payload it was made from.
\<close>

subsection \<open>Message types\<close>

datatype wire_type =
    JOIN | RING_INFO | PING | PONG | LOCAL_LINK_REQ | LOCAL_LINK_ACK | LOCAL_LINK_REJ | HELLO
  | PEX_REQUEST | PEX_RESPONSE | SDP_RELAY | ICE_RELAY | GOSSIP | STEM | HINT | HINT_STEM | ONION_STEM
  | DHT_PUT | DHT_PUT_STEM | DHT_GET | DHT_RES | UNKNOWN

fun wire_code :: "wire_type \<Rightarrow> byte" where
  "wire_code JOIN = 0x10"
| "wire_code RING_INFO = 0x11"
| "wire_code PING = 0x12"
| "wire_code PONG = 0x13"
| "wire_code LOCAL_LINK_REQ = 0x14"
| "wire_code LOCAL_LINK_ACK = 0x15"
| "wire_code LOCAL_LINK_REJ = 0x16"
| "wire_code HELLO = 0x17"
| "wire_code PEX_REQUEST = 0x20"
| "wire_code PEX_RESPONSE = 0x21"
| "wire_code SDP_RELAY = 0x30"
| "wire_code ICE_RELAY = 0x31"
| "wire_code GOSSIP = 0x40"
| "wire_code STEM = 0x41"
| "wire_code HINT = 0x42"
| "wire_code HINT_STEM = 0x43"
| "wire_code ONION_STEM = 0x44"
| "wire_code DHT_PUT = 0x50"
| "wire_code DHT_PUT_STEM = 0x53"
| "wire_code DHT_GET = 0x51"
| "wire_code DHT_RES = 0x52"
| "wire_code UNKNOWN = 0xFF"

text \<open>\<open>KNOWN_WIRE_TYPES\<close>: every member of the enumeration except \<open>UNKNOWN\<close>.\<close>

definition KNOWN_WIRE_TYPES :: "wire_type list" where
  "KNOWN_WIRE_TYPES =
     [JOIN, RING_INFO, PING, PONG, LOCAL_LINK_REQ, LOCAL_LINK_ACK, LOCAL_LINK_REJ, HELLO, PEX_REQUEST,
      PEX_RESPONSE, SDP_RELAY, ICE_RELAY, GOSSIP, STEM, HINT, HINT_STEM, ONION_STEM, DHT_PUT, DHT_PUT_STEM,
      DHT_GET, DHT_RES]"

definition known_wire_type :: "byte \<Rightarrow> wire_type option" where
  "known_wire_type b = find (\<lambda>t. wire_code t = b) KNOWN_WIRE_TYPES"

fun REVERSE_TYPE_MAP :: "wire_type \<Rightarrow> string option" where
  "REVERSE_TYPE_MAP HELLO = Some ''hello''"
| "REVERSE_TYPE_MAP JOIN = Some ''join''"
| "REVERSE_TYPE_MAP RING_INFO = Some ''ring-info''"
| "REVERSE_TYPE_MAP PING = Some ''ping''"
| "REVERSE_TYPE_MAP PONG = Some ''pong''"
| "REVERSE_TYPE_MAP PEX_REQUEST = Some ''pex-request''"
| "REVERSE_TYPE_MAP PEX_RESPONSE = Some ''pex-response''"
| "REVERSE_TYPE_MAP SDP_RELAY = Some ''sdp-relay''"
| "REVERSE_TYPE_MAP ICE_RELAY = Some ''ice-relay''"
| "REVERSE_TYPE_MAP GOSSIP = Some ''gossip''"
| "REVERSE_TYPE_MAP STEM = Some ''stem''"
| "REVERSE_TYPE_MAP ONION_STEM = Some ''onion-stem''"
| "REVERSE_TYPE_MAP HINT = Some ''hint''"
| "REVERSE_TYPE_MAP HINT_STEM = Some ''hint-stem''"
| "REVERSE_TYPE_MAP DHT_PUT = Some ''dht-put''"
| "REVERSE_TYPE_MAP DHT_PUT_STEM = Some ''dht-put-stem''"
| "REVERSE_TYPE_MAP DHT_GET = Some ''dht-get''"
| "REVERSE_TYPE_MAP DHT_RES = Some ''dht-res''"
| "REVERSE_TYPE_MAP _ = None"

definition JSON_TYPE_MAP :: "(string \<times> wire_type) list" where
  "JSON_TYPE_MAP =
     [(''hello'', HELLO), (''join'', JOIN), (''ping'', PING), (''pong'', PONG), (''gossip'', GOSSIP),
      (''stem'', STEM), (''onion-stem'', ONION_STEM), (''dht-put'', DHT_PUT), (''dht-get'', DHT_GET),
      (''dht-res'', DHT_RES), (''pex-request'', PEX_REQUEST), (''pex-response'', PEX_RESPONSE),
      (''sdp-relay'', SDP_RELAY), (''ice-relay'', ICE_RELAY)]"

subsection \<open>Frames\<close>

text \<open>The own enumerable properties of an object, as a spread copies them.\<close>

fun own_props :: "jsval \<Rightarrow> (string \<times> jsval) list" where
  "own_props (JObj kvs) = kvs"
| "own_props (JArr vs) = zip (map (nat_digits 10) [0..<length vs]) vs"
| "own_props (JBytes bs) = zip (map (nat_digits 10) [0..<length bs]) (map (\<lambda>b. jint (uint b)) bs)"
| "own_props _ = []"

definition tagged :: "wire_type \<Rightarrow> jsval \<Rightarrow> jsval" where
  "tagged t payload =
     (case REVERSE_TYPE_MAP t of
        Some tag \<Rightarrow>
          if is_object payload
          then JObj (fold (\<lambda>(k, v). jm_set k v) (own_props payload) [(''type'', JStr tag)])
          else payload
      | None \<Rightarrow> payload)"

definition wire_encode :: "msgpack \<Rightarrow> wire_type \<Rightarrow> jsval \<Rightarrow> bytes" where
  "wire_encode M t payload = wire_code t # mp_encode M (tagged t payload)"

definition wire_json :: "bytes \<Rightarrow> wire_type \<times> jsval" where
  "wire_json bs =
     (case json_parse (text_decode bs) of
        None \<Rightarrow> (UNKNOWN, Null)
      | Some msg \<Rightarrow>
          (case jget msg ''type'' of
             JStr s \<Rightarrow> (case map_of JSON_TYPE_MAP s of Some t \<Rightarrow> (t, msg) | None \<Rightarrow> (UNKNOWN, msg))
           | _ \<Rightarrow> (UNKNOWN, msg)))"

definition wire_decode :: "msgpack \<Rightarrow> bytes \<Rightarrow> wire_type \<times> jsval" where
  "wire_decode M bs =
     (case bs of
        [] \<Rightarrow> wire_json bs
      | b # body \<Rightarrow>
          (case known_wire_type b of
             None \<Rightarrow> wire_json bs
           | Some t \<Rightarrow> (case mp_decode M body of Some payload \<Rightarrow> (t, payload) | None \<Rightarrow> wire_json bs)))"

subsection \<open>Round trip\<close>

lemma known_wire_code: "known_wire_type (wire_code t) = (if t = UNKNOWN then None else Some t)"
  by (cases t) (simp_all add: known_wire_type_def KNOWN_WIRE_TYPES_def)

lemma wire_code_inject: "wire_code t = wire_code u \<longleftrightarrow> t = u"
  using known_wire_code [of t] known_wire_code [of u] by (metis option.inject option.distinct(1))

lemma fold_set_fresh:
  assumes "distinct (map fst kvs)" "fst ` set kvs \<inter> fst ` set m = {}"
  shows "fold (\<lambda>(k, v). jm_set k v) kvs m = m @ kvs"
  using assms
proof (induction kvs arbitrary: m)
  case (Cons kv kvs)
  obtain k v where kv: "kv = (k, v)" by force
  have "\<not> jm_has m k" using Cons.prems(2) kv by (auto simp: jm_has_iff)
  then have s: "jm_set k v m = m @ [(k, v)]" by (rule jm_set_new)
  have "fst ` set kvs \<inter> fst ` set (m @ [(k, v)]) = {}" using Cons.prems kv by auto
  then have "fold (\<lambda>(k, v). jm_set k v) kvs (m @ [(k, v)]) = (m @ [(k, v)]) @ kvs"
    using Cons.IH [of "m @ [(k, v)]"] Cons.prems(1) by simp
  then show ?case using kv s by simp
qed simp

lemma tagged_object:
  assumes "REVERSE_TYPE_MAP t = Some tag" "distinct (map fst kvs)" "''type'' \<notin> fst ` set kvs"
  shows "tagged t (JObj kvs) = JObj ((''type'', JStr tag) # kvs)"
  using assms fold_set_fresh [OF assms(2), of "[(''type'', JStr tag)]"] by (simp add: tagged_def)

text \<open>A frame made for a message type decodes to that type and, when MsgPack reproduces the body, to the
  payload with the type's tag in front; no frame decodes to a type through its first byte that it was not
  made for, because the type bytes are distinct.\<close>

theorem wire_roundtrip:
  assumes "t \<noteq> UNKNOWN" "mp_roundtrip M (tagged t v)"
  shows "wire_decode M (wire_encode M t v) = (t, tagged t v) \<and>
    (known_wire_type (hd (wire_encode M u w)) = Some t \<longleftrightarrow> u = t)"
  using assms by (auto simp: wire_encode_def wire_decode_def known_wire_code mp_roundtrip_def)

theorem wire_roundtrip_witness:
  "wire_decode \<lparr>mp_encode = (\<lambda>v. []), mp_decode = (\<lambda>b. Some (JObj [(''type'', JStr ''ping'')]))\<rparr>
     (wire_encode \<lparr>mp_encode = (\<lambda>v. []), mp_decode = (\<lambda>b. Some (JObj [(''type'', JStr ''ping'')]))\<rparr> PING (JObj [])) =
   (PING, JObj [(''type'', JStr ''ping'')])"
  using wire_roundtrip [of PING "\<lparr>mp_encode = (\<lambda>v. []), mp_decode = (\<lambda>b. Some (JObj [(''type'', JStr ''ping'')]))\<rparr>" "JObj []"]
  by (simp add: mp_roundtrip_def tagged_def)

text \<open>The size limits of the receiver look at the first byte only, so they say nothing about a message that
  arrives as JSON text: its first byte is no message type, whatever message it decodes to.\<close>

lemma wire_json_any:
  "known_wire_type b = None \<Longrightarrow> wire_decode M (b # bs) = wire_json (b # bs)"
  by (simp add: wire_decode_def)

end
