(* ===== verification/Peer.thy ===== *)
theory Peer
  imports NodeIdentity NetGroup Wire "HOL-Library.Char_ord" "HOL-Library.List_Lexorder"
begin

text \<open>
  \<open>packages/core/src/network/WebRTCPeer.ts\<close>: the state of one connection, the buffering of ICE candidates,
  the DTLS fingerprints a join is bound to and the origin group of a connection. The browser's
  \<open>RTCPeerConnection\<close> is outside: what is asked of it is returned as a list of effects, and what it
  answers (descriptions, statistics, whether a call failed) is an argument.
\<close>

subsection \<open>State\<close>

datatype direction = Outbound | Inbound

record wpeer =
  wp_conn :: nat
  wp_direction :: direction
  wp_connected :: bool
  wp_connecting :: bool
  wp_verified :: bool
  wp_pubkey :: "bytes option"
  wp_powCounter :: "int option"
  wp_verifiedAt :: "int option"
  wp_netGroup :: "string option"
  wp_challenge :: "bytes option"
  wp_localSdp :: "string option"
  wp_remoteSdp :: "string option"
  wp_pending :: "jsval list"

definition wp_new :: "nat \<Rightarrow> bool \<Rightarrow> wpeer" where
  "wp_new conn initiator =
     \<lparr>wp_conn = conn, wp_direction = (if initiator then Outbound else Inbound), wp_connected = False,
      wp_connecting = True, wp_verified = False, wp_pubkey = None, wp_powCounter = None, wp_verifiedAt = None,
      wp_netGroup = None, wp_challenge = None, wp_localSdp = None, wp_remoteSdp = None, wp_pending = []\<rparr>"

definition setChallenge :: "bytes \<Rightarrow> wpeer \<Rightarrow> wpeer" where
  "setChallenge c w = w\<lparr>wp_challenge := Some c\<rparr>"

definition markVerified :: "int \<Rightarrow> bytes \<Rightarrow> int \<Rightarrow> wpeer \<Rightarrow> wpeer" where
  "markVerified now pubkey powCounter w =
     w\<lparr>wp_verified := True, wp_verifiedAt := Some now, wp_pubkey := Some pubkey, wp_powCounter := Some powCounter\<rparr>"

text \<open>\<open>channel.onopen\<close>; \<open>channel.onclose\<close> and a failed ICE state; \<open>close\<close>.\<close>

definition channel_open :: "wpeer \<Rightarrow> wpeer" where
  "channel_open w = w\<lparr>wp_connected := True, wp_connecting := False\<rparr>"

definition channel_closed :: "wpeer \<Rightarrow> wpeer" where
  "channel_closed w = w\<lparr>wp_connected := False, wp_connecting := False\<rparr>"

definition ice_state_change :: "string \<Rightarrow> wpeer \<Rightarrow> bool \<times> wpeer" where
  "ice_state_change state w =
     (if state = ''disconnected'' \<or> state = ''failed'' then (True, channel_closed w) else (False, w))"

definition wp_close :: "wpeer \<Rightarrow> wpeer" where
  "wp_close w = channel_closed w"

subsection \<open>Signalling\<close>

datatype rtc_call =
    SetRemoteDescription jsval
  | CreateAnswer
  | AddIceCandidate jsval

text \<open>One signal, run to its end: \<open>ok\<close> is whether setting the description succeeded, \<open>answer\<close> the local
  description an answer made. \<open>data.sdp.sdp\<close> is the text of the description.\<close>

definition sdp_text :: "jsval \<Rightarrow> string" where
  "sdp_text v = (case v of JStr s \<Rightarrow> s | _ \<Rightarrow> [])"

definition wp_signal :: "bool \<Rightarrow> string \<Rightarrow> jsval \<Rightarrow> wpeer \<Rightarrow> rtc_call list \<times> wpeer" where
  "wp_signal ok answer data w =
     (if truthy (jget data ''sdp'') then
        (if \<not> ok then ([SetRemoteDescription (jget data ''sdp'')], w)
         else
           (let w1 = w\<lparr>wp_remoteSdp := Some (sdp_text (jget (jget data ''sdp'') ''sdp''))\<rparr>;
                (calls, w2) = (if jget (jget data ''sdp'') ''type'' = JStr ''offer''
                               then ([CreateAnswer], w1\<lparr>wp_localSdp := Some answer\<rparr>) else ([], w1)) in
            (SetRemoteDescription (jget data ''sdp'') # calls @ map AddIceCandidate (wp_pending w2),
             w2\<lparr>wp_pending := []\<rparr>)))
      else if truthy (jget data ''candidate'') then
        (if wp_remoteSdp w \<noteq> None then ([AddIceCandidate (jget data ''candidate'')], w)
         else ([], w\<lparr>wp_pending := wp_pending w @ [jget data ''candidate'']\<rparr>))
      else ([], w))"

fun wp_signals :: "(bool \<times> string \<times> jsval) list \<Rightarrow> wpeer \<Rightarrow> rtc_call list \<times> wpeer" where
  "wp_signals [] w = ([], w)"
| "wp_signals ((ok, answer, data) # ds) w =
     (let (c1, w1) = wp_signal ok answer data w; (c2, w2) = wp_signals ds w1 in (c1 @ c2, w2))"

fun ice_added :: "rtc_call list \<Rightarrow> jsval list" where
  "ice_added [] = []"
| "ice_added (AddIceCandidate c # cs) = c # ice_added cs"
| "ice_added (_ # cs) = ice_added cs"

definition ice_given :: "(bool \<times> string \<times> jsval) list \<Rightarrow> jsval list" where
  "ice_given ds =
     map (\<lambda>(_, _, d). jget d ''candidate'')
       (filter (\<lambda>(_, _, d). \<not> truthy (jget d ''sdp'') \<and> truthy (jget d ''candidate'')) ds)"

subsection \<open>Fingerprints\<close>

definition is_lt :: "char \<Rightarrow> bool" where
  "is_lt c \<longleftrightarrow> c = CHR 0x0A \<or> c = CHR 0x0D"

definition is_fp_char :: "char \<Rightarrow> bool" where
  "is_fp_char c \<longleftrightarrow> is_digit 16 c \<or> c = CHR '':''"

definition upper_char :: "char \<Rightarrow> char" where
  "upper_char c = (let n = (of_char c :: nat) in if 97 \<le> n \<and> n \<le> 122 then char_of (n - 32) else c)"

text \<open>The part of a white-space run the pattern's \<open>\s*$\<close> takes: up to the end of the text, else up to the last
  line terminator in the run.\<close>

definition line_end :: "string \<Rightarrow> string option" where
  "line_end s =
     (let run = takeWhile is_ws s; rest = dropWhile is_ws s in
      if rest = [] then Some []
      else (case dropWhile (\<lambda>c. \<not> is_lt c) (rev run) of
              [] \<Rightarrow> None
            | t # ts \<Rightarrow> Some (drop (length ts) s)))"

text \<open>One match of \<open>/^a=fingerprint:\s*(\S+)\s+([0-9A-Fa-f:]+)\s*$/\<close> at the start of a line: the two groups
  and what follows the match.\<close>

definition fp_match :: "string \<Rightarrow> (string \<times> string \<times> string) option" where
  "fp_match s =
     (if take 14 s \<noteq> ''a=fingerprint:'' then None
      else
        (let s1 = dropWhile is_ws (drop 14 s); alg = takeWhile (\<lambda>c. \<not> is_ws c) s1;
             s2 = dropWhile (\<lambda>c. \<not> is_ws c) s1; s3 = dropWhile is_ws s2;
             hex = takeWhile is_fp_char s3; s4 = dropWhile is_fp_char s3 in
         if alg = [] \<or> s2 = [] \<or> hex = [] then None
         else (case line_end s4 of None \<Rightarrow> None | Some r \<Rightarrow> Some (alg, hex, r))))"

lemma line_end_le: "line_end s = Some r \<Longrightarrow> length r \<le> length s"
  by (auto simp: line_end_def Let_def split: if_splits list.splits)

lemma fp_match_shorter:
  assumes "fp_match s = Some (a, h, r)"
  shows "length r < length s"
proof -
  define s1 where "s1 = dropWhile is_ws (drop 14 s)"
  define s2 where "s2 = dropWhile (\<lambda>c. \<not> is_ws c) s1"
  define s4 where "s4 = dropWhile is_fp_char (dropWhile is_ws s2)"
  have "take 14 s = ''a=fingerprint:'' \<and> line_end s4 = Some r"
    using assms unfolding fp_match_def Let_def s1_def [symmetric] s2_def [symmetric] s4_def [symmetric]
    by (simp split: if_splits option.splits)
  then have "length r \<le> length s4" "s \<noteq> []" using line_end_le by auto
  moreover have "length s4 \<le> length s2" unfolding s4_def by (meson le_trans length_dropWhile_le)
  moreover have "length s2 \<le> length (drop 14 s)" unfolding s2_def s1_def by (meson le_trans length_dropWhile_le)
  ultimately show ?thesis by (cases s) auto
qed

text \<open>All matches; \<open>bol\<close> tells whether the position is the beginning of a line.\<close>

function fp_scan :: "bool \<Rightarrow> string \<Rightarrow> (string \<times> string) list" where
  "fp_scan bol [] = []"
| "fp_scan bol (c # s) =
     (case (if bol then fp_match (c # s) else None) of
        Some (alg, hex, r) \<Rightarrow> (alg, hex) # fp_scan (is_lt (last (take (length (c # s) - length r) (c # s)))) r
      | None \<Rightarrow> fp_scan (is_lt c) s)"
  by pat_completeness auto
termination
  by (relation "measure (\<lambda>(_, s). length s)") (auto split: if_splits dest: fp_match_shorter)

definition fingerprint_text :: "string \<times> string \<Rightarrow> string" where
  "fingerprint_text m = toLowerCase (fst m) @ '' '' @ map upper_char (snd m)"

definition extractFingerprint :: "string option \<Rightarrow> string" where
  "extractFingerprint sdp =
     (case sdp of
        None \<Rightarrow> []
      | Some t \<Rightarrow> join_with '','' (sort (fold js_add (map fingerprint_text (fp_scan True t)) [])))"

definition dtlsFingerprints :: "wpeer \<Rightarrow> string \<times> string" where
  "dtlsFingerprints w = (extractFingerprint (wp_localSdp w), extractFingerprint (wp_remoteSdp w))"

subsection \<open>Origin group\<close>

text \<open>The report of \<open>getStats\<close> is a list of objects with an \<open>id\<close>; \<open>None\<close> when the call fails.\<close>

definition stat_map :: "jsval list \<Rightarrow> (jsval \<times> jsval) list" where
  "stat_map stats = fold (\<lambda>s. jm_set (jget s ''id'') s) stats []"

definition selected_pair :: "(jsval \<times> jsval) list \<Rightarrow> jsval" where
  "selected_pair stats =
     (let look = (\<lambda>k. case map_of stats k of None \<Rightarrow> Undef | Some v \<Rightarrow> v);
          pair = fold (\<lambda>(_, s) p. if jget s ''type'' = JStr ''transport'' \<and> truthy (jget s ''selectedCandidatePairId'')
                                 then look (jget s ''selectedCandidatePairId'') else p) stats Null in
      if truthy pair then pair
      else fold (\<lambda>(_, s) p. if jget s ''type'' = JStr ''candidate-pair'' \<and> jget s ''state'' = JStr ''succeeded'' \<and>
                                 (truthy (jget s ''nominated'') \<or> truthy (jget s ''selected'')) then s else p) stats pair)"

definition opt_string :: "jsval \<Rightarrow> string option" where
  "opt_string v = (case v of JStr s \<Rightarrow> Some s | _ \<Rightarrow> None)"

definition stat_group :: "jsval list option \<Rightarrow> string" where
  "stat_group report =
     (case report of
        None \<Rightarrow> ''unknown''
      | Some stats \<Rightarrow>
          (let all = stat_map stats; pair = selected_pair all;
               remote = (if truthy pair then (case map_of all (jget pair ''remoteCandidateId'') of None \<Rightarrow> Undef | Some v \<Rightarrow> v) else Null);
               address = (if jget remote ''address'' \<in> {Undef, Null} then jget remote ''ip'' else jget remote ''address'') in
           if truthy remote then netGroupOf (opt_string address) (opt_string (jget remote ''candidateType'')) else ''unknown''))"

definition resolveNetGroup :: "jsval list option \<Rightarrow> wpeer \<Rightarrow> string \<times> wpeer" where
  "resolveNetGroup report w =
     (case wp_netGroup w of
        Some g \<Rightarrow> if g \<noteq> [] then (g, w) else (stat_group report, w\<lparr>wp_netGroup := Some (stat_group report)\<rparr>)
      | None \<Rightarrow> (stat_group report, w\<lparr>wp_netGroup := Some (stat_group report)\<rparr>))"

subsection \<open>Candidates are kept in order\<close>

lemma ice_added_append [simp]: "ice_added (xs @ ys) = ice_added xs @ ice_added ys"
  by (induction xs rule: ice_added.induct) auto

lemma ice_added_map [simp]: "ice_added (map AddIceCandidate cs) = cs"
  by (induction cs) auto

lemma wp_signal_ice:
  assumes "wp_signal ok answer data w = (calls, w')" "wp_remoteSdp w \<noteq> None \<longrightarrow> wp_pending w = []"
  shows "ice_added calls @ wp_pending w' = wp_pending w @ ice_given [(ok, answer, data)] \<and>
    (wp_remoteSdp w' \<noteq> None \<longrightarrow> wp_pending w' = [])"
  using assms by (auto simp: wp_signal_def ice_given_def Let_def split: if_splits prod.splits)

text \<open>No ICE candidate is lost or reordered: however descriptions and candidates interleave, the candidates
  handed to the connection, followed by the ones still buffered, are exactly the candidates received, in
  order, and once a remote description is set nothing stays buffered.\<close>

theorem ice_candidates_in_order:
  assumes "wp_signals ds w = (calls, w')" "wp_remoteSdp w = None"
  shows "ice_added calls @ wp_pending w' = wp_pending w @ ice_given ds \<and>
    (wp_remoteSdp w' \<noteq> None \<longrightarrow> wp_pending w' = [])"
proof -
  have "ice_added calls @ wp_pending w' = wp_pending w @ ice_given ds \<and>
      (wp_remoteSdp w' \<noteq> None \<longrightarrow> wp_pending w' = [])"
    if "wp_signals ds w = (calls, w')" "wp_remoteSdp w \<noteq> None \<longrightarrow> wp_pending w = []" for calls
    using that
  proof (induction ds w arbitrary: calls rule: wp_signals.induct)
    case (2 ok answer data ds w)
    obtain c1 w1 where 1: "wp_signal ok answer data w = (c1, w1)" by (cases "wp_signal ok answer data w")
    obtain c2 where c2: "wp_signals ds w1 = (c2, w')" "calls = c1 @ c2"
      using "2.prems"(1) 1 by (auto split: prod.splits)
    have s: "ice_added c1 @ wp_pending w1 = wp_pending w @ ice_given [(ok, answer, data)]"
      "wp_remoteSdp w1 \<noteq> None \<longrightarrow> wp_pending w1 = []"
      using wp_signal_ice [OF 1] "2.prems"(2) by auto
    have "ice_added c2 @ wp_pending w' = wp_pending w1 @ ice_given ds \<and> (wp_remoteSdp w' \<noteq> None \<longrightarrow> wp_pending w' = [])"
      using "2.IH" [OF 1 [symmetric] refl c2(1) s(2)] by simp
    moreover have "ice_given ((ok, answer, data) # ds) = ice_given [(ok, answer, data)] @ ice_given ds"
      by (simp add: ice_given_def)
    ultimately show ?case using c2(2) s(1) by (metis append.assoc ice_added_append)
  qed (simp add: ice_given_def)
  then show ?thesis using assms by simp
qed

theorem ice_candidates_in_order_witness:
  "ice_added (fst (wp_signals [(True, [], JObj [(''candidate'', jint 1)]),
       (True, ''x'', JObj [(''sdp'', JObj [(''type'', JStr ''offer'')])])] (wp_new 0 True))) = [jint 1]"
  using ice_candidates_in_order [of "[(True, [], JObj [(''candidate'', jint 1)]),
       (True, ''x'', JObj [(''sdp'', JObj [(''type'', JStr ''offer'')])])]" "wp_new 0 True"]
  by (simp add: wp_new_def wp_signal_def ice_given_def Let_def)

subsection \<open>Fingerprints do not depend on order or repetition\<close>

lemma fold_js_add_set: "set (fold js_add xs s) = set xs \<union> set s"
  by (induction xs arbitrary: s) auto

lemma fold_js_add_distinct: "distinct s \<Longrightarrow> distinct (fold js_add xs s)"
  by (induction xs arbitrary: s) simp_all

lemma extractFingerprint_set:
  assumes "set (map fingerprint_text (fp_scan True s)) = set (map fingerprint_text (fp_scan True t))"
  shows "extractFingerprint (Some s) = extractFingerprint (Some t)"
proof -
  have "sort (fold js_add xs []) = sorted_list_of_set (set xs)" for xs :: "string list"
    by (rule sorted_distinct_set_unique) (simp_all add: fold_js_add_set fold_js_add_distinct)
  then show ?thesis using assms by (simp add: extractFingerprint_def del: set_map)
qed

end
