(* ===== verification/RateLimiter.thy ===== *)
theory RateLimiter
  imports Prelude
begin

text \<open>
  \<open>packages/core/src/network/RateLimiter.ts\<close>: the token bucket per neighbour and category that
  bounds what one connection can inject. The locale \<open>metered\<close> states what a limiter promises
  about its allowance; from it follows the bound on what is admitted in any window.
\<close>

subsection \<open>The interface\<close>

text \<open>
  \<open>allowance s t\<close> is what could be admitted at once at time \<open>t\<close>; \<open>charged e\<close> says whether an event
  draws on the budget in question.
\<close>

locale metered =
  fixes step :: "'e \<Rightarrow> 's \<Rightarrow> bool \<times> 's"
    and time :: "'e \<Rightarrow> rat"
    and charged :: "'e \<Rightarrow> bool"
    and allowance :: "'s \<Rightarrow> rat \<Rightarrow> rat"
    and ok :: "'s \<Rightarrow> bool"
    and rate burst :: rat
  assumes ok_step: "ok s \<Longrightarrow> ok (snd (step e s))"
    and nonneg: "ok s \<Longrightarrow> 0 \<le> allowance s t"
    and cap: "allowance s t \<le> burst"
    and grow: "t \<le> t' \<Longrightarrow> allowance s t' \<le> allowance s t + rate * (t' - t)"
    and spend: "ok s \<Longrightarrow> allowance (snd (step e s)) (time e) \<le>
       allowance s (time e) - (if fst (step e s) \<and> charged e then 1 else 0)"
begin

fun admitted :: "'e list \<Rightarrow> 's \<Rightarrow> nat" where
  "admitted [] s = 0"
| "admitted (e # es) s = (if fst (step e s) \<and> charged e then 1 else 0) + admitted es (snd (step e s))"

lemma admitted_allowance:
  "\<lbrakk>ok s; sorted (map time es); \<forall>e \<in> set es. t0 \<le> time e \<and> time e \<le> t1; t0 \<le> t1\<rbrakk> \<Longrightarrow>
    of_nat (admitted es s) \<le> allowance s t0 + rate * (t1 - t0)"
proof (induction es arbitrary: s t0)
  case Nil
  then show ?case using nonneg [of s t1] grow [of t0 t1 s] by simp
next
  case (Cons e es)
  let ?s = "snd (step e s)" and ?a = "if fst (step e s) \<and> charged e then 1 else (0 :: rat)"
  have "of_nat (admitted es ?s) \<le> allowance ?s (time e) + rate * (t1 - time e)"
    using Cons.prems ok_step by (intro Cons.IH) auto
  moreover have "allowance ?s (time e) \<le> allowance s (time e) - ?a"
    using Cons.prems by (intro spend) auto
  moreover have "allowance s (time e) \<le> allowance s t0 + rate * (time e - t0)"
    using Cons.prems by (intro grow) auto
  moreover have "rate * (t1 - t0) = rate * (t1 - time e) + rate * (time e - t0)"
    by (simp add: algebra_simps)
  ultimately have "?a + of_nat (admitted es ?s) \<le> allowance s t0 + rate * (t1 - t0)"
    by linarith
  moreover have "of_nat (admitted (e # es) s) = ?a + of_nat (admitted es ?s)" by simp
  ultimately show ?case by simp
qed

lemma admitted_bound:
  assumes "ok s" "sorted (map time es)" "\<forall>e \<in> set es. t0 \<le> time e \<and> time e \<le> t1" "t0 \<le> t1"
  shows "of_nat (admitted es s) \<le> burst + rate * (t1 - t0)"
  using admitted_allowance [OF assms] cap [of s t0] by linarith

end

subsection \<open>Configuration and state\<close>

record rate_config =
  ratePerSec :: rat
  rl_burst :: rat

type_synonym rate_configs = "(string, rate_config) jsmap"

definition RATE_LIMITS :: rate_configs where
  "RATE_LIMITS =
     [(''gossip'', \<lparr>ratePerSec = 20, rl_burst = 60\<rparr>),
      (''dhtPut'', \<lparr>ratePerSec = 5, rl_burst = 30\<rparr>),
      (''dhtGet'', \<lparr>ratePerSec = 5, rl_burst = 20\<rparr>),
      (''pex'', \<lparr>ratePerSec = 1, rl_burst = 5\<rparr>),
      (''handshake'', \<lparr>ratePerSec = 1 / 5, rl_burst = 3\<rparr>),
      (''signaling'', \<lparr>ratePerSec = 10, rl_burst = 40\<rparr>),
      (''onion'', \<lparr>ratePerSec = 20, rl_burst = 60\<rparr>),
      (''control'', \<lparr>ratePerSec = 2, rl_burst = 10\<rparr>)]"

record bucket =
  bk_tokens :: rat
  bk_lastRefill :: rat

record rate_state =
  rl_buckets :: "(string, bucket) jsmap"
  rl_dropped :: "(string, nat) jsmap"

definition rate_init :: rate_state where
  "rate_init = \<lparr>rl_buckets = [], rl_dropped = []\<rparr>"

definition bucket_key :: "string \<Rightarrow> string \<Rightarrow> string" where
  "bucket_key category peerId = category @ CHR 0x00 # peerId"

definition count_drop :: "string \<Rightarrow> rate_state \<Rightarrow> rate_state" where
  "count_drop category s =
     s\<lparr>rl_dropped := jm_set category (case jm_get (rl_dropped s) category of None \<Rightarrow> 1 | Some n \<Rightarrow> n + 1) (rl_dropped s)\<rparr>"

definition rate_allow :: "rate_configs \<Rightarrow> rat \<Rightarrow> string \<Rightarrow> string \<Rightarrow> rate_state \<Rightarrow> bool \<times> rate_state" where
  "rate_allow configs now peerId category s =
     (case jm_get configs category of
        None \<Rightarrow> (False, count_drop category s)
      | Some config \<Rightarrow>
          (let key = bucket_key category peerId;
               b = (case jm_get (rl_buckets s) key of
                      None \<Rightarrow> \<lparr>bk_tokens = rl_burst config, bk_lastRefill = now\<rparr>
                    | Some b \<Rightarrow>
                        (let elapsedSec = max 0 (now - bk_lastRefill b) / 1000 in
                         \<lparr>bk_tokens = min (rl_burst config) (bk_tokens b + elapsedSec * ratePerSec config),
                          bk_lastRefill = now\<rparr>)) in
           if bk_tokens b < 1 then (False, count_drop category (s\<lparr>rl_buckets := jm_set key b (rl_buckets s)\<rparr>))
           else (True, s\<lparr>rl_buckets := jm_set key (b\<lparr>bk_tokens := bk_tokens b - 1\<rparr>) (rl_buckets s)\<rparr>)))"

definition ends_with :: "string \<Rightarrow> string \<Rightarrow> bool" where
  "ends_with s suffix \<longleftrightarrow> length suffix \<le> length s \<and> drop (length s - length suffix) s = suffix"

definition rate_forget :: "string \<Rightarrow> rate_state \<Rightarrow> rate_state" where
  "rate_forget peerId s =
     s\<lparr>rl_buckets := filter (\<lambda>(key, _). \<not> ends_with key (CHR 0x00 # peerId)) (rl_buckets s)\<rparr>"

text \<open>\<open>None\<close> is the \<open>Infinity\<close> of an unknown category.\<close>

definition tokensFor :: "rate_configs \<Rightarrow> string \<Rightarrow> string \<Rightarrow> rate_state \<Rightarrow> rat option" where
  "tokensFor configs peerId category s =
     (case jm_get (rl_buckets s) (bucket_key category peerId) of
        Some b \<Rightarrow> Some (bk_tokens b)
      | None \<Rightarrow> map_option rl_burst (jm_get configs category))"

definition rate_reset :: "rate_state \<Rightarrow> rate_state" where
  "rate_reset s = s\<lparr>rl_buckets := [], rl_dropped := []\<rparr>"

subsection \<open>The allowance of one neighbour in one category\<close>

definition configs_ok :: "rate_configs \<Rightarrow> bool" where
  "configs_ok cs \<longleftrightarrow> (\<forall>(c, cfg) \<in> set cs. CHR 0x00 \<notin> set c \<and> 0 \<le> rl_burst cfg \<and> 0 \<le> ratePerSec cfg)"

definition rate_ok :: "rate_state \<Rightarrow> bool" where
  "rate_ok s \<longleftrightarrow> (\<forall>(_, b) \<in> set (rl_buckets s). 0 \<le> bk_tokens b)"

definition allowance_of :: "rate_config \<Rightarrow> string \<Rightarrow> rate_state \<Rightarrow> rat \<Rightarrow> rat" where
  "allowance_of cfg key s t =
     (case jm_get (rl_buckets s) key of
        None \<Rightarrow> rl_burst cfg
      | Some b \<Rightarrow> min (rl_burst cfg) (bk_tokens b + max 0 (t - bk_lastRefill b) / 1000 * ratePerSec cfg))"

lemma configs_okD:
  assumes "configs_ok cs" "jm_get cs c = Some cfg"
  shows "CHR 0x00 \<notin> set c" "0 \<le> rl_burst cfg" "0 \<le> ratePerSec cfg"
  using assms by (auto simp: configs_ok_def dest!: map_of_SomeD)

lemma bucket_key_inject:
  assumes "CHR 0x00 \<notin> set c" "CHR 0x00 \<notin> set c'"
  shows "bucket_key c p = bucket_key c' p' \<longleftrightarrow> c = c' \<and> p = p'"
proof
  assume eq: "bucket_key c p = bucket_key c' p'"
  have tw: "takeWhile (\<lambda>x. x \<noteq> CHR 0x00) (bucket_key c p) = c" if "CHR 0x00 \<notin> set c" for c p
    using that by (simp add: bucket_key_def) (subst takeWhile_append2, auto)
  from tw [OF assms(1), of p] tw [OF assms(2), of p'] eq have "c = c'" by simp
  then show "c = c' \<and> p = p'" using eq by (simp add: bucket_key_def)
qed simp

lemma count_drop_buckets [simp]: "rl_buckets (count_drop c s) = rl_buckets s"
  by (simp add: count_drop_def)

lemma rate_allow_unknown: "jm_get cs c = None \<Longrightarrow> rate_allow cs now p c s = (False, count_drop c s)"
  by (simp add: rate_allow_def)

text \<open>What \<open>rate_allow\<close> does, in terms of the allowance.\<close>

lemma rate_allow_known:
  assumes "jm_get cs c = Some cfg"
  shows "fst (rate_allow cs now p c s) \<longleftrightarrow> 1 \<le> allowance_of cfg (bucket_key c p) s now"
    "rl_buckets (snd (rate_allow cs now p c s)) =
       jm_set (bucket_key c p)
         \<lparr>bk_tokens = allowance_of cfg (bucket_key c p) s now - (if fst (rate_allow cs now p c s) then 1 else 0),
          bk_lastRefill = now\<rparr> (rl_buckets s)"
  using assms by (auto simp: rate_allow_def Let_def allowance_of_def split: option.splits)

lemma allowance_of_nonneg:
  "rate_ok s \<Longrightarrow> 0 \<le> rl_burst cfg \<Longrightarrow> 0 \<le> ratePerSec cfg \<Longrightarrow> 0 \<le> allowance_of cfg key s t"
  by (force simp: allowance_of_def rate_ok_def split: option.splits dest!: map_of_SomeD)

lemma allowance_of_cap: "allowance_of cfg key s t \<le> rl_burst cfg"
  by (simp add: allowance_of_def split: option.splits)

lemma allowance_of_grow:
  assumes "0 \<le> ratePerSec cfg" "t \<le> t'"
  shows "allowance_of cfg key s t' \<le> allowance_of cfg key s t + ratePerSec cfg / 1000 * (t' - t)"
proof (cases "jm_get (rl_buckets s) key")
  case None
  then show ?thesis using assms by (simp add: allowance_of_def)
next
  case (Some b)
  have "max 0 (t' - bk_lastRefill b) \<le> max 0 (t - bk_lastRefill b) + (t' - t)" using assms by auto
  then have "max 0 (t' - bk_lastRefill b) / 1000 * ratePerSec cfg \<le>
      (max 0 (t - bk_lastRefill b) + (t' - t)) / 1000 * ratePerSec cfg"
    using assms by (intro mult_right_mono divide_right_mono) auto
  also have "\<dots> = max 0 (t - bk_lastRefill b) / 1000 * ratePerSec cfg + ratePerSec cfg / 1000 * (t' - t)"
    by (simp add: field_simps)
  finally have le: "max 0 (t' - bk_lastRefill b) / 1000 * ratePerSec cfg \<le>
      max 0 (t - bk_lastRefill b) / 1000 * ratePerSec cfg + ratePerSec cfg / 1000 * (t' - t)" .
  moreover have "0 \<le> ratePerSec cfg / 1000 * (t' - t)" using assms by simp
  ultimately show ?thesis using Some unfolding allowance_of_def by (simp only: option.case)
qed

lemma rate_ok_allow [wf_intro]:
  assumes "configs_ok cs" "rate_ok s"
  shows "rate_ok (snd (rate_allow cs now p c s))"
proof (cases "jm_get cs c")
  case None
  then show ?thesis using assms by (simp add: rate_allow_unknown rate_ok_def)
next
  case (Some cfg)
  note ok = configs_okD [OF assms(1) Some]
  show ?thesis
    using assms(2) allowance_of_nonneg [OF assms(2) ok(2,3)] rate_allow_known [OF Some, of now p s]
    by (auto simp: rate_ok_def dest!: jm_set_in)
qed

type_synonym rate_event = "rat \<times> string \<times> string"

definition rate_step :: "rate_configs \<Rightarrow> rate_event \<Rightarrow> rate_state \<Rightarrow> bool \<times> rate_state" where
  "rate_step cs e s = (case e of (now, p, c) \<Rightarrow> rate_allow cs now p c s)"

text \<open>The allowance of neighbour \<open>p\<close> in category \<open>c\<close>; a category outside the table has none.\<close>

definition allowance_in :: "rate_configs \<Rightarrow> string \<Rightarrow> string \<Rightarrow> rate_state \<Rightarrow> rat \<Rightarrow> rat" where
  "allowance_in cs p c s t =
     (case jm_get cs c of None \<Rightarrow> 0 | Some cfg \<Rightarrow> allowance_of cfg (bucket_key c p) s t)"

definition limit_of :: "rate_configs \<Rightarrow> string \<Rightarrow> rate_config" where
  "limit_of cs c = (case jm_get cs c of None \<Rightarrow> \<lparr>ratePerSec = 0, rl_burst = 0\<rparr> | Some cfg \<Rightarrow> cfg)"

lemma rate_step_spend:
  assumes "configs_ok cs" "rate_ok s"
  shows "allowance_in cs p c (snd (rate_step cs e s)) (fst e) \<le>
     allowance_in cs p c s (fst e) - (if fst (rate_step cs e s) \<and> snd e = (p, c) then 1 else 0)"
proof (cases "jm_get cs c")
  case None
  then show ?thesis by (auto simp: allowance_in_def rate_step_def rate_allow_unknown split: prod.splits)
next
  case (Some cfg)
  obtain now p' c' where e: "e = (now, p', c')" by (cases e) auto
  show ?thesis
  proof (cases "jm_get cs c'")
    case None
    then show ?thesis using e Some
      by (auto simp: allowance_in_def rate_step_def rate_allow_unknown allowance_of_def)
  next
    case other: (Some cfg')
    note known = rate_allow_known [OF other, of now p' s]
    show ?thesis
    proof (cases "p' = p \<and> c' = c")
      case True
      then show ?thesis
        using e known(2) Some other by (simp add: rate_step_def allowance_in_def allowance_of_def)
    next
      case False
      then have "bucket_key c p \<noteq> bucket_key c' p'"
        using bucket_key_inject configs_okD(1) [OF assms(1)] Some other by metis
      then show ?thesis using False e known(2) Some
        by (auto simp: rate_step_def allowance_in_def allowance_of_def)
    qed
  qed
qed

lemma RATE_LIMITS_ok [simp]: "configs_ok RATE_LIMITS"
  by (simp add: configs_ok_def RATE_LIMITS_def)

interpretation limited: metered "rate_step RATE_LIMITS" fst "\<lambda>e. snd e = (p, c)"
    "allowance_in RATE_LIMITS p c" rate_ok
    "ratePerSec (limit_of RATE_LIMITS c) / 1000" "rl_burst (limit_of RATE_LIMITS c)" for p c
proof
  fix s e
  show "rate_ok s \<Longrightarrow> rate_ok (snd (rate_step RATE_LIMITS e s))"
    by (auto simp: rate_step_def rate_ok_allow split: prod.splits)
  show "allowance_in RATE_LIMITS p c (snd (rate_step RATE_LIMITS e s)) (fst e)
         \<le> allowance_in RATE_LIMITS p c s (fst e) -
            (if fst (rate_step RATE_LIMITS e s) \<and> snd e = (p, c) then 1 else 0)" if "rate_ok s"
    by (rule rate_step_spend) (simp_all add: that)
next
  fix s t
  show "rate_ok s \<Longrightarrow> 0 \<le> allowance_in RATE_LIMITS p c s t"
    by (auto simp: allowance_in_def configs_okD(2,3) [OF RATE_LIMITS_ok] intro!: allowance_of_nonneg split: option.splits)
  show "allowance_in RATE_LIMITS p c s t \<le> rl_burst (limit_of RATE_LIMITS c)"
    by (simp add: allowance_in_def limit_of_def allowance_of_cap split: option.splits)
next
  fix s and t t' :: rat
  show "t \<le> t' \<Longrightarrow> allowance_in RATE_LIMITS p c s t' \<le>
       allowance_in RATE_LIMITS p c s t + ratePerSec (limit_of RATE_LIMITS c) / 1000 * (t' - t)"
    using allowance_of_grow [of "limit_of RATE_LIMITS c" t t' "bucket_key c p" s]
    by (cases "jm_get RATE_LIMITS c")
      (simp_all add: allowance_in_def limit_of_def configs_okD(3) [OF RATE_LIMITS_ok])
qed

fun rate_admitted :: "rate_configs \<Rightarrow> string \<Rightarrow> string \<Rightarrow> rate_event list \<Rightarrow> rate_state \<Rightarrow> nat" where
  "rate_admitted cs p c [] s = 0"
| "rate_admitted cs p c (e # es) s =
     (if fst (rate_step cs e s) \<and> snd e = (p, c) then 1 else 0) + rate_admitted cs p c es (snd (rate_step cs e s))"

lemma rate_admitted_eq: "rate_admitted RATE_LIMITS p c es s = limited.admitted p c es s"
  by (induction es arbitrary: s) simp_all

lemma rate_init_ok [simp]: "rate_ok rate_init"
  by (simp add: rate_ok_def rate_init_def)

text \<open>However the messages of all neighbours and categories interleave, what one neighbour gets
  admitted in one category over a window of time is at most the category's burst plus its rate times
  the window, so the inflow of a node is bounded by its number of connections.\<close>

theorem rate_limit_window:
  assumes "rate_ok s" "jm_get RATE_LIMITS c = Some cfg" "sorted (map fst es)"
    "\<forall>e \<in> set es. t0 \<le> fst e \<and> fst e \<le> t1" "t0 \<le> t1"
  shows "of_nat (rate_admitted RATE_LIMITS p c es s) \<le> rl_burst cfg + ratePerSec cfg / 1000 * (t1 - t0)"
  using limited.admitted_bound [of s es t0 t1 p c] assms by (simp add: rate_admitted_eq limit_of_def)

theorem rate_limit_window_witness:
  "of_nat (rate_admitted RATE_LIMITS ''p'' ''pex'' (replicate 9 (0, ''p'', ''pex'')) rate_init) \<le> (5 :: rat)"
  using rate_limit_window [of rate_init "''pex''" "\<lparr>ratePerSec = 1, rl_burst = 5\<rparr>"
      "replicate 9 (0, ''p'', ''pex'')" 0 0 "''p''"]
  by (simp add: RATE_LIMITS_def)

text \<open>A message of a category that is not in the table is refused (the limiter fails closed), and
  the refusal leaves every bucket as it was.\<close>

theorem rate_unknown_refused:
  assumes "jm_get cs c = None"
  shows "\<not> fst (rate_allow cs now p c s) \<and> rl_buckets (snd (rate_allow cs now p c s)) = rl_buckets s"
  using assms by (simp add: rate_allow_unknown)

theorem rate_unknown_refused_witness: "\<not> fst (rate_allow RATE_LIMITS 5 ''p'' ''constructor'' rate_init)"
  using rate_unknown_refused [of RATE_LIMITS "''constructor''" 5 "''p''" rate_init]
  by (simp add: RATE_LIMITS_def)

end
