(* ===== verification/Misbehavior.thy ===== *)
theory Misbehavior
  imports Prelude
begin

text \<open>
  \<open>packages/core/src/network/PeerMisbehaviorManager.ts\<close>: penalty scores with a half-life, and the
  bans they lead to. The lemmas show that no neighbour keeps a score at or above the threshold
  without being banned, that violations within one decay interval add up, and how long a ban lasts.
\<close>

subsection \<open>Violations, options and state\<close>

definition INVALID_SIGNATURE :: int where [simp]: "INVALID_SIGNATURE = 100"
definition INVALID_POW :: int where [simp]: "INVALID_POW = 100"
definition MALFORMED_WIRE :: int where [simp]: "MALFORMED_WIRE = 100"
definition RATE_LIMIT_EXCEEDED :: int where [simp]: "RATE_LIMIT_EXCEEDED = 25"
definition STEM_DROP_SUSPECTED :: int where [simp]: "STEM_DROP_SUSPECTED = 25"
definition DUPLICATE_FLOOD :: int where [simp]: "DUPLICATE_FLOOD = 15"
definition TIMEOUT :: int where [simp]: "TIMEOUT = 10"

record misbehavior_options =
  banThreshold :: int
  banDurationMs :: int
  decayIntervalMs :: int

definition default_options :: misbehavior_options where
  "default_options =
     \<lparr>banThreshold = 100, banDurationMs = 60 * 60 * 1000, decayIntervalMs = 10 * 60 * 1000\<rparr>"

record peer_score =
  score :: int
  lastUpdated :: int

record misbehavior =
  scores :: "(peer_id, peer_score) jsmap"
  bannedPeers :: "(peer_id, int) jsmap"

definition misbehavior_init :: misbehavior where
  "misbehavior_init = \<lparr>scores = [], bannedPeers = []\<rparr>"

subsection \<open>Operations\<close>

definition isBanned :: "int \<Rightarrow> peer_id \<Rightarrow> misbehavior \<Rightarrow> bool \<times> misbehavior" where
  "isBanned now p s =
     (case jm_get (bannedPeers s) p of
        None \<Rightarrow> (False, s)
      | Some expiry \<Rightarrow>
          if now \<ge> expiry
          then (False, s\<lparr>bannedPeers := jm_del p (bannedPeers s), scores := jm_del p (scores s)\<rparr>)
          else (True, s))"

definition getScore :: "misbehavior_options \<Rightarrow> int \<Rightarrow> peer_id \<Rightarrow> misbehavior \<Rightarrow> int \<times> misbehavior" where
  "getScore opts now p s =
     (case jm_get (scores s) p of
        None \<Rightarrow> (0, s)
      | Some r \<Rightarrow>
          (let elapsed = now - lastUpdated r in
           if elapsed < decayIntervalMs opts then (score r, s)
           else
             (let halfLifeCount = elapsed div decayIntervalMs opts;
                  decayedScore = score r div 2 ^ nat halfLifeCount in
              if decayedScore \<le> 0 then (0, s\<lparr>scores := jm_del p (scores s)\<rparr>)
              else (decayedScore,
                    s\<lparr>scores := jm_set p \<lparr>score = decayedScore, lastUpdated = now\<rparr> (scores s)\<rparr>))))"

definition banPeer :: "int \<Rightarrow> peer_id \<Rightarrow> int \<Rightarrow> misbehavior \<Rightarrow> misbehavior" where
  "banPeer now p durationMs s =
     s\<lparr>bannedPeers := jm_set p (now + durationMs) (bannedPeers s), scores := jm_del p (scores s)\<rparr>"

definition recordViolation ::
  "misbehavior_options \<Rightarrow> int \<Rightarrow> peer_id \<Rightarrow> int \<Rightarrow> misbehavior \<Rightarrow> bool \<times> misbehavior" where
  "recordViolation opts now p violation s =
     (let (banned, s1) = isBanned now p s in
      if banned then (True, s1)
      else
        (let (currentScore, s2) = getScore opts now p s1;
             newScore = currentScore + violation;
             s3 = s2\<lparr>scores := jm_set p \<lparr>score = newScore, lastUpdated = now\<rparr> (scores s2)\<rparr> in
         if newScore \<ge> banThreshold opts then (True, banPeer now p (banDurationMs opts) s3)
         else (False, s3)))"

definition unbanPeer :: "peer_id \<Rightarrow> misbehavior \<Rightarrow> misbehavior" where
  "unbanPeer p s = s\<lparr>bannedPeers := jm_del p (bannedPeers s), scores := jm_del p (scores s)\<rparr>"

definition misbehavior_clear :: "misbehavior \<Rightarrow> misbehavior" where
  "misbehavior_clear s = s\<lparr>scores := [], bannedPeers := []\<rparr>"

subsection \<open>The invariant\<close>

definition options_ok :: "misbehavior_options \<Rightarrow> bool" where
  "options_ok opts \<longleftrightarrow> 0 < banThreshold opts \<and> 0 < banDurationMs opts \<and> 0 < decayIntervalMs opts"

text \<open>Whoever has a score is below the threshold, and has no ban on record.\<close>

definition misbehavior_ok :: "misbehavior_options \<Rightarrow> misbehavior \<Rightarrow> bool" where
  "misbehavior_ok opts s \<longleftrightarrow>
     (\<forall>p r. jm_get (scores s) p = Some r \<longrightarrow>
        score r < banThreshold opts \<and> jm_get (bannedPeers s) p = None)"

lemma misbehavior_okD:
  assumes "misbehavior_ok opts s" "jm_get (scores s) p = Some r"
  shows "score r < banThreshold opts" "jm_get (bannedPeers s) p = None"
  using assms by (auto simp: misbehavior_ok_def)

lemma default_options_ok [simp]: "options_ok default_options"
  by (simp add: options_ok_def default_options_def)

lemma misbehavior_init_ok [wf_intro]: "misbehavior_ok opts misbehavior_init"
  by (simp add: misbehavior_ok_def misbehavior_init_def)

lemma isBanned_ok [wf_intro]: "misbehavior_ok opts s \<Longrightarrow> misbehavior_ok opts (snd (isBanned now p s))"
  by (auto simp: misbehavior_ok_def isBanned_def split: option.splits)

lemma isBanned_False:
  assumes "isBanned now p s = (False, s1)"
  shows "jm_get (bannedPeers s1) p = None"
  using assms by (auto simp: isBanned_def split: option.splits if_splits)

lemma isBanned_iff: "fst (isBanned now p s) \<longleftrightarrow> (\<exists>t. jm_get (bannedPeers s) p = Some t \<and> now < t)"
  by (auto simp: isBanned_def split: option.splits)

lemma getScore_banned [simp]: "bannedPeers (snd (getScore opts now p s)) = bannedPeers s"
  by (simp add: getScore_def Let_def split: option.split)

lemma div_two_power_le: "0 \<le> x \<Longrightarrow> x div 2 ^ n \<le> (x :: int)"
  using zdiv_mono2 [of x 1 "2 ^ n"] by simp

text \<open>Decay never raises a positive score, and removes it or keeps it with the ban list untouched.\<close>

lemma getScore_cases:
  obtains "jm_get (scores s) p = None" "getScore opts now p s = (0, s)"
  | r where "jm_get (scores s) p = Some r" "now - lastUpdated r < decayIntervalMs opts"
      "getScore opts now p s = (score r, s)"
  | r where "jm_get (scores s) p = Some r" "getScore opts now p s = (0, s\<lparr>scores := jm_del p (scores s)\<rparr>)"
  | r d t where "jm_get (scores s) p = Some r" "0 < d" "0 \<le> score r \<Longrightarrow> d \<le> score r" "0 \<le> score r"
      "getScore opts now p s = (d, s\<lparr>scores := jm_set p \<lparr>score = d, lastUpdated = t\<rparr> (scores s)\<rparr>)"
proof (cases "jm_get (scores s) p")
  case None
  then show thesis by (intro that(1)) (simp_all add: getScore_def)
next
  case (Some r)
  let ?k = "nat ((now - lastUpdated r) div decayIntervalMs opts)"
  consider "now - lastUpdated r < decayIntervalMs opts"
    | "\<not> now - lastUpdated r < decayIntervalMs opts" "score r div 2 ^ ?k \<le> 0"
    | "\<not> now - lastUpdated r < decayIntervalMs opts" "0 < score r div 2 ^ ?k" by linarith
  then show thesis
  proof cases
    case 1
    then show ?thesis using Some by (intro that(2)) (simp_all add: getScore_def)
  next
    case 2
    then show ?thesis using Some by (intro that(3)) (simp_all add: getScore_def)
  next
    case 3
    then have "0 \<le> score r" by (metis div_neg_pos_less0 not_le order_less_asym zero_less_numeral zero_less_power)
    with 3 show ?thesis using Some div_two_power_le [of "score r" ?k]
      by (intro that(4) [of r "score r div 2 ^ ?k" now]) (simp_all add: getScore_def Let_def)
  qed
qed

lemma getScore_ok [wf_intro]:
  assumes "misbehavior_ok opts s"
  shows "misbehavior_ok opts (snd (getScore opts now p s))"
  using assms by (cases rule: getScore_cases [of s p opts now])
    (auto simp: misbehavior_ok_def intro: le_less_trans)

lemma banPeer_ok [wf_intro]: "misbehavior_ok opts s \<Longrightarrow> misbehavior_ok opts (banPeer now p d s)"
  by (auto simp: misbehavior_ok_def banPeer_def)

lemma unbanPeer_ok [wf_intro]: "misbehavior_ok opts s \<Longrightarrow> misbehavior_ok opts (unbanPeer p s)"
  by (auto simp: misbehavior_ok_def unbanPeer_def)

text \<open>The shape of a recorded violation, whatever the earlier state.\<close>

lemma recordViolation_cases:
  obtains "fst (isBanned now p s)" "recordViolation opts now p v s = (True, s)"
  | c s1 where "\<not> fst (isBanned now p s)" "getScore opts now p (snd (isBanned now p s)) = (c, s1)"
      "banThreshold opts \<le> c + v"
      "recordViolation opts now p v s =
         (True, banPeer now p (banDurationMs opts) (s1\<lparr>scores := jm_set p \<lparr>score = c + v, lastUpdated = now\<rparr> (scores s1)\<rparr>))"
  | c s1 where "\<not> fst (isBanned now p s)" "getScore opts now p (snd (isBanned now p s)) = (c, s1)"
      "c + v < banThreshold opts"
      "recordViolation opts now p v s =
         (False, s1\<lparr>scores := jm_set p \<lparr>score = c + v, lastUpdated = now\<rparr> (scores s1)\<rparr>)"
proof (cases "fst (isBanned now p s)")
  case True
  then have "isBanned now p s = (True, s)" by (auto simp: isBanned_def split: option.splits if_splits)
  then show thesis by (intro that(1)) (simp_all add: recordViolation_def)
next
  case False
  then obtain s0 where s0: "isBanned now p s = (False, s0)" by (cases "isBanned now p s") auto
  obtain c s1 where g: "getScore opts now p s0 = (c, s1)" by force
  show thesis
  proof (cases "banThreshold opts \<le> c + v")
    case True
    then show thesis using False s0 g by (intro that(2)) (simp_all add: recordViolation_def)
  next
    case below: False
    then show thesis using False s0 g by (intro that(3)) (simp_all add: recordViolation_def)
  qed
qed

lemma recordViolation_ok [wf_intro]:
  assumes "misbehavior_ok opts s"
  shows "misbehavior_ok opts (snd (recordViolation opts now p v s))"
proof (cases rule: recordViolation_cases [of now p s opts v])
  case 1
  then show ?thesis using assms by simp
next
  case (2 c s1)
  have "misbehavior_ok opts s1" using getScore_ok [OF isBanned_ok [OF assms]] 2(2) by (metis snd_conv)
  then show ?thesis using 2(4) by (auto simp: misbehavior_ok_def banPeer_def)
next
  case (3 c s1)
  have "misbehavior_ok opts s1" using getScore_ok [OF isBanned_ok [OF assms]] 3(2) by (metis snd_conv)
  moreover have "jm_get (bannedPeers s1) p = None"
    using 3(1,2) isBanned_False [of now p s "snd (isBanned now p s)"] getScore_banned [of opts now p "snd (isBanned now p s)"]
    by (cases "isBanned now p s") auto
  ultimately show ?thesis using 3(3,4) by (auto simp: misbehavior_ok_def)
qed

subsection \<open>What recorded violations lead to\<close>

text \<open>Recording a list of timed violations of one neighbour.\<close>

definition record_all :: "misbehavior_options \<Rightarrow> peer_id \<Rightarrow> (int \<times> int) list \<Rightarrow> misbehavior \<Rightarrow> misbehavior" where
  "record_all opts p = fold (\<lambda>(now, v) s. snd (recordViolation opts now p v s))"

lemma recordViolation_adds:
  assumes "jm_get (bannedPeers s) p = None"
    "(jm_get (scores s) p = None \<and> a = 0) \<or>
     (\<exists>r. jm_get (scores s) p = Some r \<and> score r = a \<and> now - lastUpdated r < decayIntervalMs opts)"
  shows "if banThreshold opts \<le> a + v
    then jm_get (bannedPeers (snd (recordViolation opts now p v s))) p = Some (now + banDurationMs opts)
    else jm_get (bannedPeers (snd (recordViolation opts now p v s))) p = None \<and>
         jm_get (scores (snd (recordViolation opts now p v s))) p = Some \<lparr>score = a + v, lastUpdated = now\<rparr>"
proof -
  have b: "isBanned now p s = (False, s)" using assms(1) by (simp add: isBanned_def)
  have g: "getScore opts now p s = (a, s)" using assms(2) by (auto simp: getScore_def)
  show ?thesis using assms(1) by (simp add: recordViolation_def b g banPeer_def)
qed

lemma record_all_banned:
  assumes "\<exists>t. jm_get (bannedPeers s) p = Some t \<and> t1 < t" "\<forall>(now, v) \<in> set vs. now \<le> t1"
  shows "record_all opts p vs s = s"
  using assms
proof (induction vs)
  case (Cons x vs)
  obtain now v where x: "x = (now, v)" by force
  have "isBanned now p s = (True, s)" using Cons.prems x by (auto simp: isBanned_def)
  then show ?case using Cons x by (simp add: record_all_def recordViolation_def)
qed (simp add: record_all_def)

lemma record_all_sum:
  assumes "options_ok opts" "jm_get (bannedPeers s) p = None"
    "(jm_get (scores s) p = None \<and> a = 0) \<or>
     (\<exists>r. jm_get (scores s) p = Some r \<and> score r = a \<and> t0 \<le> lastUpdated r)"
    "\<forall>(now, v) \<in> set vs. t0 \<le> now \<and> now \<le> t1 \<and> 0 \<le> v"
    "t1 - t0 < decayIntervalMs opts" "t1 - t0 < banDurationMs opts" "vs \<noteq> []"
    "banThreshold opts \<le> a + sum_list (map snd vs)" "a < banThreshold opts"
  shows "\<exists>t. jm_get (bannedPeers (record_all opts p vs s)) p = Some t \<and> t1 < t"
  using assms
proof (induction vs arbitrary: s a)
  case (Cons x vs)
  obtain now v where x: "x = (now, v)" by force
  let ?s = "snd (recordViolation opts now p v s)"
  have now: "t0 \<le> now" "now \<le> t1" and rest: "\<forall>(now, v) \<in> set vs. t0 \<le> now \<and> now \<le> t1 \<and> 0 \<le> v"
    using Cons.prems(4) x by auto
  have "(jm_get (scores s) p = None \<and> a = 0) \<or>
     (\<exists>r. jm_get (scores s) p = Some r \<and> score r = a \<and> now - lastUpdated r < decayIntervalMs opts)"
    using Cons.prems(3,5) now by force
  note add = recordViolation_adds [OF Cons.prems(2) this, of v]
  have step: "record_all opts p (x # vs) s = record_all opts p vs ?s" using x by (simp add: record_all_def)
  show ?case
  proof (cases "banThreshold opts \<le> a + v")
    case True
    then have b: "jm_get (bannedPeers ?s) p = Some (now + banDurationMs opts)" using add by simp
    have "t1 < now + banDurationMs opts" using Cons.prems(6) now by linarith
    then have "record_all opts p vs ?s = ?s" using b rest by (intro record_all_banned [of _ _ t1]) auto
    then show ?thesis using b \<open>t1 < _\<close> step by simp
  next
    case False
    then have s: "jm_get (bannedPeers ?s) p = None"
      "jm_get (scores ?s) p = Some \<lparr>score = a + v, lastUpdated = now\<rparr>" using add by simp_all
    have "vs \<noteq> []" using False Cons.prems(8) x by auto
    moreover have "banThreshold opts \<le> a + v + sum_list (map snd vs)" using Cons.prems(8) x by simp
    ultimately show ?thesis using Cons.IH [of ?s "a + v"] s now rest Cons.prems(1,5,6) False step by simp
  qed
qed simp

text \<open>Violations by one neighbour whose penalties reach the threshold within one decay interval
  get it banned, however they are split up; and in every state reached no neighbour carries an
  unbanned score at or above the threshold.\<close>

theorem violations_lead_to_ban:
  assumes "options_ok opts" "misbehavior_ok opts s"
    "jm_get (bannedPeers s) p = None" "jm_get (scores s) p = None"
    "\<forall>(now, v) \<in> set vs. t0 \<le> now \<and> now \<le> t1 \<and> 0 \<le> v"
    "t1 - t0 < decayIntervalMs opts" "t1 - t0 < banDurationMs opts"
    "banThreshold opts \<le> sum_list (map snd vs)"
  shows "fst (isBanned t1 p (record_all opts p vs s)) \<and> misbehavior_ok opts (record_all opts p vs s)"
proof -
  have ne: "vs \<noteq> []" using assms(1,8) by (auto simp: options_ok_def)
  have "misbehavior_ok opts (record_all opts p vs s)"
    using assms(2) by (induction vs arbitrary: s) (auto simp: record_all_def recordViolation_ok)
  moreover have "fst (isBanned t1 p (record_all opts p vs s))"
    using record_all_sum [of opts s p 0 t0 vs t1] assms ne by (simp add: isBanned_iff options_ok_def)
  ultimately show ?thesis by simp
qed

theorem violations_lead_to_ban_witness:
  "fst (isBanned 40 ''p'' (record_all default_options ''p'' [(10, 25), (20, 25), (30, 25), (40, 25)] misbehavior_init))"
  using violations_lead_to_ban [of default_options misbehavior_init "''p''" "[(10, 25), (20, 25), (30, 25), (40, 25)]" 10 40]
  by (simp add: misbehavior_init_ok) (simp add: misbehavior_init_def default_options_def)

lemma ban_lasts:
  "fst (isBanned now' p (banPeer now p d s)) \<longleftrightarrow> now' < now + d"
  by (auto simp: isBanned_iff banPeer_def)

lemma ban_expiry_clears:
  assumes "now + d \<le> now'"
  shows "snd (isBanned now' p (banPeer now p d s)) =
    s\<lparr>bannedPeers := jm_del p (jm_set p (now + d) (bannedPeers s)), scores := jm_del p (jm_del p (scores s))\<rparr>"
  using assms by (simp add: isBanned_def banPeer_def)

end
