(* ===== verification/PeerManager.thy ===== *)
theory PeerManager
  imports Peer RateLimiter Misbehavior "HOL-Library.Product_Lexorder"
begin

text \<open>
  \<open>packages/core/src/network/PeerManager.ts\<close> (with \<open>RingPosition.ts\<close> and the constants of the mesh):
  connections, the HELLO/JOIN handshake, signalling relays, admission of received frames and the
  eviction of neighbours. Calls of the browser, the tracker, the dispatcher and listeners are returned
  as a list of effects; timers and callbacks are operations of their own, and name the connection they
  were made for. The lemmas show that the state stays bounded, that a neighbour is trusted only after
  proving the identity it is listed under, that nothing else gets past the door, and which links
  eviction may not touch.
\<close>

subsection \<open>Constants and tables\<close>

definition LOCAL_LINKS :: nat where [simp]: "LOCAL_LINKS = 4"
definition MAX_DEGREE :: nat where [simp]: "MAX_DEGREE = 16"
definition OUTBOUND_TARGET :: nat where [simp]: "OUTBOUND_TARGET = 8"
definition MAX_PENDING_PEERS :: nat where [simp]: "MAX_PENDING_PEERS = 8"
definition MAX_SIGNALS_PER_SENDER :: nat where [simp]: "MAX_SIGNALS_PER_SENDER = 32"
definition MAX_SIGNAL_SENDERS :: nat where [simp]: "MAX_SIGNAL_SENDERS = 32"
definition DEFAULT_MAX_FRAME_BYTES :: nat where [simp]: "DEFAULT_MAX_FRAME_BYTES = 1024 * 1024"

definition ring_distance :: "rat \<Rightarrow> rat \<Rightarrow> rat" where
  "ring_distance a b = (let d = \<bar>a - b\<bar> in min d (1 - d))"

definition is_peer_id :: "string \<Rightarrow> bool" where
  "is_peer_id = hex_re 32"

fun RATE_CATEGORY :: "wire_type \<Rightarrow> string" where
  "RATE_CATEGORY HELLO = ''handshake''"
| "RATE_CATEGORY JOIN = ''handshake''"
| "RATE_CATEGORY RING_INFO = ''control''"
| "RATE_CATEGORY PING = ''control''"
| "RATE_CATEGORY PONG = ''control''"
| "RATE_CATEGORY LOCAL_LINK_REQ = ''control''"
| "RATE_CATEGORY LOCAL_LINK_ACK = ''control''"
| "RATE_CATEGORY LOCAL_LINK_REJ = ''control''"
| "RATE_CATEGORY GOSSIP = ''gossip''"
| "RATE_CATEGORY STEM = ''gossip''"
| "RATE_CATEGORY HINT = ''gossip''"
| "RATE_CATEGORY HINT_STEM = ''gossip''"
| "RATE_CATEGORY ONION_STEM = ''onion''"
| "RATE_CATEGORY DHT_PUT = ''dhtPut''"
| "RATE_CATEGORY DHT_PUT_STEM = ''dhtPut''"
| "RATE_CATEGORY DHT_GET = ''dhtGet''"
| "RATE_CATEGORY DHT_RES = ''dhtGet''"
| "RATE_CATEGORY PEX_REQUEST = ''pex''"
| "RATE_CATEGORY PEX_RESPONSE = ''pex''"
| "RATE_CATEGORY SDP_RELAY = ''signaling''"
| "RATE_CATEGORY ICE_RELAY = ''signaling''"
| "RATE_CATEGORY UNKNOWN = ''unknown''"

definition PRE_HANDSHAKE_TYPES :: "wire_type list" where
  "PRE_HANDSHAKE_TYPES = [HELLO, JOIN]"

fun MAX_FRAME_BYTES :: "wire_type \<Rightarrow> nat option" where
  "MAX_FRAME_BYTES HELLO = Some 256"
| "MAX_FRAME_BYTES JOIN = Some 1024"
| "MAX_FRAME_BYTES PING = Some 256"
| "MAX_FRAME_BYTES PONG = Some 256"
| "MAX_FRAME_BYTES ONION_STEM = Some 4096"
| "MAX_FRAME_BYTES GOSSIP = Some (8 * 1024)"
| "MAX_FRAME_BYTES STEM = Some (8 * 1024)"
| "MAX_FRAME_BYTES HINT = Some 1024"
| "MAX_FRAME_BYTES HINT_STEM = Some 1024"
| "MAX_FRAME_BYTES PEX_REQUEST = Some 256"
| "MAX_FRAME_BYTES PEX_RESPONSE = Some 4096"
| "MAX_FRAME_BYTES SDP_RELAY = Some (16 * 1024)"
| "MAX_FRAME_BYTES ICE_RELAY = Some 4096"
| "MAX_FRAME_BYTES DHT_GET = Some 1024"
| "MAX_FRAME_BYTES _ = None"

definition frame_limit :: "bytes \<Rightarrow> nat" where
  "frame_limit bs =
     (case bs of
        [] \<Rightarrow> DEFAULT_MAX_FRAME_BYTES
      | b # _ \<Rightarrow>
          (case known_wire_type b of
             None \<Rightarrow> DEFAULT_MAX_FRAME_BYTES
           | Some t \<Rightarrow> (case MAX_FRAME_BYTES t of None \<Rightarrow> DEFAULT_MAX_FRAME_BYTES | Some n \<Rightarrow> n)))"

subsection \<open>State and effects\<close>

record pm_config =
  pc_S :: sodium
  pc_M :: msgpack
  pc_identity :: node_identity
  pc_pow :: node_id_pow_params
  pc_allowMissing :: bool
  pc_rates :: rate_configs
  pc_misopts :: misbehavior_options

abbreviation my_peer_id :: "pm_config \<Rightarrow> peer_id" where
  "my_peer_id c \<equiv> nid_peerId (pc_identity c)"

record peer_manager =
  pm_peers :: "(peer_id, wpeer) jsmap"
  pm_pexRoutes :: "(peer_id, peer_id) jsmap"
  pm_pendingSignals :: "(peer_id, jsval list) jsmap"
  pm_coolDowns :: "(peer_id, int) jsmap"
  pm_limiter :: rate_state
  pm_misbehavior :: misbehavior
  pm_reannounce :: bool
  pm_detach :: bool
  pm_stopped :: bool
  pm_seenGroups :: "string list"
  pm_next :: nat

definition pm_init :: peer_manager where
  "pm_init =
     \<lparr>pm_peers = [], pm_pexRoutes = [], pm_pendingSignals = [], pm_coolDowns = [], pm_limiter = rate_init,
      pm_misbehavior = misbehavior_init, pm_reannounce = False, pm_detach = False, pm_stopped = False,
      pm_seenGroups = [], pm_next = 0\<rparr>"

datatype pm_effect =
    OpenPeer peer_id nat direction
  | ClosePeer peer_id nat
  | SignalPeer peer_id nat jsval
  | SendFrame peer_id nat bytes
  | TrackerRelay peer_id jsval
  | TrackerConnect
  | TrackerDisconnect
  | ResolveGroup peer_id nat
  | Deliver peer_id wire_type jsval
  | PeerConnected peer_id
  | PeerVerified peer_id
  | PeerDisconnected peer_id
  | PeerData peer_id bytes

type_synonym pm_step = "pm_effect list \<times> peer_manager"

subsection \<open>Queries\<close>

definition outboundCount :: "peer_manager \<Rightarrow> nat" where
  "outboundCount s = length (filter (\<lambda>(_, w). wp_direction w = Outbound) (pm_peers s))"

definition pendingCount :: "peer_manager \<Rightarrow> nat" where
  "pendingCount s = length (filter (\<lambda>(_, w). \<not> wp_verified w) (pm_peers s))"

definition degree :: "peer_manager \<Rightarrow> nat" where
  "degree s = length (filter (\<lambda>(_, w). wp_connected w) (pm_peers s))"

definition verifiedPeers :: "peer_manager \<Rightarrow> (peer_id \<times> wpeer) list" where
  "verifiedPeers s = filter (\<lambda>(_, w). wp_connected w \<and> wp_verified w) (pm_peers s)"

definition verifiedPeersWithKeys :: "peer_manager \<Rightarrow> (peer_id \<times> bytes) list" where
  "verifiedPeersWithKeys s =
     map (\<lambda>(p, w). (p, the (wp_pubkey w))) (filter (\<lambda>(_, w). wp_pubkey w \<noteq> None) (verifiedPeers s))"

definition banned_now :: "int \<Rightarrow> peer_id \<Rightarrow> peer_manager \<Rightarrow> bool \<times> peer_manager" where
  "banned_now now p s = (let (b, m) = isBanned now p (pm_misbehavior s) in (b, s\<lparr>pm_misbehavior := m\<rparr>))"

subsection \<open>Sending and disconnecting\<close>

definition sendMessage :: "pm_config \<Rightarrow> peer_id \<Rightarrow> wire_type \<Rightarrow> jsval \<Rightarrow> peer_manager \<Rightarrow> pm_effect list" where
  "sendMessage c p t payload s =
     (case jm_get (pm_peers s) p of
        Some w \<Rightarrow> if wp_connected w then [SendFrame p (wp_conn w) (wire_encode (pc_M c) t payload)] else []
      | None \<Rightarrow> [])"

definition pm_disconnect :: "peer_id \<Rightarrow> peer_manager \<Rightarrow> pm_step" where
  "pm_disconnect p s =
     (case jm_get (pm_peers s) p of
        None \<Rightarrow> ([], s)
      | Some w \<Rightarrow>
          ([ClosePeer p (wp_conn w), PeerDisconnected p],
           s\<lparr>pm_peers := jm_del p (pm_peers s), pm_pexRoutes := jm_del p (pm_pexRoutes s),
             pm_pendingSignals := jm_del p (pm_pendingSignals s), pm_limiter := rate_forget p (pm_limiter s)\<rparr>))"

definition pm_broadcast :: "bytes \<Rightarrow> peer_manager \<Rightarrow> pm_effect list" where
  "pm_broadcast msg s =
     map (\<lambda>(p, w). SendFrame p (wp_conn w) msg) (filter (\<lambda>(_, w). wp_connected w) (pm_peers s))"

text \<open>An update of the connection \<open>conn\<close>, if it is still the one registered for \<open>p\<close>.\<close>

definition update_conn :: "peer_id \<Rightarrow> nat \<Rightarrow> (wpeer \<Rightarrow> wpeer) \<Rightarrow> peer_manager \<Rightarrow> peer_manager" where
  "update_conn p conn f s =
     (case jm_get (pm_peers s) p of
        Some w \<Rightarrow> if wp_conn w = conn then s\<lparr>pm_peers := jm_set p (f w) (pm_peers s)\<rparr> else s
      | None \<Rightarrow> s)"

definition isStillCurrent :: "peer_id \<Rightarrow> nat \<Rightarrow> peer_manager \<Rightarrow> bool" where
  "isStillCurrent p conn s = (case jm_get (pm_peers s) p of Some w \<Rightarrow> wp_conn w = conn | None \<Rightarrow> False)"

subsection \<open>Connecting\<close>

definition open_fresh :: "peer_id \<Rightarrow> bool \<Rightarrow> peer_id option \<Rightarrow> peer_manager \<Rightarrow> nat option \<times> pm_step" where
  "open_fresh p initiator via s =
     (if pendingCount s \<ge> MAX_PENDING_PEERS then (None, [], s)
      else
        (let conn = pm_next s; w = wp_new conn initiator in
         (Some conn, [OpenPeer p conn (wp_direction w)],
          s\<lparr>pm_pexRoutes := (case via of None \<Rightarrow> pm_pexRoutes s
                              | Some v \<Rightarrow> if v = [] then pm_pexRoutes s else jm_set p v (pm_pexRoutes s)),
            pm_peers := jm_set p w (pm_peers s), pm_next := conn + 1\<rparr>)))"

text \<open>\<open>connect\<close> once a stale connection has been cleared: the cool-down, then the limit on handshakes.\<close>

definition open_connection ::
  "int \<Rightarrow> peer_id \<Rightarrow> bool \<Rightarrow> peer_id option \<Rightarrow> peer_manager \<Rightarrow> nat option \<times> pm_step" where
  "open_connection now p initiator via s =
     (case jm_get (pm_coolDowns s) p of
        Some t \<Rightarrow>
          if t \<noteq> 0 \<and> now - t < 30000 then (None, [], s)
          else open_fresh p initiator via (if t \<noteq> 0 then s\<lparr>pm_coolDowns := jm_del p (pm_coolDowns s)\<rparr> else s)
      | None \<Rightarrow> open_fresh p initiator via s)"

definition connect ::
  "pm_config \<Rightarrow> int \<Rightarrow> peer_id \<Rightarrow> bool \<Rightarrow> peer_id option \<Rightarrow> peer_manager \<Rightarrow> nat option \<times> pm_step" where
  "connect c now p initiator via s =
     (if pm_stopped s then (None, [], s)
      else
        (let (banned, s1) = banned_now now p s in
         if banned then (None, [], s1)
         else if \<not> is_peer_id p then (None, [], s1)
         else if p = my_peer_id c then (None, [], s1)
         else
           (case jm_get (pm_peers s1) p of
              Some w \<Rightarrow>
                if wp_connected w \<or> wp_connecting w then (Some (wp_conn w), [], s1)
                else
                  (let (e1, s2) = pm_disconnect p s1; (r, e2, s3) = open_connection now p initiator via s2 in
                   (r, e1 @ e2, s3))
            | None \<Rightarrow> open_connection now p initiator via s1)))"

fun handleTrackerPeers_loop :: "pm_config \<Rightarrow> int \<Rightarrow> jsval list \<Rightarrow> peer_manager \<Rightarrow> pm_step" where
  "handleTrackerPeers_loop c now [] s = ([], s)"
| "handleTrackerPeers_loop c now (v # vs) s =
     (case jget v ''peerId'' of
        JStr p \<Rightarrow>
          if \<not> jm_has (pm_peers s) p \<and> degree s < MAX_DEGREE then
            (let (_, e1, s1) = connect c now p True None s; (e2, s2) = handleTrackerPeers_loop c now vs s1 in
             (e1 @ e2, s2))
          else handleTrackerPeers_loop c now vs s
      | _ \<Rightarrow> handleTrackerPeers_loop c now vs s)"

definition handleTrackerPeers :: "pm_config \<Rightarrow> int \<Rightarrow> jsval \<Rightarrow> peer_manager \<Rightarrow> pm_step" where
  "handleTrackerPeers c now peers s =
     (if pm_stopped s then ([], s)
      else (case peers of JArr vs \<Rightarrow> handleTrackerPeers_loop c now vs s | _ \<Rightarrow> ([], s)))"

subsection \<open>Signalling\<close>

text \<open>A signal of an unknown sender that opens no session is buffered: at most so many per sender, from at
  most so many senders, the oldest sender making room.\<close>

definition buffer_push :: "peer_id \<Rightarrow> jsval \<Rightarrow> peer_manager \<Rightarrow> peer_manager" where
  "buffer_push sender msg s =
     (let buffered = (case jm_get (pm_pendingSignals s) sender of None \<Rightarrow> [] | Some b \<Rightarrow> b) in
      if length buffered \<ge> MAX_SIGNALS_PER_SENDER then s
      else
        (let ps = (if \<not> jm_has (pm_pendingSignals s) sender \<and> length (pm_pendingSignals s) \<ge> MAX_SIGNAL_SENDERS
                   then jm_drop_oldest (pm_pendingSignals s) else pm_pendingSignals s) in
         s\<lparr>pm_pendingSignals := jm_set sender (buffered @ [msg]) ps\<rparr>))"

definition buffer_signal :: "int \<Rightarrow> peer_id \<Rightarrow> jsval \<Rightarrow> peer_manager \<Rightarrow> peer_manager" where
  "buffer_signal now sender msg s =
     (case jm_get (pm_coolDowns s) sender of
        Some t \<Rightarrow> if now - t < 30000 then s else buffer_push sender msg s
      | None \<Rightarrow> buffer_push sender msg s)"

text \<open>A relayed signal for a sender that has a connection, or may get one.\<close>

definition relay_signal ::
  "pm_config \<Rightarrow> int \<Rightarrow> peer_id \<Rightarrow> jsval \<Rightarrow> peer_id option \<Rightarrow> peer_manager \<Rightarrow> pm_step" where
  "relay_signal c now sender msg via s =
     (case jm_get (pm_peers s) sender of
        Some w \<Rightarrow> ([SignalPeer sender (wp_conn w) msg], s)
      | None \<Rightarrow>
          if jget (jget msg ''sdp'') ''type'' = JStr ''offer'' \<or> jget msg ''type'' = JStr ''offer'' \<or>
            jget msg ''type'' = JStr ''sdp-relay''
          then
            (case connect c now sender False via s of
               (None, e1, s1) \<Rightarrow> (e1, s1)
             | (Some conn, e1, s1) \<Rightarrow>
                 (e1 @ SignalPeer sender conn msg #
                    map (SignalPeer sender conn) (case jm_get (pm_pendingSignals s1) sender of None \<Rightarrow> [] | Some b \<Rightarrow> b),
                  s1\<lparr>pm_pendingSignals := jm_del sender (pm_pendingSignals s1)\<rparr>))
          else ([], buffer_signal now sender msg s))"

definition handleRelay ::
  "pm_config \<Rightarrow> int \<Rightarrow> peer_id \<Rightarrow> jsval \<Rightarrow> peer_id option \<Rightarrow> peer_manager \<Rightarrow> pm_step" where
  "handleRelay c now sender msg via s =
     (if pm_stopped s then ([], s)
      else
        (let (banned, s1) = banned_now now sender s in
         if banned then ([], s1)
         else if \<not> is_peer_id sender then ([], s1)
         else
           (case (jget (jget msg ''sdp'') ''type'' = JStr ''offer'', jm_get (pm_peers s1) sender) of
              (True, Some w) \<Rightarrow>
                if wp_verified w \<and> wp_connected w then ([], s1)
                else
                  (let (e1, s2) = pm_disconnect sender s1; s3 = s2\<lparr>pm_coolDowns := jm_del sender (pm_coolDowns s2)\<rparr>;
                       (e2, s4) = relay_signal c now sender msg via s3 in
                   (e1 @ e2, s4))
            | _ \<Rightarrow> relay_signal c now sender msg via s1)))"

text \<open>The SDP and ICE relays between neighbours: for this node, or to be passed on.\<close>

definition on_relay_message :: "pm_config \<Rightarrow> int \<Rightarrow> peer_id \<Rightarrow> wire_type \<Rightarrow> jsval \<Rightarrow> peer_manager \<Rightarrow> pm_step" where
  "on_relay_message c now p t msg s =
     (if jget msg ''targetPeerId'' = JStr (my_peer_id c) then
        (case jget msg ''senderId'' of
           JStr sender \<Rightarrow> if is_peer_id sender then handleRelay c now sender msg (Some p) s else ([], s)
         | _ \<Rightarrow> ([], s))
      else
        (case jget msg ''targetPeerId'' of
           JStr target \<Rightarrow> if jm_has (pm_peers s) target then (sendMessage c target t msg s, s) else ([], s)
         | _ \<Rightarrow> ([], s)))"

text \<open>\<open>onSignal\<close>: a local description or candidate goes out over the neighbour that introduced the peer,
  or over the tracker.\<close>

definition onSignal :: "pm_config \<Rightarrow> peer_id \<Rightarrow> jsval \<Rightarrow> peer_manager \<Rightarrow> pm_effect list" where
  "onSignal c p payload s =
     (let ty = jget payload ''type'';
          relay = (if truthy (jget payload ''renegotiate'') \<or> ty \<in> {JStr ''offer'', JStr ''answer'', JStr ''rollback''} then
                     Some (SDP_RELAY, JObj [(''type'', JStr ''sdp-relay''), (''targetPeerId'', JStr p),
                       (''senderId'', JStr (my_peer_id c)), (''sdp'', JObj [(''type'', ty), (''sdp'', jget payload ''sdp'')])])
                   else if truthy (jget payload ''candidate'') then
                     Some (ICE_RELAY, JObj [(''type'', JStr ''ice-relay''), (''targetPeerId'', JStr p),
                       (''senderId'', JStr (my_peer_id c)), (''candidate'', payload)])
                   else None) in
      case relay of
        None \<Rightarrow> []
      | Some (t, msg) \<Rightarrow>
          (case jm_get (pm_pexRoutes s) p of
             Some via \<Rightarrow> if via \<noteq> [] \<and> jm_has (pm_peers s) via then sendMessage c via t msg s else [TrackerRelay p msg]
           | None \<Rightarrow> [TrackerRelay p msg]))"

subsection \<open>Handshake\<close>

definition fingerprintsUsable :: "pm_config \<Rightarrow> string \<times> string \<Rightarrow> bool" where
  "fingerprintsUsable c fp = (if fst fp \<noteq> [] \<and> snd fp \<noteq> [] then True else pc_allowMissing c)"

text \<open>An exception (a challenge or a key with a BigInt in it, a fingerprint too long to sign) ends the
  handler, which the dispatcher catches: nothing has happened by then.\<close>

definition handleHello :: "pm_config \<Rightarrow> peer_id \<Rightarrow> jsval \<Rightarrow> peer_manager \<Rightarrow> pm_effect list" where
  "handleHello c p msg s =
     (case toBytes (jget msg ''challenge'') of
        Inl _ \<Rightarrow> []
      | Inr challenge \<Rightarrow>
          if length challenge \<noteq> CHALLENGE_BYTES then []
          else
            (case jm_get (pm_peers s) p of
               None \<Rightarrow> []
             | Some w \<Rightarrow>
                 (let fp = dtlsFingerprints w in
                  if \<not> fingerprintsUsable c fp then []
                  else
                    (case signClaim (pc_S c) (pc_identity c) challenge
                       \<lparr>verifierId = p, signerFingerprint = fst fp, verifierFingerprint = snd fp\<rparr> of
                       Inl _ \<Rightarrow> []
                     | Inr claim \<Rightarrow> sendMessage c p JOIN claim s))))"

definition join_claim :: "jsval \<Rightarrow> jsval res" where
  "join_claim msg =
     rbind (toBytes (jget msg ''pubkey'')) (\<lambda>pubkey.
     rbind (toBytes (jget msg ''challenge'')) (\<lambda>challenge.
     rbind (toBytes (jget msg ''signature'')) (\<lambda>signature.
       Inr (JObj
         [(''peerId'', case jget msg ''peerId'' of JStr p \<Rightarrow> JStr p | _ \<Rightarrow> JStr []),
          (''pubkey'', JBytes pubkey),
          (''powCounter'', case jget msg ''powCounter'' of JNum n \<Rightarrow> JNum n | _ \<Rightarrow> jint (- 1)),
          (''challenge'', JBytes challenge),
          (''signature'', JBytes signature)]))))"

definition bytes_of :: "jsval \<Rightarrow> bytes" where
  "bytes_of v = (case v of JBytes b \<Rightarrow> b | _ \<Rightarrow> [])"

text \<open>\<open>handleJoin\<close> up to the lookup of the origin group, which goes on in \<open>group_resolved\<close>.\<close>

definition handleJoin :: "pm_config \<Rightarrow> int \<Rightarrow> peer_id \<Rightarrow> jsval \<Rightarrow> peer_manager \<Rightarrow> pm_step" where
  "handleJoin c now p msg s =
     (case jm_get (pm_peers s) p of
        None \<Rightarrow> ([], s)
      | Some w \<Rightarrow>
          if wp_verified w then ([], s)
          else
            (case wp_challenge w of
               None \<Rightarrow> ([], s)
             | Some expected \<Rightarrow>
                 (case join_claim msg of
                    Inl _ \<Rightarrow> ([], s)
                  | Inr claim \<Rightarrow>
                      if jget claim ''peerId'' \<noteq> JStr p then pm_disconnect p s
                      else
                        (let fp = dtlsFingerprints w in
                         if \<not> fingerprintsUsable c fp then pm_disconnect p s
                         else if \<not> verifySignedClaim (pc_S c) claim expected
                              \<lparr>verifierId = my_peer_id c, signerFingerprint = snd fp, verifierFingerprint = fst fp\<rparr> (pc_pow c)
                         then pm_disconnect p s
                         else
                           ([PeerVerified p, ResolveGroup p (wp_conn w)],
                            s\<lparr>pm_peers := jm_set p (markVerified now (bytes_of (jget claim ''pubkey''))
                                (int_of (jget claim ''powCounter'')) w) (pm_peers s)\<rparr>)))))"

subsection \<open>Eviction\<close>

definition peer_distance :: "pm_config \<Rightarrow> peer_id \<times> wpeer \<Rightarrow> rat" where
  "peer_distance c p = ring_distance (nid_position (pc_identity c)) (derivePosition (pc_S c) (fst p))"

definition local_links :: "pm_config \<Rightarrow> (peer_id \<times> wpeer) list \<Rightarrow> peer_id list" where
  "local_links c verified = map fst (take LOCAL_LINKS (sort_key (peer_distance c) verified))"

definition group_of :: "peer_id \<times> wpeer \<Rightarrow> string" where
  "group_of p = (case wp_netGroup (snd p) of None \<Rightarrow> ''unknown'' | Some g \<Rightarrow> g)"

definition group_overflow :: "(peer_id \<times> wpeer) list \<Rightarrow> int \<Rightarrow> peer_id \<times> wpeer \<Rightarrow> int" where
  "group_overflow verified cap p = int (length (filter (\<lambda>q. group_of q = group_of p) verified)) - cap"

definition verified_time :: "peer_id \<times> wpeer \<Rightarrow> int" where
  "verified_time p = (case wp_verifiedAt (snd p) of None \<Rightarrow> 0 | Some t \<Rightarrow> t)"

text \<open>The comparator of the pool: larger overflow first, then the later verified, then the farther.\<close>

definition eviction_rank :: "pm_config \<Rightarrow> (peer_id \<times> wpeer) list \<Rightarrow> int \<Rightarrow> peer_id \<times> wpeer \<Rightarrow> int \<times> int \<times> rat" where
  "eviction_rank c verified cap p = (- group_overflow verified cap p, - verified_time p, - peer_distance c p)"

definition worst_of :: "pm_config \<Rightarrow> (peer_id \<times> wpeer) list \<Rightarrow> int \<Rightarrow> (peer_id \<times> wpeer) list \<Rightarrow> (peer_id \<times> wpeer) option" where
  "worst_of c verified groups pool =
     (let cap = groupCap (int MAX_DEGREE) groups in
      case sort_key (eviction_rank c verified cap) pool of [] \<Rightarrow> None | p # _ \<Rightarrow> Some p)"

definition pickEvictionVictim ::
  "pm_config \<Rightarrow> (peer_id \<times> wpeer) list \<Rightarrow> peer_id option \<Rightarrow> peer_manager \<Rightarrow> (peer_id \<times> wpeer) option" where
  "pickEvictionVictim c verified newcomer s =
     (let local = local_links c verified;
          pool = filter (\<lambda>p. wp_direction (snd p) = Inbound \<and> fst p \<notin> set local) verified;
          groups = int (length (pm_seenGroups s)) in
      if pool \<noteq> [] then worst_of c verified groups pool
      else
        (case (case newcomer of None \<Rightarrow> None | Some n \<Rightarrow> if n = [] then None else find (\<lambda>p. fst p = n) verified) of
           Some n \<Rightarrow>
             if fst n \<notin> set local then Some n
             else worst_of c verified groups (filter (\<lambda>p. fst p \<notin> set local \<and> Some (fst p) \<noteq> newcomer) verified)
         | None \<Rightarrow> worst_of c verified groups (filter (\<lambda>p. fst p \<notin> set local \<and> Some (fst p) \<noteq> newcomer) verified)))"

fun rebalance_loop :: "nat \<Rightarrow> pm_config \<Rightarrow> int \<Rightarrow> peer_id option \<Rightarrow> peer_manager \<Rightarrow> pm_step" where
  "rebalance_loop 0 c now newcomer s = ([], s)"
| "rebalance_loop (Suc guard) c now newcomer s =
     (let verified = verifiedPeers s in
      if length verified \<le> MAX_DEGREE then ([], s)
      else
        (case pickEvictionVictim c verified newcomer s of
           None \<Rightarrow> ([], s)
         | Some v \<Rightarrow>
             (let s1 = (if Some (fst v) \<noteq> newcomer then s\<lparr>pm_coolDowns := jm_set (fst v) now (pm_coolDowns s)\<rparr> else s);
                  (e2, s2) = pm_disconnect (fst v) s1;
                  (e3, s3) = rebalance_loop guard c now newcomer s2 in
              (e2 @ e3, s3))))"

definition rebalance :: "pm_config \<Rightarrow> int \<Rightarrow> peer_id option \<Rightarrow> peer_manager \<Rightarrow> pm_step" where
  "rebalance c now newcomer s = rebalance_loop (MAX_DEGREE * 2) c now newcomer s"

definition noteGroup :: "string \<Rightarrow> peer_manager \<Rightarrow> peer_manager" where
  "noteGroup g s =
     (if length (pm_seenGroups s) \<ge> 1024 \<and> g \<notin> set (pm_seenGroups s) then s
      else s\<lparr>pm_seenGroups := js_add g (pm_seenGroups s)\<rparr>)"

text \<open>What \<open>handleJoin\<close> does once the statistics of the connection have come.\<close>

definition group_resolved ::
  "pm_config \<Rightarrow> int \<Rightarrow> peer_id \<Rightarrow> nat \<Rightarrow> string \<Rightarrow> peer_manager \<Rightarrow> pm_step" where
  "group_resolved c now p conn g s =
     rebalance c now (Some p) (noteGroup g (update_conn p conn (\<lambda>w. w\<lparr>wp_netGroup := Some g\<rparr>) s))"

subsection \<open>Callbacks of a connection\<close>

definition onConnect :: "pm_config \<Rightarrow> peer_id \<Rightarrow> nat \<Rightarrow> bytes \<Rightarrow> peer_manager \<Rightarrow> pm_step" where
  "onConnect c p conn challenge s =
     (let s1 = update_conn p conn (\<lambda>w. setChallenge challenge (channel_open w)) s in
      (PeerConnected p # sendMessage c p HELLO (JObj [(''challenge'', JBytes challenge)]) s1, s1))"

definition onDisconnect :: "peer_id \<Rightarrow> nat \<Rightarrow> peer_manager \<Rightarrow> pm_step" where
  "onDisconnect p conn s =
     (let s1 = update_conn p conn channel_closed s in
      if isStillCurrent p conn s1 then pm_disconnect p s1 else ([], s1))"

definition connect_timeout :: "peer_id \<Rightarrow> nat \<Rightarrow> peer_manager \<Rightarrow> pm_step" where
  "connect_timeout p conn s =
     (case jm_get (pm_peers s) p of
        Some w \<Rightarrow> if isStillCurrent p conn s \<and> \<not> wp_connected w then pm_disconnect p s else ([], s)
      | None \<Rightarrow> ([], s))"

definition handshake_timeout :: "peer_id \<Rightarrow> nat \<Rightarrow> peer_manager \<Rightarrow> pm_step" where
  "handshake_timeout p conn s =
     (case jm_get (pm_peers s) p of
        Some w \<Rightarrow> if isStillCurrent p conn s \<and> \<not> wp_verified w then pm_disconnect p s else ([], s)
      | None \<Rightarrow> ([], s))"

text \<open>The local description of an outgoing connection, and a signal handed to a connection.\<close>

definition local_offer :: "peer_id \<Rightarrow> nat \<Rightarrow> string \<Rightarrow> peer_manager \<Rightarrow> peer_manager" where
  "local_offer p conn sdp s = update_conn p conn (\<lambda>w. w\<lparr>wp_localSdp := Some sdp\<rparr>) s"

definition run_signal :: "peer_id \<Rightarrow> nat \<Rightarrow> bool \<Rightarrow> string \<Rightarrow> jsval \<Rightarrow> peer_manager \<Rightarrow> peer_manager" where
  "run_signal p conn ok answer msg s = update_conn p conn (\<lambda>w. snd (wp_signal ok answer msg w)) s"

subsection \<open>Reception\<close>

text \<open>The handlers the manager registers itself run first; then whoever else registered for the type.\<close>

definition own_handlers :: "pm_config \<Rightarrow> int \<Rightarrow> peer_id \<Rightarrow> wire_type \<Rightarrow> jsval \<Rightarrow> peer_manager \<Rightarrow> pm_step" where
  "own_handlers c now p t payload s =
     (case t of
        HELLO \<Rightarrow> (handleHello c p payload s, s)
      | JOIN \<Rightarrow> handleJoin c now p payload s
      | SDP_RELAY \<Rightarrow> on_relay_message c now p SDP_RELAY payload s
      | ICE_RELAY \<Rightarrow> on_relay_message c now p ICE_RELAY payload s
      | _ \<Rightarrow> ([], s))"

definition peer_verified :: "peer_id \<Rightarrow> peer_manager \<Rightarrow> bool" where
  "peer_verified p s = (case jm_get (pm_peers s) p of Some w \<Rightarrow> wp_verified w | None \<Rightarrow> False)"

definition handleData :: "pm_config \<Rightarrow> int \<Rightarrow> peer_id \<Rightarrow> bytes \<Rightarrow> peer_manager \<Rightarrow> pm_step" where
  "handleData c now p bs s =
     (let (banned, s1) = banned_now now p s in
      if banned then pm_disconnect p s1
      else if length bs > frame_limit bs then ([], s1)
      else
        (let (t, payload) = wire_decode (pc_M c) bs; authenticated = peer_verified p s1 in
         if t = UNKNOWN then
           pm_disconnect p
             (if authenticated
              then s1\<lparr>pm_misbehavior := snd (recordViolation (pc_misopts c) now p MALFORMED_WIRE (pm_misbehavior s1))\<rparr>
              else s1)
         else
           (let (allowed, lim) = rate_allow (pc_rates c) (of_int now) p (RATE_CATEGORY t) (pm_limiter s1);
                s2 = s1\<lparr>pm_limiter := lim\<rparr> in
            if \<not> allowed then ([], s2)
            else if t \<notin> set PRE_HANDSHAKE_TYPES \<and> \<not> authenticated then ([], s2)
            else
              (let (e3, s3) = own_handlers c now p t payload s2 in
               (e3 @ [Deliver p t payload, PeerData p bs], s3)))))"

subsection \<open>Start and stop\<close>

definition connectTracker :: "peer_manager \<Rightarrow> pm_effect list" where
  "connectTracker s = (if pm_stopped s then [] else [TrackerConnect])"

text \<open>The rest of \<open>connectTracker\<close>, once the connection has been made.\<close>

definition tracker_connected :: "peer_manager \<Rightarrow> pm_step" where
  "tracker_connected s = (if pm_stopped s then ([TrackerDisconnect], s) else ([], s\<lparr>pm_detach := True\<rparr>))"

definition detach_timeout :: "peer_manager \<Rightarrow> pm_step" where
  "detach_timeout s = (if pm_detach s then ([TrackerDisconnect], s\<lparr>pm_detach := False\<rparr>) else ([], s))"

definition reannounce_tick :: "bool \<Rightarrow> peer_manager \<Rightarrow> pm_effect list" where
  "reannounce_tick trackerConnected s =
     (if pm_stopped s \<or> \<not> pm_reannounce s then []
      else if degree s < 4 \<and> \<not> trackerConnected then connectTracker s else [])"

definition pm_start :: "peer_manager \<Rightarrow> pm_step" where
  "pm_start s = (let s1 = s\<lparr>pm_stopped := False, pm_reannounce := True\<rparr> in (connectTracker s1, s1))"

definition reconnectTracker :: "peer_manager \<Rightarrow> pm_step" where
  "reconnectTracker s =
     (if pm_stopped s then ([], s) else (let s1 = s\<lparr>pm_detach := False\<rparr> in (connectTracker s1, s1)))"

fun disconnect_all :: "peer_id list \<Rightarrow> peer_manager \<Rightarrow> pm_step" where
  "disconnect_all [] s = ([], s)"
| "disconnect_all (p # ps) s =
     (let (e1, s1) = pm_disconnect p s; (e2, s2) = disconnect_all ps s1 in (e1 @ e2, s2))"

definition pm_stop :: "peer_manager \<Rightarrow> pm_step" where
  "pm_stop s =
     (let s1 = s\<lparr>pm_stopped := True, pm_reannounce := False, pm_detach := False, pm_pendingSignals := []\<rparr>;
          (e, s2) = disconnect_all (jm_keys (pm_peers s1)) s1 in
      (TrackerDisconnect # e, s2))"

subsection \<open>The manager as a transition system\<close>

datatype pm_op =
    OpData int peer_id bytes
  | OpTrackerPeers int jsval
  | OpTrackerRelay int peer_id jsval
  | OpConnect int peer_id bool "peer_id option"
  | OpOpen peer_id nat bytes
  | OpClosed peer_id nat
  | OpConnectTimeout peer_id nat
  | OpHandshakeTimeout peer_id nat
  | OpLocalOffer peer_id nat string
  | OpSignal peer_id nat bool string jsval
  | OpGroup int peer_id nat string
  | OpDisconnect peer_id
  | OpStart
  | OpStop

fun pm_exec :: "pm_config \<Rightarrow> pm_op \<Rightarrow> peer_manager \<Rightarrow> pm_step" where
  "pm_exec c (OpData now p bs) s = handleData c now p bs s"
| "pm_exec c (OpTrackerPeers now v) s = handleTrackerPeers c now v s"
| "pm_exec c (OpTrackerRelay now p v) s = handleRelay c now p v None s"
| "pm_exec c (OpConnect now p i via) s = snd (connect c now p i via s)"
| "pm_exec c (OpOpen p conn challenge) s = onConnect c p conn challenge s"
| "pm_exec c (OpClosed p conn) s = onDisconnect p conn s"
| "pm_exec c (OpConnectTimeout p conn) s = connect_timeout p conn s"
| "pm_exec c (OpHandshakeTimeout p conn) s = handshake_timeout p conn s"
| "pm_exec c (OpLocalOffer p conn sdp) s = ([], local_offer p conn sdp s)"
| "pm_exec c (OpSignal p conn ok answer msg) s = ([], run_signal p conn ok answer msg s)"
| "pm_exec c (OpGroup now p conn g) s = group_resolved c now p conn g s"
| "pm_exec c (OpDisconnect p) s = pm_disconnect p s"
| "pm_exec c OpStart s = pm_start s"
| "pm_exec c OpStop s = pm_stop s"

inductive pm_reachable :: "pm_config \<Rightarrow> peer_manager \<Rightarrow> bool" for c where
  init: "pm_reachable c pm_init"
| step: "pm_reachable c s \<Longrightarrow> pm_reachable c (snd (pm_exec c op s))"

end
