(* ===== verification/DHTMailbox.thy ===== *)
theory DHTMailbox
  imports MailboxEntry MailStore PeerManager
begin

text \<open>
  \<open>packages/core/src/network/mailbox/DHTMailbox.ts\<close>: the distributed store. Entries are kept by the nodes
  nearest to their topic on the ring; a node checks what it is asked to keep and what it is answered, and
  bounds what it keeps. The store on disk is \<open>mail_store\<close> (\<open>None\<close> while it is locked, when every access
  throws). Acceptances are serialised by the code's promise queue, so each is one step here; a fetch is a
  record of its closure's variables, and its timers and answers are separate steps.
\<close>

subsection \<open>Parameters and state\<close>

definition K_NEAREST :: nat where [simp]: "K_NEAREST = 5"
definition FETCH_HARD_TIMEOUT_MS :: int where "FETCH_HARD_TIMEOUT_MS = 4000"
definition FETCH_GRACE_MS :: int where "FETCH_GRACE_MS = 300"
definition PUT_ACCEPT_SLACK :: nat where [simp]: "PUT_ACCEPT_SLACK = 3"

record pending_req =
  pr_topic :: string
  pr_target :: peer_id
  pr_fetch :: nat

record fetch_state =
  fs_unique :: "(string, bytes) jsmap"
  fs_responses :: nat
  fs_expected :: nat
  fs_requestIds :: "string list"
  fs_grace :: bool

record mailbox =
  dm_store :: "mail_store option"
  dm_pending :: "(string, pending_req) jsmap"
  dm_fetches :: "(nat, fetch_state) jsmap"
  dm_slotListeners :: "nat list"
  dm_usage :: "nat option"
  dm_quota :: "(peer_id, int \<times> nat) jsmap"
  dm_maintenance :: bool

text \<open>The peer manager, the time, the size the store reports for itself, and how a number that is no
  integer is printed in JSON.\<close>

record dm_env =
  de_cfg :: pm_config
  de_pm :: peer_manager
  de_now :: int
  de_size :: "mail_store \<Rightarrow> nat"
  de_fmt :: "rat \<Rightarrow> string"

abbreviation de_S :: "dm_env \<Rightarrow> sodium" where "de_S e \<equiv> pc_S (de_cfg e)"
abbreviation de_me :: "dm_env \<Rightarrow> peer_id" where "de_me e \<equiv> my_peer_id (de_cfg e)"

datatype dm_effect =
    DmNet pm_effect
  | SlotCall nat bytes string
  | FetchDone nat "bytes list"
  | SetFetchTimer nat int
  | SetGraceTimer nat int

type_synonym dm_step = "dm_effect list \<times> mailbox"

definition dm_init :: "mail_store option \<Rightarrow> mailbox" where
  "dm_init store = \<lparr>dm_store = store, dm_pending = [], dm_fetches = [], dm_slotListeners = [], dm_usage = None,
     dm_quota = [], dm_maintenance = False\<rparr>"

subsection \<open>The nearest nodes\<close>

text \<open>\<open>parseInt(prefix, 16) || 0\<close>, divided by \<open>0xffffffff\<close>.\<close>

definition hashToPosition :: "string \<Rightarrow> rat" where
  "hashToPosition topicHash =
     of_int (case parse_int16 (take 8 topicHash) of Some n \<Rightarrow> n | None \<Rightarrow> 0) / 4294967295"

definition ring_nodes :: "dm_env \<Rightarrow> (peer_id \<times> rat) list" where
  "ring_nodes e =
     map (\<lambda>(p, w). (p, derivePosition (de_S e) p)) (filter (\<lambda>(p, w). wp_connected w \<and> wp_verified w) (pm_peers (de_pm e))) @
     [(de_me e, nid_position (pc_identity (de_cfg e)))]"

definition findKNearest :: "dm_env \<Rightarrow> rat \<Rightarrow> nat \<Rightarrow> peer_id list" where
  "findKNearest e topicPos k = take k (map fst (sort_key (\<lambda>n. ring_distance topicPos (snd n)) (ring_nodes e)))"

definition isResponsibleFor :: "dm_env \<Rightarrow> string \<Rightarrow> bool" where
  "isResponsibleFor e topicHash \<longleftrightarrow> de_me e \<in> set (findKNearest e (hashToPosition topicHash) (K_NEAREST + PUT_ACCEPT_SLACK))"

subsection \<open>Sending\<close>

definition dm_send :: "dm_env \<Rightarrow> peer_id \<Rightarrow> wire_type \<Rightarrow> (string \<times> jsval) list \<Rightarrow> dm_effect list" where
  "dm_send e p t payload = map DmNet (sendMessage (de_cfg e) p t (JObj payload) (de_pm e))"

definition entries_val :: "bytes list \<Rightarrow> jsval" where
  "entries_val es = JArr (map JBytes es)"

definition sendDHTPut :: "dm_env \<Rightarrow> peer_id \<Rightarrow> string \<Rightarrow> bytes list \<Rightarrow> dm_effect list" where
  "sendDHTPut e p topic es = dm_send e p DHT_PUT [(''topicHash'', JStr topic), (''entries'', entries_val es)]"

definition sendDHTGet :: "dm_env \<Rightarrow> peer_id \<Rightarrow> string \<Rightarrow> string \<Rightarrow> dm_effect list" where
  "sendDHTGet e p topic reqId = dm_send e p DHT_GET [(''topicHash'', JStr topic), (''reqId'', JStr reqId)]"

definition sendDHTRes :: "dm_env \<Rightarrow> peer_id \<Rightarrow> string \<Rightarrow> string \<Rightarrow> bytes list \<Rightarrow> dm_effect list" where
  "sendDHTRes e p topic reqId es =
     dm_send e p DHT_RES [(''topicHash'', JStr topic), (''reqId'', JStr reqId), (''entries'', entries_val es)]"

text \<open>\<open>replicate\<close>: in messages of at most 64 entries.\<close>

function replicate_put :: "dm_env \<Rightarrow> peer_id \<Rightarrow> string \<Rightarrow> bytes list \<Rightarrow> dm_effect list" where
  "replicate_put e p topic es =
     (if es = [] then []
      else sendDHTPut e p topic (take MAX_ENTRIES_PER_MESSAGE es) @
        replicate_put e p topic (drop MAX_ENTRIES_PER_MESSAGE es))"
  by pat_completeness auto
termination by (relation "measure (\<lambda>(e, p, t, es). length es)") auto

declare replicate_put.simps [simp del]

subsection \<open>Keeping entries\<close>

definition currentUsage :: "dm_env \<Rightarrow> mailbox \<Rightarrow> nat \<times> mailbox" where
  "currentUsage e s =
     (case dm_usage s of
        Some n \<Rightarrow> (n, s)
      | None \<Rightarrow>
          (let n = (case dm_store s of Some st \<Rightarrow> de_size e st | None \<Rightarrow> 0) in (n, s\<lparr>dm_usage := Some n\<rparr>)))"

definition chargePeerQuota :: "int \<Rightarrow> peer_id \<Rightarrow> nat \<Rightarrow> mailbox \<Rightarrow> bool \<times> mailbox" where
  "chargePeerQuota now p n s =
     (let fresh = (now, 0);
          (q, m) = (case jm_get (dm_quota s) p of
             Some (w, b) \<Rightarrow> if now - w > 60 * 60 * 1000 then (fresh, jm_set p fresh (dm_quota s)) else ((w, b), dm_quota s)
           | None \<Rightarrow> (fresh, jm_set p fresh (dm_quota s))) in
      if snd q + n > MAX_BYTES_PER_PEER_PER_HOUR then (False, s\<lparr>dm_quota := m\<rparr>)
      else (True, s\<lparr>dm_quota := jm_set p (fst q, snd q + n) m\<rparr>))"

text \<open>The entries that are not there yet, each once.\<close>

fun fresh_entries :: "bytes list \<Rightarrow> bytes list \<Rightarrow> bytes list" where
  "fresh_entries have [] = []"
| "fresh_entries have (e # es) =
     (if e \<in> set have then fresh_entries have es else e # fresh_entries (e # have) es)"

definition total_bytes :: "bytes list \<Rightarrow> nat" where
  "total_bytes es = sum_list (map length es)"

text \<open>\<open>Inl\<close>: the store is locked.\<close>

definition acceptForStorageNow :: "dm_env \<Rightarrow> string \<Rightarrow> bytes list \<Rightarrow> peer_id \<Rightarrow> mailbox \<Rightarrow> bytes list res \<times> mailbox" where
  "acceptForStorageNow e topic entries source s =
     (case dm_store s of
        None \<Rightarrow> (Inl (OtherError ''locked''), s)
      | Some st \<Rightarrow>
          (let existing = (case ms_get st topic of Some es \<Rightarrow> es | None \<Rightarrow> []) in
           if length existing \<ge> MAX_ENTRIES_PER_TOPIC then (Inr [], s)
           else if existing = [] \<and> length (ms_topics st) \<ge> MAX_TOPICS then (Inr [], s)
           else
             (let fresh = fresh_entries existing entries in
              if fresh = [] then (Inr [], s)
              else
                (let candidates = take (MAX_ENTRIES_PER_TOPIC - length existing) fresh;
                     n = total_bytes candidates;
                     (usage, s1) = currentUsage e s in
                 if usage + n > MAX_TOTAL_BYTES then (Inr [], s1)
                 else
                   (let (allowed, s2) = (if source \<noteq> de_me e then chargePeerQuota (de_now e) source n s1 else (True, s1)) in
                    if \<not> allowed then (Inr [], s2)
                    else (Inr candidates,
                      s2\<lparr>dm_store := Some (ms_put (de_now e) topic candidates st), dm_usage := Some (usage + n)\<rparr>))))))"

definition acceptForStorage :: "dm_env \<Rightarrow> string \<Rightarrow> bytes list \<Rightarrow> peer_id \<Rightarrow> mailbox \<Rightarrow> bytes list res \<times> mailbox" where
  "acceptForStorage e topic entries source s = acceptForStorageNow e topic entries source s"

text \<open>The notification of the slots kept.\<close>

definition notify_slots :: "string \<Rightarrow> bytes list \<Rightarrow> mailbox \<Rightarrow> dm_effect list" where
  "notify_slots topic es s = concat (map (\<lambda>entry. map (\<lambda>cb. SlotCall cb entry topic) (dm_slotListeners s)) es)"

definition pruneExpired :: "int \<Rightarrow> mailbox \<Rightarrow> mailbox" where
  "pruneExpired now s =
     (let s1 = (case dm_store s of
          None \<Rightarrow> s
        | Some st \<Rightarrow>
            (let st' = ms_prune (now - RETENTION_MS) st in
             if length st' < length st then s\<lparr>dm_store := Some st', dm_usage := None\<rparr> else s\<lparr>dm_store := Some st'\<rparr>)) in
      s1\<lparr>dm_quota := filter (\<lambda>(_, w, _). \<not> now - w > 60 * 60 * 1000) (dm_quota s1)\<rparr>)"

definition startMaintenance :: "int \<Rightarrow> mailbox \<Rightarrow> mailbox" where
  "startMaintenance now s = (pruneExpired now s)\<lparr>dm_maintenance := True\<rparr>"

definition stopMaintenance :: "mailbox \<Rightarrow> mailbox" where
  "stopMaintenance s = s\<lparr>dm_maintenance := False\<rparr>"

text \<open>The frames go out first; the part kept here follows, and its result is not used.\<close>

definition putToKNearest :: "dm_env \<Rightarrow> string \<Rightarrow> bytes \<Rightarrow> mailbox \<Rightarrow> dm_step" where
  "putToKNearest e topic data s =
     (let nearest = findKNearest e (hashToPosition topic) K_NEAREST;
          fx = concat (map (\<lambda>t. if t \<noteq> de_me e then sendDHTPut e t topic [data] else []) nearest) in
      if de_me e \<in> set nearest then (fx, snd (acceptForStorage e topic [data] (de_me e) s)) else (fx, s))"

definition slot_entry :: "(rat \<Rightarrow> string) \<Rightarrow> hint \<Rightarrow> jsval \<Rightarrow> bytes" where
  "slot_entry fmt h packet = encodeSlotBlob h (utf8 (case stringify fmt packet of Some t \<Rightarrow> t | None \<Rightarrow> []))"

text \<open>The exit's part for an author's slot. An exception of the check is caught by the caller.\<close>

definition storeSlotAsExit :: "dm_env \<Rightarrow> string \<Rightarrow> bytes \<Rightarrow> jsval \<Rightarrow> mailbox \<Rightarrow> dm_step" where
  "storeSlotAsExit e topic hintBytes packet s =
     (if \<not> is_topic_hash topic then ([], s)
      else
        (case decodeHint hintBytes of
           None \<Rightarrow> ([], s)
         | Some h \<Rightarrow>
             (let entry = slot_entry (de_fmt e) h packet in
              case checkEntry (de_S e) (de_now e) entry of
                Inr (Inr _) \<Rightarrow> putToKNearest e topic entry s
              | _ \<Rightarrow> ([], s))))"

subsection \<open>Reading\<close>

definition storedKeys :: "mailbox \<Rightarrow> string list" where
  "storedKeys s = (case dm_store s of Some st \<Rightarrow> ms_topics st | None \<Rightarrow> [])"

definition stored :: "string \<Rightarrow> mailbox \<Rightarrow> bytes list" where
  "stored topic s =
     (if \<not> is_topic_hash topic then []
      else (case dm_store s of
              Some st \<Rightarrow> (case ms_get st topic of Some es \<Rightarrow> es | None \<Rightarrow> [])
            | None \<Rightarrow> []))"

definition onSlotStored :: "nat \<Rightarrow> mailbox \<Rightarrow> mailbox" where
  "onSlotStored cb s = s\<lparr>dm_slotListeners := dm_slotListeners s @ [cb]\<rparr>"

definition add_unique :: "bytes list \<Rightarrow> (string, bytes) jsmap \<Rightarrow> (string, bytes) jsmap" where
  "add_unique es m = fold (\<lambda>p. jm_set (toHex p) p) es m"

text \<open>\<open>finalize\<close> of the fetch \<open>f\<close>.\<close>

definition fetch_finalize :: "nat \<Rightarrow> mailbox \<Rightarrow> dm_step" where
  "fetch_finalize f s =
     (case jm_get (dm_fetches s) f of
        None \<Rightarrow> ([], s)
      | Some fs \<Rightarrow>
          ([FetchDone f (map snd (fs_unique fs))],
           s\<lparr>dm_fetches := jm_del f (dm_fetches s), dm_pending := fold jm_del (fs_requestIds fs) (dm_pending s)\<rparr>))"

text \<open>Registering and sending one request of a fetch.\<close>

fun fetch_requests :: "dm_env \<Rightarrow> string \<Rightarrow> nat \<Rightarrow> (peer_id \<times> string) list \<Rightarrow> mailbox \<Rightarrow> dm_step" where
  "fetch_requests e topic f [] s = ([], s)"
| "fetch_requests e topic f ((target, reqId) # rest) s =
     (let s1 = s\<lparr>dm_pending := jm_set reqId \<lparr>pr_topic = topic, pr_target = target, pr_fetch = f\<rparr> (dm_pending s)\<rparr>;
          (fx, s2) = fetch_requests e topic f rest s1 in
      (sendDHTGet e target topic reqId @ fx, s2))"

text \<open>\<open>f\<close> names the promise; \<open>ids\<close> gives the random request identifiers.\<close>

definition dm_fetch :: "dm_env \<Rightarrow> (nat \<Rightarrow> string) \<Rightarrow> nat \<Rightarrow> string \<Rightarrow> mailbox \<Rightarrow> dm_step" where
  "dm_fetch e ids f topic s =
     (if \<not> is_topic_hash topic then ([FetchDone f []], s)
      else
        (let nearest = filter (\<lambda>p. p \<noteq> de_me e) (findKNearest e (hashToPosition topic) K_NEAREST);
             unique = add_unique (stored topic s) [] in
         if nearest = [] then ([FetchDone f (map snd unique)], s)
         else
           (let reqIds = map (\<lambda>i. ''fetch_'' @ ids i) [0..<length nearest];
                fs = \<lparr>fs_unique = unique, fs_responses = 0, fs_expected = length nearest, fs_requestIds = reqIds,
                      fs_grace = False\<rparr>;
                (fx, s1) = fetch_requests e topic f (zip nearest reqIds) (s\<lparr>dm_fetches := jm_set f fs (dm_fetches s)\<rparr>) in
            (SetFetchTimer f FETCH_HARD_TIMEOUT_MS # fx, s1))))"

text \<open>The closure \<open>resolve\<close> of a request: it may be called after the fetch has settled, and then only counts.\<close>

definition fetch_resolve :: "nat \<Rightarrow> bytes list \<Rightarrow> mailbox \<Rightarrow> dm_step" where
  "fetch_resolve f packets s =
     (case jm_get (dm_fetches s) f of
        None \<Rightarrow> ([], s)
      | Some fs \<Rightarrow>
          (let fs1 = fs\<lparr>fs_responses := fs_responses fs + 1, fs_unique := add_unique packets (fs_unique fs)\<rparr>;
               s1 = s\<lparr>dm_fetches := jm_set f fs1 (dm_fetches s)\<rparr> in
           if fs_responses fs1 \<ge> fs_expected fs1 then fetch_finalize f s1
           else if \<not> fs_grace fs1 then
             ([SetGraceTimer f FETCH_GRACE_MS], s\<lparr>dm_fetches := jm_set f (fs1\<lparr>fs_grace := True\<rparr>) (dm_fetches s)\<rparr>)
           else ([], s1)))"

subsection \<open>Messages\<close>

text \<open>The outer \<open>Inl\<close> is an exception of the check, which the promise of the handler is rejected with.\<close>

definition handlePut :: "dm_env \<Rightarrow> peer_id \<Rightarrow> jsval \<Rightarrow> mailbox \<Rightarrow> unit res \<times> dm_step" where
  "handlePut e p msg s =
     (case jget msg ''topicHash'' of
        JStr topic \<Rightarrow>
          if \<not> is_topic_hash topic then (Inr (), [], s)
          else if \<not> isResponsibleFor e topic then (Inr (), [], s)
          else
            (case filterValidEntries (de_S e) (de_now e) (jget msg ''entries'') of
               Inl err \<Rightarrow> (Inl err, [], s)
             | Inr (accepted, _) \<Rightarrow>
                 if accepted = [] then (Inr (), [], s)
                 else
                   (case acceptForStorage e topic accepted p s of
                      (Inl _, s1) \<Rightarrow> (Inr (), [], s1)
                    | (Inr kept, s1) \<Rightarrow> (Inr (), notify_slots topic kept s1, s1)))
      | _ \<Rightarrow> (Inr (), [], s))"

definition handleGet :: "dm_env \<Rightarrow> peer_id \<Rightarrow> jsval \<Rightarrow> mailbox \<Rightarrow> dm_effect list" where
  "handleGet e p msg s =
     (case (jget msg ''topicHash'', jget msg ''reqId'') of
        (JStr topic, JStr reqId) \<Rightarrow>
          if \<not> is_topic_hash topic \<or> length reqId > 64 then []
          else
            (case dm_store s of
               None \<Rightarrow> []
             | Some st \<Rightarrow>
                 sendDHTRes e p topic reqId
                   (take MAX_ENTRIES_PER_MESSAGE (case ms_get st topic of Some es \<Rightarrow> es | None \<Rightarrow> [])))
      | _ \<Rightarrow> [])"

definition handleRes :: "dm_env \<Rightarrow> peer_id \<Rightarrow> jsval \<Rightarrow> mailbox \<Rightarrow> unit res \<times> dm_step" where
  "handleRes e p msg s =
     (case jget msg ''reqId'' of
        JStr reqId \<Rightarrow>
          (case jm_get (dm_pending s) reqId of
             None \<Rightarrow> (Inr (), [], s)
           | Some req \<Rightarrow>
               if pr_target req \<noteq> p then (Inr (), [], s)
               else if jget msg ''topicHash'' \<noteq> JStr (pr_topic req) then (Inr (), [], s)
               else
                 (let s1 = s\<lparr>dm_pending := jm_del reqId (dm_pending s)\<rparr> in
                  case filterValidEntries (de_S e) (de_now e) (jget msg ''entries'') of
                    Inl err \<Rightarrow> (Inl err, [], s1)
                  | Inr (accepted, _) \<Rightarrow>
                      (let (fx1, s2) = fetch_resolve (pr_fetch req) accepted s1 in
                       if accepted \<noteq> [] \<and> isResponsibleFor e (pr_topic req) then
                         (case acceptForStorage e (pr_topic req) accepted p s2 of
                            (Inl _, s3) \<Rightarrow> (Inr (), fx1, s3)
                          | (Inr kept, s3) \<Rightarrow> (Inr (), fx1 @ notify_slots (pr_topic req) kept s3, s3))
                       else (Inr (), fx1, s2))))
      | _ \<Rightarrow> (Inr (), [], s))"

subsection \<open>All operations\<close>

datatype dm_op =
    DmPut peer_id jsval
  | DmGet peer_id jsval
  | DmRes peer_id jsval
  | DmExit string bytes jsval
  | DmFetch "nat \<Rightarrow> string" nat string
  | DmFetchTimer nat
  | DmPrune
  | DmListen nat
  | DmMaintain bool

fun dm_exec :: "dm_env \<Rightarrow> dm_op \<Rightarrow> mailbox \<Rightarrow> dm_step" where
  "dm_exec e (DmPut p msg) s = snd (handlePut e p msg s)"
| "dm_exec e (DmGet p msg) s = (handleGet e p msg s, s)"
| "dm_exec e (DmRes p msg) s = snd (handleRes e p msg s)"
| "dm_exec e (DmExit topic h packet) s = storeSlotAsExit e topic h packet s"
| "dm_exec e (DmFetch ids f topic) s = dm_fetch e ids f topic s"
| "dm_exec e (DmFetchTimer f) s = fetch_finalize f s"
| "dm_exec e DmPrune s = ([], pruneExpired (de_now e) s)"
| "dm_exec e (DmListen cb) s = ([], onSlotStored cb s)"
| "dm_exec e (DmMaintain b) s = ([], if b then startMaintenance (de_now e) s else stopMaintenance s)"

subsection \<open>The invariant\<close>

definition store_ok :: "sodium \<Rightarrow> int \<Rightarrow> mail_store \<Rightarrow> bool" where
  "store_ok S now st \<longleftrightarrow> jm_wf st \<and> ms.bounded MAX_ENTRIES_PER_TOPIC MAX_TOPICS st \<and> ms.all_entries (entry_valid S now) st"

definition quota_ok :: "(peer_id, int \<times> nat) jsmap \<Rightarrow> bool" where
  "quota_ok m \<longleftrightarrow> (\<forall>(p, w, b) \<in> set m. b \<le> MAX_BYTES_PER_PEER_PER_HOUR)"

definition fetches_ok :: "sodium \<Rightarrow> int \<Rightarrow> (nat, fetch_state) jsmap \<Rightarrow> bool" where
  "fetches_ok S now m \<longleftrightarrow> (\<forall>(f, fs) \<in> set m. \<forall>(k, entry) \<in> set (fs_unique fs). entry_valid S now entry)"

definition dm_ok :: "sodium \<Rightarrow> int \<Rightarrow> mailbox \<Rightarrow> bool" where
  "dm_ok S now s \<longleftrightarrow> (\<forall>st. dm_store s = Some st \<longrightarrow> store_ok S now st) \<and> quota_ok (dm_quota s) \<and> fetches_ok S now (dm_fetches s)"

lemma dm_ok_mono: "dm_ok S now s \<Longrightarrow> now \<le> now' \<Longrightarrow> dm_ok S now' s"
  using entry_valid_mono [of S now _ now']
  unfolding dm_ok_def store_ok_def fetches_ok_def ms.all_entries_def by fast

lemma dm_ok_simps [simp]:
  "dm_ok S now (s\<lparr>dm_pending := p\<rparr>) = dm_ok S now s"
  "dm_ok S now (s\<lparr>dm_slotListeners := l\<rparr>) = dm_ok S now s"
  "dm_ok S now (s\<lparr>dm_usage := u\<rparr>) = dm_ok S now s"
  "dm_ok S now (s\<lparr>dm_maintenance := b\<rparr>) = dm_ok S now s"
  by (simp_all add: dm_ok_def)

lemma fresh_entries_result:
  "distinct (fresh_entries have es) \<and> set (fresh_entries have es) = set es - set have"
  by (induction "have" es rule: fresh_entries.induct) auto

lemma quota_ok_set: "quota_ok m \<Longrightarrow> b \<le> MAX_BYTES_PER_PEER_PER_HOUR \<Longrightarrow> quota_ok (jm_set p (w, b) m)"
  by (auto simp: quota_ok_def dest!: jm_set_in)

lemma quota_ok_get: "quota_ok m \<Longrightarrow> jm_get m p = Some (w, b) \<Longrightarrow> b \<le> MAX_BYTES_PER_PEER_PER_HOUR"
  using jm_get_in_set [of m p "(w, b)"] by (auto simp: quota_ok_def)

lemma chargePeerQuota_state:
  assumes "chargePeerQuota now p n s = (r, s')" "quota_ok (dm_quota s)"
  obtains m where "s' = s\<lparr>dm_quota := m\<rparr>" "quota_ok m"
proof -
  define q m where "q = (case jm_get (dm_quota s) p of Some (w, b) \<Rightarrow> if now - w > 60 * 60 * 1000 then (now, 0) else (w, b)
      | None \<Rightarrow> (now, 0))"
    and "m = (case jm_get (dm_quota s) p of
        Some (w, b) \<Rightarrow> if now - w > 60 * 60 * 1000 then jm_set p (now, 0) (dm_quota s) else dm_quota s
      | None \<Rightarrow> jm_set p (now, 0) (dm_quota s))"
  have m: "quota_ok m" using assms(2) by (auto simp: m_def quota_ok_set split: option.split)
  have "chargePeerQuota now p n s =
      (if snd q + n > MAX_BYTES_PER_PEER_PER_HOUR then (False, s\<lparr>dm_quota := m\<rparr>)
       else (True, s\<lparr>dm_quota := jm_set p (fst q, snd q + n) m\<rparr>))"
    by (auto simp: chargePeerQuota_def q_def m_def Let_def split: option.split)
  then show thesis using assms(1) m quota_ok_set [OF m, of "snd q + n" p "fst q"] that
    by (auto split: if_splits)
qed

lemma currentUsage_state: "currentUsage e s = (n, s') \<Longrightarrow> \<exists>u. s' = s\<lparr>dm_usage := u\<rparr>"
  by (auto simp: currentUsage_def Let_def split: option.splits intro: exI [of _ "dm_usage s"])

text \<open>The outcomes of an acceptance: nothing is kept, or the first of the fresh entries that there is room
  for.\<close>

lemma accept_cases:
  assumes "acceptForStorage e topic entries source s = (r, s')" "quota_ok (dm_quota s)"
  obtains (dropped) u m where "r = Inr [] \<or> (\<exists>err. r = Inl err)" "s' = s\<lparr>dm_usage := u, dm_quota := m\<rparr>" "quota_ok m"
  | (kept) st u m existing candidates where "dm_store s = Some st"
      "existing = (case ms_get st topic of Some es \<Rightarrow> es | None \<Rightarrow> [])"
      "candidates = take (MAX_ENTRIES_PER_TOPIC - length existing) (fresh_entries existing entries)"
      "candidates \<noteq> []" "existing = [] \<longrightarrow> length (ms_topics st) < MAX_TOPICS"
      "r = Inr candidates" "quota_ok m" "u + total_bytes candidates \<le> MAX_TOTAL_BYTES"
      "s' = s\<lparr>dm_store := Some (ms_put (de_now e) topic candidates st), dm_usage := Some (u + total_bytes candidates), dm_quota := m\<rparr>"
proof (cases "dm_store s")
  case None
  have l: "r = Inl (OtherError ''locked'')" "s' = s"
    using assms(1) None by (simp_all add: acceptForStorage_def acceptForStorageNow_def)
  show thesis by (rule dropped [of "dm_quota s" "dm_usage s"]) (use l assms(2) in auto)
next
  case (Some st)
  define existing where "existing = (case ms_get st topic of Some es \<Rightarrow> es | None \<Rightarrow> [])"
  define candidates where "candidates = take (MAX_ENTRIES_PER_TOPIC - length existing) (fresh_entries existing entries)"
  obtain usage s1 where u: "currentUsage e s = (usage, s1)" by force
  then obtain uu where s1: "s1 = s\<lparr>dm_usage := uu\<rparr>" using currentUsage_state by blast
  obtain ok s2 where q: "(if source \<noteq> de_me e then chargePeerQuota (de_now e) source (total_bytes candidates) s1 else (True, s1)) = (ok, s2)"
    by force
  obtain m where s2: "s2 = s\<lparr>dm_usage := uu, dm_quota := m\<rparr>" "quota_ok m"
  proof (cases "source \<noteq> de_me e")
    case True
    then have c: "chargePeerQuota (de_now e) source (total_bytes candidates) s1 = (ok, s2)" using q by simp
    show thesis
      using chargePeerQuota_state [OF c] assms(2) s1 that by auto
  next
    case False
    then show thesis using q s1 assms(2) that [of "dm_quota s"] by auto
  qed
  have eq: "acceptForStorage e topic entries source s =
    (if length existing \<ge> MAX_ENTRIES_PER_TOPIC then (Inr [], s)
     else if existing = [] \<and> length (ms_topics st) \<ge> MAX_TOPICS then (Inr [], s)
     else if fresh_entries existing entries = [] then (Inr [], s)
     else if usage + total_bytes candidates > MAX_TOTAL_BYTES then (Inr [], s1)
     else if \<not> ok then (Inr [], s2)
     else (Inr candidates, s2\<lparr>dm_store := Some (ms_put (de_now e) topic candidates st),
       dm_usage := Some (usage + total_bytes candidates)\<rparr>))"
    unfolding acceptForStorage_def acceptForStorageNow_def Some option.case Let_def
      existing_def [symmetric] candidates_def [symmetric] u prod.case q by simp
  have n0: thesis if "r = Inr []" "s' = s" using that assms(2) by (intro dropped [of "dm_quota s" "dm_usage s"]) auto
  have n1: thesis if "r = Inr []" "s' = s1" using that assms(2) s1 by (intro dropped [of "dm_quota s" uu]) auto
  have n2: thesis if "r = Inr []" "s' = s2" using that s2 by (intro dropped [of m uu]) auto
  show thesis
  proof (cases "length existing < MAX_ENTRIES_PER_TOPIC \<and> \<not> (existing = [] \<and> length (ms_topics st) \<ge> MAX_TOPICS) \<and>
      fresh_entries existing entries \<noteq> [] \<and> \<not> usage + total_bytes candidates > MAX_TOTAL_BYTES \<and> ok")
    case False
    then show thesis using assms(1) n0 n1 n2 unfolding eq by (auto split: if_splits)
  next
    case True
    then have "candidates \<noteq> []" by (simp add: candidates_def)
    then show thesis
      using True assms(1) s2 unfolding eq
      by (intro kept [OF Some existing_def candidates_def, of m usage]) (auto simp: not_less not_le)
  qed
qed

lemma store_ok_put:
  assumes st: "store_ok S now st" and ex: "existing = (case ms_get st topic of Some es \<Rightarrow> es | None \<Rightarrow> [])"
    and c: "candidates = take (MAX_ENTRIES_PER_TOPIC - length existing) (fresh_entries existing entries)"
    and room: "existing = [] \<longrightarrow> length (ms_topics st) < MAX_TOPICS" "candidates \<noteq> []"
    and valid: "\<forall>entry \<in> set entries. entry_valid S now entry"
  shows "store_ok S now (ms_put t topic candidates st)"
proof -
  have wf: "jm_wf st" and b: "ms.bounded MAX_ENTRIES_PER_TOPIC MAX_TOPICS st" and a: "ms.all_entries (entry_valid S now) st"
    using st by (simp_all add: store_ok_def)
  note fr = fresh_entries_result [of existing entries]
  have sub: "set candidates \<subseteq> set entries" using fr set_take_subset [of _ "fresh_entries existing entries"] c by blast
  have len: "length candidates \<le> MAX_ENTRIES_PER_TOPIC - length existing" using c by simp
  have d: "distinct candidates" using fr c by (simp add: distinct_take)
  have "ms.bounded MAX_ENTRIES_PER_TOPIC MAX_TOPICS (ms_put t topic candidates st)"
  proof (rule ms.bounded_put [OF wf UNIV_I b d])
    assume "ms_get st topic = None"
    then show "length (ms_topics st) < MAX_TOPICS \<and> length candidates \<le> MAX_ENTRIES_PER_TOPIC"
      using ex room(1) len by simp
  next
    fix old assume "ms_get st topic = Some old"
    then have "existing = old" using ex by simp
    then show "length old + length candidates \<le> MAX_ENTRIES_PER_TOPIC"
      using len room(2) c by (cases "length old \<le> MAX_ENTRIES_PER_TOPIC") auto
  qed
  moreover have "ms.all_entries (entry_valid S now) (ms_put t topic candidates st)"
    using ms.all_entries_put [OF wf UNIV_I a] valid sub by blast
  ultimately show ?thesis using ms.ok_put [OF wf UNIV_I] by (simp add: store_ok_def)
qed

lemma accept_ok:
  assumes "acceptForStorage e topic entries source s = (r, s')" "dm_ok S now s"
    "\<forall>entry \<in> set entries. entry_valid S now entry"
  shows "dm_ok S now s'"
proof -
  have q: "quota_ok (dm_quota s)" using assms(2) by (simp add: dm_ok_def)
  from assms(1) q show ?thesis
  proof (cases rule: accept_cases)
    case (dropped u m)
    then show ?thesis using assms(2) by (simp add: dm_ok_def)
  next
    case (kept st u m existing candidates)
    have "store_ok S now st" using assms(2) kept(1) by (simp add: dm_ok_def)
    from store_ok_put [OF this kept(2,3,5,4) assms(3)] show ?thesis
      using kept(7,9) assms(2) by (simp add: dm_ok_def)
  qed
qed

lemma putToKNearest_ok:
  assumes "dm_ok S now s" "entry_valid S now data"
  shows "dm_ok S now (snd (putToKNearest e topic data s))"
  using assms accept_ok [of e topic "[data]" "de_me e" s _ _ S now]
  by (cases "acceptForStorage e topic [data] (de_me e) s") (simp add: putToKNearest_def Let_def)

lemma add_unique_valid:
  "\<forall>(k, entry) \<in> set m. P entry \<Longrightarrow> \<forall>entry \<in> set es. P entry \<Longrightarrow> \<forall>(k, entry) \<in> set (add_unique es m). P entry"
proof (induction es arbitrary: m)
  case (Cons x es)
  have "\<forall>(k, entry) \<in> set (jm_set (toHex x) x m). P entry" using Cons.prems by (auto dest: jm_set_in)
  then show ?case using Cons by (simp add: add_unique_def)
qed (simp add: add_unique_def)

lemma stored_valid: "dm_ok S now s \<Longrightarrow> entry \<in> set (stored topic s) \<Longrightarrow> entry_valid S now entry"
  by (auto simp: stored_def dm_ok_def store_ok_def ms.all_entries_def split: option.splits if_splits)

lemma fetches_ok_set:
  "fetches_ok S now m \<Longrightarrow> \<forall>(k, entry) \<in> set (fs_unique fs). entry_valid S now entry \<Longrightarrow> fetches_ok S now (jm_set f fs m)"
  unfolding fetches_ok_def by (auto dest!: jm_set_in)

lemma fetches_ok_get: "fetches_ok S now m \<Longrightarrow> jm_get m f = Some fs \<Longrightarrow> \<forall>(k, entry) \<in> set (fs_unique fs). entry_valid S now entry"
  using jm_get_in_set [of m f fs] unfolding fetches_ok_def by blast

lemma fetches_ok_del: "fetches_ok S now m \<Longrightarrow> fetches_ok S now (jm_del f m)"
  by (auto simp: fetches_ok_def set_jm_del)

text \<open>Steps of a fetch: the state stays in order, and whatever they deliver has been checked.\<close>

definition delivers_valid :: "sodium \<Rightarrow> int \<Rightarrow> dm_effect list \<Rightarrow> bool" where
  "delivers_valid S now fx \<longleftrightarrow> (\<forall>f es. FetchDone f es \<in> set fx \<longrightarrow> (\<forall>entry \<in> set es. entry_valid S now entry))"

lemma delivers_valid_simps [simp]:
  "delivers_valid S now []"
  "delivers_valid S now (xs @ ys) \<longleftrightarrow> delivers_valid S now xs \<and> delivers_valid S now ys"
  "delivers_valid S now (map DmNet ns)"
  "delivers_valid S now (SetFetchTimer f t # xs) \<longleftrightarrow> delivers_valid S now xs"
  "delivers_valid S now (SetGraceTimer f t # xs) \<longleftrightarrow> delivers_valid S now xs"
  "delivers_valid S now (concat xss) \<longleftrightarrow> (\<forall>xs \<in> set xss. delivers_valid S now xs)"
  "delivers_valid S now (FetchDone f es # xs) \<longleftrightarrow> (\<forall>entry \<in> set es. entry_valid S now entry) \<and> delivers_valid S now xs"
  by (auto simp: delivers_valid_def)

lemma delivers_valid_slots [simp]: "delivers_valid S now (notify_slots topic es s)"
  by (auto simp: delivers_valid_def notify_slots_def)

lemma fetch_finalize_ok:
  assumes "dm_ok S now s"
  shows "dm_ok S now (snd (fetch_finalize f s)) \<and> delivers_valid S now (fst (fetch_finalize f s))"
proof (cases "jm_get (dm_fetches s) f")
  case (Some fs)
  then have "\<forall>(k, entry) \<in> set (fs_unique fs). entry_valid S now entry"
    using assms fetches_ok_get [of S now "dm_fetches s" f fs] by (simp add: dm_ok_def)
  then show ?thesis using assms Some by (auto simp: fetch_finalize_def dm_ok_def fetches_ok_del)
qed (use assms in \<open>simp add: fetch_finalize_def\<close>)

lemma fetch_resolve_ok:
  assumes "dm_ok S now s" "\<forall>entry \<in> set packets. entry_valid S now entry"
  shows "dm_ok S now (snd (fetch_resolve f packets s)) \<and> delivers_valid S now (fst (fetch_resolve f packets s))"
proof (cases "jm_get (dm_fetches s) f")
  case (Some fs)
  have "\<forall>(k, entry) \<in> set (fs_unique fs). entry_valid S now entry"
    using assms Some fetches_ok_get [of S now "dm_fetches s" f fs] by (simp add: dm_ok_def)
  from add_unique_valid [OF this assms(2)]
  have s1: "dm_ok S now (s\<lparr>dm_fetches := jm_set f (fs\<lparr>fs_responses := n, fs_unique := add_unique packets (fs_unique fs), fs_grace := g\<rparr>) (dm_fetches s)\<rparr>)"
    for n g
    using assms(1) fetches_ok_set by (simp add: dm_ok_def)
  have eq: "fs\<lparr>fs_responses := n, fs_unique := u\<rparr> = fs\<lparr>fs_responses := n, fs_unique := u, fs_grace := fs_grace fs\<rparr>" for n u
    by simp
  show ?thesis
    using s1 [where n = "fs_responses fs + 1" and g = "fs_grace fs"] s1 [where n = "fs_responses fs + 1" and g = True]
      fetch_finalize_ok [of S now "s\<lparr>dm_fetches := jm_set f (fs\<lparr>fs_responses := fs_responses fs + 1,
        fs_unique := add_unique packets (fs_unique fs)\<rparr>) (dm_fetches s)\<rparr>" f]
    by (auto simp: fetch_resolve_def Some Let_def)
qed (use assms in \<open>simp add: fetch_resolve_def\<close>)

lemma fetch_requests_ok:
  "dm_ok S now s \<Longrightarrow> dm_ok S now (snd (fetch_requests e topic f reqs s)) \<and> delivers_valid S now (fst (fetch_requests e topic f reqs s))"
  by (induction e topic f reqs s rule: fetch_requests.induct)
    (auto simp: sendDHTGet_def dm_send_def split: prod.split)

lemma dm_fetch_ok:
  assumes "dm_ok S now s"
  shows "dm_ok S now (snd (dm_fetch e ids f topic s)) \<and> delivers_valid S now (fst (dm_fetch e ids f topic s))"
proof -
  have u: "\<forall>(k, entry) \<in> set (add_unique (stored topic s) []). entry_valid S now entry"
    using stored_valid [OF assms] by (intro add_unique_valid) auto
  define nearest where "nearest = filter (\<lambda>p. p \<noteq> de_me e) (findKNearest e (hashToPosition topic) K_NEAREST)"
  define reqIds where "reqIds = map (\<lambda>i. ''fetch_'' @ ids i) [0..<length nearest]"
  define fs where "fs = \<lparr>fs_unique = add_unique (stored topic s) [], fs_responses = 0, fs_expected = length nearest,
    fs_requestIds = reqIds, fs_grace = False\<rparr>"
  have "dm_ok S now (s\<lparr>dm_fetches := jm_set f fs (dm_fetches s)\<rparr>)"
    using assms u fetches_ok_set by (simp add: dm_ok_def fs_def)
  from fetch_requests_ok [OF this, of e topic f "zip nearest reqIds"]
  have "dm_ok S now (snd (fetch_requests e topic f (zip nearest reqIds) (s\<lparr>dm_fetches := jm_set f fs (dm_fetches s)\<rparr>)))"
    "delivers_valid S now (fst (fetch_requests e topic f (zip nearest reqIds) (s\<lparr>dm_fetches := jm_set f fs (dm_fetches s)\<rparr>)))"
    by simp_all
  then show ?thesis
    using assms u unfolding dm_fetch_def Let_def nearest_def [symmetric] reqIds_def [symmetric] fs_def [symmetric]
    by (auto split: prod.split)
qed

lemma ms_prune_ok: "store_ok S now st \<Longrightarrow> store_ok S now (ms_prune c st)"
  using ms.ok_prune ms.bounded_prune ms.all_entries_prune unfolding store_ok_def by blast

lemma pruneExpired_ok: "dm_ok S now s \<Longrightarrow> dm_ok S now (pruneExpired t s)"
  by (auto simp: pruneExpired_def dm_ok_def quota_ok_def Let_def ms_prune_ok split: option.split)

lemma handlePut_ok:
  assumes "dm_ok (de_S e) (de_now e) s"
  shows "dm_ok (de_S e) (de_now e) (snd (snd (handlePut e p msg s))) \<and>
    delivers_valid (de_S e) (de_now e) (fst (snd (handlePut e p msg s)))"
  using assms accept_ok [of e _ _ p s _ _ "de_S e" "de_now e"] filterValidEntries_result(1) [of "de_S e" "de_now e" "jget msg ''entries''"]
  by (auto simp: handlePut_def split: jsval.split sum.split prod.split)

lemma handleRes_ok:
  assumes "dm_ok (de_S e) (de_now e) s"
  shows "dm_ok (de_S e) (de_now e) (snd (snd (handleRes e p msg s))) \<and>
    delivers_valid (de_S e) (de_now e) (fst (snd (handleRes e p msg s)))"
proof (cases "\<exists>reqId req acc rej. jget msg ''reqId'' = JStr reqId \<and> jm_get (dm_pending s) reqId = Some req \<and> pr_target req = p \<and>
    jget msg ''topicHash'' = JStr (pr_topic req) \<and> filterValidEntries (de_S e) (de_now e) (jget msg ''entries'') = Inr (acc, rej)")
  case True
  then obtain reqId req acc rej where *: "jget msg ''reqId'' = JStr reqId" "jm_get (dm_pending s) reqId = Some req" "pr_target req = p"
    "jget msg ''topicHash'' = JStr (pr_topic req)" "filterValidEntries (de_S e) (de_now e) (jget msg ''entries'') = Inr (acc, rej)"
    by blast
  let ?s1 = "s\<lparr>dm_pending := jm_del reqId (dm_pending s)\<rparr>"
  have v: "\<forall>entry \<in> set acc. entry_valid (de_S e) (de_now e) entry" using filterValidEntries_result(1) [OF *(5)] .
  obtain fx1 s2 where r: "fetch_resolve (pr_fetch req) acc ?s1 = (fx1, s2)" by force
  have 2: "dm_ok (de_S e) (de_now e) s2" "delivers_valid (de_S e) (de_now e) fx1"
    using fetch_resolve_ok [of "de_S e" "de_now e" ?s1 acc "pr_fetch req"] assms v r by simp_all
  obtain k s3 where a: "acceptForStorage e (pr_topic req) acc p s2 = (k, s3)" by force
  have 3: "dm_ok (de_S e) (de_now e) s3" using accept_ok [OF a 2(1) v] .
  show ?thesis using * r a 2 3 by (cases k) (auto simp: handleRes_def)
next
  case False
  then show ?thesis using assms by (auto simp: handleRes_def Let_def split: jsval.split option.split sum.split prod.split)
qed

lemma storeSlotAsExit_ok:
  assumes "dm_ok (de_S e) (de_now e) s"
  shows "dm_ok (de_S e) (de_now e) (snd (storeSlotAsExit e topic h packet s)) \<and>
    delivers_valid (de_S e) (de_now e) (fst (storeSlotAsExit e topic h packet s))"
proof -
  have n: "delivers_valid (de_S e) (de_now e) (fst (putToKNearest e topic entry s))" for entry
    by (simp add: putToKNearest_def Let_def sendDHTPut_def dm_send_def)
  show ?thesis
  proof (cases "\<exists>hint packet'. decodeHint h = Some hint \<and>
      checkEntry (de_S e) (de_now e) (slot_entry (de_fmt e) hint packet) = Inr (Inr packet')")
    case True
    then obtain hint packet' where *: "decodeHint h = Some hint"
      "checkEntry (de_S e) (de_now e) (slot_entry (de_fmt e) hint packet) = Inr (Inr packet')" by blast
    then have "entry_valid (de_S e) (de_now e) (slot_entry (de_fmt e) hint packet)" by (simp add: entry_valid_def)
    then show ?thesis using * assms putToKNearest_ok [OF assms] n by (simp add: storeSlotAsExit_def)
  next
    case False
    then show ?thesis using assms by (auto simp: storeSlotAsExit_def Let_def split: option.split sum.split)
  qed
qed

lemma dm_exec_ok:
  assumes "dm_ok (de_S e) (de_now e) s"
  shows "dm_ok (de_S e) (de_now e) (snd (dm_exec e op s)) \<and> delivers_valid (de_S e) (de_now e) (fst (dm_exec e op s))"
proof (cases op)
  case (DmGet p msg)
  have "delivers_valid S now (handleGet e p msg s)" for S now
    by (simp add: handleGet_def sendDHTRes_def dm_send_def split: jsval.split option.split)
  then show ?thesis using DmGet assms by simp
qed (use assms in \<open>simp_all add: handlePut_ok handleRes_ok storeSlotAsExit_ok dm_fetch_ok fetch_finalize_ok
    pruneExpired_ok onSlotStored_def startMaintenance_def stopMaintenance_def\<close>)

fun dm_run :: "(dm_env \<times> dm_op) list \<Rightarrow> mailbox \<Rightarrow> dm_step" where
  "dm_run [] s = ([], s)"
| "dm_run ((e, op) # evs) s =
     (let (fx1, s1) = dm_exec e op s; (fx2, s2) = dm_run evs s1 in (fx1 @ fx2, s2))"

lemma delivers_valid_mono: "delivers_valid S now fx \<Longrightarrow> now \<le> now' \<Longrightarrow> delivers_valid S now' fx"
  using entry_valid_mono unfolding delivers_valid_def by blast

lemma dm_run_ok:
  assumes "dm_ok S now s" "sorted (map (\<lambda>(e, op). de_now e) evs)"
    "\<forall>(e, op) \<in> set evs. de_S e = S \<and> now \<le> de_now e \<and> de_now e \<le> end"
    "now \<le> end"
  shows "dm_ok S end (snd (dm_run evs s)) \<and> delivers_valid S end (fst (dm_run evs s))"
  using assms
proof (induction evs arbitrary: s now)
  case Nil
  then show ?case using dm_ok_mono by auto
next
  case (Cons ev evs)
  obtain e op where ev: "ev = (e, op)" by force
  have e: "de_S e = S" "now \<le> de_now e" "de_now e \<le> end" using Cons.prems(3) ev by simp_all
  obtain fx1 s1 where x: "dm_exec e op s = (fx1, s1)" by force
  have "dm_ok (de_S e) (de_now e) s" using dm_ok_mono [OF Cons.prems(1) e(2)] e(1) by simp
  from dm_exec_ok [OF this, of op] have 1: "dm_ok S (de_now e) s1" "delivers_valid S (de_now e) fx1" using x e(1) by simp_all
  have "\<forall>(e', op) \<in> set evs. de_S e' = S \<and> de_now e \<le> de_now e' \<and> de_now e' \<le> end"
    using Cons.prems(2,3) ev by fastforce
  then have "dm_ok S end (snd (dm_run evs s1)) \<and> delivers_valid S end (fst (dm_run evs s1))"
    using Cons.IH [OF 1(1)] Cons.prems(2) ev e(3) by auto
  then show ?case using delivers_valid_mono [OF 1(2) e(3)] by (auto simp: ev x split: prod.split)
qed

text \<open>C8: Whatever peers send, and whatever the node itself does, its store holds only entries that are checked
  and paid for, at most four different ones for a topic and at most 4096 topics; no neighbour has put in
  more than 8 MiB in its hour; and a fetch delivers only checked entries.\<close>

theorem mailbox_invariant:
  assumes "dm_ok S now s" "sorted (map (\<lambda>(e, op). de_now e) evs)"
    "\<forall>(e, op) \<in> set evs. de_S e = S \<and> now \<le> de_now e \<and> de_now e \<le> end" "now \<le> end"
  shows "(\<forall>st topic es. dm_store (snd (dm_run evs s)) = Some st \<longrightarrow> ms_get st topic = Some es \<longrightarrow>
      length es \<le> MAX_ENTRIES_PER_TOPIC \<and> distinct es \<and> (\<forall>entry \<in> set es. entry_valid S end entry)) \<and>
    (\<forall>st. dm_store (snd (dm_run evs s)) = Some st \<longrightarrow> length (ms_topics st) \<le> MAX_TOPICS) \<and>
    (\<forall>p w b. jm_get (dm_quota (snd (dm_run evs s))) p = Some (w, b) \<longrightarrow> b \<le> MAX_BYTES_PER_PEER_PER_HOUR) \<and>
    (\<forall>f es entry. FetchDone f es \<in> set (fst (dm_run evs s)) \<longrightarrow> entry \<in> set es \<longrightarrow> entry_valid S end entry)"
proof -
  note ok = dm_run_ok [OF assms]
  have "quota_ok (dm_quota (snd (dm_run evs s)))" using ok by (simp add: dm_ok_def)
  then show ?thesis
    using ok quota_ok_get [of "dm_quota (snd (dm_run evs s))"]
    unfolding dm_ok_def store_ok_def ms.bounded_def ms.all_entries_def delivers_valid_def by blast
qed

definition toy_dm_env :: dm_env where
  "toy_dm_env = \<lparr>de_cfg = \<lparr>pc_S = toy_sodium, pc_M = toy_msgpack, pc_identity = fromKeyPair toy_sodium [] [] 0,
       pc_pow = NODE_ID_POW, pc_allowMissing = False, pc_rates = RATE_LIMITS, pc_misopts = default_options\<rparr>,
     de_pm = pm_init, de_now = 0, de_size = (\<lambda>_. 0), de_fmt = (\<lambda>_. [])\<rparr>"

theorem mailbox_invariant_witness:
  "\<exists>st. dm_store (snd (dm_run [(toy_dm_env, DmPut ''p'' Null), (toy_dm_env, DmPrune)] (dm_init (Some [])))) = Some st \<and>
     length (ms_topics st) \<le> MAX_TOPICS"
proof -
  have "dm_ok toy_sodium 0 (dm_init (Some []))"
    by (simp add: dm_ok_def dm_init_def store_ok_def quota_ok_def fetches_ok_def ms.bounded_def ms.all_entries_def
        ms_topics_def ms_get_def)
  note inv = mailbox_invariant [OF this, of "[(toy_dm_env, DmPut ''p'' Null), (toy_dm_env, DmPrune)]" 0]
  have "dm_store (snd (dm_run [(toy_dm_env, DmPut ''p'' Null), (toy_dm_env, DmPrune)] (dm_init (Some [])))) = Some []"
    by (simp add: handlePut_def isValidTopicHash_def pruneExpired_def dm_init_def ms_prune_def)
  with inv show ?thesis by (simp add: toy_dm_env_def)
qed

subsection \<open>Attribution and repetition\<close>

lemma filter_Inr_valid: "filterValidEntries S now v = Inr (acc, rej) \<Longrightarrow> \<forall>entry \<in> set acc. entry_valid S now entry"
  by (rule filterValidEntries_result(1))

text \<open>C9: A node stores for others only what is near it: a put changes the store only if its topic is a hash
  for which the node is among the eight nearest nodes it knows, and everything it adds is a checked entry
  of that very topic; every other topic is as before.\<close>

theorem put_only_if_responsible:
  assumes "dm_ok (de_S e) (de_now e) s" "dm_store (snd (snd (handlePut e p msg s))) \<noteq> dm_store s"
  shows "\<exists>topic st kept. jget msg ''topicHash'' = JStr topic \<and> is_topic_hash topic \<and> isResponsibleFor e topic \<and>
    dm_store s = Some st \<and> dm_store (snd (snd (handlePut e p msg s))) = Some (ms_put (de_now e) topic kept st) \<and>
    kept \<noteq> [] \<and> (\<forall>entry \<in> set kept. entry_valid (de_S e) (de_now e) entry) \<and>
    fst (snd (handlePut e p msg s)) = notify_slots topic kept s \<and>
    (\<forall>u. u \<noteq> topic \<longrightarrow> ms_get (ms_put (de_now e) topic kept st) u = ms_get st u)"
proof -
  obtain topic where topic: "jget msg ''topicHash'' = JStr topic" "is_topic_hash topic" "isResponsibleFor e topic"
    using assms(2) by (auto simp: handlePut_def split: jsval.splits if_splits)
  obtain acc rej where acc: "filterValidEntries (de_S e) (de_now e) (jget msg ''entries'') = Inr (acc, rej)" "acc \<noteq> []"
    using assms(2) topic by (auto simp: handlePut_def split: sum.splits if_splits)
  obtain r s1 where a: "acceptForStorage e topic acc p s = (r, s1)" by force
  have q: "quota_ok (dm_quota s)" using assms(1) by (simp add: dm_ok_def)
  have h: "handlePut e p msg s = (case r of Inl _ \<Rightarrow> (Inr (), [], s1) | Inr kept \<Rightarrow> (Inr (), notify_slots topic kept s1, s1))"
    using topic acc a by (simp add: handlePut_def)
  from a q show ?thesis
  proof (cases rule: accept_cases)
    case (dropped u m)
    then show ?thesis using assms(2) h by (auto split: sum.splits)
  next
    case (kept st u m existing candidates)
    have "set candidates \<subseteq> set acc"
      using fresh_entries_result [of existing acc] set_take_subset [of _ "fresh_entries existing acc"] kept(3) by blast
    moreover have "notify_slots topic candidates s1 = notify_slots topic candidates s"
      using kept(9) by (simp add: notify_slots_def)
    moreover have "\<forall>u. u \<noteq> topic \<longrightarrow> ms_get (ms_put (de_now e) topic candidates st) u = ms_get st u"
      by (simp add: ms_get_put)
    ultimately show ?thesis
      using kept topic h filter_Inr_valid [OF acc(1)]
      by (intro exI [of _ topic] exI [of _ st] exI [of _ candidates]) auto
  qed
qed

definition put_msg :: "bytes \<Rightarrow> jsval" where
  "put_msg entry = JObj [(''topicHash'', JStr zero_id), (''entries'', JArr [JBytes entry])]"

lemma zero_id_topic: "is_topic_hash zero_id"
  by code_simp

lemma toy_responsible: "isResponsibleFor toy_dm_env topic"
  by (simp add: isResponsibleFor_def findKNearest_def ring_nodes_def toy_dm_env_def pm_init_def)

lemma toy_filter: "filterValidEntries toy_sodium 0 (JArr [JBytes toy_entry]) = Inr ([toy_entry], [])"
  by (simp add: filterValidEntries_def entry_bytes_def toy_entry_checked)

theorem put_only_if_responsible_witness:
  "\<exists>st kept. dm_store (snd (snd (handlePut toy_dm_env ''p'' (put_msg toy_entry) (dm_init (Some []))))) =
     Some (ms_put 0 zero_id kept st) \<and> kept \<noteq> []"
proof -
  let ?s = "dm_init (Some [])"
  have S: "de_S toy_dm_env = toy_sodium" "de_now toy_dm_env = 0" by (simp_all add: toy_dm_env_def)
  have ok: "dm_ok (de_S toy_dm_env) (de_now toy_dm_env) ?s"
    by (simp add: dm_ok_def dm_init_def store_ok_def quota_ok_def fetches_ok_def ms.bounded_def ms.all_entries_def
        ms_topics_def ms_get_def)
  have n: "length toy_entry \<le> 16384" using entry_lengths by simp
  have "acceptForStorage toy_dm_env zero_id [toy_entry] ''p'' ?s =
    (Inr [toy_entry], ?s\<lparr>dm_store := Some [(zero_id, [toy_entry], 0)], dm_usage := Some (length toy_entry),
       dm_quota := [(''p'', 0, length toy_entry)]\<rparr>)"
    if "''p'' \<noteq> de_me toy_dm_env"
    using n that
    by (simp add: acceptForStorage_def acceptForStorageNow_def dm_init_def ms_get_def ms_topics_def ms_put_def
        currentUsage_def chargePeerQuota_def total_bytes_def Let_def S toy_dm_env_def)
  moreover have "acceptForStorage toy_dm_env zero_id [toy_entry] ''p'' ?s =
    (Inr [toy_entry], ?s\<lparr>dm_store := Some [(zero_id, [toy_entry], 0)], dm_usage := Some (length toy_entry)\<rparr>)"
    if "''p'' = de_me toy_dm_env"
    using n that
    by (simp add: acceptForStorage_def acceptForStorageNow_def dm_init_def ms_get_def ms_topics_def ms_put_def
        currentUsage_def total_bytes_def Let_def S toy_dm_env_def)
  ultimately have "dm_store (snd (snd (handlePut toy_dm_env ''p'' (put_msg toy_entry) ?s))) \<noteq> dm_store ?s"
    using toy_responsible zero_id_topic toy_filter
    by (cases "''p'' = de_me toy_dm_env") (simp_all add: handlePut_def put_msg_def S dm_init_def)
  from put_only_if_responsible [OF ok this] show ?thesis by (auto simp: put_msg_def S)
qed

text \<open>A put that reaches the check of its entries can make it throw: an entry whose packet has a payload
  with a BigInt, which the reviver of JSON builds from untrusted text, is not rejected but ends the handler
  with a type error, and nothing else of the message is looked at. No state is changed, but the promise of
  the handler is rejected and nothing handles that.\<close>

theorem put_throws_on_bigint:
  "isResponsibleFor e zero_id \<longrightarrow>
   (\<forall>more p s. handlePut e p (JObj [(''topicHash'', JStr zero_id), (''entries'', JArr (JBytes poison_entry # more))]) s =
     (Inl TypeError, [], s))"
  by (simp add: handlePut_def zero_id_topic filterValidEntries_def entry_bytes_def poison_throws)

theorem put_throws_on_bigint_witness:
  "handlePut toy_dm_env ''p'' (JObj [(''topicHash'', JStr zero_id), (''entries'', JArr [JBytes poison_entry])]) (dm_init None) =
     (Inl TypeError, [], dm_init None)"
  using put_throws_on_bigint [of toy_dm_env] toy_responsible by blast

text \<open>Storing is idempotent: once a put has added entries to a topic, the same put again, from whoever and
  at any later time, adds nothing, counts nothing against anybody's share and notifies nobody, so the
  periodic copies between holders cannot use up the space.\<close>

theorem put_twice_keeps_once:
  assumes "acceptForStorage e topic entries p s = (Inr kept, s1)" "kept \<noteq> []" "dm_store s1 = dm_store s2"
  shows "acceptForStorage e' topic entries q s2 = (Inr [], s2)"
proof -
  have st: "\<exists>st. dm_store s = Some st" using assms(1) by (auto simp: acceptForStorage_def acceptForStorageNow_def split: option.splits)
  then obtain st where st: "dm_store s = Some st" by blast
  define existing where "existing = (case ms_get st topic of Some es \<Rightarrow> es | None \<Rightarrow> [])"
  define fresh where "fresh = fresh_entries existing entries"
  have k: "kept = take (MAX_ENTRIES_PER_TOPIC - length existing) fresh"
    and s1: "dm_store s1 = Some (ms_put (de_now e) topic kept st)"
    using assms(1,2) unfolding acceptForStorage_def acceptForStorageNow_def st option.case Let_def
      existing_def [symmetric] fresh_def [symmetric]
    by (auto split: if_splits prod.splits)
  have fr: "set fresh = set entries - set existing" "distinct fresh"
    using fresh_entries_result [of existing entries] by (simp_all add: fresh_def)
  have "set kept \<inter> set existing = {}" using fr(1) set_take_subset [of _ fresh] k by blast
  then have "merge_entries (ms_get st topic) kept = existing @ kept"
    using merge_entries_fresh [of kept existing] unfolding existing_def
    by (cases "ms_get st topic") (simp_all add: merge_entries_def)
  then have get: "ms_get (ms_put (de_now e) topic kept st) topic = Some (existing @ kept)" by (simp add: ms_get_put)
  have none: "fresh_entries (existing @ kept) entries = []"
    if "\<not> length (existing @ kept) \<ge> MAX_ENTRIES_PER_TOPIC"
  proof -
    have "kept = fresh" using that k by (cases "length fresh \<le> MAX_ENTRIES_PER_TOPIC - length existing") auto
    then have "set (fresh_entries (existing @ kept) entries) = {}"
      using fresh_entries_result [of "existing @ kept" entries] fr(1) by auto
    then show ?thesis by simp
  qed
  have s2: "dm_store s2 = Some (ms_put (de_now e) topic kept st)" using assms(3) s1 by simp
  have "existing @ kept \<noteq> []" using assms(2) by simp
  then show ?thesis
    unfolding acceptForStorage_def acceptForStorageNow_def s2 option.case get Let_def
    using none by (simp only: if_False if_True simp_thms split: if_split) blast
qed

theorem put_twice_keeps_once_witness:
  "\<exists>s1. acceptForStorage toy_dm_env zero_id [toy_entry] ''p'' (dm_init (Some [])) = (Inr [toy_entry], s1) \<and>
     acceptForStorage toy_dm_env zero_id [toy_entry] ''q'' s1 = (Inr [], s1)"
proof -
  have "\<exists>s1. acceptForStorage toy_dm_env zero_id [toy_entry] ''p'' (dm_init (Some [])) = (Inr [toy_entry], s1)"
    using entry_lengths
    by (cases "''p'' = de_me toy_dm_env")
      (simp_all add: acceptForStorage_def acceptForStorageNow_def dm_init_def ms_get_def ms_topics_def
        currentUsage_def chargePeerQuota_def total_bytes_def Let_def, simp_all add: toy_dm_env_def)
  then obtain s1 where "acceptForStorage toy_dm_env zero_id [toy_entry] ''p'' (dm_init (Some [])) = (Inr [toy_entry], s1)" ..
  with put_twice_keeps_once [OF this _ refl, of toy_dm_env "''q''"] show ?thesis by auto
qed

end
