(* ===== verification/Zone.thy ===== *)
theory Zone
  imports Sodium JsText Encoding
begin

text \<open>
  Topics and zones: the key derivations of \<open>packages/core/src/crypto/KeyManager.ts\<close> and the
  adaptive zone state of \<open>packages/core/src/network/ZoneManager.ts\<close> (depth, the 16 subscribed
  zones, the watched topics with their reference counts). The lemmas show that zones are nested
  prefixes of a topic, that the depth is the least one that keeps a zone's population at the target,
  that the subscription always has its size and range, and that a watched topic is received
  whatever depth its packets were made for.
\<close>

subsection \<open>Key derivations\<close>

definition deriveThreadKey :: "sodium \<Rightarrow> bytes \<Rightarrow> string \<Rightarrow> bytes option" where
  "deriveThreadKey S boardkey threadId = hmac S (utf8 (''thread:'' @ threadId)) boardkey"

text \<open>\<open>sodium.crypto_hash\<close> is SHA-512.\<close>

definition deriveTopicHash :: "sodium \<Rightarrow> bytes \<Rightarrow> bytes" where
  "deriveTopicHash S threadKey = take 32 (sha512 S threadKey)"

definition cryptoHash :: "sodium \<Rightarrow> bytes \<Rightarrow> bytes" where
  "cryptoHash S d = sha512 S d"

text \<open>For depths up to 16; the code goes to \<open>MAX_DEPTH\<close>.\<close>

definition computeZoneId :: "bytes \<Rightarrow> nat \<Rightarrow> int" where
  "computeZoneId topicHash depth =
     (if depth = 0 then 0
      else drop_bit (16 - depth) (push_bit 8 (uint (topicHash ! 0)) OR uint (topicHash ! 1)))"

lemma push_bit_or:
  assumes "0 \<le> r" "r < 2 ^ k"
  shows "push_bit k a OR r = a * 2 ^ k + (r :: int)"
proof -
  have r: "take_bit k r = r" using assms by (simp add: take_bit_int_eq_self)
  have "push_bit k a AND r = 0"
  proof (rule bit_eqI)
    fix n
    have "bit r n \<Longrightarrow> n < k" using r by (metis bit_take_bit_iff)
    then show "bit (push_bit k a AND r) n = bit (0 :: int) n" by (auto simp: bit_and_iff bit_push_bit_iff)
  qed
  then show ?thesis using plus_and_or [of "push_bit k a" r] by (simp add: push_bit_eq_mult)
qed

lemma byte_or: "push_bit 8 (uint (a :: byte)) OR uint (b :: byte) = uint a * 256 + uint b"
  using push_bit_or [of "uint b" 8 "uint a"] uint_bounded [of b] by simp

lemma computeZoneId_eq:
  assumes "2 \<le> length t" "d \<le> 16"
  shows "computeZoneId t d = be_val (take 2 t) div 2 ^ (16 - d)"
proof -
  obtain a b r where t: "t = a # b # r" using assms(1) by (cases t; cases "tl t") auto
  have v: "be_val (take 2 t) = uint a * 256 + uint b" by (simp add: t be_val_def)
  show ?thesis
  proof (cases "d = 0")
    case True
    have "be_val (take 2 t) < 65536" using be_val_bound [of "take 2 t"] assms(1) by simp
    then have "be_val (take 2 t) div 65536 = 0" by (intro div_pos_pos_trivial) simp_all
    then show ?thesis using True by (simp add: computeZoneId_def)
  next
    case False
    then have "computeZoneId t d = (uint a * 256 + uint b) div 2 ^ (16 - d)"
      by (simp only: computeZoneId_def byte_or drop_bit_eq_div t nth_Cons_0 nth_Cons_Suc One_nat_def if_False)
    then show ?thesis by (simp only: v)
  qed
qed

subsection \<open>State\<close>

definition MAX_DEPTH :: nat where [simp]: "MAX_DEPTH = 12"
definition TARGET_ZONE_POP :: rat where [simp]: "TARGET_ZONE_POP = 500"
definition SUBSCRIBE_COUNT :: nat where [simp]: "SUBSCRIBE_COUNT = 16"
definition MIN_PEERS_FOR_ESTIMATE :: nat where [simp]: "MIN_PEERS_FOR_ESTIMATE = 8"

record zone_state =
  zn_depth :: nat
  zn_subscribed :: "int list"
  zn_watched :: "(string, bytes \<times> int) jsmap"
  zn_networkSize :: jsnum
  zn_decreasePending :: bool

definition isSubscribed :: "zone_state \<Rightarrow> int \<Rightarrow> bool" where
  "isSubscribed z zoneId =
     (let totalZones = 2 ^ zn_depth z in
      if totalZones \<le> SUBSCRIBE_COUNT then True
      else if zoneId \<in> set (zn_subscribed z) then True
      else list_ex (\<lambda>(_, topic, _). list_ex (\<lambda>d. computeZoneId topic d = zoneId) [0..<Suc MAX_DEPTH]) (zn_watched z))"

definition watch_key :: "bytes \<Rightarrow> string" where
  "watch_key topicHash = toHex (take 32 topicHash)"

definition watchTopic :: "bytes \<Rightarrow> zone_state \<Rightarrow> zone_state" where
  "watchTopic topicHash z =
     (let key = watch_key topicHash in
      case jm_get (zn_watched z) key of
        Some (topic, refs) \<Rightarrow> z\<lparr>zn_watched := jm_set key (topic, refs + 1) (zn_watched z)\<rparr>
      | None \<Rightarrow> z\<lparr>zn_watched := jm_set key (take 32 topicHash, 1) (zn_watched z)\<rparr>)"

text \<open>The release returned by \<open>watchTopic\<close>; \<open>released\<close> is its own flag, so it acts once.\<close>

definition releaseTopic :: "bytes \<Rightarrow> bool \<Rightarrow> zone_state \<Rightarrow> bool \<times> zone_state" where
  "releaseTopic topicHash released z =
     (if released then (True, z)
      else
        (let key = watch_key topicHash in
         case jm_get (zn_watched z) key of
           None \<Rightarrow> (True, z)
         | Some (topic, refs) \<Rightarrow>
             if refs - 1 \<le> 0 then (True, z\<lparr>zn_watched := jm_del key (zn_watched z)\<rparr>)
             else (True, z\<lparr>zn_watched := jm_set key (topic, refs - 1) (zn_watched z)\<rparr>)))"

subsection \<open>Subscription sets\<close>

text \<open>The random draws are an argument; \<open>None\<close> when the list given does not suffice.\<close>

fun fill_zones :: "int list \<Rightarrow> int list \<Rightarrow> int list option" where
  "fill_zones draws zones =
     (if length zones < SUBSCRIBE_COUNT then
        (case draws of [] \<Rightarrow> None | r # rs \<Rightarrow> fill_zones rs (js_add r zones))
      else Some zones)"

declare fill_zones.simps [simp del]

definition initSubscribedZones :: "int list \<Rightarrow> zone_state \<Rightarrow> zone_state option" where
  "initSubscribedZones draws z =
     (let totalZones = 2 ^ zn_depth z in
      if totalZones \<le> SUBSCRIBE_COUNT then Some (z\<lparr>zn_subscribed := map int [0..<totalZones]\<rparr>)
      else map_option (\<lambda>zs. z\<lparr>zn_subscribed := zs\<rparr>) (fill_zones draws []))"

fun child_zones :: "nat \<Rightarrow> int list \<Rightarrow> int list \<Rightarrow> int list \<Rightarrow> (int list \<times> int list) option" where
  "child_zones shift [] draws new = Some (new, draws)"
| "child_zones shift (old # olds) draws new =
     (if length new \<ge> SUBSCRIBE_COUNT then Some (new, draws)
      else (case draws of
              [] \<Rightarrow> None
            | r # rs \<Rightarrow> child_zones shift olds rs (js_add (push_bit shift old OR r) new)))"

definition updateSubscriptionAfterScaleUp :: "nat \<Rightarrow> int list \<Rightarrow> zone_state \<Rightarrow> zone_state option" where
  "updateSubscriptionAfterScaleUp oldDepth draws z =
     (let totalZones = 2 ^ zn_depth z in
      if totalZones \<le> SUBSCRIBE_COUNT then initSubscribedZones draws z
      else
        (let shift = zn_depth z - oldDepth in
         case child_zones shift (zn_subscribed z) draws [] of
           None \<Rightarrow> None
         | Some (new, rest) \<Rightarrow> map_option (\<lambda>zs. z\<lparr>zn_subscribed := zs\<rparr>) (fill_zones rest new)))"

subsection \<open>Depth\<close>

text \<open>\<open>Math.ceil(Math.log2(x))\<close> for \<open>x > 1\<close>.\<close>

function ceil_log2 :: "rat \<Rightarrow> nat" where
  "ceil_log2 x = (if x \<le> 1 then 0 else Suc (ceil_log2 (x / 2)))"
  by pat_completeness auto
termination
proof (relation "measure (\<lambda>x. nat \<lceil>x\<rceil>)", goal_cases)
  case (2 x)
  then have "1 < x" by simp
  then have c: "2 \<le> \<lceil>x\<rceil>" by linarith
  have "x / 2 \<le> of_int (\<lceil>x\<rceil> - 1)" 
  proof -
    have "(2 :: rat) \<le> of_int \<lceil>x\<rceil>" using c by linarith
    then show ?thesis using le_of_int_ceiling [of x] unfolding of_int_diff of_int_1 by linarith
  qed
  then have "\<lceil>x / 2\<rceil> \<le> \<lceil>x\<rceil> - 1" by (rule ceiling_le)
  then show ?case using c by simp
qed simp

declare ceil_log2.simps [simp del]

definition calculateTargetDepth :: "jsnum \<Rightarrow> nat" where
  "calculateTargetDepth est =
     (case est of
        Fin n \<Rightarrow> if n \<le> TARGET_ZONE_POP then 0 else min MAX_DEPTH (ceil_log2 (n / TARGET_ZONE_POP))
      | PosInf \<Rightarrow> MAX_DEPTH
      | _ \<Rightarrow> 0)"

definition avg_distance :: "rat \<Rightarrow> rat list \<Rightarrow> rat" where
  "avg_distance myPos positions =
     sum_list (map (\<lambda>p. let d = \<bar>p - myPos\<bar> in min d (1 - d)) positions) / of_nat (length positions)"

definition recomputeDepth :: "rat \<Rightarrow> rat list \<Rightarrow> int list \<Rightarrow> zone_state \<Rightarrow> zone_state option" where
  "recomputeDepth myPos positions draws z =
     (if length positions < MIN_PEERS_FOR_ESTIMATE then Some z
      else
        (let avgDist = avg_distance myPos positions;
             est = (if avgDist = 0 then PosInf else Fin (max 10 (1 / (avgDist * 2))));
             z1 = z\<lparr>zn_networkSize := est\<rparr>;
             targetDepth = calculateTargetDepth est in
         if targetDepth > zn_depth z1 then
           updateSubscriptionAfterScaleUp (zn_depth z1) draws
             (z1\<lparr>zn_decreasePending := False, zn_depth := targetDepth\<rparr>)
         else if targetDepth < zn_depth z1 then Some (z1\<lparr>zn_decreasePending := True\<rparr>)
         else Some (z1\<lparr>zn_decreasePending := False\<rparr>)))"

text \<open>The five-minute timer of a pending decrease fires.\<close>

definition depthDecrease :: "int list \<Rightarrow> zone_state \<Rightarrow> zone_state option" where
  "depthDecrease draws z =
     (if zn_decreasePending z
      then initSubscribedZones draws (z\<lparr>zn_decreasePending := False, zn_depth := zn_depth z - 1\<rparr>)
      else Some z)"

definition zone_init :: "zone_state" where
  "zone_init =
     \<lparr>zn_depth = 0, zn_subscribed = [0], zn_watched = [], zn_networkSize = Fin 10, zn_decreasePending = False\<rparr>"

subsection \<open>Zones are nested prefixes\<close>

lemma int_div_less: "(v :: int) < n * 2 ^ m \<Longrightarrow> v div 2 ^ m < n"
proof (rule ccontr)
  assume lt: "v < n * 2 ^ m" and "\<not> v div 2 ^ m < n"
  then have "n * 2 ^ m \<le> v div 2 ^ m * 2 ^ m" by (intro mult_right_mono) auto
  moreover have "0 \<le> v mod 2 ^ m" by simp
  then have "v div 2 ^ m * 2 ^ m \<le> v" using div_mult_mod_eq [of v "2 ^ m"] by linarith
  ultimately show False using lt by linarith
qed

text \<open>The zone of a topic at one depth is the parent of its zone at every larger depth, and lies in
  the range of its depth: packets made for different depths agree on the zone tree.\<close>

theorem zone_nesting:
  assumes "2 \<le> length t" "d + k \<le> 16"
  shows "computeZoneId t d = computeZoneId t (d + k) div 2 ^ k \<and>
    0 \<le> computeZoneId t d \<and> computeZoneId t d < 2 ^ d"
proof -
  let ?v = "be_val (take 2 t)"
  have v: "0 \<le> ?v" "?v < 65536" using be_val_bound [of "take 2 t"] assms(1) by simp_all
  have "(2 :: int) ^ (16 - d) = 2 ^ (16 - (d + k)) * 2 ^ k"
    using assms(2) by (simp flip: power_add)
  then have "computeZoneId t d = computeZoneId t (d + k) div 2 ^ k"
    using assms by (simp add: computeZoneId_eq div_mult2_eq zdiv_zmult2_eq)
  moreover have "?v < 2 ^ d * 2 ^ (16 - d)"
    using v assms(2) by (simp flip: power_add)
  then have "?v div 2 ^ (16 - d) < 2 ^ d"
    by (rule int_div_less)
  ultimately show ?thesis using assms v by (simp add: computeZoneId_eq pos_imp_zdiv_nonneg_iff)
qed

theorem zone_nesting_witness: "computeZoneId [0xab, 0xcd] 4 = computeZoneId [0xab, 0xcd] (4 + 8) div 2 ^ 8"
  using zone_nesting [of "[0xab, 0xcd]" 4 8] by simp

subsection \<open>Depth keeps the target population\<close>

lemma ceil_log2_bounds:
  "1 < x \<Longrightarrow> x \<le> 2 ^ ceil_log2 x \<and> 2 ^ (ceil_log2 x - 1) < x \<and> 0 < ceil_log2 x"
proof (induction x rule: ceil_log2.induct)
  case (1 x)
  have unf: "ceil_log2 x = Suc (ceil_log2 (x / 2))" using 1(2) by (simp add: ceil_log2.simps [of x])
  show ?case
  proof (cases "1 < x / 2")
    case True
    then have ih: "x / 2 \<le> 2 ^ ceil_log2 (x / 2)" "2 ^ (ceil_log2 (x / 2) - 1) < x / 2" "0 < ceil_log2 (x / 2)"
      using 1 by auto
    then have "(2 :: rat) ^ ceil_log2 (x / 2) = 2 * 2 ^ (ceil_log2 (x / 2) - 1)"
      by (cases "ceil_log2 (x / 2)") auto
    then show ?thesis using ih unf by simp
  next
    case False
    then have "ceil_log2 (x / 2) = 0" by (simp add: ceil_log2.simps [of "x / 2"])
    then show ?thesis using unf 1(2) False by simp
  qed
qed

text \<open>The depth chosen for an estimated network size is the least one at which a zone holds at most
  the target population, or the maximal depth.\<close>

theorem targetDepth_least:
  assumes "0 < n"
  shows "calculateTargetDepth (Fin n) \<le> MAX_DEPTH \<and>
    (calculateTargetDepth (Fin n) < MAX_DEPTH \<longrightarrow> n \<le> TARGET_ZONE_POP * 2 ^ calculateTargetDepth (Fin n)) \<and>
    (\<forall>d < calculateTargetDepth (Fin n). TARGET_ZONE_POP * 2 ^ d < n)"
proof (cases "n \<le> 500")
  case True
  then show ?thesis by (simp add: calculateTargetDepth_def)
next
  case False
  let ?c = "ceil_log2 (n / 500)"
  have c: "n \<le> 500 * 2 ^ ?c" "500 * 2 ^ (?c - 1) < n" "0 < ?c"
    using ceil_log2_bounds [of "n / 500"] False by auto
  have low: "500 * 2 ^ d < n" if "d < ?c" for d
  proof -
    have "(2 :: rat) ^ d \<le> 2 ^ (?c - 1)" using that by (intro power_increasing) auto
    then show ?thesis using c(2) by linarith
  qed
  show ?thesis using False c(1) low by (auto simp: calculateTargetDepth_def min_def)
qed

theorem targetDepth_least_witness: "calculateTargetDepth (Fin 3000) \<le> 12 \<and> 0 < (3000 :: rat)"
  using targetDepth_least [of 3000] by simp

subsection \<open>The subscription has its size and range\<close>

definition zones_ok :: "zone_state \<Rightarrow> bool" where
  "zones_ok z \<longleftrightarrow>
     zn_depth z \<le> MAX_DEPTH \<and> distinct (zn_subscribed z) \<and>
     length (zn_subscribed z) = min SUBSCRIBE_COUNT (2 ^ zn_depth z) \<and>
     (\<forall>i \<in> set (zn_subscribed z). 0 \<le> i \<and> i < 2 ^ zn_depth z)"

lemma zone_init_ok [wf_intro]: "zones_ok zone_init"
  by (simp add: zones_ok_def zone_init_def)

lemma js_add_length: "length zs < n \<Longrightarrow> length (js_add r zs) \<le> n"
  by (simp add: js_add_def)

lemma fill_zones_ok:
  "\<lbrakk>fill_zones draws zs = Some out; distinct zs; length zs \<le> 16; \<forall>i \<in> set zs \<union> set draws. 0 \<le> i \<and> i < b\<rbrakk> \<Longrightarrow>
    distinct out \<and> length out = 16 \<and> (\<forall>i \<in> set out. 0 \<le> i \<and> i < b)"
proof (induction draws zs rule: fill_zones.induct)
  case (1 draws zs)
  show ?case
  proof (cases "length zs < 16")
    case True
    then obtain r rs where d: "draws = r # rs" and f: "fill_zones rs (js_add r zs) = Some out"
      using 1(2) by (auto simp: fill_zones.simps [of draws] split: list.splits)
    have "length (js_add r zs) \<le> 16" using True by (rule js_add_length)
    then show ?thesis using 1(1) [of r rs] True d f 1(3-5) by auto
  next
    case False
    then show ?thesis using 1 by (simp add: fill_zones.simps [of draws])
  qed
qed

lemma initSubscribedZones_ok [wf_intro]:
  assumes "initSubscribedZones draws z = Some z'" "zn_depth z \<le> 12"
    "\<forall>i \<in> set draws. 0 \<le> i \<and> i < 2 ^ zn_depth z"
  shows "zones_ok z'"
proof (cases "(2 :: nat) ^ zn_depth z \<le> 16")
  case True
  then have "z' = z\<lparr>zn_subscribed := map int [0..<2 ^ zn_depth z]\<rparr>"
    using assms(1) by (simp add: initSubscribedZones_def)
  then show ?thesis using True assms(2) by (auto simp: zones_ok_def distinct_map inj_on_def)
next
  case False
  then obtain zs where f: "fill_zones draws [] = Some zs" and z: "z' = z\<lparr>zn_subscribed := zs\<rparr>"
    using assms(1) by (auto simp: initSubscribedZones_def)
  have "distinct zs \<and> length zs = 16 \<and> (\<forall>i \<in> set zs. 0 \<le> i \<and> i < 2 ^ zn_depth z)"
    using fill_zones_ok [OF f, of "2 ^ zn_depth z"] assms(3) by simp
  then show ?thesis using z assms(2) False by (simp add: zones_ok_def)
qed

lemma child_zones_ok:
  "\<lbrakk>child_zones k olds draws new = Some (out, rest); distinct new; length new \<le> 16;
    \<forall>i \<in> set new. 0 \<le> i \<and> i < 2 ^ (d + k); \<forall>i \<in> set olds. 0 \<le> i \<and> i < 2 ^ d;
    \<forall>r \<in> set (take (length olds) draws). 0 \<le> r \<and> r < 2 ^ k\<rbrakk> \<Longrightarrow>
    distinct out \<and> length out \<le> 16 \<and> (\<forall>i \<in> set out. 0 \<le> i \<and> i < 2 ^ (d + k)) \<and> set rest \<subseteq> set draws"
proof (induction k olds draws new rule: child_zones.induct)
  case (2 k old olds draws new)
  show ?case
  proof (cases "16 \<le> length new")
    case True
    then show ?thesis using 2 by simp
  next
    case False
    then obtain r rs where d: "draws = r # rs"
      and f: "child_zones k olds rs (js_add (push_bit k old OR r) new) = Some (out, rest)"
      using 2(2) by (auto split: list.splits)
    have old: "0 \<le> old" "old < 2 ^ d" "0 \<le> r" "r < 2 ^ k" using 2(6,7) d by auto
    have e: "push_bit k old OR r = old * 2 ^ k + r" using old(3,4) by (rule push_bit_or)
    have "(old + 1) * 2 ^ k \<le> 2 ^ d * (2 :: int) ^ k" using old by (intro mult_right_mono) auto
    then have "push_bit k old OR r < 2 ^ (d + k)" unfolding e power_add using old
      by (simp add: algebra_simps)
    moreover have "0 \<le> push_bit k old OR r" using old by simp
    ultimately have new: "\<forall>i \<in> set (js_add (push_bit k old OR r) new). 0 \<le> i \<and> i < 2 ^ (d + k)"
      using 2(5) by (simp only: js_add_set ball_simps)
    have len: "length (js_add (push_bit k old OR r) new) \<le> 16" using False by (intro js_add_length) simp
    have "distinct out \<and> length out \<le> 16 \<and> (\<forall>i \<in> set out. 0 \<le> i \<and> i < 2 ^ (d + k)) \<and> set rest \<subseteq> set rs"
      using 2(1) [OF _ d f] False 2(3,6,7) d new len by (simp del: js_add_set)
    then show ?thesis using d by (simp add: subset_insertI2)
  qed
qed auto

text \<open>When the depth grows, the new subscription is again a set of 16 zones of the new depth, built
  from one child of each old zone and random ones, and nothing outside that range.\<close>

theorem scaleUp_keeps_zones:
  assumes "zones_ok z" "zn_depth z < e" "e \<le> MAX_DEPTH"
    "updateSubscriptionAfterScaleUp (zn_depth z) draws (z\<lparr>zn_depth := e\<rparr>) = Some z'"
    "\<forall>r \<in> set (take (length (zn_subscribed z)) draws). 0 \<le> r \<and> r < 2 ^ (e - zn_depth z)"
    "\<forall>r \<in> set draws. 0 \<le> r \<and> r < 2 ^ e"
  shows "zones_ok z'"
proof (cases "(2 :: nat) ^ e \<le> 16")
  case True
  then have "initSubscribedZones draws (z\<lparr>zn_depth := e\<rparr>) = Some z'"
    using assms(4) by (simp add: updateSubscriptionAfterScaleUp_def)
  then show ?thesis using assms by (intro initSubscribedZones_ok) auto
next
  case False
  obtain new rest where c: "child_zones (e - zn_depth z) (zn_subscribed z) draws [] = Some (new, rest)"
    and f: "\<exists>zs. fill_zones rest new = Some zs \<and> z' = z\<lparr>zn_depth := e, zn_subscribed := zs\<rparr>"
    using assms(4) False by (auto simp: updateSubscriptionAfterScaleUp_def Let_def split: option.splits)
  have "distinct new \<and> length new \<le> 16 \<and> (\<forall>i \<in> set new. 0 \<le> i \<and> i < 2 ^ e) \<and> set rest \<subseteq> set draws"
    using child_zones_ok [OF c, of "zn_depth z"] assms(1,2,5) by (simp add: zones_ok_def)
  moreover obtain zs where zs: "fill_zones rest new = Some zs" "z' = z\<lparr>zn_depth := e, zn_subscribed := zs\<rparr>"
    using f by blast
  ultimately have "distinct zs \<and> length zs = 16 \<and> (\<forall>i \<in> set zs. 0 \<le> i \<and> i < 2 ^ e)"
    using assms(6) by (intro fill_zones_ok [OF zs(1)]) auto
  then show ?thesis using zs(2) assms(3) False by (simp add: zones_ok_def)
qed

theorem scaleUp_keeps_zones_witness:
  "zones_ok (zone_init\<lparr>zn_depth := 2, zn_subscribed := [0, 1, 2, 3]\<rparr>)"
  using scaleUp_keeps_zones [of zone_init 2 "[]" "zone_init\<lparr>zn_depth := 2, zn_subscribed := [0, 1, 2, 3]\<rparr>"]
    zone_init_ok
  by (simp add: updateSubscriptionAfterScaleUp_def initSubscribedZones_def zone_init_def upt_rec)

subsection \<open>Watched topics\<close>

definition watched_ok :: "zone_state \<Rightarrow> bool" where
  "watched_ok z \<longleftrightarrow> (\<forall>(key, topic, refs) \<in> set (zn_watched z). key = toHex topic \<and> 0 < refs)"

lemma watched_okD:
  assumes "watched_ok z" "jm_get (zn_watched z) (watch_key t) = Some (topic, refs)"
  shows "topic = take 32 t" "0 < refs"
  using assms jm_get_in_set [OF assms(2)] by (auto simp: watched_ok_def watch_key_def)

lemma watchTopic_ok [wf_intro]: "watched_ok z \<Longrightarrow> watched_ok (watchTopic t z)"
  using watched_okD [of z t]
  by (fastforce simp: watchTopic_def watched_ok_def watch_key_def Let_def split: option.splits dest!: jm_set_in)

lemma releaseTopic_ok [wf_intro]: "watched_ok z \<Longrightarrow> watched_ok (snd (releaseTopic t r z))"
  using watched_okD [of z t]
  by (fastforce simp: releaseTopic_def watched_ok_def watch_key_def Let_def set_jm_del
      split: option.splits dest!: jm_set_in)

lemma isSubscribed_watched:
  assumes "jm_get (zn_watched z) key = Some (take 32 t, refs)" "d \<le> 12" "32 \<le> length t"
  shows "isSubscribed z (computeZoneId t d)"
proof -
  have "computeZoneId (take 32 t) d = computeZoneId t d" using assms(3) by (simp add: computeZoneId_def)
  then have "list_ex (\<lambda>(_, topic, _). list_ex (\<lambda>d'. computeZoneId topic d' = computeZoneId t d) [0..<Suc MAX_DEPTH])
      (zn_watched z)"
    using jm_get_in_set [OF assms(1)] assms(2) by (force simp: list_ex_iff)
  then show ?thesis by (simp add: isSubscribed_def Let_def)
qed

text \<open>A topic being watched is received whatever depth (up to the maximum) the sender made the packet
  for, and whatever this node's own depth and random subscription are; and it stays so after one
  of two watchers has released it, even if that watcher releases it twice.\<close>

theorem watched_topic_received:
  assumes "watched_ok z" "d \<le> MAX_DEPTH" "32 \<le> length t"
    "releaseTopic t False (watchTopic t (watchTopic t z)) = (r, z1)" "releaseTopic t r z1 = (r', z2)"
  shows "isSubscribed (watchTopic t z) (computeZoneId t d) \<and> isSubscribed z2 (computeZoneId t d)"
proof -
  obtain n where n: "0 < n" "jm_get (zn_watched (watchTopic t z)) (watch_key t) = Some (take 32 t, n)"
    using watched_okD [OF assms(1)] by (fastforce simp: watchTopic_def Let_def split: option.splits)
  then have "jm_get (zn_watched (watchTopic t (watchTopic t z))) (watch_key t) = Some (take 32 t, n + 1)"
    by (simp add: watchTopic_def [of t "watchTopic t z"] Let_def)
  then have "jm_get (zn_watched z2) (watch_key t) = Some (take 32 t, n)"
    using assms(4,5) n(1) by (auto simp: releaseTopic_def Let_def)
  then show ?thesis using n(2) assms(2,3) by (auto intro: isSubscribed_watched)
qed

theorem watched_topic_received_witness:
  "isSubscribed (watchTopic (replicate 32 9) (zone_init\<lparr>zn_depth := 8\<rparr>)) (computeZoneId (replicate 32 9) 5)"
proof -
  let ?z = "zone_init\<lparr>zn_depth := 8\<rparr>" and ?t = "replicate 32 9 :: bytes"
  obtain r z1 where 1: "releaseTopic ?t False (watchTopic ?t (watchTopic ?t ?z)) = (r, z1)" by force
  obtain r' z2 where 2: "releaseTopic ?t r z1 = (r', z2)" by force
  have "watched_ok ?z" by (simp add: watched_ok_def zone_init_def)
  from watched_topic_received [OF this _ _ 1 2, of 5] show ?thesis by simp
qed

end
