(* ===== verification/PostPacket.thy ===== *)
theory PostPacket
  imports Validator Zone
begin

text \<open>
  Making and opening the packets of posts: \<open>crypto/CryptoEngine.ts\<close>, \<open>crypto/MagicFilter.ts\<close>,
  \<open>crypto/PoWEngine.ts\<close>, the signatures of \<open>crypto/Identity.ts\<close> and \<open>crypto/PacketBuilder.ts\<close>
  (under \<open>packages/core/src\<close>). A post is signed, encrypted under the key of its thread and paid for; the
  reader screens it by its first four bytes, decrypts it, and checks both signatures. The lemmas show that
  the screening drops nothing, that what is built is accepted by relays and read back, and that what is
  read was signed by the keys it is shown under.

  Random bytes and the time are arguments. libsodium rejects keys of a wrong length by an exception.
\<close>

subsection \<open>Encryption\<close>

text \<open>\<open>AETH\<close>\<close>

definition POST_MAGIC :: bytes where "POST_MAGIC = [0x41, 0x45, 0x54, 0x48]"

definition ce_encrypt :: "sodium \<Rightarrow> bytes \<Rightarrow> bytes \<Rightarrow> bytes \<Rightarrow> bytes res" where
  "ce_encrypt S threadKey nonce innerPayload =
     (if length threadKey \<noteq> 32 then Inl TypeError
      else Inr (aead_seal S (POST_MAGIC @ innerPayload) nonce threadKey))"

definition ce_decrypt :: "sodium \<Rightarrow> bytes \<Rightarrow> bytes \<Rightarrow> bytes \<Rightarrow> bytes option" where
  "ce_decrypt S threadKey ciphertext nonce =
     (case aead_open S ciphertext nonce threadKey of
        None \<Rightarrow> None
      | Some plaintext \<Rightarrow>
          if length plaintext < 4 then None
          else if take 4 plaintext \<noteq> POST_MAGIC then None
          else Some (drop 4 plaintext))"

definition MAGIC :: int where "MAGIC = 0x41455448"

definition quickCheck :: "sodium \<Rightarrow> bytes \<Rightarrow> bytes \<Rightarrow> bytes \<Rightarrow> bool" where
  "quickCheck S threadKey ciphertext nonce =
     (if length ciphertext < 4 then False
      else
        (case chacha20_xor_ic S (replicate 4 0) nonce 1 threadKey of
           None \<Rightarrow> True
         | Some keystream \<Rightarrow> be_val (map2 (XOR) (take 4 ciphertext) keystream) = MAGIC))"

subsection \<open>Identities and proof of work\<close>

record post_identity =
  id_session :: bytes
  id_trip :: "bytes option"

record post_sig =
  ps_sessionPubkey :: bytes
  ps_sessionSignature :: bytes
  ps_tripPubkey :: "bytes option"
  ps_tripSignature :: "bytes option"

definition identity_sign :: "sodium \<Rightarrow> post_identity \<Rightarrow> bytes \<Rightarrow> post_sig" where
  "identity_sign S idn postData =
     \<lparr>ps_sessionPubkey = sign_pk S (id_session idn),
      ps_sessionSignature = sign_detached S postData (id_session idn),
      ps_tripPubkey = map_option (sign_pk S) (id_trip idn),
      ps_tripSignature = map_option (sign_detached S postData) (id_trip idn)\<rparr>"

definition identity_verify :: "sodium \<Rightarrow> bytes \<Rightarrow> bytes \<Rightarrow> bytes \<Rightarrow> bool option" where
  "identity_verify S postData pubkey signature = verify_detached S signature postData pubkey"

definition pow_compute :: "sodium \<Rightarrow> nat \<Rightarrow> pow_header \<Rightarrow> int res" where
  "pow_compute S iterations h =
     (if js_lt (ph_difficulty h) MIN_DIFFICULTY then Inl RangeError
      else if js_gt (ph_difficulty h) MAX_DIFFICULTY then Inl RangeError
      else rbind (solvePow S h iterations) (\<lambda>r.
        case r of None \<Rightarrow> Inl (OtherError ''PoW search exhausted'') | Some n \<Rightarrow> Inr n))"

subsection \<open>Building\<close>

definition roundToMinute :: "int \<Rightarrow> int" where
  "roundToMinute ms = (ms div 60000) * 60000"

record post_req =
  pq_content :: string
  pq_boardId :: string
  pq_threadId :: string
  pq_postNumber :: int
  pq_replyTo :: jsval
  pq_difficulty :: int
  pq_depth :: nat
  pq_postType :: int
  pq_parents :: "string list"
  pq_threadRoot :: string
  pq_cumulativePow :: jsval

definition signed_obj :: "post_req \<Rightarrow> int \<Rightarrow> (string \<times> jsval) list" where
  "signed_obj r t =
     [(''content'', JStr (pq_content r)), (''post_number'', jint (pq_postNumber r)), (''reply_to'', pq_replyTo r),
      (''created_at'', jint t), (''board_id'', JStr (pq_boardId r)), (''thread_id'', JStr (pq_threadId r)),
      (''parents'', JArr (map JStr (pq_parents r))), (''cumulative_pow'', pq_cumulativePow r),
      (''thread_root'', JStr (pq_threadRoot r))]"

definition opt_bytes :: "bytes option \<Rightarrow> jsval" where
  "opt_bytes b = (case b of None \<Rightarrow> Null | Some x \<Rightarrow> JBytes x)"

definition inner_obj :: "post_req \<Rightarrow> int \<Rightarrow> post_sig \<Rightarrow> jsval" where
  "inner_obj r t sig =
     JObj (signed_obj r t @
       [(''session_pubkey'', JBytes (ps_sessionPubkey sig)), (''session_sig'', JBytes (ps_sessionSignature sig)),
        (''trip_pubkey'', opt_bytes (ps_tripPubkey sig)), (''trip_sig'', opt_bytes (ps_tripSignature sig))])"

definition enc_obj :: "post_req \<Rightarrow> bytes \<Rightarrow> jsval" where
  "enc_obj r inner =
     JObj [(''board_id'', JStr (pq_boardId r)), (''thread_id'', JStr (pq_threadId r)),
       (''post_type'', jint (pq_postType r)), (''inner_payload'', JBytes inner)]"

definition committed_header :: "sodium \<Rightarrow> bytes \<Rightarrow> post_req \<Rightarrow> int \<Rightarrow> bytes \<Rightarrow> bytes \<Rightarrow> pow_header" where
  "committed_header S threadKey r t nonce ciphertext =
     \<lparr>ph_timestamp = jint t, ph_zone_id = jint (computeZoneId (deriveTopicHash S threadKey) (pq_depth r)),
      ph_difficulty = jint (pq_difficulty r), ph_nonce = nonce, ph_payload = ciphertext\<rparr>"

definition packet_obj :: "string \<Rightarrow> int \<Rightarrow> pow_header \<Rightarrow> jsval" where
  "packet_obj i n h =
     JObj [(''packet_id'', JStr i), (''hop_count'', jint 0), (''pow_nonce'', jint n),
       (''pow_difficulty'', ph_difficulty h), (''timestamp'', ph_timestamp h), (''zone_id'', ph_zone_id h),
       (''nonce'', JBytes (ph_nonce h)), (''payload'', JBytes (ph_payload h))]"

definition post_inner :: "sodium \<Rightarrow> msgpack \<Rightarrow> int \<Rightarrow> post_identity \<Rightarrow> post_req \<Rightarrow> jsval" where
  "post_inner S M t idn r = inner_obj r t (identity_sign S idn (mp_encode M (JObj (signed_obj r t))))"

definition pb_build ::
  "sodium \<Rightarrow> msgpack \<Rightarrow> nat \<Rightarrow> int \<Rightarrow> bytes \<Rightarrow> post_identity \<Rightarrow> bytes \<Rightarrow> post_req \<Rightarrow> jsval res" where
  "pb_build S M iterations now nonce idn threadKey r =
     (let t = roundToMinute now; enc = mp_encode M (enc_obj r (mp_encode M (post_inner S M t idn r))) in
      rbind (ce_encrypt S threadKey nonce enc) (\<lambda>ciphertext.
        let h = committed_header S threadKey r t nonce ciphertext in
        rbind (pow_compute S iterations h) (\<lambda>n.
        rbind (derivePacketId S h) (\<lambda>i. Inr (packet_obj i n h)))))"

subsection \<open>Opening\<close>

text \<open>What \<open>@msgpack/msgpack\<close> makes of an argument of \<open>decode\<close> that is no byte array: \<open>Uint8Array.from\<close>. An
  object is taken as an array-like value without elements.\<close>

definition mp_input :: "jsval \<Rightarrow> bytes option" where
  "mp_input v =
     (case v of
        JBytes b \<Rightarrow> Some b | JBuffer b \<Rightarrow> Some b | JView b \<Rightarrow> Some b
      | JArr vs \<Rightarrow> (case u8_from vs of Inl _ \<Rightarrow> None | Inr b \<Rightarrow> Some b)
      | JStr s \<Rightarrow> Some (map (\<lambda>c. to_uint8 (string_to_number [c])) s)
      | Undef \<Rightarrow> None | Null \<Rightarrow> None
      | _ \<Rightarrow> Some [])"

text \<open>\<open>new Uint8Array(v)\<close>: a number is a length.\<close>

definition u8_of_length :: "jsnum \<Rightarrow> bytes res" where
  "u8_of_length n =
     (case n of
        NaN \<Rightarrow> Inr []
      | Fin r \<Rightarrow> (let k = (if 0 \<le> r then floor r else ceiling r) in
          if k < 0 \<or> k > max_safe then Inl RangeError else Inr (replicate (nat k) 0))
      | _ \<Rightarrow> Inl RangeError)"

definition new_u8 :: "jsval \<Rightarrow> bytes res" where
  "new_u8 v =
     (case v of
        JBytes b \<Rightarrow> Inr b | JBuffer b \<Rightarrow> Inr b | JView b \<Rightarrow> Inr []
      | JArr vs \<Rightarrow> u8_from vs
      | JObj _ \<Rightarrow> Inr []
      | _ \<Rightarrow> rbind (js_to_number v) u8_of_length)"

definition original_obj :: "jsval \<Rightarrow> (string \<times> jsval) list" where
  "original_obj inner =
     map (\<lambda>k. (k, jget inner k)) [''content'', ''post_number'', ''reply_to'', ''created_at'', ''board_id'', ''thread_id''] @
     (if jget inner ''parents'' \<noteq> Undef
      then map (\<lambda>k. (k, jget inner k)) [''parents'', ''cumulative_pow'', ''thread_root''] else [])"

definition is_absent :: "jsval \<Rightarrow> bool" where
  "is_absent v \<longleftrightarrow> v = Undef \<or> v = Null"

text \<open>\<open>Inr None\<close>: no trip; \<open>Inr (Some None)\<close>: it does not verify; \<open>Inl\<close>: an element that is no number.\<close>

definition verifyTripSignature :: "sodium \<Rightarrow> jsval \<Rightarrow> bytes \<Rightarrow> bytes option option res" where
  "verifyTripSignature S inner signedData =
     (let pv = jget inner ''trip_pubkey''; sv = jget inner ''trip_sig'' in
      if is_absent pv \<and> is_absent sv then Inr None
      else if is_absent pv \<or> is_absent sv then Inr (Some None)
      else
        rbind (toBytes pv) (\<lambda>pubkey. rbind (toBytes sv) (\<lambda>sig.
          Inr (Some (if length pubkey \<noteq> SIGN_PUBLICKEYBYTES then None
                else if length sig \<noteq> SIGN_BYTES then None
                else if verify_detached S sig signedData pubkey = Some True then Some pubkey else None)))))"

definition post_obj :: "jsval \<Rightarrow> jsval \<Rightarrow> jsval \<Rightarrow> jsval" where
  "post_obj inner postType trip =
     JObj (fold (\<lambda>(k, v) m. jm_set k v m)
       [(''post_type'', postType), (''session_pubkey'', jget inner ''session_pubkey''), (''trip_pubkey'', trip),
        (''parents'', jget inner ''parents''), (''cumulative_pow'', jget inner ''cumulative_pow''),
        (''thread_root'', jget inner ''thread_root'')]
       (original_obj inner))"

text \<open>The layers below the screening.\<close>

definition verify_inner :: "sodium \<Rightarrow> msgpack \<Rightarrow> jsval \<Rightarrow> jsval \<Rightarrow> jsval option res" where
  "verify_inner S M enc inner =
     (if is_absent inner then Inl TypeError
      else
        (let signedData = mp_encode M (JObj (original_obj inner)) in
         case rbind (new_u8 (jget inner ''session_pubkey'')) (\<lambda>pk.
              rbind (new_u8 (jget inner ''session_sig'')) (\<lambda>sig. Inr (identity_verify S signedData pk sig))) of
           Inr (Some True) \<Rightarrow>
             rbind (verifyTripSignature S inner signedData) (\<lambda>trip.
               Inr (case trip of
                  Some None \<Rightarrow> None
                | Some (Some pk) \<Rightarrow> Some (post_obj inner (jget enc ''post_type'') (JBytes pk))
                | None \<Rightarrow> Some (post_obj inner (jget enc ''post_type'') Null)))
         | _ \<Rightarrow> Inr None))"

definition open_ciphertext :: "sodium \<Rightarrow> msgpack \<Rightarrow> bytes \<Rightarrow> bytes \<Rightarrow> bytes \<Rightarrow> jsval option res" where
  "open_ciphertext S M threadKey ciphertext nonce =
     (case ce_decrypt S threadKey ciphertext nonce of
        None \<Rightarrow> Inr None
      | Some buf \<Rightarrow>
          (case mp_decode M buf of
             None \<Rightarrow> Inr None
           | Some enc \<Rightarrow>
               (case Option.bind (mp_input (jget enc ''inner_payload'')) (mp_decode M) of
                  None \<Rightarrow> Inr None
                | Some inner \<Rightarrow> verify_inner S M enc inner)))"

definition verifyAndDecrypt :: "sodium \<Rightarrow> msgpack \<Rightarrow> jsval \<Rightarrow> bytes \<Rightarrow> jsval option res" where
  "verifyAndDecrypt S M packet threadKey =
     (if is_absent packet then Inl TypeError
      else
        rbind (toBytes (jget packet ''payload'')) (\<lambda>ciphertext.
        rbind (toBytes (jget packet ''nonce'')) (\<lambda>nonce.
          if \<not> quickCheck S threadKey ciphertext nonce then Inr None
          else open_ciphertext S M threadKey ciphertext nonce)))"

subsection \<open>The screening drops nothing\<close>

text \<open>RFC 8439: the construction is a stream cipher whose key stream for the message starts at block 1,
  and a ciphertext that opens is the one the plaintext is sealed to.\<close>

definition aead_stream_law :: "sodium \<Rightarrow> bool" where
  "aead_stream_law S \<longleftrightarrow>
     (\<forall>c n k m. aead_open S c n k = Some m \<longrightarrow> aead_seal S m n k = c) \<and>
     (\<forall>m n k ks. 4 \<le> length m \<longrightarrow> chacha20_xor_ic S (replicate 4 0) n 1 k = Some ks \<longrightarrow>
        length ks = 4 \<and> take 4 (aead_seal S m n k) = map2 (XOR) (take 4 m) ks)"

lemma xor_keystream: "length ks = length xs \<Longrightarrow> map2 (XOR) (map2 (XOR) xs ks) ks = (xs :: bytes)"
  by (induction ks xs rule: list_induct2) (simp_all add: xor.assoc)

lemma aead_streamD:
  assumes "aead_stream_law S"
  shows "aead_open S c n k = Some m \<Longrightarrow> aead_seal S m n k = c"
    "4 \<le> length m \<Longrightarrow> chacha20_xor_ic S (replicate 4 0) n 1 k = Some ks \<Longrightarrow>
       length ks = 4 \<and> take 4 (aead_seal S m n k) = map2 (XOR) (take 4 m) ks"
  using assms unfolding aead_stream_law_def by blast+

lemma POST_MAGIC_val: "be_val POST_MAGIC = MAGIC"
  by (simp add: be_val_def POST_MAGIC_def MAGIC_def)

lemma ce_decrypt_plaintext:
  assumes "ce_decrypt S k c n = Some b"
  shows "aead_open S c n k = Some (POST_MAGIC @ b)"
proof -
  obtain p where p: "aead_open S c n k = Some p" "take 4 p = POST_MAGIC" "b = drop 4 p"
    using assms by (auto simp: ce_decrypt_def split: option.splits if_splits)
  have "POST_MAGIC @ b = p" using append_take_drop_id [of 4 p] p by simp
  with p show ?thesis by simp
qed

lemma quickCheck_passes:
  assumes "aead_law S" "aead_stream_law S" "ce_decrypt S k c n = Some b"
  shows "quickCheck S k c n"
proof -
  let ?p = "POST_MAGIC @ b"
  have len: "length POST_MAGIC = 4" by (simp add: POST_MAGIC_def)
  have c: "c = aead_seal S ?p n k"
    using aead_streamD(1) [OF assms(2) ce_decrypt_plaintext [OF assms(3)]] by simp
  have "4 \<le> length c" using aead_lawD(2) [OF assms(1), of ?p n k] c len by simp
  moreover have "be_val (map2 (XOR) (take 4 c) ks) = MAGIC"
    if "chacha20_xor_ic S (replicate 4 0) n 1 k = Some ks" for ks
  proof -
    have "length ks = 4" "take 4 c = map2 (XOR) (take 4 ?p) ks"
      using aead_streamD(2) [OF assms(2) _ that, of ?p] len by (simp_all add: c)
    then show ?thesis using xor_keystream [of ks POST_MAGIC] len POST_MAGIC_val by simp
  qed
  ultimately show ?thesis by (auto simp: quickCheck_def split: option.split)
qed

definition verify_unscreened :: "sodium \<Rightarrow> msgpack \<Rightarrow> jsval \<Rightarrow> bytes \<Rightarrow> jsval option res" where
  "verify_unscreened S M packet threadKey =
     (if is_absent packet then Inl TypeError
      else
        rbind (toBytes (jget packet ''payload'')) (\<lambda>ciphertext.
        rbind (toBytes (jget packet ''nonce'')) (\<lambda>nonce. open_ciphertext S M threadKey ciphertext nonce)))"

lemma screened_open:
  assumes "aead_law S" "aead_stream_law S"
  shows "(if \<not> quickCheck S k c n then Inr None else open_ciphertext S M k c n) = open_ciphertext S M k c n"
  using quickCheck_passes [OF assms, of k c n]
  by (cases "ce_decrypt S k c n") (auto simp: open_ciphertext_def)

text \<open>The four-byte screening is an optimisation and nothing else: a reader who skips it and fully
  decrypts every packet gets the same result, exceptions included, on every packet and under every key.\<close>

theorem screening_drops_nothing:
  assumes "aead_law S" "aead_stream_law S"
  shows "verifyAndDecrypt S M packet k = verify_unscreened S M packet k"
  unfolding verifyAndDecrypt_def verify_unscreened_def screened_open [OF assms] ..

text \<open>A concrete instance: the tag follows the message, the key stream is zero.\<close>

definition tail_sodium :: sodium where
  "tail_sodium = toy_sodium
     \<lparr>aead_seal := (\<lambda>m n k. m @ replicate 16 0),
      aead_open := (\<lambda>c n k. if 16 \<le> length c \<and> drop (length c - 16) c = replicate 16 0
        then Some (take (length c - 16) c) else None)\<rparr>"

lemma tail_laws: "aead_law tail_sodium" "aead_stream_law tail_sodium" "sign_law tail_sodium" "sha256_law tail_sodium"
proof -
  have "take (length c - 16) c @ replicate 16 0 = c"
    if "drop (length c - 16) c = replicate 16 0" for c :: bytes
    using append_take_drop_id [of "length c - 16" c] that by simp
  moreover have "map2 (XOR) (take 4 m) (replicate 4 0) = take 4 m" if "4 \<le> length m" for m :: bytes
    using that by (intro nth_equalityI) auto
  ultimately show "aead_stream_law tail_sodium"
    by (auto simp: aead_stream_law_def tail_sodium_def toy_sodium_def split: if_splits)
  show "aead_law tail_sodium" by (simp add: aead_law_def tail_sodium_def)
  show "sign_law tail_sodium" "sha256_law tail_sodium"
    using toy_laws by (simp_all add: sign_law_def sha256_law_def tail_sodium_def)
qed

theorem screening_drops_nothing_witness:
  "verifyAndDecrypt tail_sodium toy_msgpack (JObj []) [] = verify_unscreened tail_sodium toy_msgpack (JObj []) []"
  by (rule screening_drops_nothing [OF tail_laws(1,2)])

subsection \<open>What is read was signed\<close>

lemma map_of_map_pairs: "map_of (map (\<lambda>k. (k, f k)) ks) k = (if k \<in> set ks then Some (f k) else None)"
  by (induction ks) auto

lemma jget_post_obj:
  "jget (post_obj inner pt trip) ''post_type'' = pt"
  "jget (post_obj inner pt trip) ''trip_pubkey'' = trip"
  "k \<in> {''session_pubkey'', ''content'', ''post_number'', ''reply_to'', ''created_at'', ''board_id'', ''thread_id'',
     ''parents'', ''cumulative_pow'', ''thread_root''} \<Longrightarrow> jget (post_obj inner pt trip) k = jget inner k"
  by (auto simp: post_obj_def original_obj_def update_conv' map_of_map_pairs)

lemma original_post_obj: "original_obj (post_obj inner pt trip) = original_obj inner"
  by (simp add: original_obj_def jget_post_obj)

definition signed_by :: "sodium \<Rightarrow> msgpack \<Rightarrow> jsval \<Rightarrow> bytes \<Rightarrow> bool" where
  "signed_by S M post pk \<longleftrightarrow> (\<exists>sig. verify_detached S sig (mp_encode M (JObj (original_obj post))) pk = Some True)"

definition shown_authentic :: "sodium \<Rightarrow> msgpack \<Rightarrow> jsval \<Rightarrow> bool" where
  "shown_authentic S M post \<longleftrightarrow>
     (\<exists>pk. new_u8 (jget post ''session_pubkey'') = Inr pk \<and> signed_by S M post pk) \<and>
     (jget post ''trip_pubkey'' = Null \<or>
       (\<exists>tp. jget post ''trip_pubkey'' = JBytes tp \<and> length tp = 32 \<and> signed_by S M post tp))"

lemma verifyTrip_Some:
  assumes "verifyTripSignature S inner d = Inr (Some (Some pk))"
  shows "length pk = 32 \<and> (\<exists>sig. verify_detached S sig d pk = Some True)"
  using assms by (auto simp: verifyTripSignature_def Let_def rbind_Inr_iff split: if_splits)

lemma verify_inner_authentic:
  assumes "verify_inner S M enc inner = Inr (Some post)"
  shows "shown_authentic S M post"
proof -
  let ?d = "mp_encode M (JObj (original_obj inner))"
  obtain pk sig trip where v: "new_u8 (jget inner ''session_pubkey'') = Inr pk"
    "verify_detached S sig ?d pk = Some True" "verifyTripSignature S inner ?d = Inr trip"
    and post: "post = post_obj inner (jget enc ''post_type'') (case trip of Some (Some t) \<Rightarrow> JBytes t | _ \<Rightarrow> Null)"
    using assms
    by (auto simp: verify_inner_def Let_def identity_verify_def rbind_Inr_iff split: if_splits sum.splits option.splits bool.splits)
  have o: "original_obj post = original_obj inner" by (simp add: post original_post_obj)
  have "new_u8 (jget post ''session_pubkey'') = Inr pk" using v(1) by (simp add: post jget_post_obj)
  moreover have "signed_by S M post pk" using v(2) by (auto simp: signed_by_def o)
  moreover have "jget post ''trip_pubkey'' = Null \<or>
      (\<exists>tp. jget post ''trip_pubkey'' = JBytes tp \<and> length tp = 32 \<and> signed_by S M post tp)"
  proof (cases trip)
    case (Some t)
    then show ?thesis
    proof (cases t)
      case s: (Some tp)
      then show ?thesis using verifyTrip_Some [of S inner ?d tp] v(3) Some
        by (auto simp: post jget_post_obj signed_by_def original_post_obj)
    qed (simp add: post jget_post_obj)
  qed (simp add: post jget_post_obj)
  ultimately show ?thesis unfolding shown_authentic_def by blast
qed

lemma verifyAndDecrypt_Some:
  assumes "verifyAndDecrypt S M packet k = Inr (Some post)"
  obtains c n b enc inner where "toBytes (jget packet ''payload'') = Inr c" "toBytes (jget packet ''nonce'') = Inr n"
    "ce_decrypt S k c n = Some b" "mp_decode M b = Some enc" "verify_inner S M enc inner = Inr (Some post)"
  using assms
  by (auto simp: verifyAndDecrypt_def open_ciphertext_def rbind_Inr_iff split: if_splits option.splits)


subsection \<open>What is written can be read\<close>

definition post_fields :: "post_req \<Rightarrow> int \<Rightarrow> post_sig \<Rightarrow> (string \<times> jsval) list" where
  "post_fields r t sig =
     signed_obj r t @ [(''post_type'', jint (pq_postType r)), (''session_pubkey'', JBytes (ps_sessionPubkey sig)),
       (''trip_pubkey'', opt_bytes (ps_tripPubkey sig))]"

lemma jget_inner:
  "jget (inner_obj r t sig) ''session_pubkey'' = JBytes (ps_sessionPubkey sig)"
  "jget (inner_obj r t sig) ''session_sig'' = JBytes (ps_sessionSignature sig)"
  "jget (inner_obj r t sig) ''trip_pubkey'' = opt_bytes (ps_tripPubkey sig)"
  "jget (inner_obj r t sig) ''trip_sig'' = opt_bytes (ps_tripSignature sig)"
  by (simp_all add: inner_obj_def signed_obj_def)

lemma original_inner: "original_obj (inner_obj r t sig) = signed_obj r t"
  by (simp add: original_obj_def inner_obj_def signed_obj_def)

lemma post_fields_obj:
  "list_all (\<lambda>(k, v). jget (post_obj (inner_obj r t sig) (jint (pq_postType r)) (opt_bytes (ps_tripPubkey sig))) k = v)
     (post_fields r t sig)"
  by (simp add: post_fields_def signed_obj_def jget_post_obj) (simp add: inner_obj_def signed_obj_def)

lemma opt_bytes_absent [simp]: "is_absent (opt_bytes b) \<longleftrightarrow> b = None"
  by (cases b) (simp_all add: opt_bytes_def is_absent_def)

lemma verify_built:
  assumes "sign_law S" "sig = identity_sign S idn (mp_encode M (JObj (signed_obj r t)))"
  shows "verify_inner S M (enc_obj r p) (inner_obj r t sig) =
     Inr (Some (post_obj (inner_obj r t sig) (jint (pq_postType r)) (opt_bytes (ps_tripPubkey sig))))"
proof -
  let ?d = "mp_encode M (JObj (signed_obj r t))"
  note sl = sign_lawD [OF assms(1)]
  have e: "jget (enc_obj r p) ''post_type'' = jint (pq_postType r)" by (simp add: enc_obj_def)
  have a: "\<not> is_absent (inner_obj r t sig)" by (simp add: is_absent_def inner_obj_def)
  have trip: "verifyTripSignature S (inner_obj r t sig) ?d = Inr (map_option Some (ps_tripPubkey sig))"
    by (cases "id_trip idn")
      (simp_all add: verifyTripSignature_def jget_inner assms(2) identity_sign_def sl, simp_all add: opt_bytes_def sl)
  have tp: "ps_tripPubkey sig = map_option (sign_pk S) (id_trip idn)" by (simp add: assms(2) identity_sign_def)
  have "identity_verify S ?d (ps_sessionPubkey sig) (ps_sessionSignature sig) = Some True"
    by (simp add: identity_verify_def assms(2) identity_sign_def sl)
  then show ?thesis using a trip
    by (cases "ps_tripPubkey sig")
      (simp_all add: verify_inner_def original_inner jget_inner new_u8_def e opt_bytes_def)
qed

lemma jget_packet_obj:
  "jget (packet_obj i n h) ''packet_id'' = JStr i" "jget (packet_obj i n h) ''hop_count'' = jint 0"
  "jget (packet_obj i n h) ''pow_nonce'' = jint n" "jget (packet_obj i n h) ''pow_difficulty'' = ph_difficulty h"
  "jget (packet_obj i n h) ''timestamp'' = ph_timestamp h" "jget (packet_obj i n h) ''zone_id'' = ph_zone_id h"
  "jget (packet_obj i n h) ''nonce'' = JBytes (ph_nonce h)" "jget (packet_obj i n h) ''payload'' = JBytes (ph_payload h)"
  by (simp_all add: packet_obj_def)

lemma pb_build_Inr:
  assumes "pb_build S M it now nonce idn k r = Inr packet"
  obtains c h i n where "length k = 32"
    "c = aead_seal S (POST_MAGIC @ mp_encode M (enc_obj r (mp_encode M (post_inner S M (roundToMinute now) idn r)))) nonce k"
    "h = committed_header S k r (roundToMinute now) nonce c" "pow_compute S it h = Inr n"
    "derivePacketId S h = Inr i" "packet = packet_obj i n h"
  using assms by (auto simp: pb_build_def Let_def ce_encrypt_def rbind_Inr_iff split: if_splits)

lemma built_post_opens:
  assumes "pb_build S M it now nonce idn k r = Inr packet" "t = roundToMinute now"
    and "aead_law S" "aead_stream_law S" "sign_law S"
    and "mp_roundtrip M (post_inner S M t idn r)" "mp_roundtrip M (enc_obj r (mp_encode M (post_inner S M t idn r)))"
    and "sig = identity_sign S idn (mp_encode M (JObj (signed_obj r t)))"
  shows "verifyAndDecrypt S M packet k =
    Inr (Some (post_obj (inner_obj r t sig) (jint (pq_postType r)) (opt_bytes (ps_tripPubkey sig))))"
proof -
  let ?inner = "post_inner S M t idn r"
  let ?e = "mp_encode M (enc_obj r (mp_encode M ?inner))"
  obtain c h i n where b: "c = aead_seal S (POST_MAGIC @ ?e) nonce k"
    "h = committed_header S k r t nonce c" "packet = packet_obj i n h"
    using assms(1) unfolding assms(2) by (elim pb_build_Inr)
  have p: "ph_payload h = c" "ph_nonce h = nonce" by (simp_all add: b committed_header_def)
  have d: "ce_decrypt S k c nonce = Some ?e"
    by (simp add: ce_decrypt_def b aead_lawD [OF assms(3)] POST_MAGIC_def)
  have dec: "mp_decode M ?e = Some (enc_obj r (mp_encode M ?inner))" "mp_decode M (mp_encode M ?inner) = Some ?inner"
    using assms(6,7) by (simp_all add: mp_roundtrip_def)
  have "open_ciphertext S M k c nonce = verify_inner S M (enc_obj r (mp_encode M ?inner)) ?inner"
    by (simp add: open_ciphertext_def d dec) (simp add: enc_obj_def mp_input_def dec)
  also have "\<dots> = Inr (Some (post_obj (inner_obj r t sig) (jint (pq_postType r)) (opt_bytes (ps_tripPubkey sig))))"
    unfolding post_inner_def assms(8) by (rule verify_built [OF assms(5) refl])
  finally show ?thesis
    using quickCheck_passes [OF assms(3,4) d]
    by (simp add: verifyAndDecrypt_def b(3) jget_packet_obj p is_absent_def) (simp add: packet_obj_def)
qed

text \<open>What is written can be read: a packet built for a thread, opened under the thread's key, gives
  back every field of the post, its type, and the public keys of the identity that wrote it.\<close>

theorem post_roundtrip:
  assumes "pb_build S M it now nonce idn k r = Inr packet" "t = roundToMinute now"
    and "aead_law S" "aead_stream_law S" "sign_law S"
    and "mp_roundtrip M (post_inner S M t idn r)" "mp_roundtrip M (enc_obj r (mp_encode M (post_inner S M t idn r)))"
    and "sig = identity_sign S idn (mp_encode M (JObj (signed_obj r t)))"
  shows "\<exists>post. verifyAndDecrypt S M packet k = Inr (Some post) \<and>
    list_all (\<lambda>(f, v). jget post f = v) (post_fields r t sig)"
  using built_post_opens [OF assms] post_fields_obj by blast

lemma roundToMinute_bounds: "roundToMinute now \<le> now" "now < roundToMinute now + 60000"
  "0 \<le> now \<Longrightarrow> 0 \<le> roundToMinute now"
proof -
  have "now = roundToMinute now + now mod 60000" by (simp add: roundToMinute_def)
  moreover have "0 \<le> now mod 60000" "now mod 60000 < 60000" by simp_all
  ultimately show "roundToMinute now \<le> now" "now < roundToMinute now + 60000" by linarith+
qed (simp add: roundToMinute_def)

lemma pow_compute_verifies:
  assumes "pow_compute S it h = Inr n"
  shows "verifyPow S h n \<and> 0 \<le> n \<and> n < int it"
proof -
  have d: "\<not> js_lt (ph_difficulty h) MIN_DIFFICULTY" "\<not> js_gt (ph_difficulty h) MAX_DIFFICULTY"
    and s: "solvePow S h it = Inr (Some n)"
    using assms by (auto simp: pow_compute_def rbind_Inr_iff split: if_splits option.splits)
  obtain p where p: "powPreimage h = Inr p"
    "solve_from (\<lambda>m. meetsDifficulty (powHash S p m) (int_of (ph_difficulty h))) it 0 = Some n"
    using s by (auto simp: solvePow_def rbind_Inr_iff)
  from solve_from_Some [OF p(2)] show ?thesis using d p(1) by (simp add: verifyPow_def)
qed

lemma built_packet_valid:
  assumes "pb_build S M it now nonce idn k r = Inr packet" "sha256_law S"
    and "length nonce = 12" "jget packet ''payload'' = JBytes c" "0 < length c" "length c \<le> 2048"
    and "int it \<le> max_safe" "0 \<le> now" "now \<le> max_safe" "now - 840000 \<le> clock" "clock \<le> now + 840000"
  shows "validator_check S clock False packet = Inr None"
proof -
  obtain c' h i n where b: "h = committed_header S k r (roundToMinute now) nonce c'" "pow_compute S it h = Inr n"
    "derivePacketId S h = Inr i" "packet = packet_obj i n h"
    using assms(1) by (elim pb_build_Inr)
  have h: "ph_payload h = c" "ph_nonce h = nonce" "ph_timestamp h = jint (roundToMinute now)"
    using assms(4) by (auto simp: b(1) b(4) committed_header_def jget_packet_obj)
  have "committedHeaderOf packet = Inr h"
    by (simp add: committedHeaderOf_def b(4) jget_packet_obj)
  moreover have "length i = 64" using derivePacketId_preimage [OF b(3)] assms(2) by (auto simp: len_simps)
  moreover note pow_compute_verifies [OF b(2)] roundToMinute_bounds [of now]
  ultimately have "packet_accepted S clock False packet"
    unfolding packet_accepted_def using b(3) h assms
    by (intro exI [of _ i] exI [of _ h]) (auto simp: b(4) jget_packet_obj, simp_all add: packet_obj_def)
  then show ?thesis by (rule packet_accepted_check)
qed

text \<open>What is written is relayed: a packet that building returns passes the check of every relay
  whose clock is within a quarter of an hour less a minute (the rounding of the time) of the author's,
  provided the sealed post fits the size limit, which the builder itself does not check.\<close>

theorem built_post_accepted:
  assumes "pb_build S M it now nonce idn k r = Inr packet" "sha256_law S"
    and "length nonce = 12" "jget packet ''payload'' = JBytes c" "0 < length c" "length c \<le> 2048"
    and "int it \<le> max_safe" "0 \<le> now" "now \<le> max_safe" "now - 840000 \<le> clock" "clock \<le> now + 840000"
  shows "validator_check S clock False packet = Inr None"
  by (rule built_packet_valid [OF assms])

subsection \<open>One post, computed\<close>

definition toy_writer :: post_identity where
  "toy_writer = \<lparr>id_session = [5], id_trip = Some [6]\<rparr>"

definition toy_req :: post_req where
  "toy_req = \<lparr>pq_content = ''hello'', pq_boardId = ''tech'', pq_threadId = ''t1'', pq_postNumber = 2, pq_replyTo = jint 1,
     pq_difficulty = 12, pq_depth = 0, pq_postType = 0, pq_parents = [''p''], pq_threadRoot = ''p'', pq_cumulativePow = jint 12\<rparr>"

definition toy_inner :: jsval where
  "toy_inner = inner_obj toy_req 1699999980000 (identity_sign tail_sodium toy_writer [])"

definition post_msgpack :: msgpack where
  "post_msgpack =
     \<lparr>mp_encode = (\<lambda>v. if v = toy_inner then [1] else if v = enc_obj toy_req [1] then [2] else []),
      mp_decode = (\<lambda>b. if b = [1] then Some toy_inner else if b = [2] then Some (enc_obj toy_req [1]) else None)\<rparr>"

lemma toy_distinct:
  "JObj (signed_obj toy_req t) \<noteq> toy_inner" "JObj (signed_obj toy_req t) \<noteq> enc_obj toy_req [1]"
  "enc_obj toy_req [1] \<noteq> toy_inner"
  by (simp_all add: toy_inner_def inner_obj_def signed_obj_def enc_obj_def)

lemma toy_encodes:
  "mp_encode post_msgpack (JObj (signed_obj toy_req t)) = []"
  "post_inner tail_sodium post_msgpack 1699999980000 toy_writer toy_req = toy_inner"
  "mp_encode post_msgpack toy_inner = [1]" "mp_encode post_msgpack (enc_obj toy_req [1]) = [2]"
  "mp_roundtrip post_msgpack toy_inner" "mp_roundtrip post_msgpack (enc_obj toy_req [1])"
proof -
  show e: "mp_encode post_msgpack (JObj (signed_obj toy_req t)) = []" for t
    by (simp add: post_msgpack_def toy_distinct)
  show "post_inner tail_sodium post_msgpack 1699999980000 toy_writer toy_req = toy_inner"
    by (simp add: post_inner_def e toy_inner_def)
qed (simp_all add: post_msgpack_def toy_distinct mp_roundtrip_def)

definition toy_sealed :: bytes where
  "toy_sealed = POST_MAGIC @ [2] @ replicate 16 0"

lemma tail_solvePow: "header_ok h \<Longrightarrow> int_of (ph_difficulty h) \<le> 256 \<Longrightarrow> solvePow tail_sodium h 1 = Inr (Some 0)"
  using toy_solvePow [of h] by (simp add: solvePow_def powHash_def tail_sodium_def)

lemma toy_built:
  "\<exists>packet. pb_build tail_sodium post_msgpack 1 1700000000000 (replicate 12 1) toy_writer (replicate 32 7) toy_req = Inr packet \<and>
     jget packet ''payload'' = JBytes toy_sealed"
proof -
  let ?h = "committed_header tail_sodium (replicate 32 7) toy_req 1699999980000 (replicate 12 1) toy_sealed"
  have t: "roundToMinute 1700000000000 = 1699999980000" by (simp add: roundToMinute_def)
  have c: "ce_encrypt tail_sodium (replicate 32 7) (replicate 12 1) [2] = Inr toy_sealed"
    by (simp add: ce_encrypt_def tail_sodium_def toy_sealed_def)
  have ok: "header_ok ?h"
    by (simp add: header_ok_def committed_header_def toy_req_def computeZoneId_def max_safe_def toy_sealed_def POST_MAGIC_def)
  have d: "ph_difficulty ?h = jint 12" by (simp add: committed_header_def toy_req_def)
  have n: "pow_compute tail_sodium 1 ?h = Inr 0"
    using tail_solvePow [OF ok] by (simp add: pow_compute_def d)
  obtain i where i: "derivePacketId tail_sodium ?h = Inr i"
    using ok powPreimage_ok_iff [of ?h] by (auto simp: derivePacketId_def)
  have "pb_build tail_sodium post_msgpack 1 1700000000000 (replicate 12 1) toy_writer (replicate 32 7) toy_req =
      Inr (packet_obj i 0 ?h)"
    using n by (simp add: pb_build_def t toy_encodes c Let_def i)
  then show ?thesis by (simp add: jget_packet_obj committed_header_def)
qed

lemma toy_post_opens:
  "\<exists>packet post. verifyAndDecrypt tail_sodium post_msgpack packet (replicate 32 7) = Inr (Some post)"
proof -
  obtain packet where b: "pb_build tail_sodium post_msgpack 1 1700000000000 (replicate 12 1) toy_writer (replicate 32 7) toy_req = Inr packet"
    using toy_built by blast
  have t: "1699999980000 = roundToMinute 1700000000000" by (simp add: roundToMinute_def)
  show ?thesis
    using built_post_opens [OF b t tail_laws(1,2,3) _ _ refl] by (simp add: toy_encodes) blast
qed


theorem post_roundtrip_witness:
  "\<exists>packet post. verifyAndDecrypt tail_sodium post_msgpack packet (replicate 32 7) = Inr (Some post) \<and>
     jget post ''content'' = JStr ''hello'' \<and> jget post ''trip_pubkey'' = JBytes (6 # replicate 31 0)"
proof -
  obtain packet where b: "pb_build tail_sodium post_msgpack 1 1700000000000 (replicate 12 1) toy_writer (replicate 32 7) toy_req = Inr packet"
    using toy_built by blast
  have t: "1699999980000 = roundToMinute 1700000000000" by (simp add: roundToMinute_def)
  have k: "sign_pk tail_sodium [6] = 6 # replicate 31 0" by (simp add: tail_sodium_def toy_sodium_def pad_to_def)
  from post_roundtrip [OF b t tail_laws(1,2,3) _ _ refl] obtain post where
    "verifyAndDecrypt tail_sodium post_msgpack packet (replicate 32 7) = Inr (Some post)"
    "list_all (\<lambda>(f, v). jget post f = v) (post_fields toy_req 1699999980000 (identity_sign tail_sodium toy_writer []))"
    by (auto simp: toy_encodes)
  then show ?thesis
    by (intro exI [of _ packet] exI [of _ post])
      (simp add: post_fields_def signed_obj_def toy_req_def identity_sign_def toy_writer_def opt_bytes_def k)
qed

theorem built_post_accepted_witness:
  "\<exists>packet. validator_check tail_sodium 1700000000000 False packet = Inr None"
proof -
  obtain packet where b: "pb_build tail_sodium post_msgpack 1 1700000000000 (replicate 12 1) toy_writer (replicate 32 7) toy_req = Inr packet"
    "jget packet ''payload'' = JBytes toy_sealed"
    using toy_built by blast
  show ?thesis
    using built_post_accepted [OF b(1) tail_laws(4) _ b(2), of 1700000000000]
    by (auto simp: toy_sealed_def POST_MAGIC_def max_safe_def)
qed

end
