(* ===== verification/JsPrim.thy ===== *)
theory JsPrim
  imports Json
begin

text \<open>
  The operators of the language that the board and the threads apply to untyped fields of a post:
  conversion to text, \<open>a || b\<close>, \<open>a > b\<close>, \<open>a + b\<close>, \<open>isFinite\<close> and \<open>Math.max\<close>. Numbers that are no
  integers are printed by the argument \<open>fmt\<close>, as in \<open>Json\<close>. Decoded data has no functions, so a
  conversion that would call an own \<open>toString\<close> throws.
\<close>

fun js_num_text :: "(rat \<Rightarrow> string) \<Rightarrow> jsnum \<Rightarrow> string" where
  "js_num_text fmt NaN = ''NaN''"
| "js_num_text fmt PosInf = ''Infinity''"
| "js_num_text fmt NegInf = ''-Infinity''"
| "js_num_text fmt (Fin r) = num_text fmt (Fin r)"

text \<open>\<open>v.toString()\<close>: of \<open>undefined\<close> and \<open>null\<close> it throws; in an array they print as nothing.\<close>

fun js_text :: "(rat \<Rightarrow> string) \<Rightarrow> jsval \<Rightarrow> string res"
  and js_texts :: "(rat \<Rightarrow> string) \<Rightarrow> jsval list \<Rightarrow> string list res" where
  "js_text fmt Undef = Inl TypeError"
| "js_text fmt Null = Inl TypeError"
| "js_text fmt (JBool b) = Inr (if b then ''true'' else ''false'')"
| "js_text fmt (JNum n) = Inr (js_num_text fmt n)"
| "js_text fmt (JBig n) = Inr (int_text n)"
| "js_text fmt (JStr s) = Inr s"
| "js_text fmt (JBytes bs) = Inr (join_with '','' (map (\<lambda>b. int_text (uint b)) bs))"
| "js_text fmt (JBuffer _) = Inr ''[object ArrayBuffer]''"
| "js_text fmt (JView _) = Inr ''[object DataView]''"
| "js_text fmt (JArr vs) = rbind (js_texts fmt vs) (\<lambda>ts. Inr (join_with '','' ts))"
| "js_text fmt (JObj kvs) = (if jm_has kvs ''toString'' then Inl TypeError else Inr ''[object Object]'')"
| "js_texts fmt [] = Inr []"
| "js_texts fmt (v # vs) =
     rbind (if v = Undef \<or> v = Null then Inr [] else js_text fmt v) (\<lambda>t.
     rbind (js_texts fmt vs) (\<lambda>ts. Inr (t # ts)))"

text \<open>\<open>`${v}`\<close>\<close>

definition js_template :: "(rat \<Rightarrow> string) \<Rightarrow> jsval \<Rightarrow> string res" where
  "js_template fmt v = (case v of Undef \<Rightarrow> Inr ''undefined'' | Null \<Rightarrow> Inr ''null'' | _ \<Rightarrow> js_text fmt v)"

definition js_or :: "jsval \<Rightarrow> jsval \<Rightarrow> jsval" where
  "js_or a b = (if truthy a then a else b)"

text \<open>The primitive value of an object is its text.\<close>

definition to_prim :: "(rat \<Rightarrow> string) \<Rightarrow> jsval \<Rightarrow> jsval res" where
  "to_prim fmt v = (if is_object v then rbind (js_text fmt v) (\<lambda>t. Inr (JStr t)) else Inr v)"

fun num_less :: "jsnum \<Rightarrow> jsnum \<Rightarrow> bool" where
  "num_less NaN _ = False"
| "num_less _ NaN = False"
| "num_less PosInf _ = False"
| "num_less _ NegInf = False"
| "num_less NegInf _ = True"
| "num_less _ PosInf = True"
| "num_less (Fin a) (Fin b) = (a < b)"

definition prim_num :: "jsval \<Rightarrow> jsnum" where
  "prim_num v =
     (case v of JBig n \<Rightarrow> Fin (of_int n)
      | _ \<Rightarrow> (case js_to_number v of Inr n \<Rightarrow> n | Inl _ \<Rightarrow> NaN))"

text \<open>\<open>a < b\<close>: two strings by their code units, anything else by value.\<close>

definition js_less :: "(rat \<Rightarrow> string) \<Rightarrow> jsval \<Rightarrow> jsval \<Rightarrow> bool res" where
  "js_less fmt a b =
     rbind (to_prim fmt a) (\<lambda>p. rbind (to_prim fmt b) (\<lambda>q.
       Inr (case (p, q) of
          (JStr s, JStr t) \<Rightarrow> ord_class.lexordp (map of_char s :: nat list) (map of_char t)
        | _ \<Rightarrow> num_less (prim_num p) (prim_num q))))"

fun num_add :: "jsnum \<Rightarrow> jsnum \<Rightarrow> jsnum" where
  "num_add (Fin a) (Fin b) = Fin (a + b)"
| "num_add NaN _ = NaN"
| "num_add _ NaN = NaN"
| "num_add PosInf NegInf = NaN"
| "num_add NegInf PosInf = NaN"
| "num_add PosInf _ = PosInf"
| "num_add _ PosInf = PosInf"
| "num_add NegInf _ = NegInf"
| "num_add _ NegInf = NegInf"

text \<open>\<open>a + n\<close> for a number \<open>n\<close>: a string (or an object) is extended by the text of \<open>n\<close>; a BigInt does not mix.\<close>

definition js_add_num :: "(rat \<Rightarrow> string) \<Rightarrow> jsval \<Rightarrow> int \<Rightarrow> jsval res" where
  "js_add_num fmt a n =
     rbind (to_prim fmt a) (\<lambda>p.
       case p of
         JStr s \<Rightarrow> Inr (JStr (s @ int_text n))
       | JBig _ \<Rightarrow> Inl TypeError
       | _ \<Rightarrow> Inr (JNum (num_add (prim_num p) (Fin (of_int n)))))"

text \<open>\<open>Number(v)\<close> and \<open>isFinite(v)\<close>; the latter throws on a BigInt.\<close>

definition js_Number :: "jsval \<Rightarrow> jsnum" where
  "js_Number v = prim_num v"

definition js_isFinite :: "jsval \<Rightarrow> bool res" where
  "js_isFinite v = rbind (js_to_number v) (\<lambda>n. Inr (case n of Fin _ \<Rightarrow> True | _ \<Rightarrow> False))"

fun num_max :: "jsnum \<Rightarrow> jsnum \<Rightarrow> jsnum" where
  "num_max NaN _ = NaN"
| "num_max _ NaN = NaN"
| "num_max a b = (if num_less a b then b else a)"

definition js_max :: "jsval \<Rightarrow> jsval \<Rightarrow> jsnum res" where
  "js_max a b = rbind (js_to_number a) (\<lambda>m. rbind (js_to_number b) (\<lambda>n. Inr (num_max m n)))"

lemma js_int_text [simp]: "\<bar>n\<bar> < 10 ^ 21 \<Longrightarrow> js_text fmt (jint n) = Inr (int_text n)"
proof -
  assume "\<bar>n\<bar> < 10 ^ 21"
  then have "\<bar>rat_of_int n\<bar> < 10 ^ 21" by (metis of_int_abs of_int_less_iff of_int_numeral of_int_power)
  then show ?thesis by simp
qed

lemma js_less_ints [simp]: "js_less fmt (jint m) (jint n) = Inr (m < n)"
  by (simp add: js_less_def to_prim_def prim_num_def)

lemma js_max_ints [simp]: "js_max (jint m) (jint n) = Inr (Fin (of_int (max m n)))"
  by (auto simp: js_max_def max_def)

lemma js_add_num_int [simp]: "js_add_num fmt (jint m) n = Inr (jint (m + n))"
  by (simp add: js_add_num_def to_prim_def prim_num_def)

end
