(* ===== verification/Replication.thy ===== *)
theory Replication
  imports DHTMailbox PostPacket JsPrim "HOL-Library.Multiset"
begin

text \<open>
  \<open>packages/core/src/network/mailbox/ReplicationManager.ts\<close>: keeping every stored topic at the nodes nearest to it
  when neighbours come and go, and \<open>SyncProtocol.ts\<close>: turning what a fetch brought into posts. A run of
  \<open>rebalanceOnce\<close> is a task that is resumed with the keys and then with the entries of each topic; several runs may
  be under way. The lemmas show who is chosen, what is sent, and that a stopped manager stops.
\<close>

subsection \<open>State\<close>

definition K_REPLICATION :: nat where "K_REPLICATION = 5"
definition REBALANCE_DEBOUNCE_MS :: int where "REBALANCE_DEBOUNCE_MS = 10000"

text \<open>Waiting for all topics; or for the entries of a topic, with its targets and the topics after it.\<close>

datatype rp_task =
    RpKeys
  | RpEntries string "peer_id list" "string list"

record replication =
  rp_rebalanceTimer :: bool
  rp_periodicTimer :: bool
  rp_destroyed :: bool
  rp_tasks :: "(nat, rp_task) jsmap"
  rp_seq :: nat

datatype rp_effect =
    RpSend dm_effect
  | RpSetTimer int
  | RpClearTimer

type_synonym rp_step = "rp_effect list \<times> replication"

definition replication_init :: replication where
  "replication_init = \<lparr>rp_rebalanceTimer = False, rp_periodicTimer = True, rp_destroyed = False, rp_tasks = [], rp_seq = 0\<rparr>"

definition replication_destroy :: "replication \<Rightarrow> replication" where
  "replication_destroy s = s\<lparr>rp_periodicTimer := False, rp_rebalanceTimer := False, rp_destroyed := True\<rparr>"

subsection \<open>Operations\<close>

text \<open>On every connection and disconnection, and every five minutes.\<close>

definition planRebalance :: "replication \<Rightarrow> rp_step" where
  "planRebalance s =
     (if rp_destroyed s then ([], s)
      else ((if rp_rebalanceTimer s then [RpClearTimer] else []) @ [RpSetTimer REBALANCE_DEBOUNCE_MS],
            s\<lparr>rp_rebalanceTimer := True\<rparr>))"

text \<open>Unverified peers are no targets.\<close>

definition findKNearestExcludingMe :: "dm_env \<Rightarrow> rat \<Rightarrow> nat \<Rightarrow> peer_id list" where
  "findKNearestExcludingMe e topicPos k =
     (let allPeers = filter (\<lambda>(p, w). wp_connected w \<and> wp_verified w) (pm_peers (de_pm e));
          sorted = sort_key snd (map (\<lambda>(p, w). (p, ring_distance topicPos (derivePosition (de_S e) p))) allPeers) in
      map fst (take k sorted))"

text \<open>The start of \<open>rebalanceOnce\<close>.\<close>

definition executeRebalance :: "dm_env \<Rightarrow> replication \<Rightarrow> replication" where
  "executeRebalance e s =
     (if rp_destroyed s \<or> degree (de_pm e) = 0 then s
      else s\<lparr>rp_tasks := jm_set (rp_seq s) RpKeys (rp_tasks s), rp_seq := Suc (rp_seq s)\<rparr>)"

text \<open>The head of its loop; the targets are chosen before the entries are read.\<close>

definition rebalance_next :: "dm_env \<Rightarrow> nat \<Rightarrow> string list \<Rightarrow> replication \<Rightarrow> replication" where
  "rebalance_next e i topics s =
     (case topics of
        [] \<Rightarrow> s\<lparr>rp_tasks := jm_del i (rp_tasks s)\<rparr>
      | topic # rest \<Rightarrow>
          if rp_destroyed s then s\<lparr>rp_tasks := jm_del i (rp_tasks s)\<rparr>
          else s\<lparr>rp_tasks := jm_set i (RpEntries topic (findKNearestExcludingMe e (hashToPosition topic) K_REPLICATION) rest)
                   (rp_tasks s)\<rparr>)"

text \<open>The body of the loop for the entries read; a locked store throws, which ends the run.\<close>

definition rebalance_resume :: "dm_env \<Rightarrow> nat \<Rightarrow> mailbox \<Rightarrow> replication \<Rightarrow> rp_step" where
  "rebalance_resume e i mb s =
     (case jm_get (rp_tasks s) i of
        None \<Rightarrow> ([], s)
      | Some t \<Rightarrow>
          (case dm_store mb of
             None \<Rightarrow> ([], s\<lparr>rp_tasks := jm_del i (rp_tasks s)\<rparr>)
           | Some st \<Rightarrow>
               (case t of
                  RpKeys \<Rightarrow> ([], rebalance_next e i (ms_topics st) s)
                | RpEntries topic targets rest \<Rightarrow>
                    (let entries = (case ms_get st topic of Some es \<Rightarrow> es | None \<Rightarrow> []) in
                     (if entries = [] then []
                      else concat (map (\<lambda>p. map RpSend (replicate_put e p topic entries)) targets),
                      rebalance_next e i rest s)))))"

fun rebalance_run :: "dm_env \<Rightarrow> nat \<Rightarrow> mailbox \<Rightarrow> nat \<Rightarrow> replication \<Rightarrow> rp_step" where
  "rebalance_run e i mb 0 s = ([], s)"
| "rebalance_run e i mb (Suc n) s =
     (let (fx, s1) = rebalance_resume e i mb s; (gx, s2) = rebalance_run e i mb n s1 in (fx @ gx, s2))"

subsection \<open>Who gets a copy\<close>

lemma sort_key_take_le:
  fixes f :: "'a \<Rightarrow> 'b :: linorder"
  assumes "x \<in> set (take k (sort_key f xs))" "y \<in> set xs" "y \<notin> set (take k (sort_key f xs))"
  shows "f x \<le> f y"
proof -
  let ?s = "sort_key f xs"
  have "set ?s = set (take k ?s) \<union> set (drop k ?s)" by (metis append_take_drop_id set_append)
  then have "y \<in> set (drop k ?s)" using assms(2,3) by auto
  moreover have "sorted (map f (take k ?s) @ map f (drop k ?s))"
    by (metis append_take_drop_id map_append sorted_sort_key)
  ultimately show ?thesis using assms(1) by (auto simp: sorted_append)
qed

definition verified_peer :: "dm_env \<Rightarrow> peer_id \<Rightarrow> bool" where
  "verified_peer e p \<longleftrightarrow> (\<exists>w. (p, w) \<in> set (pm_peers (de_pm e)) \<and> wp_connected w \<and> wp_verified w)"

text \<open>The targets of a topic are connected and verified neighbours, at most five, as many as there are up to
  that, and no verified neighbour that is left out is nearer to the topic than one that is chosen.\<close>

theorem rebalance_targets_nearest:
  assumes "jm_wf (pm_peers (de_pm e))"
  shows "distinct (findKNearestExcludingMe e pos k) \<and>
    length (findKNearestExcludingMe e pos k) = min k (length (filter (\<lambda>(p, w). wp_connected w \<and> wp_verified w) (pm_peers (de_pm e)))) \<and>
    (\<forall>p \<in> set (findKNearestExcludingMe e pos k). verified_peer e p \<and>
       (\<forall>q. verified_peer e q \<and> q \<notin> set (findKNearestExcludingMe e pos k) \<longrightarrow>
          ring_distance pos (derivePosition (de_S e) p) \<le> ring_distance pos (derivePosition (de_S e) q)))"
proof -
  define d where "d p = ring_distance pos (derivePosition (de_S e) p)" for p
  let ?ok = "filter (\<lambda>(p, w). wp_connected w \<and> wp_verified w) (pm_peers (de_pm e))"
  define xs where "xs = map (\<lambda>(p, w). (p, d p)) ?ok"
  have F: "findKNearestExcludingMe e pos k = map fst (take k (sort_key snd xs))"
    by (simp add: findKNearestExcludingMe_def xs_def d_def Let_def)
  have "map fst xs = map fst ?ok" by (auto simp: xs_def)
  then have dx: "distinct (map fst xs)" using assms distinct_map_filter by (fastforce simp: jm_wf_def)
  have "mset (map fst (sort_key snd xs)) = mset (map fst xs)" by (simp only: mset_map mset_sort)
  then have ds: "distinct (map fst (sort_key snd xs))" using dx mset_eq_imp_distinct_iff by blast
  then have 1: "distinct (findKNearestExcludingMe e pos k)" unfolding F by (metis distinct_take take_map)
  have 2: "length (findKNearestExcludingMe e pos k) = min k (length ?ok)" by (simp add: F xs_def min.commute)
  have el: "verified_peer e p \<longleftrightarrow> (p, d p) \<in> set xs" for p by (force simp: verified_peer_def xs_def)
  have dd: "x \<in> set xs \<Longrightarrow> x = (fst x, d (fst x))" for x by (auto simp: xs_def)
  have "verified_peer e p \<and> (\<forall>q. verified_peer e q \<and> q \<notin> set (findKNearestExcludingMe e pos k) \<longrightarrow> d p \<le> d q)"
    if p: "p \<in> set (findKNearestExcludingMe e pos k)" for p
  proof -
    have sub: "set (take k (sort_key snd xs)) \<subseteq> set xs" using set_take_subset [of k "sort_key snd xs"] by simp
    obtain x where x: "x \<in> set (take k (sort_key snd xs))" "fst x = p" using p unfolding F by auto
    then have xp: "x = (p, d p)" using dd sub by blast
    have "d p \<le> d q" if q: "verified_peer e q" "q \<notin> set (findKNearestExcludingMe e pos k)" for q
    proof -
      have "(q, d q) \<notin> set (take k (sort_key snd xs))" using q(2) unfolding F by force
      then show ?thesis using sort_key_take_le [OF x(1)] q(1) el xp by fastforce
    qed
    then show ?thesis using el x(1) xp sub by blast
  qed
  then show ?thesis using 1 2 unfolding d_def by blast
qed

theorem rebalance_targets_nearest_witness:
  "findKNearestExcludingMe toy_dm_env 0 5 = []"
  using rebalance_targets_nearest [of toy_dm_env 0 5] by (simp add: toy_dm_env_def pm_init_def)

subsection \<open>What is sent\<close>

text \<open>The entries of a topic in messages of at most 64.\<close>

function chunks :: "'a list \<Rightarrow> 'a list list" where
  "chunks es = (if es = [] then [] else take MAX_ENTRIES_PER_MESSAGE es # chunks (drop MAX_ENTRIES_PER_MESSAGE es))"
  by pat_completeness auto
termination by (relation "measure length") auto

declare chunks.simps [simp del]

lemma replicate_put_chunks: "replicate_put e p topic es = concat (map (sendDHTPut e p topic) (chunks es))"
proof (induction es rule: chunks.induct)
  case (1 es)
  then show ?case by (simp add: replicate_put.simps [of e p topic es] chunks.simps [of es])
qed

lemma chunks_all: "concat (chunks es) = es \<and> (\<forall>c \<in> set (chunks es). c \<noteq> [] \<and> length c \<le> MAX_ENTRIES_PER_MESSAGE)"
proof (induction es rule: chunks.induct)
  case (1 es)
  then show ?case by (simp add: chunks.simps [of es])
qed

definition topic_copies :: "dm_env \<Rightarrow> mail_store \<Rightarrow> string \<Rightarrow> rp_effect list" where
  "topic_copies e st topic =
     concat (map (\<lambda>p. map RpSend (concat (map (sendDHTPut e p topic) (chunks (case ms_get st topic of Some es \<Rightarrow> es | None \<Rightarrow> [])))))
       (findKNearestExcludingMe e (hashToPosition topic) K_REPLICATION))"

lemma topic_copies_none: "(case ms_get st topic of Some es \<Rightarrow> es | None \<Rightarrow> []) = [] \<Longrightarrow> topic_copies e st topic = []"
  by (simp add: topic_copies_def chunks.simps)

lemma rebalance_run_none: "jm_get (rp_tasks s) i = None \<Longrightarrow> rebalance_run e i mb n s = ([], s)"
  by (induction n) (simp_all add: rebalance_resume_def)

text \<open>A run that has come to the head of the loop with some topics left.\<close>

lemma rebalance_run_topics:
  "dm_store mb = Some st \<Longrightarrow> \<not> rp_destroyed s \<Longrightarrow>
     fst (rebalance_run e i mb (length topics) (rebalance_next e i topics s)) = concat (map (topic_copies e st) topics) \<and>
     jm_get (rp_tasks (snd (rebalance_run e i mb (length topics) (rebalance_next e i topics s)))) i = None"
proof (induction topics arbitrary: s)
  case (Cons topic topics)
  let ?targets = "findKNearestExcludingMe e (hashToPosition topic) K_REPLICATION"
  let ?s = "s\<lparr>rp_tasks := jm_set i (RpEntries topic ?targets topics) (rp_tasks s)\<rparr>"
  have n: "rebalance_next e i (topic # topics) s = ?s" using Cons.prems by (simp add: rebalance_next_def)
  have r: "rebalance_resume e i mb ?s = (topic_copies e st topic, rebalance_next e i topics ?s)"
    using Cons.prems topic_copies_none [of st topic e]
    by (auto simp: rebalance_resume_def Let_def replicate_put_chunks topic_copies_def)
  have "\<not> rp_destroyed ?s" using Cons.prems by simp
  from Cons.IH [OF Cons.prems(1) this] show ?case unfolding n by (simp add: r split_def Let_def)
qed (simp add: rebalance_next_def)


text \<open>After \<open>destroy\<close> nothing is planned and no run starts; a run under way ends at its next wait, having sent at
  most the topic whose entries it was reading.\<close>

theorem rebalance_stops:
  assumes "rp_destroyed s"
  shows "planRebalance s = ([], s) \<and> executeRebalance e s = s \<and>
    jm_get (rp_tasks (snd (rebalance_resume e i mb s))) i = None \<and>
    (fst (rebalance_resume e i mb s) \<noteq> [] \<longrightarrow> (\<exists>topic targets rest. jm_get (rp_tasks s) i = Some (RpEntries topic targets rest)))"
  using assms
  by (auto simp: planRebalance_def executeRebalance_def rebalance_resume_def rebalance_next_def Let_def
      split: option.splits rp_task.splits list.splits)

theorem rebalance_stops_witness:
  "planRebalance (replication_destroy replication_init) = ([], replication_destroy replication_init)"
  using rebalance_stops [of "replication_destroy replication_init"] by (simp add: replication_destroy_def)


subsection \<open>Synchronising a thread\<close>

text \<open>What is handed to \<open>IPostStore.save\<close>.\<close>

record save_req =
  sr_board :: jsval
  sr_thread :: jsval
  sr_payload :: bytes
  sr_parents :: jsval
  sr_pow :: jsval
  sr_root :: jsval
  sr_created :: jsval

text \<open>The key of the thread and the topic that is fetched.\<close>

definition sync_topic :: "sodium \<Rightarrow> bytes \<Rightarrow> string \<Rightarrow> (bytes \<times> string) res" where
  "sync_topic S boardKey threadId =
     (case deriveThreadKey S boardKey threadId of
        None \<Rightarrow> Inl TypeError
      | Some threadKey \<Rightarrow> Inr (threadKey, toHex (deriveTopicHash S threadKey)))"

text \<open>One packet: an exception and a packet that does not open are logged and passed over. (\<open>dag\<close> has no time
  of creation here.)\<close>

definition sync_packet :: "sodium \<Rightarrow> msgpack \<Rightarrow> bytes \<Rightarrow> string \<Rightarrow> bytes \<Rightarrow> save_req option" where
  "sync_packet S M threadKey threadId binPacket =
     (case rbind (json_binary_parse (text_decode binPacket)) (\<lambda>packetObj. verifyAndDecrypt S M packetObj threadKey) of
        Inr (Some post) \<Rightarrow>
          Some \<lparr>sr_board = jget post ''board_id'', sr_thread = jget post ''thread_id'', sr_payload = binPacket,
            sr_parents = js_or (jget post ''parents'') (JArr []), sr_pow = js_or (jget post ''cumulative_pow'') (jint 0),
            sr_root = js_or (jget post ''thread_root'') (JStr threadId), sr_created = Undef\<rparr>
      | _ \<Rightarrow> None)"

text \<open>The saves, in order, and the number returned: a save that fails is counted as well.\<close>

definition sync_packets :: "sodium \<Rightarrow> msgpack \<Rightarrow> bytes \<Rightarrow> string \<Rightarrow> bytes list \<Rightarrow> save_req list \<times> nat" where
  "sync_packets S M threadKey threadId packets =
     (let rs = List.map_filter (sync_packet S M threadKey threadId) packets in (rs, length rs))"

text \<open>A synchronisation saves nothing that is not signed: every post saved comes from one of the packets fetched,
  which opens under the key of the thread, and its board and thread are the ones its author signed.\<close>

theorem sync_saves_authentic:
  assumes "r \<in> set (fst (sync_packets S M threadKey threadId packets))"
  shows "\<exists>packet post. sr_payload r \<in> set packets \<and> json_binary_parse (text_decode (sr_payload r)) = Inr packet \<and>
    verifyAndDecrypt S M packet threadKey = Inr (Some post) \<and> shown_authentic S M post \<and>
    sr_board r = jget post ''board_id'' \<and> sr_thread r = jget post ''thread_id''"
proof -
  obtain b where b: "b \<in> set packets" "sync_packet S M threadKey threadId b = Some r"
    using assms by (force simp: sync_packets_def Let_def List.map_filter_def)
  then obtain packet post where p: "json_binary_parse (text_decode b) = Inr packet"
    "verifyAndDecrypt S M packet threadKey = Inr (Some post)"
    and r: "r = \<lparr>sr_board = jget post ''board_id'', sr_thread = jget post ''thread_id'', sr_payload = b,
            sr_parents = js_or (jget post ''parents'') (JArr []), sr_pow = js_or (jget post ''cumulative_pow'') (jint 0),
            sr_root = js_or (jget post ''thread_root'') (JStr threadId), sr_created = Undef\<rparr>"
    by (auto simp: sync_packet_def rbind_Inr_iff split: sum.splits option.splits)
  obtain enc inner where "verify_inner S M enc inner = Inr (Some post)" using p(2) by (elim verifyAndDecrypt_Some)
  then have "shown_authentic S M post" by (rule verify_inner_authentic)
  then show ?thesis using b(1) p r by auto
qed

end
