(* ===== verification/SeenCache.thy ===== *)
theory SeenCache
  imports Prelude
begin

text \<open>
  \<open>packages/core/src/network/gossip/SeenCache.ts\<close>: the first-in-first-out set of packet
  identifiers that stops a flood from circulating, with its 50 000-entry bound and its periodic
  sweep. The locale \<open>dedup_cache\<close> is what the gossip routers rely on; the sweep's early exit is
  shown equal to a full filter while insertion times ascend.
\<close>

subsection \<open>The interface\<close>

text \<open>\<open>recent k n s\<close>: at most \<open>n\<close> keys entered after \<open>k\<close>.\<close>

locale dedup_cache =
  fixes has :: "'s \<Rightarrow> 'k \<Rightarrow> bool"
    and add :: "int \<Rightarrow> 'k \<Rightarrow> 's \<Rightarrow> 's"
    and count :: "'s \<Rightarrow> nat"
    and ok :: "'s \<Rightarrow> bool"
    and valid :: "'k \<Rightarrow> bool"
    and recent :: "'k \<Rightarrow> nat \<Rightarrow> 's \<Rightarrow> bool"
    and bound :: nat
  assumes ok_add: "ok s \<Longrightarrow> valid k \<Longrightarrow> ok (add t k s)"
    and count_ok: "ok s \<Longrightarrow> count s \<le> bound"
    and recent_new: "ok s \<Longrightarrow> valid k \<Longrightarrow> \<not> has s k \<Longrightarrow> recent k 0 (add t k s)"
    and recent_step: "ok s \<Longrightarrow> valid j \<Longrightarrow> recent k n s \<Longrightarrow> Suc n < bound \<Longrightarrow> recent k (Suc n) (add t j s)"
    and recent_has: "recent k n s \<Longrightarrow> has s k"
    and has_add: "has (add t k s) j \<Longrightarrow> j = k \<or> has s j"
begin

definition adds :: "(int \<times> 'k) list \<Rightarrow> 's \<Rightarrow> 's" where
  "adds = fold (\<lambda>(t, k). add t k)"

lemma adds_ok: "ok s \<Longrightarrow> \<forall>(t, k) \<in> set tks. valid k \<Longrightarrow> ok (adds tks s)"
  by (induction tks arbitrary: s) (auto simp: adds_def ok_add)

lemma adds_bounded: "ok s \<Longrightarrow> \<forall>(t, k) \<in> set tks. valid k \<Longrightarrow> count (adds tks s) \<le> bound"
  by (intro count_ok adds_ok)

lemma adds_recent:
  "\<lbrakk>ok s; \<forall>(t, k) \<in> set tks. valid k; recent k n s; n + length tks < bound\<rbrakk> \<Longrightarrow> \<exists>m. recent k m (adds tks s)"
proof (induction tks arbitrary: s n)
  case (Cons tk tks)
  obtain t j where tk: "tk = (t, j)" by force
  have "recent k (Suc n) (add t j s)" "ok (add t j s)"
    using Cons.prems tk by (auto intro: recent_step ok_add)
  then show ?case using Cons.IH [of "add t j s" "Suc n"] Cons.prems tk by (auto simp: adds_def)
qed (auto simp: adds_def)

lemma adds_remembers:
  assumes "ok s" "valid k" "\<not> has s k" "\<forall>(t, j) \<in> set tks. valid j" "length tks < bound"
  shows "has (adds tks (add t k s)) k"
  using adds_recent [of "add t k s" tks k 0] assms ok_add recent_new recent_has by fastforce

lemma adds_only: "has (adds tks s) k \<Longrightarrow> has s k \<or> k \<in> snd ` set tks"
proof (induction tks arbitrary: s)
  case (Cons tk tks)
  obtain t j where tk: "tk = (t, j)" by force
  then have "has (add t j s) k \<or> k \<in> snd ` set tks" using Cons by (simp add: adds_def)
  then show ?case using has_add tk by auto
qed (simp add: adds_def)

end

subsection \<open>The cache\<close>

type_synonym seen_cache = "(string, int) jsmap"

definition SEEN_MAX_SIZE :: nat where "SEEN_MAX_SIZE = 50000"
definition SEEN_TTL_MS :: int where "SEEN_TTL_MS = 15 * 60 * 1000"

definition seen_has :: "seen_cache \<Rightarrow> string \<Rightarrow> bool" where
  "seen_has c packetId = jm_has c packetId"

definition seen_add :: "int \<Rightarrow> string \<Rightarrow> seen_cache \<Rightarrow> seen_cache" where
  "seen_add now packetId c =
     (if jm_has c packetId then c
      else
        (let c1 = jm_set packetId now c in
         if length c1 > SEEN_MAX_SIZE then
           (case c1 of [] \<Rightarrow> c1 | (oldestKey, _) # _ \<Rightarrow> if oldestKey \<noteq> [] then jm_del oldestKey c1 else c1)
         else c1))"

text \<open>The sweep walks the entries in insertion order and stops at the first one still alive.\<close>

fun cleanup_from :: "int \<Rightarrow> seen_cache \<Rightarrow> seen_cache \<Rightarrow> seen_cache" where
  "cleanup_from now [] c = c"
| "cleanup_from now ((i, insertedAt) # rest) c =
     (if now - insertedAt > SEEN_TTL_MS then cleanup_from now rest (jm_del i c) else c)"

definition seen_cleanup :: "int \<Rightarrow> seen_cache \<Rightarrow> seen_cache" where
  "seen_cleanup now c = cleanup_from now c c"

definition seen_destroy :: "seen_cache \<Rightarrow> seen_cache" where
  "seen_destroy c = []"

subsection \<open>Well-formedness and the interface\<close>

definition seen_ok :: "seen_cache \<Rightarrow> bool" where
  "seen_ok c \<longleftrightarrow> jm_wf c \<and> [] \<notin> set (jm_keys c) \<and> length c \<le> SEEN_MAX_SIZE"

definition seen_recent :: "string \<Rightarrow> nat \<Rightarrow> seen_cache \<Rightarrow> bool" where
  "seen_recent k n c \<longleftrightarrow> (\<exists>xs ys. jm_keys c = xs @ k # ys \<and> length ys \<le> n)"

lemma seen_add_eq:
  assumes "seen_ok c" "k \<noteq> []"
  shows "seen_add t k c =
    (if jm_has c k then c else if length c < SEEN_MAX_SIZE then c @ [(k, t)] else tl (c @ [(k, t)]))"
proof (cases "jm_has c k")
  case False
  have ne: "c @ [(k, t)] = (j, w) # cs \<Longrightarrow> j \<noteq> []" for j w cs
    using assms by (cases c) (auto simp: seen_ok_def)
  have "jm_wf (c @ [(k, t)])" using assms jm_wf_set [of c k t] False by (simp add: jm_set_new seen_ok_def)
  then have "jm_drop_oldest (c @ [(k, t)]) = tl (c @ [(k, t)])" by (rule jm_drop_oldest_tl)
  moreover have "(case c @ [(k, t)] of [] \<Rightarrow> c @ [(k, t)]
       | (j, _) # _ \<Rightarrow> if j \<noteq> [] then jm_del j (c @ [(k, t)]) else c @ [(k, t)])
     = jm_drop_oldest (c @ [(k, t)])"
    using ne by (auto simp: jm_drop_oldest_def split: list.splits)
  ultimately show ?thesis using False by (simp add: seen_add_def jm_set_new Let_def)
qed (simp add: seen_add_def)

lemma seen_ok_add [wf_intro]:
  assumes "seen_ok c" "k \<noteq> []"
  shows "seen_ok (seen_add t k c)"
proof (cases "jm_has c k")
  case False
  have wf: "jm_wf (c @ [(k, t)])" using assms jm_wf_set [of c k t] False by (simp add: jm_set_new seen_ok_def)
  show ?thesis
    using assms wf jm_wf_tl [OF wf] False
    by (cases c) (auto simp: seen_ok_def seen_add_eq SEEN_MAX_SIZE_def)
qed (use assms in \<open>simp add: seen_add_def\<close>)

lemma seen_recent_step:
  assumes "seen_ok c" "j \<noteq> []" "seen_recent k n c" "Suc n < SEEN_MAX_SIZE"
  shows "seen_recent k (Suc n) (seen_add t j c)"
proof -
  obtain xs ys where k: "jm_keys c = xs @ k # ys" "length ys \<le> n"
    using assms by (auto simp: seen_recent_def)
  then have len: "length c = length xs + 1 + length ys" by (metis length_map length_append length_Cons add.commute add_Suc_right add.left_commute plus_1_eq_Suc)
  consider "seen_add t j c = c" | "seen_add t j c = c @ [(j, t)]"
    | "seen_add t j c = tl (c @ [(j, t)])" "xs \<noteq> []"
  proof (cases "xs = []")
    case True
    then have "length c < SEEN_MAX_SIZE" using assms len k by simp
    then show ?thesis using that(1,2) assms by (cases "jm_has c j") (simp_all add: seen_add_eq)
  next
    case False
    then show ?thesis using that assms
      by (cases "jm_has c j"; cases "length c < SEEN_MAX_SIZE") (simp_all add: seen_add_eq)
  qed
  then show ?thesis
  proof cases
    case 1
    then show ?thesis using k unfolding seen_recent_def
      by (intro exI [of _ xs] exI [of _ ys]) simp
  next
    case 2
    then show ?thesis using k unfolding seen_recent_def
      by (intro exI [of _ xs] exI [of _ "ys @ [j]"]) simp
  next
    case 3
    have "jm_keys (tl (c @ [(j, t)])) = tl xs @ k # (ys @ [j])"
      using k 3 by (simp add: map_tl)
    then show ?thesis using k 3 unfolding seen_recent_def
      by (intro exI [of _ "tl xs"] exI [of _ "ys @ [j]"]) simp
  qed
qed

interpretation seen: dedup_cache seen_has seen_add length seen_ok "\<lambda>k. k \<noteq> []" seen_recent SEEN_MAX_SIZE
proof
  show "\<And>s k t. seen_ok s \<Longrightarrow> k \<noteq> [] \<Longrightarrow> \<not> seen_has s k \<Longrightarrow> seen_recent k 0 (seen_add t k s)"
    by (case_tac s) (auto simp: seen_recent_def seen_add_eq seen_has_def SEEN_MAX_SIZE_def)
  show "\<And>k n s. seen_recent k n s \<Longrightarrow> seen_has s k"
    by (auto simp: seen_recent_def seen_has_def jm_has_iff simp flip: set_map)
  show "\<And>t k s j. seen_has (seen_add t k s) j \<Longrightarrow> j = k \<or> seen_has s j"
  proof -
    fix t k s j assume "seen_has (seen_add t k s) j"
    then have "jm_has (jm_set k t s) j \<or> jm_has s j"
      by (auto simp: seen_has_def seen_add_def Let_def simp del: jm_has_set split: if_splits list.splits)
        (simp_all add: jm_has_def)
    then show "j = k \<or> seen_has s j" by (auto simp: seen_has_def)
  qed
  show "\<And>s. seen_ok s \<Longrightarrow> length s \<le> SEEN_MAX_SIZE" by (simp add: seen_ok_def)
qed (blast intro: seen_recent_step seen_ok_add)+

subsection \<open>The sweep\<close>

lemma cleanup_from_del:
  "jm_wf c \<Longrightarrow> c = done @ rest \<Longrightarrow> sorted (map snd rest) \<Longrightarrow>
    cleanup_from now rest rest = filter (\<lambda>(i, t). now - t \<le> SEEN_TTL_MS) rest"
proof (induction rest arbitrary: c "done")
  case (Cons e rest)
  obtain i t where e: "e = (i, t)" by force
  show ?case
  proof (cases "now - t > SEEN_TTL_MS")
    case True
    have wf: "jm_wf (e # rest)" using Cons.prems by (auto simp: jm_wf_def)
    then have "jm_del i (e # rest) = rest" using e jm_drop_oldest_tl [OF wf] by (simp add: jm_drop_oldest_def)
    then show ?thesis using True e Cons.IH [of rest "[]"] Cons.prems wf by (auto simp: jm_wf_def)
  next
    case False
    then have "\<forall>x \<in> set rest. now - snd x \<le> SEEN_TTL_MS" using Cons.prems e by force
    then have "filter (\<lambda>(i, t). now - t \<le> SEEN_TTL_MS) rest = rest" by (auto simp: filter_id_conv)
    then show ?thesis using False e by simp
  qed
qed simp

definition seen_timed :: "int \<Rightarrow> seen_cache \<Rightarrow> bool" where
  "seen_timed now c \<longleftrightarrow> sorted (map snd c) \<and> (\<forall>t \<in> snd ` set c. t \<le> now)"

lemma seen_timed_add [wf_intro]:
  assumes "seen_ok c" "k \<noteq> []" "seen_timed now c" "now \<le> now'"
  shows "seen_timed now' (seen_add now' k c)"
proof -
  have "sorted (map snd (c @ [(k, now')]))" using assms by (auto simp: seen_timed_def sorted_append)
  moreover then have "sorted (map snd (tl (c @ [(k, now')])))" by (metis map_tl sorted_tl)
  moreover have "\<forall>t \<in> snd ` set (c @ [(k, now')]). t \<le> now'" using assms by (force simp: seen_timed_def)
  moreover have "set (tl (c @ [(k, now')])) \<subseteq> set (c @ [(k, now')])" by (cases c) auto
  ultimately show ?thesis using assms by (auto simp: seen_timed_def seen_add_eq)
qed

lemma seen_cleanup_filter:
  "seen_ok c \<Longrightarrow> seen_timed now c \<Longrightarrow>
    seen_cleanup now' c = filter (\<lambda>(i, t). now' - t \<le> SEEN_TTL_MS) c"
  using cleanup_from_del [of c "[]" c now'] by (simp add: seen_cleanup_def seen_ok_def seen_timed_def)

text \<open>Once a new packet identifier is recorded it is remembered through any 49 999 further
  insertions, so within that window the same packet is never processed as new again, and the
  cache never holds more than 50 000 entries.\<close>

theorem seen_cache_remembers:
  assumes "seen_ok c" "k \<noteq> []" "\<not> seen_has c k" "\<forall>(t, j) \<in> set later. j \<noteq> []" "length later < SEEN_MAX_SIZE"
  shows "seen_has (fold (\<lambda>(t, j). seen_add t j) later (seen_add now k c)) k \<and>
    length (fold (\<lambda>(t, j). seen_add t j) later (seen_add now k c)) \<le> SEEN_MAX_SIZE"
  using assms seen.adds_remembers [of c k later now] seen.adds_bounded [of "seen_add now k c" later]
    seen_ok_add [of c k now] by (simp add: seen.adds_def)

theorem seen_cache_remembers_witness:
  "seen_has (fold (\<lambda>(t, j). seen_add t j) [(2, ''b'')] (seen_add 1 ''a'' [])) ''a''"
  using seen_cache_remembers [of "[]" "''a''" "[(2, ''b'')]" 1]
  by (simp add: seen_ok_def seen_has_def SEEN_MAX_SIZE_def)

text \<open>The periodic sweep, which stops at the first live entry, removes exactly the expired
  entries of the cache, in a cache filled under a clock that does not run backwards.\<close>

theorem seen_cleanup_exact:
  assumes "seen_ok c" "seen_timed now c"
  shows "seen_has (seen_cleanup now' c) k \<longleftrightarrow> (\<exists>t. jm_get c k = Some t \<and> now' - t \<le> SEEN_TTL_MS)"
proof -
  have wf: "jm_wf c" using assms by (simp add: seen_ok_def)
  then show ?thesis using seen_cleanup_filter [OF assms]
    by (force simp: seen_has_def jm_has_iff dest: jm_get_in_set jm_in_set_get)
qed

theorem seen_cleanup_exact_witness:
  "\<not> seen_has (seen_cleanup 2000000 [(''a'', 1000), (''b'', 1500000)]) ''a'' \<and>
   seen_has (seen_cleanup 2000000 [(''a'', 1000), (''b'', 1500000)]) ''b''"
  using seen_cleanup_exact [of "[(''a'', 1000), (''b'', 1500000)]" 1500000 2000000]
  by (simp add: seen_ok_def jm_wf_def seen_timed_def SEEN_MAX_SIZE_def SEEN_TTL_MS_def)

end
