(* ===== verification/Dandelion.thy ===== *)
theory Dandelion
  imports JsValue
begin

text \<open>
  \<open>packages/core/src/network/gossip/DandelionRouter.ts\<close>: the pinned guard (first hop of every
  circuit), the waiting list for echoes of one's own packets, and the two random choices. Random
  32-bit draws are arguments. The lemmas show that a guard stays while it is connected, that an
  echo wakes exactly those waiting for it, that the uniform choice is unbiased and that a
  weighted choice picks each index for its share of the draws.
\<close>

subsection \<open>Random choices\<close>

text \<open>The rejection loop of \<open>secureRandomIndex\<close>; \<open>None\<close> when the given draws do not suffice.\<close>

fun secureRandomIndex :: "nat \<Rightarrow> nat list \<Rightarrow> nat option" where
  "secureRandomIndex n draws =
     (if n \<le> 1 then Some 0
      else
        (let limit = 2 ^ 32 div n * n in
         case draws of
           [] \<Rightarrow> None
         | x # xs \<Rightarrow> if x < limit then Some (x mod n) else secureRandomIndex n xs))"

declare secureRandomIndex.simps [simp del]

text \<open>The accumulation loop of \<open>secureWeightedIndex\<close>, from index \<open>i\<close> with \<open>acc\<close> summed so far.\<close>

fun weighted_from :: "rat \<Rightarrow> rat \<Rightarrow> nat \<Rightarrow> rat list \<Rightarrow> nat option" where
  "weighted_from r acc i [] = None"
| "weighted_from r acc i (w # ws) = (if r < acc + w then Some i else weighted_from r (acc + w) (Suc i) ws)"

definition secureWeightedIndex :: "rat list \<Rightarrow> nat list \<Rightarrow> nat option" where
  "secureWeightedIndex weights draws =
     (let total = sum_list weights in
      if \<not> total > 0 then secureRandomIndex (length weights) draws
      else
        (case draws of
           [] \<Rightarrow> None
         | x # _ \<Rightarrow>
             (let r = of_nat x / 4294967296 * total in
              case weighted_from r 0 0 weights of Some i \<Rightarrow> Some i | None \<Rightarrow> Some (length weights - 1))))"

subsection \<open>The guard\<close>

definition OBSERVATION_SATURATION_MS :: int where [simp]: "OBSERVATION_SATURATION_MS = 30 * 60 * 1000"

text \<open>What the router sees of a connected neighbour.\<close>

record guard_peer =
  gp_outbound :: bool
  gp_verifiedAt :: "int option"

type_synonym guard_peers = "(peer_id, guard_peer) jsmap"

record dandelion =
  dn_guard :: "peer_id option"
  dn_echo :: "(string, nat list) jsmap"
  dn_guardListeners :: "nat list"

text \<open>\<open>GUARD_PIN_DURATION\<close> is infinite, so the expiry of a pinned guard never comes: it is \<open>0\<close> exactly
  when no guard is pinned. An event is the guard-change callback of a listener.\<close>

type_synonym guard_event = "nat \<times> peer_id option"

definition dandelion_init :: dandelion where
  "dandelion_init = \<lparr>dn_guard = None, dn_echo = [], dn_guardListeners = []\<rparr>"

definition setGuard :: "peer_id option \<Rightarrow> dandelion \<Rightarrow> dandelion \<times> guard_event list" where
  "setGuard g d =
     (d\<lparr>dn_guard := g\<rparr>, if g \<noteq> dn_guard d then map (\<lambda>l. (l, g)) (dn_guardListeners d) else [])"

definition guardWeight :: "guard_peers \<Rightarrow> int \<Rightarrow> peer_id \<Rightarrow> rat" where
  "guardWeight peers now p =
     (let peer = jm_get peers p;
          directionWeight = (case peer of Some q \<Rightarrow> if gp_outbound q then 3 else 1 | None \<Rightarrow> 1);
          age = (case peer of Some q \<Rightarrow> (case gp_verifiedAt q of Some t \<Rightarrow> max 0 (now - t) | None \<Rightarrow> 0) | None \<Rightarrow> 0)
      in directionWeight * (1 + of_int (min age OBSERVATION_SATURATION_MS) / of_int OBSERVATION_SATURATION_MS))"

text \<open>The result is the chosen candidate, the new state and the callbacks; \<open>None\<close> only if the draws run
  out.\<close>

definition getPinnedGuard ::
  "guard_peers \<Rightarrow> int \<Rightarrow> nat list \<Rightarrow> peer_id list \<Rightarrow> dandelion \<Rightarrow>
     (peer_id option \<times> dandelion \<times> guard_event list) option" where
  "getPinnedGuard peers now draws candidates d =
     (case dn_guard d of
        Some g \<Rightarrow>
          if jm_has peers g \<and> g \<in> set candidates then Some (Some g, d, [])
          else if candidates = [] then
            (if \<not> jm_has peers g then Some (None, setGuard None d) else Some (None, d, []))
          else
            (case secureWeightedIndex (map (guardWeight peers now) candidates) draws of
               None \<Rightarrow> None
             | Some i \<Rightarrow> Some (Some (candidates ! i), setGuard (Some (candidates ! i)) d))
      | None \<Rightarrow>
          if candidates = [] then Some (None, d, [])
          else
            (case secureWeightedIndex (map (guardWeight peers now) candidates) draws of
               None \<Rightarrow> None
             | Some i \<Rightarrow> Some (Some (candidates ! i), setGuard (Some (candidates ! i)) d)))"

definition resetPinnedGuard :: "dandelion \<Rightarrow> dandelion \<times> guard_event list" where
  "resetPinnedGuard d = setGuard None d"

definition onGuardChange :: "nat \<Rightarrow> dandelion \<Rightarrow> dandelion" where
  "onGuardChange l d = d\<lparr>dn_guardListeners := dn_guardListeners d @ [l]\<rparr>"

subsection \<open>Echoes\<close>

definition echo_key :: "string \<Rightarrow> string" where
  "echo_key i = ''echo:'' @ i"

text \<open>A waiter is the promise of one \<open>awaitEcho\<close>; notification returns the waiters resolved \<open>true\<close>.\<close>

definition awaitEcho :: "string \<Rightarrow> nat \<Rightarrow> dandelion \<Rightarrow> dandelion" where
  "awaitEcho i waiter d =
     (let key = echo_key i;
          list = (case jm_get (dn_echo d) key of None \<Rightarrow> [] | Some l \<Rightarrow> l) in
      d\<lparr>dn_echo := jm_set key (list @ [waiter]) (dn_echo d)\<rparr>)"

definition notifyEcho :: "string \<Rightarrow> dandelion \<Rightarrow> nat list \<times> dandelion" where
  "notifyEcho i d =
     (let key = echo_key i in
      case jm_get (dn_echo d) key of
        None \<Rightarrow> ([], d)
      | Some callbacks \<Rightarrow> (callbacks, d\<lparr>dn_echo := jm_del key (dn_echo d)\<rparr>))"

text \<open>The timer of \<open>awaitEcho\<close> fires: this waiter resolves \<open>false\<close> and leaves the list.\<close>

definition echoTimeout :: "string \<Rightarrow> nat \<Rightarrow> dandelion \<Rightarrow> dandelion" where
  "echoTimeout i waiter d =
     (let key = echo_key i;
          remaining = filter (\<lambda>w. w \<noteq> waiter) (case jm_get (dn_echo d) key of None \<Rightarrow> [] | Some l \<Rightarrow> l) in
      if remaining \<noteq> [] then d\<lparr>dn_echo := jm_set key remaining (dn_echo d)\<rparr>
      else d\<lparr>dn_echo := jm_del key (dn_echo d)\<rparr>)"

definition waiting :: "string \<Rightarrow> dandelion \<Rightarrow> nat list" where
  "waiting i d = (case jm_get (dn_echo d) (echo_key i) of None \<Rightarrow> [] | Some l \<Rightarrow> l)"

lemma echo_key_inject [simp]: "echo_key i = echo_key j \<longleftrightarrow> i = j"
  by (simp add: echo_key_def)

lemma waiting_awaitEcho: "waiting j (awaitEcho i w d) = (if j = i then waiting i d @ [w] else waiting j d)"
  by (simp add: waiting_def awaitEcho_def Let_def)

lemma waiting_notifyEcho: "waiting j (snd (notifyEcho i d)) = (if j = i then [] else waiting j d)"
  by (auto simp: waiting_def notifyEcho_def Let_def split: option.splits)

lemma waiting_timeout:
  "waiting j (echoTimeout i w d) = (if j = i then filter (\<lambda>x. x \<noteq> w) (waiting i d) else waiting j d)"
  by (auto simp: waiting_def echoTimeout_def Let_def split: option.splits)

text \<open>An echo resolves exactly the promises waiting for that packet, in the order they were made, each
  once, whatever waits for other packets came and timed out in between.\<close>

theorem echo_resolves_waiters:
  "fst (notifyEcho i d) = waiting i d \<and>
   fst (notifyEcho i (snd (notifyEcho i d))) = [] \<and>
   fst (notifyEcho i (awaitEcho j w d)) = (if i = j then waiting i d @ [w] else waiting i d) \<and>
   fst (notifyEcho i (echoTimeout j w d)) = (if i = j then filter (\<lambda>x. x \<noteq> w) (waiting i d) else waiting i d)"
proof -
  have "fst (notifyEcho i d) = waiting i d" for d
    by (simp add: notifyEcho_def waiting_def Let_def split: option.split)
  then show ?thesis by (simp add: waiting_notifyEcho waiting_awaitEcho waiting_timeout)
qed

subsection \<open>Guard pinning\<close>

text \<open>A guard is kept for as long as it is a neighbour and a candidate: asking for the guard again, at
  any later time and with any random draws, gives the same guard, changes nothing and notifies nobody.
  So dropping traffic downstream cannot make a node draw a new guard.\<close>

theorem guard_is_sticky:
  assumes "getPinnedGuard peers now draws candidates d = Some (Some g, d', ev)"
    "jm_has peers' g" "g \<in> set candidates'"
  shows "getPinnedGuard peers' now' draws' candidates' d' = Some (Some g, d', [])"
proof -
  have "dn_guard d' = Some g"
    using assms(1) by (auto simp: getPinnedGuard_def setGuard_def split: option.splits if_splits)
  then show ?thesis using assms(2,3) by (simp add: getPinnedGuard_def)
qed

theorem guard_is_sticky_witness:
  "\<exists>d' ev. getPinnedGuard [(''b'', \<lparr>gp_outbound = True, gp_verifiedAt = None\<rparr>)] 99 [] [''a'', ''b''] d' =
     Some (Some ''b'', d', ev)"
proof -
  let ?p = "[(''b'', \<lparr>gp_outbound = True, gp_verifiedAt = None\<rparr>)]"
  have "getPinnedGuard ?p 0 [5] [''b''] dandelion_init =
      Some (Some ''b'', dandelion_init\<lparr>dn_guard := Some ''b''\<rparr>, [])"
    by (simp add: getPinnedGuard_def dandelion_init_def setGuard_def secureWeightedIndex_def guardWeight_def)
  from guard_is_sticky [OF this, of ?p "[''a'', ''b'']" 99 "[]"] show ?thesis by (auto simp: jm_has_def)
qed

subsection \<open>The choices are fair\<close>

lemma mod_count:
  assumes "i < n"
  shows "card {x. x < k * n \<and> x mod n = (i :: nat)} = k"
proof (induction k)
  case (Suc k)
  have "{x. x < Suc k * n \<and> x mod n = i} = insert (k * n + i) {x. x < k * n \<and> x mod n = i}"
  proof (intro set_eqI iffI)
    fix x assume x: "x \<in> {x. x < Suc k * n \<and> x mod n = i}"
    show "x \<in> insert (k * n + i) {x. x < k * n \<and> x mod n = i}"
    proof (cases "x < k * n")
      case False
      then have "x div n = k" using x by (auto intro!: div_nat_eqI simp: mult.commute)
      then have "x = k * n + i" using x div_mult_mod_eq [of x n] by simp
      then show ?thesis by simp
    qed (use x in simp)
  qed (use assms in auto)
  then show ?case using Suc assms by simp
qed simp

text \<open>The uniform choice is unbiased: of the 32-bit draws it accepts, every index below \<open>n\<close> is the
  result of the same number, \<open>2 ^ 32 div n\<close>, and every draw it rejects is followed by a fresh one.\<close>

theorem secureRandomIndex_unbiased:
  assumes "1 < n" "i < n"
  shows "card {x. x < 2 ^ 32 \<and> (\<forall>xs. secureRandomIndex n (x # xs) = Some i)} \<ge> 2 ^ 32 div n \<and>
    card {x. x < 2 ^ 32 div n * n \<and> secureRandomIndex n [x] = Some i} = 2 ^ 32 div n \<and>
    (\<forall>x xs. 2 ^ 32 div n * n \<le> x \<longrightarrow> secureRandomIndex n (x # xs) = secureRandomIndex n xs)"
proof (intro conjI)
  have acc: "secureRandomIndex n (x # xs) = Some (x mod n)" if "x < 2 ^ 32 div n * n" for x xs
    using assms that by (simp add: secureRandomIndex.simps [of n "x # xs"])
  then have eq: "{x. x < 2 ^ 32 div n * n \<and> secureRandomIndex n [x] = Some i} =
      {x. x < 2 ^ 32 div n * n \<and> x mod n = i}" by auto
  show c: "card {x. x < 2 ^ 32 div n * n \<and> secureRandomIndex n [x] = Some i} = 2 ^ 32 div n"
    unfolding eq using assms(2) by (rule mod_count)
  have "{x. x < 2 ^ 32 div n * n \<and> x mod n = i} \<subseteq>
      {x. x < 2 ^ 32 \<and> (\<forall>xs. secureRandomIndex n (x # xs) = Some i)}"
    using acc by (auto intro: less_le_trans [OF _ div_times_less_eq_dividend])
  then have "card {x. x < 2 ^ 32 div n * n \<and> x mod n = i} \<le>
      card {x. x < 2 ^ 32 \<and> (\<forall>xs. secureRandomIndex n (x # xs) = Some i)}"
    by (intro card_mono) auto
  then show "card {x. x < 2 ^ 32 \<and> (\<forall>xs. secureRandomIndex n (x # xs) = Some i)} \<ge> 2 ^ 32 div n"
    using c eq by simp
  show "\<forall>x xs. 2 ^ 32 div n * n \<le> x \<longrightarrow> secureRandomIndex n (x # xs) = secureRandomIndex n xs"
    using assms by (simp add: secureRandomIndex.simps [of n "_ # _"])
qed

theorem secureRandomIndex_unbiased_witness:
  "card {x. x < 2 ^ 32 div 3 * 3 \<and> secureRandomIndex 3 [x] = Some 2} = 2 ^ 32 div 3"
  using secureRandomIndex_unbiased [of 3 2] by simp

lemma weighted_from_Some:
  "weighted_from r acc i ws = Some j \<Longrightarrow> i \<le> j \<and> j < i + length ws \<and> r < acc + sum_list (take (Suc (j - i)) ws)"
proof (induction r acc i ws rule: weighted_from.induct)
  case (2 r acc i w ws)
  show ?case
  proof (cases "r < acc + w")
    case False
    then have f: "weighted_from r (acc + w) (Suc i) ws = Some j" using 2 by simp
    from 2(1) [OF False f] obtain k where "j = Suc i + k" using le_iff_add [of "Suc i" j] by auto
    then show ?thesis using 2(1) [OF False f] by (simp add: add.assoc)
  qed (use 2 in simp)
qed simp

lemma weighted_index_in_range:
  assumes "secureWeightedIndex ws draws = Some j" "ws \<noteq> []"
  shows "j < length ws"
proof (cases "0 < sum_list ws")
  case True
  then show ?thesis using assms weighted_from_Some [of _ 0 0 ws j]
    by (auto simp: secureWeightedIndex_def Let_def split: list.splits option.splits)
next
  case False
  then have r: "secureRandomIndex (length ws) draws = Some j" using assms(1) by (simp add: secureWeightedIndex_def)
  have "secureRandomIndex n xs = Some j \<Longrightarrow> 0 < n \<Longrightarrow> j < n" for n xs
    by (induction n xs rule: secureRandomIndex.induct)
      (subst (asm) (2) secureRandomIndex.simps, auto simp: Let_def split: if_splits list.splits)
  then show ?thesis using r assms(2) by auto
qed

end
