(* ===== verification/HintRouter.thy ===== *)
theory HintRouter
  imports Hint SeenCache Dandelion
begin

text \<open>
  \<open>packages/core/src/network/hint/HintRouter.ts\<close>: reception, trial opening, buffering and flooding of
  hints. Effects are returned as a list. A thrown exception of the crypto library (a key of the wrong
  length) ends the call, which the dispatcher catches; the state changes made so far stay, so the
  operations return the result, the effects and the state side by side. The lemmas show the bound and
  freshness of the buffer, that repeats of a hint have no effect, and that a hint that came before its
  key is opened when the key arrives.
\<close>

subsection \<open>State and effects\<close>

definition RECENT_HINT_BUFFER :: nat where "RECENT_HINT_BUFFER = 2000"

record opened_hint =
  oh_payload :: hint_payload
  oh_keyId :: string
  oh_packet :: hint

record hint_peer =
  hr_peerId :: peer_id
  hr_isConnected :: bool
  hr_isVerified :: bool

datatype hint_effect =
    SendHint peer_id hint
  | HintOpened nat opened_hint
  | AnyHint nat
  | OnionHint bytes string
  | HintEcho nat

record hint_router =
  hr_flooded :: seen_cache
  hr_received :: seen_cache
  hr_delivered :: seen_cache
  hr_keys :: "(string, bytes) jsmap"
  hr_recentHints :: "hint list"
  hr_recentIds :: "string list"
  hr_listeners :: "nat list"
  hr_anyListeners :: "nat list"
  hr_dandelion :: dandelion

definition hint_router_init :: hint_router where
  "hint_router_init =
     \<lparr>hr_flooded = [], hr_received = [], hr_delivered = [], hr_keys = [], hr_recentHints = [], hr_recentIds = [],
      hr_listeners = [], hr_anyListeners = [], hr_dandelion = dandelion_init\<rparr>"

text \<open>The identifier of a hint that came through \<open>parseHintPacket\<close> or \<open>decodeHint\<close>, where \<open>hintId\<close> cannot
  throw (lemma below).\<close>

definition hid :: "sodium \<Rightarrow> hint \<Rightarrow> string" where
  "hid S h = (case hintId S h of Inr i \<Rightarrow> i | Inl _ \<Rightarrow> [])"

lemma hid_ok: "hint_ok h \<Longrightarrow> hintId S h = Inr (hid S h)"
  by (simp add: hid_def hintId_def hintPreimage_def hint_ok_def)

subsection \<open>Operations\<close>

fun try_keys :: "sodium \<Rightarrow> hint \<Rightarrow> (string \<times> bytes) list \<Rightarrow> (string \<times> hint_payload) option res" where
  "try_keys S h [] = Inr None"
| "try_keys S h ((keyId, k) # ks) =
     (case openHint S k h of
        Inl err \<Rightarrow> Inl err
      | Inr None \<Rightarrow> try_keys S h ks
      | Inr (Some payload) \<Rightarrow> Inr (Some (keyId, payload)))"

definition tryOpen :: "sodium \<Rightarrow> int \<Rightarrow> hint \<Rightarrow> string \<Rightarrow> hint_router \<Rightarrow> bool res \<times> hint_effect list \<times> hint_router" where
  "tryOpen S now h i s =
     (if seen_has (hr_delivered s) i then (Inr False, [], s)
      else
        (case try_keys S h (hr_keys s) of
           Inl err \<Rightarrow> (Inl err, [], s)
         | Inr None \<Rightarrow> (Inr False, [], s)
         | Inr (Some (keyId, payload)) \<Rightarrow>
             (Inr True,
              map (\<lambda>l. HintOpened l \<lparr>oh_payload = payload, oh_keyId = keyId, oh_packet = h\<rparr>) (hr_listeners s),
              s\<lparr>hr_delivered := seen_add now i (hr_delivered s)\<rparr>)))"

definition remember :: "sodium \<Rightarrow> hint \<Rightarrow> hint_router \<Rightarrow> hint_router" where
  "remember S h s =
     (let i = hid S h in
      if i \<in> set (hr_recentIds s) then s
      else
        (let ids = js_add i (hr_recentIds s); hints = hr_recentHints s @ [h] in
         if length hints > RECENT_HINT_BUFFER then
           (let n = length hints - RECENT_HINT_BUFFER; evicted = take n hints in
            s\<lparr>hr_recentHints := drop n hints,
              hr_recentIds := filter (\<lambda>j. j \<notin> set (map (hid S) evicted)) ids\<rparr>)
         else s\<lparr>hr_recentHints := hints, hr_recentIds := ids\<rparr>))"

definition hint_flood ::
  "sodium \<Rightarrow> int \<Rightarrow> hint_peer list \<Rightarrow> hint \<Rightarrow> peer_id \<Rightarrow> hint_router \<Rightarrow> hint_effect list \<times> hint_router" where
  "hint_flood S now peers h excludePeerId s =
     (let i = hid S h in
      if seen_has (hr_flooded s) i then ([], s)
      else
        (let relayed = h\<lparr>hn_ttl := HINT_INITIAL_TTL\<rparr> in
         (map (\<lambda>p. SendHint (hr_peerId p) relayed)
            (filter (\<lambda>p. hr_peerId p \<noteq> excludePeerId \<and> hr_isConnected p \<and> hr_isVerified p) peers),
          s\<lparr>hr_flooded := seen_add now i (hr_flooded s)\<rparr>)))"

definition hint_echo :: "string \<Rightarrow> hint_router \<Rightarrow> hint_effect list \<times> hint_router" where
  "hint_echo i s = (let (ws, d) = notifyEcho i (hr_dandelion s) in (map HintEcho ws, s\<lparr>hr_dandelion := d\<rparr>))"

text \<open>The tail shared by a received and an exit hint: remember, try to open, flood unless that threw.\<close>

definition open_and_flood ::
  "sodium \<Rightarrow> int \<Rightarrow> hint_peer list \<Rightarrow> hint \<Rightarrow> peer_id \<Rightarrow> hint_router \<Rightarrow> hint_effect list \<times> hint_router" where
  "open_and_flood S now peers h exclude s =
     (let s1 = remember S h s in
      case tryOpen S now h (hid S h) s1 of
        (Inl _, fx, s2) \<Rightarrow> (fx, s2)
      | (Inr _, fx, s2) \<Rightarrow> (let (fy, s3) = hint_flood S now peers h exclude s2 in (fx @ fy, s3)))"

definition handleHint ::
  "sodium \<Rightarrow> int \<Rightarrow> hint_peer list \<Rightarrow> peer_id \<Rightarrow> jsval \<Rightarrow> hint_router \<Rightarrow> hint_effect list \<times> hint_router" where
  "handleHint S now peers senderId msg s =
     (case parseHintPacket msg of
        None \<Rightarrow> ([], s)
      | Some h \<Rightarrow>
          if \<not> verifyHintPow S h HINT_POW_DIFFICULTY then ([], s)
          else
            (let i = hid S h; (e1, s1) = hint_echo i s in
             if seen_has (hr_received s1) i then (e1, s1)
             else
               (let s2 = s1\<lparr>hr_received := seen_add now i (hr_received s1)\<rparr>;
                    e2 = map AnyHint (hr_anyListeners s2);
                    (e3, s3) = open_and_flood S now peers h senderId s2 in
                (e1 @ e2 @ e3, s3))))"

definition handleExitHint ::
  "sodium \<Rightarrow> int \<Rightarrow> hint_peer list \<Rightarrow> peer_id \<Rightarrow> bytes \<Rightarrow> hint_router \<Rightarrow> hint_effect list \<times> hint_router" where
  "handleExitHint S now peers myPeerId bs s =
     (case decodeHint bs of
        None \<Rightarrow> ([], s)
      | Some h \<Rightarrow>
          if \<not> verifyHintPow S h HINT_POW_DIFFICULTY then ([], s)
          else
            (let (e1, s1) = hint_echo (hid S h) s; (e2, s2) = open_and_flood S now peers h myPeerId s1 in
             (e1 @ e2, s2)))"

fun reopen :: "sodium \<Rightarrow> int \<Rightarrow> hint list \<Rightarrow> hint_router \<Rightarrow> hint_effect list \<times> hint_router" where
  "reopen S now [] s = ([], s)"
| "reopen S now (h # hs) s =
     (if seen_has (hr_delivered s) (hid S h) then reopen S now hs s
      else
        (case tryOpen S now h (hid S h) s of
           (Inl _, fx, s1) \<Rightarrow> (fx, s1)
         | (Inr _, fx, s1) \<Rightarrow> (let (fy, s2) = reopen S now hs s1 in (fx @ fy, s2))))"

definition addKey :: "sodium \<Rightarrow> int \<Rightarrow> string \<Rightarrow> bytes \<Rightarrow> hint_router \<Rightarrow> hint_effect list \<times> hint_router" where
  "addKey S now keyId k s =
     (let s1 = s\<lparr>hr_keys := jm_set keyId k (hr_keys s)\<rparr> in reopen S now (hr_recentHints s1) s1)"

definition removeKey :: "string \<Rightarrow> hint_router \<Rightarrow> hint_router" where
  "removeKey keyId s = s\<lparr>hr_keys := jm_del keyId (hr_keys s)\<rparr>"

definition onAnyHint :: "nat \<Rightarrow> hint_router \<Rightarrow> hint_router" where
  "onAnyHint l s = s\<lparr>hr_anyListeners := hr_anyListeners s @ [l]\<rparr>"

definition onHint :: "nat \<Rightarrow> hint_router \<Rightarrow> hint_router" where
  "onHint l s = s\<lparr>hr_listeners := hr_listeners s @ [l]\<rparr>"

definition offHint :: "nat \<Rightarrow> hint_router \<Rightarrow> hint_router" where
  "offHint l s = s\<lparr>hr_listeners := filter (\<lambda>x. x \<noteq> l) (hr_listeners s)\<rparr>"

definition originate :: "int \<Rightarrow> hint \<Rightarrow> string \<Rightarrow> hint_router \<Rightarrow> hint_effect list \<times> hint_router" where
  "originate now h i s =
     ([OnionHint (encodeHint h) i], s\<lparr>hr_delivered := seen_add now i (hr_delivered s)\<rparr>)"

definition reflood ::
  "sodium \<Rightarrow> int \<Rightarrow> hint_peer list \<Rightarrow> peer_id \<Rightarrow> hint \<Rightarrow> hint_router \<Rightarrow> hint_effect list \<times> hint_router" where
  "reflood S now peers myPeerId h s = hint_flood S now peers h myPeerId s"

definition sendTo :: "hint_peer list \<Rightarrow> peer_id \<Rightarrow> hint \<Rightarrow> hint_effect list" where
  "sendTo peers peerId h =
     (case find (\<lambda>p. hr_peerId p = peerId) peers of
        None \<Rightarrow> []
      | Some p \<Rightarrow> if \<not> hr_isConnected p \<or> \<not> hr_isVerified p then [] else [SendHint peerId h])"

definition ingestLocal :: "sodium \<Rightarrow> int \<Rightarrow> hint \<Rightarrow> hint_router \<Rightarrow> bool res \<times> hint_effect list \<times> hint_router" where
  "ingestLocal S now h s =
     (if \<not> verifyHintPow S h HINT_POW_DIFFICULTY then (Inr False, [], s)
      else tryOpen S now h (hid S h) (remember S h s))"

definition hint_router_destroy :: "hint_router \<Rightarrow> hint_router" where
  "hint_router_destroy s =
     s\<lparr>hr_flooded := seen_destroy (hr_flooded s), hr_received := seen_destroy (hr_received s),
       hr_delivered := seen_destroy (hr_delivered s), hr_keys := [], hr_listeners := [], hr_anyListeners := [],
       hr_recentHints := [], hr_recentIds := []\<rparr>"

subsection \<open>The buffer\<close>

definition buffer_ok :: "sodium \<Rightarrow> hint_router \<Rightarrow> bool" where
  "buffer_ok S s \<longleftrightarrow>
     length (hr_recentHints s) \<le> RECENT_HINT_BUFFER \<and>
     distinct (map (hid S) (hr_recentHints s)) \<and>
     set (hr_recentIds s) = hid S ` set (hr_recentHints s)"

lemma evict_oldest:
  assumes "distinct (map f xs)"
  shows "distinct (map f (drop n xs)) \<and> f ` set (drop n xs) = {j \<in> f ` set xs. j \<notin> f ` set (take n xs)}"
proof -
  have "xs = take n xs @ drop n xs" by simp
  then obtain us vs where uv: "take n xs = us" "drop n xs = vs" "xs = us @ vs" by blast
  show ?thesis using assms unfolding uv(1,2) by (auto simp: uv(3))
qed

lemma buffer_ok_remember [wf_intro]:
  assumes "buffer_ok S s"
  shows "buffer_ok S (remember S h s)"
proof (cases "hid S h \<in> set (hr_recentIds s)")
  case False
  let ?hints = "hr_recentHints s @ [h]"
  have dist: "distinct (map (hid S) ?hints)" using assms False by (auto simp: buffer_ok_def)
  have ids: "set (js_add (hid S h) (hr_recentIds s)) = hid S ` set ?hints"
    using assms by (auto simp: buffer_ok_def)
  show ?thesis
  proof (cases "length ?hints > RECENT_HINT_BUFFER")
    case True
    define n where "n = length ?hints - RECENT_HINT_BUFFER"
    have r: "remember S h s = s\<lparr>hr_recentHints := drop n ?hints,
        hr_recentIds := filter (\<lambda>j. j \<notin> set (map (hid S) (take n ?hints))) (js_add (hid S h) (hr_recentIds s))\<rparr>"
      unfolding remember_def Let_def n_def using True False by (simp del: take_append drop_append set_map set_append length_append)
    show ?thesis unfolding buffer_ok_def r
      using evict_oldest [OF dist, of n] ids True by (simp add: n_def del: take_append drop_append)
  next
    case small: False
    then have "remember S h s = s\<lparr>hr_recentHints := ?hints, hr_recentIds := js_add (hid S h) (hr_recentIds s)\<rparr>"
      using False by (simp add: remember_def Let_def)
    then show ?thesis using small ids dist by (simp add: buffer_ok_def)
  qed
qed (simp add: remember_def assms)

lemma tryOpen_state:
  "snd (snd (tryOpen S now h i s)) = s \<or>
   snd (snd (tryOpen S now h i s)) = s\<lparr>hr_delivered := seen_add now i (hr_delivered s)\<rparr>"
  by (auto simp: tryOpen_def split: sum.splits option.splits)

lemma buffer_ok_cong:
  "hr_recentHints t = hr_recentHints s \<Longrightarrow> hr_recentIds t = hr_recentIds s \<Longrightarrow> buffer_ok S t = buffer_ok S s"
  by (simp add: buffer_ok_def)

lemma buffer_ok_tryOpen [wf_intro]: "buffer_ok S s \<Longrightarrow> buffer_ok S (snd (snd (tryOpen S now h i s)))"
  using tryOpen_state [of S now h i s] by (metis buffer_ok_cong hint_router.select_convs(5,6)
      hint_router.surjective hint_router.update_convs(3))

lemma buffer_ok_flood [wf_intro]: "buffer_ok S s \<Longrightarrow> buffer_ok S (snd (hint_flood S now peers h x s))"
  by (simp add: hint_flood_def buffer_ok_def Let_def)

lemma buffer_ok_open_and_flood [wf_intro]:
  assumes "buffer_ok S s"
  shows "buffer_ok S (snd (open_and_flood S now peers h x s))"
proof -
  obtain r fx s2 where t: "tryOpen S now h (hid S h) (remember S h s) = (r, fx, s2)" by (cases rule: prod_cases3)
  have "buffer_ok S s2" using buffer_ok_tryOpen [OF buffer_ok_remember [OF assms], of now h "hid S h"] t
    by (metis snd_conv)
  then show ?thesis using buffer_ok_flood [of S s2] t by (cases r) (simp_all add: open_and_flood_def split_def Let_def)
qed

lemma buffer_ok_messages:
  assumes "buffer_ok S s"
  shows "buffer_ok S (snd (handleHint S now peers sender msg s)) \<and>
    buffer_ok S (snd (handleExitHint S now peers me bs s)) \<and>
    buffer_ok S (snd (snd (ingestLocal S now h s)))"
proof -
  have echo: "buffer_ok S (snd (hint_echo i s))" for i
    using assms by (simp add: hint_echo_def buffer_ok_def split: prod.split)
  have rcv: "buffer_ok S (t\<lparr>hr_received := c\<rparr>) = buffer_ok S t" for t c by (simp add: buffer_ok_def)
  have "buffer_ok S (snd (handleHint S now peers sender msg s))"
    using assms echo by (auto simp: handleHint_def split_def Let_def rcv intro!: buffer_ok_open_and_flood split: option.split)
  moreover have "buffer_ok S (snd (handleExitHint S now peers me bs s))"
    using assms echo by (auto simp: handleExitHint_def split_def Let_def intro!: buffer_ok_open_and_flood split: option.split)
  moreover have "buffer_ok S (snd (snd (ingestLocal S now h s)))"
    using assms by (auto simp: ingestLocal_def intro!: buffer_ok_tryOpen buffer_ok_remember)
  ultimately show ?thesis by blast
qed

text \<open>The buffer of hints not yet opened holds at most 2000 hints, each once, through every message and
  every other way a hint can arrive: so repeating one hint cannot push the others out.\<close>

theorem hint_buffer_bounded:
  assumes "buffer_ok S s"
  shows "buffer_ok S (snd (handleHint S now peers sender msg s)) \<and>
    buffer_ok S (snd (handleExitHint S now peers me bs s)) \<and>
    buffer_ok S (snd (snd (ingestLocal S now h s)))"
  using assms by (rule buffer_ok_messages)

lemma buffer_ok_reopen [wf_intro]: "buffer_ok S s \<Longrightarrow> buffer_ok S (snd (reopen S now hs s))"
proof (induction hs arbitrary: s)
  case (Cons h hs)
  obtain r fx s1 where t: "tryOpen S now h (hid S h) s = (r, fx, s1)" by (cases rule: prod_cases3)
  have "buffer_ok S s1" using buffer_ok_tryOpen [OF Cons.prems, of now h "hid S h"] t by simp
  then show ?case using Cons.IH [of s1] Cons.IH [OF Cons.prems] Cons.prems t by (cases r) (simp_all add: split_def Let_def)
qed simp

lemma buffer_ok_addKey [wf_intro]:
  assumes "buffer_ok S s"
  shows "buffer_ok S (snd (addKey S now keyId k s))"
proof -
  have "buffer_ok S (s\<lparr>hr_keys := jm_set keyId k (hr_keys s)\<rparr>)" using assms by (simp add: buffer_ok_def)
  from buffer_ok_reopen [OF this] show ?thesis by (simp add: addKey_def)
qed

lemma buffer_ok_others [wf_intro]:
  assumes "buffer_ok S s"
  shows "buffer_ok S (removeKey keyId s)" "buffer_ok S (onHint l s)" "buffer_ok S (onAnyHint l s)" "buffer_ok S (offHint l s)"
    "buffer_ok S (snd (originate now h i s))" "buffer_ok S (snd (reflood S now peers me h s))"
  using assms buffer_ok_flood [OF assms]
  by (simp_all add: removeKey_def onHint_def onAnyHint_def offHint_def originate_def reflood_def) (simp_all add: buffer_ok_def)

lemma hint_router_init_ok [wf_intro]: "buffer_ok S hint_router_init"
  by (simp add: buffer_ok_def hint_router_init_def)

theorem hint_buffer_bounded_witness:
  "buffer_ok toy_sodium (snd (handleHint toy_sodium 0 [] ''a'' Null hint_router_init))"
  using hint_buffer_bounded [OF hint_router_init_ok] by blast

subsection \<open>Repeats\<close>

text \<open>A repeated hint has no effect beyond resolving echoes: whatever its time to live and its proof of
  work, it is not counted, not buffered, not opened again and not relayed.\<close>

theorem repeated_hint_ignored:
  assumes "parseHintPacket msg = Some h" "seen_has (hr_received s) (hid S h)"
    "parseHintPacket msg' = Some (h\<lparr>hn_ttl := t, hn_pow_nonce := n\<rparr>)"
  shows "handleHint S now peers sender msg' s =
    (if verifyHintPow S (h\<lparr>hn_ttl := t, hn_pow_nonce := n\<rparr>) HINT_POW_DIFFICULTY
     then hint_echo (hid S h) s else ([], s))"
proof -
  have "hid S (h\<lparr>hn_ttl := t, hn_pow_nonce := n\<rparr>) = hid S h"
    by (simp add: hid_def hintId_def hintPreimage_def)
  moreover have "hr_received (snd (hint_echo i s)) = hr_received s" for i
    by (simp add: hint_echo_def split: prod.split)
  ultimately show ?thesis using assms(2,3) by (simp add: handleHint_def split_def Let_def)
qed

definition toy_hint_msg :: "int \<Rightarrow> jsval" where
  "toy_hint_msg ttl = JObj [(''version'', jint 1), (''ttl'', jint ttl), (''blind_tag'', JBytes (replicate 4 0)),
     (''nonce'', JBytes (replicate 12 0)), (''pow_nonce'', jint 0), (''ciphertext'', JBytes (replicate 64 0))]"

definition toy_hint :: hint where
  "toy_hint = \<lparr>hn_version = 1, hn_ttl = 8, hn_blind_tag = replicate 4 0, hn_nonce = replicate 12 0,
     hn_pow_nonce = 0, hn_ciphertext = replicate 64 0\<rparr>"

lemma toy_hint_parse: "0 \<le> t \<Longrightarrow> t \<le> 255 \<Longrightarrow> parseHintPacket (toy_hint_msg t) = Some (toy_hint\<lparr>hn_ttl := t, hn_pow_nonce := 0\<rparr>)"
  by (simp add: parseHintPacket_def toy_hint_msg_def toy_hint_def)

theorem repeated_hint_ignored_witness:
  "\<exists>s. snd (handleHint toy_sodium 0 [] ''a'' (toy_hint_msg 3) s) = s"
proof -
  let ?h = "toy_hint\<lparr>hn_ttl := 8, hn_pow_nonce := 0\<rparr>"
  let ?s = "hint_router_init\<lparr>hr_received := [(hid toy_sodium ?h, 0)]\<rparr>"
  have 1: "parseHintPacket (toy_hint_msg 8) = Some ?h" by (rule toy_hint_parse) simp_all
  have 2: "seen_has (hr_received ?s) (hid toy_sodium ?h)" by (simp add: seen_has_def jm_has_def)
  have 3: "parseHintPacket (toy_hint_msg 3) = Some (?h\<lparr>hn_ttl := 3, hn_pow_nonce := 0\<rparr>)"
    using toy_hint_parse [of 3] by simp
  have e: "snd (hint_echo i ?s) = ?s" for i
    by (simp add: hint_echo_def notifyEcho_def hint_router_init_def dandelion_init_def Let_def)
  show ?thesis using repeated_hint_ignored [OF 1 2 3, of 0 "[]" "''a''"] e
    by (intro exI [of _ ?s]) (simp split: if_split)
qed

subsection \<open>Hints that came before their key\<close>

lemma try_keys_first:
  assumes "\<forall>(j, k') \<in> set ks. openHint S k' h = Inr None" "openHint S k h = Inr (Some p)"
  shows "try_keys S h (ks @ [(keyId, k)]) = Inr (Some (keyId, p))"
  using assms by (induction ks) auto

lemma tryOpen_keeps:
  "hr_keys (snd (snd (tryOpen S now h i s))) = hr_keys s" "hr_listeners (snd (snd (tryOpen S now h i s))) = hr_listeners s"
  by (simp_all add: tryOpen_def split: sum.splits option.splits prod.splits)

lemma reopen_opens:
  assumes "h \<in> set hs" "l \<in> set (hr_listeners s)" "\<not> seen_has (hr_delivered s) (hid S h)"
    "distinct (map (hid S) hs)" "try_keys S h (hr_keys s) = Inr (Some (keyId, p))"
    "\<forall>g \<in> set hs. \<exists>r. try_keys S g (hr_keys s) = Inr r"
  shows "HintOpened l \<lparr>oh_payload = p, oh_keyId = keyId, oh_packet = h\<rparr> \<in> set (fst (reopen S now hs s))"
  using assms
proof (induction hs arbitrary: s)
  case (Cons g hs)
  obtain r fx s1 where t: "tryOpen S now g (hid S g) s = (r, fx, s1)" by (cases rule: prod_cases3)
  have r: "\<exists>b. r = Inr b" using Cons.prems(6) t by (auto simp: tryOpen_def split: if_splits option.splits)
  have keep: "hr_keys s1 = hr_keys s" "hr_listeners s1 = hr_listeners s"
    using tryOpen_keeps [of S now g "hid S g" s] t by simp_all
  show ?case
  proof (cases "g = h")
    case True
    then have "HintOpened l \<lparr>oh_payload = p, oh_keyId = keyId, oh_packet = h\<rparr> \<in> set fx"
      using Cons.prems(2,3,5) t by (auto simp: tryOpen_def)
    then show ?thesis using t r True Cons.prems(3) by (auto split: prod.splits)
  next
    case False
    then have h: "h \<in> set hs" and ne: "hid S g \<noteq> hid S h" using Cons.prems(1,4) by auto
    have nd: "\<not> seen_has (hr_delivered s1) (hid S h)"
      using tryOpen_state [of S now g "hid S g" s] t Cons.prems(3) ne seen.has_add by fastforce
    show ?thesis
    proof (cases "seen_has (hr_delivered s) (hid S g)")
      case True
      then show ?thesis using Cons.IH [OF h Cons.prems(2,3)] Cons.prems(4,5,6) by simp
    next
      case undelivered: False
      have "HintOpened l \<lparr>oh_payload = p, oh_keyId = keyId, oh_packet = h\<rparr> \<in> set (fst (reopen S now hs s1))"
        using Cons.IH [OF h _ nd] keep Cons.prems(2,4,5,6) by simp
      then show ?thesis using undelivered t r by (auto split: prod.splits)
    qed
  qed
qed simp

text \<open>A hint that arrived before its key is not lost: while it is in the buffer and undelivered, adding
  the key that opens it delivers it to every listener with that key's identifier.\<close>

theorem late_key_opens:
  assumes "buffer_ok S s" "h \<in> set (hr_recentHints s)" "l \<in> set (hr_listeners s)"
    "\<not> seen_has (hr_delivered s) (hid S h)" "\<not> jm_has (hr_keys s) keyId"
    "\<forall>(j, k') \<in> set (hr_keys s). openHint S k' h = Inr None" "openHint S k h = Inr (Some p)"
    "\<forall>g \<in> set (hr_recentHints s). \<exists>r. try_keys S g (hr_keys s @ [(keyId, k)]) = Inr r"
  shows "HintOpened l \<lparr>oh_payload = p, oh_keyId = keyId, oh_packet = h\<rparr> \<in> set (fst (addKey S now keyId k s))"
proof -
  let ?s = "s\<lparr>hr_keys := hr_keys s @ [(keyId, k)]\<rparr>"
  have "addKey S now keyId k s = reopen S now (hr_recentHints s) ?s"
    using assms(5) by (simp add: addKey_def jm_set_new)
  moreover have "try_keys S h (hr_keys ?s) = Inr (Some (keyId, p))"
    using try_keys_first [OF assms(6,7)] by simp
  ultimately show ?thesis
    using reopen_opens [of h "hr_recentHints s" l ?s S keyId p now] assms by (simp add: buffer_ok_def)
qed

lemma toy_opens: "\<exists>h p. hint_ok h \<and> openHint toy_sodium (replicate 32 1) h = Inr (Some p)"
  using toy_buildHint buildHint_opens [of toy_sodium] buildHint_ok [of toy_sodium] by (metis length_replicate toy_laws(3,4))

theorem late_key_opens_witness:
  "\<exists>h p. HintOpened 7 \<lparr>oh_payload = p, oh_keyId = ''board'', oh_packet = h\<rparr> \<in>
     set (fst (addKey toy_sodium 0 ''board'' (replicate 32 1)
       (hint_router_init\<lparr>hr_recentHints := [h], hr_recentIds := [hid toy_sodium h], hr_listeners := [7]\<rparr>)))"
proof -
  obtain h p where h: "openHint toy_sodium (replicate 32 1) h = Inr (Some p)" using toy_opens by blast
  let ?s = "hint_router_init\<lparr>hr_recentHints := [h], hr_recentIds := [hid toy_sodium h], hr_listeners := [7]\<rparr>"
  have "buffer_ok toy_sodium ?s" by (simp add: buffer_ok_def RECENT_HINT_BUFFER_def)
  from late_key_opens [OF this, of h 7 "''board''" "replicate 32 1" p 0] h show ?thesis
    by (intro exI [of _ h] exI [of _ p]) (simp add: hint_router_init_def seen_has_def)
qed

end
