(* ===== verification/HintRelease.thy ===== *)
theory HintRelease
  imports Prelude
begin

text \<open>
  \<open>packages/core/src/network/hint/HintRelease.ts\<close>: how long a hint is held back after its body was
  sent, computed from the observed hint rate and relay throughput. Rates are exact rationals; the
  text of a reason is a constructor with the number it prints. The lemmas bound the wait and show
  when there is none.
\<close>

datatype release_mode = Disabled | Adaptive | Strict

datatype release_reason =
    ModeDisabled
  | SinksIntoNoise int
  | SetUnreachable rat
  | CappedByPatience rat
  | WindowFromRate

record release_status =
  rs_mode :: release_mode
  rs_delayMs :: int
  rs_reason :: release_reason
  rs_observedHintRate :: rat
  rs_relayThroughputBps :: rat
  rs_expectedAnonymitySet :: rat
  rs_targetMet :: bool

definition TARGET_ANONYMITY_SET :: rat where [simp]: "TARGET_ANONYMITY_SET = 8"
definition MIN_MEASURABLE_SET :: rat where [simp]: "MIN_MEASURABLE_SET = 2"
definition ENVELOPE_FACTOR :: rat where [simp]: "ENVELOPE_FACTOR = 10"
definition MIN_PATIENCE_MS :: rat where [simp]: "MIN_PATIENCE_MS = 60000"
definition NOISE_WINDOW_SEC :: rat where [simp]: "NOISE_WINDOW_SEC = 8"
definition RATE_WINDOW_MS :: int where [simp]: "RATE_WINDOW_MS = 5 * 60 * 1000"

record release_state =
  rl_mode :: release_mode
  rl_hintTimes :: "int list"
  rl_relayBytes :: "(int \<times> int) list"

definition release_init :: release_state where
  "release_init = \<lparr>rl_mode = Adaptive, rl_hintTimes = [], rl_relayBytes = []\<rparr>"

definition setMode :: "release_mode \<Rightarrow> release_state \<Rightarrow> release_state" where
  "setMode m s = s\<lparr>rl_mode := m\<rparr>"

definition prune :: "int \<Rightarrow> release_state \<Rightarrow> release_state" where
  "prune now s =
     (let cutoff = now - RATE_WINDOW_MS in
      s\<lparr>rl_hintTimes := dropWhile (\<lambda>t. t < cutoff) (rl_hintTimes s),
        rl_relayBytes := dropWhile (\<lambda>(t, _). t < cutoff) (rl_relayBytes s)\<rparr>)"

definition noteHintSeen :: "int \<Rightarrow> release_state \<Rightarrow> release_state" where
  "noteHintSeen now s = prune now (s\<lparr>rl_hintTimes := rl_hintTimes s @ [now]\<rparr>)"

definition noteRelayBytes :: "int \<Rightarrow> int \<Rightarrow> release_state \<Rightarrow> release_state" where
  "noteRelayBytes n now s =
     (if n \<le> 0 then s else prune now (s\<lparr>rl_relayBytes := rl_relayBytes s @ [(now, n)]\<rparr>))"

definition hintRate :: "int \<Rightarrow> release_state \<Rightarrow> rat \<times> release_state" where
  "hintRate now s =
     (let s1 = prune now s in (of_nat (length (rl_hintTimes s1)) / (of_int RATE_WINDOW_MS / 1000), s1))"

definition relayThroughputBps :: "int \<Rightarrow> release_state \<Rightarrow> rat \<times> release_state" where
  "relayThroughputBps now s =
     (let s1 = prune now s in
      (of_int (sum_list (map snd (rl_relayBytes s1))) / (of_int RATE_WINDOW_MS / 1000), s1))"

text \<open>\<open>Math.round\<close>.\<close>

definition js_round :: "rat \<Rightarrow> int" where
  "js_round x = \<lfloor>x + 1 / 2\<rfloor>"

definition release_base :: "release_mode \<Rightarrow> rat \<Rightarrow> rat \<Rightarrow> rat \<Rightarrow> release_reason \<Rightarrow> release_status" where
  "release_base mode rate throughput delayMs reason =
     (let s = delayMs / 1000 * rate in
      \<lparr>rs_mode = mode, rs_delayMs = max 0 (js_round delayMs), rs_reason = reason, rs_observedHintRate = rate,
       rs_relayThroughputBps = throughput, rs_expectedAnonymitySet = s,
       rs_targetMet = (s \<ge> TARGET_ANONYMITY_SET)\<rparr>)"

definition send_sec :: "rat \<Rightarrow> int \<Rightarrow> rat" where
  "send_sec throughput payloadBytes = (if throughput > 0 then of_int payloadBytes / throughput else 0)"

definition patience_sec :: "rat \<Rightarrow> int \<Rightarrow> rat" where
  "patience_sec throughput payloadBytes = max (MIN_PATIENCE_MS / 1000) (2 * send_sec throughput payloadBytes)"

definition wanted_sec :: "rat \<Rightarrow> rat \<Rightarrow> int \<Rightarrow> rat" where
  "wanted_sec rate throughput payloadBytes =
     max (ENVELOPE_FACTOR * send_sec throughput payloadBytes) (if rate > 0 then TARGET_ANONYMITY_SET / rate else 0)"

definition window_sec :: "rat \<Rightarrow> rat \<Rightarrow> int \<Rightarrow> rat" where
  "window_sec rate throughput payloadBytes =
     min (wanted_sec rate throughput payloadBytes) (patience_sec throughput payloadBytes)"

text \<open>The decision of \<open>plan\<close> for given observations.\<close>

definition plan_with :: "release_mode \<Rightarrow> rat \<Rightarrow> rat \<Rightarrow> int \<Rightarrow> release_status" where
  "plan_with mode rate throughput payloadBytes =
     (let base = release_base mode rate throughput in
      if mode = Disabled then base 0 ModeDisabled
      else
        (let noiseFloorBytes = throughput * NOISE_WINDOW_SEC in
         if of_int payloadBytes \<le> noiseFloorBytes then base 0 (SinksIntoNoise (js_round noiseFloorBytes))
         else
           (let windowSec = window_sec rate throughput payloadBytes;
                reachableSet = windowSec * rate in
            if mode = Adaptive \<and> reachableSet < MIN_MEASURABLE_SET then base 0 (SetUnreachable reachableSet)
            else base (windowSec * 1000)
              (if windowSec < wanted_sec rate throughput payloadBytes
               then CappedByPatience (patience_sec throughput payloadBytes) else WindowFromRate))))"

definition plan :: "int \<Rightarrow> int \<Rightarrow> release_state \<Rightarrow> release_status \<times> release_state" where
  "plan payloadBytes now s =
     (let (rate, s1) = hintRate now s; (throughput, s2) = relayThroughputBps now s1 in
      (plan_with (rl_mode s2) rate throughput payloadBytes, s2))"

subsection \<open>Observations\<close>

definition release_ok :: "release_state \<Rightarrow> bool" where
  "release_ok s \<longleftrightarrow> (\<forall>(_, n) \<in> set (rl_relayBytes s). 0 < n)"

lemma prune_ok [wf_intro]: "release_ok s \<Longrightarrow> release_ok (prune now s)"
  by (auto simp: release_ok_def prune_def Let_def dest: set_dropWhileD)

lemma noteRelayBytes_ok [wf_intro]: "release_ok s \<Longrightarrow> release_ok (noteRelayBytes n now s)"
  unfolding noteRelayBytes_def using prune_ok [of "s\<lparr>rl_relayBytes := rl_relayBytes s @ [(now, n)]\<rparr>" now]
  by (auto simp: release_ok_def [of "s\<lparr>rl_relayBytes := rl_relayBytes s @ [(now, n)]\<rparr>"] release_ok_def [of s])

lemma noteHintSeen_ok [wf_intro]: "release_ok s \<Longrightarrow> release_ok (noteHintSeen now s)"
  unfolding noteHintSeen_def by (intro prune_ok) (simp add: release_ok_def)

lemma sum_list_pos_nonneg: "\<forall>x \<in> set xs. 0 < snd x \<Longrightarrow> 0 \<le> sum_list (map snd xs)" for xs :: "('a \<times> int) list"
  by (induction xs) auto

lemma plan_cases:
  assumes "release_ok s"
  obtains rate throughput where "0 \<le> rate" "0 \<le> throughput"
    "fst (plan b now s) = plan_with (rl_mode s) rate throughput b"
proof -
  let ?s = "prune now (prune now s)"
  have "release_ok ?s" using assms by (intro prune_ok)
  then have "0 \<le> sum_list (map snd (rl_relayBytes ?s))"
    by (intro sum_list_pos_nonneg) (auto simp: release_ok_def)
  moreover have "rl_mode ?s = rl_mode s" by (simp add: prune_def Let_def)
  ultimately show thesis
    by (intro that [of "fst (hintRate now s)" "fst (relayThroughputBps now (prune now s))"])
      (simp_all add: plan_def hintRate_def relayThroughputBps_def Let_def)
qed

subsection \<open>The wait is bounded\<close>

lemma js_round_0 [simp]: "js_round 0 = 0"
  by (simp add: js_round_def floor_eq_iff)

lemma js_round_le: "x \<le> of_int n \<Longrightarrow> js_round x \<le> n"
  unfolding js_round_def by linarith

text \<open>The wait is bounded by the sender's patience, a minute or twice the time the upload takes, and is
  nil when the schedule is off, when the upload sinks into the node's own relay traffic, and in adaptive
  mode when the network is too small for the wait to yield a measurable anonymity set.\<close>

theorem release_wait_bounded:
  assumes "release_ok s" "st = fst (plan b now s)"
  shows "0 \<le> rs_delayMs st \<and>
    of_int (rs_delayMs st) \<le> max MIN_PATIENCE_MS (2000 * send_sec (rs_relayThroughputBps st) b) + 1 \<and>
    (rl_mode s = Disabled \<or> of_int b \<le> 8 * rs_relayThroughputBps st \<longrightarrow> rs_delayMs st = 0) \<and>
    (rl_mode s = Adaptive \<and> rs_delayMs st \<noteq> 0 \<longrightarrow> MIN_MEASURABLE_SET \<le> rs_expectedAnonymitySet st)"
proof -
  obtain rate thr where o: "0 \<le> rate" "0 \<le> thr" and st: "st = plan_with (rl_mode s) rate thr b"
    using plan_cases [OF assms(1)] assms(2) by metis
  define w where "w = window_sec rate thr b"
  have thr: "rs_relayThroughputBps st = thr"
    by (simp add: st plan_with_def release_base_def Let_def)
  consider "st = release_base (rl_mode s) rate thr 0 (rs_reason st)"
    | "rl_mode s \<noteq> Disabled" "\<not> of_int b \<le> thr * 8" "\<not> (rl_mode s = Adaptive \<and> w * rate < 2)"
      "st = release_base (rl_mode s) rate thr (w * 1000) (rs_reason st)"
  proof -
    have base: "release_base m r t d x = release_base m r t d (rs_reason (release_base m r t d x))" for m r t d x
      by (simp add: release_base_def Let_def)
    show thesis
    proof (cases "rl_mode s = Disabled \<or> of_int b \<le> thr * 8 \<or> (rl_mode s = Adaptive \<and> w * rate < 2)")
      case True
      then have "\<exists>x. st = release_base (rl_mode s) rate thr 0 x"
        unfolding st plan_with_def Let_def w_def by (auto simp del: of_int_le_iff)
      then show ?thesis using that(1) base by metis
    next
      case False
      then have "\<exists>x. st = release_base (rl_mode s) rate thr (w * 1000) x"
        unfolding st plan_with_def Let_def w_def by (auto simp del: of_int_le_iff)
      then show ?thesis using that(2) base False by metis
    qed
  qed
  then show ?thesis
  proof cases
    case 1
    have "0 \<le> max 60000 (2000 * send_sec thr b)" by simp
    then have "(0 :: rat) \<le> max 60000 (2000 * send_sec thr b) + 1" by linarith
    moreover have "rs_delayMs st = 0" by (subst 1) (simp add: release_base_def Let_def)
    ultimately show ?thesis using thr by simp
  next
    case 2
    have "w \<le> max 60 (2 * send_sec thr b)" by (simp add: w_def window_sec_def patience_sec_def)
    then have "w * 1000 \<le> max 60000 (2000 * send_sec thr b)" by (auto simp: max_def split: if_splits)
    moreover have d: "rs_delayMs st = max 0 (js_round (w * 1000))"
      by (subst 2(4)) (simp add: release_base_def Let_def)
    moreover have "of_int (js_round (w * 1000)) \<le> w * 1000 + 1" unfolding js_round_def by linarith
    moreover have "(0 :: rat) \<le> max 60000 (2000 * send_sec thr b)" by simp
    ultimately have b: "of_int (rs_delayMs st) \<le> max 60000 (2000 * send_sec thr b) + 1"
      by (simp add: max_def split: if_splits)
    have "rs_expectedAnonymitySet st = w * rate"
      by (subst 2(4)) (simp add: release_base_def Let_def)
    then show ?thesis using b thr d 2(1,2,3) by (auto simp: mult.commute)
  qed
qed

theorem release_wait_bounded_witness:
  "of_int (rs_delayMs (fst (plan 1000000 0 release_init))) \<le> (60001 :: rat)"
proof -
  have "release_ok release_init" by (simp add: release_ok_def release_init_def)
  from release_wait_bounded [OF this refl, of 1000000 0] show ?thesis
    by (simp add: plan_def plan_with_def hintRate_def relayThroughputBps_def prune_def release_init_def
        release_base_def send_sec_def Let_def)
qed

end
