(* ===== verification/Schrodinger.thy ===== *)
theory Schrodinger
  imports DHTMailbox HintRouter HintRelease PostPacket
begin

text \<open>
  \<open>packages/core/src/network/hint/SchrodingerMailbox.ts\<close>: storage whose place is known only to those who can
  open a hint. The component joins the mailbox, the hint router and the release schedule, which are parts of its
  state; what they report to its callbacks is handled here. Its asynchronous methods run as tasks: each task is
  resumed once per awaited result, and anything may happen in between. The lemmas show that the invariants of the
  parts survive their composition, what a backlog sends, when a hint is flooded again, and how a hint leads to a body.
\<close>

subsection \<open>State\<close>

definition REFLOOD_PERIOD_MS :: int where [simp]: "REFLOOD_PERIOD_MS = 20 * 60 * 1000"
definition REFLOOD_TICK_MS :: int where [simp]: "REFLOOD_TICK_MS = 60 * 1000"
definition BACKLOG_LIMIT :: nat where "BACKLOG_LIMIT = 200"

text \<open>An asynchronous method waiting for a result: \<open>sendBacklogTo\<close> for the keys, then for the entries of the next
  key; \<open>refloodDue\<close> likewise; \<open>onOpened\<close> for the local entries, for the network (the promise has the number of
  the task), for the entries it found, for the return of \<open>fetchBody\<close>; \<open>releaseHint\<close> for its delay, or for nothing.\<close>

datatype sm_task =
    BacklogKeys peer_id nat
  | Backlog peer_id nat "string list" nat
  | RefloodKeys int
  | Reflood int "string list" nat
  | FetchLocal opened_hint string
  | Fetching opened_hint
  | Fetched opened_hint "bytes list"
  | Deliver opened_hint bytes
  | ReleaseWait hint
  | ReleaseNow hint

record schro =
  sm_mailbox :: mailbox
  sm_router :: hint_router
  sm_release :: release_state
  sm_tasks :: "(nat, sm_task) jsmap"
  sm_seq :: nat
  sm_bodyListeners :: "nat list"
  sm_refloodTimer :: bool
  sm_onConnect :: bool

datatype sm_effect =
    SmMail dm_effect
  | SmHint hint_effect
  | BodyCall nat bytes opened_hint
  | SetReleaseTimer nat int

type_synonym sm_step = "sm_effect list \<times> schro"

text \<open>The number under which this component listens to the router and to the mailbox.\<close>

abbreviation SCHRO :: nat where "SCHRO \<equiv> 0"

text \<open>The constructor.\<close>

definition schro_init :: "mailbox \<Rightarrow> hint_router \<Rightarrow> release_mode \<Rightarrow> schro" where
  "schro_init mb hr mode =
     \<lparr>sm_mailbox = onSlotStored SCHRO mb, sm_router = onAnyHint SCHRO (onHint SCHRO hr),
      sm_release = setMode mode release_init, sm_tasks = [], sm_seq = 0, sm_bodyListeners = [],
      sm_refloodTimer = False, sm_onConnect = True\<rparr>"

text \<open>The peers as the hint router sees them.\<close>

definition hint_peers :: "dm_env \<Rightarrow> hint_peer list" where
  "hint_peers e =
     map (\<lambda>(p, w). \<lparr>hr_peerId = p, hr_isConnected = wp_connected w, hr_isVerified = wp_verified w\<rparr>) (pm_peers (de_pm e))"

definition spawn :: "sm_task \<Rightarrow> schro \<Rightarrow> schro" where
  "spawn t s = s\<lparr>sm_tasks := jm_set (sm_seq s) t (sm_tasks s), sm_seq := Suc (sm_seq s)\<rparr>"

definition wait_for :: "nat \<Rightarrow> sm_task \<Rightarrow> schro \<Rightarrow> schro" where
  "wait_for i t s = s\<lparr>sm_tasks := jm_set i t (sm_tasks s)\<rparr>"

definition finish :: "nat \<Rightarrow> schro \<Rightarrow> schro" where
  "finish i s = s\<lparr>sm_tasks := jm_del i (sm_tasks s)\<rparr>"

subsection \<open>Callbacks\<close>

text \<open>\<open>onOpened\<close> up to its first wait; a nonce of a wrong length would reject its promise.\<close>

definition onOpened :: "sodium \<Rightarrow> opened_hint \<Rightarrow> schro \<Rightarrow> schro" where
  "onOpened S oh s =
     (case mailboxKeyFromNonce S (hp_nonce (oh_payload oh)) of
        Inl _ \<Rightarrow> s
      | Inr k \<Rightarrow> spawn (FetchLocal oh (toHex k)) s)"

text \<open>What the hint router reports, in order.\<close>

fun hint_reports :: "dm_env \<Rightarrow> hint_effect list \<Rightarrow> schro \<Rightarrow> sm_step" where
  "hint_reports e [] s = ([], s)"
| "hint_reports e (HintOpened l oh # fx) s =
     (if l = SCHRO then hint_reports e fx (onOpened (de_S e) oh s)
      else (let (gx, s') = hint_reports e fx s in (SmHint (HintOpened l oh) # gx, s')))"
| "hint_reports e (AnyHint l # fx) s =
     (if l = SCHRO then hint_reports e fx (s\<lparr>sm_release := noteHintSeen (de_now e) (sm_release s)\<rparr>)
      else (let (gx, s') = hint_reports e fx s in (SmHint (AnyHint l) # gx, s')))"
| "hint_reports e (f # fx) s = (let (gx, s') = hint_reports e fx s in (SmHint f # gx, s'))"

text \<open>The listener on stored slots. (An exception of \<open>ingestLocal\<close> needs a key of a wrong length.)\<close>

definition onStored :: "dm_env \<Rightarrow> bytes \<Rightarrow> schro \<Rightarrow> sm_step" where
  "onStored e entry s =
     (case extractHint entry of
        None \<Rightarrow> ([], s)
      | Some h \<Rightarrow>
          (case ingestLocal (de_S e) (de_now e) h (sm_router s) of
             (_, fx, hr) \<Rightarrow> hint_reports e fx (s\<lparr>sm_router := hr\<rparr>)))"

text \<open>What the mailbox reports: stored slots, and the end of a fetch this component waits for.\<close>

fun mail_reports :: "dm_env \<Rightarrow> dm_effect list \<Rightarrow> schro \<Rightarrow> sm_step" where
  "mail_reports e [] s = ([], s)"
| "mail_reports e (SlotCall cb entry topic # fx) s =
     (let (gx, s1) = (if cb = SCHRO then onStored e entry s else ([SmMail (SlotCall cb entry topic)], s));
          (hx, s2) = mail_reports e fx s1 in (gx @ hx, s2))"
| "mail_reports e (FetchDone f es # fx) s =
     (case jm_get (sm_tasks s) f of
        Some (Fetching oh) \<Rightarrow> mail_reports e fx (wait_for f (Fetched oh es) s)
      | _ \<Rightarrow> (let (gx, s') = mail_reports e fx s in (SmMail (FetchDone f es) # gx, s')))"
| "mail_reports e (f # fx) s = (let (gx, s') = mail_reports e fx s in (SmMail f # gx, s'))"

subsection \<open>A new slot\<close>

record prepared_slot =
  sl_hint :: hint
  sl_keyHex :: string
  sl_exitTopic :: string
  sl_exitHint :: bytes

text \<open>\<open>nonce\<close> and \<open>hintNonce\<close> are the random bytes drawn.\<close>

definition prepareSlot :: "sodium \<Rightarrow> bytes \<Rightarrow> bytes \<Rightarrow> int \<Rightarrow> bytes \<Rightarrow> int \<Rightarrow> prepared_slot res" where
  "prepareSlot S nonce hintNonce now k messageId =
     rbind (newMailboxSlot S nonce) (\<lambda>(nonce, mailboxKey).
     rbind (buildHint S k \<lparr>hp_nonce = nonce, hp_message_id = messageId, hp_timestamp = roundToMinute now\<rparr> hintNonce)
       (\<lambda>h. let keyHex = toHex mailboxKey in
         Inr \<lparr>sl_hint = h, sl_keyHex = keyHex, sl_exitTopic = keyHex, sl_exitHint = encodeHint h\<rparr>))"

text \<open>\<open>releaseHint\<close> up to its wait.\<close>

definition releaseHint :: "dm_env \<Rightarrow> hint \<Rightarrow> int \<Rightarrow> schro \<Rightarrow> sm_step" where
  "releaseHint e h bodyBytes s =
     (let (status, r) = plan bodyBytes (de_now e) (sm_release s); s1 = s\<lparr>sm_release := r\<rparr> in
      if rs_delayMs status > 0
      then ([SetReleaseTimer (sm_seq s) (rs_delayMs status)], spawn (ReleaseWait h) s1)
      else ([], spawn (ReleaseNow h) s1))"

subsection \<open>Backlog, fetch and flooding again\<close>

text \<open>The inner loop of \<open>sendBacklogTo\<close>, with \<open>sent\<close> hints sent so far.\<close>

fun backlog_entries :: "hint_peer list \<Rightarrow> peer_id \<Rightarrow> nat \<Rightarrow> bytes list \<Rightarrow> nat \<Rightarrow> hint_effect list \<times> nat" where
  "backlog_entries peers p limit [] sent = ([], sent)"
| "backlog_entries peers p limit (entry # es) sent =
     (if sent \<ge> limit then ([], sent)
      else
        (case extractHint entry of
           None \<Rightarrow> backlog_entries peers p limit es sent
         | Some h \<Rightarrow> (let (fx, n) = backlog_entries peers p limit es (Suc sent) in (sendTo peers p h @ fx, n))))"

text \<open>The inner loop of \<open>refloodDue\<close>.\<close>

fun reflood_entries :: "dm_env \<Rightarrow> bytes list \<Rightarrow> nat \<Rightarrow> hint_router \<Rightarrow> hint_effect list \<times> nat \<times> hint_router" where
  "reflood_entries e [] sent hr = ([], sent, hr)"
| "reflood_entries e (entry # es) sent hr =
     (case extractHint entry of
        None \<Rightarrow> reflood_entries e es sent hr
      | Some h \<Rightarrow>
          (let (fx, hr1) = reflood (de_S e) (de_now e) (hint_peers e) (de_me e) h hr;
               (gx, n, hr2) = reflood_entries e es (Suc sent) hr1 in (fx @ gx, n, hr2)))"

definition isDueNow :: "string \<Rightarrow> int \<Rightarrow> bool" where
  "isDueNow keyHex now =
     (case parse_int16 (take 8 keyHex) of
        None \<Rightarrow> False
      | Some n \<Rightarrow>
          (let offset = n mod REFLOOD_PERIOD_MS;
               windowStart = (now - offset) div REFLOOD_PERIOD_MS;
               dueAt = windowStart * REFLOOD_PERIOD_MS + offset in
           now - dueAt < REFLOOD_TICK_MS))"

text \<open>The search of \<open>fetchBody\<close> through the entries it got.\<close>

fun first_blob :: "bytes list \<Rightarrow> bytes option" where
  "first_blob [] = None"
| "first_blob (entry # es) = (case decodeSlotBlob entry of Some (_, body) \<Rightarrow> Some body | None \<Rightarrow> first_blob es)"

text \<open>How each method goes on from its waits, as task \<open>i\<close>: \<open>sendBacklogTo\<close> with the keys, and with the entries of
  the next key.\<close>

definition backlog_keys :: "nat \<Rightarrow> peer_id \<Rightarrow> nat \<Rightarrow> schro \<Rightarrow> sm_step" where [simp]:
  "backlog_keys i p limit s = ([], wait_for i (Backlog p limit (storedKeys (sm_mailbox s)) 0) s)"

fun backlog_next :: "dm_env \<Rightarrow> nat \<Rightarrow> peer_id \<Rightarrow> nat \<Rightarrow> string list \<Rightarrow> nat \<Rightarrow> schro \<Rightarrow> sm_step" where
  "backlog_next e i p limit [] sent s = ([], finish i s)"
| "backlog_next e i p limit (k # ks) sent s =
     (if sent \<ge> limit then ([], finish i s)
      else
        (let (fx, n) = backlog_entries (hint_peers e) p limit (stored k (sm_mailbox s)) sent in
         (map SmHint fx, wait_for i (Backlog p limit ks n) s)))"

text \<open>\<open>refloodDue\<close> likewise; keys that are not due are passed without a wait.\<close>

definition reflood_keys :: "nat \<Rightarrow> int \<Rightarrow> schro \<Rightarrow> sm_step" where [simp]:
  "reflood_keys i now s =
     ([], wait_for i (Reflood now (filter (\<lambda>k. isDueNow k now) (storedKeys (sm_mailbox s))) 0) s)"

fun reflood_next :: "dm_env \<Rightarrow> nat \<Rightarrow> int \<Rightarrow> string list \<Rightarrow> nat \<Rightarrow> schro \<Rightarrow> sm_step" where
  "reflood_next e i now [] sent s = ([], finish i s)"
| "reflood_next e i now (k # ks) sent s =
     (let (fx, n, hr) = reflood_entries e (stored k (sm_mailbox s)) sent (sm_router s) in
      (map SmHint fx, wait_for i (Reflood now ks n) (s\<lparr>sm_router := hr\<rparr>)))"

text \<open>\<open>fetchBody\<close>: what is at hand is taken, else the network is asked (\<open>ids\<close> are the random identifiers of its
  requests); then what the network gave.\<close>

definition fetch_local :: "dm_env \<Rightarrow> (nat \<Rightarrow> string) \<Rightarrow> nat \<Rightarrow> opened_hint \<Rightarrow> string \<Rightarrow> schro \<Rightarrow> sm_step" where [simp]:
  "fetch_local e ids i oh keyHex s =
     (case first_blob (stored keyHex (sm_mailbox s)) of
        Some body \<Rightarrow> ([], wait_for i (Deliver oh body) s)
      | None \<Rightarrow>
          (let (fx, mb) = dm_fetch e ids i keyHex (sm_mailbox s) in
           mail_reports e fx (wait_for i (Fetching oh) (s\<lparr>sm_mailbox := mb\<rparr>))))"

definition fetch_answered :: "nat \<Rightarrow> opened_hint \<Rightarrow> bytes list \<Rightarrow> schro \<Rightarrow> sm_step" where [simp]:
  "fetch_answered i oh es s =
     (case first_blob es of
        Some body \<Rightarrow> ([], wait_for i (Deliver oh body) s)
      | None \<Rightarrow> ([], finish i s))"

text \<open>\<open>onOpened\<close> with the body, and \<open>releaseHint\<close> after its wait.\<close>

definition deliver_body :: "nat \<Rightarrow> opened_hint \<Rightarrow> bytes \<Rightarrow> schro \<Rightarrow> sm_step" where [simp]:
  "deliver_body i oh body s = (map (\<lambda>cb. BodyCall cb body oh) (sm_bodyListeners s), finish i s)"

definition release_now :: "dm_env \<Rightarrow> nat \<Rightarrow> hint \<Rightarrow> schro \<Rightarrow> sm_step" where [simp]:
  "release_now e i h s =
     (let (fx, hr) = originate (de_now e) h (hid (de_S e) h) (sm_router s) in
      (map SmHint fx, finish i (s\<lparr>sm_router := hr\<rparr>)))"

fun resume_task :: "dm_env \<Rightarrow> (nat \<Rightarrow> string) \<Rightarrow> nat \<Rightarrow> sm_task \<Rightarrow> schro \<Rightarrow> sm_step" where
  "resume_task e ids i (BacklogKeys p limit) s = backlog_keys i p limit s"
| "resume_task e ids i (Backlog p limit ks sent) s = backlog_next e i p limit ks sent s"
| "resume_task e ids i (RefloodKeys now) s = reflood_keys i now s"
| "resume_task e ids i (Reflood now ks sent) s = reflood_next e i now ks sent s"
| "resume_task e ids i (FetchLocal oh keyHex) s = fetch_local e ids i oh keyHex s"
| "resume_task e ids i (Fetching oh) s = ([], s)"
| "resume_task e ids i (Fetched oh es) s = fetch_answered i oh es s"
| "resume_task e ids i (Deliver oh body) s = deliver_body i oh body s"
| "resume_task e ids i (ReleaseWait h) s = ([], s)"
| "resume_task e ids i (ReleaseNow h) s = release_now e i h s"

subsection \<open>All operations\<close>

datatype sm_event =
    EvMail dm_op
  | EvHint peer_id jsval
  | EvExitHint bytes
  | EvResume nat "nat \<Rightarrow> string"
  | EvConnect peer_id
  | EvTick
  | EvReleaseTimer nat
  | EvAddKey string bytes
  | EvRemoveKey string
  | EvOnBody nat
  | EvRelease hint int
  | EvStartReflood
  | EvStopReflood
  | EvSchroDestroy

definition sendBacklogTo :: "peer_id \<Rightarrow> nat \<Rightarrow> schro \<Rightarrow> schro" where
  "sendBacklogTo p limit s = spawn (BacklogKeys p limit) s"

definition refloodDue :: "int \<Rightarrow> schro \<Rightarrow> schro" where
  "refloodDue now s = spawn (RefloodKeys now) s"

text \<open>\<open>onPeerConnect\<close>; an empty identifier is ignored.\<close>

definition schro_connect :: "peer_id \<Rightarrow> schro \<Rightarrow> schro" where
  "schro_connect p s = (if p = [] then s else sendBacklogTo p BACKLOG_LIMIT s)"

definition stopReflood :: "schro \<Rightarrow> schro" where
  "stopReflood s = (if sm_refloodTimer s then s\<lparr>sm_refloodTimer := False\<rparr> else s)"

definition startReflood :: "schro \<Rightarrow> schro" where
  "startReflood s = (stopReflood s)\<lparr>sm_refloodTimer := True\<rparr>"

definition schro_destroy :: "schro \<Rightarrow> schro" where
  "schro_destroy s =
     (stopReflood s)\<lparr>sm_onConnect := False, sm_router := offHint SCHRO (sm_router s), sm_bodyListeners := []\<rparr>"

fun sm_exec :: "dm_env \<Rightarrow> sm_event \<Rightarrow> schro \<Rightarrow> sm_step" where
  "sm_exec e (EvMail op) s =
     (let (fx, mb) = dm_exec e op (sm_mailbox s) in mail_reports e fx (s\<lparr>sm_mailbox := mb\<rparr>))"
| "sm_exec e (EvHint p msg) s =
     (let (fx, hr) = handleHint (de_S e) (de_now e) (hint_peers e) p msg (sm_router s) in
      hint_reports e fx (s\<lparr>sm_router := hr\<rparr>))"
| "sm_exec e (EvExitHint bs) s =
     (let (fx, hr) = handleExitHint (de_S e) (de_now e) (hint_peers e) (de_me e) bs (sm_router s) in
      hint_reports e fx (s\<lparr>sm_router := hr\<rparr>))"
| "sm_exec e (EvResume i ids) s =
     (case jm_get (sm_tasks s) i of None \<Rightarrow> ([], s) | Some t \<Rightarrow> resume_task e ids i t s)"
| "sm_exec e (EvConnect p) s = ([], if sm_onConnect s then schro_connect p s else s)"
| "sm_exec e EvTick s = ([], if sm_refloodTimer s then refloodDue (de_now e) s else s)"
| "sm_exec e (EvReleaseTimer i) s =
     (case jm_get (sm_tasks s) i of Some (ReleaseWait h) \<Rightarrow> ([], wait_for i (ReleaseNow h) s) | _ \<Rightarrow> ([], s))"
| "sm_exec e (EvAddKey keyId k) s =
     (let (fx, hr) = addKey (de_S e) (de_now e) keyId k (sm_router s) in hint_reports e fx (s\<lparr>sm_router := hr\<rparr>))"
| "sm_exec e (EvRemoveKey keyId) s = ([], s\<lparr>sm_router := removeKey keyId (sm_router s)\<rparr>)"
| "sm_exec e (EvOnBody cb) s = ([], s\<lparr>sm_bodyListeners := sm_bodyListeners s @ [cb]\<rparr>)"
| "sm_exec e (EvRelease h n) s = releaseHint e h n s"
| "sm_exec e EvStartReflood s = ([], startReflood s)"
| "sm_exec e EvStopReflood s = ([], stopReflood s)"
| "sm_exec e EvSchroDestroy s = ([], schro_destroy s)"

text \<open>A run, each step in the environment of its moment.\<close>

fun sm_run :: "(dm_env \<times> sm_event) list \<Rightarrow> schro \<Rightarrow> sm_step" where
  "sm_run [] s = ([], s)"
| "sm_run ((e, ev) # evs) s = (let (fx, s1) = sm_exec e ev s; (gx, s2) = sm_run evs s1 in (fx @ gx, s2))"

subsection \<open>The invariants of the parts survive their composition\<close>

definition body_valid :: "sodium \<Rightarrow> int \<Rightarrow> bytes \<Rightarrow> bool" where
  "body_valid S now body \<longleftrightarrow> (\<exists>h. entry_valid S now (encodeSlotBlob h body))"

fun task_ok :: "sodium \<Rightarrow> int \<Rightarrow> sm_task \<Rightarrow> bool" where
  "task_ok S now (Fetched oh es) \<longleftrightarrow> (\<forall>entry \<in> set es. entry_valid S now entry)"
| "task_ok S now (Deliver oh body) \<longleftrightarrow> body_valid S now body"
| "task_ok S now (Backlog p limit ks sent) \<longleftrightarrow> sent \<le> limit"
| "task_ok S now _ \<longleftrightarrow> True"

definition tasks_ok :: "sodium \<Rightarrow> int \<Rightarrow> (nat, sm_task) jsmap \<Rightarrow> bool" where
  "tasks_ok S now m \<longleftrightarrow> (\<forall>(i, t) \<in> set m. task_ok S now t)"

definition sm_ok :: "sodium \<Rightarrow> int \<Rightarrow> schro \<Rightarrow> bool" where
  "sm_ok S now s \<longleftrightarrow>
     dm_ok S now (sm_mailbox s) \<and> buffer_ok S (sm_router s) \<and> release_ok (sm_release s) \<and> tasks_ok S now (sm_tasks s)"

fun effect_valid :: "sodium \<Rightarrow> int \<Rightarrow> sm_effect \<Rightarrow> bool" where
  "effect_valid S now (BodyCall cb body oh) \<longleftrightarrow> body_valid S now body"
| "effect_valid S now _ \<longleftrightarrow> True"

definition bodies_valid :: "sodium \<Rightarrow> int \<Rightarrow> sm_effect list \<Rightarrow> bool" where
  "bodies_valid S now fx \<longleftrightarrow> list_all (effect_valid S now) fx"

lemma bodies_valid_simps [simp]:
  "bodies_valid S now []"
  "bodies_valid S now (xs @ ys) \<longleftrightarrow> bodies_valid S now xs \<and> bodies_valid S now ys"
  "bodies_valid S now (map SmHint hs)"
  "bodies_valid S now (map (\<lambda>cb. BodyCall cb body oh) cbs) \<longleftrightarrow> cbs = [] \<or> body_valid S now body"
  "bodies_valid S now (SmHint h # xs) \<longleftrightarrow> bodies_valid S now xs"
  "bodies_valid S now (SmMail m # xs) \<longleftrightarrow> bodies_valid S now xs"
  "bodies_valid S now (SetReleaseTimer i d # xs) \<longleftrightarrow> bodies_valid S now xs"
  by (auto simp: bodies_valid_def list_all_iff)

lemma body_valid_mono: "body_valid S now body \<Longrightarrow> now \<le> now' \<Longrightarrow> body_valid S now' body"
  unfolding body_valid_def using entry_valid_mono by blast

lemma task_ok_mono: "task_ok S now t \<Longrightarrow> now \<le> now' \<Longrightarrow> task_ok S now' t"
  using entry_valid_mono [of S now _ now'] body_valid_mono [of S now _ now'] by (cases t) auto

lemma sm_ok_mono: "sm_ok S now s \<Longrightarrow> now \<le> now' \<Longrightarrow> sm_ok S now' s"
  using dm_ok_mono [of S now "sm_mailbox s" now'] task_ok_mono [of S now _ now']
  unfolding sm_ok_def tasks_ok_def by fast

lemma bodies_valid_mono: "bodies_valid S now fx \<Longrightarrow> now \<le> now' \<Longrightarrow> bodies_valid S now' fx"
proof -
  assume "bodies_valid S now fx" "now \<le> now'"
  then have "effect_valid S now' x" if "x \<in> set fx" for x
    using that body_valid_mono [of S now _ now'] by (cases x) (auto simp: bodies_valid_def list_all_iff)
  then show ?thesis by (simp add: bodies_valid_def list_all_iff)
qed

lemma tasks_ok_set: "tasks_ok S now m \<Longrightarrow> task_ok S now t \<Longrightarrow> tasks_ok S now (jm_set i t m)"
  by (auto simp: tasks_ok_def dest!: jm_set_in)

lemma tasks_ok_del: "tasks_ok S now m \<Longrightarrow> tasks_ok S now (jm_del i m)"
  by (auto simp: tasks_ok_def set_jm_del)

lemma sm_ok_get: "sm_ok S now s \<Longrightarrow> jm_get (sm_tasks s) i = Some t \<Longrightarrow> task_ok S now t"
  using jm_get_in_set by (force simp: sm_ok_def tasks_ok_def)

lemma sm_ok_tasks [wf_intro]:
  assumes "sm_ok S now s"
  shows "task_ok S now t \<Longrightarrow> sm_ok S now (spawn t s)" "task_ok S now t \<Longrightarrow> sm_ok S now (wait_for i t s)"
    "sm_ok S now (finish i s)"
  using assms by (simp_all add: sm_ok_def spawn_def wait_for_def finish_def tasks_ok_set tasks_ok_del)

lemma sm_ok_parts [wf_intro]:
  assumes "sm_ok S now s"
  shows "buffer_ok S hr \<Longrightarrow> sm_ok S now (s\<lparr>sm_router := hr\<rparr>)" "dm_ok S now mb \<Longrightarrow> sm_ok S now (s\<lparr>sm_mailbox := mb\<rparr>)"
    "release_ok r \<Longrightarrow> sm_ok S now (s\<lparr>sm_release := r\<rparr>)" "sm_ok S now (s\<lparr>sm_bodyListeners := bs\<rparr>)"
    "sm_ok S now (s\<lparr>sm_refloodTimer := b\<rparr>)" "sm_ok S now (s\<lparr>sm_onConnect := b\<rparr>)"
  using assms by (simp_all add: sm_ok_def)

lemma sm_okD:
  assumes "sm_ok S now s"
  shows "dm_ok S now (sm_mailbox s)" "buffer_ok S (sm_router s)" "release_ok (sm_release s)"
  using assms by (simp_all add: sm_ok_def)

lemma onOpened_ok: "sm_ok S now s \<Longrightarrow> sm_ok S now (onOpened S' oh s)"
  by (auto simp: onOpened_def intro: sm_ok_tasks split: sum.split)

lemma hint_reports_ok:
  "sm_ok S now s \<Longrightarrow> sm_ok S now (snd (hint_reports e fx s)) \<and> bodies_valid S' now' (fst (hint_reports e fx s))"
proof (induction e fx s rule: hint_reports.induct)
  case (2 e l oh fx s)
  then show ?case using onOpened_ok [OF 2(3)] by (auto split: prod.split)
next
  case (3 e l fx s)
  have "sm_ok S now (s\<lparr>sm_release := noteHintSeen (de_now e) (sm_release s)\<rparr>)"
    using 3(3) by (intro sm_ok_parts noteHintSeen_ok sm_okD(3))
  then show ?case using 3 by (auto split: prod.split)
qed (auto split: prod.split)

lemma ingest_router_ok:
  assumes "sm_ok S now s" "ingestLocal S t h (sm_router s) = (r, fx, hr)"
  shows "sm_ok S now (s\<lparr>sm_router := hr\<rparr>)"
proof -
  have "buffer_ok S (snd (snd (ingestLocal S t h (sm_router s))))"
    using buffer_ok_messages [OF sm_okD(2) [OF assms(1)]] by blast
  then show ?thesis using assms by (intro sm_ok_parts) simp_all
qed

lemma onStored_ok:
  assumes "sm_ok (de_S e) now s"
  shows "sm_ok (de_S e) now (snd (onStored e entry s)) \<and> bodies_valid S' now' (fst (onStored e entry s))"
proof (cases "extractHint entry")
  case (Some h)
  obtain r fx hr where i: "ingestLocal (de_S e) (de_now e) h (sm_router s) = (r, fx, hr)" by (cases rule: prod_cases3)
  show ?thesis using hint_reports_ok [OF ingest_router_ok [OF assms i]] i Some by (simp add: onStored_def)
qed (use assms in \<open>simp add: onStored_def\<close>)

lemma mail_reports_ok:
  "sm_ok (de_S e) now s \<Longrightarrow> delivers_valid (de_S e) now fx \<Longrightarrow>
     sm_ok (de_S e) now (snd (mail_reports e fx s)) \<and> bodies_valid S' now' (fst (mail_reports e fx s))"
proof (induction e fx s rule: mail_reports.induct)
  case (2 e cb entry topic fx s)
  define gx s1 where "gx = fst (if cb = SCHRO then onStored e entry s else ([SmMail (SlotCall cb entry topic)], s))"
    and "s1 = snd (if cb = SCHRO then onStored e entry s else ([SmMail (SlotCall cb entry topic)], s))"
  have g: "(if cb = SCHRO then onStored e entry s else ([SmMail (SlotCall cb entry topic)], s)) = (gx, s1)"
    by (simp add: gx_def s1_def)
  have "sm_ok (de_S e) now s1" "bodies_valid S' now' gx"
    using onStored_ok [OF 2(2)] 2(2) by (auto simp: gx_def s1_def)
  moreover have "delivers_valid (de_S e) now fx" using 2(3) by (auto simp: delivers_valid_def)
  ultimately show ?case using 2(1) [OF g [symmetric] refl] g by (simp add: split_def Let_def)
next
  case (3 e f es fx s)
  have v: "\<forall>entry \<in> set es. entry_valid (de_S e) now entry" "delivers_valid (de_S e) now fx"
    using "3.prems"(2) by simp_all
  have "sm_ok (de_S e) now (wait_for f (Fetched oh es) s)" for oh using v by (intro sm_ok_tasks "3.prems"(1)) simp
  then show ?case using 3 v by (auto split: option.split sm_task.split prod.split)
qed (auto simp: delivers_valid_def split: prod.split)

lemma backlog_entries_sent: "sent \<le> limit \<Longrightarrow> snd (backlog_entries peers p limit es sent) \<le> limit"
  by (induction peers p limit es sent rule: backlog_entries.induct) (auto split: option.split prod.splits)

lemma reflood_entries_ok: "buffer_ok (de_S e) hr \<Longrightarrow> buffer_ok (de_S e) (snd (snd (reflood_entries e es sent hr)))"
proof (induction e es sent hr rule: reflood_entries.induct)
  case (2 e entry es sent hr)
  show ?case
  proof (cases "extractHint entry")
    case (Some h)
    obtain fx hr1 where r: "reflood (de_S e) (de_now e) (hint_peers e) (de_me e) h hr = (fx, hr1)" by force
    have "buffer_ok (de_S e) hr1"
      using buffer_ok_others(6) [OF "2.prems", of "de_now e" "hint_peers e" "de_me e" h] r by simp
    then show ?thesis using "2.IH"(2) [OF Some r [symmetric] refl] Some r by (simp add: split_def Let_def)
  qed (use "2.IH"(1) "2.prems" in simp)
qed simp

lemma first_blob_valid: "first_blob es = Some body \<Longrightarrow> \<forall>entry \<in> set es. entry_valid S now entry \<Longrightarrow> body_valid S now body"
  by (induction es) (auto simp: body_valid_def slot_blob_canonical split: option.splits)

lemma resume_task_ok:
  assumes ok: "sm_ok (de_S e) (de_now e) s" and t: "task_ok (de_S e) (de_now e) t"
  shows "sm_ok (de_S e) (de_now e) (snd (resume_task e ids i t s)) \<and>
    bodies_valid (de_S e) (de_now e) (fst (resume_task e ids i t s))"
proof (cases t)
  case (Backlog p limit kks sent)
  show ?thesis
  proof (cases kks)
    case (Cons k ks)
    let ?b = "backlog_entries (hint_peers e) p limit (stored k (sm_mailbox s)) sent"
    have "snd ?b \<le> limit" using t Backlog by (intro backlog_entries_sent) simp
    then have "sm_ok (de_S e) (de_now e) (wait_for i (Backlog p limit ks (snd ?b)) s)" by (intro sm_ok_tasks ok) simp
    then show ?thesis using Backlog Cons sm_ok_tasks(3) [OF ok, of i] by (simp add: split_def Let_def)
  qed (use Backlog ok in \<open>simp add: sm_ok_tasks\<close>)
next
  case (Reflood now kks sent)
  show ?thesis
  proof (cases kks)
    case (Cons k ks)
    let ?r = "reflood_entries e (stored k (sm_mailbox s)) sent (sm_router s)"
    have "sm_ok (de_S e) (de_now e) (wait_for i (Reflood now ks (fst (snd ?r))) (s\<lparr>sm_router := snd (snd ?r)\<rparr>))"
      by (intro sm_ok_tasks sm_ok_parts ok reflood_entries_ok sm_okD(2) [OF ok]) simp
    then show ?thesis using Reflood Cons by (simp add: split_def Let_def)
  qed (use Reflood ok in \<open>simp add: sm_ok_tasks\<close>)
next
  case (FetchLocal oh keyHex)
  show ?thesis
  proof (cases "first_blob (stored keyHex (sm_mailbox s))")
    case None
    obtain fx mb where f: "dm_fetch e ids i keyHex (sm_mailbox s) = (fx, mb)" by force
    then have mb: "dm_ok (de_S e) (de_now e) mb" "delivers_valid (de_S e) (de_now e) fx"
      using dm_fetch_ok [OF sm_okD(1) [OF ok], of e ids i keyHex] by simp_all
    have "sm_ok (de_S e) (de_now e) (wait_for i (Fetching oh) (s\<lparr>sm_mailbox := mb\<rparr>))"
      by (intro sm_ok_tasks sm_ok_parts ok mb(1)) simp
    from mail_reports_ok [OF this mb(2)] show ?thesis using FetchLocal None f by simp
  next
    case (Some body)
    have "body_valid (de_S e) (de_now e) body"
      using first_blob_valid [OF Some] stored_valid [OF sm_okD(1) [OF ok]] by blast
    then have "sm_ok (de_S e) (de_now e) (wait_for i (Deliver oh body) s)" by (intro sm_ok_tasks ok) simp
    then show ?thesis using FetchLocal Some by simp
  qed
next
  case (Fetched oh es)
  then show ?thesis using t first_blob_valid sm_ok_tasks(2,3) [OF ok] by (auto split: option.split)
next
  case (ReleaseNow h)
  let ?o = "originate (de_now e) h (hid (de_S e) h) (sm_router s)"
  have "sm_ok (de_S e) (de_now e) (finish i (s\<lparr>sm_router := snd ?o\<rparr>))"
    by (intro sm_ok_tasks sm_ok_parts ok buffer_ok_others(5) sm_okD(2) [OF ok])
  then show ?thesis using ReleaseNow by (simp add: split_def Let_def)
qed (use ok t in \<open>auto intro: sm_ok_tasks\<close>)

lemma release_plan_ok: "release_ok r \<Longrightarrow> release_ok (snd (plan b now r))"
  by (simp add: plan_def hintRate_def relayThroughputBps_def Let_def prune_ok)

lemma stopReflood_ok: "sm_ok S now s \<Longrightarrow> sm_ok S now (stopReflood s)"
  by (simp add: stopReflood_def sm_ok_parts)

lemma sm_exec_ok:
  assumes ok: "sm_ok (de_S e) (de_now e) s"
  shows "sm_ok (de_S e) (de_now e) (snd (sm_exec e ev s)) \<and> bodies_valid (de_S e) (de_now e) (fst (sm_exec e ev s))"
proof (cases ev)
  case (EvMail op)
  obtain fx mb where f: "dm_exec e op (sm_mailbox s) = (fx, mb)" by force
  then have "dm_ok (de_S e) (de_now e) mb" "delivers_valid (de_S e) (de_now e) fx"
    using dm_exec_ok [OF sm_okD(1) [OF ok], of op] by simp_all
  then show ?thesis using mail_reports_ok [of e "de_now e" "s\<lparr>sm_mailbox := mb\<rparr>"] ok f EvMail by (simp add: sm_ok_parts)
next
  case (EvHint p msg)
  have "buffer_ok (de_S e) (snd (handleHint (de_S e) (de_now e) (hint_peers e) p msg (sm_router s)))"
    using buffer_ok_messages [OF sm_okD(2) [OF ok]] by blast
  from hint_reports_ok [OF sm_ok_parts(1) [OF ok this]] show ?thesis using EvHint by (simp add: split_def Let_def)
next
  case (EvExitHint bs)
  have "buffer_ok (de_S e) (snd (handleExitHint (de_S e) (de_now e) (hint_peers e) (de_me e) bs (sm_router s)))"
    using buffer_ok_messages [OF sm_okD(2) [OF ok]] by blast
  from hint_reports_ok [OF sm_ok_parts(1) [OF ok this]] show ?thesis using EvExitHint by (simp add: split_def Let_def)
next
  case (EvResume i ids)
  then show ?thesis using resume_task_ok [OF ok sm_ok_get [OF ok]] ok by (simp split: option.split)
next
  case (EvAddKey keyId k)
  have "buffer_ok (de_S e) (snd (addKey (de_S e) (de_now e) keyId k (sm_router s)))"
    by (intro buffer_ok_addKey sm_okD(2) [OF ok])
  from hint_reports_ok [OF sm_ok_parts(1) [OF ok this]] show ?thesis using EvAddKey by (simp add: split_def Let_def)
next
  case (EvRelease h n)
  have "sm_ok (de_S e) (de_now e) (s\<lparr>sm_release := snd (plan n (de_now e) (sm_release s))\<rparr>)"
    by (intro sm_ok_parts ok release_plan_ok sm_okD(3) [OF ok])
  then show ?thesis using EvRelease by (simp add: releaseHint_def split_def Let_def sm_ok_tasks)
next
  case (EvReleaseTimer i)
  then show ?thesis using ok by (simp add: sm_ok_tasks split: option.split sm_task.split)
next
  case (EvRemoveKey keyId)
  then show ?thesis using ok by (simp add: sm_ok_parts buffer_ok_others sm_okD(2))
next
  case EvSchroDestroy
  have "sm_ok (de_S e) (de_now e) ((stopReflood s)\<lparr>sm_onConnect := False, sm_router := offHint SCHRO (sm_router s), sm_bodyListeners := []\<rparr>)"
    by (intro sm_ok_parts stopReflood_ok ok buffer_ok_others(4) sm_okD(2) [OF ok])
  then show ?thesis using EvSchroDestroy by (simp add: schro_destroy_def)
qed (use ok in \<open>auto simp: schro_connect_def sendBacklogTo_def refloodDue_def startReflood_def intro!: sm_ok_tasks sm_ok_parts
    stopReflood_ok\<close>)

lemma sm_run_ok:
  assumes "sm_ok S now s" "sorted (map (\<lambda>(e, ev). de_now e) evs)"
    "\<forall>(e, ev) \<in> set evs. de_S e = S \<and> now \<le> de_now e \<and> de_now e \<le> end" "now \<le> end"
  shows "sm_ok S end (snd (sm_run evs s)) \<and> bodies_valid S end (fst (sm_run evs s))"
  using assms
proof (induction evs arbitrary: s now)
  case Nil
  then show ?case using sm_ok_mono by auto
next
  case (Cons x evs)
  obtain e ev where x: "x = (e, ev)" by force
  have e: "de_S e = S" "now \<le> de_now e" "de_now e \<le> end" using Cons.prems(3) x by simp_all
  obtain fx s1 where r: "sm_exec e ev s = (fx, s1)" by force
  have "sm_ok (de_S e) (de_now e) s" using sm_ok_mono [OF Cons.prems(1) e(2)] e(1) by simp
  from sm_exec_ok [OF this, of ev] have 1: "sm_ok S (de_now e) s1" "bodies_valid S (de_now e) fx" using r e(1) by simp_all
  have "\<forall>(e', ev) \<in> set evs. de_S e' = S \<and> de_now e \<le> de_now e' \<and> de_now e' \<le> end"
    using Cons.prems(2,3) x by fastforce
  then have "sm_ok S end (snd (sm_run evs s1)) \<and> bodies_valid S end (fst (sm_run evs s1))"
    using Cons.IH [OF 1(1)] Cons.prems(2) x e(3) by auto
  then show ?case using bodies_valid_mono [OF 1(2) e(3)] by (auto simp: x r split: prod.split)
qed

lemma schro_init_ok:
  assumes "dm_ok S now mb" "buffer_ok S hr"
  shows "sm_ok S now (schro_init mb hr mode)"
  using assms buffer_ok_others(2,3)
  by (simp add: sm_ok_def schro_init_def onSlotStored_def release_ok_def setMode_def release_init_def tasks_ok_def)

text \<open>C12: However messages, connections, keys, timers and the results of its own requests interleave, the component
  keeps its parts in order: what it holds was checked, the hints it buffers are bounded, no backlog exceeds its
  limit, and every body it hands to the boards came from an entry that passed the check of the mailbox: a packet
  whose proof of work was verified.\<close>

theorem schro_invariant:
  assumes "dm_ok S now mb" "buffer_ok S hr" "sorted (map (\<lambda>(e, ev). de_now e) evs)"
    "\<forall>(e, ev) \<in> set evs. de_S e = S \<and> now \<le> de_now e \<and> de_now e \<le> end" "now \<le> end"
  shows "dm_ok S end (sm_mailbox (snd (sm_run evs (schro_init mb hr mode)))) \<and>
    buffer_ok S (sm_router (snd (sm_run evs (schro_init mb hr mode)))) \<and>
    (\<forall>i p limit ks sent. jm_get (sm_tasks (snd (sm_run evs (schro_init mb hr mode)))) i = Some (Backlog p limit ks sent) \<longrightarrow>
       sent \<le> limit) \<and>
    (\<forall>cb body oh. BodyCall cb body oh \<in> set (fst (sm_run evs (schro_init mb hr mode))) \<longrightarrow>
       (\<exists>h. entry_valid S end (encodeSlotBlob h body)))"
proof -
  note ok = sm_run_ok [OF schro_init_ok [OF assms(1,2)] assms(3-5), of mode]
  then have "\<forall>cb body oh. BodyCall cb body oh \<in> set (fst (sm_run evs (schro_init mb hr mode))) \<longrightarrow> body_valid S end body"
    by (force simp: bodies_valid_def list_all_iff)
  then show ?thesis using ok sm_ok_get [of S "end" "snd (sm_run evs (schro_init mb hr mode))"]
    by (fastforce simp: sm_ok_def body_valid_def)
qed

lemma toy_mailbox_ok: "dm_ok toy_sodium 0 (dm_init (Some []))"
  by (simp add: dm_ok_def dm_init_def store_ok_def quota_ok_def fetches_ok_def ms.bounded_def ms.all_entries_def
      ms_topics_def ms_get_def)

theorem schro_invariant_witness:
  "buffer_ok toy_sodium (sm_router (snd (sm_run [(toy_dm_env, EvConnect ''p''), (toy_dm_env, EvResume 0 (\<lambda>_. []))]
     (schro_init (dm_init (Some [])) hint_router_init Adaptive)))) \<and>
   jm_get (sm_tasks (snd (sm_run [(toy_dm_env, EvConnect ''p''), (toy_dm_env, EvResume 0 (\<lambda>_. []))]
     (schro_init (dm_init (Some [])) hint_router_init Adaptive)))) 0 = Some (Backlog ''p'' 200 [] 0)"
proof -
  have "jm_get (sm_tasks (snd (sm_run [(toy_dm_env, EvConnect ''p''), (toy_dm_env, EvResume 0 (\<lambda>_. []))]
     (schro_init (dm_init (Some [])) hint_router_init Adaptive)))) 0 = Some (Backlog ''p'' 200 [] 0)"
    by (simp add: schro_init_def schro_connect_def sendBacklogTo_def spawn_def wait_for_def storedKeys_def onSlotStored_def
        dm_init_def ms_topics_def BACKLOG_LIMIT_def)
  then show ?thesis
    using schro_invariant [OF toy_mailbox_ok hint_router_init_ok, of "[(toy_dm_env, EvConnect ''p''), (toy_dm_env, EvResume 0 (\<lambda>_. []))]" 0 Adaptive]
    by (simp add: toy_dm_env_def)
qed

subsection \<open>The backlog\<close>

text \<open>The hints kept under some keys, in order.\<close>

definition kept_hints :: "mailbox \<Rightarrow> string list \<Rightarrow> hint list" where
  "kept_hints mb ks = concat (map (\<lambda>k. List.map_filter extractHint (stored k mb)) ks)"

lemma kept_hints_simps [simp]:
  "kept_hints mb [] = []"
  "kept_hints mb (k # ks) = List.map_filter extractHint (stored k mb) @ kept_hints mb ks"
  by (simp_all add: kept_hints_def)

abbreviation sends :: "hint_peer list \<Rightarrow> peer_id \<Rightarrow> hint list \<Rightarrow> hint_effect list" where
  "sends peers p hs \<equiv> concat (map (sendTo peers p) hs)"

lemma backlog_entries_take:
  "sent \<le> limit \<Longrightarrow>
     backlog_entries peers p limit es sent =
       (sends peers p (take (limit - sent) (List.map_filter extractHint es)),
        sent + min (limit - sent) (length (List.map_filter extractHint es)))"
proof (induction peers p limit es sent rule: backlog_entries.induct)
  case (2 peers p limit entry es sent)
  show ?case
  proof (cases "sent \<ge> limit")
    case False
    then have "limit - sent = Suc (limit - Suc sent)" by simp
    then show ?thesis using 2 False by (auto simp: List.map_filter_simps split: option.split)
  qed (use 2 in simp)
qed (simp add: List.map_filter_simps)

lemma sm_run_step:
  "sm_exec e ev s = (fx, s1) \<Longrightarrow> sm_run ((e, ev) # evs) s = (fx @ fst (sm_run evs s1), snd (sm_run evs s1))"
  by (simp add: split_def Let_def)

lemma resume_none: "jm_get (sm_tasks s) i = None \<Longrightarrow> sm_run (replicate n (e, EvResume i ids)) s = ([], s)"
  by (induction n) simp_all

lemma backlog_run:
  "jm_get (sm_tasks s) i = Some (Backlog p limit ks sent) \<Longrightarrow> sent \<le> limit \<Longrightarrow>
     fst (sm_run (replicate (Suc (length ks)) (e, EvResume i ids)) s) =
       map SmHint (sends (hint_peers e) p (take (limit - sent) (kept_hints (sm_mailbox s) ks))) \<and>
     jm_get (sm_tasks (snd (sm_run (replicate (Suc (length ks)) (e, EvResume i ids)) s))) i = None"
proof (induction ks arbitrary: s sent)
  case (Cons k ks)
  let ?hs = "List.map_filter extractHint (stored k (sm_mailbox s))"
  show ?case
  proof (cases "sent \<ge> limit")
    case True
    have "jm_get (sm_tasks (finish i s)) i = None" by (simp add: finish_def)
    from resume_none [OF this, of "Suc (length ks)" e ids] show ?thesis using Cons.prems True by (simp add: finish_def)
  next
    case False
    define n where "n = sent + min (limit - sent) (length ?hs)"
    let ?s = "wait_for i (Backlog p limit ks n) s"
    have g: "jm_get (sm_tasks ?s) i = Some (Backlog p limit ks n)" and le: "n \<le> limit" and mb: "sm_mailbox ?s = sm_mailbox s"
      using Cons.prems False by (simp_all add: wait_for_def n_def)
    have rest: "limit - n = limit - sent - length ?hs" by (simp add: n_def)
    have "sm_exec e (EvResume i ids) s = (map SmHint (sends (hint_peers e) p (take (limit - sent) ?hs)), ?s)"
      using Cons.prems False backlog_entries_take [OF Cons.prems(2), of "hint_peers e" p "stored k (sm_mailbox s)"]
      by (simp add: n_def)
    note sm_run_step [OF this, of "replicate (Suc (length ks)) (e, EvResume i ids)"]
    then have "sm_run (replicate (Suc (length (k # ks))) (e, EvResume i ids)) s =
        (map SmHint (sends (hint_peers e) p (take (limit - sent) ?hs)) @ fst (sm_run (replicate (Suc (length ks)) (e, EvResume i ids)) ?s),
         snd (sm_run (replicate (Suc (length ks)) (e, EvResume i ids)) ?s))"
      by (simp only: replicate_Suc length_Cons)
    then show ?thesis using Cons.IH [OF g le] by (simp only: fst_conv snd_conv mb rest kept_hints_simps take_append map_append concat_append)
  qed
qed (simp add: finish_def)

text \<open>A new neighbour gets the hints the node keeps, without asking: the first 200 of them, in the order of the
  store, and nothing else; a neighbour that is not connected and verified gets none. What is sent depends only on
  what is kept: no key the node holds and no board it reads has an influence.\<close>

theorem backlog_sends_first_hints:
  assumes "sm_onConnect s" "p \<noteq> []"
  shows "fst (sm_run ((e, EvConnect p) # replicate (Suc (Suc (length (storedKeys (sm_mailbox s))))) (e, EvResume (sm_seq s) ids)) s) =
    map SmHint (sends (hint_peers e) p (take 200 (kept_hints (sm_mailbox s) (storedKeys (sm_mailbox s)))))"
proof -
  let ?s = "sendBacklogTo p BACKLOG_LIMIT s" and ?ks = "storedKeys (sm_mailbox s)"
  let ?t = "wait_for (sm_seq s) (Backlog p BACKLOG_LIMIT ?ks 0) ?s"
  have t: "jm_get (sm_tasks ?t) (sm_seq s) = Some (Backlog p BACKLOG_LIMIT ?ks 0)" "sm_mailbox ?t = sm_mailbox s"
    by (simp_all add: wait_for_def sendBacklogTo_def spawn_def)
  have "jm_get (sm_tasks ?s) (sm_seq s) = Some (BacklogKeys p BACKLOG_LIMIT)" "sm_mailbox ?s = sm_mailbox s"
    by (simp_all add: sendBacklogTo_def spawn_def)
  then have x: "sm_exec e (EvResume (sm_seq s) ids) ?s = ([], ?t)" by simp
  have "sm_exec e (EvConnect p) s = ([], ?s)" using assms by (simp add: schro_connect_def)
  from sm_run_step [OF this] sm_run_step [OF x, of "replicate (Suc (length ?ks)) (e, EvResume (sm_seq s) ids)"]
  have "fst (sm_run ((e, EvConnect p) # replicate (Suc (Suc (length ?ks))) (e, EvResume (sm_seq s) ids)) s) =
      fst (sm_run (replicate (Suc (length ?ks)) (e, EvResume (sm_seq s) ids)) ?t)"
    by (simp only: replicate_Suc fst_conv append_Nil)
  then show ?thesis using backlog_run [OF t(1), of e ids] t(2) by (simp only: BACKLOG_LIMIT_def diff_zero simp_thms)
qed

subsection \<open>When a hint is flooded again\<close>

lemma isDueNow_iff:
  assumes "parse_int16 (take 8 key) = Some n"
  shows "isDueNow key t \<longleftrightarrow> (t - n mod 1200000) mod 1200000 < 60000"
proof -
  let ?x = "t - n mod 1200000"
  have "t - (?x div 1200000 * 1200000 + n mod 1200000) = ?x mod 1200000"
    by (simp add: minus_div_mult_eq_mod [symmetric])
  then show ?thesis using assms by (simp add: isDueNow_def)
qed

lemma due_tick: "(x :: int) mod 1200000 < 60000 \<longleftrightarrow> (x div 60000) mod 20 = 0"
proof -
  have "x mod 1200000 = 60000 * (x div 60000 mod 20) + x mod 60000" using zmod_zmult2_eq [of 20 x 60000] by simp
  moreover have "0 \<le> x mod 60000" "x mod 60000 < 60000" "0 \<le> x div 60000 mod 20" by simp_all
  ultimately show ?thesis by linarith
qed

lemma due_distance:
  fixes a b :: int
  assumes "a mod 1200000 < 60000" "b mod 1200000 < 60000" "a \<le> b"
  shows "b - a < 60000 \<or> 1140000 < b - a"
proof -
  define q r q' r' where "q = a div 1200000" and "r = a mod 1200000" and "q' = b div 1200000" and "r' = b mod 1200000"
  have "a = 1200000 * q + r" "b = 1200000 * q' + r'" "q \<le> q'" "0 \<le> r" "0 \<le> r'"
    using assms(3) by (simp_all add: q_def r_def q'_def r'_def zdiv_mono1)
  moreover have "r < 60000" "r' < 60000" using assms(1,2) by (simp_all add: r_def r'_def)
  ultimately show ?thesis by (cases "q = q'") linarith+
qed

text \<open>Of any twenty consecutive ticks of a holder, a minute apart, exactly one floods a given slot's hint again;
  and whatever their clocks' phases, two holders that do so are either within a minute of each other, where the
  receivers' caches fold their floods into one, or more than nineteen minutes apart, beyond the caches' lifetime.\<close>

theorem reflood_schedule:
  assumes "parse_int16 (take 8 key) = Some n"
  shows "(\<exists>!i. i < 20 \<and> isDueNow key (t + int i * REFLOOD_TICK_MS)) \<and>
    (isDueNow key t1 \<and> isDueNow key t2 \<and> t1 \<le> t2 \<longrightarrow>
       t2 - t1 < REFLOOD_TICK_MS \<and> t2 - t1 < SEEN_TTL_MS \<or>
       REFLOOD_PERIOD_MS - REFLOOD_TICK_MS < t2 - t1 \<and> SEEN_TTL_MS < t2 - t1)"
proof (intro conjI impI)
  define a where "a = t - n mod 1200000"
  have due: "isDueNow key (t + int i * 60000) \<longleftrightarrow> (a div 60000 + int i) mod 20 = 0" for i
  proof -
    have x: "t + int i * 60000 - n mod 1200000 = a + int i * 60000" by (simp add: a_def)
    have "isDueNow key (t + int i * 60000) \<longleftrightarrow> (a + int i * 60000) mod 1200000 < 60000"
      by (simp only: isDueNow_iff [OF assms] x)
    also have "\<dots> \<longleftrightarrow> (a div 60000 + int i) mod 20 = 0" unfolding due_tick by (simp add: add.commute)
    finally show ?thesis .
  qed
  define q where "q = a div 60000"
  have "\<exists>!i. i < (20 :: nat) \<and> (q + int i) mod 20 = 0"
  proof (rule ex1I [of _ "nat ((- q) mod 20)"])
    show "nat (- q mod 20) < 20 \<and> (q + int (nat (- q mod 20))) mod 20 = 0"
      by (auto simp: nat_less_iff mod_add_right_eq)
  next
    fix i :: nat assume i: "i < 20 \<and> (q + int i) mod 20 = 0"
    then have "20 dvd int i - (- q)" by (simp add: mod_eq_0_iff_dvd add.commute)
    then have "int i mod 20 = - q mod 20" by (simp only: mod_eq_dvd_iff)
    moreover have "int i mod 20 = int i" using i by simp
    ultimately have "int i = - q mod 20" by simp
    then show "i = nat (- q mod 20)" by linarith
  qed
  then show "\<exists>!i. i < 20 \<and> isDueNow key (t + int i * REFLOOD_TICK_MS)" by (simp add: due q_def)
next
  assume d: "isDueNow key t1 \<and> isDueNow key t2 \<and> t1 \<le> t2"
  define a b where "a = t1 - n mod 1200000" and "b = t2 - n mod 1200000"
  have "a mod 1200000 < 60000" "b mod 1200000 < 60000" "a \<le> b"
    using d isDueNow_iff [OF assms] by (simp_all add: a_def b_def)
  then have "b - a < 60000 \<or> 1140000 < b - a" by (rule due_distance)
  then show "t2 - t1 < REFLOOD_TICK_MS \<and> t2 - t1 < SEEN_TTL_MS \<or>
       REFLOOD_PERIOD_MS - REFLOOD_TICK_MS < t2 - t1 \<and> SEEN_TTL_MS < t2 - t1"
    by (auto simp: a_def b_def SEEN_TTL_MS_def)
qed

text \<open>The period is longer than the lifetime of a cache entry, but entries are only removed by a sweep every five
  minutes: a receiver may remember a hint for up to twenty. Two holders flood a slot's hint again in neighbouring
  windows, more than nineteen minutes apart, and a node swept every five minutes in between drops the second flood.\<close>

theorem late_sweep_drops_reflood:
  "isDueNow (replicate 64 (CHR ''0'')) 59000 \<and> isDueNow (replicate 64 (CHR ''0'')) 1205000 \<and>
   (let i = hid S h;
        after_first = snd (hint_flood S 59000 peers h x (hint_router_init\<lparr>hr_flooded := []\<rparr>));
        swept = after_first\<lparr>hr_flooded := fold seen_cleanup [310000, 610000, 910000] (hr_flooded after_first)\<rparr> in
    seen_has (hr_flooded swept) i \<and> SEEN_TTL_MS < 1205000 - 59000 \<and> fst (hint_flood S 1205000 peers h y swept) = [])"
proof -
  have p: "parse_int16 (take 8 (replicate 64 (CHR ''0''))) = Some 0" by code_simp
  show ?thesis
    by (simp add: isDueNow_iff [OF p] Let_def hint_flood_def hint_router_init_def seen_has_def seen_add_def jm_has_def
        seen_cleanup_def SEEN_TTL_MS_def SEEN_MAX_SIZE_def)
qed

subsection \<open>From a hint to its body\<close>

text \<open>Effects that are for others.\<close>

fun others_effect :: "hint_effect \<Rightarrow> bool" where
  "others_effect (HintOpened l oh) \<longleftrightarrow> l \<noteq> SCHRO"
| "others_effect (AnyHint l) \<longleftrightarrow> l \<noteq> SCHRO"
| "others_effect _ \<longleftrightarrow> True"

definition same_but_release :: "schro \<Rightarrow> schro \<Rightarrow> bool" where
  "same_but_release s s' \<longleftrightarrow> (\<exists>r. s' = s\<lparr>sm_release := r\<rparr>)"

lemma same_but_release_refl [simp]: "same_but_release s s"
  unfolding same_but_release_def by (rule exI [of _ "sm_release s"]) simp

lemma hint_reports_append:
  "hint_reports e (fx @ gx) s =
     (let (a, s1) = hint_reports e fx s; (b, s2) = hint_reports e gx s1 in (a @ b, s2))"
  by (induction e fx s rule: hint_reports.induct) (auto split: prod.splits)

lemma hint_reports_quiet:
  "\<forall>l oh. HintOpened l oh \<in> set fx \<longrightarrow> l \<noteq> SCHRO \<Longrightarrow>
     fst (hint_reports e fx s) = map SmHint (filter others_effect fx) \<and> same_but_release s (snd (hint_reports e fx s))"
proof (induction e fx s rule: hint_reports.induct)
  case (3 e l fx s)
  then show ?case by (auto simp: same_but_release_def split_def Let_def)
qed (auto simp: split_def Let_def)

lemma remember_keeps [simp]:
  "hr_delivered (remember S h s) = hr_delivered s" "hr_keys (remember S h s) = hr_keys s"
  "hr_listeners (remember S h s) = hr_listeners s"
  by (simp_all add: remember_def Let_def)

text \<open>A new hint that a held key opens leads to the local entries kept under its slot's key: the first that is a
  slot is handed to the listeners.\<close>

lemma opened_hint_delivers:
  assumes msg: "parseHintPacket msg = Some h" "verifyHintPow (de_S e) h HINT_POW_DIFFICULTY"
    and new: "\<not> seen_has (hr_received (sm_router s)) (hid (de_S e) h)" "\<not> seen_has (hr_delivered (sm_router s)) (hid (de_S e) h)"
    and key: "try_keys (de_S e) h (hr_keys (sm_router s)) = Inr (Some (keyId, p))" "length (hp_nonce p) = 32"
    and listens: "hr_listeners (sm_router s) = [SCHRO]"
    and body: "first_blob (stored (toHex (sha256 (de_S e) (hp_nonce p))) (sm_mailbox s)) = Some body"
  shows "\<exists>fx. fst (sm_run [(e, EvHint q msg), (e1, EvResume (sm_seq s) ids1), (e2, EvResume (sm_seq s) ids2)] s) =
    map SmHint fx @ map (\<lambda>cb. BodyCall cb body \<lparr>oh_payload = p, oh_keyId = keyId, oh_packet = h\<rparr>) (sm_bodyListeners s)"
proof -
  define S where "S = de_S e"
  let ?oh = "\<lparr>oh_payload = p, oh_keyId = keyId, oh_packet = h\<rparr>" and ?i = "hid S h"
  obtain e1' s1 where echo: "hint_echo ?i (sm_router s) = (e1', s1)" by force
  have s1: "hr_received s1 = hr_received (sm_router s)" "hr_delivered s1 = hr_delivered (sm_router s)"
      "hr_keys s1 = hr_keys (sm_router s)" "hr_listeners s1 = hr_listeners (sm_router s)"
      "hr_anyListeners s1 = hr_anyListeners (sm_router s)" "\<forall>l oh. HintOpened l oh \<notin> set e1'"
    using echo by (auto simp: hint_echo_def split: prod.splits)
  define s2 where "s2 = s1\<lparr>hr_received := seen_add (de_now e) ?i (hr_received s1)\<rparr>"
  define s3 where "s3 = (remember S h s2)\<lparr>hr_delivered := seen_add (de_now e) ?i (hr_delivered s2)\<rparr>"
  have op: "tryOpen S (de_now e) h ?i (remember S h s2) = (Inr True, [HintOpened SCHRO ?oh], s3)"
    using new(2) key(1) listens s1 by (simp add: tryOpen_def s3_def s2_def S_def)
  obtain fl s4 where fl: "hint_flood S (de_now e) (hint_peers e) h q s3 = (fl, s4)" by force
  have nofl: "\<forall>l oh. HintOpened l oh \<notin> set fl" using fl by (auto simp: hint_flood_def Let_def split: if_splits)
  have oaf: "open_and_flood S (de_now e) (hint_peers e) h q s2 = ([HintOpened SCHRO ?oh] @ fl, s4)"
    using op fl by (simp add: open_and_flood_def)
  have nr: "\<not> seen_has (hr_received s1) ?i" using new(1) s1(1) by (simp add: S_def)
  have "handleHint S (de_now e) (hint_peers e) q msg (sm_router s) =
      ((e1' @ map AnyHint (hr_anyListeners s2)) @ [HintOpened SCHRO ?oh] @ fl, s4)"
    using msg nr by (simp add: handleHint_def echo oaf S_def [symmetric] s2_def [symmetric] Let_def)
  moreover define pre where "pre = e1' @ map AnyHint (hr_anyListeners s2)"
  ultimately have hh: "handleHint S (de_now e) (hint_peers e) q msg (sm_router s) = (pre @ [HintOpened SCHRO ?oh] @ fl, s4)"
    by simp
  let ?t = "s\<lparr>sm_router := s4\<rparr>"
  have "\<forall>l oh. HintOpened l oh \<in> set pre \<longrightarrow> l \<noteq> SCHRO" using s1(6) by (auto simp: pre_def)
  from hint_reports_quiet [OF this, of e ?t] obtain r where
    r: "fst (hint_reports e pre ?t) = map SmHint (filter others_effect pre)" "snd (hint_reports e pre ?t) = ?t\<lparr>sm_release := r\<rparr>"
    by (auto simp: same_but_release_def)
  let ?k = "toHex (sha256 S (hp_nonce p))"
  let ?u = "spawn (FetchLocal ?oh ?k) (?t\<lparr>sm_release := r\<rparr>)"
  have u: "onOpened S ?oh (?t\<lparr>sm_release := r\<rparr>) = ?u" using key(2) by (simp add: onOpened_def mailboxKeyFromNonce_def)
  have "\<forall>l oh. HintOpened l oh \<in> set fl \<longrightarrow> l \<noteq> SCHRO" using nofl by auto
  from hint_reports_quiet [OF this, of e ?u] obtain r' where
    r': "fst (hint_reports e fl ?u) = map SmHint (filter others_effect fl)" "snd (hint_reports e fl ?u) = ?u\<lparr>sm_release := r'\<rparr>"
    by (auto simp: same_but_release_def)
  let ?v = "?u\<lparr>sm_release := r'\<rparr>"
  have x1: "sm_exec e (EvHint q msg) s = (map SmHint (filter others_effect pre @ filter others_effect fl), ?v)"
    using r r' u hh by (simp add: S_def [symmetric] hint_reports_append split_def Let_def)
  have x2: "sm_exec e1 (EvResume (sm_seq s) ids1) ?v = ([], wait_for (sm_seq s) (Deliver ?oh body) ?v)"
    using body by (simp add: spawn_def S_def)
  have x3: "sm_exec e2 (EvResume (sm_seq s) ids2) (wait_for (sm_seq s) (Deliver ?oh body) ?v) =
      (map (\<lambda>cb. BodyCall cb body ?oh) (sm_bodyListeners s), finish (sm_seq s) (wait_for (sm_seq s) (Deliver ?oh body) ?v))"
    by (simp add: wait_for_def spawn_def)
  show ?thesis
    by (intro exI [of _ "filter others_effect pre @ filter others_effect fl"])
      (simp only: sm_run_step [OF x1] sm_run_step [OF x2] sm_run_step [OF x3] sm_run.simps(1) fst_conv append_Nil append_Nil2)
qed

lemma prepareSlot_Inr:
  assumes "prepareSlot S nonce hintNonce now k messageId = Inr slot"
  shows "length nonce = 32 \<and> sl_keyHex slot = toHex (sha256 S nonce) \<and> sl_exitTopic slot = sl_keyHex slot \<and>
    sl_exitHint slot = encodeHint (sl_hint slot) \<and>
    buildHint S k \<lparr>hp_nonce = nonce, hp_message_id = messageId, hp_timestamp = roundToMinute now\<rparr> hintNonce = Inr (sl_hint slot)"
  using assms by (auto simp: prepareSlot_def newMailboxSlot_def mailboxKeyFromNonce_def rbind_Inr_iff Let_def split: if_splits)

lemma verifyHintPow_ttl: "verifyHintPow S (h\<lparr>hn_ttl := t\<rparr>) d = verifyHintPow S h d"
  by (simp add: verifyHintPow_def cong: if_cong sum.case_cong)

lemma decodeHint_parse: "decodeHint bs = Some h \<Longrightarrow> \<exists>msg. parseHintPacket msg = Some h"
  by (auto simp: decodeHint_def Let_def split: if_splits)


text \<open>The key of a slot says nothing of its contents. It is the hash of a random nonce, and every node near the
  topic learns it: whoever puts another valid entry there first, with any hint, has its text handed to the readers
  of the genuine hint, in place of the post.\<close>

theorem slot_content_unbound:
  assumes "parseHintPacket msg = Some h" "verifyHintPow (de_S e) h HINT_POW_DIFFICULTY"
    "\<not> seen_has (hr_received (sm_router s)) (hid (de_S e) h)" "\<not> seen_has (hr_delivered (sm_router s)) (hid (de_S e) h)"
    "openHint (de_S e) k h = Inr (Some p)" "hr_keys (sm_router s) = [(keyId, k)]" "length (hp_nonce p) = 32"
    "hr_listeners (sm_router s) = [SCHRO]" "hint_ok g"
    "stored (toHex (sha256 (de_S e) (hp_nonce p))) (sm_mailbox s) = encodeSlotBlob g other # encodeSlotBlob h text # rest"
  shows "\<exists>fx. fst (sm_run [(e, EvHint q msg), (e1, EvResume (sm_seq s) ids1), (e2, EvResume (sm_seq s) ids2)] s) =
    map SmHint fx @ map (\<lambda>cb. BodyCall cb other \<lparr>oh_payload = p, oh_keyId = keyId, oh_packet = h\<rparr>) (sm_bodyListeners s)"
proof -
  have key: "try_keys (de_S e) h (hr_keys (sm_router s)) = Inr (Some (keyId, p))" by (simp add: assms(5,6))
  have "decodeSlotBlob (encodeSlotBlob g other) = Some (g, other)" using assms(9) by (simp add: slot_blob_canonical)
  then have "first_blob (stored (toHex (sha256 (de_S e) (hp_nonce p))) (sm_mailbox s)) = Some other" by (simp add: assms(10))
  from opened_hint_delivers [OF assms(1-4) key assms(7,8) this] show ?thesis .
qed

subsection \<open>A reader's node\<close>

definition toy_reader :: "string \<Rightarrow> bytes list \<Rightarrow> schro" where
  "toy_reader topic es =
     (schro_init (dm_init (Some [(topic, es, 0)])) (hint_router_init\<lparr>hr_keys := [(''board'', replicate 32 1)]\<rparr>) Adaptive)
       \<lparr>sm_bodyListeners := [7]\<rparr>"

lemma toy_reader_facts:
  "hr_keys (sm_router (toy_reader topic es)) = [(''board'', replicate 32 1)]" "hr_listeners (sm_router (toy_reader topic es)) = [SCHRO]"
  "hr_received (sm_router (toy_reader topic es)) = []" "hr_delivered (sm_router (toy_reader topic es)) = []"
  "sm_bodyListeners (toy_reader topic es) = [7]" "sm_seq (toy_reader topic es) = 0"
  "is_topic_hash topic \<Longrightarrow> stored topic (sm_mailbox (toy_reader topic es)) = es"
  by (simp_all add: toy_reader_def schro_init_def hint_router_init_def onHint_def onAnyHint_def dm_init_def onSlotStored_def
      stored_def ms_get_def)

lemma toy_topic: "is_topic_hash (toHex (sha256 toy_sodium m))"
  using hex_re_toHex [of "sha256 toy_sodium m"] by (simp add: is_topic_hash_def sha256_lawD)

lemma toy_slot: "\<exists>slot. prepareSlot toy_sodium (replicate 32 5) (replicate 12 2) 90000 (replicate 32 1) 77 = Inr slot"
proof -
  let ?p = "\<lparr>hp_nonce = replicate 32 5, hp_message_id = 77, hp_timestamp = 60000\<rparr>"
  have "\<exists>bs. encodeHintPayload ?p = Inr bs" by (simp add: encodeHintPayload_def max_safe_def)
  then obtain h where "buildHint toy_sodium (replicate 32 1) ?p (replicate 12 2) = Inr h" using toy_buildHint_of by blast
  moreover have "roundToMinute 90000 = 60000" by (simp add: roundToMinute_def)
  ultimately show ?thesis by (simp add: prepareSlot_def newMailboxSlot_def mailboxKeyFromNonce_def Let_def)
qed

lemma toy_slot_hint:
  assumes "prepareSlot toy_sodium (replicate 32 5) (replicate 12 2) 90000 (replicate 32 1) 77 = Inr slot"
  shows "decodeHint (sl_exitHint slot) = Some (sl_hint slot)" "\<exists>msg. parseHintPacket msg = Some ((sl_hint slot)\<lparr>hn_ttl := 3\<rparr>)"
proof -
  note b = prepareSlot_Inr [OF assms, THEN conjunct2, THEN conjunct2, THEN conjunct2, THEN conjunct2]
  have ok: "hint_ok (sl_hint slot)" by (rule buildHint_ok [OF _ _ b]) simp_all
  then show "decodeHint (sl_exitHint slot) = Some (sl_hint slot)" using decodeHint_encodeHint prepareSlot_Inr [OF assms] by simp
  have "hint_ok ((sl_hint slot)\<lparr>hn_ttl := 3\<rparr>)" using ok by (simp add: hint_ok_def)
  from decodeHint_parse [OF decodeHint_encodeHint [OF this]] show "\<exists>msg. parseHintPacket msg = Some ((sl_hint slot)\<lparr>hn_ttl := 3\<rparr>)" .
qed


theorem slot_content_unbound_witness:
  "\<exists>s msg oh. BodyCall 7 [6, 6, 6] oh \<in>
     set (fst (sm_run [(toy_dm_env, EvHint ''n'' msg), (toy_dm_env, EvResume 0 (\<lambda>_. [])), (toy_dm_env, EvResume 0 (\<lambda>_. []))] s))"
proof -
  obtain slot where slot: "prepareSlot toy_sodium (replicate 32 5) (replicate 12 2) 90000 (replicate 32 1) 77 = Inr slot"
    using toy_slot by blast
  note b = prepareSlot_Inr [OF slot, THEN conjunct2, THEN conjunct2, THEN conjunct2, THEN conjunct2]
  let ?h = "(sl_hint slot)\<lparr>hn_ttl := 3\<rparr>"
  obtain msg where msg: "parseHintPacket msg = Some ?h" using toy_slot_hint [OF slot] by blast
  have pow: "verifyHintPow toy_sodium ?h HINT_POW_DIFFICULTY" using buildHint_opens [OF toy_laws(4) b] by (simp add: verifyHintPow_ttl)
  obtain p where p: "openHint toy_sodium (replicate 32 1) ?h = Inr (Some p)" "hp_nonce p = replicate 32 5"
    using buildHint_opens [OF toy_laws(4) b] by simp
  let ?es = "encodeSlotBlob toy_hint [6, 6, 6] # encodeSlotBlob ?h [1, 2, 3] # []"
  let ?s = "toy_reader (toHex (sha256 toy_sodium (hp_nonce p))) ?es"
  have S: "de_S toy_dm_env = toy_sodium" by (simp add: toy_dm_env_def)
  have st: "stored (toHex (sha256 toy_sodium (hp_nonce p))) (sm_mailbox ?s) = ?es" by (rule toy_reader_facts(7) [OF toy_topic])
  have "hint_ok toy_hint" by (simp add: hint_ok_def toy_hint_def max_safe_def)
  note r = slot_content_unbound [where e = toy_dm_env and ?e1.0 = toy_dm_env and ?e2.0 = toy_dm_env, unfolded S,
      OF msg pow _ _ p(1) _ _ _ this st, of "''board''" "''n''" "\<lambda>_. []" "\<lambda>_. []", unfolded toy_reader_facts]
  let ?evs = "[(toy_dm_env, EvHint ''n'' msg), (toy_dm_env, EvResume 0 (\<lambda>_. [])), (toy_dm_env, EvResume 0 (\<lambda>_. []))]"
  obtain fx where r: "fst (sm_run ?evs ?s) =
      map SmHint fx @ map (\<lambda>cb. BodyCall cb [6, 6, 6] \<lparr>oh_payload = p, oh_keyId = ''board'', oh_packet = ?h\<rparr>) [7]"
    using r p(2) by (auto simp: seen_has_def)
  have "BodyCall 7 [6, 6, 6] \<lparr>oh_payload = p, oh_keyId = ''board'', oh_packet = ?h\<rparr> \<in> set (fst (sm_run ?evs ?s))"
    unfolding r by simp
  then show ?thesis by blast
qed

theorem reflood_schedule_witness:
  "\<exists>i < 20. isDueNow (replicate 64 (CHR ''1'')) (5 + int i * 60000)"
proof -
  have "parse_int16 (take 8 (replicate 64 (CHR ''1''))) = Some 286331153" by code_simp
  from conjunct1 [OF reflood_schedule [OF this, of 5]] show ?thesis unfolding REFLOOD_TICK_MS_def by simp blast
qed

theorem backlog_sends_first_hints_witness:
  "fst (sm_run ((toy_dm_env, EvConnect ''p'') # replicate 3 (toy_dm_env, EvResume 0 (\<lambda>_. [])))
      (toy_reader (toHex (replicate 32 4)) [encodeSlotBlob toy_hint [1]])) = []"
proof -
  let ?s = "toy_reader (toHex (replicate 32 4)) [encodeSlotBlob toy_hint [1]]"
  have k: "storedKeys (sm_mailbox ?s) = [toHex (replicate 32 4)]"
    by (simp add: toy_reader_def schro_init_def dm_init_def onSlotStored_def storedKeys_def ms_topics_def)
  have "sendTo (hint_peers toy_dm_env) ''p'' h = []" for h by (simp add: sendTo_def hint_peers_def toy_dm_env_def pm_init_def)
  then have "sends (hint_peers toy_dm_env) ''p'' hs = []" for hs by simp
  then show ?thesis
    using backlog_sends_first_hints [of ?s "''p''" toy_dm_env "\<lambda>_. []"] unfolding k toy_reader_facts
    by (simp add: toy_reader_def schro_init_def numeral_3_eq_3 del: sm_run.simps)
qed

end
