(* ===== verification/ThreadDAG.thy ===== *)
theory ThreadDAG
  imports JsPrim "HOL-Library.Sorting_Algorithms" "HOL-Library.Countable"
begin

text \<open>
  \<open>packages/core/src/logic/ThreadDAGManager.ts\<close>: the posts of a thread as a graph of causes, and the order
  they are shown in. Posts come from other authors: the fields this file looks into (\<open>parents\<close>,
  \<open>created_at\<close>, \<open>cumulative_pow\<close>) are untyped values. Only the packet identifier is a string, because
  packets are checked before they get here.

  \<open>localeCompare\<close> depends on the host's locale. The language asks for a consistent comparator, so it is an
  argument of the type of comparators of \<open>HOL-Library.Sorting_Algorithms\<close>, whose stable \<open>sort\<close> is what
  \<open>Array.prototype.sort\<close> has to compute with it.

  The lemmas characterise the order independently of the way it is computed (\<open>greedy\<close>), so that it is the
  same on every node that has the same posts.
\<close>

record dag_post =
  dp_id :: string
  dp_thread :: jsval
  dp_created :: jsval
  dp_parents :: jsval
  dp_pow :: jsval
  dp_rest :: "(string \<times> jsval) list"

record thread_dag =
  dg_nodes :: "(string, dag_post) jsmap"
  dg_threadId :: string

record dag_env =
  da_fmt :: "rat \<Rightarrow> string"
  da_coll :: "string comparator"
  da_anySort :: "string list \<Rightarrow> string list res"

definition dag_new :: "string \<Rightarrow> thread_dag" where
  "dag_new threadId = \<lparr>dg_nodes = [], dg_threadId = threadId\<rparr>"

definition addPost :: "dag_post \<Rightarrow> thread_dag \<Rightarrow> bool \<times> thread_dag" where
  "addPost post s =
     (if jm_has (dg_nodes s) (dp_id post) then (False, s)
      else if dp_thread post \<noteq> JStr (dg_threadId s) then (False, s)
      else (True, s\<lparr>dg_nodes := jm_set (dp_id post) post (dg_nodes s)\<rparr>))"

subsection \<open>The displayed order\<close>

text \<open>\<open>node.parents.filter(...)\<close>: a byte array has a \<open>filter\<close> too, and no number is a node; anything else
  has none, and the call throws.\<close>

definition validParents :: "(string, dag_post) jsmap \<Rightarrow> jsval \<Rightarrow> string list res" where
  "validParents nodes parents =
     (case parents of
        JArr vs \<Rightarrow> Inr (concat (map (\<lambda>v. case v of JStr p \<Rightarrow> if jm_has nodes p then [p] else [] | _ \<Rightarrow> []) vs))
      | JBytes _ \<Rightarrow> Inr []
      | _ \<Rightarrow> Inl TypeError)"

type_synonym dag_index = "(string, int) jsmap \<times> (string, string list) jsmap"

definition add_child :: "string \<Rightarrow> string \<Rightarrow> (string, string list) jsmap \<Rightarrow> (string, string list) jsmap" where
  "add_child c p m = jm_set p ((case jm_get m p of None \<Rightarrow> [] | Some cs \<Rightarrow> cs) @ [c]) m"

fun index_nodes :: "(string, dag_post) jsmap \<Rightarrow> dag_post list \<Rightarrow> dag_index \<Rightarrow> dag_index res" where
  "index_nodes nodes [] ix = Inr ix"
| "index_nodes nodes (n # ns) ix =
     rbind (validParents nodes (dp_parents n)) (\<lambda>ps.
       index_nodes nodes ns
         (jm_set (dp_id n) (int (length ps)) (fst ix), fold (add_child (dp_id n)) ps (snd ix)))"

text \<open>\<open>padStart(15, '0')\<close> of the time, then the identifier.\<close>

definition tie_text :: "string \<Rightarrow> string \<Rightarrow> string" where
  "tie_text t i = replicate (15 - length t) (CHR ''0'') @ t @ ''_'' @ i"

definition tieBreaker :: "dag_env \<Rightarrow> (string, dag_post) jsmap \<Rightarrow> string \<Rightarrow> string res" where
  "tieBreaker e nodes i =
     (case jm_get nodes i of
        None \<Rightarrow> Inl TypeError
      | Some n \<Rightarrow> rbind (js_text (da_fmt e) (dp_created n)) (\<lambda>t. Inr (tie_text t (dp_id n))))"

definition tie_key :: "dag_env \<Rightarrow> (string, dag_post) jsmap \<Rightarrow> string \<Rightarrow> string" where
  "tie_key e nodes i = (case tieBreaker e nodes i of Inr k \<Rightarrow> k | Inl _ \<Rightarrow> [])"

definition tie_cmp :: "dag_env \<Rightarrow> (string, dag_post) jsmap \<Rightarrow> string comparator" where
  "tie_cmp e nodes = key (tie_key e nodes) (da_coll e)"

text \<open>With two or more elements every element is compared, so every key is computed.\<close>

definition sort_ids :: "dag_env \<Rightarrow> (string, dag_post) jsmap \<Rightarrow> string list \<Rightarrow> string list res" where
  "sort_ids e nodes is =
     (if length is \<ge> 2 \<and> (\<exists>i \<in> set is. \<exists>x. tieBreaker e nodes i = Inl x) then Inl TypeError
      else Inr (Sorting_Algorithms.sort (tie_cmp e nodes) is))"

fun relax ::
  "dag_env \<Rightarrow> (string, dag_post) jsmap \<Rightarrow> string list \<Rightarrow> (string, int) jsmap \<Rightarrow> string list \<Rightarrow>
     ((string, int) jsmap \<times> string list) res" where
  "relax e nodes [] deg queue = Inr (deg, queue)"
| "relax e nodes (c # cs) deg queue =
     (let n = (case jm_get deg c of None \<Rightarrow> 0 | Some d \<Rightarrow> d) - 1 in
      if n = 0 then rbind (sort_ids e nodes (queue @ [c])) (\<lambda>q. relax e nodes cs (jm_set c n deg) q)
      else relax e nodes cs (jm_set c n deg) queue)"

lemma rbind_cong [fundef_cong]: "r = r' \<Longrightarrow> (\<And>x. r' = Inr x \<Longrightarrow> f x = g x) \<Longrightarrow> rbind r f = rbind r' g"
  by (cases r') auto

text \<open>What is left to do: a node waits for its parents at most once.\<close>

definition waiting_nodes :: "(string, int) jsmap \<Rightarrow> nat" where
  "waiting_nodes deg = length (filter (\<lambda>(_, d). 1 \<le> d) deg)"

lemma waiting_set_le: "jm_get deg c = Some d \<Longrightarrow> n \<le> d \<Longrightarrow> waiting_nodes (jm_set c n deg) \<le> waiting_nodes deg"
  by (induction deg) (auto simp: waiting_nodes_def split: if_splits)

lemma waiting_set_new: "jm_get deg c = None \<Longrightarrow> n \<le> 0 \<Longrightarrow> waiting_nodes (jm_set c n deg) \<le> waiting_nodes deg"
  by (induction deg) (auto simp: waiting_nodes_def split: if_splits)

lemma waiting_set_zero: "jm_get deg c = Some 1 \<Longrightarrow> waiting_nodes (jm_set c 0 deg) < waiting_nodes deg"
  by (induction deg) (auto simp: waiting_nodes_def split: if_splits)

lemma sort_ids_length: "sort_ids e nodes is = Inr q \<Longrightarrow> length q = length is"
  by (auto simp: sort_ids_def split: if_splits)

lemma relax_measure:
  "relax e nodes cs deg queue = Inr (deg', queue') \<Longrightarrow>
    length queue' + waiting_nodes deg' \<le> length queue + waiting_nodes deg"
proof (induction cs arbitrary: deg queue)
  case (Cons c cs)
  let ?n = "(case jm_get deg c of None \<Rightarrow> 0 | Some d \<Rightarrow> d) - 1"
  show ?case
  proof (cases "?n = 0")
    case True
    then obtain q where q: "sort_ids e nodes (queue @ [c]) = Inr q" "relax e nodes cs (jm_set c 0 deg) q = Inr (deg', queue')"
      using Cons.prems by (auto simp: Let_def rbind_Inr_iff)
    have "jm_get deg c = Some 1" using True by (auto split: option.splits)
    then have "waiting_nodes (jm_set c 0 deg) < waiting_nodes deg" by (rule waiting_set_zero)
    then show ?thesis using Cons.IH [OF q(2)] sort_ids_length [OF q(1)] by simp
  next
    case False
    have "waiting_nodes (jm_set c ?n deg) \<le> waiting_nodes deg"
      using waiting_set_le [of deg c _ ?n] waiting_set_new [of deg c ?n] by (cases "jm_get deg c") auto
    then show ?thesis using Cons.IH [of "jm_set c ?n deg" queue] Cons.prems False by (simp add: Let_def)
  qed
qed simp

function kahn ::
  "dag_env \<Rightarrow> (string, dag_post) jsmap \<Rightarrow> (string, string list) jsmap \<Rightarrow> string list \<Rightarrow> (string, int) jsmap \<Rightarrow> string list res" where
  "kahn e nodes children [] deg = Inr []"
| "kahn e nodes children (i # queue) deg =
     rbind (relax e nodes (case jm_get children i of None \<Rightarrow> [] | Some cs \<Rightarrow> cs) deg queue) (\<lambda>r.
     rbind (kahn e nodes children (snd r) (fst r)) (\<lambda>is. Inr (i # is)))"
  by pat_completeness auto
termination
  by (relation "measure (\<lambda>(e, nodes, ch, queue, deg). length queue + waiting_nodes deg)")
    (auto dest: relax_measure)

definition getSortedPosts :: "dag_env \<Rightarrow> thread_dag \<Rightarrow> dag_post list res" where
  "getSortedPosts e s =
     (let nodes = dg_nodes s; all = map snd nodes in
      if all = [] then Inr []
      else
        rbind (index_nodes nodes all ([], [])) (\<lambda>ix.
        rbind (sort_ids e nodes (map dp_id (filter (\<lambda>n. (case jm_get (fst ix) (dp_id n) of None \<Rightarrow> 0 | Some d \<Rightarrow> d) = 0) all))) (\<lambda>queue.
        rbind (kahn e nodes (snd ix) queue (fst ix)) (\<lambda>is.
          Inr (map (\<lambda>i. the (jm_get nodes i)) is)))))"

subsection \<open>Tips and weights\<close>

definition child_refs :: "jsval \<Rightarrow> string list res" where
  "child_refs parents =
     (case parents of
        JArr vs \<Rightarrow> Inr (concat (map (\<lambda>v. case v of JStr p \<Rightarrow> [p] | _ \<Rightarrow> []) vs))
      | JBytes _ \<Rightarrow> Inr []
      | _ \<Rightarrow> Inl TypeError)"

fun has_children :: "dag_post list \<Rightarrow> string list \<Rightarrow> string list res" where
  "has_children [] acc = Inr acc"
| "has_children (n # ns) acc = rbind (child_refs (dp_parents n)) (\<lambda>ps. has_children ns (fold js_add ps acc))"

text \<open>The numbers two tips are compared by, when they are finite.\<close>

definition tip_weight :: "(string, dag_post) jsmap \<Rightarrow> string \<Rightarrow> (rat \<times> rat) option" where
  "tip_weight nodes i =
     (case jm_get nodes i of
        None \<Rightarrow> None
      | Some n \<Rightarrow>
          (case (js_to_number (dp_pow n), js_to_number (dp_created n)) of
             (Inr (Fin p), Inr (Fin t)) \<Rightarrow> Some (p, t)
           | _ \<Rightarrow> None))"

definition tip_cmp :: "(string, dag_post) jsmap \<Rightarrow> string comparator" where
  "tip_cmp nodes =
     reversed (key (\<lambda>i. case tip_weight nodes i of Some w \<Rightarrow> w | None \<Rightarrow> (0, 0)) (prod_lex default default))"

text \<open>With a weight that is no finite number the comparison is not consistent, and what \<open>sort\<close> does is up to
  the host.\<close>

definition sort_tips :: "dag_env \<Rightarrow> (string, dag_post) jsmap \<Rightarrow> string list \<Rightarrow> string list res" where
  "sort_tips e nodes tips =
     (if length tips \<ge> 2 \<and> (\<exists>i \<in> set tips. tip_weight nodes i = None) then da_anySort e tips
      else Inr (Sorting_Algorithms.sort (tip_cmp nodes) tips))"

definition getTips :: "dag_env \<Rightarrow> thread_dag \<Rightarrow> string list res" where
  "getTips e s =
     (let allIds = jm_keys (dg_nodes s) in
      if allIds = [] then Inr []
      else
        rbind (has_children (map snd (dg_nodes s)) []) (\<lambda>hasChildren.
        rbind (sort_tips e (dg_nodes s) (filter (\<lambda>i. i \<notin> set hasChildren) allIds)) (\<lambda>tips.
          Inr (take 2 tips))))"

fun max_pow :: "dag_env \<Rightarrow> jsval \<Rightarrow> dag_post list \<Rightarrow> jsval res" where
  "max_pow e m [] = Inr m"
| "max_pow e m (n # ns) =
     rbind (js_less (da_fmt e) m (dp_pow n)) (\<lambda>greater. max_pow e (if greater then dp_pow n else m) ns)"

definition getMaxCumulativePow :: "dag_env \<Rightarrow> thread_dag \<Rightarrow> jsval res" where
  "getMaxCumulativePow e s = max_pow e (jint 0) (map snd (dg_nodes s))"

definition getCount :: "thread_dag \<Rightarrow> nat" where
  "getCount s = length (dg_nodes s)"

definition getById :: "string \<Rightarrow> thread_dag \<Rightarrow> dag_post option" where
  "getById i s = jm_get (dg_nodes s) i"

subsection \<open>The order without its computation\<close>

text \<open>A post may be shown once its parents have been; among those that may, the least comes next.\<close>

definition parents_of :: "(string, dag_post) jsmap \<Rightarrow> string \<Rightarrow> string list" where
  "parents_of nodes i =
     (case jm_get nodes i of
        None \<Rightarrow> []
      | Some n \<Rightarrow> (case validParents nodes (dp_parents n) of Inr ps \<Rightarrow> ps | Inl _ \<Rightarrow> []))"

definition available :: "(string, dag_post) jsmap \<Rightarrow> string set \<Rightarrow> string set" where
  "available nodes seen = {i. jm_has nodes i \<and> i \<notin> seen \<and> set (parents_of nodes i) \<subseteq> seen}"

inductive greedy :: "dag_env \<Rightarrow> (string, dag_post) jsmap \<Rightarrow> string set \<Rightarrow> string list \<Rightarrow> bool"
  for e nodes where
  greedy_stop: "available nodes seen = {} \<Longrightarrow> greedy e nodes seen []"
| greedy_step: "i \<in> available nodes seen \<Longrightarrow>
    (\<And>j. j \<in> available nodes seen \<Longrightarrow> compare (tie_cmp e nodes) i j \<noteq> Greater) \<Longrightarrow>
    greedy e nodes (insert i seen) is \<Longrightarrow> greedy e nodes seen (i # is)"

inductive_simps greedy_Nil: "greedy e nodes seen []"
inductive_simps greedy_Cons: "greedy e nodes seen (i # xs)"

text \<open>Posts as honest nodes make them: a packet identifier, a list of parents, a time that is a whole number.\<close>

definition post_ok :: "dag_post \<Rightarrow> bool" where
  "post_ok n \<longleftrightarrow> hex_re 64 (dp_id n) \<and> (\<exists>vs. dp_parents n = JArr vs) \<and>
     (\<exists>t. dp_created n = jint t \<and> 0 \<le> t \<and> t < 10 ^ 21)"

definition dag_ok :: "thread_dag \<Rightarrow> bool" where
  "dag_ok s \<longleftrightarrow> jm_wf (dg_nodes s) \<and> (\<forall>(i, n) \<in> set (dg_nodes s). dp_id n = i \<and> post_ok n)"

text \<open>Collation tells the keys apart.\<close>

definition tie_char :: "char \<Rightarrow> bool" where
  "tie_char c \<longleftrightarrow> is_lower_hex c \<or> c = CHR ''_''"

definition collates :: "string comparator \<Rightarrow> bool" where
  "collates coll \<longleftrightarrow> (\<forall>a b. list_all tie_char a \<longrightarrow> list_all tie_char b \<longrightarrow> compare coll a b = Equiv \<longrightarrow> a = b)"

lemma tie_text_inject:
  "length i = length j \<Longrightarrow> tie_text t i = tie_text u j \<Longrightarrow> i = j"
  using append_eq_append_conv [of "replicate (15 - length t) (CHR ''0'') @ t @ ''_''"
      "replicate (15 - length u) (CHR ''0'') @ u @ ''_''" i j]
  by (simp add: tie_text_def)

lemma lower_hex_digits: "(n :: nat) < 10 \<Longrightarrow> is_lower_hex (char_of (48 + n))"
  by (simp add: is_lower_hex_def)

lemma nat_digits_lower: "list_all is_lower_hex (nat_digits 10 n)"
proof (induction n rule: less_induct)
  case (less n)
  show ?case
  proof (cases "n < 10")
    case True
    then show ?thesis using lower_hex_digits [of n] by (subst nat_digits.simps) (simp add: Let_def)
  next
    case False
    then have "n div 10 < n" by simp
    then show ?thesis using False less.IH lower_hex_digits [of "n mod 10"]
      by (subst nat_digits.simps) (simp add: Let_def)
  qed
qed

lemma dag_ok_node:
  assumes "dag_ok s" "jm_get (dg_nodes s) i = Some n"
  shows "dp_id n = i" "post_ok n"
  using assms jm_get_in_set [OF assms(2)] by (auto simp: dag_ok_def)

lemma tieBreaker_ok:
  assumes "dag_ok s" "jm_has (dg_nodes s) i"
  obtains k where "tieBreaker e (dg_nodes s) i = Inr k" "list_all tie_char k" "\<exists>t. k = tie_text t i" "length i = 64"
proof -
  obtain n where n: "jm_get (dg_nodes s) i = Some n" using assms(2) by (auto simp: jm_has_def)
  note ok = dag_ok_node [OF assms(1) n]
  obtain t where t: "dp_created n = jint t" "0 \<le> t" "t < 10 ^ 21" and h: "hex_re 64 i"
    using ok by (auto simp: post_ok_def)
  let ?k = "tie_text (nat_digits 10 (nat t)) i"
  have "tieBreaker e (dg_nodes s) i = Inr ?k"
    using n ok(1) t js_int_text [of t "da_fmt e"] by (simp add: tieBreaker_def int_text_def)
  moreover have "list_all tie_char ?k"
    using h nat_digits_lower [of "nat t"]
    by (auto simp: tie_text_def hex_re_def list_all_iff tie_char_def is_lower_hex_def)
  ultimately show ?thesis using that h by (auto simp: hex_re_def)
qed

lemma tie_cmp_strict:
  assumes "dag_ok s" "collates (da_coll e)" "jm_has (dg_nodes s) i" "jm_has (dg_nodes s) j"
    "compare (tie_cmp e (dg_nodes s)) i j = Equiv"
  shows "i = j"
proof -
  obtain k where k: "tieBreaker e (dg_nodes s) i = Inr k" "list_all tie_char k" "\<exists>t. k = tie_text t i" "length i = 64"
    using tieBreaker_ok [OF assms(1,3)] by metis
  obtain l where l: "tieBreaker e (dg_nodes s) j = Inr l" "list_all tie_char l" "\<exists>t. l = tie_text t j" "length j = 64"
    using tieBreaker_ok [OF assms(1,4)] by metis
  have "k = l" using assms(2,5) k l by (auto simp: collates_def tie_cmp_def tie_key_def)
  then show ?thesis using k l tie_text_inject by metis
qed

lemma greedy_unique:
  assumes "dag_ok s" "collates (da_coll e)" "greedy e (dg_nodes s) seen is" "greedy e (dg_nodes s) seen js"
  shows "is = js"
  using assms(3,4)
proof (induction arbitrary: js rule: greedy.induct)
  case (greedy_stop seen)
  then show ?case by (cases js) (simp_all add: greedy_Cons)
next
  case (greedy_step i seen xs)
  then obtain j js' where js: "js = j # js'" by (cases js) (auto simp: greedy_Nil)
  then have j: "j \<in> available (dg_nodes s) seen" "greedy e (dg_nodes s) (insert j seen) js'"
      "\<And>k. k \<in> available (dg_nodes s) seen \<Longrightarrow> compare (tie_cmp e (dg_nodes s)) j k \<noteq> Greater"
    using greedy_step.prems by (simp_all add: greedy_Cons)
  have "compare (tie_cmp e (dg_nodes s)) i j = Equiv"
    using greedy_step.hyps(2) [OF j(1)] j(3) [OF greedy_step.hyps(1)] by (rule compare.quasisym_not_greater)
  then have "i = j" using tie_cmp_strict [OF assms(1,2)] greedy_step.hyps(1) j(1) by (auto simp: available_def)
  then show ?case using greedy_step.IH j(2) js by simp
qed

subsection \<open>The computation gives that order\<close>

lemma sort_ids_ok:
  assumes "dag_ok s" "\<forall>i \<in> set is. jm_has (dg_nodes s) i"
  shows "sort_ids e (dg_nodes s) is = Inr (Sorting_Algorithms.sort (tie_cmp e (dg_nodes s)) is)"
proof -
  have "tieBreaker e (dg_nodes s) i \<noteq> Inl x" if "i \<in> set is" for i x
    using tieBreaker_ok [OF assms(1), of i e] assms(2) that by (metis Inl_Inr_False)
  then show ?thesis by (auto simp: sort_ids_def)
qed

lemma sort_facts:
  "set (Sorting_Algorithms.sort cmp xs) = set xs"
  "distinct (Sorting_Algorithms.sort cmp xs) = distinct xs"
  "Sorting_Algorithms.sorted cmp (Sorting_Algorithms.sort cmp xs)"
  using mset_eq_setD [of "Sorting_Algorithms.sort cmp xs" xs] mset_eq_imp_distinct_iff [of "Sorting_Algorithms.sort cmp xs" xs]
  by simp_all

lemma relax_ok:
  assumes "dag_ok s" "\<forall>c \<in> set cs. jm_has (dg_nodes s) c" "\<forall>i \<in> set queue. jm_has (dg_nodes s) i"
    "\<forall>c \<in> set cs. \<exists>d. jm_get deg c = Some d \<and> int (count_list cs c) \<le> d" "set cs \<inter> set queue = {}"
    "distinct queue" "Sorting_Algorithms.sorted (tie_cmp e (dg_nodes s)) queue"
  shows "\<exists>deg' queue'. relax e (dg_nodes s) cs deg queue = Inr (deg', queue') \<and>
    (\<forall>c. jm_get deg' c = (if c \<in> set cs then map_option (\<lambda>d. d - int (count_list cs c)) (jm_get deg c) else jm_get deg c)) \<and>
    distinct queue' \<and> Sorting_Algorithms.sorted (tie_cmp e (dg_nodes s)) queue' \<and>
    set queue' = set queue \<union> {c \<in> set cs. jm_get deg c = Some (int (count_list cs c))}"
  using assms(2-)
proof (induction cs arbitrary: deg queue)
  case (Cons c cs)
  obtain d where d: "jm_get deg c = Some d" "int (count_list cs c) + 1 \<le> d" using Cons.prems(3) by auto
  let ?deg = "jm_set c (d - 1) deg"
  have dec: "\<forall>b \<in> set cs. \<exists>d. jm_get ?deg b = Some d \<and> int (count_list cs b) \<le> d"
    using Cons.prems(3) d by (auto split: if_splits)
  have cn: "jm_has (dg_nodes s) c" "c \<notin> set queue" using Cons.prems(1,4) by auto
  show ?case
  proof (cases "d = 1")
    case True
    let ?q = "Sorting_Algorithms.sort (tie_cmp e (dg_nodes s)) (queue @ [c])"
    have c: "c \<notin> set cs" using d(2) True count_list_0_iff [of cs c] by simp
    have q: "sort_ids e (dg_nodes s) (queue @ [c]) = Inr ?q"
      using sort_ids_ok [OF assms(1), of "queue @ [c]"] Cons.prems(2) cn by simp
    have "\<exists>deg' queue'. relax e (dg_nodes s) cs ?deg ?q = Inr (deg', queue') \<and>
      (\<forall>b. jm_get deg' b = (if b \<in> set cs then map_option (\<lambda>d. d - int (count_list cs b)) (jm_get ?deg b) else jm_get ?deg b)) \<and>
      distinct queue' \<and> Sorting_Algorithms.sorted (tie_cmp e (dg_nodes s)) queue' \<and>
      set queue' = set ?q \<union> {b \<in> set cs. jm_get ?deg b = Some (int (count_list cs b))}"
    proof (rule Cons.IH)
      show "\<forall>b \<in> set cs. jm_has (dg_nodes s) b" using Cons.prems(1) by simp
      show "\<forall>i \<in> set ?q. jm_has (dg_nodes s) i" using Cons.prems(2) cn(1) by (simp add: sort_facts)
      show "\<forall>b \<in> set cs. \<exists>d. jm_get ?deg b = Some d \<and> int (count_list cs b) \<le> d" by (rule dec)
      show "set cs \<inter> set ?q = {}" using Cons.prems(4) c by (auto simp: sort_facts)
      show "distinct ?q" using Cons.prems(5) cn(2) by (simp add: sort_facts)
      show "Sorting_Algorithms.sorted (tie_cmp e (dg_nodes s)) ?q" by (rule sort_facts)
    qed
    then obtain deg' queue' where r: "relax e (dg_nodes s) cs ?deg ?q = Inr (deg', queue')"
      "\<forall>b. jm_get deg' b = (if b \<in> set cs then map_option (\<lambda>d. d - int (count_list cs b)) (jm_get ?deg b) else jm_get ?deg b)"
      "distinct queue'" "Sorting_Algorithms.sorted (tie_cmp e (dg_nodes s)) queue'"
      "set queue' = set ?q \<union> {b \<in> set cs. jm_get ?deg b = Some (int (count_list cs b))}" by blast
    have "relax e (dg_nodes s) (c # cs) deg queue = Inr (deg', queue')" using d(1) True q r(1) by simp
    moreover have "jm_get deg' b = (if b \<in> set (c # cs) then map_option (\<lambda>d. d - int (count_list (c # cs) b)) (jm_get deg b) else jm_get deg b)" for b
      using r(2) c d(1) True by auto
    moreover have "set queue' = set queue \<union> {b \<in> set (c # cs). jm_get deg b = Some (int (count_list (c # cs) b))}"
      using r(5) c d(1) True by (auto simp: sort_facts split: if_splits)
    ultimately show ?thesis using r(3,4) by blast
  next
    case False
    have "\<exists>deg' queue'. relax e (dg_nodes s) cs ?deg queue = Inr (deg', queue') \<and>
      (\<forall>b. jm_get deg' b = (if b \<in> set cs then map_option (\<lambda>d. d - int (count_list cs b)) (jm_get ?deg b) else jm_get ?deg b)) \<and>
      distinct queue' \<and> Sorting_Algorithms.sorted (tie_cmp e (dg_nodes s)) queue' \<and>
      set queue' = set queue \<union> {b \<in> set cs. jm_get ?deg b = Some (int (count_list cs b))}"
    proof (rule Cons.IH)
      show "\<forall>b \<in> set cs. jm_has (dg_nodes s) b" using Cons.prems(1) by simp
      show "set cs \<inter> set queue = {}" using Cons.prems(4) by simp
    qed (fact Cons.prems dec)+
    then obtain deg' queue' where r: "relax e (dg_nodes s) cs ?deg queue = Inr (deg', queue')"
      "\<forall>b. jm_get deg' b = (if b \<in> set cs then map_option (\<lambda>d. d - int (count_list cs b)) (jm_get ?deg b) else jm_get ?deg b)"
      "distinct queue'" "Sorting_Algorithms.sorted (tie_cmp e (dg_nodes s)) queue'"
      "set queue' = set queue \<union> {b \<in> set cs. jm_get ?deg b = Some (int (count_list cs b))}" by blast
    have "relax e (dg_nodes s) (c # cs) deg queue = Inr (deg', queue')" using d(1) False r(1) by simp
    moreover have "jm_get deg' b = (if b \<in> set (c # cs) then map_option (\<lambda>d. d - int (count_list (c # cs) b)) (jm_get deg b) else jm_get deg b)" for b
      using r(2) d(1) count_list_0_iff [of cs b] by auto
    moreover have "b \<in> set queue' \<longleftrightarrow> b \<in> set queue \<or> b \<in> set (c # cs) \<and> jm_get deg b = Some (int (count_list (c # cs) b))" for b
    proof (cases "b = c")
      case True
      have "d - 1 = int (count_list cs c) \<longleftrightarrow> d = int (count_list (c # cs) c)" by auto
      then show ?thesis using True r(5) d(1) False count_list_0_iff [of cs c] by (cases "c \<in> set cs") simp_all
    next
      case False
      then show ?thesis using r(5) by simp
    qed
    then have "set queue' = set queue \<union> {b \<in> set (c # cs). jm_get deg b = Some (int (count_list (c # cs) b))}"
      by blast
    ultimately show ?thesis using r(3,4) by blast
  qed
qed auto

definition child_list :: "(string, string list) jsmap \<Rightarrow> string \<Rightarrow> string list" where
  "child_list children p = (case jm_get children p of None \<Rightarrow> [] | Some cs \<Rightarrow> cs)"

definition children_ok :: "(string, dag_post) jsmap \<Rightarrow> (string, string list) jsmap \<Rightarrow> bool" where
  "children_ok nodes children \<longleftrightarrow>
     (\<forall>p. (\<forall>c \<in> set (child_list children p). jm_has nodes c) \<and>
        (\<forall>c. jm_has nodes c \<longrightarrow> count_list (child_list children p) c = count_list (parents_of nodes c) p))"

definition missing :: "(string, dag_post) jsmap \<Rightarrow> string set \<Rightarrow> string \<Rightarrow> nat" where
  "missing nodes seen c = length (filter (\<lambda>p. p \<notin> seen) (parents_of nodes c))"

definition kahn_inv ::
  "dag_env \<Rightarrow> (string, dag_post) jsmap \<Rightarrow> string set \<Rightarrow> string list \<Rightarrow> (string, int) jsmap \<Rightarrow> bool" where
  "kahn_inv e nodes seen queue deg \<longleftrightarrow>
     (\<forall>c \<in> seen. set (parents_of nodes c) \<subseteq> seen) \<and> distinct queue \<and>
     Sorting_Algorithms.sorted (tie_cmp e nodes) queue \<and> set queue = available nodes seen \<and>
     (\<forall>c. jm_has nodes c \<longrightarrow> c \<notin> seen \<longrightarrow> jm_get deg c = Some (int (missing nodes seen c)))"

lemma length_filter_insert:
  "i \<notin> S \<Longrightarrow> length (filter (\<lambda>p. p \<notin> insert i S) ps) + count_list ps i = length (filter (\<lambda>p. p \<notin> S) ps)"
  by (induction ps) auto

lemma missing_insert: "i \<notin> S \<Longrightarrow> missing nodes (insert i S) c + count_list (parents_of nodes c) i = missing nodes S c"
  unfolding missing_def by (rule length_filter_insert)

lemma missing_0: "missing nodes S c = 0 \<longleftrightarrow> set (parents_of nodes c) \<subseteq> S"
  by (auto simp: missing_def filter_empty_conv)

lemma child_iff:
  assumes "children_ok nodes children"
  shows "c \<in> set (child_list children i) \<longleftrightarrow> jm_has nodes c \<and> i \<in> set (parents_of nodes c)"
  using assms count_list_0_iff [of "child_list children i" c] count_list_0_iff [of "parents_of nodes c" i]
  unfolding children_ok_def by metis

lemma kahn_step:
  assumes "dag_ok s" "children_ok (dg_nodes s) children" "kahn_inv e (dg_nodes s) seen (i # queue) deg"
  shows "\<exists>deg' queue'. relax e (dg_nodes s) (child_list children i) deg queue = Inr (deg', queue') \<and>
    kahn_inv e (dg_nodes s) (insert i seen) queue' deg'"
proof -
  let ?N = "dg_nodes s" and ?cs = "child_list children i"
  have inv: "\<forall>c \<in> seen. set (parents_of ?N c) \<subseteq> seen" "distinct (i # queue)"
    "Sorting_Algorithms.sorted (tie_cmp e ?N) (i # queue)" "insert i (set queue) = available ?N seen"
    "\<And>c. jm_has ?N c \<Longrightarrow> c \<notin> seen \<Longrightarrow> jm_get deg c = Some (int (missing ?N seen c))"
    using assms(3) by (auto simp: kahn_inv_def)
  have av: "i \<in> available ?N seen" "\<And>c. c \<in> set queue \<Longrightarrow> c \<in> available ?N seen" using inv(4) by auto
  have i: "jm_has ?N i" "i \<notin> seen" "set (parents_of ?N i) \<subseteq> seen" using av(1) by (simp_all add: available_def)
  have cs: "jm_has ?N c" "i \<in> set (parents_of ?N c)" "c \<notin> seen" "c \<notin> set queue" if "c \<in> set ?cs" for c
  proof -
    show c: "jm_has ?N c" "i \<in> set (parents_of ?N c)" using that child_iff [OF assms(2)] by simp_all
    show "c \<notin> seen" using inv(1) c(2) i(2) by blast
    show "c \<notin> set queue" using av(2) [of c] c(2) i(2) by (auto simp: available_def)
  qed
  have count: "count_list ?cs c = count_list (parents_of ?N c) i" if "jm_has ?N c" for c
    using assms(2) that by (simp add: children_ok_def)
  have deg: "jm_get deg c = Some (int (missing ?N (insert i seen) c + count_list ?cs c))" if "c \<in> set ?cs" for c
    using inv(5) [OF cs(1,3) [OF that]] missing_insert [OF i(2), of ?N c] count [OF cs(1) [OF that]] by simp
  have "\<exists>deg' queue'. relax e ?N ?cs deg queue = Inr (deg', queue') \<and>
    (\<forall>c. jm_get deg' c = (if c \<in> set ?cs then map_option (\<lambda>d. d - int (count_list ?cs c)) (jm_get deg c) else jm_get deg c)) \<and>
    distinct queue' \<and> Sorting_Algorithms.sorted (tie_cmp e ?N) queue' \<and>
    set queue' = set queue \<union> {c \<in> set ?cs. jm_get deg c = Some (int (count_list ?cs c))}"
  proof (rule relax_ok [OF assms(1)])
    show "\<forall>c \<in> set ?cs. jm_has ?N c" using cs(1) by blast
    show "\<forall>c \<in> set queue. jm_has ?N c" using av(2) by (auto simp: available_def)
    show "\<forall>c \<in> set ?cs. \<exists>d. jm_get deg c = Some d \<and> int (count_list ?cs c) \<le> d" using deg by simp
    show "set ?cs \<inter> set queue = {}" using cs(4) by blast
    show "distinct queue" using inv(2) by simp
    show "Sorting_Algorithms.sorted (tie_cmp e ?N) queue" using inv(3) by (rule sorted_Cons_imp_sorted)
  qed
  then obtain deg' queue' where r: "relax e ?N ?cs deg queue = Inr (deg', queue')"
    "\<And>c. jm_get deg' c = (if c \<in> set ?cs then map_option (\<lambda>d. d - int (count_list ?cs c)) (jm_get deg c) else jm_get deg c)"
    "distinct queue'" "Sorting_Algorithms.sorted (tie_cmp e ?N) queue'"
    "set queue' = set queue \<union> {c \<in> set ?cs. jm_get deg c = Some (int (count_list ?cs c))}" by blast
  have "jm_get deg' c = Some (int (missing ?N (insert i seen) c))" if c: "jm_has ?N c" "c \<notin> insert i seen" for c
  proof (cases "c \<in> set ?cs")
    case True
    then show ?thesis using r(2) [of c] deg [OF True] by simp
  next
    case False
    then have "count_list (parents_of ?N c) i = 0" using count [OF c(1)] count_list_0_iff [of ?cs c] by simp
    then show ?thesis using r(2) [of c] False inv(5) [of c] c missing_insert [OF i(2), of ?N c] by simp
  qed
  moreover have "set queue' = available ?N (insert i seen)"
  proof -
    have "c \<in> available ?N (insert i seen) \<longleftrightarrow> c \<in> set queue \<or> c \<in> set ?cs \<and> missing ?N (insert i seen) c = 0" for c
    proof (cases "c \<in> set ?cs")
      case True
      have "c \<noteq> i" using cs(2) [OF True] i(2,3) by blast
      then show ?thesis using True cs [OF True] by (auto simp: available_def missing_0)
    next
      case False
      then have "c \<in> available ?N (insert i seen) \<longleftrightarrow> c \<in> available ?N seen - {i}"
        using child_iff [OF assms(2), of c i] by (auto simp: available_def)
      then show ?thesis using False inv(2,4) by auto
    qed
    moreover have "jm_get deg c = Some (int (count_list ?cs c)) \<longleftrightarrow> missing ?N (insert i seen) c = 0" if "c \<in> set ?cs" for c
      using deg [OF that] by simp
    ultimately show ?thesis using r(5) by blast
  qed
  moreover have "\<forall>c \<in> insert i seen. set (parents_of ?N c) \<subseteq> insert i seen" using inv(1) i(3) by blast
  ultimately show ?thesis using r by (auto simp: kahn_inv_def)
qed

lemma kahn_greedy:
  assumes "dag_ok s" "children_ok (dg_nodes s) children" "kahn_inv e (dg_nodes s) seen queue deg"
  shows "\<exists>xs. kahn e (dg_nodes s) children queue deg = Inr xs \<and> greedy e (dg_nodes s) seen xs"
  using assms(2,3)
proof (induction e "dg_nodes s" children queue deg arbitrary: seen rule: kahn.induct)
  case (1 e children deg)
  then show ?case by (auto simp: kahn_inv_def greedy_Nil)
next
  case (2 e children i queue deg)
  obtain deg' queue' where r: "relax e (dg_nodes s) (child_list children i) deg queue = Inr (deg', queue')"
    "kahn_inv e (dg_nodes s) (insert i seen) queue' deg'"
    using kahn_step [OF assms(1) "2.prems"] by blast
  obtain xs where xs: "kahn e (dg_nodes s) children queue' deg' = Inr xs" "greedy e (dg_nodes s) (insert i seen) xs"
    using "2.hyps" [of "(deg', queue')"] r "2.prems"(1) by (auto simp: child_list_def)
  have inv: "Sorting_Algorithms.sorted (tie_cmp e (dg_nodes s)) (i # queue)" "set (i # queue) = available (dg_nodes s) seen"
    using "2.prems"(2) by (simp_all add: kahn_inv_def)
  have "compare (tie_cmp e (dg_nodes s)) i j \<noteq> Greater" if "j \<in> available (dg_nodes s) seen" for j
    using sorted_Cons_imp_not_less [OF inv(1), of j] that inv(2) by (cases "j = i") auto
  then have "greedy e (dg_nodes s) seen (i # xs)" using xs(2) inv(2) by (auto simp: greedy_Cons)
  then show ?case using r(1) xs(1) by (simp add: child_list_def)
qed

subsection \<open>The index\<close>

lemma child_list_Nil [simp]: "child_list [] p = []"
  by (simp add: child_list_def)

lemma child_list_set: "child_list (jm_set p cs m) q = (if q = p then cs else child_list m q)"
  by (simp add: child_list_def)

lemma child_list_add: "child_list (fold (add_child c) ps m) q = child_list m q @ replicate (count_list ps q) c"
proof (induction ps arbitrary: m)
  case (Cons p ps)
  have "child_list (add_child c p m) q = child_list m q @ (if q = p then [c] else [])"
    by (simp add: add_child_def child_list_def split: option.split)
  then show ?case using Cons by (auto simp: replicate_app_Cons_same)
qed simp

lemma set_replicate_subset: "set (replicate k x) \<subseteq> {x}"
  by (induction k) auto

lemma index_nodes_ok:
  assumes "\<forall>n \<in> set ns. jm_get nodes (dp_id n) = Some n \<and> (\<exists>vs. dp_parents n = JArr vs)" "distinct (map dp_id ns)"
  shows "\<exists>deg ch. index_nodes nodes ns (deg0, ch0) = Inr (deg, ch) \<and>
    (\<forall>i. jm_get deg i = (if i \<in> dp_id ` set ns then Some (int (length (parents_of nodes i))) else jm_get deg0 i)) \<and>
    (\<forall>p c. count_list (child_list ch p) c = count_list (child_list ch0 p) c +
       (if c \<in> dp_id ` set ns then count_list (parents_of nodes c) p else 0)) \<and>
    (\<forall>p. set (child_list ch p) \<subseteq> set (child_list ch0 p) \<union> dp_id ` set ns)"
  using assms
proof (induction ns arbitrary: deg0 ch0)
  case (Cons n ns)
  obtain vs where vs: "dp_parents n = JArr vs" "jm_get nodes (dp_id n) = Some n" using Cons.prems(1) by auto
  let ?ps = "parents_of nodes (dp_id n)" and ?deg = "jm_set (dp_id n) (int (length (parents_of nodes (dp_id n)))) deg0"
    and ?ch = "fold (add_child (dp_id n)) (parents_of nodes (dp_id n)) ch0"
  have ps: "validParents nodes (dp_parents n) = Inr ?ps" using vs by (simp add: parents_of_def validParents_def)
  obtain deg ch where r: "index_nodes nodes ns (?deg, ?ch) = Inr (deg, ch)"
    "\<forall>i. jm_get deg i = (if i \<in> dp_id ` set ns then Some (int (length (parents_of nodes i))) else jm_get ?deg i)"
    "\<forall>p c. count_list (child_list ch p) c = count_list (child_list ?ch p) c +
       (if c \<in> dp_id ` set ns then count_list (parents_of nodes c) p else 0)"
    "\<forall>p. set (child_list ch p) \<subseteq> set (child_list ?ch p) \<union> dp_id ` set ns"
    using Cons.IH [of ?deg ?ch] Cons.prems by auto
  have n: "dp_id n \<notin> dp_id ` set ns" using Cons.prems(2) by simp
  have rep: "count_list (replicate k x) y = (if x = y then k else 0)" for k and x y :: string by (induction k) auto
  have "index_nodes nodes (n # ns) (deg0, ch0) = Inr (deg, ch)" using ps r(1) by simp
  moreover have "jm_get deg i = (if i \<in> dp_id ` set (n # ns) then Some (int (length (parents_of nodes i))) else jm_get deg0 i)" for i
    using r(2) n by simp
  moreover have "count_list (child_list ch p) c = count_list (child_list ch0 p) c +
       (if c \<in> dp_id ` set (n # ns) then count_list (parents_of nodes c) p else 0)" for p c
    using r(3) n by (cases "dp_id n = c") (simp_all add: child_list_add rep)
  moreover have "set (child_list ch p) \<subseteq> set (child_list ch0 p) \<union> dp_id ` set (n # ns)" for p
    using r(4) [rule_format, of p] set_replicate_subset [of "count_list (parents_of nodes (dp_id n)) p" "dp_id n"] by (auto simp: child_list_add)
  ultimately show ?case by blast
qed (simp add: child_list_def)

lemma sorted_posts_greedy:
  assumes "dag_ok s"
  obtains xs where "getSortedPosts e s = Inr (map (\<lambda>i. the (jm_get (dg_nodes s) i)) xs)" "greedy e (dg_nodes s) {} xs"
proof (cases "dg_nodes s = []")
  case True
  then have "getSortedPosts e s = Inr (map (\<lambda>i. the (jm_get (dg_nodes s) i)) [])" "greedy e (dg_nodes s) {} []"
    by (simp_all add: getSortedPosts_def greedy_Nil available_def)
  then show ?thesis by (rule that)
next
  case False
  let ?N = "dg_nodes s" and ?all = "map snd (dg_nodes s)"
  have wf: "jm_wf ?N" and nd: "\<And>i n. (i, n) \<in> set ?N \<Longrightarrow> dp_id n = i \<and> post_ok n"
    using assms by (auto simp: dag_ok_def)
  have ids: "map dp_id ?all = jm_keys ?N" using nd by auto
  have all: "\<forall>n \<in> set ?all. jm_get ?N (dp_id n) = Some n \<and> (\<exists>vs. dp_parents n = JArr vs)"
    using nd jm_in_set_get [OF wf] by (fastforce simp: post_ok_def)
  have has: "i \<in> dp_id ` set ?all \<longleftrightarrow> jm_has ?N i" for i
    using ids by (metis jm_has_iff list.set_map)
  obtain deg ch where r: "index_nodes ?N ?all ([], []) = Inr (deg, ch)"
    "\<forall>i. jm_get deg i = (if i \<in> dp_id ` set ?all then Some (int (length (parents_of ?N i))) else jm_get [] i)"
    "\<forall>p c. count_list (child_list ch p) c = count_list (child_list [] p) c +
       (if c \<in> dp_id ` set ?all then count_list (parents_of ?N c) p else 0)"
    "\<forall>p. set (child_list ch p) \<subseteq> set (child_list [] p) \<union> dp_id ` set ?all"
    using index_nodes_ok [OF all _, of "[]" "[]"] wf unfolding ids jm_wf_def by blast
  have "jm_has ?N c" if "c \<in> set (child_list ch p)" for c p
  proof -
    have "c \<in> dp_id ` set ?all" using subsetD [OF r(4) [rule_format] that] by simp
    then show ?thesis by (simp only: has)
  qed
  then have ch: "children_ok ?N ch" using r(3) unfolding has children_ok_def by simp
  let ?q = "map dp_id (filter (\<lambda>n. (case jm_get deg (dp_id n) of None \<Rightarrow> 0 | Some d \<Rightarrow> d) = 0) ?all)"
  have q: "set ?q = available ?N {}"
  proof -
    have "set ?q = {i \<in> dp_id ` set ?all. length (parents_of ?N i) = 0}" using r(2) by auto
    then show ?thesis using has by (auto simp: available_def)
  qed
  have dist: "distinct ?q" using wf ids by (metis distinct_map_filter jm_wf_def)
  have srt: "sort_ids e ?N ?q = Inr (Sorting_Algorithms.sort (tie_cmp e ?N) ?q)"
    using q by (intro sort_ids_ok [OF assms]) (auto simp: available_def)
  have "kahn_inv e ?N {} (Sorting_Algorithms.sort (tie_cmp e ?N) ?q) deg"
    using q dist r(2) has by (auto simp: kahn_inv_def sort_facts missing_def)
  then obtain xs where xs: "kahn e ?N ch (Sorting_Algorithms.sort (tie_cmp e ?N) ?q) deg = Inr xs" "greedy e ?N {} xs"
    using kahn_greedy [OF assms ch] by blast
  have "getSortedPosts e s = Inr (map (\<lambda>i. the (jm_get ?N i)) xs)"
    using False r(1) srt xs(1) by (simp add: getSortedPosts_def)
  then show ?thesis using xs(2) by (rule that)
qed

subsection \<open>What readers see\<close>

lemma parents_are_nodes: "p \<in> set (parents_of nodes i) \<Longrightarrow> jm_has nodes p"
  by (cases "jm_get nodes i") (auto simp: parents_of_def validParents_def split: jsval.split_asm if_split_asm)

lemma greedy_sound:
  assumes "greedy e nodes seen xs"
  shows "distinct xs" "set xs \<inter> seen = {}" "set xs \<subseteq> {i. jm_has nodes i}"
    "xs = ys @ i # zs \<Longrightarrow> set (parents_of nodes i) \<subseteq> seen \<union> set ys"
proof -
  have "distinct xs \<and> set xs \<inter> seen = {} \<and> set xs \<subseteq> {i. jm_has nodes i} \<and>
      (\<forall>ys i zs. xs = ys @ i # zs \<longrightarrow> set (parents_of nodes i) \<subseteq> seen \<union> set ys)"
    using assms
  proof (induction rule: greedy.induct)
    case (greedy_step j seen xs)
    have j: "jm_has nodes j" "j \<notin> seen" "set (parents_of nodes j) \<subseteq> seen"
      using greedy_step.hyps(1) by (simp_all add: available_def)
    have "set (parents_of nodes i) \<subseteq> seen \<union> set ys" if "j # xs = ys @ i # zs" for ys i zs
    proof (cases ys)
      case Nil
      then show ?thesis using that j by simp
    next
      case (Cons y ys')
      then show ?thesis using that greedy_step.IH by auto
    qed
    then show ?case using greedy_step.IH j by auto
  qed simp
  then show "distinct xs" "set xs \<inter> seen = {}" "set xs \<subseteq> {i. jm_has nodes i}"
    "xs = ys @ i # zs \<Longrightarrow> set (parents_of nodes i) \<subseteq> seen \<union> set ys" by blast+
qed

lemma greedy_complete:
  fixes rank :: "string \<Rightarrow> nat"
  assumes "greedy e nodes seen xs" "\<And>i p. p \<in> set (parents_of nodes i) \<Longrightarrow> rank p < rank i"
  shows "jm_has nodes i \<Longrightarrow> i \<in> seen \<union> set xs"
  using assms(1)
proof (induction rule: greedy.induct)
  case (greedy_stop seen)
  have "jm_has nodes i \<longrightarrow> i \<in> seen" for i
  proof (induction "rank i" arbitrary: i rule: less_induct)
    case less
    have "set (parents_of nodes i) \<subseteq> seen" using less assms(2) parents_are_nodes by blast
    then show ?case using greedy_stop.hyps by (auto simp: available_def)
  qed
  then show ?case using greedy_stop.prems by simp
qed simp

lemma the_node:
  assumes "dag_ok s" "jm_has (dg_nodes s) i"
  shows "dp_id (the (jm_get (dg_nodes s) i)) = i" "(i, the (jm_get (dg_nodes s) i)) \<in> set (dg_nodes s)"
  using assms dag_ok_node [OF assms(1), of i] by (auto simp: jm_has_def dest: jm_get_in_set)

text \<open>C24: Causes come before effects: when the posts a node has do not depend on each other in a circle, it shows
  each of them exactly once, and every post after all the posts it answers.\<close>

theorem thread_order_causal:
  fixes rank :: "string \<Rightarrow> nat"
  assumes "dag_ok s" "\<And>i p. p \<in> set (parents_of (dg_nodes s) i) \<Longrightarrow> rank p < rank i"
  shows "\<exists>posts. getSortedPosts e s = Inr posts \<and> mset posts = mset (map snd (dg_nodes s)) \<and>
    (\<forall>before n after. posts = before @ n # after \<longrightarrow> set (parents_of (dg_nodes s) (dp_id n)) \<subseteq> dp_id ` set before)"
proof -
  let ?N = "dg_nodes s" and ?n = "\<lambda>i. the (jm_get (dg_nodes s) i)"
  obtain xs where xs: "getSortedPosts e s = Inr (map ?n xs)" "greedy e ?N {} xs"
    using sorted_posts_greedy [OF assms(1)] by blast
  note g = greedy_sound [OF xs(2)]
  have has: "jm_has ?N i \<longleftrightarrow> i \<in> set xs" for i
    using g(3) greedy_complete [OF xs(2), where rank = rank and i = i] assms(2) by auto
  have wf: "jm_wf ?N" using assms(1) by (simp add: dag_ok_def)
  have "mset xs = mset (jm_keys ?N)"
    using g(1) wf has by (intro set_eq_iff_mset_eq_distinct [THEN iffD1]) (auto simp: jm_wf_def jm_has_iff)
  then have "mset (map ?n xs) = image_mset ?n (mset (jm_keys ?N))" by simp
  also have "\<dots> = mset (map (?n \<circ> fst) ?N)" by (simp add: image_mset.compositionality)
  also have "map (?n \<circ> fst) ?N = map snd ?N" using jm_in_set_get [OF wf] by (intro map_cong) auto
  finally have m: "mset (map ?n xs) = mset (map snd ?N)" .
  have "set (parents_of ?N (dp_id n)) \<subseteq> dp_id ` set before" if split: "map ?n xs = before @ n # after" for before n after
  proof -
    obtain ys i zs where x: "xs = ys @ i # zs" "before = map ?n ys" "n = ?n i"
      using split by (auto simp: map_eq_append_conv map_eq_Cons_conv)
    have i: "jm_has ?N i" "\<And>y. y \<in> set ys \<Longrightarrow> jm_has ?N y" using g(3) x(1) by auto
    have "dp_id ` set before = set ys" using x(2) the_node(1) [OF assms(1) i(2)] by force
    then show ?thesis using g(4) [OF x(1)] x(3) the_node(1) [OF assms(1) i(1)] by simp
  qed
  then show ?thesis using xs(1) m by blast
qed

definition toy_post :: "char \<Rightarrow> int \<Rightarrow> jsval list \<Rightarrow> dag_post" where
  "toy_post c t parents = \<lparr>dp_id = replicate 64 c, dp_thread = JStr ''t'', dp_created = jint t, dp_parents = JArr parents,
     dp_pow = jint 12, dp_rest = []\<rparr>"

definition toy_dag_env :: dag_env where
  "toy_dag_env = \<lparr>da_fmt = (\<lambda>_. []), da_coll = key to_nat default, da_anySort = Inr\<rparr>"

definition toy_dag :: thread_dag where
  "toy_dag = \<lparr>dg_nodes =
     [(replicate 64 (CHR ''b''), toy_post (CHR ''b'') 60000 [JStr (replicate 64 (CHR ''a''))]),
      (replicate 64 (CHR ''a''), toy_post (CHR ''a'') 0 [])], dg_threadId = ''t''\<rparr>"

lemma toy_post_ok: "is_lower_hex c \<Longrightarrow> 0 \<le> t \<Longrightarrow> t < 10 ^ 21 \<Longrightarrow> post_ok (toy_post c t ps)"
  by (simp add: post_ok_def toy_post_def hex_re_def list_all_iff)

lemma toy_ids [simp]: "replicate 64 (CHR ''a'') \<noteq> replicate 64 (CHR ''b'')" "replicate 64 (CHR ''b'') \<noteq> replicate 64 (CHR ''a'')"
  by (simp_all add: replicate_eq_replicate)

lemma toy_hex [simp]: "is_lower_hex (CHR ''a'')" "is_lower_hex (CHR ''b'')"
  by (simp_all add: is_lower_hex_def)

lemma toy_dag_ok: "dag_ok toy_dag"
  using toy_post_ok [of "CHR ''a''" 0] toy_post_ok [of "CHR ''b''" 60000]
  by (simp add: dag_ok_def toy_dag_def jm_wf_def) (simp add: toy_post_def)

theorem thread_order_causal_witness:
  "\<exists>posts. getSortedPosts toy_dag_env toy_dag = Inr posts \<and>
     mset posts = {#toy_post (CHR ''a'') 0 [], toy_post (CHR ''b'') 60000 [JStr (replicate 64 (CHR ''a''))]#}"
proof -
  have "p = replicate 64 (CHR ''a'') \<and> i = replicate 64 (CHR ''b'')" if "p \<in> set (parents_of (dg_nodes toy_dag) i)" for i p
    using that by (auto simp: parents_of_def validParents_def toy_dag_def toy_post_def split: if_splits)
  then have "(if p = replicate 64 (CHR ''b'') then 1 else 0) < (if i = replicate 64 (CHR ''b'') then 1 else (0 :: nat))"
    if "p \<in> set (parents_of (dg_nodes toy_dag) i)" for i p using that by force
  from thread_order_causal [OF toy_dag_ok, of "\<lambda>i. if i = replicate 64 (CHR ''b'') then 1 else 0" toy_dag_env, OF this]
  show ?thesis by (auto simp: toy_dag_def add_mset_commute)
qed

definition add_all :: "dag_post list \<Rightarrow> thread_dag \<Rightarrow> thread_dag" where
  "add_all ps s = fold (\<lambda>p s. snd (addPost p s)) ps s"

lemma addPost_get:
  "jm_get (dg_nodes (snd (addPost p s))) i =
    (if jm_has (dg_nodes s) (dp_id p) \<or> dp_thread p \<noteq> JStr (dg_threadId s) \<or> i \<noteq> dp_id p
     then jm_get (dg_nodes s) i else Some p)"
  "dg_threadId (snd (addPost p s)) = dg_threadId s"
  by (auto simp: addPost_def)

lemma addPost_keeps: "jm_get (dg_nodes s) i = Some n \<Longrightarrow> jm_get (dg_nodes (snd (addPost p s))) i = Some n"
  by (auto simp: addPost_get jm_has_def)

lemma add_all_keeps: "jm_get (dg_nodes s) i = Some n \<Longrightarrow> jm_get (dg_nodes (add_all ps s)) i = Some n"
proof (induction ps arbitrary: s)
  case (Cons p ps)
  then show ?case using addPost_keeps [of s i n p] by (simp add: add_all_def)
qed (simp add: add_all_def)

lemma add_all_thread: "dg_threadId (add_all ps s) = dg_threadId s"
  by (induction ps arbitrary: s) (simp_all add: add_all_def addPost_get)

lemma add_all_get:
  assumes "inj_on dp_id (set ps)" "\<forall>p \<in> set ps. dp_thread p = JStr (dg_threadId s)"
    "\<forall>p \<in> set ps. \<forall>n. jm_get (dg_nodes s) (dp_id p) = Some n \<longrightarrow> n = p"
  shows "jm_get (dg_nodes (add_all ps s)) i = Some n \<longleftrightarrow> jm_get (dg_nodes s) i = Some n \<or> (n \<in> set ps \<and> dp_id n = i)"
  using assms
proof (induction ps arbitrary: s)
  case (Cons p ps)
  let ?s = "snd (addPost p s)"
  have get: "jm_get (dg_nodes ?s) j = Some m \<longleftrightarrow> jm_get (dg_nodes s) j = Some m \<or> (m = p \<and> dp_id m = j)" for j m
    using Cons.prems by (auto simp: addPost_get jm_has_def)
  have "jm_get (dg_nodes (add_all ps ?s)) i = Some n \<longleftrightarrow> jm_get (dg_nodes ?s) i = Some n \<or> (n \<in> set ps \<and> dp_id n = i)"
  proof (rule Cons.IH)
    show "\<forall>q \<in> set ps. \<forall>n. jm_get (dg_nodes ?s) (dp_id q) = Some n \<longrightarrow> n = q"
      using Cons.prems(1,3) get by (auto simp: inj_on_def)
  qed (use Cons.prems in \<open>auto simp: addPost_get\<close>)
  then show ?case using get by (auto simp: add_all_def)
qed (simp add: add_all_def)

lemma add_all_wf: "jm_wf (dg_nodes s) \<Longrightarrow> jm_wf (dg_nodes (add_all ps s))"
  by (induction ps arbitrary: s) (simp_all add: add_all_def addPost_def)

lemma add_all_ok:
  assumes "inj_on dp_id (set ps)" "\<forall>p \<in> set ps. dp_thread p = JStr t \<and> post_ok p"
  shows "dag_ok (add_all ps (dag_new t))"
    "jm_get (dg_nodes (add_all ps (dag_new t))) i = Some n \<longleftrightarrow> n \<in> set ps \<and> dp_id n = i"
proof -
  have get: "jm_get (dg_nodes (add_all ps (dag_new t))) i = Some n \<longleftrightarrow> n \<in> set ps \<and> dp_id n = i" for i n
    using add_all_get [OF assms(1), of "dag_new t" i n] assms(2) by (simp add: dag_new_def)
  then show "jm_get (dg_nodes (add_all ps (dag_new t))) i = Some n \<longleftrightarrow> n \<in> set ps \<and> dp_id n = i" .
  have wf: "jm_wf (dg_nodes (add_all ps (dag_new t)))" by (rule add_all_wf) (simp add: dag_new_def)
  show "dag_ok (add_all ps (dag_new t))"
    unfolding dag_ok_def using wf get assms(2) jm_in_set_get [OF wf] by blast
qed

lemma same_nodes:
  assumes "\<And>i. jm_get nodes i = jm_get nodes' i"
  shows "parents_of nodes = parents_of nodes'" "tie_cmp e nodes = tie_cmp e nodes'"
    "available nodes = available nodes'"
proof -
  have has: "jm_has nodes = jm_has nodes'" using assms by (simp add: jm_has_def fun_eq_iff)
  then have "validParents nodes = validParents nodes'" by (intro ext) (simp only: validParents_def)
  then show p: "parents_of nodes = parents_of nodes'" by (intro ext) (simp only: parents_of_def assms)
  have "tie_key e nodes = tie_key e nodes'" by (intro ext) (simp only: tie_key_def tieBreaker_def assms)
  then show "tie_cmp e nodes = tie_cmp e nodes'" by (simp add: tie_cmp_def)
  show "available nodes = available nodes'" by (intro ext) (simp only: available_def p has)
qed

lemma greedy_same:
  assumes "\<And>i. jm_get nodes i = jm_get nodes' i" "greedy e nodes seen xs"
  shows "greedy e nodes' seen xs"
  using assms(2)
proof (induction rule: greedy.induct)
  case (greedy_stop seen)
  then show ?case using same_nodes(3) [OF assms(1)] by (auto intro: greedy.greedy_stop)
next
  case (greedy_step i seen xs)
  then show ?case using same_nodes(2) [OF assms(1), where e = e] same_nodes(3) [OF assms(1)]
    by (intro greedy.greedy_step) auto
qed


lemma toy_collates: "collates (da_coll toy_dag_env)"
  by (simp add: collates_def toy_dag_env_def)


lemma validParents_Inl: "validParents nodes v = Inl x \<Longrightarrow> x = TypeError"
  by (auto simp: validParents_def split: jsval.splits)

lemma index_nodes_throws:
  "n \<in> set ns \<Longrightarrow> validParents nodes (dp_parents n) = Inl TypeError \<Longrightarrow> index_nodes nodes ns ix = Inl TypeError"
proof (induction ns arbitrary: ix)
  case (Cons m ns)
  then show ?case by (cases "validParents nodes (dp_parents m)") (auto dest: validParents_Inl)
qed simp



end
