(* ===== verification/Orchestrator.thy ===== *)
theory Orchestrator
  imports Replication Schrodinger ThreadDAG
begin

text \<open>
  What \<open>packages/core/src/logic/BoardOrchestrator.ts\<close> and \<open>ThreadOrchestrator.ts\<close> share: the status line, the
  reading of packets from slots, the effects on the other components, and the sending of a packet through an onion
  circuit together with its slot. Operations return an exception or nothing, their effects, and the new state;
  \<open>then_step\<close> stops at an exception and keeps what was done before it.
\<close>

subsection \<open>Status and effects\<close>

datatype phase = PhIdle | PhLoading | PhSyncing | PhSubmitting | PhError

text \<open>The texts shown, by what they say.\<close>

datatype orch_msg =
    NoMsg
  | LoadingLogs
  | SeekingPeers
  | WaitingForNet
  | SyncingPeers nat
  | SyncingWithPeers
  | SyncingDht
  | NothingFound
  | Building
  | Spreading
  | SentWaiting
  | Queued
  | AnonymousFailed
  | SubmitFailed

record orch_status =
  os_phase :: phase
  os_message :: orch_msg
  os_isSubmitting :: bool
  os_powProgress :: int

definition idle_status :: orch_status where
  "idle_status = \<lparr>os_phase = PhIdle, os_message = NoMsg, os_isSubmitting = False, os_powProgress = 0\<rparr>"

text \<open>What the orchestrators do to the rest of the node. A broadcast has the number of the task that waits for
  its outcome.\<close>

datatype orch_effect =
    ListenerCall nat
  | StatusCall nat
  | DbSave save_req
  | HintAddKey string bytes
  | HintRemoveKey string
  | HintOnBody
  | GossipOn
  | GossipOff
  | PeersOn
  | PeersOff
  | WatchTopic bytes
  | UnwatchTopic
  | Broadcast nat jsval prepared_slot
  | ReleaseHint hint int
  | SetVerdictTimer int
  | ClearVerdictTimer
  | SetDebounce
  | ClearDebounce
  | SetStats string
  | ClearStats
  | SetStatusTimer

type_synonym 's orch_step = "unit res \<times> orch_effect list \<times> 's"

definition then_step :: "'s orch_step \<Rightarrow> ('s \<Rightarrow> 's orch_step) \<Rightarrow> 's orch_step" where
  "then_step x f =
     (case x of
        (Inl e, fx, s) \<Rightarrow> (Inl e, fx, s)
      | (Inr _, fx, s) \<Rightarrow> (case f s of (r, gx, s') \<Rightarrow> (r, fx @ gx, s')))"

definition catch_step :: "'s orch_step \<Rightarrow> ('s \<Rightarrow> 's orch_step) \<Rightarrow> 's orch_step" where
  "catch_step x f =
     (case x of
        (Inl e, fx, s) \<Rightarrow> (case f s of (r, gx, s') \<Rightarrow> (r, fx @ gx, s'))
      | (Inr u, fx, s) \<Rightarrow> (Inr u, fx, s))"

definition effects :: "orch_effect list \<Rightarrow> 's \<Rightarrow> 's orch_step" where
  "effects fx s = (Inr (), fx, s)"

text \<open>The final state of a step, and the property that one keeps.\<close>

abbreviation step_state :: "'s orch_step \<Rightarrow> 's" where "step_state x \<equiv> snd (snd x)"
abbreviation step_effects :: "'s orch_step \<Rightarrow> orch_effect list" where "step_effects x \<equiv> fst (snd x)"

lemma then_step_state: "Q (step_state x) \<Longrightarrow> (\<And>s. Q s \<Longrightarrow> Q (step_state (f s))) \<Longrightarrow> Q (step_state (then_step x f))"
  by (cases x rule: prod_cases3) (auto simp: then_step_def split: sum.split prod.split, metis snd_conv)

lemma catch_step_state: "Q (step_state x) \<Longrightarrow> (\<And>s. Q s \<Longrightarrow> Q (step_state (f s))) \<Longrightarrow> Q (step_state (catch_step x f))"
  by (cases x rule: prod_cases3) (auto simp: catch_step_def split: sum.split prod.split, metis snd_conv)

lemma step_state_then:
  "step_state (then_step x f) = (case fst x of Inl _ \<Rightarrow> step_state x | Inr _ \<Rightarrow> step_state (f (step_state x)))"
  by (cases x rule: prod_cases3) (auto simp: then_step_def split: sum.split prod.split)

lemma effects_simps [simp]: "step_state (effects fx s) = s" "step_effects (effects fx s) = fx" "fst (effects fx s) = Inr ()"
  by (simp_all add: effects_def)

text \<open>The node as an orchestrator sees it.\<close>

record orch_env =
  ov_S :: sodium
  ov_M :: msgpack
  ov_now :: int
  ov_degree :: nat
  ov_depth :: nat
  ov_dag :: dag_env

abbreviation ov_fmt :: "orch_env \<Rightarrow> rat \<Rightarrow> string" where "ov_fmt e \<equiv> da_fmt (ov_dag e)"

subsection \<open>Packets from slots and from the device\<close>

definition EMPTY_VERDICT_GRACE_MS :: int where "EMPTY_VERDICT_GRACE_MS = 8000"

text \<open>The reviver of \<open>onHintBody\<close>, which only knows byte arrays; \<open>JSON.parse\<close> calls it bottom-up.\<close>

definition plain_reviver :: "jsval \<Rightarrow> jsval res" where
  "plain_reviver v =
     (if truthy v \<and> jget v ''_type'' = JStr ''Uint8Array'' then rbind (new_u8 (jget v ''data'')) (\<lambda>bs. Inr (JBytes bs))
      else Inr v)"

fun plain_revive :: "jsval \<Rightarrow> jsval res"
  and plain_revive_elems :: "jsval list \<Rightarrow> jsval list res"
  and plain_revive_members :: "(string \<times> jsval) list \<Rightarrow> (string \<times> jsval) list res" where
  "plain_revive (JArr vs) = rbind (plain_revive_elems vs) (\<lambda>vs. plain_reviver (JArr vs))"
| "plain_revive (JObj kvs) = rbind (plain_revive_members kvs) (\<lambda>kvs. plain_reviver (JObj kvs))"
| "plain_revive v = plain_reviver v"
| "plain_revive_elems [] = Inr []"
| "plain_revive_elems (v # vs) = rbind (plain_revive v) (\<lambda>v. rbind (plain_revive_elems vs) (\<lambda>vs. Inr (v # vs)))"
| "plain_revive_members [] = Inr []"
| "plain_revive_members ((k, v) # kvs) =
     rbind (plain_revive v) (\<lambda>v. rbind (plain_revive_members kvs) (\<lambda>kvs. Inr ((k, v) # kvs)))"

definition body_packet :: "bytes \<Rightarrow> jsval res" where
  "body_packet body =
     (case json_parse (text_decode body) of None \<Rightarrow> Inl (OtherError ''SyntaxError'') | Some v \<Rightarrow> plain_revive v)"

text \<open>The text of a packet; a packet is an object, so there is one.\<close>

definition packet_text :: "(rat \<Rightarrow> string) \<Rightarrow> jsval \<Rightarrow> bytes" where
  "packet_text fmt packet = utf8 (case stringify fmt packet of Some t \<Rightarrow> t | None \<Rightarrow> [])"

subsection \<open>Sending\<close>

text \<open>\<open>randomMessageId\<close>: six random bytes.\<close>

definition randomMessageId :: "bytes \<Rightarrow> int" where
  "randomMessageId b = foldl (\<lambda>acc x. acc * 256 + uint x) 0 b"

lemma randomMessageId_be_val: "randomMessageId b = be_val b"
  by (induction b rule: rev_induct) (simp_all add: randomMessageId_def)

lemma randomMessageId_bounds: "length b = 6 \<Longrightarrow> 0 \<le> randomMessageId b \<and> randomMessageId b < 2 ^ 48 \<and> randomMessageId b \<le> max_safe"
  using be_val_bound [of b] by (simp add: randomMessageId_be_val max_safe_def)

text \<open>The random bytes of one sending: the slot's nonce, the hint's nonce and the message identifier.\<close>

record send_random =
  sx_nonce :: bytes
  sx_hintNonce :: bytes
  sx_messageId :: bytes

text \<open>\<open>sendAnonymously\<close> up to its wait, as task \<open>i\<close>. A missing key makes \<open>prepareSlot\<close> throw.\<close>

definition sendAnonymously :: "orch_env \<Rightarrow> send_random \<Rightarrow> nat \<Rightarrow> jsval \<Rightarrow> bytes option \<Rightarrow> (prepared_slot \<times> orch_effect list) res" where
  "sendAnonymously e r i packet threadKey =
     (case threadKey of
        None \<Rightarrow> Inl TypeError
      | Some k \<Rightarrow>
          rbind (prepareSlot (ov_S e) (sx_nonce r) (sx_hintNonce r) (ov_now e) k (randomMessageId (sx_messageId r)))
            (\<lambda>slot. Inr (slot, [Broadcast i packet slot])))"

text \<open>An author of a post: its identity, and what building it takes.\<close>

record build_input =
  bi_identity :: post_identity
  bi_iterations :: nat
  bi_now :: int
  bi_nonce :: bytes

definition build_packet :: "orch_env \<Rightarrow> build_input \<Rightarrow> bytes \<Rightarrow> post_req \<Rightarrow> jsval res" where
  "build_packet e b threadKey r = pb_build (ov_S e) (ov_M e) (bi_iterations b) (bi_now b) (bi_nonce b) (bi_identity b) threadKey r"

subsection \<open>Runs\<close>

text \<open>Events one after the other. What every allowed event keeps holds after a run; the orchestrators' invariants
  are instances.\<close>

fun orch_run :: "(orch_env \<Rightarrow> 'ev \<Rightarrow> 's \<Rightarrow> 's orch_step) \<Rightarrow> (orch_env \<times> 'ev) list \<Rightarrow> 's \<Rightarrow> orch_effect list \<times> 's" where
  "orch_run exec [] s = ([], s)"
| "orch_run exec ((e, ev) # evs) s =
     (case exec e ev s of (_, fx, s1) \<Rightarrow> (case orch_run exec evs s1 of (gx, s2) \<Rightarrow> (fx @ gx, s2)))"

lemma orch_run_Cons: "snd (orch_run exec ((e, ev) # evs) s) = snd (orch_run exec evs (step_state (exec e ev s)))"
  by (simp add: split_beta)

locale kept_by_steps =
  fixes exec :: "orch_env \<Rightarrow> 'ev \<Rightarrow> 's \<Rightarrow> 's orch_step"
    and allowed :: "orch_env \<times> 'ev \<Rightarrow> bool"
    and inv :: "'s \<Rightarrow> bool"
  assumes step: "allowed (e, ev) \<Longrightarrow> inv s \<Longrightarrow> inv (step_state (exec e ev s))"
begin

lemma run: "\<forall>x \<in> set evs. allowed x \<Longrightarrow> inv s \<Longrightarrow> inv (snd (orch_run exec evs s))"
proof (induction evs arbitrary: s)
  case (Cons x evs)
  obtain e ev where x: "x = (e, ev)" by force
  have "inv (step_state (exec e ev s))" using Cons.prems step x by simp
  moreover have "\<forall>x \<in> set evs. allowed x" using Cons.prems(1) by simp
  ultimately show ?case unfolding x orch_run_Cons by (intro Cons.IH)
qed simp

end

end
