(* ===== verification/ThreadView.thy ===== *)
theory ThreadView
  imports Orchestrator
begin

text \<open>
  \<open>packages/core/src/logic/ThreadOrchestrator.ts\<close>: the thread that is open. Every \<open>await\<close> is the end of a step: what
  is left is a task, and the reader may open another thread before it goes on. The lemmas show that, whatever
  interleaves, the thread shown has only its own posts, and that a reply that was being written when the reader
  moved on is filed under the thread it moved to.
\<close>

subsection \<open>State\<close>

text \<open>What follows the handling of a packet: nothing, or the rest of the posts read from the device.\<close>

datatype to_cont =
    NoCont
  | CacheCont string string bytes "bytes list"

text \<open>Waiting for: a packet to be opened; a post to be saved; the posts on the device; a turn to go on with them;
  a neighbour; a packet to be built; a reply to be saved; the outcome of a broadcast.\<close>

datatype to_task =
    ToOpen string string bytes jsval bool to_cont
  | ToSaved to_cont
  | ToCacheRead string string bytes
  | ToCache string string bytes "bytes list"
  | ToWaitPeer
  | ToBuild bytes post_req
  | ToReplySaved jsval
  | ToBroadcast prepared_slot nat

record thread_orch =
  to_listeners :: "nat list"
  to_statusListeners :: "nat list"
  to_snapshot :: "dag_post list"
  to_dag :: thread_dag
  to_seenPacketIds :: "string list"
  to_currentStatus :: orch_status
  to_boardId :: "string option"
  to_boardKey :: "bytes option"
  to_watching :: bool
  to_threadId :: "string option"
  to_threadKey :: "bytes option"
  to_topicHash :: "bytes option"
  to_isListening :: bool
  to_syncDebounce :: bool
  to_firstPeerAt :: "int option"
  to_verdictTimer :: bool
  to_tasks :: "(nat, to_task) jsmap"
  to_seq :: nat

type_synonym to_step = "thread_orch orch_step"

definition to_init :: thread_orch where
  "to_init =
     \<lparr>to_listeners = [], to_statusListeners = [], to_snapshot = [], to_dag = dag_new [], to_seenPacketIds = [],
      to_currentStatus = idle_status, to_boardId = None, to_boardKey = None, to_watching = False, to_threadId = None,
      to_threadKey = None, to_topicHash = None, to_isListening = False, to_syncDebounce = False, to_firstPeerAt = None,
      to_verdictTimer = False, to_tasks = [], to_seq = 0\<rparr>"

definition to_wait :: "nat \<Rightarrow> to_task \<Rightarrow> thread_orch \<Rightarrow> thread_orch" where
  "to_wait i t s = s\<lparr>to_tasks := jm_set i t (to_tasks s)\<rparr>"

definition to_done :: "nat \<Rightarrow> thread_orch \<Rightarrow> thread_orch" where
  "to_done i s = s\<lparr>to_tasks := jm_del i (to_tasks s)\<rparr>"

definition to_new :: "(nat \<Rightarrow> thread_orch \<Rightarrow> 'a) \<Rightarrow> thread_orch \<Rightarrow> 'a" where
  "to_new f s = f (to_seq s) (s\<lparr>to_seq := Suc (to_seq s)\<rparr>)"

definition to_continue :: "nat \<Rightarrow> to_cont \<Rightarrow> thread_orch \<Rightarrow> thread_orch" where
  "to_continue i c s =
     (case c of
        NoCont \<Rightarrow> to_done i s
      | CacheCont b t k rest \<Rightarrow> to_wait i (ToCache b t k rest) s)"

definition hintKeyId :: "string \<Rightarrow> string" where
  "hintKeyId threadId = ''thread:'' @ threadId"

subsection \<open>Status and display\<close>

definition to_subscribe :: "nat \<Rightarrow> thread_orch \<Rightarrow> thread_orch" where
  "to_subscribe l s = s\<lparr>to_listeners := js_add l (to_listeners s)\<rparr>"

definition to_unsubscribe :: "nat \<Rightarrow> thread_orch \<Rightarrow> thread_orch" where
  "to_unsubscribe l s = s\<lparr>to_listeners := filter (\<lambda>x. x \<noteq> l) (to_listeners s)\<rparr>"

definition to_subscribeStatus :: "nat \<Rightarrow> thread_orch \<Rightarrow> thread_orch" where
  "to_subscribeStatus l s = s\<lparr>to_statusListeners := js_add l (to_statusListeners s)\<rparr>"

definition to_updateStatus :: "phase \<Rightarrow> orch_msg \<Rightarrow> bool \<Rightarrow> int \<Rightarrow> thread_orch \<Rightarrow> to_step" where
  "to_updateStatus ph msg isSubmitting powProgress s =
     (let n = \<lparr>os_phase = ph, os_message = msg, os_isSubmitting = isSubmitting, os_powProgress = powProgress\<rparr> in
      if to_currentStatus s = n then effects [] s
      else effects (map StatusCall (to_statusListeners s)) (s\<lparr>to_currentStatus := n\<rparr>))"

definition to_refreshEmptyStatus :: "orch_env \<Rightarrow> thread_orch \<Rightarrow> to_step" where
  "to_refreshEmptyStatus e s =
     (if os_isSubmitting (to_currentStatus s) then effects [] s
      else
        then_step (if to_verdictTimer s then effects [ClearVerdictTimer] (s\<lparr>to_verdictTimer := False\<rparr>) else effects [] s)
          (\<lambda>s. if getCount (to_dag s) > 0 then to_updateStatus PhIdle NoMsg False 0 s
               else if ov_degree e = 0 then to_updateStatus PhIdle WaitingForNet False 0 (s\<lparr>to_firstPeerAt := None\<rparr>)
               else
                 (let first = (case to_firstPeerAt s of None \<Rightarrow> ov_now e | Some t \<Rightarrow> t);
                      s1 = s\<lparr>to_firstPeerAt := Some first\<rparr>;
                      remaining = EMPTY_VERDICT_GRACE_MS - (ov_now e - first) in
                  if remaining > 0 then
                    then_step (to_updateStatus PhSyncing SyncingWithPeers False 0 s1)
                      (\<lambda>s. effects [SetVerdictTimer remaining] (s\<lparr>to_verdictTimer := True\<rparr>))
                  else to_updateStatus PhIdle NothingFound False 0 s1)))"

text \<open>The order of the thread may throw; the snapshot then stays as it was.\<close>

definition to_notify :: "orch_env \<Rightarrow> thread_orch \<Rightarrow> to_step" where
  "to_notify e s =
     (case getSortedPosts (ov_dag e) (to_dag s) of
        Inl err \<Rightarrow> (Inl err, [], s)
      | Inr posts \<Rightarrow> effects (map ListenerCall (to_listeners s)) (s\<lparr>to_snapshot := posts\<rparr>))"

subsection \<open>Packets\<close>

text \<open>\<open>{ ...post, packet_id, parents, cumulative_pow, thread_root }\<close>.\<close>

definition thread_post :: "jsval \<Rightarrow> jsval \<Rightarrow> string \<Rightarrow> dag_post" where
  "thread_post packet post threadId =
     \<lparr>dp_id = packet_id_of packet, dp_thread = jget post ''thread_id'', dp_created = jget post ''created_at'',
      dp_parents = js_or (jget post ''parents'') (JArr []), dp_pow = js_or (jget post ''cumulative_pow'') (jint 0),
      dp_rest = (case post of
          JObj kvs \<Rightarrow> jm_set ''thread_root'' (js_or (jget post ''thread_root'') (JStr threadId)) kvs | _ \<Rightarrow> [])\<rparr>"

text \<open>\<open>handlePacketObject\<close> as task \<open>i\<close> up to its wait. (It throws for \<open>null\<close>; every caller passes over that.)\<close>

definition to_handle :: "nat \<Rightarrow> string \<Rightarrow> string \<Rightarrow> bytes \<Rightarrow> jsval \<Rightarrow> bool \<Rightarrow> to_cont \<Rightarrow> thread_orch \<Rightarrow> thread_orch" where
  "to_handle i b t k packet isFromDB c s =
     (if is_absent packet \<or> packet_id_of packet \<in> set (to_seenPacketIds s) then to_continue i c s
      else to_wait i (ToOpen b t k packet isFromDB c)
             (s\<lparr>to_seenPacketIds := js_add (packet_id_of packet) (to_seenPacketIds s)\<rparr>))"

text \<open>The save of a post, and its part after the wait.\<close>

definition post_save :: "orch_env \<Rightarrow> string \<Rightarrow> string \<Rightarrow> jsval \<Rightarrow> jsval \<Rightarrow> dag_post \<Rightarrow> save_req" where
  "post_save e b t packet post n =
     \<lparr>sr_board = JStr b, sr_thread = JStr t, sr_payload = packet_text (ov_fmt e) packet, sr_parents = dp_parents n,
      sr_pow = dp_pow n, sr_root = js_or (jget post ''thread_root'') (JStr t), sr_created = dp_created n\<rparr>"

definition to_opened :: "orch_env \<Rightarrow> nat \<Rightarrow> string \<Rightarrow> string \<Rightarrow> bytes \<Rightarrow> jsval \<Rightarrow> bool \<Rightarrow> to_cont \<Rightarrow> thread_orch \<Rightarrow> to_step" where
  "to_opened e i b t k packet isFromDB c s =
     (case verifyAndDecrypt (ov_S e) (ov_M e) packet k of
        Inr (Some post) \<Rightarrow>
          if jget post ''thread_id'' = JStr t \<and> jget post ''post_type'' = jint 0 then
            (let n = thread_post packet post t; (isNew, d) = addPost n (to_dag s) in
             if \<not> isNew then effects [] (to_continue i c s)
             else
               catch_step
                 (then_step (to_notify e (s\<lparr>to_dag := d\<rparr>)) (\<lambda>s.
                  then_step (to_refreshEmptyStatus e s) (\<lambda>s.
                    if isFromDB then effects [] (to_continue i c s)
                    else effects [DbSave (post_save e b t packet post n)] (to_wait i (ToSaved c) s))))
                 (\<lambda>s. effects [] (to_continue i c s)))
          else effects [] (to_continue i c s)
      | _ \<Rightarrow> effects [] (to_continue i c s))"

definition to_onGossipPacket :: "jsval \<Rightarrow> thread_orch \<Rightarrow> thread_orch" where
  "to_onGossipPacket packet s =
     (case (to_boardId s, to_threadId s, to_threadKey s) of
        (Some b, Some t, Some k) \<Rightarrow> to_new (\<lambda>i. to_handle i b t k packet False NoCont) s
      | _ \<Rightarrow> s)"

definition to_onHintBody :: "bytes \<Rightarrow> string \<Rightarrow> thread_orch \<Rightarrow> thread_orch" where
  "to_onHintBody body keyId s =
     (case (to_boardId s, to_threadId s, to_threadKey s) of
        (Some b, Some t, Some k) \<Rightarrow>
          if keyId \<noteq> hintKeyId t then s
          else (case body_packet body of
                  Inl _ \<Rightarrow> s
                | Inr packet \<Rightarrow> to_new (\<lambda>i. to_handle i b t k packet False NoCont) s)
      | _ \<Rightarrow> s)"

subsection \<open>Opening and leaving a thread\<close>

definition to_clear :: "orch_env \<Rightarrow> thread_orch \<Rightarrow> to_step" where
  "to_clear e s =
     then_step (effects
         ((if to_verdictTimer s then [ClearVerdictTimer] else []) @
          (if to_syncDebounce s then [ClearDebounce] else []) @
          (case to_threadId s of None \<Rightarrow> [] | Some t \<Rightarrow> [HintRemoveKey (hintKeyId t)]) @
          (if to_isListening s then [GossipOff, PeersOff] else []) @
          (if to_watching s then [UnwatchTopic] else []))
         (s\<lparr>to_firstPeerAt := None, to_verdictTimer := False, to_syncDebounce := False, to_isListening := False,
            to_watching := False, to_dag := dag_new [], to_seenPacketIds := [], to_boardId := None, to_boardKey := None,
            to_threadId := None, to_threadKey := None, to_topicHash := None\<rparr>)) (\<lambda>s.
     then_step (to_updateStatus PhIdle NoMsg False 0 s) (\<lambda>s. to_notify e s))"

text \<open>\<open>activate\<close> up to its first wait. A key of a wrong length throws in the middle.\<close>

definition to_switch :: "orch_env \<Rightarrow> string \<Rightarrow> string \<Rightarrow> bytes \<Rightarrow> thread_orch \<Rightarrow> to_step" where
  "to_switch e b t boardKey s =
     (if to_threadId s = Some t then effects [] s
      else
        then_step (to_clear e s) (\<lambda>s.
          let s1 = s\<lparr>to_boardId := Some b, to_threadId := Some t\<rparr> in
          case deriveThreadKey (ov_S e) boardKey t of
            None \<Rightarrow> (Inl TypeError, [], s1)
          | Some k \<Rightarrow>
              (let topic = deriveTopicHash (ov_S e) k in
               effects [WatchTopic topic]
                 (s1\<lparr>to_threadKey := Some k, to_topicHash := Some topic, to_watching := True, to_dag := dag_new t\<rparr>))))"

definition to_listen :: "string \<Rightarrow> bytes \<Rightarrow> thread_orch \<Rightarrow> to_step" where
  "to_listen t k s =
     (if to_isListening s then effects [] s
      else effects [GossipOn, PeersOn, HintAddKey (hintKeyId t) k, HintOnBody] (s\<lparr>to_isListening := True\<rparr>))"

definition to_activate :: "orch_env \<Rightarrow> string \<Rightarrow> string \<Rightarrow> bytes \<Rightarrow> thread_orch \<Rightarrow> to_step" where
  "to_activate e b t boardKey s =
     then_step (to_switch e b t boardKey s) (\<lambda>s.
       case to_threadKey s of
         None \<Rightarrow> effects [] s
       | Some k \<Rightarrow>
           then_step (to_updateStatus PhLoading LoadingLogs False 0 s) (\<lambda>s.
           then_step (to_listen t k s) (\<lambda>s.
             effects [] (to_new (\<lambda>i. to_wait i (ToCacheRead b t k)) s))))"

text \<open>\<open>fullSync\<close>: its run has no wait inside, so a second call joins it only within the same turn.\<close>

definition to_fullSync :: "orch_env \<Rightarrow> thread_orch \<Rightarrow> to_step" where
  "to_fullSync e s =
     (if ov_degree e = 0 then to_refreshEmptyStatus e s
      else then_step (to_updateStatus PhSyncing SyncingDht False 0 s) (\<lambda>s. to_refreshEmptyStatus e s))"

definition to_triggerInitialSync :: "orch_env \<Rightarrow> nat \<Rightarrow> thread_orch \<Rightarrow> to_step" where
  "to_triggerInitialSync e i s =
     then_step (if getCount (to_dag s) = 0 then to_updateStatus PhLoading SeekingPeers False 0 s else effects [] s)
       (\<lambda>s. if ov_degree e > 0 then to_fullSync e (to_done i s) else effects [] (to_wait i ToWaitPeer s))"

text \<open>The loop of \<open>loadInitialCache\<close>; a post that does not parse is passed over without a wait.\<close>

fun to_cache :: "orch_env \<Rightarrow> nat \<Rightarrow> string \<Rightarrow> string \<Rightarrow> bytes \<Rightarrow> bytes list \<Rightarrow> thread_orch \<Rightarrow> to_step" where
  "to_cache e i b t k [] s = to_triggerInitialSync e i s"
| "to_cache e i b t k (payload # rest) s =
     (case json_binary_parse (text_decode payload) of
        Inl _ \<Rightarrow> to_cache e i b t k rest s
      | Inr packet \<Rightarrow> effects [] (to_handle i b t k packet True (CacheCont b t k rest) s))"

definition to_onPeerConnect :: "orch_env \<Rightarrow> thread_orch \<Rightarrow> to_step" where
  "to_onPeerConnect e s =
     then_step
       (to_refreshEmptyStatus e (if getCount (to_dag s) = 0 then s\<lparr>to_firstPeerAt := Some (ov_now e)\<rparr> else s)) (\<lambda>s.
       if to_boardId s = None \<or> to_threadId s = None \<or> to_boardKey s = None then effects [] s
       else effects ((if to_syncDebounce s then [ClearDebounce] else []) @ [SetDebounce]) (s\<lparr>to_syncDebounce := True\<rparr>))"

definition to_debounced :: "orch_env \<Rightarrow> thread_orch \<Rightarrow> to_step" where
  "to_debounced e s =
     (let s1 = s\<lparr>to_syncDebounce := False\<rparr> in
      if to_boardId s1 = None \<or> to_threadId s1 = None \<or> to_boardKey s1 = None then effects [] s1 else to_fullSync e s1)"

subsection \<open>Replying\<close>

definition reply_req :: "orch_env \<Rightarrow> string \<Rightarrow> string \<Rightarrow> string \<Rightarrow> string list \<Rightarrow> jsval \<Rightarrow> post_req" where
  "reply_req e text b t tips nextWeight =
     \<lparr>pq_content = text, pq_boardId = b, pq_threadId = t, pq_postNumber = 0, pq_replyTo = Null,
      pq_difficulty = NETWORK_DIFFICULTY, pq_depth = ov_depth e, pq_postType = 0, pq_parents = tips, pq_threadRoot = t,
      pq_cumulativePow = nextWeight\<rparr>"

definition reply_fail :: "nat option \<Rightarrow> thread_orch \<Rightarrow> to_step" where
  "reply_fail i s =
     to_updateStatus PhError SubmitFailed False 0 (case i of None \<Rightarrow> s | Some i \<Rightarrow> to_done i s)"

text \<open>\<open>submitReply\<close> up to the wait for the packet.\<close>

definition to_submitReply :: "orch_env \<Rightarrow> string \<Rightarrow> thread_orch \<Rightarrow> to_step" where
  "to_submitReply e text s =
     (case (to_threadKey s, to_threadId s, to_topicHash s, to_boardId s) of
        (Some k, Some t, Some _, Some b) \<Rightarrow>
          if text = [] then effects [] s
          else
            then_step (to_updateStatus PhSubmitting Building True 20 s) (\<lambda>s.
              case rbind (getTips (ov_dag e) (to_dag s)) (\<lambda>tips.
                   rbind (getMaxCumulativePow (ov_dag e) (to_dag s)) (\<lambda>w.
                   rbind (js_add_num (ov_fmt e) w NETWORK_DIFFICULTY) (\<lambda>nextWeight. Inr (tips, nextWeight)))) of
                Inl _ \<Rightarrow> reply_fail None s
              | Inr (tips, nextWeight) \<Rightarrow>
                  effects [] (to_new (\<lambda>i. to_wait i (ToBuild k (reply_req e text b t tips nextWeight))) s))
      | _ \<Rightarrow> effects [] s)"

definition opt_str :: "string option \<Rightarrow> jsval" where
  "opt_str x = (case x of None \<Rightarrow> Null | Some t \<Rightarrow> JStr t)"

text \<open>The post shown at once; board and thread are the ones open now.\<close>

definition reply_post :: "post_req \<Rightarrow> jsval \<Rightarrow> thread_orch \<Rightarrow> dag_post" where
  "reply_post r packet s =
     \<lparr>dp_id = packet_id_of packet, dp_thread = opt_str (to_threadId s), dp_created = jget packet ''timestamp'',
      dp_parents = JArr (map JStr (pq_parents r)), dp_pow = pq_cumulativePow r,
      dp_rest = [(''content'', JStr (pq_content r)), (''post_number'', jint (pq_postNumber r)),
        (''board_id'', opt_str (to_boardId s)), (''thread_root'', opt_str (to_threadId s))]\<rparr>"

definition reply_save :: "orch_env \<Rightarrow> post_req \<Rightarrow> jsval \<Rightarrow> thread_orch \<Rightarrow> save_req" where
  "reply_save e r packet s =
     \<lparr>sr_board = opt_str (to_boardId s), sr_thread = opt_str (to_threadId s), sr_payload = packet_text (ov_fmt e) packet,
      sr_parents = JArr (map JStr (pq_parents r)), sr_pow = pq_cumulativePow r, sr_root = opt_str (to_threadId s),
      sr_created = jget packet ''timestamp''\<rparr>"

definition reply_send :: "orch_env \<Rightarrow> send_random \<Rightarrow> nat \<Rightarrow> jsval \<Rightarrow> thread_orch \<Rightarrow> to_step" where
  "reply_send e x i packet s =
     then_step (to_updateStatus PhSubmitting SentWaiting True 100 s) (\<lambda>s.
       case sendAnonymously e x i packet (to_threadKey s) of
         Inl _ \<Rightarrow> reply_fail (Some i) s
       | Inr (slot, fx) \<Rightarrow>
           then_step (effects fx (to_wait i (ToBroadcast slot (length (packet_text (ov_fmt e) packet))) s)) (\<lambda>s.
           then_step (to_updateStatus PhIdle Queued False 0 s) (\<lambda>s. effects [SetStatusTimer] s)))"

text \<open>\<open>submitReply\<close> with the packet built, and after the save.\<close>

definition to_built :: "orch_env \<Rightarrow> send_random \<Rightarrow> nat \<Rightarrow> post_req \<Rightarrow> jsval res \<Rightarrow> thread_orch \<Rightarrow> to_step" where
  "to_built e x i r built s =
     (case built of
        Inl _ \<Rightarrow> reply_fail (Some i) s
      | Inr packet \<Rightarrow>
          (case addPost (reply_post r packet s) (to_dag s) of
             (True, d) \<Rightarrow>
               catch_step
                 (then_step
                   (to_notify e (s\<lparr>to_dag := d, to_seenPacketIds := js_add (packet_id_of packet) (to_seenPacketIds s)\<rparr>)) (\<lambda>s.
                    effects [DbSave (reply_save e r packet s)] (to_wait i (ToReplySaved packet) s)))
                 (\<lambda>s. reply_fail (Some i) s)
           | (False, _) \<Rightarrow> reply_send e x i packet s))"

definition to_broadcastDone :: "nat \<Rightarrow> prepared_slot \<Rightarrow> nat \<Rightarrow> bool \<Rightarrow> thread_orch \<Rightarrow> to_step" where
  "to_broadcastDone i slot bodyBytes delivered s =
     (if \<not> delivered then to_updateStatus PhError AnonymousFailed False 0 (to_done i s)
      else effects [ReleaseHint (sl_hint slot) (int bodyBytes)] (to_done i s))"

subsection \<open>All events\<close>

datatype to_event =
    ToActivate string string bytes
  | ToGossip jsval
  | ToHintBody bytes string
  | ToPeer
  | ToResume nat send_random
  | ToCacheGot nat "bytes list"
  | ToPeerFound nat bool
  | ToSubmit string
  | ToBuilt nat build_input send_random
  | ToBroadcastDone nat bool
  | ToVerdict
  | ToDebounced
  | ToStatusTimer
  | ToClear
  | ToSubscribe nat
  | ToUnsubscribe nat
  | ToSubscribeStatus nat

text \<open>A task goes on by the event for what it waits for; the router and the peers only call while registered. An
  exception that reaches the top is a rejected promise.\<close>

fun to_exec :: "orch_env \<Rightarrow> to_event \<Rightarrow> thread_orch \<Rightarrow> to_step" where
  "to_exec e (ToActivate b t k) s = to_activate e b t k s"
| "to_exec e (ToGossip packet) s = effects [] (if to_isListening s then to_onGossipPacket packet s else s)"
| "to_exec e (ToHintBody body keyId) s = effects [] (to_onHintBody body keyId s)"
| "to_exec e ToPeer s = (if to_isListening s then to_onPeerConnect e s else effects [] s)"
| "to_exec e (ToResume i x) s =
     (case jm_get (to_tasks s) i of
        Some (ToOpen b t k packet fromDB c) \<Rightarrow> to_opened e i b t k packet fromDB c s
      | Some (ToSaved c) \<Rightarrow> effects [] (to_continue i c s)
      | Some (ToCache b t k rest) \<Rightarrow> to_cache e i b t k rest s
      | Some (ToReplySaved packet) \<Rightarrow> reply_send e x i packet s
      | _ \<Rightarrow> effects [] s)"
| "to_exec e (ToCacheGot i entries) s =
     (case jm_get (to_tasks s) i of
        Some (ToCacheRead b t k) \<Rightarrow> to_cache e i b t k entries s
      | _ \<Rightarrow> effects [] s)"
| "to_exec e (ToPeerFound i online) s =
     (case jm_get (to_tasks s) i of
        Some ToWaitPeer \<Rightarrow> if online then to_fullSync e (to_done i s) else to_refreshEmptyStatus e (to_done i s)
      | _ \<Rightarrow> effects [] s)"
| "to_exec e (ToSubmit text) s = to_submitReply e text s"
| "to_exec e (ToBuilt i b x) s =
     (case jm_get (to_tasks s) i of
        Some (ToBuild k r) \<Rightarrow> to_built e x i r (build_packet e b k r) s
      | _ \<Rightarrow> effects [] s)"
| "to_exec e (ToBroadcastDone i delivered) s =
     (case jm_get (to_tasks s) i of
        Some (ToBroadcast slot n) \<Rightarrow> to_broadcastDone i slot n delivered s
      | _ \<Rightarrow> effects [] s)"
| "to_exec e ToVerdict s = (if to_verdictTimer s then to_refreshEmptyStatus e (s\<lparr>to_verdictTimer := False\<rparr>) else effects [] s)"
| "to_exec e ToDebounced s = (if to_syncDebounce s then to_debounced e s else effects [] s)"
| "to_exec e ToStatusTimer s = to_updateStatus PhIdle NoMsg False 0 s"
| "to_exec e ToClear s = to_clear e s"
| "to_exec e (ToSubscribe l) s = effects [] (to_subscribe l s)"
| "to_exec e (ToUnsubscribe l) s = effects [] (to_unsubscribe l s)"
| "to_exec e (ToSubscribeStatus l) s = effects [] (to_subscribeStatus l s)"

abbreviation to_run :: "(orch_env \<times> to_event) list \<Rightarrow> thread_orch \<Rightarrow> orch_effect list \<times> thread_orch" where
  "to_run \<equiv> orch_run to_exec"

subsection \<open>What is shown comes from the thread\<close>

text \<open>Ordering the posts of a thread shows nothing that is not in it.\<close>

lemma sort_ids_set: "sort_ids e nodes is = Inr q \<Longrightarrow> set q = set is"
  by (auto simp: sort_ids_def split: if_splits)

lemma relax_ids:
  "relax e nodes cs deg queue = Inr (deg', queue') \<Longrightarrow> set queue' \<subseteq> set queue \<union> set cs"
proof (induction cs arbitrary: deg queue)
  case (Cons c cs)
  let ?n = "(case jm_get deg c of None \<Rightarrow> 0 | Some d \<Rightarrow> d) - 1"
  show ?case
  proof (cases "?n = 0")
    case True
    then obtain q where q: "sort_ids e nodes (queue @ [c]) = Inr q" "relax e nodes cs (jm_set c 0 deg) q = Inr (deg', queue')"
      using Cons.prems by (auto simp: Let_def rbind_Inr_iff)
    have "set q = set (queue @ [c])" using q(1) by (rule sort_ids_set)
    then show ?thesis using Cons.IH [OF q(2)] by auto
  next
    case False
    then show ?thesis using Cons.IH [of "jm_set c ?n deg" queue] Cons.prems by (auto simp: Let_def)
  qed
qed simp

lemma kahn_ids:
  "kahn e nodes children queue deg = Inr is \<Longrightarrow> set queue \<subseteq> A \<Longrightarrow>
     (\<And>i cs. jm_get children i = Some cs \<Longrightarrow> set cs \<subseteq> A) \<Longrightarrow> set is \<subseteq> A"
proof (induction e nodes children queue deg arbitrary: "is" rule: kahn.induct)
  case (2 e nodes children i queue deg)
  let ?cs = "case jm_get children i of None \<Rightarrow> [] | Some cs \<Rightarrow> cs"
  obtain deg' queue' js where r: "relax e nodes ?cs deg queue = Inr (deg', queue')"
    "kahn e nodes children queue' deg' = Inr js" "is = i # js"
    using "2.prems"(1) by (auto simp: rbind_Inr_iff)
  have cs: "set ?cs \<subseteq> A" using "2.prems"(3) by (cases "jm_get children i") auto
  have "set queue \<subseteq> A" using "2.prems"(2) by simp
  from relax_ids [OF r(1)] Un_least [OF this cs] have "set queue' \<subseteq> A" by (rule subset_trans)
  then show ?case using "2.IH" [OF r(1)] r "2.prems" by simp
qed simp

definition children_in :: "string set \<Rightarrow> (string, string list) jsmap \<Rightarrow> bool" where
  "children_in A m \<longleftrightarrow> (\<forall>i cs. jm_get m i = Some cs \<longrightarrow> set cs \<subseteq> A)"

lemma children_in_add: "children_in A m \<Longrightarrow> c \<in> A \<Longrightarrow> children_in A (add_child c p m)"
  by (cases "jm_get m p") (auto simp: children_in_def add_child_def)

lemma index_nodes_children:
  "index_nodes nodes ns ix = Inr ix' \<Longrightarrow> dp_id ` set ns \<subseteq> A \<Longrightarrow> children_in A (snd ix) \<Longrightarrow> children_in A (snd ix')"
proof (induction ns arbitrary: ix)
  case (Cons n ns)
  obtain ps where ps:
    "index_nodes nodes ns (jm_set (dp_id n) (int (length ps)) (fst ix), fold (add_child (dp_id n)) ps (snd ix)) = Inr ix'"
    using Cons.prems(1) by (auto simp: rbind_Inr_iff)
  have "children_in A m \<Longrightarrow> children_in A (fold (add_child (dp_id n)) qs m)" for qs m
    using Cons.prems(2) by (induction qs arbitrary: m) (auto intro: children_in_add)
  then show ?case using Cons.IH [OF ps] Cons.prems(2,3) by simp
qed simp

lemma sorted_posts_are_nodes:
  assumes "getSortedPosts e d = Inr posts" "\<forall>(i, n) \<in> set (dg_nodes d). dp_id n = i"
  shows "set posts \<subseteq> snd ` set (dg_nodes d)"
proof (cases "dg_nodes d = []")
  case False
  let ?N = "dg_nodes d" and ?ids = "set (jm_keys (dg_nodes d))"
  have ids: "dp_id ` set (map snd ?N) = ?ids" using assms(2) by force
  obtain ix queue "is" where r: "index_nodes ?N (map snd ?N) ([], []) = Inr ix"
    "sort_ids e ?N (map dp_id (filter (\<lambda>n. (case jm_get (fst ix) (dp_id n) of None \<Rightarrow> 0 | Some d \<Rightarrow> d) = 0) (map snd ?N))) = Inr queue"
    "kahn e ?N (snd ix) queue (fst ix) = Inr is" "posts = map (\<lambda>i. the (jm_get ?N i)) is"
    using assms(1) False by (auto simp: getSortedPosts_def Let_def rbind_Inr_iff)
  have "set queue \<subseteq> dp_id ` set (map snd ?N)" unfolding sort_ids_set [OF r(2)] by auto
  then have "set queue \<subseteq> ?ids" unfolding ids .
  moreover have "children_in ?ids (snd ix)" using index_nodes_children [OF r(1), of ?ids] ids by (simp add: children_in_def)
  ultimately have ids': "set is \<subseteq> ?ids" using kahn_ids [OF r(3), of ?ids] unfolding children_in_def by blast
  have n: "the (jm_get ?N i) \<in> snd ` set ?N" if "i \<in> ?ids" for i
  proof -
    have "jm_has ?N i" using that by (simp add: jm_has_iff)
    then obtain n where n: "jm_get ?N i = Some n" by (auto simp: jm_has_def)
    from jm_get_in_set [OF this] show ?thesis by (simp add: n rev_image_eqI)
  qed
  show ?thesis unfolding r(4) set_map by (rule image_subsetI) (rule n [OF subsetD [OF ids']])
qed (use assms in \<open>simp add: getSortedPosts_def\<close>)

definition key_of_thread :: "sodium \<Rightarrow> string \<Rightarrow> bytes \<Rightarrow> bool" where
  "key_of_thread S t k \<longleftrightarrow> (\<exists>boardKey. deriveThreadKey S boardKey t = Some k)"

text \<open>A post from a packet that opens under a key of the thread, says that it belongs there, and is signed.\<close>

definition from_packet :: "sodium \<Rightarrow> msgpack \<Rightarrow> string \<Rightarrow> dag_post \<Rightarrow> bool" where
  "from_packet S M t n \<longleftrightarrow>
     (\<exists>packet post k. key_of_thread S t k \<and> verifyAndDecrypt S M packet k = Inr (Some post) \<and> shown_authentic S M post \<and>
        jget post ''thread_id'' = JStr t \<and> n = thread_post packet post t)"

text \<open>A reply of this node, shown when it was built.\<close>

definition own_reply :: "string \<Rightarrow> dag_post \<Rightarrow> bool" where
  "own_reply t n \<longleftrightarrow> (\<exists>r packet s. to_threadId s = Some t \<and> n = reply_post r packet s)"

definition post_source :: "sodium \<Rightarrow> msgpack \<Rightarrow> string \<Rightarrow> dag_post \<Rightarrow> bool" where
  "post_source S M t n \<longleftrightarrow> dp_thread n = JStr t \<and> (from_packet S M t n \<or> own_reply t n)"

definition dag_fine :: "sodium \<Rightarrow> msgpack \<Rightarrow> thread_dag \<Rightarrow> bool" where
  "dag_fine S M d \<longleftrightarrow> (\<forall>(i, n) \<in> set (dg_nodes d). dp_id n = i \<and> post_source S M (dg_threadId d) n)"

fun cont_fine :: "sodium \<Rightarrow> to_cont \<Rightarrow> bool" where
  "cont_fine S NoCont \<longleftrightarrow> True"
| "cont_fine S (CacheCont b t k rest) \<longleftrightarrow> key_of_thread S t k"

fun to_task_fine :: "sodium \<Rightarrow> to_task \<Rightarrow> bool" where
  "to_task_fine S (ToOpen b t k packet fromDB c) \<longleftrightarrow> key_of_thread S t k \<and> cont_fine S c"
| "to_task_fine S (ToSaved c) \<longleftrightarrow> cont_fine S c"
| "to_task_fine S (ToCacheRead b t k) \<longleftrightarrow> key_of_thread S t k"
| "to_task_fine S (ToCache b t k rest) \<longleftrightarrow> key_of_thread S t k"
| "to_task_fine S _ \<longleftrightarrow> True"

definition to_ok :: "sodium \<Rightarrow> msgpack \<Rightarrow> thread_orch \<Rightarrow> bool" where
  "to_ok S M s \<longleftrightarrow>
     dag_fine S M (to_dag s) \<and> set (to_snapshot s) \<subseteq> snd ` set (dg_nodes (to_dag s)) \<and>
     (to_threadKey s \<noteq> None \<longrightarrow> to_threadId s = Some (dg_threadId (to_dag s))) \<and>
     (\<forall>t k. to_threadId s = Some t \<longrightarrow> to_threadKey s = Some k \<longrightarrow> key_of_thread S t k) \<and>
     (\<forall>(i, t) \<in> set (to_tasks s). to_task_fine S t)"

text \<open>What the invariant does not look at.\<close>

lemma to_ok_simps [simp]:
  "to_ok S M (s\<lparr>to_currentStatus := st\<rparr>) = to_ok S M s"
  "to_ok S M (s\<lparr>to_firstPeerAt := f\<rparr>) = to_ok S M s"
  "to_ok S M (s\<lparr>to_verdictTimer := b\<rparr>) = to_ok S M s"
  "to_ok S M (s\<lparr>to_syncDebounce := b\<rparr>) = to_ok S M s"
  "to_ok S M (s\<lparr>to_seenPacketIds := is\<rparr>) = to_ok S M s"
  "to_ok S M (s\<lparr>to_seq := n\<rparr>) = to_ok S M s"
  "to_ok S M (s\<lparr>to_isListening := b\<rparr>) = to_ok S M s"
  "to_ok S M (s\<lparr>to_listeners := ls\<rparr>) = to_ok S M s"
  "to_ok S M (s\<lparr>to_statusListeners := ls\<rparr>) = to_ok S M s"
  by (simp_all add: to_ok_def)

named_theorems to_intro

lemma to_then_ok:
  "to_ok S M (step_state x) \<Longrightarrow> (\<And>s. to_ok S M s \<Longrightarrow> to_ok S M (step_state (f s))) \<Longrightarrow> to_ok S M (step_state (then_step x f))"
  by (rule then_step_state [where Q = "to_ok S M"])

lemma to_catch_ok:
  "to_ok S M (step_state x) \<Longrightarrow> (\<And>s. to_ok S M s \<Longrightarrow> to_ok S M (step_state (f s))) \<Longrightarrow> to_ok S M (step_state (catch_step x f))"
  by (rule catch_step_state [where Q = "to_ok S M"])

lemma to_updateStatus_ok [to_intro]: "to_ok S M s \<Longrightarrow> to_ok S M (step_state (to_updateStatus ph m sub n s))"
  by (simp add: to_updateStatus_def Let_def)

lemma to_refresh_ok [to_intro]: "to_ok S M s \<Longrightarrow> to_ok S M (step_state (to_refreshEmptyStatus e s))"
  unfolding to_refreshEmptyStatus_def Let_def by (auto intro!: to_then_ok to_updateStatus_ok)

lemma to_wait_ok [to_intro]: "to_ok S M s \<Longrightarrow> to_task_fine S t \<Longrightarrow> to_ok S M (to_wait i t s)"
  by (auto simp: to_ok_def to_wait_def dest!: jm_set_in)

lemma to_done_ok [to_intro]: "to_ok S M s \<Longrightarrow> to_ok S M (to_done i s)"
  by (auto simp: to_ok_def to_done_def set_jm_del)

lemma to_continue_ok [to_intro]: "to_ok S M s \<Longrightarrow> cont_fine S c \<Longrightarrow> to_ok S M (to_continue i c s)"
  by (auto simp: to_continue_def intro: to_wait_ok to_done_ok split: to_cont.split)

lemma to_new_ok [to_intro]: "to_ok S M s \<Longrightarrow> (\<And>i s. to_ok S M s \<Longrightarrow> to_ok S M (f i s)) \<Longrightarrow> to_ok S M (to_new f s)"
  by (simp add: to_new_def)

lemma to_notify_ok [to_intro]: "to_ok S M s \<Longrightarrow> to_ok S M (step_state (to_notify e s))"
proof (cases "getSortedPosts (ov_dag e) (to_dag s)")
  case (Inr posts)
  assume ok: "to_ok S M s"
  then have "\<forall>(i, n) \<in> set (dg_nodes (to_dag s)). dp_id n = i" by (auto simp: to_ok_def dag_fine_def)
  from sorted_posts_are_nodes [OF Inr this] show ?thesis using ok Inr by (simp add: to_notify_def to_ok_def)
qed (simp add: to_notify_def)

lemma to_handle_ok [to_intro]:
  "to_ok S M s \<Longrightarrow> key_of_thread S t k \<Longrightarrow> cont_fine S c \<Longrightarrow> to_ok S M (to_handle i b t k packet fromDB c s)"
  by (auto simp: to_handle_def intro!: to_continue_ok to_wait_ok)

lemma addPost_ok:
  assumes "to_ok S M s" "addPost n (to_dag s) = (True, d)"
    and "dp_thread n = JStr (dg_threadId (to_dag s)) \<Longrightarrow> post_source S M (dg_threadId (to_dag s)) n"
  shows "to_ok S M (s\<lparr>to_dag := d\<rparr>)"
proof -
  have d: "d = to_dag s\<lparr>dg_nodes := jm_set (dp_id n) n (dg_nodes (to_dag s))\<rparr>" "\<not> jm_has (dg_nodes (to_dag s)) (dp_id n)"
    "dp_thread n = JStr (dg_threadId (to_dag s))"
    using assms(2) by (auto simp: addPost_def split: if_splits)
  then have "dg_nodes d = dg_nodes (to_dag s) @ [(dp_id n, n)]" "dg_threadId d = dg_threadId (to_dag s)"
    by (simp_all add: jm_set_new)
  then show ?thesis using assms(1) assms(3) [OF d(3)] by (auto simp: to_ok_def dag_fine_def)
qed

lemma to_opened_ok [to_intro]:
  assumes ok: "to_ok (ov_S e) (ov_M e) s" and k: "key_of_thread (ov_S e) t k" "cont_fine (ov_S e) c"
  shows "to_ok (ov_S e) (ov_M e) (step_state (to_opened e i b t k packet fromDB c s))"
proof -
  let ?S = "ov_S e" and ?M = "ov_M e"
  have go: "to_ok ?S ?M s \<Longrightarrow> to_ok ?S ?M (step_state (effects fx (to_continue i c s)))" for fx s
    using k(2) by (simp add: to_continue_ok)
  show ?thesis
  proof (cases "verifyAndDecrypt ?S ?M packet k")
    case (Inr o')
    show ?thesis
    proof (cases o')
      case (Some post)
      have v: "verifyAndDecrypt ?S ?M packet k = Inr (Some post)" using Inr Some by simp
      obtain enc inner where "verify_inner ?S ?M enc inner = Inr (Some post)" using v by (elim verifyAndDecrypt_Some)
      then have a: "shown_authentic ?S ?M post" by (rule verify_inner_authentic)
      let ?n = "thread_post packet post t"
      obtain isNew d where ad: "addPost ?n (to_dag s) = (isNew, d)" by force
      show ?thesis
      proof (cases "jget post ''thread_id'' = JStr t \<and> jget post ''post_type'' = jint 0 \<and> isNew")
        case True
        have src: "from_packet ?S ?M t ?n" using k(1) v a True unfolding from_packet_def by blast
        have th: "dp_thread ?n = JStr t" using True by (simp add: thread_post_def)
        have "t = dg_threadId (to_dag s)" using ad True th by (auto simp: addPost_def split: if_splits)
        then have ps: "post_source ?S ?M (dg_threadId (to_dag s)) ?n" using src th unfolding post_source_def by metis
        have "addPost ?n (to_dag s) = (True, d)" using ad True by simp
        then have "to_ok ?S ?M (s\<lparr>to_dag := d\<rparr>)" by (rule addPost_ok [OF ok]) (rule ps)
        then show ?thesis
          using v ad True k(2) by (auto simp: to_opened_def intro!: to_catch_ok to_then_ok to_notify_ok
              to_refresh_ok to_wait_ok to_continue_ok)
      next
        case False
        then show ?thesis using v ad go [OF ok] by (auto simp: to_opened_def Let_def)
      qed
    qed (use Inr go [OF ok] in \<open>simp add: to_opened_def\<close>)
  qed (use go [OF ok] in \<open>simp add: to_opened_def\<close>)
qed

lemma to_clear_ok [to_intro]:
  assumes "to_ok S M s"
  shows "to_ok S M (step_state (to_clear e s))"
proof -
  have empty: "to_ok S M (s\<lparr>to_firstPeerAt := None, to_verdictTimer := False, to_syncDebounce := False, to_isListening := False,
      to_watching := False, to_dag := dag_new [], to_seenPacketIds := [], to_boardId := None, to_boardKey := None,
      to_threadId := None, to_threadKey := None, to_topicHash := None, to_snapshot := []\<rparr>)"
    using assms by (auto simp: to_ok_def dag_fine_def dag_new_def)
  have "step_state (to_clear e s) = step_state (to_updateStatus PhIdle NoMsg False 0
      (s\<lparr>to_firstPeerAt := None, to_verdictTimer := False, to_syncDebounce := False, to_isListening := False,
      to_watching := False, to_dag := dag_new [], to_seenPacketIds := [], to_boardId := None, to_boardKey := None,
      to_threadId := None, to_threadKey := None, to_topicHash := None, to_snapshot := []\<rparr>))"
    by (simp add: to_clear_def then_step_def effects_def to_updateStatus_def to_notify_def getSortedPosts_def dag_new_def Let_def)
  then show ?thesis using to_updateStatus_ok [OF empty] by (simp only:)
qed

lemma to_clear_result:
  "fst (to_clear e s) = Inr ()" "to_threadId (step_state (to_clear e s)) = None" "to_threadKey (step_state (to_clear e s)) = None"
  "to_dag (step_state (to_clear e s)) = dag_new []" "to_snapshot (step_state (to_clear e s)) = []"
  "to_tasks (step_state (to_clear e s)) = to_tasks s" "to_isListening (step_state (to_clear e s)) = False"
  "to_seq (step_state (to_clear e s)) = to_seq s"
  by (simp_all add: to_clear_def then_step_def effects_def to_updateStatus_def to_notify_def getSortedPosts_def dag_new_def Let_def)

lemma to_switch_ok [to_intro]:
  assumes "to_ok (ov_S e) M s"
  shows "to_ok (ov_S e) M (step_state (to_switch e b t boardKey s))"
proof (cases "to_threadId s = Some t")
  case False
  obtain fx s0 where c: "to_clear e s = (Inr (), fx, s0)" using to_clear_result(1) [of e s] by (metis prod.collapse)
  have ok: "to_ok (ov_S e) M s0" using to_clear_ok [OF assms, of e] by (simp add: c)
  have z: "to_dag s0 = dag_new []" "to_snapshot s0 = []" "to_threadKey s0 = None" using to_clear_result [of e s] by (simp_all add: c)
  show ?thesis
    using ok z False by (auto simp: to_switch_def c then_step_def effects_def Let_def to_ok_def dag_fine_def dag_new_def
        key_of_thread_def split: option.split)
qed (use assms in \<open>simp add: to_switch_def\<close>)

lemma to_activate_ok [to_intro]:
  assumes "to_ok (ov_S e) M s"
  shows "to_ok (ov_S e) M (step_state (to_activate e b t boardKey s))"
proof -
  have switched: "to_ok (ov_S e) M (step_state (to_switch e b t boardKey s))" using assms by (rule to_switch_ok)
  have thr: "to_threadId (step_state (to_switch e b t boardKey s)) = Some t"
    using to_clear_result(1) [of e s]
    by (cases "to_clear e s" rule: prod_cases3) (auto simp: to_switch_def then_step_def effects_def Let_def split: option.split)
  define s1 where "s1 = step_state (to_switch e b t boardKey s)"
  have "to_ok (ov_S e) M (step_state (case to_threadKey s1 of None \<Rightarrow> effects [] s1
      | Some k \<Rightarrow> then_step (to_updateStatus PhLoading LoadingLogs False 0 s1) (\<lambda>s.
           then_step (to_listen t k s) (\<lambda>s. effects [] (to_new (\<lambda>i. to_wait i (ToCacheRead b t k)) s)))))"
  proof (cases "to_threadKey s1")
    case (Some k)
    have "key_of_thread (ov_S e) t k" using switched thr Some unfolding s1_def to_ok_def by blast
    then show ?thesis using switched Some
      by (auto simp: to_listen_def s1_def intro!: to_then_ok to_updateStatus_ok to_new_ok to_wait_ok)
  qed (use switched in \<open>simp add: s1_def\<close>)
  then show ?thesis using switched unfolding to_activate_def step_state_then s1_def by (simp split: sum.split)
qed

lemma to_fullSync_ok [to_intro]: "to_ok S M s \<Longrightarrow> to_ok S M (step_state (to_fullSync e s))"
  unfolding to_fullSync_def by (auto intro!: to_then_ok to_updateStatus_ok to_refresh_ok)

lemma to_cache_ok [to_intro]:
  "to_ok S M s \<Longrightarrow> key_of_thread S t k \<Longrightarrow> to_ok S M (step_state (to_cache e i b t k entries s))"
proof (induction entries)
  case Nil
  then show ?case unfolding to_cache.simps to_triggerInitialSync_def
    by (auto intro!: to_then_ok to_updateStatus_ok to_fullSync_ok to_done_ok to_wait_ok)
next
  case (Cons x xs)
  then show ?case by (cases "json_binary_parse (text_decode x)") (auto intro!: to_handle_ok)
qed

lemma to_peer_ok [to_intro]: "to_ok S M s \<Longrightarrow> to_ok S M (step_state (to_onPeerConnect e s))"
  "to_ok S M s \<Longrightarrow> to_ok S M (step_state (to_debounced e s))"
  unfolding to_onPeerConnect_def to_debounced_def Let_def by (auto intro!: to_then_ok to_refresh_ok to_fullSync_ok)

lemma reply_fail_ok [to_intro]: "to_ok S M s \<Longrightarrow> to_ok S M (step_state (reply_fail i s))"
  unfolding reply_fail_def by (cases i) (auto intro!: to_updateStatus_ok to_done_ok)

lemma to_submit_ok [to_intro]: "to_ok S M s \<Longrightarrow> to_ok S M (step_state (to_submitReply e text s))"
  unfolding to_submitReply_def
  by (auto intro!: to_then_ok to_updateStatus_ok reply_fail_ok to_new_ok to_wait_ok split: option.split sum.split prod.split)

lemma reply_send_ok [to_intro]: "to_ok S M s \<Longrightarrow> to_ok S M (step_state (reply_send e x i packet s))"
  unfolding reply_send_def
  by (auto intro!: to_then_ok to_updateStatus_ok reply_fail_ok to_wait_ok split: sum.split prod.split)

lemma to_built_ok [to_intro]:
  assumes "to_ok S M s"
  shows "to_ok S M (step_state (to_built e x i r built s))"
proof (cases built)
  case (Inr packet)
  obtain isNew d where ad: "addPost (reply_post r packet s) (to_dag s) = (isNew, d)" by force
  show ?thesis
  proof (cases isNew)
    case True
    have ps: "post_source S M (dg_threadId (to_dag s)) (reply_post r packet s)"
      if h: "dp_thread (reply_post r packet s) = JStr (dg_threadId (to_dag s))"
    proof -
      have "to_threadId s = Some (dg_threadId (to_dag s))"
        using h by (auto simp: reply_post_def opt_str_def split: option.splits)
      then show ?thesis using h unfolding post_source_def own_reply_def by blast
    qed
    have "addPost (reply_post r packet s) (to_dag s) = (True, d)" using ad True by simp
    then have ok: "to_ok S M (s\<lparr>to_dag := d\<rparr>)" by (rule addPost_ok [OF assms]) (rule ps)
    have "to_ok S M (s\<lparr>to_dag := d, to_seenPacketIds := js_add (packet_id_of packet) (to_seenPacketIds s)\<rparr>)"
      using ok by simp
    then show ?thesis using Inr ad True
      by (auto simp: to_built_def intro!: to_catch_ok to_then_ok to_notify_ok to_wait_ok reply_fail_ok)
  qed (use Inr ad assms in \<open>auto simp: to_built_def intro!: reply_send_ok\<close>)
qed (use assms in \<open>auto simp: to_built_def intro!: reply_fail_ok\<close>)

lemma to_packets_ok [to_intro]:
  assumes "to_ok S M s"
  shows "to_ok S M (to_onGossipPacket packet s)" "to_ok S M (to_onHintBody body keyId s)"
proof -
  have "key_of_thread S t k" if "to_threadId s = Some t" "to_threadKey s = Some k" for t k
    using assms that unfolding to_ok_def by blast
  then show "to_ok S M (to_onGossipPacket packet s)" "to_ok S M (to_onHintBody body keyId s)"
    using assms
    by (auto simp: to_onGossipPacket_def to_onHintBody_def intro!: to_new_ok to_handle_ok split: option.split sum.split)
qed

lemma to_exec_ok:
  assumes "to_ok (ov_S e) (ov_M e) s"
  shows "to_ok (ov_S e) (ov_M e) (step_state (to_exec e ev s))"
proof -
  have task: "to_task_fine (ov_S e) t" if "jm_get (to_tasks s) i = Some t" for i t
    using assms jm_get_in_set [OF that] by (auto simp: to_ok_def)
  show ?thesis
  proof (cases ev)
    case (ToResume i x)
    show ?thesis
    proof (cases "jm_get (to_tasks s) i")
      case (Some t)
      show ?thesis using task [OF Some] Some assms ToResume
        by (cases t) (auto intro!: to_opened_ok to_continue_ok to_cache_ok reply_send_ok)
    qed (use assms ToResume in simp)
  next
    case (ToCacheGot i entries)
    show ?thesis
    proof (cases "jm_get (to_tasks s) i")
      case (Some t)
      show ?thesis using task [OF Some] Some assms ToCacheGot by (cases t) (auto intro!: to_cache_ok)
    qed (use assms ToCacheGot in simp)
  qed (use assms in \<open>auto simp: to_subscribe_def to_unsubscribe_def to_subscribeStatus_def to_broadcastDone_def
      intro!: to_intro split: option.split to_task.split\<close>)
qed

interpretation to_inv: kept_by_steps to_exec "\<lambda>(e, ev). ov_S e = S \<and> ov_M e = M" "to_ok S M" for S M
  by unfold_locales (auto intro: to_exec_ok)

lemma to_init_ok: "to_ok S M to_init"
  by (simp add: to_ok_def to_init_def dag_fine_def dag_new_def)


subsection \<open>A reply that is built while the reader moves on\<close>

text \<open>C27: The packet of a reply was made for thread \<open>r\<close> and encrypted with its key. By the time it is built, another
  thread may be open: the reply is shown there, saved under its name, and announced by a slot made with its key.\<close>

theorem reply_follows_the_reader:
  assumes "jm_get (to_tasks s) i = Some (ToBuild k r)" "build_packet e b k r = Inr packet"
    and "to_threadId s = Some t" "to_threadKey s = Some k'" "dg_threadId (to_dag s) = t"
    and "\<not> jm_has (dg_nodes (to_dag s)) (packet_id_of packet)"
    and "getSortedPosts (ov_dag e) (to_dag s\<lparr>dg_nodes := dg_nodes (to_dag s) @ [(packet_id_of packet, reply_post r packet s)]\<rparr>) = Inr posts"
    and "prepareSlot (ov_S e') (sx_nonce x') (sx_hintNonce x') (ov_now e') k' (randomMessageId (sx_messageId x')) = Inr slot"
  shows "\<exists>fx s'. to_run [(e, ToBuilt i b x), (e', ToResume i x')] s = (fx, s') \<and> to_threadId s' = Some t \<and>
    to_snapshot s' = posts \<and> DbSave (reply_save e r packet s) \<in> set fx \<and> sr_thread (reply_save e r packet s) = JStr t \<and>
    Broadcast i packet slot \<in> set fx"
proof -
  let ?n = "reply_post r packet s"
  let ?d = "to_dag s\<lparr>dg_nodes := dg_nodes (to_dag s) @ [(packet_id_of packet, ?n)]\<rparr>"
  have n: "dp_id ?n = packet_id_of packet" "dp_thread ?n = JStr t" using assms(3) by (simp_all add: reply_post_def opt_str_def)
  have add: "addPost ?n (to_dag s) = (True, ?d)" using assms(5,6) n by (simp add: addPost_def jm_set_new)
  define s1 where "s1 = to_wait i (ToReplySaved packet) (s\<lparr>to_dag := ?d,
      to_seenPacketIds := js_add (packet_id_of packet) (to_seenPacketIds s), to_snapshot := posts\<rparr>)"
  have x1: "to_exec e (ToBuilt i b x) s =
      (Inr (), map ListenerCall (to_listeners s) @ [DbSave (reply_save e r packet s)], s1)"
    using assms(1,2,7) add
    by (simp add: to_built_def to_notify_def then_step_def catch_step_def effects_def s1_def reply_save_def)
  have s1: "jm_get (to_tasks s1) i = Some (ToReplySaved packet)" "to_threadKey s1 = Some k'" "to_threadId s1 = Some t" "to_snapshot s1 = posts"
    using assms(3,4) by (simp_all add: s1_def to_wait_def)
  have "\<exists>fx s'. to_exec e' (ToResume i x') s1 = (Inr (), fx, s') \<and> to_threadId s' = Some t \<and> to_snapshot s' = posts \<and>
      Broadcast i packet slot \<in> set fx"
    using s1 assms(8)
    by (simp add: reply_send_def then_step_def effects_def to_updateStatus_def sendAnonymously_def to_wait_def Let_def)
  then obtain fx2 s2 where x2: "to_exec e' (ToResume i x') s1 = (Inr (), fx2, s2)" "to_threadId s2 = Some t"
    "to_snapshot s2 = posts" "Broadcast i packet slot \<in> set fx2" by blast
  have "sr_thread (reply_save e r packet s) = JStr t" using assms(3) by (simp add: reply_save_def opt_str_def)
  then show ?thesis using x2(2-4) by (simp add: x1 x2(1) del: to_exec.simps)
qed

subsection \<open>A reader's node\<close>

definition toy_orch_env :: orch_env where
  "toy_orch_env = \<lparr>ov_S = toy_sodium, ov_M = toy_msgpack, ov_now = 90000, ov_degree = 1, ov_depth = 0,
     ov_dag = \<lparr>da_fmt = (\<lambda>_. []), da_coll = (default :: string comparator), da_anySort = Inr\<rparr>\<rparr>"

definition toy_builder :: build_input where
  "toy_builder = \<lparr>bi_identity = toy_writer, bi_iterations = 1, bi_now = 1700000000000, bi_nonce = replicate 12 1\<rparr>"

definition toy_draw :: send_random where
  "toy_draw = \<lparr>sx_nonce = replicate 32 5, sx_hintNonce = replicate 12 2, sx_messageId = [77]\<rparr>"

lemma toy_builds:
  assumes "length k = 32" "pq_difficulty r = 12" "pq_depth r = 0"
  shows "\<exists>packet. build_packet toy_orch_env toy_builder k r = Inr packet"
proof -
  obtain c where c: "ce_encrypt toy_sodium k (replicate 12 1) [] = Inr c" "length c \<le> 0xffffffff"
    using assms(1) by (simp add: ce_encrypt_def toy_sodium_def POST_MAGIC_def)
  let ?h = "committed_header toy_sodium k r 1699999980000 (replicate 12 1) c"
  have ok: "header_ok ?h" using c(2) assms(2,3) by (simp add: header_ok_def committed_header_def computeZoneId_def max_safe_def)
  have d: "ph_difficulty ?h = jint 12" using assms(2) by (simp add: committed_header_def)
  have n: "pow_compute toy_sodium 1 ?h = Inr 0" using toy_solvePow [OF ok] by (simp add: pow_compute_def d)
  obtain i where i: "derivePacketId toy_sodium ?h = Inr i"
    using ok powPreimage_ok_iff [of ?h] by (auto simp: derivePacketId_def)
  have t: "roundToMinute 1700000000000 = 1699999980000" by (simp add: roundToMinute_def)
  have "build_packet toy_orch_env toy_builder k r = Inr (packet_obj i 0 ?h)"
    using n by (simp add: build_packet_def toy_orch_env_def toy_builder_def pb_build_def t toy_msgpack_def c Let_def i)
  then show ?thesis by blast
qed

lemma sorted_single:
  "dp_id n = i \<Longrightarrow> dp_parents n = JArr [] \<Longrightarrow> getSortedPosts e \<lparr>dg_nodes = [(i, n)], dg_threadId = t\<rparr> = Inr [n]"
  by (auto simp: getSortedPosts_def validParents_def sort_ids_def)

theorem reply_follows_the_reader_witness:
  "\<exists>s k r packet slot fx s'. jm_get (to_tasks s) 0 = Some (ToBuild k r) \<and> pq_threadId r = ''t1'' \<and>
     to_run [(toy_orch_env, ToBuilt 0 toy_builder toy_draw), (toy_orch_env, ToResume 0 toy_draw)] s = (fx, s') \<and>
     DbSave (reply_save toy_orch_env r packet s) \<in> set fx \<and> sr_thread (reply_save toy_orch_env r packet s) = JStr ''t2'' \<and>
     Broadcast 0 packet slot \<in> set fx"
proof -
  let ?k = "replicate 32 7" and ?r = "toy_req\<lparr>pq_parents := []\<rparr>"
  let ?s = "to_init\<lparr>to_boardId := Some ''tech'', to_threadId := Some ''t2'', to_threadKey := Some (replicate 32 1),
      to_dag := dag_new ''t2'', to_tasks := [(0, ToBuild ?k ?r)]\<rparr>"
  obtain packet where p: "build_packet toy_orch_env toy_builder ?k ?r = Inr packet"
    using toy_builds [of ?k ?r] by (auto simp: toy_req_def)
  have sorted: "getSortedPosts (ov_dag toy_orch_env)
      (to_dag ?s\<lparr>dg_nodes := dg_nodes (to_dag ?s) @ [(packet_id_of packet, reply_post ?r packet ?s)]\<rparr>) = Inr [reply_post ?r packet ?s]"
    by (simp add: dag_new_def sorted_single reply_post_def)
  have q: "randomMessageId (sx_messageId toy_draw) = 77" by (simp add: randomMessageId_def toy_draw_def)
  obtain slot where slot: "prepareSlot (ov_S toy_orch_env) (sx_nonce toy_draw) (sx_hintNonce toy_draw) (ov_now toy_orch_env)
      (replicate 32 1) (randomMessageId (sx_messageId toy_draw)) = Inr slot"
    using toy_slot unfolding q by (auto simp: toy_draw_def toy_orch_env_def)
  have "jm_get (to_tasks ?s) 0 = Some (ToBuild ?k ?r)" "to_threadId ?s = Some ''t2''" "to_threadKey ?s = Some (replicate 32 1)"
    "dg_threadId (to_dag ?s) = ''t2''" "\<not> jm_has (dg_nodes (to_dag ?s)) (packet_id_of packet)" "pq_threadId ?r = ''t1''"
    by (simp_all add: dag_new_def toy_req_def jm_has_def)
  with reply_follows_the_reader [of ?s 0 ?k ?r toy_orch_env toy_builder packet "''t2''" "replicate 32 1" _ toy_orch_env toy_draw slot toy_draw,
      OF _ p _ _ _ _ sorted slot]
  show ?thesis by blast
qed

lemma toy_activated:
  fixes s1 defines "s1 \<equiv> step_state (to_exec toy_orch_env (ToActivate ''b'' ''t1'' (replicate 32 1)) to_init)"
  shows "to_threadKey s1 = Some (pad_to 32 (utf8 ''thread:t1''))" "to_threadId s1 = Some ''t1''" "to_boardId s1 = Some ''b''"
    "to_dag s1 = dag_new ''t1''" "to_topicHash s1 \<noteq> None" "to_seq s1 = 1"
proof -
  have k: "deriveThreadKey (ov_S toy_orch_env) (replicate 32 1) ''t1'' = Some (pad_to 32 (utf8 ''thread:t1''))"
    by (simp add: deriveThreadKey_def toy_sodium_def toy_orch_env_def)
  have c: "to_clear toy_orch_env to_init = (Inr (), [], to_init)"
    by (simp add: to_clear_def then_step_def effects_def to_updateStatus_def to_notify_def getSortedPosts_def dag_new_def
        to_init_def idle_status_def Let_def)
  have i: "to_threadId to_init = None" "to_isListening to_init = False" "to_seq to_init = 0" by (simp_all add: to_init_def)
  show "to_threadKey s1 = Some (pad_to 32 (utf8 ''thread:t1''))" "to_threadId s1 = Some ''t1''" "to_boardId s1 = Some ''b''"
    "to_dag s1 = dag_new ''t1''" "to_topicHash s1 \<noteq> None" "to_seq s1 = 1"
    by (simp_all add: i s1_def to_activate_def to_switch_def c k then_step_def effects_def to_updateStatus_def to_listen_def
        to_new_def to_wait_def Let_def)
qed


end
