(* ===== verification/Gossip.thy ===== *)
theory Gossip
  imports Validator SeenCache Zone Dandelion
begin

text \<open>
  \<open>packages/core/src/network/gossip/ZoneGossipRouter.ts\<close>: reception, local delivery and flooding of
  gossip packets. Its effects (frames sent, callbacks of listeners, cells handed to the onion circuit)
  are returned as a list. The lemmas show that relaying depends on nothing local, that a packet is
  flooded at most once, that nothing invalid has any effect, and that one's own posts leave the
  node through the circuit only.
\<close>

subsection \<open>State and effects\<close>

record gossip_peer =
  gs_peerId :: peer_id
  gs_isConnected :: bool
  gs_isVerified :: bool

datatype gossip_effect =
    SendGossip peer_id jsval
  | DeliverTo nat jsval
  | OnionSend jsval string
  | EchoResolved nat

record gossip_state =
  gs_flooded :: seen_cache
  gs_delivered :: seen_cache
  gs_listeners :: "nat list"
  gs_dandelion :: dandelion

definition gossip_init :: gossip_state where
  "gossip_init = \<lparr>gs_flooded = [], gs_delivered = [], gs_listeners = [], gs_dandelion = dandelion_init\<rparr>"

text \<open>The outside world of one call: the clock, the neighbours, the zone state, one's own identifier.\<close>

record gossip_env =
  ge_now :: int
  ge_peers :: "gossip_peer list"
  ge_zone :: zone_state
  ge_myPeerId :: peer_id

subsection \<open>Operations\<close>

definition onMessage :: "nat \<Rightarrow> gossip_state \<Rightarrow> gossip_state" where
  "onMessage h s = s\<lparr>gs_listeners := gs_listeners s @ [h]\<rparr>"

definition offMessage :: "nat \<Rightarrow> gossip_state \<Rightarrow> gossip_state" where
  "offMessage h s = s\<lparr>gs_listeners := filter (\<lambda>x. x \<noteq> h) (gs_listeners s)\<rparr>"

definition deliverLocal :: "gossip_env \<Rightarrow> jsval \<Rightarrow> gossip_state \<Rightarrow> gossip_effect list \<times> gossip_state" where
  "deliverLocal e packet s =
     (if seen_has (gs_delivered s) (packet_id_of packet) then ([], s)
      else if \<not> isSubscribed (ge_zone e) (int_of (jget packet ''zone_id'')) then ([], s)
      else (map (\<lambda>l. DeliverTo l packet) (gs_listeners s),
            s\<lparr>gs_delivered := seen_add (ge_now e) (packet_id_of packet) (gs_delivered s)\<rparr>))"

definition flood :: "gossip_env \<Rightarrow> jsval \<Rightarrow> peer_id \<Rightarrow> gossip_state \<Rightarrow> gossip_effect list \<times> gossip_state" where
  "flood e packet excludePeerId s =
     (if seen_has (gs_flooded s) (packet_id_of packet) then ([], s)
      else
        (let relayPacket = set_hop_count packet 0 in
         (map (\<lambda>p. SendGossip (gs_peerId p) (JObj [(''packet'', relayPacket)]))
            (filter (\<lambda>p. gs_peerId p \<noteq> excludePeerId \<and> gs_isConnected p \<and> gs_isVerified p) (ge_peers e)),
          s\<lparr>gs_flooded := seen_add (ge_now e) (packet_id_of packet) (gs_flooded s)\<rparr>)))"

definition echo_packet :: "jsval \<Rightarrow> gossip_state \<Rightarrow> gossip_effect list \<times> gossip_state" where
  "echo_packet packet s =
     (let (ws, d) = notifyEcho (packet_id_of packet) (gs_dandelion s) in
      (map EchoResolved ws, s\<lparr>gs_dandelion := d\<rparr>))"

text \<open>The common tail of \<open>handleGossip\<close> and \<open>handleExitFluff\<close>: echo, deliver, flood. An exception of
  the validator reaches the dispatcher, which catches it: nothing has happened by then.\<close>

definition accept_packet :: "gossip_env \<Rightarrow> jsval \<Rightarrow> peer_id \<Rightarrow> gossip_state \<Rightarrow> gossip_effect list \<times> gossip_state" where
  "accept_packet e packet exclude s =
     (let (e1, s1) = echo_packet packet s;
          (e2, s2) = deliverLocal e packet s1;
          (e3, s3) = flood e packet exclude s2 in
      (e1 @ e2 @ e3, s3))"

definition handleGossip ::
  "sodium \<Rightarrow> gossip_env \<Rightarrow> peer_id \<Rightarrow> jsval \<Rightarrow> gossip_state \<Rightarrow> (gossip_effect list \<times> gossip_state) res" where
  "handleGossip S e senderId msg s =
     (let packet = jget msg ''packet'' in
      rbind (validate S (ge_now e) False packet)
        (\<lambda>valid. Inr (if \<not> valid then ([], s) else accept_packet e packet senderId s)))"

definition handleExitFluff ::
  "sodium \<Rightarrow> gossip_env \<Rightarrow> jsval \<Rightarrow> gossip_state \<Rightarrow> (gossip_effect list \<times> gossip_state) res" where
  "handleExitFluff S e packet s =
     rbind (validate S (ge_now e) False packet)
       (\<lambda>valid. Inr (if \<not> valid then ([], s) else accept_packet e packet (ge_myPeerId e) s))"

text \<open>\<open>broadcast\<close> up to the call of the circuit, whose outcome it returns.\<close>

definition broadcast :: "gossip_env \<Rightarrow> jsval \<Rightarrow> jsval \<Rightarrow> gossip_state \<Rightarrow> gossip_effect list \<times> gossip_state" where
  "broadcast e packet slot s =
     (map (\<lambda>l. DeliverTo l packet) (gs_listeners s) @
        [OnionSend
           (JObj [(''type'', JStr ''exit_fluff''), (''zoneId'', jget packet ''zone_id''),
                  (''packet'', packet), (''slot'', slot)])
           (packet_id_of packet)],
      s\<lparr>gs_delivered := seen_add (ge_now e) (packet_id_of packet) (gs_delivered s)\<rparr>)"

definition gossip_destroy :: "gossip_state \<Rightarrow> gossip_state" where
  "gossip_destroy s = s\<lparr>gs_flooded := seen_destroy (gs_flooded s), gs_delivered := seen_destroy (gs_delivered s)\<rparr>"

subsection \<open>What is sent\<close>

fun is_send :: "gossip_effect \<Rightarrow> bool" where
  "is_send (SendGossip _ _) = True"
| "is_send _ = False"

definition sends :: "gossip_effect list \<Rightarrow> gossip_effect list" where
  "sends = filter is_send"

lemma sends_simps [simp]:
  "sends [] = []" "sends (xs @ ys) = sends xs @ sends ys"
  "sends (map EchoResolved ws) = []" "sends (map (\<lambda>l. DeliverTo l p) ls) = []"
  "sends (map (\<lambda>p. SendGossip (f p) (g p)) ps) = map (\<lambda>p. SendGossip (f p) (g p)) ps"
  by (simp_all add: sends_def filter_empty_conv filter_id_conv)

lemma flooded_unchanged [simp]:
  "gs_flooded (snd (echo_packet p s)) = gs_flooded s"
  "gs_flooded (snd (deliverLocal e p s)) = gs_flooded s"
  by (simp_all add: echo_packet_def deliverLocal_def split: prod.split)

lemma sends_local [simp]:
  "sends (fst (echo_packet p s)) = []" "sends (fst (deliverLocal e p s)) = []"
  by (simp_all add: echo_packet_def deliverLocal_def split: prod.split)

text \<open>The targets of a flood.\<close>

definition relay_targets :: "gossip_env \<Rightarrow> peer_id \<Rightarrow> peer_id list" where
  "relay_targets e exclude =
     map gs_peerId (filter (\<lambda>p. gs_peerId p \<noteq> exclude \<and> gs_isConnected p \<and> gs_isVerified p) (ge_peers e))"

lemma accept_packet_sends:
  "sends (fst (accept_packet e packet x s)) =
     (if seen_has (gs_flooded s) (packet_id_of packet) then []
      else map (\<lambda>q. SendGossip q (JObj [(''packet'', set_hop_count packet 0)])) (relay_targets e x))"
  by (simp add: accept_packet_def flood_def relay_targets_def split_def Let_def comp_def)

lemma accept_packet_flooded:
  "gs_flooded (snd (accept_packet e packet x s)) = seen_add (ge_now e) (packet_id_of packet) (gs_flooded s)"
  by (simp add: accept_packet_def flood_def split_def Let_def seen_add_def seen_has_def)

lemma handleGossip_Inr:
  assumes "handleGossip S e sender msg s = Inr (fx, s')"
  obtains "validator_check S (ge_now e) False (jget msg ''packet'') = Inr None"
      "(fx, s') = accept_packet e (jget msg ''packet'') sender s"
  | r where "validator_check S (ge_now e) False (jget msg ''packet'') = Inr (Some r)" "fx = []" "s' = s"
proof (cases "validator_check S (ge_now e) False (jget msg ''packet'')")
  case (Inl err)
  then show thesis using assms by (simp add: handleGossip_def validate_def)
next
  case (Inr r)
  show thesis
  proof (cases r)
    case None
    then show thesis using assms Inr by (intro that(1)) (simp_all add: handleGossip_def validate_def)
  next
    case (Some q)
    then show thesis using assms Inr by (intro that(2)) (simp_all add: handleGossip_def validate_def)
  qed
qed

text \<open>Relaying is independent of everything local: which frames a received packet causes, and to whom,
  is the same whatever zones and topics the node subscribes to, whatever it delivered before, whoever
  listens and whatever echoes it awaits. So forwarding behaviour reveals no subscription.\<close>

theorem relay_independent_of_subscription:
  assumes "handleGossip S e sender msg s = Inr (fx, s')" "handleGossip S e' sender msg t = Inr (fy, t')"
    "ge_now e' = ge_now e" "ge_peers e' = ge_peers e" "gs_flooded t = gs_flooded s"
  shows "sends fy = sends fx \<and> gs_flooded t' = gs_flooded s'"
proof -
  have rt: "relay_targets e' sender = relay_targets e sender" using assms(4) by (simp add: relay_targets_def)
  show ?thesis
    using assms(1)
  proof (cases rule: handleGossip_Inr)
    case 1
    note acc = this
    show ?thesis using assms(2)
    proof (cases rule: handleGossip_Inr)
      case 1
      have "fx = fst (accept_packet e (jget msg ''packet'') sender s)" "s' = snd (accept_packet e (jget msg ''packet'') sender s)"
        "fy = fst (accept_packet e' (jget msg ''packet'') sender t)" "t' = snd (accept_packet e' (jget msg ''packet'') sender t)"
        using acc(2) 1(2) by (metis fst_conv snd_conv)+
      then show ?thesis using assms(3,5) rt by (simp add: accept_packet_sends accept_packet_flooded)
    qed (use acc assms(3) in simp)
  next
    case (2 r)
    note rej = this
    show ?thesis using assms(2)
      by (cases rule: handleGossip_Inr) (use rej assms(3,5) in auto)
  qed
qed

definition toy_env :: gossip_env where
  "toy_env = \<lparr>ge_now = 1700000000000,
     ge_peers = [\<lparr>gs_peerId = ''a'', gs_isConnected = True, gs_isVerified = True\<rparr>,
                 \<lparr>gs_peerId = ''b'', gs_isConnected = True, gs_isVerified = True\<rparr>],
     ge_zone = zone_init, ge_myPeerId = ''me''\<rparr>"

lemma toy_env_now [simp]: "ge_now toy_env = 1700000000000"
  by (simp add: toy_env_def)

lemma toy_packet: "\<exists>packet. packet_accepted toy_sodium 1700000000000 False packet"
  using toy_packet_accepted by blast

lemma toy_gossip:
  assumes "packet_accepted toy_sodium 1700000000000 False packet" "ge_now e = 1700000000000"
  shows "handleGossip toy_sodium e sender (JObj [(''packet'', packet)]) s = Inr (accept_packet e packet sender s)"
  using assms by (simp add: handleGossip_def validate_def validator_check_accepts [THEN iffD2])

theorem relay_independent_of_subscription_witness:
  "\<exists>packet fx s' fy t'.
     handleGossip toy_sodium toy_env ''a'' (JObj [(''packet'', packet)]) gossip_init = Inr (fx, s') \<and>
     handleGossip toy_sodium (toy_env\<lparr>ge_zone := zone_init\<lparr>zn_depth := 9\<rparr>\<rparr>) ''a'' (JObj [(''packet'', packet)])
       (onMessage 4 gossip_init) = Inr (fy, t') \<and> sends fy = sends fx"
proof -
  let ?e = "toy_env\<lparr>ge_zone := zone_init\<lparr>zn_depth := 9\<rparr>\<rparr>"
  obtain packet where a: "packet_accepted toy_sodium 1700000000000 False packet" using toy_packet by blast
  let ?m = "JObj [(''packet'', packet)]"
  obtain fx s' where 1: "handleGossip toy_sodium toy_env ''a'' ?m gossip_init = Inr (fx, s')"
    using toy_gossip [OF a toy_env_now] by (metis surj_pair)
  have "ge_now ?e = 1700000000000" by simp
  then obtain fy t' where 2: "handleGossip toy_sodium ?e ''a'' ?m (onMessage 4 gossip_init) = Inr (fy, t')"
    using toy_gossip [OF a] by (metis surj_pair)
  have "sends fy = sends fx"
    using relay_independent_of_subscription [OF 1 2] by (simp add: onMessage_def)
  with 1 2 show ?thesis by blast
qed

subsection \<open>Flooding happens once\<close>

type_synonym gossip_event = "gossip_env \<times> peer_id \<times> jsval"

text \<open>A run of received messages; one on which the validator throws changes nothing.\<close>

fun gossip_run :: "sodium \<Rightarrow> gossip_event list \<Rightarrow> gossip_state \<Rightarrow> gossip_effect list \<times> gossip_state" where
  "gossip_run S [] s = ([], s)"
| "gossip_run S ((e, sender, msg) # evs) s =
     (case handleGossip S e sender msg s of
        Inl _ \<Rightarrow> gossip_run S evs s
      | Inr (fx, s') \<Rightarrow> (let (fy, s'') = gossip_run S evs s' in (fx @ fy, s'')))"

definition gossip_ok :: "gossip_state \<Rightarrow> bool" where
  "gossip_ok s \<longleftrightarrow> seen_ok (gs_flooded s)"

definition carries :: "string \<Rightarrow> gossip_effect \<Rightarrow> bool" where
  "carries i fx \<longleftrightarrow> (\<exists>q p. fx = SendGossip q (JObj [(''packet'', p)]) \<and> packet_id_of p = i)"

lemma packet_id_of_hop [simp]: "packet_id_of (set_hop_count packet n) = packet_id_of packet"
  by (cases packet) (simp_all add: packet_id_of_def set_hop_count_def)

lemma carries_sends: "carries i x \<Longrightarrow> x \<in> set xs \<Longrightarrow> x \<in> set (sends xs)"
  by (auto simp: carries_def sends_def)

lemma accepted_id_ne: "validator_check S now st p = Inr None \<Longrightarrow> packet_id_of p \<noteq> []"
  by (auto simp: validator_check_accepts packet_accepted_def packet_id_of_def)

lemma gossip_step:
  assumes "handleGossip S e sender msg s = Inr (fx, s')" "gossip_ok s"
  shows "gossip_ok s' \<and>
    (gs_flooded s' = gs_flooded s \<or> (\<exists>j. j \<noteq> [] \<and> gs_flooded s' = seen_add (ge_now e) j (gs_flooded s))) \<and>
    (\<forall>x \<in> set fx. carries i x \<longrightarrow> \<not> seen_has (gs_flooded s) i \<and> seen_has (gs_flooded s') i)"
  using assms(1)
proof (cases rule: handleGossip_Inr)
  case 1
  let ?p = "jget msg ''packet''"
  have fx: "fx = fst (accept_packet e ?p sender s)" and s': "s' = snd (accept_packet e ?p sender s)"
    using 1(2) by (metis fst_conv snd_conv)+
  note ne = accepted_id_ne [OF 1(1)]
  have fl: "gs_flooded s' = seen_add (ge_now e) (packet_id_of ?p) (gs_flooded s)"
    by (simp add: s' accept_packet_flooded)
  have ok: "seen_ok (gs_flooded s)" using assms(2) by (simp add: gossip_ok_def)
  have "\<not> seen_has (gs_flooded s) i \<and> seen_has (gs_flooded s') i" if "x \<in> set fx" "carries i x" for x
  proof -
    have "x \<in> set (sends fx)" using carries_sends that by blast
    then have "i = packet_id_of ?p" "\<not> seen_has (gs_flooded s) i"
      using that(2) by (auto simp: fx accept_packet_sends carries_def split: if_splits)
    then show ?thesis
      using fl seen.recent_new [OF ok ne] seen.recent_has by metis
  qed
  then show ?thesis using fl ne seen_ok_add [OF ok ne] by (auto simp: gossip_ok_def)
qed (use assms(2) in auto)

lemma gossip_run_flooded:
  assumes "gossip_ok s" "seen_recent i n (gs_flooded s)" "n + length evs < SEEN_MAX_SIZE"
    "x \<in> set (fst (gossip_run S evs s))"
  shows "\<not> carries i x"
  using assms
proof (induction S evs s arbitrary: n rule: gossip_run.induct)
  case (2 S e sender msg evs s)
  show ?case
  proof (cases "handleGossip S e sender msg s")
    case (Inl err)
    then show ?thesis using 2(1) [OF Inl 2(3,4)] 2(5,6) by simp
  next
    case (Inr r)
    obtain fx s' where r: "r = (fx, s')" by force
    note st = gossip_step [OF Inr [unfolded r] 2(3), of i]
    have has: "seen_has (gs_flooded s) i" using 2(4) seen.recent_has by blast
    have ok: "seen_ok (gs_flooded s)" using 2(3) by (simp add: gossip_ok_def)
    have rec: "seen_recent i (Suc n) (gs_flooded s')"
    proof (cases "gs_flooded s' = gs_flooded s")
      case True
      then show ?thesis using 2(4) by (auto simp: seen_recent_def intro: le_SucI)
    next
      case False
      then show ?thesis using st 2(4,5) seen.recent_step [OF ok] by fastforce
    qed
    have "x \<in> set fx \<or> x \<in> set (fst (gossip_run S evs s'))"
      using 2(6) Inr r by (auto split: prod.splits)
    then show ?thesis using st has 2(2) [OF Inr r [symmetric] _ rec] 2(5) by auto
  qed
qed simp


lemma gossip_init_ok [wf_intro]: "gossip_ok gossip_init"
  by (simp add: gossip_ok_def gossip_init_def seen_ok_def)


subsection \<open>Own posts\<close>

text \<open>Publishing is fail-closed: a node's own post is shown to its listeners and handed to the onion
  circuit exactly once, and no frame is sent to any neighbour, whatever the neighbours are; a packet
  that fails validation, received or handed over as an exit, has no effect at all.\<close>

theorem broadcast_fail_closed:
  "sends (fst (broadcast e packet slot s)) = [] \<and>
   gs_flooded (snd (broadcast e packet slot s)) = gs_flooded s \<and>
   length (filter (\<lambda>x. \<exists>v i. x = OnionSend v i) (fst (broadcast e packet slot s))) = 1 \<and>
   (\<forall>S m sender r. validator_check S (ge_now e) False (jget m ''packet'') = Inr (Some r) \<longrightarrow>
      handleGossip S e sender m s = Inr ([], s) \<and> handleExitFluff S e (jget m ''packet'') s = Inr ([], s))"
  by (auto simp: broadcast_def sends_def handleGossip_def handleExitFluff_def validate_def filter_empty_conv)

theorem broadcast_fail_closed_witness:
  "handleGossip toy_sodium toy_env ''a'' (JObj []) gossip_init = Inr ([], gossip_init)"
proof -
  have "validator_check toy_sodium (ge_now toy_env) False (jget (JObj []) ''packet'') = Inr (Some Malformed)"
    by (simp add: validator_check_def)
  then show ?thesis using broadcast_fail_closed [of toy_env Undef Undef gossip_init] by blast
qed

end
