(* ===== verification/Delivery.thy ===== *)
theory Delivery
  imports ThreadView Gossip
begin

text \<open>
  How a post gets from its author's exit to the threads of readers: what the gossip router of the exit sends, what the
  router of a neighbour delivers (\<open>packages/core/src/network/gossip/ZoneGossipRouter.ts\<close>), and what becomes of it in
  a thread that is open (\<open>packages/core/src/logic/ThreadOrchestrator.ts\<close>). The lemmas are the links of the chain that
  \<open>Spec2Isabelle\<close> closes: a packet that validates is flooded and delivered, a task that opens a packet survives
  whatever happens in the thread meanwhile, and a post that opens is filed.
\<close>

subsection \<open>From the exit to the reader's router\<close>

lemma exit_floods:
  assumes "validator_check S (ge_now e) False packet = Inr None" "\<not> seen_has (gs_flooded g) (packet_id_of packet)"
    and "q \<in> set (ge_peers e)" "gs_isConnected q" "gs_isVerified q" "gs_peerId q \<noteq> ge_myPeerId e"
  shows "\<exists>fx g'. handleExitFluff S e packet g = Inr (fx, g') \<and>
    SendGossip (gs_peerId q) (JObj [(''packet'', set_hop_count packet 0)]) \<in> set fx"
proof -
  let ?m = "SendGossip (gs_peerId q) (JObj [(''packet'', set_hop_count packet 0)])"
  have f: "?m \<in> set (fst (flood e packet (ge_myPeerId e) s))" if "gs_flooded s = gs_flooded g" for s
    using assms that by (auto simp: flood_def Let_def)
  have "handleExitFluff S e packet g = Inr (accept_packet e packet (ge_myPeerId e) g)"
    using assms(1) by (simp add: handleExitFluff_def validate_def)
  moreover have "?m \<in> set (fst (accept_packet e packet (ge_myPeerId e) g))"
    using f [of "snd (deliverLocal e packet (snd (echo_packet packet g)))"]
    by (simp add: accept_packet_def split_beta Let_def)
  ultimately show ?thesis by (metis prod.collapse)
qed

lemma neighbour_delivers:
  assumes "validator_check S (ge_now e) False packet = Inr None" "\<not> seen_has (gs_delivered g) (packet_id_of packet)"
    and "isSubscribed (ge_zone e) (int_of (jget packet ''zone_id''))" "l \<in> set (gs_listeners g)"
  shows "\<exists>fx g'. handleGossip S e sender (JObj [(''packet'', packet)]) g = Inr (fx, g') \<and> DeliverTo l packet \<in> set fx"
proof -
  have "handleGossip S e sender (JObj [(''packet'', packet)]) g = Inr (accept_packet e packet sender g)"
    using assms(1) by (simp add: handleGossip_def validate_def)
  moreover have "DeliverTo l packet \<in> set (fst (deliverLocal e packet s))"
    if "gs_delivered s = gs_delivered g" "gs_listeners s = gs_listeners g" for s
    using assms that by (simp add: deliverLocal_def)
  from this [of "snd (echo_packet packet g)"] have "DeliverTo l packet \<in> set (fst (accept_packet e packet sender g))"
    by (simp add: accept_packet_def echo_packet_def split_beta Let_def)
  ultimately show ?thesis by (metis prod.collapse)
qed

subsection \<open>A task waits until it is resumed\<close>

definition still_waits :: "nat \<Rightarrow> to_task \<Rightarrow> string \<Rightarrow> thread_orch \<Rightarrow> bool" where
  "still_waits i tk t s \<longleftrightarrow> jm_get (to_tasks s) i = Some tk \<and> i < to_seq s \<and> dg_threadId (to_dag s) = t"

lemma still_waits_simps [simp]:
  "still_waits i tk t (s\<lparr>to_currentStatus := st\<rparr>) = still_waits i tk t s"
  "still_waits i tk t (s\<lparr>to_firstPeerAt := f\<rparr>) = still_waits i tk t s"
  "still_waits i tk t (s\<lparr>to_verdictTimer := b\<rparr>) = still_waits i tk t s"
  "still_waits i tk t (s\<lparr>to_syncDebounce := b\<rparr>) = still_waits i tk t s"
  "still_waits i tk t (s\<lparr>to_seenPacketIds := is\<rparr>) = still_waits i tk t s"
  "still_waits i tk t (s\<lparr>to_listeners := ls\<rparr>) = still_waits i tk t s"
  "still_waits i tk t (s\<lparr>to_statusListeners := ls\<rparr>) = still_waits i tk t s"
  "still_waits i tk t (s\<lparr>to_snapshot := ps\<rparr>) = still_waits i tk t s"
  by (simp_all add: still_waits_def)

named_theorems waits_intro

lemma waits_then:
  "still_waits i tk t (step_state x) \<Longrightarrow> (\<And>s. still_waits i tk t s \<Longrightarrow> still_waits i tk t (step_state (f s))) \<Longrightarrow>
   still_waits i tk t (step_state (then_step x f))"
  by (rule then_step_state [where Q = "still_waits i tk t"])

lemma waits_catch:
  "still_waits i tk t (step_state x) \<Longrightarrow> (\<And>s. still_waits i tk t s \<Longrightarrow> still_waits i tk t (step_state (f s))) \<Longrightarrow>
   still_waits i tk t (step_state (catch_step x f))"
  by (rule catch_step_state [where Q = "still_waits i tk t"])

lemma waits_status [waits_intro]:
  "still_waits i tk t s \<Longrightarrow> still_waits i tk t (step_state (to_updateStatus ph m sub n s))"
  "still_waits i tk t s \<Longrightarrow> still_waits i tk t (step_state (to_notify e s))"
  by (simp_all add: to_updateStatus_def to_notify_def Let_def split: sum.split)

lemma waits_refresh [waits_intro]: "still_waits i tk t s \<Longrightarrow> still_waits i tk t (step_state (to_refreshEmptyStatus e s))"
  unfolding to_refreshEmptyStatus_def Let_def by (auto intro!: waits_then waits_status)

lemma waits_tasks [waits_intro]:
  "still_waits i tk t s \<Longrightarrow> i \<noteq> j \<Longrightarrow> still_waits i tk t (to_wait j u s)"
  "still_waits i tk t s \<Longrightarrow> i \<noteq> j \<Longrightarrow> still_waits i tk t (to_done j s)"
  by (simp_all add: still_waits_def to_wait_def to_done_def)

lemma waits_continue [waits_intro]:
  "still_waits i tk t s \<Longrightarrow> i \<noteq> j \<Longrightarrow> still_waits i tk t (to_continue j c s)"
  by (auto simp: to_continue_def intro: waits_tasks split: to_cont.split)

lemma waits_new [waits_intro]:
  assumes "still_waits i tk t s" "\<And>j s. still_waits i tk t s \<Longrightarrow> i \<noteq> j \<Longrightarrow> still_waits i tk t (f j s)"
  shows "still_waits i tk t (to_new f s)"
  unfolding to_new_def by (rule assms(2)) (use assms(1) in \<open>auto simp: still_waits_def\<close>)

lemma waits_handle [waits_intro]:
  "still_waits i tk t s \<Longrightarrow> i \<noteq> j \<Longrightarrow> still_waits i tk t (to_handle j b t' k packet fromDB c s)"
  by (auto simp: to_handle_def intro!: waits_intro)

lemma waits_add: "still_waits i tk t s \<Longrightarrow> addPost n (to_dag s) = (b, d) \<Longrightarrow> still_waits i tk t (s\<lparr>to_dag := d\<rparr>)"
  by (auto simp: still_waits_def addPost_def split: if_splits)

lemma waits_opened [waits_intro]:
  assumes "still_waits i tk t s" "i \<noteq> j"
  shows "still_waits i tk t (step_state (to_opened e j b t' k packet fromDB c s))"
  using assms waits_add [OF assms(1)] unfolding to_opened_def Let_def
  by (auto intro!: waits_catch waits_then waits_intro split: sum.split option.split prod.split)

lemma waits_sync [waits_intro]:
  "still_waits i tk t s \<Longrightarrow> still_waits i tk t (step_state (to_fullSync e s))"
  "still_waits i tk t s \<Longrightarrow> still_waits i tk t (step_state (to_onPeerConnect e s))"
  unfolding to_fullSync_def to_onPeerConnect_def by (auto intro!: waits_then waits_intro)

lemma waits_debounced [waits_intro]:
  "still_waits i tk t s \<Longrightarrow> still_waits i tk t (step_state (to_debounced e s))"
  unfolding to_debounced_def Let_def by (auto intro!: waits_intro)

lemma waits_cache [waits_intro]:
  "still_waits i tk t s \<Longrightarrow> i \<noteq> j \<Longrightarrow> still_waits i tk t (step_state (to_cache e j b t' k entries s))"
proof (induction entries)
  case Nil
  then show ?case unfolding to_cache.simps to_triggerInitialSync_def by (auto intro!: waits_then waits_intro)
next
  case (Cons x xs)
  then show ?case by (cases "json_binary_parse (text_decode x)") (auto intro!: waits_intro)
qed

lemma waits_fail [waits_intro]:
  "still_waits i tk t s \<Longrightarrow> j \<noteq> Some i \<Longrightarrow> still_waits i tk t (step_state (reply_fail j s))"
  unfolding reply_fail_def by (cases j) (auto intro!: waits_intro)

lemma waits_submit [waits_intro]: "still_waits i tk t s \<Longrightarrow> still_waits i tk t (step_state (to_submitReply e text s))"
  unfolding to_submitReply_def by (auto intro!: waits_then waits_intro split: option.split sum.split prod.split)

lemma waits_send [waits_intro]:
  "still_waits i tk t s \<Longrightarrow> i \<noteq> j \<Longrightarrow> still_waits i tk t (step_state (reply_send e x j packet s))"
  unfolding reply_send_def by (auto intro!: waits_then waits_intro split: sum.split prod.split)

lemma waits_built [waits_intro]:
  assumes "still_waits i tk t s" "i \<noteq> j"
  shows "still_waits i tk t (step_state (to_built e x j r built s))"
  using assms waits_add [OF assms(1)] unfolding to_built_def
  by (auto intro!: waits_catch waits_then waits_intro split: sum.split prod.split bool.split)

lemma waits_packets [waits_intro]:
  "still_waits i tk t s \<Longrightarrow> still_waits i tk t (to_onGossipPacket packet s)"
  "still_waits i tk t s \<Longrightarrow> still_waits i tk t (to_onHintBody body keyId s)"
  by (auto simp: to_onGossipPacket_def to_onHintBody_def intro!: waits_intro split: option.split sum.split)

text \<open>The reader stays: the thread is neither left nor opened again, and task \<open>i\<close> has not had its turn.\<close>

fun stays :: "nat \<Rightarrow> to_event \<Rightarrow> bool" where
  "stays i (ToActivate _ _ _) = False"
| "stays i ToClear = False"
| "stays i (ToResume j _) = (i \<noteq> j)"
| "stays i _ = True"

lemma to_exec_waits:
  assumes "stays i ev" "still_waits i (ToOpen b t' k p fdb c) t s"
  shows "still_waits i (ToOpen b t' k p fdb c) t (step_state (to_exec e ev s))"
proof -
  have task: "i \<noteq> j \<or> jm_get (to_tasks s) j = Some (ToOpen b t' k p fdb c)" for j
    using assms(2) by (auto simp: still_waits_def)
  show ?thesis using assms
  proof (cases ev)
    case (ToResume j x)
    then have "i \<noteq> j" using assms(1) by simp
    then show ?thesis using ToResume assms(2)
      by (auto intro!: waits_intro split: option.split to_task.split)
  next
    case (ToCacheGot j entries)
    then show ?thesis using task [of j] assms(2) by (auto intro!: waits_intro split: option.split to_task.split)
  next
    case (ToPeerFound j online)
    then show ?thesis using task [of j] assms(2) by (auto intro!: waits_intro split: option.split to_task.split)
  next
    case (ToBuilt j bi x)
    then show ?thesis using task [of j] assms(2) by (auto intro!: waits_intro split: option.split to_task.split)
  next
    case (ToBroadcastDone j delivered)
    then show ?thesis using task [of j] assms(2)
      by (auto simp: to_broadcastDone_def intro!: waits_intro split: option.split to_task.split)
  qed (auto simp: to_subscribe_def to_unsubscribe_def to_subscribeStatus_def intro!: waits_intro)
qed

interpretation to_waiting: kept_by_steps to_exec "\<lambda>(e, ev). stays i ev" "still_waits i (ToOpen b t' k p fdb c) t"
  for i b t' k p fdb c t
  by unfold_locales (auto intro: to_exec_waits)

subsection \<open>A packet becomes a post of the thread\<close>

lemma gossip_queued:
  assumes "to_isListening s" "to_boardId s = Some b" "to_threadId s = Some t" "to_threadKey s = Some k" "dg_threadId (to_dag s) = t"
    and "\<not> is_absent packet" "packet_id_of packet \<notin> set (to_seenPacketIds s)"
  shows "still_waits (to_seq s) (ToOpen b t k packet False NoCont) t (step_state (to_exec e (ToGossip packet) s))"
  using assms by (simp add: to_onGossipPacket_def to_new_def to_handle_def still_waits_def to_wait_def)

definition displays :: "thread_dag \<Rightarrow> dag_post list \<Rightarrow> thread_orch \<Rightarrow> bool" where
  "displays d ps s \<longleftrightarrow> to_dag s = d \<and> to_snapshot s = ps"

lemma displays_status: "displays d ps s \<Longrightarrow> displays d ps (step_state (to_updateStatus ph m sub n s))"
  by (simp add: displays_def to_updateStatus_def Let_def)

lemma displays_refresh:
  assumes "displays d ps s"
  shows "displays d ps (step_state (to_refreshEmptyStatus e s))"
proof -
  have upd: "displays d ps (s\<lparr>to_verdictTimer := v\<rparr>) = displays d ps s" "displays d ps (s\<lparr>to_firstPeerAt := f\<rparr>) = displays d ps s" for s v f
    by (simp_all add: displays_def)
  show ?thesis unfolding to_refreshEmptyStatus_def Let_def
    using assms by (auto simp: upd intro!: then_step_state [where Q = "displays d ps"] displays_status)
qed

lemma opened_files:
  assumes "verifyAndDecrypt (ov_S e) (ov_M e) packet k = Inr (Some post)" "jget post ''thread_id'' = JStr t"
    "jget post ''post_type'' = jint 0" "still_waits i (ToOpen b t k packet False NoCont) t s"
    "\<not> jm_has (dg_nodes (to_dag s)) (packet_id_of packet)" "s' = step_state (to_exec e (ToResume i x) s)"
  shows "jm_get (dg_nodes (to_dag s')) (packet_id_of packet) = Some (thread_post packet post t) \<and>
    (\<forall>posts. getSortedPosts (ov_dag e) (to_dag s') = Inr posts \<longrightarrow> to_snapshot s' = posts)"
proof -
  let ?n = "thread_post packet post t"
  let ?d = "to_dag s\<lparr>dg_nodes := jm_set (packet_id_of packet) ?n (dg_nodes (to_dag s))\<rparr>"
  define Q where "Q s' \<longleftrightarrow> to_dag s' = ?d \<and> (\<forall>posts. getSortedPosts (ov_dag e) ?d = Inr posts \<longrightarrow> to_snapshot s' = posts)" for s' :: thread_orch
  have ad: "addPost ?n (to_dag s) = (True, ?d)"
    using assms(2,4,5) by (simp add: addPost_def thread_post_def still_waits_def)
  have c: "Q s' \<Longrightarrow> Q (to_continue i NoCont s')" "Q s' \<Longrightarrow> Q (to_wait i u s')" for s' u
    by (simp_all add: Q_def to_continue_def to_done_def to_wait_def)
  have n: "Q (step_state (to_notify e (s\<lparr>to_dag := ?d\<rparr>)))" by (auto simp: Q_def to_notify_def split: sum.split)
  have r: "Q s' \<Longrightarrow> Q (step_state (to_refreshEmptyStatus e s'))" for s'
    using displays_refresh [of "to_dag s'" "to_snapshot s'" s' e] by (simp add: Q_def displays_def)
  have "Q (step_state (to_opened e i b t k packet False NoCont s))"
    unfolding to_opened_def assms(1) Let_def
    using assms(2,3) by (auto simp: ad intro!: catch_step_state [where Q = Q] then_step_state [where Q = Q] n r c)
  moreover have "s' = step_state (to_opened e i b t k packet False NoCont s)"
    using assms(4,6) by (simp add: still_waits_def)
  ultimately show ?thesis by (simp add: Q_def)
qed

end
