(* ===== verification/Dispatcher.thy ===== *)
theory Dispatcher
  imports JsValue
begin

text \<open>
  \<open>packages/core/src/network/MessageDispatcher.ts\<close>: handlers registered per wire type, called in
  registration order, each isolated from the others' exceptions. A handler is known by an
  identifier (functions are compared by identity); \<open>run\<close> maps it to its effect on the state of the
  program and says whether it threw.
\<close>

type_synonym 'h dispatcher = "(int, 'h list) jsmap"

definition register :: "int \<Rightarrow> 'h \<Rightarrow> 'h dispatcher \<Rightarrow> 'h dispatcher" where
  "register ty h d =
     (let d1 = (if \<not> jm_has d ty then jm_set ty [] d else d) in
      case jm_get d1 ty of None \<Rightarrow> d1 | Some hs \<Rightarrow> jm_set ty (js_add h hs) d1)"

definition unregister :: "int \<Rightarrow> 'h \<Rightarrow> 'h dispatcher \<Rightarrow> 'h dispatcher" where
  "unregister ty h d =
     (case jm_get d ty of None \<Rightarrow> d | Some hs \<Rightarrow> jm_set ty (filter (\<lambda>x. x \<noteq> h) hs) d)"

text \<open>The effect of one handler: the new state, and whether it threw (the state changes it made
  before throwing stay).\<close>

type_synonym ('h, 's) handler_env = "'h \<Rightarrow> peer_id \<Rightarrow> jsval \<Rightarrow> 's \<Rightarrow> bool \<times> 's"

fun run_handlers :: "('h, 's) handler_env \<Rightarrow> peer_id \<Rightarrow> jsval \<Rightarrow> 'h list \<Rightarrow> 's \<Rightarrow> 's" where
  "run_handlers env p v [] s = s"
| "run_handlers env p v (h # hs) s =
     (case env h p v s of
        (True, s') \<Rightarrow> run_handlers env p v hs s'
      | (False, s') \<Rightarrow> run_handlers env p v hs s')"

definition dispatch :: "('h, 's) handler_env \<Rightarrow> peer_id \<Rightarrow> int \<Rightarrow> jsval \<Rightarrow> 'h dispatcher \<Rightarrow> 's \<Rightarrow> 's" where
  "dispatch env p ty v d s =
     (case jm_get d ty of None \<Rightarrow> s | Some hs \<Rightarrow> if hs = [] then s else run_handlers env p v hs s)"

definition handlers_of :: "'h dispatcher \<Rightarrow> int \<Rightarrow> 'h list" where
  "handlers_of d ty = (case jm_get d ty of None \<Rightarrow> [] | Some hs \<Rightarrow> hs)"

lemma handlers_register:
  "handlers_of (register ty h d) t = (if t = ty then js_add h (handlers_of d ty) else handlers_of d t)"
  by (auto simp: handlers_of_def register_def jm_has_def split: option.splits)

lemma handlers_unregister:
  "handlers_of (unregister ty h d) t =
     (if t = ty then filter (\<lambda>x. x \<noteq> h) (handlers_of d ty) else handlers_of d t)"
  by (auto simp: handlers_of_def unregister_def split: option.splits)

lemma run_handlers_fold: "run_handlers env p v hs s = fold (\<lambda>h s. snd (env h p v s)) hs s"
  by (induction hs arbitrary: s) (auto split: prod.split bool.split)

lemma dispatch_fold: "dispatch env p ty v d s = fold (\<lambda>h s. snd (env h p v s)) (handlers_of d ty) s"
  by (simp add: dispatch_def handlers_of_def run_handlers_fold split: option.splits)

text \<open>A message reaches every handler registered for its type exactly once and in registration
  order, the exceptions of earlier handlers notwithstanding, and no handler of another type:
  registering a handler that was not there appends its effect to the dispatch of that type only.\<close>

theorem dispatch_register:
  "dispatch env p t v (register ty h d) s =
     (if t = ty \<and> h \<notin> set (handlers_of d ty)
      then snd (env h p v (dispatch env p t v d s)) else dispatch env p t v d s)"
  by (simp add: dispatch_fold handlers_register js_add_def)

end
