(* ===== verification/BoardView.thy ===== *)
theory BoardView
  imports Orchestrator
begin

text \<open>
  \<open>packages/core/src/logic/BoardOrchestrator.ts\<close>: the list of threads of the board that is open. As in
  \<open>ThreadView\<close>, what is left after an \<open>await\<close> is a task. The lemmas show that every thread listed was started here
  or comes from a signed packet that opens under the key of a board that was opened, and keeps its title; that a
  thread read for one board is listed in the next one when the reader moves on; and that its weight can be lowered.
\<close>

subsection \<open>Identifiers\<close>

text \<open>\<open>CryptoUtils.generateId\<close>: rounds of random bytes until there are enough; \<open>None\<close> is a loop that still draws.\<close>

definition ID_ALPHABET :: string where
  "ID_ALPHABET = ''0123456789abcdefghijklmnopqrstuvwxyz''"

definition id_chars :: "bytes \<Rightarrow> string" where
  "id_chars bs = map (\<lambda>b. ID_ALPHABET ! (unat b mod 36)) (filter (\<lambda>b. unat b < 252) bs)"

fun generateId :: "nat \<Rightarrow> bytes list \<Rightarrow> string option" where
  "generateId n rounds =
     (if n = 0 then Some []
      else (case rounds of
          [] \<Rightarrow> None
        | buf # rest \<Rightarrow>
            (let cs = take n (id_chars buf) in
             case generateId (n - length cs) rest of None \<Rightarrow> None | Some t \<Rightarrow> Some (cs @ t))))"

declare generateId.simps [simp del]

lemma generateId_0 [simp]: "generateId 0 rounds = Some []"
  by (simp add: generateId.simps)

lemma generateId_Nil [simp]: "generateId n [] = (if n = 0 then Some [] else None)"
  by (simp add: generateId.simps)

lemma generateId_Cons:
  "n \<noteq> 0 \<Longrightarrow> generateId n (buf # rest) =
     (case generateId (n - length (take n (id_chars buf))) rest of None \<Rightarrow> None | Some t \<Rightarrow> Some (take n (id_chars buf) @ t))"
  by (subst generateId.simps) (simp add: Let_def)

lemma id_chars_alphabet: "set (id_chars bs) \<subseteq> set ID_ALPHABET"
proof -
  have "unat b mod 36 < length ID_ALPHABET" for b :: byte by (simp add: ID_ALPHABET_def)
  then show ?thesis by (auto simp: id_chars_def intro: nth_mem)
qed

text \<open>The identifier has the length asked for; the loop ends as soon as enough bytes below 252 were drawn; and each
  of the 36 characters is what exactly seven byte values give.\<close>

lemma generateId_length: "generateId n rounds = Some t \<Longrightarrow> length t = n \<and> set t \<subseteq> set ID_ALPHABET"
proof (induction rounds arbitrary: n t)
  case (Cons buf rest)
  show ?case
  proof (cases "n = 0")
    case False
    let ?cs = "take n (id_chars buf)"
    obtain u where u: "generateId (n - length ?cs) rest = Some u" "t = ?cs @ u"
      using Cons.prems False by (auto simp: generateId_Cons split: option.splits)
    have "set ?cs \<subseteq> set ID_ALPHABET" using id_chars_alphabet set_take_subset by fast
    then show ?thesis using Cons.IH [OF u(1)] u(2) by auto
  qed (use Cons.prems in simp)
qed (simp split: if_splits)

lemma generateId_enough: "n \<le> sum_list (map (\<lambda>b. length (id_chars b)) rounds) \<Longrightarrow> generateId n rounds \<noteq> None"
proof (induction rounds arbitrary: n)
  case (Cons buf rest)
  show ?case
  proof (cases "n = 0")
    case False
    have "n - length (take n (id_chars buf)) \<le> sum_list (map (\<lambda>b. length (id_chars b)) rest)" using Cons.prems by auto
    from Cons.IH [OF this] show ?thesis using False by (auto simp: generateId_Cons)
  qed simp
qed simp

lemma generateId_unbiased: "c < 36 \<Longrightarrow> card {b. b < 252 \<and> b mod 36 = c} = 7" for c :: nat
proof -
  assume c: "c < 36"
  have "{b. b < 252 \<and> b mod 36 = c} = (\<lambda>q. 36 * q + c) ` {..<7}"
  proof (intro set_eqI iffI)
    fix b assume "b \<in> {b. b < 252 \<and> b mod 36 = c}"
    then have b: "b < 252" "b mod 36 = c" by simp_all
    then have "b = 36 * (b div 36) + c" "b div 36 < 7" using mult_div_mod_eq [of 36 b] by simp_all
    then show "b \<in> (\<lambda>q. 36 * q + c) ` {..<7}" by blast
  qed (use c in auto)
  moreover have "inj_on (\<lambda>q. 36 * q + c) {..<7}" by (auto intro: inj_onI)
  ultimately show ?thesis by (simp add: card_image)
qed

subsection \<open>The list of threads\<close>

text \<open>\<open>{ ...meta, packet_id, max_pow, created_at }\<close>.\<close>

record thread_meta =
  tm_meta :: jsval
  tm_packetId :: string
  tm_maxPow :: jsnum
  tm_createdAt :: jsval

text \<open>\<open>a === b\<close>, and what a \<open>Map\<close> compares keys by. Every decoded object is one of its own.\<close>

definition strict_eq :: "jsval \<Rightarrow> jsval \<Rightarrow> bool" where
  "strict_eq a b \<longleftrightarrow> a = b \<and> \<not> is_object a \<and> a \<noteq> JNum NaN"

definition num_eq :: "jsnum \<Rightarrow> jsnum \<Rightarrow> bool" where
  "num_eq a b \<longleftrightarrow> a = b \<and> a \<noteq> NaN"

type_synonym thread_list = "(jsval \<times> thread_meta) list"

definition mt_get :: "thread_list \<Rightarrow> jsval \<Rightarrow> thread_meta option" where
  "mt_get m k = (if is_object k then None else jm_get m k)"

definition mt_set :: "jsval \<Rightarrow> thread_meta \<Rightarrow> thread_list \<Rightarrow> thread_list" where
  "mt_set k n m = (if is_object k then m @ [(k, n)] else jm_set k n m)"

text \<open>\<open>x || 0\<close> for a number.\<close>

definition num_or0 :: "jsnum \<Rightarrow> jsnum" where
  "num_or0 n = (if n = NaN then Fin 0 else n)"

text \<open>\<open>isFinite(v) && v > 0\<close>\<close>

definition set_time :: "(rat \<Rightarrow> string) \<Rightarrow> jsval \<Rightarrow> bool res" where
  "set_time fmt v = rbind (js_isFinite v) (\<lambda>f. if f then js_less fmt (jint 0) v else Inr False)"

definition normalizeTimestamp :: "int \<Rightarrow> jsval \<Rightarrow> jsval" where
  "normalizeTimestamp now raw =
     (case js_Number raw of
        Fin r \<Rightarrow> if r > 0 then JNum (Fin r) else jint now
      | _ \<Rightarrow> jint now)"

text \<open>\<open>resolveMaxPow\<close> with the statistics of the board read.\<close>

definition resolveMaxPow :: "jsval \<Rightarrow> jsval list \<Rightarrow> jsnum res" where
  "resolveMaxPow meta stats =
     (let base = js_Number (js_or (jget meta ''cumulative_pow'') (jint 0)) in
      case find (\<lambda>s. strict_eq (jget s ''threadId'') (jget meta ''thread_id'')) stats of
        None \<Rightarrow> Inr base
      | Some s \<Rightarrow> js_max (JNum base) (js_or (jget s ''max_pow'') (jint 0)))"

definition mergeThread ::
  "(rat \<Rightarrow> string) \<Rightarrow> jsval \<Rightarrow> string \<Rightarrow> jsnum \<Rightarrow> jsval \<Rightarrow> thread_list \<Rightarrow> (bool \<times> thread_list) res" where
  "mergeThread fmt meta packetId maxPow createdAt threads =
     (case mt_get threads (jget meta ''thread_id'') of
        Some old \<Rightarrow>
          rbind (set_time fmt (tm_createdAt old)) (\<lambda>has_time.
            let mergedPow = num_max (num_or0 (tm_maxPow old)) maxPow;
                mergedAt = (if has_time then tm_createdAt old else createdAt) in
            if num_eq mergedPow (tm_maxPow old) \<and> strict_eq mergedAt (tm_createdAt old) then Inr (False, threads)
            else Inr (True, mt_set (jget meta ''thread_id'') (old\<lparr>tm_maxPow := mergedPow, tm_createdAt := mergedAt\<rparr>) threads))
      | None \<Rightarrow>
          Inr (True, mt_set (jget meta ''thread_id'')
            \<lparr>tm_meta = meta, tm_packetId = packetId, tm_maxPow = maxPow, tm_createdAt = createdAt\<rparr> threads))"

text \<open>The body of the loop of \<open>startStatsSync\<close>, \<open>None\<close> when nothing changed, and the loop; an exception leaves it.\<close>

definition tick_one :: "(rat \<Rightarrow> string) \<Rightarrow> int \<Rightarrow> jsval \<Rightarrow> thread_list \<Rightarrow> thread_list option res" where
  "tick_one fmt now s threads =
     (case mt_get threads (jget s ''threadId'') of
        None \<Rightarrow> Inr None
      | Some t \<Rightarrow>
          rbind (js_max (js_or (jget s ''max_pow'') (jint 0)) (JNum (num_or0 (tm_maxPow t)))) (\<lambda>newPow.
          rbind (set_time fmt (tm_createdAt t)) (\<lambda>has_time.
          rbind (set_time fmt (jget s ''created_at'')) (\<lambda>db_time.
            let best = (if has_time then tm_createdAt t else if db_time then jget s ''created_at'' else jint now) in
            if \<not> num_eq newPow (tm_maxPow t) \<or> \<not> strict_eq best (tm_createdAt t)
            then Inr (Some (mt_set (jget s ''threadId'') (t\<lparr>tm_maxPow := newPow, tm_createdAt := best\<rparr>) threads))
            else Inr None))))"

fun tick_loop :: "(rat \<Rightarrow> string) \<Rightarrow> int \<Rightarrow> jsval list \<Rightarrow> thread_list \<Rightarrow> bool \<Rightarrow> unit res \<times> thread_list \<times> bool" where
  "tick_loop fmt now [] threads changed = (Inr (), threads, changed)"
| "tick_loop fmt now (s # ss) threads changed =
     (case tick_one fmt now s threads of
        Inl err \<Rightarrow> (Inl err, threads, changed)
      | Inr None \<Rightarrow> tick_loop fmt now ss threads changed
      | Inr (Some threads') \<Rightarrow> tick_loop fmt now ss threads' True)"

subsection \<open>State\<close>

datatype bo_cont =
    BoNoCont
  | BoCacheCont string bytes "bytes list"

text \<open>Waiting for: a packet to be opened; the statistics of its board; its save; the packets on the device; a turn to
  go on with them; a packet to be built; the save of a new thread; the outcome of a broadcast; the statistics that the
  interval asked for.\<close>

datatype bo_task =
    BoOpen string bytes jsval bool "bytes option" bo_cont
  | BoStats string jsval jsval jsval bool "bytes option" bo_cont
  | BoSaved bo_cont
  | BoCacheRead string bytes
  | BoCache string bytes "bytes list"
  | BoBuild string bytes string post_req
  | BoThreadSaved bytes jsval nat
  | BoBroadcast prepared_slot nat
  | BoTick string

record board_orch =
  bo_listeners :: "nat list"
  bo_statusListeners :: "nat list"
  bo_threads :: thread_list
  bo_snapshot :: "thread_meta list"
  bo_seenPacketIds :: "string list"
  bo_currentStatus :: orch_status
  bo_statsTimer :: "string option"
  bo_boardId :: "string option"
  bo_boardKey :: "bytes option"
  bo_watching :: bool
  bo_isListening :: bool
  bo_syncDebounce :: bool
  bo_firstPeerAt :: "int option"
  bo_verdictTimer :: bool
  bo_tasks :: "(nat, bo_task) jsmap"
  bo_seq :: nat

type_synonym bo_step = "board_orch orch_step"

definition bo_init :: board_orch where
  "bo_init =
     \<lparr>bo_listeners = [], bo_statusListeners = [], bo_threads = [], bo_snapshot = [], bo_seenPacketIds = [],
      bo_currentStatus = idle_status, bo_statsTimer = None, bo_boardId = None, bo_boardKey = None, bo_watching = False,
      bo_isListening = False, bo_syncDebounce = False, bo_firstPeerAt = None, bo_verdictTimer = False, bo_tasks = [],
      bo_seq = 0\<rparr>"

definition bo_wait :: "nat \<Rightarrow> bo_task \<Rightarrow> board_orch \<Rightarrow> board_orch" where
  "bo_wait i t s = s\<lparr>bo_tasks := jm_set i t (bo_tasks s)\<rparr>"

definition bo_done :: "nat \<Rightarrow> board_orch \<Rightarrow> board_orch" where
  "bo_done i s = s\<lparr>bo_tasks := jm_del i (bo_tasks s)\<rparr>"

definition bo_spawn :: "bo_task \<Rightarrow> board_orch \<Rightarrow> board_orch" where
  "bo_spawn t s = bo_wait (bo_seq s) t (s\<lparr>bo_seq := Suc (bo_seq s)\<rparr>)"

definition bo_continue :: "nat \<Rightarrow> bo_cont \<Rightarrow> board_orch \<Rightarrow> board_orch" where
  "bo_continue i c s =
     (case c of
        BoNoCont \<Rightarrow> bo_done i s
      | BoCacheCont b k rest \<Rightarrow> bo_wait i (BoCache b k rest) s)"

definition boardKeyId :: "string \<Rightarrow> string" where
  "boardKeyId boardId = ''board:'' @ boardId"

definition BOARD_META_THREAD_ID :: string where
  "BOARD_META_THREAD_ID = ''__board_meta__''"

subsection \<open>Status and display\<close>

definition bo_subscribe :: "nat \<Rightarrow> board_orch \<Rightarrow> board_orch" where
  "bo_subscribe l s = s\<lparr>bo_listeners := js_add l (bo_listeners s)\<rparr>"

definition bo_unsubscribe :: "nat \<Rightarrow> board_orch \<Rightarrow> board_orch" where
  "bo_unsubscribe l s = s\<lparr>bo_listeners := filter (\<lambda>x. x \<noteq> l) (bo_listeners s)\<rparr>"

definition bo_subscribeStatus :: "nat \<Rightarrow> board_orch \<Rightarrow> board_orch" where
  "bo_subscribeStatus l s = s\<lparr>bo_statusListeners := js_add l (bo_statusListeners s)\<rparr>"

definition bo_updateStatus :: "phase \<Rightarrow> orch_msg \<Rightarrow> bool \<Rightarrow> int \<Rightarrow> board_orch \<Rightarrow> bo_step" where
  "bo_updateStatus ph msg isSubmitting powProgress s =
     (let n = \<lparr>os_phase = ph, os_message = msg, os_isSubmitting = isSubmitting, os_powProgress = powProgress\<rparr> in
      if bo_currentStatus s = n then effects [] s
      else effects (map StatusCall (bo_statusListeners s)) (s\<lparr>bo_currentStatus := n\<rparr>))"

definition bo_refreshEmptyStatus :: "orch_env \<Rightarrow> board_orch \<Rightarrow> bo_step" where
  "bo_refreshEmptyStatus e s =
     (if os_isSubmitting (bo_currentStatus s) then effects [] s
      else
        then_step (if bo_verdictTimer s then effects [ClearVerdictTimer] (s\<lparr>bo_verdictTimer := False\<rparr>) else effects [] s)
          (\<lambda>s. if bo_threads s \<noteq> [] then bo_updateStatus PhIdle NoMsg False 0 s
               else if ov_degree e = 0 then bo_updateStatus PhLoading SeekingPeers False 0 (s\<lparr>bo_firstPeerAt := None\<rparr>)
               else
                 (let first = (case bo_firstPeerAt s of None \<Rightarrow> ov_now e | Some t \<Rightarrow> t);
                      s1 = s\<lparr>bo_firstPeerAt := Some first\<rparr>;
                      remaining = EMPTY_VERDICT_GRACE_MS - (ov_now e - first) in
                  if remaining > 0 then
                    then_step (bo_updateStatus PhSyncing (SyncingPeers (ov_degree e)) False 0 s1)
                      (\<lambda>s. effects [SetVerdictTimer remaining] (s\<lparr>bo_verdictTimer := True\<rparr>))
                  else bo_updateStatus PhIdle NothingFound False 0 s1)))"

definition bo_notify :: "board_orch \<Rightarrow> bo_step" where
  "bo_notify s = effects (map ListenerCall (bo_listeners s)) (s\<lparr>bo_snapshot := map snd (bo_threads s)\<rparr>)"

subsection \<open>Packets\<close>

text \<open>\<open>handlePacketObject\<close> as task \<open>i\<close> up to its first wait; \<open>raw\<close> is the text of the packet, where it is at hand.\<close>

definition bo_handle ::
  "nat \<Rightarrow> string \<Rightarrow> bytes \<Rightarrow> jsval \<Rightarrow> bool \<Rightarrow> bytes option \<Rightarrow> bo_cont \<Rightarrow> board_orch \<Rightarrow> board_orch" where
  "bo_handle i b k packet isFromDB raw c s =
     (if is_absent packet \<or> packet_id_of packet \<in> set (bo_seenPacketIds s) then bo_continue i c s
      else bo_wait i (BoOpen b k packet isFromDB raw c)
             (s\<lparr>bo_seenPacketIds := js_add (packet_id_of packet) (bo_seenPacketIds s)\<rparr>))"

definition bo_start ::
  "string \<Rightarrow> bytes \<Rightarrow> jsval \<Rightarrow> bytes option \<Rightarrow> board_orch \<Rightarrow> board_orch" where
  "bo_start b k packet raw s = bo_handle (bo_seq s) b k packet False raw BoNoCont (s\<lparr>bo_seq := Suc (bo_seq s)\<rparr>)"

definition bo_opened ::
  "orch_env \<Rightarrow> nat \<Rightarrow> string \<Rightarrow> bytes \<Rightarrow> jsval \<Rightarrow> bool \<Rightarrow> bytes option \<Rightarrow> bo_cont \<Rightarrow> board_orch \<Rightarrow> board_orch" where
  "bo_opened e i b k packet isFromDB raw c s =
     (case verifyAndDecrypt (ov_S e) (ov_M e) packet k of
        Inr (Some meta) \<Rightarrow>
          if jget meta ''post_type'' = jint 1
          then bo_wait i (BoStats b packet meta (normalizeTimestamp (ov_now e) (jget meta ''created_at'')) isFromDB raw c) s
          else bo_continue i c s
      | _ \<Rightarrow> bo_continue i c s)"

text \<open>\<open>JSON.stringify\<close> with a replacer for byte arrays only; a BigInt makes it throw.\<close>

fun has_big :: "jsval \<Rightarrow> bool" where
  "has_big (JBig _) = True"
| "has_big (JArr vs) = list_ex has_big vs"
| "has_big (JObj kvs) = list_ex (\<lambda>(k, v). has_big v) kvs"
| "has_big _ = False"

definition board_text :: "(rat \<Rightarrow> string) \<Rightarrow> jsval \<Rightarrow> bytes res" where
  "board_text fmt packet = (if has_big packet then Inl TypeError else Inr (packet_text fmt packet))"

text \<open>\<open>persistThread\<close> up to its wait.\<close>

definition persistThread :: "orch_env \<Rightarrow> string \<Rightarrow> jsval \<Rightarrow> jsval \<Rightarrow> bytes option \<Rightarrow> save_req res" where
  "persistThread e b packet meta raw =
     rbind (case raw of Some d \<Rightarrow> Inr d | None \<Rightarrow> board_text (ov_fmt e) packet) (\<lambda>d.
       Inr \<lparr>sr_board = JStr b, sr_thread = JStr BOARD_META_THREAD_ID, sr_payload = d,
         sr_parents = js_or (jget meta ''parents'') (JArr []), sr_pow = js_or (jget meta ''cumulative_pow'') (jint 0),
         sr_root = jget meta ''thread_id'', sr_created = jget meta ''created_at''\<rparr>)"

text \<open>The rest of \<open>handlePacketObject\<close> with the statistics read: the thread goes into the list there is now.\<close>

definition bo_statsGot ::
  "orch_env \<Rightarrow> nat \<Rightarrow> string \<Rightarrow> jsval \<Rightarrow> jsval \<Rightarrow> jsval \<Rightarrow> bool \<Rightarrow> bytes option \<Rightarrow> bo_cont \<Rightarrow> jsval list res \<Rightarrow> board_orch \<Rightarrow> bo_step" where
  "bo_statsGot e i b packet meta created isFromDB raw c stats s =
     (case rbind stats (\<lambda>l. rbind (resolveMaxPow meta l) (\<lambda>w.
            mergeThread (ov_fmt e) meta (packet_id_of packet) w created (bo_threads s))) of
        Inl _ \<Rightarrow> effects [] (bo_continue i c s)
      | Inr (changed, threads) \<Rightarrow>
          then_step
            (if changed then then_step (bo_notify (s\<lparr>bo_threads := threads\<rparr>)) (bo_refreshEmptyStatus e) else effects [] s)
            (\<lambda>s. if isFromDB then effects [] (bo_continue i c s)
                 else (case persistThread e b packet meta raw of
                     Inl _ \<Rightarrow> effects [] (bo_continue i c s)
                   | Inr r \<Rightarrow> effects [DbSave r] (bo_wait i (BoSaved c) s))))"

definition bo_onGossipPacket :: "jsval \<Rightarrow> board_orch \<Rightarrow> board_orch" where
  "bo_onGossipPacket packet s =
     (case (bo_boardId s, bo_boardKey s) of (Some b, Some k) \<Rightarrow> bo_start b k packet None s | _ \<Rightarrow> s)"

definition bo_onHintBody :: "bytes \<Rightarrow> string \<Rightarrow> board_orch \<Rightarrow> board_orch" where
  "bo_onHintBody body keyId s =
     (case (bo_boardId s, bo_boardKey s) of
        (Some b, Some k) \<Rightarrow>
          if keyId \<noteq> boardKeyId b then s
          else (case body_packet body of Inl _ \<Rightarrow> s | Inr packet \<Rightarrow> bo_start b k packet (Some body) s)
      | _ \<Rightarrow> s)"

subsection \<open>Opening and leaving a board\<close>

text \<open>\<open>stopStatsSync\<close> and \<open>startStatsSync\<close>.\<close>

definition bo_stopStats :: "board_orch \<Rightarrow> bo_step" where
  "bo_stopStats s =
     (if bo_statsTimer s = None then effects [] s else effects [ClearStats] (s\<lparr>bo_statsTimer := None\<rparr>))"

definition bo_startStats :: "string \<Rightarrow> board_orch \<Rightarrow> bo_step" where
  "bo_startStats b s = then_step (bo_stopStats s) (\<lambda>s. effects [SetStats b] (s\<lparr>bo_statsTimer := Some b\<rparr>))"

text \<open>The interval fires: the statistics of its board are asked for; and they arrive (none on an error).\<close>

definition bo_ticks :: "board_orch \<Rightarrow> board_orch" where
  "bo_ticks s = (case bo_statsTimer s of None \<Rightarrow> s | Some b \<Rightarrow> bo_spawn (BoTick b) s)"

definition bo_tick :: "orch_env \<Rightarrow> nat \<Rightarrow> jsval list \<Rightarrow> board_orch \<Rightarrow> bo_step" where
  "bo_tick e i stats s =
     (case tick_loop (ov_fmt e) (ov_now e) stats (bo_threads s) False of
        (r, threads, changed) \<Rightarrow>
          let s1 = bo_done i (s\<lparr>bo_threads := threads\<rparr>) in
          (case r of
             Inl err \<Rightarrow> (Inl err, [], s1)
           | Inr _ \<Rightarrow> if changed then bo_notify s1 else effects [] s1))"

definition bo_clear :: "board_orch \<Rightarrow> bo_step" where
  "bo_clear s =
     then_step (bo_stopStats s) (\<lambda>s.
     then_step (effects
         ((if bo_verdictTimer s then [ClearVerdictTimer] else []) @
          (if bo_syncDebounce s then [ClearDebounce] else []) @
          (case bo_boardId s of None \<Rightarrow> [] | Some b \<Rightarrow> [HintRemoveKey (boardKeyId b)]) @
          (if bo_isListening s then [GossipOff, PeersOff] else []) @
          (if bo_watching s then [UnwatchTopic] else []))
         (s\<lparr>bo_firstPeerAt := None, bo_verdictTimer := False, bo_syncDebounce := False, bo_isListening := False,
            bo_watching := False, bo_boardId := None, bo_boardKey := None, bo_threads := [], bo_seenPacketIds := []\<rparr>))
       bo_notify)"

definition bo_fullSync :: "orch_env \<Rightarrow> string \<Rightarrow> board_orch \<Rightarrow> bo_step" where
  "bo_fullSync e b s =
     (if ov_degree e = 0 then bo_refreshEmptyStatus e s
      else then_step (bo_refreshEmptyStatus e s) (bo_startStats b))"

text \<open>\<open>activate\<close> up to its first wait.\<close>

definition bo_switch :: "orch_env \<Rightarrow> string \<Rightarrow> bytes \<Rightarrow> board_orch \<Rightarrow> bo_step" where
  "bo_switch e b k s =
     (if bo_boardId s = Some b \<and> bo_boardKey s = Some k then effects [] s
      else
        then_step (bo_clear s) (\<lambda>s.
          effects [WatchTopic (deriveTopicHash (ov_S e) k)]
            (s\<lparr>bo_boardId := Some b, bo_boardKey := Some k, bo_watching := True\<rparr>)))"

definition bo_listen :: "string \<Rightarrow> bytes \<Rightarrow> board_orch \<Rightarrow> bo_step" where
  "bo_listen b k s =
     (if bo_isListening s then effects [] s
      else effects [GossipOn, PeersOn, HintAddKey (boardKeyId b) k, HintOnBody] (s\<lparr>bo_isListening := True\<rparr>))"

definition bo_activate :: "orch_env \<Rightarrow> string \<Rightarrow> bytes \<Rightarrow> board_orch \<Rightarrow> bo_step" where
  "bo_activate e b k s =
     then_step (bo_switch e b k s) (\<lambda>s. then_step (bo_listen b k s) (\<lambda>s. effects [] (bo_spawn (BoCacheRead b k) s)))"

text \<open>The loop of \<open>loadInitialCache\<close>, and the rest of \<open>activate\<close> after it.\<close>

fun bo_cache :: "orch_env \<Rightarrow> nat \<Rightarrow> string \<Rightarrow> bytes \<Rightarrow> bytes list \<Rightarrow> board_orch \<Rightarrow> bo_step" where
  "bo_cache e i b k [] s = bo_fullSync e b (bo_done i s)"
| "bo_cache e i b k (payload # rest) s =
     (case body_packet payload of
        Inl _ \<Rightarrow> bo_cache e i b k rest s
      | Inr packet \<Rightarrow> effects [] (bo_handle i b k packet True (Some payload) (BoCacheCont b k rest) s))"

definition bo_onPeerConnect :: "orch_env \<Rightarrow> board_orch \<Rightarrow> bo_step" where
  "bo_onPeerConnect e s =
     then_step
       (bo_refreshEmptyStatus e (if bo_threads s = [] then s\<lparr>bo_firstPeerAt := Some (ov_now e)\<rparr> else s)) (\<lambda>s.
       if bo_boardId s = None \<or> bo_boardKey s = None then effects [] s
       else effects ((if bo_syncDebounce s then [ClearDebounce] else []) @ [SetDebounce]) (s\<lparr>bo_syncDebounce := True\<rparr>))"

definition bo_debounced :: "orch_env \<Rightarrow> board_orch \<Rightarrow> bo_step" where
  "bo_debounced e s =
     (let s1 = s\<lparr>bo_syncDebounce := False\<rparr> in
      case (bo_boardId s1, bo_boardKey s1) of (Some b, Some _) \<Rightarrow> bo_fullSync e b s1 | _ \<Rightarrow> effects [] s1)"

subsection \<open>Starting a thread\<close>

definition thread_req :: "orch_env \<Rightarrow> string \<Rightarrow> string \<Rightarrow> string \<Rightarrow> post_req" where
  "thread_req e title b t =
     \<lparr>pq_content = title, pq_boardId = b, pq_threadId = t, pq_postNumber = 0, pq_replyTo = Null,
      pq_difficulty = NETWORK_DIFFICULTY, pq_depth = ov_depth e, pq_postType = 1, pq_parents = [], pq_threadRoot = t,
      pq_cumulativePow = jint NETWORK_DIFFICULTY\<rparr>"

definition submit_fail :: "nat option \<Rightarrow> board_orch \<Rightarrow> bo_step" where
  "submit_fail i s = bo_updateStatus PhError SubmitFailed False 0 (case i of None \<Rightarrow> s | Some i \<Rightarrow> bo_done i s)"

text \<open>\<open>submitThread\<close> up to the wait for the packet. The thread's key is derived only to be thrown away, but a key of
  a wrong length throws there.\<close>

definition bo_submitThread :: "orch_env \<Rightarrow> string \<Rightarrow> bytes \<Rightarrow> string \<Rightarrow> bytes list \<Rightarrow> board_orch \<Rightarrow> bo_step" where
  "bo_submitThread e b k title rounds s =
     (if title = [] then effects [] s
      else
        then_step (bo_updateStatus PhSubmitting Building True 30 s) (\<lambda>s.
          case generateId 10 rounds of
            None \<Rightarrow> effects [] s
          | Some t \<Rightarrow>
              (case deriveThreadKey (ov_S e) k t of
                 None \<Rightarrow> submit_fail None s
               | Some _ \<Rightarrow> effects [] (bo_spawn (BoBuild b k t (thread_req e title b t)) s))))"

definition own_meta :: "string \<Rightarrow> string \<Rightarrow> string \<Rightarrow> jsval \<Rightarrow> jsval" where
  "own_meta t b title savedAt =
     JObj [(''thread_id'', JStr t), (''board_id'', JStr b), (''content'', JStr title), (''post_type'', jint 1),
       (''created_at'', savedAt)]"

definition thread_save :: "string \<Rightarrow> string \<Rightarrow> bytes \<Rightarrow> jsval \<Rightarrow> save_req" where
  "thread_save b t payload savedAt =
     \<lparr>sr_board = JStr b, sr_thread = JStr BOARD_META_THREAD_ID, sr_payload = payload, sr_parents = JArr [],
      sr_pow = jint NETWORK_DIFFICULTY, sr_root = JStr t, sr_created = savedAt\<rparr>"

text \<open>With the packet built: its text, then the list.\<close>

definition bo_built ::
  "orch_env \<Rightarrow> nat \<Rightarrow> string \<Rightarrow> bytes \<Rightarrow> string \<Rightarrow> string \<Rightarrow> jsval res \<Rightarrow> board_orch \<Rightarrow> bo_step" where
  "bo_built e i b k t title built s =
     (case built of
        Inl _ \<Rightarrow> submit_fail (Some i) s
      | Inr packet \<Rightarrow>
          then_step (bo_updateStatus PhSubmitting Spreading True 100 s) (\<lambda>s.
            let savedAt = jget packet ''timestamp'' in
            case rbind (board_text (ov_fmt e) packet) (\<lambda>d.
                 rbind (mergeThread (ov_fmt e) (own_meta t b title savedAt) (packet_id_of packet)
                     (Fin (of_int NETWORK_DIFFICULTY)) savedAt (bo_threads s)) (\<lambda>m. Inr (d, snd m))) of
              Inl _ \<Rightarrow> submit_fail (Some i) s
            | Inr (d, threads) \<Rightarrow>
                then_step
                  (bo_notify (s\<lparr>bo_threads := threads, bo_seenPacketIds := js_add (packet_id_of packet) (bo_seenPacketIds s)\<rparr>))
                  (\<lambda>s. effects [DbSave (thread_save b t d savedAt)] (bo_wait i (BoThreadSaved k packet (length d)) s))))"

definition thread_send :: "orch_env \<Rightarrow> send_random \<Rightarrow> nat \<Rightarrow> bytes \<Rightarrow> jsval \<Rightarrow> nat \<Rightarrow> board_orch \<Rightarrow> bo_step" where
  "thread_send e x i k packet bodyBytes s =
     (case sendAnonymously e x i packet (Some k) of
        Inl _ \<Rightarrow> submit_fail (Some i) s
      | Inr (slot, fx) \<Rightarrow>
          then_step (effects fx (bo_wait i (BoBroadcast slot bodyBytes) s)) (bo_updateStatus PhIdle NoMsg False 0))"

definition bo_broadcastDone :: "nat \<Rightarrow> prepared_slot \<Rightarrow> nat \<Rightarrow> bool \<Rightarrow> board_orch \<Rightarrow> bo_step" where
  "bo_broadcastDone i slot bodyBytes delivered s =
     (if \<not> delivered then bo_updateStatus PhError AnonymousFailed False 0 (bo_done i s)
      else effects [ReleaseHint (sl_hint slot) (int bodyBytes)] (bo_done i s))"

subsection \<open>All events\<close>

datatype bo_event =
    BoActivate string bytes
  | BoGossip jsval
  | BoHintBody bytes string
  | BoPeer
  | BoResume nat send_random
  | BoStatsGot nat "jsval list res"
  | BoCacheGot nat "bytes list"
  | BoFullSync string
  | BoSubmit string bytes string "bytes list"
  | BoBuilt nat build_input
  | BoBroadcastDone nat bool
  | BoVerdict
  | BoDebounced
  | BoStatsTimer
  | BoStartStats string
  | BoStopStats
  | BoClear
  | BoSubscribe nat
  | BoUnsubscribe nat
  | BoSubscribeStatus nat

fun bo_exec :: "orch_env \<Rightarrow> bo_event \<Rightarrow> board_orch \<Rightarrow> bo_step" where
  "bo_exec e (BoActivate b k) s = bo_activate e b k s"
| "bo_exec e (BoGossip packet) s = effects [] (if bo_isListening s then bo_onGossipPacket packet s else s)"
| "bo_exec e (BoHintBody body keyId) s = effects [] (bo_onHintBody body keyId s)"
| "bo_exec e BoPeer s = (if bo_isListening s then bo_onPeerConnect e s else effects [] s)"
| "bo_exec e (BoResume i x) s =
     (case jm_get (bo_tasks s) i of
        Some (BoOpen b k packet fromDB raw c) \<Rightarrow> effects [] (bo_opened e i b k packet fromDB raw c s)
      | Some (BoSaved c) \<Rightarrow> effects [] (bo_continue i c s)
      | Some (BoCache b k rest) \<Rightarrow> bo_cache e i b k rest s
      | Some (BoThreadSaved k packet n) \<Rightarrow> thread_send e x i k packet n s
      | _ \<Rightarrow> effects [] s)"
| "bo_exec e (BoStatsGot i stats) s =
     (case jm_get (bo_tasks s) i of
        Some (BoStats b packet meta created fromDB raw c) \<Rightarrow> bo_statsGot e i b packet meta created fromDB raw c stats s
      | Some (BoTick _) \<Rightarrow> bo_tick e i (case stats of Inl _ \<Rightarrow> [] | Inr l \<Rightarrow> l) s
      | _ \<Rightarrow> effects [] s)"
| "bo_exec e (BoCacheGot i entries) s =
     (case jm_get (bo_tasks s) i of
        Some (BoCacheRead b k) \<Rightarrow> bo_cache e i b k entries s
      | _ \<Rightarrow> effects [] s)"
| "bo_exec e (BoFullSync b) s = bo_fullSync e b s"
| "bo_exec e (BoSubmit b k title rounds) s = bo_submitThread e b k title rounds s"
| "bo_exec e (BoBuilt i bi) s =
     (case jm_get (bo_tasks s) i of
        Some (BoBuild b k t r) \<Rightarrow> bo_built e i b k t (pq_content r) (build_packet e bi k r) s
      | _ \<Rightarrow> effects [] s)"
| "bo_exec e (BoBroadcastDone i delivered) s =
     (case jm_get (bo_tasks s) i of
        Some (BoBroadcast slot n) \<Rightarrow> bo_broadcastDone i slot n delivered s
      | _ \<Rightarrow> effects [] s)"
| "bo_exec e BoVerdict s = (if bo_verdictTimer s then bo_refreshEmptyStatus e (s\<lparr>bo_verdictTimer := False\<rparr>) else effects [] s)"
| "bo_exec e BoDebounced s = (if bo_syncDebounce s then bo_debounced e s else effects [] s)"
| "bo_exec e BoStatsTimer s = effects [] (bo_ticks s)"
| "bo_exec e (BoStartStats b) s = bo_startStats b s"
| "bo_exec e BoStopStats s = bo_stopStats s"
| "bo_exec e BoClear s = bo_clear s"
| "bo_exec e (BoSubscribe l) s = effects [] (bo_subscribe l s)"
| "bo_exec e (BoUnsubscribe l) s = effects [] (bo_unsubscribe l s)"
| "bo_exec e (BoSubscribeStatus l) s = effects [] (bo_subscribeStatus l s)"

abbreviation bo_run :: "(orch_env \<times> bo_event) list \<Rightarrow> board_orch \<Rightarrow> orch_effect list \<times> board_orch" where
  "bo_run \<equiv> orch_run bo_exec"

subsection \<open>What is listed was signed\<close>

text \<open>A packet that opens under a key of a board that was opened, whose content is signed and starts a thread; and a
  thread that was started here.\<close>

definition starts_thread :: "sodium \<Rightarrow> msgpack \<Rightarrow> bytes set \<Rightarrow> jsval \<Rightarrow> jsval \<Rightarrow> bool" where
  "starts_thread S M K packet meta \<longleftrightarrow>
     (\<exists>k \<in> K. verifyAndDecrypt S M packet k = Inr (Some meta) \<and> shown_authentic S M meta \<and> jget meta ''post_type'' = jint 1)"

definition listed_from :: "sodium \<Rightarrow> msgpack \<Rightarrow> bytes set \<Rightarrow> (string \<times> string) set \<Rightarrow> jsval \<Rightarrow> string \<Rightarrow> bool" where
  "listed_from S M K U meta i \<longleftrightarrow>
     (\<exists>packet. starts_thread S M K packet meta \<and> i = packet_id_of packet) \<or>
     (\<exists>t b title d. (b, title) \<in> U \<and> meta = own_meta t b title d)"

abbreviation listed_ok :: "sodium \<Rightarrow> msgpack \<Rightarrow> bytes set \<Rightarrow> (string \<times> string) set \<Rightarrow> thread_meta \<Rightarrow> bool" where
  "listed_ok S M K U n \<equiv> listed_from S M K U (tm_meta n) (tm_packetId n)"

fun bo_cont_fine :: "bytes set \<Rightarrow> bo_cont \<Rightarrow> bool" where
  "bo_cont_fine K BoNoCont \<longleftrightarrow> True"
| "bo_cont_fine K (BoCacheCont b k rest) \<longleftrightarrow> k \<in> K"

fun bo_task_fine :: "sodium \<Rightarrow> msgpack \<Rightarrow> bytes set \<Rightarrow> (string \<times> string) set \<Rightarrow> bo_task \<Rightarrow> bool" where
  "bo_task_fine S M K U (BoOpen b k packet fromDB raw c) \<longleftrightarrow> k \<in> K \<and> bo_cont_fine K c"
| "bo_task_fine S M K U (BoStats b packet meta created fromDB raw c) \<longleftrightarrow> starts_thread S M K packet meta \<and> bo_cont_fine K c"
| "bo_task_fine S M K U (BoSaved c) \<longleftrightarrow> bo_cont_fine K c"
| "bo_task_fine S M K U (BoCacheRead b k) \<longleftrightarrow> k \<in> K"
| "bo_task_fine S M K U (BoCache b k rest) \<longleftrightarrow> k \<in> K"
| "bo_task_fine S M K U (BoBuild b k t r) \<longleftrightarrow> (b, pq_content r) \<in> U"
| "bo_task_fine S M K U _ \<longleftrightarrow> True"

definition bo_ok :: "sodium \<Rightarrow> msgpack \<Rightarrow> bytes set \<Rightarrow> (string \<times> string) set \<Rightarrow> board_orch \<Rightarrow> bool" where
  "bo_ok S M K U s \<longleftrightarrow>
     (\<forall>(k, n) \<in> set (bo_threads s). listed_ok S M K U n) \<and> (\<forall>n \<in> set (bo_snapshot s). listed_ok S M K U n) \<and>
     (\<forall>k. bo_boardKey s = Some k \<longrightarrow> k \<in> K) \<and> (\<forall>(i, t) \<in> set (bo_tasks s). bo_task_fine S M K U t)"

text \<open>What the invariant does not look at.\<close>

lemma bo_ok_simps [simp]:
  "bo_ok S M K U (s\<lparr>bo_currentStatus := st\<rparr>) = bo_ok S M K U s"
  "bo_ok S M K U (s\<lparr>bo_firstPeerAt := f\<rparr>) = bo_ok S M K U s"
  "bo_ok S M K U (s\<lparr>bo_verdictTimer := v\<rparr>) = bo_ok S M K U s"
  "bo_ok S M K U (s\<lparr>bo_syncDebounce := v\<rparr>) = bo_ok S M K U s"
  "bo_ok S M K U (s\<lparr>bo_seenPacketIds := ids\<rparr>) = bo_ok S M K U s"
  "bo_ok S M K U (s\<lparr>bo_statsTimer := tm\<rparr>) = bo_ok S M K U s"
  "bo_ok S M K U (s\<lparr>bo_seq := q\<rparr>) = bo_ok S M K U s"
  "bo_ok S M K U (s\<lparr>bo_isListening := v\<rparr>) = bo_ok S M K U s"
  "bo_ok S M K U (s\<lparr>bo_watching := v\<rparr>) = bo_ok S M K U s"
  "bo_ok S M K U (s\<lparr>bo_boardId := x\<rparr>) = bo_ok S M K U s"
  "bo_ok S M K U (s\<lparr>bo_listeners := ls\<rparr>) = bo_ok S M K U s"
  "bo_ok S M K U (s\<lparr>bo_statusListeners := ls\<rparr>) = bo_ok S M K U s"
  by (simp_all add: bo_ok_def)

named_theorems bo_intro

lemma bo_then_ok:
  "bo_ok S M K U (step_state x) \<Longrightarrow> (\<And>s. bo_ok S M K U s \<Longrightarrow> bo_ok S M K U (step_state (f s))) \<Longrightarrow>
     bo_ok S M K U (step_state (then_step x f))"
  by (rule then_step_state [where Q = "bo_ok S M K U"])

lemma bo_updateStatus_ok [bo_intro]: "bo_ok S M K U s \<Longrightarrow> bo_ok S M K U (step_state (bo_updateStatus ph m sub n s))"
  by (simp add: bo_updateStatus_def Let_def)

lemma bo_refresh_ok [bo_intro]: "bo_ok S M K U s \<Longrightarrow> bo_ok S M K U (step_state (bo_refreshEmptyStatus e s))"
  unfolding bo_refreshEmptyStatus_def Let_def by (auto intro!: bo_then_ok bo_updateStatus_ok)

lemma bo_wait_ok [bo_intro]: "bo_ok S M K U s \<Longrightarrow> bo_task_fine S M K U t \<Longrightarrow> bo_ok S M K U (bo_wait i t s)"
  by (auto simp: bo_ok_def bo_wait_def dest!: jm_set_in)

lemma bo_done_ok [bo_intro]: "bo_ok S M K U s \<Longrightarrow> bo_ok S M K U (bo_done i s)"
  by (auto simp: bo_ok_def bo_done_def set_jm_del)

lemma bo_spawn_ok [bo_intro]: "bo_ok S M K U s \<Longrightarrow> bo_task_fine S M K U t \<Longrightarrow> bo_ok S M K U (bo_spawn t s)"
  by (simp add: bo_spawn_def bo_wait_ok)

lemma bo_continue_ok [bo_intro]: "bo_ok S M K U s \<Longrightarrow> bo_cont_fine K c \<Longrightarrow> bo_ok S M K U (bo_continue i c s)"
  by (auto simp: bo_continue_def intro: bo_wait_ok bo_done_ok split: bo_cont.split)

lemma bo_notify_ok [bo_intro]: "bo_ok S M K U s \<Longrightarrow> bo_ok S M K U (step_state (bo_notify s))"
  by (auto simp: bo_notify_def bo_ok_def)

lemma bo_handle_ok [bo_intro]:
  "bo_ok S M K U s \<Longrightarrow> k \<in> K \<Longrightarrow> bo_cont_fine K c \<Longrightarrow> bo_ok S M K U (bo_handle i b k packet fromDB raw c s)"
  by (auto simp: bo_handle_def intro!: bo_continue_ok bo_wait_ok)

lemma bo_packets_ok [bo_intro]:
  "bo_ok S M K U s \<Longrightarrow> bo_ok S M K U (bo_onGossipPacket packet s)" "bo_ok S M K U s \<Longrightarrow> bo_ok S M K U (bo_onHintBody body keyId s)"
proof -
  assume s: "bo_ok S M K U s"
  then have "bo_boardKey s = Some k \<Longrightarrow> k \<in> K" for k by (simp add: bo_ok_def)
  then show "bo_ok S M K U (bo_onGossipPacket packet s)" "bo_ok S M K U (bo_onHintBody body keyId s)"
    using s by (auto simp: bo_onGossipPacket_def bo_onHintBody_def bo_start_def intro!: bo_handle_ok split: option.split sum.split)
qed

lemma bo_opened_ok [bo_intro]:
  assumes "bo_ok (ov_S e) (ov_M e) K U s" "k \<in> K" "bo_cont_fine K c"
  shows "bo_ok (ov_S e) (ov_M e) K U (bo_opened e i b k packet fromDB raw c s)"
proof (cases "\<exists>meta. verifyAndDecrypt (ov_S e) (ov_M e) packet k = Inr (Some meta) \<and> jget meta ''post_type'' = jint 1")
  case True
  then obtain meta where v: "verifyAndDecrypt (ov_S e) (ov_M e) packet k = Inr (Some meta)" "jget meta ''post_type'' = jint 1" by blast
  obtain enc inner where "verify_inner (ov_S e) (ov_M e) enc inner = Inr (Some meta)" using v(1) by (elim verifyAndDecrypt_Some)
  then have "shown_authentic (ov_S e) (ov_M e) meta" by (rule verify_inner_authentic)
  then have "starts_thread (ov_S e) (ov_M e) K packet meta" using v assms(2) unfolding starts_thread_def by blast
  then show ?thesis using v assms by (simp add: bo_opened_def bo_wait_ok)
next
  case False
  then have "bo_opened e i b k packet fromDB raw c s = bo_continue i c s"
    by (auto simp: bo_opened_def split: sum.split option.split)
  then show ?thesis using assms by (simp add: bo_continue_ok)
qed

text \<open>The list after a merge, and after the statistics.\<close>

lemma mt_set_in: "(k', n') \<in> set (mt_set k n m) \<Longrightarrow> n' = n \<or> (k', n') \<in> set m"
  by (auto simp: mt_set_def dest!: jm_set_in split: if_splits)

lemma mt_get_in: "mt_get m k = Some n \<Longrightarrow> (k, n) \<in> set m"
  by (auto simp: mt_get_def dest: jm_get_in_set split: if_splits)

lemma mergeThread_listed:
  assumes "mergeThread fmt meta i w c m = Inr (changed, m')" "P meta i" "\<forall>(k, n) \<in> set m. P (tm_meta n) (tm_packetId n)"
  shows "\<forall>(k, n) \<in> set m'. P (tm_meta n) (tm_packetId n)"
proof (cases "mt_get m (jget meta ''thread_id'')")
  case None
  then show ?thesis using assms by (auto simp: mergeThread_def dest!: mt_set_in)
next
  case (Some old)
  have "P (tm_meta old) (tm_packetId old)" using assms(3) mt_get_in [OF Some] by blast
  then show ?thesis using assms Some
    by (auto simp: mergeThread_def rbind_Inr_iff Let_def dest!: mt_set_in split: if_splits)
qed

lemma tick_one_listed:
  assumes "tick_one fmt now s m = Inr (Some m')" "\<forall>(k, n) \<in> set m. P (tm_meta n) (tm_packetId n)"
  shows "\<forall>(k, n) \<in> set m'. P (tm_meta n) (tm_packetId n)"
proof (cases "mt_get m (jget s ''threadId'')")
  case (Some t)
  have "P (tm_meta t) (tm_packetId t)" using assms(2) mt_get_in [OF Some] by blast
  then show ?thesis using assms Some by (auto simp: tick_one_def rbind_Inr_iff Let_def dest!: mt_set_in split: if_splits)
qed (use assms in \<open>simp add: tick_one_def\<close>)

lemma tick_loop_listed:
  "\<forall>(k, n) \<in> set m. P (tm_meta n) (tm_packetId n) \<Longrightarrow>
     \<forall>(k, n) \<in> set (fst (snd (tick_loop fmt now ss m ch))). P (tm_meta n) (tm_packetId n)"
proof (induction ss arbitrary: m ch)
  case (Cons x ss)
  show ?case
  proof (cases "tick_one fmt now x m")
    case (Inr r)
    show ?thesis
    proof (cases r)
      case (Some m')
      have "tick_one fmt now x m = Inr (Some m')" using Inr Some by simp
      from tick_one_listed [where P = P, OF this Cons.prems] show ?thesis using Cons.IH [of m' True] Inr Some by simp
    qed (use Cons Inr in simp)
  qed (use Cons in simp)
qed simp

lemma bo_threads_ok: "bo_ok S M K U s \<Longrightarrow> \<forall>(k, n) \<in> set m. listed_ok S M K U n \<Longrightarrow> bo_ok S M K U (s\<lparr>bo_threads := m\<rparr>)"
  by (simp add: bo_ok_def)

lemma bo_statsGot_ok [bo_intro]:
  assumes "bo_ok S M K U s" "starts_thread S M K packet meta" "bo_cont_fine K c"
  shows "bo_ok S M K U (step_state (bo_statsGot e i b packet meta created fromDB raw c stats s))"
proof (cases "rbind stats (\<lambda>l. rbind (resolveMaxPow meta l) (\<lambda>w.
            mergeThread (ov_fmt e) meta (packet_id_of packet) w created (bo_threads s)))")
  case (Inr r)
  obtain changed m where r: "r = (changed, m)" by force
  then obtain w where w: "mergeThread (ov_fmt e) meta (packet_id_of packet) w created (bo_threads s) = Inr (changed, m)"
    using Inr by (auto simp: rbind_Inr_iff)
  have "listed_from S M K U meta (packet_id_of packet)" using assms(2) unfolding listed_from_def by blast
  moreover have "\<forall>(k, n) \<in> set (bo_threads s). listed_ok S M K U n" using assms(1) by (simp add: bo_ok_def)
  ultimately have "\<forall>(k, n) \<in> set m. listed_ok S M K U n" by (rule mergeThread_listed [where P = "listed_from S M K U", OF w])
  then have m: "bo_ok S M K U (s\<lparr>bo_threads := m\<rparr>)" using assms(1) by (simp add: bo_threads_ok)
  have first: "bo_ok S M K U (step_state (if changed then then_step (bo_notify (s\<lparr>bo_threads := m\<rparr>)) (bo_refreshEmptyStatus e)
      else effects [] s))"
    using bo_then_ok [OF bo_notify_ok [OF m] bo_refresh_ok] assms(1) by simp
  have rest: "bo_ok S M K U (step_state (if fromDB then effects [] (bo_continue i c s) else (case persistThread e b packet meta raw of
      Inl _ \<Rightarrow> effects [] (bo_continue i c s) | Inr r \<Rightarrow> effects [DbSave r] (bo_wait i (BoSaved c) s))))"
    if "bo_ok S M K U s" for s
    using that assms(3) by (cases "persistThread e b packet meta raw") (simp_all add: bo_continue_ok bo_wait_ok)
  show ?thesis unfolding bo_statsGot_def Inr r sum.case prod.case by (rule bo_then_ok [OF first rest])
qed (use assms in \<open>simp add: bo_statsGot_def bo_continue_ok\<close>)

lemma bo_stats_ok [bo_intro]:
  "bo_ok S M K U s \<Longrightarrow> bo_ok S M K U (step_state (bo_stopStats s))"
  "bo_ok S M K U s \<Longrightarrow> bo_ok S M K U (step_state (bo_startStats b s))"
  "bo_ok S M K U s \<Longrightarrow> bo_ok S M K U (bo_ticks s)"
  by (auto simp: bo_stopStats_def bo_startStats_def bo_ticks_def intro!: bo_then_ok bo_spawn_ok split: option.split)

lemma bo_tick_ok [bo_intro]:
  assumes "bo_ok S M K U s"
  shows "bo_ok S M K U (step_state (bo_tick e i stats s))"
proof -
  obtain r m ch where t: "tick_loop (ov_fmt e) (ov_now e) stats (bo_threads s) False = (r, m, ch)" by (rule prod_cases3)
  have "\<forall>(k, n) \<in> set (bo_threads s). listed_ok S M K U n" using assms by (simp add: bo_ok_def)
  from tick_loop_listed [where P = "listed_from S M K U", OF this, of "ov_fmt e" "ov_now e" stats False]
  have "bo_ok S M K U (bo_done i (s\<lparr>bo_threads := m\<rparr>))" using assms by (intro bo_done_ok bo_threads_ok) (simp_all add: t)
  then show ?thesis by (auto simp: bo_tick_def t Let_def intro: bo_notify_ok split: sum.split)
qed

lemma bo_left_ok: "bo_ok S M K U s \<Longrightarrow> bo_ok S M K U (s\<lparr>bo_boardKey := None, bo_threads := []\<rparr>)"
  by (simp add: bo_ok_def)

lemma bo_clear_ok [bo_intro]: "bo_ok S M K U s \<Longrightarrow> bo_ok S M K U (step_state (bo_clear s))"
  using bo_left_ok unfolding bo_clear_def
  by (intro bo_then_ok bo_stats_ok bo_notify_ok) (simp_all add: bo_ok_def)

lemma bo_entered_ok: "bo_ok S M K U s \<Longrightarrow> k \<in> K \<Longrightarrow> bo_ok S M K U (s\<lparr>bo_boardId := b, bo_boardKey := Some k\<rparr>)"
  by (simp add: bo_ok_def)

lemma bo_switch_ok [bo_intro]:
  "bo_ok S M K U s \<Longrightarrow> k \<in> K \<Longrightarrow> bo_ok S M K U (step_state (bo_switch e b k s))"
  unfolding bo_switch_def by (auto intro!: bo_then_ok bo_clear_ok bo_entered_ok)

lemma bo_activate_ok [bo_intro]:
  "bo_ok S M K U s \<Longrightarrow> k \<in> K \<Longrightarrow> bo_ok S M K U (step_state (bo_activate e b k s))"
  unfolding bo_activate_def bo_listen_def by (auto intro!: bo_then_ok bo_switch_ok bo_spawn_ok)

lemma bo_fullSync_ok [bo_intro]: "bo_ok S M K U s \<Longrightarrow> bo_ok S M K U (step_state (bo_fullSync e b s))"
  unfolding bo_fullSync_def by (auto intro!: bo_then_ok bo_refresh_ok bo_stats_ok)

lemma bo_cache_ok [bo_intro]:
  "bo_ok S M K U s \<Longrightarrow> k \<in> K \<Longrightarrow> bo_ok S M K U (step_state (bo_cache e i b k entries s))"
proof (induction entries)
  case (Cons x xs)
  then show ?case by (cases "body_packet x") (auto intro!: bo_handle_ok)
qed (simp add: bo_fullSync_ok bo_done_ok)

lemma bo_peer_ok [bo_intro]: "bo_ok S M K U s \<Longrightarrow> bo_ok S M K U (step_state (bo_onPeerConnect e s))"
  "bo_ok S M K U s \<Longrightarrow> bo_ok S M K U (step_state (bo_debounced e s))"
  unfolding bo_onPeerConnect_def bo_debounced_def Let_def
  by (auto intro!: bo_then_ok bo_refresh_ok bo_fullSync_ok split: option.split)

lemma submit_fail_ok [bo_intro]: "bo_ok S M K U s \<Longrightarrow> bo_ok S M K U (step_state (submit_fail i s))"
  unfolding submit_fail_def by (cases i) (auto intro!: bo_updateStatus_ok bo_done_ok)

lemma bo_submit_ok [bo_intro]:
  "bo_ok S M K U s \<Longrightarrow> (b, title) \<in> U \<Longrightarrow> bo_ok S M K U (step_state (bo_submitThread e b k title rounds s))"
  unfolding bo_submitThread_def
  by (auto simp: thread_req_def intro!: bo_then_ok bo_updateStatus_ok submit_fail_ok bo_spawn_ok split: option.split)

lemma thread_send_ok [bo_intro]: "bo_ok S M K U s \<Longrightarrow> bo_ok S M K U (step_state (thread_send e x i k packet n s))"
  unfolding thread_send_def
  by (auto intro!: bo_then_ok bo_updateStatus_ok submit_fail_ok bo_wait_ok split: sum.split prod.split)

lemma bo_built_ok [bo_intro]:
  assumes ok: "bo_ok S M K U s" and u: "(b, title) \<in> U"
  shows "bo_ok S M K U (step_state (bo_built e i b k t title built s))"
proof (cases built)
  case (Inr packet)
  let ?at = "jget packet ''timestamp''"
  let ?r = "\<lambda>s. rbind (board_text (ov_fmt e) packet) (\<lambda>d. rbind (mergeThread (ov_fmt e) (own_meta t b title ?at)
      (packet_id_of packet) (Fin (of_int NETWORK_DIFFICULTY)) ?at (bo_threads s)) (\<lambda>m. Inr (d, snd m)))"
  have "bo_ok S M K U (step_state (case ?r s of Inl _ \<Rightarrow> submit_fail (Some i) s
      | Inr (d, threads) \<Rightarrow> then_step
           (bo_notify (s\<lparr>bo_threads := threads, bo_seenPacketIds := js_add (packet_id_of packet) (bo_seenPacketIds s)\<rparr>))
           (\<lambda>s. effects [DbSave (thread_save b t d ?at)] (bo_wait i (BoThreadSaved k packet (length d)) s))))"
    if s: "bo_ok S M K U s" for s
  proof (cases "?r s")
    case (Inr r)
    obtain d m where r: "r = (d, m)" by force
    then obtain ch where w: "mergeThread (ov_fmt e) (own_meta t b title ?at) (packet_id_of packet) (Fin (of_int NETWORK_DIFFICULTY)) ?at
        (bo_threads s) = Inr (ch, m)"
      using Inr by (auto simp: rbind_Inr_iff)
    have "listed_from S M K U (own_meta t b title ?at) (packet_id_of packet)" using u unfolding listed_from_def by blast
    moreover have "\<forall>(k, n) \<in> set (bo_threads s). listed_ok S M K U n" using s by (simp add: bo_ok_def)
    ultimately have "\<forall>(k, n) \<in> set m. listed_ok S M K U n"
      by (rule mergeThread_listed [where P = "listed_from S M K U", OF w])
    then have m: "bo_ok S M K U (s\<lparr>bo_threads := m, bo_seenPacketIds := js_add (packet_id_of packet) (bo_seenPacketIds s)\<rparr>)"
      using bo_threads_ok [OF s] by simp
    show ?thesis unfolding Inr r sum.case prod.case
      by (rule bo_then_ok [OF bo_notify_ok [OF m]]) (simp add: bo_wait_ok)
  qed (use s in \<open>simp add: submit_fail_ok\<close>)
  from bo_then_ok [OF bo_updateStatus_ok [OF ok] this] show ?thesis by (simp add: bo_built_def Inr Let_def)
qed (use ok in \<open>simp add: bo_built_def submit_fail_ok\<close>)

lemma bo_exec_ok:
  assumes "bo_ok (ov_S e) (ov_M e) K U s" "\<And>b k. ev = BoActivate b k \<Longrightarrow> k \<in> K"
    "\<And>b k title r. ev = BoSubmit b k title r \<Longrightarrow> (b, title) \<in> U"
  shows "bo_ok (ov_S e) (ov_M e) K U (step_state (bo_exec e ev s))"
proof -
  have task: "bo_task_fine (ov_S e) (ov_M e) K U t" if "jm_get (bo_tasks s) i = Some t" for i t
    using assms(1) jm_get_in_set [OF that] by (auto simp: bo_ok_def)
  show ?thesis
  proof (cases ev)
    case (BoResume i x)
    show ?thesis
    proof (cases "jm_get (bo_tasks s) i")
      case (Some t)
      show ?thesis using task [OF Some] Some assms(1) BoResume
        by (cases t) (auto intro!: bo_opened_ok bo_continue_ok bo_cache_ok thread_send_ok)
    qed (use assms(1) BoResume in simp)
  next
    case (BoStatsGot i stats)
    show ?thesis
    proof (cases "jm_get (bo_tasks s) i")
      case (Some t)
      show ?thesis using task [OF Some] Some assms(1) BoStatsGot by (cases t) (auto intro!: bo_statsGot_ok bo_tick_ok)
    qed (use assms(1) BoStatsGot in simp)
  next
    case (BoCacheGot i entries)
    show ?thesis
    proof (cases "jm_get (bo_tasks s) i")
      case (Some t)
      show ?thesis using task [OF Some] Some assms(1) BoCacheGot by (cases t) (auto intro!: bo_cache_ok)
    qed (use assms(1) BoCacheGot in simp)
  next
    case (BoBuilt i bi)
    show ?thesis
    proof (cases "jm_get (bo_tasks s) i")
      case (Some t)
      show ?thesis using task [OF Some] Some assms(1) BoBuilt by (cases t) (auto intro!: bo_built_ok)
    qed (use assms(1) BoBuilt in simp)
  next
    case (BoBroadcastDone i delivered)
    then show ?thesis using assms(1)
      by (auto simp: bo_broadcastDone_def intro!: bo_updateStatus_ok bo_done_ok split: option.split bo_task.split)
  qed (use assms in \<open>auto simp: bo_subscribe_def bo_unsubscribe_def bo_subscribeStatus_def intro!: bo_intro\<close>)
qed

interpretation bo_inv: kept_by_steps bo_exec
    "\<lambda>(e, ev). ov_S e = S \<and> ov_M e = M \<and> (\<forall>b k. ev = BoActivate b k \<longrightarrow> k \<in> K) \<and>
      (\<forall>b k title r. ev = BoSubmit b k title r \<longrightarrow> (b, title) \<in> U)"
    "bo_ok S M K U" for S M K U
  by unfold_locales (auto intro: bo_exec_ok)

lemma bo_init_ok: "bo_ok S M K U bo_init"
  by (simp add: bo_ok_def bo_init_def)

definition opened_keys :: "(orch_env \<times> bo_event) list \<Rightarrow> bytes set" where
  "opened_keys evs = {k. \<exists>e b. (e, BoActivate b k) \<in> set evs}"

definition started_threads :: "(orch_env \<times> bo_event) list \<Rightarrow> (string \<times> string) set" where
  "started_threads evs = {(b, title). \<exists>e k r. (e, BoSubmit b k title r) \<in> set evs}"


subsection \<open>What stays of a thread\<close>

text \<open>Titles, authors and identifiers stay with the thread; only weight and time may change.\<close>

definition keeps_threads :: "thread_list \<Rightarrow> thread_list \<Rightarrow> bool" where
  "keeps_threads m m' \<longleftrightarrow>
     (\<forall>k n. mt_get m k = Some n \<longrightarrow>
        (\<exists>n'. mt_get m' k = Some n' \<and> tm_meta n' = tm_meta n \<and> tm_packetId n' = tm_packetId n))"

lemma keeps_refl [simp]: "keeps_threads m m"
  by (simp add: keeps_threads_def)

lemma keeps_trans: "keeps_threads m1 m2 \<Longrightarrow> keeps_threads m2 m3 \<Longrightarrow> keeps_threads m1 m3"
  unfolding keeps_threads_def by metis

lemma jm_get_append_new: "jm_get m k = Some n \<Longrightarrow> jm_get (m @ m') k = Some n"
  by (simp add: map_add_Some_iff)

lemma keeps_new: "mt_get m k = None \<Longrightarrow> keeps_threads m (mt_set k n m)"
  by (auto simp: keeps_threads_def mt_get_def mt_set_def jm_get_append_new split: if_splits)

lemma keeps_update:
  "mt_get m k = Some old \<Longrightarrow> tm_meta n = tm_meta old \<Longrightarrow> tm_packetId n = tm_packetId old \<Longrightarrow> keeps_threads m (mt_set k n m)"
  by (auto simp: keeps_threads_def mt_get_def mt_set_def split: if_splits)

lemma mergeThread_keeps: "mergeThread fmt meta i w c m = Inr (ch, m') \<Longrightarrow> keeps_threads m m'"
  by (cases "mt_get m (jget meta ''thread_id'')")
    (auto simp: mergeThread_def rbind_Inr_iff Let_def intro: keeps_new keeps_update split: if_splits)

lemma tick_loop_keeps: "keeps_threads m (fst (snd (tick_loop fmt now ss m ch)))"
proof (induction ss arbitrary: m ch)
  case (Cons x ss)
  show ?case
  proof (cases "tick_one fmt now x m")
    case (Inr r)
    show ?thesis
    proof (cases r)
      case (Some m')
      have "keeps_threads m m'" using Inr Some
        by (cases "mt_get m (jget x ''threadId'')")
          (auto simp: tick_one_def rbind_Inr_iff Let_def intro: keeps_update split: if_splits)
      from keeps_trans [OF this Cons.IH] show ?thesis using Inr Some by simp
    qed (use Cons Inr in simp)
  qed (use Cons in simp)
qed simp

text \<open>Most operations leave the list alone.\<close>

lemma same_threads [simp]:
  "bo_threads (step_state (bo_updateStatus ph m sub n s)) = bo_threads s"
  "bo_threads (bo_wait i t s) = bo_threads s" "bo_threads (bo_done i s) = bo_threads s"
  "bo_threads (bo_spawn t s) = bo_threads s" "bo_threads (bo_continue i c s) = bo_threads s"
  "bo_threads (step_state (bo_notify s)) = bo_threads s"
  "bo_threads (step_state (bo_stopStats s)) = bo_threads s"
  "bo_threads (step_state (submit_fail o' s)) = bo_threads s"
  by (simp_all add: bo_updateStatus_def Let_def bo_wait_def bo_done_def bo_spawn_def bo_continue_def bo_notify_def
      bo_stopStats_def submit_fail_def split: bo_cont.split option.split)

lemma then_same:
  "bo_threads (step_state x) = m \<Longrightarrow> (\<And>s. bo_threads s = m \<Longrightarrow> bo_threads (step_state (f s)) = m) \<Longrightarrow>
     bo_threads (step_state (then_step x f)) = m"
  by (rule then_step_state [where Q = "\<lambda>s. bo_threads s = m"])

lemma same_threads_ops [simp]:
  "bo_threads (step_state (bo_refreshEmptyStatus e s)) = bo_threads s"
  "bo_threads (step_state (bo_startStats b s)) = bo_threads s"
  "bo_threads (bo_handle i b k packet fromDB raw c s) = bo_threads s"
  "bo_threads (bo_opened e i b k packet fromDB raw c s) = bo_threads s"
  "bo_threads (bo_onGossipPacket packet s) = bo_threads s" "bo_threads (bo_onHintBody body keyId s) = bo_threads s"
  "bo_threads (bo_ticks s) = bo_threads s"
  unfolding bo_refreshEmptyStatus_def bo_startStats_def Let_def
  by (auto simp: bo_handle_def bo_opened_def bo_onGossipPacket_def bo_onHintBody_def bo_start_def bo_ticks_def
      intro!: then_same split: option.split sum.split)

lemma same_threads_sync [simp]:
  "bo_threads (step_state (bo_fullSync e b s)) = bo_threads s"
  "bo_threads (step_state (bo_onPeerConnect e s)) = bo_threads s"
  "bo_threads (step_state (bo_submitThread e b k title rounds s)) = bo_threads s"
  "bo_threads (step_state (thread_send e x i k packet n s)) = bo_threads s"
  "bo_threads (step_state (bo_broadcastDone i slot n delivered s)) = bo_threads s"
  unfolding bo_fullSync_def bo_onPeerConnect_def bo_submitThread_def thread_send_def bo_broadcastDone_def
  by (auto intro!: then_same split: option.split sum.split prod.split)

lemma same_threads_cache [simp]: "bo_threads (step_state (bo_cache e i b k entries s)) = bo_threads s"
proof (induction entries)
  case (Cons x xs)
  then show ?case by (cases "body_packet x") auto
qed simp

lemma same_threads_debounced [simp]: "bo_threads (step_state (bo_debounced e s)) = bo_threads s"
  by (auto simp: bo_debounced_def Let_def split: option.split)

lemma bo_statsGot_keeps: "keeps_threads (bo_threads s) (bo_threads (step_state (bo_statsGot e i b packet meta created fromDB raw c stats s)))"
proof (cases "rbind stats (\<lambda>l. rbind (resolveMaxPow meta l) (\<lambda>w.
            mergeThread (ov_fmt e) meta (packet_id_of packet) w created (bo_threads s)))")
  case (Inr r)
  obtain changed m where r: "r = (changed, m)" by force
  then obtain w where w: "mergeThread (ov_fmt e) meta (packet_id_of packet) w created (bo_threads s) = Inr (changed, m)"
    using Inr by (auto simp: rbind_Inr_iff)
  let ?x = "if changed then then_step (bo_notify (s\<lparr>bo_threads := m\<rparr>)) (bo_refreshEmptyStatus e) else effects [] s"
  let ?f = "\<lambda>s. if fromDB then effects [] (bo_continue i c s) else (case persistThread e b packet meta raw of
      Inl _ \<Rightarrow> effects [] (bo_continue i c s) | Inr r \<Rightarrow> effects [DbSave r] (bo_wait i (BoSaved c) s))"
  have first: "bo_threads (step_state ?x) = (if changed then m else bo_threads s)" by (auto intro: then_same)
  have rest: "bo_threads (step_state (?f s)) = bo_threads s" for s by (auto split: sum.split)
  have "bo_threads (step_state (then_step ?x ?f)) = (if changed then m else bo_threads s)"
    by (rule then_same [OF first]) (simp only: rest)
  then show ?thesis using mergeThread_keeps [OF w] unfolding bo_statsGot_def Inr r sum.case prod.case by simp
qed (simp add: bo_statsGot_def)

lemma bo_built_keeps: "keeps_threads (bo_threads s) (bo_threads (step_state (bo_built e i b k t title built s)))"
proof (cases built)
  case (Inr packet)
  let ?at = "jget packet ''timestamp''"
  let ?r = "\<lambda>s. rbind (board_text (ov_fmt e) packet) (\<lambda>d. rbind (mergeThread (ov_fmt e) (own_meta t b title ?at)
      (packet_id_of packet) (Fin (of_int NETWORK_DIFFICULTY)) ?at (bo_threads s)) (\<lambda>m. Inr (d, snd m)))"
  let ?f = "\<lambda>s. case ?r s of Inl _ \<Rightarrow> submit_fail (Some i) s
      | Inr (d, threads) \<Rightarrow> then_step
           (bo_notify (s\<lparr>bo_threads := threads, bo_seenPacketIds := js_add (packet_id_of packet) (bo_seenPacketIds s)\<rparr>))
           (\<lambda>s. effects [DbSave (thread_save b t d ?at)] (bo_wait i (BoThreadSaved k packet (length d)) s))"
  let ?m = "bo_threads s"
  have step: "keeps_threads ?m (bo_threads (step_state (?f s)))" if s: "keeps_threads ?m (bo_threads s)" for s
  proof (cases "?r s")
    case (Inr r)
    obtain d m where r: "r = (d, m)" by force
    then obtain ch where w: "mergeThread (ov_fmt e) (own_meta t b title ?at) (packet_id_of packet) (Fin (of_int NETWORK_DIFFICULTY)) ?at
        (bo_threads s) = Inr (ch, m)"
      using Inr by (auto simp: rbind_Inr_iff)
    have "bo_threads (step_state (?f s)) = m" unfolding Inr r sum.case prod.case by (rule then_same) simp_all
    then show ?thesis using keeps_trans [OF s mergeThread_keeps [OF w]] by simp
  qed (use s in simp)
  have "keeps_threads ?m (bo_threads (step_state (then_step (bo_updateStatus PhSubmitting Spreading True 100 s) ?f)))"
    by (rule then_step_state [where Q = "\<lambda>s. keeps_threads ?m (bo_threads s)"]) (simp, rule step)
  then show ?thesis by (simp add: bo_built_def Inr Let_def)
qed (simp add: bo_built_def)

lemma bo_exec_keeps:
  assumes "\<forall>b k. ev \<noteq> BoActivate b k" "ev \<noteq> BoClear"
  shows "keeps_threads (bo_threads s) (bo_threads (step_state (bo_exec e ev s)))"
proof (cases ev)
  case (BoStatsGot i stats)
  have "keeps_threads (bo_threads s) (bo_threads (step_state (bo_tick e i l s)))" for l
    using tick_loop_keeps [of "bo_threads s" "ov_fmt e" "ov_now e" l False]
    by (auto simp: bo_tick_def Let_def split: prod.split sum.split)
  then show ?thesis using BoStatsGot by (auto intro: bo_statsGot_keeps split: option.split bo_task.split)
next
  case (BoBuilt i bi)
  then show ?thesis by (auto intro: bo_built_keeps split: option.split bo_task.split)
qed (use assms in \<open>auto simp: bo_subscribe_def bo_unsubscribe_def bo_subscribeStatus_def split: option.split bo_task.split\<close>)

interpretation bo_titles: kept_by_steps bo_exec "\<lambda>(e, ev). (\<forall>b k. ev \<noteq> BoActivate b k) \<and> ev \<noteq> BoClear"
    "\<lambda>s. keeps_threads m (bo_threads s)" for m
  by unfold_locales (auto intro: keeps_trans bo_exec_keeps)

text \<open>C23: As long as the reader stays on the board, a thread that is listed stays listed, with the title, the author and
  the identifier of the packet that came first.\<close>

theorem listed_thread_keeps_title:
  assumes "\<forall>(e, ev) \<in> set evs. (\<forall>b k. ev \<noteq> BoActivate b k) \<and> ev \<noteq> BoClear" "mt_get (bo_threads s) t = Some n"
  shows "\<exists>n'. mt_get (bo_threads (snd (bo_run evs s))) t = Some n' \<and> tm_meta n' = tm_meta n \<and> tm_packetId n' = tm_packetId n"
proof -
  have "keeps_threads (bo_threads s) (bo_threads (snd (bo_run evs s)))" by (rule bo_titles.run [OF assms(1)]) simp
  then show ?thesis using assms(2) unfolding keeps_threads_def by blast
qed

subsection \<open>Moving on while a packet is read\<close>

lemma refresh_keeps:
  "bo_boardId (step_state (bo_refreshEmptyStatus e s)) = bo_boardId s"
  "bo_snapshot (step_state (bo_refreshEmptyStatus e s)) = bo_snapshot s"
proof -
  show "bo_boardId (step_state (bo_refreshEmptyStatus e s)) = bo_boardId s"
    unfolding bo_refreshEmptyStatus_def Let_def
    by (auto simp: bo_updateStatus_def Let_def intro!: then_step_state [where Q = "\<lambda>s'. bo_boardId s' = bo_boardId s"])
  show "bo_snapshot (step_state (bo_refreshEmptyStatus e s)) = bo_snapshot s"
    unfolding bo_refreshEmptyStatus_def Let_def
    by (auto simp: bo_updateStatus_def Let_def intro!: then_step_state [where Q = "\<lambda>s'. bo_snapshot s' = bo_snapshot s"])
qed

lemma bo_activate_switched:
  assumes "\<not> (bo_boardId s = Some b \<and> bo_boardKey s = Some k)"
  shows "bo_threads (step_state (bo_activate e b k s)) = []" "bo_boardId (step_state (bo_activate e b k s)) = Some b"
    "bo_tasks (step_state (bo_activate e b k s)) = jm_set (bo_seq s) (BoCacheRead b k) (bo_tasks s)"
proof -
  have c: "\<exists>fx s0. bo_clear s = (Inr (), fx, s0) \<and> bo_threads s0 = [] \<and> bo_tasks s0 = bo_tasks s \<and> bo_seq s0 = bo_seq s"
    by (simp add: bo_clear_def bo_stopStats_def then_step_def effects_def bo_notify_def)
  then obtain fx s0 where c: "bo_clear s = (Inr (), fx, s0)" "bo_threads s0 = []" "bo_tasks s0 = bo_tasks s" "bo_seq s0 = bo_seq s"
    by blast
  show "bo_threads (step_state (bo_activate e b k s)) = []" "bo_boardId (step_state (bo_activate e b k s)) = Some b"
    "bo_tasks (step_state (bo_activate e b k s)) = jm_set (bo_seq s) (BoCacheRead b k) (bo_tasks s)"
    using assms c
    by (auto simp: bo_activate_def bo_switch_def bo_listen_def then_step_def effects_def bo_spawn_def bo_wait_def)
qed

lemma moved_on_lists:
  assumes "bo_isListening s" "bo_boardId s = Some a" "bo_boardKey s = Some k" "(b, kb) \<noteq> (a, k)"
    and "\<not> is_absent packet" "packet_id_of packet \<notin> set (bo_seenPacketIds s)"
    and "verifyAndDecrypt (ov_S e) (ov_M e) packet k = Inr (Some meta)" "jget meta ''post_type'' = jint 1"
    and "resolveMaxPow meta stats = Inr w"
    and "s' = snd (bo_run [(e, BoGossip packet), (e, BoResume (bo_seq s) x), (e1, BoActivate b kb),
      (e2, BoStatsGot (bo_seq s) (Inr stats))] s)"
  shows "bo_boardId s' = Some b \<and> bo_snapshot s' =
    [\<lparr>tm_meta = meta, tm_packetId = packet_id_of packet, tm_maxPow = w,
      tm_createdAt = normalizeTimestamp (ov_now e) (jget meta ''created_at'')\<rparr>]"
proof -
  let ?i = "bo_seq s" and ?c = "normalizeTimestamp (ov_now e) (jget meta ''created_at'')"
  let ?n = "\<lparr>tm_meta = meta, tm_packetId = packet_id_of packet, tm_maxPow = w, tm_createdAt = ?c\<rparr>"
  define s1 where "s1 = step_state (bo_exec e (BoGossip packet) s)"
  have s1: "jm_get (bo_tasks s1) ?i = Some (BoOpen a k packet False None BoNoCont)" "bo_boardId s1 = Some a" "bo_boardKey s1 = Some k"
    "bo_seq s1 = Suc ?i"
    using assms(1-3,5,6) by (simp_all add: s1_def bo_onGossipPacket_def bo_start_def bo_handle_def bo_wait_def)
  define s2 where "s2 = step_state (bo_exec e (BoResume ?i x) s1)"
  have s2: "jm_get (bo_tasks s2) ?i = Some (BoStats a packet meta ?c False None BoNoCont)" "bo_boardId s2 = Some a"
    "bo_boardKey s2 = Some k" "bo_seq s2 = Suc ?i"
    using s1 assms(7,8) by (simp_all add: s2_def bo_opened_def bo_wait_def)
  define s3 where "s3 = step_state (bo_exec e1 (BoActivate b kb) s2)"
  have sw: "\<not> (bo_boardId s2 = Some b \<and> bo_boardKey s2 = Some kb)" using s2 assms(4) by auto
  have s3: "jm_get (bo_tasks s3) ?i = Some (BoStats a packet meta ?c False None BoNoCont)" "bo_boardId s3 = Some b" "bo_threads s3 = []"
    using bo_activate_switched [OF sw, of e1] s2 by (simp_all add: s3_def)
  have empty: "mt_get [] key = None" for key by (simp add: mt_get_def)
  let ?m = "[(jget meta ''thread_id'', ?n)]"
  have merge: "mergeThread (ov_fmt e2) meta (packet_id_of packet) w ?c [] = Inr (True, ?m)"
    by (simp add: mergeThread_def empty mt_set_def)
  let ?s4 = "s3\<lparr>bo_threads := ?m, bo_snapshot := [?n]\<rparr>"
  let ?s5 = "step_state (bo_refreshEmptyStatus e2 ?s4)"
  have s5: "bo_boardId ?s5 = Some b" "bo_snapshot ?s5 = [?n]" using s3(2) by (simp_all add: refresh_keeps)
  let ?Q = "\<lambda>s. bo_boardId s = Some b \<and> bo_snapshot s = [?n]"
  have x: "fst (bo_refreshEmptyStatus e2 s) = Inr ()" for s
    by (simp add: bo_refreshEmptyStatus_def then_step_def effects_def bo_updateStatus_def Let_def)
  have "?Q (step_state (bo_statsGot e2 ?i a packet meta ?c False None BoNoCont (Inr stats) s3))"
    using s3(3) assms(9) merge s5
    by (simp add: bo_statsGot_def step_state_then bo_notify_def x bo_continue_def bo_done_def bo_wait_def split: sum.split)
  then have Q: "?Q (step_state (bo_exec e2 (BoStatsGot ?i (Inr stats)) s3))" using s3(1) by simp
  have "s' = step_state (bo_exec e2 (BoStatsGot ?i (Inr stats)) s3)"
    unfolding assms(10) by (simp add: s3_def s2_def s1_def split_beta)
  then show ?thesis using Q by simp
qed

text \<open>C28: A packet of board \<open>a\<close> is opened, and its statistics are being read, when the reader opens board \<open>b\<close>, whose list
  is empty at first: the thread of \<open>a\<close> is then shown as the first thread of \<open>b\<close>, though its packet was opened with the
  key of \<open>a\<close>.\<close>

theorem board_lists_thread_of_another:
  assumes "bo_isListening s" "bo_boardId s = Some a" "bo_boardKey s = Some k" "(b, kb) \<noteq> (a, k)"
    and "\<not> is_absent packet" "packet_id_of packet \<notin> set (bo_seenPacketIds s)"
    and "verifyAndDecrypt (ov_S e) (ov_M e) packet k = Inr (Some meta)" "jget meta ''post_type'' = jint 1"
    and "resolveMaxPow meta stats = Inr w"
    and "s' = snd (bo_run [(e, BoGossip packet), (e, BoResume (bo_seq s) x), (e1, BoActivate b kb),
      (e2, BoStatsGot (bo_seq s) (Inr stats))] s)"
  shows "bo_boardId s' = Some b \<and> bo_snapshot s' =
    [\<lparr>tm_meta = meta, tm_packetId = packet_id_of packet, tm_maxPow = w,
      tm_createdAt = normalizeTimestamp (ov_now e) (jget meta ''created_at'')\<rparr>]"
  using assms by (rule moved_on_lists)

subsection \<open>Weights\<close>

text \<open>The weight of a listed thread can be taken away: any holder of the board's key sends a packet of the same thread
  whose \<open>cumulative_pow\<close> is no number, which makes the weight \<open>NaN\<close>; the next packet then counts as the first.\<close>

theorem listed_weight_can_fall:
  assumes "mt_get m (JStr t) = Some old" "tm_createdAt old = jint d" "0 < d" "tm_maxPow old = Fin w"
    and "jget meta1 ''thread_id'' = JStr t" "jget meta2 ''thread_id'' = JStr t"
    and "js_Number (js_or (jget meta1 ''cumulative_pow'') (jint 0)) = NaN"
  shows "\<exists>w1 m1 m2 n. resolveMaxPow meta1 [] = Inr w1 \<and> mergeThread fmt meta1 i1 w1 c1 m = Inr (True, m1) \<and>
    mergeThread fmt meta2 i2 (Fin v) c2 m1 = Inr (True, m2) \<and> mt_get m2 (JStr t) = Some n \<and> tm_maxPow n = Fin (max 0 v)"
proof -
  have time: "set_time fmt (jint d) = Inr True" using assms(3)
    by (simp add: set_time_def js_isFinite_def del: of_int_0)
  let ?n1 = "old\<lparr>tm_maxPow := NaN, tm_createdAt := jint d\<rparr>"
  let ?m1 = "mt_set (JStr t) ?n1 m"
  have g: "mt_get (mt_set (JStr t) n q) (JStr t) = Some n" for n q by (simp add: mt_get_def mt_set_def)
  have m1: "mergeThread fmt meta1 i1 NaN c1 m = Inr (True, ?m1)"
    using assms time by (simp add: mergeThread_def num_or0_def num_eq_def)
  have "mergeThread fmt meta2 i2 (Fin v) c2 ?m1 = Inr (True, mt_set (JStr t) (?n1\<lparr>tm_maxPow := Fin (max 0 v), tm_createdAt := jint d\<rparr>) ?m1)"
    using assms(6) time by (auto simp: mergeThread_def g num_or0_def num_eq_def max_def)
  then show ?thesis using m1 g assms(7) by (auto simp: resolveMaxPow_def Let_def)
qed

subsection \<open>A reader's node\<close>

definition start_req :: post_req where
  "start_req = toy_req\<lparr>pq_postType := 1\<rparr>"

definition start_inner :: jsval where
  "start_inner = inner_obj start_req 1699999980000 (identity_sign tail_sodium toy_writer [])"

definition start_msgpack :: msgpack where
  "start_msgpack =
     \<lparr>mp_encode = (\<lambda>v. if v = start_inner then [1] else if v = enc_obj start_req [1] then [2] else []),
      mp_decode = (\<lambda>b. if b = [1] then Some start_inner else if b = [2] then Some (enc_obj start_req [1]) else None)\<rparr>"

lemma start_distinct:
  "JObj (signed_obj start_req t) \<noteq> start_inner" "JObj (signed_obj start_req t) \<noteq> enc_obj start_req [1]"
  "enc_obj start_req [1] \<noteq> start_inner"
  by (simp_all add: start_inner_def inner_obj_def signed_obj_def enc_obj_def)

lemma start_encodes:
  "post_inner tail_sodium start_msgpack 1699999980000 toy_writer start_req = start_inner"
  "mp_encode start_msgpack start_inner = [1]" "mp_encode start_msgpack (enc_obj start_req [1]) = [2]"
  "mp_roundtrip start_msgpack start_inner" "mp_roundtrip start_msgpack (enc_obj start_req [1])"
proof -
  have e: "mp_encode start_msgpack (JObj (signed_obj start_req t)) = []" for t
    by (simp add: start_msgpack_def start_distinct)
  show "post_inner tail_sodium start_msgpack 1699999980000 toy_writer start_req = start_inner"
    by (simp add: post_inner_def e start_inner_def)
qed (simp_all add: start_msgpack_def start_distinct mp_roundtrip_def)

definition toy_board_env :: orch_env where
  "toy_board_env = \<lparr>ov_S = tail_sodium, ov_M = start_msgpack, ov_now = 90000, ov_degree = 1, ov_depth = 0,
     ov_dag = \<lparr>da_fmt = (\<lambda>_. []), da_coll = (default :: string comparator), da_anySort = Inr\<rparr>\<rparr>"

lemma start_opens:
  "\<exists>packet meta. verifyAndDecrypt tail_sodium start_msgpack packet (replicate 32 7) = Inr (Some meta) \<and>
     jget meta ''post_type'' = jint 1 \<and> jget meta ''cumulative_pow'' = jint 12 \<and> \<not> is_absent packet"
proof -
  let ?h = "committed_header tail_sodium (replicate 32 7) start_req 1699999980000 (replicate 12 1) toy_sealed"
  have t: "roundToMinute 1700000000000 = 1699999980000" by (simp add: roundToMinute_def)
  have c: "ce_encrypt tail_sodium (replicate 32 7) (replicate 12 1) [2] = Inr toy_sealed"
    by (simp add: ce_encrypt_def tail_sodium_def toy_sealed_def)
  have ok: "header_ok ?h"
    by (simp add: header_ok_def committed_header_def start_req_def toy_req_def computeZoneId_def max_safe_def toy_sealed_def POST_MAGIC_def)
  have d: "ph_difficulty ?h = jint 12" by (simp add: committed_header_def start_req_def toy_req_def)
  have n: "pow_compute tail_sodium 1 ?h = Inr 0" using tail_solvePow [OF ok] by (simp add: pow_compute_def d)
  obtain i where i: "derivePacketId tail_sodium ?h = Inr i"
    using ok powPreimage_ok_iff [of ?h] by (auto simp: derivePacketId_def)
  have b: "pb_build tail_sodium start_msgpack 1 1700000000000 (replicate 12 1) toy_writer (replicate 32 7) start_req =
      Inr (packet_obj i 0 ?h)"
    using n by (simp add: pb_build_def t start_encodes c Let_def i)
  note opens = built_post_opens [OF b t [symmetric] tail_laws(1,2,3) _ _ refl, unfolded start_encodes, OF start_encodes(4,5)]
  have v: "\<exists>sig. verifyAndDecrypt tail_sodium start_msgpack (packet_obj i 0 ?h) (replicate 32 7) =
      Inr (Some (post_obj (inner_obj start_req 1699999980000 sig) (jint (pq_postType start_req)) (opt_bytes (ps_tripPubkey sig))))"
    using opens by blast
  have f: "jget (post_obj (inner_obj start_req 1699999980000 sig) (jint (pq_postType start_req)) (opt_bytes (ps_tripPubkey sig))) ''post_type'' = jint 1"
    "jget (post_obj (inner_obj start_req 1699999980000 sig) (jint (pq_postType start_req)) (opt_bytes (ps_tripPubkey sig))) ''cumulative_pow'' = jint 12" for sig
    using post_fields_obj [of start_req 1699999980000 sig] by (simp_all add: post_fields_def signed_obj_def start_req_def toy_req_def)
  have a: "\<not> is_absent (packet_obj i 0 ?h)" by (simp add: packet_obj_def is_absent_def)
  from v obtain sig where "verifyAndDecrypt tail_sodium start_msgpack (packet_obj i 0 ?h) (replicate 32 7) =
      Inr (Some (post_obj (inner_obj start_req 1699999980000 sig) (jint (pq_postType start_req)) (opt_bytes (ps_tripPubkey sig))))" by blast
  with f a show ?thesis by blast
qed

text \<open>The node that opens board \<open>tech\<close>, and moves on to \<open>art\<close>.\<close>

definition moving_on :: "nat \<Rightarrow> jsval \<Rightarrow> (orch_env \<times> bo_event) list" where
  "moving_on i packet =
     [(toy_board_env, BoGossip packet), (toy_board_env, BoResume i \<lparr>sx_nonce = [], sx_hintNonce = [], sx_messageId = []\<rparr>),
      (toy_board_env, BoActivate ''art'' (replicate 32 8)), (toy_board_env, BoStatsGot i (Inr []))]"

definition toy_board :: board_orch where
  "toy_board = step_state (bo_exec toy_board_env (BoActivate ''tech'' (replicate 32 7)) bo_init)"

lemma toy_board_facts:
  "bo_isListening toy_board" "bo_boardId toy_board = Some ''tech''" "bo_boardKey toy_board = Some (replicate 32 7)"
  "bo_seenPacketIds toy_board = []" "bo_seq toy_board = 1"
  by (simp_all add: toy_board_def bo_activate_def bo_switch_def bo_clear_def bo_stopStats_def bo_notify_def bo_listen_def
      then_step_def effects_def bo_spawn_def bo_wait_def bo_init_def)

lemma toy_moved_on:
  assumes "verifyAndDecrypt tail_sodium start_msgpack packet (replicate 32 7) = Inr (Some meta)"
    "jget meta ''post_type'' = jint 1" "jget meta ''cumulative_pow'' = jint 12" "\<not> is_absent packet"
  shows "bo_isListening toy_board" "bo_boardId toy_board = Some ''tech''" "bo_boardKey toy_board = Some (replicate 32 7)"
    "(''art'', replicate 32 8) \<noteq> (''tech'', replicate 32 7)"
    "\<not> is_absent packet" "packet_id_of packet \<notin> set (bo_seenPacketIds toy_board)"
    "verifyAndDecrypt (ov_S toy_board_env) (ov_M toy_board_env) packet (replicate 32 7) = Inr (Some meta)"
    "jget meta ''post_type'' = jint 1" "resolveMaxPow meta [] = Inr (Fin 12)"
  using assms by (simp_all add: toy_board_facts toy_board_env_def resolveMaxPow_def js_or_def js_Number_def prim_num_def)

theorem board_lists_thread_of_another_witness:
  "\<exists>packet meta n. verifyAndDecrypt tail_sodium start_msgpack packet (replicate 32 7) = Inr (Some meta) \<and> tm_meta n = meta \<and>
     bo_boardKey toy_board = Some (replicate 32 7) \<and> bo_boardId (snd (bo_run (moving_on 1 packet) toy_board)) = Some ''art'' \<and>
     bo_snapshot (snd (bo_run (moving_on 1 packet) toy_board)) = [n]"
proof -
  obtain packet meta where p: "verifyAndDecrypt tail_sodium start_msgpack packet (replicate 32 7) = Inr (Some meta)"
    "jget meta ''post_type'' = jint 1" "jget meta ''cumulative_pow'' = jint 12" "\<not> is_absent packet"
    using start_opens by blast
  note f = toy_moved_on [OF p]
  note board_lists_thread_of_another [OF f refl, of "\<lparr>sx_nonce = [], sx_hintNonce = [], sx_messageId = []\<rparr>" toy_board_env toy_board_env]
  then have "bo_boardId (snd (bo_run (moving_on 1 packet) toy_board)) = Some ''art''"
    "\<exists>n. bo_snapshot (snd (bo_run (moving_on 1 packet) toy_board)) = [n] \<and> tm_meta n = meta"
    unfolding toy_board_facts(5) moving_on_def by (metis thread_meta.select_convs(1))+
  then show ?thesis using p f(3) by blast
qed


theorem listed_thread_keeps_title_witness:
  "\<exists>n. mt_get (bo_threads (snd (bo_run [(toy_board_env, BoStatsTimer), (toy_board_env, BoStatsGot 0 (Inr
       [JObj [(''threadId'', JStr ''t''), (''max_pow'', jint 40)]]))]
       (bo_init\<lparr>bo_statsTimer := Some ''tech'', bo_threads := [(JStr ''t'',
         \<lparr>tm_meta = JStr ''title'', tm_packetId = ''p'', tm_maxPow = Fin 12, tm_createdAt = jint 5\<rparr>)]\<rparr>)))) (JStr ''t'') = Some n \<and>
     tm_meta n = JStr ''title'' \<and> tm_packetId n = ''p''"
  using listed_thread_keeps_title [of "[(toy_board_env, BoStatsTimer), (toy_board_env, BoStatsGot 0 (Inr
       [JObj [(''threadId'', JStr ''t''), (''max_pow'', jint 40)]]))]" "bo_init\<lparr>bo_statsTimer := Some ''tech'', bo_threads := [(JStr ''t'',
         \<lparr>tm_meta = JStr ''title'', tm_packetId = ''p'', tm_maxPow = Fin 12, tm_createdAt = jint 5\<rparr>)]\<rparr>" "JStr ''t''"
       "\<lparr>tm_meta = JStr ''title'', tm_packetId = ''p'', tm_maxPow = Fin 12, tm_createdAt = jint 5\<rparr>"]
  by (simp add: mt_get_def)

theorem listed_weight_can_fall_witness:
  "\<exists>w1 m1 m2 n. resolveMaxPow (JObj [(''thread_id'', JStr ''t''), (''cumulative_pow'', JStr ''x'')]) [] = Inr w1 \<and>
     mergeThread (\<lambda>_. []) (JObj [(''thread_id'', JStr ''t''), (''cumulative_pow'', JStr ''x'')]) ''i1'' w1 (jint 5)
       [(JStr ''t'', \<lparr>tm_meta = Null, tm_packetId = ''p'', tm_maxPow = Fin 1200, tm_createdAt = jint 5\<rparr>)] = Inr (True, m1) \<and>
     mergeThread (\<lambda>_. []) (JObj [(''thread_id'', JStr ''t''), (''cumulative_pow'', jint 12)]) ''i2'' (Fin 12) (jint 5) m1 = Inr (True, m2) \<and>
     mt_get m2 (JStr ''t'') = Some n \<and> tm_maxPow n = Fin 12"
proof -
  have "string_to_number ''x'' = NaN" by code_simp
  then have "js_Number (js_or (jget (JObj [(''thread_id'', JStr ''t''), (''cumulative_pow'', JStr ''x'')]) ''cumulative_pow'') (jint 0)) = NaN"
    by (simp add: js_or_def js_Number_def prim_num_def)
  from listed_weight_can_fall [of "[(JStr ''t'', \<lparr>tm_meta = Null, tm_packetId = ''p'', tm_maxPow = Fin 1200, tm_createdAt = jint 5\<rparr>)]"
      "''t''" _ 5 1200 _ "JObj [(''thread_id'', JStr ''t''), (''cumulative_pow'', jint 12)]", OF _ _ _ _ _ _ this,
      where fmt = "\<lambda>_. []" and ?i1.0 = "''i1''" and ?i2.0 = "''i2''" and ?c1.0 = "jint 5" and ?c2.0 = "jint 5" and v = 12]
  show ?thesis by (simp add: mt_get_def)
qed

end
