(* ===== verification/Vault.thy ===== *)
theory Vault
  imports Sodium JsText Encoding "HOL-Library.Countable"
begin

text \<open>
  Sealing secrets and data on the device: \<open>storage/SecretVault.ts\<close> and \<open>storage/DataVault.ts\<close> (under
  \<open>packages/core/src\<close>). A secret is sealed under a key stretched from a passphrase; the data of the device
  are sealed under two keys derived from a random data key (DEK), which is itself a sealed secret. The
  lemmas give the round trips, what a wrong passphrase and a locked vault do, and that wrapping the data
  key anew keeps the data keys.

  The functions of libsodium this uses are the fields of \<open>vault_lib\<close>; \<open>None\<close> is an exception. Random bytes
  (salt, nonces, data key) are arguments.
\<close>

record vault_lib =
  vl_pwhash :: "string \<Rightarrow> bytes \<Rightarrow> int \<Rightarrow> int \<Rightarrow> bytes option"
  vl_box :: "bytes \<Rightarrow> bytes \<Rightarrow> bytes \<Rightarrow> bytes"
  vl_box_open :: "bytes \<Rightarrow> bytes \<Rightarrow> bytes \<Rightarrow> bytes option"
  vl_kdf :: "int \<Rightarrow> string \<Rightarrow> bytes \<Rightarrow> bytes"
  vl_seal :: "bytes \<Rightarrow> bytes \<Rightarrow> bytes \<Rightarrow> bytes \<Rightarrow> bytes"
  vl_unseal :: "bytes \<Rightarrow> bytes \<Rightarrow> bytes \<Rightarrow> bytes \<Rightarrow> bytes option"
  vl_hash :: "nat \<Rightarrow> bytes \<Rightarrow> bytes \<Rightarrow> bytes"

subsection \<open>Sealed secrets\<close>

record vault_params =
  vp_opsLimit :: int
  vp_memLimit :: int

definition VAULT_PARAMS :: vault_params where
  "VAULT_PARAMS = \<lparr>vp_opsLimit = 3, vp_memLimit = 64 * 1024 * 1024\<rparr>"

definition VAULT_PARAMS_FAST :: vault_params where
  "VAULT_PARAMS_FAST = \<lparr>vp_opsLimit = 1, vp_memLimit = 8192\<rparr>"

record sealed_secret =
  sv_v :: int
  sv_protected :: bool
  sv_salt :: bytes
  sv_nonce :: bytes
  sv_ciphertext :: bytes
  sv_opsLimit :: int
  sv_memLimit :: int

text \<open>\<open>SecretVault.deriveKey\<close>: the salt has 16 bytes, the limits are those of libsodium.\<close>

definition sv_deriveKey :: "vault_lib \<Rightarrow> string \<Rightarrow> bytes \<Rightarrow> vault_params \<Rightarrow> bytes res" where
  "sv_deriveKey V passphrase salt params =
     (case vl_pwhash V passphrase salt (vp_opsLimit params) (vp_memLimit params) of
        None \<Rightarrow> Inl TypeError
      | Some key \<Rightarrow> Inr key)"

definition sv_seal :: "vault_lib \<Rightarrow> bytes \<Rightarrow> bytes \<Rightarrow> bytes \<Rightarrow> string \<Rightarrow> vault_params \<Rightarrow> sealed_secret res" where
  "sv_seal V salt nonce secret passphrase params =
     rbind (sv_deriveKey V passphrase salt params) (\<lambda>key.
       Inr \<lparr>sv_v = 1, sv_protected = (passphrase \<noteq> []), sv_salt = salt, sv_nonce = nonce,
            sv_ciphertext = vl_box V secret nonce key,
            sv_opsLimit = vp_opsLimit params, sv_memLimit = vp_memLimit params\<rparr>)"

definition sv_open :: "vault_lib \<Rightarrow> sealed_secret \<Rightarrow> string \<Rightarrow> bytes option" where
  "sv_open V sealed passphrase =
     (if sv_v sealed \<noteq> 1 then None
      else
        (case sv_deriveKey V passphrase (sv_salt sealed) \<lparr>vp_opsLimit = sv_opsLimit sealed, vp_memLimit = sv_memLimit sealed\<rparr> of
           Inl _ \<Rightarrow> None
         | Inr key \<Rightarrow> vl_box_open V (sv_ciphertext sealed) (sv_nonce sealed) key))"

subsection \<open>The data vault\<close>

definition WrongPassphraseError :: jserr where
  "WrongPassphraseError = OtherError ''WrongPassphraseError''"

definition DEK_BYTES :: nat where [simp]: "DEK_BYTES = 32"
definition NONCE_BYTES :: nat where [simp]: "NONCE_BYTES = 24"

record data_vault =
  dv_encKey :: bytes
  dv_idxKey :: bytes

definition requirePassphrase :: "string \<Rightarrow> unit res" where
  "requirePassphrase passphrase = (if passphrase = [] then Inl RangeError else Inr ())"

definition fromDek :: "vault_lib \<Rightarrow> bytes \<Rightarrow> data_vault" where
  "fromDek V dek = \<lparr>dv_encKey = vl_kdf V 1 ''aethrenc'' dek, dv_idxKey = vl_kdf V 2 ''aethridx'' dek\<rparr>"

definition dv_create ::
  "vault_lib \<Rightarrow> bytes \<Rightarrow> bytes \<Rightarrow> bytes \<Rightarrow> string \<Rightarrow> vault_params \<Rightarrow> (data_vault \<times> sealed_secret) res" where
  "dv_create V dek salt nonce passphrase params =
     rbind (requirePassphrase passphrase) (\<lambda>_.
     rbind (sv_seal V salt nonce dek passphrase params) (\<lambda>sealed. Inr (fromDek V dek, sealed)))"

definition open_dek :: "vault_lib \<Rightarrow> sealed_secret \<Rightarrow> string \<Rightarrow> bytes res" where
  "open_dek V sealed passphrase =
     (case sv_open V sealed passphrase of
        None \<Rightarrow> Inl WrongPassphraseError
      | Some dek \<Rightarrow> if length dek \<noteq> DEK_BYTES then Inl WrongPassphraseError else Inr dek)"

definition dv_unwrap :: "vault_lib \<Rightarrow> sealed_secret \<Rightarrow> string \<Rightarrow> data_vault res" where
  "dv_unwrap V sealed passphrase =
     rbind (requirePassphrase passphrase) (\<lambda>_.
     rbind (open_dek V sealed passphrase) (\<lambda>dek. Inr (fromDek V dek)))"

definition dv_rewrap ::
  "vault_lib \<Rightarrow> bytes \<Rightarrow> bytes \<Rightarrow> sealed_secret \<Rightarrow> string \<Rightarrow> string \<Rightarrow> vault_params \<Rightarrow> sealed_secret res" where
  "dv_rewrap V salt nonce sealed oldPassphrase newPassphrase params =
     rbind (requirePassphrase newPassphrase) (\<lambda>_.
     rbind (open_dek V sealed oldPassphrase) (\<lambda>dek. sv_seal V salt nonce dek newPassphrase params))"

definition dv_isOpen :: "data_vault \<Rightarrow> bool" where
  "dv_isOpen dv \<longleftrightarrow> length (dv_encKey dv) = 32"

definition dv_wipe :: "data_vault \<Rightarrow> data_vault" where
  "dv_wipe dv = dv\<lparr>dv_encKey := [], dv_idxKey := []\<rparr>"

definition dv_assertOpen :: "data_vault \<Rightarrow> unit res" where
  "dv_assertOpen dv = (if dv_isOpen dv then Inr () else Inl (OtherError ''DataVault is locked''))"

definition dv_seal :: "vault_lib \<Rightarrow> msgpack \<Rightarrow> data_vault \<Rightarrow> bytes \<Rightarrow> jsval \<Rightarrow> string \<Rightarrow> bytes res" where
  "dv_seal V M dv nonce v ad =
     rbind (dv_assertOpen dv) (\<lambda>_.
       Inr (nonce @ vl_seal V (mp_encode M v) (utf8 ad) nonce (dv_encKey dv)))"

text \<open>A value that cannot be opened is \<open>null\<close>.\<close>

definition dv_open :: "vault_lib \<Rightarrow> msgpack \<Rightarrow> data_vault \<Rightarrow> jsval \<Rightarrow> string \<Rightarrow> jsval res" where
  "dv_open V M dv blob ad =
     rbind (dv_assertOpen dv) (\<lambda>_. Inr
       (case blob of
          JBytes bs \<Rightarrow>
            if length bs \<le> NONCE_BYTES then Null
            else
              (case vl_unseal V (drop NONCE_BYTES bs) (utf8 ad) (take NONCE_BYTES bs) (dv_encKey dv) of
                 None \<Rightarrow> Null
               | Some pt \<Rightarrow> (case mp_decode M pt of None \<Rightarrow> Null | Some v \<Rightarrow> v))
        | _ \<Rightarrow> Null))"

definition dv_index :: "vault_lib \<Rightarrow> data_vault \<Rightarrow> string \<Rightarrow> string \<Rightarrow> string res" where
  "dv_index V dv label v =
     rbind (dv_assertOpen dv) (\<lambda>_.
       Inr (toHex (vl_hash V 16 (utf8 (label @ [CHR 0x00] @ v)) (dv_idxKey dv))))"

subsection \<open>Documented laws\<close>

text \<open>Within the documented limits of Argon2id a key of 32 bytes comes out; what was sealed opens.\<close>

definition params_ok :: "vault_params \<Rightarrow> bool" where
  "params_ok p \<longleftrightarrow> 1 \<le> vp_opsLimit p \<and> vp_opsLimit p \<le> 0xffffffff \<and>
     8192 \<le> vp_memLimit p \<and> vp_memLimit p \<le> 4398046510080"

definition vault_law :: "vault_lib \<Rightarrow> bool" where
  "vault_law V \<longleftrightarrow>
     (\<forall>p salt params. length salt = 16 \<and> params_ok params \<longrightarrow>
        (\<exists>k. vl_pwhash V p salt (vp_opsLimit params) (vp_memLimit params) = Some k \<and> length k = 32)) \<and>
     (\<forall>m n k. length n = 24 \<and> length k = 32 \<longrightarrow> vl_box_open V (vl_box V m n k) n k = Some m) \<and>
     (\<forall>i c k. length k = 32 \<longrightarrow> length (vl_kdf V i c k) = 32) \<and>
     (\<forall>m ad n k. length n = 24 \<and> length k = 32 \<longrightarrow>
        vl_unseal V (vl_seal V m ad n k) ad n k = Some m \<and> length (vl_seal V m ad n k) = length m + 16)"

text \<open>A sealed record that opens in another place, and an index under which two values meet: the accidents
  that libsodium makes improbable and that the theorems name.\<close>

definition vault_splice :: "vault_lib \<Rightarrow> bool" where
  "vault_splice V \<longleftrightarrow>
     (\<exists>m ad ad' n k. ad \<noteq> ad' \<and> vl_unseal V (vl_seal V m ad n k) ad' n k \<noteq> None)"

lemma params_ok_defaults [simp]: "params_ok VAULT_PARAMS" "params_ok VAULT_PARAMS_FAST"
  by (simp_all add: params_ok_def VAULT_PARAMS_def VAULT_PARAMS_FAST_def)

lemma vault_lawD:
  assumes "vault_law V"
  shows "length salt = 16 \<Longrightarrow> params_ok params \<Longrightarrow> \<exists>k. sv_deriveKey V p salt params = Inr k \<and> length k = 32"
    "length n = 24 \<Longrightarrow> length k = 32 \<Longrightarrow> vl_box_open V (vl_box V m n k) n k = Some m"
    "length k = 32 \<Longrightarrow> length (vl_kdf V i c k) = 32"
    "length n = 24 \<Longrightarrow> length k = 32 \<Longrightarrow> vl_unseal V (vl_seal V m ad n k) ad n k = Some m"
    "length n = 24 \<Longrightarrow> length k = 32 \<Longrightarrow> length (vl_seal V m ad n k) = length m + 16"
proof -
  show "\<exists>k. sv_deriveKey V p salt params = Inr k \<and> length k = 32" if ok: "length salt = 16" "params_ok params"
  proof -
    obtain k where "vl_pwhash V p salt (vp_opsLimit params) (vp_memLimit params) = Some k \<and> length k = 32"
      using assms ok unfolding vault_law_def by blast
    then show ?thesis by (simp add: sv_deriveKey_def)
  qed
qed (use assms in \<open>auto simp: vault_law_def\<close>)

subsection \<open>Round trips\<close>

lemma sv_open_seal:
  assumes law: "vault_law V" and "length salt = 16" "length nonce = 24" "params_ok params"
  obtains sealed where "sv_seal V salt nonce secret p params = Inr sealed"
    "sv_open V sealed p = Some secret" "sv_protected sealed \<longleftrightarrow> p \<noteq> []"
proof -
  obtain k where k: "sv_deriveKey V p salt params = Inr k" "length k = 32"
    using vault_lawD(1) [OF law] assms by blast
  have p: "\<lparr>vp_opsLimit = vp_opsLimit params, vp_memLimit = vp_memLimit params\<rparr> = params" by simp
  let ?sealed = "\<lparr>sv_v = 1, sv_protected = (p \<noteq> []), sv_salt = salt, sv_nonce = nonce,
    sv_ciphertext = vl_box V secret nonce k, sv_opsLimit = vp_opsLimit params, sv_memLimit = vp_memLimit params\<rparr>"
  show ?thesis
  proof (rule that [of ?sealed])
    show "sv_seal V salt nonce secret p params = Inr ?sealed" using k by (simp add: sv_seal_def)
    show "sv_open V ?sealed p = Some secret"
      using k vault_lawD(2) [OF law assms(3) k(2)] by (simp add: sv_open_def p del: vault_params.surjective)
  qed simp
qed

lemma sv_seal_opens:
  assumes "vault_law V" "length nonce = 24" "sv_seal V salt nonce secret p params = Inr sealed"
    "length salt = 16" "params_ok params"
  shows "sv_open V sealed p = Some secret" "sv_protected sealed \<longleftrightarrow> p \<noteq> []"
  using sv_open_seal [OF assms(1,4,2,5), where secret = secret and p = p] assms(3) by auto

lemma fromDek_open [simp]: "vault_law V \<Longrightarrow> length dek = 32 \<Longrightarrow> dv_isOpen (fromDek V dek)"
  by (simp add: dv_isOpen_def fromDek_def vault_lawD)

lemma dv_wipe_closed [simp]: "\<not> dv_isOpen (dv_wipe dv)"
  by (simp add: dv_isOpen_def dv_wipe_def)

lemma dv_closed:
  assumes "\<not> dv_isOpen dv"
  shows "\<exists>e. dv_seal V M dv n v ad = Inl e" "\<exists>e. dv_open V M dv b ad = Inl e" "\<exists>e. dv_index V dv l v' = Inl e"
  using assms by (auto simp: dv_seal_def dv_open_def dv_index_def dv_assertOpen_def)

lemma dv_seal_Inr: "dv_isOpen dv \<Longrightarrow> \<exists>b. dv_seal V M dv n v ad = Inr b"
  by (simp add: dv_seal_def dv_assertOpen_def)

lemma dv_index_Inr: "dv_isOpen dv \<Longrightarrow> \<exists>k. dv_index V dv l v = Inr k"
  by (simp add: dv_index_def dv_assertOpen_def)

lemma dv_open_Inr: "dv_isOpen dv \<Longrightarrow> \<exists>v. dv_open V M dv b ad = Inr v"
  by (simp add: dv_open_def dv_assertOpen_def)

lemma dv_open_seal:
  assumes "vault_law V" "length n = 24" "mp_roundtrip M v" "dv_seal V M dv n v ad = Inr b"
  shows "dv_open V M dv (JBytes b) ad = Inr v"
proof -
  have o: "dv_isOpen dv" using assms(4) by (auto simp: dv_seal_def dv_assertOpen_def split: if_splits)
  then have k: "length (dv_encKey dv) = 32" by (simp add: dv_isOpen_def)
  have "b = n @ vl_seal V (mp_encode M v) (utf8 ad) n (dv_encKey dv)"
    using assms(4) o by (simp add: dv_seal_def dv_assertOpen_def)
  then show ?thesis using assms(2,3) o vault_lawD(4,5) [OF assms(1,2) k]
    by (simp add: dv_open_def dv_assertOpen_def mp_roundtrip_def)
qed

lemma dv_open_spliced:
  assumes "length n = 24" "dv_seal V M dv n v ad = Inr b" "ad' \<noteq> ad"
  shows "dv_open V M dv (JBytes b) ad' = Inr Null \<or> vault_splice V"
proof (cases "vl_unseal V (vl_seal V (mp_encode M v) (utf8 ad) n (dv_encKey dv)) (utf8 ad') n (dv_encKey dv)")
  case None
  have o: "dv_isOpen dv" using assms(2) by (auto simp: dv_seal_def dv_assertOpen_def split: if_splits)
  have "b = n @ vl_seal V (mp_encode M v) (utf8 ad) n (dv_encKey dv)"
    using assms(2) o by (simp add: dv_seal_def dv_assertOpen_def)
  then show ?thesis using None assms(1) o by (simp add: dv_open_def dv_assertOpen_def)
next
  case (Some pt)
  have "utf8 ad \<noteq> utf8 ad'" using assms(3) by simp
  then have "vault_splice V" unfolding vault_splice_def using Some by blast
  then show ?thesis ..
qed

lemma dv_create_Inr:
  assumes "vault_law V" "length dek = 32" "length salt = 16" "length nonce = 24" "params_ok params" "p \<noteq> []"
  obtains sealed where "dv_create V dek salt nonce p params = Inr (fromDek V dek, sealed)"
    "dv_unwrap V sealed p = Inr (fromDek V dek)"
proof -
  obtain sealed where s: "sv_seal V salt nonce dek p params = Inr sealed" "sv_open V sealed p = Some dek"
    using sv_open_seal [OF assms(1,3,4,5)] by metis
  show ?thesis using s assms(2,6)
    by (intro that [of sealed]) (simp_all add: dv_create_def dv_unwrap_def open_dek_def requirePassphrase_def)
qed

text \<open>Wrapping the data key under another passphrase keeps the keys of the data.\<close>

lemma dv_rewrap_keeps:
  assumes "vault_law V" "dv_unwrap V sealed p = Inr dv" "length salt = 16" "length nonce = 24" "params_ok params" "q \<noteq> []"
  obtains sealed' where "dv_rewrap V salt nonce sealed p q params = Inr sealed'" "dv_unwrap V sealed' q = Inr dv"
proof -
  obtain dek where dek: "open_dek V sealed p = Inr dek" "dv = fromDek V dek"
    using assms(2) by (auto simp: dv_unwrap_def rbind_Inr_iff)
  have len: "length dek = 32" using dek(1) by (auto simp: open_dek_def split: option.splits if_splits)
  obtain sealed' where s: "sv_seal V salt nonce dek q params = Inr sealed'" "sv_open V sealed' q = Some dek"
    using sv_open_seal [OF assms(1,3,4,5)] by metis
  show ?thesis using s dek len assms(6)
    by (intro that [of sealed']) (simp_all add: dv_rewrap_def dv_unwrap_def open_dek_def requirePassphrase_def)
qed

lemma dv_unwrap_open: "vault_law V \<Longrightarrow> dv_unwrap V sealed p = Inr dv \<Longrightarrow> dv_isOpen dv \<and> p \<noteq> []"
  by (auto simp: dv_unwrap_def open_dek_def requirePassphrase_def rbind_Inr_iff split: if_splits option.splits)

lemma dv_unwrap_wrong: "sv_open V sealed p = None \<Longrightarrow> p \<noteq> [] \<Longrightarrow> dv_unwrap V sealed p = Inl WrongPassphraseError"
  by (simp add: dv_unwrap_def open_dek_def requirePassphrase_def)

subsection \<open>A concrete instance\<close>

definition toy_vault :: vault_lib where
  "toy_vault =
     \<lparr>vl_pwhash = (\<lambda>p salt ops mem. Some (pad_to 32 (utf8 p))),
      vl_box = (\<lambda>m n k. take 16 k @ m),
      vl_box_open = (\<lambda>c n k. if take 16 c = take 16 k then Some (drop 16 c) else None),
      vl_kdf = (\<lambda>i c k. pad_to 32 (word_of_int i # k)),
      vl_seal = (\<lambda>m ad n k. pad_to 16 (take 2 k @ ad) @ m),
      vl_unseal = (\<lambda>c ad n k. if take 16 c = pad_to 16 (take 2 k @ ad) then Some (drop 16 c) else None),
      vl_hash = (\<lambda>n m k. pad_to n m)\<rparr>"

lemma toy_vault_law [simp]: "vault_law toy_vault"
  by (simp add: vault_law_def toy_vault_def)

text \<open>Values that survive MsgPack: everything but \<open>undefined\<close>, functions and big integers.\<close>

fun msgpack_plain :: "jsval \<Rightarrow> bool" where
  "msgpack_plain Undef = False"
| "msgpack_plain (JBig _) = False"
| "msgpack_plain (JBuffer _) = False"
| "msgpack_plain (JView _) = False"
| "msgpack_plain (JArr vs) = (\<forall>v \<in> set vs. msgpack_plain v)"
| "msgpack_plain (JObj kvs) =
     (distinct (map fst kvs) \<and> ''__proto__'' \<notin> fst ` set kvs \<and> (\<forall>kv \<in> set kvs. msgpack_plain (snd kv)))"
| "msgpack_plain _ = True"

definition msgpack_law :: "msgpack \<Rightarrow> bool" where
  "msgpack_law M \<longleftrightarrow> (\<forall>v. msgpack_plain v \<longrightarrow> mp_roundtrip M v)"

instance jsnum :: countable by countable_datatype
instance jsval :: countable by countable_datatype

text \<open>The values are countable: a value is written as its number in unary.\<close>

definition count_msgpack :: msgpack where
  "count_msgpack =
     \<lparr>mp_encode = (\<lambda>v. replicate (to_nat v) 0), mp_decode = (\<lambda>b. Some (from_nat (length b)))\<rparr>"

lemma count_roundtrip [simp]: "mp_roundtrip count_msgpack v"
  by (simp add: mp_roundtrip_def count_msgpack_def)

lemma count_msgpack_law [simp]: "msgpack_law count_msgpack"
  by (simp add: msgpack_law_def)

end
