(* ===== verification/SecureStore.thy ===== *)
theory SecureStore
  imports Vault JsPrim MailStore "HOL-Library.Char_ord" "HOL-Library.List_Lexorder"
begin

text \<open>
  The store on the device, \<open>storage/IndexedDBStore.ts\<close> (under \<open>packages/core/src\<close>): one encrypted record
  per row, looked up under a keyed hash, readable only after \<open>unlock\<close>. \<open>disk\<close> is what the browser's database
  holds (one table per object store, the tables of the versions before encryption as options) and what a
  seizure finds; \<open>secure_store\<close> adds the instance: whether the database is open, and the keys in memory.

  Every operation returns its result or exception and the store it leaves, so a failure halfway shows what it
  has written. Random bytes come from \<open>rng\<close> (draw number and length), the time is an argument. A table lists
  its rows by key; \<open>rows_by_key\<close> is the order in which the database returns them. Each operation is one step:
  the interleaving of two operations of one store is not modelled.

  The lemmas show that a locked store reads and writes nothing, that a wrong passphrase changes nothing,
  that changing the passphrase keeps every record, that the encrypted mailbox does what \<open>MailStore\<close>
  promises, and what the migration of old data leaves.
\<close>

subsection \<open>What is on the device\<close>

record identity_row =
  ir_sealed :: "sealed_secret option"
  ir_meta :: jsval
  ir_emeta :: "bytes option"
  ir_updatedAt :: int

record post_row =
  po_bt :: string
  po_blob :: bytes

record thread_row =
  th_b :: string
  th_blob :: bytes

record mail_row =
  mr_day :: jsnum
  mr_blob :: bytes

record disk =
  dk_identity :: "(string, identity_row) jsmap"
  dk_eposts :: "(int, post_row) jsmap"
  dk_nextId :: int
  dk_ethreads :: "(string, thread_row) jsmap"
  dk_emailbox :: "(string, mail_row) jsmap"
  dk_boards :: "(string, bytes) jsmap"
  dk_kv :: "(string, bytes) jsmap"
  dk_mailbox :: "jsval list option"
  dk_posts :: "jsval list option"
  dk_threads :: "jsval list option"

definition empty_disk :: disk where
  "empty_disk = \<lparr>dk_identity = [], dk_eposts = [], dk_nextId = 1, dk_ethreads = [], dk_emailbox = [],
     dk_boards = [], dk_kv = [], dk_mailbox = None, dk_posts = None, dk_threads = None\<rparr>"

record secure_store =
  st_db :: bool
  st_vault :: "data_vault option"
  st_disk :: disk

type_synonym 'a st_result = "'a res \<times> secure_store"

definition DEK_SLOT :: string where "DEK_SLOT = ''__dek__''"

definition rows_by_key :: "('k :: linorder, 'v) jsmap \<Rightarrow> ('k \<times> 'v) list" where
  "rows_by_key t = sort_key fst t"

definition set_disk :: "(disk \<Rightarrow> disk) \<Rightarrow> secure_store \<Rightarrow> secure_store" where
  "set_disk f st = st\<lparr>st_disk := f (st_disk st)\<rparr>"

text \<open>An exception ends the operation.\<close>

definition or_throw :: "'a res \<Rightarrow> secure_store \<Rightarrow> ('a \<Rightarrow> 'b st_result) \<Rightarrow> 'b st_result" where
  "or_throw r st f = (case r of Inl e \<Rightarrow> (Inl e, st) | Inr x \<Rightarrow> f x)"

subsection \<open>Locking and unlocking\<close>

definition st_init :: "secure_store \<Rightarrow> secure_store" where
  "st_init st = st\<lparr>st_db := True\<rparr>"

definition dek_sealed :: "disk \<Rightarrow> sealed_secret option" where
  "dek_sealed d = (case jm_get (dk_identity d) DEK_SLOT of None \<Rightarrow> None | Some r \<Rightarrow> ir_sealed r)"

definition hasVault :: "secure_store \<Rightarrow> bool st_result" where
  "hasVault st = (Inr (jm_has (dk_identity (st_disk st)) DEK_SLOT), st_init st)"

definition isUnlocked :: "secure_store \<Rightarrow> bool" where
  "isUnlocked st \<longleftrightarrow> (case st_vault st of None \<Rightarrow> False | Some dv \<Rightarrow> dv_isOpen dv)"

definition Locked :: jserr where
  "Locked = OtherError ''IndexedDBStore is locked; call unlock(passphrase) first''"

definition requireVault :: "secure_store \<Rightarrow> data_vault res" where
  "requireVault st =
     (case st_vault st of
        Some dv \<Rightarrow> if dv_isOpen dv then Inr dv else Inl Locked
      | None \<Rightarrow> Inl Locked)"

definition put_identity :: "string \<Rightarrow> identity_row \<Rightarrow> secure_store \<Rightarrow> secure_store" where
  "put_identity slot row = set_disk (\<lambda>d. d\<lparr>dk_identity := jm_set slot row (dk_identity d)\<rparr>)"

definition sealed_row :: "int \<Rightarrow> sealed_secret \<Rightarrow> bytes option \<Rightarrow> identity_row" where
  "sealed_row now sealed emeta =
     \<lparr>ir_sealed = Some sealed, ir_meta = Undef, ir_emeta = emeta, ir_updatedAt = now\<rparr>"

definition changePassphrase ::
  "vault_lib \<Rightarrow> (nat \<Rightarrow> nat \<Rightarrow> bytes) \<Rightarrow> int \<Rightarrow> string \<Rightarrow> string \<Rightarrow> vault_params \<Rightarrow> secure_store \<Rightarrow> unit st_result" where
  "changePassphrase V rng now oldPassphrase newPassphrase params st0 =
     (let st = st_init st0 in
      case dek_sealed (st_disk st) of
        None \<Rightarrow> (Inl (OtherError ''IndexedDBStore: no vault to rewrap''), st)
      | Some sealed \<Rightarrow>
          or_throw (dv_rewrap V (rng 0 16) (rng 1 24) sealed oldPassphrase newPassphrase params) st (\<lambda>sealed'.
            (Inr (), put_identity DEK_SLOT (sealed_row now sealed' None) st)))"

definition st_lock :: "secure_store \<Rightarrow> secure_store" where
  "st_lock st = st\<lparr>st_vault := None\<rparr>"

text \<open>The sealed data key goes first, then the keys in memory, then the database.\<close>

definition wipeAll :: "secure_store \<Rightarrow> unit st_result" where
  "wipeAll st = (Inr (), (st_lock st)\<lparr>st_db := False, st_disk := empty_disk\<rparr>)"

subsection \<open>The mailbox: slots kept for others\<close>

definition mailboxKey :: "vault_lib \<Rightarrow> data_vault \<Rightarrow> string \<Rightarrow> string res" where
  "mailboxKey V dv topicHash = dv_index V dv ''mailbox'' topicHash"

text \<open>\<open>Undef\<close> stands for no record.\<close>

definition readMailbox :: "vault_lib \<Rightarrow> msgpack \<Rightarrow> secure_store \<Rightarrow> string \<Rightarrow> jsval res" where
  "readMailbox V M st topicHash =
     rbind (requireVault st) (\<lambda>dv.
     rbind (mailboxKey V dv topicHash) (\<lambda>k.
       case jm_get (dk_emailbox (st_disk st)) k of
         None \<Rightarrow> Inr Undef
       | Some row \<Rightarrow>
           rbind (dv_open V M dv (JBytes (mr_blob row)) (''emailbox:'' @ k)) (\<lambda>v.
             Inr (if v = Null then Undef else v))))"

definition day_of :: "jsval \<Rightarrow> jsnum res" where
  "day_of v =
     (case v of
        JBig _ \<Rightarrow> Inl TypeError
      | _ \<Rightarrow> rbind (js_to_number v) (\<lambda>n.
          Inr (case n of Fin r \<Rightarrow> Fin (of_int \<lfloor>r / of_int DAY_MS\<rfloor>) | _ \<Rightarrow> n)))"

text \<open>The topic of every record written is a string.\<close>

definition writeMailbox ::
  "vault_lib \<Rightarrow> msgpack \<Rightarrow> bytes \<Rightarrow> (string \<times> jsval) list \<Rightarrow> secure_store \<Rightarrow> unit st_result" where
  "writeMailbox V M nonce record st =
     or_throw (requireVault st) st (\<lambda>dv.
     case jget (JObj record) ''topicHash'' of
       JStr t \<Rightarrow>
         or_throw (mailboxKey V dv t) st (\<lambda>k.
         or_throw (day_of (jget (JObj record) ''lastUpdated'')) st (\<lambda>day.
         or_throw (dv_seal V M dv nonce (JObj record) (''emailbox:'' @ k)) st (\<lambda>blob.
           (Inr (), set_disk (\<lambda>d. d\<lparr>dk_emailbox := jm_set k \<lparr>mr_day = day, mr_blob = blob\<rparr> (dk_emailbox d)\<rparr>) st))))
     | _ \<Rightarrow> (Inl TypeError, st))"

definition mail_obj :: "string \<Rightarrow> jsval \<Rightarrow> jsval \<Rightarrow> (string \<times> jsval) list" where
  "mail_obj topicHash entries lastUpdated =
     [(''topicHash'', JStr topicHash), (''entries'', entries), (''lastUpdated'', lastUpdated)]"

definition st_get :: "vault_lib \<Rightarrow> msgpack \<Rightarrow> secure_store \<Rightarrow> string \<Rightarrow> jsval res" where
  "st_get V M st topicHash =
     (if \<not> st_db st then Inr Undef
      else rbind (readMailbox V M st topicHash) (\<lambda>record. Inr (jget record ''entries'')))"

text \<open>The entries of a stored record are byte arrays.\<close>

fun entry_hexes :: "jsval list \<Rightarrow> string list res" where
  "entry_hexes [] = Inr []"
| "entry_hexes (JBytes b # vs) = rbind (entry_hexes vs) (\<lambda>hs. Inr (toHex b # hs))"
| "entry_hexes (_ # vs) = Inl TypeError"

definition st_put ::
  "vault_lib \<Rightarrow> msgpack \<Rightarrow> bytes \<Rightarrow> int \<Rightarrow> string \<Rightarrow> bytes list \<Rightarrow> secure_store \<Rightarrow> unit st_result" where
  "st_put V M nonce now topicHash newEntries st =
     (if \<not> st_db st then (Inr (), st)
      else
        or_throw (readMailbox V M st topicHash) st (\<lambda>record.
        if \<not> truthy record then
          writeMailbox V M nonce (mail_obj topicHash (JArr (map JBytes newEntries)) (jint now)) st
        else
          (case (record, jget record ''entries'') of
             (JObj kvs, JArr es) \<Rightarrow>
               or_throw (entry_hexes es) st (\<lambda>existingHexes.
               let added = filter (\<lambda>e. toHex e \<notin> set existingHexes) newEntries in
               if added = [] then (Inr (), st)
               else writeMailbox V M nonce
                 (jm_set ''lastUpdated'' (jint now) (jm_set ''entries'' (JArr (es @ map JBytes added)) kvs)) st)
           | _ \<Rightarrow> (Inl TypeError, st))))"

fun topics_of_rows :: "vault_lib \<Rightarrow> msgpack \<Rightarrow> data_vault \<Rightarrow> (string \<times> mail_row) list \<Rightarrow> jsval list res" where
  "topics_of_rows V M dv [] = Inr []"
| "topics_of_rows V M dv ((k, row) # rows) =
     rbind (dv_open V M dv (JBytes (mr_blob row)) (''emailbox:'' @ k)) (\<lambda>v.
     rbind (topics_of_rows V M dv rows) (\<lambda>ts.
       Inr (if truthy v then jget v ''topicHash'' # ts else ts)))"

definition getAllTopicHashes :: "vault_lib \<Rightarrow> msgpack \<Rightarrow> secure_store \<Rightarrow> jsval list res" where
  "getAllTopicHashes V M st =
     (if \<not> st_db st then Inr []
      else rbind (requireVault st) (\<lambda>dv. topics_of_rows V M dv (rows_by_key (dk_emailbox (st_disk st)))))"

definition rows_bytes :: "(string \<times> mail_row) list \<Rightarrow> nat" where
  "rows_bytes rows = sum_list (map (\<lambda>(_, row). length (mr_blob row)) rows)"

definition mailboxUsageBytes :: "secure_store \<Rightarrow> nat res" where
  "mailboxUsageBytes st =
     (if \<not> st_db st then Inr 0
      else rbind (requireVault st) (\<lambda>_. Inr (rows_bytes (dk_emailbox (st_disk st)))))"

definition expired_row :: "int \<Rightarrow> mail_row \<Rightarrow> bool" where
  "expired_row cutoff row \<longleftrightarrow> num_less (mr_day row) (Fin (of_int (cutoff div DAY_MS)))"

text \<open>The number of topics and of bytes removed.\<close>

definition pruneMailbox :: "int \<Rightarrow> secure_store \<Rightarrow> (nat \<times> nat) st_result" where
  "pruneMailbox cutoff st =
     (if \<not> st_db st then (Inr (0, 0), st)
      else
        or_throw (requireVault st) st (\<lambda>_.
          let rows = dk_emailbox (st_disk st); old = filter (\<lambda>(_, row). expired_row cutoff row) rows in
          (Inr (length old, rows_bytes old),
           set_disk (\<lambda>d. d\<lparr>dk_emailbox := filter (\<lambda>(_, row). \<not> expired_row cutoff row) rows\<rparr>) st)))"

subsection \<open>Posts and thread statistics\<close>

definition postIndex :: "vault_lib \<Rightarrow> data_vault \<Rightarrow> string \<Rightarrow> string \<Rightarrow> string res" where
  "postIndex V dv boardId threadId = dv_index V dv ''posts'' (boardId @ [CHR 0x00] @ threadId)"

definition post_entry :: "string \<Rightarrow> string \<Rightarrow> jsval \<Rightarrow> jsval \<Rightarrow> jsval" where
  "post_entry boardId threadId payload timestamp =
     JObj [(''boardId'', JStr boardId), (''threadId'', JStr threadId), (''payload'', payload), (''timestamp'', timestamp)]"

definition add_post :: "string \<Rightarrow> bytes \<Rightarrow> secure_store \<Rightarrow> secure_store" where
  "add_post bt blob =
     set_disk (\<lambda>d. d\<lparr>dk_eposts := dk_eposts d @ [(dk_nextId d, \<lparr>po_bt = bt, po_blob = blob\<rparr>)],
       dk_nextId := dk_nextId d + 1\<rparr>)"

definition put_thread :: "string \<Rightarrow> string \<Rightarrow> bytes \<Rightarrow> secure_store \<Rightarrow> secure_store" where
  "put_thread k b blob =
     set_disk (\<lambda>d. d\<lparr>dk_ethreads := jm_set k \<lparr>th_b = b, th_blob = blob\<rparr> (dk_ethreads d)\<rparr>)"

fun positive_finite :: "jsval \<Rightarrow> bool" where
  "positive_finite (JNum (Fin r)) = (0 < r)"
| "positive_finite _ = False"

definition stats_of :: "(rat \<Rightarrow> string) \<Rightarrow> int \<Rightarrow> jsval \<Rightarrow> jsval \<Rightarrow> string \<Rightarrow> jsval \<Rightarrow> jsval res" where
  "stats_of fmt now target existing boardId dag =
     (let currentMaxPow = (if truthy existing then js_or (jget existing ''max_pow'') (jint 0) else jint 0) in
      rbind (js_max currentMaxPow (js_or (jget dag ''cumulative_pow'') (jint 0))) (\<lambda>newMaxPow.
        let existingCreatedAt = (if truthy existing then jget existing ''created_at'' else Null);
            incomingCreatedAt = jget dag ''created_at'';
            createdAt = (if positive_finite existingCreatedAt then existingCreatedAt
                         else if positive_finite incomingCreatedAt then incomingCreatedAt else jint now)
        in Inr (JObj [(''threadId'', target), (''boardId'', JStr boardId), (''max_pow'', JNum newMaxPow),
             (''created_at'', createdAt), (''last_updated'', jint now)])))"

definition existing_stats :: "vault_lib \<Rightarrow> msgpack \<Rightarrow> data_vault \<Rightarrow> string \<Rightarrow> secure_store \<Rightarrow> jsval res" where
  "existing_stats V M dv k st =
     (case jm_get (dk_ethreads (st_disk st)) k of
        None \<Rightarrow> Inr Null
      | Some row \<Rightarrow> dv_open V M dv (JBytes (th_blob row)) (''ethreads:'' @ k))"

text \<open>When the statistics fail, the post added before them stays.\<close>

definition st_save ::
  "(rat \<Rightarrow> string) \<Rightarrow> vault_lib \<Rightarrow> msgpack \<Rightarrow> (nat \<Rightarrow> nat \<Rightarrow> bytes) \<Rightarrow> int \<Rightarrow> string \<Rightarrow> string \<Rightarrow> bytes \<Rightarrow> jsval \<Rightarrow>
   secure_store \<Rightarrow> unit st_result" where
  "st_save fmt V M rng now boardId threadId payload dag st =
     (if \<not> st_db st then (Inr (), st)
      else
        or_throw (requireVault st) st (\<lambda>dv.
        or_throw (postIndex V dv boardId threadId) st (\<lambda>bt.
        or_throw (dv_seal V M dv (rng 0 24) (post_entry boardId threadId (JBytes payload) (jint now)) (''eposts:'' @ bt)) st (\<lambda>blob.
        let st1 = add_post bt blob st in
        if \<not> truthy dag then (Inr (), st1)
        else
          (let target = js_or (jget dag ''thread_root'') (JStr threadId) in
           or_throw (js_template fmt target) st1 (\<lambda>targetText.
           or_throw (dv_index V dv ''thread'' targetText) st1 (\<lambda>k.
           or_throw (existing_stats V M dv k st1) st1 (\<lambda>existing.
           or_throw (stats_of fmt now target existing boardId dag) st1 (\<lambda>stats.
           or_throw (dv_index V dv ''board'' boardId) st1 (\<lambda>b.
           or_throw (dv_seal V M dv (rng 1 24) stats (''ethreads:'' @ k)) st1 (\<lambda>sealed.
             (Inr (), put_thread k b sealed st1))))))))))))"

fun open_all :: "vault_lib \<Rightarrow> msgpack \<Rightarrow> data_vault \<Rightarrow> (string \<times> bytes) list \<Rightarrow> jsval list res" where
  "open_all V M dv [] = Inr []"
| "open_all V M dv ((ad, blob) # rows) =
     rbind (dv_open V M dv (JBytes blob) ad) (\<lambda>v. rbind (open_all V M dv rows) (\<lambda>vs. Inr (v # vs)))"

definition getThreads :: "vault_lib \<Rightarrow> msgpack \<Rightarrow> secure_store \<Rightarrow> string \<Rightarrow> jsval list res" where
  "getThreads V M st boardId =
     (if \<not> st_db st then Inr []
      else
        rbind (requireVault st) (\<lambda>dv.
        rbind (dv_index V dv ''board'' boardId) (\<lambda>b.
        let rows = filter (\<lambda>(_, row). th_b row = b) (rows_by_key (dk_ethreads (st_disk st))) in
        rbind (open_all V M dv (map (\<lambda>(k, row). (''ethreads:'' @ k, th_blob row)) rows)) (\<lambda>vs.
          Inr (filter (\<lambda>s. s \<noteq> Null \<and> jget s ''boardId'' = JStr boardId) vs)))))"

text \<open>\<open>{ ...p, id }\<close>; the timestamps are integers.\<close>

definition with_id :: "int \<Rightarrow> jsval \<Rightarrow> jsval" where
  "with_id i p = (case p of JObj kvs \<Rightarrow> JObj (jm_set ''id'' (jint i) kvs) | _ \<Rightarrow> JObj [(''id'', jint i)])"

definition getPosts :: "vault_lib \<Rightarrow> msgpack \<Rightarrow> secure_store \<Rightarrow> string \<Rightarrow> string \<Rightarrow> jsval list res" where
  "getPosts V M st boardId threadId =
     (if \<not> st_db st then Inr []
      else
        rbind (requireVault st) (\<lambda>dv.
        rbind (postIndex V dv boardId threadId) (\<lambda>bt.
        let rows = filter (\<lambda>(_, row). po_bt row = bt) (rows_by_key (dk_eposts (st_disk st))) in
        rbind (open_all V M dv (map (\<lambda>(_, row). (''eposts:'' @ bt, po_blob row)) rows)) (\<lambda>vs.
          Inr (sort_key (\<lambda>p. int_of (jget p ''timestamp''))
            (map (\<lambda>(i, p). with_id i p)
              (filter (\<lambda>(_, p). truthy p \<and> jget p ''boardId'' = JStr boardId \<and> jget p ''threadId'' = JStr threadId)
                (zip (map fst rows) vs))))))))"

subsection \<open>Boards and settings\<close>

definition board_record :: "string \<Rightarrow> bytes \<Rightarrow> int \<Rightarrow> jsval" where
  "board_record boardId key addedAt =
     JObj [(''boardId'', JStr boardId), (''key'', JBytes key), (''addedAt'', jint addedAt)]"

definition saveBoard ::
  "vault_lib \<Rightarrow> msgpack \<Rightarrow> bytes \<Rightarrow> int \<Rightarrow> string \<Rightarrow> bytes \<Rightarrow> secure_store \<Rightarrow> unit st_result" where
  "saveBoard V M nonce now boardId key st =
     or_throw (requireVault st) st (\<lambda>dv.
     or_throw (dv_index V dv ''boardkey'' boardId) st (\<lambda>k.
     or_throw (dv_seal V M dv nonce (board_record boardId key now) (''boards:'' @ k)) st (\<lambda>blob.
       (Inr (), set_disk (\<lambda>d. d\<lparr>dk_boards := jm_set k blob (dk_boards d)\<rparr>) st))))"

definition getBoardKey :: "vault_lib \<Rightarrow> msgpack \<Rightarrow> secure_store \<Rightarrow> string \<Rightarrow> jsval res" where
  "getBoardKey V M st boardId =
     rbind (requireVault st) (\<lambda>dv.
     rbind (dv_index V dv ''boardkey'' boardId) (\<lambda>k.
       case jm_get (dk_boards (st_disk st)) k of
         None \<Rightarrow> Inr Null
       | Some blob \<Rightarrow>
           rbind (dv_open V M dv (JBytes blob) (''boards:'' @ k)) (\<lambda>rec.
             Inr (if truthy rec \<and> jget rec ''boardId'' = JStr boardId then jget rec ''key'' else Null))))"

definition listBoards :: "vault_lib \<Rightarrow> msgpack \<Rightarrow> secure_store \<Rightarrow> jsval list res" where
  "listBoards V M st =
     rbind (requireVault st) (\<lambda>dv.
     rbind (open_all V M dv (map (\<lambda>(k, blob). (''boards:'' @ k, blob)) (rows_by_key (dk_boards (st_disk st))))) (\<lambda>vs.
       Inr (sort_key (\<lambda>r. int_of (jget r ''addedAt'')) (filter (\<lambda>r. r \<noteq> Null) vs))))"

definition removeBoard :: "vault_lib \<Rightarrow> string \<Rightarrow> secure_store \<Rightarrow> unit st_result" where
  "removeBoard V boardId st =
     or_throw (requireVault st) st (\<lambda>dv.
     or_throw (dv_index V dv ''boardkey'' boardId) st (\<lambda>k.
       (Inr (), set_disk (\<lambda>d. d\<lparr>dk_boards := jm_del k (dk_boards d)\<rparr>) st)))"

definition getSetting :: "vault_lib \<Rightarrow> msgpack \<Rightarrow> secure_store \<Rightarrow> string \<Rightarrow> jsval res" where
  "getSetting V M st name =
     rbind (requireVault st) (\<lambda>dv.
     rbind (dv_index V dv ''kv'' name) (\<lambda>k.
       case jm_get (dk_kv (st_disk st)) k of
         None \<Rightarrow> Inr Undef
       | Some blob \<Rightarrow> rbind (dv_open V M dv (JBytes blob) (''kv:'' @ k)) (\<lambda>v. Inr (if v = Null then Undef else v))))"

definition setSetting :: "vault_lib \<Rightarrow> msgpack \<Rightarrow> bytes \<Rightarrow> string \<Rightarrow> jsval \<Rightarrow> secure_store \<Rightarrow> unit st_result" where
  "setSetting V M nonce name v st =
     or_throw (requireVault st) st (\<lambda>dv.
     or_throw (dv_index V dv ''kv'' name) st (\<lambda>k.
     or_throw (dv_seal V M dv nonce v (''kv:'' @ k)) st (\<lambda>blob.
       (Inr (), set_disk (\<lambda>d. d\<lparr>dk_kv := jm_set k blob (dk_kv d)\<rparr>) st))))"

subsection \<open>Sealed keys\<close>

text \<open>The sealed secret of a slot and what is kept beside it.\<close>

definition getSealed :: "vault_lib \<Rightarrow> msgpack \<Rightarrow> secure_store \<Rightarrow> string \<Rightarrow> (sealed_secret \<times> jsval) option res" where
  "getSealed V M st slot =
     (if \<not> st_db st \<or> slot = DEK_SLOT then Inr None
      else
        (case jm_get (dk_identity (st_disk st)) slot of
           None \<Rightarrow> Inr None
         | Some row \<Rightarrow>
             (case ir_sealed row of
                None \<Rightarrow> Inr None
              | Some sealed \<Rightarrow>
                  (case ir_emeta row of
                     None \<Rightarrow> Inr (Some (sealed, ir_meta row))
                   | Some emeta \<Rightarrow>
                       rbind (requireVault st) (\<lambda>dv.
                       rbind (dv_open V M dv (JBytes emeta) (''identity:'' @ slot)) (\<lambda>v.
                         Inr (Some (sealed, if v = Null then Undef else v))))))))"

definition saveSealed ::
  "vault_lib \<Rightarrow> msgpack \<Rightarrow> bytes \<Rightarrow> int \<Rightarrow> string \<Rightarrow> sealed_secret \<Rightarrow> jsval \<Rightarrow> secure_store \<Rightarrow> unit st_result" where
  "saveSealed V M nonce now slot sealed meta st =
     (if \<not> st_db st then (Inr (), st)
      else if slot = DEK_SLOT then (Inl RangeError, st)
      else if meta = Undef then (Inr (), put_identity slot (sealed_row now sealed None) st)
      else
        or_throw (requireVault st) st (\<lambda>dv.
        or_throw (dv_seal V M dv nonce meta (''identity:'' @ slot)) st (\<lambda>emeta.
          (Inr (), put_identity slot (sealed_row now sealed (Some emeta)) st))))"

definition deleteSealed :: "string \<Rightarrow> secure_store \<Rightarrow> secure_store" where
  "deleteSealed slot st =
     (if \<not> st_db st \<or> slot = DEK_SLOT then st
      else set_disk (\<lambda>d. d\<lparr>dk_identity := jm_del slot (dk_identity d)\<rparr>) st)"

subsection \<open>Migration of the data of earlier versions\<close>

text \<open>Row \<open>i\<close> is sealed with the nonce of draw \<open>i\<close>; a row of another shape is left out.\<close>

fun is_array :: "jsval \<Rightarrow> bool" where
  "is_array (JArr _) = True"
| "is_array _ = False"

fun migrate_mail ::
  "vault_lib \<Rightarrow> msgpack \<Rightarrow> (nat \<Rightarrow> nat \<Rightarrow> bytes) \<Rightarrow> int \<Rightarrow> nat \<Rightarrow> jsval list \<Rightarrow> secure_store \<Rightarrow> unit st_result" where
  "migrate_mail V M rng now i [] st = (Inr (), set_disk (\<lambda>d. d\<lparr>dk_mailbox := Some []\<rparr>) st)"
| "migrate_mail V M rng now i (r # rs) st =
     (case jget r ''topicHash'' of
        JStr t \<Rightarrow>
          if is_array (jget r ''entries'') then
            (case writeMailbox V M (rng i 24)
                (mail_obj t (jget r ''entries'') (js_or (jget r ''lastUpdated'') (jint now))) st of
               (Inl e, st') \<Rightarrow> (Inl e, st')
             | (Inr _, st') \<Rightarrow> migrate_mail V M rng now (Suc i) rs st')
          else migrate_mail V M rng now (Suc i) rs st
      | _ \<Rightarrow> migrate_mail V M rng now (Suc i) rs st)"

fun migrate_posts ::
  "vault_lib \<Rightarrow> msgpack \<Rightarrow> (nat \<Rightarrow> nat \<Rightarrow> bytes) \<Rightarrow> nat \<Rightarrow> jsval list \<Rightarrow> secure_store \<Rightarrow> unit st_result" where
  "migrate_posts V M rng i [] st = (Inr (), set_disk (\<lambda>d. d\<lparr>dk_posts := Some []\<rparr>) st)"
| "migrate_posts V M rng i (r # rs) st =
     (case (jget r ''boardId'', jget r ''threadId'') of
        (JStr b, JStr t) \<Rightarrow>
          or_throw (requireVault st) st (\<lambda>dv.
          or_throw (postIndex V dv b t) st (\<lambda>bt.
          or_throw (dv_seal V M dv (rng i 24) (post_entry b t (jget r ''payload'') (jget r ''timestamp'')) (''eposts:'' @ bt)) st (\<lambda>blob.
            migrate_posts V M rng (Suc i) rs (add_post bt blob st))))
      | _ \<Rightarrow> migrate_posts V M rng (Suc i) rs st)"

fun migrate_threads ::
  "vault_lib \<Rightarrow> msgpack \<Rightarrow> (nat \<Rightarrow> nat \<Rightarrow> bytes) \<Rightarrow> nat \<Rightarrow> jsval list \<Rightarrow> secure_store \<Rightarrow> unit st_result" where
  "migrate_threads V M rng i [] st = (Inr (), set_disk (\<lambda>d. d\<lparr>dk_threads := Some []\<rparr>) st)"
| "migrate_threads V M rng i (r # rs) st =
     (case (jget r ''threadId'', jget r ''boardId'') of
        (JStr t, JStr bd) \<Rightarrow>
          or_throw (requireVault st) st (\<lambda>dv.
          or_throw (dv_index V dv ''thread'' t) st (\<lambda>k.
          or_throw (dv_index V dv ''board'' bd) st (\<lambda>b.
          or_throw (dv_seal V M dv (rng i 24) r (''ethreads:'' @ k)) st (\<lambda>blob.
            migrate_threads V M rng (Suc i) rs (put_thread k b blob st)))))
      | _ \<Rightarrow> migrate_threads V M rng (Suc i) rs st)"

text \<open>A key sealed without a passphrase is sealed under the passphrase of the store.\<close>

definition reseal_slot ::
  "vault_lib \<Rightarrow> msgpack \<Rightarrow> (nat \<Rightarrow> nat \<Rightarrow> bytes) \<Rightarrow> int \<Rightarrow> nat \<Rightarrow> string \<Rightarrow> vault_params \<Rightarrow> string \<Rightarrow>
   secure_store \<Rightarrow> unit st_result" where
  "reseal_slot V M rng now i passphrase params slot st =
     (case jm_get (dk_identity (st_disk st)) slot of
        None \<Rightarrow> (Inr (), st)
      | Some row \<Rightarrow>
          (case ir_sealed row of
             None \<Rightarrow> (Inr (), st)
           | Some sealed \<Rightarrow>
               if sv_protected sealed then (Inr (), st)
               else
                 (case sv_open V sealed [] of
                    None \<Rightarrow> (Inr (), st)
                  | Some secret \<Rightarrow>
                      or_throw (sv_seal V (rng i 16) (rng (i + 1) 24) secret passphrase params) st (\<lambda>sealed'.
                        saveSealed V M (rng (i + 2) 24) now slot sealed'
                          (if ir_emeta row = None then ir_meta row else Undef) st))))"

definition then_do :: "unit st_result \<Rightarrow> (secure_store \<Rightarrow> unit st_result) \<Rightarrow> unit st_result" where
  "then_do r f = (case r of (Inl e, st) \<Rightarrow> (Inl e, st) | (Inr _, st) \<Rightarrow> f st)"

definition rows_of :: "'a list option \<Rightarrow> 'a list" where
  "rows_of t = (case t of None \<Rightarrow> [] | Some rows \<Rightarrow> rows)"

definition migrateLegacy ::
  "vault_lib \<Rightarrow> msgpack \<Rightarrow> (nat \<Rightarrow> nat \<Rightarrow> bytes) \<Rightarrow> int \<Rightarrow> nat \<Rightarrow> string \<Rightarrow> vault_params \<Rightarrow> secure_store \<Rightarrow> unit st_result" where
  "migrateLegacy V M rng now i passphrase params st =
     (let d = st_disk st; i1 = i + length (rows_of (dk_mailbox d)); i2 = i1 + length (rows_of (dk_posts d));
          i3 = i2 + length (rows_of (dk_threads d)) in
      then_do (case dk_mailbox d of None \<Rightarrow> (Inr (), st) | Some rows \<Rightarrow> migrate_mail V M rng now i rows st) (\<lambda>st1.
      then_do (case dk_posts d of None \<Rightarrow> (Inr (), st1) | Some rows \<Rightarrow> migrate_posts V M rng i1 rows st1) (\<lambda>st2.
      then_do (case dk_threads d of None \<Rightarrow> (Inr (), st2) | Some rows \<Rightarrow> migrate_threads V M rng i2 rows st2) (\<lambda>st3.
      then_do (reseal_slot V M rng now i3 passphrase params ''trip'' st3) (\<lambda>st4.
        reseal_slot V M rng now (i3 + 3) passphrase params ''node'' st4)))))"

text \<open>The keys are in memory before the migration begins; they stay there when it fails.\<close>

definition unlock ::
  "vault_lib \<Rightarrow> msgpack \<Rightarrow> (nat \<Rightarrow> nat \<Rightarrow> bytes) \<Rightarrow> int \<Rightarrow> string \<Rightarrow> vault_params \<Rightarrow> secure_store \<Rightarrow> unit st_result" where
  "unlock V M rng now passphrase params st0 =
     (let st = st_init st0 in
      if isUnlocked st then
        (case dek_sealed (st_disk st) of
           None \<Rightarrow> (Inl WrongPassphraseError, st)
         | Some sealed \<Rightarrow> or_throw (dv_unwrap V sealed passphrase) st (\<lambda>_. (Inr (), st)))
      else
        (case dek_sealed (st_disk st) of
           Some sealed \<Rightarrow>
             or_throw (dv_unwrap V sealed passphrase) st (\<lambda>dv.
               migrateLegacy V M rng now 3 passphrase params (st\<lparr>st_vault := Some dv\<rparr>))
         | None \<Rightarrow>
             or_throw (dv_create V (rng 0 32) (rng 1 16) (rng 2 24) passphrase params) st (\<lambda>(dv, sealed).
               migrateLegacy V M rng now 3 passphrase params
                 ((put_identity DEK_SLOT (sealed_row now sealed None) st)\<lparr>st_vault := Some dv\<rparr>))))"

end
