(* ===== verification/StoreLaws.thy ===== *)
theory StoreLaws
  imports SecureStore
begin

text \<open>
  What the encrypted store of \<open>SecureStore\<close> guarantees: it is closed while locked, a wrong passphrase
  changes nothing, changing the passphrase loses nothing, unlocking leaves no plaintext of earlier versions,
  and its mailbox is a model of the interface \<open>slot_store\<close> on which the DHT mailbox rests.
\<close>

definition rng_ok :: "(nat \<Rightarrow> nat \<Rightarrow> bytes) \<Rightarrow> bool" where
  "rng_ok rng \<longleftrightarrow> (\<forall>i n. length (rng i n) = n)"

lemma rng_okD [simp, len_simps]: "rng_ok rng \<Longrightarrow> length (rng i n) = n"
  by (simp add: rng_ok_def)

lemma set_disk_simps [simp]:
  "st_db (set_disk f st) = st_db st" "st_vault (set_disk f st) = st_vault st" "st_disk (set_disk f st) = f (st_disk st)"
  by (simp_all add: set_disk_def)

lemma put_identity_simps [simp]:
  "st_db (put_identity slot r st) = st_db st" "st_vault (put_identity slot r st) = st_vault st"
  "st_disk (put_identity slot r st) = (st_disk st)\<lparr>dk_identity := jm_set slot r (dk_identity (st_disk st))\<rparr>"
  by (simp_all add: put_identity_def)

lemma or_throw_simps [simp]: "or_throw (Inl e) st f = (Inl e, st)" "or_throw (Inr x) st f = f x"
  by (simp_all add: or_throw_def)

lemma then_do_simps [simp]: "then_do (Inl e, st) f = (Inl e, st)" "then_do (Inr x, st) f = f st"
  by (simp_all add: then_do_def)

lemma requireVault_simps:
  "\<not> isUnlocked st \<Longrightarrow> requireVault st = Inl Locked"
  "st_vault st = Some dv \<Longrightarrow> dv_isOpen dv \<Longrightarrow> requireVault st = Inr dv"
  by (auto simp: requireVault_def isUnlocked_def split: option.splits)

subsection \<open>A locked store\<close>

lemma locked_reads:
  assumes "\<not> isUnlocked st" "st_db st"
  shows "st_get V M st t = Inl Locked" "getAllTopicHashes V M st = Inl Locked" "mailboxUsageBytes st = Inl Locked"
    "getThreads V M st b = Inl Locked" "getPosts V M st b t = Inl Locked" "getBoardKey V M st b = Inl Locked"
    "listBoards V M st = Inl Locked" "getSetting V M st n = Inl Locked"
  using assms
  by (simp_all add: st_get_def readMailbox_def getAllTopicHashes_def mailboxUsageBytes_def getThreads_def
      getPosts_def getBoardKey_def listBoards_def getSetting_def requireVault_simps)

lemma locked_writes:
  assumes "\<not> isUnlocked st" "st_db st"
  shows "st_put V M nonce now t es st = (Inl Locked, st)" "pruneMailbox c st = (Inl Locked, st)"
    "st_save fmt V M rng now b t payload dag st = (Inl Locked, st)" "saveBoard V M nonce now b key st = (Inl Locked, st)"
    "removeBoard V b st = (Inl Locked, st)" "setSetting V M nonce n v st = (Inl Locked, st)"
  using assms
  by (simp_all add: st_put_def readMailbox_def pruneMailbox_def st_save_def saveBoard_def removeBoard_def
      setSetting_def requireVault_simps)

text \<open>while the store is locked nothing that was saved can be read and nothing is written: every operation on slots,
  posts, threads, boards and settings ends with the exception of a locked store and leaves the store as it is.\<close>

theorem locked_store_is_closed:
  assumes "\<not> isUnlocked st" "st_db st"
  shows "st_get V M st t = Inl Locked \<and> getAllTopicHashes V M st = Inl Locked \<and> mailboxUsageBytes st = Inl Locked \<and>
    getThreads V M st b = Inl Locked \<and> getPosts V M st b t = Inl Locked \<and> getBoardKey V M st b = Inl Locked \<and>
    listBoards V M st = Inl Locked \<and> getSetting V M st n = Inl Locked \<and>
    st_put V M nonce now t es st = (Inl Locked, st) \<and> pruneMailbox c st = (Inl Locked, st) \<and>
    st_save fmt V M rng now b t payload dag st = (Inl Locked, st) \<and> saveBoard V M nonce now b key st = (Inl Locked, st) \<and>
    removeBoard V b st = (Inl Locked, st) \<and> setSetting V M nonce n v st = (Inl Locked, st)"
  by (intro conjI locked_reads locked_writes assms)

theorem locked_store_is_closed_witness:
  "st_put toy_vault count_msgpack [] 0 ''t'' [[1]] \<lparr>st_db = True, st_vault = None, st_disk = empty_disk\<rparr> =
     (Inl Locked, \<lparr>st_db = True, st_vault = None, st_disk = empty_disk\<rparr>)"
  using locked_store_is_closed [of "\<lparr>st_db = True, st_vault = None, st_disk = empty_disk\<rparr>"]
  by (simp add: isUnlocked_def)

subsection \<open>Passphrases\<close>

text \<open>a passphrase that does not open the sealed data key neither unlocks the store nor changes anything on it,
  nor does it let the passphrase be changed; an unlocked store asks for it again.\<close>

theorem wrong_passphrase_changes_nothing:
  assumes "dek_sealed (st_disk st) = Some sealed" "sv_open V sealed p = None" "p \<noteq> []" "q \<noteq> []"
  shows "unlock V M rng now p params st = (Inl WrongPassphraseError, st_init st) \<and>
    changePassphrase V rng now p q params st = (Inl WrongPassphraseError, st_init st)"
  using assms
  by (simp add: unlock_def changePassphrase_def Let_def st_init_def dv_unwrap_wrong dv_rewrap_def open_dek_def
      requirePassphrase_def)

text \<open>Nothing of an earlier version is left to move.\<close>

definition key_kept :: "disk \<Rightarrow> string \<Rightarrow> bool" where
  "key_kept d slot \<longleftrightarrow>
     (\<forall>row sealed. jm_get (dk_identity d) slot = Some row \<longrightarrow> ir_sealed row = Some sealed \<longrightarrow> sv_protected sealed)"

definition migrated :: "disk \<Rightarrow> bool" where
  "migrated d \<longleftrightarrow> rows_of (dk_mailbox d) = [] \<and> rows_of (dk_posts d) = [] \<and> rows_of (dk_threads d) = [] \<and>
     key_kept d ''trip'' \<and> key_kept d ''node''"

lemma reseal_kept: "key_kept (st_disk st) slot \<Longrightarrow> reseal_slot V M rng now i p params slot st = (Inr (), st)"
  by (auto simp: reseal_slot_def key_kept_def split: option.split)

lemma migrated_nothing: "migrated (st_disk st) \<Longrightarrow> migrateLegacy V M rng now i p params st = (Inr (), st)"
proof -
  assume m: "migrated (st_disk st)"
  have same: "set_disk f st = st" if "f (st_disk st) = st_disk st" for f
    using that by (simp add: set_disk_def)
  have a: "(case dk_mailbox (st_disk st) of None \<Rightarrow> (Inr (), st) | Some rows \<Rightarrow> migrate_mail V M rng now i rows st) = (Inr (), st)"
    using m by (auto simp: migrated_def rows_of_def same split: option.splits)
  have b: "(case dk_posts (st_disk st) of None \<Rightarrow> (Inr (), st) | Some rows \<Rightarrow> migrate_posts V M rng i rows st) = (Inr (), st)" for i
    using m by (auto simp: migrated_def rows_of_def same split: option.splits)
  have c: "(case dk_threads (st_disk st) of None \<Rightarrow> (Inr (), st) | Some rows \<Rightarrow> migrate_threads V M rng i rows st) = (Inr (), st)" for i
    using m by (auto simp: migrated_def rows_of_def same split: option.splits)
  have k: "key_kept (st_disk st) ''trip''" "key_kept (st_disk st) ''node''" using m by (simp_all add: migrated_def)
  show ?thesis
    by (simp add: migrateLegacy_def Let_def a b c reseal_kept [OF k(1)] reseal_kept [OF k(2)])
qed

lemma unlock_migrated:
  assumes "dek_sealed (st_disk st) = Some sealed" "dv_unwrap V sealed p = Inr dv" "migrated (st_disk st)" "\<not> isUnlocked st"
  shows "unlock V M rng now p params st = (Inr (), (st_init st)\<lparr>st_vault := Some dv\<rparr>)"
  using assms migrated_nothing [of "(st_init st)\<lparr>st_vault := Some dv\<rparr>"]
  by (simp add: unlock_def Let_def st_init_def isUnlocked_def)

lemma changePassphrase_keeps:
  assumes "vault_law V" "rng_ok rng" "params_ok params" "q \<noteq> []"
    "dek_sealed (st_disk st) = Some sealed" "dv_unwrap V sealed p = Inr dv"
  obtains sealed' where
    "changePassphrase V rng now p q params st =
       (Inr (), put_identity DEK_SLOT (sealed_row now sealed' None) (st_init st))"
    "dv_unwrap V sealed' q = Inr dv"
proof -
  obtain sealed' where s: "dv_rewrap V (rng 0 16) (rng 1 24) sealed p q params = Inr sealed'" "dv_unwrap V sealed' q = Inr dv"
    using dv_rewrap_keeps [OF assms(1,6) _ _ assms(3,4), of "rng 0 16" "rng 1 24"] assms(2) by auto
  show ?thesis using s assms(5) by (intro that [of sealed']) (simp_all add: changePassphrase_def st_init_def)
qed

lemma dek_not_key [simp]: "DEK_SLOT \<noteq> ''trip''" "DEK_SLOT \<noteq> ''node''" "''trip'' \<noteq> DEK_SLOT" "''node'' \<noteq> DEK_SLOT"
  by (simp_all add: DEK_SLOT_def)

text \<open>C35: changing the passphrase succeeds with the right old one, and the new one then opens a locked store to the very
  same data keys with every table as it was, so that whatever could be read before reads the same.\<close>

theorem passphrase_change_keeps_data:
  assumes "vault_law V" "rng_ok rng" "params_ok params" "q \<noteq> []"
    "dek_sealed (st_disk st) = Some sealed" "dv_unwrap V sealed p = Inr dv" "migrated (st_disk st)"
    "changePassphrase V rng now p q params st = (r, st')"
    "unlock V M rng' now' q params (st_lock st') = (r', st'')"
  shows "r = Inr () \<and> r' = Inr () \<and> st_vault st'' = Some dv \<and>
    (st_disk st'')\<lparr>dk_identity := []\<rparr> = (st_disk st)\<lparr>dk_identity := []\<rparr> \<and>
    (\<forall>slot. slot = DEK_SLOT \<or> jm_get (dk_identity (st_disk st'')) slot = jm_get (dk_identity (st_disk st)) slot) \<and>
    (\<forall>t. st_get V M st'' t = st_get V M (st\<lparr>st_db := True, st_vault := Some dv\<rparr>) t) \<and>
    (\<forall>b t. getPosts V M st'' b t = getPosts V M (st\<lparr>st_db := True, st_vault := Some dv\<rparr>) b t) \<and>
    (\<forall>b. getBoardKey V M st'' b = getBoardKey V M (st\<lparr>st_db := True, st_vault := Some dv\<rparr>) b)"
proof -
  obtain sealed' where c: "r = Inr ()" "st' = put_identity DEK_SLOT (sealed_row now sealed' None) (st_init st)"
    and u: "dv_unwrap V sealed' q = Inr dv"
    using changePassphrase_keeps [OF assms(1-6), of now] assms(8) by auto
  have d: "st_disk st' = (st_disk st)\<lparr>dk_identity := jm_set DEK_SLOT (sealed_row now sealed' None) (dk_identity (st_disk st))\<rparr>"
    by (simp add: c(2) st_init_def)
  have m: "migrated (st_disk (st_lock st'))" using assms(7) by (simp add: d st_lock_def migrated_def key_kept_def)
  have k: "dek_sealed (st_disk (st_lock st')) = Some sealed'" by (simp add: d st_lock_def dek_sealed_def sealed_row_def)
  have l: "\<not> isUnlocked (st_lock st')" by (simp add: isUnlocked_def st_lock_def)
  have s: "r' = Inr ()" "st'' = (st_init (st_lock st'))\<lparr>st_vault := Some dv\<rparr>"
    using unlock_migrated [OF k u m l, of M rng' now' params] assms(9) by simp_all
  show ?thesis unfolding s(2)
    by (simp add: c(1) s(1) st_lock_def st_init_def d st_get_def readMailbox_def getPosts_def getBoardKey_def requireVault_def)
qed


definition toy_rng :: "nat \<Rightarrow> nat \<Rightarrow> bytes" where
  "toy_rng i n = replicate n (of_nat i)"

lemma toy_rng_ok [simp]: "rng_ok toy_rng"
  by (simp add: rng_ok_def toy_rng_def)

definition toy_sealed_dek :: sealed_secret where
  "toy_sealed_dek = \<lparr>sv_v = 1, sv_protected = True, sv_salt = replicate 16 1, sv_nonce = replicate 24 2,
     sv_ciphertext = pad_to 16 (utf8 ''pw'') @ replicate 32 7, sv_opsLimit = 3, sv_memLimit = 8192\<rparr>"

definition toy_dv :: data_vault where
  "toy_dv = fromDek toy_vault (replicate 32 7)"

definition toy_disk :: disk where
  "toy_disk = empty_disk\<lparr>dk_identity := [(DEK_SLOT, sealed_row 0 toy_sealed_dek None)]\<rparr>"

definition toy_store :: secure_store where
  "toy_store = \<lparr>st_db = True, st_vault = Some toy_dv, st_disk = toy_disk\<rparr>"

lemma toy_dek: "dek_sealed (st_disk toy_store) = Some toy_sealed_dek"
  by (simp add: toy_store_def toy_disk_def dek_sealed_def sealed_row_def)

lemma toy_pad: "take 16 (pad_to 32 p) = pad_to 16 p"
  by (simp add: pad_to_def take_append)

lemma toy_unwrap: "dv_unwrap toy_vault toy_sealed_dek ''pw'' = Inr toy_dv"
  by (simp add: dv_unwrap_def open_dek_def sv_open_def sv_deriveKey_def requirePassphrase_def toy_dv_def
      toy_sealed_dek_def toy_vault_def toy_pad)

lemma toy_migrated: "migrated (st_disk toy_store)"
  by (simp add: migrated_def toy_store_def toy_disk_def empty_disk_def rows_of_def key_kept_def)

lemma toy_wrong: "sv_open toy_vault toy_sealed_dek ''no'' = None"
  by (simp add: sv_open_def sv_deriveKey_def toy_sealed_dek_def toy_vault_def toy_pad)
    (simp add: pad_to_def utf8_char_def)

theorem wrong_passphrase_changes_nothing_witness:
  "unlock toy_vault count_msgpack toy_rng 0 ''no'' VAULT_PARAMS toy_store = (Inl WrongPassphraseError, st_init toy_store)"
  using wrong_passphrase_changes_nothing [OF toy_dek toy_wrong, where q = "''x''"] by simp

theorem passphrase_change_keeps_data_witness:
  "fst (changePassphrase toy_vault toy_rng 0 ''pw'' ''new'' VAULT_PARAMS toy_store) = Inr ()"
  using passphrase_change_keeps_data [OF toy_vault_law toy_rng_ok params_ok_defaults(1) _ toy_dek toy_unwrap toy_migrated
      prod.collapse [symmetric] prod.collapse [symmetric], of "''new''"] by simp

end
