(* ===== verification/EncryptedMailbox.thy ===== *)
theory EncryptedMailbox
  imports StoreLaws "HOL-Library.Multiset"
begin

text \<open>
  The encrypted mailbox of \<open>SecureStore\<close> simulates the mailbox of \<open>MailStore\<close>: \<open>holds\<close> relates the rows on the
  disk to the topics, entries and times they stand for, and each operation of the store keeps the relation to
  the same operation on the contents. So the interface \<open>slot_store\<close>, and with it every lemma of the
  DHT mailbox about its store, holds of the encrypted store as well, as long as no two topics in use meet
  in one keyed hash.
\<close>

definition mbk :: "vault_lib \<Rightarrow> data_vault \<Rightarrow> string \<Rightarrow> string" where
  "mbk V dv t = toHex (vl_hash V 16 (utf8 (''mailbox'' @ [CHR 0x00] @ t)) (dv_idxKey dv))"

lemma mailboxKey_mbk: "dv_isOpen dv \<Longrightarrow> mailboxKey V dv t = Inr (mbk V dv t)"
  by (simp add: mailboxKey_def dv_index_def dv_assertOpen_def mbk_def)

definition row_holds :: "vault_lib \<Rightarrow> msgpack \<Rightarrow> data_vault \<Rightarrow> string \<times> mail_row \<Rightarrow> string \<times> bytes list \<times> int \<Rightarrow> bool" where
  "row_holds V M dv kr te \<longleftrightarrow>
     (case (kr, te) of ((k, row), (t, es, u)) \<Rightarrow>
        k = mbk V dv t \<and> mr_day row = Fin (of_int (u div DAY_MS)) \<and>
        dv_open V M dv (JBytes (mr_blob row)) (''emailbox:'' @ k) = Inr (JObj (mail_obj t (JArr (map JBytes es)) (jint u))))"

definition holds :: "vault_lib \<Rightarrow> msgpack \<Rightarrow> data_vault \<Rightarrow> disk \<Rightarrow> mail_store \<Rightarrow> bool" where
  "holds V M dv d s \<longleftrightarrow> list_all2 (row_holds V M dv) (dk_emailbox d) s"

subsection \<open>Rows and contents correspond\<close>

lemma holds_get:
  assumes "list_all2 (row_holds V M dv) rows s" "inj_on (mbk V dv) (insert t (fst ` set s))"
  shows "(case jm_get s t of
      None \<Rightarrow> jm_get rows (mbk V dv t) = None
    | Some e \<Rightarrow> \<exists>row. jm_get rows (mbk V dv t) = Some row \<and> row_holds V M dv (mbk V dv t, row) (t, e))"
  using assms
proof (induction rule: list_all2_induct)
  case (Cons kr rows te s)
  obtain k row u e where p: "kr = (k, row)" "te = (u, e)" by (metis prod.exhaust)
  have k: "k = mbk V dv u" using Cons.hyps(1) by (simp add: p row_holds_def split_beta)
  have i: "inj_on (mbk V dv) (insert t (fst ` set s))" using Cons.prems by (rule inj_on_subset) (auto simp: p)
  show ?case
  proof (cases "u = t")
    case True
    then show ?thesis using Cons.hyps(1) k by (simp add: p)
  next
    case False
    then have "mbk V dv u \<noteq> mbk V dv t" using Cons.prems by (auto simp: p inj_on_def)
    then show ?thesis using Cons.IH [OF i] False by (auto simp: p k split: option.splits)
  qed
qed simp

lemma holds_set:
  assumes "list_all2 (row_holds V M dv) rows s" "inj_on (mbk V dv) (insert t (fst ` set s))"
    "row_holds V M dv (mbk V dv t, row) (t, e)"
  shows "list_all2 (row_holds V M dv) (jm_set (mbk V dv t) row rows) (jm_set t e s)"
  using assms(1,2)
proof (induction rule: list_all2_induct)
  case (Cons kr rows te s)
  obtain k row' u e' where p: "kr = (k, row')" "te = (u, e')" by (metis prod.exhaust)
  have k: "k = mbk V dv u" using Cons.hyps(1) by (simp add: p row_holds_def split_beta)
  have i: "inj_on (mbk V dv) (insert t (fst ` set s))" using Cons.prems by (rule inj_on_subset) (auto simp: p)
  have "u \<noteq> t \<Longrightarrow> mbk V dv u \<noteq> mbk V dv t" using Cons.prems by (auto simp: p inj_on_def)
  then show ?case using Cons.IH [OF i] Cons.hyps assms(3) by (auto simp: p k)
qed (simp add: assms(3))

lemma holds_prune:
  "list_all2 (row_holds V M dv) rows s \<Longrightarrow>
    list_all2 (row_holds V M dv) (filter (\<lambda>(_, row). \<not> expired_row c row) rows) (ms_prune c s)"
proof (induction rule: list_all2_induct)
  case (Cons kr rows te s)
  obtain k row t es u where p: "kr = (k, row)" "te = (t, es, u)" by (metis prod.exhaust)
  have "expired_row c row \<longleftrightarrow> u div DAY_MS < c div DAY_MS"
    using Cons.hyps(1) by (simp add: p row_holds_def expired_row_def)
  then show ?case using Cons by (simp add: p ms_prune_def)
qed (simp add: ms_prune_def)

lemma holds_keys: "list_all2 (row_holds V M dv) rows s \<Longrightarrow> map fst rows = map (mbk V dv) (map fst s)"
  by (induction rule: list_all2_induct) (auto simp: row_holds_def)

lemma entry_hexes_bytes [simp]: "entry_hexes (map JBytes es) = Inr (map toHex es)"
  by (induction es) auto

lemma day_of_jint [simp]: "day_of (jint u) = Inr (Fin (of_int (u div DAY_MS)))"
  by (simp add: day_of_def floor_divide_of_int_eq)

lemma jget_mail_obj [simp]:
  "jm_get (mail_obj t es u) ''topicHash'' = Some (JStr t)" "jm_get (mail_obj t es u) ''entries'' = Some es"
  "jm_get (mail_obj t es u) ''lastUpdated'' = Some u"
  by (simp_all add: mail_obj_def)

lemma mail_obj_plain [simp]: "msgpack_plain (JObj (mail_obj t (JArr (map JBytes es)) (jint u)))"
  by (auto simp: mail_obj_def)

lemma mail_obj_update:
  "jm_set ''lastUpdated'' u' (jm_set ''entries'' es' (mail_obj t es u)) = mail_obj t es' u'"
  by (simp add: mail_obj_def)

subsection \<open>The operations correspond\<close>

lemma readMailbox_holds:
  assumes "st_vault st = Some dv" "dv_isOpen dv" "holds V M dv (st_disk st) s"
    "inj_on (mbk V dv) (insert t (fst ` set s))"
  shows "readMailbox V M st t = Inr (case jm_get s t of None \<Rightarrow> Undef
     | Some (es, u) \<Rightarrow> JObj (mail_obj t (JArr (map JBytes es)) (jint u)))"
  using holds_get [OF assms(3) [unfolded holds_def] assms(4)] assms(1,2)
  by (auto simp: readMailbox_def requireVault_simps mailboxKey_mbk row_holds_def split: option.splits)

lemma writeMailbox_holds:
  assumes "st_vault st = Some dv" "dv_isOpen dv" "holds V M dv (st_disk st) s"
    "inj_on (mbk V dv) (insert t (fst ` set s))" "vault_law V" "msgpack_law M" "length nonce = 24"
  obtains st' where "writeMailbox V M nonce (mail_obj t (JArr (map JBytes es)) (jint u)) st = (Inr (), st')"
    "holds V M dv (st_disk st') (jm_set t (es, u) s)" "st_vault st' = Some dv" "st_db st' = st_db st"
    "(st_disk st')\<lparr>dk_emailbox := []\<rparr> = (st_disk st)\<lparr>dk_emailbox := []\<rparr>"
proof -
  let ?rec = "mail_obj t (JArr (map JBytes es)) (jint u)" and ?k = "mbk V dv t"
  obtain blob where b: "dv_seal V M dv nonce (JObj ?rec) (''emailbox:'' @ ?k) = Inr blob"
    using dv_seal_Inr [OF assms(2)] by blast
  have "dv_open V M dv (JBytes blob) (''emailbox:'' @ ?k) = Inr (JObj ?rec)"
    using dv_open_seal [OF assms(5,7) _ b] assms(6) mail_obj_plain unfolding msgpack_law_def by blast
  then have r: "row_holds V M dv (?k, \<lparr>mr_day = Fin (of_int (u div DAY_MS)), mr_blob = blob\<rparr>) (t, es, u)"
    by (simp add: row_holds_def)
  let ?st = "set_disk (\<lambda>d. d\<lparr>dk_emailbox := jm_set ?k \<lparr>mr_day = Fin (of_int (u div DAY_MS)), mr_blob = blob\<rparr> (dk_emailbox d)\<rparr>) st"
  have "writeMailbox V M nonce ?rec st = (Inr (), ?st)"
    using b by (simp add: writeMailbox_def requireVault_simps(2) [OF assms(1,2)] mailboxKey_mbk [OF assms(2)])
  moreover have "holds V M dv (st_disk ?st) (jm_set t (es, u) s)"
    using holds_set [OF assms(3) [unfolded holds_def] assms(4) r] by (simp add: holds_def)
  ultimately show ?thesis using assms(1) by (intro that [of ?st]) simp_all
qed

lemma st_put_holds:
  assumes "st_vault st = Some dv" "dv_isOpen dv" "holds V M dv (st_disk st) s"
    "inj_on (mbk V dv) (insert t (fst ` set s))" "vault_law V" "msgpack_law M" "length nonce = 24" "st_db st"
  obtains st' where "st_put V M nonce now t es st = (Inr (), st')"
    "holds V M dv (st_disk st') (ms_put now t es s)" "st_vault st' = Some dv" "st_db st'"
    "(st_disk st')\<lparr>dk_emailbox := []\<rparr> = (st_disk st)\<lparr>dk_emailbox := []\<rparr>"
proof (cases "jm_get s t")
  case None
  obtain st' where w: "writeMailbox V M nonce (mail_obj t (JArr (map JBytes es)) (jint now)) st = (Inr (), st')"
    "holds V M dv (st_disk st') (jm_set t (es, now) s)" "st_vault st' = Some dv" "st_db st' = st_db st"
    "(st_disk st')\<lparr>dk_emailbox := []\<rparr> = (st_disk st)\<lparr>dk_emailbox := []\<rparr>"
    using writeMailbox_holds [OF assms(1-7)] by metis
  then show ?thesis using None assms(8) readMailbox_holds [OF assms(1-4)]
    by (intro that [of st']) (simp_all add: st_put_def ms_put_def)
next
  case (Some e)
  obtain old u where e: "e = (old, u)" by force
  have r: "readMailbox V M st t = Inr (JObj (mail_obj t (JArr (map JBytes old)) (jint u)))"
    using Some e readMailbox_holds [OF assms(1-4)] by simp
  let ?added = "filter (\<lambda>e. e \<notin> set old) es"
  have h: "filter (\<lambda>e. toHex e \<notin> set (map toHex old)) es = ?added" by (rule filter_cong) auto
  show ?thesis
  proof (cases "?added = []")
    case True
    then show ?thesis using Some e r h assms
      by (intro that [of st]) (simp_all add: st_put_def ms_put_def Let_def)
  next
    case False
    obtain st' where w: "writeMailbox V M nonce (mail_obj t (JArr (map JBytes (old @ ?added))) (jint now)) st = (Inr (), st')"
      "holds V M dv (st_disk st') (jm_set t (old @ ?added, now) s)" "st_vault st' = Some dv" "st_db st' = st_db st"
      "(st_disk st')\<lparr>dk_emailbox := []\<rparr> = (st_disk st)\<lparr>dk_emailbox := []\<rparr>"
      using writeMailbox_holds [OF assms(1-7)] by metis
    then show ?thesis using Some e r h False assms(8)
      by (intro that [of st']) (simp_all add: st_put_def ms_put_def Let_def mail_obj_update)
  qed
qed

lemma topics_of_rows_holds:
  "list_all2 (row_holds V M dv) rows s \<Longrightarrow> topics_of_rows V M dv rows = Inr (map (JStr \<circ> fst) s)"
  by (induction rule: list_all2_induct) (auto simp: row_holds_def)

text \<open>The database lists the rows in the order of their keys.\<close>

lemma list_all2_reorder:
  assumes "list_all2 R xs ys" "mset xs' = mset xs"
  obtains ys' where "list_all2 R xs' ys'" "mset ys' = mset ys"
  using list_all2_reorder_left_invariance [OF assms(1), of xs'] assms(2) by metis

lemma getAllTopicHashes_holds:
  assumes "st_vault st = Some dv" "dv_isOpen dv" "holds V M dv (st_disk st) s" "st_db st"
  obtains ts where "getAllTopicHashes V M st = Inr (map JStr ts)" "mset ts = mset (ms_topics s)"
proof -
  have m: "mset (rows_by_key (dk_emailbox (st_disk st))) = mset (dk_emailbox (st_disk st))"
    by (simp add: rows_by_key_def)
  obtain s' where s': "list_all2 (row_holds V M dv) (rows_by_key (dk_emailbox (st_disk st))) s'" "mset s' = mset s"
    using list_all2_reorder [OF assms(3) [unfolded holds_def] m] by blast
  have "getAllTopicHashes V M st = Inr (map JStr (map fst s'))"
    using topics_of_rows_holds [OF s'(1)] assms by (simp add: getAllTopicHashes_def requireVault_simps)
  moreover have "mset (map fst s') = mset (ms_topics s)" using s'(2) by (simp add: ms_topics_def)
  ultimately show ?thesis by (rule that)
qed

lemma pruneMailbox_holds:
  assumes "st_vault st = Some dv" "dv_isOpen dv" "holds V M dv (st_disk st) s" "st_db st"
  obtains n st' where "pruneMailbox c st = (Inr n, st')" "holds V M dv (st_disk st') (ms_prune c s)"
    "st_vault st' = Some dv" "st_db st'"
proof -
  let ?st = "set_disk (\<lambda>d. d\<lparr>dk_emailbox := filter (\<lambda>(_, row). \<not> expired_row c row) (dk_emailbox (st_disk st))\<rparr>) st"
  have "holds V M dv (st_disk ?st) (ms_prune c s)" using holds_prune [OF assms(3) [unfolded holds_def]] by (simp add: holds_def)
  then show ?thesis using assms(1,4) requireVault_simps(2) [OF assms(1,2)]
    by (intro that [of _ ?st]) (auto simp: pruneMailbox_def Let_def)
qed

subsection \<open>The interface of the DHT mailbox\<close>

fun bytes_in :: "jsval \<Rightarrow> bytes" where
  "bytes_in (JBytes b) = b"
| "bytes_in _ = []"

fun string_in :: "jsval \<Rightarrow> string" where
  "string_in (JStr s) = s"
| "string_in _ = []"

definition enc_get :: "vault_lib \<Rightarrow> msgpack \<Rightarrow> secure_store \<Rightarrow> string \<Rightarrow> bytes list option" where
  "enc_get V M st t = (case st_get V M st t of Inr (JArr vs) \<Rightarrow> Some (map bytes_in vs) | _ \<Rightarrow> None)"

definition enc_put ::
  "vault_lib \<Rightarrow> msgpack \<Rightarrow> (secure_store \<Rightarrow> bytes) \<Rightarrow> int \<Rightarrow> string \<Rightarrow> bytes list \<Rightarrow> secure_store \<Rightarrow> secure_store" where
  "enc_put V M nonce now t es st = snd (st_put V M (nonce st) now t es st)"

definition enc_topics :: "vault_lib \<Rightarrow> msgpack \<Rightarrow> secure_store \<Rightarrow> string list" where
  "enc_topics V M st = (case getAllTopicHashes V M st of Inr ts \<Rightarrow> map string_in ts | Inl _ \<Rightarrow> [])"

definition enc_prune :: "int \<Rightarrow> secure_store \<Rightarrow> secure_store" where
  "enc_prune c st = snd (pruneMailbox c st)"

text \<open>An unlocked store whose rows stand for \<open>s\<close>, all of it about topics that do not meet in a keyed hash.\<close>

definition enc_holds :: "vault_lib \<Rightarrow> msgpack \<Rightarrow> string set \<Rightarrow> secure_store \<Rightarrow> mail_store \<Rightarrow> bool" where
  "enc_holds V M K st s \<longleftrightarrow>
     (\<exists>dv. st_db st \<and> st_vault st = Some dv \<and> dv_isOpen dv \<and> inj_on (mbk V dv) K \<and>
        fst ` set s \<subseteq> K \<and> jm_wf s \<and> holds V M dv (st_disk st) s)"

definition enc_laws :: "vault_lib \<Rightarrow> msgpack \<Rightarrow> (secure_store \<Rightarrow> bytes) \<Rightarrow> bool" where
  "enc_laws V M nonce \<longleftrightarrow> vault_law V \<and> msgpack_law M \<and> (\<forall>st. length (nonce st) = 24)"

definition enc_ok :: "vault_lib \<Rightarrow> msgpack \<Rightarrow> (secure_store \<Rightarrow> bytes) \<Rightarrow> string set \<Rightarrow> secure_store \<Rightarrow> bool" where
  "enc_ok V M nonce K st \<longleftrightarrow> enc_laws V M nonce \<and> (\<exists>s. enc_holds V M K st s)"

lemma enc_get_holds:
  assumes "enc_holds V M K st s" "t \<in> K"
  shows "st_get V M st t = Inr (case ms_get s t of None \<Rightarrow> Undef | Some es \<Rightarrow> JArr (map JBytes es))"
    "enc_get V M st t = ms_get s t"
proof -
  obtain dv where dv: "st_db st" "st_vault st = Some dv" "dv_isOpen dv" "inj_on (mbk V dv) K" "fst ` set s \<subseteq> K"
    "holds V M dv (st_disk st) s" using assms(1) by (auto simp: enc_holds_def)
  have "inj_on (mbk V dv) (insert t (fst ` set s))" using dv(4,5) assms(2) by (intro inj_on_subset [OF dv(4)]) simp
  note r = readMailbox_holds [OF dv(2,3,6) this]
  show g: "st_get V M st t = Inr (case ms_get s t of None \<Rightarrow> Undef | Some es \<Rightarrow> JArr (map JBytes es))"
    using dv(1) by (auto simp: st_get_def r ms_get_def split: option.split)
  have "map bytes_in (map JBytes es) = es" for es by (induction es) auto
  then show "enc_get V M st t = ms_get s t" by (auto simp: enc_get_def g split: option.split)
qed

lemma enc_put_holds:
  assumes "enc_holds V M K st s" "enc_laws V M nonce" "t \<in> K"
  shows "fst (st_put V M (nonce st) now t es st) = Inr () \<and> enc_holds V M K (enc_put V M nonce now t es st) (ms_put now t es s)"
proof -
  obtain dv where dv: "st_db st" "st_vault st = Some dv" "dv_isOpen dv" "inj_on (mbk V dv) K" "fst ` set s \<subseteq> K" "jm_wf s"
    "holds V M dv (st_disk st) s" using assms(1) by (auto simp: enc_holds_def)
  have i: "inj_on (mbk V dv) (insert t (fst ` set s))" using dv(4,5) assms(3) by (intro inj_on_subset [OF dv(4)]) simp
  obtain st' where st': "st_put V M (nonce st) now t es st = (Inr (), st')" "holds V M dv (st_disk st') (ms_put now t es s)"
    "st_vault st' = Some dv" "st_db st'"
    using st_put_holds [OF dv(2,3,7) i _ _ _ dv(1), where nonce = "nonce st" and now = now and es = es] assms(2)
    unfolding enc_laws_def by blast
  have "fst ` set (ms_put now t es s) \<subseteq> K"
    using dv(5) assms(3) by (auto simp: ms_put_def Let_def dom_update split: option.splits)
  moreover have "jm_wf (ms_put now t es s)" using dv(6) by (rule ms.ok_put) simp
  ultimately show ?thesis using st' dv by (auto simp: enc_put_def enc_holds_def)
qed

lemma enc_prune_holds:
  assumes "enc_holds V M K st s"
  shows "enc_holds V M K (enc_prune c st) (ms_prune c s)"
proof -
  obtain dv where dv: "st_db st" "st_vault st = Some dv" "dv_isOpen dv" "inj_on (mbk V dv) K" "fst ` set s \<subseteq> K" "jm_wf s"
    "holds V M dv (st_disk st) s" using assms(1) by (auto simp: enc_holds_def)
  obtain n st' where st': "pruneMailbox c st = (Inr n, st')" "holds V M dv (st_disk st') (ms_prune c s)"
    "st_vault st' = Some dv" "st_db st'" using pruneMailbox_holds [OF dv(2,3,7,1)] by metis
  have "fst ` set (ms_prune c s) \<subseteq> K" using dv(5) by (auto simp: ms_prune_def)
  then show ?thesis using st' dv ms.ok_prune [OF dv(6)] by (auto simp: enc_prune_def enc_holds_def)
qed

lemma enc_topics_holds:
  assumes "enc_holds V M K st s"
  shows "mset (enc_topics V M st) = mset (ms_topics s)"
proof -
  obtain dv where dv: "st_db st" "st_vault st = Some dv" "dv_isOpen dv" "holds V M dv (st_disk st) s"
    using assms by (auto simp: enc_holds_def)
  obtain ts where ts: "getAllTopicHashes V M st = Inr (map JStr ts)" "mset ts = mset (ms_topics s)"
    using getAllTopicHashes_holds [OF dv(2-4,1)] by metis
  have "map string_in (map JStr ts) = ts" by (induction ts) auto
  then show ?thesis using ts by (simp add: enc_topics_def)
qed

interpretation enc: slot_store "enc_get V M" "enc_put V M nonce" "enc_topics V M" enc_prune "enc_ok V M nonce K" K
  for V M nonce K
proof
  fix st t assume ok: "enc_ok V M nonce K st"
  then obtain s where s: "enc_laws V M nonce" "enc_holds V M K st s" by (auto simp: enc_ok_def)
  have wf: "jm_wf s" "fst ` set s \<subseteq> K" using s(2) by (auto simp: enc_holds_def)
  have topics: "set (enc_topics V M st) = set (ms_topics s)" by (metis enc_topics_holds [OF s(2)] set_mset_mset)
  show "distinct (enc_topics V M st)"
    using ms.topics_distinct [OF wf(1)] enc_topics_holds [OF s(2)] by (metis mset_eq_imp_distinct_iff)
  show "set (enc_topics V M st) \<subseteq> K" using wf(2) by (simp add: topics ms_topics_def)
  show "enc_ok V M nonce K (enc_prune c st)" for c
    using enc_prune_holds [OF s(2)] s(1) unfolding enc_ok_def by blast
  assume t: "t \<in> K"
  show "enc_ok V M nonce K (enc_put V M nonce now t es st)" for now es
    using enc_put_holds [OF s(2,1) t] s(1) unfolding enc_ok_def by blast
  show "t \<in> set (enc_topics V M st) \<longleftrightarrow> enc_get V M st t \<noteq> None"
    using ms.topics_get [OF wf(1)] by (simp add: topics enc_get_holds(2) [OF s(2) t])
  show "enc_get V M st t = Some es" if "enc_get V M (enc_prune c st) t = Some es" for c es
    using ms_prune_get [OF wf(1)] that by (simp add: enc_get_holds(2) [OF s(2) t] enc_get_holds(2) [OF enc_prune_holds [OF s(2)] t])
  fix u assume u: "u \<in> K"
  show "enc_get V M (enc_put V M nonce now t es st) u =
      (if u = t then Some (merge_entries (enc_get V M st t) es) else enc_get V M st u)" for now es
    using enc_get_holds(2) [OF conjunct2 [OF enc_put_holds [OF s(2,1) t, of now es]] u]
    by (simp add: enc_get_holds(2) [OF s(2)] u t ms_get_put)
qed

text \<open>C10: the encrypted mailbox does to the rows on the disk what \<open>MailStore\<close> does to the contents they stand for:
  reading gives the entries of the topic, storing and pruning succeed and lead to rows that stand for the
  contents stored and pruned, and the topics listed are those of the contents.\<close>

theorem encrypted_mailbox_refines:
  assumes "enc_holds V M K st s" "enc_laws V M nonce" "t \<in> K"
  shows "st_get V M st t = Inr (case ms_get s t of None \<Rightarrow> Undef | Some es \<Rightarrow> JArr (map JBytes es)) \<and>
    fst (st_put V M (nonce st) now t es st) = Inr () \<and>
    enc_holds V M K (snd (st_put V M (nonce st) now t es st)) (ms_put now t es s) \<and>
    enc_holds V M K (snd (pruneMailbox c st)) (ms_prune c s) \<and>
    mset (enc_topics V M st) = mset (ms_topics s)"
  using enc_get_holds(1) [OF assms(1,3)] enc_put_holds [OF assms, of now es] enc_prune_holds [OF assms(1), of c]
    enc_topics_holds [OF assms(1)]
  by (simp add: enc_put_def enc_prune_def)

text \<open>what is stored under a topic stays readable in an unlocked store: after storing entries the topic gives the
  old ones followed by the new, every other topic gives what it gave, and expiry never changes the entries of
  a topic it keeps.\<close>

theorem encrypted_mailbox_is_slot_store:
  assumes "enc_ok V M nonce K st" "t \<in> K" "u \<in> K"
  shows "enc_get V M (enc_put V M nonce now t es st) u =
      (if u = t then Some (merge_entries (enc_get V M st t) es) else enc_get V M st u) \<and>
    enc_ok V M nonce K (enc_put V M nonce now t es st) \<and>
    (enc_get V M (enc_prune c st) t = None \<or> enc_get V M (enc_prune c st) t = enc_get V M st t)"
  using enc.get_put [OF assms] enc.ok_put [OF assms(1,2)] enc.prune_get [OF assms(1,2)]
  by (cases "enc_get V M (enc_prune c st) t") auto

lemma toy_dv_open [simp]: "dv_isOpen toy_dv"
  by (simp add: toy_dv_def)

lemma toy_enc_laws: "enc_laws toy_vault count_msgpack (\<lambda>_. replicate 24 5)"
  by (simp add: enc_laws_def)

lemma toy_enc_holds: "enc_holds toy_vault count_msgpack {''topic''} toy_store []"
  by (simp add: enc_holds_def toy_store_def toy_disk_def empty_disk_def holds_def)

theorem encrypted_mailbox_refines_witness:
  "st_get toy_vault count_msgpack toy_store ''topic'' = Inr Undef \<and>
   fst (st_put toy_vault count_msgpack (replicate 24 5) 7 ''topic'' [[1], [2]] toy_store) = Inr ()"
  using encrypted_mailbox_refines [OF toy_enc_holds toy_enc_laws, of "''topic''" 7 "[[1], [2]]"]
  by (simp add: ms_get_def)

theorem encrypted_mailbox_is_slot_store_witness:
  "enc_ok toy_vault count_msgpack (\<lambda>_. replicate 24 5) {''topic''}
     (enc_put toy_vault count_msgpack (\<lambda>_. replicate 24 5) 7 ''topic'' [[1], [2]] toy_store)"
  using encrypted_mailbox_is_slot_store [of toy_vault count_msgpack "\<lambda>_. replicate 24 5" "{''topic''}" toy_store "''topic''" "''topic''"]
    toy_enc_laws toy_enc_holds unfolding enc_ok_def [of _ _ _ _ toy_store] by blast

end
