(* ===== verification/Migration.thy ===== *)
theory Migration
  imports EncryptedMailbox
begin

text \<open>
  The first unlocking after an update (\<open>migrateLegacy\<close> of \<open>storage/IndexedDBStore.ts\<close>): the tables of the versions
  before encryption are moved into the encrypted ones and emptied, and keys that were sealed without a
  passphrase are sealed under the passphrase of the store. The lemmas follow each table through the loops.
\<close>

subsection \<open>What one write leaves alone\<close>

definition frame_mail :: "secure_store \<Rightarrow> disk" where
  "frame_mail st = (st_disk st)\<lparr>dk_emailbox := [], dk_mailbox := None\<rparr>"

definition frame_posts :: "secure_store \<Rightarrow> disk" where
  "frame_posts st = (st_disk st)\<lparr>dk_eposts := [], dk_nextId := 0, dk_posts := None\<rparr>"

definition frame_threads :: "secure_store \<Rightarrow> disk" where
  "frame_threads st = (st_disk st)\<lparr>dk_ethreads := [], dk_threads := None\<rparr>"

lemmas frames = frame_mail_def frame_posts_def frame_threads_def

text \<open>Lifting an exception away: what succeeded has taken every step.\<close>

lemma or_throw_Inr: "or_throw r st f = (Inr y, st') \<longleftrightarrow> (\<exists>x. r = Inr x \<and> f x = (Inr y, st'))"
  by (cases r) (auto simp: or_throw_def)

lemma then_do_Inr: "then_do r f = (Inr (), st') \<longleftrightarrow> (\<exists>st1. r = (Inr (), st1) \<and> f st1 = (Inr (), st'))"
  by (cases r; cases "fst r") (auto simp: then_do_def)

definition same_keys :: "secure_store \<Rightarrow> secure_store \<Rightarrow> bool" where
  "same_keys st st' \<longleftrightarrow> st_vault st' = st_vault st \<and> st_db st' = st_db st"

lemma same_keys_trans: "same_keys a b \<Longrightarrow> same_keys b c \<Longrightarrow> same_keys a c"
  by (simp add: same_keys_def)

lemma writeMailbox_frame:
  assumes "writeMailbox V M nonce record st = (r, st')"
  shows "frame_mail st' = frame_mail st \<and> same_keys st st' \<and> dk_mailbox (st_disk st') = dk_mailbox (st_disk st)"
proof -
  have "st' = st \<or> (\<exists>f. st' = set_disk (\<lambda>d. d\<lparr>dk_emailbox := f d\<rparr>) st)"
    using assms by (auto simp: writeMailbox_def or_throw_def split: sum.splits jsval.splits)
  then show ?thesis by (auto simp: frame_mail_def same_keys_def)
qed

lemma migrate_mail_frame:
  "migrate_mail V M rng now i rs st = (Inr (), st') \<Longrightarrow>
    frame_mail st' = frame_mail st \<and> same_keys st st' \<and> dk_mailbox (st_disk st') = Some []"
proof (induction rs arbitrary: i st)
  case Nil
  then show ?case by (auto simp: frame_mail_def same_keys_def)
next
  case (Cons r rs)
  consider (skip) "migrate_mail V M rng now (Suc i) rs st = (Inr (), st')"
    | (moved) rec st1 where "writeMailbox V M (rng i 24) rec st = (Inr (), st1)"
      "migrate_mail V M rng now (Suc i) rs st1 = (Inr (), st')"
    using Cons.prems by (auto split: jsval.splits if_splits prod.splits sum.splits)
  then show ?case
  proof cases
    case skip
    then show ?thesis by (rule Cons.IH)
  next
    case moved
    then show ?thesis using Cons.IH [OF moved(2)] writeMailbox_frame [OF moved(1)] same_keys_trans [of st st1 st'] by simp
  qed
qed

lemma migrate_posts_frame:
  "migrate_posts V M rng i rs st = (Inr (), st') \<Longrightarrow>
    frame_posts st' = frame_posts st \<and> same_keys st st' \<and> dk_posts (st_disk st') = Some []"
proof (induction rs arbitrary: i st)
  case Nil
  then show ?case by (auto simp: frame_posts_def same_keys_def)
next
  case (Cons r rs)
  have add: "frame_posts (add_post bt blob st) = frame_posts st" "same_keys st (add_post bt blob st)" for bt blob
    by (simp_all add: frame_posts_def add_post_def same_keys_def)
  consider (skip) "migrate_posts V M rng (Suc i) rs st = (Inr (), st')"
    | (added) bt blob where "migrate_posts V M rng (Suc i) rs (add_post bt blob st) = (Inr (), st')"
    using Cons.prems by (auto simp: or_throw_Inr split: jsval.splits)
  then show ?case
  proof cases
    case skip
    then show ?thesis by (rule Cons.IH)
  next
    case added
    then show ?thesis using Cons.IH [OF added] add same_keys_trans [of st "add_post bt blob st" st'] by simp
  qed
qed

lemma migrate_threads_frame:
  "migrate_threads V M rng i rs st = (Inr (), st') \<Longrightarrow>
    frame_threads st' = frame_threads st \<and> same_keys st st' \<and> dk_threads (st_disk st') = Some []"
proof (induction rs arbitrary: i st)
  case Nil
  then show ?case by (auto simp: frame_threads_def same_keys_def)
next
  case (Cons r rs)
  have put: "frame_threads (put_thread k b blob st) = frame_threads st" "same_keys st (put_thread k b blob st)" for k b blob
    by (simp_all add: frame_threads_def put_thread_def same_keys_def)
  consider (skip) "migrate_threads V M rng (Suc i) rs st = (Inr (), st')"
    | (added) k b blob where "migrate_threads V M rng (Suc i) rs (put_thread k b blob st) = (Inr (), st')"
    using Cons.prems by (auto simp: or_throw_Inr split: jsval.splits)
  then show ?case
  proof cases
    case skip
    then show ?thesis by (rule Cons.IH)
  next
    case added
    then show ?thesis using Cons.IH [OF added] put same_keys_trans [of st "put_thread k b blob st" st'] by simp
  qed
qed

subsection \<open>Keys sealed without a passphrase\<close>

text \<open>The slot is as it was, and was protected or could not be opened; or it now holds the same secret, sealed under
  the passphrase.\<close>

definition resealed :: "vault_lib \<Rightarrow> string \<Rightarrow> disk \<Rightarrow> disk \<Rightarrow> string \<Rightarrow> bool" where
  "resealed V p d d' slot \<longleftrightarrow>
     (\<forall>row' sealed'. jm_get (dk_identity d') slot = Some row' \<longrightarrow> ir_sealed row' = Some sealed' \<longrightarrow>
        (\<exists>row sealed. jm_get (dk_identity d) slot = Some row \<and> ir_sealed row = Some sealed \<and>
           (row' = row \<and> (sv_protected sealed \<or> sv_open V sealed [] = None) \<or>
            sv_protected sealed' \<and> sv_open V sealed' p = sv_open V sealed [])))"

lemma reseal_slot_spec:
  assumes r: "reseal_slot V M rng now i p params slot st = (Inr (), st')"
    and "vault_law V" "rng_ok rng" "params_ok params" "p \<noteq> []" "st_db st" "slot \<noteq> DEK_SLOT"
  shows "resealed V p (st_disk st) (st_disk st') slot \<and> same_keys st st' \<and>
    (st_disk st')\<lparr>dk_identity := []\<rparr> = (st_disk st)\<lparr>dk_identity := []\<rparr> \<and>
    (\<forall>s. s = slot \<or> jm_get (dk_identity (st_disk st')) s = jm_get (dk_identity (st_disk st)) s)"
proof (cases "\<exists>row sealed secret. jm_get (dk_identity (st_disk st)) slot = Some row \<and> ir_sealed row = Some sealed \<and>
    \<not> sv_protected sealed \<and> sv_open V sealed [] = Some secret")
  case False
  then have "st' = st" using r by (auto simp: reseal_slot_def split: option.splits if_splits)
  moreover have "resealed V p (st_disk st) (st_disk st) slot"
    unfolding resealed_def using False by (metis option.exhaust)
  ultimately show ?thesis by (simp add: same_keys_def)
next
  case True
  then obtain row sealed secret where row: "jm_get (dk_identity (st_disk st)) slot = Some row" "ir_sealed row = Some sealed"
    "\<not> sv_protected sealed" "sv_open V sealed [] = Some secret" by blast
  obtain sealed' where s: "sv_seal V (rng i 16) (rng (i + 1) 24) secret p params = Inr sealed'"
    "sv_open V sealed' p = Some secret" "sv_protected sealed'"
    using sv_open_seal [OF assms(2) rng_okD [OF assms(3)] rng_okD [OF assms(3)] assms(4)] assms(5) by metis
  obtain m where "saveSealed V M (rng (i + 2) 24) now slot sealed' m st = (Inr (), st')"
    using r row s(1) by (auto simp: reseal_slot_def)
  then obtain emeta where st': "st' = put_identity slot (sealed_row now sealed' emeta) st"
    using assms(6,7) by (auto simp: saveSealed_def or_throw_Inr split: if_splits)
  show ?thesis unfolding st' using row s
    by (auto simp: resealed_def sealed_row_def same_keys_def)
qed

lemma resealed_later:
  assumes "resealed V p d d1 slot" "jm_get (dk_identity d2) slot = jm_get (dk_identity d1) slot"
  shows "resealed V p d d2 slot"
  using assms unfolding resealed_def by simp

lemma resealed_earlier:
  assumes "resealed V p d1 d2 slot" "jm_get (dk_identity d1) slot = jm_get (dk_identity d) slot"
  shows "resealed V p d d2 slot"
  using assms unfolding resealed_def by simp

definition no_plaintext :: "vault_lib \<Rightarrow> string \<Rightarrow> disk \<Rightarrow> disk \<Rightarrow> bool" where
  "no_plaintext V p d d' \<longleftrightarrow>
     rows_of (dk_mailbox d') = [] \<and> rows_of (dk_posts d') = [] \<and> rows_of (dk_threads d') = [] \<and>
     resealed V p d d' ''trip'' \<and> resealed V p d d' ''node''"

lemma frame_simps:
  "frame_mail st' = frame_mail st \<Longrightarrow> dk_posts (st_disk st') = dk_posts (st_disk st) \<and>
     dk_threads (st_disk st') = dk_threads (st_disk st) \<and> dk_identity (st_disk st') = dk_identity (st_disk st)"
  "frame_posts st' = frame_posts st \<Longrightarrow> dk_mailbox (st_disk st') = dk_mailbox (st_disk st) \<and>
     dk_threads (st_disk st') = dk_threads (st_disk st) \<and> dk_identity (st_disk st') = dk_identity (st_disk st)"
  "frame_threads st' = frame_threads st \<Longrightarrow> dk_mailbox (st_disk st') = dk_mailbox (st_disk st) \<and>
     dk_posts (st_disk st') = dk_posts (st_disk st) \<and> dk_identity (st_disk st') = dk_identity (st_disk st)"
  unfolding frames by (metis disk.select_convs disk.surjective disk.update_convs)+

lemma migrateLegacy_spec:
  assumes r: "migrateLegacy V M rng now i p params st = (Inr (), st')"
    and laws: "vault_law V" "rng_ok rng" "params_ok params" "p \<noteq> []" and db: "st_db st"
  shows "no_plaintext V p (st_disk st) (st_disk st') \<and> same_keys st st'"
proof -
  let ?d = "st_disk st"
  obtain st1 st2 st3 st4 i1 i2 i3 where
    m: "(case dk_mailbox ?d of None \<Rightarrow> (Inr (), st) | Some rows \<Rightarrow> migrate_mail V M rng now i rows st) = (Inr (), st1)" and
    p: "(case dk_posts ?d of None \<Rightarrow> (Inr (), st1) | Some rows \<Rightarrow> migrate_posts V M rng i1 rows st1) = (Inr (), st2)" and
    t: "(case dk_threads ?d of None \<Rightarrow> (Inr (), st2) | Some rows \<Rightarrow> migrate_threads V M rng i2 rows st2) = (Inr (), st3)" and
    k: "reseal_slot V M rng now i3 p params ''trip'' st3 = (Inr (), st4)"
       "reseal_slot V M rng now (i3 + 3) p params ''node'' st4 = (Inr (), st')"
    using r unfolding migrateLegacy_def Let_def then_do_Inr by blast
  have 1: "frame_mail st1 = frame_mail st \<and> same_keys st st1 \<and> rows_of (dk_mailbox (st_disk st1)) = []"
    using m migrate_mail_frame [of V M rng now i _ st st1]
    by (auto simp: same_keys_def rows_of_def split: option.splits)
  have 2: "frame_posts st2 = frame_posts st1 \<and> same_keys st1 st2 \<and> rows_of (dk_posts (st_disk st2)) = []"
    using p frame_simps(1) [of st1 st] 1 migrate_posts_frame [of V M rng i1 _ st1 st2]
    by (auto simp: same_keys_def rows_of_def split: option.splits)
  have 3: "frame_threads st3 = frame_threads st2 \<and> same_keys st2 st3 \<and> rows_of (dk_threads (st_disk st3)) = []"
    using t frame_simps(1) [of st1 st] frame_simps(2) [of st2 st1] 1 2 migrate_threads_frame [of V M rng i2 _ st2 st3]
    by (auto simp: same_keys_def rows_of_def split: option.splits)
  have db3: "st_db st3" using 1 2 3 db by (simp add: same_keys_def)
  note r4 = reseal_slot_spec [OF k(1) laws db3 dek_not_key(3)]
  have db4: "st_db st4" using r4 db3 by (simp add: same_keys_def)
  note r5 = reseal_slot_spec [OF k(2) laws db4 dek_not_key(4)]
  have ident: "dk_identity (st_disk st3) = dk_identity ?d"
    using 1 2 3 frame_simps(1) [of st1 st] frame_simps(2) [of st2 st1] frame_simps(3) [of st3 st2] by simp
  have tables: "dk_mailbox (st_disk st') = dk_mailbox (st_disk st3) \<and> dk_posts (st_disk st') = dk_posts (st_disk st3) \<and>
      dk_threads (st_disk st') = dk_threads (st_disk st3)"
  proof -
    have "(st_disk st')\<lparr>dk_identity := []\<rparr> = (st_disk st3)\<lparr>dk_identity := []\<rparr>" using r4 r5 by simp
    then show ?thesis by (metis disk.select_convs(8,9,10) disk.surjective disk.update_convs(1))
  qed
  have "rows_of (dk_mailbox (st_disk st')) = []" "rows_of (dk_posts (st_disk st')) = []" "rows_of (dk_threads (st_disk st')) = []"
    using tables 1 2 3 frame_simps(2) [of st2 st1] frame_simps(3) [of st3 st2] by simp_all
  moreover have "resealed V p ?d (st_disk st') ''trip''"
  proof -
    have "jm_get (dk_identity (st_disk st')) ''trip'' = jm_get (dk_identity (st_disk st4)) ''trip''"
      using spec [OF conjunct2 [OF conjunct2 [OF conjunct2 [OF r5]]], of "''trip''"] by simp
    with conjunct1 [OF r4] have "resealed V p (st_disk st3) (st_disk st') ''trip''" by (rule resealed_later)
    then show ?thesis by (rule resealed_earlier) (simp add: ident)
  qed
  moreover have "resealed V p ?d (st_disk st') ''node''"
  proof (rule resealed_earlier [OF conjunct1 [OF r5]])
    show "jm_get (dk_identity (st_disk st4)) ''node'' = jm_get (dk_identity ?d) ''node''"
      using spec [OF conjunct2 [OF conjunct2 [OF conjunct2 [OF r4]]], of "''node''"] ident by simp
  qed
  moreover have "same_keys st st'" using 1 2 3 r4 r5 by (simp add: same_keys_def)
  ultimately show ?thesis by (simp add: no_plaintext_def)
qed


text \<open>a record sealed for one topic and moved to the row of another on the disk is not read there, short of an accident
  of the authenticated encryption.\<close>

theorem moved_record_is_not_read:
  assumes "dv_seal V M dv nonce v (''emailbox:'' @ mbk V dv u) = Inr blob" "length nonce = 24"
    "st_db st" "st_vault st = Some dv" "mbk V dv t \<noteq> mbk V dv u"
    "jm_get (dk_emailbox (st_disk st)) (mbk V dv t) = Some \<lparr>mr_day = day, mr_blob = blob\<rparr>"
  shows "st_get V M st t = Inr Undef \<or> vault_splice V"
proof -
  have o: "dv_isOpen dv" using assms(1) by (auto simp: dv_seal_def dv_assertOpen_def split: if_splits)
  have "''emailbox:'' @ mbk V dv t \<noteq> ''emailbox:'' @ mbk V dv u" using assms(5) by simp
  note s = dv_open_spliced [OF assms(2,1) this]
  show ?thesis
    using s by (auto simp: st_get_def readMailbox_def requireVault_simps(2) [OF assms(4) o] mailboxKey_mbk [OF o] assms(3,6))
qed

definition toy_moved :: bytes where
  "toy_moved = replicate 24 5 @ vl_seal toy_vault [] (utf8 (''emailbox:'' @ mbk toy_vault toy_dv ''u'')) (replicate 24 5) (dv_encKey toy_dv)"

lemma toy_mbk: "mbk toy_vault toy_dv ''t'' \<noteq> mbk toy_vault toy_dv ''u''"
  by (simp add: mbk_def toy_vault_def pad_to_def utf8_char_def)

definition toy_unit_msgpack :: msgpack where
  "toy_unit_msgpack = \<lparr>mp_encode = (\<lambda>v. []), mp_decode = (\<lambda>b. Some Null)\<rparr>"

theorem moved_record_is_not_read_witness:
  "st_get toy_vault toy_unit_msgpack (toy_store\<lparr>st_disk := toy_disk\<lparr>dk_emailbox :=
      [(mbk toy_vault toy_dv ''t'', \<lparr>mr_day = Fin 0, mr_blob = toy_moved\<rparr>)]\<rparr>\<rparr>) ''t'' = Inr Undef \<or> vault_splice toy_vault"
  by (rule moved_record_is_not_read [of _ _ toy_dv "replicate 24 5" Null "''u''" toy_moved])
    (simp_all add: dv_seal_def dv_assertOpen_def toy_moved_def toy_unit_msgpack_def toy_store_def toy_mbk)

definition toy_node_key :: sealed_secret where
  "toy_node_key = \<lparr>sv_v = 1, sv_protected = False, sv_salt = replicate 16 1, sv_nonce = replicate 24 2,
     sv_ciphertext = replicate 16 0 @ [9], sv_opsLimit = 1, sv_memLimit = 8192\<rparr>"

definition toy_rows :: "jsval list" where
  "toy_rows = [Null, JObj (mail_obj ''old'' (JArr [JBytes [1]]) (jint 5))]"

definition toy_old_store :: secure_store where
  "toy_old_store = \<lparr>st_db = False, st_vault = None, st_disk = toy_disk\<lparr>dk_identity :=
     [(DEK_SLOT, sealed_row 0 toy_sealed_dek None), (''node'', sealed_row 0 toy_node_key None)],
     dk_mailbox := Some toy_rows\<rparr>\<rparr>"

lemma toy_node_open: "sv_open toy_vault toy_node_key [] = Some [9]"
  by (simp add: sv_open_def sv_deriveKey_def toy_node_key_def toy_vault_def pad_to_def)

lemma toy_old_unlocks:
  "\<exists>st'. unlock toy_vault count_msgpack toy_rng 0 ''pw'' VAULT_PARAMS toy_old_store = (Inr (), st')"
proof -
  have dek: "dek_sealed (st_disk (st_init toy_old_store)) = Some toy_sealed_dek"
    by (simp add: toy_old_store_def dek_sealed_def sealed_row_def st_init_def)
  have locked: "\<not> isUnlocked (st_init toy_old_store)" by (simp add: isUnlocked_def toy_old_store_def st_init_def)
  let ?st = "(st_init toy_old_store)\<lparr>st_vault := Some toy_dv\<rparr>"
  have h: "holds toy_vault count_msgpack toy_dv (st_disk ?st) []"
    by (simp add: holds_def toy_old_store_def toy_disk_def empty_disk_def st_init_def)
  obtain st1 where w: "writeMailbox toy_vault count_msgpack (toy_rng 4 24) (mail_obj ''old'' (JArr [JBytes [1]]) (jint 5)) ?st = (Inr (), st1)"
    using writeMailbox_holds [OF _ toy_dv_open h _ toy_vault_law count_msgpack_law, of "''old''" "toy_rng 4 24" "[[1]]" 5] by auto
  note f = writeMailbox_frame [OF w]
  have id: "dk_identity (st_disk st1) = dk_identity (st_disk toy_old_store)" "dk_posts (st_disk st1) = None" "dk_threads (st_disk st1) = None"
    using f frame_simps(1) [of st1 ?st] by (simp_all add: st_init_def toy_old_store_def toy_disk_def empty_disk_def)
  have db: "st_db st1" using f by (simp add: same_keys_def st_init_def)
  let ?st2 = "set_disk (\<lambda>d. d\<lparr>dk_mailbox := Some []\<rparr>) st1"
  have mails: "migrate_mail toy_vault count_msgpack toy_rng 0 3 toy_rows ?st = (Inr (), ?st2)"
    using w by (simp add: js_or_def toy_rows_def)
  have trip: "reseal_slot toy_vault count_msgpack toy_rng 0 i ''pw'' VAULT_PARAMS ''trip'' ?st2 = (Inr (), ?st2)" for i
    by (simp add: reseal_slot_def id toy_old_store_def)
  have node: "\<exists>st'. reseal_slot toy_vault count_msgpack toy_rng 0 i ''pw'' VAULT_PARAMS ''node'' ?st2 = (Inr (), st')" for i
  proof -
    obtain sealed' where "sv_seal toy_vault (toy_rng i 16) (toy_rng (i + 1) 24) [9] ''pw'' VAULT_PARAMS = Inr sealed'"
      using sv_open_seal [OF toy_vault_law rng_okD rng_okD params_ok_defaults(1)] by (metis toy_rng_ok)
    then show ?thesis
      by (simp add: reseal_slot_def id toy_old_store_def sealed_row_def toy_node_open toy_node_key_def [THEN arg_cong, of sv_protected]
          saveSealed_def db)
  qed
  have old: "dk_mailbox (st_disk ?st) = Some toy_rows" "dk_posts (st_disk ?st) = None" "dk_threads (st_disk ?st) = None"
    by (simp_all add: toy_old_store_def st_init_def toy_disk_def empty_disk_def)
  have "\<exists>st'. migrateLegacy toy_vault count_msgpack toy_rng 0 3 ''pw'' VAULT_PARAMS ?st = (Inr (), st')"
    unfolding migrateLegacy_def Let_def old option.case mails then_do_simps set_disk_simps trip using node by simp
  then show ?thesis by (simp add: unlock_def Let_def dek locked toy_unwrap)
qed


end
