(* ===== verification/IdentityStore.thy ===== *)
theory IdentityStore
  imports Migration NodeIdentity
begin

text \<open>
  Keeping identities on the device: \<open>crypto/NodeIdentityStore.ts\<close> (the bound identity of the node) and the
  trips of \<open>crypto/Identity.ts\<close> (the lasting key of a writer), both sealed under the passphrase in the slots
  of \<open>SecureStore\<close>. The lemmas show that a kept identity comes back unchanged, that a wrong passphrase never
  overwrites it, and what a change of the passphrase does to it.

  Key pairs are drawn by libsodium: the secret key is an argument, of the documented 64 bytes.
\<close>

definition NODE_SLOT :: string where "NODE_SLOT = ''node''"
definition TRIP_SLOT :: string where "TRIP_SLOT = ''trip''"
definition SECRETKEYBYTES :: nat where [simp]: "SECRETKEYBYTES = 64"
definition PUBLICKEYBYTES :: nat where [simp]: "PUBLICKEYBYTES = 32"

subsection \<open>The node\<close>

text \<open>The exception of a search that is exhausted.\<close>

definition node_mine :: "sodium \<Rightarrow> bytes \<Rightarrow> node_id_pow_params \<Rightarrow> node_identity res" where
  "node_mine S sk params =
     (case mine S sk params of None \<Rightarrow> Inl (OtherError ''NodeId PoW search exhausted'') | Some n \<Rightarrow> Inr n)"

definition mineEphemeral ::
  "sodium \<Rightarrow> vault_lib \<Rightarrow> msgpack \<Rightarrow> bytes \<Rightarrow> node_id_pow_params \<Rightarrow> secure_store \<Rightarrow> node_identity st_result" where
  "mineEphemeral S V M sk params st =
     (node_mine S sk params,
      case getSealed V M st NODE_SLOT of
        Inr (Some (sealed, _)) \<Rightarrow> if sv_protected sealed then st else deleteSealed NODE_SLOT st
      | _ \<Rightarrow> st)"

definition tryLoad ::
  "sodium \<Rightarrow> vault_lib \<Rightarrow> msgpack \<Rightarrow> string \<Rightarrow> node_id_pow_params \<Rightarrow> secure_store \<Rightarrow> node_identity option res" where
  "tryLoad S V M passphrase params st =
     rbind (getSealed V M st NODE_SLOT) (\<lambda>record.
       case record of
         None \<Rightarrow> Inr None
       | Some (sealed, meta) \<Rightarrow>
           (case sv_open V sealed passphrase of
              None \<Rightarrow> Inl WrongPassphraseError
            | Some secret \<Rightarrow>
                if length secret \<noteq> SECRETKEYBYTES + PUBLICKEYBYTES then Inr None
                else
                  (let powCounter = jget meta ''powCounter'' in
                   if \<not> is_safe_integer powCounter \<or> int_of powCounter < 0 then Inr None
                   else
                     (let identity = fromKeyPair S (drop SECRETKEYBYTES secret) (take SECRETKEYBYTES secret) (int_of powCounter) in
                      if verifyClaim S (JObj (claim_of identity)) params then Inr (Some identity) else Inr None))))"

definition node_meta :: "node_identity \<Rightarrow> jsval" where
  "node_meta n = JObj [(''powCounter'', jint (nid_powCounter n)), (''peerId'', JStr (nid_peerId n))]"

definition node_save ::
  "vault_lib \<Rightarrow> msgpack \<Rightarrow> (nat \<Rightarrow> nat \<Rightarrow> bytes) \<Rightarrow> int \<Rightarrow> node_identity \<Rightarrow> string \<Rightarrow> vault_params \<Rightarrow> secure_store \<Rightarrow>
   unit st_result" where
  "node_save V M rng now n passphrase vparams st =
     or_throw (sv_seal V (rng 0 16) (rng 1 24) (nid_privkey n @ nid_pubkey n) passphrase vparams) st (\<lambda>sealed.
       saveSealed V M (rng 2 24) now NODE_SLOT sealed (node_meta n) st)"

definition loadOrMine ::
  "sodium \<Rightarrow> vault_lib \<Rightarrow> msgpack \<Rightarrow> (nat \<Rightarrow> nat \<Rightarrow> bytes) \<Rightarrow> int \<Rightarrow> bytes \<Rightarrow> string \<Rightarrow> node_id_pow_params \<Rightarrow> vault_params \<Rightarrow>
   secure_store \<Rightarrow> node_identity st_result" where
  "loadOrMine S V M rng now sk passphrase params vparams st =
     (if passphrase = [] then (Inl RangeError, st)
      else
        or_throw (tryLoad S V M passphrase params st) st (\<lambda>restored.
          case restored of
            Some n \<Rightarrow> (Inr n, st)
          | None \<Rightarrow>
              or_throw (node_mine S sk params) st (\<lambda>n.
                case node_save V M rng now n passphrase vparams st of
                  (Inl e, st') \<Rightarrow> (Inl e, st')
                | (Inr _, st') \<Rightarrow> (Inr n, st'))))"

subsection \<open>The trip of a writer\<close>

record trip_keys =
  tr_public :: bytes
  tr_private :: bytes

type_synonym trip = "trip_keys option"

text \<open>Whether a trip was restored, and the trip.\<close>

definition initTrip :: "vault_lib \<Rightarrow> msgpack \<Rightarrow> string \<Rightarrow> secure_store \<Rightarrow> trip \<Rightarrow> (bool \<times> trip) res" where
  "initTrip V M passphrase st trip =
     rbind (getSealed V M st TRIP_SLOT) (\<lambda>record.
       case record of
         None \<Rightarrow> Inr (False, trip)
       | Some (sealed, _) \<Rightarrow>
           (case sv_open V sealed passphrase of
              None \<Rightarrow> Inr (False, trip)
            | Some secret \<Rightarrow>
                Inr (True, Some \<lparr>tr_public = drop SECRETKEYBYTES secret, tr_private = take SECRETKEYBYTES secret\<rparr>)))"

definition trip_seal ::
  "vault_lib \<Rightarrow> msgpack \<Rightarrow> (nat \<Rightarrow> nat \<Rightarrow> bytes) \<Rightarrow> int \<Rightarrow> trip_keys \<Rightarrow> string \<Rightarrow> vault_params \<Rightarrow> secure_store \<Rightarrow> unit st_result" where
  "trip_seal V M rng now t passphrase vparams st =
     or_throw (sv_seal V (rng 0 16) (rng 1 24) (tr_private t @ tr_public t) passphrase vparams) st (\<lambda>sealed.
       saveSealed V M (rng 2 24) now TRIP_SLOT sealed Undef st)"

text \<open>The new trip is in use even when saving it fails.\<close>

definition generateTrip ::
  "sodium \<Rightarrow> vault_lib \<Rightarrow> msgpack \<Rightarrow> (nat \<Rightarrow> nat \<Rightarrow> bytes) \<Rightarrow> int \<Rightarrow> bytes \<Rightarrow> string \<Rightarrow> vault_params \<Rightarrow> secure_store \<Rightarrow> trip \<Rightarrow>
   unit st_result \<times> trip" where
  "generateTrip S V M rng now sk passphrase vparams st trip =
     (if passphrase = [] then ((Inl RangeError, st), trip)
      else
        (let t = \<lparr>tr_public = sign_pk S sk, tr_private = sk\<rparr> in
         (trip_seal V M rng now t passphrase vparams st, Some t)))"

definition resealTrip ::
  "vault_lib \<Rightarrow> msgpack \<Rightarrow> (nat \<Rightarrow> nat \<Rightarrow> bytes) \<Rightarrow> int \<Rightarrow> string \<Rightarrow> vault_params \<Rightarrow> secure_store \<Rightarrow> trip \<Rightarrow> unit st_result" where
  "resealTrip V M rng now newPassphrase vparams st trip =
     (case trip of
        None \<Rightarrow> (Inl (OtherError ''Identity.resealTrip: no trip loaded''), st)
      | Some t \<Rightarrow>
          if newPassphrase = [] then (Inl RangeError, st)
          else trip_seal V M rng now t newPassphrase vparams st)"

definition deleteTrip :: "secure_store \<Rightarrow> secure_store \<times> trip" where
  "deleteTrip st = (deleteSealed TRIP_SLOT st, None)"

definition sessionDisplay :: "sodium \<Rightarrow> bytes \<Rightarrow> string" where
  "sessionDisplay S pk = btoa (take 4 (sha512 S pk))"

text \<open>Without the mark that comes before it (a character beyond the strings of the model).\<close>

definition tripDisplay :: "sodium \<Rightarrow> trip \<Rightarrow> string" where
  "tripDisplay S trip = (case trip of None \<Rightarrow> [] | Some t \<Rightarrow> btoa (take 5 (sha512 S (tr_public t))))"

subsection \<open>A kept identity comes back\<close>

lemma slots [simp]: "NODE_SLOT \<noteq> DEK_SLOT" "TRIP_SLOT \<noteq> DEK_SLOT" "NODE_SLOT \<noteq> TRIP_SLOT"
  by (simp_all add: NODE_SLOT_def TRIP_SLOT_def DEK_SLOT_def)

lemma saveSealed_Inr:
  assumes "saveSealed V M nonce now slot sealed meta st = (Inr (), st')" "st_db st" "meta \<noteq> Undef"
  obtains dv emeta where "requireVault st = Inr dv" "dv_seal V M dv nonce meta (''identity:'' @ slot) = Inr emeta"
    "st' = put_identity slot (sealed_row now sealed (Some emeta)) st" "slot \<noteq> DEK_SLOT"
  using assms by (auto simp: saveSealed_def or_throw_Inr split: if_splits)

lemma getSealed_saved:
  assumes "saveSealed V M nonce now slot sealed meta st = (Inr (), st')" "st_db st" "meta \<noteq> Undef" "meta \<noteq> Null"
    "vault_law V" "length nonce = 24" "mp_roundtrip M meta"
  shows "getSealed V M st' slot = Inr (Some (sealed, meta)) \<and> st_db st'"
proof -
  obtain dv emeta where s: "requireVault st = Inr dv" "dv_seal V M dv nonce meta (''identity:'' @ slot) = Inr emeta"
    "st' = put_identity slot (sealed_row now sealed (Some emeta)) st" "slot \<noteq> DEK_SLOT"
    using saveSealed_Inr [OF assms(1-3)] by metis
  have r: "requireVault st' = Inr dv" using s(1) by (simp add: s(3) requireVault_def)
  show ?thesis using dv_open_seal [OF assms(5,6,7) s(2)] assms(2,4) s(4)
    unfolding getSealed_def r by (simp add: s(3) sealed_row_def)
qed

lemma loadOrMine_again:
  assumes first: "loadOrMine S V M rng now sk p params vparams st = (Inr n, st')"
    and laws: "vault_law V" "msgpack_law M" "rng_ok rng" "params_ok vparams" "sha256_law S" "sign_law S"
    and "length sk = SECRETKEYBYTES" "st_db st"
  shows "loadOrMine S V M rng' now' sk' p params vparams' st' = (Inr n, st')"
proof -
  have p: "p \<noteq> []" using first by (auto simp: loadOrMine_def split: if_splits)
  obtain restored where t: "tryLoad S V M p params st = Inr restored"
    using first p by (auto simp: loadOrMine_def or_throw_Inr)
  show ?thesis
  proof (cases restored)
    case (Some n')
    then show ?thesis using first t p by (simp add: loadOrMine_def)
  next
    case None
    obtain n' where m: "mine S sk params = Some n'" and nm: "node_mine S sk params = Inr n'"
      using first t p None by (auto simp: loadOrMine_def node_mine_def or_throw_Inr split: option.splits)
    obtain r st1 where sv: "node_save V M rng now n' p vparams st = (r, st1)" by force
    have n: "n' = n" "r = Inr ()" "st1 = st'"
      using first t p None nm sv by (auto simp: loadOrMine_def split: sum.splits)
    let ?secret = "nid_privkey n @ nid_pubkey n"
    obtain sealed where s: "sv_seal V (rng 0 16) (rng 1 24) ?secret p vparams = Inr sealed" "sv_open V sealed p = Some ?secret"
      using sv_open_seal [OF laws(1) rng_okD [OF laws(3)] rng_okD [OF laws(3)] laws(4)] by metis
    have save: "saveSealed V M (rng 2 24) now NODE_SLOT sealed (node_meta n) st = (Inr (), st')"
      using sv n s(1) by (simp add: node_save_def)
    have meta: "node_meta n \<noteq> Undef" "node_meta n \<noteq> Null" "mp_roundtrip M (node_meta n)"
      using laws(2) by (simp_all add: node_meta_def msgpack_law_def)
    note g = getSealed_saved [OF save assms(9) meta(1,2) laws(1) rng_okD [OF laws(3)] meta(3)]
    obtain c where c: "solveNodeIdPow S (sign_pk S sk) params = Some c" "n = fromKeyPair S (sign_pk S sk) sk c"
      using m n(1) by (auto simp: mine_def split: option.splits)
    have keys: "nid_privkey n = sk" "nid_pubkey n = sign_pk S sk" "nid_powCounter n = c" "length (sign_pk S sk) = 32"
      using c(2) laws(6) by (simp_all add: fromKeyPair_def Let_def sign_lawD)
    have v: "verifyClaim S (JObj (claim_of n)) params"
      using verifyClaim_complete [OF laws(5,6)] m n(1) by (simp add: claim_of_def)
    have "tryLoad S V M p params st' = Inr (Some n)"
      using g s(2) keys assms(8) v solveNodeIdPow_Some [OF c(1)] c(2) [symmetric]
      by (simp add: tryLoad_def node_meta_def)
    then show ?thesis using p by (simp add: loadOrMine_def)
  qed
qed

text \<open>an identity that was mined and kept, or restored, is restored by every later start with the same passphrase,
  whatever the time and the random bytes, and the store stays as it is.\<close>

theorem kept_identity_comes_back:
  assumes "loadOrMine S V M rng now sk p params vparams st = (Inr n, st')"
    "vault_law V" "msgpack_law M" "rng_ok rng" "params_ok vparams" "sha256_law S" "sign_law S"
    "length sk = SECRETKEYBYTES" "st_db st"
  shows "loadOrMine S V M rng' now' sk' p params vparams' st' = (Inr n, st')"
  using assms by (rule loadOrMine_again)

text \<open>a passphrase that does not open the kept identity ends the start with the exception of a wrong passphrase: no
  new identity is mined, and the store (and so the kept identity) stays as it is.\<close>

theorem wrong_passphrase_keeps_identity:
  assumes "getSealed V M st NODE_SLOT = Inr (Some (sealed, meta))" "sv_open V sealed p = None" "p \<noteq> []"
  shows "loadOrMine S V M rng now sk p params vparams st = (Inl WrongPassphraseError, st)"
  using assms by (simp add: loadOrMine_def tryLoad_def)

lemma trip_seal_restores:
  assumes "trip_seal V M rng now t p vparams st = (Inr (), st')" "vault_law V" "rng_ok rng" "params_ok vparams" "st_db st"
    "length (tr_private t) = SECRETKEYBYTES"
  shows "initTrip V M p st' trip = Inr (True, Some t)"
proof -
  let ?secret = "tr_private t @ tr_public t"
  obtain sealed where s: "sv_seal V (rng 0 16) (rng 1 24) ?secret p vparams = Inr sealed" "sv_open V sealed p = Some ?secret"
    using sv_open_seal [OF assms(2) rng_okD [OF assms(3)] rng_okD [OF assms(3)] assms(4)] by metis
  have st': "st' = put_identity TRIP_SLOT (sealed_row now sealed None) st"
    using assms(1,5) s(1) by (simp add: trip_seal_def saveSealed_def)
  show ?thesis using s(2) assms(5,6) by (simp add: initTrip_def getSealed_def st' sealed_row_def)
qed

text \<open>a trip generated or sealed anew under a passphrase is the trip that a later start with this passphrase restores.\<close>

theorem trip_comes_back:
  assumes "generateTrip S V M rng now sk p vparams st trip = ((Inr (), st1), Some t)"
    "resealTrip V M rng' now' q vparams' st1 (Some t) = (Inr (), st2)"
    "vault_law V" "rng_ok rng" "params_ok vparams" "rng_ok rng'" "params_ok vparams'" "st_db st" "st_db st1"
    "length sk = SECRETKEYBYTES"
  shows "tr_private t = sk \<and> initTrip V M p st1 trip1 = Inr (True, Some t) \<and> initTrip V M q st2 trip2 = Inr (True, Some t)"
proof -
  have t: "t = \<lparr>tr_public = sign_pk S sk, tr_private = sk\<rparr>" and 1: "trip_seal V M rng now t p vparams st = (Inr (), st1)"
    using assms(1) by (auto simp: generateTrip_def Let_def split: if_splits)
  have 2: "trip_seal V M rng' now' t q vparams' st1 = (Inr (), st2)"
    using assms(2) by (simp add: resealTrip_def split: if_splits)
  show ?thesis
    using trip_seal_restores [OF 1 assms(3,4,5,8)] trip_seal_restores [OF 2 assms(3,6,7,9)] assms(10) t by simp
qed

subsection \<open>Starting a node\<close>

text \<open>The part of \<open>AetherNode.create\<close> and \<open>wire\<close> (\<open>node/AetherNode.ts\<close>) that opens the data of the device: unlocking, the
  identity of the node, the trip. Whatever fails after unlocking locks the store again.\<close>

definition node_open ::
  "sodium \<Rightarrow> vault_lib \<Rightarrow> msgpack \<Rightarrow> (nat \<Rightarrow> nat \<Rightarrow> bytes) \<Rightarrow> (nat \<Rightarrow> nat \<Rightarrow> bytes) \<Rightarrow> int \<Rightarrow> bytes \<Rightarrow> bool \<Rightarrow> string \<Rightarrow>
   vault_params \<Rightarrow> secure_store \<Rightarrow> (node_identity \<times> trip) st_result" where
  "node_open S V M rng rng' now sk persistent passphrase vparams st =
     (if passphrase = [] then (Inl RangeError, st)
      else
        (case unlock V M rng now passphrase vparams (st_init st) of
           (Inl e, st1) \<Rightarrow> (Inl e, st1)
         | (Inr _, st1) \<Rightarrow>
             (case (if persistent then loadOrMine S V M rng' now sk passphrase NODE_ID_POW VAULT_PARAMS st1
                    else mineEphemeral S V M sk NODE_ID_POW st1) of
                (Inl e, st2) \<Rightarrow> (Inl e, st_lock st2)
              | (Inr n, st2) \<Rightarrow>
                  (case initTrip V M passphrase st2 None of
                     Inl e \<Rightarrow> (Inl e, st_lock st2)
                   | Inr (_, trip) \<Rightarrow> (Inr (n, trip), st2)))))"

lemma getSealed_cong:
  assumes "jm_get (dk_identity (st_disk a)) slot = jm_get (dk_identity (st_disk b)) slot" "st_vault a = st_vault b" "st_db a = st_db b"
  shows "getSealed V M a slot = getSealed V M b slot"
  unfolding getSealed_def requireVault_def assms by (rule refl)

text \<open>What follows from sealing the identity under the passphrase itself, and not under the data key.\<close>

lemma stranded:
  assumes "vault_law V" "rng_ok rng" "params_ok params" "q \<noteq> []"
    "dek_sealed (st_disk st) = Some sealed" "dv_unwrap V sealed p = Inr dv" "migrated (st_disk st)"
    "changePassphrase V rng now p q params st = (r, st')"
    "getSealed V M (st\<lparr>st_db := True, st_vault := Some dv\<rparr>) NODE_SLOT = Inr (Some (key, meta))" "sv_open V key q = None"
  shows "r = Inr () \<and>
    node_open S V M rng1 rng2 now' sk True q params (st_lock st') = (Inl WrongPassphraseError, st_lock (st_init st'))"
proof -
  obtain sealed' where c: "r = Inr ()" "st' = put_identity DEK_SLOT (sealed_row now sealed' None) (st_init st)"
    and u: "dv_unwrap V sealed' q = Inr dv"
    using changePassphrase_keeps [OF assms(1-6), of now] assms(8) by auto
  let ?st = "st_init (st_lock st')"
  have d: "st_disk st' = (st_disk st)\<lparr>dk_identity := jm_set DEK_SLOT (sealed_row now sealed' None) (dk_identity (st_disk st))\<rparr>"
    by (simp add: c(2) st_init_def)
  have m: "migrated (st_disk ?st)" using assms(7) by (simp add: d st_lock_def st_init_def migrated_def key_kept_def)
  have k: "dek_sealed (st_disk ?st) = Some sealed'" by (simp add: d st_lock_def st_init_def dek_sealed_def sealed_row_def)
  have l: "\<not> isUnlocked ?st" by (simp add: isUnlocked_def st_lock_def st_init_def)
  let ?open = "(st_init ?st)\<lparr>st_vault := Some dv\<rparr>"
  have ul: "unlock V M rng1 now' q params ?st = (Inr (), ?open)" by (rule unlock_migrated [OF k u m l])
  have "jm_get (dk_identity (st_disk ?open)) NODE_SLOT = jm_get (dk_identity (st_disk st)) NODE_SLOT"
    by (simp add: st_init_def st_lock_def d)
  then have "getSealed V M ?open NODE_SLOT = Inr (Some (key, meta))"
    using assms(9) getSealed_cong [of ?open NODE_SLOT "st\<lparr>st_db := True, st_vault := Some dv\<rparr>"] by (simp add: st_init_def)
  then have "loadOrMine S V M rng2 now' sk q NODE_ID_POW VAULT_PARAMS ?open = (Inl WrongPassphraseError, ?open)"
    using assms(4,10) by (simp add: loadOrMine_def tryLoad_def)
  then show ?thesis using c(1) assms(4) by (simp add: node_open_def ul) (simp add: st_lock_def st_init_def)
qed

text \<open>C36: changing the passphrase wraps only the data key: the identity of the node stays sealed under the old one, so a node
  that keeps its identity does not start with the new passphrase any more, although the change succeeded.\<close>

theorem passphrase_change_strands_identity:
  assumes "vault_law V" "rng_ok rng" "params_ok params" "q \<noteq> []"
    "dek_sealed (st_disk st) = Some sealed" "dv_unwrap V sealed p = Inr dv" "migrated (st_disk st)"
    "changePassphrase V rng now p q params st = (r, st')"
    "getSealed V M (st\<lparr>st_db := True, st_vault := Some dv\<rparr>) NODE_SLOT = Inr (Some (key, meta))" "sv_open V key q = None"
  shows "r = Inr () \<and>
    node_open S V M rng1 rng2 now' sk True q params (st_lock st') = (Inl WrongPassphraseError, st_lock (st_init st'))"
  using assms by (rule stranded)

subsection \<open>Concrete inputs\<close>

definition toy_sk :: bytes where "toy_sk = replicate 64 3"

lemma toy_started:
  "\<exists>n st'. loadOrMine toy_sodium toy_vault count_msgpack toy_rng 0 toy_sk ''pw'' NODE_ID_POW VAULT_PARAMS toy_store = (Inr n, st')"
proof -
  have t: "tryLoad toy_sodium toy_vault count_msgpack ''pw'' NODE_ID_POW toy_store = Inr None"
    by (simp add: tryLoad_def getSealed_def toy_store_def toy_disk_def NODE_SLOT_def)
  let ?n = "fromKeyPair toy_sodium (sign_pk toy_sodium toy_sk) toy_sk 0"
  obtain sealed where s: "sv_seal toy_vault (toy_rng 0 16) (toy_rng 1 24) (nid_privkey ?n @ nid_pubkey ?n) ''pw'' VAULT_PARAMS = Inr sealed"
    using sv_open_seal [OF toy_vault_law rng_okD [OF toy_rng_ok] rng_okD [OF toy_rng_ok] params_ok_defaults(1)] by metis
  have v: "requireVault toy_store = Inr toy_dv" by (simp add: requireVault_def toy_store_def)
  obtain emeta where e: "dv_seal toy_vault count_msgpack toy_dv (toy_rng 2 24) (node_meta ?n) (''identity:'' @ NODE_SLOT) = Inr emeta"
    using dv_seal_Inr [OF toy_dv_open] by blast
  have db: "st_db toy_store" by (simp add: toy_store_def)
  have "node_save toy_vault count_msgpack toy_rng 0 ?n ''pw'' VAULT_PARAMS toy_store =
      (Inr (), put_identity NODE_SLOT (sealed_row 0 sealed (Some emeta)) toy_store)"
    unfolding node_save_def s or_throw_simps saveSealed_def v e using db by (simp add: node_meta_def)
  then show ?thesis by (simp add: loadOrMine_def t node_mine_def toy_mine)
qed

theorem kept_identity_comes_back_witness:
  "\<exists>n st'. loadOrMine toy_sodium toy_vault count_msgpack toy_rng 9 [] ''pw'' NODE_ID_POW VAULT_PARAMS st' = (Inr n, st')"
proof -
  obtain n st' where l: "loadOrMine toy_sodium toy_vault count_msgpack toy_rng 0 toy_sk ''pw'' NODE_ID_POW VAULT_PARAMS toy_store = (Inr n, st')"
    using toy_started by blast
  show ?thesis
    using kept_identity_comes_back [OF l toy_vault_law count_msgpack_law toy_rng_ok params_ok_defaults(1) toy_laws(1,2)]
    by (intro exI [of _ n] exI [of _ st']) (simp add: toy_sk_def toy_store_def)
qed

text \<open>A store whose node key is sealed under the passphrase \<open>pw\<close> with no data beside it.\<close>

definition toy_kept :: secure_store where
  "toy_kept = \<lparr>st_db = True, st_vault = None, st_disk = empty_disk\<lparr>dk_identity :=
     [(DEK_SLOT, sealed_row 0 toy_sealed_dek None), (NODE_SLOT, sealed_row 0 toy_sealed_dek None)]\<rparr>\<rparr>"

lemma toy_kept_facts:
  "dek_sealed (st_disk toy_kept) = Some toy_sealed_dek" "migrated (st_disk toy_kept)"
  "getSealed toy_vault count_msgpack (toy_kept\<lparr>st_db := True, st_vault := dv\<rparr>) NODE_SLOT = Inr (Some (toy_sealed_dek, Undef))"
  by (auto simp: toy_kept_def dek_sealed_def sealed_row_def migrated_def empty_disk_def rows_of_def key_kept_def
      getSealed_def NODE_SLOT_def toy_sealed_dek_def DEK_SLOT_def)

theorem wrong_passphrase_keeps_identity_witness:
  "loadOrMine toy_sodium toy_vault count_msgpack toy_rng 0 toy_sk ''no'' NODE_ID_POW VAULT_PARAMS
     (toy_kept\<lparr>st_db := True, st_vault := None\<rparr>) = (Inl WrongPassphraseError, toy_kept\<lparr>st_db := True, st_vault := None\<rparr>)"
  by (rule wrong_passphrase_keeps_identity [OF toy_kept_facts(3) toy_wrong]) simp

theorem passphrase_change_strands_identity_witness:
  "fst (changePassphrase toy_vault toy_rng 0 ''pw'' ''no'' VAULT_PARAMS toy_kept) = Inr ()"
  using passphrase_change_strands_identity [OF toy_vault_law toy_rng_ok params_ok_defaults(1) _ toy_kept_facts(1) toy_unwrap
      toy_kept_facts(2) prod.collapse [symmetric] toy_kept_facts(3) toy_wrong] by simp

lemma toy_trip_seal:
  assumes "rng_ok rng" "st_db st"
  shows "\<exists>st'. trip_seal toy_vault count_msgpack rng 0 t p VAULT_PARAMS st = (Inr (), st') \<and> st_db st'"
proof -
  obtain sealed where "sv_seal toy_vault (rng 0 16) (rng 1 24) (tr_private t @ tr_public t) p VAULT_PARAMS = Inr sealed"
    using sv_open_seal [OF toy_vault_law rng_okD [OF assms(1)] rng_okD [OF assms(1)] params_ok_defaults(1)] by metis
  then show ?thesis using assms(2) by (auto simp: trip_seal_def saveSealed_def)
qed

theorem trip_comes_back_witness:
  "\<exists>st1 t. tr_private t = toy_sk \<and> initTrip toy_vault count_msgpack ''pw'' st1 None = Inr (True, Some t)"
proof -
  let ?t = "\<lparr>tr_public = sign_pk toy_sodium toy_sk, tr_private = toy_sk\<rparr>"
  have db: "st_db toy_store" by (simp add: toy_store_def)
  obtain st1 where 1: "trip_seal toy_vault count_msgpack toy_rng 0 ?t ''pw'' VAULT_PARAMS toy_store = (Inr (), st1)" "st_db st1"
    using toy_trip_seal [OF toy_rng_ok db] by blast
  obtain st2 where 2: "trip_seal toy_vault count_msgpack toy_rng 0 ?t ''q'' VAULT_PARAMS st1 = (Inr (), st2)"
    using toy_trip_seal [OF toy_rng_ok 1(2)] by blast
  have g: "generateTrip toy_sodium toy_vault count_msgpack toy_rng 0 toy_sk ''pw'' VAULT_PARAMS toy_store None = ((Inr (), st1), Some ?t)"
    using 1 by (simp add: generateTrip_def)
  have r: "resealTrip toy_vault count_msgpack toy_rng 0 ''q'' VAULT_PARAMS st1 (Some ?t) = (Inr (), st2)"
    using 2 by (simp add: resealTrip_def)
  have len: "length toy_sk = SECRETKEYBYTES" by (simp add: toy_sk_def)
  show ?thesis
    using trip_comes_back [OF g r toy_vault_law toy_rng_ok params_ok_defaults(1) toy_rng_ok params_ok_defaults(1) db 1(2) len] by blast
qed

end
