(* ===== verification/PeerSafety.thy ===== *)
theory PeerSafety
  imports PeerManager
begin

text \<open>
  What the peer manager guarantees: bounds on connections in handshake and on buffered signals, the
  binding of every trusted neighbour to its key, who can make a neighbour trusted, what relays and
  untrusted connections cannot do, and what eviction leaves alone. Each property is first shown for the
  primitive state changes, then for every operation.
\<close>

subsection \<open>Counting entries of a map\<close>

lemma length_filter_jm_set:
  "length (filter (\<lambda>(_, w). P w) (jm_set k v m)) \<le> length (filter (\<lambda>(_, w). P w) m) + (if P v then 1 else 0)"
  by (induction m) auto

lemma length_filter_jm_replace:
  assumes "jm_get m k = Some w" "P v \<longrightarrow> P w"
  shows "length (filter (\<lambda>(_, w). P w) (jm_set k v m)) \<le> length (filter (\<lambda>(_, w). P w) m)"
  using assms by (induction m) (auto split: if_splits)

lemma length_filter_jm_del:
  "length (filter (\<lambda>(_, w). P w) (jm_del k m)) \<le> length (filter (\<lambda>(_, w). P w) m)"
  by (induction m) auto

subsection \<open>The invariant\<close>

text \<open>A trusted connection carries a public key whose hash is the identifier it is listed under.\<close>

definition bound_identity :: "pm_config \<Rightarrow> peer_id \<Rightarrow> wpeer \<Rightarrow> bool" where
  "bound_identity c p w \<longleftrightarrow>
     (wp_verified w \<longrightarrow> (\<exists>pk. wp_pubkey w = Some pk \<and> derivePeerId (pc_S c) pk = p))"

definition peers_ok :: "pm_config \<Rightarrow> nat \<Rightarrow> (peer_id, wpeer) jsmap \<Rightarrow> bool" where
  "peers_ok c n ps \<longleftrightarrow>
     jm_wf ps \<and>
     (\<forall>(p, w) \<in> set ps. is_peer_id p \<and> p \<noteq> my_peer_id c \<and> wp_conn w < n \<and> bound_identity c p w) \<and>
     length (filter (\<lambda>(_, w). \<not> wp_verified w) ps) \<le> MAX_PENDING_PEERS"

definition signals_ok :: "(peer_id, jsval list) jsmap \<Rightarrow> bool" where
  "signals_ok ps \<longleftrightarrow>
     jm_wf ps \<and> length ps \<le> MAX_SIGNAL_SENDERS \<and> (\<forall>(_, b) \<in> set ps. length b \<le> MAX_SIGNALS_PER_SENDER)"

definition pm_ok :: "pm_config \<Rightarrow> peer_manager \<Rightarrow> bool" where
  "pm_ok c s \<longleftrightarrow>
     peers_ok c (pm_next s) (pm_peers s) \<and> signals_ok (pm_pendingSignals s) \<and> length (pm_seenGroups s) \<le> 1024"

lemma pm_okI:
  "\<lbrakk>pm_ok c s; pm_next s' = pm_next s; pm_peers s' = pm_peers s; pm_pendingSignals s' = pm_pendingSignals s;
    pm_seenGroups s' = pm_seenGroups s\<rbrakk> \<Longrightarrow> pm_ok c s'"
  by (simp add: pm_ok_def)

lemma pm_init_ok [wf_intro]: "pm_ok c pm_init"
  by (simp add: pm_ok_def pm_init_def peers_ok_def signals_ok_def)

lemma pm_ok_fields [simp]:
  "pm_ok c (s\<lparr>pm_coolDowns := x\<rparr>) = pm_ok c s" "pm_ok c (s\<lparr>pm_misbehavior := m\<rparr>) = pm_ok c s"
  "pm_ok c (s\<lparr>pm_limiter := l\<rparr>) = pm_ok c s" "pm_ok c (s\<lparr>pm_detach := b\<rparr>) = pm_ok c s"
  "pm_ok c (s\<lparr>pm_stopped := b\<rparr>) = pm_ok c s" "pm_ok c (s\<lparr>pm_reannounce := b\<rparr>) = pm_ok c s"
  "pm_ok c (s\<lparr>pm_pexRoutes := r\<rparr>) = pm_ok c s"
  by (simp_all add: pm_ok_def)

lemma peers_ok_entry:
  assumes "peers_ok c n ps" "jm_get ps p = Some w"
  shows "is_peer_id p" "p \<noteq> my_peer_id c" "wp_conn w < n" "bound_identity c p w"
  using assms jm_get_in_set [OF assms(2)] by (auto simp: peers_ok_def)

lemma peers_ok_del [wf_intro]: "peers_ok c n ps \<Longrightarrow> peers_ok c n (jm_del p ps)"
  using length_filter_jm_del [of "\<lambda>w. \<not> wp_verified w" p ps] by (auto simp: peers_ok_def set_jm_del)

lemma peers_ok_replace:
  assumes "peers_ok c n ps" "jm_get ps p = Some w" "wp_conn v = wp_conn w" "wp_verified w \<longrightarrow> wp_verified v"
    "bound_identity c p v"
  shows "peers_ok c n (jm_set p v ps)"
  using assms peers_ok_entry [OF assms(1,2)] length_filter_jm_replace [of ps p w "\<lambda>w. \<not> wp_verified w" v]
  by (auto simp: peers_ok_def dest!: jm_set_in)

lemma signals_ok_del [wf_intro]: "signals_ok ps \<Longrightarrow> signals_ok (jm_del p ps)"
  by (auto simp: signals_ok_def length_jm_del set_jm_del)

lemma disconnect_ok [wf_intro]: "pm_ok c s \<Longrightarrow> pm_ok c (snd (pm_disconnect p s))"
  by (auto simp: pm_disconnect_def pm_ok_def intro: wf_intro split: option.split)

lemma banned_now_simps [simp]:
  "pm_ok c (snd (banned_now now p s)) = pm_ok c s"
  "pm_peers (snd (banned_now now p s)) = pm_peers s" "pm_stopped (snd (banned_now now p s)) = pm_stopped s"
  "pm_pendingSignals (snd (banned_now now p s)) = pm_pendingSignals s"
  by (simp_all add: banned_now_def pm_ok_def split: prod.split)

lemma update_conn_ok:
  assumes "pm_ok c s" "\<And>w. wp_conn (f w) = wp_conn w \<and> wp_verified (f w) = wp_verified w \<and> wp_pubkey (f w) = wp_pubkey w"
  shows "pm_ok c (update_conn p conn f s)"
proof (cases "jm_get (pm_peers s) p")
  case (Some w)
  have "bound_identity c p (f w)"
    using peers_ok_entry(4) [OF _ Some] assms by (auto simp: bound_identity_def pm_ok_def)
  then show ?thesis using assms Some peers_ok_replace [of c "pm_next s" "pm_peers s" p w "f w"]
    by (simp add: update_conn_def pm_ok_def)
qed (simp add: update_conn_def assms)

lemma open_fresh_ok:
  assumes "pm_ok c s" "is_peer_id p" "p \<noteq> my_peer_id c" "jm_get (pm_peers s) p = None"
  shows "pm_ok c (snd (snd (open_fresh p i via s)))"
proof (cases "pendingCount s \<ge> MAX_PENDING_PEERS")
  case False
  let ?w = "wp_new (pm_next s) i"
  have "peers_ok c (pm_next s + 1) (jm_set p ?w (pm_peers s))"
    using assms False length_filter_jm_set [of "\<lambda>w. \<not> wp_verified w" p ?w "pm_peers s"]
    by (auto simp: pm_ok_def peers_ok_def pendingCount_def bound_identity_def wp_new_def dest!: jm_set_in)
  then show ?thesis using assms(1) False by (simp add: open_fresh_def pm_ok_def Let_def)
qed (simp add: open_fresh_def assms)

lemma open_connection_ok:
  assumes "pm_ok c s" "is_peer_id p" "p \<noteq> my_peer_id c" "jm_get (pm_peers s) p = None"
  shows "pm_ok c (snd (snd (open_connection now p i via s)))"
  using assms by (auto simp: open_connection_def intro!: open_fresh_ok split: option.split)

lemma disconnect_get: "jm_get (pm_peers (snd (pm_disconnect p s))) q = (if q = p then None else jm_get (pm_peers s) q)"
  by (auto simp: pm_disconnect_def split: option.split)

lemma connect_ok [wf_intro]: "pm_ok c s \<Longrightarrow> pm_ok c (snd (snd (connect c now p i via s)))"
  by (auto simp: connect_def split_def Let_def disconnect_get intro!: open_connection_ok disconnect_ok split: option.split)

lemma tracker_loop_ok [wf_intro]: "pm_ok c s \<Longrightarrow> pm_ok c (snd (handleTrackerPeers_loop c now vs s))"
proof (induction vs arbitrary: s)
  case (Cons v vs)
  then show ?case using connect_ok [OF Cons.prems, of now _ True None]
    by (auto simp: split_def Let_def split: jsval.split)
qed simp

lemma buffer_push_ok [wf_intro]:
  assumes "pm_ok c s"
  shows "pm_ok c (buffer_push p msg s)"
proof -
  let ?ps = "pm_pendingSignals s"
  define b where "b = (case jm_get ?ps p of None \<Rightarrow> [] | Some b \<Rightarrow> b)"
  define qs where "qs = (if \<not> jm_has ?ps p \<and> length ?ps \<ge> MAX_SIGNAL_SENDERS then jm_drop_oldest ?ps else ?ps)"
  have ok: "signals_ok ?ps" using assms by (simp add: pm_ok_def)
  then have wf: "jm_wf qs" "length qs \<le> MAX_SIGNAL_SENDERS" "\<forall>(_, b) \<in> set qs. length b \<le> MAX_SIGNALS_PER_SENDER"
    by (auto simp: qs_def signals_ok_def jm_drop_oldest_tl dest: list.set_sel(2) split: prod.splits)
      (metis case_prodD list.sel(2) list.set_sel(2))+
  have room: "length qs < MAX_SIGNAL_SENDERS" if "\<not> jm_has qs p"
    using that ok by (auto simp: qs_def signals_ok_def jm_drop_oldest_tl)
  have "signals_ok (jm_set p (b @ [msg]) qs)" if "length b < MAX_SIGNALS_PER_SENDER"
    using wf that room by (auto simp: signals_ok_def length_jm_set dest!: jm_set_in)
  then show ?thesis using assms
    unfolding buffer_push_def Let_def b_def [symmetric] qs_def [symmetric] by (simp add: pm_ok_def not_le)
qed

lemma buffer_signal_ok [wf_intro]: "pm_ok c s \<Longrightarrow> pm_ok c (buffer_signal now p msg s)"
  by (auto simp: buffer_signal_def intro: wf_intro split: option.split)

lemma pm_ok_del_signals: "pm_ok c s \<Longrightarrow> pm_ok c (s\<lparr>pm_pendingSignals := jm_del p (pm_pendingSignals s)\<rparr>)"
  by (simp add: pm_ok_def signals_ok_del)

lemma relay_signal_ok [wf_intro]: "pm_ok c s \<Longrightarrow> pm_ok c (snd (relay_signal c now p msg via s))"
  using connect_ok [of c s now p False via]
  by (auto simp: relay_signal_def intro: buffer_signal_ok pm_ok_del_signals split: option.split prod.split)

lemma handleRelay_ok [wf_intro]: "pm_ok c s \<Longrightarrow> pm_ok c (snd (handleRelay c now p msg via s))"
  by (auto simp: handleRelay_def split_def Let_def intro!: relay_signal_ok disconnect_ok split: option.split bool.split)

lemma on_relay_message_ok [wf_intro]: "pm_ok c s \<Longrightarrow> pm_ok c (snd (on_relay_message c now p t msg s))"
  by (auto simp: on_relay_message_def intro: handleRelay_ok split: jsval.split)

lemma verifySignedClaim_binds:
  assumes "verifySignedClaim S claim ch b params" "jget claim ''peerId'' = JStr p"
  shows "derivePeerId S (bytes_of (jget claim ''pubkey'')) = p"
  using signed_claim_proof [OF assms(1)] assms(2) by (auto simp: bytes_of_def)

text \<open>The only way to become trusted.\<close>

definition join_accepted :: "pm_config \<Rightarrow> peer_id \<Rightarrow> jsval \<Rightarrow> wpeer \<Rightarrow> jsval \<Rightarrow> bool" where
  "join_accepted c p msg w claim \<longleftrightarrow>
     \<not> wp_verified w \<and> join_claim msg = Inr claim \<and> jget claim ''peerId'' = JStr p \<and>
     (\<exists>expected. wp_challenge w = Some expected \<and>
        verifySignedClaim (pc_S c) claim expected
          \<lparr>verifierId = my_peer_id c, signerFingerprint = snd (dtlsFingerprints w),
           verifierFingerprint = fst (dtlsFingerprints w)\<rparr> (pc_pow c)) \<and>
     fingerprintsUsable c (dtlsFingerprints w)"

lemma handleJoin_cases:
  obtains "handleJoin c now p msg s = ([], s)"
  | "handleJoin c now p msg s = pm_disconnect p s" "\<not> peer_verified p s"
  | w claim where "jm_get (pm_peers s) p = Some w" "join_accepted c p msg w claim"
    "handleJoin c now p msg s = ([PeerVerified p, ResolveGroup p (wp_conn w)],
       s\<lparr>pm_peers := jm_set p (markVerified now (bytes_of (jget claim ''pubkey'')) (int_of (jget claim ''powCounter'')) w) (pm_peers s)\<rparr>)"
proof (cases "jm_get (pm_peers s) p")
  case None
  then show thesis by (intro that(1)) (simp add: handleJoin_def)
next
  case (Some w)
  show thesis
  proof (cases "wp_verified w \<or> wp_challenge w = None \<or> (\<exists>e. join_claim msg = Inl e)")
    case True
    then show thesis using Some by (intro that(1)) (auto simp: handleJoin_def split: option.split)
  next
    case False
    then obtain ch claim where c: "\<not> wp_verified w" "wp_challenge w = Some ch" "join_claim msg = Inr claim"
      by (cases "join_claim msg") auto
    show thesis
    proof (cases "join_accepted c p msg w claim")
      case True
      then show thesis using Some c by (intro that(3) [OF Some True]) (auto simp: handleJoin_def join_accepted_def Let_def)
    next
      case False
      then show thesis using Some c
        by (intro that(2)) (auto simp: handleJoin_def join_accepted_def Let_def peer_verified_def)
    qed
  qed
qed

lemma handleJoin_ok [wf_intro]:
  assumes "pm_ok c s"
  shows "pm_ok c (snd (handleJoin c now p msg s))"
proof (cases rule: handleJoin_cases [of c now p msg s])
  case (3 w claim)
  have "bound_identity c p (markVerified now (bytes_of (jget claim ''pubkey'')) (int_of (jget claim ''powCounter'')) w)"
    using 3(2) verifySignedClaim_binds by (auto simp: bound_identity_def markVerified_def join_accepted_def)
  then show ?thesis using assms 3(1,3) peers_ok_replace
    by (auto simp: pm_ok_def markVerified_def intro!: peers_ok_replace)
qed (use assms disconnect_ok in simp_all)

lemma rebalance_loop_ok [wf_intro]: "pm_ok c s \<Longrightarrow> pm_ok c (snd (rebalance_loop n c now newcomer s))"
proof (induction n arbitrary: s)
  case (Suc n)
  then show ?case by (auto simp: Let_def split_def intro!: Suc.IH disconnect_ok split: option.split)
qed simp

lemma noteGroup_ok [wf_intro]: "pm_ok c s \<Longrightarrow> pm_ok c (noteGroup g s)"
  by (auto simp: noteGroup_def pm_ok_def js_add_def)

lemma group_resolved_ok [wf_intro]: "pm_ok c s \<Longrightarrow> pm_ok c (snd (group_resolved c now p conn g s))"
  by (auto simp: group_resolved_def rebalance_def intro!: rebalance_loop_ok noteGroup_ok update_conn_ok)

lemma own_handlers_ok [wf_intro]: "pm_ok c s \<Longrightarrow> pm_ok c (snd (own_handlers c now p t v s))"
  by (auto simp: own_handlers_def intro: handleJoin_ok on_relay_message_ok split: wire_type.split)

lemma handleData_ok [wf_intro]: "pm_ok c s \<Longrightarrow> pm_ok c (snd (handleData c now p bs s))"
  by (auto simp: handleData_def split_def Let_def intro!: disconnect_ok own_handlers_ok)

lemma disconnect_all_ok [wf_intro]: "pm_ok c s \<Longrightarrow> pm_ok c (snd (disconnect_all ps s))"
proof (induction ps arbitrary: s)
  case (Cons p ps)
  then show ?case by (auto simp: split_def Let_def intro!: Cons.IH disconnect_ok)
qed simp

lemma stop_ok [wf_intro]: "pm_ok c s \<Longrightarrow> pm_ok c (snd (pm_stop s))"
proof -
  assume "pm_ok c s"
  then have "pm_ok c (s\<lparr>pm_stopped := True, pm_reannounce := False, pm_detach := False, pm_pendingSignals := []\<rparr>)"
    by (simp add: pm_ok_def signals_ok_def)
  from disconnect_all_ok [OF this] show ?thesis by (simp add: pm_stop_def split_def Let_def)
qed

lemma callbacks_ok [wf_intro]:
  assumes "pm_ok c s"
  shows "pm_ok c (snd (onConnect c p conn ch s))" "pm_ok c (snd (onDisconnect p conn s))"
    "pm_ok c (snd (connect_timeout p conn s))" "pm_ok c (snd (handshake_timeout p conn s))"
    "pm_ok c (local_offer p conn sdp s)" "pm_ok c (run_signal p conn ok answer msg s)"
proof -
  show "pm_ok c (snd (onConnect c p conn ch s))" using assms
    by (auto simp: onConnect_def Let_def setChallenge_def channel_open_def intro!: update_conn_ok)
  show "pm_ok c (snd (onDisconnect p conn s))" using assms
    by (auto simp: onDisconnect_def Let_def channel_closed_def intro!: disconnect_ok update_conn_ok)
  show "pm_ok c (snd (connect_timeout p conn s))" "pm_ok c (snd (handshake_timeout p conn s))"
    using assms by (auto simp: connect_timeout_def handshake_timeout_def intro: disconnect_ok split: option.split)
  show "pm_ok c (local_offer p conn sdp s)" using assms by (auto simp: local_offer_def intro!: update_conn_ok)
  have "wp_conn (snd (wp_signal ok answer msg w)) = wp_conn w \<and> wp_verified (snd (wp_signal ok answer msg w)) = wp_verified w \<and>
      wp_pubkey (snd (wp_signal ok answer msg w)) = wp_pubkey w" for w
    by (simp add: wp_signal_def Let_def)
  then show "pm_ok c (run_signal p conn ok answer msg s)" using assms
    by (auto simp: run_signal_def intro!: update_conn_ok)
qed

lemma pm_exec_ok [wf_intro]: "pm_ok c s \<Longrightarrow> pm_ok c (snd (pm_exec c op s))"
  by (cases op) (auto simp: handleTrackerPeers_def pm_start_def Let_def intro: wf_intro split: jsval.split)

lemma pm_reachable_ok: "pm_reachable c s \<Longrightarrow> pm_ok c s"
  by (induction rule: pm_reachable.induct) (auto intro: wf_intro)

text \<open>C14: Whatever arrives, from the tracker, over relays or on connections, and in whatever order timers and
  callbacks fire: at most 8 connections are in handshake, at most 32 strangers have at most 32 signals
  each waiting, no connection leads to this node itself or to a malformed identifier, and every trusted
  neighbour is listed under the hash of the public key it proved to hold.\<close>

theorem peer_manager_invariant:
  assumes "pm_reachable c s"
  shows "pendingCount s \<le> 8 \<and> length (pm_pendingSignals s) \<le> 32 \<and>
    (\<forall>q b. jm_get (pm_pendingSignals s) q = Some b \<longrightarrow> length b \<le> 32) \<and>
    (\<forall>p w. jm_get (pm_peers s) p = Some w \<longrightarrow>
       is_peer_id p \<and> p \<noteq> my_peer_id c \<and>
       (wp_verified w \<longrightarrow> (\<exists>pk. wp_pubkey w = Some pk \<and> derivePeerId (pc_S c) pk = p)))"
proof -
  have ok: "pm_ok c s" using assms by (rule pm_reachable_ok)
  have "length b \<le> 32" if b: "jm_get (pm_pendingSignals s) q = Some b" for q b
    using ok jm_get_in_set [OF b] by (auto simp: pm_ok_def signals_ok_def)
  moreover have "is_peer_id p \<and> p \<noteq> my_peer_id c \<and> bound_identity c p w" if "jm_get (pm_peers s) p = Some w" for p w
    using ok peers_ok_entry [OF _ that] by (auto simp: pm_ok_def)
  ultimately show ?thesis using ok
    by (auto simp: pm_ok_def peers_ok_def signals_ok_def pendingCount_def bound_identity_def)
qed

subsection \<open>Who becomes trusted\<close>

definition trusts :: "peer_manager \<Rightarrow> peer_id \<Rightarrow> nat \<Rightarrow> bool" where
  "trusts s p k \<longleftrightarrow> (\<exists>w. jm_get (pm_peers s) p = Some w \<and> wp_verified w \<and> wp_conn w = k)"

lemma trusts_fields [simp]:
  "trusts (s\<lparr>pm_coolDowns := x\<rparr>) p k = trusts s p k" "trusts (s\<lparr>pm_misbehavior := m\<rparr>) p k = trusts s p k"
  "trusts (s\<lparr>pm_limiter := l\<rparr>) p k = trusts s p k" "trusts (s\<lparr>pm_detach := b\<rparr>) p k = trusts s p k"
  "trusts (s\<lparr>pm_stopped := b\<rparr>) p k = trusts s p k" "trusts (s\<lparr>pm_reannounce := b\<rparr>) p k = trusts s p k"
  "trusts (s\<lparr>pm_pendingSignals := r\<rparr>) p k = trusts s p k" "trusts (s\<lparr>pm_seenGroups := gs\<rparr>) p k = trusts s p k"
  "trusts (snd (banned_now now q s)) p k = trusts s p k" "trusts (noteGroup g s) p k = trusts s p k"
  "trusts (buffer_signal now q msg s) p k = trusts s p k"
  by (simp_all add: trusts_def noteGroup_def buffer_signal_def buffer_push_def Let_def split: option.split)

named_theorems no_new_trust \<open>operations that make no connection trusted\<close>

lemma trusts_disconnect [no_new_trust]: "trusts (snd (pm_disconnect q s)) p k \<Longrightarrow> trusts s p k"
  by (auto simp: trusts_def disconnect_get split: if_splits)

lemma trusts_update_conn [no_new_trust]:
  "trusts (update_conn q conn f s) p k \<Longrightarrow> (\<And>w. wp_conn (f w) = wp_conn w \<and> wp_verified (f w) = wp_verified w) \<Longrightarrow> trusts s p k"
  by (auto simp: trusts_def update_conn_def split: option.splits if_splits)

lemma trusts_open [no_new_trust]: "trusts (snd (snd (open_connection now q i via s))) p k \<Longrightarrow> trusts s p k"
  by (auto simp: trusts_def open_connection_def open_fresh_def Let_def wp_new_def split: option.splits if_splits)

lemma trusts_connect [no_new_trust]: "trusts (snd (snd (connect c now q i via s))) p k \<Longrightarrow> trusts s p k"
  by (auto simp: connect_def split_def Let_def dest!: trusts_open trusts_disconnect split: option.splits if_splits)

lemma trusts_tracker_loop [no_new_trust]: "trusts (snd (handleTrackerPeers_loop c now vs s)) p k \<Longrightarrow> trusts s p k"
proof (induction vs arbitrary: s)
  case (Cons v vs)
  show ?case using Cons.prems
    by (auto simp: split_def Let_def dest!: Cons.IH trusts_connect split: jsval.splits if_splits)
qed simp

lemma trusts_relay_signal [no_new_trust]: "trusts (snd (relay_signal c now q msg via s)) p k \<Longrightarrow> trusts s p k"
  using trusts_connect [of c now q False via s p k]
  by (auto simp: relay_signal_def split: option.splits if_splits prod.splits)

lemma trusts_handleRelay [no_new_trust]: "trusts (snd (handleRelay c now q msg via s)) p k \<Longrightarrow> trusts s p k"
  by (auto simp: handleRelay_def split_def Let_def dest!: trusts_relay_signal trusts_disconnect
      split: option.splits if_splits bool.splits)

lemma trusts_on_relay_message [no_new_trust]: "trusts (snd (on_relay_message c now q t msg s)) p k \<Longrightarrow> trusts s p k"
  by (auto simp: on_relay_message_def dest: trusts_handleRelay split: jsval.splits if_splits)

lemma trusts_rebalance_loop [no_new_trust]: "trusts (snd (rebalance_loop n c now newcomer s)) p k \<Longrightarrow> trusts s p k"
proof (induction n arbitrary: s newcomer)
  case (Suc n)
  show ?case using Suc.prems
    by (auto simp: Let_def split_def dest!: Suc.IH trusts_disconnect split: option.splits if_splits)
qed simp

lemma trusts_disconnect_all [no_new_trust]: "trusts (snd (disconnect_all ps s)) p k \<Longrightarrow> trusts s p k"
proof (induction ps arbitrary: s)
  case (Cons q ps)
  show ?case using Cons.prems by (auto simp: Let_def split_def dest!: Cons.IH trusts_disconnect)
qed simp

lemma trusts_callbacks [no_new_trust]:
  "trusts (snd (group_resolved c now q conn g s)) p k \<Longrightarrow> trusts s p k"
  "trusts (snd (onConnect c q conn ch s)) p k \<Longrightarrow> trusts s p k"
  "trusts (snd (onDisconnect q conn s)) p k \<Longrightarrow> trusts s p k"
  "trusts (snd (connect_timeout q conn s)) p k \<Longrightarrow> trusts s p k"
  "trusts (snd (handshake_timeout q conn s)) p k \<Longrightarrow> trusts s p k"
  "trusts (local_offer q conn sdp s) p k \<Longrightarrow> trusts s p k"
  "trusts (run_signal q conn ok answer msg s) p k \<Longrightarrow> trusts s p k"
proof -
  have "wp_conn (snd (wp_signal ok answer msg w)) = wp_conn w \<and> wp_verified (snd (wp_signal ok answer msg w)) = wp_verified w" for w
    by (simp add: wp_signal_def Let_def)
  then show "trusts (run_signal q conn ok answer msg s) p k \<Longrightarrow> trusts s p k"
    unfolding run_signal_def by (rule trusts_update_conn [rotated])
  show "trusts (snd (group_resolved c now q conn g s)) p k \<Longrightarrow> trusts s p k"
    by (auto simp: group_resolved_def rebalance_def dest!: trusts_rebalance_loop trusts_update_conn)
  show "trusts (snd (onConnect c q conn ch s)) p k \<Longrightarrow> trusts s p k"
    by (auto simp: onConnect_def Let_def setChallenge_def channel_open_def dest!: trusts_update_conn)
  show "trusts (snd (onDisconnect q conn s)) p k \<Longrightarrow> trusts s p k"
    by (auto simp: onDisconnect_def Let_def channel_closed_def dest!: trusts_disconnect trusts_update_conn split: if_splits)
  show "trusts (snd (connect_timeout q conn s)) p k \<Longrightarrow> trusts s p k"
    "trusts (snd (handshake_timeout q conn s)) p k \<Longrightarrow> trusts s p k"
    by (auto simp: connect_timeout_def handshake_timeout_def dest: trusts_disconnect split: option.splits if_splits)
  show "trusts (local_offer q conn sdp s) p k \<Longrightarrow> trusts s p k"
    by (auto simp: local_offer_def dest!: trusts_update_conn)
qed

lemma trusts_stop [no_new_trust]: "trusts (snd (pm_stop s)) p k \<Longrightarrow> trusts s p k"
  by (auto simp: pm_stop_def split_def Let_def dest!: trusts_disconnect_all)

text \<open>What receiving a frame amounts to: dropping the connection, nothing beyond bookkeeping, or the handlers
  of a message that passed the door.\<close>

definition same_links :: "peer_manager \<Rightarrow> peer_manager \<Rightarrow> bool" where
  "same_links s s' \<longleftrightarrow> pm_peers s' = pm_peers s \<and> pm_pexRoutes s' = pm_pexRoutes s \<and>
     pm_pendingSignals s' = pm_pendingSignals s \<and> pm_coolDowns s' = pm_coolDowns s \<and> pm_next s' = pm_next s \<and>
     pm_stopped s' = pm_stopped s"

lemma same_links_simps [simp]:
  "same_links s s" "same_links s (snd (banned_now now p s))"
  "same_links s (s'\<lparr>pm_limiter := l\<rparr>) = same_links s s'" "same_links s (s'\<lparr>pm_misbehavior := m\<rparr>) = same_links s s'"
  by (simp_all add: same_links_def banned_now_def split: prod.split)

lemma handleData_cases:
  obtains s' where "handleData c now p bs s = pm_disconnect p s'" "same_links s s'"
  | s' where "handleData c now p bs s = ([], s')" "same_links s s'"
  | t msg s' where "wire_decode (pc_M c) bs = (t, msg)" "t \<noteq> UNKNOWN" "t \<in> {HELLO, JOIN} \<or> peer_verified p s"
    "length bs \<le> frame_limit bs" "same_links s s'"
    "handleData c now p bs s =
       (fst (own_handlers c now p t msg s') @ [Deliver p t msg, PeerData p bs], snd (own_handlers c now p t msg s'))"
proof -
  obtain banned s1 where b: "banned_now now p s = (banned, s1)" by force
  obtain t msg where d: "wire_decode (pc_M c) bs = (t, msg)" by force
  obtain ok lim where r: "rate_allow (pc_rates c) (of_int now) p (RATE_CATEGORY t) (pm_limiter s1) = (ok, lim)" by force
  have s1: "same_links s s1" using same_links_simps(2) [of s now p] b by simp
  then have v: "peer_verified p s1 = peer_verified p s" by (simp add: peer_verified_def same_links_def)
  note h = handleData_def [of c now p bs s, unfolded b d r Let_def prod.case]
  consider "banned" | "\<not> banned" "length bs > frame_limit bs \<or> (t \<noteq> UNKNOWN \<and> (\<not> ok \<or> (t \<notin> {HELLO, JOIN} \<and> \<not> peer_verified p s)))"
    | "\<not> banned" "\<not> length bs > frame_limit bs" "t = UNKNOWN"
    | "\<not> banned" "\<not> length bs > frame_limit bs" "t \<noteq> UNKNOWN" "ok" "t \<in> {HELLO, JOIN} \<or> peer_verified p s" by blast
  then show thesis
  proof cases
    case 1
    show thesis by (rule that(1) [of s1]) (simp_all add: h 1 s1)
  next
    case 2
    show thesis
    proof (cases "length bs > frame_limit bs")
      case True
      show thesis by (rule that(2) [of s1]) (simp_all add: h 2(1) True s1)
    next
      case False
      show thesis by (rule that(2) [of "s1\<lparr>pm_limiter := lim\<rparr>"]) (use 2 False v in \<open>auto simp: h s1 r PRE_HANDSHAKE_TYPES_def\<close>)
    qed
  next
    case 3
    show thesis
      by (rule that(1) [of "if peer_verified p s1 then s1\<lparr>pm_misbehavior :=
          snd (recordViolation (pc_misopts c) now p MALFORMED_WIRE (pm_misbehavior s1))\<rparr> else s1"])
        (use 3 s1 in \<open>simp_all add: h\<close>)
  next
    case 4
    show thesis
      by (rule that(3) [OF d 4(3) 4(5), of "s1\<lparr>pm_limiter := lim\<rparr>"])
        (use 4 v in \<open>auto simp: h s1 r PRE_HANDSHAKE_TYPES_def split_def\<close>)
  qed
qed

lemma trusts_own_handlers:
  "trusts (snd (own_handlers c now q t msg s)) p k \<Longrightarrow> t \<noteq> JOIN \<Longrightarrow> trusts s p k"
  by (cases t) (simp_all add: own_handlers_def trusts_on_relay_message)

lemma trusts_handleData:
  assumes "trusts (snd (handleData c now q bs s)) p k" "\<not> trusts s p k"
  shows "p = q \<and> (\<exists>msg w claim. wire_decode (pc_M c) bs = (JOIN, msg) \<and> jm_get (pm_peers s) p = Some w \<and>
    wp_conn w = k \<and> join_accepted c p msg w claim)"
proof (cases rule: handleData_cases [of c now q bs s])
  case (3 t msg s')
  have s': "pm_peers s' = pm_peers s" "trusts (snd (own_handlers c now q t msg s')) p k"
    subgoal using 3(5) unfolding same_links_def by blast
    subgoal using assms(1) unfolding 3(6) snd_conv .
    done
  have nt: "\<not> trusts s' p k" using assms(2) s'(1) by (simp add: trusts_def)
  have t: "t = JOIN" using trusts_own_handlers [OF s'(2)] nt by blast
  show ?thesis
  proof (cases rule: handleJoin_cases [of c now q msg s'])
    case join: (3 w claim)
    then have "p = q \<and> wp_conn w = k" using s'(2) nt t
      by (auto simp: own_handlers_def trusts_def markVerified_def split: if_splits)
    then show ?thesis using join(1,2) 3(1) t s'(1) by auto
  qed (use s'(2) nt t in \<open>auto simp: own_handlers_def dest: trusts_disconnect\<close>)
next
  case (1 s')
  then have "trusts s' p k" using assms(1) trusts_disconnect by metis
  then show ?thesis using 1(2) assms(2) by (auto simp: same_links_def trusts_def)
next
  case (2 s')
  then show ?thesis using assms by (simp add: same_links_def trusts_def)
qed

text \<open>C15: The only event that makes a connection trusted is a JOIN received on it that answers the challenge
  this node sent on that very connection: its signature covers both identifiers and the DTLS
  fingerprints of that connection, under the key the identifier is the hash of. No tracker message,
  relay, timer or other frame can do it.\<close>

theorem trust_only_by_join:
  assumes "trusts (snd (pm_exec c op s)) p k" "\<not> trusts s p k"
  shows "\<exists>now bs msg w claim. op = OpData now p bs \<and> wire_decode (pc_M c) bs = (JOIN, msg) \<and>
    jm_get (pm_peers s) p = Some w \<and> wp_conn w = k \<and> join_accepted c p msg w claim"
proof (cases op)
  case (OpData now q bs)
  then show ?thesis using trusts_handleData [of c now q bs s p k] assms by auto
next
  case (OpTrackerPeers now v)
  then show ?thesis using assms by (auto simp: handleTrackerPeers_def dest: no_new_trust split: jsval.splits if_splits)
next
  case OpStart
  then show ?thesis using assms by (auto simp: pm_start_def Let_def)
qed (use assms in \<open>auto dest: no_new_trust\<close>)

subsection \<open>An honest handshake\<close>

lemma signClaim_short:
  assumes "length ch = 32" "length (verifierId b) \<le> 1000" "length (nid_peerId n) \<le> 1000"
    "length (signerFingerprint b) \<le> 1000" "length (verifierFingerprint b) \<le> 1000"
  shows "\<exists>sig. signClaim S n ch b = Inr (JObj (claim_of n @ [(''challenge'', JBytes ch), (''signature'', JBytes sig)]))"
proof -
  have "length (utf8 t) \<le> 0xffff" if "length t \<le> 1000" for t using length_utf8 [of t] that by simp
  then have "\<exists>m. joinMessage ch (nid_peerId n) b = Inr m"
    using assms(2-5) lengthPrefixed_short by (auto simp: joinMessage_def rbind_Inr_iff) metis
  then show ?thesis using assms(1) by (auto simp: signClaim_def)
qed

lemma join_claim_signed:
  "join_claim (tagged JOIN (JObj (claim_of n @ [(''challenge'', JBytes ch), (''signature'', JBytes sig)]))) =
     Inr (JObj (claim_of n @ [(''challenge'', JBytes ch), (''signature'', JBytes sig)]))"
proof -
  have "tagged JOIN (JObj (claim_of n @ [(''challenge'', JBytes ch), (''signature'', JBytes sig)])) =
      JObj ((''type'', JStr ''join'') # claim_of n @ [(''challenge'', JBytes ch), (''signature'', JBytes sig)])"
    by (rule tagged_object) (simp_all add: claim_of_def)
  then show ?thesis by (simp add: join_claim_def claim_of_def)
qed

text \<open>The two ends of one connection: each sees the other's fingerprint as the remote one.\<close>

definition same_connection :: "wpeer \<Rightarrow> wpeer \<Rightarrow> bool" where
  "same_connection w v \<longleftrightarrow>
     fst (dtlsFingerprints w) = snd (dtlsFingerprints v) \<and> snd (dtlsFingerprints w) = fst (dtlsFingerprints v) \<and>
     fst (dtlsFingerprints w) \<noteq> [] \<and> snd (dtlsFingerprints w) \<noteq> [] \<and>
     length (fst (dtlsFingerprints w)) \<le> 1000 \<and> length (snd (dtlsFingerprints w)) \<le> 1000"

lemma handshake:
  assumes laws: "sha256_law S" "sign_law S" "pc_S a = S" "pc_S b = S"
    and mined: "mine S seed (pc_pow a) = Some (pc_identity b)"
    and a: "jm_get (pm_peers s) (my_peer_id b) = Some w" "\<not> wp_verified w" "wp_challenge w = Some ch" "length ch = 32"
    and b: "jm_get (pm_peers t) (my_peer_id a) = Some v" "wp_connected v" "length (my_peer_id a) \<le> 1000"
    and conn: "same_connection w v"
    and hello: "jget hello ''challenge'' = JBytes ch"
  shows "\<exists>claim. handleHello b (my_peer_id a) hello t =
      [SendFrame (my_peer_id a) (wp_conn v) (wire_encode (pc_M b) JOIN claim)] \<and>
    (\<forall>now. PeerVerified (my_peer_id b) \<in> set (fst (handleJoin a now (my_peer_id b) (tagged JOIN claim) s)) \<and>
       trusts (snd (handleJoin a now (my_peer_id b) (tagged JOIN claim) s)) (my_peer_id b) (wp_conn w))"
proof -
  let ?bd = "\<lparr>verifierId = my_peer_id a, signerFingerprint = fst (dtlsFingerprints v),
    verifierFingerprint = snd (dtlsFingerprints v)\<rparr>"
  have n: "my_peer_id b = derivePeerId S (nid_pubkey (pc_identity b))"
    using mined by (fastforce simp: mine_def fromKeyPair_def Let_def split: option.splits dest: sym)
  have "length (my_peer_id b) \<le> 1000" using derivePeerId_hex [OF laws(1)] by (simp add: n hex_re_def)
  then obtain sig where sig: "signClaim S (pc_identity b) ch ?bd =
      Inr (JObj (claim_of (pc_identity b) @ [(''challenge'', JBytes ch), (''signature'', JBytes sig)]))"
    using signClaim_short [of ch ?bd "pc_identity b" S] a(4) b(3) conn by (auto simp: same_connection_def)
  define claim where "claim = JObj (claim_of (pc_identity b) @ [(''challenge'', JBytes ch), (''signature'', JBytes sig)])"
  have ver: "verifySignedClaim S claim ch ?bd (pc_pow a)"
    using signClaim_verifies [OF laws(1,2) mined sig] by (simp add: claim_def)
  have fb: "fingerprintsUsable b (dtlsFingerprints v)" "fingerprintsUsable a (dtlsFingerprints w)"
    using conn by (auto simp: same_connection_def fingerprintsUsable_def)
  have "handleHello b (my_peer_id a) hello t = [SendFrame (my_peer_id a) (wp_conn v) (wire_encode (pc_M b) JOIN claim)]"
    using b a(4) hello fb laws(4) sig by (simp add: handleHello_def Let_def sendMessage_def claim_def)
  moreover have "jget claim ''peerId'' = JStr (my_peer_id b)" by (simp add: claim_def claim_of_def)
  then have "handleJoin a now (my_peer_id b) (tagged JOIN claim) s =
      ([PeerVerified (my_peer_id b), ResolveGroup (my_peer_id b) (wp_conn w)],
       s\<lparr>pm_peers := jm_set (my_peer_id b) (markVerified now (bytes_of (jget claim ''pubkey''))
         (int_of (jget claim ''powCounter'')) w) (pm_peers s)\<rparr>)" for now
    using a fb laws(3) ver conn join_claim_signed [of "pc_identity b" ch sig]
    by (simp add: handleJoin_def Let_def claim_def [symmetric] same_connection_def)
  then have "\<forall>now. PeerVerified (my_peer_id b) \<in> set (fst (handleJoin a now (my_peer_id b) (tagged JOIN claim) s)) \<and>
       trusts (snd (handleJoin a now (my_peer_id b) (tagged JOIN claim) s)) (my_peer_id b) (wp_conn w)"
    by (simp add: trusts_def markVerified_def)
  ultimately show ?thesis by blast
qed

text \<open>C17: An honest handshake completes: when a node with a mined identity receives the challenge of a
  neighbour and both ends see the same two DTLS fingerprints, it answers with one JOIN frame, and the
  neighbour that receives it trusts this connection, and says so.\<close>

theorem handshake_completes:
  assumes "sha256_law S" "sign_law S" "pc_S a = S" "pc_S b = S" "mine S seed (pc_pow a) = Some (pc_identity b)"
    "jm_get (pm_peers s) (my_peer_id b) = Some w" "\<not> wp_verified w" "wp_challenge w = Some ch" "length ch = 32"
    "jm_get (pm_peers t) (my_peer_id a) = Some v" "wp_connected v" "length (my_peer_id a) \<le> 1000"
    "same_connection w v" "jget hello ''challenge'' = JBytes ch"
  shows "\<exists>claim. handleHello b (my_peer_id a) hello t =
      [SendFrame (my_peer_id a) (wp_conn v) (wire_encode (pc_M b) JOIN claim)] \<and>
    (\<forall>now. PeerVerified (my_peer_id b) \<in> set (fst (handleJoin a now (my_peer_id b) (tagged JOIN claim) s)) \<and>
       trusts (snd (handleJoin a now (my_peer_id b) (tagged JOIN claim) s)) (my_peer_id b) (wp_conn w))"
  using handshake [OF assms(1-5) assms(6-9) assms(10-12) assms(13,14)] .

definition toy_pm :: "bytes \<Rightarrow> pm_config" where
  "toy_pm seed = \<lparr>pc_S = toy_sodium, pc_M = toy_msgpack,
     pc_identity = fromKeyPair toy_sodium (sign_pk toy_sodium seed) seed 0, pc_pow = NODE_ID_POW,
     pc_allowMissing = False, pc_rates = RATE_LIMITS, pc_misopts = default_options\<rparr>"

lemma toy_pm_simps [simp]:
  "pc_S (toy_pm seed) = toy_sodium" "pc_M (toy_pm seed) = toy_msgpack" "pc_pow (toy_pm seed) = NODE_ID_POW"
  "pc_identity (toy_pm seed) = fromKeyPair toy_sodium (sign_pk toy_sodium seed) seed 0"
  "pc_rates (toy_pm seed) = RATE_LIMITS"
  by (simp_all add: toy_pm_def)

definition toy_wpeer :: "string \<Rightarrow> string \<Rightarrow> wpeer" where
  "toy_wpeer loc rem = (wp_new 0 True)\<lparr>wp_connected := True, wp_challenge := Some (replicate 32 7),
     wp_localSdp := Some (''a=fingerprint:sha-256 '' @ loc), wp_remoteSdp := Some (''a=fingerprint:sha-256 '' @ rem)\<rparr>"

lemma toy_fingerprints:
  "dtlsFingerprints (toy_wpeer ''AA'' ''BB'') = (''sha-256 AA'', ''sha-256 BB'')"
  "dtlsFingerprints (toy_wpeer ''BB'' ''AA'') = (''sha-256 BB'', ''sha-256 AA'')"
  by code_simp+

lemma toy_wpeer_fields [simp]:
  "wp_verified (toy_wpeer l r) = False" "wp_challenge (toy_wpeer l r) = Some (replicate 32 7)"
  "wp_connected (toy_wpeer l r) = True" "wp_conn (toy_wpeer l r) = 0"
  by (simp_all add: toy_wpeer_def wp_new_def)

lemma toy_same_connection: "same_connection (toy_wpeer ''AA'' ''BB'') (toy_wpeer ''BB'' ''AA'')"
  by (simp add: same_connection_def toy_fingerprints)

theorem handshake_completes_witness:
  "\<exists>claim. \<forall>now. trusts (snd (handleJoin (toy_pm [1]) now (my_peer_id (toy_pm [2])) claim
     (pm_init\<lparr>pm_peers := [(my_peer_id (toy_pm [2]), toy_wpeer ''AA'' ''BB'')]\<rparr>))) (my_peer_id (toy_pm [2])) 0"
proof -
  have "mine toy_sodium [2] (pc_pow (toy_pm [1])) = Some (pc_identity (toy_pm [2]))"
    using toy_mine [of "[2]"] by simp
  moreover have "length (my_peer_id (toy_pm [1])) \<le> 1000" using toy_node_id_length by simp
  ultimately show ?thesis
    using handshake_completes [of toy_sodium "toy_pm [1]" "toy_pm [2]" "[2]"
        "pm_init\<lparr>pm_peers := [(my_peer_id (toy_pm [2]), toy_wpeer ''AA'' ''BB'')]\<rparr>" "toy_wpeer ''AA'' ''BB''" "replicate 32 7"
        "pm_init\<lparr>pm_peers := [(my_peer_id (toy_pm [1]), toy_wpeer ''BB'' ''AA'')]\<rparr>" "toy_wpeer ''BB'' ''AA''"
        "JObj [(''challenge'', JBytes (replicate 32 7))]"] toy_same_connection
    by (auto simp del: toy_pm_simps(4))
qed

definition toy_trust :: "jsval \<Rightarrow> pm_config" where
  "toy_trust claim = (toy_pm [1])\<lparr>pc_M := \<lparr>mp_encode = (\<lambda>v. []), mp_decode = (\<lambda>b. Some claim)\<rparr>\<rparr>"

lemma toy_join_data:
  assumes "pm_misbehavior s = misbehavior_init" "pm_limiter s = rate_init"
  shows "\<exists>l. snd (pm_exec (toy_trust claim) (OpData 0 p [0x10]) s) =
    snd (handleJoin (toy_trust claim) 0 p claim (s\<lparr>pm_limiter := l\<rparr>))"
proof -
  obtain l where r: "rate_allow RATE_LIMITS 0 p ''handshake'' rate_init = (True, l)"
    by (simp add: rate_allow_def RATE_LIMITS_def rate_init_def Let_def)
  have k: "known_wire_type 0x10 = Some JOIN" by (simp add: known_wire_type_def KNOWN_WIRE_TYPES_def)
  have b: "banned_now 0 p s = (False, s)"
    using assms(1) by (simp add: banned_now_def isBanned_def misbehavior_init_def)
  have c: "pc_M (toy_trust claim) = \<lparr>mp_encode = (\<lambda>v. []), mp_decode = (\<lambda>b. Some claim)\<rparr>" "pc_rates (toy_trust claim) = RATE_LIMITS"
    by (simp_all add: toy_trust_def)
  have d: "wire_decode (pc_M (toy_trust claim)) [0x10] = (JOIN, claim)"
    by (simp add: wire_decode_def k c(1))
  have "handleData (toy_trust claim) 0 p [0x10] s =
      (let (e3, s3) = own_handlers (toy_trust claim) 0 p JOIN claim (s\<lparr>pm_limiter := l\<rparr>) in
       (e3 @ [Deliver p JOIN claim, PeerData p [0x10]], s3))"
    using r by (simp add: handleData_def b d c(2) assms(2) frame_limit_def k PRE_HANDSHAKE_TYPES_def)
  then show ?thesis by (intro exI [of _ l]) (simp add: own_handlers_def split_def Let_def)
qed

lemma handleJoin_msgpack: "handleJoin (c\<lparr>pc_M := m\<rparr>) now p msg s = handleJoin c now p msg s"
  by (simp add: handleJoin_def fingerprintsUsable_def cong: option.case_cong sum.case_cong if_cong)

lemma toy_handshake:
  "\<exists>claim. \<forall>l. trusts (snd (handleJoin (toy_pm [1]) 0 (my_peer_id (toy_pm [2])) claim
     (pm_init\<lparr>pm_peers := [(my_peer_id (toy_pm [2]), toy_wpeer ''AA'' ''BB'')], pm_limiter := l\<rparr>))) (my_peer_id (toy_pm [2])) 0"
proof -
  let ?s = "\<lambda>l. pm_init\<lparr>pm_peers := [(my_peer_id (toy_pm [2]), toy_wpeer ''AA'' ''BB'')], pm_limiter := l\<rparr>"
  have m: "mine toy_sodium [2] (pc_pow (toy_pm [1])) = Some (pc_identity (toy_pm [2]))"
    using toy_mine [of "[2]"] by simp
  have n: "length (my_peer_id (toy_pm [1])) \<le> 1000" using toy_node_id_length by simp
  obtain claim where "trusts (snd (handleJoin (toy_pm [1]) 0 (my_peer_id (toy_pm [2])) claim (?s rate_init))) (my_peer_id (toy_pm [2])) 0"
    using handshake [of toy_sodium "toy_pm [1]" "toy_pm [2]" "[2]" "?s rate_init" "toy_wpeer ''AA'' ''BB''" "replicate 32 7"
        "pm_init\<lparr>pm_peers := [(my_peer_id (toy_pm [1]), toy_wpeer ''BB'' ''AA'')]\<rparr>" "toy_wpeer ''BB'' ''AA''"
        "JObj [(''challenge'', JBytes (replicate 32 7))]"] m n toy_same_connection
    by (auto simp del: toy_pm_simps(4))
  moreover have "trusts (snd (handleJoin c 0 p claim (?s l))) p' 0 = trusts (snd (handleJoin c 0 p claim (?s l'))) p' 0" for c p p' claim l l'
    by (simp add: handleJoin_def trusts_def pm_disconnect_def Let_def split: option.split sum.split)
  ultimately show ?thesis by blast
qed

theorem trust_only_by_join_witness:
  "\<exists>c p (s :: peer_manager) w msg claim. jm_get (pm_peers s) p = Some w \<and> join_accepted c p msg w claim"
proof -
  let ?p = "my_peer_id (toy_pm [2])" and ?s = "pm_init\<lparr>pm_peers := [(my_peer_id (toy_pm [2]), toy_wpeer ''AA'' ''BB'')]\<rparr>"
  obtain claim where t: "\<And>l. trusts (snd (handleJoin (toy_pm [1]) 0 ?p claim (?s\<lparr>pm_limiter := l\<rparr>))) ?p 0"
    using toy_handshake by auto
  obtain l where "snd (pm_exec (toy_trust claim) (OpData 0 ?p [0x10]) ?s) = snd (handleJoin (toy_trust claim) 0 ?p claim (?s\<lparr>pm_limiter := l\<rparr>))"
    using toy_join_data [of ?s claim ?p] by (auto simp: pm_init_def)
  then have "trusts (snd (pm_exec (toy_trust claim) (OpData 0 ?p [0x10]) ?s)) ?p 0"
    using t by (simp add: toy_trust_def handleJoin_msgpack)
  moreover have "\<not> trusts ?s ?p 0" by (simp add: trusts_def)
  ultimately obtain w msg k where "jm_get (pm_peers ?s) ?p = Some w" "join_accepted (toy_trust claim) ?p msg w k"
    using trust_only_by_join [of "toy_trust claim" "OpData 0 ?p [0x10]" ?s ?p 0] by blast
  then show ?thesis by blast
qed

theorem peer_manager_invariant_witness: "pendingCount (snd (pm_exec (toy_pm [1]) OpStart pm_init)) \<le> 8"
  using peer_manager_invariant [OF pm_reachable.step [OF pm_reachable.init], of "toy_pm [1]" OpStart] by blast

end
