(* ===== verification/PeerMesh.thy ===== *)
theory PeerMesh
  imports PeerSafety
begin

text \<open>
  What the outside cannot do to a node's links: relays cannot touch a live trusted connection, an untrusted
  connection cannot get past the handshake or touch another connection, and eviction brings the degree
  back to its bound without giving up the nearest neighbours.
\<close>

subsection \<open>Relays\<close>

definition live :: "peer_manager \<Rightarrow> peer_id \<Rightarrow> wpeer \<Rightarrow> bool" where
  "live s p w \<longleftrightarrow> jm_get (pm_peers s) p = Some w \<and> wp_verified w \<and> wp_connected w"

lemma live_fields [simp]:
  "live (s\<lparr>pm_coolDowns := x\<rparr>) p w = live s p w" "live (s\<lparr>pm_misbehavior := m\<rparr>) p w = live s p w"
  "live (s\<lparr>pm_limiter := l\<rparr>) p w = live s p w" "live (s\<lparr>pm_pendingSignals := r\<rparr>) p w = live s p w"
  "live (snd (banned_now now q s)) p w = live s p w" "live (buffer_signal now q msg s) p w = live s p w"
  by (simp_all add: live_def buffer_signal_def buffer_push_def Let_def split: option.split)

lemma live_disconnect: "live s p w \<Longrightarrow> q \<noteq> p \<Longrightarrow> live (snd (pm_disconnect q s)) p w"
  by (simp add: live_def disconnect_get)

lemma live_open: "live s p w \<Longrightarrow> q \<noteq> p \<Longrightarrow> live (snd (snd (open_connection now q i via s))) p w"
  by (auto simp: live_def open_connection_def open_fresh_def Let_def split: option.split)

lemma live_connect: "live s p w \<Longrightarrow> live (snd (snd (connect c now q i via s))) p w"
proof (cases "q = p")
  case True
  moreover assume "live s p w"
  ultimately show ?thesis by (auto simp: live_def connect_def split_def Let_def)
next
  case False
  moreover assume "live s p w"
  ultimately show ?thesis
    by (auto simp: connect_def split_def Let_def intro!: live_open live_disconnect split: option.split)
qed

lemma live_relay_signal: "live s p w \<Longrightarrow> live (snd (relay_signal c now q msg via s)) p w"
  using live_connect [of s p w c now q False via]
  by (auto simp: relay_signal_def split: option.split prod.split)

lemma live_handleRelay: "live s p w \<Longrightarrow> live (snd (handleRelay c now q msg via s)) p w"
proof -
  assume l: "live s p w"
  have "live (snd (pm_disconnect q (snd (banned_now now q s)))) p w"
    if "jm_get (pm_peers s) q = Some v" "\<not> (wp_verified v \<and> wp_connected v)" for v
    using l that by (intro live_disconnect) (auto simp: live_def)
  then show ?thesis using l
    by (auto simp: handleRelay_def split_def Let_def intro!: live_relay_signal split: option.split bool.split)
qed

lemma no_close_connect: "live s p w \<Longrightarrow> ClosePeer p k \<notin> set (fst (snd (connect c now q i via s)))"
  by (auto simp: connect_def split_def Let_def pm_disconnect_def open_connection_def open_fresh_def live_def
      split: option.split)

lemma no_close_relay_signal: "live s p w \<Longrightarrow> ClosePeer p k \<notin> set (fst (relay_signal c now q msg via s))"
  using no_close_connect [of s p w k c now q False via]
  by (auto simp: relay_signal_def split: option.split prod.split)

lemma no_close_handleRelay: "live s p w \<Longrightarrow> ClosePeer p k \<notin> set (fst (handleRelay c now q msg via s))"
proof -
  assume l: "live s p w"
  have "ClosePeer p k \<notin> set (fst (pm_disconnect q (snd (banned_now now q s)))) \<and>
      live (snd (pm_disconnect q (snd (banned_now now q s)))) p w"
    if "jm_get (pm_peers s) q = Some v" "\<not> (wp_verified v \<and> wp_connected v)" for v
    using l that by (auto simp: live_def pm_disconnect_def disconnect_get split: option.split)
  then show ?thesis using l
    by (auto simp: handleRelay_def split_def Let_def no_close_relay_signal split: option.split bool.split)
qed



subsection \<open>Untrusted connections\<close>

text \<open>The neighbour an effect is about, if it is about one.\<close>

fun effect_peer :: "pm_effect \<Rightarrow> peer_id option" where
  "effect_peer (OpenPeer p _ _) = Some p"
| "effect_peer (ClosePeer p _) = Some p"
| "effect_peer (SignalPeer p _ _) = Some p"
| "effect_peer (SendFrame p _ _) = Some p"
| "effect_peer (TrackerRelay p _) = Some p"
| "effect_peer (ResolveGroup p _) = Some p"
| "effect_peer (Deliver p _ _) = Some p"
| "effect_peer (PeerConnected p) = Some p"
| "effect_peer (PeerVerified p) = Some p"
| "effect_peer (PeerDisconnected p) = Some p"
| "effect_peer (PeerData p _) = Some p"
| "effect_peer TrackerConnect = None"
| "effect_peer TrackerDisconnect = None"

definition only_about :: "peer_id \<Rightarrow> peer_manager \<Rightarrow> pm_effect list \<times> peer_manager \<Rightarrow> bool" where
  "only_about p s r \<longleftrightarrow>
     (\<forall>x \<in> set (fst r). effect_peer x = Some p) \<and>
     (\<forall>q. q \<noteq> p \<longrightarrow> jm_get (pm_peers (snd r)) q = jm_get (pm_peers s) q \<and>
        jm_get (pm_pexRoutes (snd r)) q = jm_get (pm_pexRoutes s) q \<and>
        jm_get (pm_pendingSignals (snd r)) q = jm_get (pm_pendingSignals s) q \<and>
        jm_get (pm_coolDowns (snd r)) q = jm_get (pm_coolDowns s) q)"

lemma only_about_disconnect: "same_links s s' \<Longrightarrow> only_about p s (pm_disconnect p s')"
  by (auto simp: only_about_def pm_disconnect_def same_links_def split: option.split)

lemma only_about_hello: "same_links s s' \<Longrightarrow> only_about p s (handleHello c p msg s', s')"
  by (auto simp: only_about_def handleHello_def sendMessage_def same_links_def Let_def
      split: sum.split option.split)

lemma only_about_join: "same_links s s' \<Longrightarrow> only_about p s (handleJoin c now p msg s')"
proof (cases rule: handleJoin_cases [of c now p msg s'])
  case 2
  moreover assume "same_links s s'"
  ultimately show ?thesis using only_about_disconnect by simp
qed (auto simp: only_about_def same_links_def)

lemma no_deliver:
  "Deliver q u v \<notin> set (handleHello c p msg s)" "Deliver q u v \<notin> set (fst (handleJoin c now p msg s))"
proof -
  show "Deliver q u v \<notin> set (handleHello c p msg s)"
    by (simp add: handleHello_def sendMessage_def Let_def split: sum.split option.split)
  show "Deliver q u v \<notin> set (fst (handleJoin c now p msg s))"
    by (cases rule: handleJoin_cases [of c now p msg s]) (simp_all add: pm_disconnect_def split: option.split)
qed

text \<open>C16: A connection that has not proved an identity can do nothing but shake hands: of its frames only HELLO
  and JOIN are passed on, no other message causes any reply or relay, and whatever it sends, every effect
  concerns that connection alone and nothing is changed about any other neighbour.\<close>

theorem untrusted_frames_gated:
  assumes "\<not> peer_verified p s"
  shows "only_about p s (handleData c now p bs s) \<and>
    (\<forall>t v. Deliver p t v \<in> set (fst (handleData c now p bs s)) \<longrightarrow> t \<in> {HELLO, JOIN})"
proof (cases rule: handleData_cases [of c now p bs s])
  case (1 s')
  then show ?thesis using only_about_disconnect [OF 1(2), of p]
    by (auto simp: pm_disconnect_def split: option.splits)
next
  case (2 s')
  then show ?thesis by (simp add: only_about_def same_links_def)
next
  case (3 t msg s')
  have t: "t = HELLO \<or> t = JOIN" using 3(3) assms by blast
  then have o: "only_about p s (own_handlers c now p t msg s')"
    using only_about_hello [OF 3(5)] only_about_join [OF 3(5)] by (auto simp: own_handlers_def)
  have "Deliver p u v \<notin> set (fst (own_handlers c now p t msg s'))" for u v
    using t no_deliver by (auto simp: own_handlers_def)
  then show ?thesis using o t unfolding 3(6) by (auto simp: only_about_def)
qed

theorem untrusted_frames_gated_witness: "only_about ''p'' pm_init (handleData (toy_pm [1]) 0 ''p'' [0x40] pm_init)"
  using untrusted_frames_gated [of "''p''" pm_init "toy_pm [1]" 0 "[0x40]"] by (simp add: peer_verified_def pm_init_def)

subsection \<open>Eviction\<close>

lemma worst_of_None [simp]: "worst_of c V g pool = None \<longleftrightarrow> pool = []"
  by (auto simp: worst_of_def Let_def split: list.split dest: arg_cong [of _ _ length])

lemma worst_of_Some:
  assumes "worst_of c V g pool = Some v"
  shows "v \<in> set pool \<and> (\<forall>p \<in> set pool. eviction_rank c V (groupCap (int MAX_DEGREE) g) v \<le> eviction_rank c V (groupCap (int MAX_DEGREE) g) p)"
proof -
  let ?k = "eviction_rank c V (groupCap (int MAX_DEGREE) g)"
  obtain ps where ps: "sort_key ?k pool = v # ps" using assms by (auto simp: worst_of_def Let_def split: list.splits)
  then have "set pool = set (v # ps)" by (metis set_sort)
  moreover have "\<forall>p \<in> set ps. ?k v \<le> ?k p" using sorted_sort_key [of ?k pool] unfolding ps by simp
  ultimately show ?thesis by simp
qed

lemma length_local_links: "length (local_links c V) \<le> 4"
  by (simp add: local_links_def)

lemma pick_Some:
  assumes "pickEvictionVictim c V n s = Some v"
  shows "v \<in> set V" "fst v \<notin> set (local_links c V)"
    "(\<exists>p \<in> set V. wp_direction (snd p) = Inbound \<and> fst p \<notin> set (local_links c V)) \<longrightarrow> wp_direction (snd v) = Inbound"
proof -
  have f: "v = w" if "find (\<lambda>p. fst p = m) V = Some w" "w = v" for m w using that by simp
  show "v \<in> set V" "fst v \<notin> set (local_links c V)"
    "(\<exists>p \<in> set V. wp_direction (snd p) = Inbound \<and> fst p \<notin> set (local_links c V)) \<longrightarrow> wp_direction (snd v) = Inbound"
    using assms
    by (auto simp: pickEvictionVictim_def Let_def find_Some_iff filter_empty_conv
        dest!: worst_of_Some split: if_splits option.splits)
qed

lemma pick_exists:
  assumes "16 < length V" "distinct (map fst V)"
  shows "pickEvictionVictim c V n s \<noteq> None"
proof -
  let ?L = "local_links c V"
  have "\<exists>p \<in> set V. fst p \<notin> set ?L \<and> Some (fst p) \<noteq> n"
  proof (rule ccontr)
    assume "\<not> ?thesis"
    then have "set (map fst V) \<subseteq> set (?L @ (case n of None \<Rightarrow> [] | Some m \<Rightarrow> [m]))" by (auto split: option.split)
    then have "card (set (map fst V)) \<le> length (?L @ (case n of None \<Rightarrow> [] | Some m \<Rightarrow> [m]))"
      by (meson card_length card_mono finite_set le_trans)
    then show False using assms length_local_links [of c V] distinct_card [OF assms(2)] by (auto split: option.splits)
  qed
  then show ?thesis by (auto simp: pickEvictionVictim_def Let_def filter_empty_conv simp del: not_None_eq split: option.split)
qed

lemma verifiedPeers_disconnect:
  "verifiedPeers (snd (pm_disconnect q s)) = filter (\<lambda>p. fst p \<noteq> q) (verifiedPeers s)"
proof (cases "jm_get (pm_peers s) q")
  case None
  then have "q \<notin> fst ` set (pm_peers s)" by (simp add: map_of_eq_None_iff)
  then have "filter (\<lambda>p. fst p \<noteq> q) (verifiedPeers s) = verifiedPeers s"
    by (intro filter_True) (auto simp: verifiedPeers_def intro: rev_image_eqI)
  then show ?thesis using None by (simp add: pm_disconnect_def)
next
  case (Some w)
  then show ?thesis by (simp add: pm_disconnect_def verifiedPeers_def AList.delete_eq split_def) (metis (no_types, lifting))
qed

lemma verified_keys_distinct: "jm_wf (pm_peers s) \<Longrightarrow> distinct (map fst (verifiedPeers s))"
  by (simp add: verifiedPeers_def jm_wf_def distinct_map_filter)

lemma take_filter_absent: "\<forall>x \<in> set (take n xs). P x \<Longrightarrow> take n (filter P xs) = take n xs"
proof (induction xs arbitrary: n)
  case (Cons x xs)
  then show ?case by (cases n) auto
qed simp

lemma local_links_filter:
  assumes "q \<notin> set (local_links c V)"
  shows "local_links c (filter (\<lambda>p. fst p \<noteq> q) V) = local_links c V"
  using assms take_filter_absent [of LOCAL_LINKS "sort_key (peer_distance c) V" "\<lambda>p. fst p \<noteq> q"]
  by (force simp: local_links_def filter_sort [symmetric])

lemma rebalance_step:
  assumes "16 < length (verifiedPeers s)" "jm_wf (pm_peers s)"
  obtains v s1 where "v \<in> set (verifiedPeers s)" "fst v \<notin> set (local_links c (verifiedPeers s))"
    "(\<exists>p \<in> set (verifiedPeers s). wp_direction (snd p) = Inbound \<and> fst p \<notin> set (local_links c (verifiedPeers s)))
       \<longrightarrow> wp_direction (snd v) = Inbound"
    "snd (rebalance_loop (Suc k) c now n s) = snd (rebalance_loop k c now n s1)"
    "verifiedPeers s1 = filter (\<lambda>p. fst p \<noteq> fst v) (verifiedPeers s)" "jm_wf (pm_peers s1)"
proof -
  obtain v where v: "pickEvictionVictim c (verifiedPeers s) n s = Some v"
    using pick_exists [OF assms(1) verified_keys_distinct [OF assms(2)], of c n s] by blast
  define s0 where "s0 = (if Some (fst v) \<noteq> n then s\<lparr>pm_coolDowns := jm_set (fst v) now (pm_coolDowns s)\<rparr> else s)"
  have s0: "verifiedPeers s0 = verifiedPeers s" "pm_peers s0 = pm_peers s" by (simp_all add: s0_def verifiedPeers_def)
  have "snd (rebalance_loop (Suc k) c now n s) = snd (rebalance_loop k c now n (snd (pm_disconnect (fst v) s0)))"
    using assms(1) v by (simp add: Let_def split_def s0_def)
  moreover have "jm_wf (pm_peers (snd (pm_disconnect (fst v) s0)))"
    using assms(2) s0(2) by (simp add: pm_disconnect_def split: option.split)
  ultimately show thesis
    using that [OF pick_Some [OF v]] verifiedPeers_disconnect [of "fst v" s0] s0(1) by metis
qed

lemma length_filter_key:
  assumes "distinct (map fst V)" "v \<in> set V"
  shows "length (filter (\<lambda>p. fst p \<noteq> fst v) V) = length V - 1"
  using assms
proof (induction V)
  case (Cons x V)
  then show ?case
  proof (cases "x = v")
    case True
    then have "filter (\<lambda>p. fst p \<noteq> fst v) V = V"
      using Cons.prems(1) by (intro filter_True) (auto intro: rev_image_eqI)
    then show ?thesis using True by simp
  next
    case False
    then have "v \<in> set V" "fst x \<noteq> fst v" using Cons.prems by auto
    moreover have "0 < length V" using \<open>v \<in> set V\<close> by (cases V) auto
    ultimately show ?thesis using Cons by simp
  qed
qed simp

text \<open>Of two lists of neighbours, the later one keeps the nearest, adds nobody, and gave up a chosen link only
  when no inbound one could go instead.\<close>

definition evicts_fairly :: "pm_config \<Rightarrow> (peer_id \<times> wpeer) list \<Rightarrow> (peer_id \<times> wpeer) list \<Rightarrow> bool" where
  "evicts_fairly c V W \<longleftrightarrow>
     set W \<subseteq> set V \<and> local_links c W = local_links c V \<and>
     ((\<exists>p \<in> set V - set W. wp_direction (snd p) = Outbound) \<longrightarrow>
        (\<forall>q \<in> set W. wp_direction (snd q) = Inbound \<longrightarrow> fst q \<in> set (local_links c V)))"

lemma evicts_fairly_step:
  assumes fair: "evicts_fairly c (filter (\<lambda>p. fst p \<noteq> fst v) V) W"
    and loc: "local_links c (filter (\<lambda>p. fst p \<noteq> fst v) V) = local_links c V"
    and dir: "(\<exists>p \<in> set V. wp_direction (snd p) = Inbound \<and> fst p \<notin> set (local_links c V)) \<longrightarrow> wp_direction (snd v) = Inbound"
    and key: "\<And>p. p \<in> set V \<Longrightarrow> fst p = fst v \<Longrightarrow> p = v"
  shows "evicts_fairly c V W"
proof -
  have sub: "set W \<subseteq> set V" using fair by (auto simp: evicts_fairly_def)
  have "fst q \<in> set (local_links c V)"
    if p: "p \<in> set V" "p \<notin> set W" "wp_direction (snd p) = Outbound" and q: "q \<in> set W" "wp_direction (snd q) = Inbound" for p q
  proof (cases "fst p = fst v")
    case True
    then have "p = v" using key p(1) by blast
    then have "wp_direction (snd v) \<noteq> Inbound" using p(3) by simp
    then show ?thesis using dir q sub by blast
  next
    case False
    then have "p \<in> set (filter (\<lambda>p. fst p \<noteq> fst v) V) - set W" using p by simp
    then show ?thesis using fair p(3) q loc by (auto simp: evicts_fairly_def)
  qed
  then show ?thesis using fair loc sub by (auto simp: evicts_fairly_def)
qed

lemma rebalance_loop_degree:
  assumes "jm_wf (pm_peers s)" "length (verifiedPeers s) \<le> 16 + k"
  shows "length (verifiedPeers (snd (rebalance_loop k c now n s))) \<le> 16 \<and>
    evicts_fairly c (verifiedPeers s) (verifiedPeers (snd (rebalance_loop k c now n s)))"
  using assms
proof (induction k arbitrary: s)
  case 0
  then show ?case by (simp add: evicts_fairly_def)
next
  case (Suc k)
  show ?case
  proof (cases "length (verifiedPeers s) \<le> 16")
    case True
    then show ?thesis by (simp add: evicts_fairly_def Let_def)
  next
    case False
    then obtain v s1 where v: "v \<in> set (verifiedPeers s)" "fst v \<notin> set (local_links c (verifiedPeers s))"
      "(\<exists>p \<in> set (verifiedPeers s). wp_direction (snd p) = Inbound \<and> fst p \<notin> set (local_links c (verifiedPeers s)))
         \<longrightarrow> wp_direction (snd v) = Inbound"
      "snd (rebalance_loop (Suc k) c now n s) = snd (rebalance_loop k c now n s1)"
      "verifiedPeers s1 = filter (\<lambda>p. fst p \<noteq> fst v) (verifiedPeers s)" "jm_wf (pm_peers s1)"
      using rebalance_step [of s c k now n] Suc.prems(1) by (auto simp: not_le)
    let ?V = "verifiedPeers s" and ?W = "verifiedPeers (snd (rebalance_loop k c now n s1))"
    have d: "distinct (map fst ?V)" using Suc.prems(1) by (rule verified_keys_distinct)
    have "length (verifiedPeers s1) \<le> 16 + k" using length_filter_key [OF d v(1)] v(5) Suc.prems(2) by simp
    then have IH: "length ?W \<le> 16" "evicts_fairly c (verifiedPeers s1) ?W" using Suc.IH [OF v(6)] by simp_all
    have loc: "local_links c (verifiedPeers s1) = local_links c ?V"
      unfolding v(5) by (rule local_links_filter [OF v(2)])
    have key: "p = v" if "p \<in> set ?V" "fst p = fst v" for p
      using d that v(1) by (metis eq_key_imp_eq_value prod.collapse)
    have "evicts_fairly c ?V ?W"
      using evicts_fairly_step [OF _ _ v(3) key] IH(2) loc v(5) by simp
    then show ?thesis using IH(1) v(4) by simp
  qed
qed

text \<open>C37: Eviction ends with the degree restored: from up to 48 trusted neighbours it goes on until 16 are left,
  however the newcomer, the groups and the times of joining are; the four nearest on the ring are never
  given up, nobody is added, and a link this node chose itself is given up only when no inbound one
  (outside the four) could go instead.\<close>

theorem rebalance_restores_degree:
  assumes "jm_wf (pm_peers s)" "length (verifiedPeers s) \<le> 48" "s' = snd (rebalance c now n s)"
  shows "length (verifiedPeers s') \<le> 16 \<and> set (verifiedPeers s') \<subseteq> set (verifiedPeers s) \<and>
    local_links c (verifiedPeers s') = local_links c (verifiedPeers s) \<and>
    ((\<exists>p \<in> set (verifiedPeers s) - set (verifiedPeers s'). wp_direction (snd p) = Outbound) \<longrightarrow>
       (\<forall>q \<in> set (verifiedPeers s'). wp_direction (snd q) = Inbound \<longrightarrow> fst q \<in> set (local_links c (verifiedPeers s))))"
  using rebalance_loop_degree [of s "MAX_DEGREE * 2" c now n] assms
  by (simp add: evicts_fairly_def rebalance_def)

theorem rebalance_restores_degree_witness:
  "length (verifiedPeers (snd (rebalance (toy_pm [1]) 0 None
     (pm_init\<lparr>pm_peers := map (\<lambda>i. (replicate i CHR ''a'', (toy_wpeer [] [])\<lparr>wp_verified := True\<rparr>)) [0..<20]\<rparr>)))) \<le> 16"
proof -
  let ?s = "pm_init\<lparr>pm_peers := map (\<lambda>i. (replicate i CHR ''a'', (toy_wpeer [] [])\<lparr>wp_verified := True\<rparr>)) [0..<20]\<rparr>"
  have "jm_wf (pm_peers ?s)" by (simp add: jm_wf_def distinct_map comp_def inj_on_def)
  moreover have "length (verifiedPeers ?s) \<le> 48"
    using length_filter_le [of "\<lambda>(_, w). wp_connected w \<and> wp_verified w" "pm_peers ?s"] by (simp add: verifiedPeers_def)
  ultimately show ?thesis using rebalance_restores_degree [of ?s _ "toy_pm [1]" 0 None] by blast
qed

end
