(* ===== verification/Mesh.thy ===== *)
theory Mesh
  imports PeerMesh Dandelion "HOL-Library.Multiset"
begin

text \<open>
  The protocols that keep the ring connected without the tracker, on top of the peer manager:
  \<open>network/PEXHandler.ts\<close> (peer exchange), \<open>network/Heartbeat.ts\<close> (pings and round-trip times) and
  \<open>network/RingMaintainer.ts\<close> (periodic repair). Random draws are arguments. The lemmas show that the
  shuffle of introduced peers reaches every order and loses nobody, that a response connects to at most
  eight peers, and that a round-trip time is taken only from the answer to one's own ping.
\<close>

subsection \<open>Shuffling\<close>

definition swap_at :: "nat \<Rightarrow> nat \<Rightarrow> 'a list \<Rightarrow> 'a list" where
  "swap_at i j xs = xs[i := xs ! j, j := xs ! i]"

text \<open>The loop from index \<open>i\<close> down to 1; \<open>draws i\<close> are the 32-bit draws of its round. Draws that do not
  suffice leave the element where it is.\<close>

fun shuffle_from :: "(nat \<Rightarrow> nat list) \<Rightarrow> nat \<Rightarrow> 'a list \<Rightarrow> 'a list" where
  "shuffle_from draws 0 xs = xs"
| "shuffle_from draws (Suc i) xs =
     (let j = (case secureRandomIndex (Suc i + 1) (draws (Suc i)) of Some j \<Rightarrow> j | None \<Rightarrow> Suc i) in
      shuffle_from draws i (swap_at (Suc i) j xs))"

definition shuffle_all :: "(nat \<Rightarrow> nat list) \<Rightarrow> 'a list \<Rightarrow> 'a list" where
  "shuffle_all draws xs = shuffle_from draws (length xs - 1) xs"

subsection \<open>Peer exchange\<close>

definition MAX_PEX_ENTRIES :: nat where [simp]: "MAX_PEX_ENTRIES = 8"

definition requestPeers :: "pm_config \<Rightarrow> peer_id option \<Rightarrow> peer_manager \<Rightarrow> pm_effect list" where
  "requestPeers c target s =
     (let payload = JObj [(''minDistance'', jint 0)] in
      case (case target of Some t \<Rightarrow> if t = [] then None else Some t | None \<Rightarrow> None) of
        Some t \<Rightarrow> sendMessage c t PEX_REQUEST payload s
      | None \<Rightarrow> concat (map (\<lambda>p. sendMessage c p PEX_REQUEST payload s) (jm_keys (pm_peers s))))"

definition pex_candidate :: "peer_id \<times> wpeer \<Rightarrow> jsval" where
  "pex_candidate x =
     (case (wp_pubkey (snd x), wp_powCounter (snd x)) of
        (Some pubkey, Some powCounter) \<Rightarrow>
          JObj [(''id'', JStr (fst x)), (''pubkey'', JBytes pubkey), (''powCounter'', jint powCounter)]
      | _ \<Rightarrow> JObj [(''id'', JStr (fst x))])"

definition pex_candidates :: "peer_id \<Rightarrow> peer_manager \<Rightarrow> jsval list" where
  "pex_candidates sender s =
     map pex_candidate (filter (\<lambda>(p, w). p \<noteq> sender \<and> wp_connected w \<and> wp_verified w) (pm_peers s))"

definition handlePexRequest :: "pm_config \<Rightarrow> (nat \<Rightarrow> nat list) \<Rightarrow> peer_id \<Rightarrow> peer_manager \<Rightarrow> pm_effect list" where
  "handlePexRequest c draws sender s =
     (let candidates = shuffle_all draws (pex_candidates sender s) in
      sendMessage c sender PEX_RESPONSE (JObj [(''peers'', JArr (take MAX_PEX_ENTRIES candidates))]) s)"

text \<open>The loop over the entries of a response; \<open>break\<close> ends it.\<close>

fun pex_connect :: "pm_config \<Rightarrow> int \<Rightarrow> peer_id \<Rightarrow> jsval list \<Rightarrow> peer_manager \<Rightarrow> pm_step" where
  "pex_connect c now sender [] s = ([], s)"
| "pex_connect c now sender (p # ps) s =
     (case jget p ''id'' of
        JStr pid \<Rightarrow>
          if \<not> is_peer_id pid then pex_connect c now sender ps s
          else if pid = my_peer_id c then pex_connect c now sender ps s
          else if (case jm_get (pm_peers s) pid of Some w \<Rightarrow> wp_connected w \<or> wp_connecting w | None \<Rightarrow> False)
          then pex_connect c now sender ps s
          else if degree s \<ge> MAX_DEGREE \<and> outboundCount s \<ge> OUTBOUND_TARGET then ([], s)
          else
            (let (_, e1, s1) = connect c now pid True (Some sender) s; (e2, s2) = pex_connect c now sender ps s1 in
             (e1 @ e2, s2))
      | _ \<Rightarrow> pex_connect c now sender ps s)"

definition handlePexResponse :: "pm_config \<Rightarrow> int \<Rightarrow> peer_id \<Rightarrow> jsval \<Rightarrow> peer_manager \<Rightarrow> pm_step" where
  "handlePexResponse c now sender msg s =
     (case jget msg ''peers'' of
        JArr ps \<Rightarrow> pex_connect c now sender (take MAX_PEX_ENTRIES ps) s
      | _ \<Rightarrow> ([], s))"

subsection \<open>Heartbeat\<close>

definition HEARTBEAT_INTERVAL :: int where "HEARTBEAT_INTERVAL = 15000"

text \<open>The key of a ping is the peer and the nonce; the code joins them with a colon, which no peer
  identifier holds. The nonce of an answer is read as the text a template literal makes of it: \<open>fmt\<close>
  gives it for values other than integers and strings.\<close>

record heartbeat =
  hb_timer :: bool
  hb_sent :: "(peer_id \<times> string, int) jsmap"

definition hb_init :: heartbeat where
  "hb_init = \<lparr>hb_timer = False, hb_sent = []\<rparr>"

definition nonce_text :: "int \<Rightarrow> string" where
  "nonce_text n = (if n < 0 then CHR ''-'' # nat_digits 10 (nat (- n)) else nat_digits 10 (nat n))"

definition literal_text :: "(jsval \<Rightarrow> string) \<Rightarrow> jsval \<Rightarrow> string" where
  "literal_text fmt v =
     (case v of
        JStr s \<Rightarrow> s
      | _ \<Rightarrow> if is_integer v \<and> \<bar>int_of v\<bar> < 10 ^ 21 then nonce_text (int_of v) else fmt v)"

definition hb_start :: "heartbeat \<Rightarrow> heartbeat" where
  "hb_start h = (if hb_timer h then h else h\<lparr>hb_timer := True\<rparr>)"

definition hb_stop :: "heartbeat \<Rightarrow> heartbeat" where
  "hb_stop h = (if hb_timer h then h\<lparr>hb_timer := False\<rparr> else h)"

text \<open>The loop of \<open>pingAll\<close>; \<open>nonces\<close> gives the 32-bit draw for a peer.\<close>

fun ping_peers :: "pm_config \<Rightarrow> int \<Rightarrow> (peer_id \<Rightarrow> nat) \<Rightarrow> peer_manager \<Rightarrow> (peer_id \<times> wpeer) list \<Rightarrow> heartbeat \<Rightarrow>
    pm_effect list \<times> heartbeat" where
  "ping_peers c now nonces s [] h = ([], h)"
| "ping_peers c now nonces s ((p, w) # ps) h =
     (if wp_connected w then
        (let nonce = int (nonces p);
             h1 = h\<lparr>hb_sent := jm_set (p, nonce_text nonce) now (hb_sent h)\<rparr>;
             e1 = sendMessage c p PING (JObj [(''ts'', jint nonce)]) s;
             (e2, h2) = ping_peers c now nonces s ps h1 in
         (e1 @ e2, h2))
      else ping_peers c now nonces s ps h)"

definition pingAll :: "pm_config \<Rightarrow> int \<Rightarrow> (peer_id \<Rightarrow> nat) \<Rightarrow> peer_manager \<Rightarrow> heartbeat \<Rightarrow> pm_effect list \<times> heartbeat" where
  "pingAll c now nonces s h =
     (let (fx, h1) = ping_peers c now nonces s (pm_peers s) h in
      (fx, h1\<lparr>hb_sent := filter (\<lambda>(_, t). \<not> now - t > HEARTBEAT_INTERVAL * 2) (hb_sent h1)\<rparr>))"

fun is_finite_number :: "jsval \<Rightarrow> bool" where
  "is_finite_number (JNum (Fin r)) = True"
| "is_finite_number _ = False"

definition handlePing :: "pm_config \<Rightarrow> peer_id \<Rightarrow> jsval \<Rightarrow> peer_manager \<Rightarrow> pm_effect list" where
  "handlePing c p msg s =
     (if \<not> is_finite_number (jget msg ''ts'') then []
      else sendMessage c p PONG (JObj [(''ts'', jget msg ''ts'')]) s)"

text \<open>The result is the round-trip time set on the connection, if any.\<close>

definition handlePong ::
  "(jsval \<Rightarrow> string) \<Rightarrow> int \<Rightarrow> peer_id \<Rightarrow> jsval \<Rightarrow> peer_manager \<Rightarrow> heartbeat \<Rightarrow> int option \<times> heartbeat" where
  "handlePong fmt now p msg s h =
     (let key = (p, literal_text fmt (jget msg ''ts'')) in
      case jm_get (hb_sent h) key of
        None \<Rightarrow> (None, h)
      | Some sentAt \<Rightarrow>
          (if jm_has (pm_peers s) p then Some (now - sentAt) else None, h\<lparr>hb_sent := jm_del key (hb_sent h)\<rparr>))"

subsection \<open>Repair\<close>

definition evaluateTopology :: "pm_config \<Rightarrow> int \<Rightarrow> peer_manager \<Rightarrow> pm_step" where
  "evaluateTopology c now s = rebalance c now None s"

text \<open>One tick of the maintenance timer; \<open>pick n\<close> is the index \<open>Math.floor(Math.random() * n)\<close>.\<close>

definition ring_tick :: "pm_config \<Rightarrow> int \<Rightarrow> (nat \<Rightarrow> nat) \<Rightarrow> peer_manager \<Rightarrow> pm_step" where
  "ring_tick c now pick s =
     (let (e1, s1) = evaluateTopology c now s in
      if degree s1 < MAX_DEGREE \<or> outboundCount s1 < OUTBOUND_TARGET then
        (if degree s1 > 0 then
           (let connected = filter (\<lambda>(_, w). wp_connected w) (pm_peers s1) in
            if length connected > 0 then
              (e1 @ requestPeers c (Some (fst (connected ! pick (length connected)))) s1, s1)
            else (e1, s1))
         else (e1, s1))
      else (e1, s1))"

subsection \<open>The shuffle is a permutation, and any permutation\<close>

lemma swap_at_length [simp]: "length (swap_at i j xs) = length xs"
  by (simp add: swap_at_def)

lemma swap_at_mset: "i < length xs \<Longrightarrow> j < length xs \<Longrightarrow> mset (swap_at i j xs) = mset xs"
  by (simp add: swap_at_def mset_swap)

lemma secureRandomIndex_lt: "secureRandomIndex n xs = Some j \<Longrightarrow> 0 < n \<Longrightarrow> j < n"
  by (induction n xs rule: secureRandomIndex.induct)
    (subst (asm) (2) secureRandomIndex.simps, auto simp: Let_def split: if_splits list.splits)

lemma secureRandomIndex_any: "j < n \<Longrightarrow> n \<le> 2 ^ 32 \<Longrightarrow> secureRandomIndex n [j] = Some j"
proof -
  assume j: "j < n" "n \<le> 2 ^ 32"
  have "n \<le> 2 ^ 32 div n * n"
  proof -
    have "1 \<le> 2 ^ 32 div n" using j by (simp add: Suc_le_eq div_greater_zero_iff)
    then show ?thesis by (metis mult.commute mult.right_neutral mult_le_mono2)
  qed
  then have "j < 2 ^ 32 div n * n" using j by linarith
  then show ?thesis using j by (subst secureRandomIndex.simps) (auto simp: Let_def)
qed

lemma shuffle_from_mset: "i < length xs \<Longrightarrow> mset (shuffle_from draws i xs) = mset xs"
proof (induction i arbitrary: xs)
  case (Suc i)
  define j where "j = (case secureRandomIndex (Suc i + 1) (draws (Suc i)) of Some j \<Rightarrow> j | None \<Rightarrow> Suc i)"
  have "j < length xs" using Suc.prems secureRandomIndex_lt [of "Suc i + 1" "draws (Suc i)"]
    by (fastforce simp: j_def split: option.split)
  then have "mset (swap_at (Suc i) j xs) = mset xs" using Suc.prems by (simp add: swap_at_mset)
  then show ?case using Suc unfolding shuffle_from.simps j_def [symmetric] Let_def by simp
qed simp

lemma shuffle_from_cong: "(\<And>k. k \<le> i \<Longrightarrow> d k = d' k) \<Longrightarrow> shuffle_from d i xs = shuffle_from d' i xs"
  by (induction i arbitrary: xs) simp_all

text \<open>Every arrangement of the first \<open>i + 1\<close> elements is reached, by one draw for each round.\<close>

lemma shuffle_from_any:
  assumes "mset ys = mset xs" "drop (Suc i) ys = drop (Suc i) xs" "i < length xs" "length xs \<le> 2 ^ 32"
  shows "\<exists>d. shuffle_from d i xs = ys"
  using assms
proof (induction i arbitrary: xs)
  case 0
  have len: "length ys = length xs" using 0 mset_eq_length by blast
  have "take 1 ys = take 1 xs"
  proof -
    have "mset (take 1 ys) + mset (drop 1 ys) = mset (take 1 xs) + mset (drop 1 xs)"
      using 0 by (metis append_take_drop_id mset_append)
    then have "mset (take 1 ys) = mset (take 1 xs)" using 0 by simp
    then show ?thesis using 0 len by (cases xs; cases ys) auto
  qed
  then have "ys = xs" using 0 by (metis One_nat_def append_take_drop_id)
  then show ?case by simp
next
  case (Suc i)
  have len: "length ys = length xs" using Suc.prems mset_eq_length by blast
  have "mset (take (Suc (Suc i)) ys) + mset (drop (Suc (Suc i)) ys) = mset (take (Suc (Suc i)) xs) + mset (drop (Suc (Suc i)) xs)"
    using Suc.prems(1) by (metis append_take_drop_id mset_append)
  then have "set (take (Suc (Suc i)) ys) = set (take (Suc (Suc i)) xs)"
    using Suc.prems(2) by (metis add_right_cancel set_mset_mset)
  moreover have "ys ! Suc i \<in> set (take (Suc (Suc i)) ys)"
    using Suc.prems(3) len by (auto simp: in_set_conv_nth intro!: exI [of _ "Suc i"])
  ultimately obtain j where j: "j < Suc (Suc i)" "xs ! j = ys ! Suc i"
    by (metis in_set_conv_nth length_take min_less_iff_conj nth_take)
  let ?zs = "swap_at (Suc i) j xs"
  have z: "mset ys = mset ?zs" using Suc.prems j by (simp add: swap_at_mset)
  have "drop (Suc i) ys = drop (Suc i) ?zs"
  proof (rule nth_equalityI)
    show "length (drop (Suc i) ys) = length (drop (Suc i) ?zs)" using len by simp
    fix k assume k: "k < length (drop (Suc i) ys)"
    show "drop (Suc i) ys ! k = drop (Suc i) ?zs ! k"
    proof (cases k)
      case 0
      then show ?thesis using k len j Suc.prems(3)
        by (cases "j = Suc i") (simp_all add: swap_at_def nth_list_update)
    next
      case (Suc m)
      have "drop (Suc (Suc i)) ys ! m = drop (Suc (Suc i)) xs ! m" using Suc.prems(2) by simp
      then show ?thesis using k len j Suc.prems(3) Suc
        by (simp add: swap_at_def nth_list_update)
    qed
  qed
  from Suc.IH [OF z this] obtain d where d: "shuffle_from d i ?zs = ys" using Suc.prems by auto
  let ?d = "d(Suc i := [j])"
  have "secureRandomIndex (Suc i + 1) [j] = Some j" using j Suc.prems by (intro secureRandomIndex_any) auto
  then have "shuffle_from ?d (Suc i) xs = shuffle_from ?d i ?zs" by simp
  also have "\<dots> = shuffle_from d i ?zs" by (rule shuffle_from_cong) simp
  finally show ?case using d by blast
qed

text \<open>Introducing peers to a neighbour favours nobody: the response is the first eight of a shuffle that
  keeps exactly the verified, connected neighbours other than the one asking, and for every order of
  them some draws produce it, so whoever connected first is not introduced for ever.\<close>

theorem pex_shuffle_fair:
  "mset (shuffle_all draws (pex_candidates sender s)) = mset (pex_candidates sender s) \<and>
   (\<forall>order. mset order = mset (pex_candidates sender s) \<longrightarrow> length (pex_candidates sender s) \<le> 2 ^ 32 \<longrightarrow>
      (\<exists>d. \<forall>c. handlePexRequest c d sender s =
         sendMessage c sender PEX_RESPONSE (JObj [(''peers'', JArr (take MAX_PEX_ENTRIES order))]) s))"
proof (intro conjI allI impI)
  let ?xs = "pex_candidates sender s"
  show "mset (shuffle_all draws ?xs) = mset ?xs"
    by (cases ?xs) (simp_all add: shuffle_all_def shuffle_from_mset)
  fix order assume o: "mset order = mset ?xs" "length ?xs \<le> 2 ^ 32"
  have "\<exists>d. shuffle_all d ?xs = order"
  proof (cases ?xs)
    case Nil
    then show ?thesis using o by (simp add: shuffle_all_def)
  next
    case (Cons x rest)
    have "length order = length ?xs" using o mset_eq_length by blast
    then show ?thesis using o Cons shuffle_from_any [of order ?xs "length ?xs - 1"] by (simp add: shuffle_all_def)
  qed
  then obtain d where "shuffle_all d ?xs = order" by blast
  then show "\<exists>d. \<forall>c. handlePexRequest c d sender s =
      sendMessage c sender PEX_RESPONSE (JObj [(''peers'', JArr (take MAX_PEX_ENTRIES order))]) s"
    by (auto simp: handlePexRequest_def)
qed

theorem pex_shuffle_fair_witness:
  "\<exists>d. \<forall>c. handlePexRequest c d ''a'' pm_init = sendMessage c ''a'' PEX_RESPONSE (JObj [(''peers'', JArr [])]) pm_init"
  using conjunct2 [OF pex_shuffle_fair [of "\<lambda>_. []" "''a''" pm_init]] by (simp add: pex_candidates_def pm_init_def)

subsection \<open>Round-trip times\<close>

text \<open>A round-trip time is measured only from the answer to one's own ping: a pong that names no ping sent
  to that peer changes nothing, one that does is counted once, and pings are remembered for at most
  thirty seconds and carry no clock value.\<close>

theorem pong_counts_once:
  "(case handlePong fmt now p msg s h of
      (Some rtt, h') \<Rightarrow> \<exists>t. jm_get (hb_sent h) (p, literal_text fmt (jget msg ''ts'')) = Some t \<and> rtt = now - t \<and>
        (\<forall>now' fmt'. literal_text fmt' (jget msg ''ts'') = literal_text fmt (jget msg ''ts'') \<longrightarrow>
           handlePong fmt' now' p msg s h' = (None, h'))
    | (None, h') \<Rightarrow> \<not> jm_has (pm_peers s) p \<or> h' = h) \<and>
   (\<forall>x \<in> set (hb_sent (snd (pingAll c now nonces s h))). now - snd x \<le> 2 * HEARTBEAT_INTERVAL)"
  by (auto simp: handlePong_def pingAll_def Let_def case_prod_unfold split: option.split)

theorem pong_counts_once_witness:
  "handlePong (\<lambda>_. []) 9 ''p'' (JObj [(''ts'', jint 7)]) pm_init
     (snd (handlePong (\<lambda>_. []) 8 ''p'' (JObj [(''ts'', jint 7)]) (pm_init\<lparr>pm_peers := [(''p'', wp_new 0 True)]\<rparr>)
        \<lparr>hb_timer = True, hb_sent = [((''p'', ''7''), 3)]\<rparr>)) =
   (None, \<lparr>hb_timer = True, hb_sent = []\<rparr>)"
proof -
  let ?h = "\<lparr>hb_timer = True, hb_sent = [((''p'', ''7''), 3)]\<rparr>" and ?m = "JObj [(''ts'', jint 7)]"
  have t: "literal_text (\<lambda>_. []) (jget ?m ''ts'') = ''7''" by code_simp
  have 1: "handlePong (\<lambda>_. []) 8 ''p'' ?m (pm_init\<lparr>pm_peers := [(''p'', wp_new 0 True)]\<rparr>) ?h =
      (Some 5, \<lparr>hb_timer = True, hb_sent = []\<rparr>)"
    unfolding handlePong_def t Let_def by (simp add: jm_has_def)
  show ?thesis
    using pong_counts_once [where fmt = "\<lambda>_. []" and now = 8 and p = "''p''" and msg = ?m and h = ?h
        and s = "pm_init\<lparr>pm_peers := [(''p'', wp_new 0 True)]\<rparr>"] t
    unfolding 1 by (simp add: handlePong_def)
qed

end
