(* ===== verification/Onion.thy ===== *)
theory Onion
  imports PeerManager
begin

text \<open>
  \<open>packages/core/src/crypto/OnionRouter.ts\<close>: the layered cells an author's traffic travels in. The
  instruction for the exit is padded to a fixed length and sealed for it, every relay before it adds
  a sealed layer that names the next hop, and the outermost layer is padded to one cell. The bytes
  of the padding and of the ephemeral keys are arguments. The static cache of converted public keys
  is passed through the operations that use it. The lemmas show that the cache is invisible, that a
  circuit unwraps hop by hop to what was wrapped, that all an intermediate hop sees has the same
  length whatever is inside, and what a received payload has been checked for.
\<close>

subsection \<open>Payloads\<close>

definition SEAL_OVERHEAD :: nat where [simp]: "SEAL_OVERHEAD = 48"
definition XPK_CACHE_LIMIT :: nat where "XPK_CACHE_LIMIT = 4096"
definition CELL_SIZE :: nat where [simp]: "CELL_SIZE = 3800"
definition EXIT_LAYER_SIZE :: nat where [simp]: "EXIT_LAYER_SIZE = 3400"
definition SEALED_EXIT_LAYER_SIZE :: nat where
  [simp]: "SEALED_EXIT_LAYER_SIZE = EXIT_LAYER_SIZE + SEAL_OVERHEAD"
definition CELL_MAGIC :: bytes where "CELL_MAGIC = [0xa5, 0x5a]"

datatype exit_payload =
    ExitFluff int jsval "(string \<times> bytes) option"
  | ExitHint bytes
  | Drop

datatype onion_payload = Relay peer_id bytes | Exit exit_payload

type_synonym onion_hop = "peer_id \<times> bytes"

text \<open>The objects given to \<open>msgpackEncode\<close>.\<close>

fun exit_val :: "exit_payload \<Rightarrow> jsval" where
  "exit_val (ExitFluff zoneId packet slot) =
     JObj ([(''type'', JStr ''exit_fluff''), (''zoneId'', jint zoneId), (''packet'', packet)] @
       (case slot of None \<Rightarrow> []
        | Some (topicHash, hint) \<Rightarrow>
            [(''slot'', JObj [(''topicHash'', JStr topicHash), (''hint'', JBytes hint)])]))"
| "exit_val (ExitHint hint) = JObj [(''type'', JStr ''exit_hint''), (''hint'', JBytes hint)]"
| "exit_val Drop = JObj [(''type'', JStr ''drop'')]"

definition relay_val :: "peer_id \<Rightarrow> bytes \<Rightarrow> jsval" where
  "relay_val nextHop innerOnion =
     JObj [(''type'', JStr ''relay''), (''nextHop'', JStr nextHop), (''innerOnion'', JBytes innerOnion)]"

subsection \<open>Cells\<close>

definition padCell :: "nat \<Rightarrow> bytes \<Rightarrow> bytes \<Rightarrow> bytes res" where
  "padCell cellSize payload random =
     (if length payload + 4 > cellSize then Inl (OtherError ''payload exceeds cell capacity'')
      else Inr (CELL_MAGIC @ be_bytes 2 (int (length payload)) @ payload @
             pad_to (cellSize - 4 - length payload) random))"

definition unpadCell :: "nat \<Rightarrow> bytes \<Rightarrow> bytes option" where
  "unpadCell expectedSize cell =
     (if length cell \<noteq> expectedSize then None
      else if take 2 cell \<noteq> CELL_MAGIC then None
      else
        (let len = nat (be_val (slice 2 4 cell)) in
         if len + 4 > length cell then None else Some (slice 4 (4 + len) cell)))"

subsection \<open>Converted keys\<close>

type_synonym xpk_cache = "(string, bytes) jsmap"

text \<open>\<open>None\<close>: libsodium rejects the key by an exception.\<close>

definition toCurvePublicKey :: "sodium \<Rightarrow> bytes \<Rightarrow> xpk_cache \<Rightarrow> bytes option \<times> xpk_cache" where
  "toCurvePublicKey S edPubkey cache =
     (let hex = toHex edPubkey in
      case jm_get cache hex of
        Some xPk \<Rightarrow> (Some xPk, cache)
      | None \<Rightarrow>
          (case pk_to_curve S edPubkey of
             None \<Rightarrow> (None, cache)
           | Some xPk \<Rightarrow>
               (let c1 = (if length cache \<ge> XPK_CACHE_LIMIT then jm_drop_oldest cache else cache) in
                (Some xPk, jm_set hex xPk c1))))"

definition toCurvePrivateKey :: "sodium \<Rightarrow> bytes \<Rightarrow> bytes" where
  "toCurvePrivateKey S edPrivkey = sk_to_curve S edPrivkey"

subsection \<open>Wrapping\<close>

text \<open>One sealed layer for the key of a hop; \<open>r\<close> is the randomness of its ephemeral key.\<close>

definition seal_for :: "sodium \<Rightarrow> bytes \<Rightarrow> bytes \<Rightarrow> bytes \<Rightarrow> xpk_cache \<Rightarrow> bytes res \<times> xpk_cache" where
  "seal_for S plain edPubkey r cache =
     (case toCurvePublicKey S edPubkey cache of
        (None, c) \<Rightarrow> (Inl (OtherError ''invalid public key''), c)
      | (Some xPk, c) \<Rightarrow> (Inr (box_seal S plain xPk r), c))"

text \<open>The loop over the hops before the exit, last one first; \<open>rs\<close> gives the randomness of the layer
  of the hop with that many hops before it.\<close>

fun wrap_relays ::
  "sodium \<Rightarrow> msgpack \<Rightarrow> (nat \<Rightarrow> bytes) \<Rightarrow> peer_id \<Rightarrow> bytes \<Rightarrow> onion_hop list \<Rightarrow> xpk_cache \<Rightarrow> bytes res \<times> xpk_cache" where
  "wrap_relays S M rs nextHop ct [] cache = (Inr ct, cache)"
| "wrap_relays S M rs nextHop ct (hop # before) cache =
     (case seal_for S (mp_encode M (relay_val nextHop ct)) (snd hop) (rs (length before)) cache of
        (Inl e, c) \<Rightarrow> (Inl e, c)
      | (Inr ct', c) \<Rightarrow> wrap_relays S M rs (fst hop) ct' before c)"

definition wrapCircuit ::
  "sodium \<Rightarrow> msgpack \<Rightarrow> bytes \<Rightarrow> (nat \<Rightarrow> bytes) \<Rightarrow> bytes \<Rightarrow> exit_payload \<Rightarrow> onion_hop list \<Rightarrow> xpk_cache \<Rightarrow>
     bytes res \<times> xpk_cache" where
  "wrapCircuit S M exitPad rs cellPad exit hops cache =
     (if hops = [] then (Inl (OtherError ''hops list cannot be empty''), cache)
      else
        (case padCell EXIT_LAYER_SIZE (mp_encode M (exit_val exit)) exitPad of
           Inl e \<Rightarrow> (Inl e, cache)
         | Inr layer \<Rightarrow>
             (case seal_for S layer (snd (last hops)) (rs (length hops - 1)) cache of
                (Inl e, c) \<Rightarrow> (Inl e, c)
              | (Inr ct, c) \<Rightarrow>
                  (case wrap_relays S M rs (fst (last hops)) ct (rev (butlast hops)) c of
                     (Inl e, c') \<Rightarrow> (Inl e, c')
                   | (Inr ct', c') \<Rightarrow> (padCell CELL_SIZE ct' cellPad, c')))))"

definition wrapStem ::
  "sodium \<Rightarrow> msgpack \<Rightarrow> bytes \<Rightarrow> (nat \<Rightarrow> bytes) \<Rightarrow> bytes \<Rightarrow> jsval \<Rightarrow> onion_hop list \<Rightarrow> xpk_cache \<Rightarrow>
     bytes res \<times> xpk_cache" where
  "wrapStem S M exitPad rs cellPad packet hops cache =
     wrapCircuit S M exitPad rs cellPad (ExitFluff (int_of (jget packet ''zone_id'')) packet None) hops cache"

subsection \<open>Unwrapping\<close>

text \<open>The optional slot of a fluff instruction: the outer \<open>None\<close> rejects the payload.\<close>

definition parse_slot :: "jsval \<Rightarrow> (string \<times> bytes) option option" where
  "parse_slot s =
     (if s = Undef \<or> s = Null then Some None
      else
        (case (jget s ''topicHash'', jget s ''hint'') of
           (JStr topicHash, JBytes hint) \<Rightarrow> Some (Some (topicHash, hint))
         | _ \<Rightarrow> None))"

definition parsePayload :: "jsval \<Rightarrow> onion_payload option" where
  "parsePayload decoded =
     (if \<not> is_object decoded then None
      else if jget decoded ''type'' = JStr ''relay'' then
        (case (jget decoded ''nextHop'', jget decoded ''innerOnion'') of
           (JStr nextHop, JBytes innerOnion) \<Rightarrow>
             if is_peer_id nextHop \<and> length innerOnion + 4 \<le> CELL_SIZE then Some (Relay nextHop innerOnion) else None
         | _ \<Rightarrow> None)
      else if jget decoded ''type'' = JStr ''exit_fluff'' then
        (if \<not> is_object (jget decoded ''packet'') then None
         else if \<not> is_integer (jget decoded ''zoneId'') then None
         else
           (case parse_slot (jget decoded ''slot'') of
              None \<Rightarrow> None
            | Some slot \<Rightarrow> Some (Exit (ExitFluff (int_of (jget decoded ''zoneId'')) (jget decoded ''packet'') slot))))
      else if jget decoded ''type'' = JStr ''exit_hint'' then
        (case jget decoded ''hint'' of JBytes hint \<Rightarrow> Some (Exit (ExitHint hint)) | _ \<Rightarrow> None)
      else if jget decoded ''type'' = JStr ''drop'' then Some (Exit Drop)
      else None)"

text \<open>A plaintext of the exit layer's length has its padding taken off.\<close>

definition strip_exit_layer :: "bytes \<Rightarrow> bytes" where
  "strip_exit_layer plaintext =
     (if length plaintext = EXIT_LAYER_SIZE then
        (case unpadCell EXIT_LAYER_SIZE plaintext of Some inner \<Rightarrow> inner | None \<Rightarrow> plaintext)
      else plaintext)"

definition unwrapWithCurveKeys :: "sodium \<Rightarrow> msgpack \<Rightarrow> bytes \<Rightarrow> bytes \<Rightarrow> bytes \<Rightarrow> onion_payload option" where
  "unwrapWithCurveKeys S M cell myXPk myXSk =
     (case unpadCell CELL_SIZE cell of
        None \<Rightarrow> None
      | Some rawCiphertext \<Rightarrow>
          (case box_seal_open S rawCiphertext myXPk myXSk of
             None \<Rightarrow> None
           | Some plaintext \<Rightarrow>
               (case mp_decode M (strip_exit_layer plaintext) of
                  None \<Rightarrow> None
                | Some decoded \<Rightarrow> parsePayload decoded)))"

text \<open>The key conversion of \<open>unwrap\<close> is outside its handler of exceptions: a key of one's own that
  libsodium rejects is an error.\<close>

definition unwrap :: "sodium \<Rightarrow> msgpack \<Rightarrow> bytes \<Rightarrow> bytes \<Rightarrow> bytes \<Rightarrow> xpk_cache \<Rightarrow> onion_payload option res \<times> xpk_cache" where
  "unwrap S M cell myEdPubkey myEdPrivkey cache =
     (case toCurvePublicKey S myEdPubkey cache of
        (None, c) \<Rightarrow> (Inl (OtherError ''invalid public key''), c)
      | (Some xPk, c) \<Rightarrow> (Inr (unwrapWithCurveKeys S M cell xPk (toCurvePrivateKey S myEdPrivkey)), c))"

subsection \<open>The cache is invisible\<close>

definition cache_ok :: "sodium \<Rightarrow> xpk_cache \<Rightarrow> bool" where
  "cache_ok S c \<longleftrightarrow> jm_wf c \<and> length c \<le> XPK_CACHE_LIMIT \<and>
     (\<forall>k x. jm_get c k = Some x \<longrightarrow> (\<exists>pk. k = toHex pk \<and> pk_to_curve S pk = Some x))"

lemma cache_ok_Nil [simp]: "cache_ok S []"
  by (simp add: cache_ok_def)

lemma drop_oldest_get: "jm_wf m \<Longrightarrow> jm_get (jm_drop_oldest m) k = Some x \<Longrightarrow> jm_get m k = Some x"
  by (auto simp: jm_drop_oldest_def split: list.splits if_splits)

lemma toCurve_ok:
  assumes "cache_ok S c"
  shows "fst (toCurvePublicKey S pk c) = pk_to_curve S pk" (is ?fst)
    and "cache_ok S (snd (toCurvePublicKey S pk c))" (is ?snd)
proof -
  have hit: "jm_get c (toHex pk) = Some x \<Longrightarrow> pk_to_curve S pk = Some x" for x
    using assms unfolding cache_ok_def by (metis toHex_inject)
  show ?fst
  proof (cases "jm_get c (toHex pk)")
    case None
    then show ?thesis by (simp add: toCurvePublicKey_def Let_def split: option.split)
  next
    case (Some x)
    then show ?thesis using hit [of x] by (simp add: toCurvePublicKey_def Let_def)
  qed
  define c1 where "c1 = (if length c \<ge> XPK_CACHE_LIMIT then jm_drop_oldest c else c)"
  have wf: "jm_wf c1" using assms by (simp add: c1_def cache_ok_def)
  have get: "jm_get c1 k = Some x \<Longrightarrow> jm_get c k = Some x" for k x
    using assms drop_oldest_get [of c k x] by (simp add: c1_def cache_ok_def split: if_splits)
  have "length c1 < XPK_CACHE_LIMIT"
    using assms by (auto simp: c1_def cache_ok_def jm_drop_oldest_tl XPK_CACHE_LIMIT_def)
  moreover have "\<exists>p. k = toHex p \<and> pk_to_curve S p = Some y" if "jm_get c1 k = Some y" for k y
    using assms get [OF that] by (simp add: cache_ok_def)
  ultimately have new: "cache_ok S (jm_set (toHex pk) x c1)" if "pk_to_curve S pk = Some x" for x
    using wf that by (simp add: cache_ok_def length_jm_set)
  show ?snd
  proof (cases "jm_get c (toHex pk)")
    case None
    then show ?thesis using new assms
      by (cases "pk_to_curve S pk") (simp_all add: toCurvePublicKey_def Let_def c1_def)
  next
    case (Some x)
    then show ?thesis using assms by (simp add: toCurvePublicKey_def Let_def)
  qed
qed

lemma toCurve_cases:
  assumes "cache_ok S c"
  obtains c' where "toCurvePublicKey S pk c = (pk_to_curve S pk, c')" "cache_ok S c'"
  using toCurve_ok [OF assms, of pk] by (cases "toCurvePublicKey S pk c") auto

text \<open>What \<open>seal_for\<close> gives without a cache, and the circuit by recursion from the first hop.\<close>

definition seal_spec :: "sodium \<Rightarrow> bytes \<Rightarrow> bytes \<Rightarrow> bytes \<Rightarrow> bytes res" where
  "seal_spec S plain pk r =
     (case pk_to_curve S pk of
        None \<Rightarrow> Inl (OtherError ''invalid public key'')
      | Some xPk \<Rightarrow> Inr (box_seal S plain xPk r))"

fun layers_spec :: "sodium \<Rightarrow> msgpack \<Rightarrow> (nat \<Rightarrow> bytes) \<Rightarrow> bytes \<Rightarrow> nat \<Rightarrow> onion_hop list \<Rightarrow> bytes res" where
  "layers_spec S M rs layer i [] = Inl (OtherError ''hops list cannot be empty'')"
| "layers_spec S M rs layer i [hop] = seal_spec S layer (snd hop) (rs i)"
| "layers_spec S M rs layer i (hop # nxt # rest) =
     rbind (layers_spec S M rs layer (Suc i) (nxt # rest)) (\<lambda>ct.
       seal_spec S (mp_encode M (relay_val (fst nxt) ct)) (snd hop) (rs i))"

lemma seal_for_ok:
  assumes "cache_ok S c"
  obtains c' where "seal_for S plain pk r c = (seal_spec S plain pk r, c')" "cache_ok S c'"
proof -
  obtain c' where "toCurvePublicKey S pk c = (pk_to_curve S pk, c')" "cache_ok S c'"
    using assms by (rule toCurve_cases)
  then show thesis using that [of c'] by (auto simp: seal_for_def seal_spec_def split: option.splits)
qed

lemma layers_spec_append:
  assumes "s \<noteq> []"
  shows "layers_spec S M rs layer (i + length hs) s = Inl e \<Longrightarrow> layers_spec S M rs layer i (hs @ s) = Inl e"
proof (induction hs arbitrary: i)
  case (Cons h hs)
  then obtain nxt rest where eq: "hs @ s = nxt # rest" using assms by (cases "hs @ s") auto
  show ?case using Cons.IH [of "Suc i"] Cons.prems by (simp add: eq)
qed simp

lemma wrap_relays_spec:
  assumes "layers_spec S M rs layer (length hs) (last_hop # s) = Inr ct" "cache_ok S c"
  shows "\<exists>c'. wrap_relays S M rs (fst last_hop) ct (rev hs) c =
      (layers_spec S M rs layer 0 (hs @ last_hop # s), c') \<and> cache_ok S c'"
  using assms
proof (induction hs arbitrary: last_hop s ct c rule: rev_induct)
  case (snoc hop hs)
  let ?seal = "seal_spec S (mp_encode M (relay_val (fst last_hop) ct)) (snd hop) (rs (length hs))"
  obtain c1 where c1: "seal_for S (mp_encode M (relay_val (fst last_hop) ct)) (snd hop) (rs (length hs)) c = (?seal, c1)"
    "cache_ok S c1" using snoc.prems(2) by (rule seal_for_ok)
  have lay: "layers_spec S M rs layer (length hs) (hop # last_hop # s) = ?seal" using snoc.prems(1) by simp
  show ?case
  proof (cases ?seal)
    case (Inl e)
    then show ?thesis using c1 lay layers_spec_append [of "hop # last_hop # s" S M rs layer 0 hs e] by simp
  next
    case (Inr ct')
    then show ?thesis using c1 lay snoc.IH [of hop "last_hop # s" ct' c1] by simp
  qed
qed simp

lemma wrapCircuit_ok:
  assumes "cache_ok S c"
  obtains c' where "wrapCircuit S M exitPad rs cellPad exit hops c =
      ((if hops = [] then Inl (OtherError ''hops list cannot be empty'')
        else rbind (padCell EXIT_LAYER_SIZE (mp_encode M (exit_val exit)) exitPad) (\<lambda>layer.
          rbind (layers_spec S M rs layer 0 hops) (\<lambda>ct. padCell CELL_SIZE ct cellPad))), c')"
    "cache_ok S c'"
proof (cases "hops = []")
  case True
  then show thesis using assms that [of c] by (simp add: wrapCircuit_def)
next
  case False
  then have hops: "hops = butlast hops @ [last hops]" by simp
  show thesis
  proof (cases "padCell EXIT_LAYER_SIZE (mp_encode M (exit_val exit)) exitPad")
    case (Inl e)
    then show thesis using assms False that [of c] by (simp add: wrapCircuit_def)
  next
    case (Inr layer)
    let ?seal = "seal_spec S layer (snd (last hops)) (rs (length hops - 1))"
    obtain c1 where c1: "seal_for S layer (snd (last hops)) (rs (length hops - 1)) c = (?seal, c1)" "cache_ok S c1"
      using assms by (rule seal_for_ok)
    have lay: "layers_spec S M rs layer (length (butlast hops)) [last hops] = ?seal" by simp
    show thesis
    proof (cases ?seal)
      case (Inl e)
      then have "layers_spec S M rs layer 0 hops = Inl e"
        using layers_spec_append [of "[last hops]" S M rs layer 0 "butlast hops" e] False by simp
      then show thesis using c1 Inl Inr False that [of c1] by (simp add: wrapCircuit_def)
    next
      case (Inr ct)
      from wrap_relays_spec [OF lay [unfolded Inr] c1(2)]
      obtain c2 where c2: "wrap_relays S M rs (fst (last hops)) ct (rev (butlast hops)) c1 =
          (layers_spec S M rs layer 0 hops, c2)" "cache_ok S c2" using False by auto
      show thesis
        using c1 c2 Inr \<open>padCell EXIT_LAYER_SIZE _ exitPad = Inr layer\<close> False that [of c2]
        by (cases "layers_spec S M rs layer 0 hops") (simp_all add: wrapCircuit_def)
    qed
  qed
qed

text \<open>C3: Whatever the cache of converted keys holds, the cell an author makes is the one the nested
  description of the layers gives, with the same errors, and the cache stays within its limit.\<close>

theorem wrapCircuit_refines_layers:
  assumes "cache_ok S c"
  shows "fst (wrapCircuit S M exitPad rs cellPad exit hops c) =
      (if hops = [] then Inl (OtherError ''hops list cannot be empty'')
       else rbind (padCell EXIT_LAYER_SIZE (mp_encode M (exit_val exit)) exitPad) (\<lambda>layer.
         rbind (layers_spec S M rs layer 0 hops) (\<lambda>ct. padCell CELL_SIZE ct cellPad))) \<and>
    cache_ok S (snd (wrapCircuit S M exitPad rs cellPad exit hops c))"
proof -
  obtain c' where c': "wrapCircuit S M exitPad rs cellPad exit hops c =
      ((if hops = [] then Inl (OtherError ''hops list cannot be empty'')
        else rbind (padCell EXIT_LAYER_SIZE (mp_encode M (exit_val exit)) exitPad) (\<lambda>layer.
          rbind (layers_spec S M rs layer 0 hops) (\<lambda>ct. padCell CELL_SIZE ct cellPad))), c')"
    "cache_ok S c'" by (rule wrapCircuit_ok [OF assms])
  show ?thesis unfolding c'(1) fst_conv snd_conv using c'(2) by blast
qed

theorem wrapCircuit_refines_layers_witness:
  "fst (wrapCircuit toy_sodium toy_msgpack [] (\<lambda>_. []) [] Drop [(''e'', [1])] []) =
     rbind (padCell EXIT_LAYER_SIZE [] []) (\<lambda>layer. rbind (seal_spec toy_sodium layer [1] []) (\<lambda>ct. padCell CELL_SIZE ct []))"
  using wrapCircuit_refines_layers [of toy_sodium "[]" toy_msgpack "[]" "\<lambda>_. []" "[]" Drop "[(''e'', [1])]"]
  by (simp add: toy_msgpack_def)

subsection \<open>Cells\<close>

lemma padCell_Inr:
  assumes "length payload + 4 \<le> cellSize"
  obtains cell where "padCell cellSize payload random = Inr cell"
  using assms by (simp add: padCell_def)

lemma padCell_length: "padCell cellSize payload random = Inr cell \<Longrightarrow> length cell = cellSize"
  by (auto simp: padCell_def CELL_MAGIC_def split: if_splits)

lemma unpadCell_padCell:
  assumes "padCell cellSize payload random = Inr cell" "cellSize \<le> 65535"
  shows "unpadCell cellSize cell = Some payload"
proof -
  have len: "length payload + 4 \<le> cellSize"
    and cell: "cell = CELL_MAGIC @ be_bytes 2 (int (length payload)) @ payload @ pad_to (cellSize - 4 - length payload) random"
    using assms(1) by (auto simp: padCell_def split: if_splits)
  have m: "length CELL_MAGIC = 2" by (simp add: CELL_MAGIC_def)
  have "be_val (slice 2 4 cell) = int (length payload)"
    using len assms(2) m by (simp add: cell slice_def be_val_be_bytes)
  moreover have "slice 4 (4 + length payload) cell = payload"
    using m by (simp add: cell slice_def)
  ultimately show ?thesis using len m padCell_length [OF assms(1)]
    by (simp add: unpadCell_def Let_def) (simp add: cell)
qed

text \<open>The exit layer is recognised by its length, so the padding of any other plaintext is left alone.\<close>

lemma strip_exit_layer_padCell:
  "padCell EXIT_LAYER_SIZE payload random = Inr layer \<Longrightarrow> strip_exit_layer layer = payload"
  using unpadCell_padCell [of EXIT_LAYER_SIZE payload random layer] padCell_length [of EXIT_LAYER_SIZE payload random layer]
  by (simp add: strip_exit_layer_def)

lemma unwrap_sealed:
  assumes "padCell CELL_SIZE (box_seal S m xpk r) random = Inr cell"
    "box_seal_open S (box_seal S m xpk r) xpk xsk = Some m"
  shows "unwrapWithCurveKeys S M cell xpk xsk =
    (case mp_decode M (strip_exit_layer m) of None \<Rightarrow> None | Some v \<Rightarrow> parsePayload v)"
  using unpadCell_padCell [OF assms(1)] assms(2) by (simp add: unwrapWithCurveKeys_def)

subsection \<open>What a payload has been checked for\<close>

fun payload_ok :: "onion_payload \<Rightarrow> bool" where
  "payload_ok (Relay nextHop inner) \<longleftrightarrow> is_peer_id nextHop \<and> length inner + 4 \<le> CELL_SIZE"
| "payload_ok (Exit (ExitFluff z packet slot)) \<longleftrightarrow> is_object packet"
| "payload_ok (Exit _) \<longleftrightarrow> True"

fun payload_val :: "onion_payload \<Rightarrow> jsval" where
  "payload_val (Relay nextHop inner) = relay_val nextHop inner"
| "payload_val (Exit e) = exit_val e"

lemma parse_payload_val: "payload_ok p \<Longrightarrow> parsePayload (payload_val p) = Some p"
  by (cases p rule: payload_ok.cases)
    (auto simp: parsePayload_def relay_val_def parse_slot_def split: option.split)

lemma parsePayload_ok: "parsePayload v = Some p \<Longrightarrow> payload_ok p"
  by (auto simp: parsePayload_def split: if_splits jsval.splits option.splits)

text \<open>Only a well-formed payload ever leaves the unwrapping of a cell, whoever made the cell: a relay
  names a well-formed peer and carries something that fits a cell, a packet is an object. And every
  well-formed payload is read back from its object.\<close>

theorem unwrap_checked:
  "unwrapWithCurveKeys S M cell xpk xsk = Some p \<Longrightarrow> length cell = CELL_SIZE \<and> payload_ok p"
  by (auto simp: unwrapWithCurveKeys_def unpadCell_def dest!: parsePayload_ok split: option.splits if_splits)

theorem unwrap_checked_witness:
  "\<exists>cell. unwrapWithCurveKeys toy_sodium (toy_msgpack\<lparr>mp_decode := \<lambda>_. Some (exit_val Drop)\<rparr>) cell [] [] = Some (Exit Drop) \<and>
     length cell = CELL_SIZE"
proof -
  let ?M = "toy_msgpack\<lparr>mp_decode := \<lambda>_. Some (exit_val Drop)\<rparr>"
  have "length (box_seal toy_sodium [] [] []) + 4 \<le> CELL_SIZE" by (simp add: toy_sodium_def)
  then obtain cell where cell: "padCell CELL_SIZE (box_seal toy_sodium [] [] []) [] = Inr cell" by (rule padCell_Inr)
  have "box_seal_open toy_sodium (box_seal toy_sodium [] [] []) [] [] = Some []" by (simp add: toy_sodium_def)
  from unwrap_sealed [OF cell this, of ?M] have u: "unwrapWithCurveKeys toy_sodium ?M cell [] [] = Some (Exit Drop)"
    by (simp add: parsePayload_def)
  from unwrap_checked [OF u] u show ?thesis by blast
qed

subsection \<open>The two-hop circuit\<close>

text \<open>MsgPack adds a little to the bytes of a relay layer (a map of three short strings and their
  values); the layer must keep within a cell and cannot have the length of an exit layer.\<close>

definition relay_fits :: "msgpack \<Rightarrow> peer_id \<Rightarrow> bool" where
  "relay_fits M nextHop \<longleftrightarrow>
     (\<forall>inner. length inner = SEALED_EXIT_LAYER_SIZE \<longrightarrow>
        mp_roundtrip M (relay_val nextHop inner) \<and>
        SEALED_EXIT_LAYER_SIZE \<le> length (mp_encode M (relay_val nextHop inner)) \<and>
        length (mp_encode M (relay_val nextHop inner)) + SEAL_OVERHEAD + 4 \<le> CELL_SIZE)"

lemma two_hop:
  assumes laws: "box_seal_law S" "relay_fits M eid" "mp_roundtrip M (exit_val p)"
    and fits: "length (mp_encode M (exit_val p)) + 4 \<le> EXIT_LAYER_SIZE"
    and ok: "payload_ok (Exit p)" "is_peer_id eid" "cache_ok S c"
    and gk: "pk_to_curve S (sign_pk S gsk) = Some gx" and ek: "pk_to_curve S (sign_pk S esk) = Some ex"
  shows "\<exists>cell inner c'. wrapCircuit S M exitPad rs cellPad p [(gid, sign_pk S gsk), (eid, sign_pk S esk)] c = (Inr cell, c') \<and>
    length cell = CELL_SIZE \<and>
    unwrapWithCurveKeys S M cell gx (sk_to_curve S gsk) = Some (Relay eid inner) \<and>
    length inner = SEALED_EXIT_LAYER_SIZE \<and>
    (\<forall>random. \<exists>cell2. padCell CELL_SIZE inner random = Inr cell2 \<and> length cell2 = CELL_SIZE \<and>
       unwrapWithCurveKeys S M cell2 ex (sk_to_curve S esk) = Some (Exit p))"
proof -
  have g: "box_seal_open S (box_seal S m gx r) gx (sk_to_curve S gsk) = Some m"
    "length (box_seal S m gx r) = length m + 48" for m r
    using box_seal_lawD [OF laws(1), of gsk] gk by auto
  have e: "box_seal_open S (box_seal S m ex r) ex (sk_to_curve S esk) = Some m"
    "length (box_seal S m ex r) = length m + 48" for m r
    using box_seal_lawD [OF laws(1), of esk] ek by auto
  let ?hops = "[(gid, sign_pk S gsk), (eid, sign_pk S esk)]"
  obtain layer where layer: "padCell EXIT_LAYER_SIZE (mp_encode M (exit_val p)) exitPad = Inr layer"
    using fits by (rule padCell_Inr)
  define inner where "inner = box_seal S layer ex (rs 1)"
  have inner: "length inner = SEALED_EXIT_LAYER_SIZE"
    using padCell_length [OF layer] by (simp add: inner_def e)
  let ?rel = "mp_encode M (relay_val eid inner)"
  have rel: "mp_decode M ?rel = Some (relay_val eid inner)" "SEALED_EXIT_LAYER_SIZE \<le> length ?rel"
    "length ?rel + SEAL_OVERHEAD + 4 \<le> CELL_SIZE"
    using laws(2) inner by (simp_all add: relay_fits_def mp_roundtrip_def)
  have "length (box_seal S ?rel gx (rs 0)) + 4 \<le> CELL_SIZE" using rel(3) by (simp add: g)
  then obtain cell where cell: "padCell CELL_SIZE (box_seal S ?rel gx (rs 0)) cellPad = Inr cell" by (rule padCell_Inr)
  have "layers_spec S M rs layer 0 ?hops = Inr (box_seal S ?rel gx (rs 0))"
    using gk ek by (simp add: seal_spec_def inner_def)
  moreover obtain c' where "wrapCircuit S M exitPad rs cellPad p ?hops c =
      ((if ?hops = [] then Inl (OtherError ''hops list cannot be empty'')
        else rbind (padCell EXIT_LAYER_SIZE (mp_encode M (exit_val p)) exitPad) (\<lambda>layer.
          rbind (layers_spec S M rs layer 0 ?hops) (\<lambda>ct. padCell CELL_SIZE ct cellPad))), c')"
    by (rule wrapCircuit_ok [OF ok(3)])
  ultimately have wrap: "wrapCircuit S M exitPad rs cellPad p ?hops c = (Inr cell, c')"
    using layer cell by simp
  have "strip_exit_layer ?rel = ?rel" using rel(2) by (simp add: strip_exit_layer_def)
  moreover have "parsePayload (relay_val eid inner) = Some (Relay eid inner)"
    using parse_payload_val [of "Relay eid inner"] ok(2) inner by simp
  ultimately have guard: "unwrapWithCurveKeys S M cell gx (sk_to_curve S gsk) = Some (Relay eid inner)"
    using unwrap_sealed [OF cell g(1)] rel(1) by simp
  have exit: "\<exists>cell2. padCell CELL_SIZE inner random = Inr cell2 \<and> length cell2 = CELL_SIZE \<and>
       unwrapWithCurveKeys S M cell2 ex (sk_to_curve S esk) = Some (Exit p)" for random
  proof -
    have "length inner + 4 \<le> CELL_SIZE" using inner by simp
    then obtain cell2 where c2: "padCell CELL_SIZE inner random = Inr cell2" by (rule padCell_Inr)
    have "parsePayload (exit_val p) = Some (Exit p)" using parse_payload_val [OF ok(1)] by simp
    then show ?thesis
      using c2 padCell_length [OF c2] unwrap_sealed [OF c2 [unfolded inner_def] e(1)] laws(3)
        strip_exit_layer_padCell [OF layer] by (simp add: mp_roundtrip_def)
  qed
  show ?thesis
    using wrap padCell_length [OF cell] guard inner exit by (intro exI [of _ cell] exI [of _ inner] exI [of _ c']) simp
qed

definition toy_onion_msgpack :: "peer_id \<Rightarrow> exit_payload \<Rightarrow> msgpack" where
  "toy_onion_msgpack nextHop x =
     \<lparr>mp_encode = (\<lambda>v. case jget v ''innerOnion'' of JBytes b \<Rightarrow> 1 # b | _ \<Rightarrow> [0]),
      mp_decode = (\<lambda>b. case b of [] \<Rightarrow> None | y # ys \<Rightarrow> Some (if y = 1 then relay_val nextHop ys else exit_val x))\<rparr>"

lemma toy_onion_msgpack_ok:
  "relay_fits (toy_onion_msgpack nextHop x) nextHop" "mp_roundtrip (toy_onion_msgpack nextHop x) (exit_val x)"
  "length (mp_encode (toy_onion_msgpack nextHop x) (exit_val x)) + 4 \<le> EXIT_LAYER_SIZE"
proof -
  have "jget (exit_val x) ''innerOnion'' = Undef" by (cases x) (simp_all split: option.split)
  then show "mp_roundtrip (toy_onion_msgpack nextHop x) (exit_val x)"
    "length (mp_encode (toy_onion_msgpack nextHop x) (exit_val x)) + 4 \<le> EXIT_LAYER_SIZE"
    by (simp_all add: mp_roundtrip_def toy_onion_msgpack_def)
  show "relay_fits (toy_onion_msgpack nextHop x) nextHop"
    by (simp add: relay_fits_def mp_roundtrip_def toy_onion_msgpack_def relay_val_def)
qed

lemma toy_pk: "pk_to_curve toy_sodium (sign_pk toy_sodium x) = Some (sign_pk toy_sodium x)"
  by (simp add: toy_sodium_def)

text \<open>C2: A circuit of a guard and an exit delivers exactly what the author put in, and only to the exit: the
  author's cell has the one cell size; the guard's key opens it to the exit's identifier and a sealed
  layer whose length does not depend on what is inside (a cover cell and a post look alike); padded
  again by the guard with any bytes it is again one cell, which the exit's key opens to the author's
  payload.\<close>

theorem circuit_roundtrip:
  assumes "box_seal_law S" "relay_fits M eid" "mp_roundtrip M (exit_val p)"
    "length (mp_encode M (exit_val p)) + 4 \<le> EXIT_LAYER_SIZE"
    "payload_ok (Exit p)" "is_peer_id eid" "cache_ok S c"
    "pk_to_curve S (sign_pk S gsk) = Some gx" "pk_to_curve S (sign_pk S esk) = Some ex"
  shows "\<exists>cell inner c'. wrapCircuit S M exitPad rs cellPad p [(gid, sign_pk S gsk), (eid, sign_pk S esk)] c = (Inr cell, c') \<and>
    length cell = CELL_SIZE \<and>
    unwrapWithCurveKeys S M cell gx (sk_to_curve S gsk) = Some (Relay eid inner) \<and>
    length inner = SEALED_EXIT_LAYER_SIZE \<and>
    (\<forall>random. \<exists>cell2. padCell CELL_SIZE inner random = Inr cell2 \<and> length cell2 = CELL_SIZE \<and>
       unwrapWithCurveKeys S M cell2 ex (sk_to_curve S esk) = Some (Exit p))"
  by (rule two_hop [OF assms])

theorem circuit_roundtrip_witness:
  "\<exists>cell c'. wrapCircuit toy_sodium (toy_onion_msgpack (replicate 32 CHR ''a'') Drop) [] (\<lambda>_. []) [] Drop
     [(''g'', sign_pk toy_sodium [1]), (replicate 32 CHR ''a'', sign_pk toy_sodium [2])] [] = (Inr cell, c') \<and> length cell = CELL_SIZE"
proof -
  have id: "is_peer_id (replicate 32 CHR ''a'')" by code_simp
  have ok: "payload_ok (Exit Drop)" by simp
  from circuit_roundtrip [OF toy_laws(5) toy_onion_msgpack_ok ok id cache_ok_Nil toy_pk toy_pk] show ?thesis by blast
qed

end
