(* ===== verification/OnionCircuit.thy ===== *)
theory OnionCircuit
  imports Onion Dandelion SeenCache
begin

text \<open>
  \<open>packages/core/src/network/onion/OnionCircuit.ts\<close>: everything an author puts on the network goes
  out in cells of one size, at the ticks of a random clock, to a pinned guard; other nodes' cells are
  relayed or, at the exit, handed to the handlers after a random delay. The record keeps the state of
  the circuit and the objects it alone uses: the Dandelion router and the cache of converted keys.

  A timer that was set is an entry of \<open>oc_pending\<close> with the work it will do; \<open>pending_fires\<close> and
  \<open>cover_fires\<close> are the callbacks. What happens outside is returned as a list of effects. The
  environment holds the state of the peer manager, the time and the random draws of one operation.
\<close>

subsection \<open>Levels and parameters\<close>

record level_config =
  lc_coverIntervalMs :: int
  lc_relayDelayMs :: int
  lc_exitDelayMs :: int
  lc_exitDelayMaxMs :: int
  lc_echoTimeoutMs :: int

definition level_standard :: level_config where
  "level_standard = \<lparr>lc_coverIntervalMs = 300, lc_relayDelayMs = 40, lc_exitDelayMs = 500,
     lc_exitDelayMaxMs = 2000, lc_echoTimeoutMs = 5000\<rparr>"

definition ANONYMITY_LEVELS :: "string \<Rightarrow> level_config option" where
  "ANONYMITY_LEVELS level =
     (if level = ''standard'' then Some level_standard
      else if level = ''safer'' then
        Some \<lparr>lc_coverIntervalMs = 1000, lc_relayDelayMs = 80, lc_exitDelayMs = 1500,
          lc_exitDelayMaxMs = 5000, lc_echoTimeoutMs = 15000\<rparr>
      else if level = ''safest'' then
        Some \<lparr>lc_coverIntervalMs = 2000, lc_relayDelayMs = 120, lc_exitDelayMs = 2500,
          lc_exitDelayMaxMs = 10000, lc_echoTimeoutMs = 30000\<rparr>
      else None)"

definition MAX_ATTEMPTS :: nat where [simp]: "MAX_ATTEMPTS = 2"
definition GUARD_PEX_INTERVAL_MS :: int where "GUARD_PEX_INTERVAL_MS = 30000"
definition GUARD_NEIGHBOR_TTL_MS :: int where "GUARD_NEIGHBOR_TTL_MS = 600000"
definition MAX_PENDING :: nat where [simp]: "MAX_PENDING = 128"
definition MAX_PENDING_PER_PEER :: nat where [simp]: "MAX_PENDING_PER_PEER = 16"
definition MAX_QUEUE :: nat where [simp]: "MAX_QUEUE = 64"

text \<open>An exponentially distributed delay from a 32-bit draw, rounded as \<open>Math.round\<close> does. No \<open>max\<close> is
  an infinite one. The logarithm and the division are those of the reals.\<close>

definition exponentialDelay :: "int \<Rightarrow> int option \<Rightarrow> nat \<Rightarrow> int" where
  "exponentialDelay mean mx draw =
     (if mean \<le> 0 then 0
      else
        (let u = (real draw + 1) / 4294967297; d = \<lfloor>- ln u * of_int mean + 1 / 2\<rfloor> in
         case mx of None \<Rightarrow> d | Some m \<Rightarrow> min m d))"

subsection \<open>State\<close>

record circuit_options =
  op_level :: "string option"
  op_coverIntervalMs :: "int option"
  op_relayDelayMs :: "int option"
  op_exitDelayMs :: "int option"
  op_exitDelayMaxMs :: "int option"
  op_echoTimeoutMs :: "int option"

record queued_cell =
  qc_payload :: exit_payload
  qc_exit :: onion_hop
  qc_guardId :: peer_id

record guard_neighbor =
  gn_pubkey :: bytes
  gn_firstSeen :: int
  gn_seenAt :: int

text \<open>The work a pending timer will do.\<close>

datatype oc_job = ExitJob exit_payload | CellJob peer_id bytes

record circuit =
  oc_times :: level_config
  oc_level :: string
  oc_levelListeners :: "nat list"
  oc_exitHandlers :: "(string, nat list) jsmap"
  oc_queue :: "queued_cell list"
  oc_guardNeighbors :: "(peer_id, guard_neighbor) jsmap"
  oc_seenCells :: seen_cache
  oc_pending :: "(nat \<times> peer_id \<times> oc_job) list"
  oc_pendingPerPeer :: "(peer_id, nat) jsmap"
  oc_coverTimer :: bool
  oc_pexTimer :: bool
  oc_running :: bool
  oc_curveKeys :: "(bytes \<times> bytes) option"
  oc_next :: nat
  oc_dandelion :: dandelion
  oc_xpk :: xpk_cache

record oc_env =
  oe_cfg :: pm_config
  oe_pm :: peer_manager
  oe_now :: int
  oe_guardDraws :: "nat list"
  oe_exitDraws :: "nat list"
  oe_delayDraw :: nat
  oe_exitPad :: bytes
  oe_sealRandom :: "nat \<Rightarrow> bytes"
  oe_cellPad :: bytes

datatype oc_effect =
    Net pm_effect
  | SetPending nat int
  | ClearPending nat
  | SetCover int
  | ClearCover
  | SetPex int
  | ClearPex
  | ExitCall nat exit_payload peer_id
  | LevelCall nat string

type_synonym oc_step = "oc_effect list \<times> circuit"

definition net_send :: "oc_env \<Rightarrow> peer_id \<Rightarrow> wire_type \<Rightarrow> jsval \<Rightarrow> oc_effect list" where
  "net_send e p t payload = map Net (sendMessage (oe_cfg e) p t payload (oe_pm e))"

text \<open>The identifier of the circuit's own listener at the Dandelion router.\<close>

definition GUARD_LISTENER :: nat where "GUARD_LISTENER = 0"

definition oc_new :: "circuit_options \<Rightarrow> dandelion \<Rightarrow> xpk_cache \<Rightarrow> circuit" where
  "oc_new opts d cache =
     (let level = (case op_level opts of Some l \<Rightarrow> l | None \<Rightarrow> ''standard'');
          base = (case ANONYMITY_LEVELS level of Some c \<Rightarrow> c | None \<Rightarrow> level_standard);
          pick = (\<lambda>opt dflt. case opt of Some x \<Rightarrow> x | None \<Rightarrow> dflt)
      in \<lparr>oc_times =
            \<lparr>lc_coverIntervalMs = pick (op_coverIntervalMs opts) (lc_coverIntervalMs base),
             lc_relayDelayMs = pick (op_relayDelayMs opts) (lc_relayDelayMs base),
             lc_exitDelayMs = pick (op_exitDelayMs opts) (lc_exitDelayMs base),
             lc_exitDelayMaxMs = pick (op_exitDelayMaxMs opts) (lc_exitDelayMaxMs base),
             lc_echoTimeoutMs = pick (op_echoTimeoutMs opts) (lc_echoTimeoutMs base)\<rparr>,
          oc_level = level, oc_levelListeners = [], oc_exitHandlers = [], oc_queue = [],
          oc_guardNeighbors = [], oc_seenCells = [], oc_pending = [], oc_pendingPerPeer = [],
          oc_coverTimer = False, oc_pexTimer = False, oc_running = False, oc_curveKeys = None,
          oc_next = 0, oc_dandelion = onGuardChange GUARD_LISTENER d, oc_xpk = cache\<rparr>)"

subsection \<open>The guard\<close>

definition guard_view :: "peer_manager \<Rightarrow> guard_peers" where
  "guard_view s =
     map (\<lambda>(p, w). (p, \<lparr>gp_outbound = (wp_direction w = Outbound), gp_verifiedAt = wp_verifiedAt w\<rparr>)) (pm_peers s)"

definition verifiedNeighbors :: "oc_env \<Rightarrow> onion_hop list" where
  "verifiedNeighbors e = verifiedPeersWithKeys (oe_pm e)"

definition pex_request :: jsval where
  "pex_request = JObj [(''minDistance'', jint 0)]"

text \<open>The callback on a change of guard. When the circuit runs it asks for the guard's neighbours; the
  guard it finds is the one just pinned (\<open>request_after_change\<close>).\<close>

definition guard_changed :: "oc_env \<Rightarrow> peer_id option \<Rightarrow> circuit \<Rightarrow> oc_step" where
  "guard_changed e guard c =
     (let c1 = c\<lparr>oc_guardNeighbors := []\<rparr> in
      case guard of
        Some gid \<Rightarrow> if gid \<noteq> [] \<and> oc_running c then (net_send e gid PEX_REQUEST pex_request, c1) else ([], c1)
      | None \<Rightarrow> ([], c1))"

fun guard_events :: "oc_env \<Rightarrow> guard_event list \<Rightarrow> circuit \<Rightarrow> oc_step" where
  "guard_events e [] c = ([], c)"
| "guard_events e ((l, g) # ev) c =
     (if l = GUARD_LISTENER then
        (let (fx1, c1) = guard_changed e g c; (fx2, c2) = guard_events e ev c1 in (fx1 @ fx2, c2))
      else guard_events e ev c)"

definition currentGuard :: "oc_env \<Rightarrow> circuit \<Rightarrow> onion_hop option \<times> oc_step" where
  "currentGuard e c =
     (let candidates = verifiedNeighbors e in
      case getPinnedGuard (guard_view (oe_pm e)) (oe_now e) (oe_guardDraws e) (map fst candidates) (oc_dandelion c) of
        None \<Rightarrow> (None, [], c)
      | Some (g, d, ev) \<Rightarrow>
          (let (fx, c1) = guard_events e ev (c\<lparr>oc_dandelion := d\<rparr>) in
           (case g of None \<Rightarrow> None | Some gid \<Rightarrow> map_option (Pair gid) (jm_get candidates gid), fx, c1)))"

definition requestGuardNeighbors :: "oc_env \<Rightarrow> circuit \<Rightarrow> oc_step" where
  "requestGuardNeighbors e c =
     (case currentGuard e c of
        (None, fx, c1) \<Rightarrow> (fx, c1)
      | (Some guard, fx, c1) \<Rightarrow> (fx @ net_send e (fst guard) PEX_REQUEST pex_request, c1))"

subsection \<open>The exit\<close>

definition exit_weight :: "int \<Rightarrow> (peer_id, guard_neighbor) jsmap \<Rightarrow> onion_hop \<Rightarrow> rat" where
  "exit_weight now neighbors h =
     (let firstSeen = (case jm_get neighbors (fst h) of Some i \<Rightarrow> gn_firstSeen i | None \<Rightarrow> now) in
      1 / 4 + of_int (min (now - firstSeen) OBSERVATION_SATURATION_MS) / of_int OBSERVATION_SATURATION_MS)"

definition live_neighbors :: "int \<Rightarrow> (peer_id, guard_neighbor) jsmap \<Rightarrow> (peer_id, guard_neighbor) jsmap" where
  "live_neighbors now m = filter (\<lambda>(_, i). \<not> now - gn_seenAt i > GUARD_NEIGHBOR_TTL_MS) m"

text \<open>If the draws given for the weighted choice do not suffice, the first of the pool is taken.\<close>

definition pickExit :: "oc_env \<Rightarrow> peer_id \<Rightarrow> peer_id list \<Rightarrow> circuit \<Rightarrow> onion_hop option \<times> circuit" where
  "pickExit e guardId exclude c =
     (let me = my_peer_id (oe_cfg e);
          live = live_neighbors (oe_now e) (oc_guardNeighbors c);
          c1 = c\<lparr>oc_guardNeighbors := live\<rparr>;
          fresh = map (\<lambda>(p, i). (p, gn_pubkey i))
                    (filter (\<lambda>(p, _). \<not> (p = me \<or> p = guardId \<or> p \<in> set exclude)) live)
      in if fresh = [] then (None, c1)
         else
           (let nonAdjacent = filter (\<lambda>h. \<not> jm_has (pm_peers (oe_pm e)) (fst h)) fresh;
                pool = (if nonAdjacent \<noteq> [] then nonAdjacent else fresh);
                i = (case secureWeightedIndex (map (exit_weight (oe_now e) live) pool) (oe_exitDraws e) of
                       Some i \<Rightarrow> i | None \<Rightarrow> 0)
            in (Some (pool ! i), c1)))"

subsection \<open>Sending\<close>

text \<open>\<open>send\<close> up to the point where it waits for an echo: attempt number \<open>attempt\<close>, with the exits tried
  before. The echo (or its timeout) resumes it by \<open>send_resume\<close>; \<open>waiter\<close> is the promise waited on.\<close>

datatype send_status =
    SendDone bool
  | SendWaiting "peer_id list" nat

definition send_attempt ::
  "oc_env \<Rightarrow> exit_payload \<Rightarrow> string \<Rightarrow> nat \<Rightarrow> peer_id list \<Rightarrow> nat \<Rightarrow> circuit \<Rightarrow> send_status \<times> oc_step" where
  "send_attempt e payload echoId waiter triedExits attempt c =
     (if \<not> attempt < MAX_ATTEMPTS then (SendDone False, [], c)
      else
        (case currentGuard e c of
           (None, fx, c1) \<Rightarrow> (SendDone False, fx, c1)
         | (Some guard, fx, c1) \<Rightarrow>
             (case pickExit e (fst guard) triedExits c1 of
                (None, c2) \<Rightarrow> (SendDone False, fx, c2)
              | (Some exit, c2) \<Rightarrow>
                  if length (oc_queue c2) \<ge> MAX_QUEUE then (SendDone False, fx, c2)
                  else
                    (SendWaiting (js_add (fst exit) triedExits) attempt, fx,
                     c2\<lparr>oc_dandelion := awaitEcho echoId waiter (oc_dandelion c2),
                        oc_queue := oc_queue c2 @
                          [\<lparr>qc_payload = payload, qc_exit = exit, qc_guardId = fst guard\<rparr>]\<rparr>))))"

definition send :: "oc_env \<Rightarrow> exit_payload \<Rightarrow> string \<Rightarrow> nat \<Rightarrow> circuit \<Rightarrow> send_status \<times> oc_step" where
  "send e payload echoId waiter c =
     (if \<not> oc_running c then (SendDone False, [], c)
      else send_attempt e payload echoId waiter [] 0 c)"

definition send_resume ::
  "oc_env \<Rightarrow> exit_payload \<Rightarrow> string \<Rightarrow> nat \<Rightarrow> peer_id list \<Rightarrow> nat \<Rightarrow> bool \<Rightarrow> circuit \<Rightarrow> send_status \<times> oc_step" where
  "send_resume e payload echoId waiter triedExits attempt echo c =
     (if echo then (SendDone True, [], c)
      else send_attempt e payload echoId waiter triedExits (attempt + 1) c)"

subsection \<open>Cover traffic\<close>

definition scheduleCover :: "oc_env \<Rightarrow> circuit \<Rightarrow> oc_step" where
  "scheduleCover e c =
     (if \<not> oc_running c then ([], c)
      else
        (let interval = lc_coverIntervalMs (oc_times c);
             delay = max 1 (exponentialDelay interval (Some (interval * 10)) (oe_delayDraw e))
         in ((if oc_coverTimer c then [ClearCover] else []) @ [SetCover delay], c\<lparr>oc_coverTimer := True\<rparr>)))"

text \<open>The next queued cell for this guard; cells queued for an earlier guard get a new exit or are
  dropped.\<close>

fun next_item :: "oc_env \<Rightarrow> peer_id \<Rightarrow> queued_cell list \<Rightarrow> circuit \<Rightarrow> queued_cell option \<times> circuit" where
  "next_item e guardId [] c = (None, c\<lparr>oc_queue := []\<rparr>)"
| "next_item e guardId (item # rest) c =
     (if qc_guardId item = guardId then (Some item, c\<lparr>oc_queue := rest\<rparr>)
      else
        (case pickExit e guardId [] c of
           (Some exit, c1) \<Rightarrow> (Some (item\<lparr>qc_exit := exit, qc_guardId := guardId\<rparr>), c1\<lparr>oc_queue := rest\<rparr>)
         | (None, c1) \<Rightarrow> next_item e guardId rest c1))"

definition onion_msg :: "bytes \<Rightarrow> jsval" where
  "onion_msg cell = JObj [(''onionBytes'', JBytes cell)]"

text \<open>What the tick sends: a queued payload or a cover cell, with its exit.\<close>

definition next_cell :: "oc_env \<Rightarrow> peer_id \<Rightarrow> circuit \<Rightarrow> (exit_payload \<times> onion_hop option) \<times> circuit" where
  "next_cell e guardId c =
     (case next_item e guardId (oc_queue c) c of
        (Some item, c1) \<Rightarrow> ((qc_payload item, Some (qc_exit item)), c1)
      | (None, c1) \<Rightarrow> (case pickExit e guardId [] c1 of (x, c2) \<Rightarrow> ((Drop, x), c2)))"

definition emitCell :: "oc_env \<Rightarrow> circuit \<Rightarrow> oc_step" where
  "emitCell e c =
     (case currentGuard e c of
        (None, fx, c1) \<Rightarrow> (fx, c1)
      | (Some guard, fx, c1) \<Rightarrow>
          (case next_cell e (fst guard) c1 of
             ((payload, None), c2) \<Rightarrow> (fx, c2)
           | ((payload, Some exit), c2) \<Rightarrow>
               (case wrapCircuit (pc_S (oe_cfg e)) (pc_M (oe_cfg e)) (oe_exitPad e) (oe_sealRandom e) (oe_cellPad e)
                       payload [guard, exit] (oc_xpk c2) of
                  (Inl err, cache) \<Rightarrow> (fx, c2\<lparr>oc_xpk := cache\<rparr>)
                | (Inr cell, cache) \<Rightarrow>
                    (fx @ net_send e (fst guard) ONION_STEM (onion_msg cell), c2\<lparr>oc_xpk := cache\<rparr>))))"

definition flushOnce :: "oc_env \<Rightarrow> circuit \<Rightarrow> oc_step" where
  "flushOnce e c = emitCell e c"

definition cover_fires :: "oc_env \<Rightarrow> circuit \<Rightarrow> oc_step" where
  "cover_fires e c = (let (fx1, c1) = emitCell e c; (fx2, c2) = scheduleCover e c1 in (fx1 @ fx2, c2))"

subsection \<open>The guard's neighbours\<close>

text \<open>One entry of a response. \<open>Inl\<close>: an exception, which ends the handler: an element of a byte array
  that is no number, or keys of different lengths given to \<open>sodium.memcmp\<close>.\<close>

definition pex_entry :: "oc_env \<Rightarrow> jsval \<Rightarrow> circuit \<Rightarrow> circuit res" where
  "pex_entry e entry c =
     (case jget entry ''id'' of
        JStr p \<Rightarrow>
          if \<not> is_peer_id p then Inr c
          else if p = my_peer_id (oe_cfg e) then Inr c
          else
            (let known = jm_get (oc_guardNeighbors c) p in
             rbind (toBytes (jget entry ''pubkey'')) (\<lambda>pubkey.
               let fresh =
                 (if verifyClaim (pc_S (oe_cfg e))
                       (JObj [(''peerId'', JStr p), (''pubkey'', JBytes pubkey), (''powCounter'', jget entry ''powCounter'')])
                       (pc_pow (oe_cfg e))
                  then c\<lparr>oc_guardNeighbors :=
                         jm_set p \<lparr>gn_pubkey = pubkey, gn_firstSeen = oe_now e, gn_seenAt = oe_now e\<rparr> (oc_guardNeighbors c)\<rparr>
                  else c)
               in case known of
                    None \<Rightarrow> Inr fresh
                  | Some k \<Rightarrow>
                      if length (gn_pubkey k) \<noteq> length pubkey then Inl TypeError
                      else if gn_pubkey k = pubkey then
                        Inr (c\<lparr>oc_guardNeighbors := jm_set p (k\<lparr>gn_seenAt := oe_now e\<rparr>) (oc_guardNeighbors c)\<rparr>)
                      else Inr fresh))
      | _ \<Rightarrow> Inr c)"

fun pex_entries :: "oc_env \<Rightarrow> jsval list \<Rightarrow> circuit \<Rightarrow> circuit" where
  "pex_entries e [] c = c"
| "pex_entries e (x # xs) c = (case pex_entry e x c of Inl err \<Rightarrow> c | Inr c' \<Rightarrow> pex_entries e xs c')"

definition handleGuardPex :: "oc_env \<Rightarrow> peer_id \<Rightarrow> jsval \<Rightarrow> circuit \<Rightarrow> circuit" where
  "handleGuardPex e senderId msg c =
     (if Some senderId \<noteq> dn_guard (oc_dandelion c) then c
      else (case jget msg ''peers'' of JArr ps \<Rightarrow> pex_entries e (take 16 ps) c | _ \<Rightarrow> c))"

subsection \<open>Deferred work\<close>

definition defer_job :: "peer_id \<Rightarrow> int \<Rightarrow> oc_job \<Rightarrow> circuit \<Rightarrow> oc_step" where
  "defer_job senderId delay job c =
     (let perPeer = (case jm_get (oc_pendingPerPeer c) senderId of Some n \<Rightarrow> n | None \<Rightarrow> 0) in
      if length (oc_pending c) \<ge> MAX_PENDING \<or> perPeer \<ge> MAX_PENDING_PER_PEER then ([], c)
      else
        ([SetPending (oc_next c) delay],
         c\<lparr>oc_pendingPerPeer := jm_set senderId (perPeer + 1) (oc_pendingPerPeer c),
           oc_pending := oc_pending c @ [(oc_next c, senderId, job)], oc_next := oc_next c + 1\<rparr>))"

definition run_job :: "oc_env \<Rightarrow> peer_id \<Rightarrow> oc_job \<Rightarrow> circuit \<Rightarrow> oc_effect list" where
  "run_job e senderId job c =
     (case job of
        CellJob nextHop padded \<Rightarrow>
          (case jm_get (pm_peers (oe_pm e)) nextHop of
             Some w \<Rightarrow>
               if wp_connected w \<and> wp_verified w then net_send e nextHop ONION_STEM (onion_msg padded) else []
           | None \<Rightarrow> [])
      | ExitJob payload \<Rightarrow>
          (case jget (exit_val payload) ''type'' of
             JStr t \<Rightarrow>
               (case jm_get (oc_exitHandlers c) t of
                  None \<Rightarrow> []
                | Some handlers \<Rightarrow> map (\<lambda>h. ExitCall h payload senderId) handlers)
           | _ \<Rightarrow> []))"

text \<open>The timer \<open>i\<close> fires, if it is still set: its entry goes, the count of its sender falls, then its work
  runs.\<close>

definition pending_fires :: "oc_env \<Rightarrow> nat \<Rightarrow> circuit \<Rightarrow> oc_step" where
  "pending_fires e i c =
     (case jm_get (oc_pending c) i of
        None \<Rightarrow> ([], c)
      | Some (senderId, job) \<Rightarrow>
          (let n = (case jm_get (oc_pendingPerPeer c) senderId of Some n \<Rightarrow> n | None \<Rightarrow> 1) - 1;
               c1 = c\<lparr>oc_pending := jm_del i (oc_pending c),
                      oc_pendingPerPeer := (if n > 0 then jm_set senderId n (oc_pendingPerPeer c)
                                            else jm_del senderId (oc_pendingPerPeer c))\<rparr>
           in (run_job e senderId job c1, c1)))"

subsection \<open>Receiving\<close>

text \<open>\<open>None\<close>: there are no usable keys.\<close>

definition myCurveKeys :: "oc_env \<Rightarrow> circuit \<Rightarrow> (bytes \<times> bytes) option \<times> circuit" where
  "myCurveKeys e c =
     (case oc_curveKeys c of
        Some ks \<Rightarrow> (Some ks, c)
      | None \<Rightarrow>
          (let (pubkey, privkey, _) = exportSecret (pc_identity (oe_cfg e)) in
           case toCurvePublicKey (pc_S (oe_cfg e)) pubkey (oc_xpk c) of
             (None, cache) \<Rightarrow> (None, c\<lparr>oc_xpk := cache\<rparr>)
           | (Some pk, cache) \<Rightarrow>
               (let ks = (pk, toCurvePrivateKey (pc_S (oe_cfg e)) privkey) in
                (Some ks, c\<lparr>oc_xpk := cache, oc_curveKeys := Some ks\<rparr>))))"

definition oc_relay :: "oc_env \<Rightarrow> peer_id \<Rightarrow> peer_id \<Rightarrow> bytes \<Rightarrow> circuit \<Rightarrow> oc_step" where
  "oc_relay e senderId nextHop innerOnion c =
     (if nextHop = senderId \<or> nextHop = my_peer_id (oe_cfg e) then ([], c)
      else if length innerOnion \<noteq> SEALED_EXIT_LAYER_SIZE then ([], c)
      else
        (case padCell CELL_SIZE innerOnion (oe_cellPad e) of
           Inl err \<Rightarrow> ([], c)
         | Inr padded \<Rightarrow>
             (let r = lc_relayDelayMs (oc_times c) in
              defer_job senderId (exponentialDelay r (Some (r * 10)) (oe_delayDraw e)) (CellJob nextHop padded) c)))"

definition cell_id :: "oc_env \<Rightarrow> bytes \<Rightarrow> string" where
  "cell_id e cell = toHex (blake2b (pc_S (oe_cfg e)) 16 cell None)"

definition handleCell :: "oc_env \<Rightarrow> peer_id \<Rightarrow> jsval \<Rightarrow> circuit \<Rightarrow> oc_step" where
  "handleCell e senderId msg c =
     (case jget msg ''onionBytes'' of
        JBytes cell \<Rightarrow>
          if length cell \<noteq> CELL_SIZE then ([], c)
          else if seen_has (oc_seenCells c) (cell_id e cell) then ([], c)
          else
            (case myCurveKeys e (c\<lparr>oc_seenCells := seen_add (oe_now e) (cell_id e cell) (oc_seenCells c)\<rparr>) of
               (None, c1) \<Rightarrow> ([], c1)
             | (Some (pk, sk), c1) \<Rightarrow>
                 (case unwrapWithCurveKeys (pc_S (oe_cfg e)) (pc_M (oe_cfg e)) cell pk sk of
                    None \<Rightarrow> ([], c1)
                  | Some (Relay nextHop innerOnion) \<Rightarrow> oc_relay e senderId nextHop innerOnion c1
                  | Some (Exit Drop) \<Rightarrow> ([], c1)
                  | Some (Exit payload) \<Rightarrow>
                      defer_job senderId
                        (exponentialDelay (lc_exitDelayMs (oc_times c1)) (Some (lc_exitDelayMaxMs (oc_times c1))) (oe_delayDraw e))
                        (ExitJob payload) c1))
      | _ \<Rightarrow> ([], c))"

subsection \<open>Levels, handlers and the life cycle\<close>

definition getLevelConfig :: "circuit \<Rightarrow> level_config" where
  "getLevelConfig c = (case ANONYMITY_LEVELS (oc_level c) of Some l \<Rightarrow> l | None \<Rightarrow> level_standard)"

definition setLevel :: "oc_env \<Rightarrow> string \<Rightarrow> circuit \<Rightarrow> oc_step" where
  "setLevel e level c =
     (case ANONYMITY_LEVELS level of
        None \<Rightarrow> ([], c)
      | Some config \<Rightarrow>
          (let c1 = c\<lparr>oc_level := level, oc_times := config\<rparr>;
               (fx, c2) = (if oc_running c1 then scheduleCover e c1 else ([], c1))
           in (fx @ map (\<lambda>cb. LevelCall cb level) (oc_levelListeners c2), c2)))"

definition onLevelChange :: "nat \<Rightarrow> circuit \<Rightarrow> circuit" where
  "onLevelChange cb c = c\<lparr>oc_levelListeners := js_add cb (oc_levelListeners c)\<rparr>"

definition offLevelChange :: "nat \<Rightarrow> circuit \<Rightarrow> circuit" where
  "offLevelChange cb c = c\<lparr>oc_levelListeners := filter (\<lambda>x. x \<noteq> cb) (oc_levelListeners c)\<rparr>"

definition onExit :: "string \<Rightarrow> nat \<Rightarrow> circuit \<Rightarrow> circuit" where
  "onExit t handler c =
     (let hs = (case jm_get (oc_exitHandlers c) t of Some hs \<Rightarrow> hs | None \<Rightarrow> []) in
      c\<lparr>oc_exitHandlers := jm_set t (js_add handler hs) (oc_exitHandlers c)\<rparr>)"

definition oc_start :: "oc_env \<Rightarrow> circuit \<Rightarrow> oc_step" where
  "oc_start e c =
     (if oc_running c then ([], c)
      else
        (let (fx1, c1) = scheduleCover e (c\<lparr>oc_running := True\<rparr>); (fx2, c2) = requestGuardNeighbors e c1 in
         (fx1 @ fx2 @ [SetPex GUARD_PEX_INTERVAL_MS], c2\<lparr>oc_pexTimer := True\<rparr>)))"

definition pex_tick :: "oc_env \<Rightarrow> circuit \<Rightarrow> oc_step" where
  "pex_tick e c = requestGuardNeighbors e c"

definition oc_stop :: "circuit \<Rightarrow> oc_step" where
  "oc_stop c =
     ((if oc_coverTimer c then [ClearCover] else []) @ (if oc_pexTimer c then [ClearPex] else []) @
        map (\<lambda>(i, _). ClearPending i) (oc_pending c),
      c\<lparr>oc_running := False, oc_coverTimer := False, oc_pexTimer := False, oc_pending := [],
        oc_pendingPerPeer := [], oc_queue := []\<rparr>)"

definition oc_destroy :: "circuit \<Rightarrow> oc_step" where
  "oc_destroy c =
     (let (fx, c1) = oc_stop c in
      (fx, c1\<lparr>oc_seenCells := seen_destroy (oc_seenCells c1), oc_exitHandlers := []\<rparr>))"

subsection \<open>All operations\<close>

datatype oc_op =
    OpLevel string
  | OpOnLevel nat
  | OpOffLevel nat
  | OpOnExit string nat
  | OpStart
  | OpStop
  | OpDestroy
  | OpSend exit_payload string nat
  | OpResume exit_payload string nat "peer_id list" nat bool
  | OpCover
  | OpPexTick
  | OpPex peer_id jsval
  | OpCell peer_id jsval
  | OpFire nat
  | OpSweep

fun oc_exec :: "oc_env \<Rightarrow> oc_op \<Rightarrow> circuit \<Rightarrow> oc_step" where
  "oc_exec e (OpLevel l) c = setLevel e l c"
| "oc_exec e (OpOnLevel cb) c = ([], onLevelChange cb c)"
| "oc_exec e (OpOffLevel cb) c = ([], offLevelChange cb c)"
| "oc_exec e (OpOnExit t h) c = ([], onExit t h c)"
| "oc_exec e OpStart c = oc_start e c"
| "oc_exec e OpStop c = oc_stop c"
| "oc_exec e OpDestroy c = oc_destroy c"
| "oc_exec e (OpSend p i w) c = snd (send e p i w c)"
| "oc_exec e (OpResume p i w tried a echo) c = snd (send_resume e p i w tried a echo c)"
| "oc_exec e OpCover c = cover_fires e c"
| "oc_exec e OpPexTick c = pex_tick e c"
| "oc_exec e (OpPex q msg) c = ([], handleGuardPex e q msg c)"
| "oc_exec e (OpCell q msg) c = handleCell e q msg c"
| "oc_exec e (OpFire i) c = pending_fires e i c"
| "oc_exec e OpSweep c = ([], c\<lparr>oc_seenCells := seen_cleanup (oe_now e) (oc_seenCells c)\<rparr>)"

subsection \<open>The invariant\<close>

definition pending_of :: "peer_id \<Rightarrow> (nat \<times> peer_id \<times> oc_job) list \<Rightarrow> nat" where
  "pending_of p pend = length (filter (\<lambda>(_, q, _). q = p) pend)"

fun job_ok :: "peer_id \<Rightarrow> peer_id \<Rightarrow> oc_job \<Rightarrow> bool" where
  "job_ok me sender (CellJob nextHop cell) \<longleftrightarrow> length cell = CELL_SIZE \<and> nextHop \<noteq> sender \<and> nextHop \<noteq> me"
| "job_ok me sender (ExitJob p) \<longleftrightarrow> p \<noteq> Drop"

definition pend_ok :: "peer_id \<Rightarrow> nat \<Rightarrow> (nat \<times> peer_id \<times> oc_job) list \<Rightarrow> (peer_id, nat) jsmap \<Rightarrow> bool" where
  "pend_ok me n pend counts \<longleftrightarrow>
     jm_wf pend \<and> length pend \<le> MAX_PENDING \<and> jm_wf counts \<and>
     (\<forall>(i, q, job) \<in> set pend. i < n \<and> job_ok me q job) \<and>
     (\<forall>p. pending_of p pend \<le> MAX_PENDING_PER_PEER \<and>
        jm_get counts p = (if pending_of p pend = 0 then None else Some (pending_of p pend)))"

definition bound_neighbor :: "pm_config \<Rightarrow> peer_id \<Rightarrow> bytes \<Rightarrow> bool" where
  "bound_neighbor cfg p pubkey \<longleftrightarrow> p \<noteq> my_peer_id cfg \<and>
     (\<exists>counter. verifyClaim (pc_S cfg)
        (JObj [(''peerId'', JStr p), (''pubkey'', JBytes pubkey), (''powCounter'', counter)]) (pc_pow cfg))"

definition neighbors_ok :: "pm_config \<Rightarrow> (peer_id, guard_neighbor) jsmap \<Rightarrow> bool" where
  "neighbors_ok cfg m \<longleftrightarrow> jm_wf m \<and> (\<forall>(p, i) \<in> set m. bound_neighbor cfg p (gn_pubkey i))"

definition oc_ok :: "pm_config \<Rightarrow> circuit \<Rightarrow> bool" where
  "oc_ok cfg c \<longleftrightarrow>
     pend_ok (my_peer_id cfg) (oc_next c) (oc_pending c) (oc_pendingPerPeer c) \<and>
     neighbors_ok cfg (oc_guardNeighbors c) \<and> length (oc_queue c) \<le> MAX_QUEUE \<and>
     cache_ok (pc_S cfg) (oc_xpk c) \<and> seen_ok (oc_seenCells c)"

fun oc_run :: "(oc_env \<times> oc_op) list \<Rightarrow> circuit \<Rightarrow> oc_step" where
  "oc_run [] c = ([], c)"
| "oc_run ((e, op) # evs) c =
     (let (fx1, c1) = oc_exec e op c; (fx2, c2) = oc_run evs c1 in (fx1 @ fx2, c2))"

text \<open>libsodium's generic hash has the length asked for.\<close>

definition blake2b_law :: "sodium \<Rightarrow> bool" where
  "blake2b_law S \<longleftrightarrow> (\<forall>n m k. length (blake2b S n m k) = n)"

lemma pend_ok_Nil [simp]: "pend_ok me n [] []"
  by (simp add: pend_ok_def pending_of_def)

lemma neighbors_ok_Nil [simp]: "neighbors_ok cfg []"
  by (simp add: neighbors_ok_def)

lemma neighbors_ok_filter [simp]: "neighbors_ok cfg m \<Longrightarrow> neighbors_ok cfg (filter P m)"
  by (auto simp: neighbors_ok_def)

lemma neighbors_ok_live [simp]: "neighbors_ok cfg m \<Longrightarrow> neighbors_ok cfg (live_neighbors now m)"
  by (simp add: live_neighbors_def)

lemma neighbors_ok_set:
  "neighbors_ok cfg m \<Longrightarrow> bound_neighbor cfg p (gn_pubkey i) \<Longrightarrow> neighbors_ok cfg (jm_set p i m)"
  by (auto simp: neighbors_ok_def dest: jm_set_in)

lemma pending_of_snoc: "pending_of p (pend @ [(i, q, j)]) = pending_of p pend + (if q = p then 1 else 0)"
  by (simp add: pending_of_def)

lemma pending_of_del:
  assumes "jm_wf pend" "jm_get pend i = Some (q, j)"
  shows "pending_of p pend = pending_of p (jm_del i pend) + (if q = p then 1 else 0)"
  using assms
proof (induction pend)
  case (Cons x pend)
  obtain i' q' j' where x: "x = (i', q', j')" by (metis prod_cases3)
  have wf: "jm_wf pend" "\<not> jm_has pend i'" using Cons.prems x by (auto simp: jm_wf_def jm_has_iff)
  show ?case
  proof (cases "i' = i")
    case True
    then show ?thesis using Cons.prems x wf jm_del_notin [of pend i] by (simp add: pending_of_def)
  next
    case False
    then have "pending_of p pend = pending_of p (jm_del i pend) + (if q = p then 1 else 0)"
      using Cons.IH wf Cons.prems x by simp
    then show ?thesis using False x by (simp add: pending_of_def)
  qed
qed simp

lemma pend_ok_defer:
  assumes ok: "pend_ok me n pend counts" and len: "length pend < MAX_PENDING"
    and per: "(case jm_get counts q of Some k \<Rightarrow> k | None \<Rightarrow> 0) < MAX_PENDING_PER_PEER" and job: "job_ok me q job"
  shows "pend_ok me (n + 1) (pend @ [(n, q, job)])
    (jm_set q ((case jm_get counts q of Some k \<Rightarrow> k | None \<Rightarrow> 0) + 1) counts)"
proof -
  have cnt: "(case jm_get counts q of Some k \<Rightarrow> k | None \<Rightarrow> 0) = pending_of q pend"
    using ok by (simp add: pend_ok_def)
  have "n \<notin> fst ` set pend" using ok by (force simp: pend_ok_def)
  then have wf: "jm_wf (pend @ [(n, q, job)])" using ok by (simp add: pend_ok_def jm_wf_def)
  have "(i, q', job') \<in> set (pend @ [(n, q, job)]) \<Longrightarrow> i < n + 1 \<and> job_ok me q' job'" for i q' job'
    using ok job by (force simp: pend_ok_def)
  moreover have "pending_of p (pend @ [(n, q, job)]) \<le> MAX_PENDING_PER_PEER \<and>
      jm_get (jm_set q (pending_of q pend + 1) counts) p =
        (if pending_of p (pend @ [(n, q, job)]) = 0 then None else Some (pending_of p (pend @ [(n, q, job)])))" for p
    using ok per unfolding cnt pending_of_snoc by (auto simp: pend_ok_def)
  ultimately show ?thesis using ok wf len unfolding cnt by (auto simp: pend_ok_def)
qed

lemma pend_ok_fire:
  assumes ok: "pend_ok me n pend counts" and get: "jm_get pend i = Some (q, job)"
  shows "pend_ok me n (jm_del i pend)
    (let k = (case jm_get counts q of Some k \<Rightarrow> k | None \<Rightarrow> 1) - 1 in if k > 0 then jm_set q k counts else jm_del q counts)"
proof -
  have wf: "jm_wf pend" using ok by (simp add: pend_ok_def)
  note del = pending_of_del [OF wf get]
  have cnt: "(case jm_get counts q of Some k \<Rightarrow> k | None \<Rightarrow> 1) - 1 = pending_of q (jm_del i pend)"
    using ok del [of q] by (simp add: pend_ok_def)
  have "length (jm_del i pend) \<le> length pend" using wf by (simp add: length_jm_del)
  moreover have "length pend \<le> MAX_PENDING" using ok by (simp add: pend_ok_def)
  ultimately have len: "length (jm_del i pend) \<le> MAX_PENDING" by linarith
  have "jm_get counts p = (if pending_of p pend = 0 then None else Some (pending_of p pend))" for p
    using ok by (simp add: pend_ok_def)
  then have "jm_get (if pending_of q (jm_del i pend) > 0 then jm_set q (pending_of q (jm_del i pend)) counts else jm_del q counts) p =
      (if pending_of p (jm_del i pend) = 0 then None else Some (pending_of p (jm_del i pend)))" for p
    using del [of p] by auto
  moreover have "pending_of p (jm_del i pend) \<le> MAX_PENDING_PER_PEER" for p
  proof -
    have "pending_of p pend \<le> MAX_PENDING_PER_PEER" using ok by (simp add: pend_ok_def)
    then show ?thesis using del [of p] by linarith
  qed
  ultimately show ?thesis using ok wf len unfolding cnt Let_def by (auto simp: pend_ok_def set_jm_del)
qed

text \<open>What the auxiliary operations change.\<close>

lemma guard_events_state:
  "\<exists>m. snd (guard_events e ev c) = c\<lparr>oc_guardNeighbors := m\<rparr> \<and> (m = oc_guardNeighbors c \<or> m = [])"
proof (induction e ev c rule: guard_events.induct)
  case (2 e l g ev c)
  have gc: "snd (guard_changed e g c) = c\<lparr>oc_guardNeighbors := []\<rparr>"
    by (simp add: guard_changed_def Let_def split: option.split)
  show ?case
  proof (cases "l = GUARD_LISTENER")
    case True
    obtain fx c1 where 1: "guard_changed e g c = (fx, c1)" by force
    with gc have c1: "c1 = c\<lparr>oc_guardNeighbors := []\<rparr>" by simp
    show ?thesis using 2(1) [OF True 1 [symmetric] refl] True 1 c1
      by (cases "guard_events e ev c1") auto
  qed (use 2(2) in simp)
next
  case (1 e c)
  show ?case by (rule exI [of _ "oc_guardNeighbors c"]) simp
qed

lemma currentGuard_state:
  assumes "currentGuard e c = (g, fx, c')"
  obtains d m where "c' = c\<lparr>oc_dandelion := d, oc_guardNeighbors := m\<rparr>" "m = oc_guardNeighbors c \<or> m = []"
proof (cases "getPinnedGuard (guard_view (oe_pm e)) (oe_now e) (oe_guardDraws e) (map fst (verifiedNeighbors e)) (oc_dandelion c)")
  case None
  then show thesis using assms that [of "oc_guardNeighbors c" "oc_dandelion c"] by (simp add: currentGuard_def)
next
  case (Some r)
  obtain g0 d ev where r: "r = (g0, d, ev)" by (metis prod_cases3)
  from guard_events_state [of e ev "c\<lparr>oc_dandelion := d\<rparr>"] obtain m
    where m: "snd (guard_events e ev (c\<lparr>oc_dandelion := d\<rparr>)) = c\<lparr>oc_dandelion := d, oc_guardNeighbors := m\<rparr>"
      "m = oc_guardNeighbors c \<or> m = []" by auto
  then show thesis using assms Some r that [of m d]
    by (cases "guard_events e ev (c\<lparr>oc_dandelion := d\<rparr>)") (simp add: currentGuard_def Let_def)
qed

lemma pickExit_state: "snd (pickExit e g ex c) = c\<lparr>oc_guardNeighbors := live_neighbors (oe_now e) (oc_guardNeighbors c)\<rparr>"
  by (simp add: pickExit_def Let_def)

lemma oc_ok_simps [simp]:
  "oc_ok cfg (c\<lparr>oc_dandelion := d\<rparr>) = oc_ok cfg c"
  "oc_ok cfg (c\<lparr>oc_times := t\<rparr>) = oc_ok cfg c"
  "oc_ok cfg (c\<lparr>oc_level := l\<rparr>) = oc_ok cfg c"
  "oc_ok cfg (c\<lparr>oc_levelListeners := ll\<rparr>) = oc_ok cfg c"
  "oc_ok cfg (c\<lparr>oc_exitHandlers := h\<rparr>) = oc_ok cfg c"
  "oc_ok cfg (c\<lparr>oc_coverTimer := b\<rparr>) = oc_ok cfg c"
  "oc_ok cfg (c\<lparr>oc_pexTimer := b\<rparr>) = oc_ok cfg c"
  "oc_ok cfg (c\<lparr>oc_running := b\<rparr>) = oc_ok cfg c"
  "oc_ok cfg (c\<lparr>oc_curveKeys := k\<rparr>) = oc_ok cfg c"
  by (simp_all add: oc_ok_def)

lemma oc_ok_neighbors: "oc_ok cfg c \<Longrightarrow> neighbors_ok cfg m \<Longrightarrow> oc_ok cfg (c\<lparr>oc_guardNeighbors := m\<rparr>)"
  by (simp add: oc_ok_def)

lemma oc_ok_queue: "oc_ok cfg c \<Longrightarrow> length q \<le> MAX_QUEUE \<Longrightarrow> oc_ok cfg (c\<lparr>oc_queue := q\<rparr>)"
  by (simp add: oc_ok_def)

lemma oc_ok_xpk: "oc_ok cfg c \<Longrightarrow> cache_ok (pc_S cfg) x \<Longrightarrow> oc_ok cfg (c\<lparr>oc_xpk := x\<rparr>)"
  by (simp add: oc_ok_def)

lemma oc_ok_parts:
  assumes "oc_ok cfg c"
  shows "neighbors_ok cfg (oc_guardNeighbors c)" "length (oc_queue c) \<le> MAX_QUEUE" "cache_ok (pc_S cfg) (oc_xpk c)"
    "seen_ok (oc_seenCells c)" "pend_ok (my_peer_id cfg) (oc_next c) (oc_pending c) (oc_pendingPerPeer c)"
  using assms by (simp_all add: oc_ok_def)

lemma currentGuard_ok: "currentGuard e c = (g, fx, c') \<Longrightarrow> oc_ok cfg c \<Longrightarrow> oc_ok cfg c'"
  by (erule currentGuard_state) (auto intro!: oc_ok_neighbors dest: oc_ok_parts(1))

lemma pickExit_ok: "pickExit e g ex c = (x, c') \<Longrightarrow> oc_ok cfg c \<Longrightarrow> oc_ok cfg c'"
  using pickExit_state [of e g ex c] by (auto intro!: oc_ok_neighbors dest: oc_ok_parts(1))

lemma next_item_ok: "next_item e g q c = (x, c') \<Longrightarrow> oc_ok cfg c \<Longrightarrow> length q \<le> MAX_QUEUE \<Longrightarrow> oc_ok cfg c'"
proof (induction e g q c rule: next_item.induct)
  case (2 e g item rest c)
  have short: "length rest \<le> MAX_QUEUE" using "2.prems" by simp
  show ?case
  proof (cases "qc_guardId item = g")
    case True
    then show ?thesis using "2.prems" short by (auto intro: oc_ok_queue)
  next
    case False
    obtain x1 c1 where p: "pickExit e g [] c = (x1, c1)" by force
    have c1: "oc_ok cfg c1" using pickExit_ok [OF p] "2.prems" by simp
    show ?thesis
    proof (cases x1)
      case None
      then show ?thesis using "2.IH" [OF False p [symmetric] None] "2.prems" False p c1 short by simp
    next
      case (Some exit)
      then show ?thesis using "2.prems" False p c1 short by (auto intro: oc_ok_queue)
    qed
  qed
qed (auto intro: oc_ok_queue)

lemma next_cell_ok: "next_cell e g c = (x, c') \<Longrightarrow> oc_ok cfg c \<Longrightarrow> oc_ok cfg c'"
  using next_item_ok [of e g "oc_queue c" c] pickExit_ok oc_ok_parts(2)
  by (fastforce simp: next_cell_def split: prod.splits option.splits)

lemma next_item_dandelion: "oc_dandelion (snd (next_item e g q c)) = oc_dandelion c"
proof (induction e g q c rule: next_item.induct)
  case (2 e g item rest c)
  obtain x1 c1 where p: "pickExit e g [] c = (x1, c1)" by force
  have "oc_dandelion c1 = oc_dandelion c" using pickExit_state [of e g "[]" c] p by simp
  then show ?case using 2 p by (auto split: option.split)
qed simp

lemma pickExit_dandelion: "pickExit e g ex c = (x, c') \<Longrightarrow> oc_dandelion c' = oc_dandelion c"
  using pickExit_state [of e g ex c] by simp

lemma next_cell_dandelion:
  assumes "next_cell e g c = (x, c')"
  shows "oc_dandelion c' = oc_dandelion c"
proof -
  obtain item c1 where n: "next_item e g (oc_queue c) c = (item, c1)" by force
  have "oc_dandelion c1 = oc_dandelion c" using next_item_dandelion [of e g "oc_queue c" c] n by simp
  then show ?thesis using assms n pickExit_dandelion [of e g "[]" c1]
    by (auto simp: next_cell_def split: option.splits prod.splits)
qed

lemma wrapCircuit_cache: "cache_ok S c \<Longrightarrow> wrapCircuit S M p rs q x hops c = (r, c') \<Longrightarrow> cache_ok S c'"
  by (metis wrapCircuit_ok prod.inject)

lemma emitCell_cases:
  assumes "emitCell e c = (fx, c')" "oc_ok (oe_cfg e) c"
  obtains (idle) g c1 where "currentGuard e c = (g, fx, c1)" "oc_ok (oe_cfg e) c'" "oc_dandelion c' = oc_dandelion c1"
  | (sent) guard fx0 c1 cell where "currentGuard e c = (Some guard, fx0, c1)" "length cell = CELL_SIZE"
      "fx = fx0 @ net_send e (fst guard) ONION_STEM (onion_msg cell)" "oc_ok (oe_cfg e) c'"
      "oc_dandelion c' = oc_dandelion c1"
proof -
  obtain g fx0 c1 where g: "currentGuard e c = (g, fx0, c1)" by (metis prod_cases3)
  have ok1: "oc_ok (oe_cfg e) c1" using currentGuard_ok [OF g assms(2)] .
  show thesis
  proof (cases g)
    case None
    then show thesis using assms g ok1 idle by (simp add: emitCell_def)
  next
    case (Some guard)
    obtain payload x c2 where n: "next_cell e (fst guard) c1 = ((payload, x), c2)" by (metis prod_cases3 surj_pair)
    have ok2: "oc_ok (oe_cfg e) c2" using next_cell_ok [OF n ok1] .
    have d2: "oc_dandelion c2 = oc_dandelion c1" using next_cell_dandelion [OF n] .
    show thesis
    proof (cases x)
      case None
      then show thesis using assms g n ok2 d2 Some idle by (simp add: emitCell_def)
    next
      case (Some exit)
      let ?w = "wrapCircuit (pc_S (oe_cfg e)) (pc_M (oe_cfg e)) (oe_exitPad e) (oe_sealRandom e) (oe_cellPad e)
          payload [guard, exit] (oc_xpk c2)"
      obtain r cache where w: "?w = (r, cache)" by force
      have "cache_ok (pc_S (oe_cfg e)) cache" using wrapCircuit_cache [OF oc_ok_parts(3) [OF ok2] w] .
      then have ok3: "oc_ok (oe_cfg e) (c2\<lparr>oc_xpk := cache\<rparr>)" using ok2 by (intro oc_ok_xpk)
      show thesis
      proof (cases r)
        case (Inl err)
        then show thesis using assms g n w ok3 d2 Some \<open>g = Some guard\<close> idle by (auto simp: emitCell_def)
      next
        case (Inr cell)
        have "length cell = CELL_SIZE"
          using w Inr by (auto simp: wrapCircuit_def split: if_splits sum.splits prod.splits dest: padCell_length)
        moreover have "fx = fx0 @ net_send e (fst guard) ONION_STEM (onion_msg cell)" "c' = c2\<lparr>oc_xpk := cache\<rparr>"
          using assms(1) g n w Some Inr \<open>g = Some guard\<close> by (simp_all add: emitCell_def)
        ultimately show thesis using g \<open>g = Some guard\<close> ok3 d2 by (intro sent [of guard fx0 c1 cell]) simp_all
      qed
    qed
  qed
qed

lemma scheduleCover_ok: "oc_ok cfg c \<Longrightarrow> oc_ok cfg (snd (scheduleCover e c))"
  by (simp add: scheduleCover_def Let_def)

lemma requestGuardNeighbors_ok: "oc_ok cfg c \<Longrightarrow> oc_ok cfg (snd (requestGuardNeighbors e c))"
  using currentGuard_ok [of e c] by (auto simp: requestGuardNeighbors_def split: prod.split option.split)

lemma cover_fires_ok: "oc_ok (oe_cfg e) c \<Longrightarrow> oc_ok (oe_cfg e) (snd (cover_fires e c))"
  using scheduleCover_ok emitCell_cases [of e c]
  by (auto simp: cover_fires_def Let_def split: prod.split) (metis snd_conv)+

lemma send_attempt_ok:
  assumes "oc_ok cfg c"
  shows "oc_ok cfg (snd (snd (send_attempt e p i w tried a c)))"
proof (cases "a < MAX_ATTEMPTS")
  case True
  obtain g fx c1 where g: "currentGuard e c = (g, fx, c1)" by (metis prod_cases3)
  have ok1: "oc_ok cfg c1" using currentGuard_ok [OF g assms] .
  show ?thesis
  proof (cases g)
    case None
    then show ?thesis using g ok1 True by (simp add: send_attempt_def)
  next
    case (Some guard)
    obtain x c2 where x: "pickExit e (fst guard) tried c1 = (x, c2)" by force
    have ok2: "oc_ok cfg c2" using pickExit_ok [OF x ok1] .
    then have "length (oc_queue c2) < MAX_QUEUE \<Longrightarrow> oc_ok cfg (c2\<lparr>oc_dandelion := d, oc_queue := oc_queue c2 @ [y]\<rparr>)" for y d
      by (intro oc_ok_queue) simp_all
    then show ?thesis using Some g x ok2 True by (auto simp: send_attempt_def split: option.split)
  qed
qed (use assms in \<open>simp add: send_attempt_def\<close>)

lemma pex_entry_ok:
  assumes "pex_entry e x c = Inr c'" "oc_ok (oe_cfg e) c"
  shows "oc_ok (oe_cfg e) c'"
proof -
  have known: "oc_ok (oe_cfg e) (c\<lparr>oc_guardNeighbors := jm_set p (k\<lparr>gn_seenAt := t\<rparr>) (oc_guardNeighbors c)\<rparr>)"
    if "jm_get (oc_guardNeighbors c) p = Some k" for p k t
  proof -
    have "bound_neighbor (oe_cfg e) p (gn_pubkey k)"
      using oc_ok_parts(1) [OF assms(2)] jm_get_in_set [OF that] by (auto simp: neighbors_ok_def)
    then show ?thesis using assms(2) by (intro oc_ok_neighbors neighbors_ok_set oc_ok_parts(1)) simp_all
  qed
  have fresh: "oc_ok (oe_cfg e) (c\<lparr>oc_guardNeighbors := jm_set p \<lparr>gn_pubkey = pk, gn_firstSeen = t, gn_seenAt = t\<rparr> (oc_guardNeighbors c)\<rparr>)"
    if "p \<noteq> my_peer_id (oe_cfg e)" "verifyClaim (pc_S (oe_cfg e))
        (JObj [(''peerId'', JStr p), (''pubkey'', JBytes pk), (''powCounter'', ctr)]) (pc_pow (oe_cfg e))" for p pk t ctr
  proof -
    have "bound_neighbor (oe_cfg e) p pk" using that by (auto simp: bound_neighbor_def)
    then show ?thesis using assms(2) by (intro oc_ok_neighbors neighbors_ok_set oc_ok_parts(1)) simp_all
  qed
  from assms show ?thesis
    by (auto simp: pex_entry_def Let_def rbind_Inr_iff split: jsval.splits if_splits option.splits intro: known fresh)
qed

lemma pex_entries_ok: "oc_ok (oe_cfg e) c \<Longrightarrow> oc_ok (oe_cfg e) (pex_entries e xs c)"
  by (induction e xs c rule: pex_entries.induct) (auto dest: pex_entry_ok split: sum.split)

lemma handleGuardPex_ok: "oc_ok (oe_cfg e) c \<Longrightarrow> oc_ok (oe_cfg e) (handleGuardPex e q msg c)"
  by (auto simp: handleGuardPex_def intro: pex_entries_ok split: jsval.split)

lemma defer_job_ok:
  assumes "oc_ok cfg c" "job_ok (my_peer_id cfg) q job"
  shows "oc_ok cfg (snd (defer_job q delay job c))"
  using assms pend_ok_defer [OF oc_ok_parts(5) [OF assms(1)] _ _ assms(2)]
  by (simp add: defer_job_def Let_def oc_ok_def not_le)

lemma pending_fires_ok: "oc_ok cfg c \<Longrightarrow> oc_ok cfg (snd (pending_fires e i c))"
  using pend_ok_fire [of "my_peer_id cfg" "oc_next c" "oc_pending c" "oc_pendingPerPeer c" i]
  by (auto simp: pending_fires_def Let_def oc_ok_def split: option.split prod.split)

lemma myCurveKeys_ok:
  assumes "myCurveKeys e c = (ks, c')" "oc_ok (oe_cfg e) c"
  shows "oc_ok (oe_cfg e) c'"
proof (cases "oc_curveKeys c")
  case None
  obtain pub priv ctr where s: "exportSecret (pc_identity (oe_cfg e)) = (pub, priv, ctr)" by (metis prod_cases3)
  obtain x cache where x: "toCurvePublicKey (pc_S (oe_cfg e)) pub (oc_xpk c) = (x, cache)" by force
  have "cache_ok (pc_S (oe_cfg e)) cache" using toCurve_ok(2) [OF oc_ok_parts(3) [OF assms(2)], of pub] x by simp
  then have "oc_ok (oe_cfg e) (c\<lparr>oc_xpk := cache\<rparr>)" using assms(2) by (intro oc_ok_xpk)
  then have "oc_ok (oe_cfg e) (c\<lparr>oc_xpk := cache\<rparr>)" "oc_ok (oe_cfg e) (c\<lparr>oc_xpk := cache, oc_curveKeys := k\<rparr>)" for k
    by simp_all
  then show ?thesis using assms(1) None s x by (auto simp: myCurveKeys_def Let_def split: option.splits)
qed (use assms in \<open>simp add: myCurveKeys_def\<close>)

lemma oc_relay_ok: "oc_ok (oe_cfg e) c \<Longrightarrow> oc_ok (oe_cfg e) (snd (oc_relay e q n inner c))"
  by (auto simp: oc_relay_def Let_def dest: padCell_length intro!: defer_job_ok split: sum.split)

text \<open>The three ways a cell is handled: ignored, relayed, or kept for the exit's handlers.\<close>

lemma handleCell_cases:
  obtains (ignored) c1 where "handleCell e q msg c = ([], c1)"
      "c1 = c \<or> (\<exists>cell ks. jget msg ''onionBytes'' = JBytes cell \<and> length cell = CELL_SIZE \<and>
         \<not> seen_has (oc_seenCells c) (cell_id e cell) \<and>
         myCurveKeys e (c\<lparr>oc_seenCells := seen_add (oe_now e) (cell_id e cell) (oc_seenCells c)\<rparr>) = (ks, c1))"
  | (work) cell pk sk c1 p where "jget msg ''onionBytes'' = JBytes cell" "length cell = CELL_SIZE"
      "\<not> seen_has (oc_seenCells c) (cell_id e cell)"
      "myCurveKeys e (c\<lparr>oc_seenCells := seen_add (oe_now e) (cell_id e cell) (oc_seenCells c)\<rparr>) = (Some (pk, sk), c1)"
      "unwrapWithCurveKeys (pc_S (oe_cfg e)) (pc_M (oe_cfg e)) cell pk sk = Some p"
      "(\<exists>n inner. p = Relay n inner \<and> handleCell e q msg c = oc_relay e q n inner c1) \<or>
       (\<exists>x. p = Exit x \<and> x \<noteq> Drop \<and> handleCell e q msg c = defer_job q
          (exponentialDelay (lc_exitDelayMs (oc_times c1)) (Some (lc_exitDelayMaxMs (oc_times c1))) (oe_delayDraw e))
          (ExitJob x) c1)"
proof (cases "\<exists>cell. jget msg ''onionBytes'' = JBytes cell \<and> length cell = CELL_SIZE \<and> \<not> seen_has (oc_seenCells c) (cell_id e cell)")
  case False
  then have "handleCell e q msg c = ([], c)" by (auto simp: handleCell_def split: jsval.split)
  then show thesis by (intro ignored) auto
next
  case True
  then obtain cell where cell: "jget msg ''onionBytes'' = JBytes cell" "length cell = CELL_SIZE"
    "\<not> seen_has (oc_seenCells c) (cell_id e cell)" by blast
  obtain ks c1 where ks: "myCurveKeys e (c\<lparr>oc_seenCells := seen_add (oe_now e) (cell_id e cell) (oc_seenCells c)\<rparr>) = (ks, c1)"
    by force
  show thesis
  proof (cases ks)
    case None
    then show thesis using ks cell by (intro ignored) (auto simp: handleCell_def)
  next
    case (Some k)
    obtain pk sk where k: "k = (pk, sk)" by force
    show thesis
    proof (cases "unwrapWithCurveKeys (pc_S (oe_cfg e)) (pc_M (oe_cfg e)) cell pk sk")
      case None
      then show thesis using ks cell Some k by (intro ignored) (auto simp: handleCell_def)
    next
      case (Some p)
      note u = Some
      show thesis
      proof (cases "p = Exit Drop")
        case True
        then show thesis using ks cell \<open>ks = Some k\<close> k u by (intro ignored) (auto simp: handleCell_def)
      next
        case False
        then show thesis using ks cell \<open>ks = Some k\<close> k u
          by (intro work [OF cell, of pk sk c1 p])
            (auto simp: handleCell_def split: onion_payload.split exit_payload.split)
      qed
    qed
  qed
qed

lemma handleCell_ok:
  assumes "oc_ok (oe_cfg e) c" "blake2b_law (pc_S (oe_cfg e))"
  shows "oc_ok (oe_cfg e) (snd (handleCell e q msg c))"
proof -
  have "cell_id e cell \<noteq> []" for cell
  proof
    assume "cell_id e cell = []"
    moreover have "length (cell_id e cell) = 32" using assms(2) by (simp add: cell_id_def blake2b_law_def)
    ultimately show False by simp
  qed
  then have seen: "oc_ok (oe_cfg e) (c\<lparr>oc_seenCells := seen_add t (cell_id e cell) (oc_seenCells c)\<rparr>)" for t cell
    using assms(1) seen_ok_add [of "oc_seenCells c" "cell_id e cell" t] by (simp add: oc_ok_def)
  show ?thesis
  proof (cases rule: handleCell_cases [of e q msg c])
    case (ignored c1)
    then show ?thesis using assms(1) seen myCurveKeys_ok by auto
  next
    case (work cell pk sk c1 p)
    have "oc_ok (oe_cfg e) c1" using myCurveKeys_ok [OF work(4) seen] .
    then show ?thesis using work(6) oc_relay_ok defer_job_ok by auto
  qed
qed

lemma oc_stop_ok: "oc_ok cfg c \<Longrightarrow> oc_ok cfg (snd (oc_stop c))"
  by (simp add: oc_stop_def oc_ok_def)

lemma oc_destroy_ok: "oc_ok cfg c \<Longrightarrow> oc_ok cfg (snd (oc_destroy c))"
  by (simp add: oc_destroy_def oc_stop_def oc_ok_def seen_destroy_def seen_ok_def)

lemma oc_start_ok: "oc_ok cfg c \<Longrightarrow> oc_ok cfg (snd (oc_start e c))"
  using requestGuardNeighbors_ok [of cfg "snd (scheduleCover e (c\<lparr>oc_running := True\<rparr>))" e]
    scheduleCover_ok [of cfg "c\<lparr>oc_running := True\<rparr>" e]
  by (auto simp: oc_start_def Let_def split: prod.split)

lemma setLevel_ok: "oc_ok cfg c \<Longrightarrow> oc_ok cfg (snd (setLevel e l c))"
  by (simp add: setLevel_def scheduleCover_def Let_def split: option.split)

lemmas oc_ops_ok = setLevel_ok oc_start_ok oc_stop_ok oc_destroy_ok cover_fires_ok requestGuardNeighbors_ok
  handleGuardPex_ok handleCell_ok pending_fires_ok send_attempt_ok

lemma seen_ok_cleanup: "seen_ok c \<Longrightarrow> seen_ok (seen_cleanup now c)"
proof -
  have "seen_ok c \<Longrightarrow> seen_ok (cleanup_from now l c)" for l
  proof (induction l arbitrary: c)
    case (Cons x l)
    obtain i t where x: "x = (i, t)" by force
    have "length (jm_del i c) \<le> length c" using Cons.prems by (simp add: seen_ok_def length_jm_del)
    then have "seen_ok (jm_del i c)"
      using Cons.prems by (auto simp: seen_ok_def set_jm_del)
    then show ?case using x Cons by simp
  qed simp
  then show "seen_ok c \<Longrightarrow> seen_ok (seen_cleanup now c)" by (simp add: seen_cleanup_def)
qed

lemma sweep_ok: "oc_ok cfg c \<Longrightarrow> oc_ok cfg (c\<lparr>oc_seenCells := seen_cleanup now (oc_seenCells c)\<rparr>)"
  by (simp add: oc_ok_def seen_ok_cleanup)

lemma oc_exec_ok:
  "oc_ok (oe_cfg e) c \<Longrightarrow> blake2b_law (pc_S (oe_cfg e)) \<Longrightarrow> oc_ok (oe_cfg e) (snd (oc_exec e op c))"
  by (cases op)
    (simp_all add: oc_ops_ok sweep_ok onLevelChange_def offLevelChange_def onExit_def Let_def send_def send_resume_def pex_tick_def)

lemma oc_new_ok: "cache_ok (pc_S cfg) cache \<Longrightarrow> oc_ok cfg (oc_new opts d cache)"
  by (simp add: oc_new_def Let_def oc_ok_def seen_ok_def)

lemma oc_run_ok:
  assumes "oc_ok cfg c" "blake2b_law (pc_S cfg)" "\<forall>(e, op) \<in> set evs. oe_cfg e = cfg"
  shows "oc_ok cfg (snd (oc_run evs c))"
  using assms
proof (induction evs arbitrary: c)
  case (Cons ev evs)
  obtain e op where ev: "ev = (e, op)" by force
  have e: "oe_cfg e = cfg" using Cons.prems(3) ev by simp
  obtain fx c1 where x: "oc_exec e op c = (fx, c1)" by force
  have "oc_ok cfg c1" using oc_exec_ok [of e c op] Cons.prems(1,2) x e by simp
  then have "oc_ok cfg (snd (oc_run evs c1))" using Cons by simp
  then show ?case by (auto simp: ev x split: prod.split)
qed simp

text \<open>C7: However a circuit is used and whatever it receives, its deferred work never exceeds 128 items, 16 for
  one sender, with a count per sender that is exact; its queue never exceeds 64; a deferred cell is one
  full cell that does not go back to its sender or to the node itself; a cover cell is never kept for
  the handlers; and every neighbour recorded for the guard has proved that its key belongs to its
  identifier.\<close>

theorem circuit_invariant:
  assumes "cache_ok (pc_S cfg) cache" "blake2b_law (pc_S cfg)" "\<forall>(e, op) \<in> set evs. oe_cfg e = cfg"
  shows "oc_ok cfg (snd (oc_run evs (oc_new opts d cache)))"
  by (rule oc_run_ok [OF oc_new_ok [OF assms(1)] assms(2,3)])

definition toy_oc_env :: "pm_config \<Rightarrow> peer_manager \<Rightarrow> oc_env" where
  "toy_oc_env cfg s = \<lparr>oe_cfg = cfg, oe_pm = s, oe_now = 0, oe_guardDraws = [0], oe_exitDraws = [0], oe_delayDraw = 0,
     oe_exitPad = [], oe_sealRandom = (\<lambda>_. []), oe_cellPad = []\<rparr>"

definition toy_options :: circuit_options where
  "toy_options = \<lparr>op_level = None, op_coverIntervalMs = None, op_relayDelayMs = None, op_exitDelayMs = None,
     op_exitDelayMaxMs = None, op_echoTimeoutMs = None\<rparr>"

definition toy_circuit_cfg :: pm_config where
  "toy_circuit_cfg = \<lparr>pc_S = toy_sodium, pc_M = toy_msgpack, pc_identity = fromKeyPair toy_sodium [] [] 0,
     pc_pow = NODE_ID_POW, pc_allowMissing = False, pc_rates = RATE_LIMITS, pc_misopts = default_options\<rparr>"

lemma toy_blake2b [simp]: "blake2b_law toy_sodium"
  by (simp add: blake2b_law_def toy_sodium_def)

theorem circuit_invariant_witness:
  "oc_ok toy_circuit_cfg (snd (oc_run [(toy_oc_env toy_circuit_cfg pm_init, OpStart), (toy_oc_env toy_circuit_cfg pm_init, OpSend Drop ''x'' 1)]
     (oc_new toy_options dandelion_init [])))"
  by (rule circuit_invariant) (simp_all add: toy_oc_env_def toy_circuit_cfg_def)

subsection \<open>What leaves the node\<close>

text \<open>A frame to \<open>p\<close> is one of the two kinds the circuit sends: a request for neighbours, or a message that
  holds exactly one full cell.\<close>

definition cell_frame :: "oc_env \<Rightarrow> bytes \<Rightarrow> bytes \<Rightarrow> bool" where
  "cell_frame e cell frame \<longleftrightarrow>
     length cell = CELL_SIZE \<and> frame = wire_encode (pc_M (oe_cfg e)) ONION_STEM (onion_msg cell)"

definition guard_frame :: "oc_env \<Rightarrow> bytes \<Rightarrow> bool" where
  "guard_frame e frame \<longleftrightarrow>
     frame = wire_encode (pc_M (oe_cfg e)) PEX_REQUEST pex_request \<or> (\<exists>cell. cell_frame e cell frame)"

definition to_guard :: "oc_env \<Rightarrow> peer_id option \<Rightarrow> oc_effect list \<Rightarrow> bool" where
  "to_guard e g fx \<longleftrightarrow> (\<forall>x. Net x \<in> set fx \<longrightarrow>
     (\<exists>p conn frame. x = SendFrame p conn frame \<and> Some p = g \<and> guard_frame e frame))"

lemma net_send_iff:
  "x \<in> set (net_send e p t payload) \<longleftrightarrow>
    (\<exists>w. jm_get (pm_peers (oe_pm e)) p = Some w \<and> wp_connected w \<and>
      x = Net (SendFrame p (wp_conn w) (wire_encode (pc_M (oe_cfg e)) t payload)))"
  by (cases "jm_get (pm_peers (oe_pm e)) p") (auto simp: net_send_def sendMessage_def)

lemma to_guard_append [simp]: "to_guard e g (xs @ ys) \<longleftrightarrow> to_guard e g xs \<and> to_guard e g ys"
  by (auto simp: to_guard_def)

lemma to_guard_Nil [simp]: "to_guard e g []"
  by (simp add: to_guard_def)

lemma to_guard_Cons [simp]: "(\<And>y. x \<noteq> Net y) \<Longrightarrow> to_guard e g (x # xs) \<longleftrightarrow> to_guard e g xs"
  by (auto simp: to_guard_def)

lemma to_guard_send:
  "t = PEX_REQUEST \<and> payload = pex_request \<or> t = ONION_STEM \<and> (\<exists>cell. length cell = CELL_SIZE \<and> payload = onion_msg cell) \<Longrightarrow>
    to_guard e (Some p) (net_send e p t payload)"
  by (auto simp: to_guard_def net_send_iff guard_frame_def cell_frame_def)

lemma to_guard_map [simp]: "(\<And>z y. f z \<noteq> Net y) \<Longrightarrow> to_guard e g (map f xs)"
  unfolding to_guard_def set_map image_iff by metis

lemma getPinnedGuard_result:
  assumes "getPinnedGuard peers now draws cands d = Some (g, d', ev)"
  shows "(\<forall>gid. g = Some gid \<longrightarrow> dn_guard d' = Some gid) \<and> (\<forall>(l, x) \<in> set ev. x = dn_guard d')"
  using assms by (auto simp: getPinnedGuard_def setGuard_def split: option.splits if_splits)

lemma guard_events_to_guard:
  "\<forall>(l, x) \<in> set ev. x = g \<Longrightarrow> to_guard e g (fst (guard_events e ev c))"
proof (induction e ev c rule: guard_events.induct)
  case (2 e l g' ev c)
  have gc: "to_guard e g (fst (guard_changed e g' c))"
    using 2(3) by (auto simp: guard_changed_def Let_def intro!: to_guard_send split: option.split)
  show ?case
  proof (cases "l = GUARD_LISTENER")
    case True
    obtain fx c1 where 1: "guard_changed e g' c = (fx, c1)" by force
    show ?thesis using 2(1) [OF True 1 [symmetric] refl] 2(3) True 1 gc
      by (cases "guard_events e ev c1") auto
  qed (use 2 in simp)
qed simp

lemma currentGuard_to_guard:
  assumes "currentGuard e c = (g, fx, c')"
  shows "to_guard e (dn_guard (oc_dandelion c')) fx \<and> (\<forall>h. g = Some h \<longrightarrow> dn_guard (oc_dandelion c') = Some (fst h))"
proof (cases "getPinnedGuard (guard_view (oe_pm e)) (oe_now e) (oe_guardDraws e) (map fst (verifiedNeighbors e)) (oc_dandelion c)")
  case None
  then show ?thesis using assms by (simp add: currentGuard_def)
next
  case (Some r)
  obtain g0 d ev where r: "r = (g0, d, ev)" by (metis prod_cases3)
  note res = getPinnedGuard_result [OF Some [unfolded r]]
  obtain fx1 c1 where ge: "guard_events e ev (c\<lparr>oc_dandelion := d\<rparr>) = (fx1, c1)" by force
  have "oc_dandelion c1 = d"
    using guard_events_state [of e ev "c\<lparr>oc_dandelion := d\<rparr>"] ge by auto
  moreover have "to_guard e (dn_guard d) fx1"
    using guard_events_to_guard [of ev "dn_guard d" e "c\<lparr>oc_dandelion := d\<rparr>"] res ge by simp
  ultimately show ?thesis using assms Some r ge res
    by (auto simp: currentGuard_def Let_def split: option.splits)
qed

lemma emitCell_to_guard:
  assumes "emitCell e c = (fx, c')" "oc_ok (oe_cfg e) c"
  shows "to_guard e (dn_guard (oc_dandelion c')) fx"
  using assms
proof (cases rule: emitCell_cases)
  case (idle g c1)
  then show ?thesis using currentGuard_to_guard [of e c g fx c1] by simp
next
  case (sent guard fx0 c1 cell)
  have "to_guard e (Some (fst guard)) (net_send e (fst guard) ONION_STEM (onion_msg cell))"
    using sent(2) by (intro to_guard_send) auto
  then show ?thesis using sent currentGuard_to_guard [of e c "Some guard" fx0 c1] by auto
qed

lemma scheduleCover_to_guard: "to_guard e g (fst (scheduleCover e c))"
  by (simp add: scheduleCover_def Let_def)

lemma cover_fires_to_guard:
  assumes "oc_ok (oe_cfg e) c"
  shows "to_guard e (dn_guard (oc_dandelion (snd (cover_fires e c)))) (fst (cover_fires e c))"
proof -
  obtain fx c1 where 1: "emitCell e c = (fx, c1)" by force
  have "oc_dandelion (snd (scheduleCover e c1)) = oc_dandelion c1" by (simp add: scheduleCover_def Let_def)
  then show ?thesis using emitCell_to_guard [OF 1 assms] scheduleCover_to_guard [of e _ c1] 1
    by (auto simp: cover_fires_def split: prod.split)
qed

lemma requestGuardNeighbors_to_guard:
  "to_guard e (dn_guard (oc_dandelion (snd (requestGuardNeighbors e c)))) (fst (requestGuardNeighbors e c))"
proof -
  obtain g fx c1 where g: "currentGuard e c = (g, fx, c1)" by (metis prod_cases3)
  show ?thesis using currentGuard_to_guard [OF g] g to_guard_send [of PEX_REQUEST pex_request]
    by (cases g) (auto simp: requestGuardNeighbors_def)
qed

lemma send_attempt_to_guard:
  "to_guard e (dn_guard (oc_dandelion (snd (snd (send_attempt e p i w tried a c))))) (fst (snd (send_attempt e p i w tried a c)))"
proof (cases "a < MAX_ATTEMPTS")
  case True
  obtain g fx c1 where g: "currentGuard e c = (g, fx, c1)" by (metis prod_cases3)
  note cg = currentGuard_to_guard [OF g]
  show ?thesis
  proof (cases g)
    case (Some guard)
    obtain x c2 where x: "pickExit e (fst guard) tried c1 = (x, c2)" by force
    show ?thesis using cg g Some x True pickExit_dandelion [OF x]
      by (cases x) (auto simp: send_attempt_def awaitEcho_def Let_def)
  qed (use g cg True in \<open>simp add: send_attempt_def\<close>)
qed (simp add: send_attempt_def)

lemma handleCell_to_guard: "to_guard e g (fst (handleCell e q msg c))"
proof -
  have d: "to_guard e g (fst (defer_job q t job c1))" for t job c1
    by (simp add: defer_job_def Let_def)
  have r: "to_guard e g (fst (oc_relay e q n inner c1))" for n inner c1
    by (simp add: oc_relay_def d Let_def split: sum.split)
  show ?thesis by (cases rule: handleCell_cases [of e q msg c]) (auto simp: d r)
qed

lemma oc_start_to_guard:
  "to_guard e (dn_guard (oc_dandelion (snd (oc_start e c)))) (fst (oc_start e c))"
proof -
  let ?c = "snd (scheduleCover e (c\<lparr>oc_running := True\<rparr>))"
  show ?thesis using requestGuardNeighbors_to_guard [of e ?c] scheduleCover_to_guard [of e _ "c\<lparr>oc_running := True\<rparr>"]
    by (auto simp: oc_start_def Let_def split: prod.splits)
qed

lemma oc_exec_to_guard:
  assumes "oc_ok (oe_cfg e) c" "\<nexists>i. op = OpFire i"
  shows "to_guard e (dn_guard (oc_dandelion (snd (oc_exec e op c)))) (fst (oc_exec e op c))"
proof -
  have stop: "to_guard e g (fst (oc_stop c))" for g
    by (simp add: oc_stop_def case_prod_unfold)
  show ?thesis using assms(2)
  proof (cases op)
    case (OpLevel l)
    then show ?thesis using scheduleCover_to_guard by (auto simp: setLevel_def Let_def split: option.split prod.split)
        (metis fst_conv)
  next
    case OpStop
    then show ?thesis by (simp add: stop)
  next
    case OpDestroy
    then show ?thesis using stop by (auto simp: oc_destroy_def split: prod.split)
  qed (use assms in \<open>auto simp: oc_start_to_guard send_def send_resume_def send_attempt_to_guard pex_tick_def
      cover_fires_to_guard requestGuardNeighbors_to_guard handleCell_to_guard\<close>)
qed

text \<open>C5: A node never sends an author's payload in the clear, and never to anybody but its guard: every frame
  the circuit sends, in any operation, is a request for neighbours or a message that holds exactly one
  full-size cell, and goes to the guard pinned at that moment; only the deferred relaying of somebody
  else's cell goes elsewhere, to the next hop that cell named, and that frame too is one full cell.\<close>

theorem circuit_sends_only_cells:
  assumes "oc_ok (oe_cfg e) c" "Net x \<in> set (fst (oc_exec e op c))"
  shows "\<exists>p conn frame. x = SendFrame p conn frame \<and>
    ((dn_guard (oc_dandelion (snd (oc_exec e op c))) = Some p \<and> guard_frame e frame) \<or>
     (\<exists>i sender cell. op = OpFire i \<and> jm_get (oc_pending c) i = Some (sender, CellJob p cell) \<and>
        p \<noteq> sender \<and> cell_frame e cell frame))"
proof (cases "\<exists>i. op = OpFire i")
  case False
  then have "to_guard e (dn_guard (oc_dandelion (snd (oc_exec e op c)))) (fst (oc_exec e op c))"
    using assms(1) by (intro oc_exec_to_guard)
  then show ?thesis using assms(2) unfolding to_guard_def by metis
next
  case True
  then obtain i where op: "op = OpFire i" by blast
  then obtain sender job where get: "jm_get (oc_pending c) i = Some (sender, job)"
    using assms(2) by (cases "jm_get (oc_pending c) i") (auto simp: pending_fires_def)
  have ok: "job_ok (my_peer_id (oe_cfg e)) sender job"
    using oc_ok_parts(5) [OF assms(1)] jm_get_in_set [OF get] by (auto simp: pend_ok_def)
  from assms(2) obtain c1 where "Net x \<in> set (run_job e sender job c1)"
    by (auto simp: op get pending_fires_def Let_def)
  then obtain p cell where job: "job = CellJob p cell" and "Net x \<in> set (net_send e p ONION_STEM (onion_msg cell))"
    by (cases job) (auto simp: run_job_def split: option.splits if_splits jsval.splits)
  then show ?thesis using op get ok by (auto simp: net_send_iff cell_frame_def)
qed

definition toy_relaying :: circuit where
  "toy_relaying = (oc_new toy_options dandelion_init [])\<lparr>
     oc_pending := [(0, ''s'', CellJob ''p'' (replicate 3800 0))], oc_pendingPerPeer := [(''s'', 1)], oc_next := 1\<rparr>"

theorem circuit_sends_only_cells_witness:
  "\<exists>x. Net x \<in> set (fst (oc_exec (toy_oc_env toy_circuit_cfg
       (pm_init\<lparr>pm_peers := [(''p'', (wp_new 0 True)\<lparr>wp_connected := True, wp_verified := True\<rparr>)]\<rparr>)) (OpFire 0) toy_relaying)) \<and>
     (\<exists>conn frame. x = SendFrame ''p'' conn frame)"
proof -
  let ?e = "toy_oc_env toy_circuit_cfg
       (pm_init\<lparr>pm_peers := [(''p'', (wp_new 0 True)\<lparr>wp_connected := True, wp_verified := True\<rparr>)]\<rparr>)"
  let ?x = "SendFrame ''p'' 0 (wire_encode (pc_M toy_circuit_cfg) ONION_STEM (onion_msg (replicate 3800 0)))"
  have me: "''p'' \<noteq> my_peer_id toy_circuit_cfg"
  proof
    assume "''p'' = my_peer_id toy_circuit_cfg"
    then have "length ''p'' = length (my_peer_id toy_circuit_cfg)" by simp
    then show False by (simp add: toy_circuit_cfg_def fromKeyPair_def derivePeerId_def toy_sodium_def Let_def)
  qed
  have "oc_ok (oe_cfg ?e) (oc_new toy_options dandelion_init [])" by (intro oc_new_ok) simp
  then have ok: "oc_ok (oe_cfg ?e) toy_relaying"
    using me by (simp add: toy_relaying_def oc_ok_def pend_ok_def pending_of_def jm_wf_def toy_oc_env_def)
  have x: "Net ?x \<in> set (fst (oc_exec ?e (OpFire 0) toy_relaying))"
    by (simp add: toy_relaying_def pending_fires_def run_job_def net_send_iff toy_oc_env_def wp_new_def pm_init_def)
  show ?thesis using circuit_sends_only_cells [OF ok x] x by auto
qed

subsection \<open>Replayed cells\<close>

lemma currentGuard_seen: "currentGuard e c = (g, fx, c') \<Longrightarrow> oc_seenCells c' = oc_seenCells c"
  by (erule currentGuard_state) simp

lemma pickExit_seen: "pickExit e g ex c = (x, c') \<Longrightarrow> oc_seenCells c' = oc_seenCells c"
  using pickExit_state [of e g ex c] by simp

lemma next_item_seen: "oc_seenCells (snd (next_item e g q c)) = oc_seenCells c"
proof (induction e g q c rule: next_item.induct)
  case (2 e g item rest c)
  obtain x1 c1 where p: "pickExit e g [] c = (x1, c1)" by force
  show ?case using 2 p pickExit_seen [OF p] by (auto split: option.split)
qed simp

lemma next_cell_seen:
  assumes "next_cell e g c = (x, c')"
  shows "oc_seenCells c' = oc_seenCells c"
proof -
  obtain item c1 where n: "next_item e g (oc_queue c) c = (item, c1)" by force
  have "oc_seenCells c1 = oc_seenCells c" using next_item_seen [of e g "oc_queue c" c] n by simp
  then show ?thesis using assms n pickExit_seen [of e g "[]" c1]
    by (auto simp: next_cell_def split: option.splits prod.splits)
qed

lemma emitCell_seen: "oc_seenCells (snd (emitCell e c)) = oc_seenCells c"
  by (auto simp: emitCell_def split: prod.split option.split sum.split dest!: currentGuard_seen next_cell_seen)

lemma scheduleCover_seen: "oc_seenCells (snd (scheduleCover e c)) = oc_seenCells c"
  by (simp add: scheduleCover_def Let_def)

lemma requestGuardNeighbors_seen: "oc_seenCells (snd (requestGuardNeighbors e c)) = oc_seenCells c"
  by (auto simp: requestGuardNeighbors_def split: prod.split option.split dest!: currentGuard_seen)

lemma send_attempt_seen: "oc_seenCells (snd (snd (send_attempt e p i w tried a c))) = oc_seenCells c"
  by (auto simp: send_attempt_def split: prod.split option.split dest!: currentGuard_seen pickExit_seen)

lemma pex_entry_seen: "pex_entry e x c = Inr c' \<Longrightarrow> oc_seenCells c' = oc_seenCells c"
  by (auto simp: pex_entry_def Let_def rbind_Inr_iff split: jsval.splits if_splits option.splits)

lemma handleGuardPex_seen: "oc_seenCells (handleGuardPex e q msg c) = oc_seenCells c"
proof -
  have "oc_seenCells (pex_entries e xs c) = oc_seenCells c" for xs
    by (induction e xs c rule: pex_entries.induct) (auto dest: pex_entry_seen split: sum.split)
  then show ?thesis by (simp add: handleGuardPex_def split: jsval.split)
qed

lemma myCurveKeys_seen: "myCurveKeys e c = (ks, c') \<Longrightarrow> oc_seenCells c' = oc_seenCells c"
  by (auto simp: myCurveKeys_def Let_def split: option.splits prod.splits)

lemma handleCell_seen:
  "oc_seenCells (snd (handleCell e q msg c)) =
    (case jget msg ''onionBytes'' of
       JBytes cell \<Rightarrow>
         if length cell = CELL_SIZE then seen_add (oe_now e) (cell_id e cell) (oc_seenCells c) else oc_seenCells c
     | _ \<Rightarrow> oc_seenCells c)"
proof -
  have d: "oc_seenCells (snd (defer_job q t job c1)) = oc_seenCells c1" for t job c1
    by (simp add: defer_job_def Let_def)
  have r: "oc_seenCells (snd (oc_relay e q n inner c1)) = oc_seenCells c1" for n inner c1
    by (simp add: oc_relay_def d Let_def split: sum.split)
  have s: "seen_has s k \<Longrightarrow> seen_add t k s = s" for s k t
    by (simp add: seen_has_def seen_add_def)
  show ?thesis
    by (auto simp: handleCell_def d r s dest!: myCurveKeys_seen
        split: jsval.split prod.split option.split onion_payload.split exit_payload.split)
qed

lemma oc_exec_seen:
  assumes "op \<noteq> OpDestroy" "op \<noteq> OpSweep"
  shows "oc_seenCells (snd (oc_exec e op c)) = oc_seenCells c \<or>
    (\<exists>cell. oc_seenCells (snd (oc_exec e op c)) = seen_add (oe_now e) (cell_id e cell) (oc_seenCells c))"
proof (cases op)
  case (OpLevel l)
  then show ?thesis by (simp add: setLevel_def scheduleCover_def Let_def split: option.split)
next
  case OpStart
  obtain fx c1 where "scheduleCover e (c\<lparr>oc_running := True\<rparr>) = (fx, c1)" by force
  then show ?thesis using OpStart requestGuardNeighbors_seen [of e c1] scheduleCover_seen [of e "c\<lparr>oc_running := True\<rparr>"]
    by (auto simp: oc_start_def split: prod.split)
next
  case OpCover
  obtain fx c1 where "emitCell e c = (fx, c1)" by force
  then show ?thesis using OpCover emitCell_seen [of e c] scheduleCover_seen [of e c1]
    by (auto simp: cover_fires_def split: prod.split)
next
  case (OpFire i)
  then show ?thesis by (simp add: pending_fires_def Let_def split: option.split prod.split)
next
  case (OpCell q msg)
  then show ?thesis by (auto simp: handleCell_seen split: jsval.split)
qed (use assms in \<open>auto simp: send_def send_resume_def send_attempt_seen pex_tick_def requestGuardNeighbors_seen
    handleGuardPex_seen onLevelChange_def offLevelChange_def onExit_def Let_def oc_stop_def\<close>)

lemma cell_id_nonempty: "blake2b_law (pc_S (oe_cfg e)) \<Longrightarrow> cell_id e cell \<noteq> []"
proof
  assume "blake2b_law (pc_S (oe_cfg e))" "cell_id e cell = []"
  moreover from this(1) have "length (cell_id e cell) = 32" by (simp add: cell_id_def blake2b_law_def)
  ultimately show False by simp
qed

lemma seen_recent_Suc: "seen_recent k n s \<Longrightarrow> seen_recent k (Suc n) s"
  unfolding seen_recent_def by (metis le_SucI)

lemma oc_run_recent:
  assumes "oc_ok cfg c" "blake2b_law (pc_S cfg)" "seen_recent k n (oc_seenCells c)"
    "\<forall>(e, op) \<in> set evs. oe_cfg e = cfg \<and> op \<noteq> OpDestroy \<and> op \<noteq> OpSweep" "n + length evs < SEEN_MAX_SIZE"
  shows "seen_recent k (n + length evs) (oc_seenCells (snd (oc_run evs c)))"
  using assms
proof (induction evs arbitrary: c n)
  case (Cons ev evs)
  obtain e op where ev: "ev = (e, op)" by force
  have e: "oe_cfg e = cfg" "op \<noteq> OpDestroy" "op \<noteq> OpSweep" using Cons.prems(4) ev by simp_all
  obtain fx c1 where x: "oc_exec e op c = (fx, c1)" by force
  have ok1: "oc_ok cfg c1" using oc_exec_ok [of e c op] Cons.prems(1,2) x e by simp
  have "seen_recent k (Suc n) (oc_seenCells c1)"
    using oc_exec_seen [OF e(2,3), of e c] x seen_recent_Suc [OF Cons.prems(3)]
      seen_recent_step [OF oc_ok_parts(4) [OF Cons.prems(1)] cell_id_nonempty, of e k n] Cons.prems(2,3,5) e(1)
    by auto
  then have "seen_recent k (Suc n + length evs) (oc_seenCells (snd (oc_run evs c1)))"
    using Cons.IH [OF ok1, of "Suc n"] Cons.prems by simp
  then show ?case by (auto simp: ev x split: prod.split)
qed simp

text \<open>C6: A cell is handled at most once: after a node has taken a cell it had not seen, the same bytes again,
  from whoever and after any traffic and any operations (short of the expiry sweep, a shutdown or 50 000
  newer cells), do nothing at all, so a cell cannot be replayed to watch what it does.\<close>

theorem circuit_no_replay:
  assumes "oc_ok cfg c" "blake2b_law (pc_S cfg)" "oe_cfg e = cfg" "oe_cfg e' = cfg"
    "jget msg ''onionBytes'' = JBytes cell" "jget msg' ''onionBytes'' = JBytes cell" "length cell = CELL_SIZE"
    "\<not> seen_has (oc_seenCells c) (cell_id e cell)"
    "\<forall>(d, op) \<in> set evs. oe_cfg d = cfg \<and> op \<noteq> OpDestroy \<and> op \<noteq> OpSweep" "length evs < SEEN_MAX_SIZE"
  shows "handleCell e' q' msg' (snd (oc_run evs (snd (handleCell e q msg c)))) =
    ([], snd (oc_run evs (snd (handleCell e q msg c))))"
proof -
  let ?c1 = "snd (handleCell e q msg c)"
  have "oc_ok cfg ?c1" using handleCell_ok [of e c] assms(1,2,3) by simp
  moreover have "seen_recent (cell_id e cell) 0 (oc_seenCells ?c1)"
    using seen.recent_new [OF oc_ok_parts(4) [OF assms(1)] cell_id_nonempty assms(8)] assms(2,3,5,7)
    by (simp add: handleCell_seen)
  ultimately have "seen_recent (cell_id e cell) (0 + length evs) (oc_seenCells (snd (oc_run evs ?c1)))"
    using assms(2,9,10) by (intro oc_run_recent) auto
  then have "seen_has (oc_seenCells (snd (oc_run evs ?c1))) (cell_id e cell)" by (rule seen.recent_has)
  moreover have "cell_id e' cell = cell_id e cell" using assms(3,4) by (simp add: cell_id_def)
  ultimately show ?thesis using assms(6,7) by (simp add: handleCell_def)
qed

theorem circuit_no_replay_witness:
  "fst (handleCell (toy_oc_env toy_circuit_cfg pm_init) ''r'' (onion_msg (replicate 3800 0))
     (snd (handleCell (toy_oc_env toy_circuit_cfg pm_init) ''q'' (onion_msg (replicate 3800 0))
       (oc_new toy_options dandelion_init [])))) = []"
  using circuit_no_replay [of toy_circuit_cfg "oc_new toy_options dandelion_init []" "toy_oc_env toy_circuit_cfg pm_init"
      "toy_oc_env toy_circuit_cfg pm_init" "onion_msg (replicate 3800 0)" "replicate 3800 0" "onion_msg (replicate 3800 0)" "[]"
      "''r''" "''q''"] oc_new_ok [of toy_circuit_cfg "[]" toy_options dandelion_init]
  by (simp add: toy_oc_env_def toy_circuit_cfg_def onion_msg_def oc_new_def Let_def seen_has_def SEEN_MAX_SIZE_def)

subsection \<open>The choice of an exit\<close>

text \<open>An exit is a node the guard lists now, whose key is proved to belong to its identifier, seen within
  ten minutes; it is neither the node itself, nor the guard, nor an exit tried before; and it is a
  neighbour of the node itself only when the guard lists nobody else.\<close>

theorem pickExit_sound:
  assumes "oc_ok (oe_cfg e) c" "pickExit e guardId exclude c = (Some exit, c')"
  shows "bound_neighbor (oe_cfg e) (fst exit) (snd exit) \<and>
    fst exit \<noteq> my_peer_id (oe_cfg e) \<and> fst exit \<noteq> guardId \<and> fst exit \<notin> set exclude \<and>
    (\<exists>i. jm_get (oc_guardNeighbors c) (fst exit) = Some i \<and> gn_pubkey i = snd exit \<and>
       oe_now e - gn_seenAt i \<le> GUARD_NEIGHBOR_TTL_MS) \<and>
    (jm_has (pm_peers (oe_pm e)) (fst exit) \<longrightarrow>
       (\<forall>(p, i) \<in> set (oc_guardNeighbors c'). p \<noteq> my_peer_id (oe_cfg e) \<and> p \<noteq> guardId \<and> p \<notin> set exclude \<longrightarrow>
          jm_has (pm_peers (oe_pm e)) p))"
proof -
  let ?live = "live_neighbors (oe_now e) (oc_guardNeighbors c)"
  let ?sel = "filter (\<lambda>(p, _). \<not> (p = my_peer_id (oe_cfg e) \<or> p = guardId \<or> p \<in> set exclude)) ?live"
  let ?fresh = "map (\<lambda>(p, i). (p, gn_pubkey i)) ?sel"
  let ?non = "filter (\<lambda>h. \<not> jm_has (pm_peers (oe_pm e)) (fst h)) ?fresh"
  define pool where "pool = (if ?non \<noteq> [] then ?non else ?fresh)"
  define k where "k = (case secureWeightedIndex (map (exit_weight (oe_now e) ?live) pool) (oe_exitDraws e) of Some i \<Rightarrow> i | None \<Rightarrow> 0)"
  have ne: "?fresh \<noteq> []" using assms(2) by (auto simp: pickExit_def Let_def split: if_splits)
  then have exit: "exit = pool ! k" and c': "c' = c\<lparr>oc_guardNeighbors := ?live\<rparr>"
    using assms(2) unfolding pickExit_def Let_def pool_def k_def by (simp_all split: if_splits)
  have pool: "pool \<noteq> []" "set pool \<subseteq> set ?fresh" using ne by (auto simp: pool_def)
  then have "k < length pool"
    using weighted_index_in_range [of "map (exit_weight (oe_now e) ?live) pool" "oe_exitDraws e"]
    by (auto simp: k_def split: option.split)
  then have in_pool: "exit \<in> set pool" using exit by simp
  then obtain i where i: "(fst exit, i) \<in> set ?sel" "gn_pubkey i = snd exit" using pool(2) by fastforce
  have nb: "neighbors_ok (oe_cfg e) (oc_guardNeighbors c)" using oc_ok_parts(1) [OF assms(1)] .
  have mem: "(fst exit, i) \<in> set (oc_guardNeighbors c)" "oe_now e - gn_seenAt i \<le> GUARD_NEIGHBOR_TTL_MS"
    using i by (auto simp: live_neighbors_def)
  then have "jm_get (oc_guardNeighbors c) (fst exit) = Some i" using nb jm_in_set_get by (auto simp: neighbors_ok_def)
  moreover have "bound_neighbor (oe_cfg e) (fst exit) (snd exit)" using nb mem i by (auto simp: neighbors_ok_def)
  moreover have "jm_has (pm_peers (oe_pm e)) p"
    if adj: "jm_has (pm_peers (oe_pm e)) (fst exit)" and p: "(p, j) \<in> set ?sel" for p j
  proof (rule ccontr)
    assume "\<not> jm_has (pm_peers (oe_pm e)) p"
    then have "?non \<noteq> []" using p by (force simp: filter_empty_conv)
    then show False using in_pool adj by (simp add: pool_def split: if_splits)
  qed
  ultimately show ?thesis using i mem(2) c' by auto
qed

lemma pickExit_some:
  assumes "(p, i) \<in> set (live_neighbors (oe_now e) (oc_guardNeighbors c))" "p \<noteq> my_peer_id (oe_cfg e)"
    "p \<noteq> guardId" "p \<notin> set exclude"
  shows "\<exists>exit. fst (pickExit e guardId exclude c) = Some exit"
proof -
  let ?sel = "filter (\<lambda>(p, _). \<not> (p = my_peer_id (oe_cfg e) \<or> p = guardId \<or> p \<in> set exclude))
      (live_neighbors (oe_now e) (oc_guardNeighbors c))"
  have "(p, i) \<in> set ?sel" using assms by simp
  then have "?sel \<noteq> []" by (metis empty_iff empty_set)
  then show ?thesis by (simp add: pickExit_def Let_def)
qed

definition toy_exit_cfg :: pm_config where
  "toy_exit_cfg = toy_circuit_cfg\<lparr>pc_identity := (pc_identity toy_circuit_cfg)\<lparr>nid_peerId := ''me''\<rparr>, pc_pow := NODE_ID_POW\<lparr>np_difficulty := 0\<rparr>\<rparr>"

definition toy_listing :: circuit where
  "toy_listing = (oc_new toy_options dandelion_init [])\<lparr>
     oc_guardNeighbors := [(replicate 32 CHR ''0'', \<lparr>gn_pubkey = replicate 32 7, gn_firstSeen = 0, gn_seenAt = 0\<rparr>)]\<rparr>"

lemma toy_peer_id: "derivePeerId toy_sodium pk = replicate 32 CHR ''0''"
proof -
  have "derivePeerId toy_sodium pk = toHex (replicate 16 0)" by (simp add: derivePeerId_def toy_sodium_def)
  also have "\<dots> = replicate 32 CHR ''0''" by code_simp
  finally show ?thesis .
qed

theorem pickExit_sound_witness:
  "\<exists>exit. fst (pickExit (toy_oc_env toy_exit_cfg pm_init) ''g'' [] toy_listing) = Some exit \<and> fst exit \<noteq> ''g''"
proof -
  let ?e = "toy_oc_env toy_exit_cfg pm_init" and ?p = "replicate 32 CHR ''0''"
  have cfg: "oe_cfg ?e = toy_exit_cfg" "pc_S toy_exit_cfg = toy_sodium" "my_peer_id toy_exit_cfg = ''me''"
    "np_difficulty (pc_pow toy_exit_cfg) = 0"
    by (simp_all add: toy_oc_env_def toy_exit_cfg_def toy_circuit_cfg_def)
  have "list_all is_lower_hex ?p" "?p \<noteq> ''me''" by code_simp+
  then have "bound_neighbor toy_exit_cfg ?p (replicate 32 7)"
    unfolding bound_neighbor_def cfg
    by (intro conjI exI [of _ "jint 0"]) (simp_all add: verifyClaim_def cfg toy_peer_id)
  then have ok: "oc_ok (oe_cfg ?e) toy_listing"
    using oc_new_ok [of toy_exit_cfg "[]" toy_options dandelion_init]
    by (simp add: toy_listing_def oc_ok_neighbors neighbors_ok_def jm_wf_def cfg)
  have "?p \<noteq> ''g''" by code_simp
  then obtain exit c' where pick: "pickExit ?e ''g'' [] toy_listing = (Some exit, c')"
    using pickExit_some [of ?p _ ?e toy_listing "''g''" "[]"] \<open>?p \<noteq> ''me''\<close>
    by (cases "pickExit ?e ''g'' [] toy_listing")
      (auto simp: cfg toy_listing_def live_neighbors_def toy_oc_env_def GUARD_NEIGHBOR_TTL_MS_def)
  show ?thesis using pickExit_sound [OF ok pick] pick by auto
qed

subsection \<open>A payload crosses the circuit\<close>

lemma defer_accepts:
  assumes "length (oc_pending c) < MAX_PENDING"
    "(case jm_get (oc_pendingPerPeer c) q of Some n \<Rightarrow> n | None \<Rightarrow> 0) < MAX_PENDING_PER_PEER"
  shows "oc_pending (snd (defer_job q delay job c)) = oc_pending c @ [(oc_next c, q, job)]"
  using assms by (simp add: defer_job_def Let_def)

definition has_room :: "circuit \<Rightarrow> peer_id \<Rightarrow> bool" where
  "has_room c q \<longleftrightarrow> length (oc_pending c) < MAX_PENDING \<and>
     (case jm_get (oc_pendingPerPeer c) q of Some n \<Rightarrow> n | None \<Rightarrow> 0) < MAX_PENDING_PER_PEER"

lemma handleCell_new:
  assumes "length cell = CELL_SIZE" "\<not> seen_has (oc_seenCells c) (cell_id e cell)" "oc_curveKeys c = Some (pk, sk)"
    "has_room c q" "unwrapWithCurveKeys (pc_S (oe_cfg e)) (pc_M (oe_cfg e)) cell pk sk = Some p"
  shows "p = Exit x \<Longrightarrow> x \<noteq> Drop \<Longrightarrow>
      oc_pending (snd (handleCell e q (onion_msg cell) c)) = oc_pending c @ [(oc_next c, q, ExitJob x)]"
    and "p = Relay n inner \<Longrightarrow> n \<noteq> q \<Longrightarrow> n \<noteq> my_peer_id (oe_cfg e) \<Longrightarrow> length inner = SEALED_EXIT_LAYER_SIZE \<Longrightarrow>
      padCell CELL_SIZE inner (oe_cellPad e) = Inr cell2 \<Longrightarrow>
      oc_pending (snd (handleCell e q (onion_msg cell) c)) = oc_pending c @ [(oc_next c, q, CellJob n cell2)]"
  using assms
  by (cases x; simp add: handleCell_def onion_msg_def myCurveKeys_def oc_relay_def Let_def defer_accepts has_room_def)+

text \<open>C4: An author's payload reaches the exit and nobody else: when the guard, not having seen the cell before
  and with room for it, handles the author's cell, all it defers is one full cell for the exit; when the
  exit handles that cell, what it defers for its handlers is the author's payload, attributed to the guard.
  The author's identifier is nowhere in what the exit receives.\<close>

theorem payload_crosses_circuit:
  assumes "box_seal_law S" "relay_fits M eid" "mp_roundtrip M (exit_val p)"
    "length (mp_encode M (exit_val p)) + 4 \<le> EXIT_LAYER_SIZE"
    "payload_ok (Exit p)" "p \<noteq> Drop" "is_peer_id eid" "cache_ok S cache"
    "pk_to_curve S (sign_pk S gsk) = Some gx" "pk_to_curve S (sign_pk S esk) = Some ex"
    "pc_S (oe_cfg ge) = S" "pc_M (oe_cfg ge) = M" "my_peer_id (oe_cfg ge) = gid" "oc_curveKeys gc = Some (gx, sk_to_curve S gsk)"
    "pc_S (oe_cfg ee) = S" "pc_M (oe_cfg ee) = M" "oc_curveKeys ec = Some (ex, sk_to_curve S esk)"
    "eid \<noteq> gid" "eid \<noteq> author" "has_room gc author" "has_room ec gid"
  shows "\<exists>cell cache'. wrapCircuit S M exitPad rs cellPad p [(gid, sign_pk S gsk), (eid, sign_pk S esk)] cache = (Inr cell, cache') \<and>
    (\<not> seen_has (oc_seenCells gc) (cell_id ge cell) \<longrightarrow>
      (\<exists>cell2. oc_pending (snd (handleCell ge author (onion_msg cell) gc)) =
           oc_pending gc @ [(oc_next gc, author, CellJob eid cell2)] \<and> length cell2 = CELL_SIZE \<and>
         (\<not> seen_has (oc_seenCells ec) (cell_id ee cell2) \<longrightarrow>
            oc_pending (snd (handleCell ee gid (onion_msg cell2) ec)) = oc_pending ec @ [(oc_next ec, gid, ExitJob p)])))"
proof -
  obtain cell inner c' where w: "wrapCircuit S M exitPad rs cellPad p [(gid, sign_pk S gsk), (eid, sign_pk S esk)] cache = (Inr cell, c')"
    "length cell = CELL_SIZE" "unwrapWithCurveKeys S M cell gx (sk_to_curve S gsk) = Some (Relay eid inner)"
    "length inner = SEALED_EXIT_LAYER_SIZE"
    and cells: "\<forall>random. \<exists>cell2. padCell CELL_SIZE inner random = Inr cell2 \<and> length cell2 = CELL_SIZE \<and>
       unwrapWithCurveKeys S M cell2 ex (sk_to_curve S esk) = Some (Exit p)"
    using two_hop [OF assms(1-5,7-10)] by metis
  obtain cell2 where c2: "padCell CELL_SIZE inner (oe_cellPad ge) = Inr cell2" "length cell2 = CELL_SIZE"
    "unwrapWithCurveKeys S M cell2 ex (sk_to_curve S esk) = Some (Exit p)" using cells by blast
  have "oc_pending (snd (handleCell ge author (onion_msg cell) gc)) = oc_pending gc @ [(oc_next gc, author, CellJob eid cell2)]"
    if "\<not> seen_has (oc_seenCells gc) (cell_id ge cell)"
    using handleCell_new(2) [OF w(2) that assms(14,20), of "Relay eid inner" eid inner cell2] w c2 assms by simp
  moreover have "oc_pending (snd (handleCell ee gid (onion_msg cell2) ec)) = oc_pending ec @ [(oc_next ec, gid, ExitJob p)]"
    if "\<not> seen_has (oc_seenCells ec) (cell_id ee cell2)"
    using handleCell_new(1) [OF c2(2) that assms(17,21), of "Exit p" p] c2 assms by simp
  ultimately show ?thesis using w c2 by (intro exI [of _ cell] exI [of _ c'] conjI impI exI [of _ cell2]) auto
qed

definition toy_onion_cfg :: "peer_id \<Rightarrow> peer_id \<Rightarrow> pm_config" where
  "toy_onion_cfg me nextHop = toy_circuit_cfg\<lparr>pc_M := toy_onion_msgpack nextHop (ExitHint []),
     pc_identity := (pc_identity toy_circuit_cfg)\<lparr>nid_peerId := me\<rparr>\<rparr>"

definition toy_keyed :: "bytes \<Rightarrow> circuit" where
  "toy_keyed sk = (oc_new toy_options dandelion_init [])\<lparr>oc_curveKeys := Some (sign_pk toy_sodium sk, sk_to_curve toy_sodium sk)\<rparr>"

theorem payload_crosses_circuit_witness:
  "\<exists>cell cell2. oc_pending (snd (handleCell (toy_oc_env (toy_onion_cfg ''g'' (replicate 32 CHR ''b'')) pm_init) ''a''
      (onion_msg cell) (toy_keyed [1]))) = [(0, ''a'', CellJob (replicate 32 CHR ''b'') cell2)]"
proof -
  let ?b = "replicate 32 CHR ''b''"
  let ?e = "\<lambda>me. toy_oc_env (toy_onion_cfg me ?b) pm_init"
  have id: "is_peer_id ?b" "?b \<noteq> ''g''" "?b \<noteq> ''a''" by code_simp+
  have ok: "payload_ok (Exit (ExitHint []))" "ExitHint [] \<noteq> Drop" by simp_all
  have env: "pc_S (oe_cfg (?e me)) = toy_sodium" "pc_M (oe_cfg (?e me)) = toy_onion_msgpack ?b (ExitHint [])"
    "my_peer_id (oe_cfg (?e me)) = me" for me
    by (simp_all add: toy_oc_env_def toy_onion_cfg_def toy_circuit_cfg_def)
  have keys: "oc_curveKeys (toy_keyed sk) = Some (sign_pk toy_sodium sk, sk_to_curve toy_sodium sk)"
    "has_room (toy_keyed sk) q" "oc_pending (toy_keyed sk) = []" "oc_next (toy_keyed sk) = 0"
    "\<not> seen_has (oc_seenCells (toy_keyed sk)) k" for sk q k
    by (simp_all add: toy_keyed_def oc_new_def has_room_def seen_has_def Let_def)
  from payload_crosses_circuit [where gsk = "[1]" and esk = "[2]" and exitPad = "[]" and rs = "\<lambda>_. []" and cellPad = "[]"
      and ee = "?e []", OF toy_laws(5) toy_onion_msgpack_ok ok id(1) cache_ok_Nil toy_pk toy_pk env keys(1)
      env(1,2) keys(1) id(2,3) keys(2) keys(2)]
  show ?thesis using keys by auto
qed

end
