(* ===== verification/JsonText.thy ===== *)
theory JsonText
  imports Json
begin

text \<open>
  Printing and parsing JSON are inverse on plain values: what \<open>JSON.stringify\<close> prints of a tree of
  \<open>null\<close>, booleans, integers below \<open>10 ^ 21\<close>, strings, arrays and objects, \<open>JSON.parse\<close> reads back as the same tree,
  whatever characters the strings hold. The lemma \<open>json_value_text\<close> shows on the way that the fuel of the
  parser, twice the length of the text, is enough: the length itself would do.
\<close>

fun plain_json :: "jsval \<Rightarrow> bool" where
  "plain_json Null = True"
| "plain_json (JBool b) = True"
| "plain_json (JNum (Fin r)) = (of_int (floor r) = r \<and> \<bar>r\<bar> < 10 ^ 21)"
| "plain_json (JStr s) = True"
| "plain_json (JArr vs) = list_all plain_json vs"
| "plain_json (JObj kvs) = (distinct (map fst kvs) \<and> list_all (\<lambda>(k, v). plain_json v) kvs)"
| "plain_json _ = False"

subsection \<open>Strings\<close>

lemma json_escape_u:
  assumes "n < 32"
  shows "json_escape (CHR ''u'' # (''00'' @ (if n < 16 then ''0'' else []) @ nat_digits 16 n) @ r) = Some (char_of n, r)"
proof -
  let ?h = "''00'' @ (if n < 16 then ''0'' else []) @ nat_digits 16 n"
  have d: "is_digit 16 CHR ''0''" "digit_val CHR ''0'' = Some 0" by (simp_all add: is_digit_def digit_val_def)
  note p = nat_digits_props [of 16 n, simplified]
  have len: "length (nat_digits 16 n) = (if n < 16 then 1 else 2)"
    using assms by (auto simp: nat_digits.simps [of 16 n] nat_digits.simps [of 16 "n div 16"] Let_def)
  have "length ?h = 4" using len by simp
  moreover have "list_all (is_digit 16) ?h" using p d by simp
  moreover have "digits_val 16 ?h = int n" using p d by (simp add: digits_val_def)
  ultimately show ?thesis
    using assms by (simp add: unit_char_def)
qed

lemma json_string_char: "json_string (json_char c @ r) = map_option (\<lambda>(t, r'). (c # t, r')) (json_string r)"
proof -
  consider "c \<in> {CHR 0x22, CHR 0x5C, CHR 0x08, CHR 0x0C, CHR 0x0A, CHR 0x0D, CHR 0x09}"
    | "c \<notin> {CHR 0x22, CHR 0x5C, CHR 0x08, CHR 0x0C, CHR 0x0A, CHR 0x0D, CHR 0x09}" "(of_char c :: nat) < 32"
    | "c \<notin> {CHR 0x22, CHR 0x5C, CHR 0x08, CHR 0x0C, CHR 0x0A, CHR 0x0D, CHR 0x09}" "\<not> (of_char c :: nat) < 32"
    by blast
  then show ?thesis
  proof cases
    case 1
    then show ?thesis by (auto simp: json_char_def)
  next
    case 2
    then have e: "json_char c @ r = CHR 0x5C # CHR ''u'' # (''00'' @ (if (of_char c :: nat) < 16 then ''0'' else []) @ nat_digits 16 (of_char c)) @ r"
      by (simp add: json_char_def)
    show ?thesis unfolding e using json_escape_u [OF 2(2), of r] by simp
  next
    case 3
    then show ?thesis by (simp add: json_char_def)
  qed
qed

lemma json_string_chars: "json_string (concat (map json_char s) @ CHR 0x22 # r) = Some (s, r)"
proof (induction s)
  case (Cons c s)
  have "concat (map json_char (c # s)) @ CHR 0x22 # r = json_char c @ concat (map json_char s) @ CHR 0x22 # r" by simp
  then show ?case by (simp only: json_string_char Cons.IH) simp
qed simp

subsection \<open>Numbers\<close>

definition json_delim :: "string \<Rightarrow> bool" where
  "json_delim r \<longleftrightarrow> r = [] \<or> hd r \<in> {CHR '','', CHR '']'', CHR ''}''}"

lemma digit_chars:
  assumes "is_digit 10 c"
  shows "c \<notin> {CHR ''-'', CHR ''n'', CHR ''t'', CHR ''f'', CHR 0x22, CHR ''['', CHR ''{'', CHR '']'', CHR ''}''}" "\<not> json_ws c"
  using assms by (auto simp: is_digit_def digit_val_def json_ws_def Let_def split: if_splits)

lemma takeWhile_digits:
  assumes "list_all P ds" "r = [] \<or> \<not> P (hd r)"
  shows "takeWhile P (ds @ r) = ds" "dropWhile P (ds @ r) = r"
proof -
  have "takeWhile P r = []" "dropWhile P r = r" using assms(2) by (cases r; auto)+
  then show "takeWhile P (ds @ r) = ds" "dropWhile P (ds @ r) = r"
    using assms(1) by (auto simp: list_all_iff takeWhile_append2)
qed

lemma nat_digits_hd: "0 < n \<Longrightarrow> hd (nat_digits 10 n) \<noteq> CHR ''0''"
proof (induction n rule: less_induct)
  case (less n)
  show ?case
  proof (cases "n < 10")
    case True
    have z: "(of_char CHR ''0'' :: nat) = 48" by simp
    have "char_of (48 + n) \<noteq> CHR ''0''"
    proof
      assume "char_of (48 + n) = CHR ''0''"
      then have "(of_char (char_of (48 + n) :: char) :: nat) = 48" using z by simp
      then show False using less.prems True by simp
    qed
    moreover have "nat_digits 10 n = [char_of (48 + n)]" using True by (simp add: nat_digits.simps [of 10 n])
    ultimately show ?thesis by simp
  next
    case False
    then have "hd (nat_digits 10 (n div 10)) \<noteq> CHR ''0''" using less by (simp add: div_less_dividend)
    moreover have "nat_digits 10 (n div 10) \<noteq> []" using nat_digits_props [of 10] by simp
    ultimately show ?thesis using False by (subst nat_digits.simps) (simp add: Let_def hd_append)
  qed
qed

lemma nat_digits_0: "nat_digits 10 0 = ''0''"
proof -
  have "of_char CHR ''0'' = (48 :: nat)" by simp
  then have "char_of (48 :: nat) = CHR ''0''" by (metis char_of_char)
  then show ?thesis by (simp add: nat_digits.simps [of 10 0])
qed

lemma json_digits:
  assumes "json_delim r"
  shows "json_fraction r = Some (0, r)" "json_exponent r = Some (1, r)" "r = [] \<or> \<not> is_digit 10 (hd r)"
  using assms
  by (auto simp: json_delim_def json_fraction_def json_exponent_def is_digit_def digit_val_def split: list.splits)

lemma json_number_int:
  assumes "json_delim r"
  shows "json_number (int_text n @ r) = Some (of_int n, r)"
proof -
  let ?m = "nat \<bar>n\<bar>"
  let ?ds = "nat_digits 10 ?m"
  have p: "?ds \<noteq> []" "list_all (is_digit 10) ?ds" "digits_val 10 ?ds = int ?m"
    using nat_digits_props [of 10 ?m] by auto
  have tw: "takeWhile (is_digit 10) (?ds @ r) = ?ds" "dropWhile (is_digit 10) (?ds @ r) = r"
    using takeWhile_digits [OF p(2) json_digits(3) [OF assms]] by auto
  have lead: "\<not> (hd ?ds = CHR ''0'' \<and> 1 < length ?ds)"
    using nat_digits_hd [of ?m] nat_digits_0 by (cases "?m = 0") auto
  have nm: "\<exists>c cs. ?ds @ r = c # cs \<and> c \<noteq> CHR ''-''"
    using p digit_chars(1) [of "hd ?ds"] by (cases ?ds) auto
  show ?thesis
  proof (cases "n < 0")
    case True
    then show ?thesis using tw lead p json_digits [OF assms]
      by (simp add: json_number_def int_text_def Let_def)
  next
    case False
    then show ?thesis using tw lead p json_digits [OF assms] nm
      by (auto simp: json_number_def int_text_def Let_def)
  qed
qed

lemma int_text_start:
  obtains c cs where "int_text n = c # cs" "c \<notin> {CHR ''n'', CHR ''t'', CHR ''f'', CHR 0x22, CHR ''['', CHR ''{'', CHR '']'', CHR ''}''}"
    "\<not> json_ws c"
proof -
  have p: "nat_digits 10 m \<noteq> [] \<and> list_all (is_digit 10) (nat_digits 10 m)" for m
    using nat_digits_props [of 10 m] by auto
  have "\<not> json_ws CHR ''-''" by (simp add: json_ws_def)
  then show ?thesis
    using that p [of "nat n"] digit_chars [of "hd (nat_digits 10 (nat n))"]
    by (cases "n < 0"; cases "nat_digits 10 (nat n)") (auto simp: int_text_def)
qed

subsection \<open>Values\<close>

text \<open>\<open>t\<close> is a text the parser reads as \<open>v\<close>, wherever it stands in a larger one.\<close>

definition reads :: "string \<Rightarrow> jsval \<Rightarrow> bool" where
  "reads t v \<longleftrightarrow>
     t \<noteq> [] \<and> hd t \<notin> {CHR '']'', CHR ''}''} \<and> \<not> json_ws (hd t) \<and>
     (\<forall>n r. length t \<le> n \<longrightarrow> json_delim r \<longrightarrow> json_value n (t @ r) = Some (v, r))"

lemma readsD:
  assumes "reads t v"
  shows "t \<noteq> []" "hd t \<notin> {CHR '']'', CHR ''}''}" "\<not> json_ws (hd t)" "skip_ws (t @ r) = t @ r"
    "length t \<le> n \<Longrightarrow> json_delim r \<Longrightarrow> json_value n (t @ r) = Some (v, r)"
  using assms by (auto simp: reads_def) (cases t; simp)

lemma reads_literal:
  assumes "t \<noteq> []" "hd t \<notin> {CHR '']'', CHR ''}'', CHR 0x22, CHR ''['', CHR ''{''}" "\<not> json_ws (hd t)"
    "\<And>r. json_delim r \<Longrightarrow> json_literal (t @ r) = Some (v, r)"
  shows "reads t v"
proof -
  obtain c cs where t: "t = c # cs" using assms(1) by (cases t) auto
  have "json_value n (t @ r) = Some (v, r)" if "length t \<le> n" "json_delim r" for n r
    using that assms by (cases n) (auto simp: t)
  then show ?thesis using assms by (simp add: reads_def)
qed

lemma json_ws_marks [simp]:
  "\<not> json_ws CHR ''[''" "\<not> json_ws CHR '']''" "\<not> json_ws CHR ''{''" "\<not> json_ws CHR ''}''" "\<not> json_ws CHR '',''"
  "\<not> json_ws CHR '':''" "\<not> json_ws CHR 0x22" "\<not> json_ws CHR ''n''" "\<not> json_ws CHR ''t''" "\<not> json_ws CHR ''f''"
  by (simp_all add: json_ws_def)

lemma json_elems_texts:
  assumes "list_all2 reads ts vs" "ts \<noteq> []" "length (join_with '','' ts) + 1 \<le> n"
  shows "json_elems n (join_with '','' ts @ CHR '']'' # r) = Some (vs, r)"
  using assms
proof (induction ts arbitrary: vs n)
  case (Cons t ts)
  obtain v vs' where vs: "vs = v # vs'" "reads t v" "list_all2 reads ts vs'"
    using Cons.prems by (auto simp: list_all2_Cons1)
  obtain m where n: "n = Suc m" using Cons.prems by (cases n) auto
  show ?case
  proof (cases "ts = []")
    case True
    then show ?thesis using readsD(5) [OF vs(2), of m "CHR '']'' # r"] Cons.prems vs n
      by (simp add: json_delim_def)
  next
    case False
    then obtain u us where ts: "ts = u # us" by (cases ts) auto
    have len: "length t \<le> m" "length (join_with '','' ts) + 1 \<le> m" using Cons.prems n ts readsD(1) [OF vs(2)]
      by (auto simp: Suc_le_eq)
    have "json_value m (t @ CHR '','' # join_with '','' ts @ CHR '']'' # r) = Some (v, CHR '','' # join_with '','' ts @ CHR '']'' # r)"
      by (rule readsD(5) [OF vs(2) len(1)]) (simp add: json_delim_def)
    moreover have "json_elems m (join_with '','' ts @ CHR '']'' # r) = Some (vs', r)"
      by (rule Cons.IH [OF vs(3) False len(2)])
    ultimately show ?thesis by (simp add: n ts vs)
  qed
qed simp

definition member_text :: "string \<Rightarrow> string \<Rightarrow> string" where
  "member_text k t = json_quote k @ '':'' @ t"

lemma json_member:
  assumes "reads t v" "length t \<le> m" "json_delim r" "r \<noteq> []" "hd r \<noteq> CHR '']''" "\<not> jm_has acc k"
  shows "json_members (Suc m) acc (member_text k t @ r) =
    (if hd r = CHR ''}'' then Some (acc @ [(k, v)], tl r) else json_members m (acc @ [(k, v)]) (tl r))"
proof -
  obtain d ds where r: "r = d # ds" "d = CHR ''}'' \<or> d = CHR '',''" using assms by (cases r) (auto simp: json_delim_def)
  have v: "json_value m (t @ r) = Some (v, r)" by (rule readsD(5) [OF assms(1-3)])
  have w: "\<not> json_ws d" "d = CHR '','' \<or> d = CHR ''}''" using r(2) by auto
  show ?thesis using json_string_chars [of k "CHR '':'' # t @ r"] v r w
    by (auto simp: member_text_def json_quote_def jm_set_new [OF assms(6)])
qed

lemma json_members_texts:
  assumes "list_all2 (\<lambda>(k, t) (k', v). k = k' \<and> reads t v) kts kvs" "kts \<noteq> []"
    "length (join_with '','' (map (\<lambda>(k, t). member_text k t) kts)) + 1 \<le> n"
    "distinct (map fst (acc @ kvs))"
  shows "json_members n acc (join_with '','' (map (\<lambda>(k, t). member_text k t) kts) @ CHR ''}'' # r) = Some (acc @ kvs, r)"
  using assms
proof (induction kts arbitrary: kvs n acc)
  case (Cons kt kts)
  obtain k t where kt: "kt = (k, t)" by fastforce
  obtain v kvs' where kvs: "kvs = (k, v) # kvs'" "reads t v"
    "list_all2 (\<lambda>(k, t) (k', v). k = k' \<and> reads t v) kts kvs'"
    using Cons.prems(1) kt by (auto simp: list_all2_Cons1)
  have new: "\<not> jm_has acc k" using Cons.prems(4) kvs by (auto simp: jm_has_iff)
  obtain m where n: "n = Suc m" using Cons.prems(3) by (cases n) auto
  have len1: "length t \<le> length (member_text k t)" by (simp add: member_text_def)
  show ?case
  proof (cases "kts = []")
    case True
    then have "length t \<le> m" using Cons.prems(3) len1 n kt by simp
    from json_member [OF kvs(2) this _ _ _ new, of "CHR ''}'' # r"] show ?thesis
      using True kvs n kt by (simp add: json_delim_def)
  next
    case False
    let ?rest = "join_with '','' (map (\<lambda>(k, t). member_text k t) kts)"
    obtain x xs where x: "kts = x # xs" using False by (cases kts) auto
    have j: "join_with '','' (map (\<lambda>(k, t). member_text k t) (kt # kts)) = member_text k t @ CHR '','' # ?rest"
      by (simp add: x kt)
    have len: "length t \<le> m" "length ?rest + 1 \<le> m"
      using Cons.prems(3) n len1 unfolding j by auto
    have "json_members m (acc @ [(k, v)]) (?rest @ CHR ''}'' # r) = Some ((acc @ [(k, v)]) @ kvs', r)"
      using Cons.prems(4) kvs(1) by (intro Cons.IH [OF kvs(3) False len(2)]) simp
    then show ?thesis
      using json_member [OF kvs(2) len(1) _ _ _ new, of "CHR '','' # ?rest @ CHR ''}'' # r"] n kvs(1)
      unfolding j by (simp add: json_delim_def)
  qed
qed simp

lemma reads_array:
  assumes "list_all2 reads ts vs"
  shows "reads (CHR ''['' # join_with '','' ts @ '']'') (JArr vs)"
proof -
  let ?t = "CHR ''['' # join_with '','' ts @ '']''"
  have "json_value n (?t @ r) = Some (JArr vs, r)" if "length ?t \<le> n" for n r
  proof -
    from that obtain m where n: "n = Suc m" by (cases n) auto
    show ?thesis
    proof (cases ts)
      case Nil
      then show ?thesis using assms n by simp
    next
      case (Cons t us)
      then obtain v where v: "reads t v" using assms by (auto simp: list_all2_Cons1)
      obtain c cs where t: "t = c # cs" "c \<noteq> CHR '']''" "\<not> json_ws c" using readsD(1,2,3) [OF v] by (cases t) auto
      obtain rest where j: "join_with '','' ts = c # rest" using Cons t by (cases us) auto
      have "json_elems m (join_with '','' ts @ CHR '']'' # r) = Some (vs, r)"
        using that n Cons by (intro json_elems_texts [OF assms]) auto
      then show ?thesis using t n by (simp add: j)
    qed
  qed
  then show ?thesis by (simp add: reads_def)
qed

lemma reads_object:
  assumes "list_all2 (\<lambda>(k, t) (k', v). k = k' \<and> reads t v) kts kvs" "distinct (map fst kvs)"
  shows "reads (CHR ''{'' # join_with '','' (map (\<lambda>(k, t). member_text k t) kts) @ ''}'') (JObj kvs)"
proof -
  let ?j = "join_with '','' (map (\<lambda>(k, t). member_text k t) kts)"
  have "json_value n (CHR ''{'' # ?j @ ''}'' @ r) = Some (JObj kvs, r)" if "length ?j + 2 \<le> n" for n r
  proof -
    from that obtain m where n: "n = Suc m" by (cases n) auto
    show ?thesis
    proof (cases kts)
      case Nil
      then show ?thesis using assms n by simp
    next
      case (Cons kt us)
      obtain k t where kt: "kt = (k, t)" by fastforce
      obtain rest where j: "?j = CHR 0x22 # rest" using Cons kt by (cases us) (auto simp: member_text_def json_quote_def)
      have "json_members m [] (?j @ CHR ''}'' # r) = Some ([] @ kvs, r)"
        using that n Cons assms(2) by (intro json_members_texts [OF assms(1)]) auto
      then show ?thesis using n by (simp add: j)
    qed
  qed
  then show ?thesis by (simp add: reads_def)
qed

lemma plain_text_reads: "plain_json v \<Longrightarrow> \<exists>t. plain_text fmt v = Some t \<and> reads t v"
proof (induction v)
  case Null
  show ?case by (auto intro!: reads_literal simp: json_literal_def)
next
  case (JBool b)
  show ?case by (auto intro!: reads_literal simp: json_literal_def)
next
  case (JNum x)
  obtain n where x: "x = Fin (of_int n)" "\<bar>of_int n\<bar> < (10 ^ 21 :: rat)"
  proof (cases x)
    case (Fin r)
    then show ?thesis using JNum that [of "floor r"] by (auto simp flip: of_int_eq_iff)
  qed (use JNum in auto)
  obtain c cs where c: "int_text n = c # cs" "c \<notin> {CHR ''n'', CHR ''t'', CHR ''f'', CHR 0x22, CHR ''['', CHR ''{'', CHR '']'', CHR ''}''}"
    "\<not> json_ws c" by (rule int_text_start)
  have "reads (int_text n) (JNum (Fin (of_int n)))"
    using c json_number_int [of _ n] by (intro reads_literal) (auto simp: json_literal_def)
  then show ?case using x by simp
next
  case (JStr s)
  have "reads (json_quote s) (JStr s)"
    unfolding reads_def
  proof (intro conjI allI impI)
    fix n r assume "length (json_quote s) \<le> n"
    then obtain m where "n = Suc m" by (cases n) (auto simp: json_quote_def)
    then show "json_value n (json_quote s @ r) = Some (JStr s, r)"
      by (simp add: json_quote_def json_string_chars)
  qed (simp_all add: json_quote_def)
  then show ?case by simp
next
  case (JArr vs)
  then have "\<forall>v \<in> set vs. \<exists>t. plain_text fmt v = Some t \<and> reads t v" by (simp add: list_all_iff)
  then have "list_all2 reads (map (\<lambda>v. case plain_text fmt v of None \<Rightarrow> ''null'' | Some t \<Rightarrow> t) vs) vs"
    by (auto simp: list_all2_conv_all_nth dest!: nth_mem)
  from reads_array [OF this] show ?case by simp
next
  case (JObj kvs)
  have ex: "\<exists>t. plain_text fmt v = Some t \<and> reads t v" if "(k, v) \<in> set kvs" for k v
    using JObj.prems that by (intro JObj.IH [of "(k, v)"]) (auto simp: list_all_iff)
  let ?kts = "map (\<lambda>(k, v). (k, the (plain_text fmt v))) kvs"
  have "list_all2 (\<lambda>(k, t) (k', v). k = k' \<and> reads t v) ?kts kvs"
    using ex by (fastforce simp: list_all2_conv_all_nth dest!: nth_mem)
  from reads_object [OF this] have "reads (CHR ''{'' # join_with '','' (map (\<lambda>(k, t). member_text k t) ?kts) @ ''}'') (JObj kvs)"
    using JObj.prems by simp
  moreover have "concat (map (\<lambda>(k, v). case plain_text fmt v of None \<Rightarrow> [] | Some t \<Rightarrow> [json_quote k @ '':'' @ t]) kvs) =
      map (\<lambda>(k, t). member_text k t) ?kts"
    using ex
  proof (induction kvs)
    case (Cons kv kvs)
    obtain k v where "kv = (k, v)" by fastforce
    moreover from this obtain t where "plain_text fmt v = Some t" using Cons.prems [of k v] by auto
    moreover have "concat (map (\<lambda>(k, v). case plain_text fmt v of None \<Rightarrow> [] | Some t \<Rightarrow> [json_quote k @ '':'' @ t]) kvs) =
      map (\<lambda>(k, t). member_text k t) (map (\<lambda>(k, v). (k, the (plain_text fmt v))) kvs)"
      using Cons.prems by (intro Cons.IH) (metis list.set_intros(2))
    ultimately show ?case by (simp add: member_text_def)
  qed simp
  ultimately show ?case by simp
qed simp_all

lemma json_value_text:
  assumes "plain_json v" "plain_text fmt v = Some t" "length t \<le> n" "json_delim r"
  shows "json_value n (t @ r) = Some (v, r)"
  using plain_text_reads [OF assms(1), of fmt] readsD(5) [OF _ assms(3,4)] assms(2) by auto

lemma json_parse_text:
  assumes "plain_json v" "plain_text fmt v = Some t"
  shows "json_parse t = Some v"
  using json_value_text [OF assms, of "2 * length t + 2" "[]"] by (simp add: json_parse_def json_delim_def)

lemma plain_text_Some: "plain_json v \<Longrightarrow> \<exists>t. plain_text fmt v = Some t"
  using plain_text_reads by blast

text \<open>JSON loses nothing: a value of \<open>null\<close>, booleans, integers, strings, arrays and objects is read back
  from its printed form exactly as it was, in every position and with every character in its strings.\<close>

theorem json_roundtrip:
  assumes "plain_json v"
  shows "\<exists>t. plain_text fmt v = Some t \<and> json_parse t = Some v"
  using plain_text_Some [OF assms, of fmt] json_parse_text [OF assms, of fmt] by blast

theorem json_roundtrip_witness:
  "\<exists>t. plain_text (\<lambda>r. []) (JObj [(''a'', JArr [jint (- 12), Null, JStr [CHR 0x22, CHR 0x01]])]) = Some t \<and>
     json_parse t = Some (JObj [(''a'', JArr [jint (- 12), Null, JStr [CHR 0x22, CHR 0x01]])])"
  by (rule json_roundtrip) simp

end
