(* ===== verification/TrackerProtocol.thy ===== *)
theory TrackerProtocol
  imports JsonText NodeIdentity
begin

text \<open>
  The protocol between a node and a tracker, shared by both sides: \<open>network/TrackerProtocol.ts\<close>, and the
  check of the address a user enters, \<open>network/TrackerUrl.ts\<close> (both under \<open>packages/core/src\<close>). Both parsers
  are total and only return messages of the stated shape; what one side prints the other reads back.

  The URL parser of the platform is an argument: it maps a text to the parts the code reads.
\<close>

definition TRACKER_PROTOCOL_VERSION :: int where [simp]: "TRACKER_PROTOCOL_VERSION = 2"
definition TRACKER_MAX_FRAME_BYTES :: nat where [simp]: "TRACKER_MAX_FRAME_BYTES = 64 * 1024"
definition TRACKER_MAX_PEERS :: nat where [simp]: "TRACKER_MAX_PEERS = 32"

subsection \<open>Hosts\<close>

definition host_char :: "char \<Rightarrow> bool" where
  "host_char c \<longleftrightarrow>
     (let n = (of_char c :: nat) in (97 \<le> n \<and> n \<le> 122) \<or> (48 \<le> n \<and> n \<le> 57) \<or> c = CHR ''.'' \<or> c = CHR ''-'')"

definition v6_char :: "char \<Rightarrow> bool" where
  "v6_char c \<longleftrightarrow> is_lower_hex c \<or> c = CHR '':'' \<or> c = CHR ''.''"

text \<open>\<open>(?::\d{1,5})?$\<close>\<close>

definition port_re :: "string \<Rightarrow> bool" where
  "port_re s \<longleftrightarrow>
     (case s of [] \<Rightarrow> True
      | c # ds \<Rightarrow> c = CHR '':'' \<and> 1 \<le> length ds \<and> length ds \<le> 5 \<and> list_all (is_digit 10) ds)"

text \<open>\<open>HOST_RE\<close>: no character of a host name is a colon and no character of a bracketed address a bracket, so
  the longest prefix is the only one that can match.\<close>

definition host_re :: "string \<Rightarrow> bool" where
  "host_re h \<longleftrightarrow>
     (case h of
        [] \<Rightarrow> False
      | c # t \<Rightarrow>
          if c = CHR ''['' then
            2 \<le> length (takeWhile v6_char t) \<and> length (takeWhile v6_char t) \<le> 45 \<and>
            (case dropWhile v6_char t of [] \<Rightarrow> False | d # r \<Rightarrow> d = CHR '']'' \<and> port_re r)
          else
            1 \<le> length (takeWhile host_char h) \<and> length (takeWhile host_char h) \<le> 253 \<and>
            port_re (dropWhile host_char h))"

text \<open>\<open>h.replace(/:(80|443)$/, '')\<close>\<close>

definition strip_default_port :: "string \<Rightarrow> string" where
  "strip_default_port h =
     (if drop (length h - 4) h = '':443'' then take (length h - 4) h
      else if drop (length h - 3) h = '':80'' then take (length h - 3) h
      else h)"

definition normalizeHostHeader :: "string option \<Rightarrow> string option" where
  "normalizeHostHeader host =
     (case host of
        None \<Rightarrow> None
      | Some t \<Rightarrow> (let h = toLowerCase (trim t) in if \<not> host_re h then None else Some (strip_default_port h)))"

subsection \<open>Messages\<close>

definition isPeerId :: "jsval \<Rightarrow> bool" where
  "isPeerId v = (case v of JStr s \<Rightarrow> hex_re 32 s | _ \<Rightarrow> False)"

definition isPlainObject :: "jsval \<Rightarrow> bool" where
  "isPlainObject v \<longleftrightarrow> is_object v \<and> (case v of JArr _ \<Rightarrow> False | _ \<Rightarrow> True)"

fun str_of :: "jsval \<Rightarrow> string" where
  "str_of (JStr s) = s"
| "str_of _ = []"

definition str_matches :: "(string \<Rightarrow> bool) \<Rightarrow> jsval \<Rightarrow> bool" where
  "str_matches re v = (case v of JStr s \<Rightarrow> re s | _ \<Rightarrow> False)"

record tracker_join =
  tj_v :: int
  tj_peerId :: peer_id
  tj_pubkey :: string
  tj_powCounter :: int
  tj_host :: string
  tj_sig :: string

datatype client_msg = TJoin tracker_join | TRelayOut peer_id jsval

datatype server_msg = THello int string | TPeers "peer_id list" | TRelayIn peer_id jsval | TError string

definition ERROR_CODES :: "string list" where
  "ERROR_CODES = [''bad-message'', ''unsupported-version'', ''invalid-identity'', ''bad-signature'', ''bad-host'',
     ''rate-limited'', ''capacity'', ''not-joined'', ''invalid-target'', ''too-large'', ''timeout'']"

text \<open>A frame arrives as text; a binary frame is refused before this.\<close>

definition parseJson :: "string \<Rightarrow> jsval" where
  "parseJson text =
     (if length text > TRACKER_MAX_FRAME_BYTES then Undef
      else (case json_parse text of None \<Rightarrow> Undef | Some v \<Rightarrow> v))"

definition parseTrackerClientMessage :: "string \<Rightarrow> client_msg option" where
  "parseTrackerClientMessage raw =
     (let d = parseJson raw in
      if \<not> isPlainObject d then None
      else if jget d ''type'' = JStr ''join'' then
        if \<not> is_safe_integer (jget d ''v'') \<or>
           \<not> isPeerId (jget d ''peerId'') \<or>
           \<not> str_matches (hex_re 64) (jget d ''pubkey'') \<or>
           \<not> is_safe_integer (jget d ''powCounter'') \<or> int_of (jget d ''powCounter'') < 0 \<or>
           \<not> str_matches host_re (jget d ''host'') \<or>
           \<not> str_matches (hex_re 128) (jget d ''sig'') then None
        else Some (TJoin \<lparr>tj_v = int_of (jget d ''v''), tj_peerId = str_of (jget d ''peerId''),
               tj_pubkey = str_of (jget d ''pubkey''), tj_powCounter = int_of (jget d ''powCounter''),
               tj_host = str_of (jget d ''host''), tj_sig = str_of (jget d ''sig'')\<rparr>)
      else if jget d ''type'' = JStr ''relay'' then
        if \<not> isPeerId (jget d ''targetPeerId'') \<or> \<not> isPlainObject (jget d ''payload'') then None
        else Some (TRelayOut (str_of (jget d ''targetPeerId'')) (jget d ''payload''))
      else None)"

definition parseTrackerServerMessage :: "string \<Rightarrow> server_msg option" where
  "parseTrackerServerMessage raw =
     (let d = parseJson raw in
      if \<not> isPlainObject d then None
      else if jget d ''type'' = JStr ''hello'' then
        if \<not> is_safe_integer (jget d ''v'') \<or> \<not> str_matches (hex_re (CHALLENGE_BYTES * 2)) (jget d ''nonce'') then None
        else Some (THello (int_of (jget d ''v'')) (str_of (jget d ''nonce'')))
      else if jget d ''type'' = JStr ''peers'' then
        (case jget d ''peers'' of
           JArr ps \<Rightarrow>
             Some (TPeers (map (\<lambda>p. str_of (jget p ''peerId''))
               (filter (\<lambda>p. isPlainObject p \<and> isPeerId (jget p ''peerId'')) (take TRACKER_MAX_PEERS ps))))
         | _ \<Rightarrow> None)
      else if jget d ''type'' = JStr ''relay'' then
        if \<not> isPeerId (jget d ''senderId'') \<or> \<not> isPlainObject (jget d ''payload'') then None
        else Some (TRelayIn (str_of (jget d ''senderId'')) (jget d ''payload''))
      else if jget d ''type'' = JStr ''error'' then
        Some (TError (if str_matches (\<lambda>c. c \<in> set ERROR_CODES) (jget d ''code'') then str_of (jget d ''code'') else ''bad-message''))
      else None)"

text \<open>The literals that \<open>TrackerServer.send\<close> and \<open>SignalingClient.sendRaw\<close> print.\<close>

fun server_obj :: "server_msg \<Rightarrow> jsval" where
  "server_obj (THello v n) = JObj [(''type'', JStr ''hello''), (''v'', jint v), (''nonce'', JStr n)]"
| "server_obj (TPeers ps) =
     JObj [(''type'', JStr ''peers''), (''peers'', JArr (map (\<lambda>p. JObj [(''peerId'', JStr p)]) ps))]"
| "server_obj (TRelayIn p payload) =
     JObj [(''type'', JStr ''relay''), (''senderId'', JStr p), (''payload'', payload)]"
| "server_obj (TError c) = JObj [(''type'', JStr ''error''), (''code'', JStr c)]"

fun client_obj :: "client_msg \<Rightarrow> jsval" where
  "client_obj (TJoin j) =
     JObj [(''type'', JStr ''join''), (''v'', jint (tj_v j)), (''peerId'', JStr (tj_peerId j)),
       (''pubkey'', JStr (tj_pubkey j)), (''powCounter'', jint (tj_powCounter j)), (''host'', JStr (tj_host j)),
       (''sig'', JStr (tj_sig j))]"
| "client_obj (TRelayOut p payload) =
     JObj [(''type'', JStr ''relay''), (''targetPeerId'', JStr p), (''payload'', payload)]"

subsection \<open>Shape of the parsed messages\<close>

fun client_msg_ok :: "client_msg \<Rightarrow> bool" where
  "client_msg_ok (TJoin j) \<longleftrightarrow>
     \<bar>tj_v j\<bar> \<le> max_safe \<and> hex_re 32 (tj_peerId j) \<and> hex_re 64 (tj_pubkey j) \<and>
     0 \<le> tj_powCounter j \<and> tj_powCounter j \<le> max_safe \<and> host_re (tj_host j) \<and> hex_re 128 (tj_sig j)"
| "client_msg_ok (TRelayOut p payload) \<longleftrightarrow> hex_re 32 p \<and> isPlainObject payload"

fun server_msg_ok :: "server_msg \<Rightarrow> bool" where
  "server_msg_ok (THello v n) \<longleftrightarrow> \<bar>v\<bar> \<le> max_safe \<and> hex_re 64 n"
| "server_msg_ok (TPeers ps) \<longleftrightarrow> length ps \<le> TRACKER_MAX_PEERS \<and> list_all (hex_re 32) ps"
| "server_msg_ok (TRelayIn p payload) \<longleftrightarrow> hex_re 32 p \<and> isPlainObject payload"
| "server_msg_ok (TError c) \<longleftrightarrow> c \<in> set ERROR_CODES"

lemma isPeerId_iff: "isPeerId v \<longleftrightarrow> (\<exists>s. v = JStr s \<and> hex_re 32 s)"
  by (cases v) (auto simp: isPeerId_def)

lemma str_matches_iff: "str_matches re v \<longleftrightarrow> (\<exists>s. v = JStr s \<and> re s)"
  by (cases v) (auto simp: str_matches_def)

lemmas parsed_fields = isPeerId_iff str_matches_iff is_safe_integer_def abs_le_iff not_less

lemma parse_client_ok: "parseTrackerClientMessage raw = Some m \<Longrightarrow> client_msg_ok m"
  by (auto simp: parseTrackerClientMessage_def Let_def parsed_fields split: if_splits)

lemma bad_message_code: "''bad-message'' \<in> set ERROR_CODES"
  by (simp add: ERROR_CODES_def)

lemma parse_server_ok: "parseTrackerServerMessage raw = Some m \<Longrightarrow> server_msg_ok m"
proof -
  assume p: "parseTrackerServerMessage raw = Some m"
  have "length (filter P (take 32 xs)) \<le> 32" for P and xs :: "jsval list"
    by (rule order_trans [OF length_filter_le]) simp
  then show ?thesis using p bad_message_code
    by (auto simp: parseTrackerServerMessage_def Let_def list_all_iff parsed_fields split: if_splits jsval.splits)
qed

subsection \<open>Both sides agree\<close>

definition tracker_text :: "(rat \<Rightarrow> string) \<Rightarrow> jsval \<Rightarrow> string" where
  "tracker_text fmt v = (case plain_text fmt v of None \<Rightarrow> [] | Some t \<Rightarrow> t)"

lemma parseJson_text:
  assumes "plain_json v" "length (tracker_text fmt v) \<le> TRACKER_MAX_FRAME_BYTES"
  shows "parseJson (tracker_text fmt v) = v"
proof -
  obtain t where t: "plain_text fmt v = Some t" using plain_text_Some [OF assms(1)] by blast
  then show ?thesis using assms json_parse_text [OF assms(1) t] by (simp add: parseJson_def tracker_text_def)
qed

fun plain_payload :: "client_msg \<Rightarrow> bool" where
  "plain_payload (TJoin j) = True"
| "plain_payload (TRelayOut p payload) = plain_json payload"

fun plain_payload_in :: "server_msg \<Rightarrow> bool" where
  "plain_payload_in (TRelayIn p payload) = plain_json payload"
| "plain_payload_in _ = True"

lemma plain_safe: "\<bar>n\<bar> \<le> max_safe \<Longrightarrow> \<bar>of_int n :: rat\<bar> < 10 ^ 21"
proof -
  assume "\<bar>n\<bar> \<le> max_safe"
  then have "\<bar>n\<bar> < 10 ^ 21" by (simp add: max_safe_def)
  then show ?thesis by (metis of_int_abs of_int_less_iff of_int_numeral of_int_power)
qed

lemmas plain_safe_numeral = plain_safe [simplified]

lemma client_text_parses:
  assumes "client_msg_ok m" "plain_payload m" "length (tracker_text fmt (client_obj m)) \<le> TRACKER_MAX_FRAME_BYTES"
  shows "parseTrackerClientMessage (tracker_text fmt (client_obj m)) = Some m"
proof -
  have "plain_json (client_obj m)" using assms(1,2) by (cases m) (simp_all add: plain_safe_numeral max_safe_def)
  note p = parseJson_text [OF this assms(3)]
  show ?thesis
  proof (cases m)
    case (TJoin j)
    then show ?thesis using assms(1) unfolding parseTrackerClientMessage_def p
      by (simp add: isPlainObject_def isPeerId_def str_matches_def)
  next
    case (TRelayOut t payload)
    then show ?thesis using assms(1) unfolding parseTrackerClientMessage_def p
      by (simp add: isPlainObject_def isPeerId_def)
  qed
qed

lemma server_text_parses:
  assumes "server_msg_ok m" "plain_payload_in m" "length (tracker_text fmt (server_obj m)) \<le> TRACKER_MAX_FRAME_BYTES"
  shows "parseTrackerServerMessage (tracker_text fmt (server_obj m)) = Some m"
proof -
  have "plain_json (server_obj m)" using assms(1,2) by (cases m) (simp_all add: plain_safe_numeral list_all_iff)
  note p = parseJson_text [OF this assms(3)]
  show ?thesis
  proof (cases m)
    case (TPeers ps)
    have "map (\<lambda>p. str_of (jget p ''peerId''))
        (filter (\<lambda>p. isPlainObject p \<and> isPeerId (jget p ''peerId'')) (map (\<lambda>p. JObj [(''peerId'', JStr p)]) ps)) = ps"
      using assms(1) unfolding TPeers by (induction ps) (simp_all add: isPlainObject_def isPeerId_def)
    then show ?thesis using assms(1) unfolding parseTrackerServerMessage_def p
      by (simp add: TPeers) (simp add: isPlainObject_def)
  next
    case (TError c)
    then show ?thesis using assms(1) unfolding parseTrackerServerMessage_def p
      by (simp add: isPlainObject_def str_matches_def)
  next
    case (THello v n)
    then show ?thesis using assms(1) unfolding parseTrackerServerMessage_def p
      by (simp add: isPlainObject_def str_matches_def)
  next
    case (TRelayIn t payload)
    then show ?thesis using assms(1) unfolding parseTrackerServerMessage_def p
      by (simp add: isPlainObject_def isPeerId_def)
  qed
qed

lemma length_json_quote: "length (json_quote s) \<le> 6 * length s + 2"
proof -
  have c: "length (json_char c) \<le> 6" for c
  proof -
    have "length (nat_digits 16 n) \<le> (if n < 16 then 1 else 2)" if "n < 32" for n
      using length_nat_digits [of 16 n 0] length_nat_digits [of 16 n 1] that by simp
    from this [of "of_char c"] show ?thesis by (auto simp: json_char_def split: if_splits)
  qed
  have "length (concat (map json_char s)) \<le> 6 * length s"
  proof (induction s)
    case (Cons x s)
    then show ?case using c [of x] by simp
  qed simp
  then show ?thesis by (simp add: json_quote_def)
qed

lemma length_safe_text: "\<bar>n\<bar> \<le> max_safe \<Longrightarrow> length (int_text n) \<le> 17"
proof -
  assume "\<bar>n\<bar> \<le> max_safe"
  then have "nat \<bar>n\<bar> < 10 ^ Suc 15" by (simp add: max_safe_def nat_less_iff)
  from length_nat_digits [OF _ this] have "length (nat_digits 10 (nat \<bar>n\<bar>)) \<le> 16" by simp
  then show ?thesis by (auto simp: int_text_def)
qed

lemma length_host:
  assumes "host_re h"
  shows "length h \<le> 260"
proof -
  have port: "port_re r \<Longrightarrow> length r \<le> 6" for r by (cases r) (auto simp: port_re_def)
  have split: "length s = length (takeWhile P s) + length (dropWhile P s)" for P and s :: string
    by (metis length_append takeWhile_dropWhile_id)
  obtain c t where h: "h = c # t" using assms by (cases h) (auto simp: host_re_def)
  show ?thesis
  proof (cases "c = CHR ''[''")
    case True
    then obtain r where "dropWhile v6_char t = CHR '']'' # r" "port_re r" "length (takeWhile v6_char t) \<le> 45"
      using assms h by (auto simp: host_re_def split: list.splits)
    then show ?thesis using split [of t v6_char] port [of r] h by simp
  next
    case False
    then have "port_re (dropWhile host_char h)" "length (takeWhile host_char h) \<le> 253"
      using assms h by (auto simp: host_re_def)
    then show ?thesis using split [of h host_char] port by force
  qed
qed

text \<open>A join always fits a frame.\<close>

lemma join_text_short:
  assumes "client_msg_ok (TJoin j)"
  shows "length (tracker_text fmt (client_obj (TJoin j))) \<le> TRACKER_MAX_FRAME_BYTES"
proof -
  have l: "length (tj_peerId j) = 32" "length (tj_pubkey j) = 64" "length (tj_sig j) = 128" "length (tj_host j) \<le> 260"
    using assms length_host by (simp_all add: hex_re_def)
  have v: "\<bar>tj_v j\<bar> \<le> max_safe" "\<bar>tj_powCounter j\<bar> \<le> max_safe" using assms by simp_all
  have n: "num_text fmt (Fin (of_int n)) = int_text n" if "\<bar>n\<bar> \<le> max_safe" for n
    using plain_safe [OF that] by simp
  show ?thesis
    using l length_json_quote [of "tj_peerId j"] length_json_quote [of "tj_pubkey j"] length_json_quote [of "tj_sig j"]
      length_json_quote [of "tj_host j"] length_safe_text [OF v(1)] length_safe_text [OF v(2)]
    by (simp add: tracker_text_def n [OF v(1)] n [OF v(2)] del: num_text.simps)
      (simp add: json_quote_def json_char_def)
qed

text \<open>Tracker and node speak the same language: a frame that fits the size limit and prints a well-formed
  message of either side is parsed by the other side as that message.\<close>

theorem tracker_messages_roundtrip:
  assumes "client_msg_ok m" "plain_payload m" "length (tracker_text fmt (client_obj m)) \<le> TRACKER_MAX_FRAME_BYTES"
    and "server_msg_ok m'" "plain_payload_in m'" "length (tracker_text fmt (server_obj m')) \<le> TRACKER_MAX_FRAME_BYTES"
  shows "parseTrackerClientMessage (tracker_text fmt (client_obj m)) = Some m \<and>
    parseTrackerServerMessage (tracker_text fmt (server_obj m')) = Some m'"
  using client_text_parses [OF assms(1-3)] server_text_parses [OF assms(4-6)] by simp

theorem tracker_messages_roundtrip_witness:
  "parseTrackerServerMessage (tracker_text (\<lambda>_. []) (server_obj (TError ''timeout''))) = Some (TError ''timeout'')"
proof -
  let ?p = "''00000000000000000000000000000000''"
  have h: "hex_re 32 ?p" by (simp add: hex_re_def is_lower_hex_def)
  show ?thesis
    using tracker_messages_roundtrip [of "TRelayOut ?p (JObj [])" "\<lambda>_. []" "TError ''timeout''"] h
    by (simp add: isPlainObject_def ERROR_CODES_def tracker_text_def json_quote_def json_char_def)
qed

subsection \<open>The address of a tracker\<close>

record url_parts =
  up_protocol :: string
  up_hostname :: string
  up_host :: string
  up_username :: string
  up_password :: string
  up_pathname :: string
  up_search :: string
  up_hash :: string

definition TRACKER_URL_MAX_LENGTH :: nat where [simp]: "TRACKER_URL_MAX_LENGTH = 512"
definition DEFAULT_TRACKER_PATH :: string where "DEFAULT_TRACKER_PATH = ''/ws''"

datatype url_error = UrlEmpty | UrlTooLong | UrlInvalid | UrlInsecure | UrlCredentials | UrlQuery | UrlFragment

definition octet_re :: "string \<Rightarrow> bool" where
  "octet_re s \<longleftrightarrow> 1 \<le> length s \<and> length s \<le> 3 \<and> list_all (is_digit 10) s"

definition isLoopbackHost :: "string \<Rightarrow> bool" where
  "isLoopbackHost hostname =
     (let h = toLowerCase hostname in
      if h = ''localhost'' \<or> h = ''[::1]'' then True
      else (case split_on CHR ''.'' h of
              [a, b, c, d] \<Rightarrow> a = ''127'' \<and> octet_re b \<and> octet_re c \<and> octet_re d
            | _ \<Rightarrow> False))"

text \<open>The result is the parsed URL with its path filled in; the code returns its text.\<close>

definition parseTrackerUrl :: "(string \<Rightarrow> url_parts option) \<Rightarrow> string \<Rightarrow> url_error + url_parts" where
  "parseTrackerUrl url_parse input =
     (let raw = trim input in
      if length raw = 0 then Inl UrlEmpty
      else if length raw > TRACKER_URL_MAX_LENGTH then Inl UrlTooLong
      else
        (case url_parse raw of
           None \<Rightarrow> Inl UrlInvalid
         | Some url \<Rightarrow>
             if up_hostname url = [] then Inl UrlInvalid
             else if up_protocol url = ''ws:'' \<and> \<not> isLoopbackHost (up_hostname url) then Inl UrlInsecure
             else if up_protocol url \<noteq> ''ws:'' \<and> up_protocol url \<noteq> ''wss:'' then Inl UrlInvalid
             else if up_username url \<noteq> [] \<or> up_password url \<noteq> [] then Inl UrlCredentials
             else if up_search url \<noteq> [] \<or> CHR ''?'' \<in> set raw then Inl UrlQuery
             else if up_hash url \<noteq> [] \<or> CHR ''#'' \<in> set raw then Inl UrlFragment
             else if up_pathname url = [] \<or> up_pathname url = ''/'' then Inr (url\<lparr>up_pathname := DEFAULT_TRACKER_PATH\<rparr>)
             else Inr url))"

lemma parseTrackerUrl_safe:
  assumes "parseTrackerUrl url_parse input = Inr url"
  shows "up_protocol url = ''wss:'' \<or> (up_protocol url = ''ws:'' \<and> isLoopbackHost (up_hostname url))"
    "up_username url = [] \<and> up_password url = [] \<and> up_search url = [] \<and> up_hash url = []"
    "up_hostname url \<noteq> [] \<and> up_pathname url \<noteq> []"
  using assms by (auto simp: parseTrackerUrl_def Let_def DEFAULT_TRACKER_PATH_def split: if_splits option.splits)

end
