(* ===== verification/Tracker.thy ===== *)
theory Tracker
  imports TrackerProtocol RateLimiter "HOL-Library.Multiset"
begin

text \<open>
  The tracker: \<open>packages/tracker/src/SessionManager.ts\<close> (who is registered on which connection) and
  \<open>packages/tracker/src/TrackerServer.ts\<close> (connections, registration, relaying). Each operation returns
  what it does to the outside and the new state.

  A WebSocket is a number. The state holds every connection object a handler can still reach
  (\<open>tk_objects\<close>), beside the keys of the map of live connections (\<open>tk_live\<close>), and the sockets in the state
  \<open>OPEN\<close>. What the event loop still owes is part of the state: the greeting of a connection
  (\<open>tk_greet\<close>), a registration waiting for the library (\<open>tk_waiting\<close>) and the listeners a
  registration has put on its socket (\<open>tk_listeners\<close>).
\<close>

type_synonym ws = nat

datatype tracker_eff = TkSend ws server_msg | TkClose ws | TkTerminate ws | TkPing ws

subsection \<open>State\<close>

record peer_session =
  ss_ws :: ws
  ss_lastActive :: int

record tk_connection =
  cn_id :: string
  cn_nonce :: bytes
  cn_host :: "string option"
  cn_address :: string
  cn_peerId :: "peer_id option"
  cn_timer :: bool

record tracker_cfg =
  tc_pow :: node_id_pow_params
  tc_allowedHosts :: "string list option"
  tc_maxSessions :: nat
  tc_idleTimeoutMs :: int
  tc_maxPerAddress :: int
  tc_peersPerJoin :: nat

record tracker =
  tk_sessions :: "(peer_id, peer_session) jsmap"
  tk_objects :: "(ws, tk_connection) jsmap"
  tk_live :: "ws list"
  tk_perAddress :: "(string, int) jsmap"
  tk_rate :: rate_state
  tk_connSeq :: nat
  tk_stopped :: bool
  tk_open :: "ws list"
  tk_greet :: "ws list"
  tk_waiting :: "(ws \<times> tracker_join) list"
  tk_listeners :: "(ws \<times> peer_id) list"

type_synonym tk_step = "tracker_eff list \<times> tracker"

text \<open>The options: host names are normalised, the number of introduced peers is capped.\<close>

definition tracker_options :: "node_id_pow_params \<Rightarrow> string list option \<Rightarrow> nat \<Rightarrow> int \<Rightarrow> int \<Rightarrow> nat \<Rightarrow> tracker_cfg" where
  "tracker_options params allowedHosts maxSessions idleTimeoutMs maxPerAddress peersPerJoin =
     \<lparr>tc_pow = params, tc_allowedHosts = map_option (List.map_filter (\<lambda>h. normalizeHostHeader (Some h))) allowedHosts,
      tc_maxSessions = maxSessions, tc_idleTimeoutMs = idleTimeoutMs, tc_maxPerAddress = maxPerAddress,
      tc_peersPerJoin = min peersPerJoin TRACKER_MAX_PEERS\<rparr>"

definition tracker_defaults :: tracker_cfg where
  "tracker_defaults = tracker_options NODE_ID_POW None 5000 120000 16 8"

definition tracker_init :: tracker where
  "tracker_init = \<lparr>tk_sessions = [], tk_objects = [], tk_live = [], tk_perAddress = [], tk_rate = rate_init,
     tk_connSeq = 0, tk_stopped = False, tk_open = [], tk_greet = [], tk_waiting = [], tk_listeners = []\<rparr>"

definition TRACKER_LIMITS :: rate_configs where
  "TRACKER_LIMITS =
     [(''join'', \<lparr>ratePerSec = 1 / 5, rl_burst = 3\<rparr>), (''relay'', \<lparr>ratePerSec = 20, rl_burst = 60\<rparr>)]"

subsection \<open>Sending and closing\<close>

definition tk_send :: "ws \<Rightarrow> server_msg \<Rightarrow> tracker \<Rightarrow> tracker_eff list" where
  "tk_send w m s = (if w \<in> set (tk_open s) then [TkSend w m] else [])"

definition not_open :: "ws \<Rightarrow> tracker \<Rightarrow> tracker" where
  "not_open w s = s\<lparr>tk_open := removeAll w (tk_open s)\<rparr>"

definition sendError :: "ws \<Rightarrow> string \<Rightarrow> tracker \<Rightarrow> tk_step" where
  "sendError w code s = (tk_send w (TError code) s, s)"

definition reject :: "ws \<Rightarrow> string \<Rightarrow> tracker \<Rightarrow> tk_step" where
  "reject w code s = (tk_send w (TError code) s @ [TkClose w], not_open w s)"

definition set_conn :: "ws \<Rightarrow> tk_connection \<Rightarrow> tracker \<Rightarrow> tracker" where
  "set_conn w c s = s\<lparr>tk_objects := jm_set w c (tk_objects s)\<rparr>"

subsection \<open>Sessions\<close>

text \<open>\<open>registerSession\<close>: \<open>None\<close> when full, otherwise the socket that was replaced.\<close>

definition registerSession :: "tracker_cfg \<Rightarrow> int \<Rightarrow> ws \<Rightarrow> peer_id \<Rightarrow> tracker \<Rightarrow> ws option option \<times> tracker" where
  "registerSession c now w pid s =
     (let existing = jm_get (tk_sessions s) pid; here = \<lparr>ss_ws = w, ss_lastActive = now\<rparr> in
      if map_option ss_ws existing = Some w
        then (Some None, s\<lparr>tk_sessions := jm_set pid here (tk_sessions s)\<rparr>)
      else if existing = None \<and> length (tk_sessions s) \<ge> tc_maxSessions c then (None, s)
      else (Some (map_option ss_ws existing),
            s\<lparr>tk_sessions := jm_set pid here (tk_sessions s), tk_listeners := tk_listeners s @ [(w, pid)]\<rparr>))"

text \<open>The listener a registration put on the socket's \<open>close\<close>, and on its \<open>pong\<close>.\<close>

definition session_closed :: "ws \<times> peer_id \<Rightarrow> (peer_id, peer_session) jsmap \<Rightarrow> (peer_id, peer_session) jsmap" where
  "session_closed l m =
     (case jm_get m (snd l) of Some ss \<Rightarrow> if ss_ws ss = fst l then jm_del (snd l) m else m | None \<Rightarrow> m)"

definition session_pong :: "int \<Rightarrow> ws \<times> peer_id \<Rightarrow> (peer_id, peer_session) jsmap \<Rightarrow> (peer_id, peer_session) jsmap" where
  "session_pong now l m =
     (case jm_get m (snd l) of
        Some ss \<Rightarrow> if ss_ws ss = fst l then jm_set (snd l) (ss\<lparr>ss_lastActive := now\<rparr>) m else m
      | None \<Rightarrow> m)"

text \<open>The Fisher-Yates loop from index \<open>i\<close> down to 1; \<open>randomInt i n\<close> is the draw below \<open>n\<close> of its round.\<close>

fun shuffle_down :: "(nat \<Rightarrow> nat \<Rightarrow> nat) \<Rightarrow> nat \<Rightarrow> 'a list \<Rightarrow> 'a list" where
  "shuffle_down randomInt 0 xs = xs"
| "shuffle_down randomInt (Suc i) xs =
     (let j = randomInt (Suc i) (Suc i + 1) in
      shuffle_down randomInt i (xs[Suc i := xs ! j, j := xs ! Suc i]))"

definition getRandomPeers :: "peer_id \<Rightarrow> nat \<Rightarrow> (nat \<Rightarrow> nat \<Rightarrow> nat) \<Rightarrow> tracker \<Rightarrow> peer_id list" where
  "getRandomPeers excludeId maxPeers randomInt s =
     (let allIds = filter (\<lambda>p. p \<noteq> excludeId) (jm_keys (tk_sessions s)) in
      take maxPeers (shuffle_down randomInt (length allIds - 1) allIds))"

definition idle :: "tracker_cfg \<Rightarrow> int \<Rightarrow> peer_id \<times> peer_session \<Rightarrow> bool" where
  "idle c now x \<longleftrightarrow> now - ss_lastActive (snd x) > tc_idleTimeoutMs c"

definition cleanupPings :: "tracker_cfg \<Rightarrow> int \<Rightarrow> tracker \<Rightarrow> tk_step" where
  "cleanupPings c now s =
     (map (\<lambda>x. if idle c now x then TkTerminate (ss_ws (snd x)) else TkPing (ss_ws (snd x))) (tk_sessions s),
      s\<lparr>tk_sessions := filter (\<lambda>x. \<not> idle c now x) (tk_sessions s),
        tk_open := filter (\<lambda>w. w \<notin> ss_ws ` snd ` set (filter (idle c now) (tk_sessions s))) (tk_open s)\<rparr>)"

subsection \<open>Connections\<close>

definition tk_accept :: "tracker_cfg \<Rightarrow> ws \<Rightarrow> string \<Rightarrow> string option \<Rightarrow> tracker \<Rightarrow> tk_step" where
  "tk_accept c w address hostHeader s =
     (let count = (case jm_get (tk_perAddress s) address of None \<Rightarrow> 0 | Some n \<Rightarrow> n); s = s\<lparr>tk_open := js_add w (tk_open s)\<rparr> in
      if count \<ge> tc_maxPerAddress c then reject w ''capacity'' s
      else
        ([], s\<lparr>tk_perAddress := jm_set address (count + 1) (tk_perAddress s), tk_connSeq := tk_connSeq s + 1,
          tk_objects := jm_set w \<lparr>cn_id = CHR ''c'' # nat_digits 10 (tk_connSeq s + 1), cn_nonce = [],
            cn_host = normalizeHostHeader hostHeader, cn_address = address, cn_peerId = None, cn_timer = True\<rparr> (tk_objects s),
          tk_live := js_add w (tk_live s), tk_greet := tk_greet s @ [w]\<rparr>))"

text \<open>The greeting, once the library is ready.\<close>

definition tk_greeting :: "bytes \<Rightarrow> ws \<Rightarrow> tracker \<Rightarrow> tk_step" where
  "tk_greeting nonce w s0 =
     (let s = s0\<lparr>tk_greet := remove1 w (tk_greet s0)\<rparr> in
      if w \<notin> set (tk_open s) then ([], s)
      else
        (case jm_get (tk_objects s) w of
           None \<Rightarrow> ([], s)
         | Some conn \<Rightarrow> (tk_send w (THello TRACKER_PROTOCOL_VERSION (toHex nonce)) s, set_conn w (conn\<lparr>cn_nonce := nonce\<rparr>) s)))"

definition handshakeTimeout :: "ws \<Rightarrow> tracker \<Rightarrow> tk_step" where
  "handshakeTimeout w s =
     (case jm_get (tk_objects s) w of
        None \<Rightarrow> ([], s)
      | Some conn \<Rightarrow>
          (let s = set_conn w (conn\<lparr>cn_timer := False\<rparr>) s in
           if cn_peerId conn = None then reject w ''timeout'' s else ([], s)))"

definition tk_release :: "ws \<Rightarrow> tk_connection \<Rightarrow> tracker \<Rightarrow> tracker" where
  "tk_release w conn s =
     (if w \<notin> set (tk_live s) then s
      else
        (let left = (case jm_get (tk_perAddress s) (cn_address conn) of None \<Rightarrow> 1 | Some n \<Rightarrow> n) - 1 in
         s\<lparr>tk_live := removeAll w (tk_live s), tk_objects := jm_set w (conn\<lparr>cn_timer := False\<rparr>) (tk_objects s),
           tk_rate := rate_forget (cn_id conn) (tk_rate s),
           tk_perAddress := (if left \<le> 0 then jm_del (cn_address conn) (tk_perAddress s)
             else jm_set (cn_address conn) left (tk_perAddress s))\<rparr>))"

text \<open>The \<open>close\<close> of a socket: the listener of the server, then those of the sessions.\<close>

definition tk_closed :: "ws \<Rightarrow> tracker \<Rightarrow> tk_step" where
  "tk_closed w s0 =
     (let s = not_open w s0; s = (case jm_get (tk_objects s) w of None \<Rightarrow> s | Some conn \<Rightarrow> tk_release w conn s) in
      ([], s\<lparr>tk_sessions := fold session_closed (filter (\<lambda>l. fst l = w) (tk_listeners s)) (tk_sessions s)\<rparr>))"

definition tk_pong :: "int \<Rightarrow> ws \<Rightarrow> tracker \<Rightarrow> tk_step" where
  "tk_pong now w s =
     ([], s\<lparr>tk_sessions := fold (session_pong now) (filter (\<lambda>l. fst l = w) (tk_listeners s)) (tk_sessions s)\<rparr>)"

subsection \<open>Messages\<close>

definition tk_rate_allow :: "int \<Rightarrow> string \<Rightarrow> string \<Rightarrow> tracker \<Rightarrow> bool \<times> tracker" where
  "tk_rate_allow now connId category s =
     (let (ok, r) = rate_allow TRACKER_LIMITS (of_int now) connId category (tk_rate s) in (ok, s\<lparr>tk_rate := r\<rparr>))"

text \<open>\<open>handleJoin\<close> up to its \<open>await\<close>, and from there on.\<close>

definition join_begin :: "int \<Rightarrow> ws \<Rightarrow> tk_connection \<Rightarrow> tracker_join \<Rightarrow> tracker \<Rightarrow> tk_step" where
  "join_begin now w conn j s =
     (let (ok, s) = tk_rate_allow now (cn_id conn) ''join'' s in
      if \<not> ok then sendError w ''rate-limited'' s else ([], s\<lparr>tk_waiting := tk_waiting s @ [(w, j)]\<rparr>))"

definition host_ok :: "tracker_cfg \<Rightarrow> string option \<Rightarrow> tracker_join \<Rightarrow> bool" where
  "host_ok c connHost j =
     (case normalizeHostHeader (Some (tj_host j)) of
        None \<Rightarrow> False
      | Some claimedHost \<Rightarrow>
          (case tc_allowedHosts c of
             Some hosts \<Rightarrow> claimedHost \<in> set hosts
           | None \<Rightarrow> connHost = Some claimedHost))"

definition tj_claim :: "tracker_join \<Rightarrow> jsval" where
  "tj_claim j = JObj [(''peerId'', JStr (tj_peerId j)), (''pubkey'', JBytes (fromHex (tj_pubkey j))),
     (''powCounter'', jint (tj_powCounter j))]"

definition join_signed :: "sodium \<Rightarrow> bytes \<Rightarrow> tracker_join \<Rightarrow> bool" where
  "join_signed S nonce j =
     (case trackerJoinMessage nonce (tj_peerId j) (tj_host j) of
        Inl _ \<Rightarrow> False
      | Inr m \<Rightarrow> verify_detached S (fromHex (tj_sig j)) m (fromHex (tj_pubkey j)) = Some True)"

text \<open>The end of the connection that a new registration of its peer replaces.\<close>

definition end_replaced :: "ws \<Rightarrow> ws option \<Rightarrow> tracker \<Rightarrow> tk_step" where
  "end_replaced w prev s =
     (case prev of
        None \<Rightarrow> ([], s)
      | Some old \<Rightarrow>
          if old = w then ([], s)
          else
            ([TkClose old],
             not_open old
               (if old \<in> set (tk_live s)
                then (case jm_get (tk_objects s) old of
                        None \<Rightarrow> s
                      | Some oc \<Rightarrow> set_conn old (oc\<lparr>cn_peerId := None\<rparr>) s)
                else s)))"

definition join_register ::
  "tracker_cfg \<Rightarrow> int \<Rightarrow> (nat \<Rightarrow> nat \<Rightarrow> nat) \<Rightarrow> ws \<Rightarrow> tk_connection \<Rightarrow> tracker_join \<Rightarrow> tracker \<Rightarrow> tk_step" where
  "join_register c now randomInt w conn j s =
     (case registerSession c now w (tj_peerId j) s of
        (None, s1) \<Rightarrow> reject w ''capacity'' s1
      | (Some prev, s1) \<Rightarrow>
          (let s2 = set_conn w (conn\<lparr>cn_peerId := Some (tj_peerId j), cn_timer := False\<rparr>) s1;
               (e, s3) = end_replaced w prev s2 in
           (e @ tk_send w (TPeers (getRandomPeers (tj_peerId j) (tc_peersPerJoin c) randomInt s3)) s3, s3)))"

definition join_finish ::
  "sodium \<Rightarrow> tracker_cfg \<Rightarrow> int \<Rightarrow> (nat \<Rightarrow> nat \<Rightarrow> nat) \<Rightarrow> ws \<Rightarrow> tracker_join \<Rightarrow> tracker \<Rightarrow> tk_step" where
  "join_finish S c now randomInt w j s0 =
     (let s = s0\<lparr>tk_waiting := remove1 (w, j) (tk_waiting s0)\<rparr> in
      case jm_get (tk_objects s) w of
        None \<Rightarrow> ([], s)
      | Some conn \<Rightarrow>
          if cn_peerId conn \<noteq> None then sendError w ''bad-message'' s
          else if cn_nonce conn = [] then reject w ''bad-message'' s
          else if tj_v j \<noteq> TRACKER_PROTOCOL_VERSION then reject w ''unsupported-version'' s
          else if \<not> host_ok c (cn_host conn) j then reject w ''bad-host'' s
          else if \<not> verifyClaim S (tj_claim j) (tc_pow c) then reject w ''invalid-identity'' s
          else
            (let nonce = cn_nonce conn; conn = conn\<lparr>cn_nonce := []\<rparr>; s = set_conn w conn s in
             if \<not> join_signed S nonce j then reject w ''bad-signature'' s
             else if w \<notin> set (tk_open s) then ([], s)
             else join_register c now randomInt w conn j s))"

definition tk_handleRelay :: "int \<Rightarrow> ws \<Rightarrow> tk_connection \<Rightarrow> peer_id \<Rightarrow> jsval \<Rightarrow> tracker \<Rightarrow> tk_step" where
  "tk_handleRelay now w conn target payload s =
     (case cn_peerId conn of
        None \<Rightarrow> reject w ''not-joined'' s
      | Some senderId \<Rightarrow>
          (let (ok, s) = tk_rate_allow now (cn_id conn) ''relay'' s in
           if \<not> ok then ([], s)
           else if target = senderId then ([], s)
           else
             (case jm_get (tk_sessions s) target of
                None \<Rightarrow> ([], s)
              | Some ss \<Rightarrow> (tk_send (ss_ws ss) (TRelayIn senderId payload) s, s))))"

text \<open>\<open>raw\<close> is \<open>None\<close> for a binary frame.\<close>

definition tk_handleMessage :: "int \<Rightarrow> ws \<Rightarrow> string option \<Rightarrow> tracker \<Rightarrow> tk_step" where
  "tk_handleMessage now w raw s =
     (case jm_get (tk_objects s) w of
        None \<Rightarrow> ([], s)
      | Some conn \<Rightarrow>
          (case Option.bind raw parseTrackerClientMessage of
             None \<Rightarrow> reject w ''bad-message'' s
           | Some (TJoin j) \<Rightarrow> join_begin now w conn j s
           | Some (TRelayOut target payload) \<Rightarrow> tk_handleRelay now w conn target payload s))"

definition tk_shutdown :: "tracker \<Rightarrow> tk_step" where
  "tk_shutdown s =
     (if tk_stopped s then ([], s)
      else
        (map TkTerminate (tk_live s) @ map (\<lambda>x. TkTerminate (ss_ws (snd x))) (tk_sessions s),
         s\<lparr>tk_stopped := True, tk_live := [], tk_perAddress := [], tk_sessions := [],
           tk_objects := map (\<lambda>(w, conn). (w, if w \<in> set (tk_live s) then conn\<lparr>cn_timer := False\<rparr> else conn)) (tk_objects s),
           tk_open := filter (\<lambda>w. w \<notin> set (tk_live s) \<and> w \<notin> ss_ws ` snd ` set (tk_sessions s)) (tk_open s)\<rparr>))"

subsection \<open>Runs\<close>

datatype tk_event =
    EvAccept ws string "string option"
  | EvGreet ws bytes
  | EvTimeout ws
  | EvMessage ws "string option"
  | EvJoin ws tracker_join "nat \<Rightarrow> nat \<Rightarrow> nat"
  | EvClose ws
  | EvPong ws
  | EvCleanup
  | EvShutdown

text \<open>What the event loop can deliver: a new socket has a number of its own, a pending continuation runs once, a
  timer fires if it was not cleared. Messages may come from any socket at any time.\<close>

fun tk_enabled :: "tk_event \<Rightarrow> tracker \<Rightarrow> bool" where
  "tk_enabled (EvAccept w _ _) s \<longleftrightarrow> \<not> tk_stopped s \<and> \<not> jm_has (tk_objects s) w"
| "tk_enabled (EvGreet w n) s \<longleftrightarrow> w \<in> set (tk_greet s) \<and> length n = CHALLENGE_BYTES"
| "tk_enabled (EvTimeout w) s \<longleftrightarrow> (case jm_get (tk_objects s) w of Some conn \<Rightarrow> cn_timer conn | None \<Rightarrow> False)"
| "tk_enabled (EvJoin w j _) s \<longleftrightarrow> (w, j) \<in> set (tk_waiting s)"
| "tk_enabled _ s \<longleftrightarrow> True"

fun tk_exec :: "sodium \<Rightarrow> tracker_cfg \<Rightarrow> int \<Rightarrow> tk_event \<Rightarrow> tracker \<Rightarrow> tk_step" where
  "tk_exec S c now (EvAccept w address host) s = tk_accept c w address host s"
| "tk_exec S c now (EvGreet w nonce) s = tk_greeting nonce w s"
| "tk_exec S c now (EvTimeout w) s = handshakeTimeout w s"
| "tk_exec S c now (EvMessage w raw) s = tk_handleMessage now w raw s"
| "tk_exec S c now (EvJoin w j randomInt) s = join_finish S c now randomInt w j s"
| "tk_exec S c now (EvClose w) s = tk_closed w s"
| "tk_exec S c now (EvPong w) s = tk_pong now w s"
| "tk_exec S c now EvCleanup s = cleanupPings c now s"
| "tk_exec S c now EvShutdown s = tk_shutdown s"

type_synonym tk_trace = "(tk_event \<times> tracker_eff list) list"

inductive tk_run :: "sodium \<Rightarrow> tracker_cfg \<Rightarrow> tk_trace \<Rightarrow> tracker \<Rightarrow> bool" for S c where
  start: "tk_run S c [] tracker_init"
| step: "tk_run S c tr s \<Longrightarrow> tk_enabled ev s \<Longrightarrow> tk_exec S c now ev s = (e, s') \<Longrightarrow> tk_run S c (tr @ [(ev, e)]) s'"

subsection \<open>What a connection has proved\<close>

definition greeted :: "tk_trace \<Rightarrow> ws \<Rightarrow> bytes \<Rightarrow> bool" where
  "greeted tr w nonce \<longleftrightarrow> TkSend w (THello 2 (toHex nonce)) \<in> (\<Union>x \<in> set tr. set (snd x))"

definition connected_to :: "tk_trace \<Rightarrow> ws \<Rightarrow> string option \<Rightarrow> bool" where
  "connected_to tr w host \<longleftrightarrow> (\<exists>a h. EvAccept w a h \<in> fst ` set tr \<and> host = normalizeHostHeader h)"

text \<open>On this connection, someone who holds the secret key of a bound identity signed the nonce sent on this
  connection, for a name of this tracker.\<close>

definition proved :: "sodium \<Rightarrow> tracker_cfg \<Rightarrow> tk_trace \<Rightarrow> ws \<Rightarrow> peer_id \<Rightarrow> bool" where
  "proved S c tr w pid \<longleftrightarrow>
     (\<exists>j r nonce host. EvJoin w j r \<in> fst ` set tr \<and> tj_peerId j = pid \<and> greeted tr w nonce \<and> nonce \<noteq> [] \<and>
        join_signed S nonce j \<and> verifyClaim S (tj_claim j) (tc_pow c) \<and> connected_to tr w host \<and> host_ok c host j)"

lemma greeted_mono: "greeted tr w n \<Longrightarrow> greeted (tr @ tr') w n"
  by (auto simp: greeted_def)

lemma connected_mono: "connected_to tr w h \<Longrightarrow> connected_to (tr @ tr') w h"
  by (auto simp: connected_to_def)

lemma proved_mono: "proved S c tr w pid \<Longrightarrow> proved S c (tr @ tr') w pid"
  unfolding proved_def set_append image_Un by (blast intro: greeted_mono connected_mono)

definition conn_ok :: "sodium \<Rightarrow> tracker_cfg \<Rightarrow> tk_trace \<Rightarrow> ws \<Rightarrow> tk_connection \<Rightarrow> bool" where
  "conn_ok S c tr w conn \<longleftrightarrow>
     (cn_nonce conn \<noteq> [] \<longrightarrow> greeted tr w (cn_nonce conn)) \<and>
     (\<forall>pid. cn_peerId conn = Some pid \<longrightarrow> proved S c tr w pid) \<and> connected_to tr w (cn_host conn)"

definition tk_inv :: "sodium \<Rightarrow> tracker_cfg \<Rightarrow> tk_trace \<Rightarrow> tracker \<Rightarrow> bool" where
  "tk_inv S c tr s \<longleftrightarrow>
     (\<forall>(w, conn) \<in> set (tk_objects s). conn_ok S c tr w conn) \<and>
     (\<forall>(pid, ss) \<in> set (tk_sessions s). proved S c tr (ss_ws ss) pid)"

lemma conn_ok_mono: "conn_ok S c tr w conn \<Longrightarrow> conn_ok S c (tr @ tr') w conn"
  by (auto simp: conn_ok_def intro: greeted_mono connected_mono proved_mono)

lemma tk_inv_mono: "tk_inv S c tr s \<Longrightarrow> tk_inv S c (tr @ tr') s"
  by (fastforce simp: tk_inv_def intro: conn_ok_mono proved_mono)

lemma tk_invD:
  assumes "tk_inv S c tr s"
  shows "jm_get (tk_objects s) w = Some conn \<Longrightarrow> conn_ok S c tr w conn"
    "jm_get (tk_sessions s) pid = Some ss \<Longrightarrow> proved S c tr (ss_ws ss) pid"
  using assms by (auto simp: tk_inv_def dest!: jm_get_in_set)

lemma tk_inv_same:
  "tk_inv S c tr s \<Longrightarrow> tk_objects s' = tk_objects s \<Longrightarrow> tk_sessions s' = tk_sessions s \<Longrightarrow> tk_inv S c tr s'"
  by (simp add: tk_inv_def)

lemma tk_inv_set_conn: "tk_inv S c tr s \<Longrightarrow> conn_ok S c tr w conn \<Longrightarrow> tk_inv S c tr (set_conn w conn s)"
  unfolding tk_inv_def set_conn_def by (auto dest!: jm_set_in)

lemma tk_inv_sessions:
  "tk_inv S c tr s \<Longrightarrow> tk_objects s' = tk_objects s \<Longrightarrow>
    (\<forall>(pid, ss) \<in> set (tk_sessions s'). \<exists>ss'. (pid, ss') \<in> set (tk_sessions s) \<and> ss_ws ss' = ss_ws ss) \<Longrightarrow> tk_inv S c tr s'"
  unfolding tk_inv_def by fastforce

lemma not_open_simps [simp]:
  "tk_objects (not_open w s) = tk_objects s" "tk_sessions (not_open w s) = tk_sessions s"
  "tk_live (not_open w s) = tk_live s" "tk_listeners (not_open w s) = tk_listeners s" "tk_greet (not_open w s) = tk_greet s"
  "tk_perAddress (not_open w s) = tk_perAddress s" "tk_rate (not_open w s) = tk_rate s"
  by (simp_all add: not_open_def)

lemma set_conn_simps [simp]:
  "tk_objects (set_conn w conn s) = jm_set w conn (tk_objects s)" "tk_sessions (set_conn w conn s) = tk_sessions s"
  "tk_live (set_conn w conn s) = tk_live s" "tk_listeners (set_conn w conn s) = tk_listeners s"
  "tk_open (set_conn w conn s) = tk_open s" "tk_greet (set_conn w conn s) = tk_greet s"
  "tk_perAddress (set_conn w conn s) = tk_perAddress s" "tk_rate (set_conn w conn s) = tk_rate s"
  by (simp_all add: set_conn_def)

lemma snd_reject [simp]: "snd (reject w code s) = not_open w s" "snd (sendError w code s) = s"
  by (simp_all add: reject_def sendError_def)

lemma rate_simps [simp]:
  "tk_objects (snd (tk_rate_allow now i k s)) = tk_objects s" "tk_sessions (snd (tk_rate_allow now i k s)) = tk_sessions s"
  "tk_live (snd (tk_rate_allow now i k s)) = tk_live s" "tk_open (snd (tk_rate_allow now i k s)) = tk_open s"
  "tk_greet (snd (tk_rate_allow now i k s)) = tk_greet s" "tk_listeners (snd (tk_rate_allow now i k s)) = tk_listeners s"
  "tk_perAddress (snd (tk_rate_allow now i k s)) = tk_perAddress s"
  by (simp_all add: tk_rate_allow_def split: prod.split)

lemma session_closed_sub: "set (fold session_closed ls m) \<subseteq> set m"
proof (induction ls arbitrary: m)
  case (Cons l ls)
  have "set (session_closed l m) \<subseteq> set m" by (auto simp: session_closed_def set_jm_del split: option.splits)
  then show ?case using Cons [of "session_closed l m"] by auto
qed simp

lemma session_pong_ws: "(pid, ss) \<in> set (fold (session_pong now) ls m) \<Longrightarrow> \<exists>ss'. (pid, ss') \<in> set m \<and> ss_ws ss' = ss_ws ss"
proof (induction ls arbitrary: m)
  case (Cons l ls)
  then obtain ss' where s: "(pid, ss') \<in> set (session_pong now l m)" "ss_ws ss' = ss_ws ss" by auto
  show ?case
  proof (cases "(pid, ss') \<in> set m")
    case False
    then obtain q where q: "jm_get m (snd l) = Some q" "pid = snd l" "ss' = q\<lparr>ss_lastActive := now\<rparr>"
      using s(1) by (auto simp: session_pong_def split: option.splits if_splits dest!: jm_set_in)
    then show ?thesis using s(2) jm_get_in_set by fastforce
  qed (use s in blast)
qed auto

lemma registerSession_inv:
  assumes "tk_inv S c tr s" "proved S c tr w pid"
  shows "tk_inv S c tr (snd (registerSession c now w pid s))"
    "tk_objects (snd (registerSession c now w pid s)) = tk_objects s"
  using assms unfolding tk_inv_def registerSession_def Let_def
  by (auto dest!: jm_set_in split: if_splits)

lemma end_replaced_inv:
  assumes "tk_inv S c tr s"
  shows "tk_inv S c tr (snd (end_replaced w r s))"
proof (cases "\<exists>old oc. r = Some old \<and> old \<noteq> w \<and> old \<in> set (tk_live s) \<and> jm_get (tk_objects s) old = Some oc")
  case True
  then obtain old oc where o: "r = Some old" "old \<noteq> w" "old \<in> set (tk_live s)" "jm_get (tk_objects s) old = Some oc" by blast
  then have "conn_ok S c tr old (oc\<lparr>cn_peerId := None\<rparr>)" using tk_invD(1) [OF assms o(4)] by (simp add: conn_ok_def)
  then have "tk_inv S c tr (set_conn old (oc\<lparr>cn_peerId := None\<rparr>) s)" by (rule tk_inv_set_conn [OF assms])
  then show ?thesis using o by (auto simp: end_replaced_def elim!: tk_inv_same)
next
  case False
  then show ?thesis using assms by (auto simp: end_replaced_def elim!: tk_inv_same split: option.splits)
qed

lemma join_register_inv:
  assumes "tk_inv S c tr s" "proved S c tr w (tj_peerId j)" "conn_ok S c tr w conn"
  shows "tk_inv S c tr (snd (join_register c now rnd w conn j s))"
proof -
  obtain r s1 where r: "registerSession c now w (tj_peerId j) s = (r, s1)" by fastforce
  have i: "tk_inv S c tr s1" using registerSession_inv(1) [OF assms(1,2), of now] r by simp
  have "conn_ok S c tr w (conn\<lparr>cn_peerId := Some (tj_peerId j), cn_timer := False\<rparr>)"
    using assms(2,3) by (simp add: conn_ok_def)
  note j = end_replaced_inv [OF tk_inv_set_conn [OF i this]]
  show ?thesis
  proof (cases r)
    case None
    then show ?thesis using i r by (auto simp: join_register_def elim!: tk_inv_same)
  next
    case (Some old)
    then show ?thesis using j [of w old] r by (simp add: join_register_def Let_def split_beta)
  qed
qed

lemma join_finish_inv:
  assumes "tk_inv S c tr s" "EvJoin w j r \<in> fst ` set tr"
  shows "tk_inv S c tr (snd (join_finish S c now rnd w j s))"
proof -
  let ?s = "s\<lparr>tk_waiting := remove1 (w, j) (tk_waiting s)\<rparr>"
  have i: "tk_inv S c tr ?s" by (rule tk_inv_same [OF assms(1)]) simp_all
  show ?thesis
  proof (cases "jm_get (tk_objects s) w")
    case None
    then show ?thesis using i by (simp add: join_finish_def Let_def)
  next
    case (Some conn)
    have ok: "conn_ok S c tr w conn" using tk_invD(1) [OF assms(1) Some] .
    let ?c = "conn\<lparr>cn_nonce := []\<rparr>"
    have ok': "conn_ok S c tr w ?c" using ok by (simp add: conn_ok_def)
    have i': "tk_inv S c tr (set_conn w ?c ?s)" by (rule tk_inv_set_conn [OF i ok'])
    have "proved S c tr w (tj_peerId j)"
      if "cn_nonce conn \<noteq> []" "host_ok c (cn_host conn) j" "verifyClaim S (tj_claim j) (tc_pow c)"
        "join_signed S (cn_nonce conn) j"
      unfolding proved_def using that ok assms(2) by (auto simp: conn_ok_def)
    note reg = join_register_inv [OF i' this ok', of now rnd]
    show ?thesis
      using i i' reg Some by (auto simp: join_finish_def Let_def elim: tk_inv_same)
  qed
qed

lemma tk_exec_inv:
  assumes "tk_inv S c tr s" "tk_exec S c now ev s = (e, s')"
  shows "tk_inv S c (tr @ [(ev, e)]) s'"
proof -
  let ?tr = "tr @ [(ev, e)]"
  have i: "tk_inv S c ?tr s" by (rule tk_inv_mono [OF assms(1)])
  have s': "s' = snd (tk_exec S c now ev s)" and e: "e = fst (tk_exec S c now ev s)" using assms(2) by simp_all
  show ?thesis
  proof (cases ev)
    case (EvAccept w a h)
    let ?new = "\<lparr>cn_id = CHR ''c'' # nat_digits 10 (tk_connSeq s + 1), cn_nonce = [],
            cn_host = normalizeHostHeader h, cn_address = a, cn_peerId = None, cn_timer = True\<rparr>"
    have "conn_ok S c ?tr w ?new" using EvAccept by (auto simp: conn_ok_def connected_to_def)
    note j = tk_inv_set_conn [OF i this]
    show ?thesis
    proof (cases "(case jm_get (tk_perAddress s) a of None \<Rightarrow> 0 | Some n \<Rightarrow> n) \<ge> tc_maxPerAddress c")
      case True
      then show ?thesis unfolding s' by (intro tk_inv_same [OF i]) (simp_all add: EvAccept tk_accept_def Let_def)
    next
      case False
      then show ?thesis unfolding s' by (intro tk_inv_same [OF j]) (simp_all add: EvAccept tk_accept_def Let_def)
    qed
  next
    case (EvGreet w n)
    show ?thesis
    proof (cases "w \<in> set (tk_open s) \<and> jm_get (tk_objects s) w \<noteq> None")
      case True
      then obtain conn where conn: "jm_get (tk_objects s) w = Some conn" by auto
      have "greeted ?tr w n" using True conn unfolding e
        by (simp add: EvGreet greeted_def tk_greeting_def tk_send_def)
      then have "conn_ok S c ?tr w (conn\<lparr>cn_nonce := n\<rparr>)"
        using tk_invD(1) [OF i conn] by (simp add: conn_ok_def)
      from tk_inv_set_conn [OF i this] show ?thesis unfolding s' using True conn
        by (elim tk_inv_same) (auto simp: EvGreet tk_greeting_def Let_def)
    next
      case False
      then show ?thesis unfolding s'
        by (intro tk_inv_same [OF i]) (auto simp: EvGreet tk_greeting_def Let_def split: option.splits)
    qed
  next
    case (EvTimeout w)
    show ?thesis
    proof (cases "jm_get (tk_objects s) w")
      case None
      then show ?thesis unfolding s' using i by (simp add: EvTimeout handshakeTimeout_def)
    next
      case (Some conn)
      have "conn_ok S c ?tr w (conn\<lparr>cn_timer := False\<rparr>)" using tk_invD(1) [OF i Some] by (simp add: conn_ok_def)
      from tk_inv_set_conn [OF i this] show ?thesis unfolding s' using Some
        by (elim tk_inv_same) (auto simp: EvTimeout handshakeTimeout_def Let_def)
    qed
  next
    case (EvMessage w raw)
    show ?thesis unfolding s'
      by (rule tk_inv_same [OF i])
        (simp_all add: EvMessage tk_handleMessage_def join_begin_def tk_handleRelay_def Let_def split_beta split: option.split client_msg.split)
  next
    case (EvJoin w j r)
    have "EvJoin w j r \<in> fst ` set ?tr" using EvJoin by simp
    from join_finish_inv [OF i this] show ?thesis unfolding s' by (simp add: EvJoin)
  next
    case (EvClose w)
    show ?thesis
    proof (cases "jm_get (tk_objects s) w")
      case None
      then show ?thesis unfolding s' using session_closed_sub
        by (intro tk_inv_sessions [OF i]) (fastforce simp: EvClose tk_closed_def Let_def)+
    next
      case (Some conn)
      have "conn_ok S c ?tr w (conn\<lparr>cn_timer := False\<rparr>)" using tk_invD(1) [OF i Some] by (simp add: conn_ok_def)
      note j = tk_inv_set_conn [OF i this]
      show ?thesis
      proof (cases "w \<in> set (tk_live s)")
        case True
        then show ?thesis unfolding s' using session_closed_sub Some
          by (intro tk_inv_sessions [OF j]) (fastforce simp: EvClose tk_closed_def tk_release_def Let_def)+
      next
        case False
        then show ?thesis unfolding s' using session_closed_sub Some
          by (intro tk_inv_sessions [OF i]) (fastforce simp: EvClose tk_closed_def tk_release_def Let_def)+
      qed
    qed
  next
    case (EvPong w)
    show ?thesis unfolding s'
      by (rule tk_inv_sessions [OF i]) (auto simp: EvPong tk_pong_def dest: session_pong_ws)
  next
    case EvCleanup
    show ?thesis unfolding s'
      by (rule tk_inv_sessions [OF i]) (auto simp: EvCleanup cleanupPings_def)
  next
    case EvShutdown
    have "conn_ok S c ?tr w (if b then conn\<lparr>cn_timer := False\<rparr> else conn)" if "(w, conn) \<in> set (tk_objects s)" for w conn b
      using i that by (auto simp: tk_inv_def conn_ok_def)
    then show ?thesis using i unfolding s'
      by (auto simp: EvShutdown tk_shutdown_def tk_inv_def)
  qed
qed

lemma tk_run_inv: "tk_run S c tr s \<Longrightarrow> tk_inv S c tr s"
proof (induction rule: tk_run.induct)
  case start
  show ?case by (simp add: tk_inv_def tracker_init_def)
next
  case (step tr s ev now e s')
  then show ?case by (intro tk_exec_inv)
qed

subsection \<open>Relaying\<close>

lemma effect_simps [simp]:
  "TkSend w (TRelayIn p v) \<notin> set (fst (reject w' code s))" "TkSend w (TRelayIn p v) \<notin> set (fst (sendError w' code s))"
  "TkSend w (TPeers ps) \<notin> set (fst (reject w' code s))" "TkSend w (TPeers ps) \<notin> set (fst (sendError w' code s))"
  by (simp_all add: reject_def sendError_def tk_send_def)

lemma end_replaced_effects: "set (fst (end_replaced w r s)) \<subseteq> range TkClose"
  by (auto simp: end_replaced_def split: option.splits)

lemma join_finish_no_relay: "TkSend w (TRelayIn p v) \<notin> set (fst (join_finish S c now rnd w' j s))"
proof -
  have "TkSend w (TRelayIn p v) \<notin> set (fst (end_replaced w' r s2))" for r s2
    using end_replaced_effects [of w' r s2] by auto
  then show ?thesis
    by (auto simp: join_finish_def join_register_def Let_def split_beta tk_send_def split: option.split)
qed

lemma relay_sends:
  assumes "TkSend w (TRelayIn sid p) \<in> set (fst (tk_handleRelay now w0 conn target payload s))"
  shows "cn_peerId conn = Some sid \<and> p = payload \<and> target \<noteq> sid \<and> w \<in> set (tk_open s) \<and>
    (\<exists>ss. jm_get (tk_sessions s) target = Some ss \<and> w = ss_ws ss)"
  using assms by (auto simp: tk_handleRelay_def Let_def split_beta tk_send_def split: option.splits if_splits)

lemma exec_relay:
  assumes "TkSend w (TRelayIn sid p) \<in> set (fst (tk_exec S c now ev s))"
  obtains w0 raw target conn ss where "ev = EvMessage w0 (Some raw)"
    "parseTrackerClientMessage raw = Some (TRelayOut target p)" "jm_get (tk_objects s) w0 = Some conn"
    "cn_peerId conn = Some sid" "target \<noteq> sid" "jm_get (tk_sessions s) target = Some ss" "w = ss_ws ss"
proof (cases ev)
  case (EvMessage w0 r)
  then obtain conn raw m where m: "jm_get (tk_objects s) w0 = Some conn" "r = Some raw" "parseTrackerClientMessage raw = Some m"
    using assms by (cases r) (auto simp: tk_handleMessage_def split: option.splits)
  show ?thesis
  proof (cases m)
    case (TJoin j)
    then show ?thesis using assms m EvMessage
      by (simp add: tk_handleMessage_def join_begin_def Let_def split_beta split: if_splits)
  next
    case (TRelayOut target payload)
    then have "TkSend w (TRelayIn sid p) \<in> set (fst (tk_handleRelay now w0 conn target payload s))"
      using assms m EvMessage by (simp add: tk_handleMessage_def)
    from relay_sends [OF this] show ?thesis using that [of w0 raw target conn] m EvMessage TRelayOut by auto
  qed
next
  case (EvGreet w n)
  then show ?thesis using assms by (auto simp: tk_greeting_def tk_send_def Let_def split: if_splits option.splits)
qed (use assms join_finish_no_relay in
  \<open>auto simp: tk_accept_def handshakeTimeout_def tk_closed_def tk_pong_def cleanupPings_def tk_shutdown_def Let_def
     split: if_splits option.splits\<close>)

text \<open>C29: What the tracker relays comes from whom it says, and goes to whom it was meant for: a relayed frame
  names as its sender a peer whose key holder signed this connection's nonce on the very connection the frame
  came from, and it is sent only on a connection on which the addressee has done the same, for a name of this
  tracker and with the proof of work of the identity.\<close>

theorem tracker_relay_authentic:
  assumes "tk_run S c tr s" "tk_exec S c now ev s = (e, s')" "TkSend w (TRelayIn sid p) \<in> set e"
  shows "\<exists>w0 raw target. ev = EvMessage w0 (Some raw) \<and> parseTrackerClientMessage raw = Some (TRelayOut target p) \<and>
    target \<noteq> sid \<and> proved S c tr w0 sid \<and> proved S c tr w target"
proof -
  have "TkSend w (TRelayIn sid p) \<in> set (fst (tk_exec S c now ev s))" using assms by simp
  from exec_relay [OF this] obtain w0 raw target conn ss where x: "ev = EvMessage w0 (Some raw)"
    "parseTrackerClientMessage raw = Some (TRelayOut target p)" "jm_get (tk_objects s) w0 = Some conn"
    "cn_peerId conn = Some sid" "target \<noteq> sid" "jm_get (tk_sessions s) target = Some ss" "w = ss_ws ss" by blast
  note i = tk_invD [OF tk_run_inv [OF assms(1)]]
  have "proved S c tr w0 sid" using i(1) [OF x(3)] x(4) by (simp add: conn_ok_def)
  then show ?thesis using x i(2) [OF x(6)] by blast
qed

subsection \<open>Bounds\<close>

definition addr_of :: "tracker \<Rightarrow> ws \<Rightarrow> string option" where
  "addr_of s w = map_option cn_address (jm_get (tk_objects s) w)"

definition conns_from :: "tracker \<Rightarrow> string \<Rightarrow> nat" where
  "conns_from s a = length (filter (\<lambda>w. addr_of s w = Some a) (tk_live s))"

definition sess_ok :: "tracker_cfg \<Rightarrow> tracker \<Rightarrow> bool" where
  "sess_ok c s \<longleftrightarrow> jm_wf (tk_sessions s) \<and> length (tk_sessions s) \<le> tc_maxSessions c"

definition conns_ok :: "tracker_cfg \<Rightarrow> tracker \<Rightarrow> bool" where
  "conns_ok c s \<longleftrightarrow>
     distinct (tk_live s) \<and> (\<forall>w \<in> set (tk_live s). jm_has (tk_objects s) w) \<and>
     (\<forall>a. int (conns_from s a) = (case jm_get (tk_perAddress s) a of None \<Rightarrow> 0 | Some n \<Rightarrow> n)) \<and>
     (\<forall>a. int (conns_from s a) \<le> max 0 (tc_maxPerAddress c))"

definition same_conns :: "tracker \<Rightarrow> tracker \<Rightarrow> bool" where
  "same_conns s s' \<longleftrightarrow>
     tk_live s' = tk_live s \<and> tk_perAddress s' = tk_perAddress s \<and> (\<forall>w. addr_of s' w = addr_of s w)"

lemma conns_ok_same: "conns_ok c s \<Longrightarrow> same_conns s s' \<Longrightarrow> conns_ok c s'"
proof -
  assume a: "conns_ok c s" "same_conns s s'"
  then have h: "jm_has (tk_objects s') w \<longleftrightarrow> jm_has (tk_objects s) w" for w
    by (metis addr_of_def jm_has_def option.map_disc_iff same_conns_def)
  have e: "tk_live s' = tk_live s" "tk_perAddress s' = tk_perAddress s" "conns_from s' = conns_from s"
    using a(2) by (simp_all add: same_conns_def conns_from_def fun_eq_iff)
  show ?thesis using a(1) unfolding conns_ok_def e h .
qed

lemma same_conns_refl [simp]: "same_conns s s"
  by (simp add: same_conns_def)

lemma same_conns_trans: "same_conns s s1 \<Longrightarrow> same_conns s1 s2 \<Longrightarrow> same_conns s s2"
  by (simp add: same_conns_def)

lemma same_conns_simps [simp]:
  "same_conns s (not_open w s') \<longleftrightarrow> same_conns s s'"
  "same_conns s (s'\<lparr>tk_waiting := x\<rparr>) \<longleftrightarrow> same_conns s s'" "same_conns s (s'\<lparr>tk_greet := y\<rparr>) \<longleftrightarrow> same_conns s s'"
  "same_conns s (s'\<lparr>tk_sessions := z\<rparr>) \<longleftrightarrow> same_conns s s'" "same_conns s (s'\<lparr>tk_open := op\<rparr>) \<longleftrightarrow> same_conns s s'"
  "same_conns s (s'\<lparr>tk_listeners := ls\<rparr>) \<longleftrightarrow> same_conns s s'"
  "same_conns s (snd (tk_rate_allow now i k s')) \<longleftrightarrow> same_conns s s'"
  by (simp_all add: same_conns_def addr_of_def)

lemma same_conns_set:
  "same_conns s s' \<Longrightarrow> jm_get (tk_objects s') w = Some conn \<Longrightarrow> cn_address conn' = cn_address conn \<Longrightarrow>
    same_conns s (set_conn w conn' s')"
  by (auto simp: same_conns_def addr_of_def dest!: spec [of _ w])

lemma sess_ok_same: "sess_ok c s \<Longrightarrow> tk_sessions s' = tk_sessions s \<Longrightarrow> sess_ok c s'"
  by (simp add: sess_ok_def)

lemma session_closed_wf:
  "jm_wf m \<Longrightarrow> jm_wf (fold session_closed ls m) \<and> length (fold session_closed ls m) \<le> length m"
proof (induction ls arbitrary: m)
  case (Cons l ls)
  have "jm_wf (session_closed l m) \<and> length (session_closed l m) \<le> length m"
    using Cons.prems by (auto simp: session_closed_def length_jm_del split: option.split)
  then show ?case using Cons.IH [of "session_closed l m"] by auto
qed simp

lemma session_pong_wf:
  "jm_wf m \<Longrightarrow> jm_wf (fold (session_pong now) ls m) \<and> length (fold (session_pong now) ls m) = length m"
proof (induction ls arbitrary: m)
  case (Cons l ls)
  have "jm_wf (session_pong now l m) \<and> length (session_pong now l m) = length m"
    using Cons.prems by (auto simp: session_pong_def length_jm_set jm_has_def split: option.split)
  then show ?case using Cons.IH [of "session_pong now l m"] by auto
qed simp

lemma registerSession_bounds:
  "sess_ok c s \<Longrightarrow> sess_ok c (snd (registerSession c now w pid s))"
  "tk_objects (snd (registerSession c now w pid s)) = tk_objects s"
  "same_conns s (snd (registerSession c now w pid s))"
  by (auto simp: registerSession_def Let_def length_jm_set jm_has_def sess_ok_def)

lemma end_replaced_bounds:
  "tk_sessions (snd (end_replaced w r s)) = tk_sessions s" "same_conns s (snd (end_replaced w r s))"
  by (auto simp: end_replaced_def intro: same_conns_set split: option.split)

lemma join_register_bounds:
  assumes "sess_ok c s" "jm_get (tk_objects s) w = Some conn'" "cn_address conn = cn_address conn'"
  shows "sess_ok c (snd (join_register c now rnd w conn j s)) \<and> same_conns s (snd (join_register c now rnd w conn j s))"
proof -
  obtain r s1 where r: "registerSession c now w (tj_peerId j) s = (r, s1)" by fastforce
  note b = registerSession_bounds [where c = c and s = s and now = now and w = w and pid = "tj_peerId j", unfolded r snd_conv]
  have "same_conns s (set_conn w (conn\<lparr>cn_peerId := Some (tj_peerId j), cn_timer := False\<rparr>) s1)" (is "same_conns s ?s2")
    using assms b by (intro same_conns_set [of _ _ _ conn']) auto
  then have "same_conns s (snd (end_replaced w q ?s2))" for q by (rule same_conns_trans [OF _ end_replaced_bounds(2)])
  moreover have "sess_ok c (snd (end_replaced w q ?s2))" for q
    using b(1) assms(1) by (simp add: sess_ok_def end_replaced_bounds)
  ultimately show ?thesis using r b assms(1)
    by (auto simp: join_register_def Let_def split_beta sess_ok_def split: option.split)
qed

lemma join_finish_bounds:
  assumes "sess_ok c s"
  shows "sess_ok c (snd (join_finish S c now rnd w j s)) \<and> same_conns s (snd (join_finish S c now rnd w j s))"
proof (cases "jm_get (tk_objects s) w")
  case None
  then show ?thesis using assms by (simp add: join_finish_def Let_def sess_ok_def)
next
  case (Some conn)
  let ?s1 = "set_conn w (conn\<lparr>cn_nonce := []\<rparr>) (s\<lparr>tk_waiting := remove1 (w, j) (tk_waiting s)\<rparr>)"
  have s1: "same_conns s ?s1" using Some by (intro same_conns_set) auto
  have "sess_ok c ?s1" using assms by (simp add: sess_ok_def)
  from join_register_bounds [OF this, of w "conn\<lparr>cn_nonce := []\<rparr>" "conn\<lparr>cn_nonce := []\<rparr>" now rnd j]
  have "sess_ok c (snd (join_register c now rnd w (conn\<lparr>cn_nonce := []\<rparr>) j ?s1))"
    "same_conns s (snd (join_register c now rnd w (conn\<lparr>cn_nonce := []\<rparr>) j ?s1))"
    using same_conns_trans [OF s1] by simp_all
  then show ?thesis using Some s1 assms by (simp add: join_finish_def Let_def sess_ok_def)
qed

lemma accept_conns:
  assumes "conns_ok c s" "\<not> jm_has (tk_objects s) w"
  shows "conns_ok c (snd (tk_accept c w a h s))"
proof -
  let ?n = "case jm_get (tk_perAddress s) a of None \<Rightarrow> 0 | Some n \<Rightarrow> n" and ?s = "snd (tk_accept c w a h s)"
  have new: "w \<notin> set (tk_live s)" using assms by (auto simp: conns_ok_def)
  show ?thesis
  proof (cases "?n \<ge> tc_maxPerAddress c")
    case True
    then show ?thesis by (intro conns_ok_same [OF assms(1)]) (simp add: tk_accept_def Let_def)
  next
    case False
    then have l: "tk_live ?s = tk_live s @ [w]" "tk_perAddress ?s = jm_set a (?n + 1) (tk_perAddress s)"
      using new by (simp_all add: tk_accept_def Let_def js_add_def)
    have ad: "addr_of ?s v = (if v = w then Some a else addr_of s v)" for v
      using False by (simp add: tk_accept_def Let_def addr_of_def)
    have "filter (\<lambda>v. addr_of ?s v = Some b) (tk_live s) = filter (\<lambda>v. addr_of s v = Some b) (tk_live s)" for b
      using new by (intro filter_cong) (auto simp: ad)
    then have n: "conns_from ?s b = conns_from s b + (if b = a then 1 else 0)" for b
      by (simp add: conns_from_def l ad)
    have has: "jm_has (tk_objects ?s) v \<longleftrightarrow> v = w \<or> jm_has (tk_objects s) v" for v
      using False by (simp add: tk_accept_def Let_def)
    have na: "int (conns_from s a) = ?n" using assms(1) by (simp add: conns_ok_def)
    show ?thesis unfolding conns_ok_def n l
      using assms(1) new False na by (auto simp: conns_ok_def has max_def)
  qed
qed

lemma filter_removeAll: "distinct xs \<Longrightarrow> w \<in> set xs \<Longrightarrow>
    int (length (filter P (removeAll w xs))) = int (length (filter P xs)) - (if P w then 1 else 0)"
proof (induction xs)
  case (Cons x xs)
  then show ?case by (cases "x = w") auto
qed simp

lemma release_conns:
  assumes "conns_ok c s" "jm_get (tk_objects s) w = Some conn"
  shows "conns_ok c (tk_release w conn s)"
proof (cases "w \<in> set (tk_live s)")
  case True
  let ?a = "cn_address conn" and ?s = "tk_release w conn s"
  let ?left = "(case jm_get (tk_perAddress s) ?a of None \<Rightarrow> 1 | Some n \<Rightarrow> n) - 1"
  have l: "tk_live ?s = removeAll w (tk_live s)" using True by (simp add: tk_release_def Let_def)
  have ad: "addr_of ?s v = addr_of s v" for v using True assms(2) by (simp add: tk_release_def Let_def addr_of_def)
  have w: "addr_of s w = Some ?a" using assms(2) by (simp add: addr_of_def)
  have has: "jm_has (tk_objects ?s) v \<longleftrightarrow> jm_has (tk_objects s) v" for v
    using assms(2) by (auto simp: tk_release_def Let_def jm_has_def)
  have d: "distinct (tk_live s)" using assms(1) by (simp add: conns_ok_def)
  have n: "int (conns_from ?s b) = int (conns_from s b) - (if b = ?a then 1 else 0)" for b
    using filter_removeAll [OF d True] by (simp add: conns_from_def l ad w)
  have c: "int (conns_from s b) = (case jm_get (tk_perAddress s) b of None \<Rightarrow> 0 | Some n \<Rightarrow> n)" for b
    using assms(1) by (simp add: conns_ok_def)
  have pos: "0 \<le> int (conns_from s ?a) - 1" using n [of ?a] by simp
  have left: "?left = int (conns_from s ?a) - 1" using c [of ?a] pos by (simp split: option.splits)
  have p: "tk_perAddress ?s = (if ?left \<le> 0 then jm_del ?a (tk_perAddress s) else jm_set ?a ?left (tk_perAddress s))"
    using True by (simp add: tk_release_def Let_def)
  have "int (conns_from ?s b) = (case jm_get (tk_perAddress ?s) b of None \<Rightarrow> 0 | Some n \<Rightarrow> n)" for b
    unfolding n p left using c [of b] pos by auto
  moreover have "int (conns_from ?s b) \<le> max 0 (tc_maxPerAddress c)" for b
    using n [of b] assms(1) by (auto simp: conns_ok_def) (smt (verit) )
  moreover have "distinct (removeAll w (tk_live s))" using d by (simp add: distinct_removeAll)
  ultimately show ?thesis using assms(1) unfolding conns_ok_def l has by auto
next
  case False
  then show ?thesis using assms(1) by (simp add: tk_release_def)
qed

definition tk_bounds :: "tracker_cfg \<Rightarrow> tracker \<Rightarrow> bool" where
  "tk_bounds c s \<longleftrightarrow> sess_ok c s \<and> conns_ok c s"

lemma tk_exec_bounds:
  assumes "tk_bounds c s" "tk_enabled ev s"
  shows "tk_bounds c (snd (tk_exec S c now ev s))"
proof -
  have b: "sess_ok c s" "conns_ok c s" using assms(1) by (simp_all add: tk_bounds_def)
  have easy: "tk_bounds c s'" if "tk_sessions s' = tk_sessions s" "same_conns s s'" for s'
    using b that by (simp add: tk_bounds_def conns_ok_same sess_ok_same)
  have mid: "tk_bounds c s'" if "sess_ok c s'" "same_conns s s'" for s'
    using b that by (simp add: tk_bounds_def conns_ok_same)
  show ?thesis
  proof (cases ev)
    case (EvAccept w a h)
    then show ?thesis using accept_conns [OF b(2), of w a h] assms(2) b(1)
      by (simp add: tk_bounds_def tk_accept_def Let_def sess_ok_def)
  next
    case (EvGreet w n)
    then show ?thesis
      by (intro easy) (auto simp: tk_greeting_def Let_def intro: same_conns_set split: option.split)
  next
    case (EvTimeout w)
    then show ?thesis
      by (intro easy) (auto simp: handshakeTimeout_def Let_def intro: same_conns_set split: option.split)
  next
    case (EvMessage w raw)
    then show ?thesis
      by (intro easy) (simp_all add: tk_handleMessage_def join_begin_def tk_handleRelay_def Let_def split_beta
          split: option.split client_msg.split)
  next
    case (EvJoin w j r)
    then show ?thesis using join_finish_bounds [OF b(1)] by (intro mid) simp_all
  next
    case (EvClose w)
    have s: "sess_ok c (snd (tk_closed w s))"
      using b(1) session_closed_wf [of "tk_sessions s"] order_trans
      by (auto simp: tk_closed_def tk_release_def Let_def sess_ok_def split: option.split intro: order_trans)
    show ?thesis
    proof (cases "jm_get (tk_objects s) w")
      case None
      then show ?thesis using s EvClose by (intro mid) (simp_all add: tk_closed_def Let_def)
    next
      case (Some conn)
      have "conns_ok c (not_open w s)" by (rule conns_ok_same [OF b(2)]) simp
      from release_conns [OF this, of w conn] Some have "conns_ok c (tk_release w conn (not_open w s))" by simp
      then have "conns_ok c (snd (tk_closed w s))"
        by (rule conns_ok_same) (simp add: tk_closed_def Let_def Some)
      then show ?thesis using s EvClose by (simp add: tk_bounds_def)
    qed
  next
    case (EvPong w)
    then show ?thesis using b(1) session_pong_wf [of "tk_sessions s"]
      by (intro mid) (simp_all add: tk_pong_def sess_ok_def)
  next
    case EvCleanup
    have "length (filter P (tk_sessions s)) \<le> tc_maxSessions c" for P
      using b(1) order_trans [OF length_filter_le [of P "tk_sessions s"]] by (simp add: sess_ok_def)
    then show ?thesis using b(1) EvCleanup by (intro mid) (simp_all add: cleanupPings_def sess_ok_def)
  next
    case EvShutdown
    then show ?thesis using b
      by (auto simp: tk_shutdown_def tk_bounds_def sess_ok_def conns_ok_def conns_from_def)
  qed
qed

lemma tk_run_bounds: "tk_run S c tr s \<Longrightarrow> tk_bounds c s"
proof (induction rule: tk_run.induct)
  case start
  show ?case by (simp add: tk_bounds_def sess_ok_def conns_ok_def conns_from_def tracker_init_def)
next
  case (step tr s ev now e s')
  then show ?case using tk_exec_bounds [OF step.IH step.hyps(2), of S now] by simp
qed

lemma shuffle_down_mset: "(\<And>i n. 0 < n \<Longrightarrow> f i n < n) \<Longrightarrow> k < length xs \<or> xs = [] \<Longrightarrow> mset (shuffle_down f k xs) = mset xs"
proof (induction f k xs rule: shuffle_down.induct)
  case (2 f i xs)
  show ?case
  proof (cases "xs = []")
    case True
    have "shuffle_down f i [] = ([] :: 'a list)" by (induction i) (simp_all add: Let_def)
    then show ?thesis by (simp add: True Let_def)
  next
    case False
    let ?j = "f (Suc i) (Suc i + 1)"
    have l: "Suc i < length xs" using "2.prems" False by simp
    have "?j < Suc i + 1" using "2.prems"(1) [of "Suc i + 1" "Suc i"] by simp
    then have "?j < length xs" using l by simp
    then have "mset (xs[Suc i := xs ! ?j, ?j := xs ! Suc i]) = mset xs" using l by (simp add: mset_swap)
    moreover have "mset (shuffle_down f i (xs[Suc i := xs ! ?j, ?j := xs ! Suc i])) = mset (xs[Suc i := xs ! ?j, ?j := xs ! Suc i])"
      using l "2.prems"(1) by (intro "2.IH") simp_all
    ultimately show ?thesis by (simp add: Let_def)
  qed
qed simp

text \<open>Introduced peers are registered ones, each once, never the one they are introduced to, and at most as many
  as asked for.\<close>

lemma getRandomPeers_members:
  assumes "jm_wf (tk_sessions s)" "\<And>i n. 0 < n \<Longrightarrow> f i n < n"
  shows "set (getRandomPeers p k f s) \<subseteq> set (jm_keys (tk_sessions s)) - {p}" "distinct (getRandomPeers p k f s)"
    "length (getRandomPeers p k f s) \<le> k"
proof -
  let ?ids = "filter (\<lambda>q. q \<noteq> p) (jm_keys (tk_sessions s))"
  have m: "mset (shuffle_down f (length ?ids - 1) ?ids) = mset ?ids"
    by (rule shuffle_down_mset [OF assms(2)]) (cases ?ids; simp)+
  then have "distinct (shuffle_down f (length ?ids - 1) ?ids)"
    using assms(1) by (metis distinct_filter jm_wf_def mset_eq_imp_distinct_iff)
  then show "distinct (getRandomPeers p k f s)" by (simp add: getRandomPeers_def Let_def)
  have "set (getRandomPeers p k f s) \<subseteq> set (shuffle_down f (length ?ids - 1) ?ids)"
    unfolding getRandomPeers_def Let_def by (rule set_take_subset)
  also have "\<dots> = set ?ids" by (rule mset_eq_setD [OF m])
  also have "\<dots> \<subseteq> set (jm_keys (tk_sessions s)) - {p}" by auto
  finally show "set (getRandomPeers p k f s) \<subseteq> set (jm_keys (tk_sessions s)) - {p}" .
qed (simp add: getRandomPeers_def Let_def)


subsection \<open>An honest registration\<close>

text \<open>The four steps of a new node: it connects, is greeted, sends its join, and the join is handled.\<close>

definition registering :: "ws \<Rightarrow> string \<Rightarrow> string option \<Rightarrow> bytes \<Rightarrow> string \<Rightarrow> tracker_join \<Rightarrow> (nat \<Rightarrow> nat \<Rightarrow> nat) \<Rightarrow> tk_event list" where
  "registering w a h nonce raw j f = [EvAccept w a h, EvGreet w nonce, EvMessage w (Some raw), EvJoin w j f]"

fun tk_execs :: "sodium \<Rightarrow> tracker_cfg \<Rightarrow> int \<Rightarrow> tk_event list \<Rightarrow> tracker \<Rightarrow> tk_trace \<times> tracker" where
  "tk_execs S c now [] s = ([], s)"
| "tk_execs S c now (ev # evs) s =
     (case tk_exec S c now ev s of (e, s') \<Rightarrow> (case tk_execs S c now evs s' of (tr, s'') \<Rightarrow> ((ev, e) # tr, s'')))"

fun tk_enableds :: "sodium \<Rightarrow> tracker_cfg \<Rightarrow> int \<Rightarrow> tk_event list \<Rightarrow> tracker \<Rightarrow> bool" where
  "tk_enableds S c now [] s = True"
| "tk_enableds S c now (ev # evs) s \<longleftrightarrow> tk_enabled ev s \<and> tk_enableds S c now evs (snd (tk_exec S c now ev s))"

lemma tk_run_execs:
  "tk_run S c tr s \<Longrightarrow> tk_enableds S c now evs s \<Longrightarrow> tk_run S c (tr @ fst (tk_execs S c now evs s)) (snd (tk_execs S c now evs s))"
proof (induction evs arbitrary: tr s)
  case (Cons ev evs)
  obtain e s' where e: "tk_exec S c now ev s = (e, s')" by fastforce
  have "tk_run S c (tr @ [(ev, e)]) s'" using Cons.prems e by (auto intro: tk_run.step)
  from Cons.IH [OF this] show ?case using Cons.prems e by (simp add: split_beta)
qed simp

definition free_to_join :: "tracker_cfg \<Rightarrow> ws \<Rightarrow> string \<Rightarrow> tracker \<Rightarrow> bool" where
  "free_to_join c w a s \<longleftrightarrow>
     \<not> tk_stopped s \<and> \<not> jm_has (tk_objects s) w \<and> w \<notin> set (tk_greet s) \<and> (\<forall>j. (w, j) \<notin> set (tk_waiting s)) \<and>
     (case jm_get (tk_perAddress s) a of None \<Rightarrow> 0 | Some n \<Rightarrow> n) < tc_maxPerAddress c \<and>
     length (tk_sessions s) < tc_maxSessions c \<and>
     jm_get (rl_buckets (tk_rate s)) (bucket_key ''join'' (CHR ''c'' # nat_digits 10 (tk_connSeq s + 1))) = None"

definition honest_join :: "sodium \<Rightarrow> tracker_cfg \<Rightarrow> string option \<Rightarrow> bytes \<Rightarrow> tracker_join \<Rightarrow> bool" where
  "honest_join S c h nonce j \<longleftrightarrow>
     tj_v j = 2 \<and> length nonce = 32 \<and> host_ok c (normalizeHostHeader h) j \<and>
     verifyClaim S (tj_claim j) (tc_pow c) \<and> join_signed S nonce j"

lemma rate_allow_fresh:
  assumes "jm_get (rl_buckets r) (bucket_key ''join'' i) = None"
  shows "fst (rate_allow TRACKER_LIMITS now i ''join'' r)"
  using assms by (simp add: rate_allow_def TRACKER_LIMITS_def)

lemma accept_free:
  assumes "free_to_join c w a s"
  obtains conn s1 where "tk_exec S c now (EvAccept w a h) s = ([], s1)"
    "jm_get (tk_objects s1) w = Some conn" "conn = \<lparr>cn_id = CHR ''c'' # nat_digits 10 (tk_connSeq s + 1), cn_nonce = [],
      cn_host = normalizeHostHeader h, cn_address = a, cn_peerId = None, cn_timer = True\<rparr>"
    "w \<in> set (tk_open s1)" "tk_sessions s1 = tk_sessions s" "tk_rate s1 = tk_rate s" "w \<in> set (tk_greet s1)"
  using assms that by (simp add: free_to_join_def tk_accept_def Let_def)

lemma greeting_open:
  assumes "jm_get (tk_objects s) w = Some conn" "w \<in> set (tk_open s)"
  obtains e s1 where "tk_exec S c now (EvGreet w nonce) s = (e, s1)"
    "jm_get (tk_objects s1) w = Some (conn\<lparr>cn_nonce := nonce\<rparr>)" "w \<in> set (tk_open s1)"
    "tk_sessions s1 = tk_sessions s" "tk_rate s1 = tk_rate s"
  using assms that by (simp add: tk_greeting_def Let_def)

lemma message_join:
  assumes "jm_get (tk_objects s) w = Some conn" "parseTrackerClientMessage raw = Some (TJoin j)"
    "jm_get (rl_buckets (tk_rate s)) (bucket_key ''join'' (cn_id conn)) = None"
  obtains s1 where "tk_exec S c now (EvMessage w (Some raw)) s = ([], s1)"
    "jm_get (tk_objects s1) w = Some conn" "tk_open s1 = tk_open s" "tk_sessions s1 = tk_sessions s"
    "(w, j) \<in> set (tk_waiting s1)"
proof -
  obtain ok s1 where r: "tk_rate_allow now (cn_id conn) ''join'' s = (ok, s1)" by fastforce
  have "fst (tk_rate_allow now (cn_id conn) ''join'' s)"
    using rate_allow_fresh [OF assms(3)] by (simp add: tk_rate_allow_def split_beta)
  then have "ok" using r by simp
  moreover have "tk_objects s1 = tk_objects s" "tk_open s1 = tk_open s" "tk_sessions s1 = tk_sessions s"
    using rate_simps(1,2,4) [of now "cn_id conn" "''join''" s] r by simp_all
  ultimately show ?thesis using assms(1,2) r
    by (intro that [of "s1\<lparr>tk_waiting := tk_waiting s1 @ [(w, j)]\<rparr>"])
      (simp_all add: tk_handleMessage_def join_begin_def)
qed

lemma end_replaced_keeps:
  assumes "w \<in> set (tk_open s)"
  shows "w \<in> set (tk_open (snd (end_replaced w r s)))" "tk_sessions (snd (end_replaced w r s)) = tk_sessions s"
    "jm_get (tk_objects (snd (end_replaced w r s))) w = jm_get (tk_objects s) w"
  using assms by (auto simp: end_replaced_def not_open_def split: option.split)

lemma register_session:
  assumes "length (tk_sessions s) < tc_maxSessions c"
  obtains r s1 where "registerSession c now w pid s = (Some r, s1)"
    "jm_get (tk_sessions s1) pid = Some \<lparr>ss_ws = w, ss_lastActive = now\<rparr>" "tk_open s1 = tk_open s" "tk_objects s1 = tk_objects s"
proof (cases "map_option ss_ws (jm_get (tk_sessions s) pid) = Some w")
  case True
  then show ?thesis
    by (intro that [of None "s\<lparr>tk_sessions := jm_set pid \<lparr>ss_ws = w, ss_lastActive = now\<rparr> (tk_sessions s)\<rparr>"])
      (auto simp: registerSession_def Let_def)
next
  case False
  then show ?thesis using assms
    by (intro that [of "map_option ss_ws (jm_get (tk_sessions s) pid)"
        "s\<lparr>tk_sessions := jm_set pid \<lparr>ss_ws = w, ss_lastActive = now\<rparr> (tk_sessions s), tk_listeners := tk_listeners s @ [(w, pid)]\<rparr>"])
      (auto simp: registerSession_def Let_def)
qed

lemma finish_honest:
  assumes "jm_get (tk_objects s) w = Some conn" "w \<in> set (tk_open s)" "length (tk_sessions s) < tc_maxSessions c"
    "cn_peerId conn = None" "cn_nonce conn = nonce" "cn_host conn = normalizeHostHeader h" "honest_join S c h nonce j"
  obtains e s1 where "tk_exec S c now (EvJoin w j f) s = (e, s1)"
    "map_option ss_ws (jm_get (tk_sessions s1) (tj_peerId j)) = Some w"
    "map_option cn_peerId (jm_get (tk_objects s1) w) = Some (Some (tj_peerId j))" "w \<in> set (tk_open s1)"
    "\<exists>ps. TkSend w (TPeers ps) \<in> set e"
proof -
  let ?s = "set_conn w (conn\<lparr>cn_nonce := []\<rparr>) (s\<lparr>tk_waiting := remove1 (w, j) (tk_waiting s)\<rparr>)"
  have n: "nonce \<noteq> []" using assms(7) by (auto simp: honest_join_def)
  have sess: "length (tk_sessions ?s) < tc_maxSessions c" using assms(3) by simp
  obtain r s1 where r: "registerSession c now w (tj_peerId j) ?s = (Some r, s1)"
    "jm_get (tk_sessions s1) (tj_peerId j) = Some \<lparr>ss_ws = w, ss_lastActive = now\<rparr>" "tk_open s1 = tk_open ?s"
    by (rule register_session [OF sess])
  let ?s2 = "set_conn w (conn\<lparr>cn_nonce := [], cn_peerId := Some (tj_peerId j), cn_timer := False\<rparr>) s1"
  have o: "w \<in> set (tk_open ?s2)" using assms(2) r(3) by simp
  note k = end_replaced_keeps [OF o, of r]
  let ?s3 = "snd (end_replaced w r ?s2)"
  have "tk_exec S c now (EvJoin w j f) s = join_register c now f w (conn\<lparr>cn_nonce := []\<rparr>) j ?s"
    using assms n by (simp add: join_finish_def Let_def honest_join_def)
  also have "\<dots> = (fst (end_replaced w r ?s2) @ tk_send w (TPeers (getRandomPeers (tj_peerId j) (tc_peersPerJoin c) f ?s3)) ?s3, ?s3)"
    using r(1) by (simp add: join_register_def Let_def split_beta)
  finally show ?thesis using k r(2) by (intro that) (auto simp: tk_send_def)
qed

lemma honest_join_runs:
  assumes "free_to_join c w a s" "honest_join S c h nonce j" "parseTrackerClientMessage raw = Some (TJoin j)"
  shows "tk_enableds S c now (registering w a h nonce raw j f) s \<and>
    (case tk_execs S c now (registering w a h nonce raw j f) s of (tr, s') \<Rightarrow>
       map_option ss_ws (jm_get (tk_sessions s') (tj_peerId j)) = Some w \<and>
       map_option cn_peerId (jm_get (tk_objects s') w) = Some (Some (tj_peerId j)) \<and> w \<in> set (tk_open s') \<and>
       (\<exists>ps. TkSend w (TPeers ps) \<in> set (snd (last tr))))"
proof -
  obtain conn s1 where 1: "tk_exec S c now (EvAccept w a h) s = ([], s1)"
    "jm_get (tk_objects s1) w = Some conn" "conn = \<lparr>cn_id = CHR ''c'' # nat_digits 10 (tk_connSeq s + 1), cn_nonce = [],
      cn_host = normalizeHostHeader h, cn_address = a, cn_peerId = None, cn_timer = True\<rparr>"
    "w \<in> set (tk_open s1)" "tk_sessions s1 = tk_sessions s" "tk_rate s1 = tk_rate s" "w \<in> set (tk_greet s1)"
    by (rule accept_free [OF assms(1)])
  obtain e2 s2 where 2: "tk_exec S c now (EvGreet w nonce) s1 = (e2, s2)"
    "jm_get (tk_objects s2) w = Some (conn\<lparr>cn_nonce := nonce\<rparr>)" "w \<in> set (tk_open s2)"
    "tk_sessions s2 = tk_sessions s1" "tk_rate s2 = tk_rate s1"
    by (rule greeting_open [OF 1(2,4)])
  have "jm_get (rl_buckets (tk_rate s2)) (bucket_key ''join'' (cn_id (conn\<lparr>cn_nonce := nonce\<rparr>))) = None"
    using assms(1) 1 2 by (simp add: free_to_join_def)
  from message_join [OF 2(2) assms(3) this, of S c now] obtain s3 where
    3: "tk_exec S c now (EvMessage w (Some raw)) s2 = ([], s3)"
    "jm_get (tk_objects s3) w = Some (conn\<lparr>cn_nonce := nonce\<rparr>)" "tk_open s3 = tk_open s2" "tk_sessions s3 = tk_sessions s2"
    "(w, j) \<in> set (tk_waiting s3)" by blast
  have "length (tk_sessions s3) < tc_maxSessions c" using assms(1) 1 2 3 by (simp add: free_to_join_def)
  from finish_honest [OF 3(2) _ this _ _ _ assms(2), of now f] obtain e4 s4 where
    4: "tk_exec S c now (EvJoin w j f) s3 = (e4, s4)"
    "map_option ss_ws (jm_get (tk_sessions s4) (tj_peerId j)) = Some w"
    "map_option cn_peerId (jm_get (tk_objects s4) w) = Some (Some (tj_peerId j))" "w \<in> set (tk_open s4)"
    "\<exists>ps. TkSend w (TPeers ps) \<in> set e4"
    using 1(3) 2(3) 3(3) by auto
  have "tk_enableds S c now (registering w a h nonce raw j f) s"
    using assms(1,2) 1 2 3 by (simp add: registering_def free_to_join_def honest_join_def)
  moreover have "tk_execs S c now (registering w a h nonce raw j f) s =
      ([(EvAccept w a h, []), (EvGreet w nonce, e2), (EvMessage w (Some raw), []), (EvJoin w j f, e4)], s4)"
    using 1(1) 2(1) 3(1) 4(1) by (simp add: registering_def)
  ultimately show ?thesis using 4 by simp
qed

text \<open>An honest node gets in: when the tracker has room, a node that connects, answers the greeting it got on
  this connection with a join for this tracker signed by its own bound identity, and whose join is then handled,
  is registered under its identifier on this connection and is sent peers. Whoever was registered under that
  identifier before on another connection is replaced: it was the same node, or could not have registered.\<close>

theorem honest_join_registers:
  assumes "free_to_join c w a s" "honest_join S c h nonce j" "parseTrackerClientMessage raw = Some (TJoin j)"
  shows "tk_enableds S c now (registering w a h nonce raw j f) s \<and>
    (case tk_execs S c now (registering w a h nonce raw j f) s of (tr, s') \<Rightarrow>
       map_option ss_ws (jm_get (tk_sessions s') (tj_peerId j)) = Some w \<and>
       map_option cn_peerId (jm_get (tk_objects s') w) = Some (Some (tj_peerId j)) \<and> w \<in> set (tk_open s') \<and>
       (\<exists>ps. TkSend w (TPeers ps) \<in> set (snd (last tr))))"
  using assms by (rule honest_join_runs)

subsection \<open>Two nodes, computed\<close>

definition toy_tracker_cfg :: tracker_cfg where
  "toy_tracker_cfg = tracker_options NODE_ID_POW None 2 120000 16 8"

text \<open>A hash that gives different identifiers to different keys.\<close>

definition id_sodium :: sodium where
  "id_sodium = toy_sodium\<lparr>sha256 := (\<lambda>m. pad_to 32 (drop 16 m))\<rparr>"

definition toy_join :: "byte \<Rightarrow> bytes \<Rightarrow> tracker_join" where
  "toy_join b nonce =
     \<lparr>tj_v = 2, tj_peerId = toHex (replicate 16 b), tj_pubkey = toHex (replicate 32 b), tj_powCounter = 0, tj_host = ''t'',
      tj_sig = toHex (pad_to 64 (replicate 32 b @ pad_to 32 (TRACKER_JOIN_DOMAIN @ nonce)))\<rparr>"

definition toy_raw :: "byte \<Rightarrow> bytes \<Rightarrow> string" where
  "toy_raw b nonce = tracker_text (\<lambda>_. []) (client_obj (TJoin (toy_join b nonce)))"

lemma toy_join_ok: "client_msg_ok (TJoin (toy_join b nonce))"
  using hex_re_toHex [of "replicate 16 b"] hex_re_toHex [of "replicate 32 b"]
    hex_re_toHex [of "pad_to 64 (replicate 32 b @ pad_to 32 (TRACKER_JOIN_DOMAIN @ nonce))"]
  by (simp add: toy_join_def max_safe_def host_re_def host_char_def port_re_def)

lemma toy_raw_parses: "parseTrackerClientMessage (toy_raw b nonce) = Some (TJoin (toy_join b nonce))"
  unfolding toy_raw_def using toy_join_ok join_text_short
  by (intro client_text_parses) simp_all

lemma toy_join_message: "length nonce = 32 \<Longrightarrow> \<exists>m. trackerJoinMessage nonce (tj_peerId (toy_join b nonce)) ''t'' = Inr m \<and>
    pad_to 32 m = pad_to 32 (TRACKER_JOIN_DOMAIN @ nonce)"
proof -
  assume n: "length nonce = 32"
  obtain x where a: "lengthPrefixed (tj_peerId (toy_join b nonce)) = Inr x"
    using lengthPrefixed_short [of "tj_peerId (toy_join b nonce)"] length_utf8 [of "tj_peerId (toy_join b nonce)"]
    by (auto simp: toy_join_def len_simps)
  obtain y where b: "lengthPrefixed (toLowerCase ''t'') = Inr y"
    using lengthPrefixed_short [of "toLowerCase ''t''"] length_utf8 [of "toLowerCase ''t''"] by (auto simp: toLowerCase_def)
  have l: "32 \<le> length (TRACKER_JOIN_DOMAIN @ nonce)" using n by simp
  have "pad_to 32 (TRACKER_JOIN_DOMAIN @ nonce @ x @ y) = pad_to 32 (TRACKER_JOIN_DOMAIN @ nonce)"
    using l by (simp add: pad_to_def)
  then show ?thesis using a b n by (simp add: trackerJoinMessage_def)
qed

lemma toy_honest: "length nonce = 32 \<Longrightarrow> honest_join id_sodium toy_tracker_cfg (Some ''t'') nonce (toy_join b nonce)"
proof -
  assume n: "length nonce = 32"
  have h: "normalizeHostHeader (Some ''t'') = Some ''t''"
    by (simp add: normalizeHostHeader_def Let_def trim_def is_ws_def toLowerCase_def lower_char_def host_re_def host_char_def
        port_re_def strip_default_port_def)
  have "host_ok toy_tracker_cfg (normalizeHostHeader (Some ''t'')) (toy_join b nonce)"
    by (simp add: host_ok_def h toy_join_def toy_tracker_cfg_def tracker_options_def)
  moreover have "derivePeerId id_sodium (replicate 32 b) = toHex (replicate 16 b)"
    by (simp add: derivePeerId_def id_sodium_def PEER_ID_DOMAIN_def pad_to_def utf8_char_def numeral_eq_Suc)
  then have "verifyClaim id_sodium (tj_claim (toy_join b nonce)) (tc_pow toy_tracker_cfg)"
    using hex_re_toHex [of "replicate 16 b"]
    by (simp add: verifyClaim_def tj_claim_def toy_join_def toy_tracker_cfg_def tracker_options_def
        hex_re_def NODE_ID_POW_def nodeIdPowHash_def) (simp add: id_sodium_def toy_sodium_def meetsDifficulty_def)
  moreover have "join_signed id_sodium nonce (toy_join b nonce)"
    using toy_join_message [OF n, of b] by (auto simp: join_signed_def toy_join_def id_sodium_def toy_sodium_def)
  ultimately show ?thesis using n by (simp add: honest_join_def toy_join_def)
qed

lemma toy_free: "free_to_join toy_tracker_cfg 1 ''a'' tracker_init"
  by (simp add: free_to_join_def toy_tracker_cfg_def tracker_options_def tracker_init_def rate_init_def)

abbreviation toy_nonce :: bytes where "toy_nonce \<equiv> replicate 32 7"

definition toy_conn :: "nat \<Rightarrow> string \<Rightarrow> byte \<Rightarrow> tk_connection" where
  "toy_conn k a b = \<lparr>cn_id = CHR ''c'' # nat_digits 10 k, cn_nonce = [], cn_host = Some ''t'', cn_address = a,
     cn_peerId = Some (toHex (replicate 16 b)), cn_timer = False\<rparr>"

definition toy_limits :: "nat \<Rightarrow> string \<times> bucket" where
  "toy_limits k = (bucket_key ''join'' (CHR ''c'' # nat_digits 10 k), \<lparr>bk_tokens = 2, bk_lastRefill = 0\<rparr>)"

definition toy_state1 :: tracker where
  "toy_state1 =
     \<lparr>tk_sessions = [(toHex (replicate 16 1), \<lparr>ss_ws = 1, ss_lastActive = 0\<rparr>)], tk_objects = [(1, toy_conn 1 ''a'' 1)],
      tk_live = [1], tk_perAddress = [(''a'', 1)], tk_rate = \<lparr>rl_buckets = [toy_limits 1], rl_dropped = []\<rparr>, tk_connSeq = 1,
      tk_stopped = False, tk_open = [1], tk_greet = [], tk_waiting = [], tk_listeners = [(1, toHex (replicate 16 1))]\<rparr>"

lemma toy_host: "normalizeHostHeader (Some ''t'') = Some ''t''"
  by (simp add: normalizeHostHeader_def Let_def trim_def is_ws_def toLowerCase_def lower_char_def host_re_def host_char_def
      port_re_def strip_default_port_def)

lemma toy_run1:
  "snd (tk_execs id_sodium toy_tracker_cfg 0
     (registering 1 ''a'' (Some ''t'') toy_nonce (toy_raw 1 toy_nonce) (toy_join 1 toy_nonce) (\<lambda>_ _. 0)) tracker_init) = toy_state1"
proof -
  have "tj_peerId (toy_join 1 toy_nonce) = toHex (replicate 16 1)" "tj_v (toy_join 1 toy_nonce) = 2" by (simp_all add: toy_join_def)
  moreover have "toy_nonce \<noteq> []" by (simp add: numeral_eq_Suc)
  moreover note toy_honest [of toy_nonce 1, unfolded honest_join_def toy_host]
  ultimately show ?thesis
    unfolding registering_def toy_state1_def toy_conn_def toy_limits_def
    by (simp add: tracker_init_def tk_accept_def toy_tracker_cfg_def tracker_options_def tk_greeting_def tk_send_def
        tk_handleMessage_def toy_raw_parses join_begin_def tk_rate_allow_def rate_allow_def TRACKER_LIMITS_def rate_init_def
        join_finish_def join_register_def registerSession_def end_replaced_def set_conn_def js_add_def toy_host Let_def
        getRandomPeers_def)
qed

lemma toy_two: "toHex (replicate 16 1) \<noteq> toHex (replicate 16 2)"
  by (simp add: numeral_eq_Suc)

lemma toy_other_bucket:
  "bucket_key ''join'' (CHR ''c'' # nat_digits 10 2) \<noteq> bucket_key ''join'' (CHR ''c'' # nat_digits 10 1)"
  by (simp add: bucket_key_def nat_digits_inject)

definition toy_state2 :: tracker where
  "toy_state2 = snd (tk_execs id_sodium toy_tracker_cfg 0
     (registering 2 ''b'' (Some ''t'') toy_nonce (toy_raw 2 toy_nonce) (toy_join 2 toy_nonce) (\<lambda>_ _. 0)) toy_state1)"

lemma toy_free2: "free_to_join toy_tracker_cfg 2 ''b'' toy_state1"
  using toy_other_bucket
  by (simp add: free_to_join_def toy_tracker_cfg_def tracker_options_def toy_state1_def toy_limits_def jm_has_iff numeral_2_eq_2 [symmetric])

lemma toy_run_2: "\<exists>tr. tk_run id_sodium toy_tracker_cfg tr toy_state2"
proof -
  have l: "length toy_nonce = 32" by simp
  note h1 = honest_join_runs [OF toy_free toy_honest [OF l, of 1] toy_raw_parses, of 0 "\<lambda>_ _. 0"]
  note h2 = honest_join_runs [OF toy_free2 toy_honest [OF l, of 2] toy_raw_parses, of 0 "\<lambda>_ _. 0"]
  note r1 = tk_run_execs [OF tk_run.start conjunct1 [OF h1], unfolded toy_run1]
  show ?thesis using tk_run_execs [OF r1 conjunct1 [OF h2]] by (auto simp: toy_state2_def)
qed

lemma toy_state2_facts:
  "jm_get (tk_objects toy_state2) 1 = Some (toy_conn 1 ''a'' 1)"
  "map_option ss_ws (jm_get (tk_sessions toy_state2) (toHex (replicate 16 2))) = Some 2"
  "2 \<in> set (tk_open toy_state2)" "rl_buckets (tk_rate toy_state2) = [toy_limits 1, toy_limits 2]"
proof -
  have "tj_peerId (toy_join 2 toy_nonce) = toHex (replicate 16 2)" "tj_v (toy_join 2 toy_nonce) = 2" by (simp_all add: toy_join_def)
  moreover have "toy_nonce \<noteq> []" by (simp add: numeral_eq_Suc)
  moreover note toy_honest [of toy_nonce 2, unfolded honest_join_def toy_host] toy_two toy_other_bucket
  ultimately show "jm_get (tk_objects toy_state2) 1 = Some (toy_conn 1 ''a'' 1)"
  "map_option ss_ws (jm_get (tk_sessions toy_state2) (toHex (replicate 16 2))) = Some 2"
  "2 \<in> set (tk_open toy_state2)" "rl_buckets (tk_rate toy_state2) = [toy_limits 1, toy_limits 2]"
    unfolding registering_def toy_state1_def toy_state2_def toy_limits_def
    by (simp_all add: tk_accept_def toy_tracker_cfg_def tracker_options_def tk_greeting_def tk_send_def
        tk_handleMessage_def toy_raw_parses join_begin_def tk_rate_allow_def rate_allow_def TRACKER_LIMITS_def
        join_finish_def join_register_def registerSession_def end_replaced_def set_conn_def js_add_def toy_host Let_def numeral_2_eq_2)
qed

theorem tracker_relay_authentic_witness:
  "\<exists>tr raw target. parseTrackerClientMessage raw = Some (TRelayOut target (JObj [])) \<and>
     proved id_sodium toy_tracker_cfg tr 1 (toHex (replicate 16 1)) \<and> proved id_sodium toy_tracker_cfg tr 2 target"
proof -
  obtain tr where r: "tk_run id_sodium toy_tracker_cfg tr toy_state2" using toy_run_2 by blast
  let ?m = "TRelayOut (toHex (replicate 16 2)) (JObj [])"
  let ?raw = "tracker_text (\<lambda>_. []) (client_obj ?m)"
  have "hex_re 32 (toHex (replicate 16 (2 :: byte)))" using hex_re_toHex [of "replicate 16 (2 :: byte)"] by simp
  then have ok: "client_msg_ok ?m" by (simp add: isPlainObject_def)
  have "length ?raw \<le> 65536"
    using length_json_quote [of "toHex (replicate 16 (2 :: byte))"]
    by (simp add: tracker_text_def) (simp add: json_quote_def json_char_def)
  then have p: "parseTrackerClientMessage ?raw = Some ?m" using client_text_parses [OF ok] by simp
  obtain ss where ss: "jm_get (tk_sessions toy_state2) (toHex (replicate 16 2)) = Some ss" "ss_ws ss = 2"
    using toy_state2_facts(2) by auto
  have "fst (tk_rate_allow 0 (CHR ''c'' # nat_digits 10 1) ''relay'' toy_state2)"
    using toy_state2_facts(4)
    by (simp add: tk_rate_allow_def split_beta rate_allow_def TRACKER_LIMITS_def toy_limits_def bucket_key_def)
  then obtain s1 where s1: "tk_rate_allow 0 (CHR ''c'' # nat_digits 10 1) ''relay'' toy_state2 = (True, s1)" by (metis prod.collapse)
  have "s1 = snd (tk_rate_allow 0 (CHR ''c'' # nat_digits 10 1) ''relay'' toy_state2)" unfolding s1 by simp
  then have "tk_sessions s1 = tk_sessions toy_state2" "tk_open s1 = tk_open toy_state2" by (simp_all only: rate_simps)
  then have e: "TkSend 2 (TRelayIn (toHex (replicate 16 1)) (JObj [])) \<in> set (fst (tk_exec id_sodium toy_tracker_cfg 0 (EvMessage 1 (Some ?raw)) toy_state2))"
    using toy_state2_facts(1,3) p ss s1 toy_two by (simp add: tk_handleMessage_def tk_handleRelay_def toy_conn_def tk_send_def)
  from tracker_relay_authentic [OF r prod.collapse [symmetric] e] show ?thesis by auto
qed


end
