(* ===== verification/Signaling.thy ===== *)
theory Signaling
  imports Tracker
begin

text \<open>
  The node's side of the tracker connection: \<open>packages/core/src/network/SignalingClient.ts\<close>. A socket is a
  number with a ready state; what the callbacks of one connection attempt share (phase, host, identity, whether
  its promise is settled) is its record in \<open>sg_attempts\<close>. The lemmas show that a node signs at most one join per
  connection, always for the host it set out to reach, that an abandoned connection is inert, and that what it
  sends registers it with an honest tracker.
\<close>

subsection \<open>State\<close>

datatype sg_phase = PHello | PJoining | PJoined

datatype sg_error =
    NotConfigured | NoIdentity | BadUrl url_error | JoinError string | ConnectTimeout | ConnectionError | ConnectionClosed

record attempt =
  at_generation :: nat
  at_host :: string
  at_identity :: node_identity
  at_phase :: sg_phase
  at_settled :: bool

record signaling =
  sg_url :: "url_parts option"
  sg_ws :: "ws option"
  sg_ready :: "(ws, nat) jsmap"
  sg_pending :: "ws option"
  sg_generation :: nat
  sg_attempts :: "(ws, attempt) jsmap"

datatype sg_eff =
    SgConnect ws url_parts | SgSend ws client_msg | SgClose ws | SgResolve ws | SgReject ws sg_error
  | SgPeers "peer_id list" | SgRelay peer_id jsval

datatype sg_outcome = Throws sg_error | Resolved | Awaits ws

type_synonym sg_step = "sg_eff list \<times> signaling"

definition WS_CONNECTING :: nat where [simp]: "WS_CONNECTING = 0"
definition WS_OPEN :: nat where [simp]: "WS_OPEN = 1"

definition signaling_init :: signaling where
  "signaling_init = \<lparr>sg_url = None, sg_ws = None, sg_ready = [], sg_pending = None, sg_generation = 0, sg_attempts = []\<rparr>"

definition isConnected :: "signaling \<Rightarrow> bool" where
  "isConnected s \<longleftrightarrow> (case sg_ws s of None \<Rightarrow> False | Some w \<Rightarrow> jm_get (sg_ready s) w = Some WS_OPEN)"

subsection \<open>Opening and closing\<close>

definition closeSocket :: "signaling \<Rightarrow> sg_step" where
  "closeSocket s =
     (case sg_ws s of
        None \<Rightarrow> ([], s\<lparr>sg_ws := None\<rparr>)
      | Some w \<Rightarrow>
          if jm_get (sg_ready s) w = Some WS_CONNECTING \<or> jm_get (sg_ready s) w = Some WS_OPEN
          then ([SgClose w], s\<lparr>sg_ws := None, sg_ready := jm_set w 2 (sg_ready s)\<rparr>)
          else ([], s\<lparr>sg_ws := None\<rparr>))"

definition sg_disconnect :: "signaling \<Rightarrow> sg_step" where
  "sg_disconnect s = closeSocket (s\<lparr>sg_generation := sg_generation s + 1, sg_pending := None\<rparr>)"

definition setUrl :: "(string \<Rightarrow> url_parts option) \<Rightarrow> string option \<Rightarrow> signaling \<Rightarrow> sg_error option \<times> sg_eff list \<times> signaling" where
  "setUrl url_parse url s =
     (case url of
        None \<Rightarrow> (case sg_disconnect s of (e, s) \<Rightarrow> (None, e, s\<lparr>sg_url := None\<rparr>))
      | Some u \<Rightarrow>
          (case parseTrackerUrl url_parse u of
             Inl reason \<Rightarrow> (Some (BadUrl reason), [], s)
           | Inr next_url \<Rightarrow> (case sg_disconnect s of (e, s) \<Rightarrow> (None, e, s\<lparr>sg_url := Some next_url\<rparr>))))"

text \<open>\<open>w\<close> is the new socket.\<close>

definition sg_connect :: "ws \<Rightarrow> node_identity option \<Rightarrow> signaling \<Rightarrow> sg_outcome \<times> sg_eff list \<times> signaling" where
  "sg_connect w identity s =
     (case sg_url s of
        None \<Rightarrow> (Throws NotConfigured, [], s)
      | Some url \<Rightarrow>
          if isConnected s then (Resolved, [], s)
          else
            (case sg_pending s of
               Some p \<Rightarrow> (Awaits p, [], s)
             | None \<Rightarrow>
                 (case identity of
                    None \<Rightarrow> (Throws NoIdentity, [], s)
                  | Some idn \<Rightarrow>
                      (case closeSocket s of (e, s) \<Rightarrow>
                        (Awaits w, e @ [SgConnect w url],
                         s\<lparr>sg_generation := sg_generation s + 1, sg_ws := Some w, sg_pending := Some w,
                           sg_ready := jm_set w WS_CONNECTING (sg_ready s),
                           sg_attempts := jm_set w \<lparr>at_generation = sg_generation s + 1, at_host = toLowerCase (up_host url),
                             at_identity = idn, at_phase = PHello, at_settled = False\<rparr> (sg_attempts s)\<rparr>)))))"

definition set_attempt :: "ws \<Rightarrow> attempt \<Rightarrow> signaling \<Rightarrow> signaling" where
  "set_attempt w a s = s\<lparr>sg_attempts := jm_set w a (sg_attempts s)\<rparr>"

definition sg_fail :: "sg_error \<Rightarrow> ws \<Rightarrow> signaling \<Rightarrow> sg_step" where
  "sg_fail err w s =
     (case jm_get (sg_attempts s) w of
        None \<Rightarrow> ([], s)
      | Some a \<Rightarrow>
          if at_settled a then ([], s)
          else
            (let s = set_attempt w (a\<lparr>at_settled := True\<rparr>) s;
                 (e, s) = (if sg_ws s = Some w then closeSocket s else ([], s)) in
             (e @ [SgReject w err], s)))"

text \<open>The \<open>finally\<close> of \<open>connect\<close>.\<close>

definition attempt_over :: "ws \<Rightarrow> signaling \<Rightarrow> signaling" where
  "attempt_over w s = (if sg_pending s = Some w then s\<lparr>sg_pending := None\<rparr> else s)"

subsection \<open>Messages\<close>

text \<open>The effect names the message; its text is \<open>tracker_text\<close>.\<close>

definition sendRaw :: "(rat \<Rightarrow> string) \<Rightarrow> ws \<Rightarrow> client_msg \<Rightarrow> signaling \<Rightarrow> sg_eff list" where
  "sendRaw fmt w msg s =
     (if jm_get (sg_ready s) w \<noteq> Some WS_OPEN then []
      else
        (let text = tracker_text fmt (client_obj msg) in
         if length text > TRACKER_MAX_FRAME_BYTES then [] else [SgSend w msg]))"

definition sendRelay :: "(rat \<Rightarrow> string) \<Rightarrow> jsval \<Rightarrow> jsval \<Rightarrow> signaling \<Rightarrow> sg_eff list" where
  "sendRelay fmt targetPeerId payload s =
     (case sg_ws s of
        None \<Rightarrow> []
      | Some w \<Rightarrow>
          if \<not> isPeerId targetPeerId \<or> \<not> is_object payload then []
          else sendRaw fmt w (TRelayOut (str_of targetPeerId) payload) s)"

definition join_of :: "sodium \<Rightarrow> node_identity \<Rightarrow> bytes \<Rightarrow> string \<Rightarrow> tracker_join res" where
  "join_of S idn nonce host =
     rbind (signTrackerJoin S idn nonce host) (\<lambda>sig.
       Inr \<lparr>tj_v = TRACKER_PROTOCOL_VERSION, tj_peerId = nid_peerId idn, tj_pubkey = toHex (nid_pubkey idn),
            tj_powCounter = nid_powCounter idn, tj_host = host, tj_sig = toHex sig\<rparr>)"

definition onHello :: "sodium \<Rightarrow> (rat \<Rightarrow> string) \<Rightarrow> ws \<Rightarrow> attempt \<Rightarrow> server_msg \<Rightarrow> signaling \<Rightarrow> sg_step" where
  "onHello S fmt w a msg s =
     (case msg of
        THello v nonce \<Rightarrow>
          if v \<noteq> TRACKER_PROTOCOL_VERSION then sg_fail (JoinError ''unsupported-version'') w s
          else
            (case join_of S (at_identity a) (fromHex nonce) (at_host a) of
               Inl _ \<Rightarrow> ([], s)
             | Inr join \<Rightarrow> (sendRaw fmt w (TJoin join) s, set_attempt w (a\<lparr>at_phase := PJoining\<rparr>) s))
      | _ \<Rightarrow> sg_fail (JoinError ''bad-message'') w s)"

definition sg_onmessage :: "sodium \<Rightarrow> (rat \<Rightarrow> string) \<Rightarrow> ws \<Rightarrow> string \<Rightarrow> signaling \<Rightarrow> sg_step" where
  "sg_onmessage S fmt w data s =
     (case jm_get (sg_attempts s) w of
        None \<Rightarrow> ([], s)
      | Some a \<Rightarrow>
          if at_generation a \<noteq> sg_generation s then ([], s)
          else
            (case parseTrackerServerMessage data of
               None \<Rightarrow> ([], s)
             | Some msg \<Rightarrow>
                 if at_phase a = PHello then onHello S fmt w a msg s
                 else
                   (case msg of
                      TError code \<Rightarrow> if at_phase a = PJoining then sg_fail (JoinError code) w s else ([], s)
                    | TPeers ps \<Rightarrow>
                        if at_phase a = PJoining
                        then ([SgResolve w, SgPeers ps], set_attempt w (a\<lparr>at_phase := PJoined, at_settled := True\<rparr>) s)
                        else ([SgPeers ps], s)
                    | TRelayIn sender payload \<Rightarrow> if at_phase a = PJoined then ([SgRelay sender payload], s) else ([], s)
                    | THello _ _ \<Rightarrow> ([], s))))"

definition sg_onerror :: "ws \<Rightarrow> signaling \<Rightarrow> sg_step" where
  "sg_onerror w s = sg_fail ConnectionError w s"

definition sg_ontimeout :: "ws \<Rightarrow> signaling \<Rightarrow> sg_step" where
  "sg_ontimeout w s = sg_fail ConnectTimeout w s"

definition sg_onclose :: "ws \<Rightarrow> signaling \<Rightarrow> sg_step" where
  "sg_onclose w s0 =
     (let s = s0\<lparr>sg_ready := jm_set w 3 (sg_ready s0)\<rparr>; (e, s) = sg_fail ConnectionClosed w s in
      (e, if sg_ws s = Some w then s\<lparr>sg_ws := None\<rparr> else s))"

text \<open>The socket has opened.\<close>

definition sg_onopen :: "ws \<Rightarrow> signaling \<Rightarrow> signaling" where
  "sg_onopen w s = (if jm_get (sg_ready s) w = Some WS_CONNECTING then s\<lparr>sg_ready := jm_set w WS_OPEN (sg_ready s)\<rparr> else s)"

subsection \<open>Runs\<close>

datatype sg_event =
    GSetUrl "string option" | GConnect ws "node_identity option" | GDisconnect | GOpen ws | GMessage ws string
  | GError ws | GTimeout ws | GClose ws | GOver ws | GRelay jsval jsval

fun sg_enabled :: "sg_event \<Rightarrow> signaling \<Rightarrow> bool" where
  "sg_enabled (GConnect w _) s \<longleftrightarrow> \<not> jm_has (sg_ready s) w \<and> \<not> jm_has (sg_attempts s) w"
| "sg_enabled (GOver w) s \<longleftrightarrow> (case jm_get (sg_attempts s) w of Some a \<Rightarrow> at_settled a | None \<Rightarrow> False)"
| "sg_enabled _ s \<longleftrightarrow> True"

fun sg_exec :: "sodium \<Rightarrow> (string \<Rightarrow> url_parts option) \<Rightarrow> (rat \<Rightarrow> string) \<Rightarrow> sg_event \<Rightarrow> signaling \<Rightarrow> sg_step" where
  "sg_exec S up fmt (GSetUrl u) s = snd (setUrl up u s)"
| "sg_exec S up fmt (GConnect w i) s = snd (sg_connect w i s)"
| "sg_exec S up fmt GDisconnect s = sg_disconnect s"
| "sg_exec S up fmt (GOpen w) s = ([], sg_onopen w s)"
| "sg_exec S up fmt (GMessage w d) s = sg_onmessage S fmt w d s"
| "sg_exec S up fmt (GError w) s = sg_onerror w s"
| "sg_exec S up fmt (GTimeout w) s = sg_ontimeout w s"
| "sg_exec S up fmt (GClose w) s = sg_onclose w s"
| "sg_exec S up fmt (GOver w) s = ([], attempt_over w s)"
| "sg_exec S up fmt (GRelay t p) s = (sendRelay fmt t p s, s)"

inductive sg_run :: "sodium \<Rightarrow> (string \<Rightarrow> url_parts option) \<Rightarrow> (rat \<Rightarrow> string) \<Rightarrow> (sg_event \<times> sg_eff list) list \<Rightarrow> signaling \<Rightarrow> bool"
  for S up fmt where
  start: "sg_run S up fmt [] signaling_init"
| step: "sg_run S up fmt tr s \<Longrightarrow> sg_enabled ev s \<Longrightarrow> sg_exec S up fmt ev s = (e, s') \<Longrightarrow> sg_run S up fmt (tr @ [(ev, e)]) s'"

subsection \<open>What stays the same\<close>

text \<open>No operation but \<open>connect\<close> makes attempts; all keep the generation, host and identity of those there are, and
  none takes one back to the first phase.\<close>

definition attempts_kept :: "signaling \<Rightarrow> signaling \<Rightarrow> bool" where
  "attempts_kept s s' \<longleftrightarrow>
     sg_generation s \<le> sg_generation s' \<and>
     (\<forall>w a. jm_get (sg_attempts s) w = Some a \<longrightarrow>
        (\<exists>a'. jm_get (sg_attempts s') w = Some a' \<and> at_generation a' = at_generation a \<and> at_host a' = at_host a \<and>
           at_identity a' = at_identity a \<and> (at_phase a \<noteq> PHello \<longrightarrow> at_phase a' \<noteq> PHello)))"

lemma attempts_kept_refl [simp]: "attempts_kept s s"
  by (simp add: attempts_kept_def)

lemma closeSocket_simps [simp]:
  "sg_attempts (snd (closeSocket s)) = sg_attempts s" "sg_generation (snd (closeSocket s)) = sg_generation s"
  "sg_url (snd (closeSocket s)) = sg_url s" "sg_ws (snd (closeSocket s)) = None"
  "sg_pending (snd (closeSocket s)) = sg_pending s"
  by (auto simp: closeSocket_def split: option.split)

lemma attempts_kept_set:
  "jm_get (sg_attempts s) w = Some a \<Longrightarrow> at_generation a' = at_generation a \<Longrightarrow> at_host a' = at_host a \<Longrightarrow>
    at_identity a' = at_identity a \<Longrightarrow> (at_phase a \<noteq> PHello \<Longrightarrow> at_phase a' \<noteq> PHello) \<Longrightarrow> attempts_kept s (set_attempt w a' s)"
  by (auto simp: attempts_kept_def set_attempt_def)

lemma attempts_kept_same:
  "attempts_kept s s1 \<Longrightarrow> sg_attempts s2 = sg_attempts s1 \<Longrightarrow> sg_generation s1 \<le> sg_generation s2 \<Longrightarrow> attempts_kept s s2"
  by (auto simp: attempts_kept_def intro: order_trans)

lemma sg_fail_kept: "attempts_kept s (snd (sg_fail err w s))"
proof (cases "jm_get (sg_attempts s) w")
  case (Some a)
  have "attempts_kept s (set_attempt w (a\<lparr>at_settled := True\<rparr>) s)" by (rule attempts_kept_set [OF Some]) simp_all
  then show ?thesis using Some
    by (auto simp: sg_fail_def Let_def split_beta elim: attempts_kept_same)
qed (simp add: sg_fail_def)

lemma onHello_kept: "jm_get (sg_attempts s) w = Some a \<Longrightarrow> attempts_kept s (snd (onHello S fmt w a m s))"
  by (auto simp: onHello_def sg_fail_kept intro: attempts_kept_set split: server_msg.split sum.split)

lemma onmessage_kept: "attempts_kept s (snd (sg_onmessage S fmt w d s))"
  by (auto simp: sg_onmessage_def sg_fail_kept onHello_kept intro: attempts_kept_set
      split: option.split server_msg.split)

lemma sg_exec_kept: "sg_enabled ev s \<Longrightarrow> attempts_kept s (snd (sg_exec S up fmt ev s))"
proof (cases ev)
  case (GSetUrl u)
  then show ?thesis
    by (auto simp: setUrl_def sg_disconnect_def split_beta attempts_kept_def split: option.split sum.split)
next
  case (GConnect w i)
  moreover assume "sg_enabled ev s"
  ultimately show ?thesis
    by (auto simp: sg_connect_def split_beta attempts_kept_def jm_has_def split: option.split)
next
  case (GClose w)
  have "attempts_kept (s\<lparr>sg_ready := jm_set w 3 (sg_ready s)\<rparr>) (snd (sg_fail ConnectionClosed w (s\<lparr>sg_ready := jm_set w 3 (sg_ready s)\<rparr>)))"
    by (rule sg_fail_kept)
  then show ?thesis using GClose by (auto simp: sg_onclose_def Let_def split_beta attempts_kept_def)
qed (auto simp: sg_disconnect_def sg_onopen_def sg_onerror_def sg_ontimeout_def attempt_over_def onmessage_kept sg_fail_kept
    attempts_kept_def [of s "s\<lparr>sg_ready := r\<rparr>" for r] attempts_kept_def [of s "s\<lparr>sg_pending := r\<rparr>" for r]
    intro: attempts_kept_same [of s s])

subsection \<open>Signing\<close>

definition opened :: "(sg_event \<times> sg_eff list) list \<Rightarrow> ws \<Rightarrow> url_parts \<Rightarrow> bool" where
  "opened tr w url \<longleftrightarrow> SgConnect w url \<in> (\<Union>x \<in> set tr. set (snd x))"

definition joined_on :: "(sg_event \<times> sg_eff list) list \<Rightarrow> ws \<Rightarrow> tracker_join \<Rightarrow> bool" where
  "joined_on tr w j \<longleftrightarrow> SgSend w (TJoin j) \<in> (\<Union>x \<in> set tr. set (snd x))"

definition sg_inv :: "(sg_event \<times> sg_eff list) list \<Rightarrow> signaling \<Rightarrow> bool" where
  "sg_inv tr s \<longleftrightarrow>
     (\<forall>w a. jm_get (sg_attempts s) w = Some a \<longrightarrow>
        at_generation a \<le> sg_generation s \<and> (\<exists>url. opened tr w url \<and> at_host a = toLowerCase (up_host url))) \<and>
     (\<forall>w j. joined_on tr w j \<longrightarrow> (\<exists>a. jm_get (sg_attempts s) w = Some a \<and> at_phase a \<noteq> PHello)) \<and>
     (\<forall>w url. opened tr w url \<longrightarrow> jm_has (sg_attempts s) w)"

lemma closing_effects [simp]:
  "SgSend w m \<notin> set (fst (closeSocket s))" "SgConnect w u \<notin> set (fst (closeSocket s))"
  "SgSend w m \<notin> set (fst (sg_fail err v s))" "SgConnect w u \<notin> set (fst (sg_fail err v s))"
  by (auto simp: sg_fail_def closeSocket_def Let_def split_beta split: option.split)

lemma other_effects:
  assumes "\<And>v i. ev \<noteq> GConnect v i" "\<And>v d. ev \<noteq> GMessage v d" "\<And>t p. ev \<noteq> GRelay t p"
  shows "SgSend w m \<notin> set (fst (sg_exec S up fmt ev s))" "SgConnect w u \<notin> set (fst (sg_exec S up fmt ev s))"
  using assms
  by (cases ev; simp add: setUrl_def sg_disconnect_def sg_onerror_def sg_ontimeout_def sg_onclose_def Let_def split_beta
      split: option.split sum.split)+

lemma send_join:
  assumes "SgSend w (TJoin j) \<in> set (fst (sg_exec S up fmt ev s))"
  obtains data nonce a where "ev = GMessage w data" "jm_get (sg_attempts s) w = Some a" "at_phase a = PHello"
    "at_generation a = sg_generation s" "parseTrackerServerMessage data = Some (THello 2 nonce)"
    "join_of S (at_identity a) (fromHex nonce) (at_host a) = Inr j"
    "jm_get (sg_attempts (snd (sg_exec S up fmt ev s))) w = Some (a\<lparr>at_phase := PJoining\<rparr>)"
proof (cases ev)
  case (GMessage v data)
  obtain a m where a: "jm_get (sg_attempts s) v = Some a" "at_generation a = sg_generation s"
    "parseTrackerServerMessage data = Some m"
    using assms GMessage by (auto simp: sg_onmessage_def split: option.splits if_splits)
  show ?thesis
  proof (cases "at_phase a = PHello")
    case True
    then have "SgSend w (TJoin j) \<in> set (fst (onHello S fmt v a m s))" using assms a GMessage by (simp add: sg_onmessage_def)
    then obtain nonce where m: "m = THello 2 nonce" "join_of S (at_identity a) (fromHex nonce) (at_host a) = Inr j" "w = v"
      by (auto simp: onHello_def sendRaw_def Let_def split: server_msg.splits if_splits sum.splits)
    then show ?thesis using a True GMessage
      by (intro that [of data a nonce]) (simp_all add: sg_onmessage_def onHello_def set_attempt_def)
  next
    case False
    then show ?thesis using assms a GMessage by (auto simp: sg_onmessage_def split: server_msg.splits if_splits)
  qed
next
  case (GConnect v i)
  then show ?thesis using assms
    by (auto simp: sg_connect_def split_beta split: option.splits if_splits)
next
  case (GRelay t p)
  then show ?thesis using assms
    by (auto simp: sendRelay_def sendRaw_def Let_def split: option.splits if_splits)
qed (use assms other_effects(1) [of ev w "TJoin j" S up fmt s] in auto)

lemma send_connect:
  assumes "SgConnect w url \<in> set (fst (sg_exec S up fmt ev s))"
  shows "jm_has (sg_attempts (snd (sg_exec S up fmt ev s))) w"
proof (cases ev)
  case (GMessage v data)
  then show ?thesis using assms
    by (auto simp: sg_onmessage_def onHello_def sendRaw_def Let_def split: option.splits server_msg.splits sum.splits if_splits)
next
  case (GConnect v i)
  then show ?thesis using assms
    by (auto simp: sg_connect_def split_beta split: option.splits if_splits)
next
  case (GRelay t p)
  then show ?thesis using assms
    by (auto simp: sendRelay_def sendRaw_def Let_def split: option.splits if_splits)
qed (use assms other_effects(2) [of ev w url S up fmt s] in auto)

lemma fail_has [simp]: "jm_has (sg_attempts (snd (sg_fail err v s))) w = jm_has (sg_attempts s) w"
  by (auto simp: sg_fail_def Let_def split_beta set_attempt_def jm_has_def split: option.split)

lemma message_has: "jm_has (sg_attempts (snd (sg_onmessage S fmt v d s))) w = jm_has (sg_attempts s) w"
proof (cases "jm_get (sg_attempts s) v")
  case (Some a)
  then have set: "jm_has (sg_attempts (set_attempt v a' s)) w = jm_has (sg_attempts s) w" for a'
    by (auto simp: set_attempt_def jm_has_def)
  have "jm_has (sg_attempts (snd (onHello S fmt v a m s))) w = jm_has (sg_attempts s) w" for m
    by (simp add: onHello_def set split: server_msg.split sum.split)
  then show ?thesis by (simp add: sg_onmessage_def Some set split: option.split server_msg.split)
qed (simp add: sg_onmessage_def)

lemma new_attempt:
  assumes "jm_has (sg_attempts (snd (sg_exec S up fmt ev s))) w" "\<not> jm_has (sg_attempts s) w"
  obtains i where "ev = GConnect w i"
  using assms
  by (cases ev) (auto simp: setUrl_def sg_disconnect_def split_beta sg_onopen_def sg_onerror_def
      sg_ontimeout_def sg_onclose_def attempt_over_def message_has sg_connect_def Let_def
      split: option.splits sum.splits if_splits)

lemma connect_attempt:
  assumes "jm_get (sg_attempts (snd (snd (sg_connect w i s)))) w = Some a" "\<not> jm_has (sg_attempts s) w"
  shows "\<exists>url. SgConnect w url \<in> set (fst (snd (sg_connect w i s))) \<and> at_host a = toLowerCase (up_host url) \<and>
    at_generation a \<le> sg_generation (snd (snd (sg_connect w i s)))"
  using assms by (auto simp: sg_connect_def split_beta jm_has_def split: option.splits if_splits)

lemma attempts_keptD:
  assumes "attempts_kept s s'" "jm_get (sg_attempts s) w = Some a"
  obtains a' where "jm_get (sg_attempts s') w = Some a'" "at_generation a' = at_generation a" "at_host a' = at_host a"
    "at_identity a' = at_identity a" "at_phase a \<noteq> PHello \<Longrightarrow> at_phase a' \<noteq> PHello"
  using assms by (auto simp: attempts_kept_def)

lemma opened_step: "opened (tr @ [(ev, e)]) w url \<longleftrightarrow> opened tr w url \<or> SgConnect w url \<in> set e"
  by (auto simp: opened_def)

lemma joined_step: "joined_on (tr @ [(ev, e)]) w j \<longleftrightarrow> joined_on tr w j \<or> SgSend w (TJoin j) \<in> set e"
  by (auto simp: joined_on_def)

lemma sg_exec_inv:
  assumes "sg_inv tr s" "sg_enabled ev s" "sg_exec S up fmt ev s = (e, s')"
  shows "sg_inv (tr @ [(ev, e)]) s'"
proof -
  have e: "e = fst (sg_exec S up fmt ev s)" and s': "s' = snd (sg_exec S up fmt ev s)" using assms(3) by simp_all
  have k: "attempts_kept s s'" unfolding s' by (rule sg_exec_kept [OF assms(2)])
  have "at_generation a \<le> sg_generation s' \<and> (\<exists>url. opened (tr @ [(ev, e)]) w url \<and> at_host a = toLowerCase (up_host url))"
    if a: "jm_get (sg_attempts s') w = Some a" for w a
  proof (cases "jm_get (sg_attempts s) w")
    case (Some b)
    then obtain a' where "jm_get (sg_attempts s') w = Some a'" "at_generation a' = at_generation b" "at_host a' = at_host b"
      by (rule attempts_keptD [OF k])
    moreover have "at_generation b \<le> sg_generation s" "\<exists>url. opened tr w url \<and> at_host b = toLowerCase (up_host url)"
      using assms(1) Some by (auto simp: sg_inv_def)
    moreover have "sg_generation s \<le> sg_generation s'" using k by (simp add: attempts_kept_def)
    ultimately show ?thesis using a by (auto simp: opened_step)
  next
    case None
    then have n: "\<not> jm_has (sg_attempts s) w" by (simp add: jm_has_def)
    have "jm_has (sg_attempts (snd (sg_exec S up fmt ev s))) w" using a s' by (simp add: jm_has_def)
    then obtain i where ev: "ev = GConnect w i" by (rule new_attempt [OF _ n])
    then show ?thesis using connect_attempt [of w i s a] a n unfolding s' e opened_step by auto
  qed
  moreover have "\<exists>a. jm_get (sg_attempts s') w = Some a \<and> at_phase a \<noteq> PHello" if "joined_on (tr @ [(ev, e)]) w j" for w j
  proof (cases "joined_on tr w j")
    case True
    then obtain a where "jm_get (sg_attempts s) w = Some a" "at_phase a \<noteq> PHello" using assms(1) by (auto simp: sg_inv_def)
    then show ?thesis by (metis attempts_keptD [OF k])
  next
    case False
    then have "SgSend w (TJoin j) \<in> set (fst (sg_exec S up fmt ev s))" using that by (simp add: joined_step e)
    then show ?thesis unfolding s' by (rule send_join) auto
  qed
  moreover have "jm_has (sg_attempts s') w" if "opened (tr @ [(ev, e)]) w url" for w url
  proof (cases "opened tr w url")
    case True
    then have "jm_has (sg_attempts s) w" using assms(1) by (auto simp: sg_inv_def)
    then obtain a where "jm_get (sg_attempts s) w = Some a" by (auto simp: jm_has_def)
    then show ?thesis by (rule attempts_keptD [OF k]) (simp add: jm_has_def)
  next
    case False
    then show ?thesis using that send_connect [of w url S up fmt ev s] by (simp add: opened_step e s')
  qed
  ultimately show ?thesis unfolding sg_inv_def by blast
qed

lemma sg_run_inv: "sg_run S up fmt tr s \<Longrightarrow> sg_inv tr s"
proof (induction rule: sg_run.induct)
  case start
  show ?case by (simp add: sg_inv_def signaling_init_def joined_on_def opened_def)
next
  case (step tr s ev e s')
  then show ?case by (intro sg_exec_inv)
qed

text \<open>C31: A node signs at most one join per connection, in answer to a greeting on that connection, and for the
  host of the address it opened the connection to: a tracker that passes on another tracker's greeting gets a
  signature that names itself.\<close>

theorem node_signs_for_its_host:
  assumes "sg_run S up fmt tr s" "sg_exec S up fmt ev s = (e, s')" "SgSend w (TJoin j) \<in> set e"
  shows "(\<forall>j'. \<not> joined_on tr w j') \<and>
    (\<exists>url data nonce idn. opened tr w url \<and> ev = GMessage w data \<and>
       parseTrackerServerMessage data = Some (THello 2 nonce) \<and> join_of S idn (fromHex nonce) (toLowerCase (up_host url)) = Inr j)"
proof -
  have i: "sg_inv tr s" by (rule sg_run_inv [OF assms(1)])
  have "SgSend w (TJoin j) \<in> set (fst (sg_exec S up fmt ev s))" using assms by simp
  then obtain data nonce a where x: "ev = GMessage w data" "jm_get (sg_attempts s) w = Some a" "at_phase a = PHello"
    "at_generation a = sg_generation s" "parseTrackerServerMessage data = Some (THello 2 nonce)"
    "join_of S (at_identity a) (fromHex nonce) (at_host a) = Inr j" by (rule send_join)
  obtain url where "opened tr w url" "at_host a = toLowerCase (up_host url)"
    using i x(2) unfolding sg_inv_def by blast
  moreover have "\<not> joined_on tr w j'" for j' using i x(2,3) unfolding sg_inv_def by fastforce
  ultimately show ?thesis using x by auto
qed

subsection \<open>Abandoned connections\<close>

lemma sg_run_split:
  assumes "sg_run S up fmt (tr @ tr') s'"
  obtains s where "sg_run S up fmt tr s" "\<And>w a. jm_get (sg_attempts s) w = Some a \<Longrightarrow>
    \<exists>a'. jm_get (sg_attempts s') w = Some a' \<and> at_generation a' = at_generation a" "sg_generation s \<le> sg_generation s'"
  using assms
proof (induction tr' arbitrary: s' thesis rule: rev_induct)
  case Nil
  then show ?case by (metis append_Nil2 order_refl)
next
  case (snoc x tr')
  obtain ev e where x: "x = (ev, e)" by fastforce
  from snoc.prems(2) obtain s1 where s1: "sg_run S up fmt (tr @ tr') s1" "sg_enabled ev s1" "sg_exec S up fmt ev s1 = (e, s')"
    by (cases rule: sg_run.cases) (auto simp: x simp flip: append_assoc)
  have k: "attempts_kept s1 s'" using sg_exec_kept [OF s1(2), of S up fmt] s1(3) by simp
  show ?case
  proof (rule snoc.IH [OF _ s1(1)])
    fix s assume s: "sg_run S up fmt tr s" "\<And>w a. jm_get (sg_attempts s) w = Some a \<Longrightarrow>
      \<exists>a'. jm_get (sg_attempts s1) w = Some a' \<and> at_generation a' = at_generation a" "sg_generation s \<le> sg_generation s1"
    show thesis
    proof (rule snoc.prems(1) [OF s(1)])
      fix w a assume "jm_get (sg_attempts s) w = Some a"
      then obtain a1 where "jm_get (sg_attempts s1) w = Some a1" "at_generation a1 = at_generation a" using s(2) by blast
      then show "\<exists>a'. jm_get (sg_attempts s') w = Some a' \<and> at_generation a' = at_generation a"
        by (metis attempts_keptD [OF k])
    next
      show "sg_generation s \<le> sg_generation s'" using s(3) k by (simp add: attempts_kept_def)
    qed
  qed
qed

text \<open>Leaving a tracker is final: after a disconnect, nothing that still arrives on a connection opened before
  has any effect, in whatever state the client has got to since, so an old tracker can neither introduce peers,
  nor deliver relayed frames, nor obtain a signature.\<close>

theorem abandoned_connection_inert:
  assumes "sg_run S up fmt (tr @ (GDisconnect, e) # tr') s" "opened tr w url"
  shows "sg_onmessage S fmt w data s = ([], s)"
proof -
  obtain s1 where s1: "sg_run S up fmt (tr @ [(GDisconnect, e)]) s1" "\<And>w a. jm_get (sg_attempts s1) w = Some a \<Longrightarrow>
    \<exists>a'. jm_get (sg_attempts s) w = Some a' \<and> at_generation a' = at_generation a" "sg_generation s1 \<le> sg_generation s"
    using assms(1) sg_run_split [of S up fmt "tr @ [(GDisconnect, e)]" tr' s] by (metis append.assoc append_Cons append_Nil)
  from s1(1) obtain s0 where s0: "sg_run S up fmt tr s0" "sg_exec S up fmt GDisconnect s0 = (e, s1)"
    by (cases rule: sg_run.cases) auto
  have at: "sg_attempts s1 = sg_attempts s0" "sg_generation s1 = sg_generation s0 + 1"
    using arg_cong [OF s0(2), of "\<lambda>x. sg_attempts (snd x)"] arg_cong [OF s0(2), of "\<lambda>x. sg_generation (snd x)"]
    by (simp_all add: sg_disconnect_def)
  have i: "sg_inv tr s0" by (rule sg_run_inv [OF s0(1)])
  then have "jm_has (sg_attempts s0) w" using assms(2) by (auto simp: sg_inv_def)
  then obtain a where a: "jm_get (sg_attempts s0) w = Some a" by (auto simp: jm_has_def)
  moreover have "at_generation a \<le> sg_generation s0" using i a by (auto simp: sg_inv_def)
  moreover obtain a' where "jm_get (sg_attempts s) w = Some a'" "at_generation a' = at_generation a"
    using s1(2) a unfolding at by blast
  ultimately show ?thesis using s1(3) at by (simp add: sg_onmessage_def)
qed

subsection \<open>Registering\<close>

definition honest_identity :: "sodium \<Rightarrow> node_id_pow_params \<Rightarrow> node_identity \<Rightarrow> bool" where
  "honest_identity S params idn \<longleftrightarrow>
     nid_pubkey idn = sign_pk S (nid_privkey idn) \<and> verifyClaim S (JObj (claim_of idn)) params"

lemma verifyClaim_shape:
  "verifyClaim S (JObj (claim_of idn)) params \<Longrightarrow> hex_re 32 (nid_peerId idn) \<and> length (nid_pubkey idn) = 32 \<and>
     0 \<le> nid_powCounter idn \<and> nid_powCounter idn \<le> max_safe"
  by (auto simp: verifyClaim_def claim_of_def hex_re_def is_safe_integer_def split: if_splits)

lemma verifyClaim_join: "tj_peerId j = nid_peerId idn \<Longrightarrow> tj_pubkey j = toHex (nid_pubkey idn) \<Longrightarrow> tj_powCounter j = nid_powCounter idn \<Longrightarrow>
    tj_claim j = JObj (claim_of idn)"
  by (simp add: tj_claim_def claim_of_def)

lemma join_of_honest:
  assumes "sign_law S" "honest_identity S params idn" "length nonce = 32" "host_re host"
  obtains j where "join_of S idn nonce host = Inr j" "client_msg_ok (TJoin j)" "tj_peerId j = nid_peerId idn" "tj_v j = 2"
    "tj_host j = host" "join_signed S nonce j" "verifyClaim S (tj_claim j) params"
proof -
  have v: "hex_re 32 (nid_peerId idn)" "length (nid_pubkey idn) = 32" "0 \<le> nid_powCounter idn" "nid_powCounter idn \<le> max_safe"
    using assms(2) verifyClaim_shape [of S idn params] by (simp_all add: honest_identity_def)
  have u: "length (utf8 t) \<le> 0xffff" if "length t \<le> 1000" for t using length_utf8 [of t] that by simp
  have lh: "length (toLowerCase host) \<le> 1000" using length_host [OF assms(4)] by (simp add: toLowerCase_def)
  have lp: "length (nid_peerId idn) \<le> 1000" using v(1) by (simp add: hex_re_def)
  obtain a b where ab: "lengthPrefixed (nid_peerId idn) = Inr a" "lengthPrefixed (toLowerCase host) = Inr b"
    using lengthPrefixed_short [OF u [OF lh]] lengthPrefixed_short [OF u [OF lp]] by blast
  then obtain m where m: "trackerJoinMessage nonce (nid_peerId idn) host = Inr m"
    using assms(3) by (simp add: trackerJoinMessage_def)
  let ?sig = "sign_detached S m (nid_privkey idn)"
  let ?j = "\<lparr>tj_v = 2, tj_peerId = nid_peerId idn, tj_pubkey = toHex (nid_pubkey idn), tj_powCounter = nid_powCounter idn,
      tj_host = host, tj_sig = toHex ?sig\<rparr>"
  have "join_of S idn nonce host = Inr ?j" by (simp add: join_of_def signTrackerJoin_def m)
  moreover have "client_msg_ok (TJoin ?j)"
    using v assms(4) hex_re_toHex [of "nid_pubkey idn"] hex_re_toHex [of ?sig] sign_lawD(1) [OF assms(1), of m "nid_privkey idn"]
    by (simp add: max_safe_def)
  moreover have "join_signed S nonce ?j"
    using assms(2) by (simp add: join_signed_def m honest_identity_def sign_lawD [OF assms(1)])
  moreover have "verifyClaim S (tj_claim ?j) params"
    using assms(2) by (simp add: verifyClaim_join honest_identity_def)
  ultimately show ?thesis by (intro that) simp_all
qed

lemma hello_answered:
  assumes "sign_law S" "honest_identity S params (at_identity a)" "length nonce = 32" "host_re (at_host a)"
    "jm_get (sg_attempts s) w = Some a" "at_generation a = sg_generation s" "at_phase a = PHello"
    "jm_get (sg_ready s) w = Some WS_OPEN"
  obtains j where
    "sg_onmessage S fmt w (tracker_text fmt (server_obj (THello 2 (toHex nonce)))) s =
       ([SgSend w (TJoin j)], set_attempt w (a\<lparr>at_phase := PJoining\<rparr>) s)"
    "client_msg_ok (TJoin j)" "tj_peerId j = nid_peerId (at_identity a)" "tj_v j = 2" "tj_host j = at_host a" "join_signed S nonce j"
    "verifyClaim S (tj_claim j) params"
proof -
  have ok: "server_msg_ok (THello 2 (toHex nonce))" using hex_re_toHex [of nonce] assms(3) by (simp add: max_safe_def)
  have "length (tracker_text fmt (server_obj (THello 2 (toHex nonce)))) \<le> TRACKER_MAX_FRAME_BYTES"
    using length_json_quote [of "toHex nonce"] length_safe_text [of 2] assms(3)
    by (simp add: tracker_text_def max_safe_def len_simps) (simp add: json_quote_def json_char_def)
  from server_text_parses [OF ok _ this]
  have p: "parseTrackerServerMessage (tracker_text fmt (server_obj (THello 2 (toHex nonce)))) = Some (THello 2 (toHex nonce))" by simp
  obtain j where j: "join_of S (at_identity a) nonce (at_host a) = Inr j" "client_msg_ok (TJoin j)"
    "tj_peerId j = nid_peerId (at_identity a)" "tj_v j = 2" "tj_host j = at_host a" "join_signed S nonce j"
    "verifyClaim S (tj_claim j) params"
    by (rule join_of_honest [OF assms(1-4)])
  have "sendRaw fmt w (TJoin j) s = [SgSend w (TJoin j)]"
    using join_text_short [OF j(2), of fmt] assms(8) by (simp add: sendRaw_def Let_def)
  then have "sg_onmessage S fmt w (tracker_text fmt (server_obj (THello 2 (toHex nonce)))) s =
      ([SgSend w (TJoin j)], set_attempt w (a\<lparr>at_phase := PJoining\<rparr>) s)"
    using j(1) assms(5-7) unfolding sg_onmessage_def p by (simp add: onHello_def)
  then show ?thesis by (rule that [OF _ j(2-7)])
qed


subsection \<open>One run, computed\<close>

definition toy_url :: url_parts where
  "toy_url = \<lparr>up_protocol = ''wss:'', up_hostname = ''t'', up_host = ''t'', up_username = [], up_password = [],
     up_pathname = ''/ws'', up_search = [], up_hash = []\<rparr>"

definition toy_node :: node_identity where
  "toy_node = \<lparr>nid_peerId = toHex (replicate 16 3), nid_position = 0, nid_pubkey = replicate 32 3, nid_privkey = replicate 32 3,
     nid_powCounter = 0\<rparr>"

lemma toy_node_honest: "honest_identity id_sodium NODE_ID_POW toy_node"
proof -
  have "derivePeerId id_sodium (replicate 32 3) = toHex (replicate 16 3)"
    by (simp add: derivePeerId_def id_sodium_def PEER_ID_DOMAIN_def pad_to_def utf8_char_def numeral_eq_Suc)
  then show ?thesis using hex_re_toHex [of "replicate 16 (3 :: byte)"]
    by (simp add: honest_identity_def verifyClaim_def claim_of_def toy_node_def hex_re_def NODE_ID_POW_def nodeIdPowHash_def)
      (simp add: id_sodium_def toy_sodium_def meetsDifficulty_def pad_to_def)
qed

definition toy_attempt :: attempt where
  "toy_attempt = \<lparr>at_generation = 2, at_host = ''t'', at_identity = toy_node, at_phase = PHello, at_settled = False\<rparr>"

definition toy_client :: signaling where
  "toy_client = \<lparr>sg_url = Some toy_url, sg_ws = Some 1, sg_ready = [(1, 1)], sg_pending = Some 1, sg_generation = 2,
     sg_attempts = [(1, toy_attempt)]\<rparr>"

lemma toy_client_facts:
  "honest_identity id_sodium (tc_pow toy_tracker_cfg) (at_identity toy_attempt)" "host_re (at_host toy_attempt)"
  "jm_get (sg_attempts toy_client) 1 = Some toy_attempt" "at_generation toy_attempt = sg_generation toy_client"
  "at_phase toy_attempt = PHello" "jm_get (sg_ready toy_client) 1 = Some WS_OPEN" "tc_allowedHosts toy_tracker_cfg = None"
  "normalizeHostHeader (Some (at_host toy_attempt)) = Some ''t''" "sign_law id_sodium" "length (replicate 32 (7 :: byte)) = 32"
  using toy_node_honest toy_laws toy_host
  by (simp_all add: toy_attempt_def toy_client_def toy_tracker_cfg_def tracker_options_def host_re_def host_char_def port_re_def
      id_sodium_def sign_law_def)

lemma toy_client_trim: "trim ''w'' = ''w''"
  by (simp add: trim_def is_ws_def)

lemma toy_client_run:
  "sg_run S (\<lambda>u. Some toy_url) fmt
     [(GSetUrl (Some ''w''), []), (GConnect 1 (Some toy_node), [SgConnect 1 toy_url]), (GOpen 1, [])] toy_client"
proof -
  let ?s1 = "signaling_init\<lparr>sg_generation := 1, sg_url := Some toy_url\<rparr>"
  let ?s2 = "toy_client\<lparr>sg_ready := [(1, 0)]\<rparr>"
  have "parseTrackerUrl (\<lambda>u. Some toy_url) ''w'' = Inr toy_url"
    by (simp add: parseTrackerUrl_def toy_client_trim toy_url_def)
  then have 1: "sg_run S (\<lambda>u. Some toy_url) fmt ([] @ [(GSetUrl (Some ''w''), [])]) ?s1"
    by (intro sg_run.step [OF sg_run.start]) (simp_all add: setUrl_def sg_disconnect_def closeSocket_def signaling_init_def)
  have "sg_run S (\<lambda>u. Some toy_url) fmt (([] @ [(GSetUrl (Some ''w''), [])]) @ [(GConnect 1 (Some toy_node), [SgConnect 1 toy_url])]) ?s2"
    by (rule sg_run.step [OF 1]) (simp_all add: sg_connect_def isConnected_def closeSocket_def signaling_init_def toy_client_def
      toy_url_def toLowerCase_def lower_char_def jm_has_def toy_attempt_def numeral_2_eq_2)
  from sg_run.step [OF this, of "GOpen 1" "[]" toy_client] show ?thesis
    by (simp add: sg_onopen_def toy_client_def)
qed

text \<open>A second call of \<open>connect\<close> resolves at once while the first one is still waiting to be greeted: the socket is
  open, but the node is not registered, and may yet be refused.\<close>

theorem connect_resolves_before_joined:
  "\<exists>tr s a. sg_run S (\<lambda>u. Some toy_url) fmt tr s \<and> jm_get (sg_attempts s) 1 = Some a \<and> \<not> at_settled a \<and> at_phase a = PHello \<and>
     fst (sg_connect 2 (Some toy_node) s) = Resolved \<and> sg_pending s = Some 1"
  using toy_client_run [of S fmt]
  by (intro exI [of _ "[(GSetUrl (Some ''w''), []), (GConnect 1 (Some toy_node), [SgConnect 1 toy_url]), (GOpen 1, [])]"]
      exI [of _ toy_client] exI [of _ toy_attempt])
    (simp add: toy_client_def toy_attempt_def sg_connect_def isConnected_def)


theorem node_signs_for_its_host_witness:
  "\<exists>url. opened [(GSetUrl (Some ''w''), []), (GConnect 1 (Some toy_node), [SgConnect 1 toy_url]), (GOpen 1, [])] 1 url"
proof -
  let ?d = "tracker_text (\<lambda>_. []) (server_obj (THello 2 (toHex (replicate 32 7))))"
  obtain j where j: "sg_onmessage id_sodium (\<lambda>_. []) 1 ?d toy_client =
      ([SgSend 1 (TJoin j)], set_attempt 1 (toy_attempt\<lparr>at_phase := PJoining\<rparr>) toy_client)"
    by (rule hello_answered [OF toy_client_facts(9,1,10,2-6), of "\<lambda>_. []"])
  have "sg_exec id_sodium (\<lambda>u. Some toy_url) (\<lambda>_. []) (GMessage 1 ?d) toy_client =
      ([SgSend 1 (TJoin j)], set_attempt 1 (toy_attempt\<lparr>at_phase := PJoining\<rparr>) toy_client)" using j by simp
  from node_signs_for_its_host [OF toy_client_run this, of 1 j] show ?thesis by auto
qed

theorem abandoned_connection_inert_witness:
  "\<exists>s. sg_onmessage toy_sodium (\<lambda>_. []) 1 ''x'' s = ([], s) \<and> jm_has (sg_attempts s) 1"
proof -
  obtain e s where e: "sg_exec toy_sodium (\<lambda>u. Some toy_url) (\<lambda>_. []) GDisconnect toy_client = (e, s)" by fastforce
  have "sg_attempts s = sg_attempts toy_client"
    using arg_cong [OF e, of "\<lambda>x. sg_attempts (snd x)"] by (simp add: sg_disconnect_def)
  moreover have "sg_enabled GDisconnect toy_client" by simp
  note r = sg_run.step [OF toy_client_run this e]
  have "opened [(GSetUrl (Some ''w''), []), (GConnect 1 (Some toy_node), [SgConnect 1 toy_url]), (GOpen 1, [])] 1 toy_url"
    by (simp add: opened_def)
  from abandoned_connection_inert [OF r this] have "sg_onmessage toy_sodium (\<lambda>_. []) 1 ''x'' s = ([], s)" .
  ultimately show ?thesis by (intro exI [of _ s]) (simp add: toy_client_def jm_has_def)
qed

end
