(* ===== verification/Node.thy ===== *)
theory Node
  imports BoardView ThreadView Gossip IdentityStore Mesh OnionCircuit Signaling
begin

text \<open>
  \<open>packages/core/src/node/AetherNode.ts\<close>: the node as a whole. It opens the data of the device, makes the components,
  starts and stops them, and changes the tracker. The peer manager and the tracker client are joined here as the code
  joins them: what one asks of the other is done, and what the tracker sends reaches the manager. The lemmas show
  that a stopped node has left the network for good, whatever still arrives.
\<close>

subsection \<open>State\<close>

record aether =
  an_db :: secure_store
  an_identity :: node_identity
  an_trip :: trip
  an_peers :: peer_manager
  an_signaling :: signaling
  an_nextSocket :: ws
  an_connects :: "(nat, ws option) jsmap"
  an_nextConnect :: nat
  an_zones :: zone_state
  an_zoneTimer :: bool
  an_circuit :: circuit
  an_schro :: schro
  an_replication :: replication
  an_gossip :: gossip_state
  an_maintainerTimer :: bool
  an_heartbeat :: heartbeat
  an_board :: board_orch
  an_thread :: thread_orch
  an_isStarted :: bool
  an_isDestroyed :: bool

text \<open>\<open>an_connects\<close> are the calls of \<open>connectTracker\<close> that wait: for the socket named, or, with \<open>None\<close>, only for their
  turn. The mailbox and the hint router are parts of \<open>an_schro\<close>.\<close>

abbreviation an_mailbox :: "aether \<Rightarrow> mailbox" where "an_mailbox n \<equiv> sm_mailbox (an_schro n)"
abbreviation an_hintRouter :: "aether \<Rightarrow> hint_router" where "an_hintRouter n \<equiv> sm_router (an_schro n)"

record node_env =
  ne_cfg :: pm_config
  ne_now :: int
  ne_up :: "string \<Rightarrow> url_parts option"
  ne_fmt :: "rat \<Rightarrow> string"
  ne_circuit :: oc_env
  ne_mail :: dm_env
  ne_orch :: orch_env

text \<open>The environments of the components, with the peer manager of the node.\<close>

definition node_cfg :: "node_env \<Rightarrow> aether \<Rightarrow> pm_config" where
  "node_cfg e n = ne_cfg e\<lparr>pc_identity := an_identity n\<rparr>"

definition circuit_env :: "node_env \<Rightarrow> aether \<Rightarrow> oc_env" where
  "circuit_env e n = ne_circuit e\<lparr>oe_cfg := node_cfg e n, oe_pm := an_peers n, oe_now := ne_now e\<rparr>"

definition mail_env :: "node_env \<Rightarrow> aether \<Rightarrow> dm_env" where
  "mail_env e n = ne_mail e\<lparr>de_cfg := node_cfg e n, de_pm := an_peers n, de_now := ne_now e\<rparr>"

datatype node_effect =
    NPm pm_effect
  | NSg sg_eff
  | NOrch orch_effect
  | NOc oc_effect

type_synonym node_step = "node_effect list \<times> aether"

subsection \<open>The peer manager and the tracker client\<close>

text \<open>\<open>PeerManager.connectTracker\<close> as the client carries it out; a refusal is caught by every caller or passed on.\<close>

definition tracker_connect :: "aether \<Rightarrow> node_step" where
  "tracker_connect n =
     (case sg_connect (an_nextSocket n) (Some (an_identity n)) (an_signaling n) of
        (Throws _, fx, sg) \<Rightarrow> (map NSg fx, n\<lparr>an_signaling := sg\<rparr>)
      | (out, fx, sg) \<Rightarrow>
          (map NSg fx,
           n\<lparr>an_signaling := sg, an_nextSocket := Suc (an_nextSocket n), an_nextConnect := Suc (an_nextConnect n),
             an_connects := jm_set (an_nextConnect n) (case out of Awaits w \<Rightarrow> Some w | _ \<Rightarrow> None) (an_connects n)\<rparr>))"

definition tracker_disconnect :: "aether \<Rightarrow> node_step" where
  "tracker_disconnect n = (case sg_disconnect (an_signaling n) of (fx, sg) \<Rightarrow> (map NSg fx, n\<lparr>an_signaling := sg\<rparr>))"

definition pm_effect_done :: "node_env \<Rightarrow> pm_effect \<Rightarrow> aether \<Rightarrow> node_step" where
  "pm_effect_done e x n =
     (case x of
        TrackerConnect \<Rightarrow> tracker_connect n
      | TrackerDisconnect \<Rightarrow> tracker_disconnect n
      | TrackerRelay p payload \<Rightarrow> (map NSg (sendRelay (ne_fmt e) (JStr p) payload (an_signaling n)), n)
      | _ \<Rightarrow> ([NPm x], n))"

fun pm_effects :: "node_env \<Rightarrow> pm_effect list \<Rightarrow> aether \<Rightarrow> node_step" where
  "pm_effects e [] n = ([], n)"
| "pm_effects e (x # xs) n =
     (case pm_effect_done e x n of (fx, n1) \<Rightarrow> (case pm_effects e xs n1 of (gx, n2) \<Rightarrow> (fx @ gx, n2)))"

definition peers_step :: "node_env \<Rightarrow> pm_step \<Rightarrow> aether \<Rightarrow> node_step" where
  "peers_step e x n = pm_effects e (fst x) (n\<lparr>an_peers := snd x\<rparr>)"

text \<open>What the client reports: its listeners are the manager's, and a settled promise readies or ends who waits.\<close>

definition sg_effect_done :: "node_env \<Rightarrow> sg_eff \<Rightarrow> aether \<Rightarrow> node_step" where
  "sg_effect_done e x n =
     (case x of
        SgPeers ps \<Rightarrow>
          peers_step e (handleTrackerPeers (node_cfg e n) (ne_now e)
            (JArr (map (\<lambda>p. JObj [(''peerId'', JStr p)]) ps)) (an_peers n)) n
      | SgRelay p payload \<Rightarrow> peers_step e (handleRelay (node_cfg e n) (ne_now e) p payload None (an_peers n)) n
      | SgResolve w \<Rightarrow> ([], n\<lparr>an_connects := map (\<lambda>(i, x). (i, if x = Some w then None else x)) (an_connects n)\<rparr>)
      | SgReject w _ \<Rightarrow> ([], n\<lparr>an_connects := filter (\<lambda>(i, x). x \<noteq> Some w) (an_connects n)\<rparr>)
      | _ \<Rightarrow> ([NSg x], n))"

fun sg_effects :: "node_env \<Rightarrow> sg_eff list \<Rightarrow> aether \<Rightarrow> node_step" where
  "sg_effects e [] n = ([], n)"
| "sg_effects e (x # xs) n =
     (case sg_effect_done e x n of (fx, n1) \<Rightarrow> (case sg_effects e xs n1 of (gx, n2) \<Rightarrow> (fx @ gx, n2)))"

definition socket_step :: "node_env \<Rightarrow> sg_step \<Rightarrow> aether \<Rightarrow> node_step" where
  "socket_step e x n = sg_effects e (fst x) (n\<lparr>an_signaling := snd x\<rparr>)"

text \<open>A call of \<open>connectTracker\<close> goes on.\<close>

definition connect_resumed :: "node_env \<Rightarrow> nat \<Rightarrow> aether \<Rightarrow> node_step" where
  "connect_resumed e i n =
     (case jm_get (an_connects n) i of
        Some None \<Rightarrow> peers_step e (tracker_connected (an_peers n)) (n\<lparr>an_connects := jm_del i (an_connects n)\<rparr>)
      | _ \<Rightarrow> ([], n))"

subsection \<open>Making a node\<close>

record node_config =
  nc_trackerUrl :: "string option"
  nc_releaseMode :: release_mode
  nc_anonymityLevel :: "string option"
  nc_circuit :: circuit_options
  nc_persistent :: bool
  nc_passphrase :: string
  nc_vaultParams :: vault_params

text \<open>A level among the circuit's parameters comes before the level of the node.\<close>

definition node_circuit_options :: "node_config \<Rightarrow> circuit_options" where
  "node_circuit_options c =
     (nc_circuit c)\<lparr>op_level := case op_level (nc_circuit c) of None \<Rightarrow> nc_anonymityLevel c | Some l \<Rightarrow> Some l\<rparr>"

definition tracker_client :: "(string \<Rightarrow> url_parts option) \<Rightarrow> string option \<Rightarrow> signaling" where
  "tracker_client up url =
     (case url of None \<Rightarrow> signaling_init
      | Some u \<Rightarrow> if u = [] then signaling_init else snd (snd (setUrl up (Some u) signaling_init)))"

text \<open>\<open>slots\<close> are the slots the store holds.\<close>

definition wire_node :: "(string \<Rightarrow> url_parts option) \<Rightarrow> node_config \<Rightarrow> node_identity \<Rightarrow> trip \<Rightarrow> mail_store option \<Rightarrow> secure_store \<Rightarrow> aether" where
  "wire_node up c idn trip slots st =
     \<lparr>an_db = st, an_identity = idn, an_trip = trip, an_peers = pm_init, an_signaling = tracker_client up (nc_trackerUrl c),
      an_nextSocket = 0, an_connects = [], an_nextConnect = 0, an_zones = zone_init, an_zoneTimer = True,
      an_circuit = oc_new (node_circuit_options c) dandelion_init [], an_schro = schro_init (dm_init slots) hint_router_init (nc_releaseMode c),
      an_replication = replication_init, an_gossip = gossip_init, an_maintainerTimer = True, an_heartbeat = hb_init,
      an_board = bo_init, an_thread = to_init, an_isStarted = False, an_isDestroyed = False\<rparr>"

text \<open>A wrong tracker address is refused before the passphrase is used. With \<open>autoStart\<close> the owner's first event is \<open>NStart\<close>.\<close>

definition node_create ::
  "(string \<Rightarrow> url_parts option) \<Rightarrow> sodium \<Rightarrow> vault_lib \<Rightarrow> msgpack \<Rightarrow> (nat \<Rightarrow> nat \<Rightarrow> bytes) \<Rightarrow> (nat \<Rightarrow> nat \<Rightarrow> bytes) \<Rightarrow> int \<Rightarrow> bytes \<Rightarrow>
   mail_store option \<Rightarrow> node_config \<Rightarrow> secure_store \<Rightarrow> aether res \<times> secure_store" where
  "node_create up S V M rng rng' now sk slots c st =
     (if (case nc_trackerUrl c of None \<Rightarrow> False | Some u \<Rightarrow> u \<noteq> [] \<and> (case parseTrackerUrl up u of Inl _ \<Rightarrow> True | Inr _ \<Rightarrow> False))
      then (Inl (OtherError ''invalid tracker URL''), st)
      else
        (case node_open S V M rng rng' now sk (nc_persistent c) (nc_passphrase c) (nc_vaultParams c) st of
           (Inl err, st') \<Rightarrow> (Inl err, st')
         | (Inr (idn, trip), st') \<Rightarrow> (Inr (wire_node up c idn trip slots st'), st')))"

subsection \<open>Starting and stopping\<close>

text \<open>\<open>start\<close> up to its only wait, for the tracker; what comes of it changes nothing here.\<close>

definition node_start :: "node_env \<Rightarrow> aether \<Rightarrow> unit res \<times> node_step" where
  "node_start e n =
     (if an_isDestroyed n then (Inl (OtherError ''a stopped node cannot be restarted''), [], n)
      else if an_isStarted n then (Inr (), [], n)
      else
        (let (fx1, c) = oc_start (circuit_env e n) (an_circuit n);
             s = startReflood (an_schro n);
             (fx2, n2) = peers_step e (pm_start (an_peers n))
               (n\<lparr>an_isStarted := True, an_schro := s\<lparr>sm_mailbox := startMaintenance (ne_now e) (sm_mailbox s)\<rparr>,
                  an_heartbeat := hb_start (an_heartbeat n), an_circuit := c,
                  an_replication := executeRebalance (mail_env e n) (an_replication n)\<rparr>) in
         (Inr (), map NOc fx1 @ fx2, n2)))"

definition node_stop :: "node_env \<Rightarrow> aether \<Rightarrow> node_step" where
  "node_stop e n =
     (if an_isDestroyed n then ([], n)
      else
        (let (_, fx1, b) = bo_clear (an_board n);
             (_, fx2, t) = to_clear (ne_orch e) (an_thread n);
             s = schro_destroy (an_schro n);
             (fx3, c) = oc_destroy (an_circuit n);
             n1 = n\<lparr>an_isDestroyed := True, an_isStarted := False, an_board := b, an_thread := t, an_circuit := c,
                    an_heartbeat := hb_stop (an_heartbeat n), an_maintainerTimer := False,
                    an_replication := replication_destroy (an_replication n), an_zoneTimer := False,
                    an_zones := an_zones n\<lparr>zn_decreasePending := False\<rparr>, an_gossip := gossip_destroy (an_gossip n),
                    an_schro := s\<lparr>sm_mailbox := stopMaintenance (sm_mailbox s), sm_router := hint_router_destroy (sm_router s)\<rparr>\<rparr>;
             (fx4, n2) = peers_step e (pm_stop (an_peers n1)) n1 in
         (map NOrch fx1 @ map NOrch fx2 @ map NOc fx3 @ fx4, n2\<lparr>an_db := st_lock (an_db n2)\<rparr>)))"

definition panicWipe :: "node_env \<Rightarrow> aether \<Rightarrow> unit res \<times> node_step" where
  "panicWipe e n =
     (let (fx, n1) = node_stop e n; (r, st) = wipeAll (an_db n1) in (r, fx, n1\<lparr>an_db := st\<rparr>))"

text \<open>\<open>setTrackerUrl\<close> up to its wait. The parsed address prints to a text that parses to itself.\<close>

definition setTrackerUrl :: "node_env \<Rightarrow> string option \<Rightarrow> aether \<Rightarrow> unit res \<times> node_step" where
  "setTrackerUrl e url n =
     (if an_isDestroyed n then (Inl (OtherError ''node is stopped''), [], n)
      else
        (case setUrl (ne_up e) url (an_signaling n) of
           (Some _, fx, sg) \<Rightarrow> (Inl (OtherError ''invalid tracker URL''), [], n)
         | (None, fx, sg) \<Rightarrow>
             (let n1 = n\<lparr>an_signaling := sg\<rparr>;
                  (fx2, n2) = (if an_isStarted n \<and> url \<noteq> None then peers_step e (reconnectTracker (an_peers n1)) n1 else ([], n1)) in
              (Inr (), map NSg fx @ fx2, n2))))"

definition trackerConnected :: "aether \<Rightarrow> bool" where
  "trackerConnected n = isConnected (an_signaling n)"

definition setAnonymityLevel :: "node_env \<Rightarrow> string \<Rightarrow> aether \<Rightarrow> node_step" where
  "setAnonymityLevel e level n =
     (case setLevel (circuit_env e n) level (an_circuit n) of (fx, c) \<Rightarrow> (map NOc fx, n\<lparr>an_circuit := c\<rparr>))"

subsection \<open>Events\<close>

text \<open>What the owner asks for, what the neighbours' connections and the tracker's sockets do, and the timers.\<close>

datatype node_event =
    NStart
  | NStop
  | NSetUrl "string option"
  | NLevel string
  | NPeer pm_op
  | NSocket sg_event
  | NConnect nat
  | NDetach
  | NReannounce

text \<open>The manager is started and stopped, and the client is told where to connect, only by the operations above.\<close>

definition peer_callback :: "pm_op \<Rightarrow> bool" where
  "peer_callback op \<longleftrightarrow> op \<noteq> pm_op.OpStart \<and> op \<noteq> pm_op.OpStop"

definition socket_callback :: "sg_event \<Rightarrow> bool" where
  "socket_callback ev \<longleftrightarrow> (case ev of GSetUrl _ \<Rightarrow> False | GConnect _ _ \<Rightarrow> False | GDisconnect \<Rightarrow> False | GRelay _ _ \<Rightarrow> False | _ \<Rightarrow> True)"

fun node_exec :: "node_env \<Rightarrow> node_event \<Rightarrow> aether \<Rightarrow> node_step" where
  "node_exec e NStart n = snd (node_start e n)"
| "node_exec e NStop n = node_stop e n"
| "node_exec e (NSetUrl url) n = snd (setTrackerUrl e url n)"
| "node_exec e (NLevel level) n = setAnonymityLevel e level n"
| "node_exec e (NPeer op) n =
     (if peer_callback op then peers_step e (pm_exec (node_cfg e n) op (an_peers n)) n else ([], n))"
| "node_exec e (NSocket ev) n =
     (if socket_callback ev
      then socket_step e (sg_exec (pc_S (ne_cfg e)) (ne_up e) (ne_fmt e) ev (an_signaling n)) n
      else ([], n))"
| "node_exec e (NConnect i) n = connect_resumed e i n"
| "node_exec e NDetach n = peers_step e (detach_timeout (an_peers n)) n"
| "node_exec e NReannounce n =
     peers_step e (reannounce_tick (trackerConnected n) (an_peers n), an_peers n) n"

fun node_run :: "(node_env \<times> node_event) list \<Rightarrow> aether \<Rightarrow> node_step" where
  "node_run [] n = ([], n)"
| "node_run ((e, ev) # evs) n =
     (case node_exec e ev n of (fx, n1) \<Rightarrow> (case node_run evs n1 of (gx, n2) \<Rightarrow> (fx @ gx, n2)))"

subsection \<open>A stopped node is off the network\<close>

text \<open>What reaches out: connections, frames, and anything to the tracker.\<close>

fun reaches_out :: "node_effect \<Rightarrow> bool" where
  "reaches_out (NPm (OpenPeer _ _ _)) = True"
| "reaches_out (NPm (SendFrame _ _ _)) = True"
| "reaches_out (NPm (SignalPeer _ _ _)) = True"
| "reaches_out (NSg (SgConnect _ _)) = True"
| "reaches_out (NSg (SgSend _ _)) = True"
| "reaches_out (NOc (Net _)) = True"
| "reaches_out _ = False"

definition peers_gone :: "peer_manager \<Rightarrow> bool" where
  "peers_gone s \<longleftrightarrow> pm_stopped s \<and> pm_peers s = []"

definition tracker_gone :: "signaling \<Rightarrow> bool" where
  "tracker_gone s \<longleftrightarrow> sg_ws s = None \<and> (\<forall>w a. jm_get (sg_attempts s) w = Some a \<longrightarrow> at_generation a < sg_generation s)"

definition off_network :: "aether \<Rightarrow> bool" where
  "off_network n \<longleftrightarrow> an_isDestroyed n \<and> peers_gone (an_peers n) \<and> tracker_gone (an_signaling n) \<and> \<not> oc_running (an_circuit n)"

text \<open>The manager, stopped and without neighbours.\<close>

fun pm_harmless :: "pm_effect \<Rightarrow> bool" where
  "pm_harmless (OpenPeer _ _ _) = False"
| "pm_harmless (SendFrame _ _ _) = False"
| "pm_harmless (SignalPeer _ _ _) = False"
| "pm_harmless (TrackerRelay _ _) = False"
| "pm_harmless TrackerConnect = False"
| "pm_harmless _ = True"

abbreviation pm_silent :: "pm_step \<Rightarrow> bool" where
  "pm_silent x \<equiv> list_all pm_harmless (fst x) \<and> peers_gone (snd x)"

lemma peers_gone_get: "peers_gone s \<Longrightarrow> jm_get (pm_peers s) p = None"
  by (simp add: peers_gone_def)

lemma peers_gone_simps [simp]:
  "peers_gone (s\<lparr>pm_misbehavior := m\<rparr>) = peers_gone s" "peers_gone (s\<lparr>pm_limiter := l\<rparr>) = peers_gone s"
  "peers_gone (s\<lparr>pm_coolDowns := cd\<rparr>) = peers_gone s" "peers_gone (s\<lparr>pm_seenGroups := g\<rparr>) = peers_gone s"
  "peers_gone (s\<lparr>pm_detach := d\<rparr>) = peers_gone s"
  by (simp_all add: peers_gone_def)

lemma gone_ops:
  assumes "peers_gone s"
  shows "pm_disconnect p s = ([], s)" "update_conn p conn f s = s" "sendMessage c p t payload s = []"
    "\<not> isStillCurrent p conn s" "connect c now p i via s = (None, [], s)" "handleTrackerPeers c now v s = ([], s)"
    "handleRelay c now p v via s = ([], s)" "handleHello c p v s = []" "handleJoin c now p v s = ([], s)"
    "on_relay_message c now p t v s = ([], s)" "verifiedPeers s = []" "peer_verified p s = False"
  using assms peers_gone_get [OF assms]
  by (simp_all add: pm_disconnect_def update_conn_def sendMessage_def isStillCurrent_def connect_def handleTrackerPeers_def
      handleRelay_def handleHello_def handleJoin_def on_relay_message_def peers_gone_def verifiedPeers_def peer_verified_def
      jm_has_def split: sum.split jsval.split)

lemma gone_rebalance: "peers_gone s \<Longrightarrow> rebalance_loop g c now newcomer s = ([], s)"
  by (cases g) (simp_all add: gone_ops)

lemma gone_handleData: "peers_gone s \<Longrightarrow> pm_silent (handleData c now p bs s)"
proof -
  assume s: "peers_gone s"
  have own: "own_handlers c now p t payload s' = ([], s')" if "peers_gone s'" for t payload s'
    using gone_ops [OF that] by (cases t) (simp_all add: own_handlers_def)
  obtain banned m where b: "isBanned now p (pm_misbehavior s) = (banned, m)" by force
  have s1: "peers_gone (s\<lparr>pm_misbehavior := m\<rparr>)" using s by simp
  show ?thesis
    using s gone_ops [OF s1] own
    by (simp add: handleData_def banned_now_def b split_beta Let_def gone_ops)
qed

lemma gone_exec: "peers_gone s \<Longrightarrow> peer_callback op \<Longrightarrow> pm_silent (pm_exec c op s)"
  by (cases op)
    (simp_all add: gone_handleData gone_ops gone_rebalance onConnect_def onDisconnect_def connect_timeout_def handshake_timeout_def
      local_offer_def run_signal_def group_resolved_def rebalance_def noteGroup_def peer_callback_def Let_def peers_gone_get)

text \<open>The client, without a socket and with a newer generation than any of its connections.\<close>

lemma gone_closeSocket: "sg_ws s = None \<Longrightarrow> closeSocket s = ([], s)"
  by (simp add: closeSocket_def)

lemma gone_disconnect: "tracker_gone s \<Longrightarrow> fst (sg_disconnect s) = [] \<and> tracker_gone (snd (sg_disconnect s))"
  by (auto simp: sg_disconnect_def tracker_gone_def closeSocket_def intro: less_SucI)

lemma gone_fail:
  assumes "tracker_gone s"
  shows "\<forall>x \<in> set (fst (sg_fail err w s)). \<exists>w err. x = SgReject w err" "tracker_gone (snd (sg_fail err w s))"
  using assms
  by (auto simp: sg_fail_def tracker_gone_def set_attempt_def Let_def split: option.split)

lemma gone_socket:
  assumes "tracker_gone s" "socket_callback ev"
  shows "\<forall>x \<in> set (fst (sg_exec S up fmt ev s)). \<exists>w err. x = SgReject w err" "tracker_gone (snd (sg_exec S up fmt ev s))"
proof -
  have "at_generation a \<noteq> sg_generation s" if "jm_get (sg_attempts s) w = Some a" for w a
    using assms(1) that unfolding tracker_gone_def by fastforce
  then have msg: "sg_onmessage S fmt w d s = ([], s)" for w d
    by (cases "jm_get (sg_attempts s) w") (simp_all add: sg_onmessage_def)
  have closed: "tracker_gone (s\<lparr>sg_ready := r\<rparr>)" for r using assms(1) by (simp add: tracker_gone_def)
  have ws: "tracker_gone s' \<Longrightarrow> sg_ws s' = None" for s' by (simp add: tracker_gone_def)
  note fail = gone_fail [OF assms(1)] and fail' = gone_fail [OF closed]
  show "\<forall>x \<in> set (fst (sg_exec S up fmt ev s)). \<exists>w err. x = SgReject w err"
    using assms(2) fail(1) fail'(1)
    by (cases ev) (auto simp: socket_callback_def msg sg_onerror_def sg_ontimeout_def sg_onclose_def Let_def split_beta)
  show "tracker_gone (snd (sg_exec S up fmt ev s))"
    using assms fail(2) fail'(2) ws [OF fail'(2)]
    by (cases ev) (auto simp: socket_callback_def msg sg_onerror_def sg_ontimeout_def sg_onclose_def sg_onopen_def attempt_over_def
        Let_def split_beta closed, auto simp: tracker_gone_def)
qed

text \<open>The two joined.\<close>

abbreviation node_silent :: "node_step \<Rightarrow> bool" where
  "node_silent x \<equiv> list_all (\<lambda>y. \<not> reaches_out y) (fst x) \<and> off_network (snd x)"

lemma off_network_connects [simp]: "off_network (n\<lparr>an_connects := cs\<rparr>) = off_network n"
  by (simp add: off_network_def)

lemma gone_pm_effects: "list_all pm_harmless fx \<Longrightarrow> off_network n \<Longrightarrow> node_silent (pm_effects e fx n)"
proof (induction fx arbitrary: n)
  case (Cons x fx)
  have g: "tracker_gone (an_signaling n)" using Cons.prems(2) by (simp add: off_network_def)
  have "node_silent (pm_effect_done e x n)"
    using Cons.prems gone_disconnect [OF g]
    by (cases x) (auto simp: pm_effect_done_def tracker_disconnect_def off_network_def split_beta)
  then show ?case using Cons.IH [of "snd (pm_effect_done e x n)"] Cons.prems(1) by (simp add: split_beta)
qed simp

lemma gone_peers_step: "off_network n \<Longrightarrow> pm_silent x \<Longrightarrow> node_silent (peers_step e x n)"
  unfolding peers_step_def by (rule gone_pm_effects) (simp_all add: off_network_def)

lemma gone_sg_effects: "\<forall>x \<in> set fx. \<exists>w err. x = SgReject w err \<Longrightarrow> off_network n \<Longrightarrow> node_silent (sg_effects e fx n)"
proof (induction fx arbitrary: n)
  case (Cons x fx)
  then obtain w err where x: "x = SgReject w err" by auto
  show ?case using Cons.IH [of "snd (sg_effect_done e x n)"] Cons.prems by (simp add: x sg_effect_done_def split_beta)
qed simp

lemma gone_node_exec:
  assumes "off_network n"
  shows "node_silent (node_exec e ev n)"
proof -
  have n: "an_isDestroyed n" "peers_gone (an_peers n)" "tracker_gone (an_signaling n)" "\<not> oc_running (an_circuit n)"
    using assms by (simp_all add: off_network_def)
  show ?thesis
  proof (cases ev)
    case (NLevel level)
    then show ?thesis using n
      by (auto simp: setAnonymityLevel_def setLevel_def off_network_def list_all_iff split: option.split)
  next
    case (NPeer op)
    then show ?thesis using assms gone_peers_step [OF assms gone_exec [OF n(2)]] by simp
  next
    case (NSocket s)
    show ?thesis
    proof (cases "socket_callback s")
      case True
      note g = gone_socket [OF n(3) True, of "pc_S (ne_cfg e)" "ne_up e" "ne_fmt e"]
      have "off_network (n\<lparr>an_signaling := snd (sg_exec (pc_S (ne_cfg e)) (ne_up e) (ne_fmt e) s (an_signaling n))\<rparr>)"
        using assms g(2) by (simp add: off_network_def)
      from gone_sg_effects [OF g(1) this] show ?thesis using NSocket True by (simp add: socket_step_def)
    qed (use assms NSocket in simp)
  next
    case (NConnect i)
    have "pm_silent (tracker_connected (an_peers n))" using n(2) by (simp add: tracker_connected_def peers_gone_def)
    then have "node_silent (peers_step e (tracker_connected (an_peers n)) (n\<lparr>an_connects := jm_del i (an_connects n)\<rparr>))"
      using assms by (intro gone_peers_step) simp_all
    then show ?thesis using NConnect assms by (auto simp: connect_resumed_def split: option.split)
  next
    case NDetach
    have "pm_silent (detach_timeout (an_peers n))" using n(2) by (simp add: detach_timeout_def)
    then show ?thesis using NDetach gone_peers_step [OF assms] by simp
  next
    case NReannounce
    have "pm_silent (reannounce_tick (trackerConnected n) (an_peers n), an_peers n)"
      using n(2) by (simp add: reannounce_tick_def peers_gone_def)
    then show ?thesis using NReannounce gone_peers_step [OF assms] by simp
  qed (use assms n in \<open>simp_all add: node_start_def node_stop_def setTrackerUrl_def\<close>)
qed

lemma gone_node_run: "off_network n \<Longrightarrow> node_silent (node_run evs n)"
proof (induction evs arbitrary: n)
  case (Cons x evs)
  obtain e ev where x: "x = (e, ev)" by force
  have "node_silent (node_exec e ev n)" by (rule gone_node_exec [OF Cons.prems])
  then show ?case using Cons.IH [of "snd (node_exec e ev n)"] by (simp add: x split_beta)
qed simp

subsection \<open>What a node keeps until it stops\<close>

definition gens_ok :: "signaling \<Rightarrow> bool" where
  "gens_ok s \<longleftrightarrow> (\<forall>w a. jm_get (sg_attempts s) w = Some a \<longrightarrow> at_generation a \<le> sg_generation s)"

lemma gens_same: "gens_ok s \<Longrightarrow> sg_attempts s' = sg_attempts s \<Longrightarrow> sg_generation s \<le> sg_generation s' \<Longrightarrow> gens_ok s'"
  unfolding gens_ok_def by (auto intro: order_trans)

lemma gens_set: "gens_ok s \<Longrightarrow> jm_get (sg_attempts s) w = Some a \<Longrightarrow> at_generation a' = at_generation a \<Longrightarrow> gens_ok (set_attempt w a' s)"
  by (auto simp: gens_ok_def set_attempt_def)

lemma gens_closeSocket: "gens_ok s \<Longrightarrow> gens_ok (snd (closeSocket s))"
  by (erule gens_same) simp_all

lemma gens_disconnect: "gens_ok s \<Longrightarrow> gens_ok (snd (sg_disconnect s))"
  by (erule gens_same) (simp_all add: sg_disconnect_def)

lemma gens_setUrl: "gens_ok s \<Longrightarrow> gens_ok (snd (snd (setUrl up url s)))"
proof -
  assume s: "gens_ok s"
  obtain fx s1 where d: "sg_disconnect s = (fx, s1)" by force
  have "gens_ok s1" using gens_disconnect [OF s] by (simp add: d)
  then have "gens_ok (s1\<lparr>sg_url := u\<rparr>)" for u by (simp add: gens_ok_def)
  then show ?thesis using s by (simp add: setUrl_def d split: option.split sum.split)
qed

lemma gens_connect: "gens_ok s \<Longrightarrow> gens_ok (snd (snd (sg_connect w i s)))"
proof -
  assume s: "gens_ok s"
  obtain fx s1 where c: "closeSocket s = (fx, s1)" by force
  have s1: "gens_ok s1" using gens_closeSocket [OF s] by (simp add: c)
  have "gens_ok (s1\<lparr>sg_generation := Suc (sg_generation s1), sg_ws := Some w, sg_pending := Some w, sg_ready := r,
      sg_attempts := jm_set w a (sg_attempts s1)\<rparr>)" if "at_generation a = Suc (sg_generation s1)" for a r
    using s1 that by (auto simp: gens_ok_def intro: le_SucI)
  then show ?thesis using s by (simp add: sg_connect_def c split: option.split)
qed

lemma gens_fail: "gens_ok s \<Longrightarrow> gens_ok (snd (sg_fail err w s))"
  by (auto simp: sg_fail_def Let_def split_beta intro: gens_set gens_closeSocket [OF gens_set] split: option.split)

lemma gens_onHello: "gens_ok s \<Longrightarrow> jm_get (sg_attempts s) w = Some a \<Longrightarrow> gens_ok (snd (onHello S fmt w a m s))"
  by (auto simp: onHello_def intro: gens_fail gens_set split: server_msg.split sum.split)

lemma gens_onmessage: "gens_ok s \<Longrightarrow> gens_ok (snd (sg_onmessage S fmt w d s))"
  by (auto simp: sg_onmessage_def intro: gens_fail gens_onHello gens_set split: option.split server_msg.split)

lemma gens_ready [simp]: "gens_ok (s\<lparr>sg_ready := r\<rparr>) = gens_ok s" "gens_ok (s\<lparr>sg_ws := w\<rparr>) = gens_ok s"
  "gens_ok (s\<lparr>sg_pending := p\<rparr>) = gens_ok s"
  by (simp_all add: gens_ok_def)

lemma gens_exec: "gens_ok s \<Longrightarrow> gens_ok (snd (sg_exec S up fmt ev s))"
  by (cases ev)
    (simp_all add: gens_setUrl gens_connect gens_disconnect gens_onmessage gens_fail sg_onerror_def sg_ontimeout_def sg_onclose_def
      sg_onopen_def attempt_over_def Let_def split_beta)

text \<open>Until it is stopped the generations are in order; a node that is destroyed is off the network.\<close>

definition keeps_on :: "bool \<Rightarrow> aether \<Rightarrow> bool" where
  "keeps_on d n \<longleftrightarrow> gens_ok (an_signaling n) \<and> an_isDestroyed n = d"

lemma keeps_on_simps [simp]:
  "keeps_on d (n\<lparr>an_peers := p\<rparr>) = keeps_on d n" "keeps_on d (n\<lparr>an_connects := cs\<rparr>) = keeps_on d n"
  "keeps_on d (n\<lparr>an_circuit := c\<rparr>) = keeps_on d n"
  by (simp_all add: keeps_on_def)

lemma keeps_tracker_connect: "keeps_on d n \<Longrightarrow> keeps_on d (snd (tracker_connect n))"
  using gens_connect [of "an_signaling n" "an_nextSocket n" "Some (an_identity n)"]
  by (auto simp: tracker_connect_def keeps_on_def split: prod.split sg_outcome.split)

lemma keeps_pm_effects: "keeps_on d n \<Longrightarrow> keeps_on d (snd (pm_effects e fx n))"
proof (induction fx arbitrary: n)
  case (Cons x fx)
  have "keeps_on d (snd (pm_effect_done e x n))"
    using Cons.prems keeps_tracker_connect gens_disconnect [of "an_signaling n"]
    by (cases x) (auto simp: pm_effect_done_def tracker_disconnect_def keeps_on_def split_beta)
  then show ?case using Cons.IH [of "snd (pm_effect_done e x n)"] by (simp add: split_beta)
qed simp

lemma keeps_peers_step: "keeps_on d n \<Longrightarrow> keeps_on d (snd (peers_step e x n))"
  by (simp add: peers_step_def keeps_pm_effects)

lemma keeps_sg_effects: "keeps_on d n \<Longrightarrow> keeps_on d (snd (sg_effects e fx n))"
proof (induction fx arbitrary: n)
  case (Cons x fx)
  have "keeps_on d (snd (sg_effect_done e x n))"
    using Cons.prems by (cases x) (auto simp: sg_effect_done_def intro: keeps_peers_step)
  then show ?case using Cons.IH [of "snd (sg_effect_done e x n)"] by (simp add: split_beta)
qed simp

lemma keeps_node_exec:
  assumes "keeps_on False n" "ev \<noteq> NStop"
  shows "keeps_on False (snd (node_exec e ev n))"
proof -
  have n: "gens_ok (an_signaling n)" "\<not> an_isDestroyed n" using assms(1) by (simp_all add: keeps_on_def)
  show ?thesis
  proof (cases ev)
    case NStart
    then show ?thesis using assms(1) n
      by (auto simp: node_start_def Let_def split_beta intro!: keeps_peers_step) (simp add: keeps_on_def)
  next
    case (NSetUrl url)
    have "keeps_on False (n\<lparr>an_signaling := snd (snd (setUrl (ne_up e) url (an_signaling n)))\<rparr>)"
      using gens_setUrl [OF n(1)] n(2) by (simp add: keeps_on_def)
    then show ?thesis using NSetUrl assms(1)
      by (auto simp: setTrackerUrl_def Let_def split_beta intro!: keeps_peers_step split: option.split prod.splits)
  next
    case (NSocket s)
    have "keeps_on False (n\<lparr>an_signaling := snd (sg_exec (pc_S (ne_cfg e)) (ne_up e) (ne_fmt e) s (an_signaling n))\<rparr>)"
      using gens_exec [OF n(1)] n(2) by (simp add: keeps_on_def)
    then show ?thesis using NSocket assms(1) by (simp add: socket_step_def keeps_sg_effects)
  next
    case (NConnect i)
    then show ?thesis using assms(1) by (auto simp: connect_resumed_def intro: keeps_peers_step split: option.split)
  qed (use assms in \<open>simp_all add: keeps_peers_step setAnonymityLevel_def split_beta\<close>)
qed

subsection \<open>Stopping\<close>

lemma disconnect_all_facts:
  "jm_get (pm_peers (snd (disconnect_all ps s))) q = (if q \<in> set ps then None else jm_get (pm_peers s) q)"
  "pm_stopped (snd (disconnect_all ps s)) = pm_stopped s" "pm_reannounce (snd (disconnect_all ps s)) = pm_reannounce s"
  "pm_detach (snd (disconnect_all ps s)) = pm_detach s"
  "list_all pm_harmless (fst (disconnect_all ps s))"
  "q \<in> set ps \<Longrightarrow> jm_get (pm_peers s) q = Some w \<Longrightarrow> ClosePeer q (wp_conn w) \<in> set (fst (disconnect_all ps s))"
proof (induction ps arbitrary: s)
  case (Cons p ps)
  have d: "pm_stopped (snd (pm_disconnect p s)) = pm_stopped s" "pm_reannounce (snd (pm_disconnect p s)) = pm_reannounce s"
    "pm_detach (snd (pm_disconnect p s)) = pm_detach s" "list_all pm_harmless (fst (pm_disconnect p s))"
    "jm_get (pm_peers s) p = Some w \<Longrightarrow> ClosePeer p (wp_conn w) \<in> set (fst (pm_disconnect p s))"
    for s
    by (simp_all add: pm_disconnect_def split: option.split)
  have step: "snd (disconnect_all (p # ps) s) = snd (disconnect_all ps (snd (pm_disconnect p s)))"
    "fst (disconnect_all (p # ps) s) = fst (pm_disconnect p s) @ fst (disconnect_all ps (snd (pm_disconnect p s)))"
    for s
    by (simp_all add: split_beta Let_def)
  {
    case (1 s) then show ?case unfolding step using Cons.IH(1) by (simp add: disconnect_get)
  next
    case (2 s) then show ?case unfolding step using Cons.IH(2) d(1) by simp
  next
    case (3 s) then show ?case unfolding step using Cons.IH(3) d(2) by simp
  next
    case (4 s) then show ?case unfolding step using Cons.IH(4) d(3) by simp
  next
    case (5 s) then show ?case unfolding step using Cons.IH(5) d(4) by simp
  next
    case (6 s)
    show ?case
    proof (cases "q = p")
      case True
      then show ?thesis unfolding step using d(5) 6 by simp
    next
      case False
      then show ?thesis unfolding step using Cons.IH(6) 6 by (simp add: disconnect_get)
    qed
  }
qed simp_all

lemma pm_stop_gone:
  "peers_gone (snd (pm_stop s))" "\<exists>fx. fst (pm_stop s) = TrackerDisconnect # fx \<and> list_all pm_harmless fx"
  "pm_reannounce (snd (pm_stop s)) = False" "pm_detach (snd (pm_stop s)) = False"
  "jm_get (pm_peers s) q = Some w \<Longrightarrow> ClosePeer q (wp_conn w) \<in> set (fst (pm_stop s))"
proof -
  let ?s = "s\<lparr>pm_stopped := True, pm_reannounce := False, pm_detach := False, pm_pendingSignals := []\<rparr>"
  let ?ps = "jm_keys (pm_peers s)"
  note f = disconnect_all_facts [where ps = ?ps and s = ?s]
  have "jm_get (pm_peers (snd (disconnect_all ?ps ?s))) q = None" for q
    using f(1) [where q = q] by (auto simp: jm_has_iff [symmetric] jm_has_def)
  then have "pm_peers (snd (disconnect_all ?ps ?s)) = []"
    by (cases "pm_peers (snd (disconnect_all ?ps ?s))") (auto, metis option.distinct(1))
  then show "peers_gone (snd (pm_stop s))" using f(2) by (simp add: peers_gone_def pm_stop_def split_beta Let_def)
  show "\<exists>fx. fst (pm_stop s) = TrackerDisconnect # fx \<and> list_all pm_harmless fx"
    using f(5) by (simp add: pm_stop_def split_beta Let_def)
  show "pm_reannounce (snd (pm_stop s)) = False" "pm_detach (snd (pm_stop s)) = False"
    using f(3,4) by (simp_all add: pm_stop_def split_beta Let_def)
  show "ClosePeer q (wp_conn w) \<in> set (fst (pm_stop s))" if "jm_get (pm_peers s) q = Some w"
    using disconnect_all_facts(6) [where q = q and ps = ?ps and s = ?s and w = w] that by (simp add: pm_stop_def split_beta Let_def) (metis jm_has_iff jm_has_def option.distinct(1))
qed

lemma gens_gone: "gens_ok s \<Longrightarrow> tracker_gone (snd (sg_disconnect s))"
  by (auto simp: gens_ok_def tracker_gone_def sg_disconnect_def less_Suc_eq_le)

lemma pm_effects_close: "ClosePeer p i \<in> set fx \<Longrightarrow> NPm (ClosePeer p i) \<in> set (fst (pm_effects e fx n))"
proof (induction fx arbitrary: n)
  case (Cons x fx)
  show ?case
  proof (cases "x = ClosePeer p i")
    case True
    then show ?thesis by (simp add: pm_effect_done_def split_beta)
  next
    case False
    then show ?thesis using Cons.IH [of "snd (pm_effect_done e x n)"] Cons.prems by (simp add: split_beta)
  qed
qed simp

lemma oc_destroy_stops:
  "oc_running (snd (oc_destroy c)) = False" "oc_coverTimer (snd (oc_destroy c)) = False" "oc_pexTimer (snd (oc_destroy c)) = False"
  "oc_pending (snd (oc_destroy c)) = []" "oc_queue (snd (oc_destroy c)) = []"
  by (simp_all add: oc_destroy_def oc_stop_def)

text \<open>What the effects of the manager leave alone.\<close>

definition same_parts :: "aether \<Rightarrow> aether \<Rightarrow> bool" where
  "same_parts n n' \<longleftrightarrow> n' = n\<lparr>an_signaling := an_signaling n', an_nextSocket := an_nextSocket n', an_connects := an_connects n',
     an_nextConnect := an_nextConnect n'\<rparr>"

lemma same_partsD:
  assumes "same_parts n n'"
  shows "an_board n' = an_board n" "an_thread n' = an_thread n" "an_schro n' = an_schro n" "an_heartbeat n' = an_heartbeat n"
    "an_circuit n' = an_circuit n" "an_replication n' = an_replication n" "an_maintainerTimer n' = an_maintainerTimer n"
    "an_zoneTimer n' = an_zoneTimer n" "an_zones n' = an_zones n" "an_peers n' = an_peers n" "an_isDestroyed n' = an_isDestroyed n"
  using assms by (cases n; cases n'; simp add: same_parts_def)+

lemma same_parts_pm_effects: "same_parts n (snd (pm_effects e fx n))"
proof (induction fx arbitrary: n)
  case (Cons x fx)
  have "same_parts n (snd (pm_effect_done e x n))"
    by (cases x) (auto simp: pm_effect_done_def tracker_connect_def tracker_disconnect_def same_parts_def split_beta split: prod.split sg_outcome.split)
  moreover have "same_parts n1 n2 \<Longrightarrow> same_parts n2 n3 \<Longrightarrow> same_parts n1 n3" for n1 n2 n3
    by (cases n1, cases n2, cases n3) (simp add: same_parts_def)
  ultimately show ?case using Cons.IH [of "snd (pm_effect_done e x n)"] by (simp add: split_beta)
qed (simp add: same_parts_def)

text \<open>A stop, taken apart: \<open>n1\<close> is the node when the manager is stopped.\<close>

definition stopping :: "node_env \<Rightarrow> aether \<Rightarrow> aether" where
  "stopping e n =
     (let s = schro_destroy (an_schro n) in
      n\<lparr>an_isDestroyed := True, an_isStarted := False, an_board := step_state (bo_clear (an_board n)),
        an_thread := step_state (to_clear (ne_orch e) (an_thread n)), an_circuit := snd (oc_destroy (an_circuit n)),
        an_heartbeat := hb_stop (an_heartbeat n), an_maintainerTimer := False,
        an_replication := replication_destroy (an_replication n), an_zoneTimer := False,
        an_zones := an_zones n\<lparr>zn_decreasePending := False\<rparr>, an_gossip := gossip_destroy (an_gossip n),
        an_schro := s\<lparr>sm_mailbox := stopMaintenance (sm_mailbox s), sm_router := hint_router_destroy (sm_router s)\<rparr>\<rparr>)"

lemma stopping_parts:
  "an_peers (stopping e n) = an_peers n" "an_isDestroyed (stopping e n)"
  "an_board (stopping e n) = step_state (bo_clear (an_board n))"
  "an_thread (stopping e n) = step_state (to_clear (ne_orch e) (an_thread n))"
  "an_circuit (stopping e n) = snd (oc_destroy (an_circuit n))" "an_heartbeat (stopping e n) = hb_stop (an_heartbeat n)"
  "\<not> an_maintainerTimer (stopping e n)" "\<not> an_zoneTimer (stopping e n)"
  "an_replication (stopping e n) = replication_destroy (an_replication n)"
  "an_zones (stopping e n) = an_zones n\<lparr>zn_decreasePending := False\<rparr>"
  "an_schro (stopping e n) = schro_destroy (an_schro n)\<lparr>sm_mailbox := stopMaintenance (sm_mailbox (schro_destroy (an_schro n))),
     sm_router := hint_router_destroy (sm_router (schro_destroy (an_schro n)))\<rparr>"
  by (simp_all add: stopping_def Let_def)

lemma node_stop_state:
  assumes "\<not> an_isDestroyed n"
  shows "snd (node_stop e n) = (snd (peers_step e (pm_stop (an_peers n)) (stopping e n)))
      \<lparr>an_db := st_lock (an_db (snd (peers_step e (pm_stop (an_peers n)) (stopping e n))))\<rparr>"
    "set (fst (peers_step e (pm_stop (an_peers n)) (stopping e n))) \<subseteq> set (fst (node_stop e n))"
  using assms by (auto simp: node_stop_def stopping_def split_beta Let_def)

lemma node_stop_off:
  assumes "gens_ok (an_signaling n)" "\<not> an_isDestroyed n"
  shows "off_network (snd (node_stop e n))"
proof -
  obtain fx where fx: "fst (pm_stop (an_peers n)) = TrackerDisconnect # fx" "list_all pm_harmless fx"
    using pm_stop_gone(2) by blast
  let ?n1 = "stopping e n\<lparr>an_peers := snd (pm_stop (an_peers n))\<rparr>"
  let ?n2 = "snd (tracker_disconnect ?n1)"
  have "off_network ?n2"
    using gens_gone [OF assms(1)] pm_stop_gone(1) [of "an_peers n"]
    by (simp add: off_network_def tracker_disconnect_def split_beta stopping_def Let_def oc_destroy_stops)
  from gone_pm_effects [OF fx(2) this, of e]
  have "off_network (snd (peers_step e (pm_stop (an_peers n)) (stopping e n)))"
    by (simp add: peers_step_def fx(1) pm_effect_done_def split_beta)
  then show ?thesis unfolding node_stop_state(1) [OF assms(2)] by (simp add: off_network_def)
qed

lemma wire_keeps: "keeps_on False (wire_node up c idn trip slots st)"
proof -
  have "gens_ok signaling_init" by (simp add: gens_ok_def signaling_init_def)
  then show ?thesis using gens_setUrl by (simp add: keeps_on_def wire_node_def tracker_client_def split: option.split)
qed

lemma node_run_kept: "keeps_on False n \<or> off_network n \<Longrightarrow> keeps_on False (snd (node_run evs n)) \<or> off_network (snd (node_run evs n))"
proof (induction evs arbitrary: n)
  case (Cons x evs)
  obtain e ev where x: "x = (e, ev)" by force
  have "keeps_on False (snd (node_exec e ev n)) \<or> off_network (snd (node_exec e ev n))"
  proof (cases "off_network n")
    case False
    then have k: "keeps_on False n" using Cons.prems by blast
    show ?thesis
    proof (cases "ev = NStop")
      case True
      then show ?thesis using k node_stop_off [of n e] by (simp add: keeps_on_def)
    qed (use keeps_node_exec [OF k] in blast)
  qed (use gone_node_exec in blast)
  from Cons.IH [OF this] show ?case by (simp add: x split_beta)
qed simp


lemma bo_clear_off:
  "bo_statsTimer (step_state (bo_clear s)) = None" "bo_verdictTimer (step_state (bo_clear s)) = False"
  "bo_syncDebounce (step_state (bo_clear s)) = False"
  by (simp_all add: bo_clear_def bo_stopStats_def then_step_def effects_def bo_notify_def)

lemma to_clear_off:
  "to_verdictTimer (step_state (to_clear e s)) = False" "to_syncDebounce (step_state (to_clear e s)) = False"
  by (simp_all add: to_clear_def then_step_def effects_def to_updateStatus_def to_notify_def getSortedPosts_def dag_new_def Let_def)


text \<open>A started node with one open connection.\<close>

definition toy_config :: node_config where
  "toy_config = \<lparr>nc_trackerUrl = None, nc_releaseMode = Adaptive, nc_anonymityLevel = None, nc_circuit = toy_options, nc_persistent = False,
     nc_passphrase = ''p'', nc_vaultParams = \<lparr>vp_opsLimit = 1, vp_memLimit = 1\<rparr>\<rparr>"

definition toy_aether :: aether where
  "toy_aether =
     (let n = wire_node (\<lambda>_. None) toy_config toy_node None None \<lparr>st_db = True, st_vault = None, st_disk = empty_disk\<rparr> in
      n\<lparr>an_isStarted := True, an_peers := (an_peers n)\<lparr>pm_peers := [(''p'', wp_new 3 True)]\<rparr>,
        an_heartbeat := hb_start (an_heartbeat n)\<rparr>)"


end
