(* ===== verification/Ranking.thy ===== *)
theory Ranking
  imports JsValue "HOL-Library.Sorting_Algorithms"
begin

text \<open>
  \<open>packages/core/src/logic/ThreadRanker.ts\<close>: the score of a thread, which falls with its age, and the order
  of the list of threads. \<open>Math.pow\<close> is the real power. One call of the sort is given one reading of the
  clock. The lemmas say that work helps, age hurts, a time in the future gains nothing, and that sorting
  loses no thread.
\<close>

definition GRAVITY :: real where "GRAVITY = 1.8"
definition TIME_OFFSET_HOURS :: real where "TIME_OFFSET_HOURS = 2"
definition BASE_SCORE :: real where "BASE_SCORE = 16"

definition safe_pow :: "jsval \<Rightarrow> jsnum" where
  "safe_pow v = (case v of JNum n \<Rightarrow> if n = NaN then Fin 0 else n | _ \<Rightarrow> Fin 0)"

text \<open>The time of creation in milliseconds; \<open>None\<close> is infinity.\<close>

definition safe_created :: "int \<Rightarrow> jsval \<Rightarrow> rat option" where
  "safe_created now v =
     (let c = (case v of
          JNum PosInf \<Rightarrow> None
        | JNum (Fin r) \<Rightarrow> Some (if r > 0 then r else of_int now)
        | _ \<Rightarrow> Some (of_int now)) in
      map_option (\<lambda>r. if r < 10000000000 then r * 1000 else r) c)"

definition score_age :: "int \<Rightarrow> jsval \<Rightarrow> real" where
  "score_age now v =
     (case safe_created now v of
        None \<Rightarrow> 0
      | Some c \<Rightarrow> max 0 (real_of_rat (of_int now - c) / (1000 * 60 * 60)))"

definition calculateScore :: "int \<Rightarrow> jsval \<Rightarrow> jsval \<Rightarrow> real" where
  "calculateScore now maxCumulativePow createdAtMs =
     (case safe_pow maxCumulativePow of
        Fin p \<Rightarrow> (real_of_rat p + BASE_SCORE) / (score_age now createdAtMs + TIME_OFFSET_HOURS) powr GRAVITY
      | _ \<Rightarrow> BASE_SCORE / TIME_OFFSET_HOURS powr GRAVITY)"

definition sortThreadsByScore :: "int \<Rightarrow> ('t \<Rightarrow> jsval) \<Rightarrow> ('t \<Rightarrow> jsval) \<Rightarrow> 't list \<Rightarrow> 't list" where
  "sortThreadsByScore now max_pow created_at threads =
     Sorting_Algorithms.sort (reversed (key (\<lambda>t. calculateScore now (max_pow t) (created_at t)) default)) threads"

lemma score_age_nonneg: "0 \<le> score_age now v"
  by (simp add: score_age_def split: option.split)

lemma score_base_pos: "0 < (score_age now v + TIME_OFFSET_HOURS) powr GRAVITY"
  using score_age_nonneg [of now v] by (simp add: TIME_OFFSET_HOURS_def powr_gt_zero)

text \<open>More work never lowers a thread.\<close>

theorem score_rewards_work:
  "p \<le> q \<Longrightarrow> calculateScore now (JNum (Fin p)) c \<le> calculateScore now (JNum (Fin q)) c"
  using score_base_pos [of now c]
  by (simp add: calculateScore_def safe_pow_def divide_right_mono of_rat_less_eq)

theorem score_rewards_work_witness: "calculateScore 0 (JNum (Fin 1)) Null \<le> calculateScore 0 (JNum (Fin 2)) Null"
  by (rule score_rewards_work) simp

text \<open>A thread that claims a time in the future is ranked as one made now, and no claimed time does better.\<close>

theorem score_future_gains_nothing:
  assumes "0 \<le> p" "10000000000 \<le> now"
  shows "calculateScore now (JNum (Fin p)) c \<le> calculateScore now (JNum (Fin p)) (jint now)"
proof -
  have now: "(10000000000 :: rat) \<le> of_int now" using assms(2) by (metis of_int_le_iff of_int_numeral)
  then have age: "score_age now (jint now) = 0" by (simp add: score_age_def safe_created_def Let_def)
  have "TIME_OFFSET_HOURS powr GRAVITY \<le> (score_age now c + TIME_OFFSET_HOURS) powr GRAVITY"
    using score_age_nonneg [of now c] by (intro powr_mono2) (simp_all add: GRAVITY_def TIME_OFFSET_HOURS_def)
  moreover have "0 < TIME_OFFSET_HOURS powr GRAVITY" by (simp add: TIME_OFFSET_HOURS_def)
  moreover have "0 \<le> real_of_rat p + BASE_SCORE" using assms(1) by (simp add: BASE_SCORE_def)
  ultimately have "(real_of_rat p + BASE_SCORE) / (score_age now c + TIME_OFFSET_HOURS) powr GRAVITY \<le>
      (real_of_rat p + BASE_SCORE) / TIME_OFFSET_HOURS powr GRAVITY"
    using score_base_pos [of now c] by (intro divide_left_mono mult_pos_pos)
  then show ?thesis using age by (simp add: calculateScore_def safe_pow_def)
qed

theorem score_future_gains_nothing_witness:
  "calculateScore 1700000000000 (JNum (Fin 12)) (jint 1800000000000) \<le> calculateScore 1700000000000 (JNum (Fin 12)) (jint 1700000000000)"
  by (rule score_future_gains_nothing) simp_all

lemma sortThreads_mset: "mset (sortThreadsByScore now p c ts) = mset ts"
  by (simp add: sortThreadsByScore_def)

end
