(* ===== verification/TrustedGuards.thy ===== *)
theory TrustedGuards
  imports NodeIdentity
begin

text \<open>
  The signed list of trusted guards: \<open>packages/core/src/trust/TrustedGuards.ts\<close>. An operator declares a guard
  with the key of the node; maintainers sign the list of declarations, k of n. The lemmas show what an accepted
  list entails, and that a list signed by enough maintainers in turn is accepted.

  The base64 text of libsodium is an argument. The message behind a rejection is not modelled.
\<close>

record base64 =
  b64_enc :: "bytes \<Rightarrow> string"
  b64_dec :: "string \<Rightarrow> bytes option"

text \<open>What libsodium documents: decoding is the inverse of encoding, whose alphabet has no white space.\<close>

definition base64_law :: "base64 \<Rightarrow> bool" where
  "base64_law B \<longleftrightarrow> (\<forall>bs. b64_dec B (b64_enc B bs) = Some bs \<and> (\<forall>c \<in> set (b64_enc B bs). \<not> is_ws c))"

subsection \<open>Constants and data\<close>

definition GUARD_DECL_DOMAIN :: bytes where "GUARD_DECL_DOMAIN = utf8 ''AETHER/v1/guard-decl''"
definition GUARD_LIST_DOMAIN :: bytes where "GUARD_LIST_DOMAIN = utf8 ''AETHER/v1/guard-list''"
definition GUARD_STRING_PREFIX :: string where "GUARD_STRING_PREFIX = ''aether-guard:''"
definition GUARD_LIST_PREFIX :: string where "GUARD_LIST_PREFIX = ''aether-guards:''"

definition MAX_GUARDS :: nat where [simp]: "MAX_GUARDS = 512"
definition MAX_REVOKED :: nat where [simp]: "MAX_REVOKED = 4096"
definition MAX_VALIDITY_MS :: int where [simp]: "MAX_VALIDITY_MS = 180 * 24 * 60 * 60 * 1000"
definition CLOCK_SKEW_MS :: int where [simp]: "CLOCK_SKEW_MS = 10 * 60 * 1000"
definition MAX_SIGNATURES :: nat where [simp]: "MAX_SIGNATURES = 16"
definition MAX_STRING_LENGTH :: nat where [simp]: "MAX_STRING_LENGTH = 2 * 1024 * 1024"

record keyset =
  ks_threshold :: int
  ks_keys :: "bytes list"

record trusted_guard =
  tg_peerId :: peer_id
  tg_pubkey :: bytes
  tg_powCounter :: int

record guard_list =
  gl_version :: int
  gl_issuedAt :: int
  gl_expiresAt :: int
  gl_guards :: "string list"
  gl_revoked :: "string list"

datatype guard_reject =
    GMalformed | GTooLarge | GNoKeyset | GInsufficientSignatures | GRollback | GExpired | GNotYetValid
  | GValidityTooLong | GBadGuard | GTooManyGuards

datatype guard_result = GAccepted guard_list "trusted_guard list" | GRejected guard_reject

type_synonym guard_sig = "string \<times> bytes"

definition starts_with :: "string \<Rightarrow> string \<Rightarrow> bool" where
  "starts_with p s \<longleftrightarrow> take (length p) s = p"

definition maintainerKeyId :: "sodium \<Rightarrow> bytes \<Rightarrow> string" where
  "maintainerKeyId S pubkey = toHex (take 8 (sha256 S pubkey))"

definition isSafeTime :: "jsval \<Rightarrow> bool" where
  "isSafeTime v \<longleftrightarrow> is_safe_integer v \<and> 0 \<le> int_of v"

subsection \<open>Declarations\<close>

definition declarationMessage :: "msgpack \<Rightarrow> peer_id \<Rightarrow> bytes \<Rightarrow> int \<Rightarrow> int \<Rightarrow> bytes" where
  "declarationMessage M peerId pubkey powCounter issuedAt =
     GUARD_DECL_DOMAIN @ mp_encode M (JArr [jint 1, JStr peerId, JBytes pubkey, jint powCounter, jint issuedAt])"

definition guard_value :: "node_identity \<Rightarrow> int \<Rightarrow> bytes \<Rightarrow> jsval" where
  "guard_value n issuedAt sig =
     JArr [jint 1, JStr (nid_peerId n), JBytes (nid_pubkey n), jint (nid_powCounter n), jint issuedAt, JBytes sig]"

definition createGuardString :: "sodium \<Rightarrow> msgpack \<Rightarrow> base64 \<Rightarrow> node_identity \<Rightarrow> int \<Rightarrow> string" where
  "createGuardString S M B n issuedAt =
     (let sig = sign_detached S (declarationMessage M (nid_peerId n) (nid_pubkey n) (nid_powCounter n) issuedAt) (nid_privkey n) in
      GUARD_STRING_PREFIX @ b64_enc B (mp_encode M (guard_value n issuedAt sig)))"

definition guard_claim :: "peer_id \<Rightarrow> bytes \<Rightarrow> int \<Rightarrow> jsval" where
  "guard_claim peerId pubkey powCounter =
     JObj [(''peerId'', JStr peerId), (''pubkey'', JBytes pubkey), (''powCounter'', jint powCounter)]"

definition parseGuardString :: "sodium \<Rightarrow> msgpack \<Rightarrow> base64 \<Rightarrow> node_id_pow_params \<Rightarrow> string \<Rightarrow> trusted_guard option res" where
  "parseGuardString S M B params text =
     (if \<not> starts_with GUARD_STRING_PREFIX text then Inr None
      else if length text > 4096 then Inr None
      else
        (case Option.bind (b64_dec B (drop (length GUARD_STRING_PREFIX) text)) (mp_decode M) of
           Some (JArr [v, JStr peerId, pubkeyRaw, powCounter, issuedAt, sigRaw]) \<Rightarrow>
             if v \<noteq> jint 1 \<or> \<not> isSafeTime issuedAt then Inr None
             else if \<not> is_safe_integer powCounter \<or> int_of powCounter < 0 then Inr None
             else
               rbind (toBytes pubkeyRaw) (\<lambda>pubkey. rbind (toBytes sigRaw) (\<lambda>sig.
                 Inr (if length pubkey \<noteq> SIGN_PUBLICKEYBYTES \<or> length sig \<noteq> SIGN_BYTES then None
                      else if verify_detached S sig
                          (declarationMessage M peerId pubkey (int_of powCounter) (int_of issuedAt)) pubkey \<noteq> Some True then None
                      else if \<not> verifyClaim S (guard_claim peerId pubkey (int_of powCounter)) params then None
                      else Some \<lparr>tg_peerId = peerId, tg_pubkey = pubkey, tg_powCounter = int_of powCounter\<rparr>)))
         | _ \<Rightarrow> Inr None))"

subsection \<open>Lists\<close>

definition list_fields :: "guard_list \<Rightarrow> jsval list" where
  "list_fields c =
     [jint 1, jint (gl_version c), jint (gl_issuedAt c), jint (gl_expiresAt c), JArr (map JStr (gl_guards c)),
      JArr (map JStr (gl_revoked c))]"

definition listMessage :: "msgpack \<Rightarrow> guard_list \<Rightarrow> bytes" where
  "listMessage M c = GUARD_LIST_DOMAIN @ mp_encode M (JArr (list_fields c))"

definition validateContentShape :: "guard_list \<Rightarrow> unit res" where
  "validateContentShape c =
     (if \<bar>gl_version c\<bar> > max_safe \<or> gl_version c < 1 then Inl RangeError
      else if gl_issuedAt c < 0 \<or> gl_issuedAt c > max_safe \<or> gl_expiresAt c < 0 \<or> gl_expiresAt c > max_safe \<or>
        gl_expiresAt c \<le> gl_issuedAt c then Inl RangeError
      else if gl_expiresAt c - gl_issuedAt c > MAX_VALIDITY_MS then Inl RangeError
      else if length (gl_guards c) > MAX_GUARDS then Inl RangeError
      else if length (gl_revoked c) > MAX_REVOKED then Inl RangeError
      else Inr ())"

fun parse_sigs :: "jsval list \<Rightarrow> guard_sig list option res" where
  "parse_sigs [] = Inr (Some [])"
| "parse_sigs (s # ss) =
     (case s of
        JArr [JStr i, b] \<Rightarrow> rbind (toBytes b) (\<lambda>sig. rbind (parse_sigs ss) (\<lambda>r. Inr (map_option ((#) (i, sig)) r)))
      | _ \<Rightarrow> Inr None)"

fun strings_of :: "jsval list \<Rightarrow> string list option" where
  "strings_of [] = Some []"
| "strings_of (JStr s # vs) = map_option ((#) s) (strings_of vs)"
| "strings_of (_ # vs) = None"

definition decodeListString :: "msgpack \<Rightarrow> base64 \<Rightarrow> string \<Rightarrow> (guard_list \<times> guard_sig list) option res" where
  "decodeListString M B text =
     (if \<not> starts_with GUARD_LIST_PREFIX text then Inr None
      else if length text > MAX_STRING_LENGTH then Inr None
      else
        (case Option.bind (b64_dec B (trim (drop (length GUARD_LIST_PREFIX) text))) (mp_decode M) of
           Some (JArr [v, version, issuedAt, expiresAt, JArr guards, JArr revoked, JArr sigs]) \<Rightarrow>
             if v \<noteq> jint 1 then Inr None
             else if \<not> is_safe_integer version \<or> int_of version < 1 then Inr None
             else if \<not> isSafeTime issuedAt \<or> \<not> isSafeTime expiresAt then Inr None
             else
               (case (strings_of guards, strings_of revoked) of
                  (Some gs, Some rs) \<Rightarrow>
                    if length sigs > MAX_SIGNATURES then Inr None
                    else rbind (parse_sigs sigs) (\<lambda>r. Inr (map_option (Pair
                      \<lparr>gl_version = int_of version, gl_issuedAt = int_of issuedAt, gl_expiresAt = int_of expiresAt,
                       gl_guards = gs, gl_revoked = rs\<rparr>) r))
                | _ \<Rightarrow> Inr None)
         | _ \<Rightarrow> Inr None))"

definition readGuardListUnverified :: "msgpack \<Rightarrow> base64 \<Rightarrow> string \<Rightarrow> guard_list option res" where
  "readGuardListUnverified M B text = rbind (decodeListString M B (trim text)) (\<lambda>r. Inr (map_option fst r))"

definition sig_value :: "guard_sig \<Rightarrow> jsval" where
  "sig_value s = JArr [JStr (fst s), JBytes (snd s)]"

definition list_value :: "guard_list \<Rightarrow> guard_sig list \<Rightarrow> jsval" where
  "list_value c sigs = JArr (list_fields c @ [JArr (map sig_value sigs)])"

definition signGuardList :: "sodium \<Rightarrow> msgpack \<Rightarrow> base64 \<Rightarrow> guard_list \<Rightarrow> bytes \<Rightarrow> string option \<Rightarrow> string res" where
  "signGuardList S M B content sk existing =
     rbind (validateContentShape content) (\<lambda>_.
     rbind (case existing of
              None \<Rightarrow> Inr []
            | Some old \<Rightarrow>
                if old = [] then Inr []
                else rbind (decodeListString M B old) (\<lambda>r.
                  case r of
                    None \<Rightarrow> Inl (OtherError ''existing list is malformed'')
                  | Some (c, sigs) \<Rightarrow>
                      if length (listMessage M c) \<noteq> length (listMessage M content) then Inl TypeError
                      else if listMessage M c \<noteq> listMessage M content then Inl (OtherError ''existing list has different content'')
                      else Inr sigs)) (\<lambda>sigs.
       let keyId = maintainerKeyId S (sign_pk S sk);
           filtered = filter (\<lambda>s. fst s \<noteq> keyId) sigs @ [(keyId, sign_detached S (listMessage M content) sk)] in
       Inr (GUARD_LIST_PREFIX @ b64_enc B (mp_encode M (list_value content filtered)))))"

subsection \<open>Checking a list\<close>

definition keys_by_id :: "sodium \<Rightarrow> bytes list \<Rightarrow> (string, bytes) jsmap" where
  "keys_by_id S keys = fold (\<lambda>k. jm_set (maintainerKeyId S k) k) keys []"

definition count_signer :: "sodium \<Rightarrow> bytes list \<Rightarrow> bytes \<Rightarrow> guard_sig \<Rightarrow> string list \<Rightarrow> string list" where
  "count_signer S keys message s valid =
     (case jm_get (keys_by_id S keys) (fst s) of
        None \<Rightarrow> valid
      | Some key \<Rightarrow>
          if fst s \<in> set valid \<or> length (snd s) \<noteq> SIGN_BYTES then valid
          else if verify_detached S (snd s) message key = Some True then valid @ [fst s] else valid)"

definition valid_signers :: "sodium \<Rightarrow> bytes list \<Rightarrow> bytes \<Rightarrow> guard_sig list \<Rightarrow> string list" where
  "valid_signers S keys message sigs = fold (count_signer S keys message) sigs []"

text \<open>The loop over the declarations: \<open>None\<close> rejects the list.\<close>

fun check_guards ::
  "sodium \<Rightarrow> msgpack \<Rightarrow> base64 \<Rightarrow> node_id_pow_params \<Rightarrow> string list \<Rightarrow> string list \<Rightarrow> peer_id list \<Rightarrow> trusted_guard list option res" where
  "check_guards S M B params revoked [] seen = Inr (Some [])"
| "check_guards S M B params revoked (g # gs) seen =
     rbind (parseGuardString S M B params g) (\<lambda>parsed.
       case parsed of
         None \<Rightarrow> Inr None
       | Some p \<Rightarrow>
           if tg_peerId p \<in> set seen then Inr None
           else rbind (check_guards S M B params revoked gs (tg_peerId p # seen)) (\<lambda>r.
             Inr (if tg_peerId p \<in> set revoked then r else map_option ((#) p) r)))"

definition is_rollback :: "int option \<Rightarrow> int \<Rightarrow> bool" where
  "is_rollback minVersion version = (case minVersion of None \<Rightarrow> False | Some v \<Rightarrow> version < v)"

definition judge_list ::
  "sodium \<Rightarrow> msgpack \<Rightarrow> base64 \<Rightarrow> node_id_pow_params \<Rightarrow> int \<Rightarrow> int option \<Rightarrow> keyset \<Rightarrow> guard_list \<Rightarrow> guard_sig list \<Rightarrow> guard_result res" where
  "judge_list S M B params now minVersion ks content sigs =
     (if ks_keys ks = [] \<or> ks_threshold ks < 1 \<or> ks_threshold ks > int (length (ks_keys ks)) then Inr (GRejected GNoKeyset)
      else if int (length (valid_signers S (ks_keys ks) (listMessage M content) sigs)) < ks_threshold ks
        then Inr (GRejected GInsufficientSignatures)
      else if is_rollback minVersion (gl_version content) then Inr (GRejected GRollback)
      else if gl_expiresAt content \<le> gl_issuedAt content \<or>
        gl_expiresAt content - gl_issuedAt content > MAX_VALIDITY_MS then Inr (GRejected GValidityTooLong)
      else if gl_issuedAt content > now + CLOCK_SKEW_MS then Inr (GRejected GNotYetValid)
      else if now \<ge> gl_expiresAt content then Inr (GRejected GExpired)
      else if length (gl_guards content) > MAX_GUARDS \<or> length (gl_revoked content) > MAX_REVOKED
        then Inr (GRejected GTooManyGuards)
      else rbind (check_guards S M B params (gl_revoked content) (gl_guards content) []) (\<lambda>r.
        Inr (case r of None \<Rightarrow> GRejected GBadGuard | Some guards \<Rightarrow> GAccepted content guards)))"

definition verifyGuardList ::
  "sodium \<Rightarrow> msgpack \<Rightarrow> base64 \<Rightarrow> node_id_pow_params \<Rightarrow> int \<Rightarrow> int option \<Rightarrow> keyset \<Rightarrow> string \<Rightarrow> guard_result res" where
  "verifyGuardList S M B params now minVersion ks text =
     (if length text > MAX_STRING_LENGTH then Inr (GRejected GTooLarge)
      else rbind (decodeListString M B (trim text)) (\<lambda>decoded.
        case decoded of
          None \<Rightarrow> Inr (GRejected GMalformed)
        | Some (content, sigs) \<Rightarrow> judge_list S M B params now minVersion ks content sigs))"

subsection \<open>What an accepted list entails\<close>

lemma keys_by_id_Some: "jm_get (keys_by_id S keys) i = Some k \<Longrightarrow> k \<in> set keys \<and> maintainerKeyId S k = i"
proof -
  have "jm_get (fold (\<lambda>k. jm_set (maintainerKeyId S k) k) keys m) i = Some k \<Longrightarrow>
      jm_get m i = Some k \<or> (k \<in> set keys \<and> maintainerKeyId S k = i)" for m
  proof (induction keys arbitrary: m)
    case (Cons x keys)
    then show ?case using Cons.IH [of "jm_set (maintainerKeyId S x) x m"] by (auto split: if_splits)
  qed simp
  from this [of "[]"] show "jm_get (keys_by_id S keys) i = Some k \<Longrightarrow> k \<in> set keys \<and> maintainerKeyId S k = i"
    by (simp add: keys_by_id_def)
qed

definition signer_ok :: "sodium \<Rightarrow> bytes list \<Rightarrow> bytes \<Rightarrow> string \<Rightarrow> bool" where
  "signer_ok S keys message i \<longleftrightarrow>
     (\<exists>key sig. jm_get (keys_by_id S keys) i = Some key \<and> verify_detached S sig message key = Some True)"

lemma valid_signers_ok:
  "distinct (valid_signers S keys message sigs) \<and> (\<forall>i \<in> set (valid_signers S keys message sigs). signer_ok S keys message i)"
proof -
  have "distinct v \<and> (\<forall>i \<in> set v. signer_ok S keys message i) \<Longrightarrow>
      distinct (fold (count_signer S keys message) sigs v) \<and> (\<forall>i \<in> set (fold (count_signer S keys message) sigs v). signer_ok S keys message i)" for v
  proof (induction sigs arbitrary: v)
    case (Cons s sigs)
    have "distinct (count_signer S keys message s v) \<and> (\<forall>i \<in> set (count_signer S keys message s v). signer_ok S keys message i)"
      using Cons.prems by (auto simp: count_signer_def signer_ok_def split: option.split)
    then show ?case using Cons.IH by simp
  qed simp
  from this [of "[]"] show ?thesis by (simp add: valid_signers_def)
qed

definition guard_proved :: "sodium \<Rightarrow> msgpack \<Rightarrow> node_id_pow_params \<Rightarrow> trusted_guard \<Rightarrow> bool" where
  "guard_proved S M params g \<longleftrightarrow>
     verifyClaim S (guard_claim (tg_peerId g) (tg_pubkey g) (tg_powCounter g)) params \<and>
     (\<exists>issuedAt sig. verify_detached S sig
        (declarationMessage M (tg_peerId g) (tg_pubkey g) (tg_powCounter g) issuedAt) (tg_pubkey g) = Some True)"

lemma parseGuardString_proved:
  assumes "parseGuardString S M B params text = Inr (Some g)"
  shows "guard_proved S M params g"
proof -
  obtain v pid pk pc t sg pubkey sig where x: "Option.bind (b64_dec B (drop (length GUARD_STRING_PREFIX) text)) (mp_decode M) =
      Some (JArr [v, JStr pid, pk, pc, t, sg])"
    using assms by (auto simp: parseGuardString_def split: if_splits option.splits jsval.splits list.splits)
  show ?thesis using assms unfolding parseGuardString_def x
    by (auto simp: rbind_Inr_iff guard_proved_def split: if_splits) blast
qed

lemma check_guards_sound:
  "check_guards S M B params revoked gs seen = Inr (Some guards) \<Longrightarrow>
     (\<forall>g \<in> set guards. guard_proved S M params g \<and> tg_peerId g \<notin> set revoked \<and> tg_peerId g \<notin> set seen) \<and>
     distinct (map tg_peerId guards)"
proof (induction gs arbitrary: seen guards)
  case (Cons t gs)
  obtain p r where p: "parseGuardString S M B params t = Inr (Some p)" "tg_peerId p \<notin> set seen"
    "check_guards S M B params revoked gs (tg_peerId p # seen) = Inr (Some r)"
    "guards = (if tg_peerId p \<in> set revoked then r else p # r)"
    using Cons.prems by (auto simp: rbind_Inr_iff split: option.splits if_splits)
  note ih = Cons.IH [OF p(3)]
  have "guard_proved S M params p" by (rule parseGuardString_proved [OF p(1)])
  then show ?case using p(2,4) ih by auto
qed simp

lemma judge_list_Accepted:
  assumes "judge_list S M B params now minVersion ks c sigs = Inr (GAccepted content guards)"
  shows "content = c" "1 \<le> ks_threshold ks" "ks_threshold ks \<le> int (length (valid_signers S (ks_keys ks) (listMessage M c) sigs))"
    "\<not> is_rollback minVersion (gl_version c)" "gl_issuedAt c \<le> now + CLOCK_SKEW_MS"
    "now < gl_expiresAt c" "gl_expiresAt c - gl_issuedAt c \<le> MAX_VALIDITY_MS"
    "check_guards S M B params (gl_revoked c) (gl_guards c) [] = Inr (Some guards)"
  using assms unfolding judge_list_def
  by (cases "check_guards S M B params (gl_revoked c) (gl_guards c) []"; auto split: if_split_asm option.split_asm)+

text \<open>C33: A list is accepted only if enough maintainers vouch for it: at least the threshold of different keys of
  the key set validly signed exactly this content, it is no older than the version already accepted, it is in its
  period of validity, and every guard taken from it is declared by a valid signature of its own bound identity, is
  not revoked, and occurs once. Anything else rejects the list as a whole.\<close>

theorem guard_list_sound:
  assumes "verifyGuardList S M B params now minVersion ks text = Inr (GAccepted content guards)"
  shows "(\<exists>signers. distinct signers \<and> set signers \<subseteq> set (ks_keys ks) \<and> 1 \<le> ks_threshold ks \<and>
      ks_threshold ks \<le> int (length signers) \<and>
      (\<forall>k \<in> set signers. \<exists>sig. verify_detached S sig (listMessage M content) k = Some True)) \<and>
    (\<forall>v. minVersion = Some v \<longrightarrow> v \<le> gl_version content) \<and>
    gl_issuedAt content \<le> now + CLOCK_SKEW_MS \<and> now < gl_expiresAt content \<and>
    gl_expiresAt content - gl_issuedAt content \<le> MAX_VALIDITY_MS \<and>
    distinct (map tg_peerId guards) \<and>
    (\<forall>g \<in> set guards. guard_proved S M params g \<and> tg_peerId g \<notin> set (gl_revoked content))"
proof -
  let ?m = "listMessage M content"
  obtain c sigs where "judge_list S M B params now minVersion ks c sigs = Inr (GAccepted content guards)"
    using assms by (auto simp: verifyGuardList_def rbind_Inr_iff split: if_splits option.splits)
  note j = judge_list_Accepted [OF this]
  note a = j(2-8) [folded j(1)]
  let ?ids = "valid_signers S (ks_keys ks) ?m sigs"
  let ?key = "\<lambda>i. the (jm_get (keys_by_id S (ks_keys ks)) i)"
  have ids: "distinct ?ids" "\<And>i. i \<in> set ?ids \<Longrightarrow> signer_ok S (ks_keys ks) ?m i" using valid_signers_ok by blast+
  have key: "?key i \<in> set (ks_keys ks) \<and> maintainerKeyId S (?key i) = i \<and> (\<exists>sig. verify_detached S sig ?m (?key i) = Some True)"
    if "i \<in> set ?ids" for i
    using ids(2) [OF that] keys_by_id_Some [of S "ks_keys ks" i] by (auto simp: signer_ok_def)
  have "inj_on ?key (set ?ids)" by (rule inj_on_inverseI [of _ "maintainerKeyId S"]) (use key in blast)
  then have d: "distinct (map ?key ?ids)" using ids(1) by (simp add: distinct_map)
  note g = check_guards_sound [OF a(7)]
  have "\<exists>signers. distinct signers \<and> set signers \<subseteq> set (ks_keys ks) \<and> 1 \<le> ks_threshold ks \<and>
      ks_threshold ks \<le> int (length signers) \<and> (\<forall>k \<in> set signers. \<exists>sig. verify_detached S sig ?m k = Some True)"
    using d key a(1,2) by (intro exI [of _ "map ?key ?ids"]) auto
  moreover have "\<forall>v. minVersion = Some v \<longrightarrow> v \<le> gl_version content" using a(3) by (auto simp: is_rollback_def)
  ultimately show ?thesis using a(4-6) g by blast
qed

subsection \<open>Signing in turn\<close>

lemma trim_plain: "\<forall>c \<in> set s. \<not> is_ws c \<Longrightarrow> trim s = s"
proof -
  assume w: "\<forall>c \<in> set s. \<not> is_ws c"
  have d: "\<forall>c \<in> set t. \<not> is_ws c \<Longrightarrow> dropWhile is_ws t = t" for t by (cases t) auto
  show ?thesis using w by (simp add: trim_def d)
qed

definition list_text :: "msgpack \<Rightarrow> base64 \<Rightarrow> guard_list \<Rightarrow> guard_sig list \<Rightarrow> string" where
  "list_text M B c sigs = GUARD_LIST_PREFIX @ b64_enc B (mp_encode M (list_value c sigs))"

definition list_text_ok :: "msgpack \<Rightarrow> base64 \<Rightarrow> guard_list \<Rightarrow> guard_sig list \<Rightarrow> bool" where
  "list_text_ok M B c sigs \<longleftrightarrow>
     mp_roundtrip M (list_value c sigs) \<and> length (list_text M B c sigs) \<le> MAX_STRING_LENGTH \<and> length sigs \<le> MAX_SIGNATURES"

lemma strings_of_JStr: "strings_of (map JStr ss) = Some ss"
  by (induction ss) simp_all

lemma parse_sigs_values: "parse_sigs (map sig_value sigs) = Inr (Some sigs)"
  by (induction sigs) (simp_all add: sig_value_def)

lemma list_text_plain: "base64_law B \<Longrightarrow> \<forall>c \<in> set (list_text M B c' sigs). \<not> is_ws c"
  by (auto simp: list_text_def GUARD_LIST_PREFIX_def base64_law_def is_ws_def)

lemma decode_list_text:
  assumes "base64_law B" "list_text_ok M B c sigs" "validateContentShape c = Inr ()"
  shows "decodeListString M B (list_text M B c sigs) = Inr (Some (c, sigs))"
proof -
  let ?e = "b64_enc B (mp_encode M (list_value c sigs))"
  have b: "b64_dec B ?e = Some (mp_encode M (list_value c sigs))" "trim ?e = ?e"
    using assms(1) trim_plain [of ?e] by (auto simp: base64_law_def)
  have v: "is_safe_integer (jint (gl_version c))" "1 \<le> gl_version c" "isSafeTime (jint (gl_issuedAt c))" "isSafeTime (jint (gl_expiresAt c))"
    using assms(3) by (auto simp: validateContentShape_def isSafeTime_def split: if_splits)
  have "starts_with GUARD_LIST_PREFIX (list_text M B c sigs)" "drop (length GUARD_LIST_PREFIX) (list_text M B c sigs) = ?e"
    by (simp_all add: list_text_def starts_with_def)
  then show ?thesis using assms(2) b v strings_of_JStr parse_sigs_values
    by (simp add: decodeListString_def list_text_ok_def mp_roundtrip_def) (simp add: list_value_def list_fields_def)
qed

fun sign_in_turn :: "sodium \<Rightarrow> msgpack \<Rightarrow> base64 \<Rightarrow> guard_list \<Rightarrow> bytes list \<Rightarrow> string option \<Rightarrow> string option res" where
  "sign_in_turn S M B c [] existing = Inr existing"
| "sign_in_turn S M B c (sk # sks) existing =
     rbind (signGuardList S M B c sk existing) (\<lambda>t. sign_in_turn S M B c sks (Some t))"

definition sig_by :: "sodium \<Rightarrow> msgpack \<Rightarrow> guard_list \<Rightarrow> bytes \<Rightarrow> guard_sig" where
  "sig_by S M c sk = (maintainerKeyId S (sign_pk S sk), sign_detached S (listMessage M c) sk)"

lemma signGuardList_adds:
  assumes "base64_law B" "validateContentShape c = Inr ()"
    "existing = None \<and> sigs = [] \<or> (list_text_ok M B c sigs \<and> existing = Some (list_text M B c sigs))"
    "maintainerKeyId S (sign_pk S sk) \<notin> fst ` set sigs"
  shows "signGuardList S M B c sk existing = Inr (list_text M B c (sigs @ [sig_by S M c sk]))"
proof -
  have f: "filter (\<lambda>s. fst s \<noteq> maintainerKeyId S (sign_pk S sk)) sigs = sigs"
    using assms(4) by (intro filter_True ballI) (metis imageI)
  have ne: "list_text M B c sigs \<noteq> []" by (simp add: list_text_def GUARD_LIST_PREFIX_def)
  show ?thesis using assms(2,3) f ne decode_list_text [OF assms(1) _ assms(2), of M sigs]
    by (auto simp: signGuardList_def sig_by_def Let_def) (simp_all add: list_text_def)
qed

lemma sign_in_turn_collects:
  assumes "base64_law B" "validateContentShape c = Inr ()"
    "\<And>k. 1 \<le> k \<Longrightarrow> k \<le> length (pre @ sks) \<Longrightarrow> list_text_ok M B c (take k (map (sig_by S M c) (pre @ sks)))"
    "distinct (map (\<lambda>sk. maintainerKeyId S (sign_pk S sk)) (pre @ sks))"
    "pre = [] \<and> existing = None \<or> (pre \<noteq> [] \<and> existing = Some (list_text M B c (map (sig_by S M c) pre)))" "pre @ sks \<noteq> []"
  shows "sign_in_turn S M B c sks existing = Inr (Some (list_text M B c (map (sig_by S M c) (pre @ sks))))"
  using assms(3-6)
proof (induction sks arbitrary: pre existing)
  case (Cons sk sks)
  let ?sigs = "map (sig_by S M c) pre"
  have "existing = None \<and> ?sigs = [] \<or> (list_text_ok M B c ?sigs \<and> existing = Some (list_text M B c ?sigs))"
  proof (cases "pre = []")
    case False
    then show ?thesis using Cons.prems(1) [of "length pre"] Cons.prems(3) by (cases pre) simp_all
  next
    case True
    then show ?thesis using Cons.prems(3) by simp
  qed
  moreover have "maintainerKeyId S (sign_pk S sk) \<notin> fst ` set ?sigs"
    using Cons.prems(2) by (auto simp: sig_by_def image_image)
  ultimately have "signGuardList S M B c sk existing = Inr (list_text M B c (?sigs @ [sig_by S M c sk]))"
    by (rule signGuardList_adds [OF assms(1,2)])
  then have s: "signGuardList S M B c sk existing = Inr (list_text M B c (map (sig_by S M c) (pre @ [sk])))" by simp
  have "sign_in_turn S M B c sks (Some (list_text M B c (map (sig_by S M c) (pre @ [sk])))) =
      Inr (Some (list_text M B c (map (sig_by S M c) ((pre @ [sk]) @ sks))))"
    using Cons.prems by (intro Cons.IH) simp_all
  then show ?case using s by simp
qed simp

lemma keys_by_id_get:
  assumes "distinct (map (maintainerKeyId S) keys)" "k \<in> set keys"
  shows "jm_get (keys_by_id S keys) (maintainerKeyId S k) = Some k"
proof -
  have "maintainerKeyId S k \<notin> maintainerKeyId S ` set keys \<Longrightarrow>
      jm_get (fold (\<lambda>k. jm_set (maintainerKeyId S k) k) keys m) (maintainerKeyId S k) = jm_get m (maintainerKeyId S k)" for m keys
    by (induction keys arbitrary: m) auto
  note other = this
  have "jm_get (fold (\<lambda>k. jm_set (maintainerKeyId S k) k) keys m) (maintainerKeyId S k) = Some k" for m
    using assms
  proof (induction keys arbitrary: m)
    case (Cons x keys)
    then show ?case
    proof (cases "k \<in> set keys")
      case False
      then have "x = k" "maintainerKeyId S k \<notin> maintainerKeyId S ` set keys" using Cons.prems by auto
      then show ?thesis using other [of keys] by simp
    qed simp
  qed simp
  then show ?thesis by (simp add: keys_by_id_def)
qed

lemma valid_signers_all:
  assumes "sign_law S" "distinct (map (maintainerKeyId S) keys)" "sign_pk S ` set sks \<subseteq> set keys"
    "distinct (map (\<lambda>sk. maintainerKeyId S (sign_pk S sk)) sks)"
  shows "valid_signers S keys (listMessage M c) (map (sig_by S M c) sks) = map (\<lambda>sk. maintainerKeyId S (sign_pk S sk)) sks"
proof -
  have "fold (count_signer S keys (listMessage M c)) (map (sig_by S M c) sks) v = v @ map (\<lambda>sk. maintainerKeyId S (sign_pk S sk)) sks"
    if "\<forall>sk \<in> set sks. maintainerKeyId S (sign_pk S sk) \<notin> set v" for v
    using that assms(3,4)
  proof (induction sks arbitrary: v)
    case (Cons sk sks)
    have "jm_get (keys_by_id S keys) (maintainerKeyId S (sign_pk S sk)) = Some (sign_pk S sk)"
      using Cons.prems by (intro keys_by_id_get [OF assms(2)]) simp
    then have "count_signer S keys (listMessage M c) (sig_by S M c sk) v = v @ [maintainerKeyId S (sign_pk S sk)]"
      using Cons.prems(1) by (simp add: count_signer_def sig_by_def sign_lawD [OF assms(1)])
    moreover have "\<forall>x \<in> set sks. maintainerKeyId S (sign_pk S x) \<notin> set (v @ [maintainerKeyId S (sign_pk S sk)])"
      using Cons.prems(1,3) by (auto simp: image_iff)
    ultimately show ?case using Cons.prems Cons.IH [of "v @ [maintainerKeyId S (sign_pk S sk)]"] by simp
  qed simp
  from this [of "[]"] show ?thesis by (simp add: valid_signers_def)
qed

subsection \<open>Honest declarations\<close>

definition guard_operator :: "sodium \<Rightarrow> node_id_pow_params \<Rightarrow> node_identity \<Rightarrow> bool" where
  "guard_operator S params n \<longleftrightarrow> nid_pubkey n = sign_pk S (nid_privkey n) \<and> verifyClaim S (JObj (claim_of n)) params"

definition guard_of :: "node_identity \<Rightarrow> trusted_guard" where
  "guard_of n = \<lparr>tg_peerId = nid_peerId n, tg_pubkey = nid_pubkey n, tg_powCounter = nid_powCounter n\<rparr>"

definition declaration_sig :: "sodium \<Rightarrow> msgpack \<Rightarrow> node_identity \<Rightarrow> int \<Rightarrow> bytes" where
  "declaration_sig S M n t =
     sign_detached S (declarationMessage M (nid_peerId n) (nid_pubkey n) (nid_powCounter n) t) (nid_privkey n)"

definition guard_text_ok :: "sodium \<Rightarrow> msgpack \<Rightarrow> base64 \<Rightarrow> node_identity \<Rightarrow> int \<Rightarrow> bool" where
  "guard_text_ok S M B n t \<longleftrightarrow>
     mp_roundtrip M (guard_value n t (declaration_sig S M n t)) \<and> length (createGuardString S M B n t) \<le> 4096 \<and>
     0 \<le> t \<and> t \<le> max_safe"

lemma parse_created:
  assumes "sign_law S" "base64_law B" "guard_operator S params n" "guard_text_ok S M B n t"
  shows "parseGuardString S M B params (createGuardString S M B n t) = Inr (Some (guard_of n))"
proof -
  let ?sig = "declaration_sig S M n t"
  let ?e = "b64_enc B (mp_encode M (guard_value n t ?sig))"
  have v: "verifyClaim S (guard_claim (nid_peerId n) (nid_pubkey n) (nid_powCounter n)) params"
    "nid_pubkey n = sign_pk S (nid_privkey n)"
    using assms(3) unfolding guard_operator_def claim_of_def guard_claim_def by blast+
  then have c: "\<bar>nid_powCounter n\<bar> \<le> max_safe" "0 \<le> nid_powCounter n"
    by (auto simp: verifyClaim_def guard_claim_def split: if_splits)
  have eq: "createGuardString S M B n t = GUARD_STRING_PREFIX @ ?e"
    by (simp add: createGuardString_def declaration_sig_def Let_def)
  have dec: "Option.bind (b64_dec B ?e) (mp_decode M) = Some (guard_value n t ?sig)"
    using assms(2,4) by (simp add: base64_law_def guard_text_ok_def mp_roundtrip_def)
  have sig: "length ?sig = 64" "verify_detached S ?sig (declarationMessage M (nid_peerId n) (nid_pubkey n) (nid_powCounter n) t) (nid_pubkey n) = Some True"
    "length (nid_pubkey n) = 32"
    using v(2) by (simp_all add: declaration_sig_def sign_lawD [OF assms(1)])
  have t: "isSafeTime (jint t)" using assms(4) by (simp add: isSafeTime_def guard_text_ok_def)
  have l: "\<not> length (GUARD_STRING_PREFIX @ ?e) > 4096" using assms(4) by (simp add: guard_text_ok_def eq)
  have p: "starts_with GUARD_STRING_PREFIX (GUARD_STRING_PREFIX @ ?e)" by (simp add: starts_with_def)
  show ?thesis unfolding eq parseGuardString_def append_eq_conv_conj [THEN iffD1, OF refl, THEN conjunct2]
    using dec p l c t sig v(1) by (simp add: guard_value_def guard_of_def)
qed

lemma check_created:
  assumes "sign_law S" "base64_law B"
    "\<forall>(n, t) \<in> set ns. guard_operator S params n \<and> guard_text_ok S M B n t"
    "distinct (map (nid_peerId \<circ> fst) ns)" "\<forall>(n, t) \<in> set ns. nid_peerId n \<notin> set seen"
  shows "check_guards S M B params revoked (map (\<lambda>(n, t). createGuardString S M B n t) ns) seen =
    Inr (Some (filter (\<lambda>g. tg_peerId g \<notin> set revoked) (map (guard_of \<circ> fst) ns)))"
  using assms(3-5)
proof (induction ns arbitrary: seen)
  case (Cons x ns)
  obtain n t where x: "x = (n, t)" by fastforce
  have p: "parseGuardString S M B params (createGuardString S M B n t) = Inr (Some (guard_of n))"
    using Cons.prems(1) x by (intro parse_created [OF assms(1,2)]) auto
  have i: "tg_peerId (guard_of n) = nid_peerId n" by (simp add: guard_of_def)
  have "\<forall>(m, u) \<in> set ns. nid_peerId m \<notin> set (nid_peerId n # seen)"
    using Cons.prems(2,3) x by force
  from Cons.IH [OF _ _ this] show ?case using Cons.prems x p i by simp
qed simp

text \<open>The list works as intended: when maintainers with different keys sign in turn a well-formed list of the
  declarations of different honest operators, the text they end up with is accepted by everyone whose key set
  contains their keys and asks for no more signatures, in its period of validity, and yields exactly the declared
  guards that are not revoked.\<close>

theorem guard_list_roundtrip:
  assumes "sign_law S" "base64_law B" "validateContentShape c = Inr ()"
    and "\<forall>(n, t) \<in> set ns. guard_operator S params n \<and> guard_text_ok S M B n t"
    and "distinct (map (nid_peerId \<circ> fst) ns)" "gl_guards c = map (\<lambda>(n, t). createGuardString S M B n t) ns"
    and "\<forall>k. 1 \<le> k \<and> k \<le> length sks \<longrightarrow> list_text_ok M B c (take k (map (sig_by S M c) sks))"
    and "distinct (map (maintainerKeyId S) (ks_keys ks))" "sign_pk S ` set sks \<subseteq> set (ks_keys ks)"
    and "distinct (map (sign_pk S) sks)" "1 \<le> ks_threshold ks" "ks_threshold ks \<le> int (length sks)"
    and "gl_issuedAt c \<le> now" "now < gl_expiresAt c"
  shows "\<exists>text. sign_in_turn S M B c sks None = Inr (Some text) \<and>
    verifyGuardList S M B params now (Some (gl_version c)) ks text =
      Inr (GAccepted c (filter (\<lambda>g. tg_peerId g \<notin> set (gl_revoked c)) (map (guard_of \<circ> fst) ns)))"
proof -
  let ?sigs = "map (sig_by S M c) sks"
  let ?text = "list_text M B c ?sigs"
  have inj: "inj_on (maintainerKeyId S) (set (ks_keys ks))" using assms(8) by (simp add: distinct_map)
  then have "inj_on (maintainerKeyId S) (set (map (sign_pk S) sks))" by (rule inj_on_subset) (use assms(9) in simp)
  then have "distinct (map (maintainerKeyId S) (map (sign_pk S) sks))" using assms(10) by (simp only: distinct_map)
  then have d: "distinct (map (\<lambda>sk. maintainerKeyId S (sign_pk S sk)) sks)" by (simp add: o_def)
  have ne: "sks \<noteq> []" using assms(11,12) by auto
  then have "1 \<le> length sks" by (cases sks) simp_all
  then have ok: "list_text_ok M B c ?sigs" using assms(7) by (metis le_refl length_map take_all)
  have signed: "sign_in_turn S M B c sks None = Inr (Some ?text)"
    using sign_in_turn_collects [OF assms(2,3), where pre = "[]" and sks = sks and S = S and M = M and existing = None] assms(7) d ne by simp
  have dec: "decodeListString M B (trim ?text) = Inr (Some (c, ?sigs))"
    using trim_plain [OF list_text_plain [OF assms(2)]] decode_list_text [OF assms(2) ok assms(3)] by simp
  have vs: "length (valid_signers S (ks_keys ks) (listMessage M c) ?sigs) = length sks"
    using valid_signers_all [OF assms(1,8,9) d] by simp
  have n: "length sks \<le> length (ks_keys ks)"
    using assms(9,10) by (metis card_mono distinct_card distinct_map assms(8) finite_set length_map set_map)
  have shape: "gl_issuedAt c < gl_expiresAt c" "gl_expiresAt c - gl_issuedAt c \<le> MAX_VALIDITY_MS"
    "length (gl_guards c) \<le> MAX_GUARDS" "length (gl_revoked c) \<le> MAX_REVOKED"
    using assms(3) by (auto simp: validateContentShape_def split: if_splits)
  have g: "check_guards S M B params (gl_revoked c) (gl_guards c) [] =
      Inr (Some (filter (\<lambda>g. tg_peerId g \<notin> set (gl_revoked c)) (map (guard_of \<circ> fst) ns)))"
    unfolding assms(6) using assms(4,5) by (intro check_created [OF assms(1,2)]) auto
  have "ks_keys ks \<noteq> []" using ne n by auto
  then have "judge_list S M B params now (Some (gl_version c)) ks c ?sigs =
      Inr (GAccepted c (filter (\<lambda>g. tg_peerId g \<notin> set (gl_revoked c)) (map (guard_of \<circ> fst) ns)))"
    using vs n shape g assms(11-14) by (simp add: judge_list_def is_rollback_def)
  moreover have "length ?text \<le> MAX_STRING_LENGTH" using ok by (simp add: list_text_ok_def)
  ultimately show ?thesis using signed dec by (simp add: verifyGuardList_def)
qed

subsection \<open>One guard, one maintainer, computed\<close>

definition url_base64 :: base64 where
  "url_base64 = \<lparr>b64_enc = toBase64, b64_dec = (\<lambda>s. case fromBase64 s of Inl _ \<Rightarrow> None | Inr b \<Rightarrow> Some b)\<rparr>"

lemma url_base64_law: "base64_law url_base64"
proof -
  have ws: "\<not> is_ws (url_char (b64_char n))" if "n < 64" for n
  proof -
    have "of_char (b64_char n) \<notin> {9, 10, 11, 12, 13, 32, 160 :: nat}"
      using that by (auto simp: of_char_b64_char split: if_splits)
    then show ?thesis by (auto simp: is_ws_def url_char_def)
  qed
  have "\<not> is_ws c" if "c \<in> set (toBase64 bs)" for c bs
    using that ws by (auto simp: toBase64_sextets dest!: sextets_bound)
  then show ?thesis by (simp add: base64_law_def url_base64_def fromBase64_toBase64)
qed

definition toy_operator :: node_identity where
  "toy_operator = fromKeyPair toy_sodium (sign_pk toy_sodium [1]) [1] 0"

definition toy_declared :: jsval where
  "toy_declared = guard_value toy_operator 5 (sign_detached toy_sodium GUARD_DECL_DOMAIN [1])"

definition toy_list :: guard_list where
  "toy_list = \<lparr>gl_version = 3, gl_issuedAt = 10, gl_expiresAt = 1000, gl_guards = [GUARD_STRING_PREFIX @ toBase64 [1]], gl_revoked = []\<rparr>"

definition toy_signed :: jsval where
  "toy_signed = list_value toy_list [(maintainerKeyId toy_sodium (sign_pk toy_sodium [2]), sign_detached toy_sodium GUARD_LIST_DOMAIN [2])]"

definition guard_msgpack :: msgpack where
  "guard_msgpack =
     \<lparr>mp_encode = (\<lambda>v. if v = toy_declared then [1] else if v = toy_signed then [2] else []),
      mp_decode = (\<lambda>b. if b = [1] then Some toy_declared else if b = [2] then Some toy_signed else None)\<rparr>"

lemma guard_msgpack_values:
  "mp_encode guard_msgpack toy_declared = [1]" "mp_encode guard_msgpack toy_signed = [2]"
  "mp_encode guard_msgpack (JArr [a, b, c, d, e]) = []" "mp_encode guard_msgpack (JArr (list_fields l)) = []"
  "mp_roundtrip guard_msgpack toy_declared" "mp_roundtrip guard_msgpack toy_signed"
proof -
  have "toy_signed \<noteq> toy_declared" "JArr [a, b, c, d, e] \<noteq> toy_declared" "JArr [a, b, c, d, e] \<noteq> toy_signed"
    "JArr (list_fields l) \<noteq> toy_declared" "JArr (list_fields l) \<noteq> toy_signed"
    by (simp_all add: toy_declared_def toy_signed_def guard_value_def list_value_def list_fields_def)
  then show "mp_encode guard_msgpack toy_declared = [1]" "mp_encode guard_msgpack toy_signed = [2]"
  "mp_encode guard_msgpack (JArr [a, b, c, d, e]) = []" "mp_encode guard_msgpack (JArr (list_fields l)) = []"
  "mp_roundtrip guard_msgpack toy_declared" "mp_roundtrip guard_msgpack toy_signed"
    by (simp_all add: guard_msgpack_def mp_roundtrip_def)
qed

lemma toy_declaration_sig: "declaration_sig toy_sodium guard_msgpack toy_operator 5 = sign_detached toy_sodium GUARD_DECL_DOMAIN [1]"
  by (simp add: declaration_sig_def declarationMessage_def guard_msgpack_values toy_operator_def fromKeyPair_def Let_def)

lemma toy_list_sig: "sig_by toy_sodium guard_msgpack toy_list [2] =
    (maintainerKeyId toy_sodium (sign_pk toy_sodium [2]), sign_detached toy_sodium GUARD_LIST_DOMAIN [2])"
  by (simp add: sig_by_def listMessage_def guard_msgpack_values)

lemma toy_guard_text: "createGuardString toy_sodium guard_msgpack url_base64 toy_operator 5 = GUARD_STRING_PREFIX @ toBase64 [1]"
  using toy_declaration_sig
  by (simp add: createGuardString_def Let_def url_base64_def guard_msgpack_values(1) flip: declaration_sig_def toy_declared_def)

lemma toy_guard_ok: "guard_text_ok toy_sodium guard_msgpack url_base64 toy_operator 5"
proof -
  have "length (toBase64 [1]) \<le> 100" by (simp add: toBase64_sextets Let_def)
  then show ?thesis using guard_msgpack_values(5)
    by (simp add: guard_text_ok_def toy_guard_text toy_declaration_sig GUARD_STRING_PREFIX_def max_safe_def flip: toy_declared_def)
qed

lemma toy_guard_operator: "guard_operator toy_sodium NODE_ID_POW toy_operator"
  using derivePeerId_hex [OF toy_laws(1), of "sign_pk toy_sodium [1]"] sign_lawD(2) [OF toy_laws(2), of "[1]"]
  by (simp add: guard_operator_def toy_operator_def fromKeyPair_def Let_def claim_of_def verifyClaim_def hex_re_def NODE_ID_POW_def)

lemma toy_list_ok: "list_text_ok guard_msgpack url_base64 toy_list [sig_by toy_sodium guard_msgpack toy_list [2]]"
proof -
  have "length (toBase64 [2]) \<le> 100" by (simp add: toBase64_sextets Let_def)
  then show ?thesis
    by (simp add: list_text_ok_def list_text_def toy_list_sig guard_msgpack_values url_base64_def GUARD_LIST_PREFIX_def flip: toy_signed_def)
qed

lemma toy_list_shape: "validateContentShape toy_list = Inr ()"
  by (simp add: validateContentShape_def toy_list_def max_safe_def)

theorem guard_list_roundtrip_witness:
  "\<exists>text. verifyGuardList toy_sodium guard_msgpack url_base64 NODE_ID_POW 20 (Some 3)
     \<lparr>ks_threshold = 1, ks_keys = [sign_pk toy_sodium [2]]\<rparr> text = Inr (GAccepted toy_list [guard_of toy_operator])"
proof -
  have all: "\<forall>k. 1 \<le> k \<and> k \<le> length [[2]] \<longrightarrow> list_text_ok guard_msgpack url_base64 toy_list
      (take k (map (sig_by toy_sodium guard_msgpack toy_list) [[2]]))" using toy_list_ok by (auto simp: le_Suc_eq)
  have gs: "gl_guards toy_list = map (\<lambda>(n, t). createGuardString toy_sodium guard_msgpack url_base64 n t) [(toy_operator, 5)]"
    by (simp add: toy_list_def toy_guard_text)
  have "\<exists>text. sign_in_turn toy_sodium guard_msgpack url_base64 toy_list [[2]] None = Inr (Some text) \<and>
    verifyGuardList toy_sodium guard_msgpack url_base64 NODE_ID_POW 20 (Some (gl_version toy_list))
      \<lparr>ks_threshold = 1, ks_keys = [sign_pk toy_sodium [2]]\<rparr> text =
    Inr (GAccepted toy_list (filter (\<lambda>g. tg_peerId g \<notin> set (gl_revoked toy_list)) (map (guard_of \<circ> fst) [(toy_operator, 5 :: int)])))"
    by (rule guard_list_roundtrip [OF toy_laws(2) url_base64_law toy_list_shape _ _ gs all])
      (simp_all add: toy_guard_ok toy_guard_operator, simp_all add: toy_list_def)
  then show ?thesis by (auto simp: toy_list_def)
qed

theorem guard_list_sound_witness:
  "guard_proved toy_sodium guard_msgpack NODE_ID_POW (guard_of toy_operator)"
proof -
  have d: "decodeListString guard_msgpack url_base64 (trim t) = Inr (Some (toy_list, [sig_by toy_sodium guard_msgpack toy_list [2]]))"
    if "t = list_text guard_msgpack url_base64 toy_list [sig_by toy_sodium guard_msgpack toy_list [2]]" for t
    using toy_list_ok toy_list_shape that trim_plain [OF list_text_plain [OF url_base64_law]]
    by (simp add: decode_list_text [OF url_base64_law])
  let ?ks = "\<lparr>ks_threshold = 1, ks_keys = [sign_pk toy_sodium [2]]\<rparr>"
  let ?t = "list_text guard_msgpack url_base64 toy_list [sig_by toy_sodium guard_msgpack toy_list [2]]"
  have vs: "valid_signers toy_sodium [sign_pk toy_sodium [2]] (listMessage guard_msgpack toy_list) [sig_by toy_sodium guard_msgpack toy_list [2]] =
      [maintainerKeyId toy_sodium (sign_pk toy_sodium [2])]"
    using valid_signers_all [OF toy_laws(2), of "[sign_pk toy_sodium [2]]" "[[2]]" guard_msgpack toy_list] by simp
  have g: "check_guards toy_sodium guard_msgpack url_base64 NODE_ID_POW [] [GUARD_STRING_PREFIX @ toBase64 [1]] [] = Inr (Some [guard_of toy_operator])"
    using parse_created [OF toy_laws(2) url_base64_law toy_guard_operator toy_guard_ok] by (simp add: toy_guard_text)
  have "length ?t \<le> MAX_STRING_LENGTH" using toy_list_ok by (simp add: list_text_ok_def)
  moreover have "judge_list toy_sodium guard_msgpack url_base64 NODE_ID_POW 20 None ?ks toy_list
      [sig_by toy_sodium guard_msgpack toy_list [2]] = Inr (GAccepted toy_list [guard_of toy_operator])"
    using vs g by (simp add: judge_list_def is_rollback_def) (simp add: toy_list_def)
  ultimately have "verifyGuardList toy_sodium guard_msgpack url_base64 NODE_ID_POW 20 None ?ks ?t = Inr (GAccepted toy_list [guard_of toy_operator])"
    using d [OF refl] by (simp add: verifyGuardList_def)
  from guard_list_sound [OF this] show ?thesis by simp
qed

end
