(* ===== verification/Spec2Isabelle.thy ===== *)
theory Spec2Isabelle
  imports Chunked Delivery Dispatcher Node Ranking TrustedGuards
begin

text \<open>
  Aether Web Lite is an anonymous bulletin board without a server. Nodes in browsers and on desktops form a ring-shaped
  mesh of WebRTC connections; posts are packets with a proof of work that are flooded in zones, leave their author's
  node only through an onion circuit, and are kept by the nodes nearest to their topic. A tracker introduces nodes to
  each other. This development models \<open>packages/core/src\<close> and \<open>packages/tracker/src\<close>; paths below are relative
  to \<open>packages/core/src\<close>.

  \<^bold>\<open>The parts and how they interact.\<close> \<open>AetherNode\<close> makes one of each component and hands them to each other.
  Frames of a neighbour reach \<open>PeerManager\<close>, which admits them (handshake, sizes, rates, bans) and hands them to the
  handlers registered with \<open>MessageDispatcher\<close>: gossip router, hint router, mailbox, circuit, peer exchange and
  heartbeat. All these send through \<open>PeerManager\<close>, and what comes from the author goes through \<open>OnionCircuit\<close>
  first. The mailbox keeps entries on the device through \<open>IndexedDBStore\<close>. \<open>SchrodingerMailbox\<close> puts bodies into
  the mailbox under addresses that only the holder of a key can find in the hints that are flooded. The two
  orchestrators turn packets into the board and the thread the user sees, and the user's text into packets.

  \<^bold>\<open>How code is modelled.\<close>
  \<^item> An object is a record, and a method is a function from the record before it to the record after it. What a method
    does to the outside or to a component that is no part of its state is an element of a list of effects it returns,
    in the order of the code. A component that owns another has its record as a field.
  \<^item> An exception is \<open>Inl\<close>, or \<open>None\<close> where only its presence matters; state changes and effects made before it stay.
  \<^item> A callback, a timer or an \<open>await\<close> ends a step. What is left is a task or a pending timer in the state, and an
    event resumes it, so that everything that can come in between can be said. For each component of this kind a
    function \<open>..._exec\<close> does one event and \<open>..._run\<close> a list of them; invariants are shown for all lists of events.
  \<^item> \<open>Map\<close> and \<open>Set\<close> keep the order of insertion and are association lists and distinct lists (\<open>Prelude\<close>); the
    eviction of the oldest key depends on it. Untyped data of other nodes are \<open>jsval\<close> trees (\<open>JsValue\<close>).
  \<^item> Time, random bytes and random draws are arguments. Numbers are exact (integers, rationals and, for scores of
    threads, reals); the rounding of doubles is not modelled. Bytes are \<open>8 word\<close>. Strings are lists of 8-bit code units.
  \<^item> \<open>libsodium\<close>, \<open>@msgpack/msgpack\<close>, the URL parser, the collation of strings and the printing of fractions are
    arguments (\<open>sodium\<close>, \<open>msgpack\<close>, \<open>vault_lib\<close> and functions). A theorem that relies on one of them names the
    documented law it needs (lengths, opening what was sealed, verifying what was signed); \<open>toy_sodium\<close>,
    \<open>toy_msgpack\<close> and the other toy instances satisfy these laws and serve the witnesses.

  \<^bold>\<open>Theories.\<close>
  Foundations: \<open>Prelude\<close> (bytes, maps, sets), \<open>JsValue\<close>, \<open>JsPrim\<close>, \<open>JsText\<close> (values, operators and strings of the
  language), \<open>Json\<close> and \<open>JsonText\<close> (\<open>common/JsonBinary.ts\<close> over JSON text; printing and parsing are inverse),
  \<open>Encoding\<close> (\<open>common/Encoding.ts\<close>), \<open>Sodium\<close> (third-party parameters and their laws), \<open>Codec\<close> (locales of byte
  formats: inverse, canonical, of fixed length).

  Packets: \<open>PowPolicy\<close> (\<open>crypto/PowPolicy.ts\<close>; the preimage determines the header, the search finds the least nonce),
  \<open>Validator\<close> (\<open>network/gossip/PacketValidator.ts\<close>; exactly what is accepted), \<open>PostPacket\<close> (\<open>PacketBuilder\<close>,
  \<open>CryptoEngine\<close>, \<open>MagicFilter\<close>, \<open>PoWEngine\<close>, \<open>Identity\<close> under \<open>crypto/\<close>; what is built is accepted, what is shown was
  signed), \<open>Hint\<close> and \<open>HintRelease\<close> (\<open>network/hint/\<close>: index packets, sealing, slots, release schedule).

  Mesh: \<open>NodeIdentity\<close> (\<open>crypto/NodeIdentity.ts\<close>), \<open>NetGroup\<close>, \<open>RateLimiter\<close>, \<open>Misbehavior\<close>, \<open>Dispatcher\<close>, \<open>Wire\<close>,
  \<open>Chunked\<close>, \<open>Peer\<close> (\<open>WebRTCPeer.ts\<close>), \<open>PeerManager\<close> with its guarantees in \<open>PeerSafety\<close> (bounds, trust only by a proved
  key) and \<open>PeerMesh\<close> (what the outside cannot do to links; the degree comes back to its bound), \<open>Mesh\<close> (peer exchange,
  heartbeat, ring maintenance), all under \<open>network/\<close>.

  Flooding and anonymity: \<open>SeenCache\<close>, \<open>Zone\<close> (\<open>ZoneManager\<close>, \<open>KeyManager\<close>), \<open>Dandelion\<close>, \<open>Gossip\<close> (nothing invalid has an
  effect, one's own posts leave by the circuit only), \<open>Onion\<close> (\<open>crypto/OnionRouter.ts\<close>), \<open>OnionCircuit\<close> (only full cells
  leave; bounds; no replay; a payload gets from author to exit), \<open>HintRouter\<close>.

  Storage: \<open>Vault\<close> and \<open>SecureStore\<close> (\<open>storage/\<close>), \<open>StoreLaws\<close>, \<open>Migration\<close>, \<open>IdentityStore\<close>, \<open>MailboxEntry\<close>,
  \<open>MailStore\<close> (the contract \<open>slot_store\<close> of the mailbox with its store), \<open>EncryptedMailbox\<close> (the encrypted rows are a
  model of it and refine its contents), \<open>DHTMailbox\<close>, \<open>Replication\<close> (with \<open>SyncProtocol.ts\<close>), \<open>Schrodinger\<close>.

  Boards: \<open>ThreadDAG\<close> and \<open>Ranking\<close> (the order of posts and of threads), \<open>Orchestrator\<close> (what both orchestrators
  share), \<open>ThreadView\<close>, \<open>BoardView\<close> (\<open>logic/\<close>; what is shown under every interleaving).

  Tracker: \<open>TrackerProtocol\<close> (both parsers and \<open>TrackerUrl.ts\<close>), \<open>Signaling\<close> (the node's side), \<open>Tracker\<close>
  (\<open>SessionManager.ts\<close> and \<open>TrackerServer.ts\<close> of \<open>packages/tracker/src\<close>), \<open>TrustedGuards\<close> (\<open>trust/TrustedGuards.ts\<close>).

  The whole: \<open>Node\<close> (\<open>node/AetherNode.ts\<close>; starting, stopping for good, wiping). \<open>Delivery\<close> and the theorem below
  follow a reply from the exit of its author's circuit through the routers into the thread a reader has open; the way
  to the exit is \<open>broadcast_fail_closed\<close> in \<open>Gossip\<close> and \<open>payload_crosses_circuit\<close> in \<open>OnionCircuit\<close>.

  \<^bold>\<open>Contracts between the parts.\<close>
  \<open>dedup_cache\<close> (\<open>SeenCache\<close>) is what the routers rely on to flood a packet once; \<open>metered\<close> (\<open>RateLimiter\<close>) gives the
  bound on what a neighbour can inject in a window; \<open>byte_codec\<close>, \<open>canonical_codec\<close> and \<open>fixed_codec\<close> (\<open>Codec\<close>) let a
  value be framed in front of an opaque rest, as a hint is in front of its body; \<open>slot_store\<close> (\<open>MailStore\<close>) is what the
  mailbox needs of its store, held by the store of contents and by the encrypted one; \<open>kept_by_steps\<close>
  (\<open>Orchestrator\<close>) carries a property of single events to runs. Each is interpreted on the definitions of the code.

  \<^bold>\<open>Loops and bounds.\<close>
  Where the code loops over data the recursion is structural or has a measure. Bounds that are arguments are the code's
  own: \<open>solvePow\<close> tries \<open>maxIterations\<close> nonces, \<open>sealHintPow\<close> at most \<open>SEAL_MAX_ITER = 2 ^ 24\<close>, and
  \<open>rebalance_loop\<close> removes at most \<open>MAX_DEGREE * 2\<close> neighbours; \<open>rebalance_restores_degree\<close> shows that this is enough for
  up to 48 of them. \<open>counter_from\<close>, the search for an identity, runs up to the largest safe integer. The loops that draw
  until a draw is unbiased (\<open>secureRandomIndex\<close>, \<open>generateId\<close>) take the list of draws and give \<open>None\<close> when it
  is used up; \<open>secureRandomIndex_unbiased\<close> and \<open>generateId_enough\<close> say which draws are accepted and when they suffice.
  The parser of JSON has fuel \<open>2 * length s + 2\<close>; \<open>json_value_text\<close> shows that the length of a printed value is enough.

  \<^bold>\<open>Not modelled.\<close>
  \<^item> \<open>packages/ui\<close>, \<open>apps/desktop\<close>: rendering and input. \<open>simulation\<close>: experiments on topologies. \<open>client\<close> and \<open>server\<close>:
    the former version, replaced by the packages. \<open>packages/tracker/src/main.ts\<close>: reads the environment.
  \<^item> \<open>common/Logger.ts\<close>, \<open>worker/\<close> and the command line: input and output; the worker calls the modelled search.
    \<open>crypto/DifficultyEstimator.ts\<close> measures the speed of the device. \<open>types.ts\<close>, \<open>index.ts\<close> have no behaviour.
  \<^item> Texts of log messages and of errors shown to the user; the closing of idle sockets by the platform; two operations
    on the store on disk at the same time (each is one step); the rounding of floating-point numbers.
  \<^item> In \<open>Node\<close> the events are those of the owner, of the connections, of the tracker's sockets and of their timers; the
    events of the other components are in their own theories, which take the peer manager as an argument.
\<close>

subsection \<open>From an author to a reader\<close>

lemma built_packet_facts:
  assumes "pb_build S M it now nonce idn k r = Inr packet"
  shows "set_hop_count packet 0 = packet" "\<not> is_absent packet"
    "jget packet ''zone_id'' = jint (computeZoneId (deriveTopicHash S k) (pq_depth r))"
proof -
  obtain c h i n where b: "h = committed_header S k r (roundToMinute now) nonce c" "packet = packet_obj i n h"
    using assms by (elim pb_build_Inr)
  show "set_hop_count packet 0 = packet" "\<not> is_absent packet" by (simp_all add: b(2) packet_obj_def set_hop_count_def is_absent_def)
  show "jget packet ''zone_id'' = jint (computeZoneId (deriveTopicHash S k) (pq_depth r))"
    by (simp add: b jget_packet_obj committed_header_def)
qed

lemma watched_zone:
  assumes "watched_ok z" "d \<le> MAX_DEPTH" "32 \<le> length t"
  shows "isSubscribed (watchTopic t z) (computeZoneId t d)"
proof -
  obtain r z1 where 1: "releaseTopic t False (watchTopic t (watchTopic t z)) = (r, z1)" by force
  obtain r' z2 where 2: "releaseTopic t r z1 = (r', z2)" by force
  show ?thesis using watched_topic_received [OF assms 1 2] by blast
qed

lemma thread_post_fields:
  assumes "post = post_obj inner pt trip" "list_all (\<lambda>(f, v). jget post f = v) fs"
  shows "list_all (\<lambda>(f, v). f = ''thread_root'' \<or> jget (JObj (dp_rest (thread_post packet post t))) f = v) fs"
proof -
  obtain kvs where post: "post = JObj kvs" using assms(1) by (simp add: post_obj_def)
  have same: "jget (JObj (dp_rest (thread_post packet post t))) f = jget post f" if "f \<noteq> ''thread_root''" for f
    using that by (simp add: thread_post_def post)
  show ?thesis
  proof (unfold list_all_iff, clarify)
    fix f v assume "(f, v) \<in> set fs" "jget (JObj (dp_rest (thread_post packet post t))) f \<noteq> v"
    moreover have "jget post f = v" using assms(2) \<open>(f, v) \<in> set fs\<close> by (auto simp: list_all_iff)
    ultimately show "f = ''thread_root''" using same [of f] by blast
  qed
qed

text \<open>C1: A reply reaches its readers. A packet built for a reply is taken by the exit of its author's circuit and sent on, as it
  is, to every trusted neighbour of the exit but the exit itself; a reader's router takes it from there, hands it to
  whoever listens because the reader watches the topic of the thread, whatever depth the author's zones had; and the
  thread the reader has open files the post under its packet, with the author's fields, parents and keys, whatever
  happens in it before it gets to that, as long as the reader stays. When the thread can be put into order, it is what
  the reader sees then.\<close>

theorem reply_reaches_readers:
  assumes built: "pb_build S M it now nonce idn k r = Inr packet" "pq_postType r = 0" "pq_threadId r = t" "pq_depth r \<le> MAX_DEPTH"
    and laws: "aead_law S" "aead_stream_law S" "sign_law S" "sha256_law S" "length (sha512 S k) = 64"
    and codec: "mp_roundtrip M (post_inner S M (roundToMinute now) idn r)"
      "mp_roundtrip M (enc_obj r (mp_encode M (post_inner S M (roundToMinute now) idn r)))"
    and size: "length nonce = 12" "jget packet ''payload'' = JBytes c" "0 < length c" "length c \<le> 2048"
      "int it \<le> max_safe" "0 \<le> now" "now \<le> max_safe"
    and clocks: "\<forall>e \<in> {exit, reader}. now - 840000 \<le> ge_now e \<and> ge_now e \<le> now + 840000"
    and exit: "\<not> seen_has (gs_flooded g) (packet_id_of packet)" "q \<in> set (ge_peers exit)" "gs_isConnected q" "gs_isVerified q"
      "gs_peerId q \<noteq> ge_myPeerId exit"
    and reader: "\<not> seen_has (gs_delivered h) (packet_id_of packet)" "watched_ok z"
      "ge_zone reader = watchTopic (deriveTopicHash S k) z" "l \<in> set (gs_listeners h)"
    and thread: "to_isListening s" "to_boardId s = Some b" "to_threadId s = Some t" "to_threadKey s = Some k"
      "dg_threadId (to_dag s) = t" "packet_id_of packet \<notin> set (to_seenPacketIds s)"
    and run: "s1 = snd (to_run ((e1, ToGossip packet) # evs) s)" "\<forall>(e, ev) \<in> set evs. stays (to_seq s) ev"
      "\<not> jm_has (dg_nodes (to_dag s1)) (packet_id_of packet)"
    and turn: "ov_S e = S" "ov_M e = M" "s2 = step_state (to_exec e (ToResume (to_seq s) x) s1)"
  shows "(\<exists>fx g'. handleExitFluff S exit packet g = Inr (fx, g') \<and>
      SendGossip (gs_peerId q) (JObj [(''packet'', packet)]) \<in> set fx) \<and>
    (\<exists>fx h'. handleGossip S reader sender (JObj [(''packet'', packet)]) h = Inr (fx, h') \<and> DeliverTo l packet \<in> set fx) \<and>
    (\<exists>n. jm_get (dg_nodes (to_dag s2)) (packet_id_of packet) = Some n \<and> dp_thread n = JStr t \<and>
      dp_created n = jint (roundToMinute now) \<and> dp_parents n = JArr (map JStr (pq_parents r)) \<and>
      list_all (\<lambda>(f, v). f = ''thread_root'' \<or> jget (JObj (dp_rest n)) f = v)
        (post_fields r (roundToMinute now) (identity_sign S idn (mp_encode M (JObj (signed_obj r (roundToMinute now)))))) \<and>
      (\<forall>posts. getSortedPosts (ov_dag e) (to_dag s2) = Inr posts \<longrightarrow> to_snapshot s2 = posts))"
proof (intro conjI)
  note f = built_packet_facts [OF built(1)]
  have valid: "validator_check S (ge_now e) False packet = Inr None" if "e \<in> {exit, reader}" for e
    using built_packet_valid [OF built(1) laws(4) size(1-7)] clocks that by blast
  show "\<exists>fx g'. handleExitFluff S exit packet g = Inr (fx, g') \<and> SendGossip (gs_peerId q) (JObj [(''packet'', packet)]) \<in> set fx"
    using exit_floods [OF valid exit(1-5)] f(1) by simp
  have "isSubscribed (ge_zone reader) (int_of (jget packet ''zone_id''))"
    using watched_zone [OF reader(2) built(4), of "deriveTopicHash S k"] laws(5)
    by (simp add: reader(3) f(3) deriveTopicHash_def)
  then show "\<exists>fx h'. handleGossip S reader sender (JObj [(''packet'', packet)]) h = Inr (fx, h') \<and> DeliverTo l packet \<in> set fx"
    using neighbour_delivers [OF valid reader(1) _ reader(4)] by simp
  let ?sig = "identity_sign S idn (mp_encode M (JObj (signed_obj r (roundToMinute now))))"
  define post where "post = post_obj (inner_obj r (roundToMinute now) ?sig) (jint (pq_postType r)) (opt_bytes (ps_tripPubkey ?sig))"
  have opens: "verifyAndDecrypt (ov_S e) (ov_M e) packet k = Inr (Some post)"
    using built_post_opens [OF built(1) refl laws(1-3) codec refl] by (simp add: turn post_def)
  note fs = post_fields_obj [of r "roundToMinute now" ?sig, folded post_def]
  have get: "jget post ''thread_id'' = JStr t" "jget post ''post_type'' = jint 0" "jget post ''created_at'' = jint (roundToMinute now)"
    "jget post ''parents'' = JArr (map JStr (pq_parents r))"
    using fs built(2,3) by (simp_all add: post_fields_def signed_obj_def)
  have "still_waits (to_seq s) (ToOpen b t k packet False NoCont) t s1"
    unfolding run(1) orch_run_Cons
    by (rule to_waiting.run) (use run(2) gossip_queued [OF thread(1-5) f(2) thread(6)] in auto)
  from opened_files [OF opens get(1,2) this run(3) turn(3)]
  show "\<exists>n. jm_get (dg_nodes (to_dag s2)) (packet_id_of packet) = Some n \<and> dp_thread n = JStr t \<and>
      dp_created n = jint (roundToMinute now) \<and> dp_parents n = JArr (map JStr (pq_parents r)) \<and>
      list_all (\<lambda>(f, v). f = ''thread_root'' \<or> jget (JObj (dp_rest n)) f = v) (post_fields r (roundToMinute now) ?sig) \<and>
      (\<forall>posts. getSortedPosts (ov_dag e) (to_dag s2) = Inr posts \<longrightarrow> to_snapshot s2 = posts)"
    using get thread_post_fields [OF post_def fs, of packet t]
    by (intro exI [of _ "thread_post packet post t"]) (simp add: thread_post_def js_or_def)
qed

theorem reply_reaches_readers_witness:
  "\<exists>packet fx g' fx' h' (s2 :: thread_orch) n.
     handleExitFluff tail_sodium toy_env packet gossip_init = Inr (fx, g') \<and> SendGossip ''a'' (JObj [(''packet'', packet)]) \<in> set fx \<and>
     handleGossip tail_sodium
       (toy_env\<lparr>ge_zone := watchTopic (deriveTopicHash tail_sodium (replicate 32 7)) (zone_init\<lparr>zn_depth := 8\<rparr>)\<rparr>) ''me''
       (JObj [(''packet'', packet)]) (onMessage 4 gossip_init) = Inr (fx', h') \<and> DeliverTo 4 packet \<in> set fx' \<and>
     jm_get (dg_nodes (to_dag s2)) (packet_id_of packet) = Some n \<and> jget (JObj (dp_rest n)) ''content'' = JStr ''hello''"
proof -
  let ?k = "replicate 32 7 :: bytes" and ?z = "zone_init\<lparr>zn_depth := 8\<rparr>"
  let ?rd = "toy_env\<lparr>ge_zone := watchTopic (deriveTopicHash tail_sodium ?k) ?z\<rparr>"
  let ?q = "\<lparr>gs_peerId = ''a'', gs_isConnected = True, gs_isVerified = True\<rparr>"
  let ?s = "to_init\<lparr>to_boardId := Some ''tech'', to_threadId := Some ''t1'', to_threadKey := Some ?k, to_dag := dag_new ''t1'',
    to_isListening := True\<rparr>"
  let ?e = "toy_orch_env\<lparr>ov_S := tail_sodium, ov_M := post_msgpack\<rparr>"
  obtain packet where b: "pb_build tail_sodium post_msgpack 1 1700000000000 (replicate 12 1) toy_writer ?k toy_req = Inr packet"
    "jget packet ''payload'' = JBytes toy_sealed"
    using toy_built by blast
  have t: "roundToMinute 1700000000000 = 1699999980000" by (simp add: roundToMinute_def)
  have rt: "mp_roundtrip post_msgpack (post_inner tail_sodium post_msgpack (roundToMinute 1700000000000) toy_writer toy_req)"
    "mp_roundtrip post_msgpack (enc_obj toy_req (mp_encode post_msgpack
       (post_inner tail_sodium post_msgpack (roundToMinute 1700000000000) toy_writer toy_req)))"
    by (simp_all add: t toy_encodes)
  have req: "pq_postType toy_req = 0" "pq_threadId toy_req = ''t1''" "pq_depth toy_req \<le> MAX_DEPTH" by (simp_all add: toy_req_def)
  have sz: "length (replicate 12 (1::byte)) = 12" "0 < length toy_sealed" "length toy_sealed \<le> 2048" "int 1 \<le> max_safe"
    "0 \<le> (1700000000000 :: int)" "1700000000000 \<le> max_safe" "length (sha512 tail_sodium ?k) = 64"
    by (simp_all add: toy_sealed_def POST_MAGIC_def max_safe_def tail_sodium_def toy_sodium_def pad_to_def)
  have cl: "\<forall>e \<in> {toy_env, ?rd}. 1700000000000 - 840000 \<le> ge_now e \<and> ge_now e \<le> 1700000000000 + 840000" by simp
  have ex: "\<not> seen_has (gs_flooded gossip_init) (packet_id_of packet)" "?q \<in> set (ge_peers toy_env)" "gs_isConnected ?q"
    "gs_isVerified ?q" "gs_peerId ?q \<noteq> ge_myPeerId toy_env"
    by (simp_all add: gossip_init_def toy_env_def seen_has_def)
  have rd: "\<not> seen_has (gs_delivered (onMessage 4 gossip_init)) (packet_id_of packet)" "watched_ok ?z"
    "ge_zone ?rd = watchTopic (deriveTopicHash tail_sodium ?k) ?z" "4 \<in> set (gs_listeners (onMessage 4 gossip_init))"
    by (simp_all add: gossip_init_def onMessage_def seen_has_def watched_ok_def zone_init_def)
  have th: "to_isListening ?s" "to_boardId ?s = Some ''tech''" "to_threadId ?s = Some ''t1''" "to_threadKey ?s = Some ?k"
    "dg_threadId (to_dag ?s) = ''t1''" "packet_id_of packet \<notin> set (to_seenPacketIds ?s)"
    by (simp_all add: to_init_def dag_new_def)
  have new: "\<not> jm_has (dg_nodes (to_dag (snd (to_run [(?e, ToGossip packet)] ?s)))) (packet_id_of packet)"
    by (simp add: effects_def to_onGossipPacket_def to_new_def to_handle_def to_wait_def to_continue_def to_done_def dag_new_def
        jm_has_def)
  have st: "\<forall>(e, ev) \<in> set ([] :: (orch_env \<times> to_event) list). stays (to_seq ?s) ev" by simp
  have env: "ov_S ?e = tail_sodium" "ov_M ?e = post_msgpack" by simp_all
  define s2 where "s2 = step_state (to_exec ?e (ToResume (to_seq ?s) toy_draw) (snd (to_run [(?e, ToGossip packet)] ?s)))"
  note all = reply_reaches_readers [OF b(1) req tail_laws(1-4) sz(7) rt sz(1) b(2) sz(2-6) cl ex rd th refl st new env s2_def, of "''me''"]
  obtain fx g' where 1: "handleExitFluff tail_sodium toy_env packet gossip_init = Inr (fx, g')"
    "SendGossip (gs_peerId ?q) (JObj [(''packet'', packet)]) \<in> set fx"
    using conjunct1 [OF all] by blast
  obtain fx' h' where 2: "handleGossip tail_sodium ?rd ''me'' (JObj [(''packet'', packet)]) (onMessage 4 gossip_init) = Inr (fx', h')"
    "DeliverTo 4 packet \<in> set fx'"
    using conjunct1 [OF conjunct2 [OF all]] by blast
  obtain n where 3: "jm_get (dg_nodes (to_dag s2)) (packet_id_of packet) = Some n"
    "list_all (\<lambda>(f, v). f = ''thread_root'' \<or> jget (JObj (dp_rest n)) f = v)
      (post_fields toy_req (roundToMinute 1700000000000) (identity_sign tail_sodium toy_writer
        (mp_encode post_msgpack (JObj (signed_obj toy_req (roundToMinute 1700000000000))))))"
    using conjunct2 [OF conjunct2 [OF all]] by blast
  have "jget (JObj (dp_rest n)) ''content'' = JStr ''hello''"
    using 3(2) by (simp add: post_fields_def signed_obj_def toy_req_def)
  with 1(1) 1(2) [unfolded gossip_peer.select_convs] 2 3(1) show ?thesis by (intro exI conjI)
qed

end
